(* ===== verification/Prelude.thy ===== *)
theory Prelude
  imports Complex_Main
begin

text \<open>
  Vocabulary and lemmas that every component theory shares.

  \<^item> \<open>ms\<close> is a point in time or a duration in milliseconds (\<open>Date.now()\<close> and friends),
    an unbounded integer; \<open>num\<close>-valued data of the code (prices, amounts, ratios) are
    \<open>real\<close>: the algorithms are read over exact arithmetic, rounding of IEEE doubles and
    the values \<open>NaN\<close> and \<open>Infinity\<close> are outside the model.
  \<^item> \<open>Js_Map\<close> style collections live in the theory of that name; here are only facts
    about lists, options and folds.
  \<^item> the collections \<open>map_laws\<close>, \<open>inv_intros\<close> and \<open>date_simps\<close> are filled by the theories
    that prove the facts and are used by \<open>simp\<close> and \<open>auto\<close> in the components.
\<close>

type_synonym ms = int

named_theorems map_laws \<open>lookup laws of the insertion-ordered map\<close>
named_theorems inv_intros \<open>preservation facts for component invariants\<close>
named_theorems date_simps \<open>calendar fields of a shifted time stamp\<close>

section \<open>Lists as the code uses them\<close>

text \<open>\<open>xs.slice(-n)\<close> for \<open>n > 0\<close>: the last \<open>n\<close> elements, or all when there are fewer.\<close>

definition slice_last :: "nat \<Rightarrow> 'a list \<Rightarrow> 'a list" where
  "slice_last n xs = drop (length xs - n) xs"

text \<open>\<open>xs.slice(i, j)\<close> for \<open>0 <= i <= j\<close>.\<close>

definition slice :: "nat \<Rightarrow> nat \<Rightarrow> 'a list \<Rightarrow> 'a list" where
  "slice i j xs = take (j - i) (drop i xs)"

lemma length_slice_last [simp]: "length (slice_last n xs) = min n (length xs)"
  by (simp add: slice_last_def)

lemma set_slice_last: "set (slice_last n xs) \<subseteq> set xs"
  by (simp add: slice_last_def set_drop_subset)

lemma length_slice [simp]: "length (slice i j xs) = min (j - i) (length xs - i)"
  by (simp add: slice_def)

lemma set_slice: "set (slice i j xs) \<subseteq> set xs"
  unfolding slice_def by (meson order_trans set_drop_subset set_take_subset)

lemma nth_slice: "k < length (slice i j xs) \<Longrightarrow> slice i j xs ! k = xs ! (i + k)"
  by (auto simp: slice_def)

text \<open>An indexed walk over a list, \<open>for (let i = ...; i < xs.length; i += 1)\<close>.\<close>

primrec fold_idx :: "(nat \<Rightarrow> 'a \<Rightarrow> 's \<Rightarrow> 's) \<Rightarrow> nat \<Rightarrow> 'a list \<Rightarrow> 's \<Rightarrow> 's" where
  "fold_idx f i [] s = s"
| "fold_idx f i (x # xs) s = fold_idx f (Suc i) xs (f i x s)"

lemma fold_idx_invariant:
  assumes "P i s"
    and "\<And>k x s. i \<le> k \<Longrightarrow> k < i + length xs \<Longrightarrow> x = xs ! (k - i) \<Longrightarrow> P k s \<Longrightarrow> P (Suc k) (f k x s)"
  shows "P (i + length xs) (fold_idx f i xs s)"
  using assms
proof (induction xs arbitrary: i s)
  case Nil
  then show ?case by simp
next
  case (Cons a xs)
  have "P (Suc i) (f i a s)"
    using Cons.prems(2)[of i a s] Cons.prems(1) by simp
  moreover have "P (Suc k) (f k x s')"
    if "Suc i \<le> k" "k < Suc i + length xs" "x = xs ! (k - Suc i)" "P k s'" for k x s'
    using Cons.prems(2)[of k x s'] that by (simp add: Suc_diff_le[symmetric] nth_Cons')
  ultimately show ?case
    using Cons.IH[of "Suc i" "f i a s"] by simp
qed

lemma fold_idx_append:
  "fold_idx f i (xs @ ys) s = fold_idx f (i + length xs) ys (fold_idx f i xs s)"
  by (induction xs arbitrary: i s) simp_all

lemma foldl_invariant:
  assumes "P s" and "\<And>s x. x \<in> set xs \<Longrightarrow> P s \<Longrightarrow> P (f s x)"
  shows "P (foldl f s xs)"
  using assms by (induction xs arbitrary: s) auto

lemma sum_list_eq_sum_nth: "sum_list (map f xs) = (\<Sum>i<length xs. f (xs ! i) :: real)"
  by (simp add: sum_list_sum_nth atLeast0LessThan)

text \<open>The last element that satisfies a test, scanning from the end.\<close>

definition find_last :: "('a \<Rightarrow> bool) \<Rightarrow> 'a list \<Rightarrow> 'a option" where
  "find_last P xs = List.find P (rev xs)"

lemma find_last_Some: "find_last P xs = Some x \<Longrightarrow> P x \<and> x \<in> set xs"
  unfolding find_last_def find_Some_iff by (metis length_rev nth_mem set_rev)

lemma find_last_None: "find_last P xs = None \<longleftrightarrow> (\<forall>x\<in>set xs. \<not> P x)"
  by (auto simp: find_last_def find_None_iff)

lemma find_last_Nil [simp]: "find_last P [] = None"
  by (simp add: find_last_def)

lemma find_last_snoc: "find_last P (xs @ [x]) = (if P x then Some x else find_last P xs)"
  by (simp add: find_last_def)

section \<open>Time stamps and the UTC calendar\<close>

text \<open>
  The accessors of ECMAScript's \<open>Date\<close> that the code reads, as the language defines them on
  the time value: day number, week day (0 is Sunday), hour and minute of the day in UTC.
\<close>

definition utcDay :: "ms \<Rightarrow> int" where
  "utcDay t = t div 86400000"

definition getUTCDay :: "ms \<Rightarrow> int" where
  "getUTCDay t = (utcDay t + 4) mod 7"

definition getUTCHours :: "ms \<Rightarrow> int" where
  "getUTCHours t = t div 3600000 mod 24"

definition getUTCMinutes :: "ms \<Rightarrow> int" where
  "getUTCMinutes t = t div 60000 mod 60"

text \<open>Minute of the week, Sunday 00:00 UTC being 0: the three accessors are read off it.\<close>

definition minuteOfWeek :: "ms \<Rightarrow> int" where
  "minuteOfWeek t = (t div 60000 + 5760) mod 10080"

lemma minuteOfWeek_bounds: "0 \<le> minuteOfWeek t" "minuteOfWeek t < 10080"
  by (simp_all add: minuteOfWeek_def)

lemma getUTCHours_minute: "getUTCHours t = (t div 60000) div 60 mod 24"
  unfolding getUTCHours_def by (simp add: div_mult2_eq[symmetric] zdiv_zmult2_eq[symmetric])

lemma getUTCDay_minute: "getUTCDay t = ((t div 60000) div 1440 + 4) mod 7"
  unfolding getUTCDay_def utcDay_def by (simp add: zdiv_zmult2_eq[symmetric])

lemma minuteOfWeek_split:
  "minuteOfWeek t = 1440 * ((t div 60000 div 1440 + 4) mod 7) + t div 60000 mod 1440"
proof -
  define m where "m = t div 60000"
  have "(m + 5760) mod (1440 * 7) = 1440 * ((m + 5760) div 1440 mod 7) + (m + 5760) mod 1440"
    by (rule zmod_zmult2_eq) simp
  moreover have "(m + 5760) div 1440 = m div 1440 + 4" "(m + 5760) mod 1440 = m mod 1440"
    using div_mult_self1[of 1440 m 4] mod_mult_self1[of m 4 1440] by simp_all
  ultimately show ?thesis
    unfolding minuteOfWeek_def m_def by simp
qed

lemma calendar_of_minuteOfWeek [date_simps]:
  "getUTCDay t = minuteOfWeek t div 1440"
  "getUTCHours t = minuteOfWeek t mod 1440 div 60"
  "getUTCMinutes t = minuteOfWeek t mod 60"
proof -
  define m where "m = t div 60000"
  have r: "0 \<le> m mod 1440" "m mod 1440 < 1440"
    by simp_all
  show "getUTCDay t = minuteOfWeek t div 1440"
    using r unfolding getUTCDay_minute minuteOfWeek_split m_def[symmetric] by simp
  have "m mod (60 * 24) div 60 = m div 60 mod 24"
    by (subst zmod_zmult2_eq) simp_all
  then show "getUTCHours t = minuteOfWeek t mod 1440 div 60"
    using r unfolding getUTCHours_minute minuteOfWeek_split m_def[symmetric] by simp
  have "(1440 * x + y) mod 60 = y mod 60" for x y :: int
    using mod_mult_self4[of 60 "24 * x" y] by (simp add: mult.commute mult.left_commute)
  moreover have "m mod 1440 mod 60 = m mod 60"
    by (simp add: mod_mod_cancel)
  ultimately show "getUTCMinutes t = minuteOfWeek t mod 60"
    unfolding getUTCMinutes_def minuteOfWeek_split m_def[symmetric] by simp
qed

lemma minuteOfWeek_advance:
  "minuteOfWeek t' = (minuteOfWeek t + (t' div 60000 - t div 60000)) mod 10080"
proof -
  have "minuteOfWeek t + (t' div 60000 - t div 60000)
      = (t div 60000 + 5760) mod 10080 + (t' div 60000 - t div 60000)"
    by (simp add: minuteOfWeek_def)
  then have "(minuteOfWeek t + (t' div 60000 - t div 60000)) mod 10080
      = (t div 60000 + 5760 + (t' div 60000 - t div 60000)) mod 10080"
    by (simp only: mod_add_left_eq)
  also have "t div 60000 + 5760 + (t' div 60000 - t div 60000) = t' div 60000 + 5760"
    by simp
  finally show ?thesis by (simp add: minuteOfWeek_def)
qed

lemma find_Some_prop: "List.find P xs = Some x \<Longrightarrow> P x \<and> x \<in> set xs"
  by (induction xs) (auto split: if_splits)

lemma remdups_adj_snoc:
  "remdups_adj (xs @ [x]) = (if xs \<noteq> [] \<and> last xs = x then remdups_adj xs else remdups_adj xs @ [x])"
  by (induction xs rule: remdups_adj.induct) auto

end
