(* ===== verification/Js_Map.thy ===== *)
theory Js_Map
  imports Prelude
begin

text \<open>
  The insertion-ordered \<open>Map\<close> of the language, which most of the stateful components are
  built on: an association list in insertion order. \<open>set\<close> on a key that is present keeps the
  key's position, \<open>delete\<close> followed by \<open>set\<close> moves it to the end, and iteration follows the
  list. The locale \<open>keyed_store\<close> is the interface the components rely on; the association
  list is its model, and each component reaches the laws through the interpretation \<open>jm\<close>.
\<close>

type_synonym ('k, 'v) js_map = "('k \<times> 'v) list"

definition js_get :: "('k, 'v) js_map \<Rightarrow> 'k \<Rightarrow> 'v option" where
  "js_get m k = map_of m k"

definition js_has :: "('k, 'v) js_map \<Rightarrow> 'k \<Rightarrow> bool" where
  "js_has m k \<longleftrightarrow> js_get m k \<noteq> None"

fun js_set :: "'k \<Rightarrow> 'v \<Rightarrow> ('k, 'v) js_map \<Rightarrow> ('k, 'v) js_map" where
  "js_set k v [] = [(k, v)]"
| "js_set k v ((k', v') # m) = (if k' = k then (k, v) # m else (k', v') # js_set k v m)"

definition js_delete :: "'k \<Rightarrow> ('k, 'v) js_map \<Rightarrow> ('k, 'v) js_map" where
  "js_delete k m = filter (\<lambda>p. fst p \<noteq> k) m"

definition js_keys :: "('k, 'v) js_map \<Rightarrow> 'k list" where
  "js_keys m = map fst m"

definition js_wf :: "('k, 'v) js_map \<Rightarrow> bool" where
  "js_wf m \<longleftrightarrow> distinct (js_keys m)"

text \<open>\<open>for (const [k, v] of m) if (P(k, v)) m.delete(k)\<close>: every entry is visited once.\<close>

definition js_prune :: "('k \<Rightarrow> 'v \<Rightarrow> bool) \<Rightarrow> ('k, 'v) js_map \<Rightarrow> ('k, 'v) js_map" where
  "js_prune P m = filter (\<lambda>(k, v). \<not> P k v) m"

section \<open>The interface\<close>

locale keyed_store =
  fixes lookup :: "'m \<Rightarrow> 'k \<Rightarrow> 'v option"
    and put :: "'k \<Rightarrow> 'v \<Rightarrow> 'm \<Rightarrow> 'm"
    and drop_key :: "'k \<Rightarrow> 'm \<Rightarrow> 'm"
    and wf :: "'m \<Rightarrow> bool"
  assumes lookup_put: "lookup (put k v m) k' = (if k' = k then Some v else lookup m k')"
    and lookup_drop: "lookup (drop_key k m) k' = (if k' = k then None else lookup m k')"
    and wf_put: "wf m \<Longrightarrow> wf (put k v m)"
    and wf_drop: "wf m \<Longrightarrow> wf (drop_key k m)"
begin

lemma put_frame: "k' \<noteq> k \<Longrightarrow> lookup (put k v m) k' = lookup m k'"
  by (simp add: lookup_put)

lemma drop_put: "lookup (drop_key k (put k v m)) = lookup (drop_key k m)"
  by (rule ext) (simp add: lookup_put lookup_drop)

text \<open>A batch of writes leaves at each key the last value written there.\<close>

lemma lookup_put_list:
  "lookup (foldl (\<lambda>m p. put (fst p) (snd p) m) m ps) k
     = (case map_of (rev ps) k of None \<Rightarrow> lookup m k | Some v \<Rightarrow> Some v)"
proof (induction ps arbitrary: m)
  case Nil
  then show ?case by simp
next
  case (Cons p ps)
  show ?case
    by (cases p) (simp add: Cons lookup_put map_add_def split: option.splits)
qed

lemma wf_put_list: "wf m \<Longrightarrow> wf (foldl (\<lambda>m p. put (fst p) (snd p) m) m ps)"
  by (rule foldl_invariant[where P = wf]) (auto intro: wf_put)

end

section \<open>The association list satisfies it\<close>

lemma js_get_Nil [simp]: "js_get [] k = None"
  by (simp add: js_get_def)

lemma js_get_Cons [simp]: "js_get ((k', v) # m) k = (if k = k' then Some v else js_get m k)"
  by (auto simp: js_get_def)

lemma js_get_set [map_laws]: "js_get (js_set k v m) k' = (if k' = k then Some v else js_get m k')"
  by (induction k v m rule: js_set.induct) auto

lemma js_get_delete [map_laws]: "js_get (js_delete k m) k' = (if k' = k then None else js_get m k')"
  by (induction m) (auto simp: js_delete_def)

lemma set_js_keys_set [simp]: "set (js_keys (js_set k v m)) = insert k (set (js_keys m))"
  by (induction k v m rule: js_set.induct) (auto simp: js_keys_def)

lemma set_js_keys_delete [simp]: "set (js_keys (js_delete k m)) = set (js_keys m) - {k}"
  by (auto simp: js_keys_def js_delete_def)

lemma js_keys_set:
  "js_keys (js_set k v m) = (if k \<in> set (js_keys m) then js_keys m else js_keys m @ [k])"
  by (induction k v m rule: js_set.induct) (auto simp: js_keys_def)

lemma js_wf_Nil [simp]: "js_wf []"
  by (simp add: js_wf_def js_keys_def)

lemma js_wf_set [inv_intros]: "js_wf m \<Longrightarrow> js_wf (js_set k v m)"
  by (simp add: js_wf_def js_keys_set)

lemma js_wf_filter [inv_intros]: "js_wf m \<Longrightarrow> js_wf (filter P m)"
  by (induction m) (auto simp: js_wf_def js_keys_def)

lemma js_wf_delete [inv_intros]: "js_wf m \<Longrightarrow> js_wf (js_delete k m)"
  by (simp add: js_delete_def js_wf_filter)

lemma js_wf_prune [inv_intros]: "js_wf m \<Longrightarrow> js_wf (js_prune P m)"
  by (simp add: js_prune_def js_wf_filter)

lemma js_get_in_keys: "js_get m k = Some v \<Longrightarrow> k \<in> set (js_keys m)"
  by (induction m) (auto simp: js_keys_def split: if_splits)

lemma js_get_None_iff: "js_get m k = None \<longleftrightarrow> k \<notin> set (js_keys m)"
  by (simp add: js_get_def js_keys_def map_of_eq_None_iff)

lemma js_get_in_set: "js_wf m \<Longrightarrow> js_get m k = Some v \<longleftrightarrow> (k, v) \<in> set m"
  by (simp add: js_get_def js_wf_def js_keys_def)

lemma js_get_prune [map_laws]:
  assumes "js_wf m"
  shows "js_get (js_prune P m) k
    = (case js_get m k of None \<Rightarrow> None | Some v \<Rightarrow> if P k v then None else Some v)"
proof (cases "js_get (js_prune P m) k")
  case None
  have "\<not> (case js_get m k of None \<Rightarrow> False | Some v \<Rightarrow> \<not> P k v)"
  proof
    assume "case js_get m k of None \<Rightarrow> False | Some v \<Rightarrow> \<not> P k v"
    then obtain v where "js_get m k = Some v" "\<not> P k v"
      by (auto split: option.splits)
    then have "js_get (js_prune P m) k = Some v"
      using assms by (simp add: js_get_in_set js_wf_prune) (simp add: js_prune_def)
    with None show False by simp
  qed
  with None show ?thesis by (auto split: option.splits)
next
  case (Some v)
  then have "(k, v) \<in> set m" "\<not> P k v"
    using js_wf_prune[OF assms, of P] by (auto simp: js_get_in_set js_prune_def)
  then show ?thesis using Some assms js_get_in_set[of m k v] by auto
qed

lemma length_js_set:
  "length (js_set k v m) = (if k \<in> set (js_keys m) then length m else Suc (length m))"
  using arg_cong[OF js_keys_set[of k v m], of length] by (simp add: js_keys_def)

lemma length_js_delete:
  "js_wf m \<Longrightarrow> k \<in> set (js_keys m) \<Longrightarrow> Suc (length (js_delete k m)) = length m"
proof (induction m)
  case Nil
  then show ?case by (simp add: js_keys_def)
next
  case (Cons p m)
  then have "fst p \<notin> fst ` set m"
    by (simp add: js_wf_def js_keys_def)
  then have "\<forall>q\<in>set m. fst q \<noteq> k" if "fst p = k"
    using that by (metis image_eqI)
  then have "js_delete k m = m" if "fst p = k"
    using that by (simp add: js_delete_def filter_id_conv)
  with Cons show ?case
    by (cases "fst p = k") (force simp: js_delete_def js_wf_def js_keys_def)+
qed

lemma js_delete_absent: "k \<notin> set (js_keys m) \<Longrightarrow> js_delete k m = m"
  by (induction m) (auto simp: js_delete_def js_keys_def)

text \<open>A sum over the entries changes by the entry that is replaced.\<close>

lemma sum_list_js_set:
  fixes f :: "'k \<times> 'v \<Rightarrow> int"
  shows "sum_list (map f (js_set k v m))
    = sum_list (map f m) - (case js_get m k of None \<Rightarrow> 0 | Some w \<Rightarrow> f (k, w)) + f (k, v)"
  by (induction k v m rule: js_set.induct) (auto split: option.splits)

lemma js_set_in: "(k, v) \<in> set (js_set k v m)"
  by (induction k v m rule: js_set.induct) auto

lemma set_js_set: "set (js_set k v m) \<subseteq> insert (k, v) (set m)"
  by (induction k v m rule: js_set.induct) auto

interpretation jm: keyed_store js_get js_set js_delete js_wf
  by unfold_locales (simp_all add: map_laws inv_intros)

lemmas js_map_simps = map_laws js_has_def js_get_Nil js_get_Cons

end
