(* ===== verification/Js_String.thy ===== *)
theory Js_String
  imports Prelude
begin

text \<open>
  The string operations of the language that the components use, on strings of single-byte
  (ASCII) characters: \<open>trim\<close>, \<open>toUpperCase\<close>, \<open>toLowerCase\<close>, \<open>startsWith\<close>, \<open>endsWith\<close>,
  \<open>split\<close> and \<open>join\<close>.
\<close>

definition is_ws :: "char \<Rightarrow> bool" where
  "is_ws c \<longleftrightarrow> of_char c \<in> {9, 10, 11, 12, 13, 32 :: nat}"

definition js_trim :: "string \<Rightarrow> string" where
  "js_trim s = rev (dropWhile is_ws (rev (dropWhile is_ws s)))"

definition upper_char :: "char \<Rightarrow> char" where
  "upper_char c = (if 97 \<le> (of_char c :: nat) \<and> (of_char c :: nat) \<le> 122
     then char_of (of_char c - 32 :: nat) else c)"

definition lower_char :: "char \<Rightarrow> char" where
  "lower_char c = (if 65 \<le> (of_char c :: nat) \<and> (of_char c :: nat) \<le> 90
     then char_of (of_char c + 32 :: nat) else c)"

definition toUpperCase :: "string \<Rightarrow> string" where
  "toUpperCase s = map upper_char s"

definition toLowerCase :: "string \<Rightarrow> string" where
  "toLowerCase s = map lower_char s"

definition endsWith :: "string \<Rightarrow> string \<Rightarrow> bool" where
  "endsWith s suffix \<longleftrightarrow> length suffix \<le> length s \<and> drop (length s - length suffix) s = suffix"

definition startsWith :: "string \<Rightarrow> string \<Rightarrow> bool" where
  "startsWith s p \<longleftrightarrow> take (length p) s = p"

text \<open>\<open>s.split(sep)\<close> for a one-character separator; \<open>''.split(sep)\<close> is \<open>['']\<close>.\<close>

fun js_split :: "char \<Rightarrow> string \<Rightarrow> string list" where
  "js_split sep [] = [[]]"
| "js_split sep (c # s) =
     (if c = sep then [] # js_split sep s
      else (case js_split sep s of [] \<Rightarrow> [[c]] | w # ws \<Rightarrow> (c # w) # ws))"

fun js_join :: "char \<Rightarrow> string list \<Rightarrow> string" where
  "js_join sep [] = []"
| "js_join sep [w] = w"
| "js_join sep (w # ws) = w @ sep # js_join sep ws"

section \<open>Trimming and case\<close>

lemma upper_char_idem [simp]: "upper_char (upper_char c) = upper_char c"
  by (auto simp: upper_char_def)

lemma is_ws_upper [simp]: "is_ws (upper_char c) = is_ws c"
  by (auto simp: upper_char_def is_ws_def)

lemma toUpperCase_idem [simp]: "toUpperCase (toUpperCase s) = toUpperCase s"
  by (simp add: toUpperCase_def)

lemma dropWhile_map_ws:
  "dropWhile is_ws (map upper_char s) = map upper_char (dropWhile is_ws s)"
  by (simp add: dropWhile_map o_def)

lemma js_trim_upper: "js_trim (toUpperCase s) = toUpperCase (js_trim s)"
  by (simp add: js_trim_def toUpperCase_def dropWhile_map_ws rev_map)

lemma dropWhile_rev_dropWhile:
  "dropWhile P (rev (dropWhile P (rev (dropWhile P s)))) = rev (dropWhile P (rev (dropWhile P s)))"
proof (cases "dropWhile P (rev (dropWhile P s)) = []")
  case False
  define u where "u = rev (dropWhile P (rev (dropWhile P s)))"
  have "u \<noteq> []"
    using False by (simp add: u_def)
  moreover obtain v where v: "dropWhile P s = u @ v"
    using takeWhile_dropWhile_id[of P "rev (dropWhile P s)"]
    by (metis rev_append rev_rev_ident u_def)
  ultimately have "\<not> P (hd u)"
    by (metis append_is_Nil_conv hd_append2 hd_dropWhile)
  with \<open>u \<noteq> []\<close> show ?thesis
    unfolding u_def[symmetric] by (cases u) simp_all
next
  case True
  show ?thesis by (simp only: True rev.simps dropWhile.simps)
qed

lemma js_trim_idem [simp]: "js_trim (js_trim s) = js_trim s"
proof -
  have "dropWhile is_ws (js_trim s) = js_trim s"
    by (simp add: js_trim_def dropWhile_rev_dropWhile)
  then show ?thesis
    by (simp add: js_trim_def)
qed

section \<open>Splitting and joining\<close>

lemma js_split_nonempty [simp]: "js_split sep s \<noteq> []"
  by (induction s) (auto split: list.splits)

lemma js_join_split: "js_join sep (js_split sep s) = s"
proof (induction s)
  case Nil
  then show ?case by simp
next
  case (Cons c s)
  obtain w ws where "js_split sep s = w # ws"
    by (cases "js_split sep s") simp_all
  with Cons show ?case
    by (cases ws) auto
qed

lemma js_split_no_sep: "sep \<notin> set s \<Longrightarrow> js_split sep s = [s]"
  by (induction s) auto

lemma js_split_append: "sep \<notin> set w \<Longrightarrow> js_split sep (w @ sep # s) = w # js_split sep s"
  by (induction w) auto

lemma js_split_join:
  "ws \<noteq> [] \<Longrightarrow> \<forall>w\<in>set ws. sep \<notin> set w \<Longrightarrow> js_split sep (js_join sep ws) = ws"
  by (induction sep ws rule: js_join.induct) (auto simp: js_split_no_sep js_split_append)

end
