(* ===== verification/Js_Regex.thy ===== *)
theory Js_Regex
  imports Js_String
begin

text \<open>
  Regular expressions as the program uses them, to test whether a text contains a match:
  character classes, sequence, choice, repetition and the word boundary. A position is the
  character before it, if any, and the rest of the text. \<open>rx_ends\<close> computes all positions a match
  can end at; \<open>rx_rel\<close> is the relation it computes. A pattern with the flag \<open>i\<close> is written in
  lower case and tested on the lower-cased text. Characters outside ASCII have no case here.
\<close>

section \<open>Syntax\<close>

datatype char_class =
    CSet string      \<comment> \<open>one of these\<close>
  | CSpace           \<comment> \<open>\<open>\s\<close>\<close>
  | CWord            \<comment> \<open>\<open>\w\<close>\<close>
  | CDigit           \<comment> \<open>\<open>\d\<close>\<close>
  | CAny             \<comment> \<open>\<open>[\s\S]\<close>\<close>

datatype rx =
    Eps
  | One char_class
  | Cat rx rx
  | Or rx rx
  | Many rx            \<comment> \<open>\<open>*\<close>\<close>
  | UpTo nat rx        \<comment> \<open>\<open>{0,n}\<close>\<close>
  | WordB              \<comment> \<open>\<open>\b\<close>\<close>

type_synonym rx_pos = "char option \<times> string"

definition is_word_char :: "char \<Rightarrow> bool" where
  "is_word_char c \<longleftrightarrow> (let n = (of_char c :: nat) in
     48 \<le> n \<and> n \<le> 57 \<or> 65 \<le> n \<and> n \<le> 90 \<or> 97 \<le> n \<and> n \<le> 122 \<or> n = 95)"

definition is_digit_char :: "char \<Rightarrow> bool" where
  "is_digit_char c \<longleftrightarrow> (let n = (of_char c :: nat) in 48 \<le> n \<and> n \<le> 57)"

fun class_has :: "char_class \<Rightarrow> char \<Rightarrow> bool" where
  "class_has (CSet cs) c \<longleftrightarrow> c \<in> set cs"
| "class_has CSpace c \<longleftrightarrow> is_ws c"
| "class_has CWord c \<longleftrightarrow> is_word_char c"
| "class_has CDigit c \<longleftrightarrow> is_digit_char c"
| "class_has CAny c \<longleftrightarrow> True"

definition at_boundary :: "rx_pos \<Rightarrow> bool" where
  "at_boundary p = ((case fst p of None \<Rightarrow> False | Some c \<Rightarrow> is_word_char c)
     \<noteq> (case snd p of [] \<Rightarrow> False | c # _ \<Rightarrow> is_word_char c))"

section \<open>Matching\<close>

text \<open>Up to \<open>n\<close> rounds, each of which consumes something.\<close>

fun rounds :: "(rx_pos \<Rightarrow> rx_pos list) \<Rightarrow> nat \<Rightarrow> rx_pos \<Rightarrow> rx_pos list" where
  "rounds f 0 p = [p]"
| "rounds f (Suc n) p = p # concat (map (rounds f n) (filter (\<lambda>q. length (snd q) < length (snd p)) (f p)))"

fun rx_ends :: "rx \<Rightarrow> rx_pos \<Rightarrow> rx_pos list" where
  "rx_ends Eps p = [p]"
| "rx_ends (One cl) (b, s) = (case s of [] \<Rightarrow> [] | c # cs \<Rightarrow> if class_has cl c then [(Some c, cs)] else [])"
| "rx_ends (Cat r1 r2) p = concat (map (rx_ends r2) (rx_ends r1 p))"
| "rx_ends (Or r1 r2) p = rx_ends r1 p @ rx_ends r2 p"
| "rx_ends (Many r) p = rounds (rx_ends r) (length (snd p)) p"
| "rx_ends (UpTo n r) p = rounds (rx_ends r) n p"
| "rx_ends WordB p = (if at_boundary p then [p] else [])"

fun rx_search :: "rx \<Rightarrow> char option \<Rightarrow> string \<Rightarrow> bool" where
  "rx_search r b [] = (rx_ends r (b, []) \<noteq> [])"
| "rx_search r b (c # cs) = (rx_ends r (b, c # cs) \<noteq> [] \<or> rx_search r (Some c) cs)"

text \<open>\<open>/r/.test(s)\<close>, and with the flag \<open>i\<close> for a pattern in lower case.\<close>

definition rx_test :: "rx \<Rightarrow> string \<Rightarrow> bool" where
  "rx_test r s = rx_search r None s"

definition rx_test_i :: "rx \<Rightarrow> string \<Rightarrow> bool" where
  "rx_test_i r s = rx_test r (toLowerCase s)"

section \<open>Abbreviations for patterns\<close>

fun lit :: "string \<Rightarrow> rx" where
  "lit [] = Eps"
| "lit [c] = One (CSet [c])"
| "lit (c # cs) = Cat (One (CSet [c])) (lit cs)"

fun alt :: "rx list \<Rightarrow> rx" where
  "alt [] = UpTo 0 Eps"
| "alt [r] = r"
| "alt (r # rs) = Or r (alt rs)"

fun seq :: "rx list \<Rightarrow> rx" where
  "seq [] = Eps"
| "seq [r] = r"
| "seq (r # rs) = Cat r (seq rs)"

definition ws0 :: rx where "ws0 = Many (One CSpace)"

definition ws1 :: rx where "ws1 = Cat (One CSpace) (Many (One CSpace))"

definition opt :: "rx \<Rightarrow> rx" where "opt r = Or r Eps"

definition words_of :: "string list \<Rightarrow> rx" where
  "words_of ws = alt (map lit ws)"

text \<open>\<open>\b(...)\b\<close>.\<close>

definition whole :: "rx \<Rightarrow> rx" where
  "whole r = seq [WordB, r, WordB]"

section \<open>The relation\<close>

fun rx_rel :: "rx \<Rightarrow> rx_pos \<Rightarrow> rx_pos \<Rightarrow> bool" where
  "rx_rel Eps p q \<longleftrightarrow> q = p"
| "rx_rel (One cl) p q \<longleftrightarrow> (\<exists>c. snd p = c # snd q \<and> fst q = Some c \<and> class_has cl c)"
| "rx_rel (Cat r1 r2) p q \<longleftrightarrow> (\<exists>m. rx_rel r1 p m \<and> rx_rel r2 m q)"
| "rx_rel (Or r1 r2) p q \<longleftrightarrow> rx_rel r1 p q \<or> rx_rel r2 p q"
| "rx_rel (Many r) p q \<longleftrightarrow> (\<lambda>a b. rx_rel r a b \<and> length (snd b) < length (snd a))\<^sup>*\<^sup>* p q"
| "rx_rel (UpTo n r) p q \<longleftrightarrow> (\<exists>k\<le>n. ((\<lambda>a b. rx_rel r a b \<and> length (snd b) < length (snd a)) ^^ k) p q)"
| "rx_rel WordB p q \<longleftrightarrow> q = p \<and> at_boundary p"

lemma relpowp_front: "(R ^^ Suc k) p q \<longleftrightarrow> (\<exists>m. R p m \<and> (R ^^ k) m q)"
  by (metis relcompp_apply relpowp.simps(2) relpowp_commute)

lemma rounds_iff:
  assumes "\<And>p q. q \<in> set (f p) \<longleftrightarrow> R p q"
  shows "q \<in> set (rounds f n p) \<longleftrightarrow> (\<exists>k\<le>n. ((\<lambda>a b. R a b \<and> length (snd b) < length (snd a)) ^^ k) p q)"
proof (induction n arbitrary: p)
  case 0
  then show ?case by auto
next
  case (Suc n)
  let ?S = "\<lambda>a b. R a b \<and> length (snd b) < length (snd a)"
  have "q \<in> set (rounds f (Suc n) p) \<longleftrightarrow> q = p \<or> (\<exists>m. ?S p m \<and> (\<exists>k\<le>n. (?S ^^ k) m q))"
    using Suc by (auto simp: assms)
  also have "\<dots> \<longleftrightarrow> q = p \<or> (\<exists>k\<le>n. (?S ^^ Suc k) p q)"
    unfolding relpowp_front by blast
  also have "\<dots> \<longleftrightarrow> (\<exists>k\<le>Suc n. (?S ^^ k) p q)"
    by (metis (no_types, lifting) Suc_le_mono le_0_eq le_SucI not0_implies_Suc relpowp_0_E relpowp_0_I zero_le)
  finally show ?case .
qed

lemma shrinking_steps:
  fixes R :: "rx_pos \<Rightarrow> rx_pos \<Rightarrow> bool"
  shows "((\<lambda>a b. R a b \<and> length (snd b) < length (snd a)) ^^ k) p q \<Longrightarrow> k + length (snd q) \<le> length (snd p)"
proof (induction k arbitrary: q)
  case 0
  then show ?case by simp
next
  case (Suc k)
  then obtain m where m: "((\<lambda>a b. R a b \<and> length (snd b) < length (snd a)) ^^ k) p m" "length (snd q) < length (snd m)"
    by (metis (no_types, lifting) relpowp_Suc_E)
  show ?case using Suc.IH[OF m(1)] m(2) by simp
qed

lemma rx_ends_iff: "q \<in> set (rx_ends r p) \<longleftrightarrow> rx_rel r p q"
proof (induction r arbitrary: p q)
  case (One cl)
  then show ?case by (cases p; cases q; cases "snd p") auto
next
  case (Cat r1 r2)
  then show ?case by (simp add: Bex_def del: split_paired_Ex)
next
  case (Many r)
  let ?S = "\<lambda>a b. rx_rel r a b \<and> length (snd b) < length (snd a)"
  have "(\<exists>k\<le>length (snd p). (?S ^^ k) p q) \<longleftrightarrow> ?S\<^sup>*\<^sup>* p q"
    using shrinking_steps[where R = "rx_rel r" and p = p and q = q]
    by (auto simp: rtranclp_power) (meson add_leE)
  then show ?case
    using rounds_iff[of "rx_ends r" "rx_rel r", OF Many] by simp
next
  case (UpTo n r)
  then show ?case
    using rounds_iff[of "rx_ends r" "rx_rel r", OF UpTo] by simp
qed auto

text \<open>A test succeeds when the text has a position from which the relation leads somewhere.\<close>

fun positions :: "char option \<Rightarrow> string \<Rightarrow> rx_pos list" where
  "positions b [] = [(b, [])]"
| "positions b (c # cs) = (b, c # cs) # positions (Some c) cs"

lemma positions_split: "p \<in> set (positions b s) \<Longrightarrow> \<exists>u. s = u @ snd p"
proof (induction b s rule: positions.induct)
  case (2 b c cs)
  then show ?case by (auto intro: exI[of _ "[]"] exI[of _ "c # _"])
qed simp

lemma positions_reach: "\<exists>b'. (b', v) \<in> set (positions b (u @ v))"
proof (induction u arbitrary: b)
  case Nil
  then show ?case by (cases v) auto
next
  case (Cons c u)
  then show ?case by auto
qed

lemma rx_ends_nonempty: "rx_ends r p \<noteq> [] \<longleftrightarrow> (\<exists>q. rx_rel r p q)"
  by (simp add: rx_ends_iff[symmetric] ex_in_conv del: split_paired_Ex)

lemma rx_search_iff: "rx_search r b s \<longleftrightarrow> (\<exists>p\<in>set (positions b s). \<exists>q. rx_rel r p q)"
  by (induction b s rule: positions.induct) (simp_all add: rx_ends_nonempty del: split_paired_Ex)

section \<open>Characters a pattern cannot do without\<close>

text \<open>Every match of the pattern consumes the character.\<close>

fun rx_needs :: "char \<Rightarrow> rx \<Rightarrow> bool" where
  "rx_needs x (One (CSet cs)) = list_all (\<lambda>c. c = x) cs"
| "rx_needs x (Cat r1 r2) = (rx_needs x r1 \<or> rx_needs x r2)"
| "rx_needs x (Or r1 r2) = (rx_needs x r1 \<and> rx_needs x r2)"
| "rx_needs x _ = False"

definition leaves_suffix :: "rx_pos \<Rightarrow> rx_pos \<Rightarrow> bool" where
  "leaves_suffix p q \<longleftrightarrow> (\<exists>u. snd p = u @ snd q)"

lemma leaves_suffix_refl: "leaves_suffix p p"
  by (simp add: leaves_suffix_def)

lemma leaves_suffix_trans: "leaves_suffix p m \<Longrightarrow> leaves_suffix m q \<Longrightarrow> leaves_suffix p q"
  by (metis append_assoc leaves_suffix_def)

lemma leaves_suffix_power:
  assumes "\<And>a b. R a b \<Longrightarrow> leaves_suffix a b"
  shows "((\<lambda>a b. R a b \<and> length (snd b) < length (snd a)) ^^ k) p q \<Longrightarrow> leaves_suffix p q"
proof (induction k arbitrary: q)
  case 0
  then show ?case by (simp add: leaves_suffix_refl)
next
  case (Suc k)
  from Suc.prems obtain m where
    m: "((\<lambda>a b. R a b \<and> length (snd b) < length (snd a)) ^^ k) p m" "R m q"
    by (elim relpowp_Suc_E conjE)
  show ?case by (rule leaves_suffix_trans[OF Suc.IH[OF m(1)] assms[OF m(2)]])
qed

lemma rx_rel_suffix: "rx_rel r p q \<Longrightarrow> leaves_suffix p q"
proof (induction r arbitrary: p q)
  case (One cl)
  then show ?case by (auto simp: leaves_suffix_def)
next
  case (Cat r1 r2)
  from Cat.prems obtain m where m: "rx_rel r1 p m" "rx_rel r2 m q"
    unfolding rx_rel.simps by (elim exE conjE)
  show ?case by (rule leaves_suffix_trans[OF Cat.IH(1)[OF m(1)] Cat.IH(2)[OF m(2)]])
next
  case (Many r)
  from Many.prems obtain k where "((\<lambda>a b. rx_rel r a b \<and> length (snd b) < length (snd a)) ^^ k) p q"
    unfolding rx_rel.simps rtranclp_power by (elim exE)
  from leaves_suffix_power[where R = "rx_rel r", OF _ this] show ?case using Many.IH .
next
  case (UpTo n r)
  from UpTo.prems obtain k where "((\<lambda>a b. rx_rel r a b \<and> length (snd b) < length (snd a)) ^^ k) p q"
    unfolding rx_rel.simps by (elim exE conjE)
  from leaves_suffix_power[where R = "rx_rel r", OF _ this] show ?case using UpTo.IH .
qed (simp_all add: leaves_suffix_refl, elim disjE, simp_all)

lemma rx_needs_consumed: "rx_needs x r \<Longrightarrow> rx_rel r p q \<Longrightarrow> x \<in> set (snd p)"
proof (induction x r arbitrary: p q rule: rx_needs.induct)
  case (1 x cs)
  then show ?case by (auto simp: list_all_iff)
next
  case (2 x r1 r2)
  from 2(4) obtain m where m: "rx_rel r1 p m" "rx_rel r2 m q"
    unfolding rx_rel.simps by (elim exE conjE)
  from rx_rel_suffix[OF m(1)] obtain u where u: "snd p = u @ snd m"
    unfolding leaves_suffix_def by (elim exE)
  show ?case
  proof (cases "rx_needs x r1")
    case True
    show ?thesis by (rule 2(1)[OF True m(1)])
  next
    case False
    then have "x \<in> set (snd m)" using 2(2)[OF _ m(2)] 2(3) by simp
    then show ?thesis by (simp add: u)
  qed
next
  case (3 x r1 r2)
  from 3(3) have "rx_needs x r1" "rx_needs x r2" by simp_all
  then show ?case using 3(1)[of p q] 3(2)[of p q] 3(4) unfolding rx_rel.simps by (elim disjE)
qed simp_all

lemma positions_suffix: "p \<in> set (positions b s) \<Longrightarrow> set (snd p) \<subseteq> set s"
  using positions_split by fastforce

lemma rx_test_needs: "rx_needs x r \<Longrightarrow> rx_test r s \<Longrightarrow> x \<in> set s"
  unfolding rx_test_def rx_search_iff using rx_needs_consumed positions_suffix by blast

lemma rx_test_Or: "rx_test (Or r1 r2) s \<longleftrightarrow> rx_test r1 s \<or> rx_test r2 s"
  by (auto simp: rx_test_def rx_search_iff)

lemma rx_test_whole: "rx_test (whole r) s \<Longrightarrow> rx_test r s"
  unfolding rx_test_def rx_search_iff whole_def seq.simps rx_rel.simps
  by (elim bexE exE conjE) (rule bexI, rule exI, simp_all)

section \<open>Literals\<close>

lemma lit_rel:
  "rx_rel (lit w) p q \<longleftrightarrow> snd p = w @ snd q \<and> fst q = (if w = [] then fst p else Some (last w))"
proof (induction w arbitrary: p rule: lit.induct)
  case 1
  then show ?case by (auto simp: prod_eq_iff)
next
  case (2 c)
  then show ?case by auto
next
  case (3 c d w)
  then show ?case by auto
qed

text \<open>A literal is found exactly when the text includes it.\<close>

lemma rx_test_lit: "rx_test (lit w) s \<longleftrightarrow> (\<exists>u v. s = u @ w @ v)"
proof
  assume "rx_test (lit w) s"
  then obtain p where p: "p \<in> set (positions None s)" "\<exists>v. snd p = w @ v"
    unfolding rx_test_def rx_search_iff lit_rel by blast
  then show "\<exists>u v. s = u @ w @ v"
    using positions_split[OF p(1)] by metis
next
  assume "\<exists>u v. s = u @ w @ v"
  then obtain u v where s: "s = u @ w @ v" by blast
  obtain b where b: "(b, w @ v) \<in> set (positions None s)"
    using positions_reach[of "w @ v" None u] s by blast
  moreover have "rx_rel (lit w) (b, w @ v) (if w = [] then b else Some (last w), v)"
    by (simp add: lit_rel)
  ultimately show "rx_test (lit w) s"
    unfolding rx_test_def rx_search_iff by blast
qed

end
