(* ===== verification/Js_Hex.thy ===== *)
theory Js_Hex
  imports Js_String
begin

text \<open>
  Buffers and their hexadecimal text in the runtime: \<open>buf.toString('hex')\<close> and
  \<open>Buffer.from(s, 'hex')\<close>, which reads pairs of digits up to the first that is none. Bytes are
  natural numbers below 256.
\<close>

definition hex_digit :: "char \<Rightarrow> nat option" where
  "hex_digit c = (let n = of_char c :: nat in
     if 48 \<le> n \<and> n \<le> 57 then Some (n - 48) else if 97 \<le> n \<and> n \<le> 102 then Some (n - 87)
     else if 65 \<le> n \<and> n \<le> 70 then Some (n - 55) else None)"

definition hex_char :: "nat \<Rightarrow> char" where
  "hex_char n = char_of (if n < 10 then n + 48 else n + 87)"

fun from_hex :: "string \<Rightarrow> nat list" where
  "from_hex (a # b # s) = (case (hex_digit a, hex_digit b) of (Some x, Some y) \<Rightarrow> (16 * x + y) # from_hex s | _ \<Rightarrow> [])"
| "from_hex _ = []"

definition to_hex :: "nat list \<Rightarrow> string" where
  "to_hex bs = concat (map (\<lambda>b. [hex_char (b div 16), hex_char (b mod 16)]) bs)"

definition bytes :: "nat list \<Rightarrow> bool" where
  "bytes bs \<longleftrightarrow> (\<forall>b \<in> set bs. b < 256)"

lemma hex_digit_char [simp]: "n < 16 \<Longrightarrow> hex_digit (hex_char n) = Some n"
  by (auto simp: hex_digit_def hex_char_def Let_def)

lemma hex_digit_less: "hex_digit c = Some n \<Longrightarrow> n < 16"
  by (auto simp: hex_digit_def Let_def split: if_splits)

text \<open>Reading back what was written gives the bytes, and whatever is read is bytes.\<close>

lemma from_to_hex: "(\<And>b. b \<in> set bs \<Longrightarrow> b < 256) \<Longrightarrow> from_hex (to_hex bs) = bs"
proof (induction bs)
  case Nil
  then show ?case by (simp add: to_hex_def)
next
  case (Cons b bs)
  have "b div 16 < 16" using Cons.prems [of b] by (simp add: less_mult_imp_div_less)
  then show ?case using Cons by (simp add: to_hex_def)
qed

lemma from_hex_bytes: "bytes (from_hex s)"
proof (induction s rule: from_hex.induct)
  case (1 a b s)
  show ?case
  proof (cases "hex_digit a = None \<or> hex_digit b = None")
    case True
    then show ?thesis by (auto simp: bytes_def split: option.splits)
  next
    case False
    then obtain x y where xy: "hex_digit a = Some x" "hex_digit b = Some y" by auto
    then have "16 * x + y < 256" using hex_digit_less [of a x] hex_digit_less [of b y] by simp
    then show ?thesis using 1 [OF refl xy(1) xy(2)] xy by (simp add: bytes_def)
  qed
qed (simp_all add: bytes_def)

lemma hex_char_no_dot: "n < 16 \<Longrightarrow> hex_char n \<noteq> CHR ''.''"
  using hex_digit_char [of n] by (auto simp: hex_digit_def)

lemma high_nibble: "b < 256 \<Longrightarrow> b div 16 < (16 :: nat)"
  by (simp add: less_mult_imp_div_less)

lemma to_hex_no_dot: "bytes bs \<Longrightarrow> CHR ''.'' \<notin> set (to_hex bs)"
  by (induction bs) (auto simp: to_hex_def bytes_def high_nibble hex_char_no_dot hex_char_no_dot [symmetric])

end
