(* ===== verification/Calendar.thy ===== *)
theory Calendar
  imports Prelude
begin

text \<open>
  The civil calendar behind the \<open>Date\<close> accessors and setters the code uses: year, month and day of
  the month of a UTC day number, the day number of a date, and the shift by whole months. Servers
  are taken to run in UTC, so the local-time accessors read the same fields.
\<close>

section \<open>The civil calendar\<close>

text \<open>
  Year, month and day of the month of a UTC day number, as the language's \<open>Date\<close> accessors give
  them (proleptic Gregorian calendar, years counted from March inside 400-year eras).
\<close>

definition civil_of_day :: "int \<Rightarrow> int \<times> int \<times> int" where
  "civil_of_day day =
     (let z = day + 719468;
          era = z div 146097;
          doe = z mod 146097;
          yoe = (doe - doe div 1460 + doe div 36524 - doe div 146096) div 365;
          doy = doe - (365 * yoe + yoe div 4 - yoe div 100);
          mp = (5 * doy + 2) div 153;
          d = doy - (153 * mp + 2) div 5 + 1;
          m = (if mp < 10 then mp + 3 else mp - 9)
      in (yoe + era * 400 + (if m \<le> 2 then 1 else 0), m, d))"

text \<open>The day number of a date; the month may run past 12 and the day past the end of the month.\<close>

definition day_of_civil :: "int \<Rightarrow> int \<Rightarrow> int \<Rightarrow> int" where
  "day_of_civil y m d =
     (let y1 = y + (m - 1) div 12; m1 = (m - 1) mod 12 + 1;
          y2 = (if m1 \<le> 2 then y1 - 1 else y1);
          era = y2 div 400;
          yoe = y2 mod 400;
          mp = (if m1 > 2 then m1 - 3 else m1 + 9);
          doy = (153 * mp + 2) div 5 + d - 1;
          doe = yoe * 365 + yoe div 4 - yoe div 100 + doy
      in era * 146097 + doe - 719468)"

text \<open>\<open>d.setMonth(d.getMonth() + n)\<close>: the day of the month is kept and overflows into the next month.\<close>

definition addMonths :: "int \<Rightarrow> ms \<Rightarrow> ms" where
  "addMonths n t =
     (case civil_of_day (utcDay t) of (y, m, d) \<Rightarrow>
        day_of_civil y (m + n) d * 86400000 + t mod 86400000)"

text \<open>31 January 2026 plus a month is 3 March 2026; 15 December 2026 plus a month is 15 January 2027.\<close>

lemma addMonths_examples:
  "civil_of_day (utcDay (addMonths 1 1769817600000)) = (2026, 3, 3)"
  "civil_of_day (utcDay (addMonths 1 (day_of_civil 2026 12 15 * 86400000))) = (2027, 1, 15)"
  by code_simp+

section \<open>Range of the fields\<close>

text \<open>
  The day of the March-based year: the quotients by the cycle lengths taken from the day of the era and
  those taken from the year differ by at most one each.
\<close>

lemma day_of_year_bounds:
  fixes doe :: int
  assumes d: "0 \<le> doe" "doe < 146097"
    and a: "doe = 1460 * a + ra" "0 \<le> ra" "ra < 1460" and b: "doe = 36524 * b + rb" "0 \<le> rb" "rb < 36524"
    and e: "doe = 146096 * e + re" "0 \<le> re" "re < 146096"
    and y: "doe - a + b - e = 365 * yoe + r" "0 \<le> r" "r < 365"
    and q: "yoe = 4 * qa + sa" "0 \<le> sa" "sa < 4" and c: "yoe = 100 * qb + sb" "0 \<le> sb" "sb < 100"
  shows "0 \<le> doe - (365 * yoe + qa - qb) \<and> doe - (365 * yoe + qa - qb) \<le> 366"
proof -
  have ee: "0 \<le> e" "e \<le> 1" and bb: "0 \<le> b" "b \<le> 4"
    using d e b by linarith+
  have aa: "25 * b \<le> a" "a \<le> 25 * b + 25"
    using a b bb by linarith+
  have A: "0 \<le> a - qa" "a - qa \<le> 1"
    using a b e y q ee aa bb by linarith+
  have B: "0 \<le> b - qb" "b - qb \<le> 1"
    using a b e y c ee aa bb by linarith+
  have eq: "doe - (365 * yoe + qa - qb) = r + (a - qa) - (b - qb) + e"
    using y by linarith
  have "1 \<le> r" if "b - qb = 1"
    using that a b y c ee aa bb by linarith
  then show ?thesis
    unfolding eq using A B ee y by linarith
qed

lemma civil_month_range:
  assumes "civil_of_day day = (y, m, d)"
  shows "1 \<le> m \<and> m \<le> 12"
proof -
  define doe where "doe = (day + 719468) mod 146097"
  define yoe where "yoe = (doe - doe div 1460 + doe div 36524 - doe div 146096) div 365"
  define doy where "doy = doe - (365 * yoe + yoe div 4 - yoe div 100)"
  have "0 \<le> doe" "doe < 146097"
    by (simp_all add: doe_def)
  then have "0 \<le> doy \<and> doy \<le> 366"
    unfolding doy_def
    by (rule day_of_year_bounds[where ra = "doe mod 1460" and rb = "doe mod 36524" and re = "doe mod 146096"
      and a = "doe div 1460" and b = "doe div 36524" and e = "doe div 146096"
      and r = "(doe - doe div 1460 + doe div 36524 - doe div 146096) mod 365" and sa = "yoe mod 4" and sb = "yoe mod 100"])
      (simp_all add: yoe_def del: minus_add_distrib)
  then have "0 \<le> (5 * doy + 2) div 153" "(5 * doy + 2) div 153 \<le> 11"
    by (auto intro: order_trans[OF zdiv_mono1[of "5 * doy + 2" 1832 153]])
  moreover have "m = (if (5 * doy + 2) div 153 < 10 then (5 * doy + 2) div 153 + 3 else (5 * doy + 2) div 153 - 9)"
    using assms unfolding civil_of_day_def Let_def doe_def[symmetric] yoe_def[symmetric] doy_def[symmetric] by auto
  ultimately show ?thesis
    by (auto split: if_splits)
qed

end
