(* ===== verification/Contracts.thy ===== *)
theory Contracts
  imports Prelude
begin

text \<open>
  Interfaces that several stateful components implement, each with the facts its clients use.

  \<^item> \<open>guarded_counter\<close>: an amount is added to a counter only when the sum stays within a cap
    (the daily budget, the provider throttle, the daily request limit).
  \<^item> \<open>lease\<close>: a unit of work is claimed by one owner until its lease runs out (payment events,
    dead letters, alert deliveries, scheduled jobs).
  \<^item> \<open>quota_window\<close>: of the requests of one window the first ones are granted, up to a quota (the
    request limiter per minute, the limiter of the bot).
\<close>

section \<open>Counters under a cap\<close>

locale guarded_counter =
  fixes count :: "'s \<Rightarrow> 'k \<Rightarrow> int"
    and reserve :: "int \<Rightarrow> 'k \<Rightarrow> int \<Rightarrow> 's \<Rightarrow> 's \<times> bool"
    and wf :: "'s \<Rightarrow> bool"
  assumes granted: "wf s \<Longrightarrow> 0 \<le> n \<Longrightarrow> reserve cap k n s = (s', True)
      \<Longrightarrow> count s' k = count s k + n \<and> count s' k \<le> cap"
    and refused: "wf s \<Longrightarrow> 0 \<le> n \<Longrightarrow> reserve cap k n s = (s', False)
      \<Longrightarrow> count s' k = count s k \<and> cap < count s k + n"
    and frame: "wf s \<Longrightarrow> k' \<noteq> k \<Longrightarrow> reserve cap k n s = (s', ok) \<Longrightarrow> count s' k' = count s k'"
    and wf_reserve: "wf s \<Longrightarrow> 0 \<le> n \<Longrightarrow> reserve cap k n s = (s', ok) \<Longrightarrow> wf s'"
begin

text \<open>A run of requests against one key, with the total that was granted.\<close>

primrec run :: "int \<Rightarrow> 'k \<Rightarrow> int list \<Rightarrow> 's \<Rightarrow> int \<Rightarrow> 's \<times> int" where
  "run cap k [] s acc = (s, acc)"
| "run cap k (n # ns) s acc =
     (case reserve cap k n s of (s', ok) \<Rightarrow> run cap k ns s' (if ok then acc + n else acc))"

lemma run_balance:
  assumes "wf s" "\<forall>n\<in>set ns. 0 \<le> n" "run cap k ns s acc = (s', acc')"
  shows "wf s' \<and> count s' k = count s k + (acc' - acc) \<and> acc \<le> acc'
    \<and> count s' k \<le> max (count s k) cap"
  using assms
proof (induction ns arbitrary: s acc)
  case Nil
  then show ?case by simp
next
  case (Cons n ns)
  obtain s1 ok where r: "reserve cap k n s = (s1, ok)"
    by fastforce
  have n: "0 \<le> n" "\<forall>n\<in>set ns. 0 \<le> n" and w: "wf s1"
    using Cons.prems wf_reserve[OF Cons.prems(1) _ r] by auto
  have run: "run cap k ns s1 (if ok then acc + n else acc) = (s', acc')"
    using Cons.prems(3) r by simp
  note IH = Cons.IH[OF w n(2) run]
  show ?case
  proof (cases ok)
    case True
    then show ?thesis
      using IH granted[OF Cons.prems(1) n(1)] r n by auto
  next
    case False
    then show ?thesis
      using IH refused[OF Cons.prems(1) n(1)] r by auto
  qed
qed

lemma run_within_cap:
  "wf s \<Longrightarrow> \<forall>n\<in>set ns. 0 \<le> n \<Longrightarrow> count s k = 0 \<Longrightarrow> 0 \<le> cap \<Longrightarrow> run cap k ns s 0 = (s', acc)
    \<Longrightarrow> acc \<le> cap"
  using run_balance[of s ns cap k 0 s' acc] by auto

end

section \<open>Leases\<close>

text \<open>
  \<open>held s k t = Some w\<close>: at time \<open>t\<close> the unit \<open>k\<close> is leased to owner \<open>w\<close>. A claim succeeds exactly
  when nobody holds the unit, and then the claimant holds it for the whole lease time.
\<close>

locale lease =
  fixes held :: "'s \<Rightarrow> 'k \<Rightarrow> ms \<Rightarrow> 'w option"
    and claim :: "'k \<Rightarrow> 'w \<Rightarrow> ms \<Rightarrow> 's \<Rightarrow> 's \<times> bool"
    and duration :: ms
  assumes claim_ok: "claim k w t s = (s', True)
      \<Longrightarrow> held s k t = None \<and> (\<forall>t'. t \<le> t' \<and> t' < t + duration \<longrightarrow> held s' k t' = Some w)"
    and claim_refused: "claim k w t s = (s', False) \<Longrightarrow> s' = s"
    and claim_frame: "claim k w t s = (s', ok) \<Longrightarrow> k' \<noteq> k \<Longrightarrow> held s' k' = held s k'"
begin

text \<open>While a lease runs no other claim on the same unit succeeds.\<close>

lemma exclusive:
  assumes "claim k w t s = (s1, True)" "t \<le> t'" "t' < t + duration" "claim k w' t' s1 = (s2, ok)"
  shows "\<not> ok \<and> s2 = s1"
proof (cases ok)
  case True
  then show ?thesis
    using claim_ok[of k w t s s1] claim_ok[of k w' t' s1 s2] assms by auto
next
  case False
  then show ?thesis
    using claim_refused[of k w' t' s1 s2] assms(4) by simp
qed

end

section \<open>A quota of requests in a window\<close>

text \<open>
  \<open>used s k\<close> counts what was asked in the window \<open>k\<close>, up to its quota at least. A request \<open>q\<close> that the
  window sees (\<open>hits k q\<close>) is granted exactly while the quota is not used up; the others leave the
  count alone. \<open>fits k q\<close> says that the window is still current when \<open>q\<close> is made.
\<close>

locale quota_window =
  fixes used :: "'s \<Rightarrow> 'k \<Rightarrow> nat"
    and ask :: "'q \<Rightarrow> 's \<Rightarrow> 's \<times> bool"
    and hits :: "'k \<Rightarrow> 'q \<Rightarrow> bool"
    and fits :: "'k \<Rightarrow> 'q \<Rightarrow> bool"
    and quota :: "'k \<Rightarrow> nat"
    and live :: "'s \<Rightarrow> 'k \<Rightarrow> bool"
  assumes hit: "live s k \<Longrightarrow> fits k q \<Longrightarrow> hits k q \<Longrightarrow> ask q s = (s', ok)
      \<Longrightarrow> live s' k \<and> ok = (used s k < quota k) \<and> (if ok then used s' k = Suc (used s k) else quota k \<le> used s' k)"
    and miss: "live s k \<Longrightarrow> fits k q \<Longrightarrow> \<not> hits k q \<Longrightarrow> ask q s = (s', ok) \<Longrightarrow> live s' k \<and> used s' k = used s k"
begin

primrec asks :: "'q list \<Rightarrow> 's \<Rightarrow> bool list" where
  "asks [] s = []"
| "asks (q # qs) s = snd (ask q s) # asks qs (fst (ask q s))"

lemma length_asks [simp]: "length (asks qs s) = length qs"
  by (induction qs arbitrary: s) auto

text \<open>Exactly the quota is granted, or every request when they are fewer, and the first ones first.\<close>

lemma granted_count:
  "live s k \<Longrightarrow> list_all (fits k) qs \<Longrightarrow>
   length (filter (\<lambda>(q, ok). hits k q \<and> ok) (zip qs (asks qs s))) = min (quota k - used s k) (length (filter (hits k) qs))"
proof (induction qs arbitrary: s)
  case Nil
  then show ?case by simp
next
  case (Cons q qs)
  obtain s' ok where a: "ask q s = (s', ok)" by fastforce
  show ?case
  proof (cases "hits k q")
    case True
    then show ?thesis using hit [OF Cons.prems(1) _ True a] Cons.IH [of s'] Cons.prems a by (cases ok) auto
  next
    case False
    then show ?thesis using miss [OF Cons.prems(1) _ False a] Cons.IH [of s'] Cons.prems a by auto
  qed
qed

lemma granted_first:
  "live s k \<Longrightarrow> list_all (fits k) qs \<Longrightarrow> list_all (hits k) qs \<Longrightarrow> asks qs s = map (\<lambda>i. used s k + i < quota k) [0..<length qs]"
proof (induction qs arbitrary: s)
  case Nil
  then show ?case by simp
next
  case (Cons q qs)
  obtain s' ok where a: "ask q s = (s', ok)" by fastforce
  note h = hit [OF Cons.prems(1) _ _ a]
  have "map (\<lambda>i. used s k + i < quota k) [0..<Suc n] = (used s k < quota k) # map (\<lambda>i. Suc (used s k) + i < quota k) [0..<n]" for n
    by (simp add: upt_rec [of 0] map_Suc_upt [symmetric] comp_def del: upt_Suc)
  moreover have "asks qs s' = map (\<lambda>i. Suc (used s k) + i < quota k) [0..<length qs]"
    using Cons.IH [of s'] Cons.prems h by (cases ok) auto
  ultimately show ?case using a h Cons.prems by simp
qed

end

end
