(* ===== verification/Market_Phase.thy ===== *)
theory Market_Phase
  imports Prelude
begin

text \<open>
  Forex sessions and the countdown to the next one (\<open>packages/shared/src/market-phase.ts\<close>).
  The current time is a parameter; the calendar fields the code reads off it are those of
  \<open>Prelude\<close>. The optional \<open>goldSpecific\<close> field is always set by \<open>getMarketPhase\<close> and is the
  boolean \<open>comexOpen\<close> here.
\<close>

datatype forex_session = Sydney | Tokyo | London | Newyork | London_ny_overlap | Closed

datatype liquidity_level = High | Medium | Low

record market_phase =
  session :: forex_session
  liquidity :: liquidity_level
  isOpen :: bool
  nextSessionChange :: "forex_session \<times> int"
  comexOpen :: bool

definition isForexWeekend :: "ms \<Rightarrow> bool" where
  "isForexWeekend now =
     (let day = getUTCDay now; hour = getUTCHours now in
      if day = 6 then True
      else if day = 0 \<and> hour < 22 then True
      else if day = 5 \<and> hour \<ge> 22 then True
      else False)"

definition isComexOpen :: "ms \<Rightarrow> bool" where
  "isComexOpen now =
     (let day = getUTCDay now; hour = getUTCHours now in
      if day = 6 then False
      else if day = 0 \<and> hour < 18 then False
      else if day = 5 \<and> hour \<ge> 17 then False
      else if hour = 17 then False
      else True)"

definition orderedStarts :: "(forex_session \<times> int) list" where
  "orderedStarts =
     [(Tokyo, 0), (London, 8 * 60), (London_ny_overlap, 13 * 60), (Newyork, 17 * 60),
      (Sydney, 22 * 60)]"

fun nextStart :: "(forex_session \<times> int) list \<Rightarrow> int \<Rightarrow> forex_session \<times> int" where
  "nextStart [] currentMinutes = (Tokyo, 24 * 60 - currentMinutes)"
| "nextStart ((s, startMinutes) # rest) currentMinutes =
     (if startMinutes > currentMinutes then (s, startMinutes - currentMinutes)
      else nextStart rest currentMinutes)"

definition getNextSessionChange :: "ms \<Rightarrow> forex_session \<times> int" where
  "getNextSessionChange now =
     (let utcHour = getUTCHours now; utcMin = getUTCMinutes now;
          currentMinutes = utcHour * 60 + utcMin
      in nextStart orderedStarts currentMinutes)"

definition getNextSessionChangeOnWeekend :: "ms \<Rightarrow> forex_session \<times> int" where
  "getNextSessionChangeOnWeekend now =
     (let day = getUTCDay now; hour = getUTCHours now; minute = getUTCMinutes now in
      if day = 0 \<and> hour < 22 then (Sydney, (22 - hour) * 60 - minute)
      else if day = 6 then (Sydney, (24 - hour) * 60 - minute + 22 * 60)
      else if day = 5 then (Sydney, (24 - hour) * 60 - minute + 24 * 60 + 22 * 60)
      else (Sydney, 24 * 60))"

definition getMarketPhase :: "ms \<Rightarrow> market_phase" where
  "getMarketPhase now =
     (if isForexWeekend now then
        \<lparr>session = Closed, liquidity = Low, isOpen = False,
         nextSessionChange = getNextSessionChangeOnWeekend now, comexOpen = False\<rparr>
      else
        let utcHour = getUTCHours now;
            open_phase = (\<lambda>s l. \<lparr>session = s, liquidity = l, isOpen = True,
              nextSessionChange = getNextSessionChange now, comexOpen = isComexOpen now\<rparr>)
        in if utcHour \<ge> 13 \<and> utcHour < 17 then open_phase London_ny_overlap High
           else if utcHour \<ge> 8 \<and> utcHour < 13 then open_phase London High
           else if utcHour \<ge> 17 \<and> utcHour < 22 then open_phase Newyork High
           else if utcHour \<ge> 0 \<and> utcHour < 8 then open_phase Tokyo Medium
           else open_phase Sydney Low)"

definition getSignalTtlMinutes :: "market_phase \<Rightarrow> int" where
  "getSignalTtlMinutes p =
     (if \<not> isOpen p then 0
      else case session p of
        London_ny_overlap \<Rightarrow> 240 | London \<Rightarrow> 180 | Newyork \<Rightarrow> 180
      | Tokyo \<Rightarrow> 90 | Sydney \<Rightarrow> 60 | Closed \<Rightarrow> 0)"

lemma isOpen_getMarketPhase [simp]: "isOpen (getMarketPhase t) \<longleftrightarrow> \<not> isForexWeekend t"
  by (simp add: getMarketPhase_def Let_def)

section \<open>The phase as a function of the minute of the week\<close>

lemma le_div_60: "c \<le> x div 60 \<longleftrightarrow> 60 * c \<le> x" for c x :: int
  by linarith

lemma div_60_less: "x div 60 < c \<longleftrightarrow> x < 60 * c" for c x :: int
  by linarith

lemma weekend_minutes:
  "isForexWeekend t \<longleftrightarrow> minuteOfWeek t < 1320 \<or> 8520 \<le> minuteOfWeek t"
proof -
  define w where "w = minuteOfWeek t"
  define d r where "d = w div 1440" and "r = w mod 1440"
  have w: "w = 1440 * d + r" "0 \<le> r" "r < 1440"
    by (simp_all add: d_def r_def)
  have "0 \<le> w" "w < 10080"
    using minuteOfWeek_bounds[of t] by (simp_all add: w_def)
  then have d: "0 \<le> d" "d \<le> 6"
    using w by auto
  have "isForexWeekend t \<longleftrightarrow> d = 6 \<or> d = 0 \<and> r < 1320 \<or> d = 5 \<and> 1320 \<le> r"
    unfolding isForexWeekend_def Let_def date_simps w_def[symmetric] d_def[symmetric]
      r_def[symmetric]
    by (simp add: le_div_60 div_60_less)
  then show ?thesis
    unfolding w_def[symmetric] using w d by auto
qed

definition sessionOfMinute :: "int \<Rightarrow> forex_session" where
  "sessionOfMinute m =
     (if m < 480 then Tokyo else if m < 780 then London
      else if m < 1020 then London_ny_overlap else if m < 1320 then Newyork else Sydney)"

lemma session_minutes:
  "session (getMarketPhase t)
     = (if isForexWeekend t then Closed else sessionOfMinute (minuteOfWeek t mod 1440))"
  unfolding getMarketPhase_def Let_def sessionOfMinute_def date_simps
  by (auto simp: le_div_60 div_60_less not_le not_less)

lemma nextSessionChange_minutes:
  "\<not> isForexWeekend t \<Longrightarrow> nextSessionChange (getMarketPhase t)
     = nextStart orderedStarts (minuteOfWeek t mod 1440)"
proof -
  define w where "w = minuteOfWeek t"
  have "w mod 60 = w mod 1440 mod 60"
    by (simp add: mod_mod_cancel)
  then have "w mod 1440 div 60 * 60 + w mod 60 = w mod 1440"
    by simp
  moreover assume "\<not> isForexWeekend t"
  ultimately show ?thesis
    unfolding getMarketPhase_def Let_def getNextSessionChange_def date_simps w_def[symmetric]
    by simp
qed

lemma minuteOfWeek_shift:
  assumes "t' div 60000 = t div 60000 + k"
  shows "minuteOfWeek t' = (minuteOfWeek t + k) mod 10080"
  using minuteOfWeek_advance[of t' t] assms by simp

lemma shift_within_week:
  assumes "minuteOfWeek t = 1440 * d + r" "0 \<le> d" "d \<le> 6" "0 \<le> r + k" "r + k < 1440"
    and "t' div 60000 = t div 60000 + k"
  shows "minuteOfWeek t' = 1440 * d + (r + k)"
  using minuteOfWeek_shift[OF assms(6)] assms(1-5) by (simp add: add.assoc)

section \<open>The countdown is exact\<close>

text \<open>
  Inside one open day the countdown of \<open>getNextSessionChange\<close> ends at the last minute of the
  session: for every instant up to (excluding) that many minutes ahead the session is the same,
  and at the end of the countdown it is the announced one.
\<close>

lemma nextStart_correct:
  assumes "0 \<le> r" "r < 1440" and "nextStart orderedStarts r = (s', k)"
  shows "0 < k \<and> r + k \<le> 1440
    \<and> (\<forall>j. 0 \<le> j \<and> j < k \<longrightarrow> sessionOfMinute (r + j) = sessionOfMinute r)
    \<and> sessionOfMinute ((r + k) mod 1440) = s'"
proof -
  consider "r < 480" | "480 \<le> r" "r < 780" | "780 \<le> r" "r < 1020" | "1020 \<le> r" "r < 1320"
    | "1320 \<le> r"
    by linarith
  then show ?thesis
    using assms unfolding orderedStarts_def sessionOfMinute_def by cases auto
qed

lemma open_minute:
  assumes "\<not> isForexWeekend t"
  obtains d r where "minuteOfWeek t = 1440 * d + r" "0 \<le> d" "d \<le> 5" "0 \<le> r" "r < 1440"
    "d = 5 \<Longrightarrow> r < 1320" "d = 0 \<Longrightarrow> 1320 \<le> r"
proof (rule that[of "minuteOfWeek t div 1440" "minuteOfWeek t mod 1440"])
qed (use assms minuteOfWeek_bounds[of t] mult_div_mod_eq[of 1440 "minuteOfWeek t"]
    in \<open>auto simp: weekend_minutes\<close>)

lemma session_at:
  assumes "minuteOfWeek t = 1440 * d + r" "0 \<le> r" "r < 1440"
  shows "session (getMarketPhase t) = (if isForexWeekend t then Closed else sessionOfMinute r)"
  using assms by (simp add: session_minutes)

text \<open>
  while the market is open, the countdown \<open>(s', k)\<close> returned by \<open>getMarketPhase\<close> is positive,
  the session does not change before the \<open>k\<close>-th minute, and in that minute the session is \<open>s'\<close>,
  except on a Friday with \<open>s' = Sydney\<close>, when the weekend starts there and the market is closed.
\<close>

theorem session_countdown:
  assumes "isOpen (getMarketPhase now)" and "nextSessionChange (getMarketPhase now) = (s', k)"
  shows "0 < k
    \<and> (\<forall>t. now div 60000 \<le> t div 60000 \<and> t div 60000 < now div 60000 + k
          \<longrightarrow> session (getMarketPhase t) = session (getMarketPhase now))
    \<and> (\<forall>t. t div 60000 = now div 60000 + k
          \<longrightarrow> session (getMarketPhase t)
            = (if getUTCDay now = 5 \<and> s' = Sydney then Closed else s'))"
proof -
  have nw: "\<not> isForexWeekend now"
    using assms(1) by simp
  then obtain d r where w: "minuteOfWeek now = 1440 * d + r" "0 \<le> d" "d \<le> 5" "0 \<le> r" "r < 1440"
    and fri: "d = 5 \<Longrightarrow> r < 1320" and sun: "d = 0 \<Longrightarrow> 1320 \<le> r"
    by (rule open_minute) blast
  have dow: "getUTCDay now = d"
    using w by (simp add: date_simps)
  have nx: "nextStart orderedStarts r = (s', k)"
    using assms(2) nextSessionChange_minutes[OF nw] w by simp
  note c = nextStart_correct[OF w(4,5) nx]
  have k5: "d = 5 \<Longrightarrow> r + k \<le> 1320"
    using fri nx w(4) by (auto simp: orderedStarts_def split: if_splits)
  have same: "session (getMarketPhase t) = session (getMarketPhase now)"
    if "now div 60000 \<le> t div 60000" "t div 60000 < now div 60000 + k" for t
  proof -
    define j where "j = t div 60000 - now div 60000"
    have j: "0 \<le> j" "j < k" "t div 60000 = now div 60000 + j"
      using that by (auto simp: j_def)
    have wt: "minuteOfWeek t = 1440 * d + (r + j)"
      by (rule shift_within_week[OF w(1)]) (use w c j in auto)
    have "\<not> isForexWeekend t"
      using wt j w c fri sun k5 by (auto simp: weekend_minutes)
    then show ?thesis
      using session_at[OF wt] session_at[OF w(1)] nw w j c by auto
  qed
  have at: "session (getMarketPhase t)
      = (if getUTCDay now = 5 \<and> s' = Sydney then Closed else s')"
    if t: "t div 60000 = now div 60000 + k" for t
  proof (cases "r + k = 1440")
    case True
    have wt: "minuteOfWeek t = 1440 * (d + 1) + 0"
      using minuteOfWeek_shift[OF t] w True k5 by (simp add: add.assoc)
    have "d \<noteq> 5" "\<not> isForexWeekend t"
      using wt w True k5 by (auto simp: weekend_minutes)
    then show ?thesis
      using session_at[OF wt] c True dow by simp
  next
    case False
    then have lt: "r + k < 1440"
      using c by simp
    have wt: "minuteOfWeek t = 1440 * d + (r + k)"
      by (rule shift_within_week[OF w(1)]) (use w c lt t in auto)
    have syd: "s' = Sydney \<longleftrightarrow> 1320 \<le> r + k"
      using c lt w by (auto simp: sessionOfMinute_def split: if_splits)
    have "isForexWeekend t \<longleftrightarrow> d = 5 \<and> s' = Sydney"
      using wt w lt fri sun k5 syd c by (auto simp: weekend_minutes)
    then show ?thesis
      using session_at[OF wt] c lt w dow by auto
  qed
  show ?thesis
    using c same at by blast
qed

text \<open>Monday 1970-01-05 09:30 UTC: London, overlap in 210 minutes.\<close>

theorem session_countdown_witness:
  "session (getMarketPhase (379800000 + 209 * 60000)) = session (getMarketPhase 379800000)
   \<and> session (getMarketPhase (379800000 + 210 * 60000)) = London_ny_overlap"
proof -
  have h: "isOpen (getMarketPhase 379800000)"
    "nextSessionChange (getMarketPhase 379800000) = (London_ny_overlap, 210)"
    by (simp_all add: getMarketPhase_def isForexWeekend_def getUTCDay_def utcDay_def
        getUTCHours_def getUTCMinutes_def getNextSessionChange_def orderedStarts_def Let_def)
  note c = session_countdown[OF h, THEN conjunct2]
  show ?thesis
    using c[THEN conjunct1, rule_format, of "379800000 + 209 * 60000"]
      c[THEN conjunct2, rule_format, of "379800000 + 210 * 60000"]
    by (simp add: getUTCDay_def utcDay_def)
qed

text \<open>
  during the weekend the countdown always announces Sydney, it is positive, every instant
  before its end is closed, and the market reopens in exactly the announced minute.
\<close>

theorem weekend_countdown:
  assumes "isForexWeekend now" and "nextSessionChange (getMarketPhase now) = (s', k)"
  shows "s' = Sydney \<and> 0 < k
    \<and> (\<forall>t. now div 60000 \<le> t div 60000 \<and> t div 60000 < now div 60000 + k
          \<longrightarrow> session (getMarketPhase t) = Closed \<and> \<not> isOpen (getMarketPhase t))
    \<and> (\<forall>t. t div 60000 = now div 60000 + k \<longrightarrow> session (getMarketPhase t) = Sydney)"
proof -
  define w where "w = minuteOfWeek now"
  define d r where "d = w div 1440" and "r = w mod 1440"
  have w: "w = 1440 * d + r" "0 \<le> r" "r < 1440" "0 \<le> w" "w < 10080"
    using minuteOfWeek_bounds[of now] by (simp_all add: d_def r_def w_def)
  then have d: "0 \<le> d" "d \<le> 6"
    by auto
  have we: "w < 1320 \<or> 8520 \<le> w"
    using assms(1) weekend_minutes[of now] by (simp add: w_def)
  have r60: "r div 60 * 60 + w mod 60 = r"
    using w by (simp add: r_def mod_mod_cancel[of 60 1440 w, symmetric])
  have "getNextSessionChangeOnWeekend now = (s', k)"
    using assms by (simp add: getMarketPhase_def)
  then have sk: "s' = Sydney \<and> k = (if w < 1320 then 1320 - w else 11400 - w)"
    using we w r60 d
    unfolding getNextSessionChangeOnWeekend_def Let_def date_simps w_def[symmetric]
      d_def[symmetric] r_def[symmetric]
    by (auto simp: div_60_less algebra_simps split: if_splits)
  have wt: "minuteOfWeek t = (w + (t div 60000 - now div 60000)) mod 10080" for t
    using minuteOfWeek_advance[of t now] by (simp add: w_def)
  have "minuteOfWeek t < 1320 \<or> 8520 \<le> minuteOfWeek t"
    if "0 \<le> t div 60000 - now div 60000" "t div 60000 - now div 60000 < k" for t
  proof (cases "w + (t div 60000 - now div 60000) < 10080")
    case True
    then show ?thesis using wt[of t] w that we sk by (auto split: if_splits)
  next
    case False
    then have "minuteOfWeek t = w + (t div 60000 - now div 60000) - 10080"
      using wt[of t] w that sk mod_add_self2[of "w + (t div 60000 - now div 60000) - 10080" 10080]
        mod_pos_pos_trivial[of "w + (t div 60000 - now div 60000) - 10080" 10080]
      by (auto split: if_splits)
    then show ?thesis using that we sk w by (auto split: if_splits)
  qed
  then have closed: "isForexWeekend t"
    if "now div 60000 \<le> t div 60000" "t div 60000 < now div 60000 + k" for t
    using that by (simp add: weekend_minutes)
  have reopen: "minuteOfWeek t = 1320" if "t div 60000 = now div 60000 + k" for t
    using wt[of t] that sk w by (auto split: if_splits)
  have "session (getMarketPhase t) = Closed \<and> \<not> isOpen (getMarketPhase t)"
    if "now div 60000 \<le> t div 60000" "t div 60000 < now div 60000 + k" for t
    using closed[OF that] by (simp add: session_minutes)
  moreover have "session (getMarketPhase t) = Sydney" if "t div 60000 = now div 60000 + k" for t
    using reopen[OF that] by (simp add: session_minutes weekend_minutes sessionOfMinute_def)
  moreover have "0 < k"
    using sk we w by (auto split: if_splits)
  ultimately show ?thesis
    using sk by blast
qed

text \<open>Saturday 1970-01-03 00:30 UTC: Sydney opens in 45 hours and 30 minutes.\<close>

theorem weekend_countdown_witness:
  "session (getMarketPhase (174600000 + 2729 * 60000)) = Closed
   \<and> session (getMarketPhase (174600000 + 2730 * 60000)) = Sydney"
proof -
  have h: "isForexWeekend 174600000"
    "nextSessionChange (getMarketPhase 174600000) = (Sydney, 2730)"
    by (simp_all add: getMarketPhase_def isForexWeekend_def getUTCDay_def utcDay_def
        getUTCHours_def getUTCMinutes_def getNextSessionChangeOnWeekend_def Let_def)
  note c = weekend_countdown[OF h, THEN conjunct2, THEN conjunct2]
  show ?thesis
    using c[THEN conjunct1, rule_format, of "174600000 + 2729 * 60000"]
      c[THEN conjunct2, rule_format, of "174600000 + 2730 * 60000"]
    by simp
qed

section \<open>Metadata of a phase\<close>

definition sessionLiquidity :: "forex_session \<Rightarrow> liquidity_level option" where
  "sessionLiquidity s =
     (case s of London_ny_overlap \<Rightarrow> Some High | London \<Rightarrow> Some High | Newyork \<Rightarrow> Some High
      | Tokyo \<Rightarrow> Some Medium | Sydney \<Rightarrow> Some Low | Closed \<Rightarrow> None)"

lemma phase_metadata:
  "isOpen (getMarketPhase t) \<longleftrightarrow> session (getMarketPhase t) \<noteq> Closed"
  "0 < getSignalTtlMinutes (getMarketPhase t) \<longleftrightarrow> isOpen (getMarketPhase t)"
  "sessionLiquidity (session (getMarketPhase t))
     = (if isOpen (getMarketPhase t) then Some (liquidity (getMarketPhase t)) else None)"
  by (auto simp: getMarketPhase_def getSignalTtlMinutes_def sessionLiquidity_def Let_def)

text \<open>
  The phase's COMEX flag agrees with \<open>isComexOpen\<close> at every instant except Sunday between
  18:00 and 22:00 UTC, where \<open>isComexOpen\<close> is true and the weekend branch reports it closed.
\<close>

theorem comexOpen_exact:
  "comexOpen (getMarketPhase t) = isComexOpen t
     \<longleftrightarrow> \<not> (getUTCDay t = 0 \<and> 18 \<le> getUTCHours t \<and> getUTCHours t < 22)"
proof -
  have "comexOpen (getMarketPhase t) \<longleftrightarrow> \<not> isForexWeekend t \<and> isComexOpen t"
    by (auto simp: getMarketPhase_def Let_def)
  moreover have "isForexWeekend t \<and> isComexOpen t
      \<longleftrightarrow> getUTCDay t = 0 \<and> 18 \<le> getUTCHours t \<and> getUTCHours t < 22"
    by (auto simp: isForexWeekend_def isComexOpen_def Let_def)
  ultimately show ?thesis
    by blast
qed

end
