(* ===== verification/Symbols.thy ===== *)
theory Symbols
  imports Js_Map Js_String
begin

text \<open>
  The instrument catalog (\<open>packages/shared/src/symbol-catalog.ts\<close>), the helpers over it
  (\<open>symbols.ts\<close>) and the timeframes (\<open>timeframes.ts\<close>). The catalog is transcribed entry by
  entry; \<open>Object.freeze\<close> and the mutation-throwing \<open>Proxy\<close> have no counterpart, since a
  value of HOL is immutable. A zod schema is a function to an error sum.
\<close>

datatype symbolCategory_t = Gold | Forex | Crypto

datatype symbolDataProvider = Biquote | Binance | Finnhub

datatype symbolQuantityUnit = Lots | Ounces | Coins

datatype symbolPriceDistanceUnit = Pips | Price

datatype symbolSettlementCurrency = USD | USDT

record symbol_capabilities =
  quantityUnit :: symbolQuantityUnit
  contractSize :: int
  priceDistanceUnit :: symbolPriceDistanceUnit
  supportsCftc :: bool
  supportsEconomicCalendar :: bool
  supportsIntermarket :: bool
  supportsSocialSentiment :: bool

record symbol_definition =
  sd_internal :: string
  sd_display :: string
  sd_category :: symbolCategory_t
  sd_baseCurrency :: string
  sd_quoteCurrency :: string
  sd_settlementCurrency :: symbolSettlementCurrency
  sd_biquote :: "string option"
  sd_binance :: "string option"
  sd_finnhub :: string
  sd_tradingView :: string
  sd_decimals :: int
  sd_pipSize :: real
  sd_currencies :: "string list"
  sd_providers :: "symbolDataProvider list"
  sd_capabilities :: symbol_capabilities

definition fx_capabilities :: symbol_capabilities where
  "fx_capabilities = \<lparr>quantityUnit = Lots, contractSize = 100000, priceDistanceUnit = Pips,
     supportsCftc = False, supportsEconomicCalendar = True, supportsIntermarket = True,
     supportsSocialSentiment = True\<rparr>"

definition cftc_fx_capabilities :: symbol_capabilities where
  "cftc_fx_capabilities = fx_capabilities\<lparr>supportsCftc := True\<rparr>"

definition gold_capabilities :: symbol_capabilities where
  "gold_capabilities = \<lparr>quantityUnit = Ounces, contractSize = 100, priceDistanceUnit = Pips,
     supportsCftc = True, supportsEconomicCalendar = True, supportsIntermarket = True,
     supportsSocialSentiment = True\<rparr>"

definition crypto_capabilities :: symbol_capabilities where
  "crypto_capabilities = \<lparr>quantityUnit = Coins, contractSize = 1, priceDistanceUnit = Price,
     supportsCftc = False, supportsEconomicCalendar = False, supportsIntermarket = False,
     supportsSocialSentiment = True\<rparr>"

section \<open>The built-in symbols\<close>

definition gold_symbols :: "symbol_definition list" where
  "gold_symbols =
  [\<lparr>sd_internal = ''XAUUSD'', sd_display = ''Gold / US Dollar'', sd_category = Gold, sd_baseCurrency = ''XAU'',
    sd_quoteCurrency = ''USD'', sd_settlementCurrency = USD, sd_biquote = Some ''XAUUSD'', sd_binance = None,
    sd_finnhub = ''OANDA:XAU_USD'', sd_tradingView = ''OANDA:XAUUSD'', sd_decimals = 2, sd_pipSize = 0.1,
    sd_currencies = [''USD'', ''XAU''], sd_providers = [Biquote, Finnhub], sd_capabilities = gold_capabilities\<rparr>]"

definition forex_majors :: "symbol_definition list" where
  "forex_majors =
  [\<lparr>sd_internal = ''EURUSD'', sd_display = ''Euro / US Dollar'', sd_category = Forex, sd_baseCurrency = ''EUR'',
    sd_quoteCurrency = ''USD'', sd_settlementCurrency = USD, sd_biquote = Some ''EURUSD'', sd_binance = None,
    sd_finnhub = ''OANDA:EUR_USD'', sd_tradingView = ''OANDA:EURUSD'', sd_decimals = 5, sd_pipSize = 0.0001,
    sd_currencies = [''USD'', ''EUR''], sd_providers = [Biquote, Finnhub], sd_capabilities = cftc_fx_capabilities\<rparr>,
   \<lparr>sd_internal = ''GBPUSD'', sd_display = ''British Pound / US Dollar'', sd_category = Forex, sd_baseCurrency = ''GBP'',
    sd_quoteCurrency = ''USD'', sd_settlementCurrency = USD, sd_biquote = Some ''GBPUSD'', sd_binance = None,
    sd_finnhub = ''OANDA:GBP_USD'', sd_tradingView = ''OANDA:GBPUSD'', sd_decimals = 5, sd_pipSize = 0.0001,
    sd_currencies = [''USD'', ''GBP''], sd_providers = [Biquote, Finnhub], sd_capabilities = cftc_fx_capabilities\<rparr>,
   \<lparr>sd_internal = ''USDJPY'', sd_display = ''US Dollar / Japanese Yen'', sd_category = Forex, sd_baseCurrency = ''USD'',
    sd_quoteCurrency = ''JPY'', sd_settlementCurrency = USD, sd_biquote = Some ''USDJPY'', sd_binance = None,
    sd_finnhub = ''OANDA:USD_JPY'', sd_tradingView = ''OANDA:USDJPY'', sd_decimals = 3, sd_pipSize = 0.01,
    sd_currencies = [''USD'', ''JPY''], sd_providers = [Biquote, Finnhub], sd_capabilities = fx_capabilities\<rparr>,
   \<lparr>sd_internal = ''AUDUSD'', sd_display = ''Australian Dollar / US Dollar'', sd_category = Forex, sd_baseCurrency = ''AUD'',
    sd_quoteCurrency = ''USD'', sd_settlementCurrency = USD, sd_biquote = Some ''AUDUSD'', sd_binance = None,
    sd_finnhub = ''OANDA:AUD_USD'', sd_tradingView = ''OANDA:AUDUSD'', sd_decimals = 5, sd_pipSize = 0.0001,
    sd_currencies = [''USD'', ''AUD''], sd_providers = [Biquote, Finnhub], sd_capabilities = fx_capabilities\<rparr>,
   \<lparr>sd_internal = ''USDCAD'', sd_display = ''US Dollar / Canadian Dollar'', sd_category = Forex, sd_baseCurrency = ''USD'',
    sd_quoteCurrency = ''CAD'', sd_settlementCurrency = USD, sd_biquote = Some ''USDCAD'', sd_binance = None,
    sd_finnhub = ''OANDA:USD_CAD'', sd_tradingView = ''OANDA:USDCAD'', sd_decimals = 5, sd_pipSize = 0.0001,
    sd_currencies = [''USD'', ''CAD''], sd_providers = [Biquote, Finnhub], sd_capabilities = fx_capabilities\<rparr>,
   \<lparr>sd_internal = ''NZDUSD'', sd_display = ''New Zealand Dollar / US Dollar'', sd_category = Forex, sd_baseCurrency = ''NZD'',
    sd_quoteCurrency = ''USD'', sd_settlementCurrency = USD, sd_biquote = Some ''NZDUSD'', sd_binance = None,
    sd_finnhub = ''OANDA:NZD_USD'', sd_tradingView = ''OANDA:NZDUSD'', sd_decimals = 5, sd_pipSize = 0.0001,
    sd_currencies = [''USD'', ''NZD''], sd_providers = [Biquote, Finnhub], sd_capabilities = fx_capabilities\<rparr>,
   \<lparr>sd_internal = ''USDCHF'', sd_display = ''US Dollar / Swiss Franc'', sd_category = Forex, sd_baseCurrency = ''USD'',
    sd_quoteCurrency = ''CHF'', sd_settlementCurrency = USD, sd_biquote = Some ''USDCHF'', sd_binance = None,
    sd_finnhub = ''OANDA:USD_CHF'', sd_tradingView = ''OANDA:USDCHF'', sd_decimals = 5, sd_pipSize = 0.0001,
    sd_currencies = [''USD'', ''CHF''], sd_providers = [Biquote, Finnhub], sd_capabilities = fx_capabilities\<rparr>]"

definition forex_crosses :: "symbol_definition list" where
  "forex_crosses =
  [\<lparr>sd_internal = ''EURGBP'', sd_display = ''Euro / British Pound'', sd_category = Forex, sd_baseCurrency = ''EUR'',
    sd_quoteCurrency = ''GBP'', sd_settlementCurrency = USD, sd_biquote = Some ''EURGBP'', sd_binance = None,
    sd_finnhub = ''OANDA:EUR_GBP'', sd_tradingView = ''OANDA:EURGBP'', sd_decimals = 5, sd_pipSize = 0.0001,
    sd_currencies = [''EUR'', ''GBP''], sd_providers = [Biquote, Finnhub], sd_capabilities = fx_capabilities\<rparr>,
   \<lparr>sd_internal = ''EURJPY'', sd_display = ''Euro / Japanese Yen'', sd_category = Forex, sd_baseCurrency = ''EUR'',
    sd_quoteCurrency = ''JPY'', sd_settlementCurrency = USD, sd_biquote = Some ''EURJPY'', sd_binance = None,
    sd_finnhub = ''OANDA:EUR_JPY'', sd_tradingView = ''OANDA:EURJPY'', sd_decimals = 3, sd_pipSize = 0.01,
    sd_currencies = [''EUR'', ''JPY''], sd_providers = [Biquote, Finnhub], sd_capabilities = fx_capabilities\<rparr>,
   \<lparr>sd_internal = ''GBPJPY'', sd_display = ''British Pound / Japanese Yen'', sd_category = Forex, sd_baseCurrency = ''GBP'',
    sd_quoteCurrency = ''JPY'', sd_settlementCurrency = USD, sd_biquote = Some ''GBPJPY'', sd_binance = None,
    sd_finnhub = ''OANDA:GBP_JPY'', sd_tradingView = ''OANDA:GBPJPY'', sd_decimals = 3, sd_pipSize = 0.01,
    sd_currencies = [''GBP'', ''JPY''], sd_providers = [Biquote, Finnhub], sd_capabilities = fx_capabilities\<rparr>,
   \<lparr>sd_internal = ''AUDJPY'', sd_display = ''Australian Dollar / Japanese Yen'', sd_category = Forex, sd_baseCurrency = ''AUD'',
    sd_quoteCurrency = ''JPY'', sd_settlementCurrency = USD, sd_biquote = Some ''AUDJPY'', sd_binance = None,
    sd_finnhub = ''OANDA:AUD_JPY'', sd_tradingView = ''OANDA:AUDJPY'', sd_decimals = 3, sd_pipSize = 0.01,
    sd_currencies = [''AUD'', ''JPY''], sd_providers = [Biquote, Finnhub], sd_capabilities = fx_capabilities\<rparr>]"

definition crypto_symbols :: "symbol_definition list" where
  "crypto_symbols =
  [\<lparr>sd_internal = ''BTCUSDT'', sd_display = ''Bitcoin / Tether'', sd_category = Crypto, sd_baseCurrency = ''BTC'',
    sd_quoteCurrency = ''USDT'', sd_settlementCurrency = USDT, sd_biquote = None, sd_binance = Some ''BTCUSDT'',
    sd_finnhub = ''BINANCE:BTCUSDT'', sd_tradingView = ''BINANCE:BTCUSDT'', sd_decimals = 2, sd_pipSize = 0.01,
    sd_currencies = [''USD'', ''USDT'', ''BTC''], sd_providers = [Binance, Finnhub], sd_capabilities = crypto_capabilities\<rparr>,
   \<lparr>sd_internal = ''ETHUSDT'', sd_display = ''Ethereum / Tether'', sd_category = Crypto, sd_baseCurrency = ''ETH'',
    sd_quoteCurrency = ''USDT'', sd_settlementCurrency = USDT, sd_biquote = None, sd_binance = Some ''ETHUSDT'',
    sd_finnhub = ''BINANCE:ETHUSDT'', sd_tradingView = ''BINANCE:ETHUSDT'', sd_decimals = 2, sd_pipSize = 0.01,
    sd_currencies = [''USD'', ''USDT'', ''ETH''], sd_providers = [Binance, Finnhub], sd_capabilities = crypto_capabilities\<rparr>,
   \<lparr>sd_internal = ''SOLUSDT'', sd_display = ''Solana / Tether'', sd_category = Crypto, sd_baseCurrency = ''SOL'',
    sd_quoteCurrency = ''USDT'', sd_settlementCurrency = USDT, sd_biquote = None, sd_binance = Some ''SOLUSDT'',
    sd_finnhub = ''BINANCE:SOLUSDT'', sd_tradingView = ''BINANCE:SOLUSDT'', sd_decimals = 2, sd_pipSize = 0.01,
    sd_currencies = [''USD'', ''USDT'', ''SOL''], sd_providers = [Binance, Finnhub], sd_capabilities = crypto_capabilities\<rparr>,
   \<lparr>sd_internal = ''BNBUSDT'', sd_display = ''BNB / Tether'', sd_category = Crypto, sd_baseCurrency = ''BNB'',
    sd_quoteCurrency = ''USDT'', sd_settlementCurrency = USDT, sd_biquote = None, sd_binance = Some ''BNBUSDT'',
    sd_finnhub = ''BINANCE:BNBUSDT'', sd_tradingView = ''BINANCE:BNBUSDT'', sd_decimals = 2, sd_pipSize = 0.01,
    sd_currencies = [''USD'', ''USDT'', ''BNB''], sd_providers = [Binance, Finnhub], sd_capabilities = crypto_capabilities\<rparr>,
   \<lparr>sd_internal = ''XRPUSDT'', sd_display = ''XRP / Tether'', sd_category = Crypto, sd_baseCurrency = ''XRP'',
    sd_quoteCurrency = ''USDT'', sd_settlementCurrency = USDT, sd_biquote = None, sd_binance = Some ''XRPUSDT'',
    sd_finnhub = ''BINANCE:XRPUSDT'', sd_tradingView = ''BINANCE:XRPUSDT'', sd_decimals = 4, sd_pipSize = 0.0001,
    sd_currencies = [''USD'', ''USDT'', ''XRP''], sd_providers = [Binance, Finnhub], sd_capabilities = crypto_capabilities\<rparr>,
   \<lparr>sd_internal = ''ADAUSDT'', sd_display = ''Cardano / Tether'', sd_category = Crypto, sd_baseCurrency = ''ADA'',
    sd_quoteCurrency = ''USDT'', sd_settlementCurrency = USDT, sd_biquote = None, sd_binance = Some ''ADAUSDT'',
    sd_finnhub = ''BINANCE:ADAUSDT'', sd_tradingView = ''BINANCE:ADAUSDT'', sd_decimals = 4, sd_pipSize = 0.0001,
    sd_currencies = [''USD'', ''USDT'', ''ADA''], sd_providers = [Binance, Finnhub], sd_capabilities = crypto_capabilities\<rparr>]"

definition BUILTIN_SYMBOLS :: "symbol_definition list" where
  "BUILTIN_SYMBOLS = gold_symbols @ forex_majors @ forex_crosses @ crypto_symbols"

definition SYMBOL_MAP :: "(string, symbol_definition) js_map" where
  "SYMBOL_MAP = foldl (\<lambda>m s. js_set (sd_internal s) s m) [] BUILTIN_SYMBOLS"

definition ALL_SYMBOLS :: "string list" where
  "ALL_SYMBOLS = map sd_internal BUILTIN_SYMBOLS"

definition DEFAULT_WATCHLIST_SYMBOLS :: "string list" where
  "DEFAULT_WATCHLIST_SYMBOLS = [''XAUUSD'', ''EURUSD'', ''GBPUSD'', ''BTCUSDT'', ''ETHUSDT'']"

definition DEFAULT_STREAM_SYMBOLS :: "string list" where
  "DEFAULT_STREAM_SYMBOLS = ALL_SYMBOLS"

definition CFTC_SUPPORTED_SYMBOLS :: "string list" where
  "CFTC_SUPPORTED_SYMBOLS = [''XAUUSD'', ''EURUSD'', ''GBPUSD'']"

section \<open>Lookup\<close>

definition normalizeSymbol :: "string \<Rightarrow> string" where
  "normalizeSymbol s = toUpperCase (js_trim s)"

definition isKnownSymbol :: "string \<Rightarrow> bool" where
  "isKnownSymbol s = js_has SYMBOL_MAP (normalizeSymbol s)"

definition getSymbolDefinition :: "string \<Rightarrow> string + symbol_definition" where
  "getSymbolDefinition s =
     (let canonical = normalizeSymbol s in
      case js_get SYMBOL_MAP canonical of
        None \<Rightarrow> Inl (''Unknown symbol: '' @ canonical)
      | Some d \<Rightarrow> Inr d)"

definition tryGetSymbolDefinition :: "string \<Rightarrow> symbol_definition option" where
  "tryGetSymbolDefinition s = js_get SYMBOL_MAP (normalizeSymbol s)"

definition symbolsByCategory :: "symbolCategory_t \<Rightarrow> string list" where
  "symbolsByCategory c = map sd_internal (filter (\<lambda>s. sd_category s = c) BUILTIN_SYMBOLS)"

definition symbolCategory :: "string \<Rightarrow> symbolCategory_t option" where
  "symbolCategory s = map_option sd_category (tryGetSymbolDefinition s)"

section \<open>The start-up assertion\<close>

datatype catalog_error =
    Invalid_or_duplicate string
  | Invalid_crypto_provider string
  | Invalid_non_crypto_provider string
  | Invalid_cftc_capability string
  | Invalid_defaults

definition check_definition :: "string list \<Rightarrow> symbol_definition \<Rightarrow> catalog_error option" where
  "check_definition seen d =
     (let canonical = normalizeSymbol (sd_internal d);
          hasProvider = (\<lambda>p. p \<in> set (sd_providers d));
          hasCftcMapping = sd_internal d \<in> set CFTC_SUPPORTED_SYMBOLS
      in if canonical \<noteq> sd_internal d \<or> sd_internal d \<in> set seen
         then Some (Invalid_or_duplicate (sd_internal d))
         else if sd_category d = Crypto
              \<and> (sd_binance d = None \<or> \<not> hasProvider Binance \<or> sd_biquote d \<noteq> None)
         then Some (Invalid_crypto_provider (sd_internal d))
         else if sd_category d \<noteq> Crypto
              \<and> (sd_binance d \<noteq> None \<or> \<not> hasProvider Biquote \<or> sd_biquote d = None)
         then Some (Invalid_non_crypto_provider (sd_internal d))
         else if supportsCftc (sd_capabilities d) \<noteq> hasCftcMapping
         then Some (Invalid_cftc_capability (sd_internal d))
         else None)"

fun check_catalog :: "string list \<Rightarrow> symbol_definition list \<Rightarrow> catalog_error + string list" where
  "check_catalog seen [] = Inr seen"
| "check_catalog seen (d # ds) =
     (case check_definition seen d of
        Some e \<Rightarrow> Inl e
      | None \<Rightarrow> check_catalog (seen @ [sd_internal d]) ds)"

definition assertSymbolCatalog :: "catalog_error + unit" where
  "assertSymbolCatalog =
     (case check_catalog [] BUILTIN_SYMBOLS of
        Inl e \<Rightarrow> Inl e
      | Inr seen \<Rightarrow>
          (let defaults = DEFAULT_WATCHLIST_SYMBOLS @ DEFAULT_STREAM_SYMBOLS @ CFTC_SUPPORTED_SYMBOLS
           in if list_ex (\<lambda>s. s \<notin> set seen) defaults then Inl Invalid_defaults else Inr ()))"

section \<open>symbols.ts\<close>

datatype schema_error = Too_small | Too_big | Unknown_symbol string

definition SymbolSchema :: "string \<Rightarrow> schema_error + string" where
  "SymbolSchema s =
     (if length s < 2 then Inl Too_small
      else if length s > 20 then Inl Too_big
      else if isKnownSymbol (normalizeSymbol s) then Inr (normalizeSymbol s)
      else Inl (Unknown_symbol (normalizeSymbol s)))"

definition pipSize :: "string \<Rightarrow> real" where
  "pipSize symbol =
     (case js_get SYMBOL_MAP (normalizeSymbol symbol) of
        Some def \<Rightarrow> sd_pipSize def
      | None \<Rightarrow> if endsWith (normalizeSymbol symbol) ''JPY'' then 0.01 else 0.0001)"

definition priceDecimals :: "string \<Rightarrow> int" where
  "priceDecimals symbol =
     (case js_get SYMBOL_MAP (normalizeSymbol symbol) of
        Some def \<Rightarrow> sd_decimals def
      | None \<Rightarrow> if endsWith (normalizeSymbol symbol) ''JPY'' then 3 else 5)"

text \<open>\<open>formatPips\<close> up to rendering: the number that is printed and its unit.\<close>

definition formatPips :: "string \<Rightarrow> real \<Rightarrow> real \<times> symbolPriceDistanceUnit" where
  "formatPips symbol delta =
     (case tryGetSymbolDefinition symbol of
        Some def \<Rightarrow>
          if priceDistanceUnit (sd_capabilities def) = Price then (delta, Price)
          else (delta / pipSize symbol, Pips)
      | None \<Rightarrow> (delta / pipSize symbol, Pips))"

section \<open>timeframes.ts\<close>

datatype timeframe = M1 | M5 | M15 | M30 | H1 | H4 | D1 | W1

definition TIMEFRAMES :: "timeframe list" where
  "TIMEFRAMES = [M1, M5, M15, M30, H1, H4, D1, W1]"

fun timeframe_name :: "timeframe \<Rightarrow> string" where
  "timeframe_name M1 = ''1m''"
| "timeframe_name M5 = ''5m''"
| "timeframe_name M15 = ''15m''"
| "timeframe_name M30 = ''30m''"
| "timeframe_name H1 = ''1h''"
| "timeframe_name H4 = ''4h''"
| "timeframe_name D1 = ''1d''"
| "timeframe_name W1 = ''1w''"

definition isTimeframe :: "string \<Rightarrow> bool" where
  "isTimeframe value \<longleftrightarrow> value \<in> set (map timeframe_name TIMEFRAMES)"

fun msPerTimeframe :: "timeframe \<Rightarrow> ms" where
  "msPerTimeframe M1 = 60000"
| "msPerTimeframe M5 = 5 * 60000"
| "msPerTimeframe M15 = 15 * 60000"
| "msPerTimeframe M30 = 30 * 60000"
| "msPerTimeframe H1 = 60 * 60000"
| "msPerTimeframe H4 = 4 * 60 * 60000"
| "msPerTimeframe D1 = 24 * 60 * 60000"
| "msPerTimeframe W1 = 7 * 24 * 60 * 60000"

section \<open>Lemmas\<close>

lemma normalizeSymbol_idem [simp]: "normalizeSymbol (normalizeSymbol s) = normalizeSymbol s"
  by (simp add: normalizeSymbol_def js_trim_upper)

text \<open>A catalog that passes the loop of the assertion meets the per-symbol contract.\<close>

definition symbol_ok :: "symbol_definition \<Rightarrow> bool" where
  "symbol_ok d \<longleftrightarrow> normalizeSymbol (sd_internal d) = sd_internal d
    \<and> (if sd_category d = Crypto
       then sd_binance d \<noteq> None \<and> Binance \<in> set (sd_providers d) \<and> sd_biquote d = None
       else sd_binance d = None \<and> Biquote \<in> set (sd_providers d) \<and> sd_biquote d \<noteq> None)
    \<and> supportsCftc (sd_capabilities d) = (sd_internal d \<in> set CFTC_SUPPORTED_SYMBOLS)"

lemma check_definition_None:
  "check_definition seen d = None \<longleftrightarrow> symbol_ok d \<and> sd_internal d \<notin> set seen"
  by (auto simp: check_definition_def symbol_ok_def Let_def split: if_splits)

lemma check_catalog_Inr:
  "check_catalog seen ds = Inr seen' \<longleftrightarrow>
     seen' = seen @ map sd_internal ds \<and> list_all symbol_ok ds
     \<and> distinct (map sd_internal ds) \<and> set seen \<inter> set (map sd_internal ds) = {}"
proof (induction ds arbitrary: seen)
  case Nil
  then show ?case by auto
next
  case (Cons d ds)
  show ?case
  proof (cases "check_definition seen d")
    case None
    then show ?thesis
      using check_definition_None[of seen d] Cons[of "seen @ [sd_internal d]"] by auto
  next
    case (Some e)
    then show ?thesis
      using check_definition_None[of seen d] by auto
  qed
qed

lemmas catalog_defs = BUILTIN_SYMBOLS_def gold_symbols_def forex_majors_def forex_crosses_def
  crypto_symbols_def

lemma check_catalog_builtin: "check_catalog [] BUILTIN_SYMBOLS = Inr ALL_SYMBOLS"
  by code_simp

lemma builtin_ok: "d \<in> set BUILTIN_SYMBOLS \<Longrightarrow> symbol_ok d"
  and builtin_distinct: "distinct (map sd_internal BUILTIN_SYMBOLS)"
  using check_catalog_builtin[unfolded check_catalog_Inr] by (auto simp: list_all_iff)

lemma foldl_js_set_map:
  "js_get (foldl (\<lambda>m s. js_set (f s) s m) m xs) k
     = (case find_last (\<lambda>s. f s = k) xs of None \<Rightarrow> js_get m k | Some s \<Rightarrow> Some s)"
  by (induction xs rule: rev_induct) (auto simp: map_laws find_last_snoc)

lemma symbol_map_lookup:
  "js_get SYMBOL_MAP k = Some d \<longleftrightarrow> d \<in> set BUILTIN_SYMBOLS \<and> sd_internal d = k"
proof
  assume "js_get SYMBOL_MAP k = Some d"
  then have "find_last (\<lambda>s. sd_internal s = k) BUILTIN_SYMBOLS = Some d"
    by (simp add: SYMBOL_MAP_def foldl_js_set_map split: option.splits)
  then show "d \<in> set BUILTIN_SYMBOLS \<and> sd_internal d = k"
    by (blast dest: find_last_Some)
next
  assume d: "d \<in> set BUILTIN_SYMBOLS \<and> sd_internal d = k"
  have "find_last (\<lambda>s. sd_internal s = k) BUILTIN_SYMBOLS \<noteq> None"
    unfolding find_last_None using d by blast
  then obtain d' where d': "find_last (\<lambda>s. sd_internal s = k) BUILTIN_SYMBOLS = Some d'"
    by blast
  then have "d' \<in> set BUILTIN_SYMBOLS" "sd_internal d' = sd_internal d"
    using d find_last_Some[OF d'] by simp_all
  moreover have "inj_on sd_internal (set BUILTIN_SYMBOLS)"
    using builtin_distinct by (simp add: distinct_map)
  ultimately have "d' = d"
    using d by (blast dest: inj_onD)
  with d' show "js_get SYMBOL_MAP k = Some d"
    by (simp add: SYMBOL_MAP_def foldl_js_set_map)
qed

lemma known_iff: "isKnownSymbol s \<longleftrightarrow> normalizeSymbol s \<in> set ALL_SYMBOLS"
proof -
  have "isKnownSymbol s \<longleftrightarrow> (\<exists>d. js_get SYMBOL_MAP (normalizeSymbol s) = Some d)"
    by (auto simp: isKnownSymbol_def js_has_def)
  then show ?thesis
    by (force simp: ALL_SYMBOLS_def symbol_map_lookup)
qed

section \<open>Properties\<close>

text \<open>
  the lookups are exact and case- and whitespace-insensitive: a string resolves to a
  definition iff the definition is in the catalog under the normalised string, both lookup
  functions agree (the throwing one reports the normalised string), and resolving a canonical
  name finds the definition that carries it.
\<close>

theorem symbol_lookup_exact:
  "(tryGetSymbolDefinition s = Some d
      \<longleftrightarrow> d \<in> set BUILTIN_SYMBOLS \<and> sd_internal d = normalizeSymbol s)
   \<and> getSymbolDefinition s = (case tryGetSymbolDefinition s of
        None \<Rightarrow> Inl (''Unknown symbol: '' @ normalizeSymbol s) | Some d \<Rightarrow> Inr d)
   \<and> tryGetSymbolDefinition (normalizeSymbol s) = tryGetSymbolDefinition s
   \<and> (\<exists>!i. i < 18 \<and> ALL_SYMBOLS ! i = normalizeSymbol s) = isKnownSymbol s"
proof -
  have len: "length ALL_SYMBOLS = 18"
    by code_simp
  have "(\<exists>!i. i < 18 \<and> ALL_SYMBOLS ! i = normalizeSymbol s)
      \<longleftrightarrow> normalizeSymbol s \<in> set ALL_SYMBOLS"
    using builtin_distinct len unfolding ALL_SYMBOLS_def[symmetric]
    by (metis in_set_conv_nth nth_eq_iff_index_eq)
  then show ?thesis
    by (simp add: tryGetSymbolDefinition_def getSymbolDefinition_def symbol_map_lookup known_iff Let_def)
qed

text \<open>
  The module loads (the start-up assertion does not throw), and the contract it checks holds
  of every symbol a lookup can return: crypto symbols are streamed from Binance and from nowhere
  else, all others from BiQuote, the CFTC flag matches the CFTC list, and the price step is ten
  times the last displayed digit (the last digit itself for crypto).
\<close>

theorem catalog_contract:
  "assertSymbolCatalog = Inr ()
   \<and> list_all (\<lambda>s. case tryGetSymbolDefinition s of None \<Rightarrow> False | Some d \<Rightarrow>
       (sd_category d = Crypto) = (sd_binance d \<noteq> None)
       \<and> (sd_category d = Crypto) = (sd_biquote d = None)
       \<and> supportsCftc (sd_capabilities d) = (s \<in> set CFTC_SUPPORTED_SYMBOLS)
       \<and> pipSize s = (if sd_category d = Crypto then 1 else 10) / 10 ^ nat (priceDecimals s))
     ALL_SYMBOLS"
proof -
  have "assertSymbolCatalog = Inr ()"
    by code_simp
  moreover have steps: "list_all (\<lambda>d. sd_pipSize d
      = (if sd_category d = Crypto then 1 else 10) / 10 ^ nat (sd_decimals d)) BUILTIN_SYMBOLS"
    by (simp add: catalog_defs)
  have "case tryGetSymbolDefinition (sd_internal d) of None \<Rightarrow> False | Some d' \<Rightarrow>
       (sd_category d' = Crypto) = (sd_binance d' \<noteq> None)
       \<and> (sd_category d' = Crypto) = (sd_biquote d' = None)
       \<and> supportsCftc (sd_capabilities d') = (sd_internal d \<in> set CFTC_SUPPORTED_SYMBOLS)
       \<and> pipSize (sd_internal d)
           = (if sd_category d' = Crypto then 1 else 10) / 10 ^ nat (priceDecimals (sd_internal d))"
    if d: "d \<in> set BUILTIN_SYMBOLS" for d
  proof -
    have "js_get SYMBOL_MAP (normalizeSymbol (sd_internal d)) = Some d"
      using builtin_ok[OF d] d by (simp add: symbol_map_lookup symbol_ok_def)
    then show ?thesis
      using builtin_ok[OF d] steps d
      by (simp add: tryGetSymbolDefinition_def pipSize_def priceDecimals_def symbol_ok_def
          list_all_iff split: if_splits)
  qed
  ultimately show ?thesis
    by (simp add: list_all_iff ALL_SYMBOLS_def)
qed

text \<open>
  the strict schema accepts exactly the strings of 2 to 20 characters that normalise to a
  catalog symbol, returns the canonical name, and accepts its own output unchanged.
\<close>

theorem symbol_schema_exact:
  "SymbolSchema s = Inr t \<longleftrightarrow> 2 \<le> length s \<and> length s \<le> 20 \<and> t = normalizeSymbol s
     \<and> t \<in> set ALL_SYMBOLS \<and> SymbolSchema t = Inr t"
proof -
  have "\<forall>t\<in>set ALL_SYMBOLS. 2 \<le> length t \<and> length t \<le> 20 \<and> normalizeSymbol t = t"
    by code_simp
  then show ?thesis
    by (auto simp: SymbolSchema_def known_iff)
qed

end
