(* ===== verification/Candles.thy ===== *)
theory Candles
  imports Symbols
begin

text \<open>
  The market data records shared by the indicator library, the data adapters and the worker:
  candles (\<open>packages/shared/src/schemas/candle.ts\<close>) and live ticks (\<open>schemas/live-tick.ts\<close>).
\<close>

record candle =
  cd_symbol :: string
  cd_tf :: timeframe
  cd_t :: ms
  cd_o :: real
  cd_h :: real
  cd_l :: real
  cd_c :: real
  cd_v :: "real option"
  cd_source :: string
  cd_fetchedAt :: ms

record live_tick =
  lt_symbol :: string
  lt_bid :: real
  lt_ask :: real
  lt_mid :: real
  lt_ts :: ms
  lt_source :: string

text \<open>A candle whose range contains its open and close, as every provider delivers it.\<close>

definition candle_ok :: "candle \<Rightarrow> bool" where
  "candle_ok c \<longleftrightarrow> cd_l c \<le> cd_o c \<and> cd_l c \<le> cd_c c \<and> cd_o c \<le> cd_h c \<and> cd_c c \<le> cd_h c"

text \<open>A candle of the given prices on the hour grid, for concrete examples.\<close>

definition mk_candle :: "ms \<Rightarrow> real \<Rightarrow> real \<Rightarrow> real \<Rightarrow> real \<Rightarrow> candle" where
  "mk_candle t opn hi lo cls = \<lparr>cd_symbol = ''XAUUSD'', cd_tf = H1, cd_t = t, cd_o = opn, cd_h = hi,
     cd_l = lo, cd_c = cls, cd_v = None, cd_source = ''example'', cd_fetchedAt = t\<rparr>"

lemma mk_candle_sel [simp]:
  "cd_symbol (mk_candle t opn hi lo cls) = ''XAUUSD''" "cd_tf (mk_candle t opn hi lo cls) = H1"
  "cd_t (mk_candle t opn hi lo cls) = t" "cd_o (mk_candle t opn hi lo cls) = opn"
  "cd_h (mk_candle t opn hi lo cls) = hi" "cd_l (mk_candle t opn hi lo cls) = lo"
  "cd_c (mk_candle t opn hi lo cls) = cls"
  by (simp_all add: mk_candle_def)

lemma candle_ok_range: "candle_ok c \<Longrightarrow> cd_l c \<le> cd_h c"
  by (simp add: candle_ok_def)

end
