(* ===== verification/Indicators.thy ===== *)
theory Indicators
  imports Candles
begin

text \<open>
  The indicator library (\<open>packages/indicators/src\<close>): moving averages, RSI, ATR, MACD,
  Bollinger bands, pivots, and the plugin registry that dispatches to them. \<open>number | null\<close> is
  \<open>real option\<close>; a thrown error is \<open>Inl\<close> of its message. Periods are natural numbers, a negative
  period being refused by the same guard as 0. A loop over an index is a recursive function of
  the index with the accumulators of the code as further arguments.
\<close>

section \<open>util.ts\<close>

definition closes :: "candle list \<Rightarrow> real list" where
  "closes candles = map cd_c candles"

definition padFront :: "'a list \<Rightarrow> nat \<Rightarrow> 'a \<Rightarrow> 'a list" where
  "padFront series nullCount fill = replicate nullCount fill @ series"

text \<open>\<open>NaN\<close> of an empty (for \<open>stdev\<close> a one-element) list is \<open>None\<close>.\<close>

definition mean :: "real list \<Rightarrow> real option" where
  "mean xs = (if xs = [] then None else Some (foldl (+) 0 xs / real (length xs)))"

definition stdev :: "real list \<Rightarrow> real option" where
  "stdev xs =
     (if length xs < 2 then None
      else case mean xs of None \<Rightarrow> None
        | Some m \<Rightarrow> Some (sqrt (foldl (\<lambda>sq x. sq + (x - m)\<^sup>2) 0 xs / real (length xs - 1))))"

section \<open>moving-averages.ts\<close>

function sma_loop :: "nat \<Rightarrow> real list \<Rightarrow> nat \<Rightarrow> real \<Rightarrow> real list" where
  "sma_loop period xs i acc =
     (if i < length xs
      then let acc' = acc + (xs ! i - xs ! (i - period))
           in acc' / real period # sma_loop period xs (Suc i) acc'
      else [])"
  by pat_completeness auto
termination by (relation "measure (\<lambda>(p, xs, i, s). length xs - i)") auto

definition sma :: "candle list \<Rightarrow> nat \<Rightarrow> string + real option list" where
  "sma candles period =
     (if period < 1 then Inl ''sma: period must be >= 1''
      else let xs = closes candles in
        if length xs < period then Inr (replicate (length xs) None)
        else let acc = foldl (+) 0 (take period xs);
                 out = acc / real period # sma_loop period xs period acc
             in Inr (padFront (map Some out) (period - 1) None))"

function ema_loop :: "real \<Rightarrow> real list \<Rightarrow> nat \<Rightarrow> real \<Rightarrow> real list" where
  "ema_loop k xs i prev =
     (if i < length xs
      then let prev' = (xs ! i - prev) * k + prev in prev' # ema_loop k xs (Suc i) prev'
      else [])"
  by pat_completeness auto
termination by (relation "measure (\<lambda>(k, xs, i, s). length xs - i)") auto

definition ema :: "candle list \<Rightarrow> nat \<Rightarrow> string + real option list" where
  "ema candles period =
     (if period < 1 then Inl ''ema: period must be >= 1''
      else let xs = closes candles in
        if length xs < period then Inr (replicate (length xs) None)
        else let k = 2 / (real period + 1);
                 seed = foldl (+) 0 (take period xs);
                 prev = seed / real period;
                 out = prev # ema_loop k xs period prev
             in Inr (padFront (map Some out) (period - 1) None))"

section \<open>rsi.ts\<close>

definition rsiFromAverages :: "real \<Rightarrow> real \<Rightarrow> real" where
  "rsiFromAverages avgGain avgLoss =
     (if avgLoss = 0 then 100
      else let rs = avgGain / avgLoss in 100 - 100 / (1 + rs))"

function rsi_seed :: "real list \<Rightarrow> nat \<Rightarrow> nat \<Rightarrow> real \<Rightarrow> real \<Rightarrow> real \<times> real" where
  "rsi_seed xs period i gains losses =
     (if i \<le> period
      then let delta = xs ! i - xs ! (i - 1)
           in if delta \<ge> 0 then rsi_seed xs period (Suc i) (gains + delta) losses
              else rsi_seed xs period (Suc i) gains (losses + - delta)
      else (gains, losses))"
  by pat_completeness auto
termination by (relation "measure (\<lambda>(xs, p, i, g, l). Suc p - i)") auto

function rsi_loop :: "real list \<Rightarrow> nat \<Rightarrow> nat \<Rightarrow> real \<Rightarrow> real \<Rightarrow> real list" where
  "rsi_loop xs period i avgGain avgLoss =
     (if i < length xs
      then let delta = xs ! i - xs ! (i - 1);
               gain = (if delta > 0 then delta else 0);
               loss = (if delta < 0 then - delta else 0);
               avgGain' = (avgGain * (real period - 1) + gain) / real period;
               avgLoss' = (avgLoss * (real period - 1) + loss) / real period
           in rsiFromAverages avgGain' avgLoss' # rsi_loop xs period (Suc i) avgGain' avgLoss'
      else [])"
  by pat_completeness auto
termination by (relation "measure (\<lambda>(xs, p, i, g, l). length xs - i)") auto

definition rsi :: "candle list \<Rightarrow> nat \<Rightarrow> string + real option list" where
  "rsi candles period =
     (if period < 1 then Inl ''rsi: period must be >= 1''
      else let xs = closes candles in
        if length xs \<le> period then Inr (replicate (length xs) None)
        else let (gains, losses) = rsi_seed xs period 1 0 0;
                 avgGain = gains / real period;
                 avgLoss = losses / real period;
                 out = rsiFromAverages avgGain avgLoss # rsi_loop xs period (period + 1) avgGain avgLoss
             in Inr (padFront (map Some out) period None))"

section \<open>atr.ts\<close>

definition true_range :: "candle list \<Rightarrow> nat \<Rightarrow> real" where
  "true_range candles i =
     (let c = candles ! i in
      if i = 0 then cd_h c - cd_l c
      else let prev = candles ! (i - 1);
               a = cd_h c - cd_l c;
               b = \<bar>cd_h c - cd_c prev\<bar>;
               d = \<bar>cd_l c - cd_c prev\<bar>
           in max (max a b) d)"

function atr_loop :: "nat \<Rightarrow> real list \<Rightarrow> nat \<Rightarrow> real \<Rightarrow> real list" where
  "atr_loop period tr i prev =
     (if i < length tr
      then let prev' = (prev * (real period - 1) + tr ! i) / real period
           in prev' # atr_loop period tr (Suc i) prev'
      else [])"
  by pat_completeness auto
termination by (relation "measure (\<lambda>(p, tr, i, s). length tr - i)") auto

definition atr :: "candle list \<Rightarrow> nat \<Rightarrow> string + real option list" where
  "atr candles period =
     (if period < 1 then Inl ''atr: period must be >= 1''
      else if length candles \<le> period then Inr (replicate (length candles) None)
      else let tr = map (true_range candles) [0..<length candles];
               seed = foldl (+) 0 (take period tr);
               prev = seed / real period;
               out = prev # atr_loop period tr period prev
           in Inr (padFront (map Some out) (period - 1) None))"

section \<open>macd.ts\<close>

record macd_point =
  mp_macd :: "real option"
  mp_signal :: "real option"
  mp_hist :: "real option"

definition emaOfNumbers :: "real list \<Rightarrow> nat \<Rightarrow> real option list" where
  "emaOfNumbers xs period =
     (if length xs < period then replicate (length xs) None
      else let seed = foldl (+) 0 (take period xs);
               prev = seed / real period;
               k = 2 / (real period + 1)
           in replicate (period - 1) None @ map Some (prev # ema_loop k xs period prev))"

fun opt_sub :: "real option \<Rightarrow> real option \<Rightarrow> real option" where
  "opt_sub (Some f) (Some s) = Some (f - s)"
| "opt_sub _ _ = None"

text \<open>\<open>findIndex((v) => v !== null)\<close>, \<open>-1\<close> being \<open>None\<close>.\<close>

fun findIndex_some :: "'a option list \<Rightarrow> nat option" where
  "findIndex_some [] = None"
| "findIndex_some (Some v # xs) = Some 0"
| "findIndex_some (None # xs) = map_option Suc (findIndex_some xs)"

definition macd :: "candle list \<Rightarrow> nat \<Rightarrow> nat \<Rightarrow> nat \<Rightarrow> string + macd_point list" where
  "macd candles fast slow signal =
     (if fast < 1 \<or> slow < 1 \<or> signal < 1 then Inl ''macd: periods must be >= 1''
      else if fast \<ge> slow then Inl ''macd: fast must be < slow''
      else case (ema candles fast, ema candles slow) of
        (Inl e, _) \<Rightarrow> Inl e
      | (Inr fastE, Inl e) \<Rightarrow> Inl e
      | (Inr fastE, Inr slowE) \<Rightarrow>
          let macdLine = map (\<lambda>i. opt_sub (fastE ! i) (slowE ! i)) [0..<length candles] in
          (case findIndex_some macdLine of
             None \<Rightarrow> Inr (map (\<lambda>_. \<lparr>mp_macd = None, mp_signal = None, mp_hist = None\<rparr>) candles)
           | Some startIdx \<Rightarrow>
               let macdSlice = map the (drop startIdx macdLine);
                   signalSlice = emaOfNumbers macdSlice signal
               in Inr (map (\<lambda>i. let m = macdLine ! i;
                                    sig = (if i \<ge> startIdx \<and> i - startIdx < length signalSlice
                                           then signalSlice ! (i - startIdx) else None)
                                in \<lparr>mp_macd = m, mp_signal = sig, mp_hist = opt_sub m sig\<rparr>)
                        [0..<length candles])))"

section \<open>bollinger.ts\<close>

record bollinger_point =
  bp_upper :: "real option"
  bp_middle :: "real option"
  bp_lower :: "real option"

definition bollinger_at :: "real list \<Rightarrow> nat \<Rightarrow> real \<Rightarrow> nat \<Rightarrow> bollinger_point" where
  "bollinger_at xs period multiplier i =
     (let window = slice (i + 1 - period) (i + 1) xs;
          m = foldl (+) 0 window / real period;
          sd = stdev window
      in \<lparr>bp_upper = map_option (\<lambda>d. m + multiplier * d) sd, bp_middle = Some m,
          bp_lower = map_option (\<lambda>d. m - multiplier * d) sd\<rparr>)"

definition bollinger :: "candle list \<Rightarrow> nat \<Rightarrow> real \<Rightarrow> string + bollinger_point list" where
  "bollinger candles period multiplier =
     (if period < 2 then Inl ''bollinger: period must be >= 2''
      else let xs = closes candles;
               blank = \<lparr>bp_upper = None, bp_middle = None, bp_lower = None\<rparr>
           in if length xs < period then Inr (map (\<lambda>_. blank) candles)
              else Inr (padFront (map (bollinger_at xs period multiplier) [period - 1..<length xs])
                          (period - 1) blank))"

section \<open>pivots.ts\<close>

record classic_pivots =
  cp_pp :: real
  cp_r1 :: real
  cp_r2 :: real
  cp_r3 :: real
  cp_s1 :: real
  cp_s2 :: real
  cp_s3 :: real

definition classicPivots :: "real \<Rightarrow> real \<Rightarrow> real \<Rightarrow> classic_pivots" where
  "classicPivots prevHigh prevLow prevClose =
     (let pp = (prevHigh + prevLow + prevClose) / 3 in
      \<lparr>cp_pp = pp, cp_r1 = 2 * pp - prevLow, cp_r2 = pp + (prevHigh - prevLow),
       cp_r3 = prevHigh + 2 * (pp - prevLow), cp_s1 = 2 * pp - prevHigh,
       cp_s2 = pp - (prevHigh - prevLow), cp_s3 = prevLow - 2 * (prevHigh - pp)\<rparr>)"

definition pivotsAligned :: "candle list \<Rightarrow> classic_pivots option list" where
  "pivotsAligned candles =
     map (\<lambda>i. if i = 0 then None
              else let prev = candles ! (i - 1) in Some (classicPivots (cd_h prev) (cd_l prev) (cd_c prev)))
       [0..<length candles]"

section \<open>Window sums\<close>

text \<open>\<open>closed p xs i\<close>: the sum of the \<open>p\<close> values that end at index \<open>i\<close>.\<close>

definition window_sum :: "nat \<Rightarrow> real list \<Rightarrow> nat \<Rightarrow> real" where
  "window_sum p xs i = (\<Sum>j\<in>{i + 1 - p..i}. xs ! j)"

lemma foldl_plus: "foldl (+) a xs = a + sum_list xs" for a :: real
  by (induction xs arbitrary: a) simp_all

lemma sum_list_take:
  assumes "0 < p" "p \<le> length xs"
  shows "sum_list (take p xs) = window_sum p xs (p - 1)"
proof -
  have "sum_list (take p xs) = (\<Sum>j\<in>{0..<p}. xs ! j)"
    using assms by (simp add: sum_list_sum_nth)
  also have "{0..<p} = {p - 1 + 1 - p..p - 1}"
    using assms by auto
  finally show ?thesis by (simp add: window_sum_def)
qed

lemma window_sum_slide:
  assumes "0 < p" "p \<le> i"
  shows "window_sum p xs i = window_sum p xs (i - 1) + (xs ! i - xs ! (i - p))"
proof -
  have "(\<Sum>j\<in>{i - p..i}. xs ! j) = xs ! (i - p) + window_sum p xs i"
    using assms by (simp add: window_sum_def sum.atLeast_Suc_atMost Suc_diff_le)
  moreover have "(\<Sum>j\<in>{i - p..i}. xs ! j) = window_sum p xs (i - 1) + xs ! i"
    using assms sum.cl_ivl_Suc[of "\<lambda>j. xs ! j" "i - p" "i - 1"]
    by (auto simp: window_sum_def)
  ultimately show ?thesis by simp
qed

declare sma_loop.simps [simp del] ema_loop.simps [simp del] rsi_seed.simps [simp del]
  rsi_loop.simps [simp del] atr_loop.simps [simp del]

lemma sma_loop_eq:
  assumes "0 < p" "p \<le> i" "acc = window_sum p xs (i - 1)"
  shows "sma_loop p xs i acc = map (\<lambda>k. window_sum p xs k / real p) [i..<length xs]"
  using assms
proof (induction p xs i acc rule: sma_loop.induct)
  case (1 p xs i acc)
  show ?case
  proof (cases "i < length xs")
    case True
    have "acc + (xs ! i - xs ! (i - p)) = window_sum p xs i"
      using window_sum_slide[of p i xs] 1 by simp
    then show ?thesis
      using True 1 by (subst sma_loop.simps) (simp add: Let_def upt_conv_Cons)
  next
    case False
    then show ?thesis by (subst sma_loop.simps) simp
  qed
qed

text \<open>A series aligned with the candles: blank until \<open>first\<close>, then a value per index.\<close>

definition aligned :: "nat \<Rightarrow> nat \<Rightarrow> (nat \<Rightarrow> 'a) \<Rightarrow> 'a option list" where
  "aligned n first f = map (\<lambda>i. if i < first then None else Some (f i)) [0..<n]"

lemma length_aligned [simp]: "length (aligned n first f) = n"
  by (simp add: aligned_def)

lemma nth_aligned [simp]:
  "i < n \<Longrightarrow> aligned n first f ! i = (if i < first then None else Some (f i))"
  by (simp add: aligned_def)

lemma aligned_short: "n \<le> first \<Longrightarrow> replicate n None = aligned n first f"
  by (rule nth_equalityI) simp_all

lemma padFront_aligned:
  "xs = map f [first..<n] \<Longrightarrow> first \<le> n
    \<Longrightarrow> padFront (map Some xs) first None = aligned n first f"
  by (rule nth_equalityI) (auto simp: padFront_def nth_append)

lemma aligned_cong: "(\<And>i. first \<le> i \<Longrightarrow> i < n \<Longrightarrow> f i = g i) \<Longrightarrow> aligned n first f = aligned n first g"
  by (auto simp: aligned_def)

lemma length_closes [simp]: "length (closes cs) = length cs"
  by (simp add: closes_def)

lemma sma_spec:
  "0 < p \<Longrightarrow> sma cs p = Inr (aligned (length cs) (p - 1) (\<lambda>i. window_sum p (closes cs) i / real p))"
proof (cases "length cs < p")
  case True
  assume "0 < p"
  then show ?thesis
    using True by (simp add: sma_def aligned_short[symmetric])
next
  case False
  assume p: "0 < p"
  let ?xs = "closes cs" and ?f = "\<lambda>i. window_sum p (closes cs) i / real p"
  have "sum_list (take p ?xs) = window_sum p ?xs (p - 1)"
    using p False by (simp add: sum_list_take)
  then have out: "foldl (+) 0 (take p ?xs) / real p # sma_loop p ?xs p (foldl (+) 0 (take p ?xs))
      = map ?f [p - 1..<length cs]"
    using p False sma_loop_eq[of p p "window_sum p ?xs (p - 1)" ?xs]
      upt_conv_Cons[of "p - 1" "length cs"]
    by (simp add: foldl_plus)
  then show ?thesis
    using p False padFront_aligned[OF out] by (simp add: sma_def Let_def del: list.map)
qed

section \<open>Exponential averages\<close>

lemma ema_step_between:
  fixes k :: real
  assumes "0 \<le> k" "k \<le> 1" "a \<le> v" "v \<le> b" "a \<le> x" "x \<le> b"
  shows "a \<le> (x - v) * k + v \<and> (x - v) * k + v \<le> b"
proof -
  have eq: "(x - v) * k + v = k * x + (1 - k) * v"
    by (simp add: algebra_simps)
  have "k * a + (1 - k) * a \<le> k * x + (1 - k) * v" "k * x + (1 - k) * v \<le> k * b + (1 - k) * b"
    using assms by (intro add_mono mult_left_mono; simp)+
  then show ?thesis
    by (simp add: eq algebra_simps)
qed

lemma ema_loop_between:
  assumes "0 \<le> k" "k \<le> 1" "a \<le> prev" "prev \<le> b" "\<forall>x\<in>set xs. a \<le> x \<and> x \<le> b"
  shows "\<forall>v\<in>set (ema_loop k xs i prev). a \<le> v \<and> v \<le> b"
  using assms
proof (induction k xs i prev rule: ema_loop.induct)
  case (1 k xs i prev)
  show ?case
  proof (cases "i < length xs")
    case True
    then have "a \<le> (xs ! i - prev) * k + prev \<and> (xs ! i - prev) * k + prev \<le> b"
      using 1 by (intro ema_step_between) auto
    then show ?thesis
      using 1 True by (subst ema_loop.simps) (simp add: Let_def)
  next
    case False
    then show ?thesis by (subst ema_loop.simps) simp
  qed
qed

lemma length_ema_loop [simp]: "length (ema_loop k xs i prev) = length xs - i"
proof (induction k xs i prev rule: ema_loop.induct)
  case (1 k xs i prev)
  then show ?case by (subst ema_loop.simps) (auto simp: Let_def)
qed

lemma mean_between:
  fixes xs :: "real list"
  assumes "xs \<noteq> []" "\<forall>x\<in>set xs. a \<le> x \<and> x \<le> b"
  shows "a \<le> sum_list xs / real (length xs) \<and> sum_list xs / real (length xs) \<le> b"
proof -
  have "real (length xs) * a \<le> sum_list xs \<and> sum_list xs \<le> real (length xs) * b"
    using assms(2) by (induction xs) (auto simp: algebra_simps)
  then show ?thesis
    using assms(1) by (simp add: field_simps)
qed

lemma ema_shape:
  assumes "ema cs p = Inr vs"
  shows "0 < p \<and> length vs = length cs \<and> (\<forall>i<length cs. vs ! i = None \<longleftrightarrow> i + 1 < p)"
  using assms by (auto simp: ema_def Let_def padFront_def nth_append nth_Cons' split: if_splits)

lemma ema_between:
  assumes "ema cs p = Inr vs" "\<forall>c\<in>set cs. a \<le> cd_c c \<and> cd_c c \<le> b" "Some v \<in> set vs"
  shows "a \<le> v \<and> v \<le> b"
proof -
  let ?xs = "closes cs" and ?k = "2 / (real p + 1)" and ?seed = "sum_list (take p (closes cs)) / real p"
  have p: "0 < p" and xs: "\<forall>x\<in>set ?xs. a \<le> x \<and> x \<le> b"
    using assms by (auto simp: ema_def closes_def split: if_splits)
  have len: "p \<le> length cs"
    using assms by (auto simp: ema_def Let_def split: if_splits)
  then have v: "v \<in> set (?seed # ema_loop ?k ?xs p ?seed)"
    using assms p by (auto simp: ema_def Let_def padFront_def foldl_plus split: if_splits)
  have l: "length (take p ?xs) = p" and x: "\<forall>x\<in>set (take p ?xs). a \<le> x \<and> x \<le> b"
    using xs len by (auto dest: in_set_takeD)
  then have "take p ?xs \<noteq> []"
    using p by (metis less_irrefl list.size(3))
  with l x have "a \<le> ?seed \<and> ?seed \<le> b"
    using mean_between[of "take p ?xs" a b] by simp
  moreover from this have "\<forall>v\<in>set (ema_loop ?k ?xs p ?seed). a \<le> v \<and> v \<le> b"
    using xs p by (intro ema_loop_between) auto
  ultimately show ?thesis
    using v by auto
qed

section \<open>Wilder averages\<close>

text \<open>
  The reference for the smoothing that RSI and ATR compute with a running value: the mean of the
  first \<open>p\<close> samples from index \<open>b\<close> on, then \<open>(previous * (p - 1) + sample) / p\<close>.
\<close>

definition wilder_seed :: "(nat \<Rightarrow> real) \<Rightarrow> nat \<Rightarrow> nat \<Rightarrow> real" where
  "wilder_seed f p b = (\<Sum>j\<in>{b..<b + p}. f j) / real p"

primrec wilder :: "(nat \<Rightarrow> real) \<Rightarrow> nat \<Rightarrow> nat \<Rightarrow> nat \<Rightarrow> real" where
  "wilder f p b 0 = wilder_seed f p b"
| "wilder f p b (Suc i) = (if Suc i < b + p then wilder_seed f p b
     else (wilder f p b i * (real p - 1) + f (Suc i)) / real p)"

lemma wilder_start: "i < b + p \<Longrightarrow> wilder f p b i = wilder_seed f p b"
  by (cases i) simp_all

lemma wilder_step:
  "0 < i \<Longrightarrow> b + p \<le> i \<Longrightarrow> wilder f p b i = (wilder f p b (i - 1) * (real p - 1) + f i) / real p"
  by (cases i) simp_all

lemma wilder_seed_between:
  assumes "0 < p" "\<forall>j. b \<le> j \<and> j < b + p \<longrightarrow> lo \<le> f j \<and> f j \<le> hi"
  shows "lo \<le> wilder_seed f p b \<and> wilder_seed f p b \<le> hi"
proof -
  have "real p * lo \<le> (\<Sum>j\<in>{b..<b + p}. f j)" "(\<Sum>j\<in>{b..<b + p}. f j) \<le> real p * hi"
    using sum_mono[of "{b..<b + p}" "\<lambda>_. lo" f] sum_mono[of "{b..<b + p}" f "\<lambda>_. hi"] assms(2)
    by auto
  then show ?thesis
    using assms(1) by (simp add: wilder_seed_def field_simps)
qed

lemma wilder_between:
  assumes "0 < p" "\<forall>j. b \<le> j \<and> j < n \<longrightarrow> lo \<le> f j \<and> f j \<le> hi" "b + p \<le> n" "i < n"
  shows "lo \<le> wilder f p b i \<and> wilder f p b i \<le> hi"
  using assms(4)
proof (induction i)
  case 0
  then show ?case using wilder_seed_between[of p b lo f hi] assms(1-3) by auto
next
  case (Suc i)
  have seed: "lo \<le> wilder_seed f p b \<and> wilder_seed f p b \<le> hi"
    by (rule wilder_seed_between) (use assms(1-3) in auto)
  let ?w = "wilder f p b i" and ?x = "f (Suc i)"
  have "(?w * (real p - 1) + ?x) / real p = (?x - ?w) * (1 / real p) + ?w"
    using assms(1) by (simp add: field_simps)
  moreover have "lo \<le> ?x" "?x \<le> hi" if "b + p \<le> Suc i"
    using assms(2) Suc.prems that by auto
  ultimately show ?case
    using Suc seed assms(1) ema_step_between[of "1 / real p" lo ?w hi ?x] by auto
qed

lemma wilder_zero:
  assumes "2 \<le> p" "\<forall>j. 0 \<le> f j" "b + p \<le> Suc i"
  shows "wilder f p b i = 0 \<longleftrightarrow> (\<forall>j. b \<le> j \<and> j \<le> i \<longrightarrow> f j = 0)"
  using assms(3)
proof (induction i)
  case 0
  then show ?case using assms(1) by simp
next
  case (Suc i)
  have nn: "0 \<le> wilder f p b i"
    using wilder_between[of p b "Suc i + p + b" 0 f "Max (f ` {..Suc i + p + b})" i] assms
    by auto
  show ?case
  proof (cases "Suc i < b + p")
    case True
    then have b: "b + p = Suc (Suc i)"
      using Suc.prems by simp
    have "wilder f p b (Suc i) = 0 \<longleftrightarrow> (\<Sum>j\<in>{b..<b + p}. f j) = 0"
      using True assms(1) by (simp add: wilder_seed_def)
    also have "\<dots> \<longleftrightarrow> (\<forall>j\<in>{b..<b + p}. f j = 0)"
      using assms(2) by (intro sum_nonneg_eq_0_iff) auto
    finally show ?thesis using b by auto
  next
    case False
    then have "wilder f p b (Suc i) = 0 \<longleftrightarrow> wilder f p b i * (real p - 1) + f (Suc i) = 0"
      using assms(1) by simp
    also have "\<dots> \<longleftrightarrow> wilder f p b i = 0 \<and> f (Suc i) = 0"
      using assms nn by (subst add_nonneg_eq_0_iff) auto
    also have "wilder f p b i = 0 \<longleftrightarrow> (\<forall>j. b \<le> j \<and> j \<le> i \<longrightarrow> f j = 0)"
      using Suc.IH False by simp
    finally show ?thesis
      using False assms(1) by (auto simp: le_Suc_eq)
  qed
qed

section \<open>RSI and ATR against the reference\<close>

definition delta_at :: "real list \<Rightarrow> nat \<Rightarrow> real" where
  "delta_at xs i = xs ! i - xs ! (i - 1)"

definition gain_at :: "real list \<Rightarrow> nat \<Rightarrow> real" where
  "gain_at xs i = max 0 (delta_at xs i)"

definition loss_at :: "real list \<Rightarrow> nat \<Rightarrow> real" where
  "loss_at xs i = max 0 (- delta_at xs i)"

lemma rsi_seed_eq:
  "i \<le> Suc p \<Longrightarrow> rsi_seed xs p i g l
     = (g + (\<Sum>j\<in>{i..<Suc p}. gain_at xs j), l + (\<Sum>j\<in>{i..<Suc p}. loss_at xs j))"
proof (induction xs p i g l rule: rsi_seed.induct)
  case (1 xs p i g l)
  show ?case
  proof (cases "i \<le> p")
    case True
    then have "{i..<Suc p} = insert i {Suc i..<Suc p}"
      by auto
    then show ?thesis
      using 1 True by (subst rsi_seed.simps) (auto simp: Let_def gain_at_def loss_at_def delta_at_def)
  next
    case False
    then show ?thesis using 1 by (subst rsi_seed.simps) simp
  qed
qed

lemma rsi_loop_step:
  assumes "i < length xs"
  shows "rsi_loop xs p i g l =
     (let g' = (g * (real p - 1) + gain_at xs i) / real p;
          l' = (l * (real p - 1) + loss_at xs i) / real p
      in rsiFromAverages g' l' # rsi_loop xs p (Suc i) g' l')"
proof -
  have gain: "(if xs ! i - xs ! (i - 1) > 0 then xs ! i - xs ! (i - 1) else 0) = gain_at xs i"
    "(if xs ! i - xs ! (i - 1) < 0 then - (xs ! i - xs ! (i - 1)) else 0) = loss_at xs i"
    by (simp_all add: gain_at_def loss_at_def delta_at_def)
  show ?thesis
    by (subst rsi_loop.simps) (simp only: assms gain Let_def if_True)
qed

lemma rsi_loop_eq:
  assumes "p + 1 \<le> i" "g = wilder (gain_at xs) p 1 (i - 1)" "l = wilder (loss_at xs) p 1 (i - 1)"
  shows "rsi_loop xs p i g l = map (\<lambda>j. rsiFromAverages (wilder (gain_at xs) p 1 j)
           (wilder (loss_at xs) p 1 j)) [i..<length xs]"
  using assms
proof (induction "length xs - i" arbitrary: i g l)
  case 0
  then show ?case by (subst rsi_loop.simps) simp
next
  case (Suc n)
  have "wilder f p 1 i = (wilder f p 1 (i - 1) * (real p - 1) + f i) / real p" for f
    using Suc.prems(1) by (intro wilder_step) simp_all
  then show ?case
    using Suc.hyps(2) Suc.prems
      Suc.hyps(1)[of "Suc i" "wilder (gain_at xs) p 1 i" "wilder (loss_at xs) p 1 i"]
    by (simp add: rsi_loop_step upt_conv_Cons Let_def)
qed

lemma rsi_spec:
  assumes "0 < p"
  shows "rsi cs p = Inr (aligned (length cs) p (\<lambda>i. rsiFromAverages
           (wilder (gain_at (closes cs)) p 1 i) (wilder (loss_at (closes cs)) p 1 i)))"
proof (cases "length cs \<le> p")
  case True
  then show ?thesis
    using assms by (simp add: rsi_def aligned_short[symmetric])
next
  case False
  let ?xs = "closes cs"
  let ?f = "\<lambda>i. rsiFromAverages (wilder (gain_at ?xs) p 1 i) (wilder (loss_at ?xs) p 1 i)"
  obtain g l where gl: "rsi_seed ?xs p 1 0 0 = (g, l)"
    by fastforce
  have w: "g / real p = wilder (gain_at ?xs) p 1 p" "l / real p = wilder (loss_at ?xs) p 1 p"
    using gl rsi_seed_eq[of 1 p ?xs 0 0] by (simp_all add: wilder_start wilder_seed_def)
  then have out: "rsiFromAverages (g / real p) (l / real p)
      # rsi_loop ?xs p (p + 1) (g / real p) (l / real p) = map ?f [p..<length cs]"
    using False by (subst rsi_loop_eq) (simp_all add: upt_conv_Cons)
  then show ?thesis
    using assms False gl padFront_aligned[OF out] by (simp add: rsi_def Let_def del: list.map)
qed

lemma rsiFromAverages_range:
  assumes "0 \<le> g" "0 \<le> l"
  shows "0 \<le> rsiFromAverages g l \<and> rsiFromAverages g l \<le> 100
    \<and> (rsiFromAverages g l = 100 \<longleftrightarrow> l = 0)"
proof (cases "l = 0")
  case False
  define r where "r = g / l"
  have "0 \<le> r"
    using assms by (simp add: r_def)
  then have "100 / (1 + r) \<le> 100" "0 < 100 / (1 + r)"
    by (simp_all add: divide_simps)
  then show ?thesis
    using False unfolding rsiFromAverages_def Let_def r_def[symmetric] by simp
qed (simp add: rsiFromAverages_def)

lemma atr_loop_eq:
  assumes "0 < i" "p \<le> i" "\<forall>j<length tr. tr ! j = f j" "prev = wilder f p 0 (i - 1)"
  shows "atr_loop p tr i prev = map (wilder f p 0) [i..<length tr]"
  using assms
proof (induction p tr i prev rule: atr_loop.induct)
  case (1 p tr i prev)
  show ?case
  proof (cases "i < length tr")
    case True
    have "wilder f p 0 i = (wilder f p 0 (i - 1) * (real p - 1) + f i) / real p"
      using 1 by (intro wilder_step) simp_all
    then show ?thesis
      using True 1 by (subst atr_loop.simps) (simp add: Let_def upt_conv_Cons)
  next
    case False
    then show ?thesis by (subst atr_loop.simps) simp
  qed
qed

lemma atr_spec:
  assumes "0 < p" "length cs \<noteq> p"
  shows "atr cs p = Inr (aligned (length cs) (p - 1) (wilder (true_range cs) p 0))"
proof (cases "length cs \<le> p")
  case True
  then show ?thesis
    using assms by (simp add: atr_def aligned_short[symmetric])
next
  case False
  let ?tr = "map (true_range cs) [0..<length cs]" and ?w = "wilder (true_range cs) p 0"
  have seed: "sum_list (take p ?tr) / real p = ?w (p - 1)"
    using assms False by (simp add: wilder_start wilder_seed_def take_map interv_sum_list_conv_sum_set_nat)
  then have "atr_loop p ?tr p (sum_list (take p ?tr) / real p) = map ?w [p..<length cs]"
    using assms atr_loop_eq[of p p ?tr "true_range cs"] by simp
  then have "sum_list (take p ?tr) / real p # atr_loop p ?tr p (sum_list (take p ?tr) / real p)
      = map ?w [p - 1..<length cs]"
    using False assms seed upt_conv_Cons[of "p - 1" "length cs"] by simp
  then show ?thesis
    using False assms padFront_aligned[of _ ?w "p - 1" "length cs"]
    by (simp add: atr_def Let_def foldl_plus del: list.map)
qed

lemma true_range_nonneg: "\<forall>c\<in>set cs. cd_l c \<le> cd_h c \<Longrightarrow> i < length cs \<Longrightarrow> 0 \<le> true_range cs i"
  by (auto simp: true_range_def Let_def)

lemma true_range_covers:
  "i < length cs \<Longrightarrow> cd_h (cs ! i) - cd_l (cs ! i) \<le> true_range cs i"
  by (auto simp: true_range_def Let_def)

section \<open>MACD\<close>

lemma findIndex_some_aligned:
  "findIndex_some (aligned n first f) = (if first < n then Some first else None)"
proof -
  have "findIndex_some (replicate k None @ map Some xs) = (if xs = [] then None else Some k)"
    for k and xs :: "'a list"
    by (induction k) (cases xs; simp)+
  moreover have "aligned n first f = replicate (min first n) None @ map Some (map f [first..<n])"
    by (rule nth_equalityI) (auto simp: nth_append)
  ultimately show ?thesis
    by (simp del: map_map)
qed

lemma ema_Some: "0 < p \<Longrightarrow> \<exists>f. ema cs p = Inr (aligned (length cs) (p - 1) f)"
proof -
  assume p: "0 < p"
  then obtain vs where vs: "ema cs p = Inr vs"
    by (cases "length cs < p") (auto simp: ema_def Let_def)
  have "vs = aligned (length cs) (p - 1) (\<lambda>i. the (vs ! i))"
    using ema_shape[OF vs] p by (intro nth_equalityI) auto
  then show ?thesis
    using vs by metis
qed

lemma emaOfNumbers_shape:
  "0 < p \<Longrightarrow> length (emaOfNumbers xs p) = length xs
    \<and> (\<forall>i<length xs. emaOfNumbers xs p ! i = None \<longleftrightarrow> i + 1 < p)"
  by (auto simp: emaOfNumbers_def Let_def nth_append nth_Cons')

lemma opt_sub_None [simp]: "opt_sub a b = None \<longleftrightarrow> a = None \<or> b = None"
  by (cases "(a, b)" rule: opt_sub.cases) auto

text \<open>
  \<open>macd\<close> throws exactly on a zero period or \<open>fast >= slow\<close>; otherwise its output is aligned
  with the candles, the line starts at index \<open>slow - 1\<close>, the signal \<open>signal - 1\<close> bars later, the
  histogram exists where both do and is their difference.
\<close>

theorem macd_alignment:
  "(\<exists>e. macd cs fast slow signal = Inl e) = (fast = 0 \<or> signal = 0 \<or> slow \<le> fast)
   \<and> (case macd cs fast slow signal of Inl e \<Rightarrow> True | Inr pts \<Rightarrow>
        length pts = length cs
        \<and> list_all (\<lambda>i. (mp_macd (pts ! i) = None) = (i + 1 < slow)
             \<and> (mp_signal (pts ! i) = None) = (i + 2 < slow + signal)
             \<and> mp_hist (pts ! i) = opt_sub (mp_macd (pts ! i)) (mp_signal (pts ! i)))
           [0..<length cs])"
proof (cases "fast = 0 \<or> signal = 0 \<or> slow \<le> fast")
  case True
  then show ?thesis by (auto simp: macd_def)
next
  case False
  then have ok: "0 < fast" "fast < slow" "0 < signal"
    by auto
  obtain f s where fs: "ema cs fast = Inr (aligned (length cs) (fast - 1) f)"
    "ema cs slow = Inr (aligned (length cs) (slow - 1) s)"
    using ema_Some[of fast cs] ema_Some[of slow cs] ok by auto
  define line where "line = map (\<lambda>i. opt_sub (aligned (length cs) (fast - 1) f ! i)
     (aligned (length cs) (slow - 1) s ! i)) [0..<length cs]"
  have line: "line = aligned (length cs) (slow - 1) (\<lambda>i. f i - s i)"
    using ok by (intro nth_equalityI) (auto simp: line_def)
  have start: "findIndex_some line = (if slow - 1 < length cs then Some (slow - 1) else None)"
    by (simp add: line findIndex_some_aligned)
  have no_error: "\<not> (fast < 1 \<or> slow < 1 \<or> signal < 1)" "\<not> fast \<ge> slow"
    using ok by auto
  have eq: "macd cs fast slow signal = (case findIndex_some line of
      None \<Rightarrow> Inr (map (\<lambda>_. \<lparr>mp_macd = None, mp_signal = None, mp_hist = None\<rparr>) cs)
    | Some k \<Rightarrow> let sigs = emaOfNumbers (map the (drop k line)) signal
        in Inr (map (\<lambda>i. let m = line ! i;
             sg = (if i \<ge> k \<and> i - k < length sigs then sigs ! (i - k) else None)
             in \<lparr>mp_macd = m, mp_signal = sg, mp_hist = opt_sub m sg\<rparr>) [0..<length cs]))"
    by (simp only: macd_def no_error fs if_False prod.case sum.case Let_def line_def)
  show ?thesis
  proof (cases "slow - 1 < length cs")
    case True
    define sigs where "sigs = emaOfNumbers (map the (drop (slow - 1) line)) signal"
    have len: "length sigs = length cs - (slow - 1)"
      using emaOfNumbers_shape[OF ok(3)] by (simp add: line sigs_def)
    have sig: "sigs ! (i - (slow - 1)) = None \<longleftrightarrow> i + 2 < slow + signal"
      if "slow - 1 \<le> i" "i < length cs" for i
      using emaOfNumbers_shape[OF ok(3), of "map the (drop (slow - 1) line)"] that ok
      by (auto simp: line sigs_def)
    have "macd cs fast slow signal = Inr (map (\<lambda>i. let m = line ! i;
         sg = (if i \<ge> slow - 1 \<and> i - (slow - 1) < length sigs then sigs ! (i - (slow - 1)) else None)
         in \<lparr>mp_macd = m, mp_signal = sg, mp_hist = opt_sub m sg\<rparr>) [0..<length cs])"
      unfolding eq start sigs_def[symmetric] by (simp only: True if_True option.case Let_def sigs_def)
    then show ?thesis
      using False len sig ok by (auto simp: line list_all_iff Let_def)
  next
    case short: False
    have "macd cs fast slow signal
        = Inr (map (\<lambda>_. \<lparr>mp_macd = None, mp_signal = None, mp_hist = None\<rparr>) cs)"
      unfolding eq start by (simp only: short if_False option.case)
    then show ?thesis
      using False short by (auto simp: list_all_iff)
  qed
qed

section \<open>Bollinger bands and pivots\<close>

lemma slice_window_sum:
  assumes "0 < p" "p \<le> i + 1" "i < length xs"
  shows "sum_list (slice (i + 1 - p) (i + 1) xs) = window_sum p xs i"
proof -
  have "sum_list (slice (i + 1 - p) (i + 1) xs)
      = (\<Sum>k = 0..<p. xs ! (i + 1 - p + k))"
    using assms by (auto simp: sum_list_sum_nth nth_slice intro!: sum.cong)
  also have "\<dots> = (\<Sum>j\<in>{i + 1 - p..i}. xs ! j)"
    using assms by (intro sum.reindex_bij_witness[of _ "\<lambda>j. j - (i + 1 - p)" "\<lambda>k. i + 1 - p + k"]) auto
  finally show ?thesis by (simp add: window_sum_def)
qed

lemma stdev_nonneg: "2 \<le> length xs \<Longrightarrow> \<exists>d. stdev xs = Some d \<and> 0 \<le> d"
proof -
  assume l: "2 \<le> length xs"
  have "0 \<le> foldl (\<lambda>sq x. sq + (x - m)\<^sup>2) a xs" if "0 \<le> a" for a m
    using that by (induction xs arbitrary: a) simp_all
  then show ?thesis
    using l by (auto simp: stdev_def mean_def)
qed

lemma bollinger_at_bands:
  assumes "2 \<le> p" "p \<le> i + 1" "i < length xs"
  obtains d where "0 \<le> d" "bollinger_at xs p k i
    = \<lparr>bp_upper = Some (window_sum p xs i / real p + k * d), bp_middle = Some (window_sum p xs i / real p),
       bp_lower = Some (window_sum p xs i / real p - k * d)\<rparr>"
proof -
  obtain d where d: "stdev (slice (i + 1 - p) (i + 1) xs) = Some d" "0 \<le> d"
    using stdev_nonneg[of "slice (i + 1 - p) (i + 1) xs"] assms by auto
  show ?thesis
    using that[of d] d assms slice_window_sum[of p i xs]
    by (simp add: bollinger_at_def Let_def foldl_plus)
qed

lemma classicPivots_ordered:
  assumes "l \<le> c" "c \<le> h"
  shows "let v = classicPivots h l c in
     cp_s3 v \<le> cp_s2 v \<and> cp_s2 v \<le> cp_s1 v \<and> cp_s1 v \<le> cp_pp v
     \<and> cp_pp v \<le> cp_r1 v \<and> cp_r1 v \<le> cp_r2 v \<and> cp_r2 v \<le> cp_r3 v"
  using assms by (simp add: classicPivots_def Let_def field_simps)

section \<open>Properties\<close>

text \<open>
  the rolling-sum moving average is the textbook one: it throws only for period 0, and its
  output has a value exactly from index \<open>period - 1\<close> on, the mean of the last \<open>period\<close> closes.
\<close>

theorem sma_window_mean:
  "sma cs period =
     (if period = 0 then Inl ''sma: period must be >= 1''
      else Inr (map (\<lambda>i. if i + 1 < period then None
                         else Some ((\<Sum>j\<in>{i + 1 - period..i}. closes cs ! j) / real period))
                 [0..<length cs]))"
proof (cases "period = 0")
  case True
  then show ?thesis by (simp add: sma_def)
next
  case False
  then have "i < period - 1 \<longleftrightarrow> i + 1 < period" for i
    by auto
  then show ?thesis
    using False sma_spec[of period cs] by (simp add: aligned_def window_sum_def)
qed

text \<open>
  every RSI value lies in 0..100, values start exactly at index \<open>period\<close>, and a value is 100
  exactly when no close up to that bar fell below the previous one.
\<close>

theorem rsi_range:
  assumes "2 \<le> period" "rsi cs period = Inr vs" "i < length cs"
  shows "length vs = length cs \<and> (vs ! i = None \<longleftrightarrow> i < period)
    \<and> (case vs ! i of None \<Rightarrow> True | Some r \<Rightarrow> 0 \<le> r \<and> r \<le> 100
        \<and> (r = 100 \<longleftrightarrow> (\<forall>j\<in>{1..i}. closes cs ! (j - 1) \<le> closes cs ! j)))"
proof -
  let ?g = "gain_at (closes cs)" and ?l = "loss_at (closes cs)"
  have vs: "vs = aligned (length cs) period
      (\<lambda>i. rsiFromAverages (wilder ?g period 1 i) (wilder ?l period 1 i))"
    using rsi_spec[of period cs] assms by simp
  have nn: "\<forall>j. 0 \<le> ?g j" "\<forall>j. 0 \<le> ?l j"
    by (simp_all add: gain_at_def loss_at_def)
  have w: "0 \<le> wilder f period 1 i" if "\<forall>j. 0 \<le> f j" for f
    using wilder_between[of period 1 "Suc i + period" 0 f "Max (f ` {..Suc i + period})" i] that assms
    by auto
  have "wilder ?l period 1 i = 0 \<longleftrightarrow> (\<forall>j\<in>{1..i}. closes cs ! (j - 1) \<le> closes cs ! j)"
    if "period \<le> i"
  proof -
    have "?l j = 0 \<longleftrightarrow> closes cs ! (j - 1) \<le> closes cs ! j" for j
      by (simp add: loss_at_def delta_at_def max_def)
    then show ?thesis
      using wilder_zero[of period ?l 1 i] assms(1) that nn(2) by auto
  qed
  then show ?thesis
    using assms(3) rsiFromAverages_range[OF w[OF nn(1)] w[OF nn(2)]] by (simp add: vs)
qed

definition example_candles :: "candle list" where
  "example_candles = [mk_candle 0 10 12 9 11, mk_candle 3600000 11 14 10 13,
     mk_candle 7200000 13 15 12 14, mk_candle 10800000 14 14 10 12]"

theorem rsi_range_witness:
  "\<exists>vs. rsi example_candles 2 = Inr vs
     \<and> (case vs ! 2 of None \<Rightarrow> True | Some r \<Rightarrow> 0 \<le> r \<and> r \<le> 100)"
proof -
  obtain vs where vs: "rsi example_candles 2 = Inr vs"
    using rsi_spec[of 2 example_candles] by simp
  show ?thesis
    using rsi_range[OF _ vs, of 2] vs by (auto simp: example_candles_def split: option.splits)
qed

text \<open>
  for candles whose low is at most their high, every ATR value is between 0 and the largest
  true range of the window, and it is a value (not blank) exactly from index \<open>period - 1\<close> on,
  unless there are no more than \<open>period\<close> candles, when the whole output is blank.
\<close>

theorem atr_range:
  assumes "0 < period" "\<forall>c\<in>set cs. cd_l c \<le> cd_h c"
    "\<forall>i<length cs. true_range cs i \<le> M" "i < length cs"
  shows "\<exists>vs. atr cs period = Inr vs \<and> length vs = length cs
    \<and> (vs ! i = None \<longleftrightarrow> i + 1 < period \<or> length cs \<le> period)
    \<and> (case vs ! i of None \<Rightarrow> True | Some v \<Rightarrow> 0 \<le> v \<and> v \<le> M)"
proof (cases "length cs \<le> period")
  case True
  then show ?thesis
    using assms by (simp add: atr_def)
next
  case False
  then have "0 \<le> wilder (true_range cs) period 0 i \<and> wilder (true_range cs) period 0 i \<le> M"
    using wilder_between[of period 0 "length cs" 0 "true_range cs" M i] assms true_range_nonneg[of cs]
    by auto
  then show ?thesis
    using False atr_spec[of period cs] assms by auto
qed

theorem atr_range_witness:
  "\<exists>vs. atr example_candles 2 = Inr vs \<and> vs ! 3 \<noteq> None
     \<and> (case vs ! 3 of None \<Rightarrow> True | Some v \<Rightarrow> 0 \<le> v \<and> v \<le> 4)"
proof -
  have "\<forall>c\<in>set example_candles. cd_l c \<le> cd_h c"
    by (simp add: example_candles_def)
  moreover have "\<forall>i<length example_candles. true_range example_candles i \<le> 4"
    by (simp add: example_candles_def true_range_def All_less_Suc numeral_eq_Suc)
  ultimately show ?thesis
    using atr_range[of 2 example_candles 4 3] by (auto simp: example_candles_def)
qed

text \<open>
  \<open>bollinger\<close> throws only for a period below 2; the middle band is the simple moving average
  of the same candles and period, and with a non-negative multiplier the bands enclose it
  symmetrically.
\<close>

theorem bollinger_around_sma:
  "if period < 2 then bollinger cs period k = Inl ''bollinger: period must be >= 2''
   else \<exists>bs. bollinger cs period k = Inr bs \<and> sma cs period = Inr (map bp_middle bs)
     \<and> list_all (\<lambda>b. case (bp_upper b, bp_middle b, bp_lower b) of
           (Some u, Some m, Some l) \<Rightarrow> u - m = m - l \<and> 0 \<le> k * (u - m)
         | (None, None, None) \<Rightarrow> True | _ \<Rightarrow> False) bs"
proof (cases "period < 2")
  case True
  then show ?thesis by (simp add: bollinger_def)
next
  case False
  let ?xs = "closes cs" and ?n = "length cs" and ?blank = "\<lparr>bp_upper = None, bp_middle = None, bp_lower = None\<rparr>"
  define bs where "bs = map (\<lambda>i. if i + 1 < period then ?blank else bollinger_at ?xs period k i) [0..<?n]"
  have "bollinger cs period k = Inr bs"
  proof (cases "?n < period")
    case True
    then show ?thesis
      using False by (auto simp: bollinger_def bs_def intro!: nth_equalityI)
  next
    case long: False
    have "padFront (map (bollinger_at ?xs period k) [period - 1..<?n]) (period - 1) ?blank = bs"
      using False long by (intro nth_equalityI) (auto simp: padFront_def bs_def nth_append)
    then show ?thesis
      using False long by (simp add: bollinger_def Let_def)
  qed
  moreover have at: "\<exists>d. 0 \<le> d \<and> bollinger_at ?xs period k i
      = \<lparr>bp_upper = Some (window_sum period ?xs i / real period + k * d),
         bp_middle = Some (window_sum period ?xs i / real period),
         bp_lower = Some (window_sum period ?xs i / real period - k * d)\<rparr>"
    if "\<not> i + 1 < period" "i < ?n" for i
    using bollinger_at_bands[of period i ?xs k] False that by (metis length_closes not_less)
  have "bp_middle (bollinger_at ?xs period k i) = Some (window_sum period ?xs i / real period)"
    if "\<not> i + 1 < period" "i < ?n" for i
    using at[OF that] by auto
  then have "sma cs period = Inr (map bp_middle bs)"
    using False sma_spec[of period cs] by (auto simp: bs_def aligned_def)
  moreover have "list_all (\<lambda>b. case (bp_upper b, bp_middle b, bp_lower b) of
           (Some u, Some m, Some l) \<Rightarrow> u - m = m - l \<and> 0 \<le> k * (u - m)
         | (None, None, None) \<Rightarrow> True | _ \<Rightarrow> False) bs"
    unfolding list_all_length
  proof (intro allI impI)
    fix i
    assume i: "i < length bs"
    show "case (bp_upper (bs ! i), bp_middle (bs ! i), bp_lower (bs ! i)) of
           (Some u, Some m, Some l) \<Rightarrow> u - m = m - l \<and> 0 \<le> k * (u - m)
         | (None, None, None) \<Rightarrow> True | _ \<Rightarrow> False"
    proof (cases "i + 1 < period")
      case True
      then show ?thesis using i by (simp add: bs_def)
    next
      case False
      then obtain d where "0 \<le> d" "bs ! i
          = \<lparr>bp_upper = Some (window_sum period ?xs i / real period + k * d),
             bp_middle = Some (window_sum period ?xs i / real period),
             bp_lower = Some (window_sum period ?xs i / real period - k * d)\<rparr>"
        using at[of i] i by (auto simp: bs_def)
      then show ?thesis
        by (simp add: mult.assoc[symmetric])
    qed
  qed
  ultimately show ?thesis
    using False by auto
qed

end
