(* ===== verification/Indicator_Registry.thy ===== *)
theory Indicator_Registry
  imports Indicators Js_Map
begin

text \<open>
  The plugin registry of the indicator library (\<open>indicator-registry.ts\<close>) and the dispatch that
  the market route, the agent tool and the alert evaluator share (\<open>registry.ts\<close>). A zod schema
  is a parser to an option; raw parameters are JSON scalars by name, \<open>None\<close> for \<open>undefined\<close>.
  What a plugin owes its callers is the locale \<open>indicator_plugin\<close>, interpreted on each of the
  seven registered plugins.
\<close>

datatype indicatorKind = K_sma | K_ema | K_rsi | K_macd | K_atr | K_bollinger | K_pivots

datatype js_value = Js_num real | Js_str string | Js_bool bool | Js_null

type_synonym raw_params = "(string, js_value) js_map"
type_synonym num_params = "(string, real) js_map"

datatype indicator_value =
    Scalar "real option"
  | Macd_value macd_point
  | Bollinger_value bollinger_point
  | Pivots_value "classic_pivots option"

record indicatorPlugin =
  ip_kind :: indicatorKind
  ip_paramsSchema :: "raw_params option \<Rightarrow> num_params option"
  ip_compute :: "candle list \<Rightarrow> num_params \<Rightarrow> string + indicator_value list"

section \<open>Parameter schemas\<close>

text \<open>\<open>z.number().int().min(lo).max(hi)\<close> on one field, with an optional \<open>.default(d)\<close>.\<close>

definition int_field :: "raw_params \<Rightarrow> string \<Rightarrow> real \<Rightarrow> real \<Rightarrow> real option \<Rightarrow> real option" where
  "int_field raw k lo hi dflt =
     (case js_get raw k of
        None \<Rightarrow> dflt
      | Some (Js_num x) \<Rightarrow> if x = of_int \<lfloor>x\<rfloor> \<and> lo \<le> x \<and> x \<le> hi then Some x else None
      | Some _ \<Rightarrow> None)"

definition periodOnly :: "real \<Rightarrow> raw_params option \<Rightarrow> num_params option" where
  "periodOnly dflt raw =
     (case raw of
        None \<Rightarrow> Some [(''period'', dflt)]
      | Some r \<Rightarrow> map_option (\<lambda>x. [(''period'', x)]) (int_field r ''period'' 1 500 None))"

definition macdSchema :: "raw_params option \<Rightarrow> num_params option" where
  "macdSchema raw =
     (case raw of
        None \<Rightarrow> Some [(''fast'', 12), (''slow'', 26), (''signal'', 9)]
      | Some r \<Rightarrow>
          (case (int_field r ''fast'' 1 200 (Some 12), int_field r ''slow'' 1 500 (Some 26),
                 int_field r ''signal'' 1 200 (Some 9)) of
             (Some f, Some s, Some g) \<Rightarrow> Some [(''fast'', f), (''slow'', s), (''signal'', g)]
           | _ \<Rightarrow> None))"

definition bollingerSchema :: "raw_params option \<Rightarrow> num_params option" where
  "bollingerSchema raw =
     (case raw of
        None \<Rightarrow> Some [(''period'', 20), (''multiplier'', 2)]
      | Some r \<Rightarrow>
          (let multiplier = (case js_get r ''multiplier'' of
                 None \<Rightarrow> Some 2
               | Some (Js_num x) \<Rightarrow> if 0.1 \<le> x \<and> x \<le> 10 then Some x else None
               | Some _ \<Rightarrow> None)
           in case (int_field r ''period'' 2 500 (Some 20), multiplier) of
                (Some p, Some m) \<Rightarrow> Some [(''period'', p), (''multiplier'', m)]
              | _ \<Rightarrow> None))"

definition pivotsSchema :: "raw_params option \<Rightarrow> num_params option" where
  "pivotsSchema raw = Some []"

section \<open>The plugins\<close>

text \<open>\<open>params.k!\<close> on parsed parameters, where the key is present.\<close>

definition param :: "num_params \<Rightarrow> string \<Rightarrow> real" where
  "param ps k = (case js_get ps k of None \<Rightarrow> 0 | Some x \<Rightarrow> x)"

definition nat_param :: "num_params \<Rightarrow> string \<Rightarrow> nat" where
  "nat_param ps k = nat \<lfloor>param ps k\<rfloor>"

definition sma_plugin :: indicatorPlugin where
  "sma_plugin = \<lparr>ip_kind = K_sma, ip_paramsSchema = periodOnly 20,
     ip_compute = (\<lambda>cs ps. map_sum id (map Scalar) (sma cs (nat_param ps ''period'')))\<rparr>"

definition ema_plugin :: indicatorPlugin where
  "ema_plugin = \<lparr>ip_kind = K_ema, ip_paramsSchema = periodOnly 20,
     ip_compute = (\<lambda>cs ps. map_sum id (map Scalar) (ema cs (nat_param ps ''period'')))\<rparr>"

definition rsi_plugin :: indicatorPlugin where
  "rsi_plugin = \<lparr>ip_kind = K_rsi, ip_paramsSchema = periodOnly 14,
     ip_compute = (\<lambda>cs ps. map_sum id (map Scalar) (rsi cs (nat_param ps ''period'')))\<rparr>"

definition atr_plugin :: indicatorPlugin where
  "atr_plugin = \<lparr>ip_kind = K_atr, ip_paramsSchema = periodOnly 14,
     ip_compute = (\<lambda>cs ps. map_sum id (map Scalar) (atr cs (nat_param ps ''period'')))\<rparr>"

definition macd_plugin :: indicatorPlugin where
  "macd_plugin = \<lparr>ip_kind = K_macd, ip_paramsSchema = macdSchema,
     ip_compute = (\<lambda>cs ps. map_sum id (map Macd_value)
       (macd cs (nat_param ps ''fast'') (nat_param ps ''slow'') (nat_param ps ''signal'')))\<rparr>"

definition bollinger_plugin :: indicatorPlugin where
  "bollinger_plugin = \<lparr>ip_kind = K_bollinger, ip_paramsSchema = bollingerSchema,
     ip_compute = (\<lambda>cs ps. map_sum id (map Bollinger_value)
       (bollinger cs (nat_param ps ''period'') (param ps ''multiplier'')))\<rparr>"

definition pivots_plugin :: indicatorPlugin where
  "pivots_plugin = \<lparr>ip_kind = K_pivots, ip_paramsSchema = pivotsSchema,
     ip_compute = (\<lambda>cs ps. Inr (map Pivots_value (pivotsAligned cs)))\<rparr>"

section \<open>The registry\<close>

type_synonym indicator_registry = "(indicatorKind, indicatorPlugin) js_map"

definition registry_register :: "indicatorPlugin \<Rightarrow> indicator_registry \<Rightarrow> indicator_registry" where
  "registry_register plugin reg = js_set (ip_kind plugin) plugin reg"

datatype registry_error =
    Unknown_indicator_kind indicatorKind "indicatorKind list"
  | Invalid_params
  | Compute_error string

definition listKinds :: "indicator_registry \<Rightarrow> indicatorKind list" where
  "listKinds reg = js_keys reg"

definition registry_get :: "indicator_registry \<Rightarrow> indicatorKind \<Rightarrow> registry_error + indicatorPlugin" where
  "registry_get reg kind =
     (case js_get reg kind of
        None \<Rightarrow> Inl (Unknown_indicator_kind kind (listKinds reg))
      | Some plugin \<Rightarrow> Inr plugin)"

definition indicatorRegistry :: indicator_registry where
  "indicatorRegistry = foldl (\<lambda>reg plugin. registry_register plugin reg) []
     [sma_plugin, ema_plugin, rsi_plugin, atr_plugin, macd_plugin, bollinger_plugin, pivots_plugin]"

definition parseIndicatorParams ::
  "indicator_registry \<Rightarrow> indicatorKind \<Rightarrow> raw_params option \<Rightarrow> registry_error + num_params" where
  "parseIndicatorParams reg kind raw =
     (case registry_get reg kind of
        Inl e \<Rightarrow> Inl e
      | Inr plugin \<Rightarrow>
          (case ip_paramsSchema plugin raw of None \<Rightarrow> Inl Invalid_params | Some ps \<Rightarrow> Inr ps))"

record indicatorResult =
  ir_symbol :: string
  ir_tf :: timeframe
  ir_kind :: indicatorKind
  ir_params :: num_params
  ir_values :: "indicator_value list"
  ir_fetchedAt :: ms

definition computeIndicator ::
  "indicator_registry \<Rightarrow> ms \<Rightarrow> string \<Rightarrow> timeframe \<Rightarrow> indicatorKind \<Rightarrow> raw_params option
     \<Rightarrow> candle list \<Rightarrow> registry_error + indicatorResult" where
  "computeIndicator reg now symbol tf kind raw candles =
     (case parseIndicatorParams reg kind raw of
        Inl e \<Rightarrow> Inl e
      | Inr params \<Rightarrow>
          (let fetchedAt = now in
           case registry_get reg kind of
             Inl e \<Rightarrow> Inl e
           | Inr plugin \<Rightarrow>
               (case ip_compute plugin candles params of
                  Inl msg \<Rightarrow> Inl (Compute_error msg)
                | Inr values \<Rightarrow>
                    Inr \<lparr>ir_symbol = symbol, ir_tf = tf, ir_kind = kind, ir_params = params,
                         ir_values = values, ir_fetchedAt = fetchedAt\<rparr>)))"

section \<open>What a plugin promises\<close>

locale indicator_plugin =
  fixes schema :: "raw_params option \<Rightarrow> num_params option"
    and compute :: "candle list \<Rightarrow> num_params \<Rightarrow> string + indicator_value list"
  assumes aligned_output:
    "schema raw = Some ps \<Longrightarrow> compute cs ps = Inr vs \<Longrightarrow> length vs = length cs"

text \<open>A plugin whose schema also rules out every error of its computation.\<close>

locale total_indicator_plugin = indicator_plugin +
  assumes no_error: "schema raw = Some ps \<Longrightarrow> \<exists>vs. compute cs ps = Inr vs"
begin

lemma result: "schema raw = Some ps \<Longrightarrow> \<exists>vs. compute cs ps = Inr vs \<and> length vs = length cs"
  using aligned_output no_error by blast

end

lemma int_field_bounds:
  "int_field raw k lo hi dflt = Some x
     \<Longrightarrow> dflt = Some x \<or> x = of_int \<lfloor>x\<rfloor> \<and> lo \<le> x \<and> x \<le> hi"
  by (auto simp: int_field_def split: option.splits js_value.splits if_splits)

lemma periodOnly_period:
  assumes "periodOnly d raw = Some ps" "1 \<le> d"
  shows "0 < nat_param ps ''period''"
proof -
  obtain x where "ps = [(''period'', x)]" "1 \<le> x"
    using assms by (auto simp: periodOnly_def split: option.splits dest!: int_field_bounds)
  then show ?thesis
    by (simp add: nat_param_def param_def)
qed

lemma length_sma: "sma cs p = Inr vs \<Longrightarrow> length vs = length cs"
  using sma_spec[of p cs] by (cases p) (auto simp: sma_def)

lemma length_rsi: "rsi cs p = Inr vs \<Longrightarrow> length vs = length cs"
  using rsi_spec[of p cs] by (cases p) (auto simp: rsi_def)

lemma length_atr: "atr cs p = Inr vs \<Longrightarrow> length vs = length cs"
  using atr_spec[of p cs] by (cases "p = 0"; cases "length cs = p") (auto simp: atr_def)

lemma length_bollinger: "bollinger cs p k = Inr vs \<Longrightarrow> length vs = length cs"
  by (auto simp: bollinger_def Let_def padFront_def split: if_splits)

lemma macd_some:
  "0 < f \<Longrightarrow> f < s \<Longrightarrow> 0 < g \<Longrightarrow> \<exists>vs. macd cs f s g = Inr vs"
  using ema_Some[of f cs] ema_Some[of s cs] by (auto simp: macd_def Let_def split: option.splits)

lemma macd_fast_slow: "macd cs f s g = Inr vs \<Longrightarrow> f < s"
  by (auto simp: macd_def split: if_splits)

lemma length_macd: "macd cs f s g = Inr vs \<Longrightarrow> length vs = length cs"
  by (auto simp: macd_def Let_def split: if_splits sum.splits option.splits)

lemmas plugin_defs = sma_plugin_def ema_plugin_def rsi_plugin_def atr_plugin_def macd_plugin_def
  bollinger_plugin_def pivots_plugin_def

lemma map_sum_Inr: "map_sum id f r = Inr y \<longleftrightarrow> (\<exists>x. r = Inr x \<and> y = f x)"
  by (cases r) auto

lemma period_total: "0 < p \<Longrightarrow> \<exists>vs. sma cs p = Inr vs" "0 < p \<Longrightarrow> \<exists>vs. ema cs p = Inr vs"
  "0 < p \<Longrightarrow> \<exists>vs. rsi cs p = Inr vs" "0 < p \<Longrightarrow> \<exists>vs. atr cs p = Inr vs"
  "2 \<le> p \<Longrightarrow> \<exists>vs. bollinger cs p k = Inr vs"
  using sma_spec[of p cs] ema_Some[of p cs] rsi_spec[of p cs]
  by (auto simp: atr_def bollinger_def Let_def)

lemma bollinger_period:
  assumes "bollingerSchema raw = Some ps"
  shows "2 \<le> nat_param ps ''period''"
proof -
  obtain x m where "ps = [(''period'', x), (''multiplier'', m)]" "2 \<le> x"
    using assms
    by (auto simp: bollingerSchema_def Let_def split: option.splits dest!: int_field_bounds)
  then show ?thesis
    by (simp add: nat_param_def param_def le_nat_iff le_floor_iff)
qed

interpretation p_sma: total_indicator_plugin "ip_paramsSchema sma_plugin" "ip_compute sma_plugin"
  by unfold_locales
    (auto simp: plugin_defs map_sum_Inr length_sma dest!: periodOnly_period period_total(1))

interpretation p_ema: total_indicator_plugin "ip_paramsSchema ema_plugin" "ip_compute ema_plugin"
  by unfold_locales
    (auto simp: plugin_defs map_sum_Inr dest!: periodOnly_period ema_shape intro: period_total(2))

interpretation p_rsi: total_indicator_plugin "ip_paramsSchema rsi_plugin" "ip_compute rsi_plugin"
  by unfold_locales
    (auto simp: plugin_defs map_sum_Inr length_rsi dest!: periodOnly_period intro: period_total(3))

interpretation p_atr: total_indicator_plugin "ip_paramsSchema atr_plugin" "ip_compute atr_plugin"
  by unfold_locales
    (auto simp: plugin_defs map_sum_Inr length_atr dest!: periodOnly_period intro: period_total(4))

interpretation p_bollinger:
  total_indicator_plugin "ip_paramsSchema bollinger_plugin" "ip_compute bollinger_plugin"
  by unfold_locales
    (auto simp: plugin_defs map_sum_Inr length_bollinger dest!: bollinger_period
      intro: period_total(5))

interpretation p_pivots:
  total_indicator_plugin "ip_paramsSchema pivots_plugin" "ip_compute pivots_plugin"
  by unfold_locales (auto simp: plugin_defs pivotsAligned_def)

interpretation p_macd: indicator_plugin "ip_paramsSchema macd_plugin" "ip_compute macd_plugin"
  by unfold_locales (auto simp: plugin_defs map_sum_Inr length_macd)

section \<open>Dispatch\<close>

fun plugin_of :: "indicatorKind \<Rightarrow> indicatorPlugin" where
  "plugin_of K_sma = sma_plugin"
| "plugin_of K_ema = ema_plugin"
| "plugin_of K_rsi = rsi_plugin"
| "plugin_of K_atr = atr_plugin"
| "plugin_of K_macd = macd_plugin"
| "plugin_of K_bollinger = bollinger_plugin"
| "plugin_of K_pivots = pivots_plugin"

lemma registry_complete: "registry_get indicatorRegistry kind = Inr (plugin_of kind)"
  by (cases kind)
    (simp_all add: registry_get_def indicatorRegistry_def registry_register_def plugin_defs)

lemma macdSchema_bounds:
  assumes "macdSchema raw = Some ps"
  shows "0 < nat_param ps ''fast'' \<and> 0 < nat_param ps ''slow'' \<and> 0 < nat_param ps ''signal''"
proof -
  obtain f s g where "ps = [(''fast'', f), (''slow'', s), (''signal'', g)]" "1 \<le> f" "1 \<le> s" "1 \<le> g"
    using assms by (fastforce simp: macdSchema_def split: option.splits dest!: int_field_bounds)
  then show ?thesis
    by (simp add: nat_param_def param_def)
qed

lemma macd_result:
  assumes "macdSchema raw = Some ps"
  shows "(if nat_param ps ''fast'' < nat_param ps ''slow''
     then \<exists>vs. ip_compute macd_plugin cs ps = Inr vs \<and> length vs = length cs
     else \<exists>e. ip_compute macd_plugin cs ps = Inl e)"
proof (cases "nat_param ps ''fast'' < nat_param ps ''slow''")
  case True
  then obtain vs where "macd cs (nat_param ps ''fast'') (nat_param ps ''slow'')
      (nat_param ps ''signal'') = Inr vs"
    using macd_some macdSchema_bounds[OF assms] by blast
  then show ?thesis
    using True length_macd by (auto simp: macd_plugin_def)
next
  case False
  then show ?thesis
    by (auto simp: macd_plugin_def macd_def)
qed

lemma plugin_result:
  assumes "ip_paramsSchema (plugin_of kind) raw = Some ps" "kind \<noteq> K_macd"
  shows "\<exists>vs. ip_compute (plugin_of kind) cs ps = Inr vs \<and> length vs = length cs"
  using assms p_sma.result[of raw ps cs] p_ema.result[of raw ps cs] p_rsi.result[of raw ps cs]
    p_atr.result[of raw ps cs] p_bollinger.result[of raw ps cs] p_pivots.result[of raw ps cs]
  by (cases kind) simp_all

lemma computeIndicator_unfold:
  "computeIndicator indicatorRegistry now symbol tf kind raw candles =
     (case ip_paramsSchema (plugin_of kind) raw of
        None \<Rightarrow> Inl Invalid_params
      | Some ps \<Rightarrow> (case ip_compute (plugin_of kind) candles ps of
          Inl msg \<Rightarrow> Inl (Compute_error msg)
        | Inr values \<Rightarrow> Inr \<lparr>ir_symbol = symbol, ir_tf = tf, ir_kind = kind, ir_params = ps,
                         ir_values = values, ir_fetchedAt = now\<rparr>))"
  by (simp add: computeIndicator_def parseIndicatorParams_def registry_complete Let_def
      split: option.splits)

text \<open>
  \<open>computeIndicator\<close> knows every kind; it succeeds exactly when the parameters parse and, for
  MACD, the parsed fast period is below the slow one; the values are then aligned one to one with
  the candles it was given, whatever the plugin.
\<close>

theorem computeIndicator_aligned:
  "(case computeIndicator indicatorRegistry now symbol tf kind raw candles of
      Inl (Unknown_indicator_kind k ks) \<Rightarrow> False
    | Inl Invalid_params \<Rightarrow> ip_paramsSchema (plugin_of kind) raw = None
    | Inl (Compute_error msg) \<Rightarrow> kind = K_macd
        \<and> (case macdSchema raw of None \<Rightarrow> False
           | Some ps \<Rightarrow> nat_param ps ''slow'' \<le> nat_param ps ''fast'')
    | Inr r \<Rightarrow> length (ir_values r) = length candles \<and> ir_kind r = kind
        \<and> ip_paramsSchema (plugin_of kind) raw = Some (ir_params r)
        \<and> \<not> (kind = K_macd \<and> nat_param (ir_params r) ''slow'' \<le> nat_param (ir_params r) ''fast''))"
proof (cases "ip_paramsSchema (plugin_of kind) raw")
  case None
  then show ?thesis by (simp add: computeIndicator_unfold)
next
  case (Some ps)
  show ?thesis
  proof (cases "kind = K_macd")
    case True
    then have "macdSchema raw = Some ps"
      using Some by (simp add: macd_plugin_def)
    then show ?thesis
      using macd_result[of raw ps candles] True Some
      by (auto simp: computeIndicator_unfold split: if_splits)
  next
    case False
    then show ?thesis
      using plugin_result[OF Some False, of candles] Some by (auto simp: computeIndicator_unfold)
  qed
qed

end
