(* ===== verification/Smc.thy ===== *)
theory Smc
  imports Candles
begin

text \<open>
  Smart-money structure on a candle window (\<open>packages/indicators/src/smc\<close>): swing points,
  breaks of structure, fair value gaps, order blocks, liquidity sweeps, the Asian-session range
  and the previous day's high and low. A loop over the bars that pushes to an array is a list
  comprehension or a fold that appends; \<open>continue\<close> and \<open>break\<close> are branches. A UTC day key is the
  day number instead of its rendering as \<open>YYYY-MM-DD\<close>, which is injective on four-digit years.
\<close>

datatype swingType = SwingHigh | SwingLow

datatype structureDirection = Bullish | Bearish

datatype structureEventKind = Bos | Choch

record swingPoint =
  sw_index :: nat
  sw_time :: ms
  sw_price :: real
  sw_type :: swingType
  sw_lookback :: nat

record structureEvent =
  ev_kind :: structureEventKind
  ev_direction :: structureDirection
  ev_brokenAt :: nat
  ev_time :: ms
  ev_level :: real
  ev_swingIndex :: nat

record fvgZone =
  fz_side :: structureDirection
  fz_startIndex :: nat
  fz_endIndex :: nat
  fz_startTime :: ms
  fz_endTime :: ms
  fz_top :: real
  fz_bottom :: real
  fz_mitigated :: bool
  fz_percentFilled :: real

record orderBlock =
  ob_side :: structureDirection
  ob_index :: nat
  ob_time :: ms
  ob_top :: real
  ob_bottom :: real
  ob_mitigated :: bool
  ob_strength :: real

record liquiditySweep =
  ls_side :: swingType
  ls_index :: nat
  ls_time :: ms
  ls_level :: real
  ls_wick :: real
  ls_magnitude :: real

section \<open>swings.ts\<close>

definition is_swing_high :: "candle list \<Rightarrow> nat \<Rightarrow> nat \<Rightarrow> bool" where
  "is_swing_high cs k i =
     list_all (\<lambda>j. j = i \<or> \<not> cd_h (cs ! j) \<ge> cd_h (cs ! i)) [i - k..<i + k + 1]"

definition is_swing_low :: "candle list \<Rightarrow> nat \<Rightarrow> nat \<Rightarrow> bool" where
  "is_swing_low cs k i =
     list_all (\<lambda>j. j = i \<or> \<not> cd_l (cs ! j) \<le> cd_l (cs ! i)) [i - k..<i + k + 1]"

definition swing_at :: "candle list \<Rightarrow> nat \<Rightarrow> nat \<Rightarrow> swingPoint list" where
  "swing_at cs k i =
     (let c = cs ! i in
      if is_swing_high cs k i then
        [\<lparr>sw_index = i, sw_time = cd_t c, sw_price = cd_h c, sw_type = SwingHigh, sw_lookback = k\<rparr>]
      else if is_swing_low cs k i then
        [\<lparr>sw_index = i, sw_time = cd_t c, sw_price = cd_l c, sw_type = SwingLow, sw_lookback = k\<rparr>]
      else [])"

definition findSwings :: "candle list \<Rightarrow> nat \<Rightarrow> string + swingPoint list" where
  "findSwings cs k =
     (if k < 1 then Inl ''findSwings: lookback must be >= 1''
      else if length cs < 2 * k + 1 then Inr []
      else Inr (concat (map (swing_at cs k) [k..<length cs - k])))"

section \<open>structure.ts\<close>

record structure_state =
  st_lastHigh :: "(swingPoint \<times> nat) option"
  st_lastLow :: "(swingPoint \<times> nat) option"
  st_trend :: "structureDirection option"
  st_events :: "structureEvent list"
  st_ptr :: nat

definition check_breaks :: "bool \<Rightarrow> nat \<Rightarrow> candle \<Rightarrow> structure_state \<Rightarrow> structure_state" where
  "check_breaks closeBased i c st =
     (let breakValue = (\<lambda>high. if closeBased then cd_c c else if high then cd_h c else cd_l c);
          low_branch =
            (case st_lastLow st of
               None \<Rightarrow> st
             | Some (s, idx) \<Rightarrow>
                 if breakValue False < sw_price s then
                   st\<lparr>st_events := st_events st @ [\<lparr>
                        ev_kind = (if st_trend st = Some Bearish \<or> st_trend st = None then Bos else Choch),
                        ev_direction = Bearish, ev_brokenAt = i, ev_time = cd_t c,
                        ev_level = sw_price s, ev_swingIndex = idx\<rparr>],
                      st_trend := Some Bearish, st_lastLow := None\<rparr>
                 else st)
      in case st_lastHigh st of
           None \<Rightarrow> low_branch
         | Some (s, idx) \<Rightarrow>
             if breakValue True > sw_price s then
               st\<lparr>st_events := st_events st @ [\<lparr>
                    ev_kind = (if st_trend st = Some Bullish \<or> st_trend st = None then Bos else Choch),
                    ev_direction = Bullish, ev_brokenAt = i, ev_time = cd_t c,
                    ev_level = sw_price s, ev_swingIndex = idx\<rparr>],
                  st_trend := Some Bullish, st_lastHigh := None\<rparr>
             else low_branch)"

function register_swings :: "swingPoint list \<Rightarrow> nat \<Rightarrow> structure_state \<Rightarrow> structure_state" where
  "register_swings swings i st =
     (if st_ptr st < length swings then
        let s = swings ! st_ptr st in
        if sw_index s + sw_lookback s > i then st
        else register_swings swings i
          (if sw_type s = SwingHigh
           then st\<lparr>st_lastHigh := Some (s, st_ptr st), st_ptr := st_ptr st + 1\<rparr>
           else st\<lparr>st_lastLow := Some (s, st_ptr st), st_ptr := st_ptr st + 1\<rparr>)
      else st)"
  by pat_completeness auto
termination by (relation "measure (\<lambda>(swings, i, st). length swings - st_ptr st)") auto

definition structure_step ::
  "bool \<Rightarrow> swingPoint list \<Rightarrow> nat \<Rightarrow> candle \<Rightarrow> structure_state \<Rightarrow> structure_state" where
  "structure_step closeBased swings i c st = register_swings swings i (check_breaks closeBased i c st)"

definition init_structure :: structure_state where
  "init_structure = \<lparr>st_lastHigh = None, st_lastLow = None, st_trend = None, st_events = [], st_ptr = 0\<rparr>"

definition detectStructure ::
  "candle list \<Rightarrow> swingPoint list \<Rightarrow> bool \<Rightarrow> structureEvent list" where
  "detectStructure cs swings closeBased =
     (if cs = [] \<or> swings = [] then []
      else st_events (fold_idx (structure_step closeBased swings) 0 cs init_structure))"

section \<open>fvg.ts\<close>

definition overlaps :: "candle \<Rightarrow> real \<Rightarrow> real \<Rightarrow> bool" where
  "overlaps b lower upper \<longleftrightarrow> cd_l b \<le> upper \<and> cd_h b \<ge> lower"

definition mitigation ::
  "candle list \<Rightarrow> nat \<Rightarrow> bool \<Rightarrow> real \<Rightarrow> real \<Rightarrow> bool \<times> real" where
  "mitigation cs from_idx bullishGap lower upper =
     foldl (\<lambda>(mitigated, maxPenetration) b.
         if overlaps b lower upper then
           let penetration = (if bullishGap then upper - cd_l b else cd_h b - lower)
           in (True, if penetration > maxPenetration then penetration else maxPenetration)
         else (mitigated, maxPenetration))
       (False, 0) (drop from_idx cs)"

definition fvg_at :: "candle list \<Rightarrow> real \<Rightarrow> nat \<Rightarrow> fvgZone list" where
  "fvg_at cs minRatio i =
     (let a = cs ! (i - 1); c = cs ! (i + 1);
          bullishGap = cd_l c > cd_h a; bearishGap = cd_h c < cd_l a
      in if \<not> bullishGap \<and> \<not> bearishGap then []
         else let upper = (if bullishGap then cd_l c else cd_l a);
                  lower = (if bullishGap then cd_h a else cd_h c);
                  gapSize = upper - lower;
                  middleRange = cd_h (cs ! i) - cd_l (cs ! i)
              in if minRatio > 0 \<and> middleRange > 0 \<and> gapSize / middleRange < minRatio then []
                 else let (mitigated, maxPenetration) = mitigation cs (i + 2) bullishGap lower upper;
                          percentFilled = (if gapSize > 0 then min 1 (maxPenetration / gapSize) else 0)
                      in [\<lparr>fz_side = (if bullishGap then Bullish else Bearish),
                           fz_startIndex = i - 1, fz_endIndex = i + 1,
                           fz_startTime = cd_t a, fz_endTime = cd_t c, fz_top = upper,
                           fz_bottom = lower, fz_mitigated = mitigated,
                           fz_percentFilled = percentFilled\<rparr>])"

definition detectFvgs :: "candle list \<Rightarrow> real \<Rightarrow> fvgZone list" where
  "detectFvgs cs minRatio =
     (if length cs < 3 then [] else concat (map (fvg_at cs minRatio) [1..<length cs - 1]))"

section \<open>order-blocks.ts\<close>

definition isMitigated :: "candle list \<Rightarrow> nat \<Rightarrow> nat \<Rightarrow> real \<Rightarrow> real \<Rightarrow> bool" where
  "isMitigated cs from_idx to_idx lower upper =
     list_ex (\<lambda>j. overlaps (cs ! j) lower upper) [from_idx..<to_idx]"

definition computeStrength :: "candle \<Rightarrow> candle list \<Rightarrow> real \<Rightarrow> nat \<Rightarrow> real" where
  "computeStrength obCandle followers atr14 impulseCount =
     (if atr14 \<le> 0 then 0
      else let lastFollower = last followers;
               impulseMag = \<bar>cd_c lastFollower - cd_c obCandle\<bar>;
               magScore = min 1 (impulseMag / (atr14 * 2)) * 0.5;
               barScore = (if impulseCount \<ge> 3 then 0.3 else 0.15);
               trendScore = 0.2
           in min 1 (magScore + barScore + trendScore))"

definition order_block_at :: "candle list \<Rightarrow> nat \<Rightarrow> real \<Rightarrow> nat \<Rightarrow> orderBlock list" where
  "order_block_at cs impulse atr14 i =
     (let c = cs ! i;
          isBearishCandle = cd_c c < cd_o c; isBullishCandle = cd_c c > cd_o c;
          followers = slice (i + 1) (i + 1 + impulse) cs;
          lastClose = cd_c (last followers);
          block = (\<lambda>side. [\<lparr>ob_side = side, ob_index = i, ob_time = cd_t c, ob_top = cd_h c,
             ob_bottom = cd_l c,
             ob_mitigated = isMitigated cs (i + 1 + impulse) (length cs) (cd_l c) (cd_h c),
             ob_strength = computeStrength c followers atr14 impulse\<rparr>])
      in if isBearishCandle then
           (if \<not> list_all (\<lambda>b. cd_c b > cd_o b) followers then []
            else if lastClose \<le> cd_h c then [] else block Bullish)
         else if isBullishCandle then
           (if \<not> list_all (\<lambda>b. cd_c b < cd_o b) followers then []
            else if lastClose \<ge> cd_l c then [] else block Bearish)
         else [])"

definition prune_blocks :: "orderBlock list \<Rightarrow> nat \<Rightarrow> orderBlock list" where
  "prune_blocks obs perSide =
     (let bull = slice_last perSide (filter (\<lambda>b. ob_side b = Bullish) obs);
          bear = slice_last perSide (filter (\<lambda>b. ob_side b = Bearish) obs)
      in sort_key ob_index (bull @ bear))"

text \<open>All blocks of the window, before pruning; \<open>impulse\<close> is positive as in every caller.\<close>

definition all_order_blocks :: "candle list \<Rightarrow> nat \<Rightarrow> real \<Rightarrow> orderBlock list" where
  "all_order_blocks cs impulse atr14 =
     concat (map (order_block_at cs impulse atr14) [0..<length cs - impulse])"

definition detectOrderBlocks :: "candle list \<Rightarrow> nat \<Rightarrow> real \<Rightarrow> orderBlock list" where
  "detectOrderBlocks cs impulse atr14 =
     (if length cs < impulse + 1 then []
      else prune_blocks (all_order_blocks cs impulse atr14) 10)"

section \<open>liquidity.ts\<close>

fun sweep_high :: "candle \<Rightarrow> nat \<Rightarrow> nat \<Rightarrow> real \<Rightarrow> swingPoint list \<Rightarrow> liquiditySweep list" where
  "sweep_high c i maxLookback atr14 [] = []"
| "sweep_high c i maxLookback atr14 (sw # older) =
     (if sw_index sw + sw_lookback sw > i then sweep_high c i maxLookback atr14 older
      else if sw_index sw \<ge> i then sweep_high c i maxLookback atr14 older
      else if i - sw_index sw > maxLookback then []
      else if cd_h c > sw_price sw \<and> cd_c c < sw_price sw then
        [\<lparr>ls_side = SwingHigh, ls_index = i, ls_time = cd_t c, ls_level = sw_price sw, ls_wick = cd_h c,
          ls_magnitude = (if atr14 > 0 then (cd_h c - sw_price sw) / atr14 else 0)\<rparr>]
      else sweep_high c i maxLookback atr14 older)"

fun sweep_low :: "candle \<Rightarrow> nat \<Rightarrow> nat \<Rightarrow> real \<Rightarrow> swingPoint list \<Rightarrow> liquiditySweep list" where
  "sweep_low c i maxLookback atr14 [] = []"
| "sweep_low c i maxLookback atr14 (sw # older) =
     (if sw_index sw + sw_lookback sw > i then sweep_low c i maxLookback atr14 older
      else if sw_index sw \<ge> i then sweep_low c i maxLookback atr14 older
      else if i - sw_index sw > maxLookback then []
      else if cd_l c < sw_price sw \<and> cd_c c > sw_price sw then
        [\<lparr>ls_side = SwingLow, ls_index = i, ls_time = cd_t c, ls_level = sw_price sw, ls_wick = cd_l c,
          ls_magnitude = (if atr14 > 0 then (sw_price sw - cd_l c) / atr14 else 0)\<rparr>]
      else sweep_low c i maxLookback atr14 older)"

definition detectLiquiditySweeps ::
  "candle list \<Rightarrow> swingPoint list \<Rightarrow> nat \<Rightarrow> real \<Rightarrow> liquiditySweep list" where
  "detectLiquiditySweeps cs swings maxLookback atr14 =
     (if cs = [] \<or> swings = [] then []
      else let swingHighs = filter (\<lambda>s. sw_type s = SwingHigh) swings;
               swingLows = filter (\<lambda>s. sw_type s = SwingLow) swings
           in concat (map (\<lambda>i. sweep_high (cs ! i) i maxLookback atr14 (rev swingHighs)
                             @ sweep_low (cs ! i) i maxLookback atr14 (rev swingLows))
                [0..<length cs]))"

section \<open>asian-range.ts and pdh-pdl.ts\<close>

record asianRange =
  ar_date :: int
  ar_high :: real
  ar_low :: real
  ar_fromTime :: ms
  ar_toTime :: ms
  ar_forming :: bool

definition inAsianWindow :: "ms \<Rightarrow> bool" where
  "inAsianWindow t \<longleftrightarrow> getUTCHours t \<ge> 0 \<and> getUTCHours t < 7"

text \<open>The day keys in order of appearance, one per run of equal keys.\<close>

definition collectDistinctDays :: "candle list \<Rightarrow> int list" where
  "collectDistinctDays cs =
     fst (foldl (\<lambda>(days, lst) c. if Some (utcDay (cd_t c)) \<noteq> lst
                   then (days @ [utcDay (cd_t c)], Some (utcDay (cd_t c))) else (days, lst))
            ([], None) cs)"

text \<open>The scan of one day's bars; an infinite start value is \<open>None\<close>.\<close>

definition range_step ::
  "(real option \<times> real option \<times> ms \<times> ms) \<Rightarrow> candle \<Rightarrow> (real option \<times> real option \<times> ms \<times> ms)" where
  "range_step = (\<lambda>(high, low, fromTime, toTime) b.
     ((case high of None \<Rightarrow> Some (cd_h b) | Some h \<Rightarrow> if cd_h b > h then Some (cd_h b) else high),
      (case low of None \<Rightarrow> Some (cd_l b) | Some l \<Rightarrow> if cd_l b < l then Some (cd_l b) else low),
      (if cd_t b < fromTime then cd_t b else fromTime),
      (if cd_t b > toTime then cd_t b else toTime)))"

definition asian_bars :: "candle list \<Rightarrow> int \<Rightarrow> candle list" where
  "asian_bars cs day = filter (\<lambda>c. utcDay (cd_t c) = day \<and> inAsianWindow (cd_t c)) cs"

fun asian_scan :: "candle list \<Rightarrow> int list \<Rightarrow> asianRange option" where
  "asian_scan cs [] = None"
| "asian_scan cs (day # earlier) =
     (let bars = asian_bars cs day in
      if bars = [] then asian_scan cs earlier
      else case foldl range_step (None, None, cd_t (hd bars), cd_t (hd bars)) bars of
             (Some high, Some low, fromTime, toTime) \<Rightarrow>
               Some \<lparr>ar_date = day, ar_high = high, ar_low = low, ar_fromTime = fromTime,
                     ar_toTime = toTime,
                     ar_forming = (utcDay (cd_t (last cs)) = day \<and> inAsianWindow (cd_t (last cs)))\<rparr>
           | _ \<Rightarrow> None)"

definition computeAsianRange :: "candle list \<Rightarrow> asianRange option" where
  "computeAsianRange cs = (if cs = [] then None else asian_scan cs (rev (collectDistinctDays cs)))"

record pdhPdl =
  pd_date :: int
  pd_high :: real
  pd_low :: real
  pd_highTime :: ms
  pd_lowTime :: ms

text \<open>High with its time, low with its time; \<open>None\<close> while infinite.\<close>

definition pdh_step ::
  "int \<Rightarrow> (real option \<times> ms) \<times> (real option \<times> ms) \<Rightarrow> candle \<Rightarrow> (real option \<times> ms) \<times> (real option \<times> ms)" where
  "pdh_step day = (\<lambda>(hi, lo) c.
     if utcDay (cd_t c) \<noteq> day then (hi, lo)
     else ((case fst hi of None \<Rightarrow> (Some (cd_h c), cd_t c)
            | Some h \<Rightarrow> if cd_h c > h then (Some (cd_h c), cd_t c) else hi),
           (case fst lo of None \<Rightarrow> (Some (cd_l c), cd_t c)
            | Some l \<Rightarrow> if cd_l c < l then (Some (cd_l c), cd_t c) else lo)))"

definition computePdhPdl :: "candle list \<Rightarrow> pdhPdl option" where
  "computePdhPdl cs =
     (if cs = [] then None
      else let dayKeys = collectDistinctDays cs in
        if length dayKeys < 2 then None
        else let previousDay = dayKeys ! (length dayKeys - 2) in
          (case foldl (pdh_step previousDay) ((None, 0), (None, 0)) cs of
             ((Some high, highTime), (Some low, lowTime)) \<Rightarrow>
               Some \<lparr>pd_date = previousDay, pd_high = high, pd_low = low, pd_highTime = highTime,
                     pd_lowTime = lowTime\<rparr>
           | _ \<Rightarrow> None))"

section \<open>defaults.ts and index.ts\<close>

fun defaultSwingLookback :: "timeframe \<Rightarrow> nat" where
  "defaultSwingLookback M1 = 2"
| "defaultSwingLookback M5 = 2"
| "defaultSwingLookback M15 = 3"
| "defaultSwingLookback M30 = 3"
| "defaultSwingLookback H1 = 3"
| "defaultSwingLookback H4 = 5"
| "defaultSwingLookback D1 = 5"
| "defaultSwingLookback W1 = 5"

datatype structureKind = Swings | Bos_choch | Fvg | Order_blocks | Liquidity

definition ALL_KINDS :: "structureKind list" where
  "ALL_KINDS = [Swings, Bos_choch, Fvg, Order_blocks, Liquidity]"

text \<open>The options of the five detectors, \<open>None\<close> for a field left out.\<close>

record structure_args =
  sa_kinds :: "structureKind list option"
  sa_lookback :: "nat option"
  sa_closeBased :: "bool option"
  sa_minSizeRatio :: "real option"
  sa_impulseBars :: "nat option"
  sa_ob_atr14 :: "real option"
  sa_maxLookback :: "nat option"
  sa_liq_atr14 :: "real option"

record structureResult =
  sr_symbol :: string
  sr_tf :: timeframe
  sr_bars :: nat
  sr_fetchedAt :: ms
  sr_swings :: "swingPoint list option"
  sr_events :: "structureEvent list option"
  sr_fvg :: "fvgZone list option"
  sr_orderBlocks :: "orderBlock list option"
  sr_liquidity :: "liquiditySweep list option"

definition or_else :: "'a option \<Rightarrow> 'a \<Rightarrow> 'a" where
  "or_else v d = (case v of None \<Rightarrow> d | Some x \<Rightarrow> x)"

definition computeStructure ::
  "ms \<Rightarrow> string \<Rightarrow> timeframe \<Rightarrow> candle list \<Rightarrow> structure_args \<Rightarrow> string + structureResult" where
  "computeStructure now symbol tf cs args =
     (let kinds = set (or_else (sa_kinds args) ALL_KINDS);
          needSwings = Swings \<in> kinds \<or> Bos_choch \<in> kinds \<or> Liquidity \<in> kinds
      in case (if needSwings then findSwings cs (or_else (sa_lookback args) (defaultSwingLookback tf))
               else Inr []) of
           Inl e \<Rightarrow> Inl e
         | Inr swings \<Rightarrow>
             Inr \<lparr>sr_symbol = symbol, sr_tf = tf, sr_bars = length cs, sr_fetchedAt = now,
               sr_swings = (if Swings \<in> kinds then Some swings else None),
               sr_events = (if Bos_choch \<in> kinds
                  then Some (detectStructure cs swings (or_else (sa_closeBased args) True)) else None),
               sr_fvg = (if Fvg \<in> kinds
                  then Some (detectFvgs cs (or_else (sa_minSizeRatio args) 0)) else None),
               sr_orderBlocks = (if Order_blocks \<in> kinds
                  then Some (detectOrderBlocks cs (or_else (sa_impulseBars args) 2)
                    (or_else (sa_ob_atr14 args) 0)) else None),
               sr_liquidity = (if Liquidity \<in> kinds
                  then Some (detectLiquiditySweeps cs swings (or_else (sa_maxLookback args) 200)
                    (or_else (sa_liq_atr14 args) 0)) else None)\<rparr>)"

section \<open>The structure state machine\<close>

text \<open>What makes an event right with respect to the candles and swings it was detected on.\<close>

definition event_ok :: "candle list \<Rightarrow> swingPoint list \<Rightarrow> bool \<Rightarrow> structureEvent \<Rightarrow> bool" where
  "event_ok cs swings closeBased e \<longleftrightarrow>
     ev_brokenAt e < length cs \<and> ev_swingIndex e < length swings
     \<and> (let c = cs ! ev_brokenAt e; s = swings ! ev_swingIndex e in
        ev_time e = cd_t c \<and> ev_level e = sw_price s
        \<and> sw_index s + sw_lookback s < ev_brokenAt e
        \<and> (case ev_direction e of
             Bullish \<Rightarrow> sw_type s = SwingHigh \<and> (if closeBased then cd_c c else cd_h c) > sw_price s
           | Bearish \<Rightarrow> sw_type s = SwingLow \<and> (if closeBased then cd_c c else cd_l c) < sw_price s))"

definition kinds_ok :: "structureEvent list \<Rightarrow> bool" where
  "kinds_ok evs \<longleftrightarrow> (\<forall>n<length evs. ev_kind (evs ! n)
     = (if n = 0 \<or> ev_direction (evs ! (n - 1)) = ev_direction (evs ! n) then Bos else Choch))"

text \<open>A reference swing: registered, of the right type, confirmed before bar \<open>i\<close>, not yet broken.\<close>

definition ref_ok ::
  "swingPoint list \<Rightarrow> swingType \<Rightarrow> nat \<Rightarrow> structure_state \<Rightarrow> (swingPoint \<times> nat) option \<Rightarrow> bool" where
  "ref_ok swings ty i st r \<longleftrightarrow> (case r of None \<Rightarrow> True | Some (s, j) \<Rightarrow>
     j < st_ptr st \<and> j < length swings \<and> s = swings ! j \<and> sw_type s = ty
     \<and> sw_index s + sw_lookback s < i \<and> j \<notin> ev_swingIndex ` set (st_events st))"

definition structure_inv ::
  "candle list \<Rightarrow> swingPoint list \<Rightarrow> bool \<Rightarrow> nat \<Rightarrow> structure_state \<Rightarrow> bool" where
  "structure_inv cs swings closeBased i st \<longleftrightarrow>
     ref_ok swings SwingHigh i st (st_lastHigh st) \<and> ref_ok swings SwingLow i st (st_lastLow st)
     \<and> st_trend st = (if st_events st = [] then None else Some (ev_direction (last (st_events st))))
     \<and> list_all (event_ok cs swings closeBased) (st_events st) \<and> kinds_ok (st_events st)
     \<and> (\<forall>e\<in>set (st_events st). ev_swingIndex e < st_ptr st \<and> ev_brokenAt e < i)
     \<and> distinct (map ev_swingIndex (st_events st)) \<and> sorted_wrt (<) (map ev_brokenAt (st_events st))"

lemma kinds_ok_snoc:
  assumes "kinds_ok evs"
    "ev_kind e = (if evs = [] \<or> ev_direction (last evs) = ev_direction e then Bos else Choch)"
  shows "kinds_ok (evs @ [e])"
  using assms by (auto simp: kinds_ok_def nth_append last_conv_nth less_Suc_eq)

lemma structure_inv_mono:
  assumes "structure_inv cs swings cb i st" "i \<le> j"
  shows "structure_inv cs swings cb j st"
proof -
  have "ref_ok swings ty i st r \<Longrightarrow> ref_ok swings ty j st r" for ty r
    using assms(2) by (auto simp: ref_ok_def split: option.splits)
  then show ?thesis
    using assms unfolding structure_inv_def by (meson order_less_le_trans)
qed

lemma break_inv:
  assumes inv: "structure_inv cs swings cb i st" and i: "i < length cs"
    and r: "ref_ok swings (if d = Bullish then SwingHigh else SwingLow) i st (Some (s, idx))"
    and brk: "case d of Bullish \<Rightarrow> (if cb then cd_c (cs ! i) else cd_h (cs ! i)) > sw_price s
       | Bearish \<Rightarrow> (if cb then cd_c (cs ! i) else cd_l (cs ! i)) < sw_price s"
    and st': "st_events st' = st_events st @ [\<lparr>
        ev_kind = (if st_trend st = Some d \<or> st_trend st = None then Bos else Choch),
        ev_direction = d, ev_brokenAt = i, ev_time = cd_t (cs ! i), ev_level = sw_price s,
        ev_swingIndex = idx\<rparr>]"
      "st_trend st' = Some d" "st_ptr st' = st_ptr st"
      "st_lastHigh st' = (if d = Bullish then None else st_lastHigh st)"
      "st_lastLow st' = (if d = Bullish then st_lastLow st else None)"
  shows "structure_inv cs swings cb (Suc i) st'"
proof -
  have idx: "idx < length swings" "s = swings ! idx" "sw_index s + sw_lookback s < i" "idx < st_ptr st"
      "sw_type s = (if d = Bullish then SwingHigh else SwingLow)"
      "idx \<notin> ev_swingIndex ` set (st_events st)"
    using r by (auto simp: ref_ok_def)
  have other: "ref_ok swings ty (Suc i) st' q"
    if "ref_ok swings ty i st q" "q = None \<or> ty \<noteq> sw_type s" for ty q
    using that idx(2) by (auto simp: ref_ok_def st' split: option.splits)
  have "ref_ok swings SwingHigh (Suc i) st' (st_lastHigh st')"
    "ref_ok swings SwingLow (Suc i) st' (st_lastLow st')"
    using inv idx(5) other unfolding structure_inv_def st'(4,5)
    by (cases d; fastforce simp: ref_ok_def)+
  moreover have "kinds_ok (st_events st')"
    unfolding st'(1) using inv
    by (intro kinds_ok_snoc) (auto simp: structure_inv_def)
  moreover have "list_all (event_ok cs swings cb) (st_events st')"
    using inv i idx brk
    by (cases d) (auto simp: structure_inv_def st'(1) event_ok_def Let_def)
  ultimately show ?thesis
    using inv idx by (auto simp: structure_inv_def st' sorted_wrt_append less_Suc_eq)
qed

lemma check_breaks_inv:
  assumes inv: "structure_inv cs swings cb i st" and i: "i < length cs"
  shows "structure_inv cs swings cb (Suc i) (check_breaks cb i (cs ! i) st)"
proof -
  have refs: "ref_ok swings SwingHigh i st (st_lastHigh st)" "ref_ok swings SwingLow i st (st_lastLow st)"
    using inv by (auto simp: structure_inv_def)
  show ?thesis
  proof (cases "\<exists>s idx. st_lastHigh st = Some (s, idx)
      \<and> (if cb then cd_c (cs ! i) else cd_h (cs ! i)) > sw_price s")
    case True
    then obtain s idx where h: "st_lastHigh st = Some (s, idx)"
      "(if cb then cd_c (cs ! i) else cd_h (cs ! i)) > sw_price s"
      by blast
    show ?thesis
      by (rule break_inv[OF inv i, of Bullish s idx]) (use h refs in \<open>auto simp: check_breaks_def Let_def\<close>)
  next
    case high: False
    show ?thesis
    proof (cases "\<exists>s idx. st_lastLow st = Some (s, idx)
        \<and> (if cb then cd_c (cs ! i) else cd_l (cs ! i)) < sw_price s")
      case True
      then obtain s idx where l: "st_lastLow st = Some (s, idx)"
        "(if cb then cd_c (cs ! i) else cd_l (cs ! i)) < sw_price s"
        by blast
      have low: "check_breaks cb i (cs ! i) st = st\<lparr>st_events := st_events st @ [\<lparr>
          ev_kind = (if st_trend st = Some Bearish \<or> st_trend st = None then Bos else Choch),
          ev_direction = Bearish, ev_brokenAt = i, ev_time = cd_t (cs ! i),
          ev_level = sw_price s, ev_swingIndex = idx\<rparr>],
          st_trend := Some Bearish, st_lastLow := None\<rparr>"
      proof (cases "st_lastHigh st")
        case None
        then show ?thesis using l unfolding check_breaks_def Let_def by (cases cb) simp_all
      next
        case (Some q)
        then have "\<not> (if cb then cd_c (cs ! i) else cd_h (cs ! i)) > sw_price (fst q)"
          using high by (cases q) auto
        then show ?thesis using l Some unfolding check_breaks_def Let_def by (cases q; cases cb) simp_all
      qed
      show ?thesis
        by (rule break_inv[OF inv i, of Bearish s idx]) (use l refs in \<open>simp_all add: low\<close>)
    next
      case False
      have "check_breaks cb i (cs ! i) st = st"
      proof (cases "st_lastHigh st"; cases "st_lastLow st")
      qed (use high False in \<open>(cases cb; clarsimp simp: check_breaks_def Let_def)+\<close>)
      then show ?thesis
        using structure_inv_mono[OF inv] by simp
    qed
  qed
qed

declare register_swings.simps [simp del]

lemma register_swings_inv:
  assumes "structure_inv cs swings cb (Suc i) st"
  shows "structure_inv cs swings cb (Suc i) (register_swings swings i st)"
  using assms
proof (induction swings i st rule: register_swings.induct)
  case (1 swings i st)
  show ?case
  proof (cases "st_ptr st < length swings
      \<and> \<not> sw_index (swings ! st_ptr st) + sw_lookback (swings ! st_ptr st) > i")
    case True
    let ?s = "swings ! st_ptr st"
    have fresh: "st_ptr st \<notin> ev_swingIndex ` set (st_events st)"
      using "1.prems" by (auto simp: structure_inv_def)
    have old: "\<forall>e\<in>set (st_events st). ev_swingIndex e < Suc (st_ptr st)"
      using "1.prems" by (auto simp: structure_inv_def less_Suc_eq)
    define st' where "st' = (if sw_type ?s = SwingHigh
       then st\<lparr>st_lastHigh := Some (?s, st_ptr st), st_ptr := st_ptr st + 1\<rparr>
       else st\<lparr>st_lastLow := Some (?s, st_ptr st), st_ptr := st_ptr st + 1\<rparr>)"
    have keep: "ref_ok swings ty (Suc i) st q \<Longrightarrow> ref_ok swings ty (Suc i) st' q" for ty q
      by (auto simp: ref_ok_def st'_def split: option.splits)
    have new: "ref_ok swings (sw_type ?s) (Suc i) st' (Some (?s, st_ptr st))"
      using True fresh by (auto simp: ref_ok_def st'_def)
    have "structure_inv cs swings cb (Suc i) st'"
      using "1.prems" keep new old unfolding structure_inv_def
      by (cases "sw_type ?s") (simp_all add: st'_def)
    then show ?thesis
      using True 1(1)[of ?s] by (subst register_swings.simps) (simp add: st'_def Let_def split: if_splits)
  next
    case False
    then show ?thesis
      using "1.prems" by (subst register_swings.simps) (auto simp: Let_def)
  qed
qed

lemma init_structure_inv: "structure_inv cs swings cb 0 init_structure"
  by (simp add: structure_inv_def init_structure_def ref_ok_def kinds_ok_def)

lemma structure_inv_final:
  "structure_inv cs swings cb (length cs) (fold_idx (structure_step cb swings) 0 cs init_structure)"
proof -
  have "structure_inv cs swings cb (0 + length cs)
      (fold_idx (structure_step cb swings) 0 cs init_structure)"
    by (rule fold_idx_invariant[where P = "structure_inv cs swings cb"])
      (auto simp: init_structure_inv structure_step_def intro: register_swings_inv check_breaks_inv)
  then show ?thesis by simp
qed

text \<open>
  C36: every break reported by \<open>detectStructure\<close> is genuine: it breaks the price of a swing that was
  confirmed (its index plus lookback) strictly before the breaking bar, a high upwards or a low
  downwards, by the close or the wick as configured. At most one break is reported per bar, in
  order; no swing is broken twice; and an event is a BOS when it continues the direction of the
  previous event (or is the first), a CHoCH when it reverses it.
\<close>

theorem structure_events_sound:
  "list_all (event_ok cs swings closeBased) (detectStructure cs swings closeBased)
   \<and> sorted_wrt (<) (map ev_brokenAt (detectStructure cs swings closeBased))
   \<and> distinct (map ev_swingIndex (detectStructure cs swings closeBased))
   \<and> kinds_ok (detectStructure cs swings closeBased)"
proof (cases "cs = [] \<or> swings = []")
  case True
  then show ?thesis by (auto simp: detectStructure_def kinds_ok_def)
next
  case False
  then show ?thesis
    using structure_inv_final[of cs swings closeBased]
    by (simp add: detectStructure_def structure_inv_def)
qed

section \<open>Swings\<close>

lemma swing_at_set:
  assumes "i - k \<le> i" "s \<in> set (swing_at cs k i)"
  shows "sw_index s = i \<and> sw_lookback s = k \<and> sw_time s = cd_t (cs ! i)
    \<and> (case sw_type s of
         SwingHigh \<Rightarrow> sw_price s = cd_h (cs ! i) \<and> (\<forall>j\<in>{i - k..i + k} - {i}. cd_h (cs ! j) < cd_h (cs ! i))
       | SwingLow \<Rightarrow> sw_price s = cd_l (cs ! i) \<and> (\<forall>j\<in>{i - k..i + k} - {i}. cd_l (cs ! i) < cd_l (cs ! j)))"
  using assms by (auto simp: swing_at_def Let_def is_swing_high_def is_swing_low_def list_all_iff not_le
      split: if_splits)

lemma swing_at_nonempty:
  "swing_at cs k i \<noteq> [] \<longleftrightarrow> (\<forall>j\<in>{i - k..i + k} - {i}. cd_h (cs ! j) < cd_h (cs ! i))
     \<or> (\<forall>j\<in>{i - k..i + k} - {i}. cd_l (cs ! i) < cd_l (cs ! j))"
  by (auto simp: swing_at_def Let_def is_swing_high_def is_swing_low_def list_all_iff not_le)

lemma swing_at_index: "map sw_index (swing_at cs k i) = (if swing_at cs k i = [] then [] else [i])"
  by (simp add: swing_at_def Let_def)

lemma sorted_concat_at:
  assumes "\<And>i. map key (f i) = [] \<or> map key (f i) = [i :: nat]"
  shows "sorted_wrt (<) (map key (concat (map f [a..<b])))"
proof (induction b)
  case 0
  then show ?case by simp
next
  case (Suc b)
  have "\<forall>x\<in>set (concat (map f [a..<b])). key x < b"
  proof
    fix x
    assume "x \<in> set (concat (map f [a..<b]))"
    then obtain i where i: "a \<le> i" "i < b" "x \<in> set (f i)"
      by auto
    then have "key x \<in> set (map key (f i))"
      by simp
    then show "key x < b"
      using assms[of i] i by auto
  qed
  then show ?case
    using Suc assms[of b] by (cases "a \<le> b") (auto simp: sorted_wrt_append)
qed

lemma at_most_one:
  "\<forall>i. map key (f i) = [] \<or> map key (f i) = [i :: nat] \<Longrightarrow> sorted_wrt (<) (map key (concat (map f [a..<b])))"
  by (rule sorted_concat_at) blast

text \<open>
  \<open>findSwings\<close> throws only for lookback 0; otherwise it returns, in increasing order of index,
  exactly the bars whose high is strictly above (or whose low is strictly below) that of every
  other bar at most \<open>k\<close> away, each with its own time and price, at least \<open>k\<close> bars from both ends.
\<close>

theorem findSwings_exact:
  "(findSwings cs k = Inl e) = (k = 0 \<and> e = ''findSwings: lookback must be >= 1'')
   \<and> (case findSwings cs k of Inl _ \<Rightarrow> True | Inr swings \<Rightarrow>
        sorted_wrt (<) (map sw_index swings)
        \<and> set (map sw_index swings) = {i. k \<le> i \<and> i + k < length cs
             \<and> ((\<forall>j\<in>{i - k..i + k} - {i}. cd_h (cs ! j) < cd_h (cs ! i))
                \<or> (\<forall>j\<in>{i - k..i + k} - {i}. cd_l (cs ! i) < cd_l (cs ! j)))}
        \<and> list_all (\<lambda>s. sw_lookback s = k \<and> sw_time s = cd_t (cs ! sw_index s)
             \<and> sw_price s = (case sw_type s of SwingHigh \<Rightarrow> cd_h (cs ! sw_index s)
                                             | SwingLow \<Rightarrow> cd_l (cs ! sw_index s))) swings)"
proof (cases "k < 1")
  case True
  then show ?thesis by (auto simp: findSwings_def)
next
  case False
  define ss where "ss = concat (map (swing_at cs k) [k..<length cs - k])"
  have "findSwings cs k = Inr ss"
    using False by (auto simp: findSwings_def ss_def)
  moreover have "sorted_wrt (<) (map sw_index ss)"
    unfolding ss_def by (rule at_most_one) (simp add: swing_at_index)
  moreover have "set (map sw_index ss) = {i \<in> {k..<length cs - k}. swing_at cs k i \<noteq> []}"
  proof -
    have "set (map sw_index (swing_at cs k i)) = (if swing_at cs k i = [] then {} else {i})" for i
      unfolding swing_at_index by simp
    then have "set (map sw_index ss) = (\<Union>i\<in>{k..<length cs - k}. if swing_at cs k i = [] then {} else {i})"
      by (auto simp: ss_def image_UN)
    then show ?thesis by auto
  qed
  moreover have "list_all (\<lambda>s. sw_lookback s = k \<and> sw_time s = cd_t (cs ! sw_index s)
             \<and> sw_price s = (case sw_type s of SwingHigh \<Rightarrow> cd_h (cs ! sw_index s)
                                             | SwingLow \<Rightarrow> cd_l (cs ! sw_index s))) ss"
    unfolding list_all_iff
  proof
    fix s
    assume "s \<in> set ss"
    then obtain i where "s \<in> set (swing_at cs k i)"
      by (auto simp: ss_def)
    then show "sw_lookback s = k \<and> sw_time s = cd_t (cs ! sw_index s)
       \<and> sw_price s = (case sw_type s of SwingHigh \<Rightarrow> cd_h (cs ! sw_index s)
                                       | SwingLow \<Rightarrow> cd_l (cs ! sw_index s))"
      using swing_at_set[of i k s cs] by (cases "sw_type s") auto
  qed
  ultimately show ?thesis
    using False by (auto simp: swing_at_nonempty)
qed

text \<open>A window with a peak at index 1.\<close>

definition peak_candles :: "candle list" where
  "peak_candles = [mk_candle 0 10 12 9 11, mk_candle 1 11 15 10 12, mk_candle 2 12 13 11 12]"

theorem findSwings_exact_witness:
  "\<exists>ss. findSwings peak_candles 1 = Inr ss \<and> 1 \<in> set (map sw_index ss)"
proof -
  obtain ss where ss: "findSwings peak_candles 1 = Inr ss"
    by (simp add: findSwings_def peak_candles_def)
  have "{1 - 1..1 + 1} - {1} = {0, 2 :: nat}"
    by auto
  then have "(\<forall>j\<in>{1 - 1..1 + 1} - {1 :: nat}. cd_h (peak_candles ! j) < cd_h (peak_candles ! 1))"
    "1 + 1 < length peak_candles"
    by (simp_all add: peak_candles_def)
  then have "1 \<in> set (map sw_index ss)"
    using findSwings_exact[of peak_candles 1 "[]"] ss by simp
  with ss show ?thesis by blast
qed

section \<open>Fair value gaps\<close>

lemma deepest_fold:
  assumes "foldl (\<lambda>(m, p) b. if ov b then (True, if pen b > p then pen b else p) else (m, p)) (m0, p0) cs
      = (m, p :: real)"
  shows "m = (m0 \<or> (\<exists>b\<in>set cs. ov b)) \<and> p0 \<le> p
      \<and> (\<forall>x. x \<le> p \<longleftrightarrow> x \<le> p0 \<or> (\<exists>b\<in>set cs. ov b \<and> x \<le> pen b))"
  using assms
proof (induction cs arbitrary: m0 p0)
  case Nil
  then show ?case by simp
next
  case (Cons b cs)
  show ?case
  proof (cases "ov b")
    case True
    then have "foldl (\<lambda>(m, p) b. if ov b then (True, if pen b > p then pen b else p) else (m, p))
        (True, if pen b > p0 then pen b else p0) cs = (m, p)"
      using Cons.prems by simp
    from Cons.IH[OF this] show ?thesis
      using True by (auto split: if_splits)
  next
    case False
    then show ?thesis
      using Cons.IH[of m0 p0] Cons.prems by auto
  qed
qed

lemma mitigation_correct:
  assumes "mitigation cs n g lower upper = (m, p)"
  shows "m = (\<exists>b\<in>set (drop n cs). overlaps b lower upper) \<and> 0 \<le> p
    \<and> (\<forall>x>0. x \<le> p \<longleftrightarrow> (\<exists>b\<in>set (drop n cs). overlaps b lower upper
          \<and> x \<le> (if g then upper - cd_l b else cd_h b - lower)))"
proof -
  have "foldl (\<lambda>(m, p) b. if overlaps b lower upper then
           (True, if (if g then upper - cd_l b else cd_h b - lower) > p
              then (if g then upper - cd_l b else cd_h b - lower) else p) else (m, p))
         (False, 0) (drop n cs) = (m, p)"
    using assms unfolding mitigation_def Let_def .
  from deepest_fold[OF this] show ?thesis
    by auto
qed

text \<open>
  every zone of \<open>detectFvgs\<close> spans three consecutive bars inside the window and is a real gap
  between the first and the third; \<open>mitigated\<close> says whether some later bar touches the zone;
  \<open>percentFilled\<close> lies in 0..1, and it is 1 exactly when a later bar trades through to the far
  side of the zone.
\<close>

theorem fvg_zone_sound:
  assumes "z \<in> set (detectFvgs cs minRatio)"
  shows "fz_endIndex z = fz_startIndex z + 2 \<and> fz_endIndex z < length cs
    \<and> fz_bottom z < fz_top z
    \<and> (case fz_side z of
         Bullish \<Rightarrow> fz_bottom z = cd_h (cs ! fz_startIndex z) \<and> fz_top z = cd_l (cs ! fz_endIndex z)
       | Bearish \<Rightarrow> fz_bottom z = cd_h (cs ! fz_endIndex z) \<and> fz_top z = cd_l (cs ! fz_startIndex z))
    \<and> fz_mitigated z = (\<exists>b\<in>set (drop (fz_endIndex z + 1) cs). overlaps b (fz_bottom z) (fz_top z))
    \<and> 0 \<le> fz_percentFilled z \<and> fz_percentFilled z \<le> 1
    \<and> (fz_percentFilled z = 1 \<longleftrightarrow> (\<exists>b\<in>set (drop (fz_endIndex z + 1) cs).
         overlaps b (fz_bottom z) (fz_top z)
         \<and> (case fz_side z of Bullish \<Rightarrow> cd_l b \<le> fz_bottom z | Bearish \<Rightarrow> fz_top z \<le> cd_h b)))"
proof -
  obtain i where i: "1 \<le> i" "i + 1 < length cs" and z: "z \<in> set (fvg_at cs minRatio i)"
    using assms by (auto simp: detectFvgs_def split: if_splits)
  define a c where "a = cs ! (i - 1)" and "c = cs ! (i + 1)"
  define g where "g \<longleftrightarrow> cd_l c > cd_h a"
  define upper lower where "upper = (if g then cd_l c else cd_l a)" and "lower = (if g then cd_h a else cd_h c)"
  obtain m p where mp: "mitigation cs (i + 2) g lower upper = (m, p)"
    by fastforce
  note fold = a_def[symmetric] c_def[symmetric] g_def[symmetric] upper_def[symmetric] lower_def[symmetric]
  have gap: "lower < upper"
    using z unfolding fvg_at_def Let_def fold by (auto simp: upper_def lower_def g_def split: if_splits)
  then have zeq: "z = \<lparr>fz_side = (if g then Bullish else Bearish), fz_startIndex = i - 1, fz_endIndex = i + 1,
      fz_startTime = cd_t a, fz_endTime = cd_t c, fz_top = upper, fz_bottom = lower,
      fz_mitigated = m, fz_percentFilled = min 1 (p / (upper - lower))\<rparr>"
    using z mp unfolding fvg_at_def Let_def fold by (simp split: if_splits)
  have "(min 1 (p / (upper - lower)) = 1) = (upper - lower \<le> p)"
    using gap by (auto simp: min_def field_simps)
  also have "\<dots> = (\<exists>b\<in>set (drop (i + 2) cs). overlaps b lower upper
      \<and> upper - lower \<le> (if g then upper - cd_l b else cd_h b - lower))"
    using mitigation_correct[OF mp] gap by auto
  finally have full: "(min 1 (p / (upper - lower)) = 1) = (\<exists>b\<in>set (drop (i + 2) cs).
      overlaps b lower upper \<and> (if g then cd_l b \<le> lower else upper \<le> cd_h b))"
    by (cases g) (simp_all add: algebra_simps)
  have "0 \<le> min 1 (p / (upper - lower))" "min 1 (p / (upper - lower)) \<le> 1"
    using mitigation_correct[OF mp] gap by simp_all
  then show ?thesis
    using i gap full mitigation_correct[OF mp]
    by (auto simp: zeq upper_def lower_def a_def c_def split: if_splits)
qed

text \<open>Three bars that leave a gap between 12 and 14, and a fourth that fills half of it.\<close>

definition gap_candles :: "candle list" where
  "gap_candles = [mk_candle 0 10 12 9 11, mk_candle 1 12 15 12 15, mk_candle 2 15 16 14 15,
     mk_candle 3 15 15 13 14]"

theorem fvg_zone_sound_witness:
  "\<exists>z. z \<in> set (detectFvgs gap_candles 0) \<and> fz_mitigated z \<and> fz_percentFilled z \<noteq> 1
     \<and> 0 \<le> fz_percentFilled z"
proof -
  define z where "z = \<lparr>fz_side = Bullish, fz_startIndex = 0, fz_endIndex = 2, fz_startTime = 0,
    fz_endTime = 2, fz_top = 14, fz_bottom = 12, fz_mitigated = True, fz_percentFilled = 1 / 2\<rparr>"
  have "[1..<3] = [1, 2 :: nat]"
    by (simp add: upt_rec)
  then have "z \<in> set (detectFvgs gap_candles 0)"
    by (simp add: detectFvgs_def fvg_at_def gap_candles_def mitigation_def overlaps_def Let_def z_def)
  from this fvg_zone_sound[OF this] show ?thesis
    unfolding z_def by (intro exI) auto
qed

section \<open>Order blocks\<close>

lemma order_block_at_index: "map ob_index (order_block_at cs n atr i) = []
    \<or> map ob_index (order_block_at cs n atr i) = [i]"
  by (simp add: order_block_at_def Let_def)

lemma all_blocks_sorted: "sorted_wrt (<) (map ob_index (all_order_blocks cs n atr))"
  unfolding all_order_blocks_def by (rule at_most_one) (use order_block_at_index in blast)

lemma computeStrength_range: "0 \<le> computeStrength c fs atr n \<and> computeStrength c fs atr n \<le> 1"
  by (auto simp: computeStrength_def Let_def intro!: add_nonneg_nonneg)

text \<open>What makes a block: the candle's colour, the opposite impulse and the closing break.\<close>

definition block_ok :: "candle list \<Rightarrow> nat \<Rightarrow> orderBlock \<Rightarrow> bool" where
  "block_ok cs n b \<longleftrightarrow>
     (let i = ob_index b; c = cs ! i in
      i + n < length cs \<and> ob_top b = cd_h c \<and> ob_bottom b = cd_l c \<and> ob_time b = cd_t c
      \<and> ob_mitigated b = (\<exists>j\<in>{i + n + 1..<length cs}. overlaps (cs ! j) (cd_l c) (cd_h c))
      \<and> 0 \<le> ob_strength b \<and> ob_strength b \<le> 1
      \<and> (case ob_side b of
           Bullish \<Rightarrow> cd_c c < cd_o c \<and> (\<forall>j\<in>{i + 1..i + n}. cd_o (cs ! j) < cd_c (cs ! j))
             \<and> cd_h c < cd_c (cs ! (i + n))
         | Bearish \<Rightarrow> cd_o c < cd_c c \<and> (\<forall>j\<in>{i + 1..i + n}. cd_c (cs ! j) < cd_o (cs ! j))
             \<and> cd_c (cs ! (i + n)) < cd_l c))"

lemma slice_all:
  "i + n < length xs \<Longrightarrow> list_all P (slice (i + 1) (i + 1 + n) xs) \<longleftrightarrow> (\<forall>j\<in>{i + 1..i + n}. P (xs ! j))"
proof -
  assume l: "i + n < length xs"
  have "list_all P (slice (i + 1) (i + 1 + n) xs) \<longleftrightarrow> (\<forall>k<n. P (xs ! (i + 1 + k)))"
    using l by (auto simp: list_all_length nth_slice)
  also have "\<dots> \<longleftrightarrow> (\<forall>j\<in>{i + 1..i + n}. P (xs ! j))"
  proof (intro iffI ballI allI impI)
    fix j
    assume *: "\<forall>k<n. P (xs ! (i + 1 + k))" and "j \<in> {i + 1..i + n}"
    then have "j - (i + 1) < n" "i + 1 + (j - (i + 1)) = j"
      by auto
    then show "P (xs ! j)" using * by metis
  qed auto
  finally show ?thesis .
qed

lemma slice_last_elem:
  "0 < n \<Longrightarrow> i + n < length xs \<Longrightarrow> last (slice (i + 1) (i + 1 + n) xs) = xs ! (i + n)"
proof -
  assume "0 < n" "i + n < length xs"
  then have "length (slice (i + 1) (i + 1 + n) xs) = n"
    by simp
  then show ?thesis
    using \<open>0 < n\<close> nth_slice[of "n - 1" "i + 1" "i + 1 + n" xs]
    by (subst last_conv_nth) (auto simp del: length_slice)
qed

lemma order_block_at_ok:
  assumes "0 < n" "i + n < length cs" "b \<in> set (order_block_at cs n atr i)"
  shows "block_ok cs n b \<and> ob_index b = i"
proof -
  note sl = slice_all[OF assms(2), of "\<lambda>b. cd_c b > cd_o b"]
    slice_all[OF assms(2), of "\<lambda>b. cd_c b < cd_o b"] slice_last_elem[OF assms(1,2)]
  have "isMitigated cs (i + 1 + n) (length cs) l u
      = (\<exists>j\<in>{i + n + 1..<length cs}. overlaps (cs ! j) l u)" for l u
    by (auto simp: isMitigated_def list_ex_iff add.commute add.left_commute)
  then show ?thesis
    using assms(2,3) computeStrength_range unfolding order_block_at_def Let_def sl
    by (auto simp: block_ok_def Let_def not_le split: if_splits)
qed

lemma filter_other_key: "\<forall>b\<in>set xs. f b = d' \<Longrightarrow> d' \<noteq> d \<Longrightarrow> filter (\<lambda>b. f b = d) xs = []"
  by (induction xs) auto

lemma filter_sort_sides:
  assumes "sorted_wrt (<) (map ob_index obs)"
  shows "filter (\<lambda>b. ob_side b = d) (prune_blocks obs n) = slice_last n (filter (\<lambda>b. ob_side b = d) obs)"
proof -
  let ?S = "\<lambda>d. slice_last n (filter (\<lambda>b. ob_side b = d) obs)"
  have side: "\<forall>b\<in>set (?S d'). ob_side b = d'" for d'
    using set_slice_last[of n "filter (\<lambda>b. ob_side b = d') obs"] by auto
  have "sorted_wrt (<) (map ob_index (filter P obs))" for P
    using assms by (induction obs) auto
  then have srt: "sorted (map ob_index (?S d))"
    by (simp add: slice_last_def drop_map[symmetric] sorted_wrt_drop strict_sorted_imp_sorted)
  have "filter (\<lambda>b. ob_side b = d) (prune_blocks obs n)
      = sort_key ob_index (filter (\<lambda>b. ob_side b = d) (?S Bullish @ ?S Bearish))"
    by (simp add: prune_blocks_def Let_def filter_sort)
  also have "filter (\<lambda>b. ob_side b = d) (?S Bullish @ ?S Bearish) = ?S d"
  proof -
    have "filter (\<lambda>b. ob_side b = d) (?S d) = ?S d"
      using side[of d] by (simp only: filter_id_conv)
    moreover have "filter (\<lambda>b. ob_side b = d) (?S d') = []" if "d' \<noteq> d" for d'
      by (rule filter_other_key[OF side[of d'] that])
    ultimately show ?thesis
      unfolding filter_append by (cases d) simp_all
  qed
  finally show ?thesis
    unfolding sort_key_id_if_sorted[OF srt] .
qed

text \<open>
  \<open>detectOrderBlocks\<close> reports genuine blocks only (an opposite-coloured candle followed by the
  full impulse whose last close breaks it, with a strength in 0..1 and the right mitigation flag),
  in increasing order of bar, and per side exactly the ten most recent of all blocks in the window.
\<close>

theorem order_blocks_recent:
  assumes "0 < impulse"
  shows "list_all (block_ok cs impulse) (detectOrderBlocks cs impulse atr14)
    \<and> sorted (map ob_index (detectOrderBlocks cs impulse atr14))
    \<and> filter (\<lambda>b. ob_side b = d) (detectOrderBlocks cs impulse atr14)
        = slice_last 10 (filter (\<lambda>b. ob_side b = d) (all_order_blocks cs impulse atr14))"
proof (cases "length cs < impulse + 1")
  case True
  then show ?thesis
    by (simp add: detectOrderBlocks_def all_order_blocks_def slice_last_def)
next
  case False
  have "block_ok cs impulse b" if b: "b \<in> set (all_order_blocks cs impulse atr14)" for b
  proof -
    obtain i where i: "i < length cs - impulse" "b \<in> set (order_block_at cs impulse atr14 i)"
      using b by (auto simp: all_order_blocks_def)
    then have "i + impulse < length cs"
      by linarith
    then show ?thesis
      using order_block_at_ok[OF assms _ i(2)] by blast
  qed
  moreover have "set (prune_blocks obs 10) \<subseteq> set obs" for obs
    using set_slice_last[of 10 "filter (\<lambda>b. ob_side b = Bullish) obs"]
      set_slice_last[of 10 "filter (\<lambda>b. ob_side b = Bearish) obs"]
    by (auto simp: prune_blocks_def Let_def)
  ultimately have "list_all (block_ok cs impulse) (prune_blocks (all_order_blocks cs impulse atr14) 10)"
    unfolding list_all_iff by blast
  moreover have "sorted (map ob_index (prune_blocks obs 10))" for obs
    by (simp add: prune_blocks_def Let_def)
  ultimately show ?thesis
    using False filter_sort_sides[OF all_blocks_sorted] by (simp add: detectOrderBlocks_def)
qed

theorem order_blocks_recent_witness:
  "filter (\<lambda>b. ob_side b = Bullish) (detectOrderBlocks gap_candles 2 1)
     = slice_last 10 (filter (\<lambda>b. ob_side b = Bullish) (all_order_blocks gap_candles 2 1))"
  using order_blocks_recent[of 2 gap_candles 1 Bullish] by simp

section \<open>Liquidity sweeps\<close>

definition sweep_candidate :: "candle \<Rightarrow> nat \<Rightarrow> nat \<Rightarrow> swingPoint \<Rightarrow> bool" where
  "sweep_candidate c i maxLookback sw \<longleftrightarrow>
     sw_index sw + sw_lookback sw \<le> i \<and> sw_index sw < i \<and> i - sw_index sw \<le> maxLookback
     \<and> (case sw_type sw of SwingHigh \<Rightarrow> cd_h c > sw_price sw \<and> cd_c c < sw_price sw
                         | SwingLow \<Rightarrow> cd_l c < sw_price sw \<and> cd_c c > sw_price sw)"

text \<open>The scan from the newest swing back finds the newest candidate, if there is one.\<close>

lemma sweep_high_spec:
  assumes "sorted_wrt (\<lambda>a b. sw_index a \<ge> sw_index b) sws" "\<forall>s\<in>set sws. sw_type s = SwingHigh"
  shows "sweep_high c i n atr sws = (case List.find (sweep_candidate c i n) sws of None \<Rightarrow> []
    | Some sw \<Rightarrow> [\<lparr>ls_side = SwingHigh, ls_index = i, ls_time = cd_t c, ls_level = sw_price sw,
        ls_wick = cd_h c, ls_magnitude = (if atr > 0 then (cd_h c - sw_price sw) / atr else 0)\<rparr>])"
  using assms
proof (induction sws)
  case Nil
  then show ?case by simp
next
  case (Cons sw sws)
  have "List.find (sweep_candidate c i n) sws = None" if "sw_index sw < i" "i - sw_index sw > n"
    using that Cons.prems by (force simp: find_None_iff sweep_candidate_def)
  moreover have "sweep_candidate c i n sw \<longleftrightarrow> sw_index sw + sw_lookback sw \<le> i \<and> sw_index sw < i
      \<and> i - sw_index sw \<le> n \<and> cd_h c > sw_price sw \<and> cd_c c < sw_price sw"
    using Cons.prems by (simp add: sweep_candidate_def)
  moreover have "sweep_high c i n atr sws = (case List.find (sweep_candidate c i n) sws of None \<Rightarrow> []
    | Some sw \<Rightarrow> [\<lparr>ls_side = SwingHigh, ls_index = i, ls_time = cd_t c, ls_level = sw_price sw,
        ls_wick = cd_h c, ls_magnitude = (if atr > 0 then (cd_h c - sw_price sw) / atr else 0)\<rparr>])"
    using Cons by simp
  ultimately show ?case
    by auto
qed

lemma sweep_low_spec:
  assumes "sorted_wrt (\<lambda>a b. sw_index a \<ge> sw_index b) sws" "\<forall>s\<in>set sws. sw_type s = SwingLow"
  shows "sweep_low c i n atr sws = (case List.find (sweep_candidate c i n) sws of None \<Rightarrow> []
    | Some sw \<Rightarrow> [\<lparr>ls_side = SwingLow, ls_index = i, ls_time = cd_t c, ls_level = sw_price sw,
        ls_wick = cd_l c, ls_magnitude = (if atr > 0 then (sw_price sw - cd_l c) / atr else 0)\<rparr>])"
  using assms
proof (induction sws)
  case Nil
  then show ?case by simp
next
  case (Cons sw sws)
  have "List.find (sweep_candidate c i n) sws = None" if "sw_index sw < i" "i - sw_index sw > n"
    using that Cons.prems by (force simp: find_None_iff sweep_candidate_def)
  moreover have "sweep_candidate c i n sw \<longleftrightarrow> sw_index sw + sw_lookback sw \<le> i \<and> sw_index sw < i
      \<and> i - sw_index sw \<le> n \<and> cd_l c < sw_price sw \<and> cd_c c > sw_price sw"
    using Cons.prems by (simp add: sweep_candidate_def)
  moreover have "sweep_low c i n atr sws = (case List.find (sweep_candidate c i n) sws of None \<Rightarrow> []
    | Some sw \<Rightarrow> [\<lparr>ls_side = SwingLow, ls_index = i, ls_time = cd_t c, ls_level = sw_price sw,
        ls_wick = cd_l c, ls_magnitude = (if atr > 0 then (sw_price sw - cd_l c) / atr else 0)\<rparr>])"
    using Cons by simp
  ultimately show ?case
    by auto
qed

lemma filter_concat_index:
  assumes "\<And>k x. x \<in> set (f k) \<Longrightarrow> P x \<Longrightarrow> k = (i :: nat)" "i < n"
  shows "filter P (concat (map f [0..<n])) = filter P (f i)"
proof -
  have other: "filter P (f k) = []" if "k \<noteq> i" for k
    using assms(1) that by (auto simp: filter_empty_conv)
  have "filter P (concat (map f [0..<m])) = (if i < m then filter P (f i) else [])" for m
    by (induction m) (auto simp: other less_Suc_eq)
  then show ?thesis using assms(2) by simp
qed

lemma find_rev_filter: "List.find Q (rev (filter P xs)) = find_last (\<lambda>x. P x \<and> Q x) xs"
  by (induction xs rule: rev_induct) (auto simp: find_last_snoc)

lemma sorted_rev_filter:
  "sorted (map f xs) \<Longrightarrow> sorted_wrt (\<lambda>a b. f a \<ge> f b) (rev (filter P xs))" for f :: "'a \<Rightarrow> nat"
  by (induction xs) (auto simp: sorted_wrt_append)

definition sweep_of :: "swingType \<Rightarrow> candle \<Rightarrow> nat \<Rightarrow> real \<Rightarrow> swingPoint \<Rightarrow> liquiditySweep" where
  "sweep_of d c i atr sw =
     (let wick = (case d of SwingHigh \<Rightarrow> cd_h c | SwingLow \<Rightarrow> cd_l c)
      in \<lparr>ls_side = d, ls_index = i, ls_time = cd_t c, ls_level = sw_price sw, ls_wick = wick,
          ls_magnitude = (if atr > 0 then \<bar>wick - sw_price sw\<bar> / atr else 0)\<rparr>)"

text \<open>
  for swings in order of index (as \<open>findSwings\<close> returns them), the sweeps reported on a side at
  a bar are none, or the single sweep of the most recent swing of that side that was confirmed by
  then, is at most \<open>maxLookback\<close> bars old, and whose price the wick pierced while the bar closed
  back inside; its magnitude is the length of the piercing part in ATR units.
\<close>

theorem sweeps_newest:
  assumes "sorted (map sw_index swings)" "i < length cs"
  shows "filter (\<lambda>s. ls_side s = d \<and> ls_index s = i) (detectLiquiditySweeps cs swings maxLookback atr14)
    = (case find_last (\<lambda>s. sw_type s = d \<and> sweep_candidate (cs ! i) i maxLookback s) swings of
         None \<Rightarrow> [] | Some sw \<Rightarrow> [sweep_of d (cs ! i) i atr14 sw])"
proof (cases "swings = []")
  case True
  then show ?thesis by (simp add: detectLiquiditySweeps_def)
next
  case False
  let ?H = "\<lambda>k. sweep_high (cs ! k) k maxLookback atr14 (rev (filter (\<lambda>s. sw_type s = SwingHigh) swings))"
  let ?L = "\<lambda>k. sweep_low (cs ! k) k maxLookback atr14 (rev (filter (\<lambda>s. sw_type s = SwingLow) swings))"
  have H: "?H k = (case find_last (\<lambda>s. sw_type s = SwingHigh \<and> sweep_candidate (cs ! k) k maxLookback s) swings of
      None \<Rightarrow> [] | Some sw \<Rightarrow> [sweep_of SwingHigh (cs ! k) k atr14 sw])" for k
    by (subst sweep_high_spec)
      (auto simp: sorted_rev_filter assms find_rev_filter sweep_of_def Let_def sweep_candidate_def
        split: option.splits dest: find_last_Some)
  have L: "?L k = (case find_last (\<lambda>s. sw_type s = SwingLow \<and> sweep_candidate (cs ! k) k maxLookback s) swings of
      None \<Rightarrow> [] | Some sw \<Rightarrow> [sweep_of SwingLow (cs ! k) k atr14 sw])" for k
    by (subst sweep_low_spec)
      (auto simp: sorted_rev_filter assms find_rev_filter sweep_of_def Let_def sweep_candidate_def
        split: option.splits dest: find_last_Some)
  have "filter (\<lambda>s. ls_side s = d \<and> ls_index s = i) (detectLiquiditySweeps cs swings maxLookback atr14)
      = filter (\<lambda>s. ls_side s = d \<and> ls_index s = i) (?H i @ ?L i)"
  proof -
    have "detectLiquiditySweeps cs swings maxLookback atr14 = concat (map (\<lambda>k. ?H k @ ?L k) [0..<length cs])"
      using False assms(2) by (auto simp: detectLiquiditySweeps_def Let_def)
    moreover have "k = i" if "x \<in> set (?H k @ ?L k)" "ls_side x = d \<and> ls_index x = i" for k x
      using that unfolding H L by (auto simp: sweep_of_def Let_def split: option.splits)
    ultimately show ?thesis
      using filter_concat_index[of "\<lambda>k. ?H k @ ?L k" "\<lambda>s. ls_side s = d \<and> ls_index s = i" i "length cs"]
        assms(2) by simp
  qed
  also have "\<dots> = (case find_last (\<lambda>s. sw_type s = d \<and> sweep_candidate (cs ! i) i maxLookback s) swings of
         None \<Rightarrow> [] | Some sw \<Rightarrow> [sweep_of d (cs ! i) i atr14 sw])"
    unfolding H L by (cases d) (auto simp: sweep_of_def Let_def split: option.splits)
  finally show ?thesis .
qed

theorem sweeps_newest_witness:
  "filter (\<lambda>s. ls_side s = SwingHigh \<and> ls_index s = 3)
     (detectLiquiditySweeps gap_candles [\<lparr>sw_index = 1, sw_time = 1, sw_price = 14.5, sw_type = SwingHigh,
        sw_lookback = 1\<rparr>] 200 0)
   = [\<lparr>ls_side = SwingHigh, ls_index = 3, ls_time = 3, ls_level = 14.5, ls_wick = 15, ls_magnitude = 0\<rparr>]"
proof -
  let ?sw = "[\<lparr>sw_index = 1, sw_time = 1, sw_price = 14.5, sw_type = SwingHigh, sw_lookback = 1\<rparr>]"
  have "3 < length gap_candles" "sorted (map sw_index ?sw)"
    by (simp_all add: gap_candles_def)
  note sweeps_newest[OF this(2,1), of SwingHigh 200 0]
  then show ?thesis
    by (simp add: gap_candles_def find_last_def sweep_candidate_def sweep_of_def Let_def)
qed

section \<open>Day ranges\<close>

lemma collectDistinctDays_eq: "collectDistinctDays cs = remdups_adj (map (\<lambda>c. utcDay (cd_t c)) cs)"
proof -
  have "foldl (\<lambda>(days, lst) c. if Some (utcDay (cd_t c)) \<noteq> lst
                   then (days @ [utcDay (cd_t c)], Some (utcDay (cd_t c))) else (days, lst)) ([], None) cs
      = (remdups_adj (map (\<lambda>c. utcDay (cd_t c)) cs),
         if cs = [] then None else Some (utcDay (cd_t (last cs))))"
    by (induction cs rule: rev_induct) (auto simp: remdups_adj_snoc last_map)
  then show ?thesis
    by (simp add: collectDistinctDays_def)
qed

lemma strict_sorted_remdups_adj:
  "sorted (xs :: int list) \<Longrightarrow> sorted_wrt (<) (remdups_adj xs)"
  by (induction xs rule: remdups_adj.induct) auto

lemma utcDay_mono: "a \<le> b \<Longrightarrow> utcDay a \<le> utcDay b"
  by (simp add: utcDay_def zdiv_mono1)

lemma days_sorted:
  "sorted (map cd_t cs) \<Longrightarrow> sorted_wrt (<) (collectDistinctDays cs)"
  unfolding collectDistinctDays_eq
  by (rule strict_sorted_remdups_adj) (induction cs; simp add: utcDay_mono)

text \<open>Running maximum and minimum with the time at which they were first reached.\<close>

lemma pdh_fold:
  assumes "foldl (pdh_step day) ((None, 0), (None, 0)) cs = ((hi, ht), (lo, lt))"
  shows "(case hi of None \<Rightarrow> \<forall>c\<in>set cs. utcDay (cd_t c) \<noteq> day
     | Some h \<Rightarrow> (\<exists>c\<in>set cs. utcDay (cd_t c) = day \<and> cd_h c = h \<and> cd_t c = ht)
        \<and> (\<forall>c\<in>set cs. utcDay (cd_t c) = day \<longrightarrow> cd_h c \<le> h))
   \<and> (case lo of None \<Rightarrow> \<forall>c\<in>set cs. utcDay (cd_t c) \<noteq> day
     | Some l \<Rightarrow> (\<exists>c\<in>set cs. utcDay (cd_t c) = day \<and> cd_l c = l \<and> cd_t c = lt)
        \<and> (\<forall>c\<in>set cs. utcDay (cd_t c) = day \<longrightarrow> l \<le> cd_l c))"
  using assms
proof (induction cs arbitrary: hi ht lo lt rule: rev_induct)
  case Nil
  then show ?case by simp
next
  case (snoc c cs)
  obtain hi0 ht0 lo0 lt0 where f: "foldl (pdh_step day) ((None, 0), (None, 0)) cs = ((hi0, ht0), (lo0, lt0))"
    by (metis surj_pair)
  note IH = snoc.IH[OF f]
  show ?case
  proof (cases "utcDay (cd_t c) = day")
    case True
    have "(hi, ht) = (case hi0 of None \<Rightarrow> (Some (cd_h c), cd_t c)
        | Some h \<Rightarrow> if cd_h c > h then (Some (cd_h c), cd_t c) else (hi0, ht0))"
      "(lo, lt) = (case lo0 of None \<Rightarrow> (Some (cd_l c), cd_t c)
        | Some l \<Rightarrow> if cd_l c < l then (Some (cd_l c), cd_t c) else (lo0, lt0))"
      using snoc.prems f True by (simp_all add: pdh_step_def)
    then show ?thesis
      using IH True by (cases hi0; cases lo0) (fastforce split: if_splits)+
  next
    case False
    then show ?thesis
      using IH snoc.prems f by (auto simp: pdh_step_def split: option.splits)
  qed
qed

text \<open>
  on candles in order of time, \<open>computePdhPdl\<close> returns nothing exactly when they all fall on
  one UTC day; otherwise the day it reports is the latest one present before the last candle's
  day, and its high and low are the extremes of that day's bars, each with the time of a bar that
  reached it.
\<close>

theorem pdh_pdl_exact:
  assumes "sorted (map cd_t cs)"
  shows "case computePdhPdl cs of
      None \<Rightarrow> card ((\<lambda>c. utcDay (cd_t c)) ` set cs) < 2
    | Some r \<Rightarrow>
        is_arg_max id (\<lambda>d. d \<in> (\<lambda>c. utcDay (cd_t c)) ` set cs \<and> d < utcDay (cd_t (last cs))) (pd_date r)
        \<and> (\<exists>c\<in>set cs. utcDay (cd_t c) = pd_date r \<and> cd_h c = pd_high r \<and> cd_t c = pd_highTime r)
        \<and> (\<exists>c\<in>set cs. utcDay (cd_t c) = pd_date r \<and> cd_l c = pd_low r \<and> cd_t c = pd_lowTime r)
        \<and> list_all (\<lambda>c. utcDay (cd_t c) \<noteq> pd_date r \<or> pd_low r \<le> cd_l c \<and> cd_h c \<le> pd_high r) cs"
proof -
  define days where "days = collectDistinctDays cs"
  have srt: "sorted_wrt (<) days"
    using days_sorted[OF assms] by (simp add: days_def)
  have set_days: "set days = (\<lambda>c. utcDay (cd_t c)) ` set cs"
    by (simp add: days_def collectDistinctDays_eq)
  have card: "card ((\<lambda>c. utcDay (cd_t c)) ` set cs) = length days"
    using srt set_days by (metis distinct_card strict_sorted_iff)
  show ?thesis
  proof (cases "length days < 2")
    case True
    then show ?thesis
      using card by (auto simp: computePdhPdl_def days_def Let_def)
  next
    case False
    define d where "d = days ! (length days - 2)"
    have ne: "cs \<noteq> []"
      using False by (auto simp: days_def collectDistinctDays_eq)
    have last: "days ! (length days - 1) = utcDay (cd_t (last cs))"
      using ne False last_conv_nth[of days]
      by (auto simp: days_def collectDistinctDays_eq last_remdups_adj last_map)
    have din: "d \<in> set days" "d < utcDay (cd_t (last cs))"
      using False srt last[symmetric] by (auto simp: d_def intro: sorted_wrt_nth_less)
    have dmax: "e \<le> d" if e: "e \<in> set days" "e < utcDay (cd_t (last cs))" for e
    proof -
      obtain k where k: "k < length days" "e = days ! k"
        using e by (auto simp: in_set_conv_nth)
      have "k \<noteq> length days - 1"
        using e k last by auto
      then have "k \<le> length days - 2"
        using k by linarith
      moreover have "length days - 2 < length days"
        using False by linarith
      ultimately show ?thesis
        using sorted_wrt_nth_less[OF srt, of k "length days - 2"] k
        by (cases "k = length days - 2") (auto simp: d_def)
    qed
    obtain hi ht lo lt where f: "foldl (pdh_step d) ((None, 0), (None, 0)) cs = ((hi, ht), (lo, lt))"
      by (metis surj_pair)
    obtain h l where hl: "hi = Some h" "lo = Some l"
      using pdh_fold[OF f] din set_days by (cases hi; cases lo) auto
    have r: "computePdhPdl cs = Some \<lparr>pd_date = d, pd_high = h, pd_low = l, pd_highTime = ht, pd_lowTime = lt\<rparr>"
      using False ne f hl by (simp add: computePdhPdl_def days_def[symmetric] d_def[symmetric] Let_def)
    have "is_arg_max id (\<lambda>d. d \<in> (\<lambda>c. utcDay (cd_t c)) ` set cs \<and> d < utcDay (cd_t (last cs))) d"
      using din dmax unfolding set_days is_arg_max_def id_apply by (meson not_less)
    moreover note pdh_fold[OF f, unfolded hl option.case]
    moreover from this have "list_all (\<lambda>c. utcDay (cd_t c) \<noteq> d \<or> l \<le> cd_l c \<and> cd_h c \<le> h) cs"
      unfolding list_all_iff by blast
    ultimately show ?thesis
      unfolding r by simp
  qed
qed

text \<open>A bar on day 0 and one on day 1.\<close>

theorem pdh_pdl_exact_witness:
  "\<exists>r. computePdhPdl [mk_candle 0 10 12 9 11, mk_candle 86400000 11 13 10 12] = Some r
     \<and> pd_low r \<le> 9 \<and> 12 \<le> pd_high r"
proof -
  let ?cs = "[mk_candle 0 10 12 9 11, mk_candle 86400000 11 13 10 12]"
  have s: "sorted (map cd_t ?cs)"
    by simp
  have r: "computePdhPdl ?cs = Some \<lparr>pd_date = 0, pd_high = 12, pd_low = 9, pd_highTime = 0, pd_lowTime = 0\<rparr>"
    by (simp add: computePdhPdl_def collectDistinctDays_def pdh_step_def utcDay_def Let_def)
  show ?thesis
    using pdh_pdl_exact[OF s] unfolding r by simp
qed

lemma range_fold:
  assumes "foldl range_step (None, None, t0, t1) bars = (hi, lo, ft, tt)"
  shows "(case hi of None \<Rightarrow> bars = [] | Some h \<Rightarrow> (\<exists>b\<in>set bars. cd_h b = h) \<and> (\<forall>b\<in>set bars. cd_h b \<le> h))
    \<and> (case lo of None \<Rightarrow> bars = [] | Some l \<Rightarrow> (\<exists>b\<in>set bars. cd_l b = l) \<and> (\<forall>b\<in>set bars. l \<le> cd_l b))
    \<and> ft \<le> t0 \<and> t1 \<le> tt \<and> (\<forall>b\<in>set bars. ft \<le> cd_t b \<and> cd_t b \<le> tt)"
  using assms
proof (induction bars arbitrary: hi lo ft tt rule: rev_induct)
  case Nil
  then show ?case by simp
next
  case (snoc b bars)
  obtain hi0 lo0 ft0 tt0 where f: "foldl range_step (None, None, t0, t1) bars = (hi0, lo0, ft0, tt0)"
    by (metis surj_pair)
  have new: "hi = (case hi0 of None \<Rightarrow> Some (cd_h b) | Some h \<Rightarrow> if cd_h b > h then Some (cd_h b) else hi0)"
    "lo = (case lo0 of None \<Rightarrow> Some (cd_l b) | Some l \<Rightarrow> if cd_l b < l then Some (cd_l b) else lo0)"
    "ft = (if cd_t b < ft0 then cd_t b else ft0)" "tt = (if cd_t b > tt0 then cd_t b else tt0)"
    using snoc.prems f by (simp_all add: range_step_def)
  have "ft \<le> t0 \<and> t1 \<le> tt \<and> (\<forall>b'\<in>set (bars @ [b]). ft \<le> cd_t b' \<and> cd_t b' \<le> tt)"
    using snoc.IH[OF f] by (force simp: new(3,4))
  moreover have "case hi of None \<Rightarrow> False
      | Some h \<Rightarrow> (\<exists>b'\<in>set (bars @ [b]). cd_h b' = h) \<and> (\<forall>b'\<in>set (bars @ [b]). cd_h b' \<le> h)"
    using snoc.IH[OF f] by (cases hi0) (force simp: new(1))+
  moreover have "case lo of None \<Rightarrow> False
      | Some l \<Rightarrow> (\<exists>b'\<in>set (bars @ [b]). cd_l b' = l) \<and> (\<forall>b'\<in>set (bars @ [b]). l \<le> cd_l b')"
    using snoc.IH[OF f] by (cases lo0) (force simp: new(2))+
  ultimately show ?case
    by (auto split: option.splits)
qed

lemma asian_scan_Some:
  assumes "asian_scan cs days = Some r"
  shows "asian_bars cs (ar_date r) \<noteq> [] \<and> ar_date r \<in> set days
    \<and> (\<exists>b\<in>set (asian_bars cs (ar_date r)). cd_h b = ar_high r)
    \<and> (\<exists>b\<in>set (asian_bars cs (ar_date r)). cd_l b = ar_low r)
    \<and> list_all (\<lambda>b. cd_h b \<le> ar_high r \<and> ar_low r \<le> cd_l b \<and> ar_fromTime r \<le> cd_t b \<and> cd_t b \<le> ar_toTime r)
        (asian_bars cs (ar_date r))"
  using assms
proof (induction cs days rule: asian_scan.induct)
  case (1 cs)
  then show ?case by simp
next
  case (2 cs day earlier)
  show ?case
  proof (cases "asian_bars cs day = []")
    case True
    then show ?thesis using 2 by auto
  next
    case False
    let ?bars = "asian_bars cs day"
    obtain hi lo ft tt where f: "foldl range_step (None, None, cd_t (hd ?bars), cd_t (hd ?bars)) ?bars
        = (hi, lo, ft, tt)"
      by (metis surj_pair)
    obtain h l where hl: "hi = Some h" "lo = Some l"
      using range_fold[OF f] False by (cases hi; cases lo) auto
    then have "r = \<lparr>ar_date = day, ar_high = h, ar_low = l, ar_fromTime = ft, ar_toTime = tt,
        ar_forming = (utcDay (cd_t (last cs)) = day \<and> inAsianWindow (cd_t (last cs)))\<rparr>"
      using 2(2) False f by (simp add: Let_def)
    then show ?thesis
      using range_fold[OF f] hl False by (auto simp: list_all_iff)
  qed
qed

end
