(* ===== verification/Budget.thy ===== *)
theory Budget
  imports Contracts Js_Map Js_String "HOL-Library.Multiset"
begin

text \<open>
  The daily AI budget (\<open>packages/ai/src/cost.ts\<close>, \<open>budget-reservation.ts\<close>, \<open>budget-guard.ts\<close>).
  The database is a record of the tables the code touches: \<open>counters\<close> is \<open>daily_ai_spend\<close> keyed by
  user and UTC day, \<open>ledger\<close> is \<open>ai_budget_reservations\<close> keyed by its id. A transaction is one
  function of the state; a statement that raises makes the whole transaction return \<open>Inl\<close> with the
  state unchanged, which is the rollback. Amounts in dollars are reals, \<open>None\<close> standing for a value
  that is not finite; cents are integers. The purge of old ledger rows
  (\<open>packages/db/src/queries/retention.ts\<close>) and the corrections of a counter that have no row are
  operations on the same tables.
\<close>

datatype reservation_status = Reserved | Reconciled | Released

record budget_correlation =
  bc_threadId :: "string option"
  bc_traceId :: "string option"
  bc_runId :: "string option"
  bc_jobId :: "string option"

record ledger_row =
  lr_user :: string
  lr_day :: int
  lr_reserved :: int
  lr_actual :: "int option"
  lr_status :: reservation_status
  lr_createdAt :: ms
  lr_resolvedAt :: "ms option"
  lr_corr :: "budget_correlation option"

record budget_db =
  counters :: "(string \<times> int, int) js_map"
  ledger :: "(string, ledger_row) js_map"

datatype budget_error =
    Not_finite
  | Counter_missing
  | Duplicate_id
  | Budget_exceeded real real
  | Sink_down

definition DEFAULT_TURN_ESTIMATE_USD :: real where
  "DEFAULT_TURN_ESTIMATE_USD = 0.01"

definition DEFAULT_MAX_DAILY_USD :: real where
  "DEFAULT_MAX_DAILY_USD = 5"

text \<open>\<open>Math.round\<close> rounds halves up.\<close>

definition js_round :: "real \<Rightarrow> int" where
  "js_round x = \<lfloor>x + 1 / 2\<rfloor>"

section \<open>The counter and the ledger\<close>

definition counter_of :: "budget_db \<Rightarrow> string \<Rightarrow> int \<Rightarrow> int" where
  "counter_of db user day = (case js_get (counters db) (user, day) of None \<Rightarrow> 0 | Some c \<Rightarrow> c)"

definition reservedSpendUsd :: "budget_db \<Rightarrow> string \<Rightarrow> ms \<Rightarrow> real" where
  "reservedSpendUsd db user now = real_of_int (counter_of db user (utcDay now)) / 100"

definition dailySpendUsd :: "budget_db \<Rightarrow> string \<Rightarrow> ms \<Rightarrow> real" where
  "dailySpendUsd db user now = reservedSpendUsd db user now"

text \<open>
  \<open>INSERT ... ON CONFLICT DO UPDATE SET total = total + est WHERE total + est <= cap RETURNING total\<close>:
  the insert path has no condition, the update path is guarded; \<open>None\<close> is the empty result.
\<close>

definition reserve_counter ::
  "int \<Rightarrow> string \<times> int \<Rightarrow> int \<Rightarrow> (string \<times> int, int) js_map \<Rightarrow> (string \<times> int, int) js_map \<times> int option" where
  "reserve_counter capCents key estCents cs =
     (case js_get cs key of
        None \<Rightarrow> (js_set key estCents cs, Some estCents)
      | Some tot \<Rightarrow>
          if tot + estCents \<le> capCents then (js_set key (tot + estCents) cs, Some (tot + estCents))
          else (cs, None))"

record reservation_result =
  rr_ok :: bool
  rr_spent :: real
  rr_max :: real
  rr_id :: "string option"

definition tryReserveBudget ::
  "budget_db \<Rightarrow> string \<Rightarrow> real option \<Rightarrow> real option \<Rightarrow> ms \<Rightarrow> budget_correlation option \<Rightarrow> string
     \<Rightarrow> budget_error + budget_db \<times> reservation_result" where
  "tryReserveBudget db userId estimatedUsd capUsd now corr newId =
     (case (estimatedUsd, capUsd) of
        (Some estimated, Some cap) \<Rightarrow>
          (let day = utcDay now;
               estCents = max 0 \<lceil>estimated * 100\<rceil>;
               capCents = max 0 \<lceil>cap * 100\<rceil>
           in if estCents > capCents then
                Inr (db, \<lparr>rr_ok = False, rr_spent = reservedSpendUsd db userId now, rr_max = cap, rr_id = None\<rparr>)
              else case reserve_counter capCents (userId, day) estCents (counters db) of
                (cs, None) \<Rightarrow>
                  Inr (db, \<lparr>rr_ok = False, rr_spent = reservedSpendUsd db userId now, rr_max = cap, rr_id = None\<rparr>)
              | (cs, Some tot) \<Rightarrow>
                  if js_has (ledger db) newId then Inl Duplicate_id
                  else Inr (\<lparr>counters = cs,
                        ledger = js_set newId \<lparr>lr_user = userId, lr_day = day, lr_reserved = estCents,
                          lr_actual = None, lr_status = Reserved, lr_createdAt = now, lr_resolvedAt = None,
                          lr_corr = corr\<rparr> (ledger db)\<rparr>,
                      \<lparr>rr_ok = True, rr_spent = real_of_int tot / 100, rr_max = cap, rr_id = Some newId\<rparr>))
      | _ \<Rightarrow> Inr (db, \<lparr>rr_ok = False, rr_spent = reservedSpendUsd db userId now,
                 rr_max = DEFAULT_MAX_DAILY_USD, rr_id = None\<rparr>))"

definition applyBudgetDelta :: "budget_db \<Rightarrow> string \<Rightarrow> real option \<Rightarrow> ms \<Rightarrow> budget_db" where
  "applyBudgetDelta db userId deltaUsd now =
     (case deltaUsd of
        None \<Rightarrow> db
      | Some delta \<Rightarrow>
          if delta = 0 then db
          else let day = utcDay now; cents = js_round (delta * 100) in
            if cents = 0 then db
            else db\<lparr>counters := js_set (userId, day)
              (case js_get (counters db) (userId, day) of
                 None \<Rightarrow> max 0 cents | Some tot \<Rightarrow> max 0 (tot + cents)) (counters db)\<rparr>)"

definition reconcileBudgetReservation ::
  "budget_db \<Rightarrow> string \<Rightarrow> real option \<Rightarrow> ms \<Rightarrow> budget_error + budget_db \<times> bool" where
  "reconcileBudgetReservation db reservationId actualUsd now =
     (case actualUsd of
        None \<Rightarrow> Inl Not_finite
      | Some actual \<Rightarrow>
          (let actualCents = max 0 (js_round (actual * 100)) in
           case js_get (ledger db) reservationId of
             None \<Rightarrow> Inr (db, False)
           | Some r \<Rightarrow>
               if lr_status r \<noteq> Reserved then Inr (db, False)
               else let deltaCents = actualCents - lr_reserved r;
                        key = (lr_user r, lr_day r);
                        resolve = (\<lambda>d. d\<lparr>ledger := js_set reservationId
                          (r\<lparr>lr_actual := Some actualCents, lr_status := Reconciled,
                             lr_resolvedAt := Some now\<rparr>) (ledger d)\<rparr>)
                    in if deltaCents = 0 then Inr (resolve db, True)
                       else case js_get (counters db) key of
                         None \<Rightarrow> Inl Counter_missing
                       | Some tot \<Rightarrow>
                           Inr (resolve (db\<lparr>counters := js_set key (max 0 (tot + deltaCents)) (counters db)\<rparr>),
                                True)))"

definition releaseBudgetReservation ::
  "budget_db \<Rightarrow> string \<Rightarrow> ms \<Rightarrow> budget_error + budget_db \<times> bool" where
  "releaseBudgetReservation db reservationId now =
     (case js_get (ledger db) reservationId of
        None \<Rightarrow> Inr (db, False)
      | Some r \<Rightarrow>
          if lr_status r \<noteq> Reserved then Inr (db, False)
          else let key = (lr_user r, lr_day r) in
            case js_get (counters db) key of
              None \<Rightarrow> Inl Counter_missing
            | Some tot \<Rightarrow>
                Inr (db\<lparr>counters := js_set key (max 0 (tot - lr_reserved r)) (counters db),
                        ledger := js_set reservationId
                          (r\<lparr>lr_actual := Some 0, lr_status := Released, lr_resolvedAt := Some now\<rparr>)
                          (ledger db)\<rparr>, True))"

text \<open>The recovery job: the oldest open rows before the cutoff, released one by one.\<close>

definition stale_ids :: "budget_db \<Rightarrow> ms \<Rightarrow> int \<Rightarrow> string list" where
  "stale_ids db cutoff limit =
     (let boundedLimit = max 1 (min 500 limit);
          open_rows = filter (\<lambda>(i, r). lr_status r = Reserved \<and> lr_createdAt r < cutoff) (ledger db)
      in map fst (take (nat boundedLimit) (sort_key (\<lambda>(i, r). lr_createdAt r) open_rows)))"

definition recover_step :: "ms \<Rightarrow> budget_db \<times> nat \<times> nat \<Rightarrow> string \<Rightarrow> budget_db \<times> nat \<times> nat" where
  "recover_step now = (\<lambda>(db, released, failed) i.
     case releaseBudgetReservation db i now of
       Inl e \<Rightarrow> (db, released, failed + 1)
     | Inr (db', True) \<Rightarrow> (db', released + 1, failed)
     | Inr (db', False) \<Rightarrow> (db', released, failed))"

record recovery_report =
  rep_scanned :: nat
  rep_released :: nat
  rep_failed :: nat

definition recoverStaleBudgetReservations ::
  "budget_db \<Rightarrow> ms \<Rightarrow> int \<Rightarrow> ms \<Rightarrow> budget_db \<times> recovery_report" where
  "recoverStaleBudgetReservations db cutoff limit now =
     (let rows = stale_ids db cutoff limit in
      case foldl (recover_step now) (db, 0, 0) rows of
        (db', released, failed) \<Rightarrow>
          (db', \<lparr>rep_scanned = length rows, rep_released = released, rep_failed = failed\<rparr>))"

definition enforceDailyBudget :: "budget_db \<Rightarrow> string \<Rightarrow> real \<Rightarrow> ms \<Rightarrow> budget_error + real \<times> real" where
  "enforceDailyBudget db userId maxUsd now =
     (let spent = reservedSpendUsd db userId now in
      if spent \<ge> maxUsd then Inl (Budget_exceeded spent maxUsd) else Inr (spent, maxUsd))"

section \<open>budget-reservation.ts: the handle of a turn\<close>

record budget_handle =
  bh_user :: string
  bh_reservedUsd :: real
  bh_spent :: real
  bh_max :: real
  bh_id :: "string option"
  bh_released :: bool

definition reserveTurnBudget ::
  "budget_db \<Rightarrow> string \<Rightarrow> real option \<Rightarrow> real option \<Rightarrow> budget_correlation option \<Rightarrow> ms \<Rightarrow> string
     \<Rightarrow> budget_error + budget_db \<times> budget_handle" where
  "reserveTurnBudget db userId estimateUsd maxDailyUsd corr now newId =
     (let estimate = (case estimateUsd of None \<Rightarrow> DEFAULT_TURN_ESTIMATE_USD | Some e \<Rightarrow> e) in
      case tryReserveBudget db userId (Some estimate) maxDailyUsd now corr newId of
        Inl e \<Rightarrow> Inl e
      | Inr (db', r) \<Rightarrow>
          if \<not> rr_ok r then Inl (Budget_exceeded (rr_spent r) (rr_max r))
          else Inr (db', \<lparr>bh_user = userId, bh_reservedUsd = estimate, bh_spent = rr_spent r,
                 bh_max = rr_max r, bh_id = rr_id r, bh_released = False\<rparr>))"

text \<open>
  \<open>sink_up\<close> says whether the database answers; a failing call is caught and leaves the handle open.
\<close>

definition handle_reconcile ::
  "bool \<Rightarrow> real \<Rightarrow> ms \<Rightarrow> budget_db \<times> budget_handle \<Rightarrow> budget_db \<times> budget_handle" where
  "handle_reconcile sink_up observedUsd now = (\<lambda>(db, h).
     if bh_released h then (db, h)
     else if \<not> sink_up then (db, h)
     else case bh_id h of
       Some i \<Rightarrow>
         (case reconcileBudgetReservation db i (Some observedUsd) now of
            Inl e \<Rightarrow> (db, h)
          | Inr (db', _) \<Rightarrow> (db', h\<lparr>bh_released := True\<rparr>))
     | None \<Rightarrow>
         (applyBudgetDelta db (bh_user h) (Some (observedUsd - bh_reservedUsd h)) now,
          h\<lparr>bh_released := True\<rparr>))"

definition handle_release ::
  "bool \<Rightarrow> ms \<Rightarrow> budget_db \<times> budget_handle \<Rightarrow> budget_db \<times> budget_handle" where
  "handle_release sink_up now = (\<lambda>(db, h).
     if bh_released h then (db, h)
     else if \<not> sink_up then (db, h)
     else case bh_id h of
       Some i \<Rightarrow>
         (case releaseBudgetReservation db i now of
            Inl e \<Rightarrow> (db, h)
          | Inr (db', _) \<Rightarrow> (db', h\<lparr>bh_released := True\<rparr>))
     | None \<Rightarrow>
         (applyBudgetDelta db (bh_user h) (Some (- bh_reservedUsd h)) now, h\<lparr>bh_released := True\<rparr>))"

section \<open>budget-guard.ts\<close>

text \<open>Here \<open>None\<close> is an absent cap (\<open>maxDailyUsd ?? DEFAULT_MAX_DAILY_USD\<close>).\<close>

definition guard_reserve ::
  "budget_db \<Rightarrow> string \<Rightarrow> real option \<Rightarrow> ms \<Rightarrow> string \<Rightarrow> budget_error + budget_db \<times> budget_handle" where
  "guard_reserve db userId maxDailyUsd now newId =
     (case tryReserveBudget db userId (Some DEFAULT_TURN_ESTIMATE_USD)
        (Some (case maxDailyUsd of None \<Rightarrow> DEFAULT_MAX_DAILY_USD | Some m \<Rightarrow> m)) now None newId of
        Inl e \<Rightarrow> Inl e
      | Inr (db', r) \<Rightarrow>
          if \<not> rr_ok r then Inl (Budget_exceeded (rr_spent r) (rr_max r))
          else Inr (db', \<lparr>bh_user = userId, bh_reservedUsd = DEFAULT_TURN_ESTIMATE_USD,
                 bh_spent = rr_spent r, bh_max = rr_max r, bh_id = rr_id r, bh_released = False\<rparr>))"

definition reconcileBudget :: "budget_db \<Rightarrow> string \<Rightarrow> real \<Rightarrow> real \<Rightarrow> ms \<Rightarrow> budget_db" where
  "reconcileBudget db userId actualCostUsd reservedUsd now =
     (let delta = actualCostUsd - reservedUsd in
      if \<bar>delta\<bar> < 0.0001 then db else applyBudgetDelta db userId (Some delta) now)"

definition releaseBudget ::
  "bool \<Rightarrow> ms \<Rightarrow> budget_db \<times> budget_handle \<Rightarrow> budget_db \<times> budget_handle" where
  "releaseBudget sink_up now = (\<lambda>(db, r).
     if bh_released r then (db, r)
     else if \<not> sink_up then (db, r)
     else case bh_id r of
       Some i \<Rightarrow>
         (case releaseBudgetReservation db i now of
            Inl e \<Rightarrow> (db, r)
          | Inr (db', _) \<Rightarrow> (db', r\<lparr>bh_released := True\<rparr>))
     | None \<Rightarrow>
         (applyBudgetDelta db (bh_user r) (Some (- bh_reservedUsd r)) now, r\<lparr>bh_released := True\<rparr>))"

section \<open>retention.ts: resolved rows are purged\<close>

definition MAX_RETENTION_DAYS :: int where
  "MAX_RETENTION_DAYS = 3650"

definition BATCH_SIZE :: nat where
  "BATCH_SIZE = 1000"

definition DEFAULT_BUDGET_RETENTION_DAYS :: int where
  "DEFAULT_BUDGET_RETENTION_DAYS = 90"

text \<open>\<open>None\<close> is a value that is absent or no integer.\<close>

definition boundedDays :: "int option \<Rightarrow> int \<Rightarrow> int" where
  "boundedDays v fallback =
     (case v of
        Some n \<Rightarrow> if 1 \<le> n \<and> n \<le> MAX_RETENTION_DAYS then n else fallback
      | None \<Rightarrow> fallback)"

text \<open>
  One batch per run: of the rows that match, in the order \<open>scan\<close> in which the database finds them,
  the first \<open>BATCH_SIZE\<close> go. SQL leaves that order open, so it is an argument.
\<close>

definition deleteBatchedWhere ::
  "(ledger_row \<Rightarrow> bool) \<Rightarrow> string list \<Rightarrow> (string, ledger_row) js_map
     \<Rightarrow> (string, ledger_row) js_map \<times> nat" where
  "deleteBatchedWhere p scan rows =
     (let hits = take BATCH_SIZE
            (filter (\<lambda>i. case js_get rows i of None \<Rightarrow> False | Some r \<Rightarrow> p r) (remdups scan))
      in (filter (\<lambda>(i, r). i \<notin> set hits) rows, length hits))"

definition purgeable :: "ms \<Rightarrow> ledger_row \<Rightarrow> bool" where
  "purgeable cutoff r \<longleftrightarrow> (lr_status r = Reconciled \<or> lr_status r = Released)
     \<and> (case lr_resolvedAt r of None \<Rightarrow> False | Some t \<Rightarrow> t < cutoff)"

definition purge_reservations :: "int option \<Rightarrow> string list \<Rightarrow> ms \<Rightarrow> budget_db \<Rightarrow> budget_db \<times> nat" where
  "purge_reservations retentionDays scan now db =
     (let days = boundedDays retentionDays DEFAULT_BUDGET_RETENTION_DAYS;
          budgetCutoff = now - days * 24 * 60 * 60 * 1000
      in case deleteBatchedWhere (purgeable budgetCutoff) scan (ledger db) of
           (rows, n) \<Rightarrow> (db\<lparr>ledger := rows\<rparr>, n))"

section \<open>The reserve statement is a guarded counter\<close>

definition reserve_under_cap ::
  "int \<Rightarrow> string \<times> int \<Rightarrow> int \<Rightarrow> (string \<times> int, int) js_map \<Rightarrow> (string \<times> int, int) js_map \<times> bool" where
  "reserve_under_cap cap k n cs =
     (if n > cap then (cs, False)
      else case reserve_counter cap k n cs of (cs', r) \<Rightarrow> (cs', r \<noteq> None))"

definition count_at :: "('k, int) js_map \<Rightarrow> 'k \<Rightarrow> int" where
  "count_at cs k = (case js_get cs k of None \<Rightarrow> 0 | Some c \<Rightarrow> c)"

lemma count_at_set: "count_at (js_set k v cs) k' = (if k' = k then v else count_at cs k')"
  by (simp add: count_at_def map_laws)

interpretation day_counter: guarded_counter count_at reserve_under_cap "\<lambda>cs. \<forall>k. 0 \<le> count_at cs k"
proof
  fix cs cs' :: "(string \<times> int, int) js_map" and k k' :: "string \<times> int" and n cap :: int and ok
  assume wf: "\<forall>k. 0 \<le> count_at cs k"
  show "0 \<le> n \<Longrightarrow> reserve_under_cap cap k n cs = (cs', True)
      \<Longrightarrow> count_at cs' k = count_at cs k + n \<and> count_at cs' k \<le> cap"
    by (auto simp: reserve_under_cap_def reserve_counter_def count_at_set count_at_def[of cs]
        split: if_splits option.splits)
  show "0 \<le> n \<Longrightarrow> reserve_under_cap cap k n cs = (cs', False)
      \<Longrightarrow> count_at cs' k = count_at cs k \<and> cap < count_at cs k + n"
    using wf[rule_format, of k]
    by (auto simp: reserve_under_cap_def reserve_counter_def count_at_def split: if_splits option.splits)
  show "k' \<noteq> k \<Longrightarrow> reserve_under_cap cap k n cs = (cs', ok) \<Longrightarrow> count_at cs' k' = count_at cs k'"
    by (auto simp: reserve_under_cap_def reserve_counter_def count_at_set split: if_splits option.splits)
  show "0 \<le> n \<Longrightarrow> reserve_under_cap cap k n cs = (cs', ok) \<Longrightarrow> \<forall>k. 0 \<le> count_at cs' k"
  proof -
    have k: "js_get cs k = Some t \<Longrightarrow> 0 \<le> t" for t
      using wf[rule_format, of k] by (simp add: count_at_def)
    show "0 \<le> n \<Longrightarrow> reserve_under_cap cap k n cs = (cs', ok) \<Longrightarrow> \<forall>k. 0 \<le> count_at cs' k"
      using wf k by (auto simp: reserve_under_cap_def reserve_counter_def count_at_set
          split: if_splits option.splits)
  qed
qed

lemma counter_of_count: "counter_of db u d = count_at (counters db) (u, d)"
  by (simp add: counter_of_def count_at_def)

section \<open>The ledger balance\<close>

definition row_value :: "ledger_row \<Rightarrow> int" where
  "row_value r = (case lr_status r of
     Reserved \<Rightarrow> lr_reserved r
   | Reconciled \<Rightarrow> (case lr_actual r of None \<Rightarrow> 0 | Some a \<Rightarrow> a)
   | Released \<Rightarrow> 0)"

definition day_value :: "string \<Rightarrow> int \<Rightarrow> string \<times> ledger_row \<Rightarrow> int" where
  "day_value u d p = (if lr_user (snd p) = u \<and> lr_day (snd p) = d then row_value (snd p) else 0)"

definition ledger_total :: "budget_db \<Rightarrow> string \<Rightarrow> int \<Rightarrow> int" where
  "ledger_total db u d = sum_list (map (day_value u d) (ledger db))"

text \<open>Every row is non-negative and has a counter, and no counter is negative.\<close>

definition row_ok :: "budget_db \<Rightarrow> ledger_row \<Rightarrow> bool" where
  "row_ok db r \<longleftrightarrow> 0 \<le> lr_reserved r \<and> 0 \<le> row_value r
     \<and> js_get (counters db) (lr_user r, lr_day r) \<noteq> None"

definition budget_inv :: "budget_db \<Rightarrow> bool" where
  "budget_inv db \<longleftrightarrow> js_wf (ledger db) \<and> (\<forall>r\<in>snd ` set (ledger db). row_ok db r)
     \<and> (\<forall>u d. 0 \<le> counter_of db u d)"

lemma ledger_total_set:
  "sum_list (map (day_value u d) (js_set i r m))
     = sum_list (map (day_value u d) m)
       - (case js_get m i of None \<Rightarrow> 0 | Some q \<Rightarrow> day_value u d (i, q)) + day_value u d (i, r)"
  by (rule sum_list_js_set)

lemma day_value_nonneg: "budget_inv db \<Longrightarrow> p \<in> set (ledger db) \<Longrightarrow> 0 \<le> day_value u d p"
  by (auto simp: budget_inv_def row_ok_def day_value_def)

lemma row_ok_mono:
  assumes "row_ok db r" "\<And>k. js_get (counters db) k \<noteq> None \<Longrightarrow> js_get (counters db') k \<noteq> None"
  shows "row_ok db' r"
  using assms by (auto simp: row_ok_def)

lemma row_counter:
  assumes "budget_inv db" "js_get (ledger db) i = Some r"
  obtains tot where "js_get (counters db) (lr_user r, lr_day r) = Some tot" "0 \<le> lr_reserved r"
    "tot = counter_of db (lr_user r) (lr_day r)"
proof -
  have "(i, r) \<in> set (ledger db)"
    using assms by (simp add: budget_inv_def js_get_in_set)
  then have "row_ok db r"
    using assms(1) by (force simp: budget_inv_def)
  then show ?thesis
    using that by (auto simp: row_ok_def counter_of_def)
qed

text \<open>Settling a row: the row is replaced, and its day moves by the difference, never below zero.\<close>

definition row_settled :: "budget_db \<Rightarrow> string \<Rightarrow> ledger_row \<Rightarrow> ledger_row \<Rightarrow> budget_db \<Rightarrow> bool" where
  "row_settled db i r r' db' \<longleftrightarrow> budget_inv db' \<and> ledger db' = js_set i r' (ledger db)
     \<and> (\<forall>u d. counter_of db' u d = (if u = lr_user r \<and> d = lr_day r
          then max 0 (counter_of db u d - lr_reserved r + row_value r') else counter_of db u d))"

lemma row_settledI:
  assumes inv: "budget_inv db" and r: "js_get (ledger db) i = Some r"
    and r': "lr_user r' = lr_user r" "lr_day r' = lr_day r" "lr_reserved r' = lr_reserved r"
      "0 \<le> row_value r'"
    and db': "ledger db' = js_set i r' (ledger db)"
      "\<And>k. js_get (counters db') k = (if k = (lr_user r, lr_day r)
          then Some (max 0 (counter_of db (lr_user r) (lr_day r) - lr_reserved r + row_value r'))
          else js_get (counters db) k)"
  shows "row_settled db i r r' db'"
proof -
  have cnt: "counter_of db' u d = (if u = lr_user r \<and> d = lr_day r
      then max 0 (counter_of db u d - lr_reserved r + row_value r') else counter_of db u d)" for u d
    by (auto simp: counter_of_def db'(2))
  have res: "0 \<le> lr_reserved r"
    using row_counter[OF inv r] by blast
  have "row_ok db' q" if "q \<in> snd ` set (ledger db')" for q
  proof -
    have "q = r' \<or> q \<in> snd ` set (ledger db)"
      using that set_js_set[of i r' "ledger db"] db'(1) by auto
    moreover have "js_get (counters db) k \<noteq> None \<Longrightarrow> js_get (counters db') k \<noteq> None" for k
      using db'(2) by (cases k) auto
    ultimately show ?thesis
      using inv r' res db'(2) row_ok_mono by (auto simp: budget_inv_def row_ok_def)
  qed
  then show ?thesis
    using inv cnt by (simp add: row_settled_def budget_inv_def db'(1) inv_intros)
qed

lemma row_settled_total:
  assumes "row_settled db i r r' db'" "js_get (ledger db) i = Some r" "lr_status r = Reserved"
    "lr_user r' = lr_user r" "lr_day r' = lr_day r"
  shows "ledger_total db' u d = ledger_total db u d
    + (if u = lr_user r \<and> d = lr_day r then row_value r' - lr_reserved r else 0)"
  using assms by (simp add: row_settled_def ledger_total_def ledger_total_set day_value_def row_value_def)

definition open_row :: "budget_db \<Rightarrow> string \<Rightarrow> ledger_row \<Rightarrow> bool" where
  "open_row db i r \<longleftrightarrow> js_get (ledger db) i = Some r \<and> lr_status r = Reserved"

abbreviation reconciled_row :: "ledger_row \<Rightarrow> int \<Rightarrow> ms \<Rightarrow> ledger_row" where
  "reconciled_row r cents now \<equiv>
     r\<lparr>lr_actual := Some cents, lr_status := Reconciled, lr_resolvedAt := Some now\<rparr>"

abbreviation released_row :: "ledger_row \<Rightarrow> ms \<Rightarrow> ledger_row" where
  "released_row r now \<equiv> r\<lparr>lr_actual := Some 0, lr_status := Released, lr_resolvedAt := Some now\<rparr>"

lemma reconcile_open:
  assumes inv: "budget_inv db" and r: "open_row db i r"
  obtains db' where "reconcileBudgetReservation db i (Some a) now = Inr (db', True)"
    "row_settled db i r (reconciled_row r (max 0 (js_round (a * 100))) now) db'"
proof -
  note r = r[unfolded open_row_def]
  define c where "c = max 0 (js_round (a * 100))"
  obtain tot where tot: "js_get (counters db) (lr_user r, lr_day r) = Some tot" "0 \<le> lr_reserved r"
    "tot = counter_of db (lr_user r) (lr_day r)"
    using row_counter[OF inv] r by blast
  have nonneg: "0 \<le> tot"
    using inv tot(3) by (simp add: budget_inv_def)
  define db' where "db' = \<lparr>counters = (if c = lr_reserved r then counters db
      else js_set (lr_user r, lr_day r) (max 0 (tot + (c - lr_reserved r))) (counters db)),
    ledger = js_set i (reconciled_row r c now) (ledger db)\<rparr>"
  have run: "reconcileBudgetReservation db i (Some a) now = Inr (db', True)"
    using r tot by (simp add: reconcileBudgetReservation_def db'_def c_def Let_def)
  have "row_settled db i r (reconciled_row r c now) db'"
    by (rule row_settledI[OF inv])
      (use r tot nonneg in \<open>auto simp: db'_def c_def row_value_def map_laws algebra_simps\<close>)
  then show ?thesis
    using that run by (simp add: c_def)
qed

lemma release_open:
  assumes inv: "budget_inv db" and r: "open_row db i r"
  obtains db' where "releaseBudgetReservation db i now = Inr (db', True)"
    "row_settled db i r (released_row r now) db'"
proof -
  note r = r[unfolded open_row_def]
  obtain tot where tot: "js_get (counters db) (lr_user r, lr_day r) = Some tot" "0 \<le> lr_reserved r"
    "tot = counter_of db (lr_user r) (lr_day r)"
    using row_counter[OF inv] r by blast
  define db' where "db' = db\<lparr>counters := js_set (lr_user r, lr_day r) (max 0 (tot - lr_reserved r)) (counters db),
    ledger := js_set i (released_row r now) (ledger db)\<rparr>"
  have "releaseBudgetReservation db i now = Inr (db', True)"
    using r tot by (simp add: releaseBudgetReservation_def db'_def Let_def)
  moreover have "row_settled db i r (released_row r now) db'"
    by (rule row_settledI[OF inv]) (use r tot in \<open>auto simp: db'_def row_value_def map_laws\<close>)
  ultimately show ?thesis
    using that by blast
qed

lemma reconcile_closed:
  assumes "\<nexists>r. open_row db i r"
  shows "reconcileBudgetReservation db i (Some a) now = Inr (db, False)"
  using assms by (auto simp: reconcileBudgetReservation_def open_row_def Let_def split: option.splits)

lemma release_closed:
  assumes "\<nexists>r. open_row db i r"
  shows "releaseBudgetReservation db i now = Inr (db, False)"
  using assms by (auto simp: releaseBudgetReservation_def open_row_def Let_def split: option.splits)

lemma reconcile_none: "reconcileBudgetReservation db i None now = Inl Not_finite"
  by (simp add: reconcileBudgetReservation_def)

text \<open>A granted reservation, and the state it leaves.\<close>

definition new_row :: "string \<Rightarrow> int \<Rightarrow> ms \<Rightarrow> budget_correlation option \<Rightarrow> ledger_row" where
  "new_row u est now corr = \<lparr>lr_user = u, lr_day = utcDay now, lr_reserved = est, lr_actual = None,
     lr_status = Reserved, lr_createdAt = now, lr_resolvedAt = None, lr_corr = corr\<rparr>"

lemma reserve_cases:
  assumes "tryReserveBudget db u e c now corr i = Inr (db', r)"
  obtains (refused) "db' = db" "\<not> rr_ok r"
  | (granted) "e = Some (the e)" "rr_ok r" "rr_id r = Some i" "js_get (ledger db) i = None"
      "ledger db' = js_set i (new_row u (max 0 \<lceil>the e * 100\<rceil>) now corr) (ledger db)"
      "counters db' = js_set (u, utcDay now)
         (counter_of db u (utcDay now) + max 0 \<lceil>the e * 100\<rceil>) (counters db)"
proof (cases "rr_ok r")
  case True
  then show ?thesis
    using assms
    by (intro granted)
      (auto simp: tryReserveBudget_def reserve_counter_def new_row_def Let_def js_has_def
        counter_of_def split: option.splits if_splits)
next
  case False
  then have "db' = db"
    using assms by (auto simp: tryReserveBudget_def reserve_counter_def Let_def split: option.splits if_splits)
  then show ?thesis
    using False by (rule refused)
qed

lemma granted_effect:
  assumes inv: "budget_inv db" and fresh: "js_get (ledger db) i = None"
    and est: "0 \<le> est" and db': "ledger db' = js_set i (new_row u est now corr) (ledger db)"
      "counters db' = js_set (u, utcDay now) (counter_of db u (utcDay now) + est) (counters db)"
  shows "budget_inv db'"
    and "counter_of db' x d = counter_of db x d + (if x = u \<and> d = utcDay now then est else 0)"
    and "ledger_total db' x d = ledger_total db x d + (if x = u \<and> d = utcDay now then est else 0)"
proof -
  have cnt: "counter_of db' x d = counter_of db x d + (if x = u \<and> d = utcDay now then est else 0)" for x d
    by (simp add: counter_of_def db' map_laws)
  then show "counter_of db' x d = counter_of db x d + (if x = u \<and> d = utcDay now then est else 0)" .
  show "ledger_total db' x d = ledger_total db x d + (if x = u \<and> d = utcDay now then est else 0)"
    using fresh by (simp add: db' ledger_total_def ledger_total_set day_value_def new_row_def row_value_def)
  have "row_ok db' q" if "q \<in> snd ` set (ledger db')" for q
  proof -
    have "q = new_row u est now corr \<or> q \<in> snd ` set (ledger db)"
      using that set_js_set[of i "new_row u est now corr" "ledger db"] db'(1) by auto
    moreover have "js_get (counters db) k \<noteq> None \<Longrightarrow> js_get (counters db') k \<noteq> None" for k
      by (auto simp: db' map_laws)
    moreover have "row_ok db' (new_row u est now corr)"
      using est by (simp add: row_ok_def new_row_def row_value_def db' map_laws)
    ultimately show ?thesis
      using inv row_ok_mono by (auto simp: budget_inv_def)
  qed
  then show "budget_inv db'"
    using inv cnt est by (simp add: budget_inv_def db'(1) inv_intros)
qed

text \<open>A correction of the counter that no row records.\<close>

definition delta_cents :: "string \<Rightarrow> int \<Rightarrow> string \<Rightarrow> real option \<Rightarrow> ms \<Rightarrow> int" where
  "delta_cents u d userId deltaUsd now = (case deltaUsd of
     Some delta \<Rightarrow> if u = userId \<and> d = utcDay now then js_round (delta * 100) else 0
   | None \<Rightarrow> 0)"

lemma delta_effect:
  assumes "budget_inv db"
  shows "budget_inv (applyBudgetDelta db v x now)"
    and "ledger (applyBudgetDelta db v x now) = ledger db"
    and "counter_of (applyBudgetDelta db v x now) u d = max 0 (counter_of db u d + delta_cents u d v x now)"
proof -
  show led: "ledger (applyBudgetDelta db v x now) = ledger db"
    by (simp add: applyBudgetDelta_def Let_def split: option.splits)
  have pos: "0 \<le> counter_of db u d" for u d
    using assms by (simp add: budget_inv_def)
  show cnt: "counter_of (applyBudgetDelta db v x now) u d = max 0 (counter_of db u d + delta_cents u d v x now)"
    for u d
    using pos[of u d]
    by (auto simp: applyBudgetDelta_def delta_cents_def counter_of_def map_laws Let_def js_round_def
        split: option.splits)
  have keep: "js_get (counters db) k \<noteq> None \<Longrightarrow> js_get (counters (applyBudgetDelta db v x now)) k \<noteq> None" for k
    by (auto simp: applyBudgetDelta_def map_laws Let_def split: option.splits)
  show "budget_inv (applyBudgetDelta db v x now)"
    using assms row_ok_mono[OF _ keep] by (auto simp: budget_inv_def led cnt)
qed

text \<open>The purge takes rows that are settled, and leaves the counters alone.\<close>

lemma purge_effect:
  assumes "budget_inv db"
  shows "budget_inv (fst (purge_reservations n scan now db))"
    and "counter_of (fst (purge_reservations n scan now db)) u d = counter_of db u d"
    and "ledger_total (fst (purge_reservations n scan now db)) u d \<le> ledger_total db u d"
proof -
  define db' where "db' = fst (purge_reservations n scan now db)"
  obtain P where led: "ledger db' = filter P (ledger db)" and cs: "counters db' = counters db"
    by (auto simp: db'_def purge_reservations_def deleteBatchedWhere_def Let_def)
  show "counter_of (fst (purge_reservations n scan now db)) u d = counter_of db u d"
    by (simp add: counter_of_def cs flip: db'_def)
  show "budget_inv (fst (purge_reservations n scan now db))"
    unfolding db'_def[symmetric] using assms
    by (auto simp: budget_inv_def led cs counter_of_def row_ok_def inv_intros)
  have "sum_list (map f (filter P xs)) \<le> sum_list (map f xs)" if "\<forall>p\<in>set xs. (0::int) \<le> f p"
    for f and xs :: "(string \<times> ledger_row) list"
    using that by (induction xs) auto
  then show "ledger_total (fst (purge_reservations n scan now db)) u d \<le> ledger_total db u d"
    unfolding db'_def[symmetric] ledger_total_def led using day_value_nonneg[OF assms] by blast
qed

section \<open>Runs of the budget\<close>

text \<open>
  Everything that writes the two tables: the four ledger operations, the direct corrections of the
  counter (\<open>applyBudgetDelta\<close>, and \<open>reconcileBudget\<close> of the guard over it) and the purge. An
  operation that raises rolls back.
\<close>

datatype budget_event =
    Ev_reserve string "real option" "real option" ms "budget_correlation option" string
  | Ev_reconcile string "real option" ms
  | Ev_release string ms
  | Ev_recover ms int ms
  | Ev_delta string "real option" ms
  | Ev_guard_reconcile string real real ms
  | Ev_purge "int option" "string list" ms

definition committed :: "budget_db \<Rightarrow> budget_error + budget_db \<times> 'r \<Rightarrow> budget_db" where
  "committed db res = (case res of Inl _ \<Rightarrow> db | Inr (db', _) \<Rightarrow> db')"

fun budget_exec :: "budget_event \<Rightarrow> budget_db \<Rightarrow> budget_db" where
  "budget_exec (Ev_reserve u e c now corr i) db = committed db (tryReserveBudget db u e c now corr i)"
| "budget_exec (Ev_reconcile i a now) db = committed db (reconcileBudgetReservation db i a now)"
| "budget_exec (Ev_release i now) db = committed db (releaseBudgetReservation db i now)"
| "budget_exec (Ev_recover cutoff limit now) db = fst (recoverStaleBudgetReservations db cutoff limit now)"
| "budget_exec (Ev_delta u x now) db = applyBudgetDelta db u x now"
| "budget_exec (Ev_guard_reconcile u a r now) db = reconcileBudget db u a r now"
| "budget_exec (Ev_purge n scan now) db = fst (purge_reservations n scan now db)"

fun budget_run :: "budget_event list \<Rightarrow> budget_db \<Rightarrow> budget_db" where
  "budget_run [] db = db"
| "budget_run (e # es) db = budget_run es (budget_exec e db)"

text \<open>The books of a user's day: the cents of direct corrections, and the cents of purged rows.\<close>

fun direct_cents :: "string \<Rightarrow> int \<Rightarrow> budget_event \<Rightarrow> int" where
  "direct_cents u d (Ev_delta v x now) = delta_cents u d v x now"
| "direct_cents u d (Ev_guard_reconcile v a r now) =
     (if \<bar>a - r\<bar> < 0.0001 then 0 else delta_cents u d v (Some (a - r)) now)"
| "direct_cents u d _ = 0"

fun purged_cents :: "string \<Rightarrow> int \<Rightarrow> budget_event list \<Rightarrow> budget_db \<Rightarrow> int" where
  "purged_cents u d [] db = 0"
| "purged_cents u d (e # es) db =
     (case e of Ev_purge _ _ _ \<Rightarrow> ledger_total db u d - ledger_total (budget_exec e db) u d | _ \<Rightarrow> 0)
     + purged_cents u d es (budget_exec e db)"

text \<open>
  One event: the invariant stays, and the counter of a day moves as its rows, the rows purged and
  the direct correction do, but not below zero.
\<close>

definition tracks :: "budget_db \<Rightarrow> budget_db \<Rightarrow> string \<Rightarrow> int \<Rightarrow> int \<Rightarrow> bool" where
  "tracks db db' u d extra \<longleftrightarrow>
     (let moved = ledger_total db' u d - ledger_total db u d + extra
      in counter_of db' u d = max 0 (counter_of db u d + moved))"

lemma row_settled_tracks:
  assumes "budget_inv db" "row_settled db i r r' db'" "open_row db i r"
    "lr_user r' = lr_user r" "lr_day r' = lr_day r"
  shows "tracks db db' u d 0"
  using assms row_settled_total[OF assms(2), of u d]
  by (auto simp: tracks_def row_settled_def open_row_def budget_inv_def)

lemma tracks_refl: "budget_inv db \<Longrightarrow> tracks db db u d 0"
  by (simp add: tracks_def budget_inv_def)

lemma release_tracks:
  assumes "budget_inv db"
  shows "\<exists>db' b. releaseBudgetReservation db i now = Inr (db', b) \<and> budget_inv db' \<and> tracks db db' u d 0
    \<and> (b \<longleftrightarrow> (\<exists>r. open_row db i r))
    \<and> (\<forall>r. open_row db i r \<longrightarrow> ledger db' = js_set i (released_row r now) (ledger db))"
proof (cases "\<exists>r. open_row db i r")
  case True
  then obtain r where r: "open_row db i r"
    by blast
  obtain db' where "releaseBudgetReservation db i now = Inr (db', True)"
    and st: "row_settled db i r (released_row r now) db'"
    using release_open[OF assms r] .
  moreover have uniq: "open_row db i q \<longleftrightarrow> q = r" for q
    using r by (auto simp: open_row_def)
  moreover have "budget_inv db'" "ledger db' = js_set i (released_row r now) (ledger db)"
    using st by (simp_all only: row_settled_def)
  moreover have "tracks db db' u d 0"
    by (rule row_settled_tracks[OF assms st r]) simp_all
  ultimately show ?thesis
    by (intro exI[of _ db'] exI[of _ True]) simp
next
  case False
  then show ?thesis
    using release_closed[OF False] tracks_refl[OF assms] assms by auto
qed

lemma reconcile_tracks:
  assumes "budget_inv db"
  shows "\<exists>db' b. reconcileBudgetReservation db i (Some a) now = Inr (db', b) \<and> budget_inv db'
    \<and> tracks db db' u d 0"
proof (cases "\<exists>r. open_row db i r")
  case True
  then obtain r where r: "open_row db i r"
    by blast
  obtain db' where "reconcileBudgetReservation db i (Some a) now = Inr (db', True)"
    and st: "row_settled db i r (reconciled_row r (max 0 (js_round (a * 100))) now) db'"
    using reconcile_open[OF assms r] .
  then show ?thesis
    using row_settled_tracks[OF assms st r] by (auto simp: row_settled_def)
next
  case False
  then show ?thesis
    using reconcile_closed[OF False] tracks_refl[OF assms] assms by auto
qed

text \<open>
  The books \<open>x\<close> of a day besides its rows: the counter never falls below rows and books together,
  and meets them exactly as long as nothing (\<open>exact\<close>) was corrected downwards.
\<close>

definition books :: "bool \<Rightarrow> budget_db \<Rightarrow> string \<Rightarrow> int \<Rightarrow> int \<Rightarrow> bool" where
  "books exact db u d x \<longleftrightarrow> budget_inv db \<and> ledger_total db u d + x \<le> counter_of db u d
     \<and> (exact \<longrightarrow> 0 \<le> x \<and> counter_of db u d = ledger_total db u d + x)"

lemma total_nonneg: "budget_inv db \<Longrightarrow> 0 \<le> ledger_total db u d"
  using day_value_nonneg by (fastforce simp: ledger_total_def intro: sum_list_nonneg)

lemma books_tracks:
  assumes "books exact db u d x" "budget_inv db'" "tracks db db' u d extra" "exact \<longrightarrow> 0 \<le> extra"
  shows "books exact db' u d (x + extra)"
  using assms total_nonneg[OF assms(2), of u d] by (auto simp: books_def tracks_def)

lemma recover_foldl_books:
  "budget_inv db \<Longrightarrow> foldl (recover_step now) (db, a, b) rows = (db', a', b')
    \<Longrightarrow> budget_inv db' \<and> b' = b \<and> (books exact db u d x \<longrightarrow> books exact db' u d x)"
proof (induction rows arbitrary: db a b)
  case Nil
  then show ?case by simp
next
  case (Cons i rows)
  obtain db1 dn where r: "releaseBudgetReservation db i now = Inr (db1, dn)" "budget_inv db1"
    "tracks db db1 u d 0"
    using release_tracks[OF Cons.prems(1)] by blast
  then have "books exact db u d x \<Longrightarrow> books exact db1 u d x"
    using books_tracks[of exact db u d x db1 0] by simp
  then show ?case
    using Cons.IH[OF r(2)] Cons.prems(2) r(1) by (cases dn) (simp_all add: recover_step_def)
qed

lemma reserve_books:
  assumes "books exact db u d x"
  shows "books exact (committed db (tryReserveBudget db v e c now corr i)) u d x"
proof (cases "tryReserveBudget db v e c now corr i")
  case (Inr p)
  obtain db' r where p: "p = (db', r)"
    by fastforce
  have inv: "budget_inv db"
    using assms by (simp add: books_def)
  from Inr[unfolded p] show ?thesis
  proof (cases rule: reserve_cases)
    case refused
    then show ?thesis
      using assms Inr p by (simp add: committed_def)
  next
    case granted
    note eff = granted_effect[OF inv granted(4) _ granted(5,6)]
    show ?thesis
      using assms eff Inr p by (auto simp: books_def committed_def)
  qed
qed (use assms in \<open>simp add: committed_def\<close>)

lemma delta_books:
  assumes "books exact db u d x" "exact \<longrightarrow> 0 \<le> delta_cents u d v y now"
  shows "books exact (applyBudgetDelta db v y now) u d (x + delta_cents u d v y now)"
proof -
  have inv: "budget_inv db"
    using assms by (simp add: books_def)
  note eff = delta_effect[OF inv, of v y now]
  have "tracks db (applyBudgetDelta db v y now) u d (delta_cents u d v y now)"
    using eff(2,3) by (simp add: tracks_def ledger_total_def)
  then show ?thesis
    using books_tracks[OF assms(1) eff(1) _ assms(2)] by blast
qed

lemma exec_books:
  assumes "books exact db u d x" "exact \<longrightarrow> 0 \<le> direct_cents u d ev"
  shows "books exact (budget_exec ev db) u d
    (x + direct_cents u d ev + purged_cents u d [ev] db)"
proof -
  have inv: "budget_inv db"
    using assms by (simp add: books_def)
  show ?thesis
  proof (cases ev)
    case (Ev_reserve v e c now corr i)
    then show ?thesis using reserve_books[OF assms(1)] by simp
  next
    case (Ev_reconcile i a now)
    have "books exact (budget_exec ev db) u d x"
    proof (cases a)
      case None
      then show ?thesis using Ev_reconcile assms(1) by (simp add: reconcile_none committed_def)
    next
      case (Some y)
      then show ?thesis
        using Ev_reconcile reconcile_tracks[OF inv, of i y now u d] books_tracks[OF assms(1), of _ 0]
        by (auto simp: committed_def)
    qed
    then show ?thesis using Ev_reconcile by simp
  next
    case (Ev_release i now)
    then show ?thesis
      using release_tracks[OF inv, of i now u d] books_tracks[OF assms(1), of _ 0]
      by (auto simp: committed_def)
  next
    case (Ev_recover cutoff limit now)
    then show ?thesis
      using recover_foldl_books[OF inv] assms(1)
      by (fastforce simp: recoverStaleBudgetReservations_def Let_def split: prod.splits)
  next
    case (Ev_delta v y now)
    then show ?thesis using delta_books[OF assms(1)] assms(2) by simp
  next
    case (Ev_guard_reconcile v a r now)
    then show ?thesis
      using delta_books[OF assms(1), of v "Some (a - r)" now] assms
      by (cases "\<bar>a - r\<bar> < 0.0001") (simp_all add: reconcileBudget_def Let_def)
  next
    case (Ev_purge n scan now)
    then show ?thesis
      using purge_effect[OF inv, of n scan now] assms(1) by (auto simp: books_def)
  qed
qed

lemma run_books:
  assumes "books exact db u d x" "exact \<longrightarrow> (\<forall>ev\<in>set evs. 0 \<le> direct_cents u d ev)"
  shows "books exact (budget_run evs db) u d
    (x + sum_list (map (direct_cents u d) evs) + purged_cents u d evs db)"
  using assms
proof (induction evs arbitrary: db x)
  case (Cons ev evs)
  have "books exact (budget_exec ev db) u d (x + direct_cents u d ev + purged_cents u d [ev] db)"
    by (rule exec_books) (use Cons.prems in auto)
  then have "books exact (budget_run evs (budget_exec ev db)) u d
      (x + direct_cents u d ev + purged_cents u d [ev] db + sum_list (map (direct_cents u d) evs)
       + purged_cents u d evs (budget_exec ev db))"
    by (rule Cons.IH) (use Cons.prems in auto)
  then show ?case
    by (simp add: algebra_simps)
qed simp

section \<open>Reachable states\<close>

text \<open>Every one of these writes, with any arguments and at any time, is a step.\<close>

inductive budget_step :: "budget_db \<Rightarrow> budget_db \<Rightarrow> bool" where
  reserve: "tryReserveBudget db u e c now corr i = Inr (db', r) \<Longrightarrow> budget_step db db'"
| reconcile: "reconcileBudgetReservation db i a now = Inr (db', b) \<Longrightarrow> budget_step db db'"
| release: "releaseBudgetReservation db i now = Inr (db', b) \<Longrightarrow> budget_step db db'"
| recover: "recoverStaleBudgetReservations db cutoff limit now = (db', rep) \<Longrightarrow> budget_step db db'"
| delta: "budget_step db (applyBudgetDelta db u x now)"
| guard: "budget_step db (reconcileBudget db u a s now)"
| purge: "purge_reservations n scan now db = (db', k) \<Longrightarrow> budget_step db db'"

definition empty_db :: budget_db where
  "empty_db = \<lparr>counters = [], ledger = []\<rparr>"

lemma empty_books: "books exact empty_db u d 0"
  by (simp add: books_def budget_inv_def empty_db_def counter_of_def ledger_total_def)

lemma step_exec: "budget_step db db' \<Longrightarrow> \<exists>ev. db' = budget_exec ev db"
proof (induction rule: budget_step.induct)
  case (reserve db u e c now corr i db' r)
  then show ?case by (intro exI[of _ "Ev_reserve u e c now corr i"]) (simp add: committed_def)
next
  case (reconcile db i a now db' b)
  then show ?case by (intro exI[of _ "Ev_reconcile i a now"]) (simp add: committed_def)
next
  case (release db i now db' b)
  then show ?case by (intro exI[of _ "Ev_release i now"]) (simp add: committed_def)
next
  case (recover db cutoff limit now db' rep)
  then show ?case by (intro exI[of _ "Ev_recover cutoff limit now"]) simp
next
  case (delta db u x now)
  then show ?case by (intro exI[of _ "Ev_delta u x now"]) simp
next
  case (guard db u a s now)
  then show ?case by (intro exI[of _ "Ev_guard_reconcile u a s now"]) simp
next
  case (purge n scan now db db' k)
  then show ?case by (intro exI[of _ "Ev_purge n scan now"]) simp
qed

lemma exec_inv:
  assumes "budget_inv db"
  shows "budget_inv (budget_exec ev db)"
proof -
  have "books False db ''u'' 0 (counter_of db ''u'' 0 - ledger_total db ''u'' 0)"
    using assms by (simp add: books_def)
  from exec_books[OF this, of ev] show ?thesis
    by (simp add: books_def)
qed

lemma step_inv: "budget_step db db' \<Longrightarrow> budget_inv db \<Longrightarrow> budget_inv db'"
  using step_exec exec_inv by blast

lemma reachable_inv: "budget_step\<^sup>*\<^sup>* empty_db db \<Longrightarrow> budget_inv db"
  by (induction rule: rtranclp_induct)
    (use empty_books in \<open>auto simp: books_def intro: step_inv\<close>)

section \<open>Properties\<close>

text \<open>
  C1: the books balance over every sequence of the writes of the two tables (reservations,
  settlements, stale recovery, the guard's \<open>reconcileBudget\<close>, direct corrections of the counter,
  and the retention purge) at any times and with any arguments, from an empty database. A user's
  counter of a day never falls below, and so never lets more be spent than, the sum of the day's
  rows (the reserved amount while open, the actual cost once reconciled, nothing once released),
  the rows purged since and the direct corrections; it is exactly that sum as long as no direct
  correction of that day was downwards. It is never negative, and no settlement of a reservation
  fails for a missing counter.
\<close>

theorem budget_balance:
  fixes evs u d
  defines "db \<equiv> budget_run evs empty_db"
  defines "books_total \<equiv> sum_list (map (day_value u d) (ledger db))
    + purged_cents u d evs empty_db + sum_list (map (direct_cents u d) evs)"
  shows "books_total \<le> counter_of db u d \<and> 0 \<le> counter_of db u d
    \<and> ((\<forall>ev\<in>set evs. 0 \<le> direct_cents u d ev) \<longrightarrow> counter_of db u d = books_total)
    \<and> releaseBudgetReservation db i now \<noteq> Inl Counter_missing
    \<and> reconcileBudgetReservation db i (Some x) now \<noteq> Inl Counter_missing"
proof -
  have b: "books q db u d (sum_list (map (direct_cents u d) evs) + purged_cents u d evs empty_db)"
    if "q \<longrightarrow> (\<forall>ev\<in>set evs. 0 \<le> direct_cents u d ev)" for q
    using run_books[OF empty_books that] by (simp add: db_def)
  then have inv: "budget_inv db"
    by (auto simp: books_def)
  then have "0 \<le> counter_of db u d" "books_total \<le> counter_of db u d"
    using b[of False] by (simp_all add: budget_inv_def books_def ledger_total_def books_total_def)
  moreover have "counter_of db u d = books_total" if "\<forall>ev\<in>set evs. 0 \<le> direct_cents u d ev"
    using b[of True] that by (simp add: books_def ledger_total_def books_total_def)
  ultimately show ?thesis
    using release_tracks[OF inv, of i now u d] reconcile_tracks[OF inv, of i x now u d] by auto
qed

lemma example_reserve:
  "tryReserveBudget empty_db ''u'' (Some 0.01) (Some 5) 0 None ''r1''
     = Inr (\<lparr>counters = [((''u'', 0), 1)], ledger = [(''r1'', \<lparr>lr_user = ''u'', lr_day = 0,
         lr_reserved = 1, lr_actual = None, lr_status = Reserved, lr_createdAt = 0, lr_resolvedAt = None,
         lr_corr = None\<rparr>)]\<rparr>, \<lparr>rr_ok = True, rr_spent = 1 / 100, rr_max = 5, rr_id = Some ''r1''\<rparr>)"
  by (simp add: tryReserveBudget_def reserve_counter_def empty_db_def utcDay_def js_has_def Let_def)

text \<open>
  A turn of three cents is settled, another one is left open, the counter is corrected by two cents,
  and the settled row is purged: six cents, of which one is still in a row.
\<close>

definition example_events :: "budget_event list" where
  "example_events =
     [Ev_reserve ''u'' (Some 0.01) (Some 5) 0 None ''r1'', Ev_reconcile ''r1'' (Some 0.03) 1,
      Ev_reserve ''u'' (Some 0.01) (Some 5) 2 None ''r2'', Ev_guard_reconcile ''u'' 0.03 0.01 3,
      Ev_purge (Some 1) [''r1'', ''r2''] 90000000]"

theorem budget_balance_witness:
  "counter_of (budget_run example_events empty_db) ''u'' 0 = 6
   \<and> ledger_total (budget_run example_events empty_db) ''u'' 0 = 1
   \<and> purged_cents ''u'' 0 example_events empty_db = 3"
proof -
  note evals = example_events_def empty_db_def tryReserveBudget_def reserve_counter_def utcDay_def js_has_def
    Let_def committed_def reconcileBudgetReservation_def js_round_def reconcileBudget_def
    applyBudgetDelta_def purge_reservations_def boundedDays_def MAX_RETENTION_DAYS_def
    deleteBatchedWhere_def BATCH_SIZE_def purgeable_def ledger_total_def day_value_def row_value_def
    delta_cents_def
  have run: "ledger_total (budget_run example_events empty_db) ''u'' 0 = 1"
    "purged_cents ''u'' 0 example_events empty_db = 3"
    "map (direct_cents ''u'' 0) example_events = [0, 0, 0, 2, 0]"
    by (simp_all add: evals)
  moreover have "\<forall>ev\<in>set example_events. 0 \<le> direct_cents ''u'' 0 ev"
    by (simp add: evals)
  ultimately show ?thesis
    using budget_balance[of "''u''" 0 example_events "''r1''" 0 0] by (simp add: ledger_total_def)
qed

text \<open>A run of requests against one user and cap, with the cents granted.\<close>

fun reserve_all ::
  "string \<Rightarrow> ms \<Rightarrow> real \<Rightarrow> (real \<times> string) list \<Rightarrow> budget_db \<Rightarrow> int \<Rightarrow> budget_db \<times> int" where
  "reserve_all u now cap [] db granted = (db, granted)"
| "reserve_all u now cap ((e, i) # rest) db granted =
     (case tryReserveBudget db u (Some e) (Some cap) now None i of
        Inl _ \<Rightarrow> reserve_all u now cap rest db granted
      | Inr (db', r) \<Rightarrow> reserve_all u now cap rest db'
          (if rr_ok r then granted + max 0 \<lceil>e * 100\<rceil> else granted))"

lemma tryReserve_counter:
  assumes "tryReserveBudget db u (Some e) (Some c) now corr i = Inr (db', r)"
  shows "reserve_under_cap (max 0 \<lceil>c * 100\<rceil>) (u, utcDay now) (max 0 \<lceil>e * 100\<rceil>) (counters db)
    = (counters db', rr_ok r)"
  using assms
  by (auto simp: tryReserveBudget_def reserve_under_cap_def reserve_counter_def Let_def
      split: option.splits if_splits prod.splits)

lemma reserve_all_balance:
  assumes "\<forall>k. 0 \<le> count_at (counters db) k" "reserve_all u now cap reqs db g = (db', g')"
  shows "counter_of db' u (utcDay now) = counter_of db u (utcDay now) + (g' - g)
    \<and> counter_of db' u (utcDay now) \<le> max (counter_of db u (utcDay now)) (max 0 \<lceil>cap * 100\<rceil>)"
  using assms
proof (induction u now cap reqs db g rule: reserve_all.induct)
  case (1 u now cap db granted)
  then show ?case by simp
next
  case (2 u now cap e i rest db granted)
  show ?case
  proof (cases "tryReserveBudget db u (Some e) (Some cap) now None i")
    case (Inl err)
    then show ?thesis using "2.IH"(1)[OF Inl] "2.prems" by simp
  next
    case (Inr p)
    obtain db1 r where p: "p = (db1, r)"
      by fastforce
    note run = tryReserve_counter[OF Inr[unfolded p]]
    have wf: "\<forall>k. 0 \<le> count_at (counters db1) k"
      by (rule day_counter.wf_reserve[OF "2.prems"(1) _ run]) simp
    have rest: "reserve_all u now cap rest db1 (if rr_ok r then granted + max 0 \<lceil>e * 100\<rceil> else granted)
        = (db', g')"
      using "2.prems"(2) Inr p by simp
    note IH = "2.IH"(2)[OF Inr p[symmetric] wf rest]
    show ?thesis
    proof (cases "rr_ok r")
      case True
      have run': "reserve_under_cap (max 0 \<lceil>cap * 100\<rceil>) (u, utcDay now) (max 0 \<lceil>e * 100\<rceil>) (counters db)
          = (counters db1, True)"
        using run True by simp
      show ?thesis
        using day_counter.granted[OF "2.prems"(1) _ run'] IH True unfolding counter_of_count
        by (auto simp: max_def split: if_splits)
    next
      case False
      have run': "reserve_under_cap (max 0 \<lceil>cap * 100\<rceil>) (u, utcDay now) (max 0 \<lceil>e * 100\<rceil>) (counters db)
          = (counters db1, False)"
        using run False by simp
      show ?thesis
        using day_counter.refused[OF "2.prems"(1) _ run'] IH False unfolding counter_of_count by simp
    qed
  qed
qed

text \<open>
  C18: reserving never exceeds the cap. A run of requests of any (dollar) sizes for one user on one
  day, all under one finite cap, against a database without earlier spend: what was granted in
  total is what the counter shows, and it is at most the cap in cents, rounded up.
\<close>

theorem reserve_within_cap:
  assumes "reserve_all u now cap reqs empty_db 0 = (db, granted)"
  shows "counter_of db u (utcDay now) = granted \<and> granted \<le> max 0 \<lceil>cap * 100\<rceil>"
  using reserve_all_balance[OF _ assms] by (simp add: empty_db_def counter_of_def count_at_def)

text \<open>Three requests of one cent under a cap of two.\<close>

theorem reserve_within_cap_witness:
  "snd (reserve_all ''u'' 0 0.02 [(0.01, ''a''), (0.01, ''b''), (0.01, ''c'')] empty_db 0) = 2
   \<and> snd (reserve_all ''u'' 0 0.02 [(0.01, ''a''), (0.01, ''b''), (0.01, ''c'')] empty_db 0)
       \<le> max 0 \<lceil>0.02 * 100 :: real\<rceil>"
proof -
  let ?r = "reserve_all ''u'' 0 0.02 [(0.01, ''a''), (0.01, ''b''), (0.01, ''c'')] empty_db 0"
  have "snd ?r = 2"
    by (simp add: tryReserveBudget_def reserve_counter_def empty_db_def utcDay_def js_has_def Let_def)
  then show ?thesis
    using reserve_within_cap[of "''u''" 0 "0.02" _ "fst ?r" "snd ?r"] by simp
qed

section \<open>The handle resolves once\<close>

datatype handle_op = Op_reconcile bool real ms | Op_release bool ms

fun handle_apply :: "handle_op \<Rightarrow> budget_db \<times> budget_handle \<Rightarrow> budget_db \<times> budget_handle" where
  "handle_apply (Op_reconcile up x now) = handle_reconcile up x now"
| "handle_apply (Op_release up now) = handle_release up now"

fun op_up :: "handle_op \<Rightarrow> bool" where
  "op_up (Op_reconcile up x now) = up"
| "op_up (Op_release up now) = up"

text \<open>What the ledger row is worth, in cents, after the operation resolved it.\<close>

fun op_value :: "handle_op \<Rightarrow> int" where
  "op_value (Op_reconcile up x now) = max 0 (js_round (x * 100))"
| "op_value (Op_release up now) = 0"

lemma handle_down: "\<not> op_up p \<Longrightarrow> handle_apply p = id"
  by (cases p) (auto simp: handle_reconcile_def handle_release_def split: prod.splits)

lemma handle_closed: "bh_released h \<Longrightarrow> foldl (\<lambda>s p. handle_apply p s) (db, h) ops = (db, h)"
proof (induction ops)
  case (Cons p ops)
  then show ?case
    by (cases p) (simp_all add: handle_reconcile_def handle_release_def)
qed simp

lemma handle_apply_open:
  assumes inv: "budget_inv db" and r: "open_row db i r"
    and h: "bh_id h = Some i" "\<not> bh_released h" and up: "op_up p"
    and room: "lr_reserved r \<le> counter_of db (lr_user r) (lr_day r)"
  obtains db' where "handle_apply p (db, h) = (db', h\<lparr>bh_released := True\<rparr>)"
    "\<And>u d. counter_of db' u d = counter_of db u d
        + (if (u, d) = (lr_user r, lr_day r) then op_value p - lr_reserved r else 0)"
proof (cases p)
  case (Op_reconcile b x now)
  obtain db' where run: "reconcileBudgetReservation db i (Some x) now = Inr (db', True)"
    and st: "row_settled db i r (reconciled_row r (max 0 (js_round (x * 100))) now) db'"
    using reconcile_open[OF inv r] .
  have "handle_apply p (db, h) = (db', h\<lparr>bh_released := True\<rparr>)"
    using Op_reconcile up h run by (simp add: handle_reconcile_def)
  then show ?thesis
    using that st room Op_reconcile by (auto simp: row_settled_def row_value_def)
next
  case (Op_release b now)
  obtain db' where run: "releaseBudgetReservation db i now = Inr (db', True)"
    and st: "row_settled db i r (released_row r now) db'"
    using release_open[OF inv r] .
  have "handle_apply p (db, h) = (db', h\<lparr>bh_released := True\<rparr>)"
    using Op_release up h run by (simp add: handle_release_def)
  then show ?thesis
    using that st room Op_release by (auto simp: row_settled_def row_value_def)
qed

lemma handle_ops:
  assumes inv: "budget_inv db" and r: "open_row db i r"
    and h: "bh_id h = Some i" "\<not> bh_released h"
    and room: "lr_reserved r \<le> counter_of db (lr_user r) (lr_day r)"
  shows "case List.find op_up ops of
      None \<Rightarrow> foldl (\<lambda>s p. handle_apply p s) (db, h) ops = (db, h)
    | Some p \<Rightarrow> \<exists>db'. foldl (\<lambda>s p. handle_apply p s) (db, h) ops = (db', h\<lparr>bh_released := True\<rparr>)
        \<and> (\<forall>u d. counter_of db' u d = counter_of db u d
             + (if (u, d) = (lr_user r, lr_day r) then op_value p - lr_reserved r else 0))"
proof (induction ops)
  case Nil
  then show ?case by simp
next
  case (Cons p ops)
  show ?case
  proof (cases "op_up p")
    case True
    obtain db' where "handle_apply p (db, h) = (db', h\<lparr>bh_released := True\<rparr>)"
      "\<And>u d. counter_of db' u d = counter_of db u d
          + (if (u, d) = (lr_user r, lr_day r) then op_value p - lr_reserved r else 0)"
      using handle_apply_open[OF inv r h True room] by blast
    then show ?thesis
      using True handle_closed by simp
  next
    case False
    then have "List.find op_up (p # ops) = List.find op_up ops"
      "foldl (\<lambda>s p. handle_apply p s) (db, h) (p # ops) = foldl (\<lambda>s p. handle_apply p s) (db, h) ops"
      using handle_down[OF False] by simp_all
    then show ?thesis
      using Cons by (simp only:)
  qed
qed

lemma reserve_turn_open:
  assumes "budget_inv db" "reserveTurnBudget db u est cap corr now i = Inr (db1, h)"
  obtains r where "budget_inv db1" "open_row db1 i r" "bh_id h = Some i" "\<not> bh_released h" "lr_user r = u" "lr_day r = utcDay now"
    "lr_reserved r = max 0 \<lceil>(case est of None \<Rightarrow> DEFAULT_TURN_ESTIMATE_USD | Some e \<Rightarrow> e) * 100\<rceil>"
    "\<forall>v d. counter_of db1 v d = counter_of db v d
        + (if (v, d) = (u, utcDay now) then lr_reserved r else 0)"
proof -
  define e where "e = (case est of None \<Rightarrow> DEFAULT_TURN_ESTIMATE_USD | Some e \<Rightarrow> e)"
  obtain rr where run: "tryReserveBudget db u (Some e) cap now corr i = Inr (db1, rr)" "rr_ok rr"
    and h: "h = \<lparr>bh_user = u, bh_reservedUsd = e, bh_spent = rr_spent rr, bh_max = rr_max rr,
      bh_id = rr_id rr, bh_released = False\<rparr>"
    using assms(2) by (auto simp: reserveTurnBudget_def e_def Let_def split: sum.splits if_splits)
  from run(1) show ?thesis
  proof (cases rule: reserve_cases)
    case refused
    then show ?thesis
      using run(2) by simp
  next
    case granted
    note eff = granted_effect[OF assms(1) granted(4) _ granted(5,6)]
    have row: "js_get (ledger db1) i = Some (new_row u (max 0 \<lceil>e * 100\<rceil>) now corr)"
      using granted(5) by (simp add: map_laws)
    show ?thesis
      by (rule that[of "new_row u (max 0 \<lceil>e * 100\<rceil>) now corr"])
        (use row eff granted(3) in \<open>simp_all add: h e_def new_row_def open_row_def\<close>)
  qed
qed

text \<open>
  C2: a turn's reservation is settled exactly once. However often the terminal callbacks of the
  turn (reconcile with an observed cost, release) run, and whichever of these calls the database
  fails, the day's counter ends at its value before the turn plus the value of the first call that
  reached the database (the observed cost in cents, or nothing for a release); if none did, the
  reservation stays open with the handle unreleased.
\<close>

theorem handle_exactly_once:
  assumes "budget_step\<^sup>*\<^sup>* empty_db db" "reserveTurnBudget db u est cap corr now i = Inr (db1, h)"
  shows "case List.find op_up ops of
      None \<Rightarrow> foldl (\<lambda>s p. handle_apply p s) (db1, h) ops = (db1, h) \<and> \<not> bh_released h
    | Some p \<Rightarrow> (case foldl (\<lambda>s p. handle_apply p s) (db1, h) ops of (db2, h2) \<Rightarrow>
        bh_released h2
        \<and> counter_of db2 u (utcDay now) = counter_of db u (utcDay now) + op_value p)"
proof -
  note inv = reachable_inv[OF assms(1)]
  obtain r where r: "budget_inv db1" "open_row db1 i r"
    "bh_id h = Some i" "\<not> bh_released h" "lr_user r = u" "lr_day r = utcDay now"
    "lr_reserved r = max 0 \<lceil>(case est of None \<Rightarrow> DEFAULT_TURN_ESTIMATE_USD | Some e \<Rightarrow> e) * 100\<rceil>"
    and c: "\<forall>v d. counter_of db1 v d = counter_of db v d
        + (if (v, d) = (u, utcDay now) then lr_reserved r else 0)"
    using reserve_turn_open[OF inv assms(2)] .
  have now: "counter_of db1 u (utcDay now) = counter_of db u (utcDay now) + lr_reserved r"
    using c by simp
  then have "lr_reserved r \<le> counter_of db1 (lr_user r) (lr_day r)"
    using inv r(5,6) by (simp add: budget_inv_def)
  with r now show ?thesis
    using handle_ops[OF r(1-4), of ops] by (auto split: option.splits)
qed

theorem handle_exactly_once_witness:
  "\<exists>db1 h. reserveTurnBudget empty_db ''u'' None (Some 5) None 0 ''r1'' = Inr (db1, h)
     \<and> (case foldl (\<lambda>s p. handle_apply p s) (db1, h)
           [Op_release False 1, Op_reconcile True 0.03 2, Op_release True 3] of
          (db2, h2) \<Rightarrow> bh_released h2 \<and> counter_of db2 ''u'' 0 = 3)"
proof -
  obtain db1 h where run: "reserveTurnBudget empty_db ''u'' None (Some 5) None 0 ''r1'' = Inr (db1, h)"
    using example_reserve by (simp add: reserveTurnBudget_def DEFAULT_TURN_ESTIMATE_USD_def Let_def)
  show ?thesis
    using handle_exactly_once[OF rtranclp.rtrancl_refl run,
        of "[Op_release False 1, Op_reconcile True 0.03 2, Op_release True 3]"] run
    by (simp add: utcDay_def counter_of_def empty_db_def js_round_def)
qed

section \<open>Stale recovery\<close>

definition stale :: "budget_db \<Rightarrow> ms \<Rightarrow> string \<Rightarrow> bool" where
  "stale db cutoff i \<longleftrightarrow> (case js_get (ledger db) i of None \<Rightarrow> False
     | Some r \<Rightarrow> lr_status r = Reserved \<and> lr_createdAt r < cutoff)"

lemma stale_ids_spec:
  assumes "js_wf (ledger db)"
  shows "distinct (stale_ids db cutoff limit) \<and> set (stale_ids db cutoff limit) \<subseteq> {i. stale db cutoff i}
    \<and> (int (card {i. stale db cutoff i}) \<le> max 1 (min 500 limit)
        \<longrightarrow> set (stale_ids db cutoff limit) = {i. stale db cutoff i})"
proof -
  define rows where "rows = sort_key (\<lambda>(i, r). lr_createdAt r)
    (filter (\<lambda>(i, r). lr_status r = Reserved \<and> lr_createdAt r < cutoff) (ledger db))"
  define n where "n = nat (max 1 (min 500 limit))"
  have ids: "stale_ids db cutoff limit = take n (map fst rows)"
    by (simp add: stale_ids_def rows_def n_def Let_def take_map)
  have "distinct (map fst (filter P (ledger db)))" for P
    using js_wf_filter[OF assms, of P] by (simp add: js_wf_def js_keys_def)
  moreover have "mset (map fst rows)
      = mset (map fst (filter (\<lambda>(i, r). lr_status r = Reserved \<and> lr_createdAt r < cutoff) (ledger db)))"
    by (simp add: rows_def mset_map)
  ultimately have dist: "distinct (map fst rows)"
    using mset_eq_imp_distinct_iff by blast
  have "stale db cutoff i \<longleftrightarrow> (\<exists>r. (i, r) \<in> set (ledger db) \<and> lr_status r = Reserved
      \<and> lr_createdAt r < cutoff)" for i
    by (auto simp: stale_def js_get_in_set[OF assms, symmetric] split: option.splits)
  then have stale: "stale db cutoff i \<longleftrightarrow> i \<in> fst ` set rows" for i
    by (auto simp: rows_def image_iff Bex_def)
  then have "card {i. stale db cutoff i} = length rows"
    using distinct_card[OF dist] by simp
  then show ?thesis
    using dist stale unfolding ids n_def by (auto dest: in_set_takeD)
qed

lemma recover_foldl_released:
  assumes "budget_inv db" "distinct rows" "\<forall>i\<in>set rows. stale db c i"
    "foldl (recover_step now) (db, a, b) rows = (db', a', b')"
  shows "a' = a + length rows \<and> (\<forall>i. js_get (ledger db') i =
    (if i \<in> set rows then map_option (\<lambda>r. r\<lparr>lr_actual := Some 0, lr_status := Released,
       lr_resolvedAt := Some now\<rparr>) (js_get (ledger db) i) else js_get (ledger db) i))"
  using assms
proof (induction rows arbitrary: db a)
  case Nil
  then show ?case by simp
next
  case (Cons i rows)
  obtain r where r: "js_get (ledger db) i = Some r" "open_row db i r"
    using Cons.prems(3) by (auto simp: stale_def open_row_def split: option.splits)
  obtain db1 where run: "releaseBudgetReservation db i now = Inr (db1, True)"
    and st: "row_settled db i r (released_row r now) db1"
    using release_open[OF Cons.prems(1) r(2)] .
  then have run: "releaseBudgetReservation db i now = Inr (db1, True)" "budget_inv db1"
    "ledger db1 = js_set i (released_row r now) (ledger db)"
    by (simp_all only: row_settled_def)
  have st: "\<forall>j\<in>set rows. stale db1 c j"
    using Cons.prems(2,3) run(3) by (auto simp: stale_def map_laws)
  have rest: "foldl (recover_step now) (db1, a + 1, b) rows = (db', a', b')"
    using Cons.prems(4) run(1) by (simp add: recover_step_def)
  have "distinct rows" "i \<notin> set rows"
    using Cons.prems(2) by simp_all
  then show ?case
    using Cons.IH[OF run(2) _ st rest] r run(3) by (auto simp: map_laws)
qed

text \<open>
  stale recovery on a reachable database never fails a row, releases every row it scanned, and
  touches only reservations that were still open and created before the cutoff; when there are at
  most as many of these as the (bounded) limit, all are released. Any second run with the same
  cutoff and limit, at any later time, finds none of them again.
\<close>

theorem recovery_exact:
  assumes "budget_step\<^sup>*\<^sup>* empty_db db"
    and "recoverStaleBudgetReservations db cutoff limit now = (db', rep)"
    and "int (card {i. stale db cutoff i}) \<le> max 1 (min 500 limit)"
  shows "rep_failed rep = 0 \<and> rep_released rep = rep_scanned rep
    \<and> rep_scanned rep = card {i. stale db cutoff i}
    \<and> (\<forall>i. js_get (ledger db') i = (if stale db cutoff i
          then map_option (\<lambda>r. r\<lparr>lr_actual := Some 0, lr_status := Released,
            lr_resolvedAt := Some now\<rparr>) (js_get (ledger db) i) else js_get (ledger db) i))
    \<and> rep_scanned (snd (recoverStaleBudgetReservations db' cutoff limit later)) = 0"
proof -
  note inv = reachable_inv[OF assms(1)]
  then have wf: "js_wf (ledger db)"
    by (simp add: budget_inv_def)
  let ?rows = "stale_ids db cutoff limit"
  note ids = stale_ids_spec[OF wf, of cutoff limit]
  obtain rel fld where f: "foldl (recover_step now) (db, 0, 0) ?rows = (db', rel, fld)"
    and rep: "rep = \<lparr>rep_scanned = length ?rows, rep_released = rel, rep_failed = fld\<rparr>"
    using assms(2) by (auto simp: recoverStaleBudgetReservations_def Let_def split: prod.splits)
  have rows: "set ?rows = {i. stale db cutoff i}" "distinct ?rows"
    using ids assms(3) by auto
  have stl: "\<forall>i\<in>set ?rows. stale db cutoff i"
    using rows(1) by simp
  note res = recover_foldl_released[OF inv rows(2) stl f]
  have inv': "budget_inv db'" "fld = 0"
    using recover_foldl_books[OF inv f] by auto
  have led: "js_get (ledger db') i = (if stale db cutoff i
      then map_option (\<lambda>r. r\<lparr>lr_actual := Some 0, lr_status := Released,
        lr_resolvedAt := Some now\<rparr>) (js_get (ledger db) i) else js_get (ledger db) i)" for i
    using res rows(1) by simp
  have "\<not> stale db' cutoff i" for i
    using led[of i] by (auto simp: stale_def split: option.splits if_splits)
  then have "stale_ids db' cutoff limit = []"
    using stale_ids_spec[of db' cutoff limit] inv'(1) by (auto simp: budget_inv_def)
  then have "rep_scanned (snd (recoverStaleBudgetReservations db' cutoff limit later)) = 0"
    by (simp add: recoverStaleBudgetReservations_def)
  then show ?thesis
    using res rows inv' led distinct_card[OF rows(2)] by (simp add: rep)
qed

theorem recovery_exact_witness:
  "\<exists>db db' rep. budget_step\<^sup>*\<^sup>* empty_db db
     \<and> recoverStaleBudgetReservations db 100 10 200 = (db', rep)
     \<and> rep_failed rep = 0 \<and> rep_released rep = 1"
proof -
  define db where "db = \<lparr>counters = [((''u'', 0), 1)], ledger = [(''r1'', \<lparr>lr_user = ''u'', lr_day = 0,
         lr_reserved = 1, lr_actual = None, lr_status = Reserved, lr_createdAt = 0, lr_resolvedAt = None,
         lr_corr = None\<rparr>)]\<rparr>"
  have reach: "budget_step\<^sup>*\<^sup>* empty_db db"
    using budget_step.reserve[OF example_reserve] by (simp add: db_def)
  have st: "{i. stale db 100 i} = {''r1''}"
    by (auto simp: db_def stale_def split: if_splits)
  obtain db' rep where run: "recoverStaleBudgetReservations db 100 10 200 = (db', rep)"
    by fastforce
  have "int (card {i. stale db 100 i}) \<le> max 1 (min 500 10)"
    by (simp add: st)
  note res = recovery_exact[OF reach run this, of 0]
  have "rep_failed rep = 0" "rep_released rep = 1"
    using res st by simp_all
  with reach run show ?thesis
    by blast
qed

end
