(* ===== verification/Budget_Alerts.thy ===== *)
theory Budget_Alerts
  imports Budget Calendar
begin

text \<open>
  The second half of \<open>packages/ai/src/cost.ts\<close>: cost estimation from token counts, monthly spend,
  and the monthly budget alerts with the provider thresholds; and the meeting of \<open>budget-guard.ts\<close>
  with the reservation ledger. Sending an alert is an event in the result; the choice of its
  channels in \<open>triggerAlert\<close> and the texts are not modelled.
\<close>

section \<open>Months\<close>

definition monthKey :: "ms \<Rightarrow> int \<times> int" where
  "monthKey now = (case civil_of_day (utcDay now) of (y, m, d) \<Rightarrow> (y, m))"

definition startOfMonth :: "ms \<Rightarrow> int" where
  "startOfMonth now = (case civil_of_day (utcDay now) of (y, m, d) \<Rightarrow> utcDay now - (d - 1))"

section \<open>Cost estimation\<close>

record model_rate =
  inputPerM :: real
  outputPerM :: real

definition rate :: "real \<Rightarrow> real \<Rightarrow> model_rate" where
  "rate i outp = \<lparr>inputPerM = i, outputPerM = outp\<rparr>"

definition STATIC_RATES :: "(string, model_rate) js_map" where
  "STATIC_RATES =
    [(''openai/gpt-4.1'', rate 5 15),
     (''openai/gpt-4.1-mini'', rate 0.4 1.6),
     (''openai/gpt-4o'', rate 5 15),
     (''openai/gpt-5.6-sol'', rate 5 30),
     (''openai/gpt-5.6-terra'', rate 2.5 15),
     (''openai/gpt-5.6-luna'', rate 1 6),
     (''anthropic/claude-3.7-sonnet'', rate 3 15),
     (''anthropic/claude-sonnet-4'', rate 3 15),
     (''anthropic/claude-sonnet-4-5'', rate 3 15),
     (''anthropic/claude-sonnet-5'', rate 3 15),
     (''anthropic/claude-opus-4-8'', rate 5 25),
     (''anthropic/claude-fable-5'', rate 5 25),
     (''anthropic/claude-haiku-4-5'', rate 1 5),
     (''google/gemini-2.5-flash'', rate 0.3 2.5),
     (''google/gemini-2.5-flash-lite'', rate 0.1 0.4),
     (''google/gemini-2.5-pro'', rate 1.25 10),
     (''google/gemini-3.5-flash'', rate 0.3 2.5),
     (''xai/grok-4.5'', rate 2 6),
     (''xai/grok-4.3'', rate 1.25 2.5),
     (''deepseek/deepseek-v4-pro'', rate 0.435 0.87),
     (''deepseek/deepseek-v4-flash'', rate 0.14 0.28)]"

definition FALLBACK_RATE :: model_rate where
  "FALLBACK_RATE = rate 5 15"

definition rateKeyForModel :: "string \<Rightarrow> string" where
  "rateKeyForModel model =
     (if startsWith model ''google-vertex/'' then ''google/'' @ drop (length ''google-vertex/'') model
      else if CHR 0x2F \<notin> set model \<and> startsWith model ''gemini-'' then ''google/'' @ model
      else model)"

text \<open>\<open>{...buildCatalogRateTable(), ...STATIC_RATES}\<close> with the catalog's table as an argument.\<close>

definition estimateCostUsd :: "(string, model_rate) js_map \<Rightarrow> string \<Rightarrow> nat \<Rightarrow> nat \<Rightarrow> real" where
  "estimateCostUsd catalog model inputTokens outputTokens =
     (let key = rateKeyForModel model;
          r = (case js_get STATIC_RATES key of
                 Some r \<Rightarrow> r
               | None \<Rightarrow> (case js_get catalog key of Some r \<Rightarrow> r | None \<Rightarrow> FALLBACK_RATE))
      in (real inputTokens / 1000000) * inputPerM r + (real outputTokens / 1000000) * outputPerM r)"

section \<open>Monthly spend\<close>

definition getMonthlySpend :: "budget_db \<Rightarrow> string \<Rightarrow> ms \<Rightarrow> real" where
  "getMonthlySpend db userId now =
     real_of_int (sum_list (map snd
       (filter (\<lambda>((u, d), c). u = userId \<and> startOfMonth now \<le> d) (counters db)))) / 100"

record telemetry_row =
  tm_user :: string
  tm_model :: string
  tm_estCostUsd :: "real option"
  tm_createdAt :: ms

definition PROVIDER_IDS :: "string list" where
  "PROVIDER_IDS = [''google'', ''vertex'', ''anthropic'', ''openai'', ''groq'', ''mistral'',
     ''openrouter'', ''xai'', ''deepseek'', ''iamhc'', ''hcnsec'']"

definition providerIdFromModel :: "string \<Rightarrow> string" where
  "providerIdFromModel modelId =
     (if CHR 0x2F \<in> set modelId then takeWhile (\<lambda>c. c \<noteq> CHR 0x2F) modelId else [])"

definition canonicalizeProviderId :: "string \<Rightarrow> string option" where
  "canonicalizeProviderId prefix =
     (if prefix = [] then Some ''google''
      else if prefix = ''google-vertex'' then Some ''vertex''
      else if prefix \<in> set PROVIDER_IDS then Some prefix
      else None)"

definition getProviderMonthlySpend :: "telemetry_row list \<Rightarrow> string \<Rightarrow> string \<Rightarrow> ms \<Rightarrow> real" where
  "getProviderMonthlySpend telemetry userId providerId now =
     foldl (\<lambda>tot r.
         if canonicalizeProviderId (providerIdFromModel (tm_model r)) = Some providerId
         then tot + (case tm_estCostUsd r of None \<Rightarrow> 0 | Some x \<Rightarrow> x) else tot) 0
       (filter (\<lambda>r. tm_user r = userId \<and> startOfMonth now * 86400000 \<le> tm_createdAt r) telemetry)"

section \<open>Alerts and thresholds\<close>

record spend_alerts_state =
  as_monthKey :: "(int \<times> int) option"
  as_alerted50 :: bool
  as_alerted80 :: bool
  as_alerted100 :: bool
  as_providerAlerted :: "string list"

record budget_settings =
  us_monthlyBudgetLimit :: "real option"
  us_thresholds :: "(string, real) js_map"
  us_alertsState :: "spend_alerts_state option"

datatype spend_event = Spend_alert nat real real | Provider_alert string real real

datatype blocked_reason = Monthly_limit real real | Provider_limit string real real

record budget_check =
  ck_blocked :: "blocked_reason option"
  ck_nonEssentialDisabled :: bool

definition fresh_alerts :: "int \<times> int \<Rightarrow> spend_alerts_state" where
  "fresh_alerts k = \<lparr>as_monthKey = Some k, as_alerted50 = False, as_alerted80 = False,
     as_alerted100 = False, as_providerAlerted = []\<rparr>"

text \<open>The alert state of this month and whether it has to be written.\<close>

definition current_alerts :: "budget_settings \<Rightarrow> ms \<Rightarrow> spend_alerts_state \<times> bool" where
  "current_alerts st now =
     (case us_alertsState st of
        None \<Rightarrow> (fresh_alerts (monthKey now), True)
      | Some a \<Rightarrow> if as_monthKey a \<noteq> Some (monthKey now) then (fresh_alerts (monthKey now), True)
                   else (a, False))"

text \<open>
  \<open>limit && limit > 0\<close> and the three thresholds: \<open>Inl\<close> is the early return of the 100% branch.
\<close>

definition monthly_check ::
  "real option \<Rightarrow> real \<Rightarrow> spend_alerts_state \<times> bool
     \<Rightarrow> (spend_event list \<times> budget_check) + (spend_alerts_state \<times> bool \<times> spend_event list \<times> bool)" where
  "monthly_check limit totalSpend = (\<lambda>(a, changed).
     case limit of
       None \<Rightarrow> Inr (a, changed, [], False)
     | Some l \<Rightarrow>
         if \<not> l > 0 then Inr (a, changed, [], False)
         else if totalSpend \<ge> l then
           Inl (if as_alerted100 a then [] else [Spend_alert 100 totalSpend l],
                \<lparr>ck_blocked = Some (Monthly_limit totalSpend l), ck_nonEssentialDisabled = True\<rparr>)
         else if totalSpend \<ge> l * 0.8 then
           (if as_alerted80 a then Inr (a, changed, [], True)
            else Inr (a\<lparr>as_alerted80 := True\<rparr>, True, [Spend_alert 80 totalSpend l], True))
         else if totalSpend \<ge> l * 0.5 then
           (if as_alerted50 a then Inr (a, changed, [], False)
            else Inr (a\<lparr>as_alerted50 := True\<rparr>, True, [Spend_alert 50 totalSpend l], False))
         else Inr (a, changed, [], False))"

definition checkBudgetAlertsAndThresholds ::
  "budget_db \<Rightarrow> telemetry_row list \<Rightarrow> (string, budget_settings) js_map \<Rightarrow> string \<Rightarrow> string option \<Rightarrow> ms
     \<Rightarrow> (string, budget_settings) js_map \<times> spend_event list \<times> budget_check" where
  "checkBudgetAlertsAndThresholds db telemetry settings userId activeProviderId now =
     (case js_get settings userId of
        None \<Rightarrow> (settings, [], \<lparr>ck_blocked = None, ck_nonEssentialDisabled = False\<rparr>)
      | Some st \<Rightarrow>
          (case monthly_check (us_monthlyBudgetLimit st) (getMonthlySpend db userId now)
                  (current_alerts st now) of
             Inl (evs, ck) \<Rightarrow> (settings, evs, ck)
           | Inr (a, changed, evs, nonEss) \<Rightarrow>
               (let save = (if changed then js_set userId (st\<lparr>us_alertsState := Some a\<rparr>) settings
                            else settings);
                    pass = (save, evs, \<lparr>ck_blocked = None, ck_nonEssentialDisabled = nonEss\<rparr>)
                in case activeProviderId of
                     None \<Rightarrow> pass
                   | Some p \<Rightarrow>
                       if p = [] then pass
                       else (case js_get (us_thresholds st) p of
                          None \<Rightarrow> pass
                        | Some providerLimit \<Rightarrow>
                            if \<not> providerLimit > 0 then pass
                            else let providerSpend = getProviderMonthlySpend telemetry userId p now in
                              if providerSpend \<ge> providerLimit then
                                (settings,
                                 evs @ (if p \<in> set (as_providerAlerted a) then []
                                        else [Provider_alert p providerSpend providerLimit]),
                                 \<lparr>ck_blocked = Some (Provider_limit p providerSpend providerLimit),
                                  ck_nonEssentialDisabled = nonEss\<rparr>)
                              else pass))))"

section \<open>Properties\<close>

lemma rate_table_nonneg:
  "js_get STATIC_RATES k = Some r \<Longrightarrow> 0 \<le> inputPerM r \<and> 0 \<le> outputPerM r"
  by (auto simp: STATIC_RATES_def rate_def split: if_splits)

lemma estimate_nonneg:
  "\<forall>k r. js_get catalog k = Some r \<longrightarrow> 0 \<le> inputPerM r \<and> 0 \<le> outputPerM r
    \<Longrightarrow> 0 \<le> estimateCostUsd catalog m i outp"
  using rate_table_nonneg
  by (auto simp: estimateCostUsd_def FALLBACK_RATE_def rate_def Let_def split: option.splits)

lemma monthly_check_again:
  "monthly_check l t s = Inr (a, c, evs, n) \<Longrightarrow> monthly_check l t (a, False) = Inr (a, False, [], n)"
  by (auto simp: monthly_check_def split: option.splits if_splits prod.splits)

lemma monthly_check_key:
  "monthly_check l t (a0, c0) = Inr (a, c, evs, n) \<Longrightarrow> as_monthKey a = as_monthKey a0
     \<and> (\<not> c \<longrightarrow> a = a0 \<and> evs = [] \<and> \<not> c0)"
  by (auto simp: monthly_check_def split: option.splits if_splits)

lemma current_alerts_key:
  "current_alerts st now = (a, c) \<Longrightarrow> as_monthKey a = Some (monthKey now)
     \<and> (\<not> c \<longrightarrow> us_alertsState st = Some a)"
  by (auto simp: current_alerts_def fresh_alerts_def split: option.splits if_splits)

text \<open>The settings a passing check stores make the next check start from the alerts it left.\<close>

lemma saved_alerts:
  assumes "js_get settings u = Some st"
    "monthly_check l t (current_alerts st now) = Inr (a, changed, evs, n)"
  obtains st' where
    "js_get (if changed then js_set u (st\<lparr>us_alertsState := Some a\<rparr>) settings else settings) u = Some st'"
    "current_alerts st' now = (a, False)" "us_monthlyBudgetLimit st' = us_monthlyBudgetLimit st"
    "us_thresholds st' = us_thresholds st"
proof -
  obtain a0 c0 where c0: "current_alerts st now = (a0, c0)"
    by fastforce
  note key = current_alerts_key[OF c0] monthly_check_key[OF assms(2)[unfolded c0]]
  have stored: "current_alerts x now = (a, False)" if "us_alertsState x = Some a" for x
    using that key by (simp add: current_alerts_def)
  show ?thesis
  proof (cases changed)
    case True
    then show ?thesis
      by (intro that[of "st\<lparr>us_alertsState := Some a\<rparr>"]) (simp_all add: map_laws stored)
  next
    case False
    then show ?thesis
      using key assms(1) by (intro that[of st]) (simp_all add: stored)
  qed
qed

lemma monthly_check_blocks:
  "(\<exists>x. monthly_check l t s = Inl x) = (case l of None \<Rightarrow> False | Some b \<Rightarrow> 0 < b \<and> b \<le> t)"
  by (auto simp: monthly_check_def split: option.splits prod.splits)

lemma monthly_check_Inl: "monthly_check l t s = Inl (evs, ck) \<Longrightarrow> ck_blocked ck \<noteq> None"
  by (auto simp: monthly_check_def split: option.splits prod.splits if_splits)

text \<open>The provider threshold, when one is set and reached.\<close>

definition provider_block ::
  "telemetry_row list \<Rightarrow> budget_settings \<Rightarrow> string \<Rightarrow> string option \<Rightarrow> ms \<Rightarrow> (string \<times> real \<times> real) option" where
  "provider_block telemetry st u p now =
     (case p of None \<Rightarrow> None | Some q \<Rightarrow>
        if q = [] then None
        else (case js_get (us_thresholds st) q of None \<Rightarrow> None
          | Some l \<Rightarrow> if 0 < l \<and> l \<le> getProviderMonthlySpend telemetry u q now
              then Some (q, getProviderMonthlySpend telemetry u q now, l) else None))"

lemma check_cases:
  assumes "js_get settings u = Some st"
  shows "checkBudgetAlertsAndThresholds db telemetry settings u p now =
    (case monthly_check (us_monthlyBudgetLimit st) (getMonthlySpend db u now) (current_alerts st now) of
       Inl (evs, ck) \<Rightarrow> (settings, evs, ck)
     | Inr (a, changed, evs, n) \<Rightarrow>
         (case provider_block telemetry st u p now of
            None \<Rightarrow> (if changed then js_set u (st\<lparr>us_alertsState := Some a\<rparr>) settings else settings,
                     evs, \<lparr>ck_blocked = None, ck_nonEssentialDisabled = n\<rparr>)
          | Some (q, sp, l) \<Rightarrow> (settings, evs @ (if q \<in> set (as_providerAlerted a) then []
                 else [Provider_alert q sp l]),
               \<lparr>ck_blocked = Some (Provider_limit q sp l), ck_nonEssentialDisabled = n\<rparr>)))"
  using assms
  by (auto simp: checkBudgetAlertsAndThresholds_def provider_block_def Let_def
      split: sum.splits option.splits)

text \<open>
  how often an alert is sent. After a check that did not block, the same check again (same
  spend, same month) sends nothing and changes nothing: each threshold mail goes out once. A check
  that blocks never stores the alert state, so the same check again sends the same alerts again.
\<close>

theorem alerts_once_unless_blocked:
  "case checkBudgetAlertsAndThresholds db telemetry settings u p now of (settings', evs, ck) \<Rightarrow>
     checkBudgetAlertsAndThresholds db telemetry settings' u p now
       = (settings', if ck_blocked ck = None then [] else evs, ck)
     \<and> (ck_blocked ck \<noteq> None) = (case js_get settings u of None \<Rightarrow> False | Some st \<Rightarrow>
          (case us_monthlyBudgetLimit st of None \<Rightarrow> False
             | Some l \<Rightarrow> 0 < l \<and> l \<le> getMonthlySpend db u now)
          \<or> (case p of None \<Rightarrow> False | Some q \<Rightarrow> q \<noteq> [] \<and> (case js_get (us_thresholds st) q of None \<Rightarrow> False
             | Some l \<Rightarrow> 0 < l \<and> l \<le> getProviderMonthlySpend telemetry u q now)))"
proof (cases "js_get settings u")
  case None
  then show ?thesis by (simp add: checkBudgetAlertsAndThresholds_def)
next
  case (Some st)
  let ?m = "monthly_check (us_monthlyBudgetLimit st) (getMonthlySpend db u now) (current_alerts st now)"
  have prov: "(provider_block telemetry st u p now \<noteq> None) = (case p of None \<Rightarrow> False
      | Some q \<Rightarrow> q \<noteq> [] \<and> (case js_get (us_thresholds st) q of None \<Rightarrow> False
          | Some l \<Rightarrow> 0 < l \<and> l \<le> getProviderMonthlySpend telemetry u q now))"
    by (auto simp: provider_block_def split: option.splits)
  note blocks = monthly_check_blocks[of "us_monthlyBudgetLimit st" "getMonthlySpend db u now"
      "current_alerts st now"]
  show ?thesis
  proof (cases ?m)
    case (Inl x)
    then obtain evs ck where x: "?m = Inl (evs, ck)"
      by (cases x) simp
    then show ?thesis
      using blocks monthly_check_Inl[OF x] Some by (auto simp: check_cases[OF Some])
  next
    case (Inr y)
    then obtain a changed evs n where y: "?m = Inr (a, changed, evs, n)"
      by (cases y) simp
    have no_month: "\<not> (case us_monthlyBudgetLimit st of None \<Rightarrow> False
        | Some l \<Rightarrow> 0 < l \<and> l \<le> getMonthlySpend db u now)"
      using blocks y by simp
    show ?thesis
    proof (cases "provider_block telemetry st u p now")
      case None
      obtain st' where st': "js_get (if changed then js_set u (st\<lparr>us_alertsState := Some a\<rparr>) settings
            else settings) u = Some st'"
        "current_alerts st' now = (a, False)" "us_monthlyBudgetLimit st' = us_monthlyBudgetLimit st"
        "us_thresholds st' = us_thresholds st"
        using saved_alerts[OF Some y] .
      have "provider_block telemetry st' u p now = None"
        using None by (simp only: provider_block_def st'(4))
      then show ?thesis
        using y None prov no_month Some monthly_check_again[OF y] st'
        by (simp add: check_cases[OF Some] check_cases[OF st'(1)])
    next
      case (Some z)
      then show ?thesis
        using y prov no_month \<open>js_get settings u = Some st\<close>
        by (cases z) (simp add: check_cases)
    qed
  qed
qed

section \<open>The guard and the ledger\<close>

text \<open>
  \<open>budget-guard.ts\<close> settles a turn with \<open>reconcileBudget\<close>, which corrects the counter but leaves
  the ledger row open: the recovery job later releases that row too, and takes the reserved cent
  off the counter a second time.
\<close>

theorem guard_reconcile_leaves_row_open:
  assumes "budget_step\<^sup>*\<^sup>* empty_db db" "guard_reserve db u cap now i = Inr (db1, h)"
    and "db2 = reconcileBudget db1 u actual (bh_reservedUsd h) now"
  shows "\<exists>db3. releaseBudgetReservation db2 i later = Inr (db3, True)
    \<and> counter_of db3 u (utcDay now) = max 0 (counter_of db2 u (utcDay now) - 1)"
proof -
  have turn: "reserveTurnBudget db u None (Some (case cap of None \<Rightarrow> DEFAULT_MAX_DAILY_USD | Some m \<Rightarrow> m)) None now i
      = Inr (db1, h)"
    using assms(2) by (simp add: reserveTurnBudget_def guard_reserve_def)
  obtain r where o: "budget_inv db1" "open_row db1 i r" "bh_id h = Some i" "\<not> bh_released h" and day: "lr_user r = u" "lr_day r = utcDay now"
    and res: "lr_reserved r = max 0 \<lceil>(case None of None \<Rightarrow> DEFAULT_TURN_ESTIMATE_USD | Some e \<Rightarrow> e) * 100\<rceil>"
    and "\<forall>v d. counter_of db1 v d = counter_of db v d
        + (if (v, d) = (u, utcDay now) then lr_reserved r else 0)"
    using reserve_turn_open[OF reachable_inv[OF assms(1)] turn] .
  from o have r: "js_get (ledger db1) i = Some r" "lr_status r = Reserved"
    by (simp_all add: open_row_def)
  from res have one: "lr_reserved r = 1"
    by (simp add: DEFAULT_TURN_ESTIMATE_USD_def)
  have led: "ledger db2 = ledger db1"
    by (simp add: assms(3) reconcileBudget_def applyBudgetDelta_def Let_def split: option.splits)
  obtain t1 where "js_get (counters db1) (u, utcDay now) = Some t1"
    using row_counter[OF o(1) r(1)] unfolding day .
  then have "js_get (counters db2) (u, utcDay now) \<noteq> None"
    by (simp add: assms(3) reconcileBudget_def applyBudgetDelta_def Let_def map_laws)
  then obtain t where t: "js_get (counters db2) (u, utcDay now) = Some t"
    by blast
  show ?thesis
    using r day led t one by (simp add: releaseBudgetReservation_def Let_def counter_of_def map_laws)
qed

text \<open>A turn that cost three cents; the recovery leaves the counter at two.\<close>

theorem guard_reconcile_leaves_row_open_witness:
  "\<exists>db1 h db3. guard_reserve empty_db ''u'' None 0 ''r1'' = Inr (db1, h)
     \<and> releaseBudgetReservation (reconcileBudget db1 ''u'' 0.03 (bh_reservedUsd h) 0) ''r1'' 9 = Inr (db3, True)
     \<and> counter_of db3 ''u'' 0 = 2"
proof -
  obtain db1 h where run: "guard_reserve empty_db ''u'' None 0 ''r1'' = Inr (db1, h)"
    and c: "counters db1 = [((''u'', 0), 1)]" "bh_reservedUsd h = 1 / 100"
    using example_reserve by (simp add: guard_reserve_def DEFAULT_MAX_DAILY_USD_def
        DEFAULT_TURN_ESTIMATE_USD_def)
  have "counter_of (reconcileBudget db1 ''u'' 0.03 (bh_reservedUsd h) 0) ''u'' 0 = 3"
    using c by (simp add: reconcileBudget_def applyBudgetDelta_def counter_of_def js_round_def
        utcDay_def Let_def)
  then show ?thesis
    using guard_reconcile_leaves_row_open[OF rtranclp.rtrancl_refl run refl, of "0.03" 9] run
    by (auto simp: utcDay_def)
qed

end
