(* ===== verification/Alerts.thy ===== *)
theory Alerts
  imports Indicator_Registry Contracts
begin

text \<open>
  Price and indicator alerts (\<open>packages/ai/src/alerts\<close>): rule specifications and their registry
  (\<open>spec.ts\<close>, \<open>rule-registry.ts\<close>), the historical simulator (\<open>simulate.ts\<close>), the rows of the
  alerts table with the delivery lease (\<open>persistence.ts\<close>), delivery over the channels
  (\<open>delivery.ts\<close>) and the evaluation run (\<open>evaluator.ts\<close>). The market data the evaluator fetches
  and the answers of the mail, Telegram and push services are arguments. Message texts and
  telemetry are not modelled.
\<close>

datatype direction = Above | Below

datatype alert_rule =
    PriceCross (ar_symbol: string) (ar_level: real) (ar_dir: direction)
  | CandleClose (ar_symbol: string) (ar_tf: timeframe) (ar_level: real) (ar_dir: direction)
  | IndicatorCross (ar_symbol: string) (ar_tf: timeframe) (ar_indicator: string) (ar_level: real)
      (ar_dir: direction) (ar_previous: "real option")

section \<open>spec.ts and rule-registry.ts\<close>

datatype alert_spec =
    LevelSpec direction real
  | CrossingSpec direction real
  | AndSpec "alert_spec list"
  | OrSpec "alert_spec list"

text \<open>The reading's value and the cross context, \<open>None\<close> for no previous value.\<close>

fun isSatisfiedBy :: "alert_spec \<Rightarrow> real \<Rightarrow> real option \<Rightarrow> bool" where
  "isSatisfiedBy (LevelSpec d level) v prev = (case d of Above \<Rightarrow> v \<ge> level | Below \<Rightarrow> v \<le> level)"
| "isSatisfiedBy (CrossingSpec d level) v prev =
     (case prev of None \<Rightarrow> False
      | Some p \<Rightarrow> (case d of Above \<Rightarrow> p < level \<and> v \<ge> level | Below \<Rightarrow> p > level \<and> v \<le> level))"
| "isSatisfiedBy (AndSpec specs) v prev = list_all (\<lambda>s. isSatisfiedBy s v prev) specs"
| "isSatisfiedBy (OrSpec specs) v prev = list_ex (\<lambda>s. isSatisfiedBy s v prev) specs"

definition decideMatch :: "direction \<Rightarrow> real \<Rightarrow> real \<Rightarrow> bool" where
  "decideMatch d v level = isSatisfiedBy (LevelSpec d level) v None"

definition decideCross :: "direction \<Rightarrow> real option \<Rightarrow> real \<Rightarrow> real \<Rightarrow> bool" where
  "decideCross d prev cur level =
     (case prev of None \<Rightarrow> False | Some p \<Rightarrow> isSatisfiedBy (CrossingSpec d level) cur (Some p))"

datatype rule_type = T_priceCross | T_candleClose | T_indicatorCross

fun rule_type_of :: "alert_rule \<Rightarrow> rule_type" where
  "rule_type_of (PriceCross s l d) = T_priceCross"
| "rule_type_of (CandleClose s tf l d) = T_candleClose"
| "rule_type_of (IndicatorCross s tf i l d p) = T_indicatorCross"

record alertRuleTypePlugin =
  rp_type :: rule_type
  rp_specFactory :: "alert_rule \<Rightarrow> alert_spec"

definition rule_register ::
  "alertRuleTypePlugin \<Rightarrow> (rule_type, alertRuleTypePlugin) js_map \<Rightarrow> (rule_type, alertRuleTypePlugin) js_map" where
  "rule_register plugin reg = js_set (rp_type plugin) plugin reg"

definition alertRuleRegistry :: "(rule_type, alertRuleTypePlugin) js_map" where
  "alertRuleRegistry = foldl (\<lambda>reg p. rule_register p reg) []
     [\<lparr>rp_type = T_priceCross, rp_specFactory = (\<lambda>r. LevelSpec (ar_dir r) (ar_level r))\<rparr>,
      \<lparr>rp_type = T_candleClose, rp_specFactory = (\<lambda>r. LevelSpec (ar_dir r) (ar_level r))\<rparr>,
      \<lparr>rp_type = T_indicatorCross, rp_specFactory = (\<lambda>r. CrossingSpec (ar_dir r) (ar_level r))\<rparr>]"

text \<open>An unregistered type throws.\<close>

definition specFromRule :: "alert_rule \<Rightarrow> alert_spec option" where
  "specFromRule rule = map_option (\<lambda>p. rp_specFactory p rule) (js_get alertRuleRegistry (rule_type_of rule))"

section \<open>simulate.ts\<close>

record sim_fire =
  sf_at :: ms
  sf_price :: real

record sim_result =
  sim_fires :: "sim_fire list"
  sim_avgHoldMs :: real

text \<open>The loop with its push before the bound is tested.\<close>

fun sim_loop :: "(candle \<Rightarrow> bool) \<Rightarrow> (candle \<Rightarrow> real) \<Rightarrow> int \<Rightarrow> candle list \<Rightarrow> sim_fire list \<Rightarrow> sim_fire list" where
  "sim_loop fired price maxFires [] fires = fires"
| "sim_loop fired price maxFires (c # cs) fires =
     (if fired c then
        let fires' = fires @ [\<lparr>sf_at = cd_t c, sf_price = price c\<rparr>]
        in if int (length fires') \<ge> maxFires then fires' else sim_loop fired price maxFires cs fires'
      else sim_loop fired price maxFires cs fires)"

definition hold_sum :: "sim_fire list \<Rightarrow> int" where
  "hold_sum fires = sum_list (map (\<lambda>i. sf_at (fires ! i) - sf_at (fires ! (i - 1))) [1..<length fires])"

definition sim_summary :: "sim_fire list \<Rightarrow> sim_result" where
  "sim_summary fires = \<lparr>sim_fires = fires,
     sim_avgHoldMs = (if length fires \<ge> 2
       then real_of_int (hold_sum fires) / real (length fires - 1) else 0)\<rparr>"

fun simulateAlert :: "alert_rule \<Rightarrow> candle list \<Rightarrow> int option \<Rightarrow> sim_result option" where
  "simulateAlert (PriceCross s level d) cs maxFires =
     Some (sim_summary (sim_loop
       (\<lambda>c. case d of Above \<Rightarrow> cd_h c \<ge> level | Below \<Rightarrow> cd_l c \<le> level) (\<lambda>c. level)
       (case maxFires of None \<Rightarrow> 50 | Some m \<Rightarrow> m) cs []))"
| "simulateAlert (CandleClose s tf level d) cs maxFires =
     Some (sim_summary (sim_loop
       (\<lambda>c. case d of Above \<Rightarrow> cd_c c \<ge> level | Below \<Rightarrow> cd_c c \<le> level) cd_c
       (case maxFires of None \<Rightarrow> 50 | Some m \<Rightarrow> m) cs []))"
| "simulateAlert (IndicatorCross s tf i l d p) cs maxFires = None"

section \<open>persistence.ts: the rows\<close>

datatype alert_channel = Email | Telegram | Web_push

record alert_row =
  al_id :: string
  al_userId :: string
  al_rule :: alert_rule
  al_channels :: "alert_channel list"
  al_active :: bool
  al_firedAt :: "ms option"
  al_lastFiredAt :: "ms option"
  al_snoozeHours :: int
  al_claimedAt :: "ms option"
  al_createdAt :: ms

type_synonym alert_db = "(string, alert_row) js_map"

text \<open>
  \<open>UPDATE alerts SET ... WHERE id = i AND user_id = u AND p RETURNING id\<close>: the new table and
  whether a row was updated.
\<close>

definition update_where ::
  "alert_db \<Rightarrow> string \<Rightarrow> string \<Rightarrow> (alert_row \<Rightarrow> bool) \<Rightarrow> (alert_row \<Rightarrow> alert_row) \<Rightarrow> alert_db \<times> bool" where
  "update_where db u i p f =
     (case js_get db i of
        None \<Rightarrow> (db, False)
      | Some r \<Rightarrow> if al_userId r = u \<and> p r then (js_set i (f r) db, True) else (db, False))"

definition DELIVERY_LEASE_MS :: ms where
  "DELIVERY_LEASE_MS = 30 * 60000"

definition claimAlertDelivery :: "alert_db \<Rightarrow> string \<Rightarrow> string \<Rightarrow> ms \<Rightarrow> ms \<Rightarrow> alert_db \<times> bool" where
  "claimAlertDelivery db u i claimedAt leaseMs =
     (let staleBefore = claimedAt - leaseMs in
      update_where db u i
        (\<lambda>r. al_active r \<and> al_firedAt r = None
           \<and> (case al_claimedAt r of None \<Rightarrow> True | Some c \<Rightarrow> c < staleBefore))
        (\<lambda>r. r\<lparr>al_claimedAt := Some claimedAt\<rparr>))"

definition releaseAlertDeliveryClaim :: "alert_db \<Rightarrow> string \<Rightarrow> string \<Rightarrow> ms \<Rightarrow> alert_db" where
  "releaseAlertDeliveryClaim db u i claimedAt =
     fst (update_where db u i (\<lambda>r. al_claimedAt r = Some claimedAt) (\<lambda>r. r\<lparr>al_claimedAt := None\<rparr>))"

definition claim_matches :: "ms option \<Rightarrow> alert_row \<Rightarrow> bool" where
  "claim_matches claimedAt r = (case claimedAt of None \<Rightarrow> True | Some c \<Rightarrow> al_claimedAt r = Some c)"

definition markFired :: "alert_db \<Rightarrow> string \<Rightarrow> string \<Rightarrow> ms \<Rightarrow> ms option \<Rightarrow> alert_db \<times> bool" where
  "markFired db u i now claimedAt =
     update_where db u i (claim_matches claimedAt)
       (\<lambda>r. r\<lparr>al_firedAt := Some now, al_active := False, al_claimedAt := None\<rparr>)"

definition markFiredSnoozed :: "alert_db \<Rightarrow> string \<Rightarrow> string \<Rightarrow> ms \<Rightarrow> ms option \<Rightarrow> alert_db \<times> bool" where
  "markFiredSnoozed db u i now claimedAt =
     update_where db u i (claim_matches claimedAt)
       (\<lambda>r. r\<lparr>al_lastFiredAt := Some now, al_claimedAt := None\<rparr>)"

definition markFiredForAlert :: "alert_db \<Rightarrow> alert_row \<Rightarrow> ms \<Rightarrow> ms option \<Rightarrow> alert_db \<times> bool" where
  "markFiredForAlert db alert now claimedAt =
     (if al_snoozeHours alert > 0
      then markFiredSnoozed db (al_userId alert) (al_id alert) now claimedAt
      else markFired db (al_userId alert) (al_id alert) now claimedAt)"

definition isInSnooze :: "alert_row \<Rightarrow> ms \<Rightarrow> bool" where
  "isInSnooze alert now =
     (case al_lastFiredAt alert of
        None \<Rightarrow> False
      | Some lst \<Rightarrow>
          if al_snoozeHours alert \<le> 0 then False
          else real_of_int (now - lst) / 3600000 < real_of_int (al_snoozeHours alert))"

definition listEvaluable :: "alert_db \<Rightarrow> ms \<Rightarrow> alert_row list" where
  "listEvaluable db now =
     filter (\<lambda>a. \<not> isInSnooze a now)
       (sort_key al_createdAt (filter (\<lambda>a. al_active a \<and> al_firedAt a = None) (map snd db)))"

definition clamp_snooze :: "int \<Rightarrow> int" where
  "clamp_snooze h = max 0 (min 168 h)"

text \<open>The rule has passed its schema; the row id is the database's.\<close>

definition createAlert ::
  "alert_db \<Rightarrow> string \<Rightarrow> string \<Rightarrow> alert_rule \<Rightarrow> alert_channel list option \<Rightarrow> int option \<Rightarrow> ms
     \<Rightarrow> alert_db \<times> alert_row" where
  "createAlert db newId userId rule channels snoozeHours now =
     (let row = \<lparr>al_id = newId, al_userId = userId, al_rule = rule,
        al_channels = (case channels of None \<Rightarrow> [Email] | Some cs \<Rightarrow> cs), al_active = True,
        al_firedAt = None, al_lastFiredAt = None,
        al_snoozeHours = clamp_snooze (case snoozeHours of None \<Rightarrow> 0 | Some h \<Rightarrow> h),
        al_claimedAt = None, al_createdAt = now\<rparr>
      in (js_set newId row db, row))"

definition setRulePreviousValue :: "alert_db \<Rightarrow> string \<Rightarrow> string \<Rightarrow> alert_rule \<Rightarrow> real \<Rightarrow> alert_db" where
  "setRulePreviousValue db u i rule v =
     (case rule of
        IndicatorCross s tf ind l d p \<Rightarrow>
          fst (update_where db u i (\<lambda>r. True) (\<lambda>r. r\<lparr>al_rule := IndicatorCross s tf ind l d (Some v)\<rparr>))
      | _ \<Rightarrow> db)"

definition deleteAlert :: "alert_db \<Rightarrow> string \<Rightarrow> string \<Rightarrow> alert_db" where
  "deleteAlert db u i =
     (case js_get db i of None \<Rightarrow> db | Some r \<Rightarrow> if al_userId r = u then js_delete i db else db)"

text \<open>An absent field of the update input is \<open>None\<close>; \<open>firedAt: null\<close> is \<open>Some None\<close>.\<close>

record update_input =
  ui_rule :: "alert_rule option"
  ui_channels :: "alert_channel list option"
  ui_active :: "bool option"
  ui_firedAt :: "ms option option"
  ui_snoozeHours :: "int option"

definition updateAlert :: "alert_db \<Rightarrow> string \<Rightarrow> string \<Rightarrow> update_input \<Rightarrow> alert_db" where
  "updateAlert db u i inp =
     fst (update_where db u i (\<lambda>r. True) (\<lambda>r. r\<lparr>
       al_rule := (case ui_rule inp of None \<Rightarrow> al_rule r | Some x \<Rightarrow> x),
       al_channels := (case ui_channels inp of None \<Rightarrow> al_channels r | Some x \<Rightarrow> x),
       al_active := (case ui_active inp of None \<Rightarrow> al_active r | Some x \<Rightarrow> x),
       al_firedAt := (case ui_firedAt inp of None \<Rightarrow> al_firedAt r | Some x \<Rightarrow> x),
       al_snoozeHours := (case ui_snoozeHours inp of None \<Rightarrow> al_snoozeHours r
                          | Some h \<Rightarrow> clamp_snooze h)\<rparr>))"

section \<open>delivery.ts\<close>

datatype push_response = Push_ok | Push_gone | Push_failed

text \<open>
  What the environment and the services answer for one delivery: which channels are configured,
  whether Resend and Telegram accept, and the answer for each push subscription.
\<close>

record delivery_world =
  dw_email_configured :: bool
  dw_telegram_configured :: bool
  dw_vapid_configured :: bool
  dw_resend_accepts :: bool
  dw_telegram_accepts :: bool
  dw_push :: "push_response list"
  dw_now :: ms

datatype delivery_outcome = Delivered | Not_configured | Provider_failed | Claim_lost | No_channels

definition finalize :: "alert_db \<Rightarrow> alert_row \<Rightarrow> delivery_world \<Rightarrow> ms option \<Rightarrow> alert_db \<times> delivery_outcome" where
  "finalize db alert w claimAt =
     (case markFiredForAlert db alert (dw_now w) claimAt of
        (db', True) \<Rightarrow> (db', Delivered)
      | (db', False) \<Rightarrow> (db', Claim_lost))"

definition deliverEmail ::
  "alert_db \<Rightarrow> alert_row \<Rightarrow> delivery_world \<Rightarrow> ms option \<Rightarrow> alert_db \<times> delivery_outcome" where
  "deliverEmail db alert w claimAt =
     (if \<not> dw_email_configured w then (db, Not_configured)
      else if \<not> dw_resend_accepts w then (db, Provider_failed)
      else finalize db alert w claimAt)"

definition deliverTelegram ::
  "alert_db \<Rightarrow> alert_row \<Rightarrow> delivery_world \<Rightarrow> ms option \<Rightarrow> alert_db \<times> delivery_outcome" where
  "deliverTelegram db alert w claimAt =
     (if \<not> dw_telegram_configured w then (db, Not_configured)
      else if \<not> dw_telegram_accepts w then (db, Provider_failed)
      else finalize db alert w claimAt)"

definition deliverWebPush ::
  "alert_db \<Rightarrow> alert_row \<Rightarrow> delivery_world \<Rightarrow> ms option \<Rightarrow> alert_db \<times> delivery_outcome" where
  "deliverWebPush db alert w claimAt =
     (if \<not> dw_vapid_configured w then (db, Not_configured)
      else if dw_push w = [] then (db, Not_configured)
      else if Push_failed \<in> set (dw_push w) then (db, Provider_failed)
      else finalize db alert w claimAt)"

fun deliver_channel ::
  "alert_channel \<Rightarrow> alert_db \<Rightarrow> alert_row \<Rightarrow> delivery_world \<Rightarrow> ms option \<Rightarrow> alert_db \<times> delivery_outcome" where
  "deliver_channel Email db alert w c = deliverEmail db alert w c"
| "deliver_channel Telegram db alert w c = deliverTelegram db alert w c"
| "deliver_channel Web_push db alert w c = deliverWebPush db alert w c"

text \<open>The channels in the user's order; the loop returns on success and on \<open>not configured\<close>.\<close>

fun deliver_loop ::
  "alert_channel list \<Rightarrow> alert_db \<Rightarrow> alert_row \<Rightarrow> delivery_world \<Rightarrow> ms option \<Rightarrow> alert_db \<times> delivery_outcome" where
  "deliver_loop [] db alert w c = (db, No_channels)"
| "deliver_loop (ch # chs) db alert w c =
     (case deliver_channel ch db alert w c of
        (db', out) \<Rightarrow>
          if out = Delivered \<or> out = Not_configured then (db', out)
          else deliver_loop chs db' alert w c)"

definition deliverAlert ::
  "alert_db \<Rightarrow> alert_row \<Rightarrow> delivery_world \<Rightarrow> ms option \<Rightarrow> alert_db \<times> delivery_outcome" where
  "deliverAlert db alert w claimAt = deliver_loop (al_channels alert) db alert w claimAt"

section \<open>evaluator.ts\<close>

definition indicator_names :: "(string \<times> indicatorKind) list" where
  "indicator_names = [(''sma'', K_sma), (''ema'', K_ema), (''rsi'', K_rsi), (''atr'', K_atr),
     (''macd'', K_macd), (''bollinger'', K_bollinger), (''pivots'', K_pivots)]"

definition digit_value :: "char \<Rightarrow> nat option" where
  "digit_value c = (let n = (of_char c :: nat) in if 48 \<le> n \<and> n \<le> 57 then Some (n - 48) else None)"

text \<open>\<open>[0-9]+\<close> read as a number.\<close>

definition parse_digits :: "string \<Rightarrow> nat option" where
  "parse_digits s =
     (if s = [] \<or> list_ex (\<lambda>c. digit_value c = None) s then None
      else Some (foldl (\<lambda>n c. 10 * n + the (digit_value c)) 0 s))"

fun parse_all :: "string list \<Rightarrow> nat list option" where
  "parse_all [] = Some []"
| "parse_all (w # ws) =
     (case (parse_digits w, parse_all ws) of (Some n, Some ns) \<Rightarrow> Some (n # ns) | _ \<Rightarrow> None)"

text \<open>The two groups of the regular expression: the kind, and one to three numbers when there is a colon.\<close>

definition match_spec :: "string \<Rightarrow> (indicatorKind \<times> nat list) option" where
  "match_spec s =
     (let name = takeWhile (\<lambda>c. c \<noteq> CHR '':'') s; rest = dropWhile (\<lambda>c. c \<noteq> CHR '':'') s in
      case map_of indicator_names (toLowerCase name) of
        None \<Rightarrow> None
      | Some kind \<Rightarrow>
          if rest = [] then Some (kind, [])
          else (case parse_all (js_split CHR '','' (tl rest)) of
                  None \<Rightarrow> None
                | Some ns \<Rightarrow> if length ns \<le> 3 then Some (kind, ns) else None))"

definition defaultPeriod :: "indicatorKind \<Rightarrow> nat" where
  "defaultPeriod kind = (if kind = K_rsi \<or> kind = K_atr then 14 else 20)"

definition nth_or :: "nat list \<Rightarrow> nat \<Rightarrow> nat \<Rightarrow> js_value" where
  "nth_or ns i d = Js_num (real (if i < length ns then ns ! i else d))"

definition parseIndicatorSpec :: "string \<Rightarrow> (indicatorKind \<times> raw_params) option" where
  "parseIndicatorSpec spec =
     (case match_spec (js_trim spec) of
        None \<Rightarrow> None
      | Some (kind, nums) \<Rightarrow>
          if list_ex (\<lambda>n. n \<le> 0) nums then None
          else if kind = K_macd then
            Some (kind, [(''fast'', nth_or nums 0 12), (''slow'', nth_or nums 1 26), (''signal'', nth_or nums 2 9)])
          else if kind = K_bollinger then
            Some (kind, [(''period'', nth_or nums 0 20), (''multiplier'', nth_or nums 1 2)])
          else if kind = K_pivots then (if length nums > 0 then None else Some (kind, []))
          else if length nums > 1 then None
          else Some (kind, [(''period'', nth_or nums 0 (defaultPeriod kind))]))"

definition lastClosedBar :: "candle list \<Rightarrow> timeframe \<Rightarrow> ms \<Rightarrow> candle option" where
  "lastClosedBar candles tf now = find_last (\<lambda>bar. cd_t bar + msPerTimeframe tf \<le> now) candles"

text \<open>What the data layer returns: a tick per symbol, candles per symbol, timeframe and count.\<close>

record market_feed =
  mf_price :: "string \<Rightarrow> string + live_tick option"
  mf_candles :: "string \<Rightarrow> timeframe \<Rightarrow> nat \<Rightarrow> string + candle list"

text \<open>How many candles each alert needs, and the count fetched once per symbol and timeframe.\<close>

definition candle_need :: "string \<Rightarrow> timeframe \<Rightarrow> alert_row \<Rightarrow> nat" where
  "candle_need s tf a =
     (case al_rule a of
        PriceCross s' l d \<Rightarrow> 0
      | CandleClose s' tf' l d \<Rightarrow> if s' = s \<and> tf' = tf then 4 else 0
      | IndicatorCross s' tf' ind l d p \<Rightarrow>
          if s' = s \<and> tf' = tf \<and> parseIndicatorSpec ind \<noteq> None then 250 else 0)"

definition needed_count :: "alert_row list \<Rightarrow> string \<Rightarrow> timeframe \<Rightarrow> nat" where
  "needed_count alerts s tf = foldl (\<lambda>n a. max n (candle_need s tf a)) 0 alerts"

fun value_reading :: "indicator_value \<Rightarrow> real option" where
  "value_reading (Scalar v) = v"
| "value_reading (Macd_value p) = mp_macd p"
| "value_reading (Bollinger_value p) = bp_middle p"
| "value_reading (Pivots_value p) = map_option cp_pp p"

text \<open>The newest value that is a number.\<close>

definition latest_value :: "indicator_value list \<Rightarrow> real option" where
  "latest_value vs = (case find_last (\<lambda>v. value_reading v \<noteq> None) vs of
     None \<Rightarrow> None | Some v \<Rightarrow> value_reading v)"

datatype reading_error = Feed_error string | Indicator_error registry_error

definition read_rule ::
  "market_feed \<Rightarrow> ms \<Rightarrow> (string \<Rightarrow> timeframe \<Rightarrow> nat) \<Rightarrow> alert_rule \<Rightarrow> reading_error + real option" where
  "read_rule feed now count rule =
     (case rule of
        PriceCross s l d \<Rightarrow>
          (case mf_price feed s of
             Inl e \<Rightarrow> Inl (Feed_error e)
           | Inr None \<Rightarrow> Inr None
           | Inr (Some t) \<Rightarrow> Inr (Some (lt_mid t)))
      | CandleClose s tf l d \<Rightarrow>
          (case mf_candles feed s tf (count s tf) of
             Inl e \<Rightarrow> Inl (Feed_error e)
           | Inr cs \<Rightarrow> Inr (map_option cd_c (lastClosedBar cs tf now)))
      | IndicatorCross s tf ind l d p \<Rightarrow>
          (case parseIndicatorSpec ind of
             None \<Rightarrow> Inr None
           | Some (kind, params) \<Rightarrow>
               (case mf_candles feed s tf (count s tf) of
                  Inl e \<Rightarrow> Inl (Feed_error e)
                | Inr cs \<Rightarrow>
                    if cs = [] then Inr None
                    else (case computeIndicator indicatorRegistry now s tf kind (Some params) cs of
                            Inl e \<Rightarrow> Inl (Indicator_error e)
                          | Inr r \<Rightarrow> Inr (latest_value (ir_values r))))))"

record evaluation_result =
  er_total :: nat
  er_matched :: nat
  er_fired :: nat
  er_skipped :: nat
  er_errors :: "(string \<times> reading_error) list"
  er_deliveries :: "(string \<times> delivery_outcome) list"

text \<open>One alert of the run; \<open>world\<close> gives the answers for its delivery and \<open>now\<close> the claim time.\<close>

definition evaluate_one ::
  "(string \<Rightarrow> delivery_world) \<Rightarrow> ms \<Rightarrow> alert_db \<times> evaluation_result
     \<Rightarrow> alert_row \<times> (reading_error + real option) \<Rightarrow> alert_db \<times> evaluation_result" where
  "evaluate_one world now = (\<lambda>(db, res) (alert, reading).
     case reading of
       Inl e \<Rightarrow> (db, res\<lparr>er_errors := er_errors res @ [(al_id alert, e)]\<rparr>)
     | Inr None \<Rightarrow> (db, res\<lparr>er_skipped := er_skipped res + 1\<rparr>)
     | Inr (Some v) \<Rightarrow>
         (let prev = (case al_rule alert of IndicatorCross s tf i l d p \<Rightarrow> p | _ \<Rightarrow> None);
              isMatch = (case specFromRule (al_rule alert) of
                 None \<Rightarrow> False | Some spec \<Rightarrow> isSatisfiedBy spec v prev)
          in if rule_type_of (al_rule alert) = T_indicatorCross \<and> \<not> isMatch then
               (setRulePreviousValue db (al_userId alert) (al_id alert) (al_rule alert) v, res)
             else if \<not> isMatch then (db, res)
             else let res1 = res\<lparr>er_matched := er_matched res + 1\<rparr> in
               (case claimAlertDelivery db (al_userId alert) (al_id alert) now DELIVERY_LEASE_MS of
                  (db1, False) \<Rightarrow> (db1, res1\<lparr>er_skipped := er_skipped res1 + 1\<rparr>)
                | (db1, True) \<Rightarrow>
                    (case deliverAlert db1 alert (world (al_id alert)) (Some now) of
                       (db2, out) \<Rightarrow>
                         (let res2 = res1\<lparr>er_deliveries := er_deliveries res1 @ [(al_id alert, out)]\<rparr> in
                          if out = Delivered then (db2, res2\<lparr>er_fired := er_fired res2 + 1\<rparr>)
                          else (releaseAlertDeliveryClaim db2 (al_userId alert) (al_id alert) now, res2))))))"

definition evaluateAlerts ::
  "market_feed \<Rightarrow> (string \<Rightarrow> delivery_world) \<Rightarrow> ms \<Rightarrow> alert_db \<Rightarrow> alert_db \<times> evaluation_result" where
  "evaluateAlerts feed world now db =
     (let alerts = listEvaluable db now;
          readings = map (\<lambda>a. (a, read_rule feed now (needed_count alerts) (al_rule a))) alerts
      in foldl (evaluate_one world now)
           (db, \<lparr>er_total = length alerts, er_matched = 0, er_fired = 0, er_skipped = 0,
                 er_errors = [], er_deliveries = []\<rparr>) readings)"

section \<open>Rows under update\<close>

lemma update_where_get:
  "update_where db u i p f = (db', ok) \<Longrightarrow> js_get db' j = (if ok \<and> j = i then map_option f (js_get db i) else js_get db j)
     \<and> ok = (case js_get db i of None \<Rightarrow> False | Some r \<Rightarrow> al_userId r = u \<and> p r)"
  by (auto simp: update_where_def map_laws split: option.splits if_splits)

lemma update_where_same: "update_where db u i p f = (db', False) \<Longrightarrow> db' = db"
  by (auto simp: update_where_def split: option.splits if_splits)

section \<open>The delivery lease\<close>

text \<open>An alert is held at time \<open>t\<close> when it is still waiting to fire and its claim is not stale.\<close>

definition alert_held :: "alert_db \<Rightarrow> string \<times> string \<Rightarrow> ms \<Rightarrow> unit option" where
  "alert_held db k t = (case k of (u, i) \<Rightarrow> (case js_get db i of None \<Rightarrow> None
     | Some r \<Rightarrow> if al_userId r = u \<and> al_active r \<and> al_firedAt r = None
         \<and> (case al_claimedAt r of None \<Rightarrow> False | Some c \<Rightarrow> t - DELIVERY_LEASE_MS \<le> c)
       then Some () else None))"

definition alert_claim :: "string \<times> string \<Rightarrow> unit \<Rightarrow> ms \<Rightarrow> alert_db \<Rightarrow> alert_db \<times> bool" where
  "alert_claim k w t db = (case k of (u, i) \<Rightarrow> claimAlertDelivery db u i t DELIVERY_LEASE_MS)"

interpretation alert_lease: lease alert_held alert_claim DELIVERY_LEASE_MS
proof
  fix k k' :: "string \<times> string" and w :: unit and t :: ms and s s' :: alert_db and ok
  obtain u i where k: "k = (u, i)"
    by fastforce
  show "alert_claim k w t s = (s', True)
      \<Longrightarrow> alert_held s k t = None \<and> (\<forall>t'. t \<le> t' \<and> t' < t + DELIVERY_LEASE_MS \<longrightarrow> alert_held s' k t' = Some w)"
    by (auto simp: k alert_claim_def alert_held_def claimAlertDelivery_def Let_def
        dest!: update_where_get[of _ _ _ _ _ _ _ i] split: option.splits)
  show "alert_claim k w t s = (s', False) \<Longrightarrow> s' = s"
    by (auto simp: k alert_claim_def claimAlertDelivery_def Let_def dest: update_where_same)
  show "alert_held s' k' = alert_held s k'" if c: "alert_claim k w t s = (s', ok)" and "k' \<noteq> k"
  proof (cases ok)
    case True
    obtain u' i' where k': "k' = (u', i')"
      by fastforce
    have "js_get s' i' = (if i' = i then map_option (\<lambda>r. r\<lparr>al_claimedAt := Some t\<rparr>) (js_get s i) else js_get s i')"
      "\<exists>r. js_get s i = Some r \<and> al_userId r = u"
      using c True
      by (auto simp: k alert_claim_def claimAlertDelivery_def Let_def split: option.splits
          dest!: update_where_get[of _ _ _ _ _ _ _ i'])
    then show ?thesis
      using \<open>k' \<noteq> k\<close> by (auto simp: k k' alert_held_def fun_eq_iff)
  next
    case False
    then show ?thesis
      using c by (auto simp: k alert_claim_def claimAlertDelivery_def Let_def dest: update_where_same)
  qed
qed

text \<open>
  once a runner has claimed an alert, no other runner can claim it for the next 30 minutes;
  the losing claim leaves the table unchanged.
\<close>

theorem alert_claim_exclusive:
  assumes "claimAlertDelivery db u i t DELIVERY_LEASE_MS = (db1, True)"
    and "t \<le> t'" "t' < t + DELIVERY_LEASE_MS"
  shows "claimAlertDelivery db1 u i t' DELIVERY_LEASE_MS = (db1, False)"
proof -
  have "alert_claim (u, i) () t db = (db1, True)"
    using assms(1) by (simp add: alert_claim_def)
  moreover obtain db2 ok where c: "alert_claim (u, i) () t' db1 = (db2, ok)"
    by fastforce
  ultimately have "\<not> ok \<and> db2 = db1"
    using alert_lease.exclusive assms(2,3) by blast
  with c show ?thesis
    by (simp add: alert_claim_def)
qed

definition example_alert :: alert_row where
  "example_alert = \<lparr>al_id = ''a'', al_userId = ''u'',
     al_rule = IndicatorCross ''XAUUSD'' H1 ''rsi:14'' 70 Above (Some 60), al_channels = [Email],
     al_active = True, al_firedAt = None, al_lastFiredAt = None, al_snoozeHours = 0,
     al_claimedAt = None, al_createdAt = 0\<rparr>"

theorem alert_claim_exclusive_witness:
  "claimAlertDelivery [(''a'', example_alert\<lparr>al_claimedAt := Some 0\<rparr>)] ''u'' ''a'' 60000 DELIVERY_LEASE_MS
     = ([(''a'', example_alert\<lparr>al_claimedAt := Some 0\<rparr>)], False)"
proof (rule alert_claim_exclusive)
  show "claimAlertDelivery [(''a'', example_alert)] ''u'' ''a'' 0 DELIVERY_LEASE_MS
      = ([(''a'', example_alert\<lparr>al_claimedAt := Some 0\<rparr>)], True)"
    by (simp add: claimAlertDelivery_def update_where_def example_alert_def)
qed (simp_all add: DELIVERY_LEASE_MS_def)

section \<open>One-shot alerts\<close>

text \<open>What concurrent runners do to one alert, in any interleaving, and whether each call succeeds.\<close>

datatype runner_op =
    Op_claim ms
  | Op_release ms
  | Op_finish ms ms
  | Op_baseline alert_rule real

fun runner_apply :: "alert_row \<Rightarrow> runner_op \<Rightarrow> alert_db \<Rightarrow> alert_db \<times> bool" where
  "runner_apply a (Op_claim t) db = claimAlertDelivery db (al_userId a) (al_id a) t DELIVERY_LEASE_MS"
| "runner_apply a (Op_release c) db = (releaseAlertDeliveryClaim db (al_userId a) (al_id a) c, False)"
| "runner_apply a (Op_finish t c) db = markFiredForAlert db a t (Some c)"
| "runner_apply a (Op_baseline rule v) db = (setRulePreviousValue db (al_userId a) (al_id a) rule v, False)"

text \<open>The number of successful finishes of a run.\<close>

fun fire_count :: "alert_row \<Rightarrow> runner_op list \<Rightarrow> alert_db \<Rightarrow> nat" where
  "fire_count a [] db = 0"
| "fire_count a (p # ps) db =
     (case runner_apply a p db of (db', ok) \<Rightarrow>
        (case p of Op_finish t c \<Rightarrow> if ok then 1 else 0 | _ \<Rightarrow> 0) + fire_count a ps db')"

text \<open>Fired and with no claim: nothing can claim or finish it any more.\<close>

definition settled :: "alert_row \<Rightarrow> alert_db \<Rightarrow> bool" where
  "settled a db \<longleftrightarrow> (case js_get db (al_id a) of None \<Rightarrow> True
     | Some r \<Rightarrow> al_firedAt r \<noteq> None \<and> al_claimedAt r = None)"

lemma settled_step:
  assumes "settled a db" "runner_apply a p db = (db', ok)"
  shows "settled a db' \<and> \<not> ok"
  using assms
  by (cases p; cases "js_get db (al_id a)")
    (auto simp: settled_def claimAlertDelivery_def releaseAlertDeliveryClaim_def markFiredForAlert_def
      markFired_def markFiredSnoozed_def claim_matches_def setRulePreviousValue_def update_where_def
      map_laws Let_def split: alert_rule.splits if_splits)

lemma settled_count: "settled a db \<Longrightarrow> fire_count a ps db = 0"
proof (induction ps arbitrary: db)
  case (Cons p ps)
  obtain db' ok where r: "runner_apply a p db = (db', ok)"
    by fastforce
  show ?case
    using settled_step[OF Cons.prems r] Cons.IH[of db'] r by (simp split: runner_op.splits)
qed simp

lemma finish_settles:
  assumes "al_snoozeHours a \<le> 0" "runner_apply a (Op_finish t c) db = (db', True)"
  shows "settled a db'"
  using assms
  by (auto simp: markFiredForAlert_def markFired_def settled_def split: option.splits
      dest!: update_where_get[of _ _ _ _ _ _ _ "al_id a"])

text \<open>
  C7: a one-shot alert fires at most once: in any interleaving of claims, releases, baseline
  updates and delivery completions by any number of runners, with any clocks, at most one
  completion is accepted.
\<close>

theorem one_shot_fires_once:
  assumes "al_snoozeHours a \<le> 0"
  shows "fire_count a ops db \<le> 1"
proof (induction ops arbitrary: db)
  case Nil
  then show ?case by simp
next
  case (Cons p ps)
  obtain db' ok where r: "runner_apply a p db = (db', ok)"
    by fastforce
  show ?case
  proof (cases "ok \<and> (\<exists>t c. p = Op_finish t c)")
    case True
    then obtain t c where "p = Op_finish t c" "runner_apply a (Op_finish t c) db = (db', True)"
      using r by auto
    then show ?thesis
      using settled_count[OF finish_settles[OF assms]] by simp
  next
    case False
    then show ?thesis
      using Cons.IH[of db'] r by (auto split: runner_op.splits)
  qed
qed

theorem one_shot_fires_once_witness:
  "fire_count example_alert [Op_claim 0, Op_finish 5 0, Op_claim 9, Op_finish 12 9] [(''a'', example_alert)] = 1
   \<and> fire_count example_alert [Op_claim 0, Op_finish 5 0, Op_claim 9, Op_finish 12 9] [(''a'', example_alert)] \<le> 1"
  using one_shot_fires_once[of example_alert "[Op_claim 0, Op_finish 5 0, Op_claim 9, Op_finish 12 9]"
      "[(''a'', example_alert)]"]
  by (simp add: example_alert_def claimAlertDelivery_def update_where_def markFiredForAlert_def
      markFired_def claim_matches_def Let_def)

section \<open>Simulation\<close>

lemma specFromRule_eq:
  "specFromRule rule = Some (case rule of
     IndicatorCross s tf i l d p \<Rightarrow> CrossingSpec d l | _ \<Rightarrow> LevelSpec (ar_dir rule) (ar_level rule))"
  by (cases rule) (simp_all add: specFromRule_def alertRuleRegistry_def rule_register_def)

lemma sim_loop_eq:
  assumes "int (length acc) < max 1 m"
  shows "sim_loop fired price m cs acc
    = take (nat (max 1 m)) (acc @ map (\<lambda>c. \<lparr>sf_at = cd_t c, sf_price = price c\<rparr>) (filter fired cs))"
  using assms
proof (induction fired price m cs acc rule: sim_loop.induct)
  case (1 fired price m fires)
  then show ?case by (simp add: nat_le_iff)
next
  case (2 fired price m c cs fires)
  show ?case
  proof (cases "fired c")
    case True
    let ?f = "fires @ [\<lparr>sf_at = cd_t c, sf_price = price c\<rparr>]"
    show ?thesis
    proof (cases "int (length ?f) \<ge> m")
      case full: True
      then have "nat (max 1 m) = length ?f"
        using 2(3) by simp
      then show ?thesis
        using True full by (simp add: Let_def)
    next
      case False
      then show ?thesis
        using True 2 by (simp add: Let_def)
    qed
  next
    case False
    then show ?thesis using 2 by simp
  qed
qed

lemma sum_gaps: "0 < n \<Longrightarrow> sum_list (map (\<lambda>i. g i - g (i - 1)) [1..<n]) = (g (n - 1) :: int) - g 0"
proof (induction n)
  case (Suc n)
  then show ?case by (cases "n = 0") simp_all
qed simp

lemma hold_sum_telescopes: "fires \<noteq> [] \<Longrightarrow> hold_sum fires = sf_at (last fires) - sf_at (hd fires)"
  using sum_gaps[of "length fires" "\<lambda>i. sf_at (fires ! i)"]
  by (simp add: hold_sum_def last_conv_nth hd_conv_nth)

text \<open>The predicate a candle must meet, as the live evaluator would apply it to one price of the bar.\<close>

definition sim_price :: "alert_rule \<Rightarrow> candle \<Rightarrow> real" where
  "sim_price rule c = (case rule of
     PriceCross s l d \<Rightarrow> (case d of Above \<Rightarrow> cd_h c | Below \<Rightarrow> cd_l c) | _ \<Rightarrow> cd_c c)"

lemma simulate_facts:
  "case simulateAlert rule cs maxFires of
     None \<Rightarrow> rule_type_of rule = T_indicatorCross
   | Some r \<Rightarrow> rule_type_of rule \<noteq> T_indicatorCross
       \<and> map sf_at (sim_fires r)
         = map cd_t (take (nat (max 1 (case maxFires of None \<Rightarrow> 50 | Some m \<Rightarrow> m)))
             (filter (\<lambda>c. isSatisfiedBy (the (specFromRule rule)) (sim_price rule c) None) cs))
       \<and> sim_avgHoldMs r = (if length (sim_fires r) < 2 then 0
           else real_of_int (sf_at (last (sim_fires r)) - sf_at (hd (sim_fires r)))
             / real (length (sim_fires r) - 1))"
proof -
  have avg: "sim_avgHoldMs (sim_summary f) = (if length f < 2 then 0
      else real_of_int (sf_at (last f) - sf_at (hd f)) / real (length f - 1))" for f
  proof (cases "length f < 2")
    case False
    then have "f \<noteq> []" by auto
    then show ?thesis
      using False by (simp add: sim_summary_def hold_sum_telescopes)
  qed (simp add: sim_summary_def)
  have fires_of: "sim_fires (sim_summary f) = f" for f
    by (simp add: sim_summary_def)
  have loop: "map sf_at (sim_loop fired price m cs [])
      = map cd_t (take (nat (max 1 m)) (filter fired cs))" for fired price m
    by (subst sim_loop_eq) (simp_all add: take_map[symmetric] o_def)
  show ?thesis
    by (cases rule; cases "ar_dir rule") (simp_all add: avg loop specFromRule_eq sim_price_def fires_of)
qed

text \<open>
  the simulator refuses indicator rules only; for the others it reports, in candle order, the
  first \<open>max 1 maxFires\<close> (50 by default) bars at which the rule's own specification, the one the live
  evaluator uses, is met by the bar's extreme (price rules) or its close; and the average hold
  time is the distance of the first and last firing over the number of gaps.
\<close>

theorem simulate_exact:
  "case simulateAlert rule cs maxFires of
     None \<Rightarrow> rule_type_of rule = T_indicatorCross
   | Some r \<Rightarrow> rule_type_of rule \<noteq> T_indicatorCross
       \<and> map sf_at (sim_fires r)
         = map cd_t (take (nat (max 1 (case maxFires of None \<Rightarrow> 50 | Some m \<Rightarrow> m)))
             (filter (\<lambda>c. isSatisfiedBy (the (specFromRule rule)) (sim_price rule c) None) cs))
       \<and> sim_avgHoldMs r = (if length (sim_fires r) < 2 then 0
           else real_of_int (sf_at (last (sim_fires r)) - sf_at (hd (sim_fires r)))
             / real (length (sim_fires r) - 1))"
  by (rule simulate_facts)

section \<open>Delivery\<close>

lemma deliver_channel_fail:
  "deliver_channel ch db alert w c = (db', out) \<Longrightarrow> out \<noteq> Delivered \<Longrightarrow> db' = db"
  by (cases ch)
    (auto simp: deliverEmail_def deliverTelegram_def deliverWebPush_def finalize_def markFiredForAlert_def
      markFired_def markFiredSnoozed_def dest: update_where_same split: if_splits prod.splits bool.splits)

text \<open>
  delivery stops at the first channel, in the user's order, that succeeds or is not
  configured: its outcome is the result, even when a later channel could have delivered. Only a
  success changes the alert's row.
\<close>

theorem deliver_first_decisive:
  "snd (deliverAlert db alert w c)
     = (case List.find (\<lambda>ch. snd (deliver_channel ch db alert w c) \<in> {Delivered, Not_configured})
             (al_channels alert) of
          None \<Rightarrow> No_channels | Some ch \<Rightarrow> snd (deliver_channel ch db alert w c))
   \<and> (if snd (deliverAlert db alert w c) = Delivered then True else fst (deliverAlert db alert w c) = db)"
proof -
  have "snd (deliver_loop chs db alert w c)
     = (case List.find (\<lambda>ch. snd (deliver_channel ch db alert w c) \<in> {Delivered, Not_configured}) chs of
          None \<Rightarrow> No_channels | Some ch \<Rightarrow> snd (deliver_channel ch db alert w c))
    \<and> (if snd (deliver_loop chs db alert w c) = Delivered then True
       else fst (deliver_loop chs db alert w c) = db)" for chs
  proof (induction chs)
    case (Cons ch chs)
    obtain db' out where d: "deliver_channel ch db alert w c = (db', out)"
      by fastforce
    show ?case
      using Cons deliver_channel_fail[OF d] d by (auto split: if_splits)
  qed simp
  then show ?thesis
    by (simp add: deliverAlert_def)
qed

section \<open>Crossings\<close>

text \<open>
  a re-arming (snoozed) indicator alert fires again without a crossing. When an alert with
  \<open>snoozeHours > 0\<close> matches, it is delivered and its stored baseline is not updated: once the snooze
  is over the alert is evaluated against the old baseline, so the same reading, still beyond the
  level, fires it a second time.
\<close>

theorem snoozed_crossing_refires:
  assumes row: "js_get db (al_id a) = Some a" "al_active a" "al_firedAt a = None" "al_claimedAt a = None"
    and rule: "al_rule a = IndicatorCross s tf ind level Above (Some p)" "p < level" "level \<le> v"
    and snooze: "0 < al_snoozeHours a" "al_channels a = [Email]"
    and w: "dw_email_configured (world (al_id a))" "dw_resend_accepts (world (al_id a))"
    and first: "evaluate_one world t1 (db, res) (a, Inr (Some v)) = (db1, res1)"
    and later: "dw_now (world (al_id a)) + al_snoozeHours a * 3600000 \<le> t2"
  shows "er_fired res1 = er_fired res + 1
    \<and> (\<exists>a'. js_get db1 (al_id a) = Some a' \<and> al_rule a' = al_rule a \<and> \<not> isInSnooze a' t2
         \<and> er_fired (snd (evaluate_one world t2 (db1, res1) (a', Inr (Some v)))) = er_fired res1 + 1)"
proof -
  let ?now = "dw_now (world (al_id a))"
  have run: "evaluate_one world t (d, r) (x, Inr (Some v))
      = (js_set (al_id x) (x\<lparr>al_lastFiredAt := Some (dw_now (world (al_id x))), al_claimedAt := None\<rparr>)
           (js_set (al_id x) (x\<lparr>al_claimedAt := Some t\<rparr>) d),
         r\<lparr>er_matched := er_matched r + 1, er_deliveries := er_deliveries r @ [(al_id x, Delivered)],
           er_fired := er_fired r + 1\<rparr>)"
    if x: "js_get d (al_id x) = Some x" "al_active x" "al_firedAt x = None" "al_claimedAt x = None"
      "al_rule x = al_rule a" "al_snoozeHours x = al_snoozeHours a" "al_channels x = [Email]"
      "al_id x = al_id a" for t d r x
    using x rule snooze w
    by (simp add: evaluate_one_def specFromRule_eq claimAlertDelivery_def update_where_def deliverAlert_def
        deliverEmail_def finalize_def markFiredForAlert_def markFiredSnoozed_def claim_matches_def
        map_laws Let_def)
  define a' where "a' = a\<lparr>al_lastFiredAt := Some ?now, al_claimedAt := None\<rparr>"
  have 1: "js_get db1 (al_id a) = Some a'" "er_fired res1 = er_fired res + 1"
    using first run[OF row refl refl snooze(2) refl, of t1 res] by (auto simp: a'_def map_laws)
  have "real_of_int (al_snoozeHours a) * 3600000 \<le> real_of_int (t2 - ?now)"
    using later by linarith
  then have "\<not> isInSnooze a' t2"
    using snooze(1) by (simp add: a'_def isInSnooze_def field_simps)
  moreover have "er_fired (snd (evaluate_one world t2 (db1, res1) (a', Inr (Some v)))) = er_fired res1 + 1"
    using run[of db1 a' t2 res1] 1 row snooze by (simp add: a'_def)
  ultimately show ?thesis
    using 1 by (auto simp: a'_def)
qed

definition example_world :: delivery_world where
  "example_world = \<lparr>dw_email_configured = True, dw_telegram_configured = False, dw_vapid_configured = False,
     dw_resend_accepts = True, dw_telegram_accepts = False, dw_push = [], dw_now = 1000\<rparr>"

definition example_result :: evaluation_result where
  "example_result = \<lparr>er_total = 1, er_matched = 0, er_fired = 0, er_skipped = 0, er_errors = [], er_deliveries = []\<rparr>"

theorem snoozed_crossing_refires_witness:
  "\<exists>db1 res1. evaluate_one (\<lambda>i. example_world) 500
       ([(''a'', example_alert\<lparr>al_snoozeHours := 1\<rparr>)], example_result)
       (example_alert\<lparr>al_snoozeHours := 1\<rparr>, Inr (Some 75)) = (db1, res1) \<and> er_fired res1 = 1"
proof -
  let ?a = "example_alert\<lparr>al_snoozeHours := 1\<rparr>"
  obtain db1 res1 where first: "evaluate_one (\<lambda>i. example_world) 500 ([(''a'', ?a)], example_result)
      (?a, Inr (Some 75)) = (db1, res1)"
    by fastforce
  have "er_fired res1 = er_fired example_result + 1"
    using snoozed_crossing_refires[OF _ _ _ _ _ _ _ _ _ _ _ first, of "''XAUUSD''" H1 "''rsi:14''" 70 60 3601000]
    by (simp add: example_alert_def example_world_def)
  with first show ?thesis
    by (simp add: example_result_def)
qed

end
