(* ===== verification/Billing.thy ===== *)
theory Billing
  imports Calendar Js_String
begin

text \<open>
  Plans, subscriptions, payments and checkout: \<open>packages/db/src/schema/billing.ts\<close>,
  \<open>packages/db/src/queries/billing.ts\<close> and \<open>billing-extras.ts\<close>, the feature lists of
  \<open>packages/shared/src/billing/features.ts\<close>, the gates of \<open>apps/web/src/lib/billing-gate.ts\<close> and the
  handler \<open>apps/web/src/app/api/billing/checkout/route.ts\<close>. The tables are lists of rows in table
  order with their unique indexes; the random ids, the lease tokens, the clock and the answer of the
  payment provider are arguments, and \<open>issued\<close> records the invoices the provider has created.
  A statement of the handler may fail, before or after its write: which do is an argument too.
\<close>

section \<open>Rows\<close>

datatype subscription_status = S_trialing | S_active | S_past_due | S_canceled | S_expired

datatype payment_status =
    P_waiting | P_confirming | P_confirmed | P_sending | P_finished | P_failed | P_expired | P_refunded

datatype checkout_status = C_pending | C_provider_created | C_completed | C_failed

record plan_row =
  plan_id :: string
  plan_priceUsdCents :: int
  plan_payCurrency :: "string option"
  plan_features :: "string list option"
  plan_monthlyTokenCap :: "int option"

record subscription_row =
  su_id :: string
  su_tenant :: string
  su_plan :: string
  su_status :: subscription_status
  su_invoice :: "string option"
  su_periodEnd :: "ms option"
  su_canceledAt :: "ms option"
  su_createdAt :: ms

record payment_row =
  pa_id :: string
  pa_subscription :: "string option"
  pa_tenant :: string
  pa_paymentId :: "string option"
  pa_invoice :: "string option"
  pa_status :: payment_status
  pa_amount :: "string option"
  pa_currency :: "string option"
  pa_txHash :: "string option"

record checkout_attempt =
  ca_id :: string
  ca_tenant :: string
  ca_key :: string
  ca_plan :: string
  ca_status :: checkout_status
  ca_invoice :: "string option"
  ca_url :: "string option"
  ca_error :: "string option"
  ca_processingAt :: "ms option"
  ca_token :: "string option"

record billing_db =
  plans :: "plan_row list"
  subscriptions :: "subscription_row list"
  payments :: "payment_row list"
  attempts :: "checkout_attempt list"
  issued :: "(string \<times> string \<times> string) list"

text \<open>\<open>UPDATE ... SET f WHERE P\<close> on a table.\<close>

definition update_rows :: "('a \<Rightarrow> bool) \<Rightarrow> ('a \<Rightarrow> 'a) \<Rightarrow> 'a list \<Rightarrow> 'a list" where
  "update_rows P f rows = map (\<lambda>r. if P r then f r else r) rows"

text \<open>A nullable text in a condition: null and the empty text are false.\<close>

definition truthy :: "string option \<Rightarrow> bool" where
  "truthy s \<longleftrightarrow> s \<noteq> None \<and> s \<noteq> Some []"

section \<open>Subscriptions and gates\<close>

definition getPlan :: "billing_db \<Rightarrow> string \<Rightarrow> plan_row option" where
  "getPlan db i = List.find (\<lambda>p. plan_id p = i) (plans db)"

text \<open>The newest subscription of the tenant with its plan.\<close>

definition getSubscription :: "billing_db \<Rightarrow> string \<Rightarrow> (subscription_row \<times> plan_row option) option" where
  "getSubscription db tenant =
     (case sort_key (\<lambda>s. - su_createdAt s) (filter (\<lambda>s. su_tenant s = tenant) (subscriptions db)) of
        [] \<Rightarrow> None
      | s # _ \<Rightarrow> Some (s, getPlan db (su_plan s)))"

definition status_active :: "subscription_status \<Rightarrow> bool" where
  "status_active st \<longleftrightarrow> st = S_active \<or> st = S_trialing"

fun isSubscriptionActive :: "(subscription_row \<times> plan_row option) option \<Rightarrow> bool" where
  "isSubscriptionActive None = False"
| "isSubscriptionActive (Some (s, p)) = status_active (su_status s)"

definition FREE_FEATURES :: "string list" where
  "FREE_FEATURES = [''chat_basic'', ''chart_basic'', ''journal_basic'']"

definition getEffectiveFeatures :: "(subscription_row \<times> plan_row option) option \<Rightarrow> string list" where
  "getEffectiveFeatures sub =
     (case sub of
        Some (s, Some p) \<Rightarrow>
          (case plan_features p of
             Some fs \<Rightarrow> if isSubscriptionActive sub then fs else FREE_FEATURES
           | None \<Rightarrow> FREE_FEATURES)
      | _ \<Rightarrow> FREE_FEATURES)"

text \<open>\<open>None\<close> is unlimited.\<close>

definition getEffectiveTokenCap :: "(subscription_row \<times> plan_row option) option \<Rightarrow> int option" where
  "getEffectiveTokenCap sub =
     (case sub of
        Some (s, Some p) \<Rightarrow> if isSubscriptionActive sub then plan_monthlyTokenCap p else Some 100000
      | _ \<Rightarrow> Some 100000)"

definition PLAN_FEATURES :: "(string \<times> string list) list" where
  "PLAN_FEATURES =
     [(''free'', [''chat_basic'', ''chart_basic'', ''journal_basic'']),
      (''pro'', [''chat_advanced'', ''chart_advanced'', ''journal_full'', ''alerts_unlimited'', ''ai_high_quota'']),
      (''enterprise'', [''chat_advanced'', ''chart_advanced'', ''journal_full'', ''alerts_unlimited'',
        ''ai_unlimited'', ''api_access''])]"

definition hasFeature :: "string list option \<Rightarrow> string \<Rightarrow> bool" where
  "hasFeature fs feature = (case fs of None \<Rightarrow> False | Some xs \<Rightarrow> feature \<in> set xs)"

definition inferPlanName :: "string list option \<Rightarrow> string" where
  "inferPlanName fs =
     (case fs of
        None \<Rightarrow> ''free''
      | Some xs \<Rightarrow> (case List.find (\<lambda>(name, features). list_all (\<lambda>f. f \<in> set xs) features) PLAN_FEATURES of
          None \<Rightarrow> ''free'' | Some (name, _) \<Rightarrow> name))"

definition FREE_PLAN_ALERT_LIMIT :: nat where
  "FREE_PLAN_ALERT_LIMIT = 5"

definition FREE_PLAN_JOURNAL_MONTHLY_LIMIT :: nat where
  "FREE_PLAN_JOURNAL_MONTHLY_LIMIT = 50"

datatype gate_result = Allowed | Upgrade_required | Alert_limit_reached | Journal_limit_reached

definition checkFeature :: "billing_db \<Rightarrow> string \<Rightarrow> string \<Rightarrow> gate_result" where
  "checkFeature db user feature =
     (if hasFeature (Some (getEffectiveFeatures (getSubscription db user))) feature then Allowed
      else Upgrade_required)"

text \<open>The numbers of active alerts and of the month's journal entries come from their tables.\<close>

definition checkAlertLimit :: "billing_db \<Rightarrow> string \<Rightarrow> nat \<Rightarrow> gate_result" where
  "checkAlertLimit db user activeCount =
     (if hasFeature (Some (getEffectiveFeatures (getSubscription db user))) ''alerts_unlimited'' then Allowed
      else if activeCount \<ge> FREE_PLAN_ALERT_LIMIT then Alert_limit_reached
      else Allowed)"

definition checkJournalLimit :: "billing_db \<Rightarrow> string \<Rightarrow> nat \<Rightarrow> gate_result" where
  "checkJournalLimit db user monthlyCount =
     (if hasFeature (Some (getEffectiveFeatures (getSubscription db user))) ''journal_full'' then Allowed
      else if monthlyCount \<ge> FREE_PLAN_JOURNAL_MONTHLY_LIMIT then Journal_limit_reached
      else Allowed)"

definition getUserTokenCap :: "billing_db \<Rightarrow> string \<Rightarrow> int option" where
  "getUserTokenCap db user = getEffectiveTokenCap (getSubscription db user)"

section \<open>Checkout attempts\<close>

datatype checkout_claim =
    Claimed checkout_attempt
  | Already_completed checkout_attempt
  | In_progress
  | Conflict

definition find_attempt :: "billing_db \<Rightarrow> string \<Rightarrow> string \<Rightarrow> checkout_attempt option" where
  "find_attempt db user key = List.find (\<lambda>a. ca_tenant a = user \<and> ca_key a = key) (attempts db)"

definition CHECKOUT_LEASE_MS :: ms where
  "CHECKOUT_LEASE_MS = 10 * 60000"

text \<open>
  The insert does nothing when the tenant has used the key before. Each reclaiming \<open>UPDATE\<close> writes a
  new token.
\<close>

definition claimCheckoutAttempt ::
  "billing_db \<Rightarrow> string \<Rightarrow> string \<Rightarrow> string \<Rightarrow> string \<Rightarrow> string \<Rightarrow> ms \<Rightarrow> billing_db \<times> checkout_claim" where
  "claimCheckoutAttempt db user plan key newId token now =
     (case find_attempt db user key of
        None \<Rightarrow>
          (let a = \<lparr>ca_id = newId, ca_tenant = user, ca_key = key, ca_plan = plan, ca_status = C_pending,
                    ca_invoice = None, ca_url = None, ca_error = None, ca_processingAt = Some now,
                    ca_token = Some token\<rparr>
           in (db\<lparr>attempts := attempts db @ [a]\<rparr>, Claimed a))
      | Some e \<Rightarrow>
          if ca_plan e \<noteq> plan then (db, Conflict)
          else if ca_status e = C_completed \<and> truthy (ca_invoice e) \<and> truthy (ca_url e) then
            (db, Already_completed e)
          else if ca_status e = C_provider_created \<and> truthy (ca_invoice e) \<and> truthy (ca_url e) then
            (if (case ca_processingAt e of None \<Rightarrow> True | Some t \<Rightarrow> t < now - CHECKOUT_LEASE_MS) then
               (let e' = e\<lparr>ca_processingAt := Some now, ca_token := Some token\<rparr>
                in (db\<lparr>attempts := update_rows (\<lambda>a. ca_id a = ca_id e) (\<lambda>a. e') (attempts db)\<rparr>, Claimed e'))
             else (db, In_progress))
          else if ca_status e = C_failed then
            (let e' = e\<lparr>ca_status := C_pending, ca_error := None, ca_processingAt := Some now,
                       ca_token := Some token\<rparr>
             in (db\<lparr>attempts := update_rows (\<lambda>a. ca_id a = ca_id e) (\<lambda>a. e') (attempts db)\<rparr>, Claimed e'))
          else (db, In_progress))"

text \<open>
  The updates guarded by the owner token; \<open>None\<close> is the exception that the lease was lost.
\<close>

definition update_owned ::
  "billing_db \<Rightarrow> string \<Rightarrow> string \<Rightarrow> (checkout_attempt \<Rightarrow> checkout_attempt) \<Rightarrow> billing_db option" where
  "update_owned db attemptId token f =
     (let mine = (\<lambda>a. ca_id a = attemptId \<and> ca_token a = Some token)
      in if list_ex mine (attempts db) then Some (db\<lparr>attempts := update_rows mine f (attempts db)\<rparr>) else None)"

definition saveCheckoutInvoice ::
  "billing_db \<Rightarrow> string \<Rightarrow> string \<Rightarrow> string \<Rightarrow> string \<Rightarrow> ms \<Rightarrow> billing_db option" where
  "saveCheckoutInvoice db attemptId invoice url token now =
     update_owned db attemptId token (\<lambda>a. a\<lparr>ca_status := C_provider_created, ca_invoice := Some invoice,
       ca_url := Some url, ca_error := None, ca_processingAt := Some now\<rparr>)"

definition completeCheckoutAttempt ::
  "billing_db \<Rightarrow> string \<Rightarrow> string \<Rightarrow> string \<Rightarrow> string \<Rightarrow> billing_db option" where
  "completeCheckoutAttempt db attemptId invoice url token =
     update_owned db attemptId token (\<lambda>a. a\<lparr>ca_status := C_completed, ca_invoice := Some invoice,
       ca_url := Some url, ca_error := None, ca_processingAt := None, ca_token := None\<rparr>)"

definition failCheckoutAttempt :: "billing_db \<Rightarrow> string \<Rightarrow> string \<Rightarrow> string \<Rightarrow> billing_db option" where
  "failCheckoutAttempt db attemptId err token =
     update_owned db attemptId token (\<lambda>a. a\<lparr>ca_status := C_failed, ca_error := Some err,
       ca_processingAt := None, ca_token := None\<rparr>)"

section \<open>Subscriptions and payments of a checkout\<close>

text \<open>
  The partial unique index: the tenant has another active or trialing row. A violation is \<open>None\<close>.
\<close>

definition active_elsewhere :: "billing_db \<Rightarrow> string \<Rightarrow> string \<Rightarrow> bool" where
  "active_elsewhere db tenant i \<longleftrightarrow>
     list_ex (\<lambda>s. su_tenant s = tenant \<and> su_id s \<noteq> i \<and> status_active (su_status s)) (subscriptions db)"

definition upsertSubscription ::
  "billing_db \<Rightarrow> string \<Rightarrow> string \<Rightarrow> string \<Rightarrow> string \<Rightarrow> ms \<Rightarrow> (billing_db \<times> string) option" where
  "upsertSubscription db user plan invoice newId now =
     (case List.find (\<lambda>s. su_tenant s = user) (subscriptions db) of
        Some sub \<Rightarrow>
          if active_elsewhere db user (su_id sub) then None
          else Some (db\<lparr>subscriptions := update_rows (\<lambda>s. su_id s = su_id sub)
            (\<lambda>s. s\<lparr>su_plan := plan, su_status := S_active, su_invoice := Some invoice\<rparr>) (subscriptions db)\<rparr>,
            su_id sub)
      | None \<Rightarrow>
          Some (db\<lparr>subscriptions := subscriptions db @ [\<lparr>su_id = newId, su_tenant = user, su_plan = plan,
            su_status = S_active, su_invoice = Some invoice, su_periodEnd = None, su_canceledAt = None,
            su_createdAt = now\<rparr>]\<rparr>, newId))"

text \<open>The insert does nothing when the invoice has a payment row already.\<close>

definition createPayment ::
  "billing_db \<Rightarrow> string \<Rightarrow> string \<Rightarrow> string \<Rightarrow> string \<Rightarrow> string \<Rightarrow> billing_db \<times> payment_row" where
  "createPayment db subId user invoice currency newId =
     (case List.find (\<lambda>p. pa_invoice p = Some invoice) (payments db) of
        Some p \<Rightarrow> (db, p)
      | None \<Rightarrow>
          (let p = \<lparr>pa_id = newId, pa_subscription = Some subId, pa_tenant = user, pa_paymentId = None,
                    pa_invoice = Some invoice, pa_status = P_waiting, pa_amount = None,
                    pa_currency = Some currency, pa_txHash = None\<rparr>
           in (db\<lparr>payments := payments db @ [p]\<rparr>, p)))"

section \<open>The checkout handler\<close>

text \<open>
  What one request brings along: its input, the values drawn during the request, and what goes
  wrong in it. \<open>rq_provider\<close> is the provider's answer, \<open>Inl\<close> when the call raises; \<open>rq_lost\<close> is an
  invoice the provider created although the call raised (its answer was lost or unreadable).
  \<open>rq_down\<close> lists the statements of the request that fail with a database error and are not applied.
\<close>

datatype checkout_statement = St_plan | St_claim | St_save | St_upsert | St_payment | St_complete | St_fail

record checkout_request =
  rq_user :: string
  rq_plan :: string
  rq_key :: "string option"
  rq_configured :: bool
  rq_ids :: "string \<times> string \<times> string"
  rq_token :: string
  rq_provider :: "string + string \<times> string"
  rq_lost :: "string option"
  rq_down :: "checkout_statement list"
  rq_now :: ms

datatype checkout_response =
    Checkout_url string string bool
  | Checkout_error nat
  | Checkout_thrown string

definition IDEMPOTENCY_KEY_MAX_LENGTH :: nat where
  "IDEMPOTENCY_KEY_MAX_LENGTH = 200"

text \<open>
  The body of the \<open>try\<close> block. \<open>Inl\<close> is the message it throws with, with the state reached so far.
\<close>

definition provider_created :: "billing_db \<Rightarrow> checkout_attempt \<Rightarrow> string \<Rightarrow> billing_db" where
  "provider_created db a invoice = db\<lparr>issued := issued db @ [(ca_tenant a, ca_key a, invoice)]\<rparr>"

definition checkout_invoice ::
  "billing_db \<Rightarrow> checkout_request \<Rightarrow> checkout_attempt \<Rightarrow> billing_db \<times> (string + string \<times> string)" where
  "checkout_invoice db rq a =
     (if truthy (ca_invoice a) \<and> truthy (ca_url a) then (db, Inr (the (ca_invoice a), the (ca_url a)))
      else case rq_provider rq of
        Inl e \<Rightarrow> (case rq_lost rq of None \<Rightarrow> db | Some lost \<Rightarrow> provider_created db a lost, Inl e)
      | Inr (invoice, url) \<Rightarrow>
          (let db1 = provider_created db a invoice
           in if St_save \<in> set (rq_down rq) then (db1, Inl ''database error'')
              else case saveCheckoutInvoice db1 (ca_id a) invoice url (the (ca_token a)) (rq_now rq) of
                None \<Rightarrow> (db1, Inl ''Checkout claim lease was lost before invoice persistence'')
              | Some db2 \<Rightarrow> (db2, Inr (invoice, url))))"

definition checkout_work ::
  "billing_db \<Rightarrow> checkout_request \<Rightarrow> plan_row \<Rightarrow> checkout_attempt \<Rightarrow> billing_db \<times> (string + string \<times> string)" where
  "checkout_work db rq plan a =
     (case checkout_invoice db rq a of
        (db1, Inl e) \<Rightarrow> (db1, Inl e)
      | (db1, Inr (invoice, url)) \<Rightarrow>
          if St_upsert \<in> set (rq_down rq) then (db1, Inl ''database error'')
          else (case upsertSubscription db1 (rq_user rq) (plan_id plan) invoice (fst (snd (rq_ids rq))) (rq_now rq) of
             None \<Rightarrow> (db1, Inl ''unique violation'')
           | Some (db2, subId) \<Rightarrow>
               if St_payment \<in> set (rq_down rq) then (db2, Inl ''database error'')
               else (let db3 = fst (createPayment db2 subId (rq_user rq) invoice
                    (case plan_payCurrency plan of None \<Rightarrow> ''usdt'' | Some c \<Rightarrow> c) (snd (snd (rq_ids rq))))
                in if St_complete \<in> set (rq_down rq) then (db3, Inl ''database error'')
                   else case completeCheckoutAttempt db3 (ca_id a) invoice url (the (ca_token a)) of
                     None \<Rightarrow> (db3, Inl ''Checkout claim lease was lost before completion'')
                   | Some db4 \<Rightarrow> (db4, Inr (invoice, url)))))"

definition checkout_claimed ::
  "billing_db \<Rightarrow> checkout_request \<Rightarrow> plan_row \<Rightarrow> checkout_attempt \<Rightarrow> billing_db \<times> checkout_response" where
  "checkout_claimed db rq plan a =
     (case checkout_work db rq plan a of
        (db1, Inr (invoice, url)) \<Rightarrow> (db1, Checkout_url url invoice False)
      | (db1, Inl e) \<Rightarrow>
          if St_fail \<in> set (rq_down rq) then (db1, Checkout_thrown ''database error'')
          else (case failCheckoutAttempt db1 (ca_id a) e (the (ca_token a)) of
             None \<Rightarrow> (db1, Checkout_thrown ''Checkout claim lease was lost before failure persistence'')
           | Some db2 \<Rightarrow> (db2, Checkout_thrown e)))"

definition checkout :: "billing_db \<Rightarrow> checkout_request \<Rightarrow> billing_db \<times> checkout_response" where
  "checkout db rq =
     (let key = map_option js_trim (rq_key rq) in
      if \<not> truthy key \<or> length (the key) > IDEMPOTENCY_KEY_MAX_LENGTH then (db, Checkout_error 400)
      else if St_plan \<in> set (rq_down rq) then (db, Checkout_thrown ''database error'')
      else case getPlan db (rq_plan rq) of
        None \<Rightarrow> (db, Checkout_error 404)
      | Some plan \<Rightarrow>
          if plan_priceUsdCents plan = 0 then (db, Checkout_error 400)
          else if \<not> rq_configured rq then (db, Checkout_error 503)
          else if St_claim \<in> set (rq_down rq) then (db, Checkout_thrown ''database error'')
          else (case claimCheckoutAttempt db (rq_user rq) (plan_id plan) (the key) (fst (rq_ids rq))
                  (rq_token rq) (rq_now rq) of
                  (db1, Already_completed a) \<Rightarrow>
                    (db1, Checkout_url (the (ca_url a)) (the (ca_invoice a)) True)
                | (db1, In_progress) \<Rightarrow> (db1, Checkout_error 409)
                | (db1, Conflict) \<Rightarrow> (db1, Checkout_error 409)
                | (db1, Claimed a) \<Rightarrow> checkout_claimed db1 rq plan a))"

section \<open>Table updates\<close>

lemma set_update_rows: "set (update_rows P f rows) = (\<lambda>r. if P r then f r else r) ` set rows"
  by (simp add: update_rows_def)

lemma update_rows_key: "(\<And>r. P r \<Longrightarrow> g (f r) = g r) \<Longrightarrow> map g (update_rows P f rows) = map g rows"
  by (simp add: update_rows_def)

lemma update_rows_only:
  assumes "distinct (map g rows)" "e \<in> set rows"
  shows "update_rows (\<lambda>a. g a = g e) (\<lambda>a. h e) rows = update_rows (\<lambda>a. g a = g e) h rows"
proof -
  have "a = e" if "a \<in> set rows" "g a = g e" for a
    using assms that by (meson distinct_map inj_onD)
  then show ?thesis
    by (auto simp: update_rows_def)
qed

section \<open>One invoice for each idempotency key\<close>

definition ca_pair :: "checkout_attempt \<Rightarrow> string \<times> string" where
  "ca_pair a = (ca_tenant a, ca_key a)"

text \<open>What no update of an attempt changes.\<close>

definition ca_sig :: "checkout_attempt \<Rightarrow> string \<times> (string \<times> string) \<times> string" where
  "ca_sig a = (ca_id a, ca_pair a, ca_plan a)"

lemma sig_maps:
  assumes "map ca_sig xs = map ca_sig ys"
  shows "map ca_id xs = map ca_id ys" "map ca_pair xs = map ca_pair ys"
proof -
  have "ca_id = fst \<circ> ca_sig" "ca_pair = fst \<circ> snd \<circ> ca_sig"
    by (auto simp: ca_sig_def)
  then show "map ca_id xs = map ca_id ys" "map ca_pair xs = map ca_pair ys"
    using assms by (metis map_map)+
qed

text \<open>The invoice and link a retry reuses.\<close>

definition ca_link :: "checkout_attempt \<Rightarrow> (string \<times> string) option" where
  "ca_link a = (if truthy (ca_invoice a) \<and> truthy (ca_url a)
     then Some (the (ca_invoice a), the (ca_url a)) else None)"

definition linked :: "billing_db \<Rightarrow> string \<times> string \<Rightarrow> string \<times> string \<Rightarrow> bool" where
  "linked db p l \<longleftrightarrow> (\<exists>a\<in>set (attempts db). ca_pair a = p \<and> ca_link a = Some l)"

definition issued_pairs :: "billing_db \<Rightarrow> (string \<times> string) list" where
  "issued_pairs db = map (\<lambda>(t, k, i). (t, k)) (issued db)"

text \<open>Ids and keys are unique.\<close>

definition checkout_ok :: "billing_db \<Rightarrow> bool" where
  "checkout_ok db \<longleftrightarrow> distinct (map ca_id (attempts db)) \<and> distinct (map ca_pair (attempts db))"

lemma linked_unique:
  assumes "checkout_ok db" "linked db p l" "linked db p l'"
  shows "l = l'"
proof -
  obtain a where a: "a \<in> set (attempts db)" "ca_pair a = p" "ca_link a = Some l"
    using assms(2) unfolding linked_def by blast
  obtain b where b: "b \<in> set (attempts db)" "ca_pair b = p" "ca_link b = Some l'"
    using assms(3) unfolding linked_def by blast
  have "inj_on ca_pair (set (attempts db))"
    using assms(1) by (simp add: checkout_ok_def distinct_map)
  from inj_onD[OF this _ a(1) b(1)] have "a = b"
    using a(2) b(2) by simp
  then show ?thesis
    using a b by simp
qed

text \<open>The same attempts, with every stored link kept.\<close>

definition advances :: "billing_db \<Rightarrow> billing_db \<Rightarrow> bool" where
  "advances db db' \<longleftrightarrow> checkout_ok db' \<and> map ca_sig (attempts db') = map ca_sig (attempts db)
     \<and> (\<forall>p l. linked db p l \<longrightarrow> linked db' p l)"

lemma advances_linked: "advances db db' \<Longrightarrow> linked db p l \<Longrightarrow> linked db' p l"
  unfolding advances_def by blast

lemma advances_refl: "checkout_ok db \<Longrightarrow> advances db db"
  by (simp add: advances_def)

lemma advances_trans: "advances d1 d2 \<Longrightarrow> advances d2 d3 \<Longrightarrow> advances d1 d3"
  by (simp add: advances_def)

lemma advances_frame:
  "checkout_ok db \<Longrightarrow> attempts db' = attempts db \<Longrightarrow> advances db db'"
  by (simp add: advances_def checkout_ok_def linked_def)

lemma advances_row:
  assumes "advances db db'" "checkout_ok db" "a \<in> set (attempts db)" "b \<in> set (attempts db')" "ca_id b = ca_id a"
  shows "ca_sig b = ca_sig a"
proof -
  have "map ca_sig (attempts db) = map ca_sig (attempts db')"
    using assms(1) by (simp add: advances_def)
  then have "ca_sig b \<in> set (map ca_sig (attempts db))"
    using assms(4) by simp
  then obtain c where c: "c \<in> set (attempts db)" "ca_sig c = ca_sig b"
    by auto
  then have "c = a"
    using assms(2,3,5) by (auto simp: ca_sig_def checkout_ok_def distinct_map dest: inj_onD)
  then show ?thesis
    using c(2) by simp
qed

lemma update_advances:
  assumes ok: "checkout_ok db" and eq: "attempts db' = update_rows P f (attempts db)"
    and f: "\<And>a. P a \<Longrightarrow> a \<in> set (attempts db) \<Longrightarrow> ca_sig (f a) = ca_sig a
      \<and> (\<forall>l. ca_link a = Some l \<longrightarrow> ca_link (f a) = Some l)"
  shows "advances db db'"
proof -
  have sigs: "map ca_sig (attempts db') = map ca_sig (attempts db)"
    using f by (auto simp: eq update_rows_def)
  have "linked db' p l" if l: "linked db p l" for p l
  proof -
    obtain a where a: "a \<in> set (attempts db)" "ca_pair a = p" "ca_link a = Some l"
      using l by (auto simp: linked_def)
    then show ?thesis
      unfolding linked_def using f[of a]
      by (intro bexI[of _ "if P a then f a else a"]) (auto simp: eq set_update_rows ca_sig_def)
  qed
  then show ?thesis
    using ok sigs sig_maps[OF sigs] by (simp add: advances_def checkout_ok_def)
qed

lemma owned_advances:
  assumes "checkout_ok db" "update_owned db i token f = Some db'"
    and "\<And>a. a \<in> set (attempts db) \<Longrightarrow> ca_id a = i \<Longrightarrow> ca_sig (f a) = ca_sig a
      \<and> (\<forall>l. ca_link a = Some l \<longrightarrow> ca_link (f a) = Some l)"
  shows "advances db db' \<and> issued db' = issued db"
  using assms
  by (intro conjI update_advances[OF assms(1), where P = "\<lambda>a. ca_id a = i \<and> ca_token a = Some token" and f = f])
    (auto simp: update_owned_def Let_def split: if_splits)

text \<open>A claim adds an attempt without an invoice, takes an attempt over, or changes nothing.\<close>

definition claimed_from :: "billing_db \<Rightarrow> billing_db \<Rightarrow> string \<Rightarrow> bool" where
  "claimed_from db db' newId \<longleftrightarrow> checkout_ok db' \<and> issued db' = issued db
     \<and> set (map ca_id (attempts db')) \<subseteq> insert newId (set (map ca_id (attempts db)))
     \<and> (\<forall>p l. linked db p l \<longrightarrow> linked db' p l)"

lemma claim_ok:
  assumes ok: "checkout_ok db" and fresh: "newId \<notin> set (map ca_id (attempts db))"
    and c: "claimCheckoutAttempt db user plan key newId token now = (db', res)"
  shows "claimed_from db db' newId
    \<and> (case res of Claimed a \<Rightarrow> a \<in> set (attempts db') \<and> ca_token a = Some token \<and> ca_pair a = (user, key)
       | Already_completed a \<Rightarrow> db' = db \<and> linked db (user, key) (the (ca_invoice a), the (ca_url a))
       | _ \<Rightarrow> db' = db)"
proof (cases "find_attempt db user key")
  case None
  then have new: "(user, key) \<notin> ca_pair ` set (attempts db)"
    by (auto simp: find_attempt_def find_None_iff ca_pair_def)
  obtain a where a: "db' = db\<lparr>attempts := attempts db @ [a]\<rparr>" "res = Claimed a" "ca_id a = newId"
      "ca_pair a = (user, key)" "ca_token a = Some token"
    using None c by (auto simp: claimCheckoutAttempt_def Let_def ca_pair_def)
  then show ?thesis
    using ok fresh new by (auto simp: claimed_from_def checkout_ok_def linked_def image_iff)
next
  case (Some e)
  then have e: "e \<in> set (attempts db)" "ca_tenant e = user" "ca_key e = key"
    by (auto simp: find_attempt_def find_Some_iff)
  have reclaimed: ?thesis
    if h: "db' = db\<lparr>attempts := update_rows (\<lambda>a. ca_id a = ca_id e) (\<lambda>a. h e) (attempts db)\<rparr>" "res = Claimed (h e)"
      and keep: "\<And>a. ca_sig (h a) = ca_sig a \<and> ca_link (h a) = ca_link a"
        "ca_token (h e) = Some token" for h :: "checkout_attempt \<Rightarrow> checkout_attempt"
  proof -
    have "attempts db' = update_rows (\<lambda>a. ca_id a = ca_id e) h (attempts db)"
      using update_rows_only[of ca_id "attempts db" e h] ok e(1) h(1) by (simp add: checkout_ok_def)
    then have adv: "advances db db'"
      by (rule update_advances[OF ok]) (simp add: keep(1))
    then have "claimed_from db db' newId"
      using sig_maps(1)[of "attempts db'" "attempts db"] h(1)
      by (simp add: advances_def claimed_from_def) (metis list.set_map subset_insertI)
    moreover have "h e \<in> set (attempts db')"
      using e(1) h(1) by (auto simp: set_update_rows image_iff)
    ultimately show ?thesis
      using h(2) keep(2) keep(1)[of e] e by (simp add: ca_pair_def ca_sig_def)
  qed
  let ?lease = "\<lambda>a::checkout_attempt. a\<lparr>ca_processingAt := Some now, ca_token := Some token\<rparr>"
  let ?again = "\<lambda>a::checkout_attempt. a\<lparr>ca_status := C_pending, ca_error := None,
        ca_processingAt := Some now, ca_token := Some token\<rparr>"
  from Some c consider
      "db' = db" "res = Already_completed e" "truthy (ca_invoice e)" "truthy (ca_url e)"
    | "db' = db" "res = In_progress \<or> res = Conflict"
    | "db' = db\<lparr>attempts := update_rows (\<lambda>a. ca_id a = ca_id e) (\<lambda>a. ?lease e) (attempts db)\<rparr>" "res = Claimed (?lease e)"
    | "db' = db\<lparr>attempts := update_rows (\<lambda>a. ca_id a = ca_id e) (\<lambda>a. ?again e) (attempts db)\<rparr>" "res = Claimed (?again e)"
    by (auto simp: claimCheckoutAttempt_def Let_def split: if_splits)
  then show ?thesis
  proof cases
    case 1
    then have "linked db (user, key) (the (ca_invoice e), the (ca_url e))"
      using e by (auto simp: linked_def ca_pair_def ca_link_def)
    with 1 show ?thesis
      using ok by (auto simp: claimed_from_def)
  next
    case 2
    then show ?thesis
      using ok by (auto simp: claimed_from_def)
  next
    case 3
    then show ?thesis
      by (intro reclaimed[of ?lease]) (simp_all add: ca_sig_def ca_pair_def ca_link_def)
  next
    case 4
    then show ?thesis
      by (intro reclaimed[of ?again]) (simp_all add: ca_sig_def ca_pair_def ca_link_def)
  qed
qed

lemma bookkeeping_frame:
  "upsertSubscription db u pl iv newId now = Some (db', i) \<Longrightarrow> attempts db' = attempts db \<and> issued db' = issued db"
  "attempts (fst (createPayment db i u iv cur newId)) = attempts db"
  "issued (fst (createPayment db i u iv cur newId)) = issued db"
  by (auto simp: upsertSubscription_def createPayment_def Let_def split: option.splits if_splits)

text \<open>The provider's answers carry an invoice id and a link.\<close>

definition provider_ok :: "checkout_request \<Rightarrow> bool" where
  "provider_ok rq = (case rq_provider rq of Inl e \<Rightarrow> True | Inr (invoice, url) \<Rightarrow> invoice \<noteq> [] \<and> url \<noteq> [])"

text \<open>
  The provider may have created an invoice that the request does not store: its answer was lost, or
  the statement that stores it failed.
\<close>

definition loses_invoice :: "checkout_request \<Rightarrow> bool" where
  "loses_invoice rq = (case rq_provider rq of Inl e \<Rightarrow> rq_lost rq \<noteq> None | Inr _ \<Rightarrow> St_save \<in> set (rq_down rq))"

text \<open>What a request adds to the provider's invoices: nothing, or one for a key that had none stored.\<close>

definition issues_for :: "checkout_request \<Rightarrow> billing_db \<Rightarrow> string \<times> string \<Rightarrow> billing_db \<Rightarrow> bool" where
  "issues_for rq db p db' \<longleftrightarrow> issued_pairs db' = issued_pairs db
     \<or> issued_pairs db' = issued_pairs db @ [p]
       \<and> (loses_invoice rq \<or> (\<nexists>l. linked db p l) \<and> (\<exists>l. linked db' p l))"

lemma issues_later:
  "issues_for rq db p d1 \<Longrightarrow> advances d1 d2 \<Longrightarrow> issued d2 = issued d1 \<Longrightarrow> issues_for rq db p d2"
  unfolding issues_for_def advances_def issued_pairs_def by metis

lemma checkout_invoice_ok:
  assumes ok: "checkout_ok db" and a: "a \<in> set (attempts db)" "ca_token a = Some token" and rq: "provider_ok rq"
    and c: "checkout_invoice db rq a = (db', res)"
  shows "advances db db' \<and> issues_for rq db (ca_pair a) db'
    \<and> (case res of Inl e \<Rightarrow> True
       | Inr (invoice, url) \<Rightarrow> invoice \<noteq> [] \<and> url \<noteq> [] \<and> linked db' (ca_pair a) (invoice, url))"
proof -
  have made: "issued_pairs (provider_created db a i) = issued_pairs db @ [ca_pair a]"
    "attempts (provider_created db a i) = attempts db" for i
    by (simp_all add: provider_created_def issued_pairs_def ca_pair_def)
  have frame: "advances db db" "advances db (provider_created db a i)" for i
    using advances_frame[OF ok] made(2) by simp_all
  consider (stored) l where "ca_link a = Some l" | (raised) e where "ca_link a = None" "rq_provider rq = Inl e"
    | (unsaved) invoice url where "ca_link a = None" "rq_provider rq = Inr (invoice, url)" "St_save \<in> set (rq_down rq)"
    | (saved) invoice url where "ca_link a = None" "rq_provider rq = Inr (invoice, url)" "St_save \<notin> set (rq_down rq)"
    by (cases "ca_link a"; cases "rq_provider rq") force+
  then show ?thesis
  proof cases
    case stored
    then have "db' = db" "res = Inr l" "fst l \<noteq> []" "snd l \<noteq> []" "linked db (ca_pair a) l"
      using c a(1) by (auto simp: checkout_invoice_def ca_link_def truthy_def linked_def split: if_splits)
    then show ?thesis
      using frame(1) by (cases l) (simp add: issues_for_def)
  next
    case raised
    then have "res = Inl e" "db' = (case rq_lost rq of None \<Rightarrow> db | Some lost \<Rightarrow> provider_created db a lost)"
      using c by (auto simp: checkout_invoice_def ca_link_def split: if_splits)
    then show ?thesis
      using frame made raised(2) by (cases "rq_lost rq") (simp_all add: issues_for_def loses_invoice_def)
  next
    case unsaved
    then have "res = Inl ''database error''" "db' = provider_created db a invoice"
      using c by (auto simp: checkout_invoice_def ca_link_def Let_def split: if_splits)
    then show ?thesis
      using frame made unsaved(2,3) by (simp add: issues_for_def loses_invoice_def)
  next
    case saved
    then have ne: "invoice \<noteq> []" "url \<noteq> []"
      using rq by (simp_all add: provider_ok_def)
    define f where "f = (\<lambda>a::checkout_attempt. a\<lparr>ca_status := C_provider_created, ca_invoice := Some invoice,
         ca_url := Some url, ca_error := None, ca_processingAt := Some (rq_now rq)\<rparr>)"
    let ?db = "provider_created db a invoice"
    define mine where "mine = (\<lambda>b::checkout_attempt. ca_id b = ca_id a \<and> ca_token b = Some token)"
    have "list_ex mine (attempts ?db)"
      using a by (auto simp: list_ex_iff mine_def made(2))
    then have db': "res = Inr (invoice, url)" "db' = ?db\<lparr>attempts := update_rows mine f (attempts ?db)\<rparr>"
      using c saved a(2)
      by (auto simp: checkout_invoice_def ca_link_def saveCheckoutInvoice_def update_owned_def mine_def f_def
          Let_def split: if_splits)
    have uniq: "b = a" if "b \<in> set (attempts db)" "ca_id b = ca_id a \<or> ca_pair b = ca_pair a" for b
      using that a(1) ok by (auto simp: checkout_ok_def distinct_map dest: inj_onD)
    have "advances ?db db'"
    proof (rule update_advances)
      show "checkout_ok ?db"
        using ok by (simp add: checkout_ok_def made(2))
      show "attempts db' = update_rows mine f (attempts ?db)"
        by (simp add: db'(2))
      show "ca_sig (f b) = ca_sig b \<and> (\<forall>l. ca_link b = Some l \<longrightarrow> ca_link (f b) = Some l)"
        if "mine b" "b \<in> set (attempts ?db)" for b
        using uniq[of b] that saved(1) by (auto simp: mine_def made(2) f_def ca_sig_def ca_pair_def)
    qed
    moreover have lk: "linked db' (ca_pair a) (invoice, url)"
      using a ne unfolding linked_def
      by (intro bexI[of _ "f a"])
        (auto simp: db'(2) made(2) set_update_rows mine_def f_def ca_pair_def ca_link_def truthy_def image_iff)
    moreover have "\<not> linked db (ca_pair a) l" for l
    proof
      assume "linked db (ca_pair a) l"
      then obtain b where "b \<in> set (attempts db)" "ca_pair b = ca_pair a" "ca_link b = Some l"
        by (auto simp: linked_def)
      then show False
        using uniq[of b] saved(1) by simp
    qed
    moreover have "issued_pairs db' = issued_pairs db @ [ca_pair a]"
      using made(1) by (simp add: db'(2) issued_pairs_def)
    ultimately show ?thesis
      using db'(1) ne advances_trans[OF frame(2)] by (auto simp: issues_for_def)
  qed
qed

lemma complete_advances:
  assumes ok: "checkout_ok db" and l: "linked db (ca_pair a) (invoice, url)" and adv: "advances db0 db" "checkout_ok db0"
    and a: "a \<in> set (attempts db0)"
    and c: "completeCheckoutAttempt db (ca_id a) invoice url token = Some db'"
  shows "advances db db' \<and> issued db' = issued db"
proof (rule owned_advances[OF ok c[unfolded completeCheckoutAttempt_def]])
  fix b assume b: "b \<in> set (attempts db)" "ca_id b = ca_id a"
  obtain r where r: "r \<in> set (attempts db)" "ca_pair r = ca_pair a" "ca_link r = Some (invoice, url)"
    using l by (auto simp: linked_def)
  have "ca_pair b = ca_pair r"
    using advances_row[OF adv a b] r(2) by (simp add: ca_sig_def)
  then have "b = r"
    using ok b(1) r(1) by (auto simp: checkout_ok_def distinct_map dest: inj_onD)
  then show "ca_sig (b\<lparr>ca_status := C_completed, ca_invoice := Some invoice, ca_url := Some url,
      ca_error := None, ca_processingAt := None, ca_token := None\<rparr>) = ca_sig b
    \<and> (\<forall>l. ca_link b = Some l \<longrightarrow> ca_link (b\<lparr>ca_status := C_completed, ca_invoice := Some invoice,
        ca_url := Some url, ca_error := None, ca_processingAt := None, ca_token := None\<rparr>) = Some l)"
    using r(3) by (auto simp: ca_sig_def ca_pair_def ca_link_def truthy_def split: if_splits)
qed

lemma fail_advances:
  "checkout_ok db \<Longrightarrow> failCheckoutAttempt db i e token = Some db' \<Longrightarrow> advances db db' \<and> issued db' = issued db"
  unfolding failCheckoutAttempt_def
  by (rule owned_advances) (auto simp: ca_sig_def ca_pair_def ca_link_def)

lemma checkout_work_ok:
  assumes ok: "checkout_ok db" and a: "a \<in> set (attempts db)" "ca_token a = Some token" and rq: "provider_ok rq"
    and w: "checkout_work db rq plan a = (db', res)"
  shows "advances db db' \<and> issues_for rq db (ca_pair a) db'
    \<and> (case res of Inl e \<Rightarrow> True | Inr l \<Rightarrow> linked db' (ca_pair a) l)"
proof -
  obtain db1 r1 where i: "checkout_invoice db rq a = (db1, r1)"
    by fastforce
  note inv = checkout_invoice_ok[OF ok a rq i]
  show ?thesis
  proof (cases r1)
    case (Inl e)
    then have "db' = db1" "res = Inl e"
      using w by (simp_all add: checkout_work_def i)
    then show ?thesis using inv by simp
  next
    case (Inr q)
    obtain invoice url where q: "q = (invoice, url)"
      by fastforce
    have adv1: "advances db db1" "issues_for rq db (ca_pair a) db1" "linked db1 (ca_pair a) (invoice, url)"
      using inv Inr q by auto
    have later: ?thesis if "advances db1 db'" "issued db' = issued db1"
        "case res of Inl e \<Rightarrow> True | Inr l \<Rightarrow> l = (invoice, url)"
    proof -
      have "linked db' (ca_pair a) (invoice, url)"
        using adv1(3) that(1) unfolding advances_def by blast
      then show ?thesis
        using advances_trans[OF adv1(1) that(1)] issues_later[OF adv1(2) that(1,2)] that(3)
        by (cases res) simp_all
    qed
    have ok1: "checkout_ok db1"
      using adv1(1) by (simp add: advances_def)
    have same: ?thesis if "attempts db' = attempts db1" "issued db' = issued db1" "\<exists>e. res = Inl e"
      using later[OF advances_frame[OF ok1 that(1)] that(2)] that(3) by auto
    show ?thesis
    proof (cases "upsertSubscription db1 (rq_user rq) (plan_id plan) invoice (fst (snd (rq_ids rq))) (rq_now rq)")
      case None
      then show ?thesis using same w by (auto simp: checkout_work_def i Inr q split: if_splits)
    next
      case (Some s)
      obtain db2 sid where s: "s = (db2, sid)" by fastforce
      define cur where "cur = (case plan_payCurrency plan of None \<Rightarrow> ''usdt'' | Some c \<Rightarrow> c)"
      define db3 where "db3 = fst (createPayment db2 sid (rq_user rq) invoice cur (snd (snd (rq_ids rq))))"
      have f2: "attempts db2 = attempts db1" "issued db2 = issued db1"
        using bookkeeping_frame(1)[OF Some[unfolded s]] by simp_all
      then have f3: "attempts db3 = attempts db1" "issued db3 = issued db1"
        by (simp_all add: db3_def bookkeeping_frame(2,3))
      have adv3: "advances db1 db3"
        by (rule advances_frame[OF ok1 f3(1)])
      have l3: "linked db3 (ca_pair a) (invoice, url)"
        by (rule advances_linked[OF adv3 adv1(3)])
      consider "db' = db1" "\<exists>e. res = Inl e" | "db' = db2" "\<exists>e. res = Inl e" | "db' = db3" "\<exists>e. res = Inl e"
        | "completeCheckoutAttempt db3 (ca_id a) invoice url token = Some db'" "res = Inr (invoice, url)"
        using w[unfolded checkout_work_def i Inr q Some s Let_def prod.case sum.case option.case,
          folded cur_def, folded db3_def] a(2)
        by (auto split: option.splits if_splits)
      then show ?thesis
      proof cases
        case 4
        have "advances db3 db' \<and> issued db' = issued db3"
          using complete_advances[OF _ l3 advances_trans[OF adv1(1) adv3] ok a(1) 4(1)] adv3
          by (simp add: advances_def)
        then show ?thesis
          using later advances_trans[OF adv3] f3(2) 4(2) by simp
      qed (use same f2 f3 in auto)
    qed
  qed
qed

lemma checkout_claimed_ok:
  assumes ok: "checkout_ok db" and a: "a \<in> set (attempts db)" "ca_token a = Some token" and rq: "provider_ok rq"
    and c: "checkout_claimed db rq plan a = (db', resp)"
  shows "advances db db' \<and> issues_for rq db (ca_pair a) db'
    \<and> (\<forall>url invoice b. resp = Checkout_url url invoice b \<longrightarrow> linked db' (ca_pair a) (invoice, url))"
proof -
  obtain db1 res where w: "checkout_work db rq plan a = (db1, res)"
    by fastforce
  note work = checkout_work_ok[OF ok a rq w]
  consider "db' = db1" "\<forall>url invoice b. resp = Checkout_url url invoice b \<longrightarrow> res = Inr (invoice, url)"
    | e where "failCheckoutAttempt db1 (ca_id a) e token = Some db'" "\<forall>url invoice b. resp \<noteq> Checkout_url url invoice b"
    using c a(2) by (auto simp: checkout_claimed_def w split: sum.splits option.splits if_splits)
  then show ?thesis
  proof cases
    case 1
    then show ?thesis using work by auto
  next
    case 2
    then have "advances db1 db' \<and> issued db' = issued db1"
      using fail_advances work by (auto simp: advances_def)
    then show ?thesis
      using work 2(2) advances_trans issues_later by blast
  qed
qed

text \<open>The tenant and the trimmed key of a request.\<close>

definition rq_pair :: "checkout_request \<Rightarrow> string \<times> string" where
  "rq_pair rq = (rq_user rq, the (map_option js_trim (rq_key rq)))"

lemma checkout_step_ok:
  assumes ok: "checkout_ok db" and fresh: "fst (rq_ids rq) \<notin> set (map ca_id (attempts db))" and rq: "provider_ok rq"
    and c: "checkout db rq = (db', resp)"
  shows "checkout_ok db'
    \<and> set (map ca_id (attempts db')) \<subseteq> insert (fst (rq_ids rq)) (set (map ca_id (attempts db)))
    \<and> (\<forall>p l. linked db p l \<longrightarrow> linked db' p l) \<and> issues_for rq db (rq_pair rq) db'
    \<and> (\<forall>url invoice b. resp = Checkout_url url invoice b \<longrightarrow> linked db' (rq_pair rq) (invoice, url))"
proof (cases "db' = db \<and> (\<forall>url invoice b. resp \<noteq> Checkout_url url invoice b)")
  case True
  then show ?thesis
    using ok by (auto simp: issues_for_def)
next
  case False
  obtain plan db1 res
    where cl: "claimCheckoutAttempt db (rq_user rq) (plan_id plan) (snd (rq_pair rq)) (fst (rq_ids rq))
        (rq_token rq) (rq_now rq) = (db1, res)"
      and r: "(case res of Already_completed a \<Rightarrow> (db1, Checkout_url (the (ca_url a)) (the (ca_invoice a)) True)
        | In_progress \<Rightarrow> (db1, Checkout_error 409) | Conflict \<Rightarrow> (db1, Checkout_error 409)
        | Claimed a \<Rightarrow> checkout_claimed db1 rq plan a) = (db', resp)"
    using c False by (auto simp: checkout_def Let_def truthy_def rq_pair_def split: option.splits if_splits prod.splits)
  note inv = claim_ok[OF ok fresh cl]
  have from1: "claimed_from db db1 (fst (rq_ids rq))"
    using inv by blast
  show ?thesis
  proof (cases res)
    case (Claimed a)
    then have a: "a \<in> set (attempts db1)" "ca_token a = Some (rq_token rq)" "ca_pair a = rq_pair rq" "checkout_ok db1"
      using inv by (auto simp: rq_pair_def claimed_from_def)
    have step: "advances db1 db' \<and> issues_for rq db1 (rq_pair rq) db'
      \<and> (\<forall>url invoice b. resp = Checkout_url url invoice b \<longrightarrow> linked db' (rq_pair rq) (invoice, url))"
      using checkout_claimed_ok[OF a(4,1,2) rq, of plan db' resp] r Claimed a(3) by simp
    have "map ca_id (attempts db') = map ca_id (attempts db1)"
      using step sig_maps(1) unfolding advances_def by blast
    moreover have "issues_for rq db (rq_pair rq) db'"
      using step from1 unfolding issues_for_def claimed_from_def issued_pairs_def by metis
    ultimately show ?thesis
      using step from1 unfolding advances_def claimed_from_def by metis
  qed (use inv from1 ok r in \<open>auto simp: claimed_from_def issues_for_def rq_pair_def\<close>)
qed

lemma claim_plan:
  "claimCheckoutAttempt db user plan key newId token now = (db', Claimed a) \<Longrightarrow> ca_plan a = plan"
  by (auto simp: claimCheckoutAttempt_def Let_def split: option.splits if_splits)

text \<open>Requests handled one after the other, and their answers.\<close>

definition checkouts :: "billing_db \<Rightarrow> checkout_request list \<Rightarrow> billing_db" where
  "checkouts db rqs = foldl (\<lambda>db rq. fst (checkout db rq)) db rqs"

fun checkout_answers :: "billing_db \<Rightarrow> checkout_request list \<Rightarrow> (checkout_request \<times> checkout_response) list" where
  "checkout_answers db [] = []"
| "checkout_answers db (rq # rqs) = (rq, snd (checkout db rq)) # checkout_answers (fst (checkout db rq)) rqs"

definition lost_for :: "string \<times> string \<Rightarrow> checkout_request list \<Rightarrow> nat" where
  "lost_for p rqs = length (filter (\<lambda>rq. loses_invoice rq \<and> rq_pair rq = p) rqs)"

definition fresh_ids :: "billing_db \<Rightarrow> checkout_request list \<Rightarrow> bool" where
  "fresh_ids db rqs \<longleftrightarrow> distinct (map (fst \<circ> rq_ids) rqs)
     \<and> set (map (fst \<circ> rq_ids) rqs) \<inter> set (map ca_id (attempts db)) = {}"

lemma checkouts_ok:
  assumes "checkout_ok db" "fresh_ids db rqs" "\<forall>rq\<in>set rqs. provider_ok rq"
  shows "checkout_ok (checkouts db rqs)
    \<and> set (map ca_id (attempts (checkouts db rqs))) \<subseteq> set (map ca_id (attempts db)) \<union> set (map (fst \<circ> rq_ids) rqs)
    \<and> (\<forall>p l. linked db p l \<longrightarrow> linked (checkouts db rqs) p l)
    \<and> (\<forall>rq url invoice b. (rq, Checkout_url url invoice b) \<in> set (checkout_answers db rqs)
         \<longrightarrow> linked (checkouts db rqs) (rq_pair rq) (invoice, url))
    \<and> count_list (issued_pairs (checkouts db rqs)) p \<le> count_list (issued_pairs db) p + lost_for p rqs
        + (if (\<nexists>l. linked db p l) \<and> (\<exists>l. linked (checkouts db rqs) p l) then 1 else 0)"
  using assms
proof (induction rqs arbitrary: db)
  case Nil
  then show ?case by (simp add: checkouts_def lost_for_def)
next
  case (Cons rq rqs)
  obtain db1 resp where c: "checkout db rq = (db1, resp)"
    by fastforce
  have new: "fst (rq_ids rq) \<notin> set (map ca_id (attempts db))"
    using Cons.prems(2) by (auto simp: fresh_ids_def)
  note step = checkout_step_ok[OF Cons.prems(1) new _ c]
  have step: "checkout_ok db1"
    "set (map ca_id (attempts db1)) \<subseteq> insert (fst (rq_ids rq)) (set (map ca_id (attempts db)))"
    "\<forall>p l. linked db p l \<longrightarrow> linked db1 p l" "issues_for rq db (rq_pair rq) db1"
    "\<forall>url invoice b. resp = Checkout_url url invoice b \<longrightarrow> linked db1 (rq_pair rq) (invoice, url)"
    using step Cons.prems(3) by auto
  have cnt: "count_list (issued_pairs db1) p \<le> count_list (issued_pairs db) p
      + (if loses_invoice rq \<and> rq_pair rq = p then 1 else 0)
      + (if (\<nexists>l. linked db p l) \<and> (\<exists>l. linked db1 p l) then 1 else 0)"
    using step(4) by (auto simp: issues_for_def)
  have "fresh_ids db1 rqs"
    using Cons.prems(2) step(2) unfolding fresh_ids_def list.map o_apply distinct.simps list.set by blast
  then have IH: "checkout_ok (checkouts db1 rqs)"
    "set (map ca_id (attempts (checkouts db1 rqs))) \<subseteq> set (map ca_id (attempts db1)) \<union> set (map (fst \<circ> rq_ids) rqs)"
    "\<forall>p l. linked db1 p l \<longrightarrow> linked (checkouts db1 rqs) p l"
    "\<forall>rq url invoice b. (rq, Checkout_url url invoice b) \<in> set (checkout_answers db1 rqs)
       \<longrightarrow> linked (checkouts db1 rqs) (rq_pair rq) (invoice, url)"
    "count_list (issued_pairs (checkouts db1 rqs)) p \<le> count_list (issued_pairs db1) p + lost_for p rqs
      + (if (\<nexists>l. linked db1 p l) \<and> (\<exists>l. linked (checkouts db1 rqs) p l) then 1 else 0)"
    using Cons.IH[OF step(1)] Cons.prems(3) by auto
  have fin: "checkouts db (rq # rqs) = checkouts db1 rqs"
    by (simp add: checkouts_def c)
  have "count_list (issued_pairs (checkouts db1 rqs)) p \<le> count_list (issued_pairs db) p + lost_for p (rq # rqs)
      + (if (\<nexists>l. linked db p l) \<and> (\<exists>l. linked (checkouts db1 rqs) p l) then 1 else 0)"
  proof -
    have "(\<exists>l. linked db p l) \<Longrightarrow> (\<exists>l. linked db1 p l)" "(\<exists>l. linked db1 p l) \<Longrightarrow> (\<exists>l. linked (checkouts db1 rqs) p l)"
      using IH(3) step(3) by blast+
    moreover have "lost_for p (rq # rqs) = (if loses_invoice rq \<and> rq_pair rq = p then 1 else 0) + lost_for p rqs"
      by (simp add: lost_for_def)
    ultimately show ?thesis
      using cnt IH(5)
      by (cases "\<exists>l. linked db p l"; cases "\<exists>l. linked db1 p l"; cases "\<exists>l. linked (checkouts db1 rqs) p l";
          simp only: if_True if_False simp_thms; linarith?)
  qed
  moreover have "linked (checkouts db1 rqs) (rq_pair r) (invoice, url)"
    if "(r, Checkout_url url invoice b) \<in> set (checkout_answers db (rq # rqs))" for r url invoice b
  proof -
    from that consider "r = rq" "resp = Checkout_url url invoice b"
      | "(r, Checkout_url url invoice b) \<in> set (checkout_answers db1 rqs)"
      by (auto simp: c)
    then show ?thesis
      using IH(3,4) step(5) by cases blast+
  qed
  moreover have "linked (checkouts db1 rqs) q l" if "linked db q l" for q l
    using that IH(3) step(3) by blast
  moreover have "set (map ca_id (attempts (checkouts db1 rqs)))
      \<subseteq> set (map ca_id (attempts db)) \<union> set (map (fst \<circ> rq_ids) (rq # rqs))"
    using IH(2) step(2) by auto
  ultimately show ?case
    unfolding fin by (intro conjI IH(1)) blast+
qed

text \<open>
  C4: requests are handled one after the other, with any keys, and with provider calls, database
  statements, leases and unique indexes failing in any of them. For a tenant's idempotency key the
  provider has created at most one invoice, plus one for each request of that key that lost its
  invoice, because the provider's answer did not arrive or the statement that stores the invoice
  failed after the call. And all answers with a payment link that the key ever got carry the same
  link and the same invoice.
\<close>

theorem checkout_one_invoice:
  assumes "attempts db = []" "issued db = []" "distinct (map (fst \<circ> rq_ids) rqs)"
    and "\<forall>rq\<in>set rqs. provider_ok rq"
  shows "length (filter (\<lambda>(t, k, i). (t, k) = p) (issued (checkouts db rqs)))
      \<le> 1 + length (filter (\<lambda>rq. loses_invoice rq \<and> rq_pair rq = p) rqs)
    \<and> (\<forall>r1 url1 i1 b1 r2 url2 i2 b2.
         (r1, Checkout_url url1 i1 b1) \<in> set (checkout_answers db rqs)
       \<longrightarrow> (r2, Checkout_url url2 i2 b2) \<in> set (checkout_answers db rqs)
       \<longrightarrow> rq_pair r1 = rq_pair r2 \<longrightarrow> url1 = url2 \<and> i1 = i2)"
proof -
  have ok: "checkout_ok db" "fresh_ids db rqs"
    using assms by (simp_all add: checkout_ok_def fresh_ids_def)
  note run = checkouts_ok[OF ok assms(4), of p]
  have fin: "checkout_ok (checkouts db rqs)"
    by (rule run[THEN conjunct1])
  have answers: "(rq, Checkout_url url invoice b) \<in> set (checkout_answers db rqs)
      \<Longrightarrow> linked (checkouts db rqs) (rq_pair rq) (invoice, url)" for rq url invoice b
    using run by blast
  have "count_list (issued_pairs (checkouts db rqs)) p
      = length (filter (\<lambda>(t, k, i). (t, k) = p) (issued (checkouts db rqs)))"
    by (auto simp: count_list_eq_length_filter issued_pairs_def filter_map o_def split_def intro!: arg_cong[where f = length] filter_cong)
  moreover have "count_list (issued_pairs db) p = 0"
    using assms(2) by (simp add: issued_pairs_def)
  ultimately have "length (filter (\<lambda>(t, k, i). (t, k) = p) (issued (checkouts db rqs)))
      \<le> 1 + length (filter (\<lambda>rq. loses_invoice rq \<and> rq_pair rq = p) rqs)"
    using run by (auto simp: lost_for_def split: if_splits)
  moreover have "url1 = url2 \<and> i1 = i2"
    if "(r1, Checkout_url url1 i1 b1) \<in> set (checkout_answers db rqs)"
      "(r2, Checkout_url url2 i2 b2) \<in> set (checkout_answers db rqs)" "rq_pair r1 = rq_pair r2"
    for r1 url1 i1 b1 r2 url2 i2 b2
  proof -
    have "linked (checkouts db rqs) (rq_pair r1) (i1, url1)" "linked (checkouts db rqs) (rq_pair r1) (i2, url2)"
      using answers that by metis+
    then show ?thesis
      using linked_unique[OF fin] by blast
  qed
  ultimately show ?thesis
    by blast
qed

definition example_plan :: plan_row where
  "example_plan = \<lparr>plan_id = ''pro'', plan_priceUsdCents = 2900, plan_payCurrency = None,
     plan_features = Some [''alerts_unlimited''], plan_monthlyTokenCap = Some 1000000\<rparr>"

definition example_billing :: billing_db where
  "example_billing = \<lparr>plans = [example_plan], subscriptions = [], payments = [], attempts = [], issued = []\<rparr>"

definition example_request :: "string \<Rightarrow> string + string \<times> string \<Rightarrow> checkout_request" where
  "example_request i answer = \<lparr>rq_user = ''u'', rq_plan = ''pro'', rq_key = Some ''k'', rq_configured = True,
     rq_ids = (i, i, i), rq_token = i, rq_provider = answer, rq_lost = None, rq_down = [], rq_now = 0\<rparr>"

text \<open>
  Five requests of one key: the provider is down; the invoice \<open>i\<close> is created but not stored; the
  invoice \<open>j\<close> is created and stored, but the payment fails; the retry uses \<open>j\<close>, and the next answer
  is a repetition. Two invoices exist, of which the payer only ever sees \<open>j\<close>.
\<close>

definition example_checkouts :: "checkout_request list" where
  "example_checkouts =
     [example_request ''1'' (Inl ''down''),
      (example_request ''2'' (Inr (''i'', ''l'')))\<lparr>rq_down := [St_save]\<rparr>,
      (example_request ''3'' (Inr (''j'', ''m'')))\<lparr>rq_down := [St_payment]\<rparr>,
      example_request ''4'' (Inr (''n'', ''n'')), example_request ''5'' (Inl ''down'')]"

theorem checkout_one_invoice_witness:
  "issued (checkouts example_billing example_checkouts) = [(''u'', ''k'', ''i''), (''u'', ''k'', ''j'')]
   \<and> map snd (checkout_answers example_billing example_checkouts)
       = [Checkout_thrown ''down'', Checkout_thrown ''database error'', Checkout_thrown ''database error'',
          Checkout_url ''m'' ''j'' False, Checkout_url ''m'' ''j'' True]
   \<and> length (filter (\<lambda>(t, k, i). (t, k) = (''u'', ''k'')) (issued (checkouts example_billing example_checkouts)))
       \<le> 1 + length (filter (\<lambda>rq. loses_invoice rq \<and> rq_pair rq = (''u'', ''k'')) example_checkouts)"
proof (intro conjI)
  show "issued (checkouts example_billing example_checkouts) = [(''u'', ''k'', ''i''), (''u'', ''k'', ''j'')]"
    by code_simp
  show "map snd (checkout_answers example_billing example_checkouts)
       = [Checkout_thrown ''down'', Checkout_thrown ''database error'', Checkout_thrown ''database error'',
          Checkout_url ''m'' ''j'' False, Checkout_url ''m'' ''j'' True]"
    by code_simp
  show "length (filter (\<lambda>(t, k, i). (t, k) = (''u'', ''k'')) (issued (checkouts example_billing example_checkouts)))
       \<le> 1 + length (filter (\<lambda>rq. loses_invoice rq \<and> rq_pair rq = (''u'', ''k'')) example_checkouts)"
    by (rule checkout_one_invoice[THEN conjunct1])
      (simp_all add: example_billing_def example_checkouts_def example_request_def provider_ok_def)
qed

text \<open>An answer with a link is a repetition or the end of the whole work.\<close>

lemma upsert_plans: "upsertSubscription db u pl iv newId now = Some (db', i) \<Longrightarrow> plans db' = plans db"
  by (auto simp: upsertSubscription_def split: option.splits if_splits)

lemma owned_plans: "update_owned db i token f = Some db' \<Longrightarrow> plans db' = plans db"
  by (auto simp: update_owned_def Let_def split: if_splits)

lemma createPayment_plans: "plans (fst (createPayment db i u iv cur newId)) = plans db"
  by (simp add: createPayment_def Let_def split: option.splits)

lemma checkout_invoice_plans: "plans (fst (checkout_invoice db rq a)) = plans db"
  by (auto simp: checkout_invoice_def provider_created_def Let_def saveCheckoutInvoice_def
      split: sum.splits option.splits dest!: owned_plans)

lemma checkout_url_cases:
  assumes "checkout db rq = (db', Checkout_url url invoice b)"
  obtains (repeated) plan key a where "getPlan db (rq_plan rq) = Some plan"
      "claimCheckoutAttempt db (rq_user rq) (plan_id plan) key (fst (rq_ids rq)) (rq_token rq) (rq_now rq)
        = (db', Already_completed a)" "b"
  | (worked) plan key db1 a where "getPlan db (rq_plan rq) = Some plan"
      "claimCheckoutAttempt db (rq_user rq) (plan_id plan) key (fst (rq_ids rq)) (rq_token rq) (rq_now rq)
        = (db1, Claimed a)" "checkout_work db1 rq plan a = (db', Inr (invoice, url))" "\<not> b"
proof -
  from assms obtain key plan db1 res
    where k: "getPlan db (rq_plan rq) = Some plan"
    and c: "claimCheckoutAttempt db (rq_user rq) (plan_id plan) key (fst (rq_ids rq)) (rq_token rq) (rq_now rq)
        = (db1, res)"
    and r: "(case res of Already_completed a \<Rightarrow> (db1, Checkout_url (the (ca_url a)) (the (ca_invoice a)) True)
        | In_progress \<Rightarrow> (db1, Checkout_error 409) | Conflict \<Rightarrow> (db1, Checkout_error 409)
        | Claimed a \<Rightarrow> checkout_claimed db1 rq plan a) = (db', Checkout_url url invoice b)"
    by (auto simp: checkout_def Let_def truthy_def split: option.splits if_splits prod.splits)
  show ?thesis
  proof (cases res)
    case (Claimed a)
    then have "checkout_work db1 rq plan a = (db', Inr (invoice, url))" "\<not> b"
      using r by (auto simp: checkout_claimed_def split: prod.splits sum.splits option.splits if_splits)
    then show ?thesis
      using worked k c Claimed by blast
  next
    case (Already_completed a)
    then show ?thesis
      using repeated k c r by auto
  qed (use r in auto)
qed

section \<open>What a checkout unlocks\<close>

lemma books_frame:
  "update_owned db i token f = Some db' \<Longrightarrow> subscriptions db' = subscriptions db \<and> payments db' = payments db"
  "claimCheckoutAttempt db user pl key newId token now = (db', res)
    \<Longrightarrow> subscriptions db' = subscriptions db \<and> payments db' = payments db \<and> plans db' = plans db"
  "subscriptions (fst (checkout_invoice db rq a)) = subscriptions db \<and> payments (fst (checkout_invoice db rq a)) = payments db"
proof -
  show *: "update_owned db i token f = Some db' \<Longrightarrow> subscriptions db' = subscriptions db \<and> payments db' = payments db"
    for db i token f db'
    by (auto simp: update_owned_def Let_def split: if_splits)
  show "claimCheckoutAttempt db user pl key newId token now = (db', res)
    \<Longrightarrow> subscriptions db' = subscriptions db \<and> payments db' = payments db \<and> plans db' = plans db"
    by (auto simp: claimCheckoutAttempt_def Let_def split: option.splits if_splits)
  show "subscriptions (fst (checkout_invoice db rq a)) = subscriptions db \<and> payments (fst (checkout_invoice db rq a)) = payments db"
    by (auto simp: checkout_invoice_def provider_created_def Let_def saveCheckoutInvoice_def
        split: sum.splits option.splits dest!: *)
qed

text \<open>
  C20: a checkout unlocks the plan before anything is paid. When a tenant without a subscription
  gets a payment link, the tenant's effective features are already those of the chosen plan, while
  the only payment of the invoice is still waiting.
\<close>

theorem unpaid_checkout_unlocks_plan:
  assumes none: "\<forall>s\<in>set (subscriptions db). su_tenant s \<noteq> rq_user rq"
      "\<forall>p\<in>set (payments db). pa_invoice p \<noteq> Some invoice"
    and plan: "getPlan db (rq_plan rq) = Some plan" "plan_features plan = Some fs"
    and c: "checkout db rq = (db', Checkout_url url invoice False)"
  shows "getEffectiveFeatures (getSubscription db' (rq_user rq)) = fs
    \<and> (\<exists>p s. filter (\<lambda>p. pa_invoice p = Some invoice) (payments db') = [p] \<and> pa_status p = P_waiting
         \<and> pa_tenant p = rq_user rq \<and> getSubscription db' (rq_user rq) = Some (s, Some plan)
         \<and> pa_subscription p = Some (su_id s))"
  using c
proof (cases rule: checkout_url_cases)
  case (worked plan' key db1 a)
  have plan': "plan' = plan" "plan_id plan = rq_plan rq"
    using worked(1) plan(1) by (simp, auto simp: getPlan_def find_Some_iff)
  have db1: "subscriptions db1 = subscriptions db" "payments db1 = payments db" "plans db1 = plans db"
    using books_frame(2)[OF worked(2)] by auto
  obtain db2 res where i: "checkout_invoice db1 rq a = (db2, res)"
    by fastforce
  with worked(3) plan' obtain db3 sid where
      up: "upsertSubscription db2 (rq_user rq) (plan_id plan) invoice (fst (snd (rq_ids rq))) (rq_now rq) = Some (db3, sid)"
    and done': "completeCheckoutAttempt (fst (createPayment db3 sid (rq_user rq) invoice
        (case plan_payCurrency plan of None \<Rightarrow> ''usdt'' | Some c \<Rightarrow> c) (snd (snd (rq_ids rq))))) (ca_id a) invoice url
        (the (ca_token a)) = Some db'"
    by (auto simp: checkout_work_def Let_def split: sum.splits option.splits prod.splits if_splits)
  have db2: "subscriptions db2 = subscriptions db" "payments db2 = payments db" "plans db2 = plans db"
    using books_frame(3)[of db1 rq a] checkout_invoice_plans[of db1 rq a] i db1 by auto
  define s where "s = \<lparr>su_id = fst (snd (rq_ids rq)), su_tenant = rq_user rq, su_plan = plan_id plan,
    su_status = S_active, su_invoice = Some invoice, su_periodEnd = None, su_canceledAt = None,
    su_createdAt = rq_now rq\<rparr>"
  have "List.find (\<lambda>s. su_tenant s = rq_user rq) (subscriptions db) = None"
    using none(1) by (simp add: find_None_iff)
  then have db3: "db3 = db2\<lparr>subscriptions := subscriptions db @ [s]\<rparr>" "sid = su_id s"
    using up db2 by (auto simp: upsertSubscription_def s_def)
  have "List.find (\<lambda>p. pa_invoice p = Some invoice) (payments db) = None"
    using none(2) by (simp add: find_None_iff)
  then obtain p where p: "payments (fst (createPayment db3 sid (rq_user rq) invoice cur i)) = payments db @ [p]"
      "pa_status p = P_waiting" "pa_tenant p = rq_user rq" "pa_invoice p = Some invoice" "pa_subscription p = Some sid"
    if "cur = (case plan_payCurrency plan of None \<Rightarrow> ''usdt'' | Some c \<Rightarrow> c)" "i = snd (snd (rq_ids rq))" for cur i
    using db2 db3 by (fastforce simp: createPayment_def Let_def)
  have fin: "payments db' = payments db @ [p]" "subscriptions db' = subscriptions db @ [s]" "plans db' = plans db"
    using books_frame(1)[OF done'[unfolded completeCheckoutAttempt_def]] owned_plans[OF done'[unfolded completeCheckoutAttempt_def]]
      p(1)[OF refl refl] db2 db3
    by (auto simp: createPayment_def createPayment_plans Let_def split: option.splits)
  have "filter (\<lambda>s. su_tenant s = rq_user rq) (subscriptions db') = [s]"
    using none(1) by (simp add: fin s_def)
  then have sub: "getSubscription db' (rq_user rq) = Some (s, Some plan)"
    using plan plan' fin by (simp add: getSubscription_def getPlan_def s_def)
  moreover have "filter (\<lambda>p. pa_invoice p = Some invoice) (payments db') = [p]"
    using none(2) p(4)[OF refl refl] by (simp add: fin)
  ultimately show ?thesis
    using p(2,3,5)[OF refl refl] plan db3 by (auto simp: getEffectiveFeatures_def status_active_def s_def)
qed simp

theorem unpaid_checkout_unlocks_plan_witness:
  "\<exists>db'. checkout example_billing (example_request ''1'' (Inr (''i'', ''l''))) = (db', Checkout_url ''l'' ''i'' False)
     \<and> getEffectiveFeatures (getSubscription db' ''u'') = [''alerts_unlimited'']"
proof -
  have "snd (checkout example_billing (example_request ''1'' (Inr (''i'', ''l'')))) = Checkout_url ''l'' ''i'' False"
    by code_simp
  then obtain db' where c: "checkout example_billing (example_request ''1'' (Inr (''i'', ''l'')))
      = (db', Checkout_url ''l'' ''i'' False)"
    by (metis prod.collapse)
  have "getEffectiveFeatures (getSubscription db' (rq_user (example_request ''1'' (Inr (''i'', ''l''))))) = [''alerts_unlimited'']"
    by (rule unpaid_checkout_unlocks_plan[OF _ _ _ _ c, THEN conjunct1, of example_plan])
      (simp_all add: example_billing_def example_request_def getPlan_def example_plan_def)
  with c show ?thesis
    by (auto simp: example_request_def)
qed

end
