(* ===== verification/Ipn.thy ===== *)
theory Ipn
  imports Billing Js_Map Contracts "HOL-Library.Word"
begin

unbundle bit_operations_syntax

text \<open>
  Payment notifications: the event log and the dead-letter queue of
  \<open>packages/db/src/queries/ipn-events.ts\<close>, the webhook handler
  \<open>apps/web/src/app/api/billing/webhook/route.ts\<close>, the operator replay
  \<open>apps/web/src/app/api/admin/billing/dlq/[id]/replay/route.ts\<close> and the signature comparison of
  \<open>apps/web/src/lib/nowpayments.ts\<close>. Which database calls of a delivery fail is an argument
  (\<open>up n\<close> for its n-th call), as are the clock and the random ids and tokens. The keyed hash and the
  canonical form of the body are arguments of the signature check.
\<close>

section \<open>Tables\<close>

type_synonym ipn_key = "string \<times> payment_status"

record ipn_payload =
  ipn_payment_id :: string
  ipn_invoice_id :: "string option"
  ipn_status :: payment_status
  ipn_txid :: "string option"
  ipn_pay_amount :: "string option"
  ipn_pay_currency :: "string option"

record ipn_row =
  ip_payload :: ipn_payload
  ip_processed :: bool
  ip_processing :: bool
  ip_processingAt :: "ms option"
  ip_error :: "string option"
  ip_receivedAt :: ms
  ip_processedAt :: "ms option"

datatype dlq_status = Dlq_pending | Dlq_replaying | Dlq_replayed

record dlq_row =
  dl_id :: string
  dl_eventId :: string
  dl_eventType :: payment_status
  dl_payload :: ipn_payload
  dl_error :: string
  dl_receivedAt :: ms
  dl_status :: dlq_status
  dl_replayedAt :: "ms option"
  dl_replayStartedAt :: "ms option"
  dl_replayToken :: "string option"

type_synonym ipn_table = "(ipn_key, ipn_row) js_map"

section \<open>The event log\<close>

definition IPN_LEASE_MS :: ms where
  "IPN_LEASE_MS = 5 * 60000"

datatype ipn_claim = Ipn_claimed | Ipn_processed | Ipn_in_progress

definition new_ipn_row :: "ipn_payload \<Rightarrow> bool \<Rightarrow> ms option \<Rightarrow> ms \<Rightarrow> ipn_row" where
  "new_ipn_row p processing started now = \<lparr>ip_payload = p, ip_processed = False, ip_processing = processing,
     ip_processingAt = started, ip_error = None, ip_receivedAt = now, ip_processedAt = None\<rparr>"

definition claimIpnEvent :: "ipn_table \<Rightarrow> ipn_key \<Rightarrow> ipn_payload \<Rightarrow> ms \<Rightarrow> ipn_table \<times> ipn_claim" where
  "claimIpnEvent t k p now =
     (case js_get t k of
        None \<Rightarrow> (js_set k (new_ipn_row p True (Some now) now) t, Ipn_claimed)
      | Some r \<Rightarrow>
          if ip_processed r then (t, Ipn_processed)
          else
            let leaseExpired = ip_processing r
                  \<and> (case ip_processingAt r of None \<Rightarrow> True | Some c \<Rightarrow> c < now - IPN_LEASE_MS)
            in if ip_processing r \<and> \<not> leaseExpired then (t, Ipn_in_progress)
               else (js_set k (r\<lparr>ip_processing := True, ip_processingAt := Some now, ip_payload := p,
                       ip_error := None, ip_receivedAt := now\<rparr>) t, Ipn_claimed))"

definition findIpnEvent :: "ipn_table \<Rightarrow> ipn_key \<Rightarrow> ipn_row option" where
  "findIpnEvent t k = js_get t k"

definition insertIpnEvent :: "ipn_table \<Rightarrow> ipn_key \<Rightarrow> ipn_payload \<Rightarrow> ms \<Rightarrow> ipn_table" where
  "insertIpnEvent t k p now =
     (case js_get t k of None \<Rightarrow> js_set k (new_ipn_row p False None now) t | Some r \<Rightarrow> t)"

definition update_ipn :: "ipn_table \<Rightarrow> ipn_key \<Rightarrow> (ipn_row \<Rightarrow> ipn_row) \<Rightarrow> ipn_table" where
  "update_ipn t k f = (case js_get t k of None \<Rightarrow> t | Some r \<Rightarrow> js_set k (f r) t)"

definition markIpnProcessed :: "ipn_table \<Rightarrow> ipn_key \<Rightarrow> string option \<Rightarrow> ms \<Rightarrow> ipn_table" where
  "markIpnProcessed t k err now =
     update_ipn t k (\<lambda>r. r\<lparr>ip_processed := True, ip_processing := False, ip_processingAt := None,
       ip_error := err, ip_processedAt := Some now\<rparr>)"

definition markIpnFailed :: "ipn_table \<Rightarrow> ipn_key \<Rightarrow> string \<Rightarrow> ipn_table" where
  "markIpnFailed t k err =
     update_ipn t k (\<lambda>r. r\<lparr>ip_processed := False, ip_processing := False, ip_processingAt := None,
       ip_error := Some err, ip_processedAt := None\<rparr>)"

section \<open>The dead-letter queue\<close>

type_synonym dlq_table = "(string, dlq_row) js_map"

definition dlq_key :: "dlq_row \<Rightarrow> ipn_key" where
  "dlq_key d = (dl_eventId d, dl_eventType d)"

text \<open>The upsert keeps the id and the time of receipt of an entry that exists.\<close>

definition recordBillingWebhookFailure ::
  "dlq_table \<Rightarrow> ipn_key \<Rightarrow> ipn_payload \<Rightarrow> string \<Rightarrow> string \<Rightarrow> ms \<Rightarrow> dlq_table" where
  "recordBillingWebhookFailure q k p err newId now =
     (if list_ex (\<lambda>(i, d). dlq_key d = k) q
      then map (\<lambda>(i, d). (i, if dlq_key d = k
             then d\<lparr>dl_payload := p, dl_error := err, dl_status := Dlq_pending, dl_replayedAt := None,
                dl_replayStartedAt := None, dl_replayToken := None\<rparr> else d)) q
      else js_set newId \<lparr>dl_id = newId, dl_eventId = fst k, dl_eventType = snd k, dl_payload = p, dl_error = err,
             dl_receivedAt = now, dl_status = Dlq_pending, dl_replayedAt = None, dl_replayStartedAt = None,
             dl_replayToken = None\<rparr> q)"

definition countStaleBillingWebhookFailures :: "dlq_table \<Rightarrow> ms \<Rightarrow> nat" where
  "countStaleBillingWebhookFailures q cutoff =
     length (filter (\<lambda>(i, d). dl_status d = Dlq_pending \<and> dl_receivedAt d < cutoff) q)"

definition getBillingWebhookFailure :: "dlq_table \<Rightarrow> string \<Rightarrow> dlq_row option" where
  "getBillingWebhookFailure q i = js_get q i"

definition REPLAY_LEASE_MS :: ms where
  "REPLAY_LEASE_MS = 10 * 60000"

definition replayable :: "ms \<Rightarrow> dlq_row \<Rightarrow> bool" where
  "replayable now d \<longleftrightarrow> dl_status d = Dlq_pending
     \<or> dl_status d = Dlq_replaying
       \<and> (case dl_replayStartedAt d of None \<Rightarrow> True | Some s \<Rightarrow> s < now - REPLAY_LEASE_MS)"

definition claimBillingWebhookReplay ::
  "dlq_table \<Rightarrow> string \<Rightarrow> string \<Rightarrow> ms \<Rightarrow> dlq_table \<times> dlq_row option" where
  "claimBillingWebhookReplay q i token now =
     (case js_get q i of
        None \<Rightarrow> (q, None)
      | Some d \<Rightarrow>
          if replayable now d then
            (let d' = d\<lparr>dl_status := Dlq_replaying, dl_replayStartedAt := Some now, dl_replayToken := Some token\<rparr>
             in (js_set i d' q, Some d'))
          else (q, None))"

definition replay_owned :: "string \<Rightarrow> dlq_row \<Rightarrow> bool" where
  "replay_owned token d \<longleftrightarrow> dl_status d = Dlq_replaying \<and> dl_replayToken d = Some token"

text \<open>\<open>None\<close>: the exception that the lease was lost.\<close>

definition markBillingWebhookReplayed :: "dlq_table \<Rightarrow> string \<Rightarrow> string \<Rightarrow> ms \<Rightarrow> dlq_table option" where
  "markBillingWebhookReplayed q i token now =
     (case js_get q i of
        None \<Rightarrow> None
      | Some d \<Rightarrow>
          if replay_owned token d then
            Some (js_set i (d\<lparr>dl_status := Dlq_replayed, dl_replayedAt := Some now, dl_replayStartedAt := None,
              dl_replayToken := None\<rparr>) q)
          else None)"

definition releaseBillingWebhookReplay :: "dlq_table \<Rightarrow> string \<Rightarrow> string \<Rightarrow> string \<Rightarrow> dlq_table" where
  "releaseBillingWebhookReplay q i err token =
     (case js_get q i of
        None \<Rightarrow> q
      | Some d \<Rightarrow>
          if replay_owned token d then
            js_set i (d\<lparr>dl_status := Dlq_pending, dl_error := err, dl_replayStartedAt := None,
              dl_replayToken := None\<rparr>) q
          else q)"

section \<open>Payments and subscriptions\<close>

text \<open>\<open>Inl\<close>: the two identifiers name different rows.\<close>

definition getPaymentByNowpaymentsId ::
  "billing_db \<Rightarrow> string \<Rightarrow> string option \<Rightarrow> string + payment_row option" where
  "getPaymentByNowpaymentsId db pid invoice =
     (let byPayment = List.find (\<lambda>p. pa_paymentId p = Some pid) (payments db) in
      if \<not> truthy invoice then Inr byPayment
      else let byInvoice = List.find (\<lambda>p. pa_invoice p = invoice) (payments db) in
        case (byPayment, byInvoice) of
          (Some p, None) \<Rightarrow> Inr (Some p)
        | (Some p, Some p') \<Rightarrow>
            if pa_id p \<noteq> pa_id p' then Inl ''NOWPayments payment ID and invoice ID refer to different payment rows''
            else Inr (Some p')
        | (None, p') \<Rightarrow> Inr p')"

definition or_else :: "'a option \<Rightarrow> 'a option \<Rightarrow> 'a option" where
  "or_else x y = (case x of None \<Rightarrow> y | Some v \<Rightarrow> Some v)"

text \<open>\<open>updatePaymentStatus\<close> with the fields the processor passes; absent ones come from the row it read.\<close>

definition updatePaymentStatus :: "billing_db \<Rightarrow> payment_row \<Rightarrow> ipn_payload \<Rightarrow> billing_db" where
  "updatePaymentStatus db payment p =
     db\<lparr>payments := update_rows (\<lambda>r. pa_id r = pa_id payment)
       (\<lambda>r. r\<lparr>pa_status := ipn_status p, pa_paymentId := Some (ipn_payment_id p),
          pa_txHash := or_else (ipn_txid p) (pa_txHash payment),
          pa_amount := or_else (ipn_pay_amount p) (pa_amount payment),
          pa_currency := or_else (ipn_pay_currency p) (pa_currency payment)\<rparr>)
       (payments db)\<rparr>"

text \<open>\<open>None\<close>: the update violates the index of active subscriptions.\<close>

definition activate_sub :: "billing_db \<Rightarrow> string \<Rightarrow> string option \<Rightarrow> ms \<Rightarrow> billing_db option" where
  "activate_sub db subId invoice now =
     (case List.find (\<lambda>s. su_id s = subId) (subscriptions db) of
        None \<Rightarrow> Some db
      | Some sub \<Rightarrow>
          if active_elsewhere db (su_tenant sub) subId then None
          else Some (db\<lparr>subscriptions := update_rows (\<lambda>s. su_id s = subId)
            (\<lambda>s. s\<lparr>su_status := S_active, su_periodEnd := Some (addMonths 1 now),
               su_invoice := (if truthy invoice then invoice else su_invoice s)\<rparr>) (subscriptions db)\<rparr>))"

definition updateSubscriptionFromPayment ::
  "billing_db \<Rightarrow> string \<Rightarrow> payment_status \<Rightarrow> string option \<Rightarrow> ms \<Rightarrow> billing_db option" where
  "updateSubscriptionFromPayment db subId st invoice now =
     (let upd = (\<lambda>f. db\<lparr>subscriptions := update_rows (\<lambda>s. su_id s = subId) f (subscriptions db)\<rparr>) in
      case st of
        P_finished \<Rightarrow> activate_sub db subId invoice now
      | P_confirmed \<Rightarrow> activate_sub db subId invoice now
      | P_failed \<Rightarrow> Some (upd (\<lambda>s. s\<lparr>su_status := S_past_due\<rparr>))
      | P_expired \<Rightarrow> Some (upd (\<lambda>s. s\<lparr>su_status := S_past_due\<rparr>))
      | P_refunded \<Rightarrow> Some (upd (\<lambda>s. s\<lparr>su_status := S_canceled, su_canceledAt := Some now\<rparr>))
      | _ \<Rightarrow> Some db)"

section \<open>The webhook\<close>

record ipn_db =
  bills :: billing_db
  ipns :: ipn_table
  dlq :: dlq_table

text \<open>
  \<open>processVerifiedIpnPayload\<close>: its calls are numbered 0 to 3 and are no transaction, so what an
  earlier call wrote stays when a later one fails. \<open>Inl\<close> is the message thrown.
\<close>

definition ipn_event_key :: "ipn_payload \<Rightarrow> ipn_key" where
  "ipn_event_key p = (ipn_payment_id p, ipn_status p)"

definition processVerifiedIpnPayload ::
  "(nat \<Rightarrow> bool) \<Rightarrow> ipn_db \<Rightarrow> ipn_payload \<Rightarrow> ms \<Rightarrow> ipn_db \<times> (string + unit)" where
  "processVerifiedIpnPayload up db p now =
     (if \<not> up 0 then (db, Inl ''database'')
      else case getPaymentByNowpaymentsId (bills db) (ipn_payment_id p) (ipn_invoice_id p) of
        Inl e \<Rightarrow> (db, Inl e)
      | Inr None \<Rightarrow> (db, Inl ''Payment row not found for IPN'')
      | Inr (Some payment) \<Rightarrow>
          if \<not> up 1 then (db, Inl ''database'')
          else
            let db1 = db\<lparr>bills := updatePaymentStatus (bills db) payment p\<rparr> in
            (case (case pa_subscription payment of
                     None \<Rightarrow> Some (bills db1)
                   | Some sid \<Rightarrow>
                       if truthy (Some sid) then
                         if \<not> up 2 then None
                         else updateSubscriptionFromPayment (bills db1) sid (ipn_status p) (ipn_invoice_id p) now
                       else Some (bills db1)) of
               None \<Rightarrow> (db1, Inl ''database'')
             | Some b \<Rightarrow>
                 let db2 = db1\<lparr>bills := b\<rparr> in
                 if \<not> up 3 then (db2, Inl ''database'')
                 else (db2\<lparr>ipns := markIpnProcessed (ipns db2) (ipn_event_key p) None now\<rparr>, Inr ())))"

record webhook_request =
  wr_secret_set :: bool
  wr_signed :: bool
  wr_payload :: "ipn_payload option"
  wr_now :: ms
  wr_dlqId :: string
  wr_up :: "nat \<Rightarrow> bool"

definition webhook_failed :: "ipn_db \<Rightarrow> webhook_request \<Rightarrow> ipn_payload \<Rightarrow> string \<Rightarrow> ipn_db \<times> nat" where
  "webhook_failed db rq p err =
     (if \<not> wr_up rq 4 then (db, 500)
      else
        let db1 = db\<lparr>dlq := recordBillingWebhookFailure (dlq db) (ipn_event_key p) p err (wr_dlqId rq) (wr_now rq)\<rparr> in
        if \<not> wr_up rq 5 then (db1, 500)
        else (db1\<lparr>ipns := markIpnFailed (ipns db1) (ipn_event_key p) err\<rparr>, 200))"

definition webhook :: "ipn_db \<Rightarrow> webhook_request \<Rightarrow> ipn_db \<times> nat" where
  "webhook db rq =
     (if \<not> wr_secret_set rq then (db, 500)
      else if \<not> wr_signed rq then (db, 401)
      else case wr_payload rq of
        None \<Rightarrow> (db, 400)
      | Some p \<Rightarrow>
          (case claimIpnEvent (ipns db) (ipn_event_key p) p (wr_now rq) of
             (t, Ipn_processed) \<Rightarrow> (db\<lparr>ipns := t\<rparr>, 200)
           | (t, Ipn_in_progress) \<Rightarrow> (db\<lparr>ipns := t\<rparr>, 200)
           | (t, Ipn_claimed) \<Rightarrow>
               (case processVerifiedIpnPayload (wr_up rq) (db\<lparr>ipns := t\<rparr>) p (wr_now rq) of
                  (db1, Inr u) \<Rightarrow> (db1, 200)
                | (db1, Inl e) \<Rightarrow> webhook_failed db1 rq p e)))"

section \<open>The operator replay\<close>

definition replay :: "ipn_db \<Rightarrow> string \<Rightarrow> string \<Rightarrow> (nat \<Rightarrow> bool) \<Rightarrow> ms \<Rightarrow> ipn_db \<times> nat" where
  "replay db i token up now =
     (case claimBillingWebhookReplay (dlq db) i token now of
        (q, None) \<Rightarrow> (db\<lparr>dlq := q\<rparr>, 404)
      | (q, Some entry) \<Rightarrow>
          (case processVerifiedIpnPayload up (db\<lparr>dlq := q\<rparr>) (dl_payload entry) now of
             (db1, Inl e) \<Rightarrow> (db1\<lparr>dlq := releaseBillingWebhookReplay (dlq db1) i e token\<rparr>, 422)
           | (db1, Inr u) \<Rightarrow>
               (case markBillingWebhookReplayed (dlq db1) i token now of
                  None \<Rightarrow> (db1\<lparr>dlq := releaseBillingWebhookReplay (dlq db1) i
                    ''DLQ replay lease was lost before completion'' token\<rparr>, 422)
                | Some q' \<Rightarrow> (db1\<lparr>dlq := q'\<rparr>, 200))))"

section \<open>The signature\<close>

text \<open>Character codes are combined with exclusive or and collected with or; \<open>result === 0\<close>.\<close>

definition char_diff :: "char \<Rightarrow> char \<Rightarrow> nat" where
  "char_diff a b = (of_char a :: nat) XOR of_char b"

definition timingSafeEqualHex :: "string \<Rightarrow> string \<Rightarrow> bool" where
  "timingSafeEqualHex a b =
     (if length a \<noteq> length b then False
      else foldl (\<lambda>result i. result OR char_diff (a ! i) (b ! i)) 0 [0..<length a] = 0)"

text \<open>
  \<open>canonical\<close> is the body parsed and printed again with sorted keys (\<open>None\<close> when it does not
  parse), \<open>hmac\<close> the hexadecimal keyed hash.
\<close>

definition verifyIpnSignature ::
  "(string \<Rightarrow> string option) \<Rightarrow> (string \<Rightarrow> string \<Rightarrow> string) \<Rightarrow> string \<Rightarrow> string \<Rightarrow> string \<Rightarrow> bool" where
  "verifyIpnSignature canonical hmac rawBody signature secret =
     (case canonical rawBody of
        None \<Rightarrow> False
      | Some body \<Rightarrow> timingSafeEqualHex (hmac secret body) signature)"

section \<open>The two leases\<close>

definition ipn_held :: "ipn_table \<Rightarrow> ipn_key \<Rightarrow> ms \<Rightarrow> ipn_payload option" where
  "ipn_held t k now = (case js_get t k of None \<Rightarrow> None
     | Some r \<Rightarrow> if \<not> ip_processed r \<and> ip_processing r
         \<and> (case ip_processingAt r of None \<Rightarrow> False | Some c \<Rightarrow> now - IPN_LEASE_MS \<le> c)
       then Some (ip_payload r) else None)"

definition ipn_take :: "ipn_key \<Rightarrow> ipn_payload \<Rightarrow> ms \<Rightarrow> ipn_table \<Rightarrow> ipn_table \<times> bool" where
  "ipn_take k p now t = (case claimIpnEvent t k p now of (t', c) \<Rightarrow> (t', c = Ipn_claimed))"

interpretation ipn_lease: lease ipn_held ipn_take IPN_LEASE_MS
proof
  fix k k' :: ipn_key and w :: ipn_payload and t :: ms and s s' :: ipn_table and ok
  show "ipn_take k w t s = (s', True)
      \<Longrightarrow> ipn_held s k t = None \<and> (\<forall>t'. t \<le> t' \<and> t' < t + IPN_LEASE_MS \<longrightarrow> ipn_held s' k t' = Some w)"
    by (auto simp: ipn_take_def claimIpnEvent_def ipn_held_def new_ipn_row_def map_laws Let_def
        split: option.splits if_splits)
  show "ipn_take k w t s = (s', False) \<Longrightarrow> s' = s"
    by (auto simp: ipn_take_def claimIpnEvent_def Let_def split: option.splits if_splits)
  show "ipn_take k w t s = (s', ok) \<Longrightarrow> k' \<noteq> k \<Longrightarrow> ipn_held s' k' = ipn_held s k'"
    by (auto simp: ipn_take_def claimIpnEvent_def ipn_held_def map_laws Let_def fun_eq_iff
        split: option.splits if_splits)
qed

definition replay_held :: "dlq_table \<Rightarrow> string \<Rightarrow> ms \<Rightarrow> string option" where
  "replay_held q i now = (case js_get q i of None \<Rightarrow> None
     | Some d \<Rightarrow> if dl_status d = Dlq_replaying
         \<and> (case dl_replayStartedAt d of None \<Rightarrow> False | Some s \<Rightarrow> now - REPLAY_LEASE_MS \<le> s)
       then dl_replayToken d else None)"

definition replay_take :: "string \<Rightarrow> string \<Rightarrow> ms \<Rightarrow> dlq_table \<Rightarrow> dlq_table \<times> bool" where
  "replay_take i token now q = (case claimBillingWebhookReplay q i token now of (q', d) \<Rightarrow> (q', d \<noteq> None))"

interpretation replay_lease: lease replay_held replay_take REPLAY_LEASE_MS
proof
  fix k k' w :: string and t :: ms and s s' :: dlq_table and ok
  show "replay_take k w t s = (s', True)
      \<Longrightarrow> replay_held s k t = None \<and> (\<forall>t'. t \<le> t' \<and> t' < t + REPLAY_LEASE_MS \<longrightarrow> replay_held s' k t' = Some w)"
    by (auto simp: replay_take_def claimBillingWebhookReplay_def replay_held_def replayable_def map_laws Let_def
        split: option.splits if_splits)
  show "replay_take k w t s = (s', False) \<Longrightarrow> s' = s"
    by (auto simp: replay_take_def claimBillingWebhookReplay_def Let_def split: option.splits if_splits)
  show "replay_take k w t s = (s', ok) \<Longrightarrow> k' \<noteq> k \<Longrightarrow> replay_held s' k' = replay_held s k'"
    by (auto simp: replay_take_def claimBillingWebhookReplay_def replay_held_def map_laws Let_def fun_eq_iff
        split: option.splits if_splits)
qed

text \<open>
  While one delivery processes an event no other delivery gets it: for five minutes every
  further claim, with whatever body, is told that the event is in progress and changes nothing.
\<close>

theorem ipn_claim_exclusive:
  assumes "claimIpnEvent t k p now = (t1, Ipn_claimed)" "now \<le> now'" "now' < now + IPN_LEASE_MS"
  shows "claimIpnEvent t1 k p' now' = (t1, Ipn_in_progress)"
proof -
  obtain t2 c where c: "claimIpnEvent t1 k p' now' = (t2, c)"
    by fastforce
  have "ipn_take k p now t = (t1, True)" "ipn_take k p' now' t1 = (t2, c = Ipn_claimed)"
    using assms(1) c by (simp_all add: ipn_take_def)
  from ipn_lease.exclusive[OF this(1) assms(2,3) this(2)] have "c \<noteq> Ipn_claimed" "t2 = t1"
    by auto
  moreover have "c \<noteq> Ipn_processed"
    using assms(1) c by (auto simp: claimIpnEvent_def new_ipn_row_def map_laws Let_def split: option.splits if_splits)
  ultimately show ?thesis
    using c by (cases c) auto
qed

definition example_payload :: "payment_status \<Rightarrow> ipn_payload" where
  "example_payload st = \<lparr>ipn_payment_id = ''p'', ipn_invoice_id = Some ''i'', ipn_status = st, ipn_txid = None,
     ipn_pay_amount = None, ipn_pay_currency = None\<rparr>"

theorem ipn_claim_exclusive_witness:
  "claimIpnEvent (fst (claimIpnEvent [] (''p'', P_finished) (example_payload P_finished) 0)) (''p'', P_finished)
       (example_payload P_finished) 60000
     = (fst (claimIpnEvent [] (''p'', P_finished) (example_payload P_finished) 0), Ipn_in_progress)"
  by (rule ipn_claim_exclusive[of "[]" _ "example_payload P_finished" 0])
    (simp_all add: claimIpnEvent_def IPN_LEASE_MS_def)

section \<open>Events are applied once\<close>

text \<open>The event a delivery processes to the end, if it does.\<close>

definition completes :: "ipn_db \<Rightarrow> webhook_request \<Rightarrow> ipn_key option" where
  "completes db rq =
     (if \<not> wr_secret_set rq \<or> \<not> wr_signed rq then None
      else case wr_payload rq of None \<Rightarrow> None
      | Some p \<Rightarrow>
          (case claimIpnEvent (ipns db) (ipn_event_key p) p (wr_now rq) of
             (t, Ipn_claimed) \<Rightarrow>
               (case processVerifiedIpnPayload (wr_up rq) (db\<lparr>ipns := t\<rparr>) p (wr_now rq) of
                  (db1, Inr u) \<Rightarrow> Some (ipn_event_key p) | _ \<Rightarrow> None)
           | _ \<Rightarrow> None))"

fun completions :: "ipn_key \<Rightarrow> webhook_request list \<Rightarrow> ipn_db \<Rightarrow> nat" where
  "completions k [] db = 0"
| "completions k (rq # rqs) db =
     (if completes db rq = Some k then 1 else 0) + completions k rqs (fst (webhook db rq))"

definition event_processed :: "ipn_key \<Rightarrow> ipn_db \<Rightarrow> bool" where
  "event_processed k db \<longleftrightarrow> (\<exists>r. js_get (ipns db) k = Some r \<and> ip_processed r)"

lemma process_ipns:
  "processVerifiedIpnPayload up db p now = (db', res) \<Longrightarrow>
     ipns db' = (if res = Inr () then markIpnProcessed (ipns db) (ipn_event_key p) None now else ipns db)
     \<and> dlq db' = dlq db"
  by (auto simp: processVerifiedIpnPayload_def Let_def split: if_splits sum.splits option.splits)

lemma update_ipn_get:
  "js_get (update_ipn t k f) k' = (if k' = k then map_option f (js_get t k) else js_get t k')"
  by (auto simp: update_ipn_def map_laws split: option.splits)

lemma claim_get:
  "claimIpnEvent t k p now = (t', c) \<Longrightarrow>
     (c = Ipn_claimed \<longrightarrow> (\<exists>r. js_get t' k = Some r) \<and> \<not> (\<exists>r. js_get t k = Some r \<and> ip_processed r))
     \<and> (c \<noteq> Ipn_claimed \<longrightarrow> t' = t) \<and> (k' \<noteq> k \<longrightarrow> js_get t' k' = js_get t k')
     \<and> (c = Ipn_processed \<longleftrightarrow> (\<exists>r. js_get t k = Some r \<and> ip_processed r))"
  by (auto simp: claimIpnEvent_def map_laws Let_def split: option.splits if_splits)

lemma processed_stays:
  assumes "event_processed k db"
  shows "event_processed k (fst (webhook db rq))"
proof (cases "wr_secret_set rq \<and> wr_signed rq")
  case True
  show ?thesis
  proof (cases "wr_payload rq")
    case (Some p)
    obtain t c where c: "claimIpnEvent (ipns db) (ipn_event_key p) p (wr_now rq) = (t, c)"
      by fastforce
    note g = claim_get[OF c, of k]
    show ?thesis
    proof (cases "c = Ipn_claimed")
      case False
      then have "fst (webhook db rq) = db\<lparr>ipns := t\<rparr>"
        using True Some c by (cases c) (simp_all add: webhook_def)
      then show ?thesis
        using g False assms by (simp add: event_processed_def)
    next
      case claimed: True
      then have k: "k \<noteq> ipn_event_key p"
        using g assms by (auto simp: event_processed_def)
      obtain db1 res where r: "processVerifiedIpnPayload (wr_up rq) (db\<lparr>ipns := t\<rparr>) p (wr_now rq) = (db1, res)"
        by fastforce
      have "js_get (ipns db1) k = js_get (ipns db) k"
        using process_ipns[OF r] g k by (simp add: markIpnProcessed_def update_ipn_get)
      moreover have "js_get (ipns (fst (webhook_failed db1 rq p e))) k = js_get (ipns db1) k" for e
        using k by (simp add: webhook_failed_def Let_def markIpnFailed_def update_ipn_get)
      ultimately show ?thesis
        using True Some c claimed r assms
        by (cases res) (auto simp: webhook_def event_processed_def )
    qed
  qed (use assms True in \<open>simp add: webhook_def\<close>)
qed (use assms in \<open>auto simp: webhook_def\<close>)

lemma completes_cases:
  assumes "completes db rq = Some k"
  obtains p t db1 where "wr_secret_set rq" "wr_signed rq" "wr_payload rq = Some p" "k = ipn_event_key p"
      "claimIpnEvent (ipns db) (ipn_event_key p) p (wr_now rq) = (t, Ipn_claimed)"
      "processVerifiedIpnPayload (wr_up rq) (db\<lparr>ipns := t\<rparr>) p (wr_now rq) = (db1, Inr ())"
proof -
  obtain p where w: "wr_secret_set rq" "wr_signed rq" "wr_payload rq = Some p"
    using assms by (cases "wr_payload rq") (auto simp: completes_def split: if_splits)
  obtain t c where c: "claimIpnEvent (ipns db) (ipn_event_key p) p (wr_now rq) = (t, c)"
    by fastforce
  have cl: "c = Ipn_claimed"
    using assms w c by (cases c) (simp_all add: completes_def)
  obtain db1 res where r: "processVerifiedIpnPayload (wr_up rq) (db\<lparr>ipns := t\<rparr>) p (wr_now rq) = (db1, res)"
    by fastforce
  have "res = Inr () \<and> k = ipn_event_key p"
    using assms w c cl r by (cases res) (simp_all add: completes_def)
  then show ?thesis
    using that w c cl r by blast
qed

lemma completes_processes:
  assumes "completes db rq = Some k"
  shows "event_processed k (fst (webhook db rq))"
  using assms
proof (cases rule: completes_cases)
  case (1 p t db1)
  have "fst (webhook db rq) = db1"
    using 1 by (simp add: webhook_def)
  moreover obtain r where "js_get t k = Some r"
    using claim_get[OF 1(5), of k] 1(4) by auto
  ultimately show ?thesis
    using process_ipns[OF 1(6)] 1(4) by (simp add: event_processed_def markIpnProcessed_def update_ipn_get)
qed

lemma processed_not_again: "event_processed k db \<Longrightarrow> completes db rq \<noteq> Some k"
proof
  assume e: "event_processed k db" and c: "completes db rq = Some k"
  from c show False
  proof (cases rule: completes_cases)
    case (1 p t db1)
    then show False
      using claim_get[OF 1(5), of k] e by (auto simp: event_processed_def)
  qed
qed

lemma processed_no_completions: "event_processed k db \<Longrightarrow> completions k rqs db = 0"
  by (induction rqs arbitrary: db) (auto dest: processed_not_again processed_stays)

text \<open>
  C3: however often the provider delivers its notifications, in whatever order, with whatever
  database failures in between, an event (payment and status) is processed to the end at most once.
\<close>

theorem event_applied_once: "completions k rqs db \<le> 1"
proof (induction rqs arbitrary: db)
  case (Cons rq rqs)
  then show ?case
    using processed_no_completions[OF completes_processes] by auto
qed simp

section \<open>Acknowledged events are accounted for\<close>

lemma record_failure_pending:
  "\<exists>i d. (i, d) \<in> set (recordBillingWebhookFailure q k p err newId now) \<and> dlq_key d = k \<and> dl_payload d = p
     \<and> dl_status d = Dlq_pending \<and> dl_error d = err"
proof (cases "list_ex (\<lambda>(i, d). dlq_key d = k) q")
  case True
  then obtain i d where d: "(i, d) \<in> set q" "dlq_key d = k"
    by (auto simp: list_ex_iff)
  let ?d = "d\<lparr>dl_payload := p, dl_error := err, dl_status := Dlq_pending, dl_replayedAt := None,
    dl_replayStartedAt := None, dl_replayToken := None\<rparr>"
  have "(i, ?d) \<in> set (recordBillingWebhookFailure q k p err newId now)"
    using True d by (force simp: recordBillingWebhookFailure_def)
  then show ?thesis
    using d(2) by (intro exI[of _ i] exI[of _ ?d]) (simp add: dlq_key_def)
next
  case False
  let ?d = "\<lparr>dl_id = newId, dl_eventId = fst k, dl_eventType = snd k, dl_payload = p, dl_error = err,
    dl_receivedAt = now, dl_status = Dlq_pending, dl_replayedAt = None, dl_replayStartedAt = None,
    dl_replayToken = None\<rparr>"
  have "(newId, ?d) \<in> set (recordBillingWebhookFailure q k p err newId now)"
    using False by (simp add: recordBillingWebhookFailure_def js_set_in)
  then show ?thesis
    by (intro exI[of _ newId] exI[of _ ?d]) (simp add: dlq_key_def)
qed

text \<open>
  C19: an authenticated notification that is answered with 200 is accounted for: its event is
  processed, or the failed attempt waits in the dead-letter queue with this payload, or another
  delivery holds the event under a lease that has not run out (then nothing was changed).
\<close>

theorem acknowledged_accounted:
  assumes "webhook db rq = (db', 200)" "wr_payload rq = Some p" "wr_secret_set rq" "wr_signed rq"
  shows "(\<exists>r. js_get (ipns db') (ipn_event_key p) = Some r \<and> ip_processed r)
    \<or> (\<exists>i d. (i, d) \<in> set (dlq db') \<and> dlq_key d = ipn_event_key p \<and> dl_payload d = p \<and> dl_status d = Dlq_pending)
    \<or> (db' = db \<and> ipn_held (ipns db) (ipn_event_key p) (wr_now rq) \<noteq> None)"
proof -
  obtain t c where c: "claimIpnEvent (ipns db) (ipn_event_key p) p (wr_now rq) = (t, c)"
    by fastforce
  show ?thesis
  proof (cases c)
    case Ipn_processed
    then show ?thesis
      using assms c claim_get[OF c] by (auto simp: webhook_def)
  next
    case Ipn_in_progress
    then have "t = ipns db" "ipn_held (ipns db) (ipn_event_key p) (wr_now rq) \<noteq> None"
      using c by (auto simp: claimIpnEvent_def ipn_held_def Let_def split: option.splits if_splits)
    then show ?thesis
      using assms c Ipn_in_progress by (auto simp: webhook_def)
  next
    case Ipn_claimed
    obtain db1 res where r: "processVerifiedIpnPayload (wr_up rq) (db\<lparr>ipns := t\<rparr>) p (wr_now rq) = (db1, res)"
      by fastforce
    show ?thesis
    proof (cases res)
      case (Inr u)
      then have "db' = db1"
        using assms c r Ipn_claimed by (simp add: webhook_def)
      moreover obtain row where "js_get t (ipn_event_key p) = Some row"
        using claim_get[OF c, of "ipn_event_key p"] Ipn_claimed by auto
      ultimately show ?thesis
        using process_ipns[OF r] Inr by (simp add: markIpnProcessed_def update_ipn_get)
    next
      case (Inl e)
      then have "webhook_failed db1 rq p e = (db', 200)"
        using assms c r Ipn_claimed by (simp add: webhook_def)
      then have "dlq db' = recordBillingWebhookFailure (dlq db1) (ipn_event_key p) p e (wr_dlqId rq) (wr_now rq)"
        by (auto simp: webhook_failed_def Let_def split: if_splits)
      then show ?thesis
        using record_failure_pending by metis
    qed
  qed
qed

section \<open>Owners\<close>

text \<open>
  a failing delivery gives away the lease of its successor. The event log has no owner token:
  when a delivery whose lease ran out fails after another delivery has reclaimed the event, its
  \<open>markIpnFailed\<close> opens the event again at once, and a third delivery claims it while the second
  is still processing it. A replay of a dead letter, which has a token, cannot do this: the former
  owner's release leaves the queue as it is, and it can not mark the entry replayed.
\<close>

theorem stale_owner_release:
  assumes ipn: "claimIpnEvent t0 k p0 a = (t1, Ipn_claimed)" "claimIpnEvent t1 k p1 b = (t2, Ipn_claimed)"
    and dlq: "claimBillingWebhookReplay q0 i w0 a' = (q1, Some d0)" "claimBillingWebhookReplay q1 i w1 b' = (q2, Some d1)"
      "w0 \<noteq> w1"
  shows "ipn_held t2 k b = Some p1 \<and> snd (claimIpnEvent (markIpnFailed t2 k e) k p2 b) = Ipn_claimed
    \<and> replay_held q2 i b' = Some w1 \<and> releaseBillingWebhookReplay q2 i e w0 = q2
    \<and> markBillingWebhookReplayed q2 i w0 c = None"
proof (intro conjI)
  have "ipn_take k p1 b t1 = (t2, True)" "replay_take i w1 b' q1 = (q2, True)"
    using ipn dlq by (simp_all add: ipn_take_def replay_take_def)
  then show "ipn_held t2 k b = Some p1" "replay_held q2 i b' = Some w1"
    using ipn_lease.claim_ok replay_lease.claim_ok by (auto simp: IPN_LEASE_MS_def REPLAY_LEASE_MS_def)
  obtain r where "js_get t2 k = Some r"
    using claim_get[OF ipn(2), of k] by auto
  then show "snd (claimIpnEvent (markIpnFailed t2 k e) k p2 b) = Ipn_claimed"
    by (simp add: claimIpnEvent_def markIpnFailed_def update_ipn_get Let_def)
  have "js_get q2 i = Some d1" "dl_replayToken d1 = Some w1"
    using dlq(2) by (auto simp: claimBillingWebhookReplay_def map_laws Let_def split: option.splits if_splits)
  then show "releaseBillingWebhookReplay q2 i e w0 = q2" "markBillingWebhookReplayed q2 i w0 c = None"
    using dlq(3) by (simp_all add: releaseBillingWebhookReplay_def markBillingWebhookReplayed_def replay_owned_def)
qed

definition example_ipn_db :: ipn_db where
  "example_ipn_db = \<lparr>bills = example_billing\<lparr>
      subscriptions := [\<lparr>su_id = ''s'', su_tenant = ''u'', su_plan = ''pro'', su_status = S_active,
        su_invoice = Some ''i'', su_periodEnd = None, su_canceledAt = None, su_createdAt = 0\<rparr>],
      payments := [\<lparr>pa_id = ''x'', pa_subscription = Some ''s'', pa_tenant = ''u'', pa_paymentId = Some ''p'',
        pa_invoice = Some ''i'', pa_status = P_finished, pa_amount = None, pa_currency = None, pa_txHash = None\<rparr>]\<rparr>,
    ipns = [], dlq = []\<rparr>"

definition example_delivery :: "payment_status \<Rightarrow> ms \<Rightarrow> (nat \<Rightarrow> bool) \<Rightarrow> webhook_request" where
  "example_delivery st now up = \<lparr>wr_secret_set = True, wr_signed = True,
     wr_payload = Some ((example_payload st)\<lparr>ipn_invoice_id := None\<rparr>), wr_now = now, wr_dlqId = ''d'', wr_up = up\<rparr>"

lemmas webhook_defs = webhook_def webhook_failed_def claimIpnEvent_def new_ipn_row_def processVerifiedIpnPayload_def
  getPaymentByNowpaymentsId_def truthy_def updatePaymentStatus_def or_else_def updateSubscriptionFromPayment_def
  activate_sub_def active_elsewhere_def update_rows_def markIpnProcessed_def markIpnFailed_def update_ipn_def
  ipn_event_key_def recordBillingWebhookFailure_def Let_def

lemmas example_ipn_defs = example_ipn_db_def example_delivery_def example_payload_def example_billing_def

theorem acknowledged_accounted_witness:
  "snd (webhook example_ipn_db (example_delivery P_failed 0 (\<lambda>n. n \<noteq> 2))) = 200
   \<and> (\<exists>i d. (i, d) \<in> set (dlq (fst (webhook example_ipn_db (example_delivery P_failed 0 (\<lambda>n. n \<noteq> 2)))))
        \<and> dl_status d = Dlq_pending)"
proof -
  let ?w = "webhook example_ipn_db (example_delivery P_failed 0 (\<lambda>n. n \<noteq> 2))"
  have r: "snd ?w = 200" and e: "js_get (ipns (fst ?w)) (''p'', P_failed) = Some x \<Longrightarrow> \<not> ip_processed x" for x
    by (auto simp: webhook_defs example_ipn_defs)
  obtain d where d: "?w = (d, 200)"
    using r by (metis prod.collapse)
  have "ipn_held (ipns example_ipn_db) k t = None" for k t
    by (simp add: ipn_held_def example_ipn_db_def)
  moreover have "\<not> (\<exists>x. js_get (ipns d) (''p'', P_failed) = Some x \<and> ip_processed x)"
    using e d by auto
  ultimately have "\<exists>i x. (i, x) \<in> set (dlq d) \<and> dl_status x = Dlq_pending"
    using acknowledged_accounted[OF d, of "(example_payload P_failed)\<lparr>ipn_invoice_id := None\<rparr>"]
    by (auto simp: example_delivery_def ipn_event_key_def example_payload_def)
  with d show ?thesis by simp
qed

theorem stale_owner_release_witness:
  "snd (claimIpnEvent (markIpnFailed (fst (claimIpnEvent (fst (claimIpnEvent [] (''p'', P_finished)
       (example_payload P_finished) 0)) (''p'', P_finished) (example_payload P_finished) 300001)) (''p'', P_finished) ''e'')
     (''p'', P_finished) (example_payload P_finished) 300001) = Ipn_claimed"
proof -
  let ?p = "example_payload P_finished" and ?k = "(''p'', P_finished)"
  let ?t1 = "fst (claimIpnEvent [] ?k ?p 0)"
  let ?t2 = "fst (claimIpnEvent ?t1 ?k ?p 300001)"
  let ?d = "\<lparr>dl_id = ''d'', dl_eventId = ''p'', dl_eventType = P_finished, dl_payload = ?p, dl_error = ''e'',
    dl_receivedAt = 0, dl_status = Dlq_pending, dl_replayedAt = None, dl_replayStartedAt = None, dl_replayToken = None\<rparr>"
  let ?q1 = "fst (claimBillingWebhookReplay [(''d'', ?d)] ''d'' ''w'' 0)"
  have "claimIpnEvent [] ?k ?p 0 = (?t1, Ipn_claimed)" "claimIpnEvent ?t1 ?k ?p 300001 = (?t2, Ipn_claimed)"
    by (simp_all add: claimIpnEvent_def new_ipn_row_def IPN_LEASE_MS_def Let_def)
  moreover have "claimBillingWebhookReplay [(''d'', ?d)] ''d'' ''w'' 0
      = (?q1, Some (?d\<lparr>dl_status := Dlq_replaying, dl_replayStartedAt := Some 0, dl_replayToken := Some ''w''\<rparr>))"
    "claimBillingWebhookReplay ?q1 ''d'' ''v'' 600001
      = (fst (claimBillingWebhookReplay ?q1 ''d'' ''v'' 600001),
         Some (?d\<lparr>dl_status := Dlq_replaying, dl_replayStartedAt := Some 600001, dl_replayToken := Some ''v''\<rparr>))"
    by (simp_all add: claimBillingWebhookReplay_def replayable_def REPLAY_LEASE_MS_def Let_def)
  ultimately show ?thesis
    using stale_owner_release[of "[]" ?k ?p 0 ?t1 ?p 300001 ?t2] by simp
qed

section \<open>The order of events\<close>

definition sub_effect :: "payment_status \<Rightarrow> ms \<Rightarrow> subscription_row \<Rightarrow> subscription_row" where
  "sub_effect st now sub = (case st of
       P_finished \<Rightarrow> sub\<lparr>su_status := S_active, su_periodEnd := Some (addMonths 1 now)\<rparr>
     | P_confirmed \<Rightarrow> sub\<lparr>su_status := S_active, su_periodEnd := Some (addMonths 1 now)\<rparr>
     | P_failed \<Rightarrow> sub\<lparr>su_status := S_past_due\<rparr> | P_expired \<Rightarrow> sub\<lparr>su_status := S_past_due\<rparr>
     | P_refunded \<Rightarrow> sub\<lparr>su_status := S_canceled, su_canceledAt := Some now\<rparr> | _ \<Rightarrow> sub)"

text \<open>A tenant with one payment \<open>pid\<close> and the subscription \<open>sub\<close> it pays for.\<close>

definition single_account :: "billing_db \<Rightarrow> string \<Rightarrow> subscription_row \<Rightarrow> bool" where
  "single_account b pid sub \<longleftrightarrow> subscriptions b = [sub] \<and> su_id sub \<noteq> []
     \<and> (\<exists>pay. payments b = [pay] \<and> pa_subscription pay = Some (su_id sub) \<and> pa_paymentId pay = Some pid)"

lemma process_single:
  assumes "single_account (bills db) (ipn_payment_id p) sub" "ipn_invoice_id p = None" "\<forall>n. up n"
  shows "\<exists>b. processVerifiedIpnPayload up db p now
      = (db\<lparr>bills := b, ipns := markIpnProcessed (ipns db) (ipn_event_key p) None now\<rparr>, Inr ())
    \<and> single_account b (ipn_payment_id p) (sub_effect (ipn_status p) now sub)"
  using assms
  by (cases "ipn_status p")
    (force simp: processVerifiedIpnPayload_def getPaymentByNowpaymentsId_def truthy_def updatePaymentStatus_def
      updateSubscriptionFromPayment_def activate_sub_def active_elsewhere_def update_rows_def Let_def
      single_account_def sub_effect_def)+

lemma webhook_single:
  assumes "single_account (bills db) (ipn_payment_id p) sub" "ipn_invoice_id p = None" "\<forall>n. wr_up rq n"
    and rq: "wr_secret_set rq" "wr_signed rq" "wr_payload rq = Some p" "js_get (ipns db) (ipn_event_key p) = None"
  shows "single_account (bills (fst (webhook db rq))) (ipn_payment_id p) (sub_effect (ipn_status p) (wr_now rq) sub)
    \<and> (\<forall>k. k \<noteq> ipn_event_key p \<longrightarrow> js_get (ipns (fst (webhook db rq))) k = js_get (ipns db) k)"
proof -
  obtain t where c: "claimIpnEvent (ipns db) (ipn_event_key p) p (wr_now rq) = (t, Ipn_claimed)"
    using rq(4) by (simp add: claimIpnEvent_def)
  obtain b where b: "processVerifiedIpnPayload (wr_up rq) (db\<lparr>ipns := t\<rparr>) p (wr_now rq)
      = (db\<lparr>ipns := t\<rparr>\<lparr>bills := b, ipns := markIpnProcessed (ipns (db\<lparr>ipns := t\<rparr>)) (ipn_event_key p) None (wr_now rq)\<rparr>, Inr ())"
    "single_account b (ipn_payment_id p) (sub_effect (ipn_status p) (wr_now rq) sub)"
    using process_single[of "db\<lparr>ipns := t\<rparr>" p sub "wr_up rq" "wr_now rq"] assms(1-3) by auto
  have w: "fst (webhook db rq) = db\<lparr>ipns := t\<rparr>\<lparr>bills := b, ipns := markIpnProcessed t (ipn_event_key p) None (wr_now rq)\<rparr>"
    using rq c b(1) by (simp add: webhook_def)
  have "js_get (ipns (fst (webhook db rq))) k = js_get (ipns db) k" if "k \<noteq> ipn_event_key p" for k
    using claim_get[OF c, of k] that by (simp add: w markIpnProcessed_def update_ipn_get)
  with b(2) show ?thesis
    by (simp add: w)
qed

text \<open>
  events are applied in order of arrival, not in the order of the payment. When the refund of
  a payment has been processed and its confirmation (or its finished event) is delivered late, the
  canceled subscription is active again for another month.
\<close>

theorem late_confirmation_reactivates:
  assumes "single_account (bills db) pid sub" "ipns db = []"
    and refund: "wr_secret_set rq1" "wr_signed rq1" "wr_payload rq1 = Some p1" "ipn_payment_id p1 = pid"
      "ipn_invoice_id p1 = None" "ipn_status p1 = P_refunded" "\<forall>n. wr_up rq1 n"
    and late: "wr_secret_set rq2" "wr_signed rq2" "wr_payload rq2 = Some p2" "ipn_payment_id p2 = pid"
      "ipn_invoice_id p2 = None" "ipn_status p2 = P_confirmed \<or> ipn_status p2 = P_finished" "\<forall>n. wr_up rq2 n"
  shows "map su_status (subscriptions (bills (fst (webhook db rq1)))) = [S_canceled]
    \<and> subscriptions (bills (fst (webhook (fst (webhook db rq1)) rq2)))
      = [sub\<lparr>su_canceledAt := Some (wr_now rq1), su_status := S_active,
             su_periodEnd := Some (addMonths 1 (wr_now rq2))\<rparr>]"
proof -
  have 1: "single_account (bills (fst (webhook db rq1))) pid (sub_effect P_refunded (wr_now rq1) sub)"
    "js_get (ipns (fst (webhook db rq1))) (ipn_event_key p2) = None"
    using webhook_single[of db p1 sub rq1] assms by (auto simp: ipn_event_key_def)
  then have "single_account (bills (fst (webhook (fst (webhook db rq1)) rq2))) pid
      (sub_effect (ipn_status p2) (wr_now rq2) (sub_effect P_refunded (wr_now rq1) sub))"
    using webhook_single[of "fst (webhook db rq1)" p2 "sub_effect P_refunded (wr_now rq1) sub" rq2] late by simp
  with 1(1) late(6) show ?thesis
    by (auto simp: single_account_def sub_effect_def)
qed

theorem late_confirmation_reactivates_witness:
  "map su_status (subscriptions (bills (fst (webhook (fst (webhook example_ipn_db
     (example_delivery P_refunded 0 (\<lambda>n. True)))) (example_delivery P_confirmed 60000 (\<lambda>n. True)))))) = [S_active]"
  using late_confirmation_reactivates[of example_ipn_db "''p''" "hd (subscriptions (bills example_ipn_db))"
      "example_delivery P_refunded 0 (\<lambda>n. True)" "(example_payload P_refunded)\<lparr>ipn_invoice_id := None\<rparr>"
      "example_delivery P_confirmed 60000 (\<lambda>n. True)" "(example_payload P_confirmed)\<lparr>ipn_invoice_id := None\<rparr>"]
  by (simp add: single_account_def example_ipn_defs)

section \<open>The signature\<close>

lemma xor_zero: "(m :: nat) XOR n = 0 \<longleftrightarrow> m = n"
proof
  assume z: "m XOR n = 0"
  have "bit m i = bit n i" for i
    using arg_cong[OF z, of "\<lambda>x. bit x i"] by (simp add: bit_xor_iff)
  then show "m = n"
    by (auto intro: bit_eqI)
qed simp

lemma or_zero: "(m :: nat) OR n = 0 \<longleftrightarrow> m = 0 \<and> n = 0"
proof
  assume z: "m OR n = 0"
  have "\<not> bit m i \<and> \<not> bit n i" for i
    using arg_cong[OF z, of "\<lambda>x. bit x i"] by (simp add: bit_or_iff)
  then show "m = 0 \<and> n = 0"
    by (auto intro: bit_eqI)
qed simp

lemma char_diff_zero: "char_diff a b = 0 \<longleftrightarrow> a = b"
  by (simp add: char_diff_def xor_zero)

lemma or_fold_zero: "foldl (\<lambda>result i. result OR f i) (r :: nat) xs = 0 \<longleftrightarrow> r = 0 \<and> (\<forall>i\<in>set xs. f i = 0)"
  by (induction xs arbitrary: r) (auto simp: or_zero)

lemma timingSafeEqualHex_iff: "timingSafeEqualHex a b \<longleftrightarrow> a = b"
  by (auto simp: timingSafeEqualHex_def or_fold_zero char_diff_zero intro: nth_equalityI)

text \<open>
  A body is accepted exactly when it parses and the signature is the keyed hash of its canonical
  form, so deliveries whose bodies have the same canonical form need the same signature.
\<close>

theorem verifyIpnSignature_exact:
  "verifyIpnSignature canonical hmac rawBody signature secret
     \<longleftrightarrow> (\<exists>body. canonical rawBody = Some body \<and> signature = hmac secret body)"
  by (auto simp: verifyIpnSignature_def timingSafeEqualHex_iff split: option.splits)

end
