(* ===== verification/Throttle.thy ===== *)
theory Throttle
  imports Js_Map
begin

text \<open>
  The throttle in front of every data provider (\<open>packages/data/src/cache/throttle.ts\<close>): the window
  counter with its reduced cap after a backoff signal, and the daily quota, each in the two
  backends the code selects between: a map of the process and the rows of a Postgres table. The
  process clock \<open>now\<close> and the clock of the database \<open>dbnow\<close> are arguments.
\<close>

record throttle_config =
  tc_limit :: int
  tc_windowMs :: ms
  tc_backoffFraction :: "real option"
  tc_cooloffMs :: "ms option"

record bucket =
  bu_count :: int
  bu_windowStart :: ms
  bu_backoffUntil :: ms

type_synonym buckets = "(string, bucket) js_map"

datatype throttle_backend = Backend_postgres | Backend_memory

text \<open>The environment: \<open>NODE_ENV === 'test'\<close>, \<open>THROTTLE_BACKEND\<close>, \<open>VERCEL\<close>, \<open>HAMAFX_RUNTIME === 'worker'\<close>.\<close>

definition resolveThrottleBackend :: "bool \<Rightarrow> string option \<Rightarrow> bool \<Rightarrow> bool \<Rightarrow> throttle_backend" where
  "resolveThrottleBackend test backend vercel worker =
     (if test then Backend_memory
      else if backend = Some ''postgres'' then Backend_postgres
      else if backend = Some ''memory'' then Backend_memory
      else if vercel \<or> worker then Backend_postgres
      else Backend_memory)"

section \<open>The process-local backend\<close>

definition getBucket :: "buckets \<Rightarrow> string \<Rightarrow> ms \<Rightarrow> buckets \<times> bucket" where
  "getBucket bs provider now =
     (case js_get bs provider of
        Some b \<Rightarrow> (bs, b)
      | None \<Rightarrow>
          (let fresh = \<lparr>bu_count = 0, bu_windowStart = now, bu_backoffUntil = 0\<rparr>
           in (js_set provider fresh bs, fresh)))"

definition backoff_limit :: "throttle_config \<Rightarrow> int" where
  "backoff_limit cfg =
     max 1 \<lfloor>real_of_int (tc_limit cfg) * (case tc_backoffFraction cfg of None \<Rightarrow> 8 / 10 | Some f \<Rightarrow> f)\<rfloor>"

definition effectiveLimit :: "throttle_config \<Rightarrow> bucket \<Rightarrow> ms \<Rightarrow> int" where
  "effectiveLimit cfg b now = (if bu_backoffUntil b > now then backoff_limit cfg else tc_limit cfg)"

definition tryReserve_memory :: "buckets \<Rightarrow> string \<Rightarrow> throttle_config \<Rightarrow> ms \<Rightarrow> buckets \<times> bool" where
  "tryReserve_memory bs provider cfg now =
     (case getBucket bs provider now of
        (bs1, b) \<Rightarrow>
          if now - bu_windowStart b \<ge> tc_windowMs cfg then
            (js_set provider (b\<lparr>bu_count := 1, bu_windowStart := now\<rparr>) bs1, True)
          else if bu_count b \<ge> effectiveLimit cfg b now then (bs1, False)
          else (js_set provider (b\<lparr>bu_count := bu_count b + 1\<rparr>) bs1, True))"

definition cooloff :: "throttle_config \<Rightarrow> ms" where
  "cooloff cfg = (case tc_cooloffMs cfg of None \<Rightarrow> 90000 | Some c \<Rightarrow> c)"

definition noteBackoff_memory :: "buckets \<Rightarrow> string \<Rightarrow> throttle_config \<Rightarrow> ms \<Rightarrow> buckets" where
  "noteBackoff_memory bs provider cfg now =
     (case getBucket bs provider now of
        (bs1, b) \<Rightarrow> js_set provider (b\<lparr>bu_backoffUntil := now + cooloff cfg\<rparr>) bs1)"

section \<open>The shared backend\<close>

text \<open>
  \<open>INSERT ... ON CONFLICT (provider) DO UPDATE SET ... WHERE ... RETURNING count\<close>: the call is
  granted when a row comes back.
\<close>

definition tryReserve_postgres :: "buckets \<Rightarrow> string \<Rightarrow> throttle_config \<Rightarrow> ms \<Rightarrow> ms \<Rightarrow> buckets \<times> bool" where
  "tryReserve_postgres rows provider cfg now dbnow =
     (case js_get rows provider of
        None \<Rightarrow> (js_set provider \<lparr>bu_count = 1, bu_windowStart = now, bu_backoffUntil = 0\<rparr> rows, True)
      | Some r \<Rightarrow>
          (let over = bu_windowStart r + tc_windowMs cfg \<le> dbnow in
           if over \<or> bu_count r < (if bu_backoffUntil r > dbnow then backoff_limit cfg else tc_limit cfg)
           then (js_set provider (r\<lparr>bu_count := (if over then 1 else bu_count r + 1),
                   bu_windowStart := (if over then dbnow else bu_windowStart r)\<rparr>) rows, True)
           else (rows, False)))"

definition noteBackoff_postgres :: "buckets \<Rightarrow> string \<Rightarrow> throttle_config \<Rightarrow> ms \<Rightarrow> buckets" where
  "noteBackoff_postgres rows provider cfg now =
     (case js_get rows provider of
        None \<Rightarrow> js_set provider \<lparr>bu_count = 1, bu_windowStart = now, bu_backoffUntil = now + cooloff cfg\<rparr> rows
      | Some r \<Rightarrow> js_set provider (r\<lparr>bu_backoffUntil := now + cooloff cfg\<rparr>) rows)"

definition tryReserve ::
  "throttle_backend \<Rightarrow> buckets \<Rightarrow> string \<Rightarrow> throttle_config \<Rightarrow> ms \<Rightarrow> ms \<Rightarrow> buckets \<times> bool" where
  "tryReserve backend bs provider cfg now dbnow =
     (case backend of
        Backend_memory \<Rightarrow> tryReserve_memory bs provider cfg now
      | Backend_postgres \<Rightarrow> tryReserve_postgres bs provider cfg now dbnow)"

definition noteBackoff :: "throttle_backend \<Rightarrow> buckets \<Rightarrow> string \<Rightarrow> throttle_config \<Rightarrow> ms \<Rightarrow> buckets" where
  "noteBackoff backend bs provider cfg now =
     (case backend of
        Backend_memory \<Rightarrow> noteBackoff_memory bs provider cfg now
      | Backend_postgres \<Rightarrow> noteBackoff_postgres bs provider cfg now)"

section \<open>The daily quota\<close>

text \<open>Memory keeps one entry for each provider, with its day; Postgres one row for each provider and day.\<close>

type_synonym daily_memory = "(string, int \<times> int) js_map"

type_synonym daily_rows = "(string \<times> int, int) js_map"

definition tryReserveDaily_memory :: "daily_memory \<Rightarrow> string \<Rightarrow> int \<Rightarrow> int \<Rightarrow> ms \<Rightarrow> daily_memory \<times> bool" where
  "tryReserveDaily_memory m provider cap buffer now =
     (let effectiveCap = cap - buffer; today = utcDay now in
      case js_get m provider of
        None \<Rightarrow> (js_set provider (1, today) m, True)
      | Some (count, day) \<Rightarrow>
          if day \<noteq> today then (js_set provider (1, today) m, True)
          else if count \<ge> effectiveCap then (m, False)
          else (js_set provider (count + 1, day) m, True))"

definition tryReserveDaily_postgres :: "daily_rows \<Rightarrow> string \<Rightarrow> int \<Rightarrow> int \<Rightarrow> ms \<Rightarrow> daily_rows \<times> bool" where
  "tryReserveDaily_postgres rows provider cap buffer now =
     (let effectiveCap = cap - buffer; today = utcDay now in
      case js_get rows (provider, today) of
        None \<Rightarrow> (js_set (provider, today) 1 rows, True)
      | Some count \<Rightarrow>
          if count < effectiveCap then (js_set (provider, today) (count + 1) rows, True) else (rows, False))"

section \<open>The two backends agree\<close>

lemma js_set_twice: "js_set k v (js_set k w m) = js_set k v m"
  by (induction k w m rule: js_set.induct) auto

text \<open>
  with a limit of at least one call and synchronised clocks the two backends are the same
  throttle: from the same buckets they grant the same calls and leave the same buckets, through
  window changes and backoffs.
\<close>

theorem throttle_backends_agree:
  assumes "1 \<le> tc_limit cfg" "0 < tc_windowMs cfg"
  shows "tryReserve Backend_memory bs provider cfg now now = tryReserve Backend_postgres bs provider cfg now now"
proof (cases "js_get bs provider")
  case None
  then show ?thesis
    using assms by (simp add: tryReserve_def tryReserve_memory_def tryReserve_postgres_def getBucket_def
        Let_def js_set_twice effectiveLimit_def backoff_limit_def)
next
  case (Some b)
  have "now - bu_windowStart b \<ge> tc_windowMs cfg \<longleftrightarrow> bu_windowStart b + tc_windowMs cfg \<le> now"
    by linarith
  then show ?thesis
    using Some by (auto simp: tryReserve_def tryReserve_memory_def tryReserve_postgres_def getBucket_def
        Let_def effectiveLimit_def not_less)
qed

definition example_throttle :: throttle_config where
  "example_throttle = \<lparr>tc_limit = 5, tc_windowMs = 60000, tc_backoffFraction = None, tc_cooloffMs = None\<rparr>"

theorem throttle_backends_agree_witness:
  "tryReserve Backend_memory [] ''finnhub'' example_throttle 7 7
     = tryReserve Backend_postgres [] ''finnhub'' example_throttle 7 7"
  by (rule throttle_backends_agree) (simp_all add: example_throttle_def)

section \<open>Grants within a window\<close>

datatype throttle_op = Op_reserve | Op_backoff

text \<open>A run of calls of one provider at given times (clocks synchronised), with the number granted.\<close>

fun throttle_run ::
  "throttle_backend \<Rightarrow> string \<Rightarrow> throttle_config \<Rightarrow> (throttle_op \<times> ms) list \<Rightarrow> buckets \<Rightarrow> buckets \<times> int" where
  "throttle_run be p cfg [] bs = (bs, 0)"
| "throttle_run be p cfg ((Op_backoff, t) # ops) bs = throttle_run be p cfg ops (noteBackoff be bs p cfg t)"
| "throttle_run be p cfg ((Op_reserve, t) # ops) bs =
     (case tryReserve be bs p cfg t t of (bs1, ok) \<Rightarrow>
        (case throttle_run be p cfg ops bs1 of (bs2, n) \<Rightarrow> (bs2, n + (if ok then 1 else 0))))"

definition window_count :: "buckets \<Rightarrow> string \<Rightarrow> ms \<Rightarrow> int option" where
  "window_count bs p w = (case js_get bs p of None \<Rightarrow> None
     | Some b \<Rightarrow> if bu_windowStart b = w then Some (bu_count b) else None)"

lemma backoff_window:
  "window_count bs p w = Some c \<Longrightarrow> window_count (noteBackoff be bs p cfg t) p w = Some c"
  by (cases be)
    (auto simp: window_count_def noteBackoff_def noteBackoff_memory_def noteBackoff_postgres_def getBucket_def
      map_laws split: option.splits if_splits)

lemma backoff_limit_le:
  assumes "1 \<le> tc_limit cfg" "\<forall>f. tc_backoffFraction cfg = Some f \<longrightarrow> f \<le> 1"
  shows "backoff_limit cfg \<le> tc_limit cfg"
proof -
  let ?f = "case tc_backoffFraction cfg of None \<Rightarrow> 8 / 10 | Some f \<Rightarrow> f"
  have "?f \<le> 1"
    using assms(2) by (cases "tc_backoffFraction cfg") auto
  then have "real_of_int (tc_limit cfg) * ?f \<le> real_of_int (tc_limit cfg)"
    using mult_left_le[of ?f "real_of_int (tc_limit cfg)"] assms(1) by linarith
  then have "\<lfloor>real_of_int (tc_limit cfg) * ?f\<rfloor> \<le> tc_limit cfg"
    by (simp add: floor_le_iff)
  then show ?thesis
    using assms(1) by (simp add: backoff_limit_def)
qed

lemma reserve_window:
  assumes "window_count bs p w = Some c" "t < w + tc_windowMs cfg" "tryReserve be bs p cfg t t = (bs1, ok)"
    "backoff_limit cfg \<le> tc_limit cfg"
  shows "window_count bs1 p w = Some (c + (if ok then 1 else 0)) \<and> (ok \<longrightarrow> c < tc_limit cfg)"
  using assms
  by (cases be)
    (auto simp: window_count_def tryReserve_def tryReserve_memory_def tryReserve_postgres_def getBucket_def
      effectiveLimit_def map_laws Let_def split: option.splits if_splits)

lemma run_window:
  assumes "backoff_limit cfg \<le> tc_limit cfg" "window_count bs p w = Some c" "\<forall>(q, t)\<in>set ops. t < w + tc_windowMs cfg"
    and "throttle_run be p cfg ops bs = (bs', n)"
  shows "window_count bs' p w = Some (c + n) \<and> 0 \<le> n \<and> c + n \<le> max c (tc_limit cfg)"
  using assms
proof (induction be p cfg ops bs arbitrary: c n bs' rule: throttle_run.induct)
  case (2 be p cfg t ops bs)
  then show ?case
    using backoff_window[of bs p w c be cfg t] by simp
next
  case (3 be p cfg t ops bs)
  obtain bs1 ok where r: "tryReserve be bs p cfg t t = (bs1, ok)"
    by fastforce
  obtain bs2 m where m: "throttle_run be p cfg ops bs1 = (bs2, m)"
    by fastforce
  have step: "window_count bs1 p w = Some (c + (if ok then 1 else 0)) \<and> (ok \<longrightarrow> c < tc_limit cfg)"
    using reserve_window[OF 3(3) _ r] 3(2,4) by auto
  have "window_count bs2 p w = Some (c + (if ok then 1 else 0) + m) \<and> 0 \<le> m
      \<and> c + (if ok then 1 else 0) + m \<le> max (c + (if ok then 1 else 0)) (tc_limit cfg)"
    using 3(1)[OF r[symmetric] 3(2) step[THEN conjunct1] _ m] 3(4) by auto
  then show ?case
    using 3(5) r m step by (auto split: if_splits)
qed simp_all

text \<open>
  within one window a provider is granted at most its limit of calls, whatever backoff signals
  arrive in between and whichever backend counts: from the bucket of a window that has used \<open>c\<close>
  calls, all further calls before the window's end together get at most \<open>limit - c\<close> grants.
\<close>

theorem throttle_window_bound:
  assumes "1 \<le> tc_limit cfg" "\<forall>f. tc_backoffFraction cfg = Some f \<longrightarrow> f \<le> 1"
    and "js_get bs p = Some b" "bu_count b \<le> tc_limit cfg"
    and "\<forall>(q, t)\<in>set ops. t < bu_windowStart b + tc_windowMs cfg"
  shows "bu_count b + snd (throttle_run be p cfg ops bs) \<le> tc_limit cfg"
proof -
  obtain bs' n where r: "throttle_run be p cfg ops bs = (bs', n)"
    by fastforce
  have "window_count bs p (bu_windowStart b) = Some (bu_count b)"
    using assms(3) by (simp add: window_count_def)
  then show ?thesis
    using run_window[OF backoff_limit_le[OF assms(1,2)] _ assms(5) r] r assms(4) by auto
qed

theorem throttle_window_bound_witness:
  "snd (throttle_run Backend_postgres ''p'' example_throttle
     ([(Op_reserve, 1), (Op_reserve, 2), (Op_backoff, 3), (Op_reserve, 4), (Op_reserve, 5)])
     [(''p'', \<lparr>bu_count = 3, bu_windowStart = 0, bu_backoffUntil = 0\<rparr>)]) \<le> 2"
  using throttle_window_bound[of example_throttle "[(''p'', \<lparr>bu_count = 3, bu_windowStart = 0, bu_backoffUntil = 0\<rparr>)]"
      "''p''" "\<lparr>bu_count = 3, bu_windowStart = 0, bu_backoffUntil = 0\<rparr>"
      "[(Op_reserve, 1), (Op_reserve, 2), (Op_backoff, 3), (Op_reserve, 4), (Op_reserve, 5)]" Backend_postgres]
  by (simp add: example_throttle_def)

end
