(* ===== verification/Memory_Cache.thy ===== *)
theory Memory_Cache
  imports Js_Map "HOL-Library.Sublist"
begin

text \<open>
  The process-local cache of the data layer (\<open>packages/data/src/cache/memory.ts\<close>). A fetch is
  two steps of the event loop: \<open>fetch_begin\<close> up to the first \<open>await\<close> (a fresh hit, joining a running
  producer, or starting one), and the moment the producer resolves or rejects. Values are
  arbitrary; producers are known by the number of their promise.
\<close>

record 'v cache_entry =
  ce_value :: 'v
  ce_producedAt :: ms
  ce_expiresAt :: ms
  ce_hardExpiresAt :: ms
  ce_tags :: "string list"

record 'v memory_cache =
  mc_store :: "(string, 'v cache_entry) js_map"
  mc_inflight :: "(string, nat) js_map"
  mc_next :: nat
  mc_maxEntries :: nat

definition new_cache :: "nat option \<Rightarrow> 'v memory_cache" where
  "new_cache maxEntries = \<lparr>mc_store = [], mc_inflight = [], mc_next = 0,
     mc_maxEntries = (case maxEntries of None \<Rightarrow> 5000 | Some n \<Rightarrow> n)\<rparr>"

section \<open>Sweeping and eviction\<close>

fun evictIfNeeded :: "nat \<Rightarrow> ('k, 'v) js_map \<Rightarrow> ('k, 'v) js_map" where
  "evictIfNeeded maxEntries [] = []"
| "evictIfNeeded maxEntries (p # m) =
     (if length (p # m) \<ge> maxEntries then evictIfNeeded maxEntries m else p # m)"

definition maxSweep :: "bool \<Rightarrow> nat" where
  "maxSweep worker = (if worker then 128 else 32)"

text \<open>The sweep of at most \<open>n\<close> expired entries, in insertion order.\<close>

fun lazySweep :: "nat \<Rightarrow> ms \<Rightarrow> (string, 'v cache_entry) js_map \<Rightarrow> (string, 'v cache_entry) js_map" where
  "lazySweep n now [] = []"
| "lazySweep n now ((k, e) # m) =
     (if ce_hardExpiresAt e < now then (if n \<le> 1 then m else lazySweep (n - 1) now m)
      else (k, e) # lazySweep n now m)"

definition sweep :: "'v memory_cache \<Rightarrow> ms \<Rightarrow> 'v memory_cache \<times> nat" where
  "sweep c now =
     (let kept = js_prune (\<lambda>k e. ce_hardExpiresAt e < now) (mc_store c)
      in (c\<lparr>mc_store := kept\<rparr>, length (mc_store c) - length kept))"

definition invalidateTag :: "'v memory_cache \<Rightarrow> string \<Rightarrow> 'v memory_cache" where
  "invalidateTag c tag = c\<lparr>mc_store := js_prune (\<lambda>k e. tag \<in> set (ce_tags e)) (mc_store c)\<rparr>"

definition clear :: "'v memory_cache \<Rightarrow> 'v memory_cache" where
  "clear c = c\<lparr>mc_store := [], mc_inflight := []\<rparr>"

section \<open>A fetch\<close>

text \<open>The stale entry found, if any, stays with the caller for the fallback.\<close>

datatype 'v fetch_decision =
    Fresh "'v cache_entry"
  | Joined nat "'v cache_entry option"
  | Started nat "'v cache_entry option"

definition fetch_begin :: "'v memory_cache \<Rightarrow> string \<Rightarrow> bool \<Rightarrow> ms \<Rightarrow> 'v memory_cache \<times> 'v fetch_decision" where
  "fetch_begin c key worker now =
     (let swept = lazySweep (maxSweep worker) now (mc_store c);
          c1 = c\<lparr>mc_store := swept\<rparr>;
          hit = js_get swept key;
          miss = (case js_get (mc_inflight c1) key of
              Some i \<Rightarrow> (c1, Joined i hit)
            | None \<Rightarrow> (c1\<lparr>mc_inflight := js_set key (mc_next c1) (mc_inflight c1), mc_next := mc_next c1 + 1\<rparr>,
                       Started (mc_next c1) hit))
      in case hit of
           None \<Rightarrow> miss
         | Some e \<Rightarrow>
             if ce_expiresAt e > now
             then (c1\<lparr>mc_store := js_set key e (js_delete key swept)\<rparr>, Fresh e)
             else miss)"

definition fetch_resolve ::
  "'v memory_cache \<Rightarrow> string \<Rightarrow> 'v \<Rightarrow> ms \<Rightarrow> ms \<Rightarrow> ms \<Rightarrow> string list \<Rightarrow> 'v memory_cache" where
  "fetch_resolve c key v producedAt ttlMs swrMs tags =
     c\<lparr>mc_store := js_set key \<lparr>ce_value = v, ce_producedAt = producedAt, ce_expiresAt = producedAt + ttlMs,
         ce_hardExpiresAt = producedAt + ttlMs + swrMs, ce_tags = tags\<rparr>
         (evictIfNeeded (mc_maxEntries c) (mc_store c)),
       mc_inflight := js_delete key (mc_inflight c)\<rparr>"

definition fetch_reject :: "'v memory_cache \<Rightarrow> string \<Rightarrow> 'v memory_cache" where
  "fetch_reject c key = c\<lparr>mc_inflight := js_delete key (mc_inflight c)\<rparr>"

text \<open>
  What the owner of a rejected producer and everyone who joined it get: the entry found at the
  beginning when the fallback is on and it was within its hard limit then, else the error.
\<close>

definition stale_fallback :: "'v cache_entry option \<Rightarrow> ms \<Rightarrow> ms \<Rightarrow> 'e \<Rightarrow> 'e + 'v \<times> ms" where
  "stale_fallback hit swrMs now err =
     (case hit of
        None \<Rightarrow> Inl err
      | Some e \<Rightarrow> if swrMs > 0 \<and> ce_hardExpiresAt e > now then Inr (ce_value e, ce_producedAt e) else Inl err)"

section \<open>Parts of the store\<close>

text \<open>A store that lost some of its entries and kept the order of the rest.\<close>

definition sub_store :: "('k, 'v) js_map \<Rightarrow> ('k, 'v) js_map \<Rightarrow> bool" where
  "sub_store m' m \<longleftrightarrow> subseq m' m"

lemma subseq_distinct: "subseq xs ys \<Longrightarrow> distinct ys \<Longrightarrow> distinct xs"
  by (induction rule: list_emb.induct) (auto dest: list_emb_set)

lemma sub_store_wf: "sub_store m' m \<Longrightarrow> js_wf m \<Longrightarrow> js_wf m'"
  unfolding sub_store_def js_wf_def js_keys_def by (meson subseq_map subseq_distinct)

lemma sub_store_get: "sub_store m' m \<Longrightarrow> js_wf m \<Longrightarrow> js_get m' k = Some e \<Longrightarrow> js_get m k = Some e"
  using js_get_in_set[of m' k e] js_get_in_set[of m k e] sub_store_wf[of m' m]
  by (auto simp: sub_store_def dest: list_emb_set)

lemma sub_store_length: "sub_store m' m \<Longrightarrow> length m' \<le> length m"
  by (simp add: sub_store_def list_emb_length)

lemma evict_sub: "sub_store (evictIfNeeded n m) m"
  by (induction n m rule: evictIfNeeded.induct) (auto simp: sub_store_def)

lemma evict_length: "length (evictIfNeeded n m) \<le> n - 1"
  by (induction n m rule: evictIfNeeded.induct) auto

lemma lazySweep_sub: "sub_store (lazySweep n now m) m"
  by (induction n now m rule: lazySweep.induct) (auto simp: sub_store_def)

lemma prune_sub: "sub_store (js_prune P m) m"
  by (simp add: sub_store_def js_prune_def)

section \<open>Runs of the cache\<close>

datatype 'v cache_op =
    Begin string bool ms
  | Resolve string 'v ms ms ms "string list"
  | Reject string
  | Sweep ms
  | Invalidate string
  | Clear

fun cache_apply :: "'v memory_cache \<Rightarrow> 'v cache_op \<Rightarrow> 'v memory_cache" where
  "cache_apply c (Begin key worker now) = fst (fetch_begin c key worker now)"
| "cache_apply c (Resolve key v t ttl swr tags) = fetch_resolve c key v t ttl swr tags"
| "cache_apply c (Reject key) = fetch_reject c key"
| "cache_apply c (Sweep now) = fst (sweep c now)"
| "cache_apply c (Invalidate tag) = invalidateTag c tag"
| "cache_apply c Clear = clear c"

definition cache_run :: "'v memory_cache \<Rightarrow> 'v cache_op list \<Rightarrow> 'v memory_cache" where
  "cache_run c ops = foldl cache_apply c ops"

text \<open>What a cache without bounds or expiry would hold for a key.\<close>

fun latest_step :: "string \<Rightarrow> 'v cache_entry option \<Rightarrow> 'v cache_op \<Rightarrow> 'v cache_entry option" where
  "latest_step k acc (Resolve key v t ttl swr tags) =
     (if key = k then Some \<lparr>ce_value = v, ce_producedAt = t, ce_expiresAt = t + ttl,
        ce_hardExpiresAt = t + ttl + swr, ce_tags = tags\<rparr> else acc)"
| "latest_step k acc (Invalidate tag) =
     (case acc of None \<Rightarrow> None | Some e \<Rightarrow> if tag \<in> set (ce_tags e) then None else Some e)"
| "latest_step k acc Clear = None"
| "latest_step k acc op = acc"

definition latest :: "string \<Rightarrow> 'v cache_op list \<Rightarrow> 'v cache_entry option" where
  "latest k ops = foldl (latest_step k) None ops"

definition cache_inv :: "'v memory_cache \<Rightarrow> 'v cache_op list \<Rightarrow> bool" where
  "cache_inv c ops \<longleftrightarrow> js_wf (mc_store c) \<and> length (mc_store c) \<le> max 1 (mc_maxEntries c)
     \<and> (\<forall>k e. js_get (mc_store c) k = Some e \<longrightarrow> latest k ops = Some e)"

lemma fetch_begin_store:
  assumes "fetch_begin c key worker now = (c', d)"
  shows "\<exists>m. sub_store m (mc_store c) \<and> mc_maxEntries c' = mc_maxEntries c
    \<and> (mc_store c' = m \<or> (\<exists>e. js_get m key = Some e \<and> mc_store c' = js_set key e (js_delete key m)))
    \<and> (\<forall>e. d = Fresh e \<longrightarrow> js_get m key = Some e \<and> now < ce_expiresAt e)
    \<and> (\<forall>i e. d = Joined i (Some e) \<or> d = Started i (Some e) \<longrightarrow> js_get m key = Some e)"
  using assms lazySweep_sub[of "maxSweep worker" now "mc_store c"]
  by (intro exI[of _ "lazySweep (maxSweep worker) now (mc_store c)"])
    (auto simp: fetch_begin_def Let_def split: option.splits if_splits)

lemma moved_entry:
  "js_wf m \<Longrightarrow> js_get m k = Some e \<Longrightarrow> length (js_set k e (js_delete k m)) = length m
    \<and> js_get (js_set k e (js_delete k m)) = js_get m"
  using length_js_set[of k e "js_delete k m"] length_js_delete[of m k]
  by (auto simp: map_laws fun_eq_iff dest: js_get_in_keys)

lemma cache_inv_step:
  assumes inv: "cache_inv c ops"
  shows "cache_inv (cache_apply c op) (ops @ [op]) \<and> mc_maxEntries (cache_apply c op) = mc_maxEntries c"
proof -
  have wf: "js_wf (mc_store c)" and len: "length (mc_store c) \<le> max 1 (mc_maxEntries c)"
    and ent: "\<And>k e. js_get (mc_store c) k = Some e \<Longrightarrow> latest k ops = Some e"
    using inv by (auto simp: cache_inv_def)
  have latest: "latest k (ops @ [op]) = latest_step k (latest k ops) op" for k
    by (simp add: latest_def)
  show ?thesis
  proof (cases op)
    case (Begin key worker now)
    obtain c' d where c': "fetch_begin c key worker now = (c', d)"
      by fastforce
    obtain m where m: "sub_store m (mc_store c)" "mc_maxEntries c' = mc_maxEntries c"
        "mc_store c' = m \<or> (\<exists>e. js_get m key = Some e \<and> mc_store c' = js_set key e (js_delete key m))"
      using fetch_begin_store[OF c'] by blast
    have "js_wf m" "length m \<le> max 1 (mc_maxEntries c)" "\<And>k e. js_get m k = Some e \<Longrightarrow> latest k ops = Some e"
      using sub_store_wf[OF m(1) wf] sub_store_length[OF m(1)] len sub_store_get[OF m(1) wf] ent by auto
    then show ?thesis
      using m(2,3) moved_entry[of m key] latest
      by (auto simp: cache_inv_def Begin c' inv_intros)
  next
    case (Resolve key v t ttl swr tags)
    let ?m = "evictIfNeeded (mc_maxEntries c) (mc_store c)"
    note sub = evict_sub[of "mc_maxEntries c" "mc_store c"]
    have "js_get ?m k = Some e \<Longrightarrow> latest k ops = Some e" for k e
      using sub_store_get[OF sub wf] ent by blast
    moreover have "length (js_set key x ?m) \<le> max 1 (mc_maxEntries c)" for x
      using evict_length[of "mc_maxEntries c" "mc_store c"] by (auto simp: length_js_set max_def)
    ultimately show ?thesis
      using sub_store_wf[OF sub wf] latest
      by (auto simp: cache_inv_def Resolve fetch_resolve_def map_laws inv_intros)
  next
    case (Sweep now)
    let ?m = "js_prune (\<lambda>k e. ce_hardExpiresAt e < now) (mc_store c)"
    note sub = prune_sub[of "\<lambda>k e. ce_hardExpiresAt e < now" "mc_store c"]
    show ?thesis
      using sub_store_wf[OF sub wf] sub_store_length[OF sub] len sub_store_get[OF sub wf] ent latest
      by (auto simp: cache_inv_def Sweep sweep_def Let_def)
  next
    case (Invalidate tag)
    let ?m = "js_prune (\<lambda>k e. tag \<in> set (ce_tags e)) (mc_store c)"
    note sub = prune_sub[of "\<lambda>k e. tag \<in> set (ce_tags e)" "mc_store c"]
    have "latest k (ops @ [op]) = Some e" if "js_get ?m k = Some e" for k e
      using that ent[of k] js_get_prune[OF wf, of "\<lambda>k e. tag \<in> set (ce_tags e)" k] latest
      by (auto simp: Invalidate split: option.splits if_splits)
    then show ?thesis
      using sub_store_wf[OF sub wf] sub_store_length[OF sub] len
      by (auto simp: cache_inv_def Invalidate invalidateTag_def)
  qed (use inv latest in \<open>auto simp: cache_inv_def fetch_reject_def clear_def\<close>)
qed

lemma cache_inv_run: "cache_inv (cache_run (new_cache n) ops) ops
    \<and> mc_maxEntries (cache_run (new_cache n) ops) = mc_maxEntries (new_cache n :: 'v memory_cache)"
proof (induction ops rule: rev_induct)
  case Nil
  show ?case by (simp add: cache_run_def cache_inv_def new_cache_def)
next
  case (snoc op ops)
  then show ?case
    using cache_inv_step[of "cache_run (new_cache n) ops" ops op] by (simp add: cache_run_def)
qed



section \<open>Refreshing an entry\<close>

lemma evict_full: "length m = n \<Longrightarrow> 0 < n \<Longrightarrow> evictIfNeeded n m = tl m"
proof (cases m)
  case (Cons p m')
  assume "length m = n"
  then show ?thesis
    using Cons by (cases m') auto
qed simp

text \<open>
  refreshing an entry is not least-recently-used replacement. When the producer of a key that is
  in a full cache answers, the first entry is thrown out although no room is needed, so the cache
  shrinks below its capacity; and the refreshed key keeps its old place in the order of eviction
  instead of moving to the end.
\<close>

theorem refresh_evicts_another:
  assumes "js_keys (mc_store c) = k # ks" "distinct (k # ks)" "length (k # ks) = mc_maxEntries c" "key \<in> set ks"
  shows "js_keys (mc_store (fetch_resolve c key v t ttl swr tags)) = ks"
proof -
  have "evictIfNeeded (mc_maxEntries c) (mc_store c) = tl (mc_store c)"
    using assms(1,3) by (intro evict_full) (auto simp: js_keys_def dest: arg_cong[of _ _ length])
  moreover have "js_keys (tl (mc_store c)) = ks"
    using assms(1) by (simp add: js_keys_def map_tl)
  ultimately show ?thesis
    using assms(4) by (simp add: fetch_resolve_def js_keys_set)
qed

theorem refresh_evicts_another_witness:
  "js_keys (mc_store (cache_run (new_cache (Some 3)) [Resolve ''a'' (1::int) 0 10 0 [], Resolve ''b'' 2 0 10 0 [],
     Resolve ''c'' 3 0 10 0 [], Resolve ''b'' 4 5 10 0 []])) = [''b'', ''c'']"
proof -
  let ?c = "cache_run (new_cache (Some 3)) [Resolve ''a'' (1::int) 0 10 0 [], Resolve ''b'' 2 0 10 0 [],
     Resolve ''c'' 3 0 10 0 []]"
  have "js_keys (mc_store (fetch_resolve ?c ''b'' 4 5 10 0 [])) = [''b'', ''c'']"
    by (rule refresh_evicts_another[of _ "''a''"])
      (simp_all add: cache_run_def fetch_resolve_def new_cache_def js_keys_def)
  then show ?thesis
    by (simp add: cache_run_def)
qed

end
