(* ===== verification/Failover.thy ===== *)
theory Failover
  imports Js_Map "HOL-Library.Multiset"
begin

text \<open>
  Provider health and the failover runner (\<open>packages/data/src/health.ts\<close>, \<open>failover.ts\<close> and the
  errors of \<open>errors.ts\<close>): the five-minute samples of a process, the cached copy of the shared failure
  counters, the score, the order of attempts and the run over them. What each attempt answers is an
  argument. Reads and writes of the shared table are not awaited by the code: the model has the
  statements they run and the arrival of a read as steps of their own.
\<close>

section \<open>Health\<close>

definition WINDOW_MS :: ms where
  "WINDOW_MS = 5 * 60 * 1000"

definition DB_CACHE_MS :: ms where
  "DB_CACHE_MS = 10000"

record health_sample =
  sm_t :: ms
  sm_ok :: bool

record db_cache_entry =
  dc_readAt :: ms
  dc_consecutiveFailures :: nat
  dc_lastFailureAt :: ms

record health =
  he_state :: "(string, health_sample list) js_map"
  he_dbCache :: "(string, db_cache_entry) js_map"

definition trim_samples :: "health_sample list \<Rightarrow> ms \<Rightarrow> health_sample list" where
  "trim_samples samples now = dropWhile (\<lambda>e. sm_t e < now - WINDOW_MS) samples"

definition samples_of :: "health \<Rightarrow> string \<Rightarrow> health_sample list" where
  "samples_of h provider = (case js_get (he_state h) provider of None \<Rightarrow> [] | Some xs \<Rightarrow> xs)"

text \<open>The trailing run of failures.\<close>

definition consecutiveFailures :: "health_sample list \<Rightarrow> nat" where
  "consecutiveFailures samples = length (takeWhile (\<lambda>e. \<not> sm_ok e) (rev samples))"

definition record_sample :: "health \<Rightarrow> string \<Rightarrow> bool \<Rightarrow> ms \<Rightarrow> health" where
  "record_sample h provider ok now =
     h\<lparr>he_state := js_set provider
       (trim_samples (samples_of h provider @ [\<lparr>sm_t = now, sm_ok = ok\<rparr>]) now) (he_state h)\<rparr>"

definition recordSuccess :: "health \<Rightarrow> string \<Rightarrow> ms \<Rightarrow> health" where
  "recordSuccess h provider now = record_sample h provider True now"

definition recordFailure :: "health \<Rightarrow> string \<Rightarrow> ms \<Rightarrow> health" where
  "recordFailure h provider now = record_sample h provider False now"

text \<open>The shared table: consecutive failures and the times of the last success and failure.\<close>

record provider_health_row =
  ph_consecutiveFailures :: nat
  ph_lastSuccessAt :: "ms option"
  ph_lastFailureAt :: "ms option"

type_synonym health_rows = "(string, provider_health_row) js_map"

definition dbRecordSuccess :: "health_rows \<Rightarrow> string \<Rightarrow> ms \<Rightarrow> health_rows" where
  "dbRecordSuccess rows provider dbnow =
     (case js_get rows provider of
        None \<Rightarrow> js_set provider \<lparr>ph_consecutiveFailures = 0, ph_lastSuccessAt = Some dbnow, ph_lastFailureAt = None\<rparr> rows
      | Some r \<Rightarrow> js_set provider (r\<lparr>ph_lastSuccessAt := Some dbnow, ph_consecutiveFailures := 0\<rparr>) rows)"

definition dbRecordFailure :: "health_rows \<Rightarrow> string \<Rightarrow> ms \<Rightarrow> health_rows" where
  "dbRecordFailure rows provider dbnow =
     (case js_get rows provider of
        None \<Rightarrow> js_set provider \<lparr>ph_consecutiveFailures = 1, ph_lastSuccessAt = None, ph_lastFailureAt = Some dbnow\<rparr> rows
      | Some r \<Rightarrow> js_set provider (r\<lparr>ph_lastFailureAt := Some dbnow,
          ph_consecutiveFailures := ph_consecutiveFailures r + 1\<rparr>) rows)"

text \<open>The arrival of a read that was started at \<open>readAt\<close>.\<close>

definition populateDbCache :: "health \<Rightarrow> health_rows \<Rightarrow> string \<Rightarrow> ms \<Rightarrow> health" where
  "populateDbCache h rows provider readAt =
     h\<lparr>he_dbCache := js_set provider
       (case js_get rows provider of
          None \<Rightarrow> \<lparr>dc_readAt = readAt, dc_consecutiveFailures = 0, dc_lastFailureAt = 0\<rparr>
        | Some r \<Rightarrow> \<lparr>dc_readAt = readAt, dc_consecutiveFailures = ph_consecutiveFailures r,
            dc_lastFailureAt = (case ph_lastFailureAt r of None \<Rightarrow> 0 | Some t \<Rightarrow> t)\<rparr>) (he_dbCache h)\<rparr>"

text \<open>The count, and whether a read is started.\<close>

definition getDbConsecutiveFailures :: "health \<Rightarrow> string \<Rightarrow> ms \<Rightarrow> nat \<times> bool" where
  "getDbConsecutiveFailures h provider now =
     (case js_get (he_dbCache h) provider of
        None \<Rightarrow> (0, True)
      | Some c \<Rightarrow>
          if now - dc_readAt c < DB_CACHE_MS then
            (if dc_lastFailureAt c > 0 \<and> now - dc_lastFailureAt c > WINDOW_MS then 0
             else dc_consecutiveFailures c, False)
          else (dc_consecutiveFailures c, True))"

record health_snapshot =
  hs_samples :: nat
  hs_ok :: nat
  hs_failed :: nat
  hs_failureRate :: real

definition getHealth :: "health \<Rightarrow> string \<Rightarrow> ms \<Rightarrow> health_snapshot" where
  "getHealth h provider now =
     (let xs = trim_samples (samples_of h provider) now;
          ok = length (filter sm_ok xs); failed = length (filter (\<lambda>e. \<not> sm_ok e) xs)
      in \<lparr>hs_samples = ok + failed, hs_ok = ok, hs_failed = failed,
          hs_failureRate = (if ok + failed = 0 then 0 else real failed / real (ok + failed))\<rparr>)"

text \<open>The score of samples that are in the window, given the failures other processes have seen.\<close>

definition sample_score :: "health_sample list \<Rightarrow> nat \<Rightarrow> real" where
  "sample_score xs dbConsec =
     (if xs = [] then
        (if dbConsec = 0 then 1 / 2
         else max 0 (1 - (\<Sum>i<dbConsec. 2 ^ i) / real dbConsec))
      else
        let consec = max (consecutiveFailures xs) dbConsec;
            weightedFailures = (\<Sum>idx<length xs. if sm_ok (xs ! idx) then 0
              else 2 ^ (consec - (length xs - 1 - idx) - 1))
        in max 0 (1 - weightedFailures / real (length xs)))"

definition getScore :: "health \<Rightarrow> string \<Rightarrow> ms \<Rightarrow> real" where
  "getScore h provider now =
     sample_score (trim_samples (samples_of h provider) now) (fst (getDbConsecutiveFailures h provider now))"

section \<open>Errors and attempts\<close>

datatype data_error_code =
    PROVIDER_TIMEOUT | PROVIDER_HTTP_ERROR | PROVIDER_PARSE_ERROR | PROVIDER_QUOTA_EXCEEDED
  | PROVIDER_NO_API_KEY | PROVIDER_UNSUPPORTED_SYMBOL | NO_PROVIDER_AVAILABLE

record provider_error =
  pe_code :: data_error_code
  pe_provider :: string
  pe_message :: string

text \<open>An attempt resolves, throws a provider error or the empty sentinel, or throws something else.\<close>

datatype 'v attempt_outcome =
    Succeeds 'v
  | Fails provider_error
  | Empty string
  | Crashes string

record 'v provider_attempt =
  at_name :: string
  at_pinned :: bool
  at_outcome :: "'v attempt_outcome"

datatype failover_error = Provider_error provider_error | Other_error string

definition rankProviderError :: "provider_error \<Rightarrow> nat" where
  "rankProviderError e =
     (case pe_code e of
        PROVIDER_QUOTA_EXCEEDED \<Rightarrow> 3 | PROVIDER_HTTP_ERROR \<Rightarrow> 2 | PROVIDER_TIMEOUT \<Rightarrow> 2 | _ \<Rightarrow> 1)"

text \<open>Pinned attempts first, in the caller's order; then by score, ties in the caller's order.\<close>

definition failover_order :: "health \<Rightarrow> ms \<Rightarrow> 'v provider_attempt list \<Rightarrow> 'v provider_attempt list" where
  "failover_order h now attempts =
     filter at_pinned attempts
     @ sort_key (\<lambda>a. - getScore h (at_name a) now) (filter (\<lambda>a. \<not> at_pinned a) attempts)"

fun failover_loop ::
  "ms \<Rightarrow> 'v provider_attempt list \<Rightarrow> provider_error option \<Rightarrow> provider_error option \<Rightarrow> health
     \<Rightarrow> health \<times> (failover_error + 'v \<times> string)" where
  "failover_loop now [] firstError bestError h =
     (h, Inl (Provider_error (case bestError of Some e \<Rightarrow> e | None \<Rightarrow>
        (case firstError of Some e \<Rightarrow> e | None \<Rightarrow>
           \<lparr>pe_code = NO_PROVIDER_AVAILABLE, pe_provider = ''none'', pe_message = ''all providers failed''\<rparr>))))"
| "failover_loop now (a # as) firstError bestError h =
     (case at_outcome a of
        Succeeds v \<Rightarrow> (recordSuccess h (at_name a) now, Inr (v, at_name a))
      | Empty msg \<Rightarrow> failover_loop now as firstError bestError h
      | Crashes msg \<Rightarrow> (recordFailure h (at_name a) now, Inl (Other_error msg))
      | Fails e \<Rightarrow>
          failover_loop now as
            (case firstError of None \<Rightarrow> Some e | Some f \<Rightarrow> Some f)
            (case bestError of None \<Rightarrow> Some e
             | Some b \<Rightarrow> if rankProviderError e > rankProviderError b then Some e else Some b)
            (recordFailure h (at_name a) now))"

definition runWithFailover ::
  "health \<Rightarrow> ms \<Rightarrow> 'v provider_attempt list \<Rightarrow> health \<times> (failover_error + 'v \<times> string)" where
  "runWithFailover h now attempts =
     (if attempts = [] then
        (h, Inl (Provider_error \<lparr>pe_code = NO_PROVIDER_AVAILABLE, pe_provider = ''none'',
           pe_message = ''no providers configured for this resource''\<rparr>))
      else failover_loop now (failover_order h now attempts) None None h)"

section \<open>The order of attempts\<close>

lemma failover_order_mset: "mset (failover_order h now as) = mset as"
  by (simp add: failover_order_def)

lemma failover_order_sorted:
  "failover_order h now as = filter at_pinned as @ ds \<Longrightarrow> sorted_wrt (\<lambda>a b. getScore h (at_name a) now \<ge> getScore h (at_name b) now) ds"
  unfolding failover_order_def using sorted_sort_key[of "\<lambda>a. - getScore h (at_name a) now" "filter (\<lambda>a. \<not> at_pinned a) as"]
  by (auto simp: sorted_wrt_map)

section \<open>The run\<close>

text \<open>The attempts that are tried: up to and including the first that succeeds or crashes.\<close>

definition decisive :: "'v provider_attempt \<Rightarrow> bool" where
  "decisive a \<longleftrightarrow> (case at_outcome a of Succeeds v \<Rightarrow> True | Crashes m \<Rightarrow> True | _ \<Rightarrow> False)"

fun failed_error :: "'v provider_attempt \<Rightarrow> provider_error option" where
  "failed_error a = (case at_outcome a of Fails e \<Rightarrow> Some e | _ \<Rightarrow> None)"

text \<open>The first error of the highest rank.\<close>

fun most_actionable :: "provider_error list \<Rightarrow> provider_error option" where
  "most_actionable [] = None"
| "most_actionable (e # es) = (case most_actionable es of None \<Rightarrow> Some e
     | Some b \<Rightarrow> if rankProviderError b > rankProviderError e then Some b else Some e)"

definition tried_errors :: "'v provider_attempt list \<Rightarrow> provider_error list" where
  "tried_errors as = List.map_filter failed_error (takeWhile (\<lambda>a. \<not> decisive a) as)"

definition record_all :: "health \<Rightarrow> ms \<Rightarrow> (string \<times> bool) list \<Rightarrow> health" where
  "record_all h now es = foldl (\<lambda>h (p, ok). record_sample h p ok now) h es"

definition failure_events :: "'v provider_attempt list \<Rightarrow> (string \<times> bool) list" where
  "failure_events as = map (\<lambda>a. (at_name a, False))
     (filter (\<lambda>a. failed_error a \<noteq> None) (takeWhile (\<lambda>a. \<not> decisive a) as))"

lemma most_actionable_merge:
  "most_actionable (b # e # es) = most_actionable ((if rankProviderError e > rankProviderError b then e else b) # es)"
  by (auto split: option.splits)

definition loop_error :: "provider_error option \<Rightarrow> provider_error" where
  "loop_error e = (case e of Some e \<Rightarrow> e | None \<Rightarrow>
     \<lparr>pe_code = NO_PROVIDER_AVAILABLE, pe_provider = ''none'', pe_message = ''all providers failed''\<rparr>)"

definition final_event :: "'v provider_attempt list \<Rightarrow> (string \<times> bool) list" where
  "final_event as = (case List.find decisive as of None \<Rightarrow> []
     | Some a \<Rightarrow> [(at_name a, case at_outcome a of Succeeds v \<Rightarrow> True | _ \<Rightarrow> False)])"

text \<open>What a run over \<open>as\<close> may answer when \<open>errs\<close> are the provider errors seen.\<close>

definition run_answer ::
  "'v provider_attempt list \<Rightarrow> provider_error list \<Rightarrow> failover_error + 'v \<times> string \<Rightarrow> bool" where
  "run_answer as errs r \<longleftrightarrow> (case r of
        Inr (v, p) \<Rightarrow> (\<exists>a. List.find decisive as = Some a \<and> at_outcome a = Succeeds v \<and> at_name a = p)
      | Inl (Other_error m) \<Rightarrow> (\<exists>a. List.find decisive as = Some a \<and> at_outcome a = Crashes m)
      | Inl (Provider_error e) \<Rightarrow> List.find decisive as = None \<and> e = loop_error (most_actionable errs))"

lemma skip_attempt:
  assumes "\<not> decisive a"
  shows "List.find decisive (a # as) = List.find decisive as"
    and "run_answer (a # as) errs r = run_answer as errs r"
    and "tried_errors (a # as) = (case failed_error a of None \<Rightarrow> [] | Some e \<Rightarrow> [e]) @ tried_errors as"
    and "failure_events (a # as) = (if failed_error a = None then [] else [(at_name a, False)]) @ failure_events as"
    and "final_event (a # as) = final_event as"
proof -
  show f: "List.find decisive (a # as) = List.find decisive as"
    using assms by simp
  show "run_answer (a # as) errs r = run_answer as errs r"
    unfolding run_answer_def f ..
  show "final_event (a # as) = final_event as"
    unfolding final_event_def f ..
qed (use assms in \<open>simp_all add: tried_errors_def map_filter_def failure_events_def split: option.splits\<close>)

lemma merge_best:
  "most_actionable (case (case best of None \<Rightarrow> Some e
        | Some b \<Rightarrow> if rankProviderError e > rankProviderError b then Some e else Some b)
        of None \<Rightarrow> es | Some b \<Rightarrow> b # es) = most_actionable (case best of None \<Rightarrow> e # es | Some b \<Rightarrow> b # e # es)"
  using most_actionable_merge by (auto split: option.splits simp del: most_actionable.simps)

lemma loop_records:
  "fst (failover_loop now as first best h) = record_all h now (failure_events as @ final_event as)"
proof (induction as arbitrary: first best h)
  case Nil
  then show ?case by (simp add: record_all_def failure_events_def final_event_def)
next
  case (Cons a as)
  show ?case
  proof (cases "decisive a")
    case True
    then show ?thesis
      by (cases "at_outcome a") (simp_all add: decisive_def record_all_def failure_events_def final_event_def
          recordSuccess_def recordFailure_def)
  next
    case False
    then show ?thesis
      using Cons skip_attempt[OF False]
      by (cases "at_outcome a") (simp_all add: decisive_def record_all_def recordFailure_def)
  qed
qed

lemma loop_answer:
  "(first = None) = (best = None) \<Longrightarrow>
    run_answer as (case best of None \<Rightarrow> tried_errors as | Some b \<Rightarrow> b # tried_errors as)
      (snd (failover_loop now as first best h))"
proof (induction as arbitrary: first best h)
  case Nil
  then show ?case
    by (auto simp: run_answer_def loop_error_def tried_errors_def map_filter_def split: option.splits)
next
  case (Cons a as)
  show ?case
  proof (cases "at_outcome a")
    case (Fails e)
    then have d: "\<not> decisive a"
      by (simp add: decisive_def)
    have E: "run_answer (a # as) (case best of None \<Rightarrow> e # tried_errors as | Some b \<Rightarrow> b # e # tried_errors as) r
        = run_answer as (case (case best of None \<Rightarrow> Some e
            | Some b \<Rightarrow> if rankProviderError e > rankProviderError b then Some e else Some b)
          of None \<Rightarrow> tried_errors as | Some b \<Rightarrow> b # tried_errors as) r" for r
      unfolding skip_attempt(2)[OF d] unfolding run_answer_def merge_best ..
    have T: "tried_errors (a # as) = e # tried_errors as"
      using skip_attempt(3)[OF d] Fails by simp
    have "run_answer as (case (case best of None \<Rightarrow> Some e
            | Some b \<Rightarrow> if rankProviderError e > rankProviderError b then Some e else Some b)
          of None \<Rightarrow> tried_errors as | Some b \<Rightarrow> b # tried_errors as) (snd (failover_loop now (a # as) first best h))"
      using Cons.IH[of "case first of None \<Rightarrow> Some e | Some f \<Rightarrow> Some f" "case best of None \<Rightarrow> Some e
        | Some b \<Rightarrow> if rankProviderError e > rankProviderError b then Some e else Some b"
        "recordFailure h (at_name a) now"] Fails by (simp split: option.splits)
    then show ?thesis
      unfolding T E .
  next
    case (Empty msg)
    then have d: "\<not> decisive a"
      by (simp add: decisive_def)
    have T: "tried_errors (a # as) = tried_errors as"
      using skip_attempt(3)[OF d] Empty by simp
    show ?thesis
      unfolding T skip_attempt(2)[OF d] using Cons.IH[OF Cons.prems] Empty by simp
  qed (simp_all add: run_answer_def decisive_def)
qed

text \<open>
  C34: the failover run. The attempts are tried in an order that is a rearrangement of the
  caller's: all pinned ones first, in their order, the others by falling score. So a pinned attempt
  behind others is moved before them; the comments say that it keeps the caller's position. The
  answer is that of the first attempt that succeeds (its value and name) or crashes (its error); when
  there is none, the run fails with the first provider error of the highest rank, which need not be
  the first error as the head of the file says, or with \<open>NO_PROVIDER_AVAILABLE\<close> when nothing failed.
  Health is charged for the failures before that point, credited for the success, and untouched by
  empty answers and by the attempts after it. The run is at one reading of the clock.
\<close>

theorem failover_exact:
  "\<exists>ds. failover_order h now as = filter at_pinned as @ ds \<and> mset (filter at_pinned as @ ds) = mset as
     \<and> sorted_wrt (\<lambda>a b. getScore h (at_name a) now \<ge> getScore h (at_name b) now) ds
     \<and> fst (runWithFailover h now as) = record_all h now
         (failure_events (filter at_pinned as @ ds) @ final_event (filter at_pinned as @ ds))
     \<and> (case snd (runWithFailover h now as) of
          Inr (v, p) \<Rightarrow> (\<exists>a. List.find decisive (filter at_pinned as @ ds) = Some a \<and> at_outcome a = Succeeds v \<and> at_name a = p)
        | Inl (Other_error m) \<Rightarrow> (\<exists>a. List.find decisive (filter at_pinned as @ ds) = Some a \<and> at_outcome a = Crashes m)
        | Inl (Provider_error e) \<Rightarrow> List.find decisive (filter at_pinned as @ ds) = None
            \<and> (case most_actionable (tried_errors (filter at_pinned as @ ds)) of
                 None \<Rightarrow> pe_code e = NO_PROVIDER_AVAILABLE | Some b \<Rightarrow> e = b))"
proof (intro exI conjI)
  let ?ds = "sort_key (\<lambda>a. - getScore h (at_name a) now) (filter (\<lambda>a. \<not> at_pinned a) as)"
  show o: "failover_order h now as = filter at_pinned as @ ?ds"
    by (simp add: failover_order_def)
  show "mset (filter at_pinned as @ ?ds) = mset as"
    by simp
  show "sorted_wrt (\<lambda>a b. getScore h (at_name a) now \<ge> getScore h (at_name b) now) ?ds"
    using failover_order_sorted[OF o] .
  show "fst (runWithFailover h now as) = record_all h now
         (failure_events (filter at_pinned as @ ?ds) @ final_event (filter at_pinned as @ ?ds))"
    by (simp add: runWithFailover_def o loop_records)
      (simp add: record_all_def failure_events_def final_event_def)
  have "run_answer (filter at_pinned as @ ?ds) (tried_errors (filter at_pinned as @ ?ds))
      (snd (failover_loop now (filter at_pinned as @ ?ds) None None h))"
    using loop_answer[of None None "filter at_pinned as @ ?ds" now h] by simp
  then show "case snd (runWithFailover h now as) of
          Inr (v, p) \<Rightarrow> (\<exists>a. List.find decisive (filter at_pinned as @ ?ds) = Some a \<and> at_outcome a = Succeeds v \<and> at_name a = p)
        | Inl (Other_error m) \<Rightarrow> (\<exists>a. List.find decisive (filter at_pinned as @ ?ds) = Some a \<and> at_outcome a = Crashes m)
        | Inl (Provider_error e) \<Rightarrow> List.find decisive (filter at_pinned as @ ?ds) = None
            \<and> (case most_actionable (tried_errors (filter at_pinned as @ ?ds)) of
                 None \<Rightarrow> pe_code e = NO_PROVIDER_AVAILABLE | Some b \<Rightarrow> e = b)"
    by (cases "as = []")
      (auto simp: runWithFailover_def o run_answer_def loop_error_def tried_errors_def map_filter_def
        split: sum.splits failover_error.splits option.splits)
qed

section \<open>Scores\<close>

lemma sample_score_range: "0 \<le> sample_score xs n \<and> sample_score xs n \<le> 1"
  by (auto simp: sample_score_def Let_def intro!: divide_nonneg_nonneg sum_nonneg)

text \<open>
  the failures other processes have seen count only against a provider that has failed here, or
  has not been used here: one local success with no failure in the window gives the full score 1,
  however many consecutive failures the shared table holds. Scores are between 0 and 1, and a
  provider nobody knows gets one half.
\<close>

theorem local_success_hides_failures:
  "(let xs = trim_samples (samples_of h p) now; n = fst (getDbConsecutiveFailures h p now) in
     0 \<le> getScore h p now \<and> getScore h p now \<le> 1
     \<and> (if xs = [] then (if n = 0 then getScore h p now = 1 / 2 else getScore h p now = max 0 (1 - (2 ^ n - 1) / real n))
        else if list_all sm_ok xs then getScore h p now = 1 else getScore h p now < 1))"
proof -
  define xs where "xs = trim_samples (samples_of h p) now"
  define n where "n = fst (getDbConsecutiveFailures h p now)"
  have geo: "(\<Sum>i<n. 2 ^ i) = (2 ^ n - 1 :: real)"
    by (induction n) auto
  have ok: "sample_score xs n = 1" if "xs \<noteq> []" "list_all sm_ok xs"
  proof -
    have "(\<Sum>idx<length xs. if sm_ok (xs ! idx) then 0 else f idx) = (0 :: real)" for f
      using that by (intro sum.neutral) (auto simp: list_all_iff)
    then show ?thesis
      using that by (simp add: sample_score_def Let_def)
  qed
  have bad: "sample_score xs n < 1" if ne: "xs \<noteq> []" and nok: "\<not> list_all sm_ok xs"
  proof -
    obtain i where i: "i < length xs" "\<not> sm_ok (xs ! i)"
      using nok unfolding list_all_length by blast
    let ?w = "\<lambda>idx. if sm_ok (xs ! idx) then 0
      else 2 ^ (max (consecutiveFailures xs) n - (length xs - 1 - idx) - 1) :: real"
    have "0 < ?w i"
      using i by simp
    moreover have "?w i \<le> (\<Sum>idx<length xs. ?w idx)"
      using i by (intro member_le_sum) auto
    ultimately have "0 < (\<Sum>idx<length xs. ?w idx) / real (length xs)"
      using ne by (intro divide_pos_pos) auto
    then show ?thesis
      using ne by (simp add: sample_score_def Let_def)
  qed
  show ?thesis
    using sample_score_range[of xs n] ok bad geo
    by (auto simp: getScore_def xs_def[symmetric] n_def[symmetric] Let_def) (simp_all add: sample_score_def)
qed

end
