(* ===== verification/Tick_Store.thy ===== *)
theory Tick_Store
  imports Js_Map
begin

text \<open>
  The data structures of the worker's tick pipeline, \<open>apps/worker/src\<close>: the one-minute candle
  aggregator (\<open>aggregator/candle-1m.ts\<close>), the per-symbol tick buffer
  (\<open>signalr/tick-buffer.ts\<close>) and the two table writers (\<open>persistence/candles-1m.ts\<close>,
  \<open>persistence/live-ticks.ts\<close>). The aggregator is compared with an abstract specification: the
  bars of a symbol are the minutes of its accepted ticks, each summarised by first, highest,
  lowest and last mid price.
\<close>

section \<open>Ticks\<close>

datatype tick_source = Biquote_SignalR | Binance_WS

record normalized_tick =
  tk_symbol :: string
  tk_bid :: real
  tk_ask :: real
  tk_mid :: real
  tk_ts :: ms
  tk_source :: tick_source

definition MINUTE_MS :: ms where
  "MINUTE_MS = 60000"

definition bucket_of :: "normalized_tick \<Rightarrow> int" where
  "bucket_of t = tk_ts t div MINUTE_MS"

section \<open>The candle aggregator\<close>

record open_bar =
  ob_bucket :: int
  ob_o :: real
  ob_h :: real
  ob_l :: real
  ob_c :: real
  ob_ticks :: nat
  ob_source :: tick_source

record closed_candle =
  cc_symbol :: string
  cc_t :: ms
  cc_o :: real
  cc_h :: real
  cc_l :: real
  cc_c :: real
  cc_v :: "real option"
  cc_tickVolume :: nat
  cc_source :: tick_source

type_synonym aggregator = "(string, open_bar) js_map"

definition openBar :: "int \<Rightarrow> real \<Rightarrow> tick_source \<Rightarrow> open_bar" where
  "openBar bucket m src = \<lparr>ob_bucket = bucket, ob_o = m, ob_h = m, ob_l = m, ob_c = m,
     ob_ticks = 1, ob_source = src\<rparr>"

definition emitClosed :: "string \<Rightarrow> open_bar \<Rightarrow> closed_candle" where
  "emitClosed s b = \<lparr>cc_symbol = s, cc_t = ob_bucket b * MINUTE_MS, cc_o = ob_o b, cc_h = ob_h b,
     cc_l = ob_l b, cc_c = ob_c b, cc_v = None, cc_tickVolume = ob_ticks b,
     cc_source = ob_source b\<rparr>"

text \<open>The update in place of a bar by a tick of its own minute.\<close>

definition updateBar :: "normalized_tick \<Rightarrow> open_bar \<Rightarrow> open_bar" where
  "updateBar t b = b\<lparr>ob_h := (if tk_mid t > ob_h b then tk_mid t else ob_h b),
     ob_l := (if tk_mid t < ob_l b then tk_mid t else ob_l b), ob_c := tk_mid t,
     ob_ticks := ob_ticks b + 1, ob_source := tk_source t\<rparr>"

text \<open>\<open>feed\<close> returns the aggregator and the bars handed to \<open>onClosed\<close>.\<close>

definition feed :: "normalized_tick \<Rightarrow> aggregator \<Rightarrow> aggregator \<times> closed_candle list" where
  "feed t bars =
     (case js_get bars (tk_symbol t) of
        None \<Rightarrow> (js_set (tk_symbol t) (openBar (bucket_of t) (tk_mid t) (tk_source t)) bars, [])
      | Some existing \<Rightarrow>
          if bucket_of t < ob_bucket existing then (bars, [])
          else if bucket_of t = ob_bucket existing
            then (js_set (tk_symbol t) (updateBar t existing) bars, [])
          else (js_set (tk_symbol t) (openBar (bucket_of t) (tk_mid t) (tk_source t)) bars,
                [emitClosed (tk_symbol t) existing]))"

definition closeAll :: "aggregator \<Rightarrow> aggregator \<times> closed_candle list" where
  "closeAll bars = ([], map (\<lambda>(s, b). emitClosed s b) bars)"

text \<open>A run of ticks, the closed bars collected in order.\<close>

primrec feed_all :: "normalized_tick list \<Rightarrow> aggregator \<times> closed_candle list
    \<Rightarrow> aggregator \<times> closed_candle list" where
  "feed_all [] s = s"
| "feed_all (t # ts) s = feed_all ts (fst (feed t (fst s)), snd s @ snd (feed t (fst s)))"

text \<open>The bars a process hands out between start and shutdown.\<close>

definition session_bars :: "normalized_tick list \<Rightarrow> closed_candle list" where
  "session_bars ts = (case feed_all ts ([], []) of (agg, out) \<Rightarrow> out @ snd (closeAll agg))"

section \<open>The abstract specification of the aggregator\<close>

text \<open>
  A tick of a symbol is accepted when no earlier tick of the symbol belongs to a later minute.
\<close>

definition accepted :: "string \<Rightarrow> normalized_tick list \<Rightarrow> normalized_tick list" where
  "accepted s ts = map (\<lambda>i. ts ! i) (filter (\<lambda>i. tk_symbol (ts ! i) = s
     \<and> list_all (\<lambda>u. tk_symbol u = s \<longrightarrow> bucket_of u \<le> bucket_of (ts ! i)) (take i ts))
     [0..<length ts])"

text \<open>The summary of the ticks of one minute.\<close>

definition ohlc :: "string \<Rightarrow> int \<Rightarrow> normalized_tick list \<Rightarrow> closed_candle" where
  "ohlc s b ts = \<lparr>cc_symbol = s, cc_t = b * MINUTE_MS, cc_o = tk_mid (hd ts),
     cc_h = Max (set (map tk_mid ts)), cc_l = Min (set (map tk_mid ts)), cc_c = tk_mid (last ts),
     cc_v = None, cc_tickVolume = length ts, cc_source = tk_source (last ts)\<rparr>"

definition minute_bars :: "string \<Rightarrow> normalized_tick list \<Rightarrow> closed_candle list" where
  "minute_bars s ts = map (\<lambda>b. ohlc s b (filter (\<lambda>t. bucket_of t = b) ts))
     (remdups_adj (map bucket_of ts))"

section \<open>The tick buffer\<close>

record tick_slot =
  sl_tick :: normalized_tick
  sl_observed :: nat

type_synonym tick_buffer = "(string, tick_slot) js_map"

definition buf_push :: "normalized_tick \<Rightarrow> tick_buffer \<Rightarrow> tick_buffer" where
  "buf_push t slots =
     (case js_get slots (tk_symbol t) of
        Some existing \<Rightarrow> js_set (tk_symbol t)
          (existing\<lparr>sl_tick := t, sl_observed := sl_observed existing + 1\<rparr>) slots
      | None \<Rightarrow> js_set (tk_symbol t) \<lparr>sl_tick = t, sl_observed = 1\<rparr> slots)"

definition buf_peek :: "tick_buffer \<Rightarrow> tick_slot list" where
  "buf_peek slots = map snd slots"

definition buf_drain :: "tick_buffer \<Rightarrow> tick_buffer \<times> tick_slot list" where
  "buf_drain slots = ([], map snd slots)"

definition buf_size :: "tick_buffer \<Rightarrow> nat" where
  "buf_size slots = length slots"

section \<open>The table writers\<close>

record live_tick_row =
  lt_symbol :: string
  lt_bid :: real
  lt_ask :: real
  lt_mid :: real
  lt_ts :: ms
  lt_source :: tick_source

definition toRow :: "normalized_tick \<Rightarrow> live_tick_row" where
  "toRow t = \<lparr>lt_symbol = tk_symbol t, lt_bid = tk_bid t, lt_ask = tk_ask t, lt_mid = tk_mid t,
     lt_ts = tk_ts t, lt_source = tk_source t\<rparr>"

text \<open>
  \<open>INSERT ... ON CONFLICT (symbol) DO UPDATE\<close> on the table \<open>live_ticks\<close>, one row per symbol; the
  result is the summary the writer returns. A failed statement leaves the table unchanged; it is
  the caller's case.
\<close>

definition flushLiveTicks :: "tick_slot list \<Rightarrow> (string, live_tick_row) js_map
    \<Rightarrow> (string, live_tick_row) js_map \<times> nat \<times> nat" where
  "flushLiveTicks drained table =
     (if drained = [] then (table, 0, 0)
      else (foldl (\<lambda>tb r. js_set (lt_symbol r) r tb) table (map (\<lambda>d. toRow (sl_tick d)) drained),
            length drained, sum_list (map sl_observed drained)))"

text \<open>\<open>INSERT ... ON CONFLICT DO NOTHING\<close> on \<open>candles_1m\<close>, keyed by symbol and opening time.\<close>

definition flushClosedCandle :: "closed_candle \<Rightarrow> (string \<times> ms, closed_candle) js_map
    \<Rightarrow> (string \<times> ms, closed_candle) js_map" where
  "flushClosedCandle bar table =
     (if js_has table (cc_symbol bar, cc_t bar) then table
      else js_set (cc_symbol bar, cc_t bar) bar table)"

section \<open>The aggregator refines its specification\<close>

lemma feed_all_snoc: "feed_all (ts @ [t]) s
    = (fst (feed t (fst (feed_all ts s))), snd (feed_all ts s) @ snd (feed t (fst (feed_all ts s))))"
  by (induction ts arbitrary: s) simp_all

lemma accepted_snoc:
  "accepted s (ts @ [t]) = accepted s ts @
     (if tk_symbol t = s \<and> (\<forall>u\<in>set ts. tk_symbol u = s \<longrightarrow> bucket_of u \<le> bucket_of t)
      then [t] else [])"
proof -
  have "map (\<lambda>i. (ts @ [t]) ! i) (filter (\<lambda>i. tk_symbol ((ts @ [t]) ! i) = s
      \<and> list_all (\<lambda>u. tk_symbol u = s \<longrightarrow> bucket_of u \<le> bucket_of ((ts @ [t]) ! i)) (take i (ts @ [t])))
     [0..<length ts]) = accepted s ts"
    unfolding accepted_def by (rule map_cong[OF filter_cong]) (auto simp: nth_append)
  then show ?thesis
    by (auto simp: accepted_def list_all_iff)
qed

lemma accepted_subset: "set (accepted s ts) \<subseteq> {t \<in> set ts. tk_symbol t = s}"
  by (auto simp: accepted_def)

text \<open>The latest minute of a symbol is the one of its last accepted tick.\<close>

lemma accepted_latest:
  "u \<in> set ts \<Longrightarrow> tk_symbol u = s
    \<Longrightarrow> accepted s ts \<noteq> [] \<and> bucket_of u \<le> bucket_of (last (accepted s ts))"
proof (induction ts arbitrary: u rule: rev_induct)
  case Nil
  then show ?case by simp
next
  case (snoc t ts)
  show ?case
  proof (cases "tk_symbol t = s \<and> (\<forall>u\<in>set ts. tk_symbol u = s \<longrightarrow> bucket_of u \<le> bucket_of t)")
    case True
    then show ?thesis using snoc.prems by (auto simp: accepted_snoc)
  next
    case False
    then have a: "accepted s (ts @ [t]) = accepted s ts"
      by (simp only: accepted_snoc if_False append_Nil2)
    show ?thesis
    proof (cases "u \<in> set ts")
      case True
      then show ?thesis using snoc.IH[OF True snoc.prems(2)] a by simp
    next
      case notin: False
      then have "u = t" using snoc.prems by simp
      with False snoc.prems(2) obtain v where v: "v \<in> set ts" "tk_symbol v = s" "bucket_of t < bucket_of v"
        by (auto simp: not_le)
      show ?thesis
        using snoc.IH[OF v(1,2)] v(3) a \<open>u = t\<close> by simp
    qed
  qed
qed

lemma accepted_sorted: "sorted (map bucket_of (accepted s ts))"
proof (induction ts rule: rev_induct)
  case Nil
  then show ?case by (simp add: accepted_def)
next
  case (snoc t ts)
  then show ?case
    using accepted_subset[of s ts] by (auto simp: accepted_snoc sorted_append)
qed

lemma Max_snoc: "xs \<noteq> [] \<Longrightarrow> Max (set (xs @ [x])) = max (Max (set xs)) (x::real)"
  by (simp add: Max_insert max.commute)

lemma Min_snoc: "xs \<noteq> [] \<Longrightarrow> Min (set (xs @ [x])) = min (Min (set xs)) (x::real)"
  by (simp add: Min_insert min.commute)

text \<open>An open bar stands for the ticks of its minute seen so far.\<close>

definition bar_stands_for :: "string \<Rightarrow> open_bar \<Rightarrow> normalized_tick list \<Rightarrow> bool" where
  "bar_stands_for s b ts \<longleftrightarrow> ts \<noteq> [] \<and> emitClosed s b = ohlc s (ob_bucket b) ts"

lemma bar_stands_for_open:
  "bar_stands_for s (openBar (bucket_of t) (tk_mid t) (tk_source t)) [t]"
  by (simp add: bar_stands_for_def emitClosed_def ohlc_def openBar_def)

lemma bar_stands_for_update:
  assumes "bar_stands_for s b ts"
  shows "bar_stands_for s (updateBar t b) (ts @ [t])"
proof -
  have h: "ob_o b = tk_mid (hd ts)" "ob_h b = Max (set (map tk_mid ts))"
    "ob_l b = Min (set (map tk_mid ts))" "ob_ticks b = length ts" and ne: "ts \<noteq> []"
    using assms by (auto simp: bar_stands_for_def emitClosed_def ohlc_def)
  have "Max (set (map tk_mid ts @ [tk_mid t])) = max (ob_h b) (tk_mid t)"
    "Min (set (map tk_mid ts @ [tk_mid t])) = min (ob_l b) (tk_mid t)"
    using ne h by (simp_all only: Max_snoc Min_snoc map_is_Nil_conv not_False_eq_True)
  moreover have "max (ob_h b) (tk_mid t) = (if tk_mid t > ob_h b then tk_mid t else ob_h b)"
    "min (ob_l b) (tk_mid t) = (if tk_mid t < ob_l b then tk_mid t else ob_l b)"
    by (auto simp: max_def min_def)
  ultimately show ?thesis
    using ne h(1,4) by (simp add: bar_stands_for_def emitClosed_def ohlc_def updateBar_def)
qed

text \<open>
  The refinement relation for one symbol: the closed bars and the open bar are the minute bars of
  the accepted ticks, and the open bar is the one of the latest minute.
\<close>

definition agg_refines :: "string \<Rightarrow> aggregator \<Rightarrow> closed_candle list \<Rightarrow> normalized_tick list \<Rightarrow> bool"
  where
  "agg_refines s agg out ts \<longleftrightarrow>
     (case js_get agg s of
        None \<Rightarrow> accepted s ts = [] \<and> filter (\<lambda>b. cc_symbol b = s) out = []
      | Some b \<Rightarrow> (let acc = accepted s ts in acc \<noteq> [] \<and> ob_bucket b = bucket_of (last acc)
          \<and> bar_stands_for s b (filter (\<lambda>t. bucket_of t = ob_bucket b) acc)
          \<and> filter (\<lambda>b. cc_symbol b = s) out = butlast (minute_bars s acc)))"

lemma remdups_adj_distinct: "sorted xs \<Longrightarrow> distinct (remdups_adj xs)"
  by (induction xs rule: remdups_adj.induct) auto

lemma accepted_in_latest:
  "acc = accepted s ts \<Longrightarrow> u \<in> set acc \<Longrightarrow> bucket_of u \<le> bucket_of (last acc)"
  using accepted_latest[of u ts s] accepted_subset[of s ts] by auto

lemma minute_bars_same:
  assumes "sorted (map bucket_of acc)" "acc \<noteq> []" "bucket_of (last acc) = bucket_of t"
  shows "butlast (minute_bars s (acc @ [t])) = butlast (minute_bars s acc)"
proof -
  define bs where "bs = remdups_adj (map bucket_of acc)"
  have ne: "bs \<noteq> []" and l: "last bs = bucket_of t" and d: "distinct bs"
    using assms by (simp_all add: bs_def last_map remdups_adj_distinct)
  have r: "remdups_adj (map bucket_of (acc @ [t])) = bs"
    using assms by (simp add: remdups_adj_snoc bs_def last_map)
  have "distinct (butlast bs @ [bucket_of t])"
    using d ne l append_butlast_last_id[OF ne] by simp
  then have notin: "bucket_of t \<notin> set (butlast bs)"
    by simp
  have "map (\<lambda>b. ohlc s b (filter (\<lambda>u. bucket_of u = b) (acc @ [t]))) (butlast bs)
      = map (\<lambda>b. ohlc s b (filter (\<lambda>u. bucket_of u = b) acc)) (butlast bs)"
    using notin by (intro map_cong refl) auto
  then show ?thesis
    by (simp only: minute_bars_def r bs_def[symmetric] map_butlast)
qed

lemma minute_bars_new:
  assumes "\<forall>u\<in>set acc. bucket_of u < bucket_of t"
  shows "minute_bars s (acc @ [t]) = minute_bars s acc @ [ohlc s (bucket_of t) [t]]"
proof -
  have none: "filter (\<lambda>u. bucket_of u = bucket_of t) acc = []"
    using assms by (auto simp: filter_empty_conv)
  have r: "remdups_adj (map bucket_of acc @ [bucket_of t]) = remdups_adj (map bucket_of acc) @ [bucket_of t]"
    using assms last_in_set[of acc] by (fastforce simp: remdups_adj_snoc last_map)
  have "map (\<lambda>b. ohlc s b (filter (\<lambda>u. bucket_of u = b) (acc @ [t]))) (remdups_adj (map bucket_of acc))
      = map (\<lambda>b. ohlc s b (filter (\<lambda>u. bucket_of u = b) acc)) (remdups_adj (map bucket_of acc))"
    using assms by (intro map_cong refl) auto
  then show ?thesis
    by (simp add: minute_bars_def r none)
qed

lemma minute_bars_last:
  assumes "acc \<noteq> []"
  shows "minute_bars s acc = butlast (minute_bars s acc)
      @ [ohlc s (bucket_of (last acc)) (filter (\<lambda>u. bucket_of u = bucket_of (last acc)) acc)]"
proof -
  have ne: "remdups_adj (map bucket_of acc) \<noteq> []"
    using assms by simp
  have "last (minute_bars s acc)
      = ohlc s (bucket_of (last acc)) (filter (\<lambda>u. bucket_of u = bucket_of (last acc)) acc)"
    using assms ne by (simp add: minute_bars_def last_map)
  moreover have "minute_bars s acc \<noteq> []"
    using ne by (simp add: minute_bars_def)
  ultimately show ?thesis
    using append_butlast_last_id[of "minute_bars s acc"] by simp
qed

lemma agg_refines_frame:
  "tk_symbol t \<noteq> s \<Longrightarrow> agg_refines s agg out ts
    \<Longrightarrow> agg_refines s (fst (feed t agg)) (out @ snd (feed t agg)) (ts @ [t])"
  by (auto simp: agg_refines_def feed_def accepted_snoc map_laws emitClosed_def Let_def
      split: option.splits)

lemma agg_refines_step:
  assumes ref: "agg_refines (tk_symbol t) agg out ts"
  shows "agg_refines (tk_symbol t) (fst (feed t agg)) (out @ snd (feed t agg)) (ts @ [t])"
proof (cases "js_get agg (tk_symbol t)")
  case None
  then have "accepted (tk_symbol t) ts = []" "filter (\<lambda>b. cc_symbol b = tk_symbol t) out = []"
    using ref by (simp_all add: agg_refines_def)
  moreover have "accepted (tk_symbol t) (ts @ [t]) = [t]"
    using accepted_latest[of _ ts "tk_symbol t"] calculation(1) by (auto simp: accepted_snoc)
  ultimately show ?thesis
    using None bar_stands_for_open[of "tk_symbol t" t]
    by (simp add: agg_refines_def feed_def map_laws minute_bars_def)
       (simp add: openBar_def)
next
  case (Some b)
  define s where "s = tk_symbol t"
  define acc where "acc = accepted s ts"
  have inv: "acc \<noteq> []" "ob_bucket b = bucket_of (last acc)"
    "bar_stands_for s b (filter (\<lambda>t. bucket_of t = ob_bucket b) acc)"
    "filter (\<lambda>b. cc_symbol b = s) out = butlast (minute_bars s acc)"
    using ref unfolding agg_refines_def Some option.case Let_def s_def acc_def by blast+
  have le: "bucket_of u \<le> ob_bucket b" if "u \<in> set acc" for u
    using accepted_in_latest[OF acc_def that] inv(2) by simp
  have sub: "set acc \<subseteq> {u \<in> set ts. tk_symbol u = s}" and srt: "sorted (map bucket_of acc)"
    unfolding acc_def by (rule accepted_subset, rule accepted_sorted)
  have all: "(\<forall>u\<in>set ts. tk_symbol u = s \<longrightarrow> bucket_of u \<le> bucket_of t) \<longleftrightarrow> ob_bucket b \<le> bucket_of t"
  proof
    assume "\<forall>u\<in>set ts. tk_symbol u = s \<longrightarrow> bucket_of u \<le> bucket_of t"
    then show "ob_bucket b \<le> bucket_of t"
      using sub inv(2) last_in_set[OF inv(1)] by auto
  next
    assume "ob_bucket b \<le> bucket_of t"
    then show "\<forall>u\<in>set ts. tk_symbol u = s \<longrightarrow> bucket_of u \<le> bucket_of t"
      using accepted_latest[of _ ts s] inv(2) unfolding acc_def[symmetric] by force
  qed
  have acc': "accepted s (ts @ [t]) = acc @ (if ob_bucket b \<le> bucket_of t then [t] else [])"
    using all unfolding accepted_snoc acc_def[symmetric] s_def[symmetric] by simp
  consider "bucket_of t < ob_bucket b" | "bucket_of t = ob_bucket b" | "ob_bucket b < bucket_of t"
    by linarith
  then have "agg_refines s (fst (feed t agg)) (out @ snd (feed t agg)) (ts @ [t])"
  proof cases
    case 1
    then show ?thesis
      using Some ref acc' by (simp add: agg_refines_def feed_def s_def acc_def)
  next
    case 2
    have f: "filter (\<lambda>u. bucket_of u = ob_bucket b) (acc @ [t])
        = filter (\<lambda>u. bucket_of u = ob_bucket b) acc @ [t]"
      using 2 by simp
    have bs: "bar_stands_for s (updateBar t b) (filter (\<lambda>u. bucket_of u = ob_bucket b) (acc @ [t]))"
      unfolding f by (rule bar_stands_for_update[OF inv(3)])
    have mb: "butlast (minute_bars s (acc @ [t])) = butlast (minute_bars s acc)"
      using minute_bars_same[OF srt inv(1)] inv(2) 2 by simp
    show ?thesis
      using Some acc' 2 inv(4) bs mb unfolding agg_refines_def feed_def s_def[symmetric]
      by (simp add: map_laws Let_def) (simp add: updateBar_def)
  next
    case 3
    have new: "minute_bars s (acc @ [t]) = minute_bars s acc @ [ohlc s (bucket_of t) [t]]"
      using 3 le by (intro minute_bars_new) fastforce
    have closed: "emitClosed s b = ohlc s (bucket_of (last acc))
        (filter (\<lambda>u. bucket_of u = bucket_of (last acc)) acc)"
      using inv(2,3) by (simp add: bar_stands_for_def)
    have out: "filter (\<lambda>b. cc_symbol b = s) (out @ [emitClosed s b]) = minute_bars s acc"
      using minute_bars_last[OF inv(1), of s] inv(4) unfolding closed
      by (simp add: ohlc_def)
    have f: "filter (\<lambda>u. bucket_of u = bucket_of t) (acc @ [t]) = [t]"
      using 3 by (simp add: filter_empty_conv) (use le in force)
    show ?thesis
      using Some acc' 3 new out bar_stands_for_open[of s t] f
      unfolding agg_refines_def feed_def s_def[symmetric]
      by (simp add: map_laws Let_def) (simp add: openBar_def)
  qed
  then show ?thesis by (simp add: s_def)
qed

lemma feed_all_refines:
  "agg_refines s (fst (feed_all ts ([], []))) (snd (feed_all ts ([], []))) ts"
proof (induction ts rule: rev_induct)
  case Nil
  then show ?case by (simp add: agg_refines_def accepted_def)
next
  case (snoc t ts)
  then show ?case
    by (cases "tk_symbol t = s")
      (auto simp: feed_all_snoc intro: agg_refines_frame agg_refines_step)
qed


lemma feed_wf [inv_intros]: "js_wf bars \<Longrightarrow> js_wf (fst (feed t bars))"
  by (simp add: feed_def js_wf_set split: option.splits)

lemma feed_all_wf [inv_intros]: "js_wf (fst s) \<Longrightarrow> js_wf (fst (feed_all ts s))"
  by (induction ts arbitrary: s) (simp_all add: feed_wf)

lemma filter_entries_of:
  "js_wf m \<Longrightarrow> filter (\<lambda>b. cc_symbol b = s) (map (\<lambda>(s, b). emitClosed s b) m)
    = (case js_get m s of None \<Rightarrow> [] | Some b \<Rightarrow> [emitClosed s b])"
proof (induction m)
  case Nil
  then show ?case by simp
next
  case (Cons p m)
  obtain k b where p: "p = (k, b)" by fastforce
  have IH: "filter (\<lambda>b. cc_symbol b = s) (map (\<lambda>(s, b). emitClosed s b) m)
      = (case js_get m s of None \<Rightarrow> [] | Some b \<Rightarrow> [emitClosed s b])"
    using Cons by (simp add: js_wf_def js_keys_def)
  have "js_get m k = None"
    using Cons.prems by (simp add: p js_get_None_iff js_wf_def js_keys_def)
  then show ?case
    using IH by (cases "s = k") (simp_all add: p emitClosed_def)
qed

lemma session_bars_of:
  "filter (\<lambda>b. cc_symbol b = s) (session_bars ts) = minute_bars s (accepted s ts)"
proof -
  obtain agg out where r: "feed_all ts ([], []) = (agg, out)" by fastforce
  have wf: "js_wf agg"
    using feed_all_wf[of "([], [])" ts] r by simp
  have ref: "agg_refines s agg out ts"
    using feed_all_refines[of s ts] r by simp
  have "filter (\<lambda>b. cc_symbol b = s) (session_bars ts)
      = filter (\<lambda>b. cc_symbol b = s) out @ (case js_get agg s of None \<Rightarrow> [] | Some b \<Rightarrow> [emitClosed s b])"
    using filter_entries_of[OF wf, of s] by (simp add: session_bars_def r closeAll_def)
  also have "\<dots> = minute_bars s (accepted s ts)"
  proof (cases "js_get agg s")
    case None
    then show ?thesis using ref by (simp add: agg_refines_def minute_bars_def)
  next
    case (Some b)
    have i: "accepted s ts \<noteq> []" "ob_bucket b = bucket_of (last (accepted s ts))"
      "bar_stands_for s b (filter (\<lambda>t. bucket_of t = ob_bucket b) (accepted s ts))"
      "filter (\<lambda>b. cc_symbol b = s) out = butlast (minute_bars s (accepted s ts))"
      using ref unfolding agg_refines_def Some option.case Let_def by blast+
    then show ?thesis
      using minute_bars_last[OF i(1), of s] Some by (simp add: bar_stands_for_def)
  qed
  finally show ?thesis .
qed

section \<open>Properties of the stores\<close>

text \<open>C6: The candle aggregator refines its specification: for every stream of ticks, of any
  symbols and in any order, the bars a session hands out for a symbol, those closed at rollovers
  followed by the one closed at shutdown, are exactly the minutes of the symbol's accepted ticks in
  order, each with the first, highest, lowest and last mid price and the number of ticks. No bar
  is invented for a minute without ticks, none is split, and a tick of an earlier minute than one
  already seen leaves no trace.\<close>

theorem candles_refine_minutes:
  "filter (\<lambda>b. cc_symbol b = s) (session_bars ts) = minute_bars s (accepted s ts)"
  by (rule session_bars_of)

text \<open>The rows of the candle table after a list of bars was written to it.\<close>

definition persist_bars :: "closed_candle list \<Rightarrow> (string \<times> ms, closed_candle) js_map
    \<Rightarrow> (string \<times> ms, closed_candle) js_map" where
  "persist_bars bars table = foldl (\<lambda>tb b. flushClosedCandle b tb) table bars"

lemma persist_bars_get:
  "js_get (persist_bars bars table) k
    = (case js_get table k of Some b \<Rightarrow> Some b
       | None \<Rightarrow> List.find (\<lambda>b. (cc_symbol b, cc_t b) = k) bars)"
proof (induction bars arbitrary: table)
  case Nil
  then show ?case by (simp add: persist_bars_def split: option.splits)
next
  case (Cons b bars)
  then show ?case
    by (auto simp: persist_bars_def flushClosedCandle_def js_has_def map_laws split: option.splits)
qed

lemma find_filter: "(\<And>x. P x \<Longrightarrow> Q x) \<Longrightarrow> List.find P xs = List.find P (filter Q xs)"
  by (induction xs) auto

text \<open>What the candle table holds after a restart: of the bars two successive processes produce
  for the same symbol and minute, the row keeps the one of the first process. A bar cut off by
  the shutdown in the middle of a minute therefore stays as it is, and the ticks the second
  process collects in the rest of that minute are never stored.\<close>

theorem restarted_minute_keeps_first_bar:
  "js_get (persist_bars (session_bars ts1 @ session_bars ts2) []) (s, m)
    = List.find (\<lambda>b. cc_t b = m) (minute_bars s (accepted s ts1) @ minute_bars s (accepted s ts2))"
proof -
  have "js_get (persist_bars (session_bars ts1 @ session_bars ts2) []) (s, m)
      = List.find (\<lambda>b. (cc_symbol b, cc_t b) = (s, m)) (session_bars ts1 @ session_bars ts2)"
    by (simp add: persist_bars_get)
  also have "\<dots> = List.find (\<lambda>b. (cc_symbol b, cc_t b) = (s, m))
      (filter (\<lambda>b. cc_symbol b = s) (session_bars ts1 @ session_bars ts2))"
    by (rule find_filter) simp
  also have "\<dots> = List.find (\<lambda>b. (cc_symbol b, cc_t b) = (s, m))
      (minute_bars s (accepted s ts1) @ minute_bars s (accepted s ts2))"
    by (simp add: session_bars_of)
  also have "\<dots> = List.find (\<lambda>b. cc_t b = m)
      (minute_bars s (accepted s ts1) @ minute_bars s (accepted s ts2))"
    by (rule find_cong) (auto simp: minute_bars_def ohlc_def)
  finally show ?thesis .
qed

text \<open>What the buffer holds: per symbol the last tick pushed, and how many were pushed.\<close>

lemma buf_push_get [map_laws]:
  "js_get (buf_push t slots) s = (if s = tk_symbol t
     then Some \<lparr>sl_tick = t, sl_observed = (case js_get slots s of None \<Rightarrow> 1 | Some x \<Rightarrow> sl_observed x + 1)\<rparr>
     else js_get slots s)"
  by (auto simp: buf_push_def map_laws split: option.splits)

lemma buf_push_wf [inv_intros]: "js_wf slots \<Longrightarrow> js_wf (buf_push t slots)"
  by (simp add: buf_push_def js_wf_set split: option.splits)

text \<open>Writing a peeked buffer leaves at each symbol the buffered tick.\<close>

lemma flushLiveTicks_get:
  assumes wf: "js_wf slots" and key: "\<forall>(k, sl)\<in>set slots. tk_symbol (sl_tick sl) = k"
  shows "js_get (fst (flushLiveTicks (buf_peek slots) table)) s
    = (case js_get slots s of Some sl \<Rightarrow> Some (toRow (sl_tick sl)) | None \<Rightarrow> js_get table s)"
proof (cases "slots = []")
  case True
  then show ?thesis by (simp add: flushLiveTicks_def buf_peek_def)
next
  case False
  define ps where "ps = map (\<lambda>(k, sl). (k, toRow (sl_tick sl))) slots"
  have "foldl (\<lambda>tb r. js_set (lt_symbol r) r tb) table (map (\<lambda>d. toRow (sl_tick d)) (map snd slots))
      = foldl (\<lambda>m p. js_set (fst p) (snd p) m) table ps"
    using key unfolding ps_def
    by (induction slots arbitrary: table) (auto simp: toRow_def)
  moreover have "map_of (rev ps) s = map_option (\<lambda>sl. toRow (sl_tick sl)) (js_get slots s)"
  proof -
    have "distinct (map fst ps)"
      using wf by (simp add: ps_def js_wf_def js_keys_def case_prod_beta comp_def)
    then have "map_of (rev ps) s = map_of ps s"
      by (metis distinct_rev map_of_eq_None_iff map_of_is_SomeI map_of_SomeD not_Some_eq rev_map set_rev)
    also have "\<dots> = map_option (\<lambda>sl. toRow (sl_tick sl)) (js_get slots s)"
      unfolding ps_def js_get_def by (induction slots) auto
    finally show ?thesis .
  qed
  ultimately show ?thesis
    using False jm.lookup_put_list[of table ps s]
    by (simp add: flushLiveTicks_def buf_peek_def split: option.splits)
qed

end
