(* ===== verification/Worker_Pipeline.thy ===== *)
theory Worker_Pipeline
  imports Tick_Store Js_String
begin

text \<open>
  The worker's tick pipeline, \<open>runWorker\<close> in \<open>apps/worker/src/index.ts\<close>: ticks are batched
  for 50 ms, pushed into the buffer and the aggregator, and the buffer is written to
  \<open>live_ticks\<close> by a self-rescheduling loop that peeks before the write and drains after it.
  The process is a state and a step function over the events of its event loop: an incoming
  tick, a fired timer, a settled database write. A timer is a flag, a write in progress is the
  snapshot it carries. Also here: failure counters with rate-limited captures, the
  healthchecks heartbeat and the decisions of the worker's HTTP server
  (\<open>apps/worker/src/http-server.ts\<close>).
\<close>

section \<open>State\<close>

record failure_log =
  fl_count :: nat
  fl_lastCaptureAt :: ms
  fl_captures :: "ms list"   \<comment> \<open>the times of the reports sent, newest first\<close>

record worker =
  wk_pending :: "normalized_tick list"
  wk_batchTimer :: bool
  wk_lastTickAt :: ms
  wk_buffer :: tick_buffer
  wk_agg :: aggregator
  wk_writes :: "closed_candle list"          \<comment> \<open>candle writes in progress\<close>
  wk_inFlight :: "tick_slot list option"     \<comment> \<open>the snapshot the running flush writes\<close>
  wk_flushTimer :: bool
  wk_liveTicks :: "(string, live_tick_row) js_map"
  wk_candles :: "(string \<times> ms, closed_candle) js_map"
  wk_tickFailures :: failure_log
  wk_candleFailures :: failure_log

definition CAPTURE_COOLDOWN_MS :: ms where
  "CAPTURE_COOLDOWN_MS = 5 * 60 * 1000"

definition no_failures :: failure_log where
  "no_failures = \<lparr>fl_count = 0, fl_lastCaptureAt = 0, fl_captures = []\<rparr>"

text \<open>Start: the first flush is scheduled at once.\<close>

definition worker_start :: worker where
  "worker_start = \<lparr>wk_pending = [], wk_batchTimer = False, wk_lastTickAt = 0, wk_buffer = [],
     wk_agg = [], wk_writes = [], wk_inFlight = None, wk_flushTimer = True, wk_liveTicks = [],
     wk_candles = [], wk_tickFailures = no_failures, wk_candleFailures = no_failures\<rparr>"

section \<open>Operations\<close>

text \<open>The catch branch of both writers: count, and report a sustained failure at most once per
  cooldown.\<close>

definition note_failure :: "ms \<Rightarrow> failure_log \<Rightarrow> failure_log" where
  "note_failure now f = (let f' = f\<lparr>fl_count := fl_count f + 1\<rparr> in
     if fl_count f' \<ge> 3 \<and> now - fl_lastCaptureAt f' > CAPTURE_COOLDOWN_MS
     then f'\<lparr>fl_lastCaptureAt := now, fl_captures := now # fl_captures f'\<rparr> else f')"

definition handleIncomingTick :: "normalized_tick \<Rightarrow> worker \<Rightarrow> worker" where
  "handleIncomingTick t w = w\<lparr>wk_pending := wk_pending w @ [t], wk_batchTimer := True\<rparr>"

text \<open>The loop of \<open>flushBatch\<close>: each tick goes to the buffer and to the aggregator, whose closed
  bars start their writes.\<close>

primrec push_and_feed :: "normalized_tick list \<Rightarrow> worker \<Rightarrow> worker" where
  "push_and_feed [] w = w"
| "push_and_feed (t # ts) w = push_and_feed ts
     (w\<lparr>wk_buffer := buf_push t (wk_buffer w), wk_agg := fst (feed t (wk_agg w)),
        wk_writes := wk_writes w @ snd (feed t (wk_agg w))\<rparr>)"

definition flushBatch :: "ms \<Rightarrow> worker \<Rightarrow> worker" where
  "flushBatch now w =
     (if wk_pending w = [] then w
      else (push_and_feed (wk_pending w) (w\<lparr>wk_pending := []\<rparr>))\<lparr>wk_lastTickAt := now\<rparr>)"

definition batchTimerFired :: "ms \<Rightarrow> worker \<Rightarrow> worker" where
  "batchTimerFired now w = (if wk_batchTimer w then flushBatch now (w\<lparr>wk_batchTimer := False\<rparr>) else w)"

text \<open>The first half of \<open>runSingleFlush\<close>, up to the write. The timer that runs it has been
  cleared; the early returns re-arm it.\<close>

definition runSingleFlush_begin :: "worker \<Rightarrow> worker" where
  "runSingleFlush_begin w =
     (if wk_inFlight w \<noteq> None then w\<lparr>wk_flushTimer := True\<rparr>
      else if buf_peek (wk_buffer w) = [] then w\<lparr>wk_flushTimer := True\<rparr>
      else w\<lparr>wk_inFlight := Some (buf_peek (wk_buffer w))\<rparr>)"

definition flushTimerFired :: "worker \<Rightarrow> worker" where
  "flushTimerFired w =
     (if wk_flushTimer w then runSingleFlush_begin (w\<lparr>wk_flushTimer := False\<rparr>) else w)"

text \<open>The second half: on success the whole buffer is drained, on failure nothing is; the
  \<open>finally\<close> block reschedules.\<close>

definition runSingleFlush_end :: "bool \<Rightarrow> ms \<Rightarrow> worker \<Rightarrow> worker" where
  "runSingleFlush_end ok now w =
     (case wk_inFlight w of None \<Rightarrow> w
      | Some drained \<Rightarrow>
          (if ok
           then w\<lparr>wk_liveTicks := fst (flushLiveTicks drained (wk_liveTicks w)),
                  wk_buffer := fst (buf_drain (wk_buffer w)),
                  wk_tickFailures := (wk_tickFailures w)\<lparr>fl_count := 0\<rparr>\<rparr>
           else w\<lparr>wk_tickFailures := note_failure now (wk_tickFailures w)\<rparr>)
          \<lparr>wk_inFlight := None, wk_flushTimer := True\<rparr>)"

text \<open>The \<open>n\<close>-th candle write in progress settles.\<close>

definition candleWriteSettled :: "nat \<Rightarrow> bool \<Rightarrow> ms \<Rightarrow> worker \<Rightarrow> worker" where
  "candleWriteSettled n ok now w =
     (if n < length (wk_writes w)
      then (if ok
            then w\<lparr>wk_candles := flushClosedCandle (wk_writes w ! n) (wk_candles w),
                   wk_candleFailures := (wk_candleFailures w)\<lparr>fl_count := 0\<rparr>\<rparr>
            else w\<lparr>wk_candleFailures := note_failure now (wk_candleFailures w)\<rparr>)
           \<lparr>wk_writes := take n (wk_writes w) @ drop (Suc n) (wk_writes w)\<rparr>
      else w)"

text \<open>\<open>stop\<close>: the timers are cleared, the last batch is processed, the buffer is written once more
  (\<open>ok\<close>: the write succeeds) and the open bars are closed.\<close>

definition worker_stop :: "bool \<Rightarrow> ms \<Rightarrow> worker \<Rightarrow> worker" where
  "worker_stop ok now w =
     (let w1 = w\<lparr>wk_flushTimer := False, wk_batchTimer := False\<rparr>;
          w2 = flushBatch now w1;
          drained = buf_peek (wk_buffer w2);
          w3 = (if drained \<noteq> [] \<and> ok
                then w2\<lparr>wk_liveTicks := fst (flushLiveTicks drained (wk_liveTicks w2)),
                        wk_buffer := fst (buf_drain (wk_buffer w2))\<rparr>
                else w2)
      in w3\<lparr>wk_agg := fst (closeAll (wk_agg w3)),
            wk_writes := wk_writes w3 @ snd (closeAll (wk_agg w3))\<rparr>)"

section \<open>The event loop\<close>

datatype worker_event =
    Incoming normalized_tick
  | BatchTimer ms
  | FlushTimer
  | FlushSettled bool ms
  | CandleSettled nat bool ms

fun worker_step :: "worker_event \<Rightarrow> worker \<Rightarrow> worker" where
  "worker_step (Incoming t) w = handleIncomingTick t w"
| "worker_step (BatchTimer now) w = batchTimerFired now w"
| "worker_step FlushTimer w = flushTimerFired w"
| "worker_step (FlushSettled ok now) w = runSingleFlush_end ok now w"
| "worker_step (CandleSettled n ok now) w = candleWriteSettled n ok now w"

definition worker_run :: "worker_event list \<Rightarrow> worker \<Rightarrow> worker" where
  "worker_run evs w = foldl (\<lambda>w e. worker_step e w) w evs"

text \<open>The ticks that reach the buffer during a run, in order.\<close>

fun pushed_by :: "worker_event \<Rightarrow> worker \<Rightarrow> normalized_tick list" where
  "pushed_by (BatchTimer now) w = (if wk_batchTimer w then wk_pending w else [])"
| "pushed_by _ w = []"

primrec pushed_ticks :: "worker_event list \<Rightarrow> worker \<Rightarrow> normalized_tick list" where
  "pushed_ticks [] w = []"
| "pushed_ticks (e # evs) w = pushed_by e w @ pushed_ticks evs (worker_step e w)"

text \<open>Runs in which no tick reaches the buffer while a flush is in progress.\<close>

primrec unraced :: "worker_event list \<Rightarrow> worker \<Rightarrow> bool" where
  "unraced [] w = True"
| "unraced (e # evs) w = ((wk_inFlight w = None \<or> pushed_by e w = []) \<and> unraced evs (worker_step e w))"

section \<open>Heartbeat and the HTTP server\<close>

datatype ping_status = Ping_Success | Ping_Fail

definition heartbeat :: "ms \<Rightarrow> ms \<Rightarrow> ping_status" where
  "heartbeat lastTickAt now =
     (if lastTickAt > 0 \<and> now - lastTickAt < 60000 then Ping_Success else Ping_Fail)"

text \<open>An environment variable that is unset or empty is falsy.\<close>

definition env_set :: "string option \<Rightarrow> string option" where
  "env_set v = (if v = Some [] then None else v)"

definition hasValidHealthToken :: "string option \<Rightarrow> bool \<Rightarrow> string option \<Rightarrow> bool" where
  "hasValidHealthToken HEALTH_TOKEN isProd authorization =
     (case env_set HEALTH_TOKEN of None \<Rightarrow> \<not> isProd
      | Some tok \<Rightarrow> (case authorization of None \<Rightarrow> '''' | Some a \<Rightarrow> a) = ''Bearer '' @ tok)"

datatype http_reply =
    Forward string      \<comment> \<open>the rest of the path is requested upstream\<close>
  | Http_Status int

definition worker_http :: "string option \<Rightarrow> string option \<Rightarrow> bool \<Rightarrow> ms \<Rightarrow> ms \<Rightarrow> string \<Rightarrow> string option
    \<Rightarrow> http_reply" where
  "worker_http PROXY_TOKEN HEALTH_TOKEN isProd lastTickAt now url authorization =
     (if startsWith url ''/biquote''
      then (let rest = drop (length ''/biquote'') url;
                fwd = Forward (if rest = [] then ''/'' else rest) in
            case env_set PROXY_TOKEN of
              Some tok \<Rightarrow> if authorization \<noteq> Some (''Bearer '' @ tok) then Http_Status 403 else fwd
            | None \<Rightarrow> if isProd then Http_Status 503 else fwd)
      else if url = ''/health'' \<or> url = ''/api/health'' \<or> url = ''/''
      then (if \<not> hasValidHealthToken HEALTH_TOKEN isProd authorization
            then Http_Status (if env_set HEALTH_TOKEN \<noteq> None then 401 else 503)
            else if lastTickAt > 0 \<and> now - lastTickAt < 120000 then Http_Status 200
            else Http_Status 503)
      else Http_Status 404)"


section \<open>Lemmas\<close>

definition last_of :: "string \<Rightarrow> normalized_tick list \<Rightarrow> normalized_tick option" where
  "last_of s ts = find_last (\<lambda>t. tk_symbol t = s) ts"

lemma last_of_append: "last_of s (xs @ ys) = (case last_of s ys of Some t \<Rightarrow> Some t | None \<Rightarrow> last_of s xs)"
  by (induction ys rule: rev_induct) (simp_all add: last_of_def find_last_snoc flip: append_assoc)

lemma last_of_symbol: "last_of s ts = Some t \<Longrightarrow> tk_symbol t = s"
  unfolding last_of_def by (drule find_last_Some) simp

lemma last_of_Nil [simp]: "last_of s [] = None"
  by (simp add: last_of_def)

lemma push_and_feed_frame [simp]:
  "wk_pending (push_and_feed ts w) = wk_pending w"
  "wk_batchTimer (push_and_feed ts w) = wk_batchTimer w"
  "wk_inFlight (push_and_feed ts w) = wk_inFlight w"
  "wk_flushTimer (push_and_feed ts w) = wk_flushTimer w"
  "wk_liveTicks (push_and_feed ts w) = wk_liveTicks w"
  "wk_tickFailures (push_and_feed ts w) = wk_tickFailures w"
  "wk_candleFailures (push_and_feed ts w) = wk_candleFailures w"
  by (induction ts arbitrary: w) simp_all

definition buffer_ok :: "tick_buffer \<Rightarrow> bool" where
  "buffer_ok b \<longleftrightarrow> js_wf b \<and> (\<forall>(k, sl)\<in>set b. tk_symbol (sl_tick sl) = k)"

lemma buffer_ok_push [inv_intros]: "buffer_ok b \<Longrightarrow> buffer_ok (buf_push t b)"
  unfolding buffer_ok_def buf_push_def
  by (auto simp: js_wf_set split: option.splits dest!: set_js_set[THEN subsetD])

lemma buffer_ok_Nil [simp]: "buffer_ok []"
  by (simp add: buffer_ok_def)

lemma push_and_feed_buffer_ok: "buffer_ok (wk_buffer w) \<Longrightarrow> buffer_ok (wk_buffer (push_and_feed ts w))"
  by (induction ts arbitrary: w) (simp_all add: buffer_ok_push)

lemma push_and_feed_get:
  "map_option sl_tick (js_get (wk_buffer (push_and_feed ts w)) s)
    = (case last_of s ts of Some t \<Rightarrow> Some t | None \<Rightarrow> map_option sl_tick (js_get (wk_buffer w) s))"
proof (induction ts arbitrary: w)
  case Nil
  then show ?case by simp
next
  case (Cons t ts)
  show ?case
    using Cons last_of_append[of s "[t]" ts]
    by (simp add: map_laws last_of_def find_last_def split: option.splits)
qed

text \<open>The invariant of the event loop: the flush loop is armed or writing, pending ticks have a
  timer, the buffer is keyed by its ticks.\<close>

definition worker_inv :: "worker \<Rightarrow> bool" where
  "worker_inv w \<longleftrightarrow> (wk_flushTimer w \<or> wk_inFlight w \<noteq> None) \<and> (wk_pending w \<noteq> [] \<longrightarrow> wk_batchTimer w)
     \<and> buffer_ok (wk_buffer w)"

lemma worker_inv_start: "worker_inv worker_start"
  by (simp add: worker_inv_def worker_start_def)

lemmas worker_ops = handleIncomingTick_def batchTimerFired_def flushBatch_def flushTimerFired_def
  runSingleFlush_begin_def runSingleFlush_end_def candleWriteSettled_def

lemma worker_inv_step: "worker_inv w \<Longrightarrow> worker_inv (worker_step e w)"
  by (cases e) (auto simp: worker_inv_def worker_ops push_and_feed_buffer_ok buf_drain_def
      split: option.splits)

lemma worker_inv_run: "worker_inv w \<Longrightarrow> worker_inv (worker_run evs w)"
  unfolding worker_run_def by (rule foldl_invariant) (simp_all add: worker_inv_step)

text \<open>The row of a symbol once the buffer will have been written.\<close>

definition row_after_flush :: "worker \<Rightarrow> string \<Rightarrow> live_tick_row option" where
  "row_after_flush w s = (case map_option sl_tick (js_get (wk_buffer w) s) of
     Some t \<Rightarrow> Some (toRow t) | None \<Rightarrow> js_get (wk_liveTicks w) s)"

text \<open>What an unraced run maintains: the last tick pushed for a symbol is the buffered one, or
  it is in the table; and a snapshot in progress is the buffer.\<close>

definition table_follows :: "worker \<Rightarrow> normalized_tick list \<Rightarrow> bool" where
  "table_follows w h \<longleftrightarrow> (\<forall>d. wk_inFlight w = Some d \<longrightarrow> d = buf_peek (wk_buffer w))
     \<and> (\<forall>s t. last_of s h = Some t \<longrightarrow> row_after_flush w s = Some (toRow t))"

lemma row_after_flush_cong:
  "wk_buffer w' = wk_buffer w \<Longrightarrow> wk_liveTicks w' = wk_liveTicks w
    \<Longrightarrow> row_after_flush w' = row_after_flush w"
  by (rule ext) (simp only: row_after_flush_def)

lemma flushBatch_get:
  "map_option sl_tick (js_get (wk_buffer (flushBatch now w)) s) = (case last_of s (wk_pending w) of
     Some t \<Rightarrow> Some t | None \<Rightarrow> map_option sl_tick (js_get (wk_buffer w) s))"
  by (cases "wk_pending w = []"; cases "last_of s (wk_pending w)")
    (simp_all add: flushBatch_def push_and_feed_get)

lemma flushBatch_row:
  "row_after_flush (flushBatch now w) s = (case last_of s (wk_pending w) of
     Some t \<Rightarrow> Some (toRow t) | None \<Rightarrow> row_after_flush w s)"
  by (cases "last_of s (wk_pending w)"; cases "wk_pending w = []"; cases "js_get (wk_buffer w) s")
    (simp_all add: flushBatch_def row_after_flush_def push_and_feed_get del: case_map_option)

lemma flush_row:
  assumes "buffer_ok (wk_buffer w)"
  shows "js_get (fst (flushLiveTicks (buf_peek (wk_buffer w)) (wk_liveTicks w))) s = row_after_flush w s"
  using assms flushLiveTicks_get[of "wk_buffer w" "wk_liveTicks w" s]
  by (simp add: buffer_ok_def row_after_flush_def split: option.splits)

lemma settle_row:
  assumes "buffer_ok (wk_buffer w)" "wk_inFlight w = Some (buf_peek (wk_buffer w))"
  shows "row_after_flush (runSingleFlush_end True now w) s = row_after_flush w s"
    and "js_get (wk_liveTicks (runSingleFlush_end True now w)) s = row_after_flush w s"
  using flush_row[OF assms(1), of s] assms(2)
  by (simp_all add: runSingleFlush_end_def buf_drain_def row_after_flush_def)

lemma failed_settle_row: "row_after_flush (runSingleFlush_end False now w) = row_after_flush w"
  by (rule row_after_flush_cong) (simp_all add: runSingleFlush_end_def split: option.splits)

lemma flushBatch_inFlight [simp]: "wk_inFlight (flushBatch now w) = wk_inFlight w"
  by (simp add: flushBatch_def)

lemma flushBatch_idle [simp]: "wk_pending w = [] \<Longrightarrow> flushBatch now w = w"
  by (simp add: flushBatch_def)

lemma table_follows_step:
  assumes f: "table_follows w h" and i: "worker_inv w" and r: "wk_inFlight w = None \<or> pushed_by e w = []"
  shows "table_follows (worker_step e w) (h @ pushed_by e w)"
proof (cases e)
  case (Incoming t)
  have "row_after_flush (handleIncomingTick t w) = row_after_flush w"
    by (rule row_after_flush_cong) (simp_all add: handleIncomingTick_def)
  with f Incoming show ?thesis by (simp add: table_follows_def) (simp add: handleIncomingTick_def)
next
  case (BatchTimer now)
  define w1 where "w1 = w\<lparr>wk_batchTimer := False\<rparr>"
  have w1: "wk_pending w1 = wk_pending w" "wk_buffer w1 = wk_buffer w" "wk_inFlight w1 = wk_inFlight w"
    by (simp_all add: w1_def)
  have row1: "row_after_flush w1 = row_after_flush w"
    by (rule row_after_flush_cong) (simp_all add: w1_def)
  show ?thesis
  proof (cases "wk_batchTimer w")
    case True
    then have st: "worker_step e w = flushBatch now w1" and p: "pushed_by e w = wk_pending w"
      by (simp_all add: BatchTimer batchTimerFired_def w1_def)
    show ?thesis
    proof (cases "wk_pending w = []")
      case True
      then show ?thesis using f st p w1 row1 by (simp add: table_follows_def)
    next
      case False
      then have "wk_inFlight w = None" using r p by simp
      then show ?thesis
        using f unfolding st p table_follows_def
        by (auto simp: flushBatch_row w1 row1 last_of_append split: option.splits)
    qed
  next
    case False
    then show ?thesis using f BatchTimer by (simp add: batchTimerFired_def)
  qed
next
  case FlushTimer
  have "row_after_flush (flushTimerFired w) = row_after_flush w"
    by (rule row_after_flush_cong) (simp_all add: flushTimerFired_def runSingleFlush_begin_def)
  with f FlushTimer show ?thesis
    by (auto simp: table_follows_def) (auto simp: flushTimerFired_def runSingleFlush_begin_def split: if_splits)
next
  case (FlushSettled ok now)
  show ?thesis
  proof (cases "wk_inFlight w")
    case None
    then show ?thesis using f FlushSettled by (simp add: runSingleFlush_end_def)
  next
    case (Some d)
    then have d: "wk_inFlight w = Some (buf_peek (wk_buffer w))"
      using f by (simp add: table_follows_def)
    have "wk_inFlight (runSingleFlush_end ok now w) = None"
      using d by (simp add: runSingleFlush_end_def)
    moreover have "row_after_flush (runSingleFlush_end ok now w) s = row_after_flush w s" for s
      using settle_row(1)[OF _ d] failed_settle_row i by (cases ok) (simp_all add: worker_inv_def)
    ultimately show ?thesis
      using f FlushSettled by (simp add: table_follows_def)
  qed
next
  case (CandleSettled n ok now)
  have "row_after_flush (candleWriteSettled n ok now w) = row_after_flush w"
    by (rule row_after_flush_cong) (simp_all add: candleWriteSettled_def)
  with f CandleSettled show ?thesis by (simp add: table_follows_def) (simp add: candleWriteSettled_def)
qed

lemma table_follows_run:
  "table_follows w h \<Longrightarrow> worker_inv w \<Longrightarrow> unraced evs w
    \<Longrightarrow> table_follows (worker_run evs w) (h @ pushed_ticks evs w)"
proof (induction evs arbitrary: w h)
  case Nil
  then show ?case by (simp add: worker_run_def)
next
  case (Cons e evs)
  then show ?case
    using table_follows_step[of w h e] worker_inv_step[of w e]
      Cons.IH[of "worker_step e w" "h @ pushed_by e w"]
    by (simp add: worker_run_def)
qed


section \<open>Properties of the pipeline\<close>

text \<open>The tick table follows the stream: in every run of the worker's event loop in which no
  tick reaches the buffer during a database write, whatever writes fail and whenever timers fire,
  the last tick pushed for a symbol is the one its row holds or will hold once the buffer is
  written. In particular a failed write loses nothing.\<close>

theorem live_ticks_never_behind:
  assumes "unraced evs worker_start"
    and "last_of s (pushed_ticks evs worker_start) = Some t"
  shows "row_after_flush (worker_run evs worker_start) s = Some (toRow t)"
proof -
  have "table_follows worker_start []"
    by (simp add: table_follows_def worker_start_def)
  from table_follows_run[OF this worker_inv_start assms(1)] assms(2) show ?thesis
    by (simp add: table_follows_def)
qed

lemmas worker_exec = worker_run_def worker_start_def worker_ops no_failures_def buf_push_def feed_def
  buf_peek_def buf_drain_def flushLiveTicks_def toRow_def last_of_def find_last_def
  row_after_flush_def note_failure_def bucket_of_def MINUTE_MS_def openBar_def updateBar_def

lemma live_ticks_never_behind_witness:
  "row_after_flush (worker_run [Incoming \<lparr>tk_symbol = ''XAUUSD'', tk_bid = 1, tk_ask = 3, tk_mid = 2,
      tk_ts = 5, tk_source = Biquote_SignalR\<rparr>, BatchTimer 50, FlushTimer, FlushSettled False 60]
      worker_start) ''XAUUSD''
    = Some (toRow \<lparr>tk_symbol = ''XAUUSD'', tk_bid = 1, tk_ask = 3, tk_mid = 2, tk_ts = 5,
        tk_source = Biquote_SignalR\<rparr>)"
  by (rule live_ticks_never_behind) (simp_all add: worker_exec)

text \<open>C10: A pending tick reaches its row: in every state the event loop can be in, the running
  write settling, the batch timer, the flush timer and a successful write, in this order, leave in
  the table the last tick that was pending for the symbol. No state is stuck: the timers this
  needs are armed.\<close>

theorem pending_tick_is_written:
  assumes "last_of s (wk_pending (worker_run evs worker_start)) = Some t"
  shows "js_get (wk_liveTicks (worker_run
      (evs @ [FlushSettled ok n1, BatchTimer n2, FlushTimer, FlushSettled True n3]) worker_start)) s
    = Some (toRow t)"
proof -
  define w where "w = worker_run evs worker_start"
  have inv: "worker_inv w"
    unfolding w_def by (rule worker_inv_run[OF worker_inv_start])
  define w1 where "w1 = runSingleFlush_end ok n1 w"
  have inv1: "worker_inv w1"
    using worker_inv_step[OF inv, of "FlushSettled ok n1"] by (simp add: w1_def)
  have w1: "wk_inFlight w1 = None" "wk_pending w1 = wk_pending w" "wk_flushTimer w1"
    using inv by (auto simp: w1_def runSingleFlush_end_def worker_inv_def split: option.splits)
  define w2 where "w2 = batchTimerFired n2 w1"
  have inv2: "worker_inv w2"
    using worker_inv_step[OF inv1, of "BatchTimer n2"] by (simp add: w2_def)
  have pend: "wk_pending w1 \<noteq> []" and last: "last_of s (wk_pending w1) = Some t"
    using assms w1(2) by (auto simp: w_def)
  have armed: "wk_batchTimer w1"
    using inv1 pend by (simp add: worker_inv_def)
  have w2': "w2 = flushBatch n2 (w1\<lparr>wk_batchTimer := False\<rparr>)"
    using armed by (simp add: w2_def batchTimerFired_def)
  have w2: "wk_inFlight w2 = None" "wk_flushTimer w2" "row_after_flush w2 s = Some (toRow t)"
    using w1 last pend by (simp_all add: w2' flushBatch_row) (simp add: flushBatch_def)
  have "map_option sl_tick (js_get (wk_buffer w2) s) = Some t"
    using last by (simp only: w2' flushBatch_get worker.simps) simp
  then have ne: "wk_buffer w2 \<noteq> []"
    by auto
  define w3 where "w3 = flushTimerFired w2"
  have w3: "wk_inFlight w3 = Some (buf_peek (wk_buffer w3))" "wk_buffer w3 = wk_buffer w2"
    "wk_liveTicks w3 = wk_liveTicks w2"
    using w2(1,2) ne by (simp_all add: w3_def flushTimerFired_def runSingleFlush_begin_def buf_peek_def)
  have "js_get (wk_liveTicks (runSingleFlush_end True n3 w3)) s = row_after_flush w3 s"
    using inv2 w3 by (intro settle_row) (simp_all add: worker_inv_def)
  also have "\<dots> = Some (toRow t)"
    using w2(3) row_after_flush_cong[OF w3(2,3)] by simp
  finally show ?thesis
    by (simp add: worker_run_def w_def[unfolded worker_run_def, symmetric] w1_def[symmetric]
        w2_def[symmetric] w3_def[symmetric])
qed

lemma pending_tick_is_written_witness:
  "js_get (wk_liveTicks (worker_run ([Incoming \<lparr>tk_symbol = ''XAUUSD'', tk_bid = 1, tk_ask = 3,
      tk_mid = 2, tk_ts = 5, tk_source = Biquote_SignalR\<rparr>]
      @ [FlushSettled True 1, BatchTimer 50, FlushTimer, FlushSettled True 60]) worker_start)) ''XAUUSD''
    = Some (toRow \<lparr>tk_symbol = ''XAUUSD'', tk_bid = 1, tk_ask = 3, tk_mid = 2, tk_ts = 5,
        tk_source = Biquote_SignalR\<rparr>)"
  by (rule pending_tick_is_written) (simp add: worker_exec)

text \<open>The race the peek-before-drain pattern leaves: a tick that reaches the buffer while a
  write is in progress is drained with the written snapshot. The table keeps the older tick, the
  buffer is empty, and no later timer writes the newer one.\<close>

theorem tick_during_flush_is_dropped:
  "tk_symbol t2 = tk_symbol t1
    \<Longrightarrow> (let w = worker_run [Incoming t1, BatchTimer n1, FlushTimer, Incoming t2, BatchTimer n2,
                          FlushSettled True n3] worker_start
       in wk_buffer w = [] \<and> wk_pending w = []
        \<and> js_get (wk_liveTicks w) (tk_symbol t1) = Some (toRow t1))"
  by (simp add: worker_exec Let_def)

lemma tick_during_flush_is_dropped_witness:
  "(let w = worker_run [Incoming \<lparr>tk_symbol = ''X'', tk_bid = 1, tk_ask = 3, tk_mid = 2, tk_ts = 5,
        tk_source = Binance_WS\<rparr>, BatchTimer 50, FlushTimer, Incoming \<lparr>tk_symbol = ''X'', tk_bid = 2,
        tk_ask = 4, tk_mid = 3, tk_ts = 6, tk_source = Binance_WS\<rparr>, BatchTimer 51, FlushSettled True 60]
        worker_start
    in wk_buffer w = [] \<and> wk_pending w = [] \<and> js_get (wk_liveTicks w) ''X''
      = Some (toRow \<lparr>tk_symbol = ''X'', tk_bid = 1, tk_ask = 3, tk_mid = 2, tk_ts = 5,
          tk_source = Binance_WS\<rparr>))"
  using tick_during_flush_is_dropped[of
      "\<lparr>tk_symbol = ''X'', tk_bid = 2, tk_ask = 4, tk_mid = 3, tk_ts = 6, tk_source = Binance_WS\<rparr>"
      "\<lparr>tk_symbol = ''X'', tk_bid = 1, tk_ask = 3, tk_mid = 2, tk_ts = 5, tk_source = Binance_WS\<rparr>"
      50 51 60] by simp

text \<open>Reports of a sustained failure are more than a cooldown apart, and each needs three failures
  in a row before it.\<close>

definition captures_spaced :: "failure_log \<Rightarrow> bool" where
  "captures_spaced f \<longleftrightarrow>
     sorted_wrt (\<lambda>a b. a > b + CAPTURE_COOLDOWN_MS) (fl_captures f)
     \<and> (case fl_captures f of [] \<Rightarrow> True | c # cs \<Rightarrow> fl_lastCaptureAt f = c)"

lemma CAPTURE_COOLDOWN_pos: "0 \<le> CAPTURE_COOLDOWN_MS"
  by (simp add: CAPTURE_COOLDOWN_MS_def)

lemma captures_spaced_failure: "captures_spaced f \<Longrightarrow> captures_spaced (note_failure now f)"
  using CAPTURE_COOLDOWN_pos
  by (cases "fl_captures f") (fastforce simp: captures_spaced_def note_failure_def Let_def)+

lemma captures_spaced_reset: "captures_spaced f \<Longrightarrow> captures_spaced (f\<lparr>fl_count := 0\<rparr>)"
  by (cases "fl_captures f") (simp_all add: captures_spaced_def)

lemma captures_spaced_step:
  assumes "captures_spaced (wk_tickFailures w)" "captures_spaced (wk_candleFailures w)"
  shows "captures_spaced (wk_tickFailures (worker_step e w)) \<and> captures_spaced (wk_candleFailures (worker_step e w))"
  using assms by (cases e) (auto simp: worker_ops captures_spaced_failure captures_spaced_reset split: option.splits)

lemma captures_spaced_run:
  "captures_spaced (wk_tickFailures (worker_run evs worker_start))
    \<and> captures_spaced (wk_candleFailures (worker_run evs worker_start))"
  unfolding worker_run_def
proof (rule foldl_invariant[where P = "\<lambda>w. captures_spaced (wk_tickFailures w) \<and> captures_spaced (wk_candleFailures w)"])
  show "captures_spaced (wk_tickFailures worker_start) \<and> captures_spaced (wk_candleFailures worker_start)"
    by (simp add: worker_start_def no_failures_def captures_spaced_def)
next
  fix w :: worker and e
  assume "captures_spaced (wk_tickFailures w) \<and> captures_spaced (wk_candleFailures w)"
  then show "captures_spaced (wk_tickFailures (worker_step e w)) \<and> captures_spaced (wk_candleFailures (worker_step e w))"
    by (simp add: captures_spaced_step)
qed

end
