(* ===== verification/Hub_Consumer.thy ===== *)
theory Hub_Consumer
  imports Tick_Store Symbols
begin

text \<open>
  The SignalR consumer of the worker, \<open>apps/worker/src/signalr/consumer.ts\<close> and
  \<open>reconnect.ts\<close>: connecting, the manual rebuild loop with its backoff, the subscriptions and
  the validation of incoming ticks. A method that awaits the hub gets the outcome of the call as
  an argument. The array of symbols handed to the constructor and the array of subscribed symbols
  are one object until the first removal replaces the latter, so the model keeps both and the
  flag that says whether they are the same object.
\<close>

section \<open>Reconnect policy\<close>

definition DEFAULT_RECONNECT_DELAYS :: "ms list" where
  "DEFAULT_RECONNECT_DELAYS = [0, 2000, 5000, 10000, 30000]"

text \<open>\<open>random\<close> is the value of \<open>Math.random()\<close>, from 0 inclusive to 1 exclusive.\<close>

definition jitteredDelay :: "real \<Rightarrow> real \<Rightarrow> real" where
  "jitteredDelay random baseMs = max 100 (baseMs + (random * 2 - 1) * (baseMs * 0.25))"

definition MAX_REBUILD_BACKOFF_MS :: real where
  "MAX_REBUILD_BACKOFF_MS = 60000"

definition rebuildBase :: "nat \<Rightarrow> real" where
  "rebuildBase reconnectAttempt = min MAX_REBUILD_BACKOFF_MS (2000 * 2 ^ (reconnectAttempt - 1))"

section \<open>The consumer\<close>

datatype hub_call = Connect_Hub | Subscribe "string list" | Unsubscribe "string list"

record hub =
  hb_opts :: "string list option"   \<comment> \<open>\<open>opts.symbols\<close>\<close>
  hb_subscribed :: "string list"    \<comment> \<open>\<open>subscribedSymbols\<close>\<close>
  hb_aliased :: bool                \<comment> \<open>both names denote the same array\<close>
  hb_connection :: bool
  hb_started :: bool
  hb_stopping :: bool
  hb_timer :: "real option"         \<comment> \<open>the delay of the armed rebuild timer\<close>
  hb_attempt :: nat
  hb_calls :: "hub_call list"       \<comment> \<open>calls made on the hub, oldest first\<close>

definition new_hub :: "string list option \<Rightarrow> hub" where
  "new_hub syms = \<lparr>hb_opts = syms, hb_subscribed = [], hb_aliased = False, hb_connection = False,
     hb_started = False, hb_stopping = False, hb_timer = None, hb_attempt = 0, hb_calls = []\<rparr>"

text \<open>\<open>subscribe\<close> and \<open>unsubscribe\<close>: nothing is sent without a connection or for an empty list.\<close>

definition hub_subscribe :: "string list \<Rightarrow> hub \<Rightarrow> hub" where
  "hub_subscribe xs h = (if \<not> hb_connection h \<or> xs = [] then h
     else h\<lparr>hb_calls := hb_calls h @ [Subscribe xs]\<rparr>)"

definition hub_unsubscribe :: "string list \<Rightarrow> hub \<Rightarrow> hub" where
  "hub_unsubscribe xs h = (if \<not> hb_connection h \<or> xs = [] then h
     else h\<lparr>hb_calls := hb_calls h @ [Unsubscribe xs]\<rparr>)"

text \<open>\<open>start\<close>: the connection is built and kept even when connecting or the first subscription
  fails; the second component is false when the method throws.\<close>

definition hub_start :: "bool \<Rightarrow> bool \<Rightarrow> hub \<Rightarrow> hub \<times> bool" where
  "hub_start connect_ok subscribe_ok h =
     (if hb_started h then (h, True)
      else
        let symbols = (case hb_opts h of Some xs \<Rightarrow> xs | None \<Rightarrow> ALL_SYMBOLS);
            h1 = h\<lparr>hb_subscribed := symbols, hb_aliased := (hb_opts h \<noteq> None), hb_connection := True,
                   hb_calls := hb_calls h @ [Connect_Hub]\<rparr>
        in if \<not> connect_ok then (h1, False)
           else if symbols \<noteq> [] \<and> \<not> subscribe_ok then (hub_subscribe symbols h1, False)
           else ((hub_subscribe symbols h1)\<lparr>hb_started := True\<rparr>, True))"

definition scheduleReconnect :: "real \<Rightarrow> hub \<Rightarrow> hub" where
  "scheduleReconnect random h =
     (if hb_stopping h \<or> hb_timer h \<noteq> None then h
      else h\<lparr>hb_attempt := hb_attempt h + 1,
             hb_timer := Some (jitteredDelay random (rebuildBase (hb_attempt h + 1)))\<rparr>)"

text \<open>The \<open>onclose\<close> and \<open>onreconnected\<close> callbacks.\<close>

definition hub_onclose :: "real \<Rightarrow> hub \<Rightarrow> hub" where
  "hub_onclose random h = (let h1 = h\<lparr>hb_started := False\<rparr> in
     if \<not> hb_stopping h1 then scheduleReconnect random h1 else h1)"

definition hub_onreconnected :: "hub \<Rightarrow> hub" where
  "hub_onreconnected h = hub_subscribe (hb_subscribed h) h"

definition rebuild :: "bool \<Rightarrow> bool \<Rightarrow> real \<Rightarrow> hub \<Rightarrow> hub" where
  "rebuild connect_ok subscribe_ok random h =
     (if hb_stopping h then h
      else case hub_start connect_ok subscribe_ok (h\<lparr>hb_connection := False\<rparr>) of
        (h1, True) \<Rightarrow> h1\<lparr>hb_attempt := 0\<rparr>
      | (h1, False) \<Rightarrow> scheduleReconnect random h1)"

text \<open>
  The callback of the rebuild timer. The rebuild is one step, although it awaits two calls of the
  hub: between them the consumer is not started and keeps the symbols of the last start.
\<close>

definition hub_timerFired :: "bool \<Rightarrow> bool \<Rightarrow> real \<Rightarrow> hub \<Rightarrow> hub" where
  "hub_timerFired connect_ok subscribe_ok random h =
     (if hb_timer h = None then h
      else rebuild connect_ok subscribe_ok random (h\<lparr>hb_timer := None\<rparr>))"

text \<open>\<open>stop\<close>: failures of the two calls are swallowed.\<close>

definition hub_stop :: "hub \<Rightarrow> hub" where
  "hub_stop h = (let h1 = h\<lparr>hb_stopping := True, hb_timer := None\<rparr> in
     if \<not> hb_connection h1 then h1
     else (hub_unsubscribe (hb_subscribed h1) h1)\<lparr>hb_connection := False, hb_started := False\<rparr>)"

text \<open>
  \<open>updateSubscriptions\<close> in its two halves around the await of the \<open>Subscribe\<close> call. Pushing
  onto a shared array changes \<open>opts.symbols\<close> too; filtering makes a new array.
\<close>

definition update_added :: "string list \<Rightarrow> hub \<Rightarrow> hub" where
  "update_added added h =
     (if added = [] then h
      else hub_subscribe added
        (h\<lparr>hb_subscribed := hb_subscribed h @ added,
           hb_opts := (if hb_aliased h then Some (hb_subscribed h @ added) else hb_opts h)\<rparr>))"

definition update_removed :: "string list \<Rightarrow> hub \<Rightarrow> hub" where
  "update_removed removed h =
     (if removed = [] then h
      else hub_unsubscribe removed
        (h\<lparr>hb_subscribed := filter (\<lambda>s. s \<notin> set removed) (hb_subscribed h), hb_aliased := False\<rparr>))"

definition updateSubscriptions :: "bool \<Rightarrow> string list \<Rightarrow> string list \<Rightarrow> hub \<Rightarrow> hub" where
  "updateSubscriptions subscribe_ok added removed h =
     (let h1 = update_added added h in
      if added \<noteq> [] \<and> hb_connection h \<and> \<not> subscribe_ok then h1 else update_removed removed h1)"

section \<open>Ticks\<close>

datatype tick_timestamp = Ts_Number real | Ts_String string

record hub_tick =
  ht_symbol :: string
  ht_bid :: real
  ht_ask :: real
  ht_timestamp :: tick_timestamp

text \<open>\<open>parseTickTimestamp\<close>; \<open>dateParse\<close> is \<open>Date.parse\<close>, \<open>None\<close> for \<open>NaN\<close>.\<close>

definition parseTickTimestamp :: "(string \<Rightarrow> real option) \<Rightarrow> tick_timestamp \<Rightarrow> real option" where
  "parseTickTimestamp dateParse input =
     (case input of
        Ts_Number x \<Rightarrow> if x < 0 then None else Some (if x < 1000000000000 then x * 1000 else x)
      | Ts_String s \<Rightarrow> dateParse s)"

text \<open>
  \<open>handleTick\<close> up to the call of \<open>onTick\<close>: \<open>parsed\<close> is the outcome of the schema check. The time of
  the tick is a whole number of milliseconds: the schema admits integers only and \<open>Date.parse\<close>
  returns integers.
\<close>

definition handleTick :: "(string \<Rightarrow> real option) \<Rightarrow> hub_tick option \<Rightarrow> normalized_tick option" where
  "handleTick dateParse parsed =
     (case parsed of None \<Rightarrow> None
      | Some tick \<Rightarrow>
          if \<not> isKnownSymbol (ht_symbol tick) then None
          else case parseTickTimestamp dateParse (ht_timestamp tick) of None \<Rightarrow> None
          | Some ts \<Rightarrow> Some \<lparr>tk_symbol = ht_symbol tick, tk_bid = ht_bid tick, tk_ask = ht_ask tick,
              tk_mid = (ht_bid tick + ht_ask tick) / 2, tk_ts = \<lfloor>ts\<rfloor>, tk_source = Biquote_SignalR\<rparr>)"

text \<open>The call of the handler: a tick whose handler throws is counted as dropped.\<close>

definition dispatchTick :: "bool \<Rightarrow> normalized_tick option \<Rightarrow> nat \<Rightarrow> nat" where
  "dispatchTick handler_throws t dropped =
     (case t of None \<Rightarrow> dropped | Some _ \<Rightarrow> if handler_throws then dropped + 1 else dropped)"

section \<open>The life of a consumer\<close>

datatype hub_event =
    Hub_Closed real                       \<comment> \<open>the hub gives up its connection\<close>
  | Hub_Reconnected                       \<comment> \<open>the hub's own reconnect succeeded\<close>
  | Rebuild_Timer bool bool real          \<comment> \<open>outcomes of connecting and subscribing\<close>
  | Update_Symbols bool "string list" "string list"
  | Hub_Stop

fun hub_step :: "hub_event \<Rightarrow> hub \<Rightarrow> hub" where
  "hub_step (Hub_Closed r) h = hub_onclose r h"
| "hub_step Hub_Reconnected h = hub_onreconnected h"
| "hub_step (Rebuild_Timer c s r) h = hub_timerFired c s r h"
| "hub_step (Update_Symbols ok added removed) h = updateSubscriptions ok added removed h"
| "hub_step Hub_Stop h = hub_stop h"

text \<open>States reachable from a first successful start.\<close>

inductive hub_reach :: "string list option \<Rightarrow> hub \<Rightarrow> bool" for syms where
  started: "hub_start True True (new_hub syms) = (h, True) \<Longrightarrow> hub_reach syms h"
| step: "hub_reach syms h \<Longrightarrow> hub_reach syms (hub_step e h)"

section \<open>Lemmas\<close>

lemma jitteredDelay_bounds:
  assumes "0 \<le> r" "r < 1" "2000 \<le> b" "b \<le> 60000"
  shows "1500 \<le> jitteredDelay r b" "jitteredDelay r b \<le> 75000"
proof -
  define q where "q = b * 0.25"
  have q: "500 \<le> q" "q \<le> 15000" "b = 4 * q"
    using assms by (simp_all add: q_def)
  have "(r * 2 - 1) * q \<le> 1 * q" "- 1 * q \<le> (r * 2 - 1) * q"
    by (rule mult_right_mono; use assms q in linarith)+
  then show "1500 \<le> jitteredDelay r b" "jitteredDelay r b \<le> 75000"
    unfolding jitteredDelay_def q_def[symmetric] using q by linarith+
qed

lemma rebuildBase_bounds: "2000 \<le> rebuildBase n" "rebuildBase n \<le> 60000"
  by (simp_all add: rebuildBase_def MAX_REBUILD_BACKOFF_MS_def)

lemma hub_subscribe_frame [simp]:
  "hb_opts (hub_subscribe xs h) = hb_opts h" "hb_subscribed (hub_subscribe xs h) = hb_subscribed h"
  "hb_aliased (hub_subscribe xs h) = hb_aliased h" "hb_connection (hub_subscribe xs h) = hb_connection h"
  "hb_started (hub_subscribe xs h) = hb_started h" "hb_stopping (hub_subscribe xs h) = hb_stopping h"
  "hb_timer (hub_subscribe xs h) = hb_timer h" "hb_attempt (hub_subscribe xs h) = hb_attempt h"
  by (simp_all add: hub_subscribe_def)

lemma hub_unsubscribe_frame [simp]:
  "hb_opts (hub_unsubscribe xs h) = hb_opts h" "hb_subscribed (hub_unsubscribe xs h) = hb_subscribed h"
  "hb_aliased (hub_unsubscribe xs h) = hb_aliased h" "hb_connection (hub_unsubscribe xs h) = hb_connection h"
  "hb_started (hub_unsubscribe xs h) = hb_started h" "hb_stopping (hub_unsubscribe xs h) = hb_stopping h"
  "hb_timer (hub_unsubscribe xs h) = hb_timer h" "hb_attempt (hub_unsubscribe xs h) = hb_attempt h"
  by (simp_all add: hub_unsubscribe_def)

text \<open>The invariant: unless it is being stopped, the consumer is up or has a rebuild armed; and a
  shared array is the one of the options.\<close>

definition hub_inv :: "hub \<Rightarrow> bool" where
  "hub_inv h \<longleftrightarrow> (hb_stopping h \<or> hb_started h \<or> hb_timer h \<noteq> None)
     \<and> (hb_started h \<longrightarrow> hb_connection h) \<and> (hb_timer h \<noteq> None \<longrightarrow> \<not> hb_started h)
     \<and> (hb_aliased h \<longrightarrow> hb_opts h = Some (hb_subscribed h))
     \<and> (hb_stopping h \<longrightarrow> hb_timer h = None)
     \<and> (hb_connection h \<or> \<not> hb_started h)"

lemma hub_start_fresh:
  "\<not> hb_started h \<Longrightarrow> hub_start c s h = (h', ok)
    \<Longrightarrow> hb_started h' = ok \<and> hb_connection h' \<and> hb_stopping h' = hb_stopping h \<and> hb_timer h' = hb_timer h
      \<and> hb_opts h' = hb_opts h \<and> (hb_aliased h' \<longrightarrow> hb_opts h' = Some (hb_subscribed h'))"
  by (auto simp: hub_start_def Let_def split: if_splits option.splits)

lemma scheduleReconnect_inv:
  "\<not> hb_started h \<Longrightarrow> (hb_aliased h \<longrightarrow> hb_opts h = Some (hb_subscribed h))
    \<Longrightarrow> (hb_stopping h \<longrightarrow> hb_timer h = None) \<Longrightarrow> hub_inv (scheduleReconnect r h)"
  by (auto simp: hub_inv_def scheduleReconnect_def)

lemma hub_timerFired_armed:
  "hb_timer h \<noteq> None \<Longrightarrow> hub_timerFired c s r h = rebuild c s r (h\<lparr>hb_timer := None\<rparr>)"
  by (cases "hb_timer h") (simp_all add: hub_timerFired_def)

lemma rebuild_inv:
  assumes "hub_inv h" "hb_timer h \<noteq> None"
  shows "hub_inv (hub_timerFired c s r h)"
proof -
  define h1 where "h1 = h\<lparr>hb_timer := None, hb_connection := False\<rparr>"
  obtain h2 ok where st: "hub_start c s h1 = (h2, ok)" by fastforce
  have f: "\<not> hb_started h1" "\<not> hb_stopping h"
    using assms by (auto simp: hub_inv_def h1_def)
  note h2 = hub_start_fresh[OF f(1) st]
  show ?thesis
  proof (cases ok)
    case True
    then have "hub_timerFired c s r h = h2\<lparr>hb_attempt := 0\<rparr>"
      using assms(2) f st unfolding hub_timerFired_armed[OF assms(2)] rebuild_def h1_def by simp
    then show ?thesis using h2 True by (auto simp: hub_inv_def h1_def)
  next
    case False
    then have "hub_timerFired c s r h = scheduleReconnect r h2"
      using assms(2) f st unfolding hub_timerFired_armed[OF assms(2)] rebuild_def h1_def by simp
    moreover have "hub_inv (scheduleReconnect r h2)"
      using h2 False f by (intro scheduleReconnect_inv) (auto simp: h1_def)
    ultimately show ?thesis by simp
  qed
qed

lemma updateSubscriptions_frame [simp]:
  "hb_started (updateSubscriptions ok a r h) = hb_started h"
  "hb_connection (updateSubscriptions ok a r h) = hb_connection h"
  "hb_stopping (updateSubscriptions ok a r h) = hb_stopping h"
  "hb_timer (updateSubscriptions ok a r h) = hb_timer h"
  by (simp_all add: updateSubscriptions_def update_added_def update_removed_def Let_def)

lemma updateSubscriptions_alias:
  "hb_aliased h \<longrightarrow> hb_opts h = Some (hb_subscribed h)
    \<Longrightarrow> hb_aliased (updateSubscriptions ok a r h)
      \<longrightarrow> hb_opts (updateSubscriptions ok a r h) = Some (hb_subscribed (updateSubscriptions ok a r h))"
  by (auto simp: updateSubscriptions_def update_added_def update_removed_def Let_def)

lemma hub_inv_step: "hub_inv h \<Longrightarrow> hub_inv (hub_step e h)"
proof (cases e)
  case (Hub_Closed r)
  assume "hub_inv h"
  then show ?thesis
    using Hub_Closed by (auto simp: hub_onclose_def Let_def scheduleReconnect_def hub_inv_def)
next
  case (Rebuild_Timer c s r)
  assume "hub_inv h"
  then show ?thesis
    using Rebuild_Timer rebuild_inv[of h c s r] by (cases "hb_timer h = None") (simp_all add: hub_timerFired_def)
next
  case (Update_Symbols ok a r)
  assume "hub_inv h"
  then show ?thesis
    using Update_Symbols updateSubscriptions_alias[of h ok a r] by (simp add: hub_inv_def)
qed (auto simp: hub_inv_def hub_onreconnected_def hub_stop_def Let_def)

lemma hub_reach_inv: "hub_reach syms h \<Longrightarrow> hub_inv h"
proof (induction rule: hub_reach.induct)
  case (started h)
  then show ?case
    by (auto simp: hub_start_def new_hub_def hub_inv_def Let_def)
next
  case (step h e)
  then show ?case by (simp add: hub_inv_step)
qed


lemmas hub_exec = hub_start_def new_hub_def hub_subscribe_def hub_unsubscribe_def hub_onclose_def
  scheduleReconnect_def hub_timerFired_def rebuild_def updateSubscriptions_def update_added_def
  update_removed_def hub_stop_def hub_onreconnected_def

section \<open>Properties of the consumer\<close>

text \<open>C24: The consumer is never silently dead: in every state reachable from a successful start, by
  any order of closed connections, failed or successful rebuilds, subscription changes and hub
  reconnects, it is being stopped, connected, or waiting for an armed rebuild; and when that
  rebuild's connection and subscription succeed it is connected again with its backoff reset.\<close>

theorem hub_never_dead:
  assumes "hub_reach syms h"
  shows "hb_stopping h \<or> hb_started h
    \<or> (hb_timer h \<noteq> None
       \<and> (let h' = hub_timerFired True True r h in hb_started h' \<and> hb_connection h' \<and> hb_attempt h' = 0
            \<and> hb_timer h' = None))"
proof -
  have inv: "hub_inv h" by (rule hub_reach_inv[OF assms])
  have "let h' = hub_timerFired True True r h in hb_started h' \<and> hb_connection h' \<and> hb_attempt h' = 0
            \<and> hb_timer h' = None"
    if t: "hb_timer h \<noteq> None" and ns: "\<not> hb_stopping h"
  proof -
    have "\<not> hb_started h" using inv t by (simp add: hub_inv_def)
    then show ?thesis
      using ns unfolding hub_timerFired_armed[OF t] by (simp add: rebuild_def hub_start_def Let_def)
  qed
  then show ?thesis using inv by (auto simp: hub_inv_def)
qed

lemma hub_never_dead_witness:
  "(let h = hub_onclose 0 (fst (hub_start True True (new_hub (Some [''XAUUSD''])))) in
     hb_stopping h \<or> hb_started h \<or> (hb_timer h \<noteq> None
       \<and> (let h' = hub_timerFired True True 0 h in hb_started h' \<and> hb_connection h' \<and> hb_attempt h' = 0
            \<and> hb_timer h' = None)))"
proof -
  have "hub_reach (Some [''XAUUSD'']) (fst (hub_start True True (new_hub (Some [''XAUUSD'']))))"
    by (rule hub_reach.started) (simp add: hub_exec Let_def)
  from hub_reach.step[OF this, of "Hub_Closed 0"]
  have "hub_reach (Some [''XAUUSD'']) (hub_onclose 0 (fst (hub_start True True (new_hub (Some [''XAUUSD''])))))"
    by simp
  from hub_never_dead[OF this, of 0] show ?thesis by (simp only: Let_def)
qed

text \<open>The rebuild delay is bounded whatever the number of failed attempts: between 1.5 and 75
  seconds, with the doubling backoff capped at a minute and a quarter of jitter either way.\<close>

theorem rebuild_delay_bounded:
  assumes "0 \<le> r" "r < 1" "\<not> hb_stopping h" "hb_timer h = None"
  shows "\<exists>d. hb_timer (scheduleReconnect r h) = Some d \<and> 1500 \<le> d \<and> d \<le> 75000"
  using jitteredDelay_bounds[OF assms(1,2) rebuildBase_bounds] assms(3,4)
  by (simp add: scheduleReconnect_def)

lemma rebuild_delay_bounded_witness:
  "\<exists>d. hb_timer (scheduleReconnect 0 (new_hub None)) = Some d \<and> 1500 \<le> d \<and> d \<le> 75000"
  by (rule rebuild_delay_bounded) (simp_all add: new_hub_def)

text \<open>What a rebuild subscribes to. A successful rebuild asks the new connection for the symbols
  of the constructor's array; that array follows every addition until the first removal. From then
  on it is frozen: any later change of subscriptions leaves the symbols the next rebuild asks for
  as they were, so removed symbols come back and added ones are lost.\<close>

theorem rebuild_subscriptions:
  assumes "hub_inv h" "\<not> hb_stopping h" "hb_timer h \<noteq> None" "hb_opts h = Some xs"
  shows "hb_subscribed (hub_timerFired True True r h) = xs
    \<and> (if hb_aliased h then hb_subscribed h = xs
       else hb_subscribed (hub_timerFired True True r (updateSubscriptions ok added removed h)) = xs)"
proof -
  have restored: "hb_subscribed (hub_timerFired True True r g) = xs"
    if "hb_timer g \<noteq> None" "\<not> hb_stopping g" "\<not> hb_started g" "hb_opts g = Some xs" for g :: hub
    using that(2-) unfolding hub_timerFired_armed[OF that(1)] by (simp add: rebuild_def hub_start_def Let_def)
  have "\<not> hb_started h" using assms(1,3) by (simp add: hub_inv_def)
  moreover have "hb_opts (updateSubscriptions ok added removed h) = Some xs" if "\<not> hb_aliased h"
    using assms(4) that by (simp add: updateSubscriptions_def update_added_def update_removed_def Let_def)
  ultimately show ?thesis
    using assms restored[of h] restored[of "updateSubscriptions ok added removed h"]
    by (auto simp: hub_inv_def)
qed

lemma rebuild_subscriptions_witness:
  "(let h0 = hub_onclose 0 (fst (hub_start True True (new_hub (Some [''XAUUSD'']))));
        h1 = updateSubscriptions True [] [''XAUUSD''] h0;
        h2 = updateSubscriptions True [''EURUSD''] [] h1
    in hb_subscribed h2 = [''EURUSD''] \<and> hb_subscribed (hub_timerFired True True 0 h2) = [''XAUUSD''])"
proof -
  define h2 where "h2 = updateSubscriptions True [''EURUSD''] [] (updateSubscriptions True [] [''XAUUSD'']
    (hub_onclose 0 (fst (hub_start True True (new_hub (Some [''XAUUSD'']))))))"
  have h2: "hb_subscribed h2 = [''EURUSD'']" "\<not> hb_stopping h2" "hb_timer h2 \<noteq> None" "hb_opts h2 = Some [''XAUUSD'']"
    "hub_inv h2"
    by (simp_all add: h2_def hub_exec hub_inv_def Let_def)
  have "hb_subscribed (hub_timerFired True True 0 h2) = [''XAUUSD'']"
    using rebuild_subscriptions[OF h2(5,2,3,4)] by blast
  with h2(1) show ?thesis unfolding h2_def Let_def by simp
qed

end
