(* ===== verification/Symbol_Manager.thy ===== *)
theory Symbol_Manager
  imports Hub_Consumer
begin

text \<open>
  Which symbols the worker streams: the symbol manager that polls the watchlists
  (\<open>apps/worker/src/symbol-manager.ts\<close>), the raw WebSocket consumer with its reconnect loop
  (\<open>base-ws-consumer.ts\<close>, \<open>binance/consumer.ts\<close>) and the wiring of the manager's events to the
  two consumers in \<open>runWorker\<close> (\<open>index.ts\<close>). A JavaScript \<open>Set\<close> is a list without duplicates in
  insertion order.
\<close>

section \<open>The symbol manager\<close>

record symbol_change =
  sc_added :: "string list"
  sc_removed :: "string list"

record symbol_manager =
  sm_symbols :: "string list"
  sm_consecutiveFailures :: nat

definition set_of_list :: "string list \<Rightarrow> string list" where
  "set_of_list xs = rev (remdups (rev xs))"

definition hasSetChanged :: "string list \<Rightarrow> string list \<Rightarrow> bool" where
  "hasSetChanged a b \<longleftrightarrow> length a \<noteq> length b \<or> list_ex (\<lambda>x. x \<notin> set b) a"

definition is_biquote :: "string \<Rightarrow> bool" where
  "is_biquote s \<longleftrightarrow> symbolCategory s = Some Forex \<or> symbolCategory s = Some Gold"

text \<open>In the list of active symbols a symbol without category counts as forex.\<close>

definition active_category :: "string \<Rightarrow> symbolCategory_t" where
  "active_category s = (case symbolCategory s of Some c \<Rightarrow> c | None \<Rightarrow> Forex)"

definition binance_name :: "string \<Rightarrow> string" where
  "binance_name s = (case getSymbolDefinition s of
     Inr d \<Rightarrow> (case sd_binance d of Some b \<Rightarrow> b | None \<Rightarrow> s) | Inl _ \<Rightarrow> s)"

definition diff_added :: "string list \<Rightarrow> string list \<Rightarrow> string list" where
  "diff_added old new = filter (\<lambda>s. s \<notin> set old) new"

definition diff_change :: "string list \<Rightarrow> string list \<Rightarrow> symbol_change" where
  "diff_change old new = \<lparr>sc_added = diff_added old new, sc_removed = diff_added new old\<rparr>"

definition wanted_symbols :: "string list \<Rightarrow> string list" where
  "wanted_symbols db = (let known = set_of_list (filter isKnownSymbol db) in
     if known = [] then DEFAULT_WATCHLIST_SYMBOLS else known)"

text \<open>The three events of a poll: \<open>symbolsChanged\<close>, \<open>biquoteChanged\<close>, \<open>binanceChanged\<close>.\<close>

record poll_events =
  pe_all :: symbol_change
  pe_biquote :: symbol_change
  pe_binance :: symbol_change

definition poll_diff :: "string list \<Rightarrow> string list \<Rightarrow> poll_events" where
  "poll_diff old new = \<lparr>pe_all = diff_change old new,
     pe_biquote = diff_change (filter is_biquote old)
       (filter (\<lambda>s. active_category s = Forex \<or> active_category s = Gold) new),
     pe_binance = diff_change (map binance_name (filter (\<lambda>s. symbolCategory s = Some Crypto) old))
       (map binance_name (filter (\<lambda>s. active_category s = Crypto) new))\<rparr>"

text \<open>\<open>poll\<close>; \<open>None\<close> is a failed database read.\<close>

definition sm_poll :: "string list option \<Rightarrow> symbol_manager \<Rightarrow> symbol_manager \<times> poll_events option" where
  "sm_poll db m =
     (case db of
        None \<Rightarrow> (m\<lparr>sm_consecutiveFailures := sm_consecutiveFailures m + 1\<rparr>, None)
      | Some symbols \<Rightarrow>
          (let new = wanted_symbols symbols in
           if hasSetChanged (sm_symbols m) new
           then (m\<lparr>sm_symbols := new, sm_consecutiveFailures := 0\<rparr>, Some (poll_diff (sm_symbols m) new))
           else (m, None)))"

section \<open>Wiring to the hub consumer\<close>

text \<open>
  The handlers of \<open>symbolsChanged\<close> and \<open>biquoteChanged\<close> both update the hub consumer, and do
  nothing while it is not started. The handlers run one after the other without waiting for the
  calls on the hub, so both additions are pushed before either removal is applied; an empty list
  of additions does not await anything.
\<close>

definition deliver_changes :: "bool \<Rightarrow> bool \<Rightarrow> poll_events \<Rightarrow> hub \<Rightarrow> hub" where
  "deliver_changes ok1 ok2 ev h =
     (if \<not> hb_started h then h
      else
        let a1 = sc_added (pe_all ev); r1 = sc_removed (pe_all ev);
            a2 = sc_added (pe_biquote ev); r2 = sc_removed (pe_biquote ev);
            h1 = (if a1 = [] then update_removed r1 h else update_added a1 h);
            h2 = (if a2 = [] then update_removed r2 h1 else update_added a2 h1);
            h3 = (if a1 \<noteq> [] \<and> ok1 then update_removed r1 h2 else h2)
        in if a2 \<noteq> [] \<and> ok2 then update_removed r2 h3 else h3)"

text \<open>
  The worker's streams: \<open>runWorker\<close> builds the hub consumer with an empty array of symbols, starts
  it and then the manager. Afterwards polls of the manager and events of the hub alternate; the
  two flags of a poll are the outcomes of the calls its handlers make on the hub. Until a rebuild
  has succeeded the consumer is not started, so a poll that falls between the calls of a rebuild
  has the effect of one before it.
\<close>

datatype stream_event =
    S_Poll "string list option" bool bool
  | S_Hub hub_event

definition streams_start :: "symbol_manager \<times> hub" where
  "streams_start = (\<lparr>sm_symbols = [], sm_consecutiveFailures = 0\<rparr>, fst (hub_start True True (new_hub (Some []))))"

fun stream_step :: "stream_event \<Rightarrow> symbol_manager \<times> hub \<Rightarrow> symbol_manager \<times> hub" where
  "stream_step (S_Poll db ok1 ok2) (m, h) = (case sm_poll db m of
     (m', None) \<Rightarrow> (m', h)
   | (m', Some ev) \<Rightarrow> (m', deliver_changes ok1 ok2 ev h))"
| "stream_step (S_Hub e) (m, h) = (m, hub_step e h)"

section \<open>The raw WebSocket consumer\<close>

datatype ws_state = Ws_Connecting | Ws_Open | Ws_Closing | Ws_Closed

record ws_consumer =
  ws_symbols :: "string list"
  ws_socket :: "ws_state option"
  ws_destroyed :: bool
  ws_attempt :: nat
  ws_timers :: nat              \<comment> \<open>reconnect timers that will fire\<close>
  ws_heartbeat :: bool
  ws_lastMessageAt :: ms

definition WS_RECONNECT_DELAYS :: "ms list" where
  "WS_RECONNECT_DELAYS = [1000, 2000, 5000, 10000, 30000]"

definition ws_reconnect_delay :: "nat \<Rightarrow> ms" where
  "ws_reconnect_delay attempt = WS_RECONNECT_DELAYS ! min attempt (length WS_RECONNECT_DELAYS - 1)"

definition new_ws :: "string list \<Rightarrow> ws_consumer" where
  "new_ws syms = \<lparr>ws_symbols = syms, ws_socket = None, ws_destroyed = False, ws_attempt = 0,
     ws_timers = 0, ws_heartbeat = False, ws_lastMessageAt = 0\<rparr>"

definition ws_buildUrl :: "string \<Rightarrow> string list \<Rightarrow> string" where
  "ws_buildUrl base symbols = (if symbols = [] then ''''
     else base @ ''/stream?streams=''
       @ js_join (CHR ''/'') (map (\<lambda>s. toLowerCase s @ ''@kline_1m'') symbols))"

definition ws_scheduleReconnect :: "ws_consumer \<Rightarrow> ws_consumer" where
  "ws_scheduleReconnect c = (if ws_destroyed c then c
     else c\<lparr>ws_attempt := ws_attempt c + 1, ws_timers := ws_timers c + 1\<rparr>)"

text \<open>\<open>connect\<close>: without symbols there is no URL and nothing happens; \<open>ok\<close> is false when creating
  the socket throws.\<close>

definition ws_connect :: "bool \<Rightarrow> ws_consumer \<Rightarrow> ws_consumer" where
  "ws_connect ok c =
     (if ws_destroyed c then c
      else if ws_symbols c = [] then c
      else if ok then c\<lparr>ws_socket := Some Ws_Connecting\<rparr>
      else ws_scheduleReconnect c)"

definition ws_onOpen :: "ms \<Rightarrow> ws_consumer \<Rightarrow> ws_consumer" where
  "ws_onOpen now c = c\<lparr>ws_socket := Some Ws_Open, ws_attempt := 0, ws_heartbeat := True,
     ws_lastMessageAt := now\<rparr>"

definition ws_onMessage :: "ms \<Rightarrow> ws_consumer \<Rightarrow> ws_consumer" where
  "ws_onMessage now c = c\<lparr>ws_lastMessageAt := now\<rparr>"

definition ws_onClose :: "ws_consumer \<Rightarrow> ws_consumer" where
  "ws_onClose c = (let c1 = c\<lparr>ws_socket := Some Ws_Closed, ws_heartbeat := False\<rparr> in
     if \<not> ws_destroyed c1 then ws_scheduleReconnect c1 else c1)"

text \<open>\<open>close\<close> on a socket that is already closing or closed does nothing.\<close>

definition ws_close :: "ws_consumer \<Rightarrow> ws_consumer" where
  "ws_close c = (if ws_socket c = Some Ws_Connecting \<or> ws_socket c = Some Ws_Open
     then c\<lparr>ws_socket := Some Ws_Closing\<rparr> else c)"

definition ws_updateSubscriptions :: "string list \<Rightarrow> string list \<Rightarrow> ws_consumer \<Rightarrow> ws_consumer" where
  "ws_updateSubscriptions added removed c =
     (let c1 = c\<lparr>ws_symbols := filter (\<lambda>s. s \<notin> set removed) (set_of_list (ws_symbols c @ added))\<rparr> in
      if ws_socket c1 \<noteq> None \<and> \<not> ws_destroyed c1 then ws_close c1 else c1)"

text \<open>\<open>sendHeartbeat\<close>: a connection idle for ten minutes is closed.\<close>

definition ws_sendHeartbeat :: "ms \<Rightarrow> ws_consumer \<Rightarrow> ws_consumer" where
  "ws_sendHeartbeat now c = (if now - ws_lastMessageAt c > 10 * 60 * 1000 \<and> ws_socket c \<noteq> None
     then ws_close c else c)"

definition ws_stop :: "ws_consumer \<Rightarrow> ws_consumer" where
  "ws_stop c = c\<lparr>ws_destroyed := True, ws_timers := ws_timers c - 1, ws_heartbeat := False, ws_socket := None\<rparr>"

datatype ws_event =
    Ws_Opened ms | Ws_Message ms | Ws_WasClosed | Ws_Timer bool | Ws_Heartbeat ms
  | Ws_Update "string list" "string list" | Ws_Stop

text \<open>Events of the socket can happen only in the states that emit them; a closed socket emits
  nothing.\<close>

fun ws_step :: "ws_event \<Rightarrow> ws_consumer \<Rightarrow> ws_consumer" where
  "ws_step (Ws_Opened now) c = (if ws_socket c = Some Ws_Connecting then ws_onOpen now c else c)"
| "ws_step (Ws_Message now) c = (if ws_socket c = Some Ws_Open then ws_onMessage now c else c)"
| "ws_step Ws_WasClosed c =
     (if ws_socket c \<noteq> None \<and> ws_socket c \<noteq> Some Ws_Closed then ws_onClose c else c)"
| "ws_step (Ws_Timer ok) c = (if ws_timers c = 0 then c else ws_connect ok (c\<lparr>ws_timers := ws_timers c - 1\<rparr>))"
| "ws_step (Ws_Heartbeat now) c = (if ws_heartbeat c then ws_sendHeartbeat now c else c)"
| "ws_step (Ws_Update added removed) c = ws_updateSubscriptions added removed c"
| "ws_step Ws_Stop c = ws_stop c"

definition ws_run :: "ws_event list \<Rightarrow> ws_consumer \<Rightarrow> ws_consumer" where
  "ws_run evs c = foldl (\<lambda>c e. ws_step e c) c evs"

text \<open>\<open>handleMessage\<close> of the Binance consumer on a parsed kline message; \<open>parseFloat\<close> is the
  language's \<open>Number.parseFloat\<close>.\<close>

record kline =
  kl_s :: string
  kl_c :: string
  kl_T :: ms

definition kline_tick :: "(string \<Rightarrow> real) \<Rightarrow> kline option \<Rightarrow> normalized_tick option" where
  "kline_tick parseFloat msg = map_option (\<lambda>k. \<lparr>tk_symbol = kl_s k, tk_bid = parseFloat (kl_c k),
     tk_ask = parseFloat (kl_c k), tk_mid = parseFloat (kl_c k), tk_ts = kl_T k,
     tk_source = Binance_WS\<rparr>) msg"


section \<open>Lemmas on the manager\<close>

lemma set_of_list_set [simp]: "set (set_of_list xs) = set xs" "distinct (set_of_list xs)"
  by (simp_all add: set_of_list_def)

lemma set_of_list_Nil [simp]: "set_of_list xs = [] \<longleftrightarrow> xs = []"
  by (metis set_of_list_set(1) set_empty)

lemma wanted_symbols_distinct: "distinct (wanted_symbols db)"
  by (simp add: wanted_symbols_def Let_def DEFAULT_WATCHLIST_SYMBOLS_def)

lemma wanted_symbols_set:
  "set (wanted_symbols db) = (if \<exists>s\<in>set db. isKnownSymbol s then {s \<in> set db. isKnownSymbol s}
     else set DEFAULT_WATCHLIST_SYMBOLS)"
  by (auto simp: wanted_symbols_def Let_def filter_empty_conv)

lemma hasSetChanged_iff:
  assumes "distinct a" "distinct b"
  shows "hasSetChanged a b \<longleftrightarrow> set a \<noteq> set b"
proof -
  have "set a = set b" if "length a = length b" "set a \<subseteq> set b"
    using that assms by (metis card_subset_eq distinct_card finite_set)
  moreover have "length a = length b" if "set a = set b"
    using that assms by (metis distinct_card)
  ultimately show ?thesis
    by (auto simp: hasSetChanged_def list_ex_iff)
qed

lemma diff_added_set: "set (diff_added old new) = set new - set old"
  by (auto simp: diff_added_def)

lemma active_biquote:
  "active_category s = Forex \<or> active_category s = Gold \<longleftrightarrow> is_biquote s \<or> symbolCategory s = None"
  by (auto simp: active_category_def is_biquote_def split: option.splits)

definition sm_ok :: "symbol_manager \<Rightarrow> bool" where
  "sm_ok m \<longleftrightarrow> distinct (sm_symbols m)"

lemma sm_poll_ok: "sm_ok m \<Longrightarrow> sm_ok (fst (sm_poll db m))"
  by (auto simp: sm_ok_def sm_poll_def Let_def wanted_symbols_distinct split: option.splits)

text \<open>A poll that read the database leaves the wanted symbols, and reports the difference.\<close>

lemma sm_poll_read:
  assumes "sm_ok m" "sm_poll (Some db) m = (m', ev)"
  shows "set (sm_symbols m') = set (wanted_symbols db)"
    and "ev = (if set (sm_symbols m) = set (wanted_symbols db) then None
        else Some (poll_diff (sm_symbols m) (wanted_symbols db)))"
    and "ev = None \<Longrightarrow> m' = m"
  using assms hasSetChanged_iff[of "sm_symbols m" "wanted_symbols db"] wanted_symbols_distinct[of db]
  by (auto simp: sm_poll_def sm_ok_def Let_def split: if_splits)

lemma update_removed_set:
  "set (hb_subscribed (update_removed r h)) = set (hb_subscribed h) - set r"
  "hb_started (update_removed r h) = hb_started h"
  by (auto simp: update_removed_def)

lemma update_added_set:
  "set (hb_subscribed (update_added a h)) = set (hb_subscribed h) \<union> set a"
  "hb_started (update_added a h) = hb_started h"
  by (auto simp: update_added_def)

lemma deliver_changes_set:
  assumes "hb_started h"
    and "set (sc_added (pe_all ev)) \<inter> set (sc_removed (pe_all ev)) = {}"
    and "set (sc_added (pe_biquote ev)) \<inter> set (sc_removed (pe_all ev)) = {}"
    and "set (sc_added (pe_biquote ev)) \<inter> set (sc_removed (pe_biquote ev)) = {}"
  shows "set (hb_subscribed (deliver_changes True True ev h)) =
    (set (hb_subscribed h) \<union> set (sc_added (pe_all ev)) \<union> set (sc_added (pe_biquote ev)))
      - set (sc_removed (pe_all ev)) - set (sc_removed (pe_biquote ev))"
  using assms
  by (cases "sc_added (pe_all ev) = []"; cases "sc_added (pe_biquote ev) = []")
    (auto simp: deliver_changes_def Let_def update_removed_set update_added_set)

section \<open>Lemmas on the streams\<close>

definition stream_run :: "stream_event list \<Rightarrow> symbol_manager \<times> hub \<Rightarrow> symbol_manager \<times> hub" where
  "stream_run evs w = foldl (\<lambda>w e. stream_step e w) w evs"

text \<open>What the last successful poll of a run asks for.\<close>

definition db_wanted :: "string list \<Rightarrow> string set" where
  "db_wanted db = (if \<exists>s\<in>set db. isKnownSymbol s then {s \<in> set db. isKnownSymbol s}
     else set DEFAULT_WATCHLIST_SYMBOLS)"

definition wanted_after :: "string set \<Rightarrow> stream_event list \<Rightarrow> string set" where
  "wanted_after W evs = foldl (\<lambda>W e. case e of S_Poll (Some db) _ _ \<Rightarrow> db_wanted db | _ \<Rightarrow> W) W evs"

definition last_wanted :: "stream_event list \<Rightarrow> string set" where
  "last_wanted evs = wanted_after {} evs"

text \<open>The subscriptions that the calls sent to the hub leave there.\<close>

definition hub_side :: "hub_call list \<Rightarrow> string set" where
  "hub_side calls = foldl (\<lambda>S c. case c of Connect_Hub \<Rightarrow> {} | Subscribe xs \<Rightarrow> S \<union> set xs
     | Unsubscribe xs \<Rightarrow> S - set xs) {} calls"

fun lossless_step :: "stream_event \<Rightarrow> symbol_manager \<times> hub \<Rightarrow> bool" where
  "lossless_step (S_Poll db ok1 ok2) (m, h) = (snd (sm_poll db m) = None \<or> hb_started h \<and> ok1 \<and> ok2)"
| "lossless_step (S_Hub (Rebuild_Timer c s r)) (m, h) = hb_aliased h"
| "lossless_step (S_Hub (Update_Symbols ok a r)) (m, h) = False"
| "lossless_step (S_Hub e) (m, h) = True"

fun lossless :: "stream_event list \<Rightarrow> symbol_manager \<times> hub \<Rightarrow> bool" where
  "lossless [] w = True"
| "lossless (e # evs) w = (lossless_step e w \<and> lossless evs (stream_step e w))"

definition stream_inv :: "symbol_manager \<times> hub \<Rightarrow> bool" where
  "stream_inv w \<longleftrightarrow> sm_ok (fst w) \<and> hub_inv (snd w)
     \<and> set (hb_subscribed (snd w)) = set (sm_symbols (fst w))
     \<and> (hb_started (snd w) \<longrightarrow> hub_side (hb_calls (snd w)) = set (hb_subscribed (snd w)))"

lemma hub_side_calls [simp]:
  "hub_side (calls @ [Connect_Hub]) = {}"
  "hub_side (calls @ [Subscribe xs]) = hub_side calls \<union> set xs"
  "hub_side (calls @ [Unsubscribe xs]) = hub_side calls - set xs"
  by (simp_all add: hub_side_def)

text \<open>The two halves of an update keep the consumer's and the hub's view equal.\<close>

definition synced :: "hub \<Rightarrow> bool" where
  "synced h \<longleftrightarrow> hub_inv h \<and> hb_started h \<and> hub_side (hb_calls h) = set (hb_subscribed h)"

lemma synced_update:
  "synced h \<Longrightarrow> synced (update_added a h)" "synced h \<Longrightarrow> synced (update_removed a h)"
  by (auto simp: synced_def hub_inv_def update_added_def update_removed_def hub_subscribe_def hub_unsubscribe_def)

lemma synced_deliver: "synced h \<Longrightarrow> synced (deliver_changes ok1 ok2 ev h)"
  by (simp add: deliver_changes_def Let_def synced_update)

lemma deliver_poll_diff:
  assumes "hb_started h" "set (hb_subscribed h) = set old"
  shows "set (hb_subscribed (deliver_changes True True (poll_diff old new) h)) = set new"
  unfolding assms(2)
  by (subst deliver_changes_set[OF assms(1)])
    (auto simp: poll_diff_def diff_change_def diff_added_set active_biquote is_biquote_def assms(2))

lemma stream_poll_inv:
  assumes "stream_inv (m, h)" "lossless_step (S_Poll db ok1 ok2) (m, h)"
  shows "stream_inv (stream_step (S_Poll db ok1 ok2) (m, h))"
proof -
  obtain m' ev where p: "sm_poll db m = (m', ev)" by fastforce
  have ok: "sm_ok m'" using sm_poll_ok[of m db] assms(1) p by (simp add: stream_inv_def)
  show ?thesis
  proof (cases ev)
    case None
    then have "sm_symbols m' = sm_symbols m"
      using p by (auto simp: sm_poll_def Let_def split: option.splits if_splits)
    with None p ok assms(1) show ?thesis by (simp add: stream_inv_def)
  next
    case (Some e)
    then obtain d where d: "db = Some d" using p by (cases db) (auto simp: sm_poll_def)
    have e: "e = poll_diff (sm_symbols m) (wanted_symbols d)" "set (sm_symbols m') = set (wanted_symbols d)"
      using sm_poll_read(1,2)[OF _ p[unfolded d]] assms(1) Some by (auto simp: stream_inv_def split: if_splits)
    have h: "hb_started h" "ok1" "ok2" using assms(2) p Some by auto
    have "synced h" using assms(1) h by (simp add: stream_inv_def synced_def)
    from synced_deliver[OF this, of True True e] deliver_poll_diff[OF h(1), of "sm_symbols m" "wanted_symbols d"]
    show ?thesis using p Some ok e h assms(1) by (simp add: stream_inv_def synced_def)
  qed
qed

lemma hub_rebuilt:
  assumes "hub_inv h" "hb_aliased h" "hb_started h \<longrightarrow> hub_side (hb_calls h) = set (hb_subscribed h)"
  shows "hb_subscribed (hub_timerFired c s r h) = hb_subscribed h"
    and "hb_started (hub_timerFired c s r h) \<longrightarrow> hub_side (hb_calls (hub_timerFired c s r h)) = set (hb_subscribed h)"
proof -
  have "hb_subscribed (hub_timerFired c s r h) = hb_subscribed h
      \<and> (hb_started (hub_timerFired c s r h) \<longrightarrow> hub_side (hb_calls (hub_timerFired c s r h)) = set (hb_subscribed h))"
  proof (cases "hb_timer h")
    case None
    then show ?thesis using assms(3) by (simp add: hub_timerFired_def)
  next
    case (Some t)
    then have f: "\<not> hb_started h" "\<not> hb_stopping h" "hb_opts h = Some (hb_subscribed h)"
      using assms(1,2) by (auto simp: hub_inv_def)
    then show ?thesis
      by (cases c; cases s; cases "hb_subscribed h = []")
        (simp_all add: hub_timerFired_def Some rebuild_def hub_start_def scheduleReconnect_def Let_def hub_subscribe_def hub_side_def)
  qed
  then show "hb_subscribed (hub_timerFired c s r h) = hb_subscribed h"
    and "hb_started (hub_timerFired c s r h) \<longrightarrow> hub_side (hb_calls (hub_timerFired c s r h)) = set (hb_subscribed h)"
    by blast+
qed

lemma stream_hub_inv:
  assumes "stream_inv (m, h)" "lossless_step (S_Hub e) (m, h)"
  shows "stream_inv (m, hub_step e h)"
proof (cases e)
  case (Rebuild_Timer c s r)
  then show ?thesis
    using assms hub_rebuilt[of h c s r] hub_inv_step[of h e] by (simp add: stream_inv_def)
next
  case (Hub_Closed r)
  then show ?thesis
    using assms hub_inv_step[of h e] by (simp add: stream_inv_def hub_onclose_def scheduleReconnect_def Let_def)
next
  case Hub_Reconnected
  then show ?thesis
    using assms hub_inv_step[of h e] by (simp add: stream_inv_def hub_onreconnected_def hub_subscribe_def)
next
  case Hub_Stop
  then show ?thesis
    using assms hub_inv_step[of h e] by (auto simp: stream_inv_def hub_stop_def hub_inv_def Let_def)
qed (use assms in simp)

lemma stream_step_inv: "stream_inv w \<Longrightarrow> lossless_step e w \<Longrightarrow> stream_inv (stream_step e w)"
  using stream_poll_inv stream_hub_inv by (cases e; cases w) auto

lemma streams_start_inv: "stream_inv streams_start"
  by (simp add: stream_inv_def streams_start_def sm_ok_def hub_exec hub_inv_def hub_side_def Let_def)

lemma stream_run_Cons: "stream_run (e # evs) w = stream_run evs (stream_step e w)"
  by (simp add: stream_run_def)

lemma stream_run_inv: "stream_inv w \<Longrightarrow> lossless evs w \<Longrightarrow> stream_inv (stream_run evs w)"
proof (induction evs arbitrary: w)
  case Nil
  then show ?case by (simp add: stream_run_def)
next
  case (Cons e evs)
  then show ?case using stream_step_inv[of w e] by (simp add: stream_run_Cons)
qed

lemma stream_step_manager:
  assumes "sm_ok (fst w)"
  shows "sm_ok (fst (stream_step e w))
    \<and> set (sm_symbols (fst (stream_step e w))) = wanted_after (set (sm_symbols (fst w))) [e]"
proof (cases e)
  case (S_Poll db ok1 ok2)
  obtain m h where w: "w = (m, h)" by fastforce
  obtain m' ev where p: "sm_poll db m = (m', ev)" by fastforce
  have "fst (stream_step e w) = m'" using w p S_Poll by (simp split: option.splits)
  moreover have "sm_ok m'" using sm_poll_ok[of m db] assms p w by simp
  moreover have "set (sm_symbols m') = wanted_after (set (sm_symbols m)) [e]"
  proof (cases db)
    case None
    then show ?thesis using p S_Poll by (auto simp: sm_poll_def wanted_after_def)
  next
    case (Some d)
    then show ?thesis
      using sm_poll_read(1)[OF _ p[unfolded Some]] assms w S_Poll
      by (simp add: wanted_after_def db_wanted_def wanted_symbols_set)
  qed
  ultimately show ?thesis by (simp add: w)
next
  case (S_Hub e')
  then show ?thesis using assms by (cases w) (simp add: wanted_after_def)
qed

lemma stream_run_manager:
  "sm_ok (fst w) \<Longrightarrow> set (sm_symbols (fst (stream_run evs w))) = wanted_after (set (sm_symbols (fst w))) evs"
proof (induction evs arbitrary: w)
  case Nil
  then show ?case by (simp add: stream_run_def wanted_after_def)
next
  case (Cons e evs)
  then show ?case
    using stream_step_manager[of w e] by (simp add: stream_run_Cons wanted_after_def)
qed

section \<open>Lemmas on the WebSocket consumer\<close>

definition ws_active :: "ws_consumer \<Rightarrow> bool" where
  "ws_active c \<longleftrightarrow> ws_socket c \<noteq> None \<and> ws_socket c \<noteq> Some Ws_Closed"

text \<open>At most one of a live socket and an armed timer, and at most one timer.\<close>

definition ws_single :: "ws_consumer \<Rightarrow> bool" where
  "ws_single c \<longleftrightarrow> ws_timers c \<le> 1 \<and> (ws_active c \<longrightarrow> ws_timers c = 0)"

definition ws_idle :: "ws_consumer \<Rightarrow> bool" where
  "ws_idle c \<longleftrightarrow> \<not> ws_active c \<and> ws_timers c = 0"

lemmas ws_ops = ws_connect_def ws_scheduleReconnect_def ws_onOpen_def ws_onMessage_def ws_onClose_def
  ws_close_def ws_updateSubscriptions_def ws_sendHeartbeat_def ws_stop_def

lemma ws_single_step: "ws_single c \<Longrightarrow> ws_single (ws_step e c)"
  by (cases e) (auto simp: ws_ops ws_single_def ws_active_def Let_def)

lemma ws_idle_step: "ws_idle c \<Longrightarrow> ws_idle (ws_step e c)"
  by (cases e) (auto simp: ws_ops ws_idle_def ws_active_def Let_def)

lemma ws_run_Cons: "ws_run (e # evs) c = ws_run evs (ws_step e c)"
  by (simp add: ws_run_def)

text \<open>Runs in which the list of symbols never becomes empty.\<close>

primrec ws_fed :: "ws_event list \<Rightarrow> ws_consumer \<Rightarrow> bool" where
  "ws_fed [] c = (ws_symbols c \<noteq> [])"
| "ws_fed (e # evs) c = (ws_symbols c \<noteq> [] \<and> ws_fed evs (ws_step e c))"

lemma ws_live_step:
  "ws_symbols c \<noteq> [] \<Longrightarrow> ws_destroyed c \<or> \<not> ws_idle c \<Longrightarrow> ws_destroyed (ws_step e c) \<or> \<not> ws_idle (ws_step e c)"
  by (cases e) (auto simp: ws_ops ws_idle_def ws_active_def Let_def)

lemma ws_live_run:
  "ws_fed evs c \<Longrightarrow> ws_destroyed c \<or> \<not> ws_idle c \<Longrightarrow> ws_destroyed (ws_run evs c) \<or> \<not> ws_idle (ws_run evs c)"
proof (induction evs arbitrary: c)
  case Nil
  then show ?case by (simp add: ws_run_def)
next
  case (Cons e evs)
  then show ?case using ws_live_step[of c e] by (simp add: ws_run_Cons)
qed

lemma ws_single_run: "ws_single c \<Longrightarrow> ws_single (ws_run evs c)"
  unfolding ws_run_def by (rule foldl_invariant) (simp_all add: ws_single_step)

lemma ws_idle_run: "ws_idle c \<Longrightarrow> ws_idle (ws_run evs c)"
  unfolding ws_run_def by (rule foldl_invariant) (simp_all add: ws_idle_step)

section \<open>Properties\<close>



text \<open>A change of the watchlists while the hub consumer is not started is lost: the manager
  takes the new symbols over, the handlers do nothing, and the next poll of the same database
  finds no difference, so the consumer is never told.\<close>

theorem change_during_outage_lost:
  assumes "sm_ok m" "\<not> hb_started h" "sm_poll (Some db) m = (m', Some ev)"
  shows "deliver_changes ok1 ok2 ev h = h \<and> set (sm_symbols m') \<noteq> set (sm_symbols m)
    \<and> sm_poll (Some db) m' = (m', None)"
proof -
  have ok: "sm_ok m'" using sm_poll_ok[OF assms(1), of "Some db"] assms(3) by simp
  obtain m'' ev' where p: "sm_poll (Some db) m' = (m'', ev')" by fastforce
  note r1 = sm_poll_read[OF assms(1,3)] and r2 = sm_poll_read[OF ok p]
  have "ev' = None" using r1(1) r2(2) by simp
  then show ?thesis
    using assms(2) p r1(1,2) r2(3) by (auto simp: deliver_changes_def split: if_splits)
qed

lemma change_during_outage_lost_witness:
  "deliver_changes True True (poll_diff [] DEFAULT_WATCHLIST_SYMBOLS) (new_hub (Some [])) = new_hub (Some [])"
proof -
  have p: "sm_poll (Some []) \<lparr>sm_symbols = [], sm_consecutiveFailures = 0\<rparr>
      = (\<lparr>sm_symbols = DEFAULT_WATCHLIST_SYMBOLS, sm_consecutiveFailures = 0\<rparr>,
         Some (poll_diff [] DEFAULT_WATCHLIST_SYMBOLS))"
    by (simp add: sm_poll_def Let_def wanted_symbols_def set_of_list_def hasSetChanged_def DEFAULT_WATCHLIST_SYMBOLS_def)
  show ?thesis
    using change_during_outage_lost[OF _ _ p, of "new_hub (Some [])" True True]
    by (simp add: sm_ok_def new_hub_def)
qed

text \<open>The WebSocket consumer stays connected or reconnecting, once: in every run of socket
  events, timers, heartbeats and subscription updates that never empties its list of symbols, a
  consumer that was not stopped has either one live socket and no timer or exactly one armed
  reconnect timer.\<close>

theorem ws_connected_or_reconnecting:
  assumes "syms \<noteq> []" "ws_fed evs (ws_connect ok (new_ws syms))"
    "\<not> ws_destroyed (ws_run evs (ws_connect ok (new_ws syms)))"
  shows "let c = ws_run evs (ws_connect ok (new_ws syms)) in
    (if ws_active c then ws_timers c = 0 else ws_timers c = 1)"
proof -
  define c0 where "c0 = ws_connect ok (new_ws syms)"
  have "ws_single c0" "\<not> ws_idle c0"
    using assms(1) by (auto simp: c0_def ws_connect_def new_ws_def ws_single_def ws_idle_def ws_active_def ws_scheduleReconnect_def)
  with ws_single_run[of c0 evs] ws_live_run[of evs c0] assms(2,3) show ?thesis
    by (auto simp: c0_def[symmetric] ws_single_def ws_idle_def Let_def)
qed

lemma ws_connected_or_reconnecting_witness:
  "let c = ws_run [Ws_Opened 0, Ws_Update [''ETHUSDT''] [], Ws_WasClosed] (ws_connect True (new_ws [''BTCUSDT''])) in
    (if ws_active c then ws_timers c = 0 else ws_timers c = 1)"
  by (rule ws_connected_or_reconnecting)
    (simp_all add: ws_run_def ws_ops new_ws_def set_of_list_def Let_def)

text \<open>A consumer that once found no symbols to connect to never connects again: no later
  subscription update, however many symbols it adds, nor any other event starts a connection.\<close>

theorem ws_without_symbols_stays_down:
  "ws_idle (ws_run evs (ws_connect ok (new_ws [])))"
  by (rule ws_idle_run) (simp add: ws_idle_def ws_active_def ws_connect_def new_ws_def)

end
