(* ===== verification/Cron_Jobs.thy ===== *)
theory Cron_Jobs
  imports Js_Map Contracts
begin

text \<open>
  Scheduled jobs of the worker: the job registry (\<open>apps/worker/src/jobs/index.ts\<close>), the daily
  idempotency lock over the table \<open>cron_runs\<close> (\<open>cron-lock.ts\<close>), the in-process guards and the
  start-up clean-up of the scheduler (\<open>scheduler.ts\<close>) and the partition of tenants over worker
  instances (\<open>tenant-router.ts\<close>). The table is a map from job and UTC day to the row; each SQL
  statement is one atomic step. A run of a job between its begin and its end is an entry of
  \<open>sd_active\<close> that carries the lock it obtained.
\<close>

section \<open>The registry\<close>

record job_registration =
  jr_name :: string
  jr_schedule :: "string option"

definition JOBS :: "job_registration list" where
  "JOBS = map (\<lambda>(n, s). \<lparr>jr_name = n, jr_schedule = s\<rparr>)
    [(''alerts'', Some ''* * * * *''), (''embedding-backfill'', Some ''0 */6 * * *''),
     (''briefings'', Some ''*/5 * * * *''), (''snapshots'', Some ''5 0 * * *''),
     (''cot'', Some ''0 22 * * 5''), (''fred-actuals'', Some ''30 1 * * *''),
     (''weekly-review'', Some ''0 18 * * 0''), (''resonance-sync'', Some ''0 23 * * *''),
     (''multi-agent-analysis'', None), (''budget-recovery'', Some ''*/10 * * * *''),
     (''persistence-recovery'', Some ''* * * * *''), (''retention'', Some ''15 3 * * *''),
     (''metrics-flush'', Some ''* * * * *''), (''dataset-export'', Some ''30 3 * * *'')]"

definition isKnownJob :: "string \<Rightarrow> bool" where
  "isKnownJob name \<longleftrightarrow> name \<in> set (map jr_name JOBS)"

definition SKIP_DAILY_LOCK :: "string list" where
  "SKIP_DAILY_LOCK = [''alerts'', ''briefings'', ''embedding-backfill'', ''multi-agent-analysis'',
     ''budget-recovery'', ''persistence-recovery'', ''metrics-flush'']"

text \<open>The jobs \<open>startScheduler\<close> registers with cron.\<close>

definition cron_registered :: "(string \<times> string) list" where
  "cron_registered = concat (map (\<lambda>j. case jr_schedule j of None \<Rightarrow> [] | Some s \<Rightarrow> [(jr_name j, s)]) JOBS)"

section \<open>The daily lock\<close>

datatype cron_status = Cron_Started | Cron_Done | Cron_Error

record cron_run =
  cr_status :: cron_status
  cr_startedAt :: ms
  cr_finishedAt :: "ms option"
  cr_note :: "string option"

type_synonym cron_key = "string \<times> int"   \<comment> \<open>job and UTC day\<close>
type_synonym cron_table = "(cron_key, cron_run) js_map"

definition LOCK_TTL_MS :: ms where
  "LOCK_TTL_MS = 2 * 60 * 60 * 1000"

text \<open>The \<open>UPDATE\<close> that takes over a stale row; the flag says whether a row was returned.\<close>

definition reclaim_stale :: "cron_key \<Rightarrow> ms \<Rightarrow> cron_table \<Rightarrow> cron_table \<times> bool" where
  "reclaim_stale k now db =
     (case js_get db k of None \<Rightarrow> (db, False)
      | Some r \<Rightarrow> if cr_status r = Cron_Started \<and> cr_startedAt r < now - LOCK_TTL_MS
          then (js_set k \<lparr>cr_status = Cron_Started, cr_startedAt = now, cr_finishedAt = None,
                  cr_note = Some ''reclaimed stale lock''\<rparr> db, True)
          else (db, False))"

text \<open>The \<open>INSERT ... ON CONFLICT DO NOTHING\<close>.\<close>

definition insert_run :: "cron_key \<Rightarrow> ms \<Rightarrow> cron_table \<Rightarrow> cron_table \<times> bool" where
  "insert_run k now db =
     (if js_has db k then (db, False)
      else (js_set k \<lparr>cr_status = Cron_Started, cr_startedAt = now, cr_finishedAt = None, cr_note = None\<rparr> db,
            True))"

definition lock_row :: "cron_key \<Rightarrow> ms \<Rightarrow> cron_table \<Rightarrow> cron_table \<times> bool" where
  "lock_row k now db =
     (case reclaim_stale k now db of (db', True) \<Rightarrow> (db', True) | (_, False) \<Rightarrow> insert_run k now db)"

text \<open>\<open>acquireCronLock\<close>: the lock handle is the key of its row.\<close>

definition acquireCronLock :: "string \<Rightarrow> ms \<Rightarrow> cron_table \<Rightarrow> cron_table \<times> cron_key option" where
  "acquireCronLock jobName now db =
     (case lock_row (jobName, utcDay now) now db of
        (db', ok) \<Rightarrow> (db', if ok then Some (jobName, utcDay now) else None))"

text \<open>The two methods of the handle; the update is by key only.\<close>

definition lock_done :: "cron_key \<Rightarrow> string option \<Rightarrow> ms \<Rightarrow> cron_table \<Rightarrow> cron_table" where
  "lock_done k note now db =
     (case js_get db k of None \<Rightarrow> db
      | Some r \<Rightarrow> js_set k (r\<lparr>cr_status := Cron_Done, cr_finishedAt := Some now,
                              cr_note := map_option (take 500) note\<rparr>) db)"

definition lock_fail :: "cron_key \<Rightarrow> string \<Rightarrow> ms \<Rightarrow> cron_table \<Rightarrow> cron_table" where
  "lock_fail k message now db =
     (case js_get db k of None \<Rightarrow> db
      | Some r \<Rightarrow> js_set k (r\<lparr>cr_status := Cron_Error, cr_finishedAt := Some now,
                              cr_note := Some (take 500 message)\<rparr>) db)"

text \<open>The start-up clean-up of all rows that have been running for more than five minutes.\<close>

definition cleanupStaleCronRuns :: "ms \<Rightarrow> cron_table \<Rightarrow> cron_table" where
  "cleanupStaleCronRuns now db = map (\<lambda>(k, r).
     if cr_status r = Cron_Started \<and> cr_startedAt r < now - 5 * 60 * 1000
     then (k, r\<lparr>cr_status := Cron_Error, cr_finishedAt := Some now,
              cr_note := (case cr_note r of Some n \<Rightarrow> Some n
                          | None \<Rightarrow> Some ''marked stale on scheduler startup'')\<rparr>)
     else (k, r)) db"

section \<open>The scheduler\<close>

record job_run =
  ru_id :: nat
  ru_name :: string
  ru_lock :: "cron_key option"

record scheduler =
  sd_running :: "string list"              \<comment> \<open>\<open>_runningJobs\<close>\<close>
  sd_startedAt :: "(string, ms) js_map"    \<comment> \<open>\<open>_jobStartedAt\<close>\<close>
  sd_active :: "job_run list"
  sd_next :: nat
  sd_db :: cron_table

definition new_scheduler :: "cron_table \<Rightarrow> scheduler" where
  "new_scheduler db = \<lparr>sd_running = [], sd_startedAt = [], sd_active = [], sd_next = 0, sd_db = db\<rparr>"

datatype lock_result = Skip_Run | Run_With "cron_key option"

text \<open>The lock section of \<open>runJobSafely\<close>: a failed acquisition is retried once, a second failure
  runs the job without the lock. \<open>ok1\<close> and \<open>ok2\<close> say whether the database answers.\<close>

definition obtain_lock :: "string \<Rightarrow> bool \<Rightarrow> bool \<Rightarrow> ms \<Rightarrow> ms \<Rightarrow> cron_table \<Rightarrow> cron_table \<times> lock_result" where
  "obtain_lock name ok1 ok2 now1 now2 db =
     (if name \<in> set SKIP_DAILY_LOCK then (db, Run_With None)
      else if ok1 then
        (case acquireCronLock name now1 db of
           (db', None) \<Rightarrow> (db', Skip_Run) | (db', Some k) \<Rightarrow> (db', Run_With (Some k)))
      else if ok2 then
        (case acquireCronLock name now2 db of
           (db', None) \<Rightarrow> (db', Skip_Run) | (db', Some k) \<Rightarrow> (db', Run_With (Some k)))
      else (db, Run_With None))"

definition release_guard :: "string \<Rightarrow> scheduler \<Rightarrow> scheduler" where
  "release_guard name s = s\<lparr>sd_running := removeAll name (sd_running s),
     sd_startedAt := js_delete name (sd_startedAt s)\<rparr>"

definition runJob_begin :: "string \<Rightarrow> bool \<Rightarrow> bool \<Rightarrow> ms \<Rightarrow> ms \<Rightarrow> scheduler \<Rightarrow> scheduler" where
  "runJob_begin name ok1 ok2 now1 now2 s =
     (if \<not> isKnownJob name then s
      else if name \<in> set (sd_running s) then s
      else
        let s1 = s\<lparr>sd_running := name # sd_running s, sd_startedAt := js_set name now1 (sd_startedAt s)\<rparr> in
        case obtain_lock name ok1 ok2 now1 now2 (sd_db s1) of
          (db', Skip_Run) \<Rightarrow> release_guard name (s1\<lparr>sd_db := db'\<rparr>)
        | (db', Run_With lock) \<Rightarrow> s1\<lparr>sd_db := db',
            sd_active := \<lparr>ru_id = sd_next s1, ru_name = name, ru_lock = lock\<rparr> # sd_active s1,
            sd_next := sd_next s1 + 1\<rparr>)"

text \<open>The job's promise settles: the lock is closed, and the \<open>finally\<close> block releases the guard
  by name.\<close>

datatype job_outcome = Job_Ok "string option" | Job_Failed string

definition settle_lock :: "cron_key option \<Rightarrow> job_outcome \<Rightarrow> ms \<Rightarrow> cron_table \<Rightarrow> cron_table" where
  "settle_lock lock res now db =
     (case lock of None \<Rightarrow> db
      | Some k \<Rightarrow> (case res of Job_Ok note \<Rightarrow> lock_done k note now db
                  | Job_Failed msg \<Rightarrow> lock_fail k msg now db))"

definition runJob_end :: "nat \<Rightarrow> job_outcome \<Rightarrow> ms \<Rightarrow> scheduler \<Rightarrow> scheduler" where
  "runJob_end i res now s =
     (case List.find (\<lambda>r. ru_id r = i) (sd_active s) of None \<Rightarrow> s
      | Some r \<Rightarrow> release_guard (ru_name r)
          (s\<lparr>sd_active := filter (\<lambda>r. ru_id r \<noteq> i) (sd_active s),
             sd_db := settle_lock (ru_lock r) res now (sd_db s)\<rparr>))"

text \<open>The clean-up timer prunes guards older than twice the job timeout.\<close>

definition prune_stuck :: "ms \<Rightarrow> ms \<Rightarrow> scheduler \<Rightarrow> scheduler" where
  "prune_stuck JOB_TIMEOUT_MS now s =
     s\<lparr>sd_running := filter (\<lambda>n. case js_get (sd_startedAt s) n of
          Some t \<Rightarrow> \<not> (now - t > 2 * JOB_TIMEOUT_MS) | None \<Rightarrow> True) (sd_running s),
       sd_startedAt := js_prune (\<lambda>_ t. now - t > 2 * JOB_TIMEOUT_MS) (sd_startedAt s)\<rparr>"

datatype sched_event =
    Job_Tick string bool bool ms ms
  | Job_Settled nat job_outcome ms
  | Prune_Tick ms

fun sched_step :: "ms \<Rightarrow> sched_event \<Rightarrow> scheduler \<Rightarrow> scheduler" where
  "sched_step T (Job_Tick name ok1 ok2 n1 n2) s = runJob_begin name ok1 ok2 n1 n2 s"
| "sched_step T (Job_Settled i res now) s = runJob_end i res now s"
| "sched_step T (Prune_Tick now) s = prune_stuck T now s"

definition sched_run :: "ms \<Rightarrow> sched_event list \<Rightarrow> scheduler \<Rightarrow> scheduler" where
  "sched_run T evs s = foldl (\<lambda>s e. sched_step T e s) s evs"

section \<open>Tenant partitions\<close>

text \<open>\<open>digest\<close> is the first four bytes of the MD5 digest of the tenant, read as an unsigned
  big-endian number.\<close>

record tenant_router =
  tr_partition :: int
  tr_totalPartitions :: int
  tr_isSingleWorker :: bool

text \<open>\<open>parseInt\<close> of the two variables, \<open>None\<close> for \<open>NaN\<close>; an unset or empty variable means a single
  worker.\<close>

definition new_tenant_router :: "(string \<Rightarrow> int option) \<Rightarrow> string option \<Rightarrow> string option \<Rightarrow> tenant_router" where
  "new_tenant_router parseInt rawPartition rawTotal =
     (case (rawPartition, rawTotal) of
        (Some (c # cs), Some (d # ds)) \<Rightarrow>
          \<lparr>tr_partition = max 0 (case parseInt (c # cs) of None \<Rightarrow> 0 | Some n \<Rightarrow> n),
           tr_totalPartitions = max 1 (case parseInt (d # ds) of None \<Rightarrow> 1 | Some n \<Rightarrow> if n = 0 then 1 else n),
           tr_isSingleWorker = False\<rparr>
      | _ \<Rightarrow> \<lparr>tr_partition = 0, tr_totalPartitions = 1, tr_isSingleWorker = True\<rparr>)"

definition isMyTenant :: "(string \<Rightarrow> int) \<Rightarrow> tenant_router \<Rightarrow> string \<Rightarrow> bool" where
  "isMyTenant digest r tenantId =
     (if tr_isSingleWorker r then True else digest tenantId mod tr_totalPartitions r = tr_partition r)"

definition tenantBucket :: "(string \<Rightarrow> int) \<Rightarrow> tenant_router \<Rightarrow> string \<Rightarrow> int" where
  "tenantBucket digest r tenantId =
     (if tr_isSingleWorker r then 0 else digest tenantId mod tr_totalPartitions r)"

section \<open>The lock is a lease\<close>

text \<open>A row blocks its key unless it is a started run older than the lock's lifetime.\<close>

definition cron_held :: "cron_table \<Rightarrow> cron_key \<Rightarrow> ms \<Rightarrow> unit option" where
  "cron_held db k t = (case js_get db k of None \<Rightarrow> None
     | Some r \<Rightarrow> if cr_status r = Cron_Started \<and> cr_startedAt r < t - LOCK_TTL_MS then None else Some ())"

definition cron_claim :: "cron_key \<Rightarrow> unit \<Rightarrow> ms \<Rightarrow> cron_table \<Rightarrow> cron_table \<times> bool" where
  "cron_claim k w t db = lock_row k t db"

lemma lock_row_cases:
  "lock_row k t db = (if cron_held db k t = None
     then (case js_get db k of
        None \<Rightarrow> (js_set k \<lparr>cr_status = Cron_Started, cr_startedAt = t, cr_finishedAt = None, cr_note = None\<rparr> db, True)
      | Some _ \<Rightarrow> (js_set k \<lparr>cr_status = Cron_Started, cr_startedAt = t, cr_finishedAt = None,
                      cr_note = Some ''reclaimed stale lock''\<rparr> db, True))
     else (db, False))"
  by (auto simp: lock_row_def reclaim_stale_def insert_run_def cron_held_def js_has_def split: option.splits)

interpretation cron_lease: lease cron_held cron_claim LOCK_TTL_MS
proof
  fix k :: cron_key and w t s s'
  assume "cron_claim k w t s = (s', True)"
  then show "cron_held s k t = None \<and> (\<forall>t'. t \<le> t' \<and> t' < t + LOCK_TTL_MS \<longrightarrow> cron_held s' k t' = Some w)"
    by (auto simp: cron_claim_def lock_row_cases cron_held_def[of s'] map_laws split: if_splits option.splits)
next
  fix k :: cron_key and w t s s'
  assume "cron_claim k w t s = (s', False)"
  then show "s' = s"
    by (auto simp: cron_claim_def lock_row_cases split: if_splits option.splits)
next
  fix k k' :: cron_key and w t s s' ok
  assume "cron_claim k w t s = (s', ok)" "k' \<noteq> k"
  then show "cron_held s' k' = cron_held s k'"
    by (auto simp: cron_claim_def lock_row_cases cron_held_def map_laws fun_eq_iff split: if_splits option.splits)
qed


section \<open>Lemmas\<close>

lemma js_get_map_rows:
  "js_get (map (\<lambda>(k, r). (k, f r)) db) k = map_option f (js_get db k)"
  by (induction db) auto

lemma cleanup_get:
  "js_get (cleanupStaleCronRuns now db) k = map_option (\<lambda>r.
     if cr_status r = Cron_Started \<and> cr_startedAt r < now - 5 * 60 * 1000
     then r\<lparr>cr_status := Cron_Error, cr_finishedAt := Some now,
              cr_note := (case cr_note r of Some n \<Rightarrow> Some n
                          | None \<Rightarrow> Some ''marked stale on scheduler startup'')\<rparr>
     else r) (js_get db k)"
  unfolding cleanupStaleCronRuns_def
  by (subst js_get_map_rows[symmetric], rule arg_cong2[where f = js_get]) (auto intro!: map_cong)

text \<open>What happens to the table: the operations of any number of workers, in any order.\<close>

datatype cron_op =
    Acquire string ms
  | Close_Ok cron_key "string option" ms
  | Close_Failed cron_key string ms
  | Startup_Cleanup ms

fun cron_op_step :: "cron_op \<Rightarrow> cron_table \<Rightarrow> cron_table" where
  "cron_op_step (Acquire job now) db = fst (acquireCronLock job now db)"
| "cron_op_step (Close_Ok k note now) db = lock_done k note now db"
| "cron_op_step (Close_Failed k msg now) db = lock_fail k msg now db"
| "cron_op_step (Startup_Cleanup now) db = cleanupStaleCronRuns now db"

definition cron_ops :: "cron_op list \<Rightarrow> cron_table \<Rightarrow> cron_table" where
  "cron_ops ops db = foldl (\<lambda>db opn. cron_op_step opn db) db ops"

definition day_closed :: "cron_key \<Rightarrow> cron_table \<Rightarrow> bool" where
  "day_closed k db \<longleftrightarrow> (case js_get db k of None \<Rightarrow> False | Some r \<Rightarrow> cr_status r \<noteq> Cron_Started)"

lemma day_closed_refuses: "day_closed k db \<Longrightarrow> lock_row k now db = (db, False)"
  by (auto simp: day_closed_def lock_row_cases cron_held_def split: option.splits)

lemma lock_row_closed: "day_closed k db \<Longrightarrow> day_closed k (fst (lock_row k' now db))"
proof (cases "k' = k")
  case True
  then show "day_closed k db \<Longrightarrow> day_closed k (fst (lock_row k' now db))"
    by (simp add: day_closed_refuses)
next
  case False
  then show "day_closed k db \<Longrightarrow> day_closed k (fst (lock_row k' now db))"
    by (auto simp: day_closed_def lock_row_cases map_laws split: option.splits)
qed

lemma day_closed_step: "day_closed k db \<Longrightarrow> day_closed k (cron_op_step opn db)"
proof (cases opn)
  case (Acquire job now)
  then show "day_closed k db \<Longrightarrow> day_closed k (cron_op_step opn db)"
    using lock_row_closed[of k db "(job, utcDay now)" now]
    by (cases "lock_row (job, utcDay now) now db") (simp add: acquireCronLock_def)
qed (auto simp: day_closed_def lock_done_def lock_fail_def cleanup_get map_laws split: option.splits)

lemma day_closed_ops: "day_closed k db \<Longrightarrow> day_closed k (cron_ops ops db)"
  unfolding cron_ops_def by (rule foldl_invariant) (simp_all add: day_closed_step)

lemma acquire_lock_row:
  "acquireCronLock job now db = (fst (lock_row (job, utcDay now) now db),
     if snd (lock_row (job, utcDay now) now db) then Some (job, utcDay now) else None)"
  by (simp add: acquireCronLock_def split: prod.splits)

text \<open>The guard set and the runs of a scheduler whose guards are not pruned.\<close>

definition guards_match :: "scheduler \<Rightarrow> bool" where
  "guards_match s \<longleftrightarrow> distinct (map ru_name (sd_active s))
     \<and> set (sd_running s) = set (map ru_name (sd_active s))
     \<and> distinct (map ru_id (sd_active s)) \<and> (\<forall>r\<in>set (sd_active s). ru_id r < sd_next s)"

lemma guards_match_begin:
  assumes "guards_match s"
  shows "guards_match (runJob_begin name ok1 ok2 n1 n2 s)"
proof -
  obtain db' l where o: "obtain_lock name ok1 ok2 n1 n2 (sd_db s) = (db', l)" by fastforce
  show ?thesis
  proof (cases "isKnownJob name \<and> name \<notin> set (sd_running s)")
    case False
    then show ?thesis using assms by (auto simp: runJob_begin_def)
  next
    case True
    then show ?thesis
      using assms o by (cases l) (auto simp: runJob_begin_def Let_def guards_match_def release_guard_def less_Suc_eq)
  qed
qed

lemma guards_match_end:
  assumes "guards_match s"
  shows "guards_match (runJob_end i res now s)"
proof (cases "List.find (\<lambda>r. ru_id r = i) (sd_active s)")
  case None
  then show ?thesis using assms by (simp add: runJob_end_def)
next
  case (Some r)
  then have r: "r \<in> set (sd_active s)" "ru_id r = i"
    by (auto simp: find_Some_iff)
  have inj: "inj_on ru_name (set (sd_active s))" "inj_on ru_id (set (sd_active s))"
    using assms by (auto simp: guards_match_def distinct_map)
  have same: "ru_id q \<noteq> i \<longleftrightarrow> ru_name q \<noteq> ru_name r" if "q \<in> set (sd_active s)" for q
    using inj_onD[OF inj(1) _ that r(1)] inj_onD[OF inj(2) _ that r(1)] r(2) by auto
  have "set (map ru_name (filter (\<lambda>q. ru_id q \<noteq> i) (sd_active s))) = set (map ru_name (sd_active s)) - {ru_name r}"
    using same by auto
  then show ?thesis
    using assms Some by (auto simp: runJob_end_def release_guard_def guards_match_def distinct_map_filter)
qed

fun no_prune :: "sched_event \<Rightarrow> bool" where
  "no_prune (Prune_Tick _) = False"
| "no_prune _ = True"

lemma guards_match_run: "list_all no_prune evs \<Longrightarrow> guards_match s \<Longrightarrow> guards_match (sched_run T evs s)"
proof (induction evs arbitrary: s)
  case Nil
  then show ?case by (simp add: sched_run_def)
next
  case (Cons e evs)
  have "guards_match (sched_step T e s)"
    using Cons.prems by (cases e) (auto simp: guards_match_begin guards_match_end)
  then show ?case
    using Cons by (simp add: sched_run_def)
qed

section \<open>Properties\<close>



text \<open>The start-up clean-up cancels the day of the jobs it marks. Once a row that has been
  running for more than five minutes was marked, no sequence of operations on the table, by any
  worker, lets the job acquire its lock for that day again: neither a retry nor the two-hour
  takeover of stale locks, which would have been possible without the clean-up.\<close>

theorem startup_cleanup_cancels_day:
  assumes "js_get db (job, utcDay t) = Some r" "cr_status r = Cron_Started"
    and "cr_startedAt r < now - 5 * 60 * 1000"
  shows "snd (acquireCronLock job t (cron_ops ops (cleanupStaleCronRuns now db))) = None
    \<and> (cr_startedAt r < t - LOCK_TTL_MS \<longrightarrow> snd (acquireCronLock job t db) = Some (job, utcDay t))"
proof -
  have "day_closed (job, utcDay t) (cleanupStaleCronRuns now db)"
    using assms by (simp add: day_closed_def cleanup_get)
  from day_closed_ops[OF this, of ops] show ?thesis
    using assms by (auto simp: acquire_lock_row day_closed_refuses) (simp add: lock_row_cases cron_held_def)
qed

lemma startup_cleanup_cancels_day_witness:
  "snd (acquireCronLock ''retention'' 9000000 (cleanupStaleCronRuns 400000
      [((''retention'', 0), \<lparr>cr_status = Cron_Started, cr_startedAt = 0, cr_finishedAt = None, cr_note = None\<rparr>)])) = None
   \<and> snd (acquireCronLock ''retention'' 9000000
      [((''retention'', 0), \<lparr>cr_status = Cron_Started, cr_startedAt = 0, cr_finishedAt = None, cr_note = None\<rparr>)])
      = Some (''retention'', 0)"
  using startup_cleanup_cancels_day[of
      "[((''retention'', 0), \<lparr>cr_status = Cron_Started, cr_startedAt = 0, cr_finishedAt = None, cr_note = None\<rparr>)]"
      "''retention''" 9000000 "\<lparr>cr_status = Cron_Started, cr_startedAt = 0, cr_finishedAt = None, cr_note = None\<rparr>"
      400000 "[]"]
  by (simp add: utcDay_def cron_ops_def LOCK_TTL_MS_def)

text \<open>No job overlaps itself: in every run of scheduler ticks and settled jobs in which the
  stuck-job timer prunes nothing, at most one run of each job is in progress, and the guard set
  names exactly the jobs in progress, so no guard is left behind on any path.\<close>

theorem no_overlap_without_prune:
  assumes "list_all no_prune evs"
  shows "let s = sched_run T evs (new_scheduler db) in
    distinct (map ru_name (sd_active s)) \<and> set (sd_running s) = set (map ru_name (sd_active s))"
  using guards_match_run[OF assms, of "new_scheduler db" T]
  by (simp add: guards_match_def new_scheduler_def Let_def)

lemma no_overlap_without_prune_witness:
  "let s = sched_run 120000 [Job_Tick ''alerts'' True True 0 0, Job_Tick ''alerts'' True True 60000 60000]
      (new_scheduler []) in
    distinct (map ru_name (sd_active s)) \<and> set (sd_running s) = set (map ru_name (sd_active s))"
  by (rule no_overlap_without_prune) simp

text \<open>With the timer a run that outlives twice the timeout overlaps the next one; and the first of
  the two to settle drops the guard of the other, so that a third can start.\<close>

lemma pruned_guard_overlaps:
  "map ru_name (sd_active (sched_run 120000 [Job_Tick ''alerts'' True True 0 0, Prune_Tick 240001,
      Job_Tick ''alerts'' True True 240060 240060, Job_Settled 0 (Job_Failed ''late'') 240100,
      Job_Tick ''alerts'' True True 300000 300000] (new_scheduler []))) = [''alerts'', ''alerts'']"
  by (simp add: sched_run_def new_scheduler_def runJob_begin_def runJob_end_def prune_stuck_def obtain_lock_def
      isKnownJob_def JOBS_def SKIP_DAILY_LOCK_def release_guard_def js_prune_def settle_lock_def js_delete_def)

text \<open>Tenants are partitioned over the workers: with \<open>n\<close> partitions every tenant is processed by
  exactly one of the workers numbered 0 to \<open>n - 1\<close>, whatever the hash, and a worker without
  partition settings processes all of them.\<close>

theorem tenants_partitioned:
  assumes "0 < n"
  shows "(\<exists>!p. 0 \<le> p \<and> p < n \<and> isMyTenant digest
      \<lparr>tr_partition = p, tr_totalPartitions = n, tr_isSingleWorker = False\<rparr> tenant)
    \<and> isMyTenant digest (new_tenant_router parseInt None rawTotal) tenant"
  using assms by (auto simp: isMyTenant_def new_tenant_router_def)

lemma tenants_partitioned_witness:
  "(\<exists>!p. 0 \<le> p \<and> p < 4 \<and> isMyTenant (\<lambda>s. int (length s))
      \<lparr>tr_partition = p, tr_totalPartitions = 4, tr_isSingleWorker = False\<rparr> ''user-7'')
    \<and> isMyTenant (\<lambda>s. int (length s)) (new_tenant_router (\<lambda>_. None) None None) ''user-7''"
  by (rule tenants_partitioned) simp

end
