(* ===== verification/Analysis_Queue.thy ===== *)
theory Analysis_Queue
  imports Js_Map "HOL-Library.Word"
begin

unbundle bit_operations_syntax

text \<open>
  The durable queue of full analyses: the operations on workflow run records
  (\<open>packages/ai/src/mastra-v2/workflows/full-analysis.ts\<close>), the advisory lock around a claim
  (\<open>mastra-v2/advisory-lock.ts\<close>) and the worker job that claims, executes and settles runs
  (\<open>apps/worker/src/jobs/multi-agent-analysis.ts\<close>). The run records are the rows of the workflow
  store, a map from run id to record; \<open>persistWorkflowSnapshot\<close> writes a record and keeps its
  creation time, \<open>updateWorkflowState\<close> changes status, result and error of an existing record, both
  stamp the update time. The engine that executes a run writes its record too: such writes, late
  heartbeats and the purge are events of the queue beside the operations of the job.
\<close>

section \<open>Records\<close>

datatype run_status = Wr_Pending | Wr_Running | Wr_Success | Wr_Failed | Wr_Canceled | Wr_Bailed | Wr_Skipped

record analysis_payload =
  ap_userId :: string
  ap_threadId :: string
  ap_text :: string
  ap_key :: string
  ap_attemptCount :: nat
  ap_workerRunId :: "string option"

record run_record =
  rr_resourceId :: string
  rr_status :: run_status
  rr_payload :: "analysis_payload option"
  rr_result :: "string option"
  rr_error :: "string option"
  rr_createdAt :: ms
  rr_updatedAt :: ms

type_synonym run_store = "(string, run_record) js_map"

definition MAX_ANALYSIS_ATTEMPTS :: nat where
  "MAX_ANALYSIS_ATTEMPTS = 3"

text \<open>\<open>updateWorkflowState\<close> with a status and, where given, a result or an error.\<close>

definition updateState :: "string \<Rightarrow> run_status \<Rightarrow> string option \<Rightarrow> string option \<Rightarrow> ms \<Rightarrow> run_store \<Rightarrow> run_store"
  where
  "updateState runId status result err now store =
     (case js_get store runId of None \<Rightarrow> store
      | Some r \<Rightarrow> js_set runId (r\<lparr>rr_status := status,
          rr_result := (case result of Some x \<Rightarrow> Some x | None \<Rightarrow> rr_result r),
          rr_error := (case err of Some x \<Rightarrow> Some x | None \<Rightarrow> rr_error r),
          rr_updatedAt := now\<rparr>) store)"

section \<open>Enqueueing\<close>

record enqueue_input =
  ei_userId :: string
  ei_threadId :: string
  ei_text :: string
  ei_key :: string

text \<open>\<open>runIdOf\<close> is the SHA-256 digest of user and key.\<close>

definition enqueueFullAnalysis :: "(string \<Rightarrow> string \<Rightarrow> string) \<Rightarrow> enqueue_input \<Rightarrow> ms \<Rightarrow> run_store
    \<Rightarrow> run_store \<times> string" where
  "enqueueFullAnalysis runIdOf inp now store =
     (let runId = runIdOf (ei_userId inp) (ei_key inp) in
      if js_has store runId then (store, runId)
      else (js_set runId \<lparr>rr_resourceId = ei_userId inp, rr_status = Wr_Pending,
              rr_payload = Some \<lparr>ap_userId = ei_userId inp, ap_threadId = ei_threadId inp,
                ap_text = ei_text inp, ap_key = ei_key inp, ap_attemptCount = 0, ap_workerRunId = None\<rparr>,
              rr_result = None, rr_error = None, rr_createdAt = now, rr_updatedAt = now\<rparr> store, runId))"

section \<open>Claiming\<close>

text \<open>The pending runs, oldest first; the store lists newest first.\<close>

definition claim_candidates :: "run_store \<Rightarrow> (string \<times> run_record) list" where
  "claim_candidates store = sort_key (\<lambda>(_, r). rr_createdAt r)
     (filter (\<lambda>(_, r). rr_status r = Wr_Pending) (rev store))"

text \<open>The write of a claim, from the record as it was read, and the check after it.\<close>

definition claim_write :: "string \<Rightarrow> string \<Rightarrow> run_record \<Rightarrow> analysis_payload \<Rightarrow> ms \<Rightarrow> run_store \<Rightarrow> run_store" where
  "claim_write workerRunId runId read p now store =
     js_set runId (read\<lparr>rr_resourceId := ap_userId p, rr_status := Wr_Running,
       rr_payload := Some (p\<lparr>ap_attemptCount := ap_attemptCount p + 1, ap_workerRunId := Some workerRunId\<rparr>),
       rr_createdAt := (case js_get store runId of Some r \<Rightarrow> rr_createdAt r | None \<Rightarrow> now),
       rr_updatedAt := now\<rparr>) store"

definition claim_verify :: "string \<Rightarrow> string \<Rightarrow> analysis_payload \<Rightarrow> run_store \<Rightarrow> analysis_payload option" where
  "claim_verify workerRunId runId p store =
     (case js_get store runId of None \<Rightarrow> None
      | Some r \<Rightarrow> (case rr_payload r of None \<Rightarrow> None
          | Some v \<Rightarrow> if ap_workerRunId v = Some workerRunId \<and> ap_attemptCount v = ap_attemptCount p + 1
                     then Some v else None))"

fun claim_loop :: "string \<Rightarrow> ms \<Rightarrow> (string \<times> run_record) list \<Rightarrow> run_store
    \<Rightarrow> run_store \<times> (string \<times> analysis_payload) option" where
  "claim_loop w now [] store = (store, None)"
| "claim_loop w now ((runId, read) # cs) store =
     (case rr_payload read of None \<Rightarrow> claim_loop w now cs store
      | Some p \<Rightarrow>
          (let store' = claim_write w runId read p now store in
           case claim_verify w runId p store' of
             Some v \<Rightarrow> (store', Some (runId, v)) | None \<Rightarrow> claim_loop w now cs store'))"

text \<open>\<open>claimNextFullAnalysisRun\<close>: the scan runs whether or not the advisory lock was obtained.\<close>

definition claimNextFullAnalysisRun :: "bool \<Rightarrow> string \<Rightarrow> ms \<Rightarrow> run_store
    \<Rightarrow> run_store \<times> (string \<times> analysis_payload) option" where
  "claimNextFullAnalysisRun lock_acquired w now store = claim_loop w now (claim_candidates store) store"

text \<open>The key of the advisory lock, a DJB2 hash in 32-bit arithmetic; \<open>|hash|\<close> is taken as a number.\<close>

definition hash_step :: "32 word \<Rightarrow> char \<Rightarrow> 32 word" where
  "hash_step h c = push_bit 5 h + h + of_nat (of_char c)"

definition hashTo32Bit :: "string \<Rightarrow> int" where
  "hashTo32Bit input = \<bar>sint (foldl hash_step 5381 input)\<bar>"

section \<open>Settling and recovery\<close>

definition touchFullAnalysisRun :: "string \<Rightarrow> ms \<Rightarrow> run_store \<Rightarrow> run_store" where
  "touchFullAnalysisRun runId now = updateState runId Wr_Running None None now"

definition completeFullAnalysisRun :: "string \<Rightarrow> string \<Rightarrow> ms \<Rightarrow> run_store \<Rightarrow> run_store" where
  "completeFullAnalysisRun runId result now = updateState runId Wr_Success (Some result) None now"

definition requeueFullAnalysisRun :: "string \<Rightarrow> string \<Rightarrow> ms \<Rightarrow> run_store \<Rightarrow> run_store" where
  "requeueFullAnalysisRun runId message now = updateState runId Wr_Pending None (Some message) now"

definition failFullAnalysisRun :: "string \<Rightarrow> string \<Rightarrow> ms \<Rightarrow> run_store \<Rightarrow> run_store" where
  "failFullAnalysisRun runId err now = updateState runId Wr_Failed None (Some err) now"

definition fallbackPayload :: analysis_payload where
  "fallbackPayload = \<lparr>ap_userId = '''', ap_threadId = '''', ap_text = '''', ap_key = '''',
     ap_attemptCount = 0, ap_workerRunId = None\<rparr>"

text \<open>The recovery of one stale running run.\<close>

definition recover_run :: "ms \<Rightarrow> nat \<Rightarrow> ms \<Rightarrow> string \<times> run_record \<Rightarrow> run_store \<times> nat \<times> nat
    \<Rightarrow> run_store \<times> nat \<times> nat" where
  "recover_run cutoff maxAttempts now = (\<lambda>(runId, r) (store, requeued, failed).
     if rr_updatedAt r \<ge> cutoff then (store, requeued, failed)
     else
       let attempts = (case rr_payload r of Some p \<Rightarrow> ap_attemptCount p | None \<Rightarrow> 1) in
       if attempts < maxAttempts
       then let p = (case rr_payload r of Some p \<Rightarrow> p | None \<Rightarrow> fallbackPayload)\<lparr>ap_workerRunId := None\<rparr> in
         (js_set runId (r\<lparr>rr_resourceId := ap_userId p, rr_status := Wr_Pending, rr_payload := Some p,
            rr_updatedAt := now\<rparr>) store, requeued + 1, failed)
       else (updateState runId Wr_Failed None
               (Some ''Job timed out -- maximum worker attempts reached.'') now store, requeued, failed + 1))"

definition recoverStaleFullAnalysisRuns :: "ms \<Rightarrow> nat \<Rightarrow> ms \<Rightarrow> run_store \<Rightarrow> run_store \<times> nat \<times> nat" where
  "recoverStaleFullAnalysisRuns cutoff maxAttempts now store =
     foldl (\<lambda>acc e. recover_run cutoff maxAttempts now e acc) (store, 0, 0)
       (filter (\<lambda>(_, r). rr_status r = Wr_Running) store)"

definition terminal_status :: "run_status \<Rightarrow> bool" where
  "terminal_status s \<longleftrightarrow> s \<in> {Wr_Success, Wr_Failed, Wr_Canceled, Wr_Bailed, Wr_Skipped}"

definition purgeOldFullAnalysisRuns :: "ms \<Rightarrow> run_store \<Rightarrow> run_store \<times> nat" where
  "purgeOldFullAnalysisRuns cutoff store =
     (let old = (\<lambda>r. terminal_status (rr_status r) \<and> rr_updatedAt r < cutoff) in
      (filter (\<lambda>(_, r). \<not> old r) store, length (filter (\<lambda>(_, r). old r) store)))"

section \<open>Reading\<close>

datatype view_status = V_Pending | V_Running | V_Complete | V_Failed

fun STATUS_MAP :: "run_status \<Rightarrow> view_status" where
  "STATUS_MAP Wr_Pending = V_Pending"
| "STATUS_MAP Wr_Running = V_Running"
| "STATUS_MAP Wr_Success = V_Complete"
| "STATUS_MAP Wr_Failed = V_Failed"
| "STATUS_MAP Wr_Canceled = V_Failed"
| "STATUS_MAP Wr_Bailed = V_Failed"
| "STATUS_MAP Wr_Skipped = V_Pending"

record run_view =
  rv_status :: view_status
  rv_result :: "string option"
  rv_failed :: bool
  rv_completedAt :: "ms option"

definition getFullAnalysisRun :: "string \<Rightarrow> string \<Rightarrow> run_store \<Rightarrow> run_view option" where
  "getFullAnalysisRun userId runId store =
     (case js_get store runId of None \<Rightarrow> None
      | Some r \<Rightarrow>
          if rr_resourceId r \<noteq> '''' \<and> rr_resourceId r \<noteq> userId then None
          else let st = STATUS_MAP (rr_status r) in
            Some \<lparr>rv_status = st, rv_result = rr_result r, rv_failed = (st = V_Failed),
              rv_completedAt = (if st = V_Complete \<or> st = V_Failed then Some (rr_updatedAt r) else None)\<rparr>)"

record queue_health =
  qh_pending :: nat
  qh_running :: nat
  qh_stalePending :: nat
  qh_stuckRunning :: nat

definition getFullAnalysisQueueHealth :: "ms \<Rightarrow> run_store \<Rightarrow> queue_health" where
  "getFullAnalysisQueueHealth now store =
     (let p = filter (\<lambda>(_, r). rr_status r = Wr_Pending) store;
          q = filter (\<lambda>(_, r). rr_status r = Wr_Running) store in
      \<lparr>qh_pending = length p, qh_running = length q,
       qh_stalePending = length (filter (\<lambda>(_, r). now - rr_createdAt r > 10 * 60 * 1000) p),
       qh_stuckRunning = length (filter (\<lambda>(_, r). now - rr_updatedAt r > 30000) q)\<rparr>)"

section \<open>The worker job\<close>

text \<open>Where the processing of a claimed run stops, and what it does with its budget.\<close>

datatype process_stage =
    St_Settings          \<comment> \<open>loading the settings, or the request is not safe\<close>
  | St_Reserve           \<comment> \<open>the budget reservation is refused\<close>
  | St_User_Message
  | St_Model
  | St_Assistant_Message
  | St_Complete          \<comment> \<open>writing the terminal record\<close>

datatype budget_action = B_Reserve | B_Reconcile | B_Release

text \<open>The actions of \<open>processRun\<close> when it throws at a stage, or runs through (\<open>None\<close>).\<close>

fun process_budget :: "process_stage option \<Rightarrow> budget_action list" where
  "process_budget (Some St_Settings) = []"
| "process_budget (Some St_Reserve) = []"
| "process_budget (Some St_User_Message) = [B_Reserve, B_Release]"
| "process_budget (Some St_Model) = [B_Reserve, B_Release]"
| "process_budget (Some St_Assistant_Message) = [B_Reserve, B_Reconcile]"
| "process_budget (Some St_Complete) = [B_Reserve, B_Reconcile]"
| "process_budget None = [B_Reserve, B_Reconcile]"

text \<open>The outcome of a processed run as the job settles it.\<close>

datatype run_outcome = Run_Ok string | Run_Error bool string   \<comment> \<open>the error looks transient\<close>

definition settle_run :: "string \<times> analysis_payload \<Rightarrow> run_outcome \<Rightarrow> ms \<Rightarrow> run_store \<Rightarrow> run_store" where
  "settle_run = (\<lambda>(runId, payload) res now store.
     case res of
       Run_Ok result \<Rightarrow> completeFullAnalysisRun runId result now store
     | Run_Error transient msg \<Rightarrow>
         if transient \<and> ap_attemptCount payload < MAX_ANALYSIS_ATTEMPTS
         then requeueFullAnalysisRun runId msg now store
         else failFullAnalysisRun runId msg now store)"

text \<open>One worker and its queue: the run in progress, if any, is the claim it holds. Stale runs are
  recovered and old ones purged when the poll is over, so when no run is in progress. A heartbeat
  that was sent before the run was settled may arrive after it.\<close>

record analysis_worker =
  aw_store :: run_store
  aw_current :: "(string \<times> analysis_payload) option"

datatype queue_event =
    Q_Enqueue enqueue_input ms
  | Q_Claim string ms
  | Q_Heartbeat ms
  | Q_Settle run_outcome ms
  | Q_Crash
  | Q_Recover ms ms
  | Q_Engine run_status "string option" "string option" ms
  | Q_Late_heartbeat string ms
  | Q_Purge ms

text \<open>
  \<open>runMastraMode\<close> starts the workflow under the claimed run's id and name with the input
  \<open>{ prompt, symbol, mode }\<close>: the engine's own snapshots replace the record's payload, with whatever
  status and result the engine has. It is reached only once the user's settings were found.
\<close>

definition engine_write :: "string \<Rightarrow> run_status \<Rightarrow> string option \<Rightarrow> string option \<Rightarrow> ms \<Rightarrow> run_store \<Rightarrow> run_store" where
  "engine_write runId st res err now store =
     (case js_get store runId of None \<Rightarrow> store
      | Some r \<Rightarrow> js_set runId (r\<lparr>rr_status := st, rr_payload := None, rr_result := res, rr_error := err,
          rr_updatedAt := now\<rparr>) store)"

fun queue_step :: "(string \<Rightarrow> string \<Rightarrow> string) \<Rightarrow> (string \<Rightarrow> bool) \<Rightarrow> queue_event \<Rightarrow> analysis_worker \<Rightarrow> analysis_worker" where
  "queue_step rid settings (Q_Enqueue inp now) s = s\<lparr>aw_store := fst (enqueueFullAnalysis rid inp now (aw_store s))\<rparr>"
| "queue_step rid settings (Q_Claim w now) s =
     (if aw_current s \<noteq> None then s
      else (case claimNextFullAnalysisRun True w now (aw_store s) of
        (store', c) \<Rightarrow> s\<lparr>aw_store := store', aw_current := c\<rparr>))"
| "queue_step rid settings (Q_Heartbeat now) s =
     (case aw_current s of None \<Rightarrow> s
      | Some (runId, _) \<Rightarrow> s\<lparr>aw_store := touchFullAnalysisRun runId now (aw_store s)\<rparr>)"
| "queue_step rid settings (Q_Settle res now) s =
     (case aw_current s of None \<Rightarrow> s
      | Some c \<Rightarrow> s\<lparr>aw_store := settle_run c res now (aw_store s), aw_current := None\<rparr>)"
| "queue_step rid settings Q_Crash s = s\<lparr>aw_current := None\<rparr>"
| "queue_step rid settings (Q_Recover cutoff now) s =
     (if aw_current s \<noteq> None then s
      else s\<lparr>aw_store := fst (recoverStaleFullAnalysisRuns cutoff MAX_ANALYSIS_ATTEMPTS now (aw_store s))\<rparr>)"

| "queue_step rid settings (Q_Engine st res err now) s =
     (case aw_current s of None \<Rightarrow> s
      | Some (runId, v) \<Rightarrow>
          if settings (ap_userId v) then s\<lparr>aw_store := engine_write runId st res err now (aw_store s)\<rparr> else s)"
| "queue_step rid settings (Q_Late_heartbeat runId now) s =
     s\<lparr>aw_store := touchFullAnalysisRun runId now (aw_store s)\<rparr>"
| "queue_step rid settings (Q_Purge cutoff) s =
     (if aw_current s \<noteq> None then s
      else s\<lparr>aw_store := fst (purgeOldFullAnalysisRuns cutoff (aw_store s))\<rparr>)"

definition queue_run :: "(string \<Rightarrow> string \<Rightarrow> string) \<Rightarrow> (string \<Rightarrow> bool) \<Rightarrow> queue_event list \<Rightarrow> analysis_worker
    \<Rightarrow> analysis_worker" where
  "queue_run rid settings evs s = foldl (\<lambda>s e. queue_step rid settings e s) s evs"

definition empty_queue :: analysis_worker where
  "empty_queue = \<lparr>aw_store = [], aw_current = None\<rparr>"


section \<open>Lemmas\<close>

definition att :: "run_record \<Rightarrow> nat" where
  "att r = (case rr_payload r of Some p \<Rightarrow> ap_attemptCount p | None \<Rightarrow> 0)"

definition rec_ok :: "run_record \<Rightarrow> bool" where
  "rec_ok r \<longleftrightarrow> att r \<le> MAX_ANALYSIS_ATTEMPTS
     \<and> (rr_status r = Wr_Pending \<longrightarrow> att r < MAX_ANALYSIS_ATTEMPTS)"

definition store_ok :: "run_store \<Rightarrow> bool" where
  "store_ok st \<longleftrightarrow> js_wf st \<and> (\<forall>k r. js_get st k = Some r \<longrightarrow> rec_ok r)"

text \<open>
  The claims a record can still get: three for a payload of a user and three more once the engine has
  replaced it, since recovery then starts over with the fallback payload, which belongs to nobody.
\<close>

definition claims_left :: "run_record \<Rightarrow> nat" where
  "claims_left r = (case rr_payload r of
     None \<Rightarrow> MAX_ANALYSIS_ATTEMPTS
   | Some p \<Rightarrow> (if ap_userId p = [] then MAX_ANALYSIS_ATTEMPTS else 2 * MAX_ANALYSIS_ATTEMPTS) - ap_attemptCount p)"

definition left_total :: "run_store \<Rightarrow> int" where
  "left_total st = sum_list (map (\<lambda>(k, r). int (claims_left r)) st)"

text \<open>A write that keeps the store in order and grants no further claims.\<close>

definition no_gain :: "run_store \<Rightarrow> run_store \<Rightarrow> bool" where
  "no_gain st st' \<longleftrightarrow> store_ok st' \<and> left_total st' \<le> left_total st"

lemma store_ok_get: "store_ok st \<Longrightarrow> js_get st k = Some r \<Longrightarrow> rec_ok r"
  by (simp add: store_ok_def)

lemma store_ok_set: "store_ok st \<Longrightarrow> rec_ok r \<Longrightarrow> store_ok (js_set k r st)"
  by (auto simp: store_ok_def js_wf_set map_laws)

lemma left_total_set:
  "left_total (js_set k r st) = left_total st
     - (case js_get st k of None \<Rightarrow> 0 | Some q \<Rightarrow> int (claims_left q)) + int (claims_left r)"
  using sum_list_js_set[of "\<lambda>(k, r). int (claims_left r)" k r st]
  by (simp add: left_total_def split: option.splits)

lemma no_gain_refl: "store_ok st \<Longrightarrow> no_gain st st"
  by (simp add: no_gain_def)

lemma no_gain_set:
  "store_ok st \<Longrightarrow> js_get st k = Some q \<Longrightarrow> rec_ok r \<Longrightarrow> claims_left r \<le> claims_left q
    \<Longrightarrow> no_gain st (js_set k r st)"
  by (simp add: no_gain_def store_ok_set left_total_set)

lemma no_gain_filter:
  assumes "store_ok st"
  shows "no_gain st (filter P st)"
proof -
  have wf: "js_wf (filter P st)"
    using assms by (simp add: store_ok_def js_wf_filter)
  moreover have "rec_ok r" if "js_get (filter P st) k = Some r" for k r
    using that assms js_get_in_set[OF wf] by (auto simp: store_ok_def js_get_in_set)
  moreover have "left_total (filter P st) \<le> left_total st"
    unfolding left_total_def by (induction st) auto
  ultimately show ?thesis
    by (simp add: no_gain_def store_ok_def)
qed

lemma updateState_get:
  "js_get (updateState runId s res e now st) k = (if k = runId
     then map_option (\<lambda>r. r\<lparr>rr_status := s,
          rr_result := (case res of Some x \<Rightarrow> Some x | None \<Rightarrow> rr_result r),
          rr_error := (case e of Some x \<Rightarrow> Some x | None \<Rightarrow> rr_error r), rr_updatedAt := now\<rparr>) (js_get st k)
     else js_get st k)"
  by (auto simp: updateState_def map_laws split: option.splits)

lemma updateState_no_gain:
  assumes "store_ok st" "s = Wr_Pending \<Longrightarrow> \<forall>r. js_get st runId = Some r \<longrightarrow> att r < MAX_ANALYSIS_ATTEMPTS"
  shows "no_gain st (updateState runId s res e now st)"
proof (cases "js_get st runId")
  case None
  then show ?thesis using no_gain_refl[OF assms(1)] by (simp add: updateState_def)
next
  case (Some r)
  have "att r < MAX_ANALYSIS_ATTEMPTS" if "s = Wr_Pending"
    using assms(2) that Some by blast
  then show ?thesis
    using store_ok_get[OF assms(1) Some] unfolding updateState_def Some option.case
    by (intro no_gain_set[OF assms(1) Some]) (auto simp: rec_ok_def att_def claims_left_def)
qed

lemma engine_no_gain:
  assumes "store_ok st" "\<And>r. js_get st k = Some r \<Longrightarrow> MAX_ANALYSIS_ATTEMPTS \<le> claims_left r"
  shows "no_gain st (engine_write k s res e now st)"
proof (cases "js_get st k")
  case None
  then show ?thesis using no_gain_refl[OF assms(1)] by (simp add: engine_write_def)
next
  case (Some r)
  then show ?thesis
    using assms(2)[OF Some] unfolding engine_write_def Some option.case
    by (intro no_gain_set[OF assms(1) Some]) (auto simp: rec_ok_def att_def claims_left_def MAX_ANALYSIS_ATTEMPTS_def)
qed

text \<open>A claim takes the oldest pending run whose payload can be read.\<close>

lemma claim_candidates_in:
  "js_wf st \<Longrightarrow> (k, r) \<in> set (claim_candidates st) \<longleftrightarrow> js_get st k = Some r \<and> rr_status r = Wr_Pending"
  by (auto simp: claim_candidates_def js_get_in_set)

lemma claim_loop_cases:
  "claim_loop w now cs st = (st, None) \<or> (\<exists>k r p. (k, r) \<in> set cs \<and> rr_payload r = Some p
     \<and> claim_loop w now cs st = (claim_write w k r p now st,
          Some (k, p\<lparr>ap_attemptCount := ap_attemptCount p + 1, ap_workerRunId := Some w\<rparr>)))"
proof (induction cs)
  case (Cons e cs)
  obtain k r where e: "e = (k, r)" by fastforce
  show ?case
  proof (cases "rr_payload r")
    case None
    then show ?thesis using Cons by (auto simp: e)
  next
    case (Some p)
    then have "claim_loop w now (e # cs) st = (claim_write w k r p now st,
        Some (k, p\<lparr>ap_attemptCount := ap_attemptCount p + 1, ap_workerRunId := Some w\<rparr>))"
      by (simp add: e claim_verify_def claim_write_def Let_def map_laws)
    then show ?thesis using Some by (auto simp: e)
  qed
qed simp

lemma claim_next_cases:
  assumes "store_ok st"
  obtains (None) "claimNextFullAnalysisRun l w now st = (st, None)"
  | (Some) k r p where "js_get st k = Some r" "rr_status r = Wr_Pending" "rr_payload r = Some p"
      "claimNextFullAnalysisRun l w now st = (claim_write w k r p now st,
        Some (k, p\<lparr>ap_attemptCount := ap_attemptCount p + 1, ap_workerRunId := Some w\<rparr>))"
proof -
  have wf: "js_wf st"
    using assms by (simp add: store_ok_def)
  from claim_loop_cases[of w now "claim_candidates st" st] show thesis
  proof (elim disjE exE conjE)
    assume "claim_loop w now (claim_candidates st) st = (st, None)"
    then show thesis
      by (intro None) (simp add: claimNextFullAnalysisRun_def)
  next
    fix k r p
    assume m: "(k, r) \<in> set (claim_candidates st)" and p: "rr_payload r = Some p"
      and c: "claim_loop w now (claim_candidates st) st = (claim_write w k r p now st,
         Some (k, p\<lparr>ap_attemptCount := ap_attemptCount p + 1, ap_workerRunId := Some w\<rparr>))"
    have "js_get st k = Some r" "rr_status r = Wr_Pending"
      using m claim_candidates_in[OF wf, of k r] by simp_all
    then show thesis
      using p c by (rule Some[unfolded claimNextFullAnalysisRun_def])
  qed
qed

lemma claim_write_facts:
  assumes "store_ok st" "js_get st k = Some r" "rr_status r = Wr_Pending" "rr_payload r = Some p"
  shows "store_ok (claim_write w k r p now st)"
    and "left_total (claim_write w k r p now st) = left_total st - 1"
    and "ap_attemptCount p < MAX_ANALYSIS_ATTEMPTS"
    and "\<exists>q. js_get (claim_write w k r p now st) k = Some q
      \<and> rr_payload q = Some (p\<lparr>ap_attemptCount := ap_attemptCount p + 1, ap_workerRunId := Some w\<rparr>)"
proof -
  show less: "ap_attemptCount p < MAX_ANALYSIS_ATTEMPTS"
    using store_ok_get[OF assms(1,2)] assms(3,4) by (auto simp: rec_ok_def att_def)
  then show "store_ok (claim_write w k r p now st)"
    using assms(1) unfolding claim_write_def by (intro store_ok_set) (auto simp: rec_ok_def att_def)
  show "left_total (claim_write w k r p now st) = left_total st - 1"
    using assms(2,4) less by (auto simp: claim_write_def left_total_set claims_left_def MAX_ANALYSIS_ATTEMPTS_def)
  show "\<exists>q. js_get (claim_write w k r p now st) k = Some q
      \<and> rr_payload q = Some (p\<lparr>ap_attemptCount := ap_attemptCount p + 1, ap_workerRunId := Some w\<rparr>)"
    by (auto simp: claim_write_def map_laws)
qed

text \<open>Recovery keeps every attempt count it can read.\<close>

lemma recover_run_no_gain:
  assumes "store_ok st" "js_get st k = Some r"
    "recover_run cutoff MAX_ANALYSIS_ATTEMPTS now (k, r) (st, a, b) = (st', a', b')"
  shows "no_gain st st' \<and> (\<forall>k'. k' \<noteq> k \<longrightarrow> js_get st' k' = js_get st k')"
proof -
  define p where "p = (case rr_payload r of Some p \<Rightarrow> p | None \<Rightarrow> fallbackPayload)\<lparr>ap_workerRunId := None\<rparr>"
  define r' where "r' = r\<lparr>rr_resourceId := ap_userId p, rr_status := Wr_Pending, rr_payload := Some p, rr_updatedAt := now\<rparr>"
  consider "st' = st"
    | "st' = js_set k r' st" "(case rr_payload r of Some p \<Rightarrow> ap_attemptCount p | None \<Rightarrow> 1) < MAX_ANALYSIS_ATTEMPTS"
    | "st' = updateState k Wr_Failed None (Some ''Job timed out -- maximum worker attempts reached.'') now st"
    using assms(3) by (auto simp: recover_run_def p_def r'_def Let_def split: if_splits)
  then show ?thesis
  proof cases
    case 1
    then show ?thesis using no_gain_refl[OF assms(1)] by simp
  next
    case 2
    have "rec_ok r'" "claims_left r' \<le> claims_left r"
      using 2(2) by (auto simp: r'_def p_def rec_ok_def att_def claims_left_def fallbackPayload_def split: option.splits)
    then show ?thesis
      using no_gain_set[OF assms(1,2)] by (simp add: 2(1) map_laws)
  next
    case 3
    then show ?thesis
      using updateState_no_gain[OF assms(1), of Wr_Failed k] by (simp add: updateState_get)
  qed
qed

lemma no_gain_trans: "no_gain a b \<Longrightarrow> no_gain b c \<Longrightarrow> no_gain a c"
  by (simp add: no_gain_def)

lemma recover_fold_no_gain:
  assumes "store_ok st" "distinct (map fst es)" "\<forall>(k, r)\<in>set es. js_get st k = Some r"
    "foldl (\<lambda>acc e. recover_run cutoff MAX_ANALYSIS_ATTEMPTS now e acc) (st, a, b) es = (st', a', b')"
  shows "no_gain st st'"
  using assms
proof (induction es arbitrary: st a b)
  case Nil
  then show ?case by (simp add: no_gain_refl)
next
  case (Cons e es)
  obtain k r where e: "e = (k, r)" by fastforce
  obtain st1 a1 b1 where s1: "recover_run cutoff MAX_ANALYSIS_ATTEMPTS now (k, r) (st, a, b) = (st1, a1, b1)"
    by (metis prod_cases3)
  have kr: "js_get st k = Some r"
    using Cons.prems(3) e by auto
  have f: "no_gain st st1" "\<And>k'. k' \<noteq> k \<Longrightarrow> js_get st1 k' = js_get st k'"
    using recover_run_no_gain[OF Cons.prems(1) kr s1] by auto
  have d: "distinct (map fst es)" "k \<notin> fst ` set es"
    using Cons.prems(2) e by auto
  have rest: "\<forall>(k', r')\<in>set es. js_get st1 k' = Some r'"
  proof (intro ballI, clarify)
    fix k' r'
    assume m: "(k', r') \<in> set es"
    then have "k' \<noteq> k" using d(2) by force
    then show "js_get st1 k' = Some r'"
      using Cons.prems(3) m f(2) by auto
  qed
  have "foldl (\<lambda>acc e. recover_run cutoff MAX_ANALYSIS_ATTEMPTS now e acc) (st1, a1, b1) es = (st', a', b')"
    using Cons.prems(4) e s1 by simp
  then have "no_gain st1 st'"
    using Cons.IH[OF _ d(1) rest] f(1) by (simp add: no_gain_def)
  then show ?case
    using f(1) no_gain_trans by blast
qed

lemma recover_no_gain:
  assumes "store_ok st"
  shows "no_gain st (fst (recoverStaleFullAnalysisRuns cutoff MAX_ANALYSIS_ATTEMPTS now st))"
proof -
  define es where "es = filter (\<lambda>(_, r). rr_status r = Wr_Running) st"
  obtain s2 a b where f: "foldl (\<lambda>acc e. recover_run cutoff MAX_ANALYSIS_ATTEMPTS now e acc) (st, 0, 0) es = (s2, a, b)"
    by (metis prod_cases3)
  have wf: "js_wf st" using assms by (simp add: store_ok_def)
  have "distinct (map fst es)"
    using js_wf_filter[OF wf] by (simp add: es_def js_wf_def js_keys_def)
  moreover have "\<forall>(k, r)\<in>set es. js_get st k = Some r"
    using js_get_in_set[OF wf] by (auto simp: es_def)
  ultimately have "no_gain st s2"
    using recover_fold_no_gain[OF assms _ _ f] by blast
  then show ?thesis
    using f by (simp add: recoverStaleFullAnalysisRuns_def es_def)
qed

lemma enqueue_facts:
  assumes "store_ok st"
  shows "store_ok (fst (enqueueFullAnalysis rid inp now st))
    \<and> left_total (fst (enqueueFullAnalysis rid inp now st)) \<le> left_total st + 6
    \<and> (\<forall>k r. js_get st k = Some r \<longrightarrow> js_get (fst (enqueueFullAnalysis rid inp now st)) k = Some r)"
proof (cases "js_has st (rid (ei_userId inp) (ei_key inp))")
  case True
  then show ?thesis using assms by (simp add: enqueueFullAnalysis_def Let_def)
next
  case False
  then show ?thesis
    using assms unfolding enqueueFullAnalysis_def Let_def
    by (auto intro!: store_ok_set simp: rec_ok_def att_def MAX_ANALYSIS_ATTEMPTS_def left_total_set
        claims_left_def js_has_def map_laws)
qed

section \<open>The invariant of the worker's queue\<close>

text \<open>The record of the run in progress still has the claimed payload, or the engine has replaced it.\<close>

definition current_ok :: "run_store \<Rightarrow> string \<Rightarrow> analysis_payload \<Rightarrow> bool" where
  "current_ok st k v \<longleftrightarrow> ap_attemptCount v \<le> MAX_ANALYSIS_ATTEMPTS
     \<and> (\<exists>r. js_get st k = Some r \<and> (rr_payload r = None \<or> rr_payload r = Some v))"

definition queue_inv :: "analysis_worker \<Rightarrow> bool" where
  "queue_inv s \<longleftrightarrow> store_ok (aw_store s)
     \<and> (case aw_current s of None \<Rightarrow> True | Some (k, v) \<Rightarrow> current_ok (aw_store s) k v)"

text \<open>The claims of a run, and the number of enqueue requests in it.\<close>

fun claimed_by :: "queue_event \<Rightarrow> analysis_worker \<Rightarrow> nat" where
  "claimed_by (Q_Claim w now) s = (if aw_current s \<noteq> None then 0
     else if snd (claimNextFullAnalysisRun True w now (aw_store s)) = None then 0 else 1)"
| "claimed_by _ s = 0"

primrec claims_made :: "(string \<Rightarrow> string \<Rightarrow> string) \<Rightarrow> (string \<Rightarrow> bool) \<Rightarrow> queue_event list \<Rightarrow> analysis_worker \<Rightarrow> nat" where
  "claims_made rid settings [] s = 0"
| "claims_made rid settings (e # evs) s = claimed_by e s + claims_made rid settings evs (queue_step rid settings e s)"

fun is_enqueue :: "queue_event \<Rightarrow> bool" where
  "is_enqueue (Q_Enqueue _ _) = True"
| "is_enqueue _ = False"

lemma settle_no_gain:
  assumes "store_ok st" "current_ok st k v"
  shows "no_gain st (settle_run (k, v) res now st)"
proof -
  obtain s' res' e' where st': "settle_run (k, v) res now st = updateState k s' res' e' now st" and
    c: "s' = Wr_Pending \<Longrightarrow> ap_attemptCount v < MAX_ANALYSIS_ATTEMPTS"
    unfolding settle_run_def completeFullAnalysisRun_def requeueFullAnalysisRun_def failFullAnalysisRun_def
    by (cases res) (fastforce split: if_splits)+
  have "att r < MAX_ANALYSIS_ATTEMPTS" if "s' = Wr_Pending" "js_get st k = Some r" for r
    using c[OF that(1)] assms(2) that(2) by (auto simp: current_ok_def att_def)
  then show ?thesis
    unfolding st' using assms(1) by (intro updateState_no_gain) simp_all
qed

lemma touch_no_gain: "store_ok st \<Longrightarrow> no_gain st (touchFullAnalysisRun k now st)"
  unfolding touchFullAnalysisRun_def by (rule updateState_no_gain) simp_all

lemma touch_current: "current_ok st k v \<Longrightarrow> current_ok (touchFullAnalysisRun k' now st) k v"
  by (auto simp: current_ok_def touchFullAnalysisRun_def updateState_get split: if_splits)

lemma queue_step_facts:
  assumes "queue_inv s" "\<not> settings []"
  shows "queue_inv (queue_step rid settings e s)
    \<and> int (claimed_by e s) + left_total (aw_store (queue_step rid settings e s))
        \<le> left_total (aw_store s) + (if is_enqueue e then 6 else 0)"
proof -
  have ok: "store_ok (aw_store s)"
    using assms(1) by (simp add: queue_inv_def)
  have cur: "current_ok (aw_store s) k v" if "aw_current s = Some (k, v)" for k v
    using assms(1) that by (simp add: queue_inv_def)
  show ?thesis
  proof (cases e)
    case (Q_Enqueue inp now)
    have "current_ok (fst (enqueueFullAnalysis rid inp now (aw_store s))) k v" if "current_ok (aw_store s) k v" for k v
      using that enqueue_facts[OF ok, of rid inp now] unfolding current_ok_def by blast
    then show ?thesis
      using enqueue_facts[OF ok, of rid inp now] Q_Enqueue cur ok by (auto simp: queue_inv_def split: option.splits)
  next
    case (Q_Claim w now)
    show ?thesis
    proof (cases "aw_current s")
      case (Some c)
      then show ?thesis using assms(1) Q_Claim by (cases c) simp
    next
      case cn: None
      from ok show ?thesis
      proof (cases rule: claim_next_cases[where l = True and w = w and now = now])
        case None
        then show ?thesis using assms(1) Q_Claim cn by (simp add: queue_inv_def)
      next
        case (Some k r p)
        note f = claim_write_facts(1,2,4)[OF ok Some(1-3), where w = w and now = now]
        have "ap_attemptCount p < MAX_ANALYSIS_ATTEMPTS"
          by (rule claim_write_facts(3)[OF ok Some(1-3)])
        then show ?thesis
          using f Q_Claim cn Some(4) by (auto simp: queue_inv_def current_ok_def)
      qed
    qed
  next
    case (Q_Heartbeat now)
    then show ?thesis
      using touch_no_gain[OF ok] touch_current cur ok assms(1)
      by (cases "aw_current s") (auto simp: queue_inv_def no_gain_def)
  next
    case (Q_Settle res now)
    then show ?thesis
      using settle_no_gain[OF ok cur] ok assms(1)
      by (cases "aw_current s") (auto simp: queue_inv_def no_gain_def)
  next
    case Q_Crash
    then show ?thesis using ok by (simp add: queue_inv_def)
  next
    case (Q_Recover cutoff now)
    then show ?thesis
      using recover_no_gain[OF ok, of cutoff now] ok assms(1)
      by (cases "aw_current s") (simp_all add: queue_inv_def no_gain_def)
  next
    case (Q_Engine st res err now)
    show ?thesis
    proof (cases "aw_current s")
      case None
      then show ?thesis using assms(1) Q_Engine by simp
    next
      case (Some c)
      obtain k v where c: "c = (k, v)" by fastforce
      show ?thesis
      proof (cases "settings (ap_userId v)")
        case False
        then show ?thesis using assms(1) Q_Engine Some c by simp
      next
        case True
        then have "ap_userId v \<noteq> []"
          using assms(2) by auto
        then have "MAX_ANALYSIS_ATTEMPTS \<le> claims_left r" if "js_get (aw_store s) k = Some r" for r
          using cur[OF Some[unfolded c]] that
          by (auto simp: current_ok_def claims_left_def MAX_ANALYSIS_ATTEMPTS_def)
        then have "no_gain (aw_store s) (engine_write k st res err now (aw_store s))"
          by (rule engine_no_gain[OF ok])
        moreover have "current_ok (engine_write k st res err now (aw_store s)) k v"
          using cur[OF Some[unfolded c]] by (auto simp: current_ok_def engine_write_def map_laws split: option.splits)
        ultimately show ?thesis
          using Q_Engine Some c True by (simp add: queue_inv_def no_gain_def)
      qed
    qed
  next
    case (Q_Late_heartbeat k now)
    then show ?thesis
      using touch_no_gain[OF ok] touch_current cur ok
      by (auto simp: queue_inv_def no_gain_def split: option.splits)
  next
    case (Q_Purge cutoff)
    then show ?thesis
      using no_gain_filter[OF ok] ok assms(1)
      by (cases "aw_current s") (simp_all add: queue_inv_def no_gain_def purgeOldFullAnalysisRuns_def Let_def)
  qed
qed

lemma queue_run_facts:
  assumes "queue_inv s" "\<not> settings []"
  shows "queue_inv (queue_run rid settings evs s)
    \<and> int (claims_made rid settings evs s) + left_total (aw_store (queue_run rid settings evs s))
        \<le> left_total (aw_store s) + 6 * int (length (filter is_enqueue evs))"
  using assms(1)
proof (induction evs arbitrary: s)
  case Nil
  then show ?case by (simp add: queue_run_def)
next
  case (Cons e evs)
  note st = queue_step_facts[where rid = rid and e = e and settings = settings, OF Cons.prems assms(2)]
  then have "queue_inv (queue_step rid settings e s)" by blast
  note IH = Cons.IH[OF this]
  have "queue_run rid settings (e # evs) s = queue_run rid settings evs (queue_step rid settings e s)"
    by (simp add: queue_run_def)
  then show ?case
    using IH st by auto
qed

section \<open>Properties\<close>

text \<open>C8: The queue never runs a job for ever: in every run of one worker, with crashes, heartbeats
  (late ones, too), transient and permanent failures, recoveries of stale runs, purges and the
  snapshots that the workflow engine writes over the record of the run in progress, in any order,
  the number of claims is at most six times the number of enqueue requests, and no record ever
  counts more than three attempts. Six and not three, because the engine's snapshot replaces the
  payload that carries the count; the recovery of such a run starts again from zero. Nobody's
  settings are stored under the empty user id of the fallback payload.\<close>

theorem claims_bounded:
  assumes "\<not> settings []"
  shows "claims_made rid settings evs empty_queue \<le> 6 * length (filter is_enqueue evs)
    \<and> (case js_get (aw_store (queue_run rid settings evs empty_queue)) k of None \<Rightarrow> True | Some r \<Rightarrow> att r \<le> 3)"
proof -
  have "queue_inv empty_queue"
    by (simp add: queue_inv_def empty_queue_def store_ok_def)
  note f = queue_run_facts[where rid = rid and evs = evs and settings = settings, OF this assms]
  have ok: "store_ok (aw_store (queue_run rid settings evs empty_queue))"
    using f by (simp add: queue_inv_def)
  have "0 \<le> left_total (aw_store (queue_run rid settings evs empty_queue))"
    by (auto simp: left_total_def intro!: sum_list_nonneg)
  then have "int (claims_made rid settings evs empty_queue) \<le> 6 * int (length (filter is_enqueue evs))"
    using f by (simp add: empty_queue_def left_total_def)
  moreover have "att r \<le> 3" if "js_get (aw_store (queue_run rid settings evs empty_queue)) k = Some r" for r
    using store_ok_get[OF ok that] by (simp add: rec_ok_def MAX_ANALYSIS_ATTEMPTS_def)
  ultimately show ?thesis by (auto split: option.splits)
qed

text \<open>
  One submission that is claimed six times: twice the settings cannot be loaded, the third attempt
  crashes after the engine wrote its snapshot, and the recovered run fails three times more.
\<close>

definition six_claims :: "queue_event list" where
  "six_claims =
     (let again = [Q_Settle (Run_Error True ''connection'') 0, Q_Claim ''w'' 0] in
      [Q_Enqueue \<lparr>ei_userId = ''u'', ei_threadId = ''t'', ei_text = ''q'', ei_key = ''k''\<rparr> 0, Q_Claim ''w'' 0]
      @ again @ again @ [Q_Engine Wr_Running None None 0, Q_Crash, Q_Recover 5 5, Q_Claim ''w'' 5] @ again @ again
      @ [Q_Settle (Run_Error True ''connection'') 9, Q_Claim ''w'' 9])"

theorem claims_bounded_witness:
  "claims_made (\<lambda>u k. u @ k) (\<lambda>u. u = ''u'') six_claims empty_queue = 6
   \<and> claims_made (\<lambda>u k. u @ k) (\<lambda>u. u = ''u'') six_claims empty_queue \<le> 6 * length (filter is_enqueue six_claims)"
proof
  show "claims_made (\<lambda>u k. u @ k) (\<lambda>u. u = ''u'') six_claims empty_queue = 6"
    by code_simp
  show "claims_made (\<lambda>u k. u @ k) (\<lambda>u. u = ''u'') six_claims empty_queue \<le> 6 * length (filter is_enqueue six_claims)"
    by (rule claims_bounded[THEN conjunct1]) simp
qed

text \<open>
  A transient failure after the engine wrote its snapshot loses the run: it goes back to pending
  without a payload, and every claim passes over it.
\<close>

lemma requeued_without_payload_never_claimed:
  assumes "store_ok st" "js_get st k = Some r" "rr_payload r = None"
    and "claimNextFullAnalysisRun l w now (requeueFullAnalysisRun k msg t st) = (st', Some (k', v))"
  shows "k' \<noteq> k"
proof -
  have none: "rr_payload q = None" if "js_get (requeueFullAnalysisRun k msg t st) k = Some q" for q
    using that assms(2,3) by (auto simp: requeueFullAnalysisRun_def updateState_get)
  have ok: "store_ok (requeueFullAnalysisRun k msg t st)"
    using updateState_no_gain[OF assms(1), of Wr_Pending k None "Some msg" t] assms(2,3)
    by (simp add: requeueFullAnalysisRun_def no_gain_def att_def MAX_ANALYSIS_ATTEMPTS_def)
  from ok show ?thesis
  proof (cases rule: claim_next_cases[where l = l and w = w and now = now])
    case None
    then show ?thesis using assms(4) by simp
  next
    case (Some k2 r2 p2)
    then show ?thesis using assms(4) none by auto
  qed
qed

text \<open>Two workers can claim the same run. Reading the run before the other's write is enough:
  each write is followed by a check of the writer's own token, so both checks succeed and both
  workers execute the run. The advisory lock does not prevent it, because a worker that does not
  obtain the lock scans the queue all the same.\<close>

theorem double_claim:
  assumes "js_get st k = Some r" "rr_status r = Wr_Pending" "rr_payload r = Some p" "wA \<noteq> wB"
  shows "(let st1 = claim_write wA k r p nowA st; st2 = claim_write wB k r p nowB st1 in
    claim_verify wA k p st1 \<noteq> None \<and> claim_verify wB k p st2 \<noteq> None
    \<and> claimNextFullAnalysisRun False wB nowB st = claimNextFullAnalysisRun True wB nowB st)"
  unfolding Let_def
  by (simp add: claim_write_def claim_verify_def map_laws claimNextFullAnalysisRun_def)

lemma double_claim_witness:
  "(let p = \<lparr>ap_userId = ''u'', ap_threadId = ''t'', ap_text = ''q'', ap_key = ''k'', ap_attemptCount = 0, ap_workerRunId = None\<rparr>;
        r = \<lparr>rr_resourceId = ''u'', rr_status = Wr_Pending, rr_payload = Some p, rr_result = None, rr_error = None,
             rr_createdAt = 0, rr_updatedAt = 0\<rparr>;
        st1 = claim_write ''A'' ''uk'' r p 1 [(''uk'', r)] in
      claim_verify ''A'' ''uk'' p st1 \<noteq> None \<and> claim_verify ''B'' ''uk'' p (claim_write ''B'' ''uk'' r p 2 st1) \<noteq> None)"
proof -
  define p where "p = \<lparr>ap_userId = ''u'', ap_threadId = ''t'', ap_text = ''q'', ap_key = ''k'', ap_attemptCount = 0, ap_workerRunId = None\<rparr>"
  define r where "r = \<lparr>rr_resourceId = ''u'', rr_status = Wr_Pending, rr_payload = Some p, rr_result = None, rr_error = None,
             rr_createdAt = 0, rr_updatedAt = 0\<rparr>"
  have "js_get [(''uk'', r)] ''uk'' = Some r" "rr_status r = Wr_Pending" "rr_payload r = Some p" "''A'' \<noteq> ''B''"
    by (simp_all add: r_def)
  from double_claim[OF this, of 1 2] show ?thesis
    by (simp add: Let_def r_def p_def)
qed

text \<open>A heartbeat that arrives after the run was settled reopens it: the status goes back to running,
  also from a terminal state, and the result stays.\<close>

lemma late_heartbeat_reopens:
  "js_get st k = Some r
    \<Longrightarrow> \<exists>r'. js_get (touchFullAnalysisRun k now st) k = Some r' \<and> rr_status r' = Wr_Running \<and> rr_result r' = rr_result r"
  by (simp add: touchFullAnalysisRun_def updateState_get)

text \<open>The lock key is a number PostgreSQL accepts as a \<open>bigint\<close>, at most \<open>2 ^ 31\<close>.\<close>

lemma hashTo32Bit_bounds: "0 \<le> hashTo32Bit s \<and> hashTo32Bit s \<le> 2 ^ 31"
proof -
  define w where "w = foldl hash_step 5381 s"
  have "- (2 ^ 31) \<le> sint w" "sint w < 2 ^ 31"
    using sint_ge[of w] sint_lt[of w] by simp_all
  then show ?thesis by (simp add: hashTo32Bit_def w_def[symmetric])
qed

lemma every_reservation_closed:
  "process_budget st = [] \<or> (\<exists>a. process_budget st = [B_Reserve, a] \<and> a \<noteq> B_Reserve)"
  by (cases st rule: process_budget.cases) simp_all

end
