(* ===== verification/Resilience.thy ===== *)
theory Resilience
  imports Js_Regex Js_Map Contracts
begin

text \<open>
  What keeps model calls going when providers fail, \<open>packages/ai/src\<close>: the classification of errors
  (\<open>fallback.ts\<close>), retries with backoff (\<open>retry.ts\<close>), the circuit breaker per model
  (\<open>model-circuit-breaker.ts\<close>), the headroom governor fed by rate-limit headers
  (\<open>rate-limits.ts\<close>, \<open>llm-throttle.ts\<close>), and the request limiter per user and minute
  (\<open>packages/db/src/rate-limit.ts\<close>). The clock, the outcomes of the attempts and the abort signal at
  each point where it is read are arguments.
\<close>

section \<open>Classification of errors\<close>

text \<open>An error as the classifier sees it: the numbers found under \<open>statusCode\<close>, \<open>status\<close>,
  \<open>httpStatus\<close>, \<open>code\<close> and \<open>response.status\<close>, in this order, and the message.\<close>

record call_error =
  ce_codes :: "int option list"
  ce_message :: string

datatype fallback_reason =
    R_Auth | R_Rate_Limit | R_Upstream | R_Context_Overflow | R_Timeout | R_Hard_Error | R_Unknown

record fallback_decision =
  fd_fallback :: bool
  fd_reason :: fallback_reason

definition getStatusCode :: "call_error \<Rightarrow> int option" where
  "getStatusCode e = (case List.find (\<lambda>v. case v of None \<Rightarrow> False | Some n \<Rightarrow> 100 \<le> n \<and> n < 600) (ce_codes e) of
     Some v \<Rightarrow> v | None \<Rightarrow> None)"

definition gap :: "rx list \<Rightarrow> rx" where   \<comment> \<open>parts separated by \<open>\s*\<close>\<close>
  "gap rs = foldr (\<lambda>r acc. if acc = Eps then r else seq [r, ws0, acc]) rs Eps"

definition AUTH_RX :: rx where
  "AUTH_RX = alt [lit ''unauthor'', lit ''forbidden'', gap [lit ''invalid'', lit ''api'', lit ''key''],
     gap [lit ''incorrect'', lit ''api'', lit ''key'']]"

definition RATE_RX :: rx where
  "RATE_RX = alt [gap [lit ''rate'', lit ''limit''], gap [lit ''too'', lit ''many'', lit ''requests''], lit ''quota'']"

definition TIMEOUT_RX :: rx where
  "TIMEOUT_RX = alt [lit ''timeout'', gap [seq [lit ''time'', opt (lit ''d'')], lit ''out''], lit ''aborted'',
     lit ''network'', gap [lit ''fetch'', lit ''failed'']]"

definition CTX_OVERFLOW_RX :: rx where
  "CTX_OVERFLOW_RX = alt [
     gap [lit ''context'', words_of [''length'', ''window'', ''limit'', ''size'']],
     gap [lit ''maximum'', lit ''context''], gap [lit ''reduce'', lit ''the'', lit ''length''],
     gap [lit ''too'', lit ''many'', lit ''tokens''], seq [lit ''max'', opt (One (CSet ''_-'')), lit ''token'', opt (lit ''s'')],
     gap [lit ''input'', lit ''is'', lit ''too'', words_of [''long'', ''large'']],
     seq [lit ''exceeds'', ws0, opt (seq [lit ''the'', ws0]), words_of [''context'', ''limit'', ''maximum'']],
     seq [lit ''token'', ws0, opt (seq [lit ''count'', ws0]), lit ''exceeds''],
     gap [lit ''too'', words_of [''long'', ''large'', ''many'']],
     seq [lit ''exceed'', Many (One CWord), ws0, opt (seq [lit ''the'', ws0]), words_of [''context'', ''limit'', ''max'']]]"

definition classifyStreamError :: "call_error \<Rightarrow> fallback_decision" where
  "classifyStreamError e =
     (let st = getStatusCode e; m = toLowerCase (ce_message e) in
      if st = Some 401 \<or> st = Some 403 \<or> rx_test AUTH_RX m then \<lparr>fd_fallback = True, fd_reason = R_Auth\<rparr>
      else if st = Some 429 \<or> rx_test RATE_RX m then \<lparr>fd_fallback = True, fd_reason = R_Rate_Limit\<rparr>
      else if (case st of Some n \<Rightarrow> 500 \<le> n \<and> n < 600 | None \<Rightarrow> False)
        then \<lparr>fd_fallback = True, fd_reason = R_Upstream\<rparr>
      else if (st = Some 400 \<or> st = Some 413 \<or> st = None) \<and> rx_test CTX_OVERFLOW_RX m
        then \<lparr>fd_fallback = True, fd_reason = R_Context_Overflow\<rparr>
      else if rx_test TIMEOUT_RX m then \<lparr>fd_fallback = True, fd_reason = R_Timeout\<rparr>
      else if (case st of Some n \<Rightarrow> 400 \<le> n \<and> n < 500 | None \<Rightarrow> False)
        then \<lparr>fd_fallback = False, fd_reason = R_Hard_Error\<rparr>
      else \<lparr>fd_fallback = False, fd_reason = R_Unknown\<rparr>)"

definition shouldFallback :: "call_error \<Rightarrow> bool" where
  "shouldFallback e = fd_fallback (classifyStreamError e)"

definition isTransientByDefault :: "call_error \<Rightarrow> bool" where
  "isTransientByDefault e \<longleftrightarrow> (let r = fd_reason (classifyStreamError e) in
     r = R_Rate_Limit \<or> r = R_Upstream \<or> r = R_Timeout \<or> r = R_Unknown)"

section \<open>Retries\<close>

text \<open>A \<open>Retry-After\<close> hint as its text reads: a number of seconds, a date, or neither.\<close>

datatype retry_after = Ra_Seconds real | Ra_Date real | Ra_Other

definition getRetryAfterMs :: "real \<Rightarrow> retry_after option \<Rightarrow> real option" where
  "getRetryAfterMs now raw =
     (case raw of None \<Rightarrow> None
      | Some (Ra_Seconds s) \<Rightarrow> Some (min (s * 1000) 60000)
      | Some (Ra_Date t) \<Rightarrow> if t - now > 0 then Some (min (t - now) 60000) else None
      | Some Ra_Other \<Rightarrow> None)"

record retry_options =
  ro_maxAttempts :: nat
  ro_baseDelayMs :: real
  ro_maxDelayMs :: real
  ro_maxRetryAfterMs :: real

definition default_retry :: retry_options where
  "default_retry = \<lparr>ro_maxAttempts = 3, ro_baseDelayMs = 500, ro_maxDelayMs = 10000, ro_maxRetryAfterMs = 30000\<rparr>"

definition retry_jitter :: "real \<Rightarrow> real \<Rightarrow> nat \<Rightarrow> real \<Rightarrow> real" where
  "retry_jitter random base attempt mx = min (random * (base * 2 ^ attempt)) mx"

definition retry_delay :: "retry_options \<Rightarrow> real \<Rightarrow> nat \<Rightarrow> real option \<Rightarrow> real" where
  "retry_delay rops random attempt retryAfterMs =
     (let baseDelay = retry_jitter random (ro_baseDelayMs rops) attempt (ro_maxDelayMs rops) in
      case retryAfterMs of None \<Rightarrow> baseDelay | Some ra \<Rightarrow> min (max baseDelay ra) (ro_maxRetryAfterMs rops))"

datatype ('e, 'a) retry_result = Returned 'a | Threw 'e | Threw_Abort | Threw_Undefined

text \<open>
  One environment of a run: the outcome of each attempt, the random numbers and retry hints, and
  whether the signal is aborted before the attempt, after its failure and during the wait.
\<close>

record ('e, 'a) retry_env =
  re_attempt :: "nat \<Rightarrow> 'e + 'a"
  re_random :: "nat \<Rightarrow> real"
  re_retryAfter :: "nat \<Rightarrow> real option"
  re_aborted_before :: "nat \<Rightarrow> bool"
  re_aborted_after :: "nat \<Rightarrow> bool"
  re_aborted_waiting :: "nat \<Rightarrow> bool"

text \<open>The loop of \<open>withRetry\<close>: \<open>left\<close> is the number of attempts not made yet. The result carries the
  number of calls made and the delays waited for.\<close>

fun retry_loop :: "retry_options \<Rightarrow> ('e \<Rightarrow> nat \<Rightarrow> bool) \<Rightarrow> ('e, 'a) retry_env \<Rightarrow> nat \<Rightarrow> nat \<Rightarrow> 'e option
    \<Rightarrow> ('e, 'a) retry_result \<times> nat \<times> real list" where
  "retry_loop rops isRetryable env attempt 0 lastErr =
     (case lastErr of None \<Rightarrow> Threw_Undefined | Some e \<Rightarrow> Threw e, attempt, [])"
| "retry_loop rops isRetryable env attempt (Suc left) lastErr =
     (if re_aborted_before env attempt then (Threw_Abort, attempt, [])
      else case re_attempt env attempt of
        Inr v \<Rightarrow> (Returned v, attempt + 1, [])
      | Inl err \<Rightarrow>
          if left = 0 then (Threw err, attempt + 1, [])
          else if \<not> isRetryable err attempt then (Threw err, attempt + 1, [])
          else if re_aborted_after env attempt then (Threw err, attempt + 1, [])
          else
            let d = retry_delay rops (re_random env attempt) attempt (re_retryAfter env attempt) in
            if re_aborted_waiting env attempt then (Threw_Abort, attempt + 1, [d])
            else case retry_loop rops isRetryable env (attempt + 1) left (Some err) of
              (r, calls, ds) \<Rightarrow> (r, calls, d # ds))"

definition withRetry :: "retry_options \<Rightarrow> ('e \<Rightarrow> nat \<Rightarrow> bool) \<Rightarrow> ('e, 'a) retry_env
    \<Rightarrow> ('e, 'a) retry_result \<times> nat \<times> real list" where
  "withRetry rops isRetryable env = retry_loop rops isRetryable env 0 (ro_maxAttempts rops) None"

section \<open>Circuit breaker\<close>

record circuit_state =
  ci_failures :: nat
  ci_openedAt :: ms

type_synonym circuits = "(string, circuit_state) js_map"

definition FAILURE_THRESHOLD :: nat where "FAILURE_THRESHOLD = 3"
definition OPEN_DURATION_MS :: ms where "OPEN_DURATION_MS = 30000"
definition CIRCUIT_WINDOW_MS :: ms where "CIRCUIT_WINDOW_MS = 60000"

definition recordModelSuccess :: "string \<Rightarrow> circuits \<Rightarrow> circuits" where
  "recordModelSuccess m cs = js_delete m cs"

definition recordModelFailure :: "string \<Rightarrow> ms \<Rightarrow> circuits \<Rightarrow> circuits \<times> bool" where
  "recordModelFailure m now cs =
     (case js_get cs m of
        None \<Rightarrow> (js_set m \<lparr>ci_failures = 1, ci_openedAt = now\<rparr> cs, False)
      | Some s \<Rightarrow>
          if now - ci_openedAt s > CIRCUIT_WINDOW_MS
          then (js_set m \<lparr>ci_failures = 1, ci_openedAt = now\<rparr> cs, False)
          else let n = ci_failures s + 1 in
            (js_set m (s\<lparr>ci_failures := n\<rparr>) cs, n \<ge> FAILURE_THRESHOLD))"

definition isCircuitOpen :: "string \<Rightarrow> ms \<Rightarrow> circuits \<Rightarrow> circuits \<times> bool" where
  "isCircuitOpen m now cs =
     (case js_get cs m of
        None \<Rightarrow> (cs, False)
      | Some s \<Rightarrow>
          if ci_failures s < FAILURE_THRESHOLD then (cs, False)
          else if now - ci_openedAt s > OPEN_DURATION_MS then (js_delete m cs, False)
          else (cs, True))"

section \<open>Headroom governor\<close>

record rate_limit_data =
  rl_remainingRequests :: "int option"
  rl_remainingTokens :: "int option"
  rl_resetRequests :: "string option"
  rl_resetTokens :: "string option"

text \<open>The headers of the answer, names in lower case; a later provider's header wins. \<open>parseInt\<close> is
  the language's, \<open>None\<close> for \<open>NaN\<close>.\<close>

definition header_int :: "(string \<Rightarrow> int option) \<Rightarrow> (string, string) js_map \<Rightarrow> string \<Rightarrow> string \<Rightarrow> int option option" where
  "header_int parseInt hs a b = (case js_get hs b of Some v \<Rightarrow> Some (parseInt v)
     | None \<Rightarrow> (case js_get hs a of Some v \<Rightarrow> Some (parseInt v) | None \<Rightarrow> None))"

definition header_str :: "(string, string) js_map \<Rightarrow> string \<Rightarrow> string \<Rightarrow> string option" where
  "header_str hs a b = (case js_get hs b of Some v \<Rightarrow> Some v | None \<Rightarrow> js_get hs a)"

definition extractRateLimits :: "(string \<Rightarrow> int option) \<Rightarrow> (string \<times> string) list option \<Rightarrow> rate_limit_data option" where
  "extractRateLimits parseInt headers =
     (case headers of None \<Rightarrow> None
      | Some raw \<Rightarrow>
          let hs = foldl (\<lambda>m (k, v). js_set (toLowerCase k) v m) [] raw;
              rr = header_int parseInt hs ''x-ratelimit-remaining-requests'' ''anthropic-ratelimit-requests-remaining'';
              rt = header_int parseInt hs ''x-ratelimit-remaining-tokens'' ''anthropic-ratelimit-tokens-remaining'';
              sr = header_str hs ''x-ratelimit-reset-requests'' ''anthropic-ratelimit-requests-reset'';
              st = header_str hs ''x-ratelimit-reset-tokens'' ''anthropic-ratelimit-tokens-reset'' in
          if rr = None \<and> rt = None \<and> sr = None \<and> st = None then None
          else Some \<lparr>rl_remainingRequests = Option.bind rr id, rl_remainingTokens = Option.bind rt id,
                     rl_resetRequests = sr, rl_resetTokens = st\<rparr>)"

record throttle_entry =
  te_remainingRequests :: "int option"
  te_remainingTokens :: "int option"
  te_resetRequestsMs :: ms
  te_resetTokensMs :: ms

definition MAX_WAIT_MS :: ms where "MAX_WAIT_MS = 5000"

text \<open>\<open>parseReset\<close> turns a reset text and the current time into a point in time.\<close>

definition noteLlmRateLimit :: "(string \<Rightarrow> ms \<Rightarrow> ms) \<Rightarrow> string \<Rightarrow> rate_limit_data \<Rightarrow> ms \<Rightarrow> (string, throttle_entry) js_map
    \<Rightarrow> (string, throttle_entry) js_map" where
  "noteLlmRateLimit parseReset key d now store =
     js_set key \<lparr>te_remainingRequests = rl_remainingRequests d, te_remainingTokens = rl_remainingTokens d,
       te_resetRequestsMs = (case rl_resetRequests d of Some r \<Rightarrow> parseReset r now
         | None \<Rightarrow> (case js_get store key of Some e \<Rightarrow> te_resetRequestsMs e | None \<Rightarrow> 0)),
       te_resetTokensMs = (case rl_resetTokens d of Some r \<Rightarrow> parseReset r now
         | None \<Rightarrow> (case js_get store key of Some e \<Rightarrow> te_resetTokensMs e | None \<Rightarrow> 0))\<rparr> store"

text \<open>\<open>awaitLlmHeadroom\<close> returns the store and the time it sleeps.\<close>

definition awaitLlmHeadroom :: "string \<Rightarrow> ms \<Rightarrow> (string, throttle_entry) js_map \<Rightarrow> (string, throttle_entry) js_map \<times> ms" where
  "awaitLlmHeadroom key now store =
     (case js_get store key of None \<Rightarrow> (store, 0)
      | Some e \<Rightarrow>
          if (case te_remainingRequests e of Some n \<Rightarrow> n \<le> 0 | None \<Rightarrow> False)
          then (js_delete key store,
                if te_resetRequestsMs e > now then min (te_resetRequestsMs e - now) MAX_WAIT_MS else 0)
          else if (case te_remainingTokens e of Some n \<Rightarrow> n \<le> 0 | None \<Rightarrow> False)
          then (js_delete key store,
                if te_resetTokensMs e > now then min (te_resetTokensMs e - now) MAX_WAIT_MS else 0)
          else (store, 0))"

section \<open>Requests per user and minute\<close>

type_synonym rate_table = "(string \<times> string \<times> int, int) js_map"

record rate_limit_result =
  rr_allowed :: bool
  rr_count :: int
  rr_limit :: int

definition withRateLimit :: "string \<Rightarrow> string \<Rightarrow> int \<Rightarrow> ms \<Rightarrow> rate_table \<Rightarrow> rate_table \<times> rate_limit_result" where
  "withRateLimit userId endpointGroup limit now table =
     (let k = (userId, endpointGroup, now div 60000);
          count = (case js_get table k of Some c \<Rightarrow> c + 1 | None \<Rightarrow> 1) in
      (js_set k count table, \<lparr>rr_allowed = (count \<le> limit), rr_count = count, rr_limit = limit\<rparr>))"

section \<open>Retries: what comes back\<close>

definition never_aborted :: "('e, 'a) retry_env \<Rightarrow> bool" where
  "never_aborted env \<longleftrightarrow> re_aborted_before env = (\<lambda>_. False) \<and> re_aborted_after env = (\<lambda>_. False)
     \<and> re_aborted_waiting env = (\<lambda>_. False)"

definition retryable_failure :: "('e \<Rightarrow> nat \<Rightarrow> bool) \<Rightarrow> ('e, 'a) retry_env \<Rightarrow> nat \<Rightarrow> bool" where
  "retryable_failure p env i = (case re_attempt env i of Inl e \<Rightarrow> p e i | Inr _ \<Rightarrow> False)"

definition wait_of :: "retry_options \<Rightarrow> ('e, 'a) retry_env \<Rightarrow> nat \<Rightarrow> real" where
  "wait_of rops env i = retry_delay rops (re_random env i) i (re_retryAfter env i)"

definition outcome_of :: "'e + 'a \<Rightarrow> ('e, 'a) retry_result" where
  "outcome_of r = (case r of Inl e \<Rightarrow> Threw e | Inr v \<Rightarrow> Returned v)"

lemma retry_loop_stops:
  assumes "never_aborted env" "left = 0 \<or> \<not> retryable_failure p env a"
  shows "retry_loop rops p env a (Suc left) le = (outcome_of (re_attempt env a), Suc a, [])"
  using assms
  by (auto simp: never_aborted_def retryable_failure_def outcome_of_def split: sum.splits)

lemma retry_loop_goes_on:
  assumes "never_aborted env" "retryable_failure p env a" "retry_loop rops p env (Suc a) (Suc left) = f"
  shows "\<exists>e. retry_loop rops p env a (Suc (Suc left)) le = (case f (Some e) of (r, calls, ds) \<Rightarrow> (r, calls, wait_of rops env a # ds))"
  using assms
  by (auto simp: never_aborted_def retryable_failure_def wait_of_def Let_def split: sum.splits)

lemma retry_loop_exact:
  assumes "never_aborted env" "\<And>i. i < k \<Longrightarrow> retryable_failure p env (a + i)"
    "k = left \<or> \<not> retryable_failure p env (a + k)" "k \<le> left"
  shows "retry_loop rops p env a (Suc left) le
    = (outcome_of (re_attempt env (a + k)), Suc (a + k), map (wait_of rops env) [a..<a + k])"
  using assms(2-)
proof (induction k arbitrary: a left le)
  case 0
  then show ?case using retry_loop_stops [OF assms(1), of left p a rops le] by auto
next
  case (Suc k)
  obtain l where l: "left = Suc l" using Suc.prems(3) by (cases left) auto
  have IH: "retry_loop rops p env (Suc a) (Suc l) le'
      = (outcome_of (re_attempt env (Suc a + k)), Suc (Suc a + k), map (wait_of rops env) [Suc a..<Suc a + k])" for le'
  proof (rule Suc.IH)
    show "retryable_failure p env (Suc a + i)" if "i < k" for i using Suc.prems(1) [of "Suc i"] that by simp
  qed (use Suc.prems l in auto)
  have "retryable_failure p env a" using Suc.prems(1) [of 0] by simp
  from retry_loop_goes_on [OF assms(1) this refl, of rops l le] obtain e where
    "retry_loop rops p env a (Suc left) le
      = (case retry_loop rops p env (Suc a) (Suc l) (Some e) of (r, calls, ds) \<Rightarrow> (r, calls, wait_of rops env a # ds))"
    unfolding l by blast
  moreover have "[a..<a + Suc k] = a # [Suc a..<Suc a + k]" by (subst upt_conv_Cons) auto
  ultimately show ?case by (simp add: IH del: upt_Suc retry_loop.simps)
qed

text \<open>
  C33: Without a cancellation the retries end at the first attempt that succeeds or fails for good, or at
  the last one allowed, and its outcome is the result: the value, or the error of that very attempt.
  Exactly the attempts up to it are made, with one wait before each but the first.
\<close>

theorem retry_returns_first_final_attempt:
  assumes "never_aborted env" "k < ro_maxAttempts rops" "\<forall>i < k. retryable_failure p env i"
    "Suc k = ro_maxAttempts rops \<or> \<not> retryable_failure p env k"
  shows "withRetry rops p env = (outcome_of (re_attempt env k), Suc k, map (wait_of rops env) [0..<k])"
proof -
  obtain l where "ro_maxAttempts rops = Suc l" using assms(2) by (cases "ro_maxAttempts rops") auto
  then show ?thesis unfolding withRetry_def
    using retry_loop_exact [of env k p 0 l rops None] assms by (auto simp del: retry_loop.simps)
qed

definition http_error :: "int \<Rightarrow> string \<Rightarrow> call_error" where
  "http_error st msg = \<lparr>ce_codes = [Some st], ce_message = msg\<rparr>"

definition scripted :: "('e + 'a) list \<Rightarrow> ('e, 'a) retry_env" where
  "scripted outs = \<lparr>re_attempt = (\<lambda>i. outs ! i), re_random = (\<lambda>_. 1 / 2), re_retryAfter = (\<lambda>_. None),
     re_aborted_before = (\<lambda>_. False), re_aborted_after = (\<lambda>_. False), re_aborted_waiting = (\<lambda>_. False)\<rparr>"

lemma classify_503: "classifyStreamError (http_error 503 ''overloaded'') = \<lparr>fd_fallback = True, fd_reason = R_Upstream\<rparr>"
  by code_simp

theorem retry_returns_first_final_attempt_witness:
  "withRetry default_retry (\<lambda>e _. isTransientByDefault e) (scripted [Inl (http_error 503 ''overloaded''), Inr (7::int)])
     = (Returned 7, 2, [250])"
  using retry_returns_first_final_attempt [of "scripted [Inl (http_error 503 ''overloaded''), Inr (7::int)]"
      1 default_retry "\<lambda>e _. isTransientByDefault e"]
  by (simp add: scripted_def never_aborted_def retryable_failure_def isTransientByDefault_def classify_503
      default_retry_def outcome_of_def wait_of_def retry_delay_def retry_jitter_def)

lemma unknown_errors_take_three_calls:
  assumes "never_aborted env" "\<And>i. i < 3 \<Longrightarrow> \<exists>e. re_attempt env i = Inl e \<and> fd_reason (classifyStreamError e) = R_Unknown"
  shows "fst (snd (withRetry default_retry (\<lambda>e _. isTransientByDefault e) env)) = 3"
proof -
  have "\<forall>i < 2. retryable_failure (\<lambda>e _. isTransientByDefault e) env i"
  proof (intro allI impI)
    fix i :: nat assume "i < 2"
    then obtain e where "re_attempt env i = Inl e" "fd_reason (classifyStreamError e) = R_Unknown"
      using assms(2) [of i] by auto
    then show "retryable_failure (\<lambda>e _. isTransientByDefault e) env i"
      by (simp add: retryable_failure_def isTransientByDefault_def)
  qed
  then have "withRetry default_retry (\<lambda>e _. isTransientByDefault e) env
      = (outcome_of (re_attempt env 2), Suc 2, map (wait_of default_retry env) [0..<2])"
    using retry_loop_exact [of env 2 "\<lambda>e _. isTransientByDefault e" 0 2 default_retry None] assms(1)
    by (simp add: withRetry_def default_retry_def eval_nat_numeral del: retry_loop.simps upt_Suc)
  then show ?thesis by simp
qed

section \<open>Retries: calls and waits are bounded\<close>

lemma retry_delay_bounds:
  assumes "0 \<le> random" "0 \<le> ro_baseDelayMs rops" "0 \<le> ro_maxDelayMs rops" "0 \<le> ro_maxRetryAfterMs rops"
    "ro_maxDelayMs rops \<le> ro_maxRetryAfterMs rops"
  shows "0 \<le> retry_delay rops random a ra \<and> retry_delay rops random a ra \<le> ro_maxRetryAfterMs rops"
  using assms by (auto simp: retry_delay_def retry_jitter_def Let_def le_max_iff_disj split: option.splits)

lemma retry_loop_bounds:
  assumes "\<And>i. 0 \<le> re_random env i" "0 \<le> ro_baseDelayMs rops" "0 \<le> ro_maxDelayMs rops"
    "ro_maxDelayMs rops \<le> ro_maxRetryAfterMs rops" "retry_loop rops p env a n le = (r, calls, ds)"
  shows "a \<le> calls \<and> calls \<le> a + n \<and> length ds \<le> n - 1
    \<and> (\<forall>d \<in> set ds. 0 \<le> d \<and> d \<le> ro_maxRetryAfterMs rops)"
  using assms(5)
proof (induction n arbitrary: a le r calls ds)
  case 0
  then show ?case by auto
next
  case (Suc n)
  have d: "0 \<le> retry_delay rops (re_random env a) a ra \<and> retry_delay rops (re_random env a) a ra \<le> ro_maxRetryAfterMs rops" for ra
    by (rule retry_delay_bounds) (use assms in auto)
  show ?case
  proof (cases "re_attempt env a")
    case (Inr v)
    then show ?thesis using Suc.prems by (auto split: if_splits)
  next
    case (Inl e)
    obtain r' c' ds' where rec: "retry_loop rops p env (Suc a) n (Some e) = (r', c', ds')" by (metis prod_cases3)
    let ?d = "retry_delay rops (re_random env a) a (re_retryAfter env a)"
    have step: "retry_loop rops p env a (Suc n) le
        = (if re_aborted_before env a then (Threw_Abort, a, [])
           else if n = 0 \<or> \<not> p e a \<or> re_aborted_after env a then (Threw e, Suc a, [])
           else if re_aborted_waiting env a then (Threw_Abort, Suc a, [?d])
           else (r', c', ?d # ds'))"
      by (simp add: Inl rec Let_def)
    show ?thesis using Suc.IH [OF rec] Suc.prems [unfolded step] d
      by (auto split: if_splits)
  qed
qed

lemma sum_list_le_cap: "(\<And>d. d \<in> set ds \<Longrightarrow> d \<le> c) \<Longrightarrow> sum_list ds \<le> real (length ds) * c"
  by (induction ds) (auto simp: algebra_simps intro: add_mono)

text \<open>
  Whatever the outcomes, hints and cancellations, a call makes at most the allowed number of attempts
  and waits at most once fewer, each time no longer than the cap of the hints; with the default
  settings that is three attempts and one minute of waiting in all.
\<close>

theorem retry_effort_bounded:
  assumes "\<forall>i. 0 \<le> re_random env i" "0 \<le> ro_baseDelayMs rops" "0 \<le> ro_maxDelayMs rops"
    "ro_maxDelayMs rops \<le> ro_maxRetryAfterMs rops"
  shows "case withRetry rops p env of (r, calls, ds) \<Rightarrow>
     calls \<le> ro_maxAttempts rops \<and> length ds \<le> ro_maxAttempts rops - 1 \<and> (\<forall>d \<in> set ds. 0 \<le> d)
     \<and> sum_list ds \<le> real (ro_maxAttempts rops - 1) * ro_maxRetryAfterMs rops"
proof -
  obtain r calls ds where eq: "withRetry rops p env = (r, calls, ds)" by (metis prod_cases3)
  note b = retry_loop_bounds [of env rops p 0 "ro_maxAttempts rops" None r calls ds,
      OF assms(1) [rule_format] assms(2,3,4) eq [unfolded withRetry_def]]
  have "sum_list ds \<le> real (length ds) * ro_maxRetryAfterMs rops" by (rule sum_list_le_cap) (use b in auto)
  also have "\<dots> \<le> real (ro_maxAttempts rops - 1) * ro_maxRetryAfterMs rops"
    by (rule mult_right_mono) (use b assms in \<open>auto intro: of_nat_mono\<close>)
  finally show ?thesis using b by (simp add: eq)
qed

theorem retry_effort_bounded_witness:
  "case withRetry default_retry (\<lambda>e _. isTransientByDefault e) (scripted [Inl (http_error 503 ''overloaded''), Inr (7::int)])
   of (r, calls, ds) \<Rightarrow> calls \<le> 3 \<and> sum_list ds \<le> 60000"
  using retry_effort_bounded [of "scripted [Inl (http_error 503 ''overloaded''), Inr (7::int)]" default_retry
      "\<lambda>e _. isTransientByDefault e"]
  by (auto simp: scripted_def default_retry_def split: prod.splits)

section \<open>Circuit breaker: when a model is skipped\<close>

datatype circuit_event = Call_Failed string ms | Call_Succeeded string | Circuit_Asked string ms

fun circuit_step :: "circuits \<Rightarrow> circuit_event \<Rightarrow> circuits" where
  "circuit_step cs (Call_Failed m t) = fst (recordModelFailure m t cs)"
| "circuit_step cs (Call_Succeeded m) = recordModelSuccess m cs"
| "circuit_step cs (Circuit_Asked m t) = fst (isCircuitOpen m t cs)"

fun event_time :: "circuit_event \<Rightarrow> ms option" where
  "event_time (Call_Failed m t) = Some t"
| "event_time (Call_Succeeded m) = None"
| "event_time (Circuit_Asked m t) = Some t"

text \<open>The failures of a model since its last success, oldest first.\<close>

fun add_failure :: "string \<Rightarrow> ms list \<Rightarrow> circuit_event \<Rightarrow> ms list" where
  "add_failure m ts (Call_Failed n t) = (if n = m then ts @ [t] else ts)"
| "add_failure m ts (Call_Succeeded n) = (if n = m then [] else ts)"
| "add_failure m ts (Circuit_Asked n t) = ts"

definition failures_since_success :: "string \<Rightarrow> circuit_event list \<Rightarrow> ms list" where
  "failures_since_success m es = foldl (add_failure m) [] es"

definition clock_before :: "ms \<Rightarrow> circuit_event list \<Rightarrow> bool" where
  "clock_before t es \<longleftrightarrow> (\<forall>e \<in> set es. case event_time e of None \<Rightarrow> True | Some u \<Rightarrow> u \<le> t)"

fun monotone_clock :: "circuit_event list \<Rightarrow> bool" where
  "monotone_clock [] = True"
| "monotone_clock (e # es) = (monotone_clock es \<and>
     (case event_time e of None \<Rightarrow> True | Some t \<Rightarrow> list_all (\<lambda>e'. case event_time e' of None \<Rightarrow> True | Some u \<Rightarrow> t \<le> u) es))"

lemma monotone_clock_snoc:
  "monotone_clock (es @ [e]) \<longleftrightarrow> monotone_clock es \<and> (case event_time e of None \<Rightarrow> True | Some t \<Rightarrow> clock_before t es)"
  by (induction es) (auto simp: clock_before_def split: option.splits)

lemma failures_since_success_times:
  "set (failures_since_success m es) \<subseteq> {t. Call_Failed m t \<in> set es}"
proof (induction es rule: rev_induct)
  case Nil
  then show ?case by (simp add: failures_since_success_def)
next
  case (snoc e es)
  then show ?case by (cases e) (auto simp: failures_since_success_def)
qed

text \<open>What an entry of the map counts: some failures since the last success, none older than its
  \<open>openedAt\<close>.\<close>

lemma circuit_counts_failures:
  "monotone_clock es \<Longrightarrow> js_get (foldl circuit_step [] es) m = Some s \<Longrightarrow>
     ci_failures s \<le> length (filter (\<lambda>t. ci_openedAt s \<le> t) (failures_since_success m es))
     \<and> ci_openedAt s \<in> set (failures_since_success m es)"
proof (induction es arbitrary: s rule: rev_induct)
  case Nil
  then show ?case by simp
next
  case (snoc e es)
  let ?cs = "foldl circuit_step [] es"
  have mono: "monotone_clock es" and before: "event_time e = Some t \<Longrightarrow> clock_before t es" for t
    using snoc.prems(1) by (auto simp: monotone_clock_snoc)
  have f: "failures_since_success m (es @ [e]) = add_failure m (failures_since_success m es) e"
    by (simp add: failures_since_success_def)
  note IH = snoc.IH [OF mono]
  show ?case
  proof (cases e)
    case (Call_Failed n t)
    show ?thesis
    proof (cases "n = m \<and> js_get ?cs m \<noteq> None")
      case False
      then show ?thesis using snoc.prems IH Call_Failed f
        by (cases "js_get ?cs m") (auto simp: recordModelFailure_def js_get_set Let_def split: option.splits if_splits)
    next
      case True
      then obtain s0 where s0: "js_get ?cs m = Some s0" by auto
      have "Call_Failed m (ci_openedAt s0) \<in> set es"
        using IH [OF s0] failures_since_success_times [of m es] by auto
      moreover have "clock_before t es" using before [of t] Call_Failed by simp
      ultimately have "ci_openedAt s0 \<le> t" by (fastforce simp: clock_before_def)
      then show ?thesis using snoc.prems IH [OF s0] Call_Failed f True s0
        by (auto simp: recordModelFailure_def js_get_set Let_def split: if_splits)
    qed
  next
    case (Call_Succeeded n)
    then show ?thesis using snoc.prems IH f by (auto simp: recordModelSuccess_def js_get_delete split: if_splits)
  next
    case (Circuit_Asked n t)
    then show ?thesis using snoc.prems IH f
      by (cases "js_get ?cs n") (auto simp: isCircuitOpen_def js_get_delete split: if_splits)
  qed
qed

text \<open>
  A model is skipped at time \<open>t\<close> only if it failed at least three times within the 30 seconds before
  \<open>t\<close>, with no success in between: failures spread wider than that never keep a model out, and one
  success lets it in at once.
\<close>

theorem open_circuit_has_recent_failures:
  assumes "monotone_clock es" "snd (isCircuitOpen m t (foldl circuit_step [] es))"
  shows "3 \<le> length (filter (\<lambda>u. t - OPEN_DURATION_MS \<le> u) (failures_since_success m es))"
proof -
  obtain s where s: "js_get (foldl circuit_step [] es) m = Some s" "ci_failures s \<ge> 3" "t - ci_openedAt s \<le> OPEN_DURATION_MS"
    using assms(2) by (auto simp: isCircuitOpen_def FAILURE_THRESHOLD_def split: option.splits if_splits)
  have "length (filter (\<lambda>u. ci_openedAt s \<le> u) l) \<le> length (filter (\<lambda>u. t - OPEN_DURATION_MS \<le> u) l)" for l
    by (induction l) (use s(3) in auto)
  then show ?thesis using circuit_counts_failures [OF assms(1) s(1)] s(2) le_trans by blast
qed

theorem open_circuit_has_recent_failures_witness:
  "3 \<le> length (filter (\<lambda>u. 40000 - OPEN_DURATION_MS \<le> u)
     (failures_since_success ''m'' [Call_Failed ''m'' 10000, Call_Failed ''m'' 11000, Call_Failed ''m'' 12000]))"
  using open_circuit_has_recent_failures [of "[Call_Failed ''m'' 10000, Call_Failed ''m'' 11000, Call_Failed ''m'' 12000]" "''m''" 40000]
  by (simp add: recordModelFailure_def isCircuitOpen_def FAILURE_THRESHOLD_def OPEN_DURATION_MS_def CIRCUIT_WINDOW_MS_def)

text \<open>
  The three failures that open a circuit may lie a minute apart, and the circuit counts its 30 seconds
  from the first of them, not from the one that opened it: with the third failure later than 30 seconds
  after the first, the failure is reported as opening the circuit and the circuit is never open.
\<close>

theorem circuit_closes_by_first_failure:
  assumes "js_get cs m = None" "t1 \<le> t2" "t2 \<le> t3" "t3 \<le> t1 + CIRCUIT_WINDOW_MS" "t3 \<le> t"
  shows "let cs2 = circuit_step (circuit_step cs (Call_Failed m t1)) (Call_Failed m t2);
             (cs3, opened) = recordModelFailure m t3 cs2
         in opened \<and> (snd (isCircuitOpen m t cs3) \<longleftrightarrow> t \<le> t1 + OPEN_DURATION_MS)"
proof -
  have c1: "js_get (circuit_step cs (Call_Failed m t1)) m = Some \<lparr>ci_failures = 1, ci_openedAt = t1\<rparr>"
    using assms(1) by (simp add: recordModelFailure_def js_get_set)
  have c2: "js_get (circuit_step (circuit_step cs (Call_Failed m t1)) (Call_Failed m t2)) m
      = Some \<lparr>ci_failures = 2, ci_openedAt = t1\<rparr>" (is "js_get ?c2 m = _")
    using c1 assms by (simp add: recordModelFailure_def [of m t2] js_get_set Let_def FAILURE_THRESHOLD_def numeral_2_eq_2
        del: circuit_step.simps(1) add: circuit_step.simps(1) [of _ m t2])
  have "snd (recordModelFailure m t3 ?c2)"
    and "js_get (fst (recordModelFailure m t3 ?c2)) m = Some \<lparr>ci_failures = 3, ci_openedAt = t1\<rparr>"
    using c2 assms by (simp_all add: recordModelFailure_def [of m t3] js_get_set Let_def FAILURE_THRESHOLD_def
        del: circuit_step.simps)
  then show ?thesis by (auto simp: Let_def isCircuitOpen_def FAILURE_THRESHOLD_def simp del: circuit_step.simps split: prod.splits if_splits)
qed

theorem circuit_closes_by_first_failure_witness:
  "let cs2 = circuit_step (circuit_step [] (Call_Failed ''m'' 0)) (Call_Failed ''m'' 1000);
       (cs3, opened) = recordModelFailure ''m'' 40000 cs2
   in opened \<and> (snd (isCircuitOpen ''m'' 40000 cs3) \<longleftrightarrow> (40000::ms) \<le> 0 + OPEN_DURATION_MS)"
  by (rule circuit_closes_by_first_failure) (simp_all add: CIRCUIT_WINDOW_MS_def)

section \<open>Headroom and requests per minute\<close>

text \<open>
  The governor never holds a call for more than five seconds, and never twice for one rate-limit
  answer: a call that waited has removed the entry, so the next one of the same user and provider
  goes through, whatever its time.
\<close>

theorem headroom_waits_once:
  "case awaitLlmHeadroom key now store of (store', w) \<Rightarrow>
     0 \<le> w \<and> w \<le> MAX_WAIT_MS \<and> (w = 0 \<or> awaitLlmHeadroom key now' store' = (store', 0))
     \<and> js_delete key store' = js_delete key store"
proof -
  have "js_delete key (js_delete key store) = js_delete key store" by (simp add: js_delete_def)
  then show ?thesis by (auto simp: awaitLlmHeadroom_def MAX_WAIT_MS_def js_get_delete split: option.splits)
qed

text \<open>A request as the limiter sees it: the user, the endpoint group and the time.\<close>

type_synonym request = "string \<times> string \<times> ms"

fun handle_requests :: "(string \<Rightarrow> nat) \<Rightarrow> rate_table \<Rightarrow> request list \<Rightarrow> rate_table \<times> bool list" where
  "handle_requests quota table [] = (table, [])"
| "handle_requests quota table ((u, g, t) # rs) =
     (let (table1, r) = withRateLimit u g (int (quota g)) t table; (table2, oks) = handle_requests quota table1 rs
      in (table2, rr_allowed r # oks))"

definition in_minute :: "string \<Rightarrow> string \<Rightarrow> int \<Rightarrow> request \<Rightarrow> bool" where
  "in_minute u g b r \<longleftrightarrow> (case r of (u', g', t) \<Rightarrow> u' = u \<and> g' = g \<and> t div 60000 = b)"

definition minute_count :: "rate_table \<Rightarrow> string \<Rightarrow> string \<Rightarrow> int \<Rightarrow> int" where
  "minute_count table u g b = (case js_get table (u, g, b) of Some c \<Rightarrow> c | None \<Rightarrow> 0)"

definition minute_key :: "string \<times> string \<times> int \<Rightarrow> request \<Rightarrow> bool" where
  "minute_key k r \<longleftrightarrow> (case k of (u, g, b) \<Rightarrow> in_minute u g b r)"

interpretation per_minute: quota_window "\<lambda>table (u, g, b). nat (minute_count table u g b)"
    "\<lambda>(u, g, t) table. case withRateLimit u g (int (quota g)) t table of (table', r) \<Rightarrow> (table', rr_allowed r)"
    minute_key "\<lambda>_ _. True" "\<lambda>(u, g, b). quota g" "\<lambda>table (u, g, b). 0 \<le> minute_count table u g b"
  for quota
proof unfold_locales
  fix s s' :: rate_table and k :: "string \<times> string \<times> int" and q ok
  assume live: "case k of (u, g, b) \<Rightarrow> 0 \<le> minute_count s u g b"
    and ask: "(case q of (u, g, t) \<Rightarrow> \<lambda>table. case withRateLimit u g (int (quota g)) t table of (table', r) \<Rightarrow> (table', rr_allowed r)) s = (s', ok)"
  obtain u g b where k: "k = (u, g, b)" by (cases k)
  obtain u' g' t where q: "q = (u', g', t)" by (cases q)
  have eq: "s' = fst (withRateLimit u' g' (int (quota g')) t s)" "ok = rr_allowed (snd (withRateLimit u' g' (int (quota g')) t s))"
    using ask by (auto simp: q split: prod.splits)
  have c: "minute_count s' u g b = minute_count s u g b + (if minute_key k q then 1 else 0)"
    by (auto simp: eq q k minute_key_def in_minute_def minute_count_def withRateLimit_def Let_def js_get_set split: option.splits)
  have "ok \<longleftrightarrow> minute_count s u g b + 1 \<le> int (quota g)" if "minute_key k q"
    using that by (auto simp: eq q k minute_key_def in_minute_def minute_count_def withRateLimit_def Let_def split: option.splits)
  then show "minute_key k q \<Longrightarrow> (case k of (u, g, b) \<Rightarrow> 0 \<le> minute_count s' u g b)
      \<and> ok = ((case k of (u, g, b) \<Rightarrow> nat (minute_count s u g b)) < (case k of (u, g, b) \<Rightarrow> quota g))
      \<and> (if ok then (case k of (u, g, b) \<Rightarrow> nat (minute_count s' u g b)) = Suc (case k of (u, g, b) \<Rightarrow> nat (minute_count s u g b))
         else (case k of (u, g, b) \<Rightarrow> quota g) \<le> (case k of (u, g, b) \<Rightarrow> nat (minute_count s' u g b)))"
    and "\<not> minute_key k q \<Longrightarrow> (case k of (u, g, b) \<Rightarrow> 0 \<le> minute_count s' u g b)
      \<and> (case k of (u, g, b) \<Rightarrow> nat (minute_count s' u g b)) = (case k of (u, g, b) \<Rightarrow> nat (minute_count s u g b))"
    using c live by (auto simp: k)
qed

lemma handle_requests_asks: "snd (handle_requests quota table rs) = per_minute.asks quota rs table"
proof (induction rs arbitrary: table)
  case (Cons r rs)
  obtain u g t where r: "r = (u, g, t)" by (cases r)
  obtain table1 res where w: "withRateLimit u g (int (quota g)) t table = (table1, res)" by fastforce
  obtain table2 oks where h: "handle_requests quota table1 rs = (table2, oks)" by fastforce
  show ?case using Cons [of table1] by (simp add: r w h)
qed simp

lemma minute_key_eq: "minute_key (u, g, b) = in_minute u g b"
  by (rule ext) (simp add: minute_key_def)

text \<open>
  Of the requests of one user to one endpoint group within a minute exactly the limit are allowed, or
  all of them when they are fewer, however the requests of other users, groups and minutes fall in
  between; rejected requests count as well.
\<close>

theorem requests_allowed_per_minute:
  "length (filter (\<lambda>(r, ok). in_minute u g b r \<and> ok) (zip rs (snd (handle_requests quota [] rs))))
     = min (quota g) (length (filter (in_minute u g b) rs))"
  using per_minute.granted_count [of "[]" "(u, g, b)" rs quota]
  by (simp add: minute_count_def minute_key_eq handle_requests_asks list_all_iff)

end
