(* ===== verification/Journal.thy ===== *)
theory Journal
  imports Js_Map Symbols "HOL-Library.Multiset"
begin

text \<open>
  The trade journal, \<open>packages/ai/src/journal/persistence.ts\<close>: entries and their life (create, update,
  delete) and the statistics of \<open>summarize\<close>, one pass over the entries in order of opening that keeps
  counters, streaks, the running R and its drawdown, and groups by symbol, hour, weekday and tag.
  Prices and R-multiples are real numbers. The memory index, attachments and screenshot links are left
  out.
\<close>

section \<open>Entries\<close>

datatype trade_side = Long | Short
datatype trade_outcome = Win | Loss | Breakeven | Open

record journal_entry =
  je_userId :: string
  je_symbol :: string
  je_side :: trade_side
  je_openedAt :: ms
  je_closedAt :: "ms option"
  je_entry :: real
  je_stop :: "real option"
  je_target :: "real option"
  je_exit :: "real option"
  je_size :: "real option"
  je_outcome :: trade_outcome
  je_rMultiple :: "real option"
  je_notes :: "string option"
  je_tags :: "string list"

type_synonym journal_db = "(string, journal_entry) js_map"

record create_journal_input =
  cj_symbol :: string
  cj_side :: trade_side
  cj_openedAt :: ms
  cj_entry :: real
  cj_stop :: "real option"
  cj_target :: "real option"
  cj_size :: "real option"
  cj_notes :: "string option"
  cj_tags :: "string list option"
  cj_userId :: string

definition createEntry :: "string \<Rightarrow> create_journal_input \<Rightarrow> journal_db \<Rightarrow> schema_error + journal_db \<times> journal_entry" where
  "createEntry newId inp db =
     (case SymbolSchema (cj_symbol inp) of
        Inl e \<Rightarrow> Inl e
      | Inr symbol \<Rightarrow>
          (let row = \<lparr>je_userId = cj_userId inp, je_symbol = symbol, je_side = cj_side inp, je_openedAt = cj_openedAt inp,
             je_closedAt = None, je_entry = cj_entry inp, je_stop = cj_stop inp, je_target = cj_target inp, je_exit = None,
             je_size = cj_size inp, je_outcome = Open, je_rMultiple = None, je_notes = cj_notes inp,
             je_tags = (case cj_tags inp of None \<Rightarrow> [] | Some ts \<Rightarrow> ts)\<rparr>
           in Inr (js_set newId row db, row)))"

definition computeRMultiple :: "trade_side \<Rightarrow> real \<Rightarrow> real \<Rightarrow> real \<Rightarrow> real" where
  "computeRMultiple side entry stop exit =
     (let risk = \<bar>entry - stop\<bar> in
      if risk = 0 then 0
      else (case side of Long \<Rightarrow> exit - entry | Short \<Rightarrow> entry - exit) / risk)"

definition outcome_of_r :: "real \<Rightarrow> trade_outcome" where
  "outcome_of_r r = (if r > 0.05 then Win else if r < -0.05 then Loss else Breakeven)"

text \<open>A field of an update: \<open>None\<close> is \<open>undefined\<close>, \<open>Some None\<close> is \<open>null\<close>.\<close>

record update_journal_input =
  uj_closedAt :: "ms option option"
  uj_exit :: "real option option"
  uj_stop :: "real option option"
  uj_target :: "real option option"
  uj_size :: "real option option"
  uj_outcome :: "trade_outcome option"
  uj_notes :: "string option option"
  uj_tags :: "string list option"

definition patched :: "'a option \<Rightarrow> 'a \<Rightarrow> 'a" where
  "patched inp old = (case inp of None \<Rightarrow> old | Some v \<Rightarrow> v)"

text \<open>\<open>input ?? existing\<close>: an undefined and a null input both give the existing value.\<close>

definition nullish :: "'a option option \<Rightarrow> 'a option \<Rightarrow> 'a option" where
  "nullish inp old = (case inp of Some (Some v) \<Rightarrow> Some v | _ \<Rightarrow> old)"

definition apply_update :: "update_journal_input \<Rightarrow> journal_entry \<Rightarrow> journal_entry" where
  "apply_update inp e =
     (let e1 = e\<lparr>je_closedAt := patched (uj_closedAt inp) (je_closedAt e), je_exit := patched (uj_exit inp) (je_exit e),
            je_stop := patched (uj_stop inp) (je_stop e), je_target := patched (uj_target inp) (je_target e),
            je_size := patched (uj_size inp) (je_size e), je_outcome := patched (uj_outcome inp) (je_outcome e),
            je_notes := patched (uj_notes inp) (je_notes e), je_tags := patched (uj_tags inp) (je_tags e)\<rparr> in
      case (nullish (uj_exit inp) (je_exit e), nullish (uj_stop inp) (je_stop e), nullish (uj_closedAt inp) (je_closedAt e)) of
        (Some exit, Some stop, Some closedAt) \<Rightarrow>
          (let r = computeRMultiple (je_side e) (je_entry e) stop exit;
               e2 = e1\<lparr>je_rMultiple := Some r\<rparr> in
           if uj_outcome inp = None then e2\<lparr>je_outcome := outcome_of_r r\<rparr> else e2)
      | _ \<Rightarrow> e1)"

definition updateEntry :: "string \<Rightarrow> string \<Rightarrow> update_journal_input \<Rightarrow> journal_db \<Rightarrow> journal_db \<times> journal_entry option" where
  "updateEntry userId i inp db =
     (case js_get db i of
        None \<Rightarrow> (db, None)
      | Some e \<Rightarrow> if je_userId e \<noteq> userId then (db, None)
          else (js_set i (apply_update inp e) db, Some (apply_update inp e)))"

definition deleteEntry :: "string \<Rightarrow> string \<Rightarrow> journal_db \<Rightarrow> journal_db \<times> bool" where
  "deleteEntry userId i db =
     (case js_get db i of
        None \<Rightarrow> (db, False)
      | Some e \<Rightarrow> if je_userId e \<noteq> userId then (db, False) else (js_delete i db, True))"

definition getEntry :: "string \<Rightarrow> string \<Rightarrow> journal_db \<Rightarrow> journal_entry option" where
  "getEntry userId i db = (case js_get db i of None \<Rightarrow> None | Some e \<Rightarrow> if je_userId e = userId then Some e else None)"

section \<open>Statistics\<close>

record trade_group =
  tg_trades :: nat
  tg_wins :: nat
  tg_totalR :: real

definition empty_group :: trade_group where
  "empty_group = \<lparr>tg_trades = 0, tg_wins = 0, tg_totalR = 0\<rparr>"

definition r_of :: "journal_entry \<Rightarrow> real" where
  "r_of e = (case je_rMultiple e of None \<Rightarrow> 0 | Some r \<Rightarrow> r)"

definition add_to_group :: "journal_entry \<Rightarrow> trade_group \<Rightarrow> trade_group" where
  "add_to_group e g = \<lparr>tg_trades = tg_trades g + 1, tg_wins = tg_wins g + (if je_outcome e = Win then 1 else 0),
     tg_totalR = (case je_rMultiple e of None \<Rightarrow> tg_totalR g | Some r \<Rightarrow> tg_totalR g + r)\<rparr>"

definition group_by_key :: "'k \<Rightarrow> journal_entry \<Rightarrow> ('k, trade_group) js_map \<Rightarrow> ('k, trade_group) js_map" where
  "group_by_key k e m = js_set k (add_to_group e (case js_get m k of None \<Rightarrow> empty_group | Some g \<Rightarrow> g)) m"

datatype r_bucket = B_m3_m2 | B_m2_m1 | B_m1_0 | B_0 | B_0_1 | B_1_2 | B_2_3 | B_3

definition r_buckets :: "r_bucket list" where
  "r_buckets = [B_m3_m2, B_m2_m1, B_m1_0, B_0, B_0_1, B_1_2, B_2_3, B_3]"

fun bucket_range :: "r_bucket \<Rightarrow> real \<times> real" where
  "bucket_range B_m3_m2 = (-3, -2)"
| "bucket_range B_m2_m1 = (-2, -1)"
| "bucket_range B_m1_0 = (-1, 0)"
| "bucket_range B_0 = (0, 0)"
| "bucket_range B_0_1 = (0, 1)"
| "bucket_range B_1_2 = (1, 2)"
| "bucket_range B_2_3 = (2, 3)"
| "bucket_range B_3 = (3, 0)"   \<comment> \<open>the upper bound \<open>Infinity\<close> is not read\<close>

definition takes_bucket :: "real \<Rightarrow> r_bucket \<Rightarrow> bool" where
  "takes_bucket r b \<longleftrightarrow> (if b = B_0 then r = 0 else if b = B_3 then r \<ge> fst (bucket_range b)
     else r \<ge> fst (bucket_range b) \<and> r < snd (bucket_range b))"

definition addToBucket :: "real \<Rightarrow> (r_bucket \<Rightarrow> nat) \<Rightarrow> r_bucket \<Rightarrow> nat" where
  "addToBucket r h = (case List.find (takes_bucket r) r_buckets of None \<Rightarrow> h | Some b \<Rightarrow> h(b := h b + 1))"

definition sessionFromHour :: "int \<Rightarrow> string" where
  "sessionFromHour hour =
     (if hour \<ge> 0 \<and> hour < 8 then ''Asian'' else if hour \<ge> 8 \<and> hour < 16 then ''London''
      else if hour \<ge> 13 \<and> hour < 21 then ''NY'' else ''Off'')"

record streaks =
  st_current :: "trade_outcome option"
  st_len :: nat
  st_win :: nat
  st_loss :: nat

definition streak_step :: "streaks \<Rightarrow> trade_outcome \<Rightarrow> streaks" where
  "streak_step s oc =
     (if oc = Win \<or> oc = Loss then
        let n = (if st_current s = Some oc then st_len s + 1 else 1);
            s1 = s\<lparr>st_current := Some oc, st_len := n\<rparr> in
        if oc = Win then s1\<lparr>st_win := max (st_win s) n\<rparr> else s1\<lparr>st_loss := max (st_loss s) n\<rparr>
      else s)"

record r_stats =
  rs_totalR :: real
  rs_count :: nat
  rs_dist :: "r_bucket \<Rightarrow> nat"
  rs_cumulative :: real
  rs_peak :: real
  rs_maxDrawdown :: real

definition r_step :: "r_stats \<Rightarrow> real \<Rightarrow> r_stats" where
  "r_step s r =
     (let cum = rs_cumulative s + r; peak = (if cum > rs_peak s then cum else rs_peak s); dd = peak - cum in
      \<lparr>rs_totalR = rs_totalR s + r, rs_count = rs_count s + 1, rs_dist = addToBucket r (rs_dist s), rs_cumulative = cum,
       rs_peak = peak, rs_maxDrawdown = (if dd > rs_maxDrawdown s then dd else rs_maxDrawdown s)\<rparr>)"

record journal_acc =
  ja_open :: nat
  ja_wins :: nat
  ja_losses :: nat
  ja_breakevens :: nat
  ja_sumWinningR :: real
  ja_sumLosingR :: real
  ja_streaks :: streaks
  ja_r :: r_stats
  ja_holdMs :: ms
  ja_holdCount :: nat
  ja_closedDow :: "int \<Rightarrow> nat"
  ja_bySymbol :: "(string, trade_group) js_map"
  ja_byHour :: "(int, trade_group) js_map"
  ja_byDow :: "(int, trade_group) js_map"
  ja_byTag :: "(string, trade_group) js_map"

definition empty_acc :: journal_acc where
  "empty_acc = \<lparr>ja_open = 0, ja_wins = 0, ja_losses = 0, ja_breakevens = 0, ja_sumWinningR = 0, ja_sumLosingR = 0,
     ja_streaks = \<lparr>st_current = None, st_len = 0, st_win = 0, st_loss = 0\<rparr>,
     ja_r = \<lparr>rs_totalR = 0, rs_count = 0, rs_dist = (\<lambda>_. 0), rs_cumulative = 0, rs_peak = 0, rs_maxDrawdown = 0\<rparr>,
     ja_holdMs = 0, ja_holdCount = 0, ja_closedDow = (\<lambda>_. 0), ja_bySymbol = [], ja_byHour = [], ja_byDow = [], ja_byTag = []\<rparr>"

text \<open>The body of the loop for one entry. Days of the week are the numbers of \<open>getUTCDay\<close>.\<close>

definition stats_step :: "journal_acc \<Rightarrow> journal_entry \<Rightarrow> journal_acc" where
  "stats_step a e =
     (if je_outcome e = Open then a\<lparr>ja_open := ja_open a + 1\<rparr>
      else \<lparr>ja_open = ja_open a,
        ja_wins = ja_wins a + (if je_outcome e = Win then 1 else 0),
        ja_losses = ja_losses a + (if je_outcome e = Loss then 1 else 0),
        ja_breakevens = ja_breakevens a + (if je_outcome e = Breakeven then 1 else 0),
        ja_sumWinningR = ja_sumWinningR a + (if je_outcome e = Win then r_of e else 0),
        ja_sumLosingR = ja_sumLosingR a + (if je_outcome e = Loss then r_of e else 0),
        ja_streaks = streak_step (ja_streaks a) (je_outcome e),
        ja_r = (case je_rMultiple e of None \<Rightarrow> ja_r a | Some r \<Rightarrow> r_step (ja_r a) r),
        ja_holdMs = (case je_closedAt e of None \<Rightarrow> ja_holdMs a | Some c \<Rightarrow> ja_holdMs a + (c - je_openedAt e)),
        ja_holdCount = (case je_closedAt e of None \<Rightarrow> ja_holdCount a | Some c \<Rightarrow> ja_holdCount a + 1),
        ja_closedDow = (case je_closedAt e of None \<Rightarrow> ja_closedDow a
          | Some c \<Rightarrow> (ja_closedDow a)(getUTCDay c := ja_closedDow a (getUTCDay c) + 1)),
        ja_bySymbol = group_by_key (je_symbol e) e (ja_bySymbol a),
        ja_byHour = group_by_key (getUTCHours (je_openedAt e)) e (ja_byHour a),
        ja_byDow = group_by_key (getUTCDay (je_openedAt e)) e (ja_byDow a),
        ja_byTag = foldl (\<lambda>m t. group_by_key t e m) (ja_byTag a) (je_tags e)\<rparr>)"

definition merge_group :: "trade_group \<Rightarrow> trade_group \<Rightarrow> trade_group" where
  "merge_group a b = \<lparr>tg_trades = tg_trades a + tg_trades b, tg_wins = tg_wins a + tg_wins b, tg_totalR = tg_totalR a + tg_totalR b\<rparr>"

definition session_groups :: "(int, trade_group) js_map \<Rightarrow> (string, trade_group) js_map" where
  "session_groups byHour = foldl (\<lambda>m (hour, g). let s = sessionFromHour hour in
     js_set s (merge_group (case js_get m s of None \<Rightarrow> empty_group | Some x \<Rightarrow> x) g) m) [] byHour"

record journal_stats =
  jt_count :: nat
  jt_acc :: journal_acc
  jt_winRate :: real
  jt_avgR :: real
  jt_profitFactor :: "real option"
  jt_avgHoldMs :: real
  jt_avgWinR :: real
  jt_avgLossR :: real
  jt_currentStreak :: "trade_outcome option \<times> nat"
  jt_recoveryFactor :: real
  jt_bySymbol :: "(string \<times> trade_group) list"
  jt_bySession :: "(string \<times> trade_group) list"
  jt_byHour :: "(int \<times> trade_group) list"
  jt_byDayOfWeek :: "(int \<times> trade_group) list"
  jt_byTag :: "(string \<times> trade_group) list"

definition by_totalR :: "('k \<times> trade_group) list \<Rightarrow> ('k \<times> trade_group) list" where
  "by_totalR gs = sort_key (\<lambda>(k, g). - tg_totalR g) gs"

definition summarize :: "journal_entry list \<Rightarrow> journal_stats" where
  "summarize entries =
     (let a = foldl stats_step empty_acc (sort_key je_openedAt entries);
          closed = ja_wins a + ja_losses a + ja_breakevens a in
      \<lparr>jt_count = length entries, jt_acc = a,
       jt_winRate = (if closed = 0 then 0 else real (ja_wins a) / real closed),
       jt_avgR = (if rs_count (ja_r a) = 0 then 0 else rs_totalR (ja_r a) / real (rs_count (ja_r a))),
       jt_profitFactor = (if ja_sumLosingR a = 0 then (if ja_sumWinningR a > 0 then None else Some 0)
         else Some (ja_sumWinningR a / \<bar>ja_sumLosingR a\<bar>)),
       jt_avgHoldMs = (if ja_holdCount a = 0 then 0 else real_of_int (ja_holdMs a) / real (ja_holdCount a)),
       jt_avgWinR = (if ja_wins a = 0 then 0 else ja_sumWinningR a / real (ja_wins a)),
       jt_avgLossR = (if ja_losses a = 0 then 0 else ja_sumLosingR a / real (ja_losses a)),
       jt_currentStreak = (if closed = 0 then (None, 0) else case st_current (ja_streaks a) of
          None \<Rightarrow> (None, 0) | Some t \<Rightarrow> (Some t, st_len (ja_streaks a))),
       jt_recoveryFactor = (if rs_maxDrawdown (ja_r a) = 0 then 0 else rs_totalR (ja_r a) / rs_maxDrawdown (ja_r a)),
       jt_bySymbol = by_totalR (ja_bySymbol a), jt_bySession = by_totalR (session_groups (ja_byHour a)),
       jt_byHour = sort_key fst (ja_byHour a),
       jt_byDayOfWeek = map (\<lambda>d. (d, case js_get (ja_byDow a) d of None \<Rightarrow> empty_group | Some g \<Rightarrow> g)) [0..6],
       jt_byTag = by_totalR (ja_byTag a)\<rparr>)"

section \<open>A closed entry's R-multiple is that of its prices\<close>

datatype journal_op = J_Create string create_journal_input | J_Update string string update_journal_input | J_Delete string string

fun journal_step :: "journal_db \<Rightarrow> journal_op \<Rightarrow> journal_db" where
  "journal_step db (J_Create i inp) = (case createEntry i inp db of Inl _ \<Rightarrow> db | Inr (db', e) \<Rightarrow> db')"
| "journal_step db (J_Update u i inp) = fst (updateEntry u i inp db)"
| "journal_step db (J_Delete u i) = fst (deleteEntry u i db)"

definition r_consistent :: "journal_entry \<Rightarrow> bool" where
  "r_consistent e \<longleftrightarrow> (case (je_exit e, je_stop e, je_closedAt e) of
     (Some exit, Some stop, Some c) \<Rightarrow> je_rMultiple e = Some (computeRMultiple (je_side e) (je_entry e) stop exit)
   | _ \<Rightarrow> True)"

lemma patched_nullish: "patched inp old = Some v \<Longrightarrow> nullish inp old = Some v"
  by (auto simp: patched_def nullish_def split: option.splits)

lemma apply_update_consistent: "r_consistent (apply_update inp e)"
proof -
  let ?e' = "apply_update inp e"
  have f: "je_exit ?e' = patched (uj_exit inp) (je_exit e)" "je_stop ?e' = patched (uj_stop inp) (je_stop e)"
    "je_closedAt ?e' = patched (uj_closedAt inp) (je_closedAt e)" "je_side ?e' = je_side e" "je_entry ?e' = je_entry e"
    by (auto simp: apply_update_def Let_def split: option.splits prod.splits)
  show ?thesis
  proof (cases "je_exit ?e' \<noteq> None \<and> je_stop ?e' \<noteq> None \<and> je_closedAt ?e' \<noteq> None")
    case False
    then show ?thesis by (auto simp: r_consistent_def split: option.splits)
  next
    case True
    then obtain x s c where v: "je_exit ?e' = Some x" "je_stop ?e' = Some s" "je_closedAt ?e' = Some c" by auto
    then have n: "nullish (uj_exit inp) (je_exit e) = Some x" "nullish (uj_stop inp) (je_stop e) = Some s"
      "nullish (uj_closedAt inp) (je_closedAt e) = Some c" using f by (simp_all add: patched_nullish)
    have "je_rMultiple ?e' = Some (computeRMultiple (je_side e) (je_entry e) s x)"
      unfolding apply_update_def n by (simp add: Let_def)
    then show ?thesis using v f by (simp add: r_consistent_def)
  qed
qed

lemma journal_entries_consistent:
  "js_get (foldl journal_step [] ops) i = Some e \<Longrightarrow> r_consistent e"
proof (induction ops arbitrary: i e rule: rev_induct)
  case Nil
  then show ?case by simp
next
  case (snoc op ops)
  let ?db = "foldl journal_step [] ops"
  have created: "r_consistent (snd p)" if "createEntry j inp ?db = Inr p" for j inp p
    using that by (auto simp: createEntry_def Let_def r_consistent_def split: sum.splits)
  show ?case
  proof (cases op)
    case (J_Create j inp)
    then show ?thesis using snoc created [of j inp]
      by (auto simp: createEntry_def Let_def js_get_set split: sum.splits if_splits)
  next
    case (J_Update u j inp)
    then show ?thesis using snoc apply_update_consistent [of inp]
      by (auto simp: updateEntry_def js_get_set split: option.splits if_splits)
  next
    case (J_Delete u j)
    then show ?thesis using snoc by (auto simp: deleteEntry_def js_get_delete split: option.splits if_splits)
  qed
qed

text \<open>
  In every journal that grows by the operations of the module, an entry with exit, stop and closing time
  has exactly the R-multiple its side, entry, stop and exit give.
\<close>

theorem journal_r_consistent:
  "case js_get (foldl journal_step [] ops) i of None \<Rightarrow> True | Some e \<Rightarrow> r_consistent e"
  by (auto dest: journal_entries_consistent split: option.splits)

text \<open>The converse fails: clearing the exit keeps the R-multiple and the outcome computed from it.\<close>

definition clear_exit :: update_journal_input where
  "clear_exit = \<lparr>uj_closedAt = None, uj_exit = Some None, uj_stop = None, uj_target = None, uj_size = None, uj_outcome = None,
     uj_notes = None, uj_tags = None\<rparr>"

lemma cleared_exit_keeps_result:
  assumes "je_exit e = Some x" "je_stop e = Some s" "je_closedAt e = Some c"
  shows "je_exit (apply_update clear_exit e) = None
    \<and> je_rMultiple (apply_update clear_exit e) = Some (computeRMultiple (je_side e) (je_entry e) s x)
    \<and> je_outcome (apply_update clear_exit e) = outcome_of_r (computeRMultiple (je_side e) (je_entry e) s x)"
  using assms by (simp add: apply_update_def clear_exit_def patched_def nullish_def Let_def)

section \<open>One pass, many figures\<close>

definition closed_of :: "journal_entry list \<Rightarrow> journal_entry list" where
  "closed_of es = filter (\<lambda>e. je_outcome e \<noteq> Open) es"

definition rs_of :: "journal_entry list \<Rightarrow> real list" where
  "rs_of es = concat (map (\<lambda>e. case je_rMultiple e of None \<Rightarrow> [] | Some r \<Rightarrow> [r]) (closed_of es))"

lemma stats_fold:
  "ja_open (foldl stats_step a es) = ja_open a + length (filter (\<lambda>e. je_outcome e = Open) es)"
  "ja_wins (foldl stats_step a es) = ja_wins a + length (filter (\<lambda>e. je_outcome e = Win) es)"
  "ja_losses (foldl stats_step a es) = ja_losses a + length (filter (\<lambda>e. je_outcome e = Loss) es)"
  "ja_breakevens (foldl stats_step a es) = ja_breakevens a + length (filter (\<lambda>e. je_outcome e = Breakeven) es)"
  "ja_streaks (foldl stats_step a es) = foldl streak_step (ja_streaks a) (map je_outcome (closed_of es))"
  "ja_r (foldl stats_step a es) = foldl r_step (ja_r a) (rs_of es)"
  "ja_bySymbol (foldl stats_step a es) = foldl (\<lambda>m e. group_by_key (je_symbol e) e m) (ja_bySymbol a) (closed_of es)"
  "ja_byHour (foldl stats_step a es) = foldl (\<lambda>m e. group_by_key (getUTCHours (je_openedAt e)) e m) (ja_byHour a) (closed_of es)"
  "ja_byDow (foldl stats_step a es) = foldl (\<lambda>m e. group_by_key (getUTCDay (je_openedAt e)) e m) (ja_byDow a) (closed_of es)"
  by (induction es arbitrary: a) (auto simp: stats_step_def closed_of_def rs_of_def split: option.splits)

definition group_total :: "('k, trade_group) js_map \<Rightarrow> nat \<times> nat \<times> real" where
  "group_total m = (sum_list (map (tg_trades \<circ> snd) m), sum_list (map (tg_wins \<circ> snd) m), sum_list (map (tg_totalR \<circ> snd) m))"

lemma sum_js_set:
  fixes f :: "'v \<Rightarrow> 'a::ab_group_add"
  shows "js_wf m \<Longrightarrow> sum_list (map (f \<circ> snd) (js_set k v m))
    = sum_list (map (f \<circ> snd) m) - (case js_get m k of None \<Rightarrow> 0 | Some w \<Rightarrow> f w) + f v"
proof (induction k v m rule: js_set.induct)
  case (2 k v k' v' m)
  have "k' = k \<Longrightarrow> js_get m k = None" using 2(2) by (simp add: js_wf_def js_get_None_iff js_keys_def)
  then show ?case using 2 by (auto simp: js_wf_def js_keys_def algebra_simps)
qed simp

text \<open>A figure of a group that every entry moves by a fixed amount sums, over all groups, to the amounts of
  the entries.\<close>

definition figure_sum :: "(trade_group \<Rightarrow> real) \<Rightarrow> ('k \<times> trade_group) list \<Rightarrow> real" where
  "figure_sum f m = sum_list (map (f \<circ> snd) m)"

lemma figure_sum_set:
  "js_wf m \<Longrightarrow> figure_sum f (js_set k v m) = figure_sum f m - (case js_get m k of None \<Rightarrow> 0 | Some w \<Rightarrow> f w) + f v"
  unfolding figure_sum_def by (rule sum_js_set)

lemma figure_sum_grouped:
  assumes "\<And>e g. f (add_to_group e g) = f g + d e" "f empty_group = 0" "js_wf m"
  shows "js_wf (foldl (\<lambda>m e. group_by_key (key e) e m) m es)
    \<and> figure_sum f (foldl (\<lambda>m e. group_by_key (key e) e m) m es) = figure_sum f m + sum_list (map d es)"
  using assms(3)
proof (induction es arbitrary: m)
  case Nil
  then show ?case by simp
next
  case (Cons e es)
  have wf: "js_wf (group_by_key (key e) e m)" using Cons.prems by (simp add: group_by_key_def js_wf_set)
  have "figure_sum f (group_by_key (key e) e m) = figure_sum f m + d e"
    using Cons.prems assms(1,2) by (auto simp: group_by_key_def figure_sum_set split: option.splits)
  then show ?case using Cons.IH [OF wf] by simp
qed

lemma figure_sum_sessions:
  assumes "\<And>a b. f (merge_group a b) = f a + f b" "f empty_group = 0"
  shows "figure_sum f (session_groups m) = figure_sum f m"
proof -
  let ?step = "\<lambda>m (hour, g). let s = sessionFromHour hour in
     js_set s (merge_group (case js_get m s of None \<Rightarrow> empty_group | Some x \<Rightarrow> x) g) m"
  have "js_wf acc \<Longrightarrow> figure_sum f (foldl ?step acc m) = figure_sum f acc + figure_sum f m" for acc
  proof (induction m arbitrary: acc)
    case Nil
    then show ?case by (simp add: figure_sum_def)
  next
    case (Cons p m)
    obtain hour g where p: "p = (hour, g)" by (cases p)
    have wf: "js_wf (?step acc p)" using Cons.prems by (simp add: p Let_def js_wf_set)
    have "figure_sum f (?step acc p) = figure_sum f acc + f g"
      using Cons.prems assms by (auto simp: p Let_def figure_sum_set split: option.splits)
    then show ?case using Cons.IH [OF wf] by (simp add: figure_sum_def p)
  qed
  from this [of "[]"] show ?thesis by (simp add: session_groups_def figure_sum_def)
qed

lemma figure_sum_sort: "figure_sum f (sort_key k m) = figure_sum f m"
proof -
  have "mset (map (f \<circ> snd) (sort_key k m)) = mset (map (f \<circ> snd) m)" by simp
  then show ?thesis unfolding figure_sum_def by (metis sum_mset_sum_list)
qed

lemma sum_list_real: "sum_list (map (real \<circ> f) xs) = real (sum_list (map f xs))"
  by (induction xs) auto

lemma foldl_r_total: "rs_totalR (foldl r_step s rs) = rs_totalR s + sum_list rs"
  by (induction rs arbitrary: s) (auto simp: r_step_def Let_def)

lemma sum_rs_of: "sum_list (rs_of es) = sum_list (map r_of (closed_of es))"
proof -
  have "sum_list (concat (map (\<lambda>e. case je_rMultiple e of None \<Rightarrow> [] | Some r \<Rightarrow> [r]) xs)) = sum_list (map r_of xs)" for xs
    by (induction xs) (auto simp: r_of_def split: option.splits)
  then show ?thesis by (simp add: rs_of_def)
qed

lemma closed_sort: "mset (closed_of (sort_key k es)) = mset (closed_of es)"
  by (simp add: closed_of_def mset_filter)

lemma count_outcomes: "length (filter (\<lambda>e. je_outcome e = Win) es) + length (filter (\<lambda>e. je_outcome e = Loss) es)
    + length (filter (\<lambda>e. je_outcome e = Breakeven) es) = length (closed_of es)"
proof (induction es)
  case (Cons e es)
  then show ?case by (cases "je_outcome e") (auto simp: closed_of_def)
qed (simp add: closed_of_def)

definition group_counts :: "('k \<times> trade_group) list \<Rightarrow> nat \<times> real" where
  "group_counts m = (sum_list (map (tg_trades \<circ> snd) m), sum_list (map (tg_totalR \<circ> snd) m))"

lemma group_counts_figures:
  "group_counts m = (nat \<lfloor>figure_sum (real \<circ> tg_trades) m\<rfloor>, figure_sum tg_totalR m)"
  unfolding group_counts_def figure_sum_def
  by (simp add: sum_list_real [of "tg_trades \<circ> snd", simplified comp_def] comp_def)

lemma grouped_counts:
  assumes "m = foldl (\<lambda>m e. group_by_key (key e) e m) [] es"
  shows "group_counts m = (length es, sum_list (map r_of es))"
proof -
  have "figure_sum (real \<circ> tg_trades) m = 0 + sum_list (map (\<lambda>_. 1) es)"
    unfolding assms using figure_sum_grouped [of "real \<circ> tg_trades" "\<lambda>_. 1" "[]" key es]
    by (simp add: add_to_group_def empty_group_def figure_sum_def)
  moreover have "sum_list (map (\<lambda>_. 1 :: real) es) = real (length es)" by (induction es) auto
  moreover have "figure_sum tg_totalR m = 0 + sum_list (map r_of es)"
    unfolding assms using figure_sum_grouped [of tg_totalR r_of "[]" key es]
    by (simp add: add_to_group_def empty_group_def figure_sum_def r_of_def split: option.splits)
  ultimately show ?thesis by (simp add: group_counts_figures)
qed

lemma group_counts_by_totalR [simp]: "group_counts (by_totalR m) = group_counts m"
  unfolding group_counts_figures by_totalR_def by (simp add: figure_sum_sort)

text \<open>
  The figures of the summary fit together: every entry is a win, a loss, a breakeven or open, and the
  groups by symbol, by session and by hour each hold every closed trade exactly once and share out
  exactly the total R.
\<close>

theorem summary_partitions:
  "let s = summarize entries; a = jt_acc s; n = ja_wins a + ja_losses a + ja_breakevens a in
     jt_count s = n + ja_open a \<and> n = length (closed_of entries)
     \<and> rs_totalR (ja_r a) = sum_list (map r_of (closed_of entries))
     \<and> group_counts (jt_bySymbol s) = (n, rs_totalR (ja_r a))
     \<and> group_counts (jt_bySession s) = (n, rs_totalR (ja_r a))
     \<and> group_counts (jt_byHour s) = (n, rs_totalR (ja_r a))"
proof -
  define es where "es = sort_key je_openedAt entries"
  define a where "a = foldl stats_step empty_acc es"
  have n: "ja_wins a + ja_losses a + ja_breakevens a = length (closed_of es)"
    unfolding a_def stats_fold using count_outcomes [of es] by (simp add: empty_acc_def)
  have len: "length (closed_of es) = length (closed_of entries)"
    using arg_cong [OF closed_sort [of je_openedAt entries], of size] by (simp add: es_def)
  have "length (filter (\<lambda>e. je_outcome e = Open) es) + length (closed_of es) = length es"
    unfolding closed_of_def by (rule sum_length_filter_compl)
  then have o: "ja_open a = length entries - length (closed_of entries)" "length (closed_of entries) \<le> length entries"
    unfolding a_def stats_fold len [symmetric] by (auto simp: empty_acc_def es_def closed_of_def)
  have R: "rs_totalR (ja_r a) = sum_list (map r_of (closed_of es))"
    unfolding a_def stats_fold foldl_r_total sum_rs_of by (simp add: empty_acc_def)
  have "sum_list (map r_of (closed_of es)) = sum_list (map r_of (closed_of entries))"
    using closed_sort [of je_openedAt entries] unfolding es_def by (metis mset_map sum_mset_sum_list)
  moreover have "group_counts (ja_bySymbol a) = (length (closed_of es), sum_list (map r_of (closed_of es)))"
    by (rule grouped_counts [of _ je_symbol]) (simp add: a_def stats_fold empty_acc_def)
  moreover have h: "group_counts (ja_byHour a) = (length (closed_of es), sum_list (map r_of (closed_of es)))"
    by (rule grouped_counts [of _ "\<lambda>e. getUTCHours (je_openedAt e)"]) (simp add: a_def stats_fold empty_acc_def)
  moreover have "group_counts (session_groups (ja_byHour a)) = group_counts (ja_byHour a)"
    unfolding group_counts_figures by (simp add: figure_sum_sessions merge_group_def empty_group_def)
  moreover have "group_counts (sort_key fst (ja_byHour a)) = group_counts (ja_byHour a)"
    unfolding group_counts_figures by (simp add: figure_sum_sort)
  ultimately show ?thesis using n len o R group_counts_by_totalR unfolding summarize_def Let_def es_def [symmetric] a_def [symmetric] by simp
qed

section \<open>Drawdown, streaks and distribution\<close>

definition prefix_sum :: "real list \<Rightarrow> nat \<Rightarrow> real" where
  "prefix_sum rs i = sum_list (take i rs)"

text \<open>The largest fall of the running sum from an earlier point to a later one.\<close>

definition largest_fall :: "real list \<Rightarrow> real" where
  "largest_fall rs = Max (set (concat (map (\<lambda>j. map (\<lambda>i. prefix_sum rs i - prefix_sum rs j) [0..<Suc j]) [0..<Suc (length rs)])))"

definition start_r :: r_stats where
  "start_r = \<lparr>rs_totalR = 0, rs_count = 0, rs_dist = (\<lambda>_. 0), rs_cumulative = 0, rs_peak = 0, rs_maxDrawdown = 0\<rparr>"

lemma prefix_sum_snoc: "i \<le> length rs \<Longrightarrow> prefix_sum (rs @ [r]) i = prefix_sum rs i"
  by (simp add: prefix_sum_def)

lemma prefix_sum_all: "prefix_sum rs (length rs) = sum_list rs"
  by (simp add: prefix_sum_def)

lemma r_fold_curve:
  "let s = foldl r_step start_r rs in
     rs_cumulative s = sum_list rs
     \<and> (\<forall>i \<le> length rs. prefix_sum rs i \<le> rs_peak s) \<and> (\<exists>i \<le> length rs. prefix_sum rs i = rs_peak s)
     \<and> (\<forall>j \<le> length rs. \<forall>i \<le> j. prefix_sum rs i - prefix_sum rs j \<le> rs_maxDrawdown s)
     \<and> (\<exists>j \<le> length rs. \<exists>i \<le> j. prefix_sum rs i - prefix_sum rs j = rs_maxDrawdown s)"
proof (induction rs rule: rev_induct)
  case Nil
  then show ?case by (simp add: start_r_def prefix_sum_def)
next
  case (snoc r rs)
  let ?s = "foldl r_step start_r rs" and ?n = "length rs" and ?P = "prefix_sum (rs @ [r])"
  let ?c = "sum_list rs + r"
  from snoc obtain ip jd ij where IH: "rs_cumulative ?s = sum_list rs"
    "\<And>i. i \<le> ?n \<Longrightarrow> prefix_sum rs i \<le> rs_peak ?s" "ip \<le> ?n" "prefix_sum rs ip = rs_peak ?s"
    "\<And>i j. j \<le> ?n \<Longrightarrow> i \<le> j \<Longrightarrow> prefix_sum rs i - prefix_sum rs j \<le> rs_maxDrawdown ?s"
    "jd \<le> ?n" "ij \<le> jd" "prefix_sum rs ij - prefix_sum rs jd = rs_maxDrawdown ?s"
    unfolding Let_def by blast
  have P: "?P i = (if i \<le> ?n then prefix_sum rs i else ?c)" if "i \<le> Suc ?n" for i
    using that by (auto simp: prefix_sum_def)
  define peak where "peak = max (rs_peak ?s) ?c"
  define mdd where "mdd = max (rs_maxDrawdown ?s) (peak - ?c)"
  have s: "foldl r_step start_r (rs @ [r]) = r_step ?s r" by simp
  have f: "rs_cumulative (r_step ?s r) = ?c" "rs_peak (r_step ?s r) = peak" "rs_maxDrawdown (r_step ?s r) = mdd"
    using IH(1) by (auto simp: r_step_def Let_def peak_def mdd_def max_def)
  have up: "\<forall>i \<le> Suc ?n. ?P i \<le> peak" using IH(2) P by (auto simp: peak_def le_max_iff_disj)
  have at_peak: "\<exists>i \<le> Suc ?n. ?P i = peak"
  proof (cases "?c \<le> rs_peak ?s")
    case True
    then show ?thesis using IH(3,4) P [of ip] by (intro exI [of _ ip]) (auto simp: peak_def)
  next
    case False
    then show ?thesis using P [of "Suc ?n"] by (intro exI [of _ "Suc ?n"]) (auto simp: peak_def)
  qed
  have fall: "\<forall>j \<le> Suc ?n. \<forall>i \<le> j. ?P i - ?P j \<le> mdd"
  proof (intro allI impI)
    fix i j assume le: "j \<le> Suc ?n" "i \<le> j"
    show "?P i - ?P j \<le> mdd"
    proof (cases "j \<le> ?n")
      case True
      then show ?thesis using IH(5) [OF True le(2)] P [of i] P [of j] le by (auto simp: mdd_def)
    next
      case False
      then have "?P j = ?c" using P [of j] le by simp
      moreover have "?P i \<le> peak" using up le by auto
      ultimately show ?thesis by (auto simp: mdd_def)
    qed
  qed
  have at_fall: "\<exists>j \<le> Suc ?n. \<exists>i \<le> j. ?P i - ?P j = mdd"
  proof (cases "peak - ?c \<le> rs_maxDrawdown ?s")
    case True
    then have "?P ij - ?P jd = mdd" using IH(6,7,8) P [of jd] P [of ij] by (auto simp: mdd_def)
    then show ?thesis using IH(6,7) by (intro exI [of _ jd] conjI exI [of _ ij]) auto
  next
    case False
    obtain i where "i \<le> Suc ?n" "?P i = peak" using at_peak by blast
    moreover have "?P (Suc ?n) = ?c" using P [of "Suc ?n"] by simp
    ultimately show ?thesis using False by (intro exI [of _ "Suc ?n"] conjI exI [of _ i]) (auto simp: mdd_def)
  qed
  show ?case unfolding s Let_def f using up at_peak fall at_fall by simp
qed

lemma largest_fall_eq: "rs_maxDrawdown (foldl r_step start_r rs) = largest_fall rs"
proof -
  let ?S = "set (concat (map (\<lambda>j. map (\<lambda>i. prefix_sum rs i - prefix_sum rs j) [0..<Suc j]) [0..<Suc (length rs)]))"
  have "Max ?S = rs_maxDrawdown (foldl r_step start_r rs)"
  proof (rule Max_eqI)
    show "finite ?S" by (rule finite_set)
    show "y \<le> rs_maxDrawdown (foldl r_step start_r rs)" if "y \<in> ?S" for y
      using that r_fold_curve [of rs] by (auto simp: Let_def less_Suc_eq_le simp del: upt_Suc)
    show "rs_maxDrawdown (foldl r_step start_r rs) \<in> ?S"
      using r_fold_curve [of rs] by (auto simp: Let_def less_Suc_eq_le image_iff simp del: upt_Suc) (metis atLeastLessThan_iff le_imp_less_Suc zero_le)
  qed
  then show ?thesis by (simp add: largest_fall_def del: upt_Suc)
qed

fun in_bucket :: "r_bucket \<Rightarrow> real \<Rightarrow> bool" where
  "in_bucket B_m3_m2 r = (-3 \<le> r \<and> r < -2)"
| "in_bucket B_m2_m1 r = (-2 \<le> r \<and> r < -1)"
| "in_bucket B_m1_0 r = (-1 \<le> r \<and> r < 0)"
| "in_bucket B_0 r = (r = 0)"
| "in_bucket B_0_1 r = (0 < r \<and> r < 1)"
| "in_bucket B_1_2 r = (1 \<le> r \<and> r < 2)"
| "in_bucket B_2_3 r = (2 \<le> r \<and> r < 3)"
| "in_bucket B_3 r = (3 \<le> r)"

lemma addToBucket_exact: "addToBucket r h b = h b + (if in_bucket b r then 1 else 0)"
  by (cases b) (auto simp: addToBucket_def r_buckets_def takes_bucket_def)

lemma dist_fold: "rs_dist (foldl r_step s rs) b = rs_dist s b + length (filter (in_bucket b) rs)"
  by (induction rs arbitrary: s) (auto simp: r_step_def Let_def addToBucket_exact)

text \<open>The run of one outcome at the end of a list, and the longest run in it.\<close>

definition trail :: "'a \<Rightarrow> 'a list \<Rightarrow> nat" where
  "trail x xs = length (takeWhile (\<lambda>y. y = x) (rev xs))"

definition longest_run :: "'a \<Rightarrow> 'a list \<Rightarrow> nat" where
  "longest_run x xs = Max (set (map (\<lambda>k. trail x (take k xs)) [0..<Suc (length xs)]))"

lemma trail_snoc: "trail x (xs @ [y]) = (if y = x then Suc (trail x xs) else 0)"
  by (simp add: trail_def)

lemma longest_run_Nil [simp]: "longest_run x [] = 0"
  by (simp add: longest_run_def trail_def)

lemma longest_run_snoc: "longest_run x (xs @ [y]) = max (longest_run x xs) (trail x (xs @ [y]))"
proof -
  have "map (\<lambda>k. trail x (take k (xs @ [y]))) [0..<Suc (length xs)] = map (\<lambda>k. trail x (take k xs)) [0..<Suc (length xs)]"
    by (simp del: upt_Suc)
  then have "set (map (\<lambda>k. trail x (take k (xs @ [y]))) [0..<Suc (length (xs @ [y]))])
      = insert (trail x (xs @ [y])) (set (map (\<lambda>k. trail x (take k xs)) [0..<Suc (length xs)]))"
    by (simp add: upt_Suc_append insert_commute del: upt_Suc)
  then show ?thesis unfolding longest_run_def by (simp add: max.commute del: upt_Suc set_map)
qed

definition no_breakeven :: "trade_outcome list \<Rightarrow> trade_outcome list" where
  "no_breakeven ocs = filter (\<lambda>x. x = Win \<or> x = Loss) ocs"

definition start_streaks :: streaks where
  "start_streaks = \<lparr>st_current = None, st_len = 0, st_win = 0, st_loss = 0\<rparr>"

lemma streak_fold:
  "let s = foldl streak_step start_streaks ocs; l = no_breakeven ocs in
     st_win s = longest_run Win l \<and> st_loss s = longest_run Loss l
     \<and> (if l = [] then st_current s = None else st_current s = Some (last l) \<and> st_len s = trail (last l) l)"
proof (induction ocs rule: rev_induct)
  case Nil
  then show ?case by (simp add: start_streaks_def no_breakeven_def)
next
  case (snoc x ocs)
  define s where "s = foldl streak_step start_streaks ocs"
  let ?l = "no_breakeven ocs"
  have step: "foldl streak_step start_streaks (ocs @ [x]) = streak_step s x" by (simp add: s_def)
  note IH = snoc [folded s_def, unfolded Let_def]
  show ?case
  proof (cases "x = Win \<or> x = Loss")
    case False
    then have "streak_step s x = s" "no_breakeven (ocs @ [x]) = ?l" by (auto simp: streak_step_def no_breakeven_def)
    then show ?thesis using IH unfolding step by simp
  next
    case True
    then have l: "no_breakeven (ocs @ [x]) = ?l @ [x]" by (simp add: no_breakeven_def)
    have trail0: "trail x ?l = 0" if "?l = [] \<or> last ?l \<noteq> x"
      using that by (cases ?l rule: rev_cases) (auto simp: trail_def)
    have n: "(if st_current s = Some x then st_len s + 1 else 1) = trail x (?l @ [x])"
      using IH trail0 by (auto simp: Let_def trail_snoc split: if_splits)
    have other: "trail y (?l @ [x]) = 0" if "y \<noteq> x" for y using that by (simp add: trail_snoc)
    show ?thesis unfolding step l Let_def
      using IH True n other by (auto simp: streak_step_def Let_def longest_run_snoc)
  qed
qed

text \<open>
  The curve figures of the summary, on the closed trades in order of opening: the drawdown is the
  largest fall of the running R from an earlier to a later point, the streaks are the longest runs of
  wins and of losses with breakevens left out, the current streak is the run at the end, and each bar
  of the distribution counts the trades of a half-open interval. Trades below \<open>-3\<close> R are in no bar, and
  the intervals are closed at the other end than their labels say: a trade of exactly \<open>1\<close> R is in the
  bar \<open>(1,2]\<close>.
\<close>

theorem summary_curve:
  "let s = summarize entries; a = jt_acc s; es = sort_key je_openedAt entries;
       ocs = no_breakeven (map je_outcome (closed_of es)) in
     rs_maxDrawdown (ja_r a) = largest_fall (rs_of es)
     \<and> st_win (ja_streaks a) = longest_run Win ocs \<and> st_loss (ja_streaks a) = longest_run Loss ocs
     \<and> jt_currentStreak s = (if ocs = [] then (None, 0) else (Some (last ocs), trail (last ocs) ocs))
     \<and> (\<forall>b. rs_dist (ja_r a) b = length (filter (in_bucket b) (rs_of es)))
     \<and> sum_list (map (rs_dist (ja_r a)) r_buckets) = length (filter (\<lambda>r. -3 \<le> r) (rs_of es))"
proof -
  define es where "es = sort_key je_openedAt entries"
  define a where "a = foldl stats_step empty_acc es"
  define ocs where "ocs = no_breakeven (map je_outcome (closed_of es))"
  have r: "ja_r a = foldl r_step start_r (rs_of es)"
    unfolding a_def stats_fold by (simp add: empty_acc_def start_r_def)
  have st: "ja_streaks a = foldl streak_step start_streaks (map je_outcome (closed_of es))"
    unfolding a_def stats_fold by (simp add: empty_acc_def start_streaks_def)
  note sf = streak_fold [of "map je_outcome (closed_of es)", folded st ocs_def, unfolded Let_def]
  have dist: "rs_dist (ja_r a) b = length (filter (in_bucket b) (rs_of es))" for b
    unfolding r dist_fold by (simp add: start_r_def)
  have total: "sum_list (map (\<lambda>b. length (filter (in_bucket b) rs)) r_buckets) = length (filter (\<lambda>r. -3 \<le> r) rs)" for rs
    by (induction rs) (auto simp: r_buckets_def)
  have bars: "map (rs_dist (ja_r a)) r_buckets = map (\<lambda>b. length (filter (in_bucket b) (rs_of es))) r_buckets"
    using dist by simp
  have n: "(ja_wins a + ja_losses a + ja_breakevens a = 0) = (closed_of es = [])"
    unfolding a_def stats_fold using count_outcomes [of es] by (auto simp: empty_acc_def)
  have cur: "(if ja_wins a + ja_losses a + ja_breakevens a = 0 then (None, 0) else case st_current (ja_streaks a) of
      None \<Rightarrow> (None, 0) | Some t \<Rightarrow> (Some t, st_len (ja_streaks a)))
    = (if ocs = [] then (None, 0) else (Some (last ocs), trail (last ocs) ocs))"
    using sf n by (auto simp: ocs_def no_breakeven_def split: if_splits)
  show ?thesis
    using sf cur dist total [of "rs_of es"] largest_fall_eq [of "rs_of es", folded r]
    unfolding summarize_def Let_def es_def [symmetric] a_def [symmetric] ocs_def [symmetric]
    by (simp add: bars)
qed

end
