(* ===== verification/Mutation_Flow.thy ===== *)
theory Mutation_Flow
  imports Prompt_Guards Alerts Js_Hex Journal
begin

text \<open>
  Writes asked for in the chat: the draft and its confirmation
  (\<open>packages/ai/src/mastra/mutation-policy.ts\<close>, \<open>mutation-extract.ts\<close>,
  \<open>mastra-v2/workflows/mutation.ts\<close>) and the two places of the web server that run them
  (\<open>apps/web/src/lib/services/mastra-mutation-draft.ts\<close>,
  \<open>apps/web/src/app/api/chat/mutations/confirm/route.ts\<close>). HMAC-SHA256, the rendering of the expiry,
  random tokens, run ids and row ids, and the language model's extraction are arguments. The workflow
  library keeps a snapshot of every run: the input and the state its draft step set. Which resumes of a
  run it lets through (its status check, with no compare-and-set on the snapshot) is its own matter and
  an argument of every resume, so nothing here rests on it.
\<close>

section \<open>Policy\<close>

datatype mutation_error =
    ME_Disabled | ME_Confirmation_Required | ME_Invalid_Context | ME_Token_Expired | ME_Token_Invalid
  | ME_No_Secret | ME_Not_Suspended | ME_Kind_Mismatch | ME_Extraction | ME_No_Mutation | ME_Database

record mutation_env =
  me_enabled :: bool                   \<comment> \<open>\<open>ENABLE_MASTRA_MUTATIONS\<close> is \<open>'true'\<close>\<close>
  me_cookieSecret :: "string option"   \<comment> \<open>\<open>AUTH_COOKIE_SECRET\<close>\<close>
  me_production :: bool

definition evaluateMastraMutation :: "mutation_env \<Rightarrow> string \<Rightarrow> string \<Rightarrow> bool \<Rightarrow> mutation_error + unit" where
  "evaluateMastraMutation env userId threadId confirmed =
     (if userId = [] \<or> threadId = [] then Inl ME_Invalid_Context
      else if \<not> me_enabled env then Inl ME_Disabled
      else if \<not> confirmed then Inl ME_Confirmation_Required
      else Inr ())"

definition assertMastraMutationDraftAllowed :: "mutation_env \<Rightarrow> string \<Rightarrow> string \<Rightarrow> mutation_error + unit" where
  "assertMastraMutationDraftAllowed env userId threadId =
     (if userId = [] \<or> threadId = [] then Inl ME_Invalid_Context
      else if \<not> me_enabled env then Inl ME_Disabled
      else Inr ())"

section \<open>Confirmation tokens\<close>

definition MUTATION_TOKEN_TTL_MS :: ms where "MUTATION_TOKEN_TTL_MS = 15 * 60 * 1000"

text \<open>\<open>confirmationSecret\<close>: the explicit secret, else the one of the environment, at least 32
  characters long; outside production a shorter explicit one passes.\<close>

definition confirmationSecret :: "mutation_env \<Rightarrow> string option \<Rightarrow> string option" where
  "confirmationSecret env explicit =
     (let secret = (case explicit of Some s \<Rightarrow> s | None \<Rightarrow> (case me_cookieSecret env of Some s \<Rightarrow> s | None \<Rightarrow> [])) in
      if length secret < 32
      then (if \<not> me_production env \<and> explicit \<noteq> None \<and> explicit \<noteq> Some [] then explicit else None)
      else Some secret)"

definition timingSafeEqualHex_policy :: "string \<Rightarrow> string \<Rightarrow> bool" where
  "timingSafeEqualHex_policy a b \<longleftrightarrow> length (from_hex a) = length (from_hex b) \<and> from_hex a = from_hex b"

fun mutation_name :: "mutation_kind \<Rightarrow> string" where
  "mutation_name Set_Alert = ''set_alert''"
| "mutation_name Log_Journal = ''log_journal''"
| "mutation_name Share_Snapshot = ''share_snapshot''"
| "mutation_name Run_System_Action = ''run_system_action''"

type_synonym hmac = "string \<Rightarrow> string \<Rightarrow> string"

record stored_confirmation =
  sc_digest :: string
  sc_expiresAt :: ms

definition digest_text :: "(ms \<Rightarrow> string) \<Rightarrow> string \<Rightarrow> mutation_kind \<Rightarrow> string \<Rightarrow> ms \<Rightarrow> string" where
  "digest_text dec token kind userId expiresAt
     = token @ '':'' @ mutation_name kind @ '':'' @ userId @ '':'' @ dec expiresAt"

definition storedConfirmationForToken ::
  "hmac \<Rightarrow> (ms \<Rightarrow> string) \<Rightarrow> mutation_env \<Rightarrow> string option \<Rightarrow> string \<Rightarrow> mutation_kind \<Rightarrow> string \<Rightarrow> ms
     \<Rightarrow> mutation_error + stored_confirmation" where
  "storedConfirmationForToken hmac dec env explicit token kind userId expiresAt =
     (case confirmationSecret env explicit of
        None \<Rightarrow> Inl ME_No_Secret
      | Some secret \<Rightarrow> Inr \<lparr>sc_digest = hmac secret (digest_text dec token kind userId expiresAt), sc_expiresAt = expiresAt\<rparr>)"

definition verifyMutationConfirmationToken ::
  "hmac \<Rightarrow> (ms \<Rightarrow> string) \<Rightarrow> mutation_env \<Rightarrow> string option \<Rightarrow> string \<Rightarrow> stored_confirmation \<Rightarrow> mutation_kind
     \<Rightarrow> string \<Rightarrow> ms \<Rightarrow> mutation_error + bool" where
  "verifyMutationConfirmationToken hmac dec env explicit token stored kind userId now =
     (case confirmationSecret env explicit of
        None \<Rightarrow> Inl ME_No_Secret
      | Some secret \<Rightarrow>
          if now > sc_expiresAt stored then Inr False
          else Inr (timingSafeEqualHex_policy (hmac secret (digest_text dec token kind userId (sc_expiresAt stored)))
                 (sc_digest stored)))"

section \<open>Inputs\<close>

record journal_fields =
  jf_symbol :: string
  jf_side :: trade_side
  jf_openedAt :: ms
  jf_entry :: real
  jf_stop :: "real option"
  jf_target :: "real option"
  jf_exit :: "real option"
  jf_size :: "real option"
  jf_outcome :: "trade_outcome option"
  jf_rMultiple :: "real option"
  jf_notes :: "string option"
  jf_tags :: "string list option"

datatype mutation_input =
    In_Alert alert_rule "alert_channel list option" "string option" "int option"
  | In_Journal journal_fields
  | In_Share string string "string option" "string option" "int option"
  | In_System string

fun input_kind :: "mutation_input \<Rightarrow> mutation_kind" where
  "input_kind (In_Alert _ _ _ _) = Set_Alert"
| "input_kind (In_Journal _) = Log_Journal"
| "input_kind (In_Share _ _ _ _ _) = Share_Snapshot"
| "input_kind (In_System _) = Run_System_Action"

text \<open>What the language model extracted, after the schema of its kind.\<close>

datatype extraction =
    Ex_Alert alert_rule "alert_channel list" "string option"
  | Ex_Journal journal_fields
  | Ex_Share string string "string option" "string option"
  | Ex_System string

definition truthy :: "string option \<Rightarrow> string option" where
  "truthy s = (if s = Some [] then None else s)"

text \<open>\<open>MutationInputSchema\<close> on what \<open>buildMutationInput\<close> makes: symbols are replaced by what their
  schema returns, texts and counts are bounded.\<close>

definition validate_symbol :: "string \<Rightarrow> string option" where
  "validate_symbol s = (case SymbolSchema s of Inr s' \<Rightarrow> Some s' | Inl _ \<Rightarrow> None)"

definition buildMutationInput :: "ms \<Rightarrow> extraction \<Rightarrow> mutation_error + mutation_input" where
  "buildMutationInput now e =
     (case e of
        Ex_Alert rule channels note \<Rightarrow> Inr (In_Alert rule (Some channels) (truthy note) None)
      | Ex_Journal j \<Rightarrow>
          (case validate_symbol (normalizeSymbol (jf_symbol j)) of
             None \<Rightarrow> Inl ME_Extraction
           | Some s \<Rightarrow> Inr (In_Journal (j\<lparr>jf_symbol := s, jf_openedAt := now,
               jf_notes := truthy (jf_notes j), jf_tags := (if jf_tags j = Some [] then None else jf_tags j)\<rparr>)))
      | Ex_Share title body symbol tf \<Rightarrow>
          (let sym = (case truthy symbol of None \<Rightarrow> Some None
             | Some s \<Rightarrow> map_option Some (validate_symbol (normalizeSymbol s))) in
           if 2 \<le> length title \<and> length title \<le> 200 \<and> 2 \<le> length body \<and> length body \<le> 8000
           then (case sym of None \<Rightarrow> Inl ME_Extraction | Some s \<Rightarrow> Inr (In_Share title body s (truthy tf) None))
           else Inl ME_Extraction)
      | Ex_System action \<Rightarrow>
          if 2 \<le> length action \<and> length action \<le> 200 then Inr (In_System action) else Inl ME_Extraction)"

section \<open>Writes\<close>

datatype db_write =
    W_Alert string alert_rule "alert_channel list" "string option" int
  | W_Journal string journal_fields
  | W_Share string string string "string option" "string option" ms
  | W_System string string

text \<open>\<open>executorFor(kind, userId)\<close>: the row it writes, with the defaults of each field.\<close>

definition executorFor :: "mutation_kind \<Rightarrow> string \<Rightarrow> ms \<Rightarrow> mutation_input \<Rightarrow> mutation_error + db_write" where
  "executorFor kind userId now input =
     (case (kind, input) of
        (Set_Alert, In_Alert rule channels note snooze) \<Rightarrow>
          Inr (W_Alert userId rule (case channels of None \<Rightarrow> [Email] | Some cs \<Rightarrow> cs) note
            (case snooze of None \<Rightarrow> 0 | Some h \<Rightarrow> h))
      | (Log_Journal, In_Journal j) \<Rightarrow>
          Inr (W_Journal userId (j\<lparr>jf_outcome := Some (case jf_outcome j of None \<Rightarrow> Open | Some oc \<Rightarrow> oc),
            jf_tags := Some (case jf_tags j of None \<Rightarrow> [] | Some ts \<Rightarrow> ts)\<rparr>))
      | (Share_Snapshot, In_Share title body symbol tf ttl) \<Rightarrow>
          Inr (W_Share userId title body symbol tf (now + (case ttl of None \<Rightarrow> 7 * 24 * 60 | Some m \<Rightarrow> m) * 60000))
      | (Run_System_Action, In_System action) \<Rightarrow> Inr (W_System userId action)
      | _ \<Rightarrow> Inl ME_Kind_Mismatch)"

section \<open>The workflow\<close>

record mutation_run =
  mr_input :: mutation_input
  mr_confirmation :: "stored_confirmation option"
  mr_threadId :: "string option"
  mr_resourceId :: "string option"

record suspend_payload =
  sp_kind :: mutation_kind
  sp_runId :: string
  sp_threadId :: string
  sp_expiresAt :: ms
  sp_token :: string

type_synonym run_key = "mutation_kind \<times> string"   \<comment> \<open>the workflow's name and the run's id\<close>

text \<open>The first pass of the draft step.\<close>

definition draft_first ::
  "hmac \<Rightarrow> (ms \<Rightarrow> string) \<Rightarrow> mutation_env \<Rightarrow> string option \<Rightarrow> mutation_kind \<Rightarrow> string \<Rightarrow> string \<Rightarrow> ms option
     \<Rightarrow> string \<Rightarrow> string \<Rightarrow> ms \<Rightarrow> mutation_error + stored_confirmation \<times> suspend_payload" where
  "draft_first hmac dec env secret kind userId threadId ttlMs runId token now =
     (case assertMastraMutationDraftAllowed env userId threadId of
        Inl e \<Rightarrow> Inl e
      | Inr _ \<Rightarrow>
          (let expiresAt = now + (case ttlMs of None \<Rightarrow> MUTATION_TOKEN_TTL_MS | Some t \<Rightarrow> t) in
           case storedConfirmationForToken hmac dec env secret token kind userId expiresAt of
             Inl e \<Rightarrow> Inl e
           | Inr stored \<Rightarrow> Inr (stored, \<lparr>sp_kind = kind, sp_runId = runId, sp_threadId = threadId,
               sp_expiresAt = expiresAt, sp_token = token\<rparr>)))"

text \<open>Its resume pass, with the two readings of the clock.\<close>

definition draft_resume ::
  "hmac \<Rightarrow> (ms \<Rightarrow> string) \<Rightarrow> mutation_env \<Rightarrow> string option \<Rightarrow> mutation_kind \<Rightarrow> string \<Rightarrow> string
     \<Rightarrow> mutation_run \<Rightarrow> string \<Rightarrow> ms \<Rightarrow> ms \<Rightarrow> mutation_error + mutation_input" where
  "draft_resume hmac dec env secret kind userId threadId run token now later =
     (case mr_confirmation run of
        None \<Rightarrow> Inl ME_Token_Invalid
      | Some stored \<Rightarrow>
          (case verifyMutationConfirmationToken hmac dec env secret token stored kind userId now of
             Inl e \<Rightarrow> Inl e
           | Inr ok \<Rightarrow>
               if \<not> ok then Inl (if later > sc_expiresAt stored then ME_Token_Expired else ME_Token_Invalid)
               else (case evaluateMastraMutation env userId
                       (case mr_threadId run of Some t \<Rightarrow> t | None \<Rightarrow> threadId) True of
                 Inl e \<Rightarrow> Inl e
               | Inr _ \<Rightarrow> Inr (mr_input run))))"

record mutation_world =
  mw_runs :: "(run_key, mutation_run) js_map"
  mw_writes :: "(run_key \<times> db_write) list"
  mw_audit :: "(string \<times> run_key) list"

text \<open>\<open>runMutationWorkflow\<close> without \<open>resumeData\<close>: a run whose first pass throws has failed.\<close>

definition start_run ::
  "hmac \<Rightarrow> (ms \<Rightarrow> string) \<Rightarrow> mutation_env \<Rightarrow> string option \<Rightarrow> mutation_kind \<Rightarrow> string \<Rightarrow> string \<Rightarrow> ms option
     \<Rightarrow> string option \<Rightarrow> mutation_input \<Rightarrow> string \<Rightarrow> string \<Rightarrow> ms \<Rightarrow> mutation_world
     \<Rightarrow> mutation_world \<times> (mutation_error + suspend_payload)" where
  "start_run hmac dec env secret kind userId threadId ttlMs resource input runId token now w =
     (case draft_first hmac dec env secret kind userId threadId ttlMs runId token now of
        Inl e \<Rightarrow> (w\<lparr>mw_runs := js_set (kind, runId) \<lparr>mr_input = input, mr_confirmation = None, mr_threadId = None,
            mr_resourceId = resource\<rparr> (mw_runs w)\<rparr>, Inl e)
      | Inr (stored, payload) \<Rightarrow>
          (w\<lparr>mw_runs := js_set (kind, runId) \<lparr>mr_input = input, mr_confirmation = Some stored,
            mr_threadId = Some threadId, mr_resourceId = resource\<rparr> (mw_runs w)\<rparr>, Inr payload))"

text \<open>
  What decides a resume besides the code: the library lets it through (\<open>re_admitted\<close>), the write's
  statement and the audit's succeed.
\<close>

record resume_env =
  re_admitted :: bool
  re_writeUp :: bool
  re_auditUp :: bool

text \<open>The execute step: the write, then its audit row.\<close>

definition execute_step :: "resume_env \<Rightarrow> mutation_kind \<Rightarrow> string \<Rightarrow> string \<Rightarrow> ms \<Rightarrow> mutation_input
    \<Rightarrow> mutation_world \<Rightarrow> mutation_world \<times> (mutation_error + db_write)" where
  "execute_step re kind userId runId now input w =
     (case executorFor kind userId now input of
        Inl e \<Rightarrow> (w, Inl e)
      | Inr wr \<Rightarrow>
          if \<not> re_writeUp re then (w, Inl ME_Database)
          else (let w1 = w\<lparr>mw_writes := mw_writes w @ [((kind, runId), wr)]\<rparr> in
                if \<not> re_auditUp re then (w1, Inl ME_Database)
                else (w1\<lparr>mw_audit := mw_audit w1 @ [(userId, (kind, runId))]\<rparr>, Inr wr)))"

text \<open>\<open>runMutationWorkflow\<close> with \<open>resumeData\<close>: no run, or one the library does not resume, raises.\<close>

definition resume_run ::
  "hmac \<Rightarrow> (ms \<Rightarrow> string) \<Rightarrow> mutation_env \<Rightarrow> string option \<Rightarrow> resume_env \<Rightarrow> mutation_kind \<Rightarrow> string \<Rightarrow> string
     \<Rightarrow> string \<Rightarrow> string \<Rightarrow> ms \<Rightarrow> ms \<Rightarrow> mutation_world \<Rightarrow> mutation_world \<times> (mutation_error + db_write)" where
  "resume_run hmac dec env secret re kind userId threadId runId token now later w =
     (case js_get (mw_runs w) (kind, runId) of
        None \<Rightarrow> (w, Inl ME_Not_Suspended)
      | Some run \<Rightarrow>
          if \<not> re_admitted re then (w, Inl ME_Not_Suspended)
          else (case draft_resume hmac dec env secret kind userId threadId run token now later of
             Inl e \<Rightarrow> (w, Inl e)
           | Inr input \<Rightarrow> execute_step re kind userId runId later input w))"

section \<open>The web server\<close>

text \<open>\<open>startMutationDraft\<close>: the kind is the caller's or the classifier's; the run is created with no
  resource id.\<close>

definition startMutationDraft ::
  "hmac \<Rightarrow> (ms \<Rightarrow> string) \<Rightarrow> mutation_env \<Rightarrow> string \<Rightarrow> string \<Rightarrow> string \<Rightarrow> mutation_kind option \<Rightarrow> extraction option
     \<Rightarrow> string \<Rightarrow> string \<Rightarrow> ms \<Rightarrow> mutation_world \<Rightarrow> mutation_world \<times> (mutation_error + suspend_payload)" where
  "startMutationDraft hmac dec env userId threadId userText kind0 extracted runId token now w =
     (case (case kind0 of Some k \<Rightarrow> Some k | None \<Rightarrow> classifyMutationRequest userText) of
        None \<Rightarrow> (w, Inl ME_No_Mutation)
      | Some kind \<Rightarrow>
          (case assertMastraMutationDraftAllowed env userId threadId of
             Inl e \<Rightarrow> (w, Inl e)
           | Inr _ \<Rightarrow>
               (case (case extracted of None \<Rightarrow> Inl ME_Extraction | Some x \<Rightarrow> buildMutationInput now x) of
                  Inl e \<Rightarrow> (w, Inl e)
                | Inr input \<Rightarrow>
                    start_run hmac dec env None kind userId threadId None None input runId token now w)))"

datatype confirm_reply =
    Reply_Validation | Reply_Not_Found | Reply_Forbidden | Reply_Thrown mutation_error | Reply_Executed db_write

definition readRunOwner :: "mutation_world \<Rightarrow> string \<Rightarrow> mutation_kind \<Rightarrow> string option" where
  "readRunOwner w runId kind =
     (case js_get (mw_runs w) (kind, runId) of None \<Rightarrow> None | Some r \<Rightarrow> mr_resourceId r)"

text \<open>\<open>POST /api/chat/mutations/confirm\<close> of a signed-in user; \<open>body\<close> is \<open>None\<close> when it does not parse.\<close>

definition confirm_route ::
  "hmac \<Rightarrow> (ms \<Rightarrow> string) \<Rightarrow> mutation_env \<Rightarrow> resume_env \<Rightarrow> string
     \<Rightarrow> (mutation_kind \<times> string \<times> string \<times> string) option \<Rightarrow> ms \<Rightarrow> ms \<Rightarrow> mutation_world
     \<Rightarrow> mutation_world \<times> confirm_reply" where
  "confirm_route hmac dec env re userId body now later w =
     (case body of None \<Rightarrow> (w, Reply_Validation)
      | Some (kind, runId, threadId, token) \<Rightarrow>
          (case evaluateMastraMutation env userId threadId True of
             Inl e \<Rightarrow> (w, Reply_Thrown e)
           | Inr _ \<Rightarrow>
               (case readRunOwner w runId kind of
                  None \<Rightarrow> (w, Reply_Not_Found)
                | Some owner \<Rightarrow>
                    if owner \<noteq> userId then (w, Reply_Forbidden)
                    else (case resume_run hmac dec env None re kind userId threadId runId token now later w of
                       (w', Inl e) \<Rightarrow> (w', Reply_Thrown e)
                     | (w', Inr wr) \<Rightarrow> (w', Reply_Executed wr)))))"

section \<open>What a token proves\<close>

definition collision_free :: "hmac \<Rightarrow> bool" where
  "collision_free hmac \<longleftrightarrow> (\<forall>s x y. from_hex (hmac s x) = from_hex (hmac s y) \<longrightarrow> x = y)"

text \<open>A digest without collisions: the text itself in hexadecimal.\<close>

definition plain_hmac :: hmac where
  "plain_hmac s x = to_hex (map of_char x)"

lemma collision_free_plain: "collision_free plain_hmac"
  proof -
  have "from_hex (plain_hmac s x) = map of_char x" for s x
    unfolding plain_hmac_def by (rule from_to_hex) (auto simp: nat_of_char_less_256)
  then show ?thesis by (simp add: collision_free_def inj_on_def)
qed

lemma last_colon: "CHR '':'' \<notin> set u \<Longrightarrow> takeWhile (\<lambda>c. c \<noteq> CHR '':'') (rev (a @ CHR '':'' # u)) = rev u"
  by (simp add: takeWhile_append)

lemma split_last_colon:
  assumes "CHR '':'' \<notin> set u" "CHR '':'' \<notin> set u'"
  shows "a @ CHR '':'' # u = a' @ CHR '':'' # u' \<longleftrightarrow> a = a' \<and> u = u'"
proof
  assume eq: "a @ CHR '':'' # u = a' @ CHR '':'' # u'"
  have "rev u = rev u'" using last_colon [OF assms(1), of a] last_colon [OF assms(2), of a'] unfolding eq by simp
  then show "a = a' \<and> u = u'" using eq by simp
qed simp

lemma digest_text_inj:
  assumes "CHR '':'' \<notin> set u" "CHR '':'' \<notin> set u'"
  shows "digest_text dec tk kind u e = digest_text dec tk' kind u' e \<longleftrightarrow> tk = tk' \<and> u = u'"
proof
  assume "digest_text dec tk kind u e = digest_text dec tk' kind u' e"
  then have "(tk @ '':'' @ mutation_name kind) @ CHR '':'' # u = (tk' @ '':'' @ mutation_name kind) @ CHR '':'' # u'"
    by (simp add: digest_text_def)
  then show "tk = tk' \<and> u = u'" by (simp only: split_last_colon [OF assms] append_same_eq)
qed simp

lemma verify_exact:
  assumes "collision_free hmac" "confirmationSecret env secret = Some key" "CHR '':'' \<notin> set u" "CHR '':'' \<notin> set u'"
  shows "verifyMutationConfirmationToken hmac dec env secret tk'
      \<lparr>sc_digest = hmac key (digest_text dec tk kind u e), sc_expiresAt = e\<rparr> kind u' now
    = Inr (now \<le> e \<and> tk' = tk \<and> u' = u)"
proof -
  have "from_hex (hmac key (digest_text dec tk' kind u' e)) = from_hex (hmac key (digest_text dec tk kind u e))
      \<longleftrightarrow> tk' = tk \<and> u' = u"
    using assms(1) digest_text_inj [OF assms(4,3)] unfolding collision_free_def by metis
  then show ?thesis using assms(2)
    by (auto simp: verifyMutationConfirmationToken_def timingSafeEqualHex_policy_def)
qed

text \<open>
  C21: How a confirmation of a drafted run is answered: an expired token before all else, then a token that
  is not the one issued or that comes from another user, then the policy; only when all pass is the
  drafted input handed on.
\<close>

theorem confirmation_answers:
  assumes "collision_free hmac" "CHR '':'' \<notin> set u" "CHR '':'' \<notin> set u'" "now \<le> later"
    "draft_first hmac dec env secret kind u th ttl runId tk t0 = Inr (stored, payload)"
    "confirmationSecret env' secret = confirmationSecret env secret"
    "mr_confirmation run = Some stored" "mr_threadId run = Some th"
  shows "draft_resume hmac dec env' secret kind u' th' run tk' now later =
    (if now > sp_expiresAt payload then Inl ME_Token_Expired
     else if tk' \<noteq> sp_token payload \<or> u' \<noteq> u
       then Inl (if later > sp_expiresAt payload then ME_Token_Expired else ME_Token_Invalid)
     else if \<not> me_enabled env' then Inl ME_Disabled
     else Inr (mr_input run))"
proof -
  let ?e = "sp_expiresAt payload"
  have ne: "u \<noteq> []" "th \<noteq> []" using assms(5)
    by (auto simp: draft_first_def assertMastraMutationDraftAllowed_def split: if_splits)
  obtain key where key: "confirmationSecret env secret = Some key"
    and st: "stored = \<lparr>sc_digest = hmac key (digest_text dec tk kind u ?e), sc_expiresAt = ?e\<rparr>" and tk: "sp_token payload = tk"
    using assms(5)
    by (auto simp: draft_first_def storedConfirmationForToken_def Let_def split: sum.splits option.splits)
  have "verifyMutationConfirmationToken hmac dec env' secret tk' stored kind u' now = Inr (now \<le> ?e \<and> tk' = tk \<and> u' = u)"
    using verify_exact [OF assms(1) _ assms(2,3), of env' secret key] key st assms(6) by simp
  then show ?thesis using assms(4,7,8) ne tk
    by (auto simp: draft_resume_def evaluateMastraMutation_def st)
qed

definition sample_env :: mutation_env where
  "sample_env = \<lparr>me_enabled = True, me_cookieSecret = Some (replicate 32 CHR ''k''), me_production = True\<rparr>"

definition sample_run :: "stored_confirmation \<Rightarrow> mutation_run" where
  "sample_run st = \<lparr>mr_input = In_System ''sync'', mr_confirmation = Some st, mr_threadId = Some ''t1'',
     mr_resourceId = None\<rparr>"

definition sample_stored :: stored_confirmation where
  "sample_stored = \<lparr>sc_digest = plain_hmac (replicate 32 CHR ''k'') (digest_text (\<lambda>_. ''9'') ''tok'' Run_System_Action ''u1'' 900000),
     sc_expiresAt = 900000\<rparr>"

theorem confirmation_answers_witness:
  "draft_resume plain_hmac (\<lambda>_. ''9'') sample_env None Run_System_Action ''u1'' ''t1'' (sample_run sample_stored) ''tok'' 5 6
     = Inr (In_System ''sync'')
   \<and> draft_resume plain_hmac (\<lambda>_. ''9'') sample_env None Run_System_Action ''u2'' ''t1'' (sample_run sample_stored) ''tok'' 5 6
     = Inl ME_Token_Invalid"
proof -
  have d: "draft_first plain_hmac (\<lambda>_. ''9'') sample_env None Run_System_Action ''u1'' ''t1'' None ''r1'' ''tok'' 0
      = Inr (sample_stored, \<lparr>sp_kind = Run_System_Action, sp_runId = ''r1'', sp_threadId = ''t1'', sp_expiresAt = 900000, sp_token = ''tok''\<rparr>)"
    by (simp add: draft_first_def assertMastraMutationDraftAllowed_def sample_env_def storedConfirmationForToken_def
        confirmationSecret_def Let_def MUTATION_TOKEN_TTL_MS_def sample_stored_def)
  show ?thesis
    using confirmation_answers [where run = "sample_run sample_stored" and u' = "''u1''" and now = 5 and later = 6, OF collision_free_plain _ _ _ d refl]
      confirmation_answers [where run = "sample_run sample_stored" and u' = "''u2''" and now = 5 and later = 6, OF collision_free_plain _ _ _ d refl]
    by (simp add: sample_run_def sample_env_def)
qed

section \<open>What a sequence of drafts and confirmations writes\<close>

datatype flow_event =
    Ev_Start mutation_kind string string "ms option" "string option" mutation_input string string ms
  | Ev_Resume resume_env mutation_kind string string string string ms ms

text \<open>\<open>flow_step\<close>: the clock, tokens, run ids and what the library and the database do are in the events.\<close>

fun flow_step :: "hmac \<Rightarrow> (ms \<Rightarrow> string) \<Rightarrow> mutation_env \<Rightarrow> string option \<Rightarrow> mutation_world \<Rightarrow> flow_event
    \<Rightarrow> mutation_world" where
  "flow_step hmac dec env secret w (Ev_Start kind u th ttl res input runId tk now)
     = fst (start_run hmac dec env secret kind u th ttl res input runId tk now w)"
| "flow_step hmac dec env secret w (Ev_Resume re kind u th runId tk now later)
     = fst (resume_run hmac dec env secret re kind u th runId tk now later w)"

fun start_key :: "flow_event \<Rightarrow> run_key list" where
  "start_key (Ev_Start kind u th ttl res input runId tk now) = [(kind, runId)]"
| "start_key (Ev_Resume re kind u th runId tk now later) = []"

fun event_user :: "flow_event \<Rightarrow> string" where
  "event_user (Ev_Start kind u th ttl res input runId tk now) = u"
| "event_user (Ev_Resume re kind u th runId tk now later) = u"

definition empty_world :: mutation_world where
  "empty_world = \<lparr>mw_runs = [], mw_writes = [], mw_audit = []\<rparr>"

definition expiry :: "ms option \<Rightarrow> ms \<Rightarrow> ms" where
  "expiry ttl now = now + (case ttl of None \<Rightarrow> MUTATION_TOKEN_TTL_MS | Some t \<Rightarrow> t)"

text \<open>
  What a resume writes, told from the event that started its run and from the resume alone: the
  drafted input, when the same user presents the token of the draft before it expires, drafting was
  allowed, and the library and the database do their part.
\<close>

fun confirmed_write :: "mutation_env \<Rightarrow> string option \<Rightarrow> flow_event \<Rightarrow> flow_event \<Rightarrow> (run_key \<times> db_write) list" where
  "confirmed_write env secret (Ev_Start kind0 u0 th0 ttl res input run0 tk0 t0) (Ev_Resume re kind u th runId tk now later) =
     (if re_admitted re \<and> re_writeUp re \<and> u = u0 \<and> tk = tk0 \<and> now \<le> expiry ttl t0
         \<and> u0 \<noteq> [] \<and> th0 \<noteq> [] \<and> me_enabled env \<and> confirmationSecret env secret \<noteq> None
      then (case executorFor kind u later input of Inl e \<Rightarrow> [] | Inr wr \<Rightarrow> [((kind, runId), wr)]) else [])"
| "confirmed_write env secret _ _ = []"

fun run_key_of :: "flow_event \<Rightarrow> run_key option" where
  "run_key_of (Ev_Resume re kind u th runId tk now later) = Some (kind, runId)"
| "run_key_of _ = None"

definition start_of :: "run_key \<Rightarrow> flow_event list \<Rightarrow> flow_event option" where
  "start_of k es = List.find (\<lambda>e. start_key e = [k]) es"

text \<open>The writes of a sequence of events, each resume read against the start before it.\<close>

definition resume_writes :: "mutation_env \<Rightarrow> string option \<Rightarrow> flow_event list \<Rightarrow> flow_event \<Rightarrow> (run_key \<times> db_write) list" where
  "resume_writes env secret seen e =
     (case run_key_of e of
        None \<Rightarrow> []
      | Some k \<Rightarrow> (case start_of k seen of None \<Rightarrow> [] | Some s \<Rightarrow> confirmed_write env secret s e))"

fun expected_writes :: "mutation_env \<Rightarrow> string option \<Rightarrow> flow_event list \<Rightarrow> flow_event list \<Rightarrow> (run_key \<times> db_write) list" where
  "expected_writes env secret seen [] = []"
| "expected_writes env secret seen (e # es)
     = resume_writes env secret seen e @ expected_writes env secret (seen @ [e]) es"

text \<open>The snapshot of a run is what its start made of it.\<close>

fun run_of_start :: "hmac \<Rightarrow> (ms \<Rightarrow> string) \<Rightarrow> mutation_env \<Rightarrow> string option \<Rightarrow> flow_event \<Rightarrow> mutation_run" where
  "run_of_start hmac dec env secret (Ev_Start kind u th ttl res input runId tk t0) =
     (case draft_first hmac dec env secret kind u th ttl runId tk t0 of
        Inl e \<Rightarrow> \<lparr>mr_input = input, mr_confirmation = None, mr_threadId = None, mr_resourceId = res\<rparr>
      | Inr (stored, payload) \<Rightarrow>
          \<lparr>mr_input = input, mr_confirmation = Some stored, mr_threadId = Some th, mr_resourceId = res\<rparr>)"
| "run_of_start hmac dec env secret (Ev_Resume re kind u th runId tk now later) = undefined"

definition snapshots_ok :: "hmac \<Rightarrow> (ms \<Rightarrow> string) \<Rightarrow> mutation_env \<Rightarrow> string option \<Rightarrow> flow_event list \<Rightarrow> mutation_world \<Rightarrow> bool" where
  "snapshots_ok hmac dec env secret seen w \<longleftrightarrow>
     (\<forall>k. js_get (mw_runs w) k = map_option (run_of_start hmac dec env secret) (start_of k seen))"

lemma draft_first_cases:
  "draft_first hmac dec env secret kind u th ttl runId tk t0 =
     (if u = [] \<or> th = [] then Inl ME_Invalid_Context
      else if \<not> me_enabled env then Inl ME_Disabled
      else (case confirmationSecret env secret of
        None \<Rightarrow> Inl ME_No_Secret
      | Some key \<Rightarrow> Inr (\<lparr>sc_digest = hmac key (digest_text dec tk kind u (expiry ttl t0)), sc_expiresAt = expiry ttl t0\<rparr>,
          \<lparr>sp_kind = kind, sp_runId = runId, sp_threadId = th, sp_expiresAt = expiry ttl t0, sp_token = tk\<rparr>)))"
  by (simp add: draft_first_def assertMastraMutationDraftAllowed_def storedConfirmationForToken_def expiry_def
      Let_def split: option.splits)

lemma start_of_snoc:
  "start_of k (seen @ [e]) = (case start_of k seen of Some s \<Rightarrow> Some s
     | None \<Rightarrow> if start_key e = [k] then Some e else None)"
  by (induction seen) (auto simp: start_of_def)

lemma start_of_fresh: "k \<notin> set (concat (map start_key seen)) \<Longrightarrow> start_of k seen = None"
  by (force simp: start_of_def find_None_iff)

lemma start_of_in: "start_of k seen = Some s \<Longrightarrow> s \<in> set seen \<and> start_key s = [k]"
  by (auto simp: start_of_def find_Some_iff)

definition colon_free :: "flow_event set \<Rightarrow> bool" where
  "colon_free E \<longleftrightarrow> (\<forall>e \<in> E. CHR '':'' \<notin> set (event_user e))"

lemma start_snapshots:
  assumes "snapshots_ok hmac dec env secret seen w" "start_of (kind, runId) seen = None"
    and "e = Ev_Start kind u th ttl res input runId tk t0"
  shows "snapshots_ok hmac dec env secret (seen @ [e]) (flow_step hmac dec env secret w e)
    \<and> mw_writes (flow_step hmac dec env secret w e) = mw_writes w"
proof -
  have "mw_runs (flow_step hmac dec env secret w e)
      = js_set (kind, runId) (run_of_start hmac dec env secret e) (mw_runs w)"
    by (simp add: assms(3) start_run_def split: sum.splits prod.splits)
  moreover have "mw_writes (flow_step hmac dec env secret w e) = mw_writes w"
    by (simp add: assms(3) start_run_def split: sum.splits prod.splits)
  ultimately show ?thesis
    using assms by (auto simp: snapshots_ok_def start_of_snoc js_get_set split: option.splits)
qed

lemma resume_writes_exact:
  assumes "start_key s = [(kind, runId)]" "collision_free hmac"
    "CHR '':'' \<notin> set (event_user s)" "CHR '':'' \<notin> set u"
    and run: "js_get (mw_runs w) (kind, runId) = Some (run_of_start hmac dec env secret s)"
  shows "mw_runs (fst (resume_run hmac dec env secret re kind u th runId tk now later w)) = mw_runs w
    \<and> mw_writes (fst (resume_run hmac dec env secret re kind u th runId tk now later w))
        = mw_writes w @ confirmed_write env secret s (Ev_Resume re kind u th runId tk now later)"
proof -
  obtain u0 th0 ttl res input tk0 t0 where s: "s = Ev_Start kind u0 th0 ttl res input runId tk0 t0"
    using assms(1) by (cases s) auto
  define allowed where "allowed \<longleftrightarrow> u0 \<noteq> [] \<and> th0 \<noteq> [] \<and> me_enabled env \<and> confirmationSecret env secret \<noteq> None"
  define valid where "valid \<longleftrightarrow> allowed \<and> now \<le> expiry ttl t0 \<and> tk = tk0 \<and> u = u0"
  have "draft_resume hmac dec env secret kind u th (run_of_start hmac dec env secret s) tk now later =
      (if valid then Inr input
       else Inl (if allowed \<and> later > expiry ttl t0 then ME_Token_Expired else ME_Token_Invalid))"
  proof (cases allowed)
    case True
    then obtain key where key: "confirmationSecret env secret = Some key"
      by (auto simp: allowed_def)
    show ?thesis
      using True verify_exact[OF assms(2) key, of u0 u dec tk tk0 kind "expiry ttl t0" now] assms(3,4)
      by (auto simp: s draft_first_cases key allowed_def valid_def draft_resume_def evaluateMastraMutation_def)
  next
    case False
    then show ?thesis
      by (auto simp: s draft_first_cases allowed_def valid_def draft_resume_def split: option.splits)
  qed
  then obtain err where d: "draft_resume hmac dec env secret kind u th (run_of_start hmac dec env secret s) tk now later
      = (if valid then Inr input else Inl err)"
    by simp
  have w: "confirmed_write env secret s (Ev_Resume re kind u th runId tk now later)
      = (if re_admitted re \<and> re_writeUp re \<and> valid
         then (case executorFor kind u later input of Inl e \<Rightarrow> [] | Inr wr \<Rightarrow> [((kind, runId), wr)]) else [])"
    by (auto simp: s allowed_def valid_def)
  show ?thesis
    unfolding w
    by (cases "executorFor kind u later input") (simp_all add: resume_run_def run d execute_step_def Let_def)
qed

text \<open>
  C5: Whatever drafts and confirmations are made, in whatever order and by whomever, and whichever
  resumes the workflow library lets through: the writes are exactly those of the confirmations whose
  run was drafted before, by the same user in an allowed context, that present the token of that very
  draft no later than its expiry; each writes the drafted input. Nothing else is written. The code does
  not use a token up: every further confirmation that the library lets through writes again.
\<close>

theorem mutation_writes_confirmed:
  assumes "collision_free hmac" "colon_free (set evs)" "distinct (concat (map start_key evs))"
  shows "mw_writes (foldl (flow_step hmac dec env secret) empty_world evs) = expected_writes env secret [] evs"
proof -
  have "mw_writes (foldl (flow_step hmac dec env secret) w evs) = mw_writes w @ expected_writes env secret seen evs"
    if "snapshots_ok hmac dec env secret seen w" "colon_free (set (seen @ evs))"
      "distinct (concat (map start_key (seen @ evs)))" for w seen
    using that
  proof (induction evs arbitrary: w seen)
    case (Cons e es)
    let ?w = "flow_step hmac dec env secret w e"
    have "snapshots_ok hmac dec env secret (seen @ [e]) ?w \<and> mw_writes ?w = mw_writes w @ resume_writes env secret seen e"
    proof (cases e)
      case (Ev_Start kind u th ttl res input runId tk t0)
      then have "start_of (kind, runId) seen = None"
        using Cons.prems(3) by (intro start_of_fresh) auto
      then show ?thesis
        using start_snapshots[OF Cons.prems(1) _ Ev_Start] Ev_Start by (simp add: resume_writes_def)
    next
      case (Ev_Resume re kind u th runId tk now later)
      have same: "start_of k (seen @ [e]) = start_of k seen" for k
        by (simp add: start_of_snoc Ev_Resume split: option.splits)
      show ?thesis
      proof (cases "start_of (kind, runId) seen")
        case None
        then have "js_get (mw_runs w) (kind, runId) = None"
          using Cons.prems(1) by (simp add: snapshots_ok_def)
        then show ?thesis
          using None Cons.prems(1) by (simp add: Ev_Resume resume_run_def resume_writes_def snapshots_ok_def
              same[unfolded Ev_Resume])
      next
        case (Some s)
        then have run: "js_get (mw_runs w) (kind, runId) = Some (run_of_start hmac dec env secret s)"
          using Cons.prems(1) by (simp add: snapshots_ok_def)
        have s: "start_key s = [(kind, runId)]" "CHR '':'' \<notin> set (event_user s)" "CHR '':'' \<notin> set u"
          using start_of_in[OF Some] Cons.prems(2) by (auto simp: colon_free_def Ev_Resume)
        show ?thesis
          using resume_writes_exact[OF s(1) assms(1) s(2,3) run, of re th tk now later] Cons.prems(1) Some
          by (simp add: Ev_Resume resume_writes_def snapshots_ok_def same[unfolded Ev_Resume])
      qed
    qed
    then show ?case
      using Cons.IH[of "seen @ [e]" ?w] Cons.prems(2,3) by simp
  qed simp
  from this[of "[]" empty_world] show ?thesis
    using assms(2,3) by (simp add: snapshots_ok_def empty_world_def start_of_def)
qed

text \<open>
  Another user, a wrong token, a late one and the right one; the library lets a second confirmation
  through, and the action is recorded twice.
\<close>

definition sample_flow :: "flow_event list" where
  "sample_flow =
     (let re = \<lparr>re_admitted = True, re_writeUp = True, re_auditUp = True\<rparr> in
      [Ev_Start Run_System_Action ''u1'' ''t1'' (Some 10) None (In_System ''sync'') ''r1'' ''tok'' 0,
       Ev_Resume re Run_System_Action ''u2'' ''t1'' ''r1'' ''tok'' 1 1,
       Ev_Resume re Run_System_Action ''u1'' ''t1'' ''r1'' ''kot'' 2 2,
       Ev_Resume re Run_System_Action ''u1'' ''t1'' ''r1'' ''tok'' 3 3,
       Ev_Resume re Run_System_Action ''u1'' ''t1'' ''r1'' ''tok'' 4 4,
       Ev_Resume re Run_System_Action ''u1'' ''t1'' ''r1'' ''tok'' 11 11])"

theorem mutation_writes_confirmed_witness:
  "mw_writes (foldl (flow_step plain_hmac (\<lambda>_. ''9'') sample_env None) empty_world sample_flow)
     = [((Run_System_Action, ''r1''), W_System ''u1'' ''sync''), ((Run_System_Action, ''r1''), W_System ''u1'' ''sync'')]"
proof -
  have "expected_writes sample_env None [] sample_flow
      = [((Run_System_Action, ''r1''), W_System ''u1'' ''sync''), ((Run_System_Action, ''r1''), W_System ''u1'' ''sync'')]"
    by (simp add: sample_flow_def resume_writes_def start_of_def executorFor_def expiry_def
        sample_env_def confirmationSecret_def Let_def)
  moreover have "mw_writes (foldl (flow_step plain_hmac (\<lambda>_. ''9'') sample_env None) empty_world sample_flow)
      = expected_writes sample_env None [] sample_flow"
    by (rule mutation_writes_confirmed[OF collision_free_plain]) (simp_all add: colon_free_def sample_flow_def Let_def)
  ultimately show ?thesis
    by simp
qed

section \<open>Confirmation through the web server\<close>

datatype web_event =
    Web_Draft string string string "mutation_kind option" "extraction option" string string ms
  | Web_Confirm resume_env string "(mutation_kind \<times> string \<times> string \<times> string) option" ms ms

fun web_step :: "hmac \<Rightarrow> (ms \<Rightarrow> string) \<Rightarrow> mutation_env \<Rightarrow> mutation_world \<Rightarrow> web_event \<Rightarrow> mutation_world" where
  "web_step hmac dec env w (Web_Draft u th text kind0 ex runId tk now)
     = fst (startMutationDraft hmac dec env u th text kind0 ex runId tk now w)"
| "web_step hmac dec env w (Web_Confirm re u body now later)
     = fst (confirm_route hmac dec env re u body now later w)"

definition unowned :: "mutation_world \<Rightarrow> bool" where
  "unowned w \<longleftrightarrow> mw_writes w = [] \<and> (\<forall>k. case js_get (mw_runs w) k of None \<Rightarrow> True | Some r \<Rightarrow> mr_resourceId r = None)"

lemma unowned_confirm:
  "unowned w \<Longrightarrow> fst (confirm_route hmac dec env re u body now later w) = w"
  by (auto simp: confirm_route_def readRunOwner_def unowned_def split: option.splits sum.splits prod.splits)

lemma unowned_draft:
  "unowned w \<Longrightarrow> unowned (fst (startMutationDraft hmac dec env u th text kind0 ex runId tk now w))"
  by (auto simp: startMutationDraft_def start_run_def unowned_def js_get_set split: option.splits sum.splits prod.splits)

lemma unowned_web: "unowned (foldl (web_step hmac dec env) empty_world es)"
proof (induction es rule: rev_induct)
  case Nil
  then show ?case by (simp add: unowned_def empty_world_def)
next
  case (snoc e es)
  then show ?case by (cases e) (simp_all add: unowned_draft unowned_confirm)
qed

text \<open>
  The web server creates a draft's run without a resource id and asks for that id when the draft is
  confirmed: no sequence of drafts and confirmations ever writes anything, and a confirmation that
  passes the policy is answered with 404, even with the right token.
\<close>

theorem web_drafts_never_confirmed:
  "let w = foldl (web_step hmac dec env) empty_world es
   in mw_writes w = [] \<and> confirm_route hmac dec env re u (Some (kind, runId, th, tk)) now later w
        = (w, case evaluateMastraMutation env u th True of Inl e \<Rightarrow> Reply_Thrown e | Inr _ \<Rightarrow> Reply_Not_Found)"
  using unowned_web [of hmac dec env es]
  by (auto simp: Let_def unowned_def confirm_route_def readRunOwner_def split: sum.splits option.splits)

end
