(* ===== verification/Outbox.thy ===== *)
theory Outbox
  imports Js_Regex Js_Map
begin

text \<open>
  Failed writes of the assistant, \<open>packages/ai/src\<close>: the writers that queue what they could not store
  (\<open>persistence/message-persistence.ts\<close>, \<open>persistence/telemetry-persistence.ts\<close>), the redaction of queued
  payloads (\<open>diagnostics/redact.ts\<close>), the outbox (\<open>persistence-outbox.ts\<close>) and its replay
  (\<open>persistence-recovery.ts\<close>). A statement of the database is one step; whether it reaches the
  database, the clock, fresh ids and tokens are fields of \<open>write_env\<close>. The patterns that redact parts of
  a text are one of them too; the redaction by keys is modelled. The sinks of opinions, tool telemetry
  and traces are outcomes.
\<close>

section \<open>JSON values\<close>

datatype json = JNull | JBool bool | JNum real | JStr string | JArr "json list" | JObj "(string, json) js_map"

definition jfield :: "string \<Rightarrow> json \<Rightarrow> json option" where
  "jfield k v = (case v of JObj m \<Rightarrow> js_get m k | _ \<Rightarrow> None)"

text \<open>\<open>v.k ?? d\<close>.\<close>

definition jfield_or :: "json \<Rightarrow> string \<Rightarrow> json \<Rightarrow> json" where
  "jfield_or d k v = (case jfield k v of None \<Rightarrow> d | Some JNull \<Rightarrow> d | Some x \<Rightarrow> x)"

section \<open>redact.ts: by keys\<close>

definition joined :: "string \<Rightarrow> string \<Rightarrow> rx" where
  "joined a b = seq [lit a, opt (One (CSet ''_-'')), lit b]"

definition SENSITIVE_KEY_PATTERN :: rx where
  "SENSITIVE_KEY_PATTERN = alt [joined ''api'' ''key'', joined ''access'' ''token'', joined ''auth'' ''token'', lit ''token'', lit ''secret'',
     lit ''password'', lit ''passwd'', lit ''cookie'', lit ''webhook'', joined ''private'' ''key'', joined ''client'' ''secret'',
     joined ''refresh'' ''token'']"

definition PRIVATE_CONTENT_KEYS :: "string list" where
  "PRIVATE_CONTENT_KEYS = [''prompt'', ''content'', ''text'', ''input'', ''output'', ''args'', ''parts'', ''messages'', ''response'', ''query'',
     ''snippet'', ''body'']"

fun redactSecrets :: "(string \<Rightarrow> string) \<Rightarrow> json \<Rightarrow> json" where
  "redactSecrets rt (JStr s) = JStr (rt s)"
| "redactSecrets rt (JArr vs) = JArr (map (redactSecrets rt) vs)"
| "redactSecrets rt (JObj m) = JObj (map (\<lambda>(k, v). (k,
     if rx_test_i SENSITIVE_KEY_PATTERN k then JStr ''<redacted>''
     else if toLowerCase k \<in> set PRIVATE_CONTENT_KEYS then JStr ''<redacted-content>''
     else redactSecrets rt v)) m)"
| "redactSecrets rt v = v"

section \<open>The text of a message, and what is stored of its parts\<close>

definition isTextPart :: "json \<Rightarrow> bool" where
  "isTextPart p \<longleftrightarrow> jfield ''type'' p = Some (JStr ''text'')"

definition part_text :: "json \<Rightarrow> string" where
  "part_text p = (case jfield ''text'' p of Some (JStr s) \<Rightarrow> s | _ \<Rightarrow> [])"

definition getTextFromParts :: "json \<Rightarrow> string" where
  "getTextFromParts parts = (case parts of
     JArr ps \<Rightarrow> js_trim (js_join (CHR 0x0A) (map part_text (filter isTextPart ps)))
   | _ \<Rightarrow> [])"

definition getMessageText :: "json \<Rightarrow> string" where
  "getMessageText m =
     (let fromParts = getTextFromParts (jfield_or (JArr []) ''parts'' m) in
      if fromParts \<noteq> [] then fromParts
      else case jfield ''content'' m of Some (JStr s) \<Rightarrow> js_trim s
        | _ \<Rightarrow> (case jfield ''text'' m of Some (JStr s) \<Rightarrow> js_trim s | _ \<Rightarrow> []))"

definition STRIP_FIELDS :: "string list" where
  "STRIP_FIELDS = [''imageDataUrl'', ''image'', ''data'', ''candles'', ''rawResponse'']"

definition strip_output :: "(string, json) js_map \<Rightarrow> (string, json) js_map" where
  "strip_output m = map (\<lambda>(k, v). (k, if k \<in> set STRIP_FIELDS then JStr ''[stripped]'' else v)) m"

definition strip_part :: "json \<Rightarrow> json" where
  "strip_part p = (case (p, jfield ''type'' p, jfield ''output'' p) of
     (JObj m, Some (JStr t), Some (JObj out)) \<Rightarrow>
       if t = ''tool-result'' then JObj (js_set ''output'' (JObj (strip_output out)) m) else p
   | _ \<Rightarrow> p)"

definition stripPartsForStorage :: "json \<Rightarrow> json" where
  "stripPartsForStorage parts = (case parts of JArr ps \<Rightarrow> JArr (map strip_part ps) | _ \<Rightarrow> parts)"

section \<open>The outbox table\<close>

datatype outbox_operation = Op_Message_User | Op_Message_Assistant | Op_Opinions | Op_Telemetry_Turn | Op_Telemetry_Tool | Op_Trace
  | Op_Other string

datatype outbox_status = Ob_Pending | Ob_Processing | Ob_Failed | Ob_Completed | Ob_Dead

record outbox_row =
  ob_tenantId :: string
  ob_operation :: outbox_operation
  ob_status :: outbox_status
  ob_dedupeKey :: string
  ob_payload :: json
  ob_attempts :: nat
  ob_maxAttempts :: nat
  ob_nextAttemptAt :: ms
  ob_lockedUntil :: "ms option"
  ob_lockToken :: "string option"
  ob_createdAt :: ms

record chat_row =
  cm_threadId :: string
  cm_role :: string
  cm_content :: string
  cm_parts :: json

record chat_db =
  cd_outbox :: "(string, outbox_row) js_map"        \<comment> \<open>by id\<close>
  cd_threadOwner :: "string \<Rightarrow> string option"
  cd_messages :: "(string, chat_row) js_map"         \<comment> \<open>by idempotency key\<close>
  cd_telemetry :: "(string, json) js_map"            \<comment> \<open>by idempotency key\<close>

record write_env =
  ev_redactText :: "string \<Rightarrow> string"
  ev_tenantOf :: "string \<Rightarrow> string"
  ev_now :: ms
  ev_newId :: string
  ev_token :: string
  ev_up :: bool                \<comment> \<open>the write reaches the database\<close>
  ev_queue_up :: bool          \<comment> \<open>so does queueing it\<close>
  ev_complete_up :: bool       \<comment> \<open>so does the note of completion\<close>

section \<open>persistence-outbox.ts\<close>

definition reopen_row :: "ms \<Rightarrow> outbox_row \<Rightarrow> outbox_row" where
  "reopen_row now r = r\<lparr>ob_status := (if ob_status r = Ob_Completed then Ob_Completed else Ob_Pending), ob_nextAttemptAt := now\<rparr>"

definition enqueuePersistenceFailure :: "write_env \<Rightarrow> string \<Rightarrow> outbox_operation \<Rightarrow> string \<Rightarrow> json \<Rightarrow> chat_db \<Rightarrow> chat_db \<times> bool" where
  "enqueuePersistenceFailure E userId op key payload db =
     (if \<not> ev_queue_up E then (db, False)
      else let tenant = ev_tenantOf E userId; now = ev_now E in
        (case List.find (\<lambda>(i, r). ob_tenantId r = tenant \<and> ob_dedupeKey r = key) (cd_outbox db) of
           Some (i, r) \<Rightarrow>
             (db\<lparr>cd_outbox := js_set i (reopen_row now r) (cd_outbox db)\<rparr>, True)
         | None \<Rightarrow> if js_has (cd_outbox db) (ev_newId E) then (db, False) else
             (db\<lparr>cd_outbox := js_set (ev_newId E) \<lparr>ob_tenantId = tenant, ob_operation = op, ob_status = Ob_Pending, ob_dedupeKey = key,
                ob_payload = redactSecrets (ev_redactText E) payload, ob_attempts = 0, ob_maxAttempts = 8, ob_nextAttemptAt = now,
                ob_lockedUntil = None, ob_lockToken = None, ob_createdAt = now\<rparr> (cd_outbox db)\<rparr>, True)))"

section \<open>The writers\<close>

definition message_payload :: "string \<Rightarrow> string \<Rightarrow> json \<Rightarrow> string \<Rightarrow> json" where
  "message_payload userId threadId msg key = JObj [(''userId'', JStr userId), (''threadId'', JStr threadId),
     (''message'', JObj [(''id'', jfield_or JNull ''id'' msg), (''role'', jfield_or JNull ''role'' msg),
        (''parts'', stripPartsForStorage (jfield_or JNull ''parts'' msg))]),
     (''idempotencyKey'', JStr key)]"

text \<open>\<open>appendUserMessage\<close> and \<open>appendAssistantMessage\<close> write in the same way; the flag tells whether it
  returned.\<close>

definition append_message :: "outbox_operation \<Rightarrow> string \<Rightarrow> string \<Rightarrow> write_env \<Rightarrow> string \<Rightarrow> string \<Rightarrow> json \<Rightarrow> string \<Rightarrow> chat_db \<Rightarrow> chat_db \<times> bool" where
  "append_message op role prefix E userId threadId msg key db =
     (if ev_up E \<and> cd_threadOwner db threadId = Some userId
      then (if js_has (cd_messages db) key then db
            else db\<lparr>cd_messages := js_set key \<lparr>cm_threadId = threadId, cm_role = role, cm_content = getMessageText msg,
              cm_parts = stripPartsForStorage (jfield_or JNull ''parts'' msg)\<rparr> (cd_messages db)\<rparr>, True)
      else (fst (enqueuePersistenceFailure E userId op (prefix @ key) (message_payload userId threadId msg key) db), False))"

definition appendUserMessage :: "write_env \<Rightarrow> string \<Rightarrow> string \<Rightarrow> json \<Rightarrow> string \<Rightarrow> chat_db \<Rightarrow> chat_db \<times> bool" where
  "appendUserMessage = append_message Op_Message_User ''user'' ''message.user:''"

definition appendAssistantMessage :: "write_env \<Rightarrow> string \<Rightarrow> string \<Rightarrow> json \<Rightarrow> string \<Rightarrow> chat_db \<Rightarrow> chat_db \<times> bool" where
  "appendAssistantMessage = append_message Op_Message_Assistant ''assistant'' ''message.assistant:''"

text \<open>An \<open>integer\<close> column takes a number, or a text only if it spells one.\<close>

definition integer_column :: "json \<Rightarrow> bool" where
  "integer_column v \<longleftrightarrow> (case v of JNum _ \<Rightarrow> True
     | JStr s \<Rightarrow> (let d = (case s of c # r \<Rightarrow> if c = CHR ''-'' then r else s | [] \<Rightarrow> []) in d \<noteq> [] \<and> list_all is_digit_char d)
     | _ \<Rightarrow> False)"

definition str_field :: "string \<Rightarrow> json \<Rightarrow> string option" where
  "str_field k t = (case jfield k t of Some (JStr s) \<Rightarrow> Some s | _ \<Rightarrow> None)"

definition json_put :: "string \<Rightarrow> json \<Rightarrow> json \<Rightarrow> json" where
  "json_put k v o1 = (case o1 of JObj m \<Rightarrow> JObj (js_set k v m) | _ \<Rightarrow> o1)"

definition recordTelemetry :: "write_env \<Rightarrow> json \<Rightarrow> chat_db \<Rightarrow> chat_db \<times> bool" where
  "recordTelemetry E t db =
     (let userId = (case str_field ''userId'' t of Some u \<Rightarrow> u | None \<Rightarrow> ''__system__'');
          key = (case str_field ''idempotencyKey'' t of Some k \<Rightarrow> k | None \<Rightarrow> ''telemetry.turn:'' @ ev_newId E);
          columns = map (\<lambda>k. jfield k t) [''inputTokens'', ''outputTokens'', ''toolCalls'', ''ms''] in
      if ev_up E \<and> list_all (\<lambda>c. case c of Some v \<Rightarrow> integer_column v | None \<Rightarrow> True) columns
      then (if js_has (cd_telemetry db) key then db else db\<lparr>cd_telemetry := js_set key t (cd_telemetry db)\<rparr>, True)
      else (fst (enqueuePersistenceFailure E userId Op_Telemetry_Turn (''telemetry.turn:'' @ key)
              (json_put ''idempotencyKey'' (JStr key) (json_put ''userId'' (JStr userId) t)) db), False))"

section \<open>persistence-recovery.ts\<close>

definition OUTBOX_LOCK_TTL_MS :: ms where "OUTBOX_LOCK_TTL_MS = 5 * 60 * 1000"
definition MAX_BACKOFF_MS :: ms where "MAX_BACKOFF_MS = 60 * 60 * 1000"

record claimed_failure =
  cf_id :: string
  cf_operation :: outbox_operation
  cf_payload :: json
  cf_attempt :: nat
  cf_maxAttempts :: nat
  cf_lockToken :: string

definition lock_passed :: "ms \<Rightarrow> outbox_row \<Rightarrow> bool" where
  "lock_passed now r \<longleftrightarrow> (case ob_lockedUntil r of Some u \<Rightarrow> u < now | None \<Rightarrow> False)"

definition claimable :: "ms \<Rightarrow> outbox_row \<Rightarrow> bool" where
  "claimable now r \<longleftrightarrow>
     (ob_status r = Ob_Pending \<or> ob_status r = Ob_Failed \<or> ob_status r = Ob_Processing \<and> lock_passed now r)
     \<and> ob_nextAttemptAt r \<le> now \<and> ob_attempts r < ob_maxAttempts r
     \<and> (ob_lockedUntil r = None \<or> lock_passed now r)"

definition claim_order :: "(string, outbox_row) js_map \<Rightarrow> (string \<times> outbox_row) list" where
  "claim_order m = sort_key (ob_nextAttemptAt \<circ> snd) (sort_key (ob_createdAt \<circ> snd) m)"

definition claimOne :: "write_env \<Rightarrow> chat_db \<Rightarrow> chat_db \<times> claimed_failure option" where
  "claimOne E db =
     (case claim_order (filter (\<lambda>(i, r). claimable (ev_now E) r) (cd_outbox db)) of
        [] \<Rightarrow> (db, None)
      | (i, r) # _ \<Rightarrow>
          (db\<lparr>cd_outbox := js_set i (r\<lparr>ob_status := Ob_Processing, ob_attempts := ob_attempts r + 1,
             ob_lockedUntil := Some (ev_now E + OUTBOX_LOCK_TTL_MS), ob_lockToken := Some (ev_token E)\<rparr>) (cd_outbox db)\<rparr>,
           Some \<lparr>cf_id = i, cf_operation = ob_operation r, cf_payload = ob_payload r, cf_attempt = ob_attempts r + 1,
             cf_maxAttempts = ob_maxAttempts r, cf_lockToken = ev_token E\<rparr>))"

text \<open>Both marks touch the row only while it is being processed under the item's token.\<close>

definition update_locked_row :: "claimed_failure \<Rightarrow> (outbox_row \<Rightarrow> outbox_row) \<Rightarrow> chat_db \<Rightarrow> chat_db" where
  "update_locked_row item f db =
     (case js_get (cd_outbox db) (cf_id item) of
        None \<Rightarrow> db
      | Some r \<Rightarrow> if ob_status r = Ob_Processing \<and> ob_lockToken r = Some (cf_lockToken item)
          then db\<lparr>cd_outbox := js_set (cf_id item) (f r) (cd_outbox db)\<rparr> else db)"

definition markCompleted :: "claimed_failure \<Rightarrow> chat_db \<Rightarrow> chat_db" where
  "markCompleted item = update_locked_row item (\<lambda>r. r\<lparr>ob_status := Ob_Completed, ob_lockedUntil := None, ob_lockToken := None\<rparr>)"

definition backoff_ms :: "nat \<Rightarrow> ms" where
  "backoff_ms attempt = min MAX_BACKOFF_MS (1000 * 2 ^ min (attempt - 1) 10)"

definition markFailed :: "write_env \<Rightarrow> claimed_failure \<Rightarrow> chat_db \<Rightarrow> chat_db" where
  "markFailed E item = update_locked_row item (\<lambda>r. r\<lparr>
     ob_status := (if cf_attempt item \<ge> cf_maxAttempts item then Ob_Dead else Ob_Failed), ob_lockedUntil := None,
     ob_lockToken := None, ob_nextAttemptAt := ev_now E + backoff_ms (cf_attempt item)\<rparr>)"

definition asString :: "string \<Rightarrow> json \<Rightarrow> string option" where
  "asString k p = (case str_field k p of Some s \<Rightarrow> if s \<noteq> [] then Some s else None | None \<Rightarrow> None)"

definition asRecord :: "string \<Rightarrow> json \<Rightarrow> json option" where
  "asRecord k p = (case jfield k p of Some (JObj m) \<Rightarrow> Some (JObj m) | _ \<Rightarrow> None)"

definition replay_message :: "(write_env \<Rightarrow> string \<Rightarrow> string \<Rightarrow> json \<Rightarrow> string \<Rightarrow> chat_db \<Rightarrow> chat_db \<times> bool)
    \<Rightarrow> write_env \<Rightarrow> json \<Rightarrow> chat_db \<Rightarrow> chat_db \<times> bool" where
  "replay_message writer E p db =
     (case (asRecord ''message'' p, asString ''userId'' p, asString ''threadId'' p, asString ''idempotencyKey'' p) of
        (Some msg, Some u, Some t, Some k) \<Rightarrow> writer E u t msg k db
      | _ \<Rightarrow> (db, False))"

text \<open>The other sinks (\<open>saveAgentOpinions\<close>, \<open>recordToolTelemetry\<close>, \<open>persistTraceStrict\<close>) queue a failure
  before they report it, under a key made from their payload.\<close>

definition sink_key :: "outbox_operation \<Rightarrow> json \<Rightarrow> string" where
  "sink_key op p = (let fld = (\<lambda>k. case str_field k p of Some s \<Rightarrow> s | None \<Rightarrow> ''undefined'') in
     case op of Op_Opinions \<Rightarrow> ''agent.opinions:'' @ fld ''messageId''
       | Op_Telemetry_Tool \<Rightarrow> ''telemetry.tool:'' @ fld ''idempotencyKey''
       | _ \<Rightarrow> ''diagnostic.trace:'' @ fld ''traceId'')"

definition other_sink :: "write_env \<Rightarrow> outbox_operation \<Rightarrow> json \<Rightarrow> chat_db \<Rightarrow> chat_db \<times> bool" where
  "other_sink E op p db =
     (if ev_up E then (db, True)
      else (fst (enqueuePersistenceFailure E (case str_field ''userId'' p of Some u \<Rightarrow> u | None \<Rightarrow> ''__system__'') op (sink_key op p) p db),
            False))"

definition replayOne :: "write_env \<Rightarrow> claimed_failure \<Rightarrow> chat_db \<Rightarrow> chat_db \<times> bool" where
  "replayOne E item db =
     (case cf_operation item of
        Op_Message_User \<Rightarrow> replay_message appendUserMessage E (cf_payload item) db
      | Op_Message_Assistant \<Rightarrow> replay_message appendAssistantMessage E (cf_payload item) db
      | Op_Telemetry_Turn \<Rightarrow> recordTelemetry E (cf_payload item) db
      | Op_Other _ \<Rightarrow> (db, False)
      | _ \<Rightarrow> other_sink E (cf_operation item) (cf_payload item) db)"

record replay_counters =
  rp_claimed :: nat
  rp_completed :: nat
  rp_failed :: nat
  rp_dead :: nat

definition no_replays :: replay_counters where
  "no_replays = \<lparr>rp_claimed = 0, rp_completed = 0, rp_failed = 0, rp_dead = 0\<rparr>"

text \<open>What follows a claim; the flag tells whether the record was completed.\<close>

definition replay_item :: "write_env \<Rightarrow> claimed_failure \<Rightarrow> chat_db \<Rightarrow> chat_db \<times> bool" where
  "replay_item E item db =
     (case replayOne E item db of (db', ok) \<Rightarrow>
        if ok \<and> ev_complete_up E then (markCompleted item db', True) else (markFailed E item db', False))"

fun replay_loop :: "(nat \<Rightarrow> write_env) \<Rightarrow> nat \<Rightarrow> nat \<Rightarrow> chat_db \<Rightarrow> replay_counters \<Rightarrow> chat_db \<times> replay_counters" where
  "replay_loop E 0 i db c = (db, c)"
| "replay_loop E (Suc n) i db c =
     (case claimOne (E i) db of
        (db1, None) \<Rightarrow> (db1, c)
      | (db1, Some item) \<Rightarrow>
          (let c1 = c\<lparr>rp_claimed := rp_claimed c + 1\<rparr> in
           case replay_item (E i) item db1 of (db2, ok) \<Rightarrow>
             replay_loop E n (i + 1) db2
               (if ok then c1\<lparr>rp_completed := rp_completed c1 + 1\<rparr>
                else if cf_attempt item \<ge> cf_maxAttempts item then c1\<lparr>rp_dead := rp_dead c1 + 1\<rparr>
                else c1\<lparr>rp_failed := rp_failed c1 + 1\<rparr>)))"

definition bounded_limit :: "int \<Rightarrow> nat" where
  "bounded_limit limit = nat (max 1 (min 100 limit))"

definition replayPersistenceFailures :: "(nat \<Rightarrow> write_env) \<Rightarrow> int \<Rightarrow> chat_db \<Rightarrow> chat_db \<times> replay_counters" where
  "replayPersistenceFailures E limit db = replay_loop E (bounded_limit limit) 0 db no_replays"

section \<open>What a queued payload keeps\<close>

lemma js_get_map: "js_get (map (\<lambda>(k, v). (k, f k v)) m) k = map_option (f k) (js_get m k)"
  by (induction m) auto

lemma jfield_redact:
  "jfield k (redactSecrets rt (JObj m)) = map_option (\<lambda>v.
     if rx_test_i SENSITIVE_KEY_PATTERN k then JStr ''<redacted>''
     else if toLowerCase k \<in> set PRIVATE_CONTENT_KEYS then JStr ''<redacted-content>'' else redactSecrets rt v) (js_get m k)"
  by (simp add: jfield_def js_get_map)

lemma plain_keys:
  "\<not> rx_test_i SENSITIVE_KEY_PATTERN ''userId''" "\<not> rx_test_i SENSITIVE_KEY_PATTERN ''threadId''"
  "\<not> rx_test_i SENSITIVE_KEY_PATTERN ''message''" "\<not> rx_test_i SENSITIVE_KEY_PATTERN ''idempotencyKey''"
  "\<not> rx_test_i SENSITIVE_KEY_PATTERN ''parts''" "\<not> rx_test_i SENSITIVE_KEY_PATTERN ''content''" "\<not> rx_test_i SENSITIVE_KEY_PATTERN ''text''"
  "\<not> rx_test_i SENSITIVE_KEY_PATTERN ''id''" "\<not> rx_test_i SENSITIVE_KEY_PATTERN ''role''"
  by code_simp+

lemma token_key: "rx_test_i SENSITIVE_KEY_PATTERN ''inputTokens''"
  by code_simp

lemma private_keys:
  "toLowerCase ''userId'' \<notin> set PRIVATE_CONTENT_KEYS" "toLowerCase ''threadId'' \<notin> set PRIVATE_CONTENT_KEYS"
  "toLowerCase ''message'' \<notin> set PRIVATE_CONTENT_KEYS" "toLowerCase ''idempotencyKey'' \<notin> set PRIVATE_CONTENT_KEYS"
  "toLowerCase ''id'' \<notin> set PRIVATE_CONTENT_KEYS" "toLowerCase ''role'' \<notin> set PRIVATE_CONTENT_KEYS"
  "toLowerCase ''parts'' \<in> set PRIVATE_CONTENT_KEYS"
  by code_simp+

text \<open>A queued message keeps its ids and loses its parts.\<close>

definition queued_message :: "(string \<Rightarrow> string) \<Rightarrow> json \<Rightarrow> json" where
  "queued_message rt msg = JObj [(''id'', redactSecrets rt (jfield_or JNull ''id'' msg)),
     (''role'', redactSecrets rt (jfield_or JNull ''role'' msg)), (''parts'', JStr ''<redacted-content>'')]"

lemma redact_message_payload:
  "redactSecrets rt (message_payload u t msg key) = JObj [(''userId'', JStr (rt u)), (''threadId'', JStr (rt t)),
     (''message'', queued_message rt msg), (''idempotencyKey'', JStr (rt key))]"
  by (simp add: message_payload_def queued_message_def plain_keys private_keys)

lemma queued_message_text:
  "getMessageText (queued_message rt msg) = []"
  "stripPartsForStorage (jfield_or JNull ''parts'' (queued_message rt msg)) = JStr ''<redacted-content>''"
  by (simp_all add: getMessageText_def queued_message_def jfield_or_def jfield_def getTextFromParts_def stripPartsForStorage_def Let_def)

lemma replay_queued_message:
  assumes "rt u = u" "rt t = t" "rt key = key" "u \<noteq> []" "t \<noteq> []" "key \<noteq> []"
  shows "replay_message writer E (redactSecrets rt (message_payload u t msg key)) db = writer E u t (queued_message rt msg) key db"
  using assms by (simp add: replay_message_def redact_message_payload asRecord_def asString_def str_field_def jfield_def queued_message_def)


definition sample_env :: "ms \<Rightarrow> bool \<Rightarrow> write_env" where
  "sample_env now up = \<lparr>ev_redactText = id, ev_tenantOf = id, ev_now = now, ev_newId = ''row'', ev_token = ''tok'', ev_up = up,
     ev_queue_up = True, ev_complete_up = True\<rparr>"

definition sample_msg :: json where
  "sample_msg = JObj [(''id'', JStr ''m1''), (''role'', JStr ''user''), (''parts'', JArr [JObj [(''type'', JStr ''text''), (''text'', JStr ''buy?'')]])]"

definition sample_chat_db :: chat_db where
  "sample_chat_db = \<lparr>cd_outbox = [], cd_threadOwner = (\<lambda>_. Some ''u1''), cd_messages = [], cd_telemetry = []\<rparr>"


lemma sample_msg_text: "getMessageText sample_msg = ''buy?''"
  by code_simp

text \<open>
  Queued telemetry of a turn is never stored: its token counts are taken for secrets, and the mark put
  in their place is no integer, so every replay fails whatever the state of the database.
\<close>

theorem queued_turn_telemetry_never_stored:
  assumes "js_get m ''inputTokens'' \<noteq> None"
  shows "snd (recordTelemetry E2 (redactSecrets rt (JObj m)) db) = False"
proof -
  have "jfield ''inputTokens'' (redactSecrets rt (JObj m)) = Some (JStr ''<redacted>'')"
    using assms by (auto simp: jfield_redact token_key simp del: redactSecrets.simps)
  moreover have "\<not> integer_column (JStr ''<redacted>'')" by code_simp
  ultimately show ?thesis by (simp add: recordTelemetry_def Let_def del: redactSecrets.simps)
qed

theorem queued_turn_telemetry_never_stored_witness:
  "snd (recordTelemetry (sample_env 0 True) (redactSecrets id (JObj [(''inputTokens'', JNum 12), (''outputTokens'', JNum 3)])) sample_chat_db) = False"
  by (rule queued_turn_telemetry_never_stored) simp

section \<open>Histories of the outbox\<close>

text \<open>Writers queue, runners claim and mark, in any order; a runner that dies marks nothing. Items are
  arbitrary, so marks of stale runners are included.\<close>

datatype outbox_event = Oe_Enqueue write_env string outbox_operation string json | Oe_Claim write_env
  | Oe_Completed claimed_failure | Oe_Failed write_env claimed_failure

fun outbox_step :: "chat_db \<Rightarrow> outbox_event \<Rightarrow> chat_db" where
  "outbox_step db (Oe_Enqueue E u op key p) = fst (enqueuePersistenceFailure E u op key p db)"
| "outbox_step db (Oe_Claim E) = fst (claimOne E db)"
| "outbox_step db (Oe_Completed item) = markCompleted item db"
| "outbox_step db (Oe_Failed E item) = markFailed E item db"

fun claims_row :: "string \<Rightarrow> outbox_event \<Rightarrow> chat_db \<Rightarrow> bool" where
  "claims_row i (Oe_Claim E) db = (case snd (claimOne E db) of Some item \<Rightarrow> cf_id item = i | None \<Rightarrow> False)"
| "claims_row i _ db = False"

fun claims_of :: "string \<Rightarrow> outbox_event list \<Rightarrow> chat_db \<Rightarrow> nat" where
  "claims_of i [] db = 0"
| "claims_of i (e # es) db = (if claims_row i e db then 1 else 0) + claims_of i es (outbox_step db e)"

definition outbox_ok :: "chat_db \<Rightarrow> bool" where
  "outbox_ok db \<longleftrightarrow> js_wf (cd_outbox db)
     \<and> (\<forall>i r. js_get (cd_outbox db) i = Some r \<longrightarrow> ob_attempts r \<le> 8 \<and> ob_maxAttempts r = 8)"

definition attempts_of :: "string \<Rightarrow> chat_db \<Rightarrow> nat" where
  "attempts_of i db = (case js_get (cd_outbox db) i of None \<Rightarrow> 0 | Some r \<Rightarrow> ob_attempts r)"

lemma set_claim_order [simp]: "set (claim_order m) = set m"
  by (simp add: claim_order_def)

lemma claimOne_cases:
  assumes "js_wf (cd_outbox db)"
  obtains "claimOne E db = (db, None)"
  | i r where "js_get (cd_outbox db) i = Some r" "claimable (ev_now E) r"
      "claimOne E db = (db\<lparr>cd_outbox := js_set i (r\<lparr>ob_status := Ob_Processing, ob_attempts := ob_attempts r + 1,
         ob_lockedUntil := Some (ev_now E + OUTBOX_LOCK_TTL_MS), ob_lockToken := Some (ev_token E)\<rparr>) (cd_outbox db)\<rparr>,
       Some \<lparr>cf_id = i, cf_operation = ob_operation r, cf_payload = ob_payload r, cf_attempt = ob_attempts r + 1,
         cf_maxAttempts = ob_maxAttempts r, cf_lockToken = ev_token E\<rparr>)"
proof (cases "claim_order (filter (\<lambda>(i, r). claimable (ev_now E) r) (cd_outbox db))")
  case Nil
  then show ?thesis using that(1) by (simp add: claimOne_def)
next
  case (Cons x xs)
  obtain i r where x: "x = (i, r)" by (cases x)
  have "(i, r) \<in> set (filter (\<lambda>(i, r). claimable (ev_now E) r) (cd_outbox db))"
    using Cons x by (metis list.set_intros(1) set_claim_order)
  then have "js_get (cd_outbox db) i = Some r" "claimable (ev_now E) r" using js_get_in_set [OF assms] by auto
  then show ?thesis using that(2) Cons x by (simp add: claimOne_def)
qed

lemma enqueue_cases:
  assumes "js_wf (cd_outbox db)"
  obtains "fst (enqueuePersistenceFailure E u op key p db) = db"
  | i r where "js_get (cd_outbox db) i = Some r" "fst (enqueuePersistenceFailure E u op key p db)
      = db\<lparr>cd_outbox := js_set i (reopen_row (ev_now E) r) (cd_outbox db)\<rparr>"
  | r where "js_get (cd_outbox db) (ev_newId E) = None" "ob_attempts r = 0" "ob_maxAttempts r = 8"
      "fst (enqueuePersistenceFailure E u op key p db) = db\<lparr>cd_outbox := js_set (ev_newId E) r (cd_outbox db)\<rparr>"
proof (cases "List.find (\<lambda>(i, r). ob_tenantId r = ev_tenantOf E u \<and> ob_dedupeKey r = key) (cd_outbox db)")
  case None
  show ?thesis
  proof (cases "ev_queue_up E \<and> js_get (cd_outbox db) (ev_newId E) = None")
    case True
    show ?thesis
      by (rule that(3) [of "\<lparr>ob_tenantId = ev_tenantOf E u, ob_operation = op, ob_status = Ob_Pending, ob_dedupeKey = key,
          ob_payload = redactSecrets (ev_redactText E) p, ob_attempts = 0, ob_maxAttempts = 8, ob_nextAttemptAt = ev_now E,
          ob_lockedUntil = None, ob_lockToken = None, ob_createdAt = ev_now E\<rparr>"])
        (use True None in \<open>simp_all add: enqueuePersistenceFailure_def js_has_def Let_def\<close>)
  next
    case False
    then show ?thesis using None that(1) by (auto simp: enqueuePersistenceFailure_def js_has_def Let_def)
  qed
next
  case (Some x)
  obtain i r where x: "x = (i, r)" by (cases x)
  have "(i, r) \<in> set (cd_outbox db)" using find_Some_prop [OF Some] x by simp
  then have "js_get (cd_outbox db) i = Some r" using js_get_in_set [OF assms] by blast
  then show ?thesis using that(1) that(2) [of i r] Some x
    by (cases "ev_queue_up E") (simp_all add: enqueuePersistenceFailure_def Let_def)
qed

lemma update_locked_row_cases:
  obtains "update_locked_row item f db = db"
  | r where "js_get (cd_outbox db) (cf_id item) = Some r" "ob_status r = Ob_Processing" "ob_lockToken r = Some (cf_lockToken item)"
      "update_locked_row item f db = db\<lparr>cd_outbox := js_set (cf_id item) (f r) (cd_outbox db)\<rparr>"
proof (cases "js_get (cd_outbox db) (cf_id item)")
  case None
  then show ?thesis using that(1) by (simp add: update_locked_row_def)
next
  case (Some r)
  then show ?thesis using that by (cases "ob_status r = Ob_Processing \<and> ob_lockToken r = Some (cf_lockToken item)") (auto simp: update_locked_row_def)
qed

lemma outbox_row_ok: "outbox_ok db \<Longrightarrow> js_get (cd_outbox db) i = Some r \<Longrightarrow> ob_attempts r \<le> 8 \<and> ob_maxAttempts r = 8"
  unfolding outbox_ok_def by (metis (no_types))

lemma outbox_ok_set:
  "outbox_ok db \<Longrightarrow> ob_attempts r \<le> 8 \<Longrightarrow> ob_maxAttempts r = 8 \<Longrightarrow> outbox_ok (db\<lparr>cd_outbox := js_set i r (cd_outbox db)\<rparr>)"
  by (simp add: outbox_ok_def js_wf_set js_get_set)

lemma attempts_of_set: "attempts_of j (db\<lparr>cd_outbox := js_set i r (cd_outbox db)\<rparr>) = (if j = i then ob_attempts r else attempts_of j db)"
  by (simp add: attempts_of_def js_get_set)

lemma attempts_of_get: "js_get (cd_outbox db) i = Some r \<Longrightarrow> attempts_of i db = ob_attempts r"
  by (simp add: attempts_of_def)

lemma update_locked_row_ok:
  assumes "outbox_ok db" "\<And>r. ob_attempts (f r) = ob_attempts r \<and> ob_maxAttempts (f r) = ob_maxAttempts r"
  shows "outbox_ok (update_locked_row item f db) \<and> attempts_of i (update_locked_row item f db) = attempts_of i db"
  by (rule update_locked_row_cases [of item f db])
    (use assms outbox_row_ok [OF assms(1)] in \<open>auto intro: outbox_ok_set simp: attempts_of_set attempts_of_get\<close>)

lemma outbox_step_ok:
  assumes "outbox_ok db"
  shows "outbox_ok (outbox_step db e) \<and> attempts_of i (outbox_step db e) = attempts_of i db + (if claims_row i e db then 1 else 0)"
proof -
  have wf: "js_wf (cd_outbox db)" using assms by (simp add: outbox_ok_def)
  note row = outbox_row_ok [OF assms]
  show ?thesis
  proof (cases e)
    case (Oe_Enqueue E u op key p)
    show ?thesis
      by (rule enqueue_cases [OF wf, of E u op key p])
        (use assms Oe_Enqueue row in \<open>auto intro!: outbox_ok_set simp: reopen_row_def attempts_of_set attempts_of_get, simp add: attempts_of_def\<close>)
  next
    case (Oe_Claim E)
    show ?thesis
    proof (rule claimOne_cases [OF wf, of E])
      assume "claimOne E db = (db, None)"
      then show ?thesis using assms Oe_Claim by simp
    next
      fix k r
      assume k: "js_get (cd_outbox db) k = Some r" "claimable (ev_now E) r"
        "claimOne E db = (db\<lparr>cd_outbox := js_set k (r\<lparr>ob_status := Ob_Processing, ob_attempts := ob_attempts r + 1,
           ob_lockedUntil := Some (ev_now E + OUTBOX_LOCK_TTL_MS), ob_lockToken := Some (ev_token E)\<rparr>) (cd_outbox db)\<rparr>,
         Some \<lparr>cf_id = k, cf_operation = ob_operation r, cf_payload = ob_payload r, cf_attempt = ob_attempts r + 1,
           cf_maxAttempts = ob_maxAttempts r, cf_lockToken = ev_token E\<rparr>)"
      have "ob_attempts r < 8" "ob_maxAttempts r = 8" using row [OF k(1)] k(2) by (simp_all add: claimable_def)
      then show ?thesis using assms Oe_Claim k by (auto intro!: outbox_ok_set simp: attempts_of_set attempts_of_get)
    qed
  next
    case (Oe_Completed item)
    then show ?thesis using update_locked_row_ok [OF assms] by (simp add: markCompleted_def)
  next
    case (Oe_Failed E item)
    then show ?thesis using update_locked_row_ok [OF assms] by (simp add: markFailed_def)
  qed
qed

lemma claims_counted:
  "outbox_ok db \<Longrightarrow> outbox_ok (foldl outbox_step db es) \<and> attempts_of i (foldl outbox_step db es) = attempts_of i db + claims_of i es db"
proof (induction es arbitrary: db)
  case Nil
  then show ?case by simp
next
  case (Cons e es)
  then show ?case using Cons.IH [of "outbox_step db e"] outbox_step_ok [OF Cons.prems, of e i] by simp
qed

text \<open>
  A record is tried at most eight times, whatever is queued, claimed, marked and however often runners
  die: queueing it again does not give it new attempts.
\<close>

theorem outbox_attempts_bounded:
  assumes "cd_outbox db = []"
  shows "claims_of i es db \<le> 8 \<and> attempts_of i (foldl outbox_step db es) = claims_of i es db"
proof -
  have "outbox_ok db" "attempts_of i db = 0" using assms by (simp_all add: outbox_ok_def attempts_of_def)
  then have ok: "outbox_ok (foldl outbox_step db es)" "attempts_of i (foldl outbox_step db es) = claims_of i es db"
    using claims_counted [of db es i] by simp_all
  have "attempts_of i (foldl outbox_step db es) \<le> 8"
    using outbox_row_ok [OF ok(1)] by (simp add: attempts_of_def split: option.splits)
  then show ?thesis using ok(2) by simp
qed

theorem outbox_attempts_bounded_witness:
  "claims_of ''row'' [Oe_Enqueue (sample_env 0 False) ''u1'' Op_Trace ''k'' JNull, Oe_Claim (sample_env 0 True)] sample_chat_db \<le> 8
   \<and> attempts_of ''row'' (foldl outbox_step sample_chat_db
       [Oe_Enqueue (sample_env 0 False) ''u1'' Op_Trace ''k'' JNull, Oe_Claim (sample_env 0 True)])
     = claims_of ''row'' [Oe_Enqueue (sample_env 0 False) ''u1'' Op_Trace ''k'' JNull, Oe_Claim (sample_env 0 True)] sample_chat_db"
  by (rule outbox_attempts_bounded) (simp add: sample_chat_db_def)

text \<open>A property of one row that every step of a history keeps, and under which the row is not claimed.\<close>

lemma row_kept:
  assumes "js_wf (cd_outbox db)" "js_get (cd_outbox db) i = Some r" "P r" "list_all ok es"
    "\<And>r now. P r \<Longrightarrow> P (reopen_row now r)"
    "\<And>r E. P r \<Longrightarrow> ok (Oe_Claim E) \<Longrightarrow> \<not> claimable (ev_now E) r"
    "\<And>r item. P r \<Longrightarrow> ok (Oe_Completed item) \<Longrightarrow> cf_id item = i \<Longrightarrow> ob_status r \<noteq> Ob_Processing \<or> ob_lockToken r \<noteq> Some (cf_lockToken item)"
    "\<And>r E item. P r \<Longrightarrow> ok (Oe_Failed E item) \<Longrightarrow> cf_id item = i \<Longrightarrow> ob_status r \<noteq> Ob_Processing \<or> ob_lockToken r \<noteq> Some (cf_lockToken item)"
  shows "claims_of i es db = 0 \<and> (case js_get (cd_outbox (foldl outbox_step db es)) i of Some r' \<Rightarrow> P r' | None \<Rightarrow> False)"
  using assms(1-4)
proof (induction es arbitrary: db r)
  case Nil
  then show ?case by simp
next
  case (Cons e es)
  note wf = Cons.prems(1) and r = Cons.prems(2,3)
  have ok: "ok e" "list_all ok es" using Cons.prems(4) by auto
  have owned: "js_get (cd_outbox (update_locked_row item f db)) i = Some r \<and> js_wf (cd_outbox (update_locked_row item f db))"
    if "cf_id item = i \<Longrightarrow> ob_status r \<noteq> Ob_Processing \<or> ob_lockToken r \<noteq> Some (cf_lockToken item)" for item f
    by (rule update_locked_row_cases [of item f db]) (use that r wf in \<open>auto simp: js_get_set js_wf_set\<close>)
  have step: "\<exists>r'. js_get (cd_outbox (outbox_step db e)) i = Some r' \<and> P r' \<and> js_wf (cd_outbox (outbox_step db e)) \<and> \<not> claims_row i e db"
  proof (cases e)
    case (Oe_Enqueue E u op key p)
    show ?thesis
      by (rule enqueue_cases [OF wf, of E u op key p])
        (use Oe_Enqueue r wf assms(5) in \<open>auto simp: js_get_set js_wf_set\<close>)
  next
    case (Oe_Claim E)
    show ?thesis
      by (rule claimOne_cases [OF wf, of E])
        (use Oe_Claim r wf assms(6) [of r E] ok(1) in \<open>auto simp: js_get_set js_wf_set\<close>)
  next
    case (Oe_Completed item)
    then show ?thesis using owned [of item] assms(7) [of r item] r ok(1) by (auto simp: markCompleted_def)
  next
    case (Oe_Failed E item)
    then show ?thesis using owned [of item] assms(8) [of r E item] r ok(1) by (auto simp: markFailed_def)
  qed
  then show ?case using Cons.IH ok(2) by auto
qed

text \<open>
  A claimed record is not claimed again for five minutes, unless its own runner marks it: other runners
  may queue the same write again, claim other records and mark whatever they hold.
\<close>

fun leaves_lock :: "claimed_failure \<Rightarrow> ms \<Rightarrow> outbox_event \<Rightarrow> bool" where
  "leaves_lock item t (Oe_Claim E) \<longleftrightarrow> ev_now E \<le> t"
| "leaves_lock item t (Oe_Completed x) \<longleftrightarrow> (cf_id x, cf_lockToken x) \<noteq> (cf_id item, cf_lockToken item)"
| "leaves_lock item t (Oe_Failed E x) \<longleftrightarrow> (cf_id x, cf_lockToken x) \<noteq> (cf_id item, cf_lockToken item)"
| "leaves_lock item t (Oe_Enqueue E u op key p) \<longleftrightarrow> True"

theorem outbox_claim_exclusive:
  assumes "js_wf (cd_outbox db)" "claimOne E db = (db1, Some item)" "list_all (leaves_lock item (ev_now E + OUTBOX_LOCK_TTL_MS)) es"
  shows "claims_of (cf_id item) es db1 = 0"
proof -
  let ?until = "ev_now E + OUTBOX_LOCK_TTL_MS"
  let ?P = "\<lambda>r. ob_lockedUntil r = Some ?until \<and> ob_lockToken r = Some (cf_lockToken item)"
  obtain r where "js_wf (cd_outbox db1)" "js_get (cd_outbox db1) (cf_id item) = Some r" "?P r"
    by (rule claimOne_cases [OF assms(1), of E]) (use assms(1,2) in \<open>auto simp: js_get_set js_wf_set\<close>)
  then show ?thesis
    using row_kept [where P = ?P and ok = "leaves_lock item ?until" and i = "cf_id item" and es = es and db = "db1" and r = r] assms(3)
    by (auto simp: claimable_def lock_passed_def reopen_row_def)
qed

definition sample_claimed :: "chat_db \<times> claimed_failure option" where
  "sample_claimed = claimOne (sample_env 0 True) (fst (enqueuePersistenceFailure (sample_env 0 False) ''u1'' Op_Trace ''k'' JNull sample_chat_db))"

lemma sample_claimed_eq: "\<exists>db1 item. sample_claimed = (db1, Some item) \<and> cf_id item = ''row''"
  by (simp add: sample_claimed_def enqueuePersistenceFailure_def sample_env_def sample_chat_db_def Let_def js_has_def claimOne_def
      claim_order_def claimable_def)

theorem outbox_claim_exclusive_witness:
  "\<exists>db1 item. sample_claimed = (db1, Some item) \<and> claims_of (cf_id item) [Oe_Claim (sample_env 300000 True)] db1 = 0"
proof -
  obtain db1 item where c: "sample_claimed = (db1, Some item)" using sample_claimed_eq by blast
  have "claims_of (cf_id item) [Oe_Claim (sample_env 300000 True)] db1 = 0"
    by (rule outbox_claim_exclusive [OF _ c [unfolded sample_claimed_def]])
      (simp_all add: enqueuePersistenceFailure_def sample_env_def sample_chat_db_def Let_def js_has_def OUTBOX_LOCK_TTL_MS_def js_wf_def js_keys_def)
  then show ?thesis using c by blast
qed

text \<open>A completed record stays completed, also when its write is queued again, and is never replayed.\<close>

theorem completed_record_final:
  assumes "js_wf (cd_outbox db)" "js_get (cd_outbox db) i = Some r" "ob_status r = Ob_Completed"
  shows "claims_of i es db = 0
    \<and> (case js_get (cd_outbox (foldl outbox_step db es)) i of Some r' \<Rightarrow> ob_status r' = Ob_Completed \<and> ob_payload r' = ob_payload r | None \<Rightarrow> False)"
  using assms
  by (intro row_kept [where P = "\<lambda>r'. ob_status r' = Ob_Completed \<and> ob_payload r' = ob_payload r" and ok = "\<lambda>_. True" and r = r])
    (auto simp: claimable_def list_all_iff reopen_row_def)

definition done_row :: outbox_row where
  "done_row = \<lparr>ob_tenantId = ''u1'', ob_operation = Op_Trace, ob_status = Ob_Completed, ob_dedupeKey = ''k'', ob_payload = JNull, ob_attempts = 1,
     ob_maxAttempts = 8, ob_nextAttemptAt = 0, ob_lockedUntil = None, ob_lockToken = None, ob_createdAt = 0\<rparr>"

theorem completed_record_final_witness:
  "let db = sample_chat_db\<lparr>cd_outbox := [(''row'', done_row)]\<rparr>;
       es = [Oe_Enqueue (sample_env 5 False) ''u1'' Op_Trace ''k'' JNull, Oe_Claim (sample_env 9 True)] in
   claims_of ''row'' es db = 0
    \<and> (case js_get (cd_outbox (foldl outbox_step db es)) ''row'' of
        Some r' \<Rightarrow> ob_status r' = Ob_Completed \<and> ob_payload r' = ob_payload done_row | None \<Rightarrow> False)"
  unfolding Let_def
  by (rule completed_record_final) (simp_all add: done_row_def js_wf_def js_keys_def)

section \<open>A replay whose write fails\<close>

lemma find_unique:
  assumes "js_wf m" "js_get m i = Some r" "Q r" "\<And>j s. js_get m j = Some s \<Longrightarrow> Q s \<Longrightarrow> j = i"
  shows "List.find (\<lambda>(i, r). Q r) m = Some (i, r)"
proof -
  have "(i, r) \<in> set m" using js_get_in_set [OF assms(1)] assms(2) by blast
  then obtain x where x: "List.find (\<lambda>(i, r). Q r) m = Some x"
    by (metis (mono_tags, lifting) assms(3) case_prodI find_None_iff option.exhaust)
  then have "x \<in> set m" "Q (snd x)" using find_Some_prop [OF x] by (auto split: prod.splits)
  then show ?thesis using x js_get_in_set [OF assms(1), of "fst x" "snd x"] assms(2,4) by (metis option.inject prod.collapse)
qed

text \<open>
  A failed replay of a message is not scheduled with backoff and never buried: the writer queues the
  same message again, which turns the claimed record back to pending, so the note of the failure finds
  it no longer processing and changes nothing. The record keeps the lock of its runner and its attempt;
  when that was the last one it stays pending for ever and no runner claims it again, although the run
  counts it as dead.
\<close>

theorem failed_replay_stays_pending:
  assumes "js_wf (cd_outbox db)" "js_get (cd_outbox db) i = Some r" "ob_status r = Ob_Processing"
    "ob_operation r = Op_Message_User" "ob_tenantId r = ev_tenantOf E u" "ob_dedupeKey r = ''message.user:'' @ key"
    "ob_payload r = redactSecrets rt (message_payload u t msg key)" "rt u = u" "rt t = t" "rt key = key" "u \<noteq> []" "t \<noteq> []" "key \<noteq> []"
    "\<forall>j s. js_get (cd_outbox db) j = Some s \<longrightarrow> (ob_tenantId s, ob_dedupeKey s) = (ob_tenantId r, ob_dedupeKey r) \<longrightarrow> j = i"
    "\<not> ev_up E" "ev_queue_up E" "cf_id item = i" "cf_operation item = ob_operation r" "cf_payload item = ob_payload r"
  shows "let r' = r\<lparr>ob_status := Ob_Pending, ob_nextAttemptAt := ev_now E\<rparr>; (db', ok) = replay_item E item db in
     \<not> ok \<and> js_get (cd_outbox db') i = Some r' \<and> (if ob_attempts r < ob_maxAttempts r then True else claims_of i es db' = 0)"
proof -
  let ?r = "r\<lparr>ob_status := Ob_Pending, ob_nextAttemptAt := ev_now E\<rparr>"
  let ?db = "db\<lparr>cd_outbox := js_set i ?r (cd_outbox db)\<rparr>"
  have found: "List.find (\<lambda>(i, s). ob_tenantId s = ev_tenantOf E u \<and> ob_dedupeKey s = ''message.user:'' @ key) (cd_outbox db) = Some (i, r)"
    by (rule find_unique [OF assms(1,2)]) (use assms(5,6,14) in auto)
  have "replayOne E item db = appendUserMessage E u t (queued_message rt msg) key db"
    unfolding replayOne_def assms(18,19,4,7) using replay_queued_message [OF assms(8-13)] by simp
  moreover have "appendUserMessage E u t x key db = (?db, False)" for x
    using assms(3,15,16) found by (simp add: appendUserMessage_def append_message_def enqueuePersistenceFailure_def reopen_row_def Let_def)
  ultimately have "replayOne E item db = (?db, False)" by simp
  then have item: "replay_item E item db = (?db, False)"
    using assms(17) by (simp add: replay_item_def markFailed_def update_locked_row_def js_get_set)
  have "claims_of i es ?db = 0" if "\<not> ob_attempts r < ob_maxAttempts r"
    using row_kept [where P = "\<lambda>s. \<not> ob_attempts s < ob_maxAttempts s \<and> ob_status s \<noteq> Ob_Processing" and ok = "\<lambda>_. True"
        and i = i and es = es and db = ?db and r = ?r] assms(1) that
    by (auto simp: js_get_set js_wf_set claimable_def reopen_row_def list_all_iff)
  then show ?thesis by (simp add: item js_get_set)
qed

definition last_try :: outbox_row where
  "last_try = \<lparr>ob_tenantId = ''u1'', ob_operation = Op_Message_User, ob_status = Ob_Processing, ob_dedupeKey = ''message.user:ui:m1'',
     ob_payload = redactSecrets id (message_payload ''u1'' ''t1'' sample_msg ''ui:m1''), ob_attempts = 8, ob_maxAttempts = 8, ob_nextAttemptAt = 0,
     ob_lockedUntil = Some 300000, ob_lockToken = Some ''tok'', ob_createdAt = 0\<rparr>"

theorem failed_replay_stays_pending_witness:
  "let db = sample_chat_db\<lparr>cd_outbox := [(''row'', last_try)]\<rparr>;
       item = \<lparr>cf_id = ''row'', cf_operation = Op_Message_User, cf_payload = ob_payload last_try, cf_attempt = 8, cf_maxAttempts = 8, cf_lockToken = ''tok''\<rparr>;
       r' = last_try\<lparr>ob_status := Ob_Pending, ob_nextAttemptAt := 7\<rparr>; (db', ok) = replay_item (sample_env 7 False) item db in
     \<not> ok \<and> js_get (cd_outbox db') ''row'' = Some r'
     \<and> (if ob_attempts last_try < ob_maxAttempts last_try then True else claims_of ''row'' [Oe_Claim (sample_env 4000000 True)] db' = 0)"
proof -
  have now: "ev_now (sample_env 7 False) = 7" by (simp add: sample_env_def)
  show ?thesis
    unfolding Let_def
    by (rule failed_replay_stays_pending [where E = "sample_env 7 False" and r = last_try and i = "''row''" and rt = id and u = "''u1''"
          and t = "''t1''" and key = "''ui:m1''" and msg = sample_msg and es = "[Oe_Claim (sample_env 4000000 True)]"
          and db = "sample_chat_db\<lparr>cd_outbox := [(''row'', last_try)]\<rparr>", unfolded Let_def now])
      (simp_all add: last_try_def sample_env_def js_wf_def js_keys_def del: redactSecrets.simps)
qed

section \<open>The counters\<close>

definition counters_ok :: "nat \<Rightarrow> replay_counters \<Rightarrow> bool" where
  "counters_ok n c \<longleftrightarrow> rp_claimed c = rp_completed c + rp_failed c + rp_dead c \<and> rp_claimed c \<le> n"

text \<open>A run claims at most its limit (at least one, at most a hundred) and counts each claim once.\<close>

lemma replay_counters_ok: "counters_ok (bounded_limit limit) (snd (replayPersistenceFailures E limit db)) \<and> bounded_limit limit \<le> 100"
proof -
  have "counters_ok (k + n) (snd (replay_loop E n i db c))" if "counters_ok k c" for k n i db c
    using that
  proof (induction n arbitrary: k i db c)
    case 0
    then show ?case by simp
  next
    case (Suc n)
    show ?case
    proof (cases "snd (claimOne (E i) db)")
      case None
      then show ?thesis using Suc.prems by (auto simp: counters_ok_def split: prod.splits option.splits)
    next
      case (Some item)
      then obtain db1 where c1: "claimOne (E i) db = (db1, Some item)" by (metis prod.collapse)
      obtain db2 ok where c2: "replay_item (E i) item db1 = (db2, ok)" by fastforce
      define c3 where "c3 = (let c1 = c\<lparr>rp_claimed := rp_claimed c + 1\<rparr> in
        if ok then c1\<lparr>rp_completed := rp_completed c1 + 1\<rparr>
        else if cf_attempt item \<ge> cf_maxAttempts item then c1\<lparr>rp_dead := rp_dead c1 + 1\<rparr> else c1\<lparr>rp_failed := rp_failed c1 + 1\<rparr>)"
      have "counters_ok (Suc k) c3" using Suc.prems by (simp add: counters_ok_def c3_def Let_def)
      then have "counters_ok (Suc k + n) (snd (replay_loop E n (i + 1) db2 c3))" by (rule Suc.IH)
      then show ?thesis by (simp add: c1 c2 Let_def c3_def cong: if_cong)
    qed
  qed
  moreover have "counters_ok 0 no_replays" by (simp add: counters_ok_def no_replays_def)
  ultimately have "counters_ok (0 + bounded_limit limit) (snd (replayPersistenceFailures E limit db))"
    unfolding replayPersistenceFailures_def by blast
  then show ?thesis by (simp add: bounded_limit_def)
qed

end
