(* ===== verification/Key_Vault.thy ===== *)
theory Key_Vault
  imports Js_Hex Js_Map Budget_Alerts
begin

text \<open>
  Secrets at rest and at start-up, \<open>packages/shared/src\<close>: the encrypted envelopes of user keys and
  of single secrets (\<open>encryption.ts\<close>, \<open>byok.ts\<close>) and the loader that fills the environment from a
  vault (\<open>vault.ts\<close>). AES-256-GCM, PBKDF2, the random bytes, JSON and the vault's answers are
  arguments; texts are strings of single-byte characters.
\<close>

section \<open>encryption.ts\<close>

datatype key_error = Key_Not_Set | Key_Bad_Length

definition IV_LENGTH :: nat where "IV_LENGTH = 12"
definition AUTH_TAG_LENGTH :: nat where "AUTH_TAG_LENGTH = 16"

definition getEncryptionKey :: "string option \<Rightarrow> key_error + nat list" where
  "getEncryptionKey secret =
     (case secret of None \<Rightarrow> Inl Key_Not_Set
      | Some s \<Rightarrow> if s = [] then Inl Key_Not_Set
                  else if length (from_hex s) \<noteq> 32 then Inl Key_Bad_Length
                  else Inr (from_hex s))"

text \<open>The cipher: sealing a text under a key and an initialisation vector gives the ciphertext and the
  tag; opening them gives the text, or \<open>None\<close> when \<open>final()\<close> throws.\<close>

record cipher =
  ci_seal :: "nat list \<Rightarrow> nat list \<Rightarrow> string \<Rightarrow> nat list \<times> nat list"
  ci_unseal :: "nat list \<Rightarrow> nat list \<Rightarrow> nat list \<Rightarrow> nat list \<Rightarrow> string option"

definition envelope :: "cipher \<Rightarrow> nat list \<Rightarrow> nat list \<Rightarrow> string \<Rightarrow> string list" where
  "envelope C key iv text = (case ci_seal C key iv text of (c, t) \<Rightarrow> [to_hex iv, to_hex c, to_hex t])"

text \<open>Decrypting reads the ciphertext as hexadecimal digits and throws when their number is odd.\<close>

definition open_envelope :: "cipher \<Rightarrow> key_error + nat list \<Rightarrow> string \<Rightarrow> string \<Rightarrow> string \<Rightarrow> string option" where
  "open_envelope C key a b c =
     (if length (from_hex a) \<noteq> IV_LENGTH \<or> length (from_hex c) \<noteq> AUTH_TAG_LENGTH then None
      else case key of Inl _ \<Rightarrow> None
        | Inr k \<Rightarrow> if odd (length b) then None else ci_unseal C k (from_hex a) (from_hex b) (from_hex c))"

definition encryptSecret :: "cipher \<Rightarrow> string option \<Rightarrow> nat list \<Rightarrow> string \<Rightarrow> key_error + string" where
  "encryptSecret C env iv plaintext =
     (case getEncryptionKey env of Inl e \<Rightarrow> Inl e
      | Inr key \<Rightarrow> Inr (js_join (CHR ''.'') (envelope C key iv plaintext)))"

definition decryptSecret :: "cipher \<Rightarrow> string option \<Rightarrow> string option \<Rightarrow> string option" where
  "decryptSecret C env encrypted =
     (case encrypted of None \<Rightarrow> None
      | Some s \<Rightarrow> if s = [] then None
          else (case js_split (CHR ''.'') s of
             [a, b, c] \<Rightarrow> open_envelope C (getEncryptionKey env) a b c
           | _ \<Rightarrow> None))"

definition encryptByok :: "cipher \<Rightarrow> ('j \<Rightarrow> string) \<Rightarrow> string option \<Rightarrow> nat list \<Rightarrow> 'j \<Rightarrow> key_error + string" where
  "encryptByok C stringify env iv payload = encryptSecret C env iv (stringify payload)"

text \<open>\<open>parse\<close> is \<open>None\<close> when it throws; only objects are returned.\<close>

definition decryptByok :: "cipher \<Rightarrow> (string \<Rightarrow> 'j option) \<Rightarrow> ('j \<Rightarrow> bool) \<Rightarrow> string option \<Rightarrow> string option \<Rightarrow> 'j option" where
  "decryptByok C parse isObject env encrypted =
     (case decryptSecret C env encrypted of None \<Rightarrow> None
      | Some text \<Rightarrow> (case parse text of None \<Rightarrow> None | Some v \<Rightarrow> if isObject v then Some v else None))"

definition encryptWithPassword ::
  "cipher \<Rightarrow> (string \<Rightarrow> nat list \<Rightarrow> nat list) \<Rightarrow> ('j \<Rightarrow> string) \<Rightarrow> nat list \<Rightarrow> nat list \<Rightarrow> 'j \<Rightarrow> string \<Rightarrow> string" where
  "encryptWithPassword C kdf stringify salt iv payload password =
     js_join (CHR ''.'') (to_hex salt # envelope C (kdf password salt) iv (stringify payload))"

definition decryptWithPassword ::
  "cipher \<Rightarrow> (string \<Rightarrow> nat list \<Rightarrow> nat list) \<Rightarrow> (string \<Rightarrow> 'j option) \<Rightarrow> string \<Rightarrow> string \<Rightarrow> 'j option" where
  "decryptWithPassword C kdf parse encrypted password =
     (case js_split (CHR ''.'') encrypted of
        [s, a, b, c] \<Rightarrow>
          if length (from_hex s) \<noteq> 16 then None
          else Option.bind (open_envelope C (Inr (kdf password (from_hex s))) a b c) parse
      | _ \<Rightarrow> None)"

definition configuredProviders :: "(string, string) js_map option \<Rightarrow> string list" where
  "configuredProviders payload =
     (case payload of None \<Rightarrow> []
      | Some p \<Rightarrow> filter (\<lambda>i. case js_get p i of Some v \<Rightarrow> v \<noteq> [] | None \<Rightarrow> False) PROVIDER_IDS)"

section \<open>vault.ts\<close>

definition VAULT_SECRET_NAMES :: "string list" where
  "VAULT_SECRET_NAMES = [''DATABASE_URL'', ''POSTGRES_URL'', ''DIRECT_URL'', ''POSTGRES_URL_NON_POOLING'',
     ''SUPABASE_CA_CERT'', ''SUPABASE_URL'', ''SUPABASE_SERVICE_ROLE_KEY'', ''SUPABASE_SECRET_KEY'', ''AUTH_SECRET'',
     ''NEXTAUTH_SECRET'', ''AUTH_COOKIE_SECRET'', ''CRON_SECRET'', ''ENCRYPTION_SECRET'', ''AI_GATEWAY_API_KEY'',
     ''GOOGLE_GENERATIVE_AI_API_KEY'', ''GOOGLE_VERTEX_PROJECT'', ''GOOGLE_VERTEX_LOCATION'',
     ''GOOGLE_APPLICATION_CREDENTIALS_JSON'', ''GOOGLE_APPLICATION_CREDENTIALS'', ''AI_DEFAULT_MODEL'',
     ''AI_EMBEDDING_MODEL'', ''MAX_DAILY_USD'', ''SENTRY_DSN'', ''TELEGRAM_BOT_TOKEN'', ''TELEGRAM_SECRET_TOKEN'',
     ''APP_PASSWORD'', ''AUTH_MODE'']"

record vault_state =
  vs_loaded :: bool
  vs_env :: "string \<Rightarrow> string option"

definition env_truthy :: "string option \<Rightarrow> bool" where
  "env_truthy v \<longleftrightarrow> (case v of None \<Rightarrow> False | Some s \<Rightarrow> s \<noteq> [])"

definition fill_env :: "(string \<Rightarrow> string option) \<Rightarrow> (string \<Rightarrow> string option) \<Rightarrow> string list \<Rightarrow> string \<Rightarrow> string option" where
  "fill_env fetch env names = foldl (\<lambda>e name. if env_truthy (e name) then e
      else case fetch name of None \<Rightarrow> e | Some v \<Rightarrow> e(name := Some v)) env names"

text \<open>\<open>loadSecretsFromVault\<close>; \<open>token\<close> is the metadata server's answer, \<open>fetch\<close> the secret manager's for a
  project, a name and a token.\<close>

definition loadSecretsFromVault ::
  "string option \<Rightarrow> (string \<Rightarrow> string \<Rightarrow> string \<Rightarrow> string option) \<Rightarrow> vault_state \<Rightarrow> vault_state" where
  "loadSecretsFromVault token fetch s =
     (if vs_loaded s then s
      else let s1 = s\<lparr>vs_loaded := True\<rparr> in
        if vs_env s ''SECRETS_VAULT_PROVIDER'' = Some ''gcp-secret-manager''
        then (case (vs_env s ''GCP_PROJECT_ID'', token) of
            (Some p, Some t) \<Rightarrow>
              if p \<noteq> [] \<and> t \<noteq> [] then s1\<lparr>vs_env := fill_env (\<lambda>name. fetch p name t) (vs_env s) VAULT_SECRET_NAMES\<rparr> else s1
          | _ \<Rightarrow> s1)
        else s1)"

section \<open>Round trips\<close>

text \<open>What AES-GCM provides: opening what was sealed gives the text, nothing else opens, and a tag has 16
  bytes.\<close>

definition cipher_correct :: "cipher \<Rightarrow> bool" where
  "cipher_correct C \<longleftrightarrow> (\<forall>k iv p. let (c, t) = ci_seal C k iv p in
     ci_unseal C k iv c t = Some p \<and> bytes c \<and> bytes t \<and> length t = AUTH_TAG_LENGTH)"

definition cipher_authentic :: "cipher \<Rightarrow> bool" where
  "cipher_authentic C \<longleftrightarrow> (\<forall>k iv c t p. ci_unseal C k iv c t = Some p \<longrightarrow> ci_seal C k iv p = (c, t))"

text \<open>A cipher that hides nothing but satisfies both.\<close>

definition plain_cipher :: cipher where
  "plain_cipher = \<lparr>ci_seal = (\<lambda>k iv p. (map of_char p, replicate 16 0)),
     ci_unseal = (\<lambda>k iv c t. if t = replicate 16 0 \<and> list_all (\<lambda>b. b < 256) c then Some (map char_of c) else None)\<rparr>"

lemma map_char_of_char: "map char_of (map of_char p :: nat list) = (p :: string)"
  by (simp add: comp_def)

lemma map_of_char_of: "list_all (\<lambda>b. b < 256) c \<Longrightarrow> map of_char (map char_of c :: string) = (c :: nat list)"
  by (induction c) (auto simp: of_char_of)

lemma plain_cipher_ok: "cipher_correct plain_cipher" "cipher_authentic plain_cipher"
proof -
  show "cipher_correct plain_cipher"
    unfolding cipher_correct_def plain_cipher_def
    by (auto simp del: map_map simp: map_char_of_char bytes_def AUTH_TAG_LENGTH_def nat_of_char_less_256 list_all_iff)
  show "cipher_authentic plain_cipher"
    unfolding cipher_authentic_def plain_cipher_def
    by (auto simp del: map_map simp: map_of_char_of split: if_splits)
qed

lemma even_to_hex: "even (length (to_hex bs))"
  by (induction bs) (simp_all add: to_hex_def)

lemma envelope_parts:
  assumes "cipher_correct C" "bytes iv" "length iv = IV_LENGTH"
  obtains a b c where "envelope C key iv p = [a, b, c]" "\<forall>w \<in> {a, b, c}. CHR ''.'' \<notin> set w"
    "open_envelope C (Inr key) a b c = Some p"
proof -
  obtain c t where ct: "ci_seal C key iv p = (c, t)" by fastforce
  have "let (c, t) = ci_seal C key iv p in ci_unseal C key iv c t = Some p \<and> bytes c \<and> bytes t \<and> length t = AUTH_TAG_LENGTH"
    using assms(1) unfolding cipher_correct_def by blast
  then have "ci_unseal C key iv c t = Some p" "bytes c" "bytes t" "length t = AUTH_TAG_LENGTH"
    by (simp_all add: ct)
  moreover have "from_hex (to_hex bs) = bs" if "bytes bs" for bs
    using that by (intro from_to_hex) (auto simp: bytes_def)
  ultimately show thesis using that [of "to_hex iv" "to_hex c" "to_hex t"] assms(2,3) ct
    by (auto simp: envelope_def open_envelope_def to_hex_no_dot even_to_hex)
qed

lemma join_not_empty: "js_join sep (a # b # ws) \<noteq> []"
  by (simp add: js_join.simps(3))

lemma secrets_round_trip_single:
  assumes "cipher_correct C" "bytes iv" "length iv = IV_LENGTH" "getEncryptionKey env = Inr key"
  shows "\<exists>s. encryptSecret C env iv p = Inr s \<and> decryptSecret C env (Some s) = Some p"
  by (rule envelope_parts [OF assms(1,2,3), of key p])
    (simp add: encryptSecret_def decryptSecret_def assms(4) js_split_join join_not_empty del: js_join.simps)

text \<open>
  C35: A secret encrypted under a configured key is decrypted to itself, user keys come back as the object
  that was stored, and the same holds for data protected by a password.
\<close>

theorem secrets_round_trip:
  assumes "cipher_correct C" "bytes iv" "length iv = IV_LENGTH" "bytes salt" "length salt = 16"
    "getEncryptionKey env = Inr key" "\<forall>v. parse (stringify v) = Some v" "isObject payload"
  shows "(\<exists>s. encryptSecret C env iv p = Inr s \<and> decryptSecret C env (Some s) = Some p)
    \<and> (\<exists>s. encryptByok C stringify env iv payload = Inr s \<and> decryptByok C parse isObject env (Some s) = Some payload)
    \<and> decryptWithPassword C kdf parse (encryptWithPassword C kdf stringify salt iv payload password) password = Some payload"
proof -
  have sec: "decryptSecret C env (Some (js_join (CHR ''.'') (envelope C key iv q))) = Some q" for q
    by (rule envelope_parts [OF assms(1,2,3), of key q])
      (simp add: decryptSecret_def assms(6) js_split_join join_not_empty del: js_join.simps)
  have pw: "decryptWithPassword C kdf parse (encryptWithPassword C kdf stringify salt iv payload password) password = Some payload"
    by (rule envelope_parts [OF assms(1,2,3), of "kdf password salt" "stringify payload"])
      (use assms(4,5,7) in \<open>simp add: decryptWithPassword_def encryptWithPassword_def js_split_join to_hex_no_dot from_to_hex bytes_def
        del: js_join.simps\<close>)
  show ?thesis using sec pw assms(6,7,8)
    by (simp add: encryptSecret_def encryptByok_def decryptByok_def)
qed

definition sample_secret :: string where
  "sample_secret = to_hex (replicate 32 7)"

lemma sample_key: "getEncryptionKey (Some sample_secret) = Inr (replicate 32 7)"
proof -
  have "from_hex sample_secret = replicate 32 7" unfolding sample_secret_def by (rule from_to_hex) auto
  moreover from this have "sample_secret \<noteq> []" by (cases sample_secret) auto
  ultimately show ?thesis by (simp add: getEncryptionKey_def)
qed

theorem secrets_round_trip_witness:
  "(\<exists>s. encryptSecret plain_cipher (Some sample_secret) (replicate 12 1) ''bot-token'' = Inr s
      \<and> decryptSecret plain_cipher (Some sample_secret) (Some s) = Some ''bot-token'')
    \<and> (\<exists>s. encryptByok plain_cipher id (Some sample_secret) (replicate 12 1) ''k'' = Inr s
      \<and> decryptByok plain_cipher Some (\<lambda>_. True) (Some sample_secret) (Some s) = Some ''k'')
    \<and> decryptWithPassword plain_cipher (\<lambda>pw salt. salt) Some
        (encryptWithPassword plain_cipher (\<lambda>pw salt. salt) id (replicate 16 2) (replicate 12 1) ''k'' ''pw'') ''pw'' = Some ''k''"
proof (rule secrets_round_trip [OF plain_cipher_ok(1) _ _ _ _ sample_key])
  show "bytes (replicate 12 1)" "bytes (replicate 16 2)" by (simp_all add: bytes_def)
  show "length (replicate 12 (1::nat)) = IV_LENGTH" "length (replicate 16 (2::nat)) = 16" by (simp_all add: IV_LENGTH_def)
qed simp_all

text \<open>
  A secret that decrypts was made by encrypting the very text it decrypts to, under the configured key
  and with some initialisation vector: the stored text differs from that envelope at most in how its
  bytes are spelled. So no change of the bytes of vector, ciphertext or tag gives another text.
\<close>

theorem decrypted_secret_was_encrypted:
  assumes "cipher_authentic C" "cipher_correct C" "decryptSecret C env (Some s) = Some p"
  shows "\<exists>iv s'. length iv = IV_LENGTH \<and> encryptSecret C env iv p = Inr s'
    \<and> map from_hex (js_split (CHR ''.'') s) = map from_hex (js_split (CHR ''.'') s')"
proof -
  obtain a b c key where split: "js_split (CHR ''.'') s = [a, b, c]" and key: "getEncryptionKey env = Inr key"
    and len: "length (from_hex a) = IV_LENGTH" and un: "ci_unseal C key (from_hex a) (from_hex b) (from_hex c) = Some p"
    using assms(3) by (auto simp: decryptSecret_def open_envelope_def split: if_splits list.splits sum.splits)
  have seal: "ci_seal C key (from_hex a) p = (from_hex b, from_hex c)"
    using assms(1) un unfolding cipher_authentic_def by blast
  have again: "from_hex (to_hex (from_hex w)) = from_hex w" for w
    by (rule from_to_hex) (use from_hex_bytes [of w] in \<open>auto simp: bytes_def\<close>)
  have enc: "encryptSecret C env (from_hex a) p = Inr (js_join (CHR ''.'') (envelope C key (from_hex a) p))"
    by (simp add: encryptSecret_def key)
  have "js_split (CHR ''.'') (js_join (CHR ''.'') (envelope C key (from_hex a) p)) = [to_hex (from_hex a), to_hex (from_hex b), to_hex (from_hex c)]"
    unfolding envelope_def seal by (simp add: js_split_join to_hex_no_dot from_hex_bytes del: js_join.simps)
  then have "map from_hex (js_split (CHR ''.'') s)
      = map from_hex (js_split (CHR ''.'') (js_join (CHR ''.'') (envelope C key (from_hex a) p)))"
    by (simp add: split again)
  then show ?thesis using len enc by blast
qed

theorem decrypted_secret_was_encrypted_witness:
  "\<exists>iv s'. length iv = IV_LENGTH \<and> encryptSecret plain_cipher (Some sample_secret) iv ''x'' = Inr s'
    \<and> map from_hex (js_split (CHR ''.'') (js_join (CHR ''.'') (envelope plain_cipher (replicate 32 7) (replicate 12 1) ''x'')))
      = map from_hex (js_split (CHR ''.'') s')"
proof -
  have "encryptSecret plain_cipher (Some sample_secret) (replicate 12 1) ''x''
      = Inr (js_join (CHR ''.'') (envelope plain_cipher (replicate 32 7) (replicate 12 1) ''x''))"
    by (simp add: encryptSecret_def sample_key)
  moreover have "\<exists>s. encryptSecret plain_cipher (Some sample_secret) (replicate 12 1) ''x'' = Inr s
      \<and> decryptSecret plain_cipher (Some sample_secret) (Some s) = Some ''x''"
    by (rule envelope_parts [OF plain_cipher_ok(1), of "replicate 12 1" "replicate 32 7" "''x''"])
      (simp_all add: encryptSecret_def decryptSecret_def sample_key js_split_join join_not_empty bytes_def IV_LENGTH_def del: js_join.simps)
  ultimately show ?thesis using decrypted_secret_was_encrypted [OF plain_cipher_ok(2,1)] by fastforce
qed

section \<open>Start-up\<close>

lemma fill_env_eq:
  "fill_env fetch env names k
     = (if k \<in> set names \<and> \<not> env_truthy (env k) then (case fetch k of None \<Rightarrow> env k | Some v \<Rightarrow> Some v) else env k)"
proof (induction names arbitrary: env)
  case Nil
  then show ?case by (simp add: fill_env_def)
next
  case (Cons n names)
  let ?e = "if env_truthy (env n) then env else case fetch n of None \<Rightarrow> env | Some v \<Rightarrow> env(n := Some v)"
  have "fill_env fetch env (n # names) = fill_env fetch ?e names" by (simp add: fill_env_def)
  then show ?case using Cons [of ?e] by (auto simp: env_truthy_def split: option.splits)
qed

text \<open>
  The loader only fills gaps: after it a variable that was set keeps its value, a listed one that was
  missing or empty has the vault's value when the vault has one, and no other changes. A second call
  changes nothing, also when the first found no vault.
\<close>

theorem vault_fills_gaps:
  "let s1 = loadSecretsFromVault token fetch \<lparr>vs_loaded = False, vs_env = env\<rparr> in
     loadSecretsFromVault token2 fetch2 s1 = s1
     \<and> (\<forall>k. vs_env s1 k = (case (env ''GCP_PROJECT_ID'', token) of
          (Some p, Some t) \<Rightarrow>
            if env ''SECRETS_VAULT_PROVIDER'' = Some ''gcp-secret-manager'' \<and> p \<noteq> [] \<and> t \<noteq> []
               \<and> k \<in> set VAULT_SECRET_NAMES \<and> \<not> env_truthy (env k) \<and> fetch p k t \<noteq> None
            then fetch p k t else env k
        | _ \<Rightarrow> env k))"
  by (auto simp: Let_def loadSecretsFromVault_def fill_env_eq split: option.splits simp del: VAULT_SECRET_NAMES_def)

end
