(* ===== verification/Telegram.thy ===== *)
theory Telegram
  imports Resilience
begin

text \<open>
  The Telegram bot, \<open>packages/ai/src/telegram\<close> and \<open>packages/ai/src/bot\<close>: the client with its
  retries and the splitting of long messages (\<open>client.ts\<close>), the limiter per user and action
  (\<open>rate-limiter.ts\<close>), the guard against repeated updates (\<open>idempotency.ts\<close>), the webhook
  (\<open>webhook.ts\<close>), the dispatcher (\<open>dispatcher.ts\<close>, \<open>types.ts\<close>) and the linking of accounts
  (\<open>linking.ts\<close>). Answers of the Telegram service, the clock and random codes are arguments; the
  bodies of the commands and the texts of the answers are not modelled.
\<close>

section \<open>client.ts\<close>

definition SAFE_CHUNK_LENGTH :: nat where "SAFE_CHUNK_LENGTH = 4000"

datatype telegram_error = Tg_Api int bool | Tg_Network | Tg_Other

text \<open>\<open>classifyTelegramError\<close>, its retryable flag.\<close>

definition telegram_retryable :: "int \<Rightarrow> bool" where
  "telegram_retryable status \<longleftrightarrow> status = 429 \<or> status \<ge> 500"

text \<open>One exchange: the service's answer, or why there is none.\<close>

datatype telegram_answer = Ans_Ok | Ans_Error "int option" int | Ans_No_Connection | Ans_Unreadable

fun answer_outcome :: "telegram_answer \<Rightarrow> telegram_error + unit" where
  "answer_outcome Ans_Ok = Inr ()"
| "answer_outcome (Ans_Error code status) =
     (let c = (case code of Some n \<Rightarrow> n | None \<Rightarrow> status) in Inl (Tg_Api c (telegram_retryable c)))"
| "answer_outcome Ans_No_Connection = Inl Tg_Network"
| "answer_outcome Ans_Unreadable = Inl Tg_Other"

fun telegram_error_retryable :: "telegram_error \<Rightarrow> nat \<Rightarrow> bool" where
  "telegram_error_retryable (Tg_Api c r) a = r"
| "telegram_error_retryable Tg_Network a = True"
| "telegram_error_retryable Tg_Other a = False"

definition telegram_retry :: retry_options where
  "telegram_retry = \<lparr>ro_maxAttempts = 4, ro_baseDelayMs = 300, ro_maxDelayMs = 5000, ro_maxRetryAfterMs = 30000\<rparr>"

text \<open>A call, given the answers to its attempts and the random numbers; its errors carry no
  \<open>Retry-After\<close> hint and no signal is passed.\<close>

definition telegramApiCall :: "(nat \<Rightarrow> telegram_answer) \<Rightarrow> (nat \<Rightarrow> real)
    \<Rightarrow> (telegram_error, unit) retry_result \<times> nat \<times> real list" where
  "telegramApiCall answers random = withRetry telegram_retry telegram_error_retryable
     \<lparr>re_attempt = (\<lambda>a. answer_outcome (answers a)), re_random = random, re_retryAfter = (\<lambda>_. None),
      re_aborted_before = (\<lambda>_. False), re_aborted_after = (\<lambda>_. False), re_aborted_waiting = (\<lambda>_. False)\<rparr>"

definition trim_start :: "string \<Rightarrow> string" where
  "trim_start s = dropWhile is_ws s"

definition trim_end :: "string \<Rightarrow> string" where
  "trim_end s = rev (dropWhile is_ws (rev s))"

definition lastIndexOf :: "char \<Rightarrow> nat \<Rightarrow> string \<Rightarrow> int" where
  "lastIndexOf c k s = (case List.find (\<lambda>i. s ! i = c) (rev [0..<min (Suc k) (length s)]) of
     None \<Rightarrow> -1 | Some i \<Rightarrow> int i)"

text \<open>\<open>s.slice(0, i)\<close> and \<open>s.slice(i)\<close>; a negative index counts from the end.\<close>

definition slice_to :: "string \<Rightarrow> int \<Rightarrow> string" where
  "slice_to s i = (if 0 \<le> i then take (nat i) s else take (length s - nat (- i)) s)"

definition slice_from :: "string \<Rightarrow> int \<Rightarrow> string" where
  "slice_from s i = (if 0 \<le> i then drop (nat i) s else drop (length s - nat (- i)) s)"

definition split_point :: "nat \<Rightarrow> string \<Rightarrow> int \<times> int" where
  "split_point maxLen s =
     (let newlineIdx = lastIndexOf (CHR 0x0A) maxLen s in
      if newlineIdx > int maxLen - 500 then (newlineIdx, 1)
      else let spaceIdx = lastIndexOf (CHR '' '') maxLen s in
        if spaceIdx > int maxLen - 200 then (spaceIdx, 1) else (int maxLen, 0))"

partial_function (option) chunk_loop :: "nat \<Rightarrow> string \<Rightarrow> string list option" where
  "chunk_loop maxLen remaining =
     (if length remaining > maxLen
      then (case split_point maxLen remaining of (splitIndex, skipChar) \<Rightarrow>
        Option.bind (chunk_loop maxLen (trim_start (slice_from remaining (splitIndex + skipChar))))
          (\<lambda>rest. Some (trim_end (slice_to remaining splitIndex) # rest)))
      else Some (if length remaining > 0 then [remaining] else []))"

definition chunkText :: "string \<Rightarrow> nat \<Rightarrow> string list option" where
  "chunkText text maxLen = (if length text \<le> maxLen then Some [text] else chunk_loop maxLen text)"

text \<open>\<open>sendTextMessage\<close>: the chunks are sent in order, the first failing call ends it; the answers are
  given per chunk. \<open>Inr n\<close> is the number of messages sent.\<close>

fun send_chunks :: "(nat \<Rightarrow> nat \<Rightarrow> telegram_answer) \<Rightarrow> (nat \<Rightarrow> nat \<Rightarrow> real) \<Rightarrow> nat \<Rightarrow> string list
    \<Rightarrow> string list \<times> ((telegram_error, unit) retry_result + nat)" where
  "send_chunks answers random i [] = ([], Inr i)"
| "send_chunks answers random i (c # cs) =
     (case fst (telegramApiCall (answers i) (random i)) of
        Returned _ \<Rightarrow> (case send_chunks answers random (i + 1) cs of (sent, r) \<Rightarrow> (c # sent, r))
      | e \<Rightarrow> ([], Inl e))"

definition sendTextMessage :: "(nat \<Rightarrow> nat \<Rightarrow> telegram_answer) \<Rightarrow> (nat \<Rightarrow> nat \<Rightarrow> real) \<Rightarrow> string
    \<Rightarrow> (string list \<times> ((telegram_error, unit) retry_result + nat)) option" where
  "sendTextMessage answers random text =
     (if js_trim text = [] then Some ([], Inr 0)
      else map_option (send_chunks answers random 0) (chunkText text SAFE_CHUNK_LENGTH))"

section \<open>Splitting keeps the text\<close>

lemma lastIndexOf_bounds:
  "lastIndexOf c k s = -1 \<or> (0 \<le> lastIndexOf c k s \<and> lastIndexOf c k s \<le> int k
     \<and> nat (lastIndexOf c k s) < length s \<and> s ! nat (lastIndexOf c k s) = c)"
  by (auto simp: lastIndexOf_def split: option.splits dest!: find_Some_prop)

definition ink :: "string \<Rightarrow> string" where
  "ink s = filter (\<lambda>c. \<not> is_ws c) s"

lemma ink_append [simp]: "ink (a @ b) = ink a @ ink b"
  by (simp add: ink_def)

lemma filter_dropWhile_ws: "filter (\<lambda>c. \<not> is_ws c) (dropWhile is_ws s) = filter (\<lambda>c. \<not> is_ws c) s"
  by (induction s) auto

lemma ink_trim_start [simp]: "ink (trim_start s) = ink s"
  by (simp add: ink_def trim_start_def filter_dropWhile_ws)

lemma ink_trim_end [simp]: "ink (trim_end s) = ink s"
  by (simp add: ink_def trim_end_def rev_filter [symmetric] filter_dropWhile_ws)

lemma trim_lengths: "length (trim_start s) \<le> length s" "length (trim_end s) \<le> length s"
  by (simp_all add: trim_start_def trim_end_def length_dropWhile_le le_trans [OF length_dropWhile_le])

text \<open>Where a long rest is split: within the limit, after at least one character, and only white space is
  skipped.\<close>

lemma split_point_ok:
  assumes "500 \<le> maxLen" "maxLen < length s" "split_point maxLen s = (i, k)"
  shows "0 \<le> i \<and> i \<le> int maxLen \<and> 0 < i + k \<and> 0 \<le> k
    \<and> ink (take (nat i) s) @ ink (drop (nat (i + k)) s) = ink s"
proof -
  have cut: "ink (take n s) @ ink (drop n s) = ink s" for n
    by (simp flip: ink_append)
  have skip: "ink (take n s) @ ink (drop (Suc n) s) = ink s" if "n < length s" "is_ws (s ! n)" for n
  proof -
    have "s = take n s @ s ! n # drop (Suc n) s" using that(1) by (simp add: id_take_nth_drop)
    then have "ink s = ink (take n s) @ ink (s ! n # drop (Suc n) s)" by (metis ink_append)
    then show ?thesis using that(2) by (simp add: ink_def)
  qed
  have ws: "is_ws (CHR 0x0A)" "is_ws (CHR '' '')" by (simp_all add: is_ws_def)
  show ?thesis
    using assms lastIndexOf_bounds [of "CHR 0x0A" maxLen s] lastIndexOf_bounds [of "CHR '' ''" maxLen s] ws cut skip
    by (auto simp: split_point_def Let_def nat_add_distrib split: if_splits)
qed

lemma chunk_loop_total:
  assumes "500 \<le> maxLen"
  shows "\<exists>cs. chunk_loop maxLen s = Some cs \<and> (\<forall>c \<in> set cs. length c \<le> maxLen) \<and> ink (concat cs) = ink s"
proof (induction "length s" arbitrary: s rule: less_induct)
  case less
  show ?case
  proof (cases "maxLen < length s")
    case False
    then show ?thesis by (auto simp: chunk_loop.simps [of maxLen s])
  next
    case True
    obtain i k where ik: "split_point maxLen s = (i, k)" by fastforce
    note ok = split_point_ok [OF assms True ik]
    let ?rest = "trim_start (slice_from s (i + k))"
    have "length ?rest \<le> length s - nat (i + k)" using ok trim_lengths(1) [of "drop (nat (i + k)) s"]
      by (simp add: slice_from_def)
    moreover have "0 < nat (i + k)" "0 < length s" using ok True by auto
    ultimately have "length ?rest < length s" by linarith
    from less [OF this] obtain cs where cs: "chunk_loop maxLen ?rest = Some cs" "\<forall>c \<in> set cs. length c \<le> maxLen"
      "ink (concat cs) = ink ?rest" by blast
    have "length (trim_end (slice_to s i)) \<le> maxLen"
      using ok trim_lengths(2) [of "take (nat i) s"] by (simp add: slice_to_def) linarith
    moreover have "chunk_loop maxLen s = Some (trim_end (slice_to s i) # cs)"
      using True cs(1) by (simp add: chunk_loop.simps [of maxLen s] ik)
    ultimately show ?thesis using cs ok by (auto simp: slice_to_def slice_from_def)
  qed
qed

lemma chunkText_total:
  "500 \<le> maxLen \<Longrightarrow> \<exists>cs. chunkText msg maxLen = Some cs \<and> (\<forall>c \<in> set cs. length c \<le> maxLen) \<and> ink (concat cs) = ink msg"
  using chunk_loop_total [of maxLen msg] by (auto simp: chunkText_def)

text \<open>
  Splitting ends for every limit of at least 500 characters; no piece is longer than the limit and the
  pieces together have every character of the text that is not white space, in order. With a smaller
  limit it need not end: a text without a line break is split at index \<open>-1\<close> for ever.
\<close>

theorem chunks_keep_text:
  assumes "500 \<le> maxLen"
  shows "\<exists>cs. chunkText msg maxLen = Some cs \<and> (\<forall>c \<in> set cs. length c \<le> maxLen) \<and> ink (concat cs) = ink msg"
  by (rule chunkText_total [OF assms])

theorem chunks_keep_text_witness:
  "\<exists>cs. chunkText (replicate 4100 CHR ''a'') SAFE_CHUNK_LENGTH = Some cs \<and> (\<forall>c \<in> set cs. length c \<le> SAFE_CHUNK_LENGTH)
     \<and> ink (concat cs) = ink (replicate 4100 CHR ''a'')"
  by (rule chunks_keep_text) (simp add: SAFE_CHUNK_LENGTH_def)

lemma small_limit_never_ends:
  assumes "maxLen < 499" "maxLen < length s" "CHR 0x0A \<notin> set s" "\<not> is_ws (hd s)"
  shows "chunk_loop maxLen s = None"
proof (rule ccontr)
  let ?stuck = "\<lambda>m r. m < 499 \<and> m < length r \<and> CHR 0x0A \<notin> set r \<and> \<not> is_ws (hd r)"
  assume "chunk_loop maxLen s \<noteq> None"
  then obtain cs where "chunk_loop maxLen s = Some cs" by blast
  then have "\<not> ?stuck maxLen s"
  proof (rule chunk_loop.raw_induct [where P = "\<lambda>m r cs. \<not> ?stuck m r", rotated])
    fix f m r cs
    assume IH: "\<And>m r cs. f m r = Some cs \<Longrightarrow> \<not> ?stuck m r"
      and eq: "(if length r > m
          then (case split_point m r of (splitIndex, skipChar) \<Rightarrow>
            Option.bind (f m (trim_start (slice_from r (splitIndex + skipChar))))
              (\<lambda>rest. Some (trim_end (slice_to r splitIndex) # rest)))
          else Some (if length r > 0 then [r] else [])) = Some cs"
    show "\<not> ?stuck m r"
    proof
      assume a: "?stuck m r"
      have "lastIndexOf (CHR 0x0A) m r = -1"
        using lastIndexOf_bounds [of "CHR 0x0A" m r] a nth_mem by metis
      then have sp: "split_point m r = (-1, 1)" using a by (simp add: split_point_def)
      have "trim_start (slice_from r 0) = r" using a by (cases r) (auto simp: trim_start_def slice_from_def)
      then obtain cs' where "f m r = Some cs'" using eq a sp by (auto split: bind_splits)
      then show False using IH a by blast
    qed
  qed
  then show False using assms by blast
qed

lemma send_chunks_result:
  "case send_chunks answers random i cs of
     (sent, Inr n) \<Rightarrow> sent = cs \<and> n = i + length cs
   | (sent, Inl e) \<Rightarrow> \<exists>c rest. cs = sent @ c # rest"
proof (induction cs arbitrary: i)
  case Nil
  then show ?case by simp
next
  case (Cons c cs)
  obtain sent r where rec: "send_chunks answers random (i + 1) cs = (sent, r)" by fastforce
  then show ?case using Cons [of "i + 1"]
    by (cases "fst (telegramApiCall (answers i) (random i))"; cases r) auto
qed

text \<open>
  Sending a text always ends. When it reports \<open>n\<close> messages, these are \<open>n\<close> messages of at most 4000
  characters that carry the whole text; when it fails, the messages sent are those before a piece whose
  call failed, and at least that piece is missing.
\<close>

theorem send_text_result:
  "case sendTextMessage answers random msg of
     None \<Rightarrow> False
   | Some (sent, Inr n) \<Rightarrow> length sent = n \<and> ink (concat sent) = ink msg \<and> list_all (\<lambda>c. length c \<le> 4000) sent
   | Some (sent, Inl e) \<Rightarrow> \<exists>c rest. chunkText msg SAFE_CHUNK_LENGTH = Some (sent @ c # rest)"
proof (cases "js_trim msg = []")
  case True
  have "ink msg = ink (js_trim msg)" by (simp add: js_trim_def ink_def rev_filter [symmetric] filter_dropWhile_ws)
  then show ?thesis using True by (simp add: sendTextMessage_def ink_def)
next
  case False
  have "500 \<le> SAFE_CHUNK_LENGTH" by (simp add: SAFE_CHUNK_LENGTH_def)
  from chunkText_total [OF this, of msg] obtain cs where cs: "chunkText msg SAFE_CHUNK_LENGTH = Some cs"
    "\<forall>c \<in> set cs. length c \<le> SAFE_CHUNK_LENGTH" "ink (concat cs) = ink msg" by blast
  then show ?thesis using False send_chunks_result [where answers = answers and random = random and i = 0 and cs = cs]
    by (auto simp: sendTextMessage_def list_all_iff SAFE_CHUNK_LENGTH_def split: prod.splits sum.splits)
qed

section \<open>rate-limiter.ts\<close>

record tg_limit_entry =
  tl_count :: nat
  tl_windowStart :: ms

record tg_limit_result =
  tr_allowed :: bool
  tr_remaining :: int
  tr_resetMs :: ms

definition TG_WINDOW_MS :: ms where "TG_WINDOW_MS = 60000"

definition checkRateLimit :: "string \<Rightarrow> string \<Rightarrow> nat \<Rightarrow> ms \<Rightarrow> (string, tg_limit_entry) js_map
    \<Rightarrow> (string, tg_limit_entry) js_map \<times> tg_limit_result" where
  "checkRateLimit userId action limit now m =
     (let key = userId @ '':'' @ action;
          fresh = (js_set key \<lparr>tl_count = 1, tl_windowStart = now\<rparr> m,
            \<lparr>tr_allowed = True, tr_remaining = int limit - 1, tr_resetMs = TG_WINDOW_MS\<rparr>) in
      case js_get m key of None \<Rightarrow> fresh
      | Some e \<Rightarrow>
          if now - tl_windowStart e \<ge> TG_WINDOW_MS then fresh
          else if tl_count e \<ge> limit
          then (m, \<lparr>tr_allowed = False, tr_remaining = 0, tr_resetMs = TG_WINDOW_MS - (now - tl_windowStart e)\<rparr>)
          else (js_set key (e\<lparr>tl_count := tl_count e + 1\<rparr>) m,
            \<lparr>tr_allowed = True, tr_remaining = int limit - int (tl_count e + 1),
             tr_resetMs = max 0 (TG_WINDOW_MS - (now - tl_windowStart e))\<rparr>))"

definition getRateLimitStatus :: "string \<Rightarrow> string \<Rightarrow> nat \<Rightarrow> ms \<Rightarrow> (string, tg_limit_entry) js_map \<Rightarrow> tg_limit_result" where
  "getRateLimitStatus userId action limit now m =
     (let fresh = \<lparr>tr_allowed = True, tr_remaining = int limit, tr_resetMs = 0\<rparr> in
      case js_get m (userId @ '':'' @ action) of None \<Rightarrow> fresh
      | Some e \<Rightarrow>
          if now - tl_windowStart e \<ge> TG_WINDOW_MS then fresh
          else \<lparr>tr_allowed = (tl_count e < limit), tr_remaining = max 0 (int limit - int (tl_count e)),
                tr_resetMs = max 0 (TG_WINDOW_MS - (now - tl_windowStart e))\<rparr>)"

fun tg_requests :: "string \<Rightarrow> string \<Rightarrow> nat \<Rightarrow> (string, tg_limit_entry) js_map \<Rightarrow> ms list \<Rightarrow> bool list" where
  "tg_requests u a n m [] = []"
| "tg_requests u a n m (t # ts) = (case checkRateLimit u a n t m of (m', r) \<Rightarrow> tr_allowed r # tg_requests u a n m' ts)"

interpretation tg_window: quota_window "\<lambda>m w. case js_get m (u @ '':'' @ a) of Some e \<Rightarrow> tl_count e | None \<Rightarrow> 0"
    "\<lambda>t m. case checkRateLimit u a n t m of (m', r) \<Rightarrow> (m', tr_allowed r)"
    "\<lambda>_ _. True" "\<lambda>w t. t < w + TG_WINDOW_MS" "\<lambda>_. n"
    "\<lambda>m w. case js_get m (u @ '':'' @ a) of Some e \<Rightarrow> tl_windowStart e = w | None \<Rightarrow> False"
  for u a n
  by unfold_locales (auto simp: checkRateLimit_def Let_def js_get_set split: option.splits if_splits prod.splits)

lemma tg_requests_asks: "tg_requests u a n m ts = tg_window.asks u a n ts m"
  by (induction ts arbitrary: m) (auto split: prod.splits)

text \<open>
  Of the requests within one minute after a first one, exactly the first \<open>n\<close> are allowed. The window is
  fixed, not sliding: around its end twice as many can follow each other.
\<close>

theorem limiter_allows_first_n:
  assumes "0 < n" "\<forall>t \<in> set ts. t0 \<le> t \<and> t < t0 + TG_WINDOW_MS"
    "case js_get m (u @ '':'' @ a) of None \<Rightarrow> True | Some e \<Rightarrow> t0 - tl_windowStart e \<ge> TG_WINDOW_MS"
  shows "tg_requests u a n m (t0 # ts) = map (\<lambda>i. i < n) [0..<Suc (length ts)]"
proof -
  obtain m' r where cr: "checkRateLimit u a n t0 m = (m', r)" by fastforce
  have c: "tr_allowed r" "js_get m' (u @ '':'' @ a) = Some \<lparr>tl_count = 1, tl_windowStart = t0\<rparr>"
    using cr assms(3) by (auto simp: checkRateLimit_def Let_def js_get_set split: option.splits)
  have "map (\<lambda>i. i < n) [0..<Suc k] = True # map (\<lambda>i. 1 + i < n) [0..<k]" for k
    using assms(1) by (simp add: upt_rec [of 0] map_Suc_upt [symmetric] comp_def del: upt_Suc)
  moreover have "tg_requests u a n m' ts = map (\<lambda>i. 1 + i < n) [0..<length ts]"
    using tg_window.granted_first [where s = m' and u = u and a = a and k = t0 and qs = ts and n = n] c(2) assms(2) by (simp add: tg_requests_asks list_all_iff)
  ultimately show ?thesis using c(1) by (simp add: cr del: upt_Suc)
qed

theorem limiter_allows_first_n_witness:
  "tg_requests ''u'' ''bot_chat'' 2 [] [0, 10, 59999] = [True, True, False]"
  using limiter_allows_first_n [of 2 "[10, 59999]" 0 "[]" "''u''" "''bot_chat''"]
  by (simp add: TG_WINDOW_MS_def eval_nat_numeral)

lemma limiter_is_not_sliding:
  "tg_requests ''u'' ''bot_chat'' 2 [] [0, 59999, 60000, 60001] = [True, True, True, True]"
  by (simp add: checkRateLimit_def TG_WINDOW_MS_def)

section \<open>idempotency.ts and the webhook\<close>

definition PROCESSED_TTL_MS :: ms where "PROCESSED_TTL_MS = 5 * 60 * 1000"
definition CLEANUP_INTERVAL_MS :: ms where "CLEANUP_INTERVAL_MS = 60 * 1000"

record update_guard =
  ug_processed :: "(int, ms) js_map"
  ug_lastCleanup :: ms

definition cleanupIfNeeded :: "ms \<Rightarrow> update_guard \<Rightarrow> update_guard" where
  "cleanupIfNeeded now g =
     (if now - ug_lastCleanup g < CLEANUP_INTERVAL_MS then g
      else \<lparr>ug_processed = js_prune (\<lambda>k t. now - t > PROCESSED_TTL_MS) (ug_processed g), ug_lastCleanup = now\<rparr>)"

definition isDuplicateUpdate :: "int \<Rightarrow> ms \<Rightarrow> update_guard \<Rightarrow> update_guard \<times> bool" where
  "isDuplicateUpdate u now g = (let g' = cleanupIfNeeded now g in (g', js_has (ug_processed g') u))"

definition markProcessed :: "int \<Rightarrow> ms \<Rightarrow> update_guard \<Rightarrow> update_guard" where
  "markProcessed u now g = g\<lparr>ug_processed := js_set u now (ug_processed g)\<rparr>"

record tg_message =
  tm_chatId :: int
  tm_text :: "string option"
  tm_is_bot :: bool

record tg_update =
  tu_id :: int
  tu_message :: "tg_message option"
  tu_callback :: "tg_message option"   \<comment> \<open>its chat, its data and its sender\<close>

datatype webhook_action = Act_Duplicate | Act_Ignored | Act_From_Bot | Act_No_Token | Act_Command string int | Act_Free_Form string int

definition first_truthy :: "'a \<Rightarrow> 'a option \<Rightarrow> 'a option \<Rightarrow> 'a option" where
  "first_truthy falsy a b = (case a of Some x \<Rightarrow> if x \<noteq> falsy then Some x else b | None \<Rightarrow> b)"

text \<open>\<open>handleTelegramWebhook\<close> up to the dispatch; what it decides without dispatching is marked at once,
  a dispatch is marked when it ends (\<open>finally\<close>).\<close>

definition webhook_begin :: "bool \<Rightarrow> ms \<Rightarrow> tg_update \<Rightarrow> update_guard \<Rightarrow> update_guard \<times> webhook_action" where
  "webhook_begin hasToken now u g0 =
     (case isDuplicateUpdate (tu_id u) now g0 of (g, dup) \<Rightarrow>
        if dup then (g, Act_Duplicate)
        else let chatId = first_truthy 0 (map_option tm_chatId (tu_message u)) (map_option tm_chatId (tu_callback u));
                 txt = first_truthy [] (Option.bind (tu_message u) tm_text) (Option.bind (tu_callback u) tm_text);
                 from_bot = (\<lambda>m. case m of Some x \<Rightarrow> tm_is_bot x | None \<Rightarrow> False) in
          (case (chatId, txt) of
             (Some c, Some t) \<Rightarrow>
               if c = 0 \<or> t = [] then (markProcessed (tu_id u) now g, Act_Ignored)
               else if from_bot (tu_message u) \<or> from_bot (tu_callback u) then (markProcessed (tu_id u) now g, Act_From_Bot)
               else if \<not> hasToken then (markProcessed (tu_id u) now g, Act_No_Token)
               else (g, if startsWith t ''/'' then Act_Command t c else Act_Free_Form t c)
           | _ \<Rightarrow> (markProcessed (tu_id u) now g, Act_Ignored)))"

datatype webhook_event = Wh_Begin tg_update ms | Wh_End int ms

fun webhook_step :: "bool \<Rightarrow> update_guard \<Rightarrow> webhook_event \<Rightarrow> update_guard" where
  "webhook_step tok g (Wh_Begin u now) = fst (webhook_begin tok now u g)"
| "webhook_step tok g (Wh_End i now) = markProcessed i now g"

fun wh_time :: "webhook_event \<Rightarrow> ms" where
  "wh_time (Wh_Begin u now) = now"
| "wh_time (Wh_End i now) = now"

definition marked_since :: "int \<Rightarrow> ms \<Rightarrow> update_guard \<Rightarrow> bool" where
  "marked_since i t0 g \<longleftrightarrow> (\<exists>t. (i, t) \<in> set (ug_processed g) \<and> t0 \<le> t)"

lemma js_set_member: "(i, t) \<in> set m \<Longrightarrow> i \<noteq> k \<Longrightarrow> (i, t) \<in> set (js_set k v m)"
  by (induction k v m rule: js_set.induct) auto

lemma js_set_new: "(k, v) \<in> set (js_set k v m)"
  by (induction k v m rule: js_set.induct) auto

lemma marked_mark: "marked_since i t0 g \<Longrightarrow> t0 \<le> now \<Longrightarrow> marked_since i t0 (markProcessed k now g)"
  unfolding marked_since_def markProcessed_def
  by (cases "i = k") (auto intro: js_set_member js_set_new)

lemma marked_cleanup:
  "marked_since i t0 g \<Longrightarrow> now \<le> t0 + PROCESSED_TTL_MS \<Longrightarrow> marked_since i t0 (cleanupIfNeeded now g)"
  by (fastforce simp: marked_since_def cleanupIfNeeded_def js_prune_def)

lemma marked_duplicate: "marked_since i t0 g \<Longrightarrow> js_has (ug_processed g) i"
  by (auto simp: marked_since_def js_has_def js_get_def dest: weak_map_of_SomeI)

lemma marked_begin:
  assumes "marked_since i t0 g" "t0 \<le> now" "now \<le> t0 + PROCESSED_TTL_MS"
  shows "marked_since i t0 (fst (webhook_begin tok now u g))
    \<and> (tu_id u = i \<longrightarrow> snd (webhook_begin tok now u g) = Act_Duplicate)"
proof -
  have m: "marked_since i t0 (cleanupIfNeeded now g)" using marked_cleanup assms by blast
  then show ?thesis using marked_duplicate [OF m] assms(2)
    by (auto simp: webhook_begin_def isDuplicateUpdate_def Let_def marked_mark split: option.splits)
qed

text \<open>
  Once an update was handled at time \<open>t0\<close>, every delivery of the same update within the following five
  minutes is recognised, whatever other updates begin and end in between.
\<close>

theorem handled_update_not_repeated:
  assumes "\<forall>e \<in> set evs. t0 \<le> wh_time e \<and> wh_time e \<le> t0 + PROCESSED_TTL_MS"
    "t0 \<le> now" "now \<le> t0 + PROCESSED_TTL_MS" "tu_id u = i"
  shows "snd (webhook_begin tok now u (foldl (webhook_step tok) (markProcessed i t0 g) evs)) = Act_Duplicate"
proof -
  have "marked_since i t0 (foldl (webhook_step tok) (markProcessed i t0 g) evs)" using assms(1)
  proof (induction evs rule: rev_induct)
    case Nil
    then show ?case using js_set_new [of i t0 "ug_processed g"] by (auto simp: marked_since_def markProcessed_def)
  next
    case (snoc e es)
    then show ?case by (cases e) (simp_all add: marked_begin marked_mark)
  qed
  then show ?thesis using marked_begin assms by blast
qed

definition sample_update :: tg_update where
  "sample_update = \<lparr>tu_id = 7, tu_message = Some \<lparr>tm_chatId = 5, tm_text = Some ''/price'', tm_is_bot = False\<rparr>, tu_callback = None\<rparr>"

theorem handled_update_not_repeated_witness:
  "snd (webhook_begin True 200000 sample_update (foldl (webhook_step True)
     (markProcessed 7 100 \<lparr>ug_processed = [], ug_lastCleanup = 0\<rparr>) [Wh_Begin sample_update 90000, Wh_End 7 90001])) = Act_Duplicate"
  by (rule handled_update_not_repeated) (simp_all add: PROCESSED_TTL_MS_def sample_update_def)

text \<open>A delivery that arrives while the first one is still being handled is handled as well.\<close>

lemma overlapping_deliveries_both_handled:
  "let (g1, a1) = webhook_begin True 100 sample_update \<lparr>ug_processed = [], ug_lastCleanup = 0\<rparr>;
       (g2, a2) = webhook_begin True 200 sample_update g1
   in a1 = Act_Command ''/price'' 5 \<and> a2 = Act_Command ''/price'' 5"
  by (simp add: webhook_begin_def isDuplicateUpdate_def cleanupIfNeeded_def CLEANUP_INTERVAL_MS_def sample_update_def
      first_truthy_def js_has_def Let_def startsWith_def)

section \<open>Commands\<close>

definition BOT_COMMANDS :: "(string \<times> string list) list" where
  "BOT_COMMANDS = [(''help'', [''start'', ''h'']), (''price'', [''p'']), (''analyze'', [''a'']), (''ask'', [''q'']),
     (''status'', [''s'']), (''chart'', [''c'']), (''alert'', []), (''positions'', [''pos'']), (''link'', []), (''news'', [''n'']),
     (''calendar'', [''cal'']), (''committee'', [''comm'']), (''settings'', [''config'']), (''me'', [''account''])]"

definition register_command :: "(string, string) js_map \<Rightarrow> string \<times> string list \<Rightarrow> (string, string) js_map" where
  "register_command m c = foldl (\<lambda>m alias. js_set alias (fst c) m) (js_set (fst c) (fst c) m) (snd c)"

definition dispatcher :: "(string, string) js_map" where
  "dispatcher = foldl register_command [] BOT_COMMANDS"

definition strip_botname :: "string \<Rightarrow> string" where
  "strip_botname s = (let w = takeWhile is_word_char (rev s); r = drop (length w) (rev s) in
     if w \<noteq> [] \<and> r \<noteq> [] \<and> hd r = CHR ''@'' then rev (tl r) else s)"

fun js_words :: "string \<Rightarrow> string \<Rightarrow> string list" where
  "js_words w [] = (if w = [] then [] else [w])"
| "js_words w (c # s) = (if is_ws c then (if w = [] then js_words [] s else w # js_words [] s) else js_words (w @ [c]) s)"

definition parseCommand :: "string \<Rightarrow> string \<times> string list" where
  "parseCommand s =
     (let trimmed = js_trim s in
      if \<not> startsWith trimmed ''/'' then ([], [])
      else let body = tl trimmed; name = takeWhile (\<lambda>c. \<not> is_ws c) body in
        if name = [] then ([], [])
        else (strip_botname (toLowerCase name), js_words [] (drop (length name) body)))"

datatype dispatch_result = D_Handler string "string list" | D_Unknown string

definition bot_dispatch :: "string \<Rightarrow> dispatch_result" where
  "bot_dispatch s = (case parseCommand s of (command, args) \<Rightarrow>
     if command = [] then D_Handler ''help'' []
     else case js_get dispatcher command of None \<Rightarrow> D_Unknown command | Some name \<Rightarrow> D_Handler name args)"

datatype command_action = Ca_Dispatch string dispatch_result | Ca_Link_Prompt | Ca_Too_Fast

text \<open>\<open>handleCommand\<close>: what is run, and for which user (the empty text stands for none).\<close>

definition handleCommand :: "string \<Rightarrow> string option \<Rightarrow> ms \<Rightarrow> (string, tg_limit_entry) js_map
    \<Rightarrow> (string, tg_limit_entry) js_map \<times> command_action" where
  "handleCommand txt linkedUser now lims =
     (let low = toLowerCase txt in
      if startsWith low ''/link'' then (lims, Ca_Dispatch [] (bot_dispatch txt))
      else if startsWith low ''/start'' \<or> startsWith low ''/help'' then (lims, Ca_Dispatch [] (bot_dispatch txt))
      else case linkedUser of None \<Rightarrow> (lims, Ca_Link_Prompt)
        | Some u \<Rightarrow> (case checkRateLimit u ''bot_command'' 30 now lims of (lims', r) \<Rightarrow>
            (lims', if tr_allowed r then Ca_Dispatch u (bot_dispatch txt) else Ca_Too_Fast)))"

lemma dispatcher_get:
  "js_get dispatcher k = map_of [(''help'', ''help''), (''start'', ''help''), (''h'', ''help''), (''price'', ''price''), (''p'', ''price''),
     (''analyze'', ''analyze''), (''a'', ''analyze''), (''ask'', ''ask''), (''q'', ''ask''), (''status'', ''status''), (''s'', ''status''),
     (''chart'', ''chart''), (''c'', ''chart''), (''alert'', ''alert''), (''positions'', ''positions''), (''pos'', ''positions''),
     (''link'', ''link''), (''news'', ''news''), (''n'', ''news''), (''calendar'', ''calendar''), (''cal'', ''calendar''),
     (''committee'', ''committee''), (''comm'', ''committee''), (''settings'', ''settings''), (''config'', ''settings''),
     (''me'', ''me''), (''account'', ''me'')] k"
  by (simp add: dispatcher_def BOT_COMMANDS_def register_command_def js_get_def)

lemma is_ws_lower [simp]: "is_ws (lower_char c) = is_ws c"
  by (auto simp: lower_char_def is_ws_def)

lemma dropWhile_none: "list_all (\<lambda>c. \<not> P c) q \<Longrightarrow> q \<noteq> [] \<Longrightarrow> dropWhile P (q @ r) = q @ r"
  by (cases q) auto

lemma trim_keeps_prefix:
  assumes "list_all (\<lambda>c. \<not> is_ws c) q" "q \<noteq> []"
  shows "\<exists>r'. js_trim (q @ r) = q @ r'"
proof -
  have q: "dropWhile is_ws (rev q) = rev q" using dropWhile_none [of is_ws "rev q" "[]"] assms by simp
  have "rev (dropWhile is_ws (rev r @ rev q)) = (if \<forall>c \<in> set r. is_ws c then q else q @ rev (dropWhile is_ws (rev r)))"
    by (auto simp: dropWhile_append q)
  then show ?thesis using assms by (auto simp: js_trim_def dropWhile_none)
qed

lemma strip_botname_cases: "strip_botname s = s \<or> (\<exists>v. s = strip_botname s @ CHR ''@'' # v)"
proof -
  define w where "w = takeWhile is_word_char (rev s)"
  define r where "r = drop (length w) (rev s)"
  have "rev s = w @ r" unfolding r_def w_def by (metis dropWhile_eq_drop takeWhile_dropWhile_id)
  then have s: "s = rev r @ rev w" by (metis rev_append rev_rev_ident)
  have eq: "strip_botname s = (if w \<noteq> [] \<and> r \<noteq> [] \<and> hd r = CHR ''@'' then rev (tl r) else s)"
    by (simp add: strip_botname_def Let_def r_def w_def)
  show ?thesis unfolding eq using s by (cases r) auto
qed

lemma strip_keeps_prefix:
  assumes "CHR ''@'' \<notin> set p"
  shows "\<exists>z'. strip_botname (p @ z) = p @ z'"
proof (cases "strip_botname (p @ z) = p @ z")
  case False
  then obtain u v where u: "u = strip_botname (p @ z)" "p @ z = u @ CHR ''@'' # v" using strip_botname_cases by blast
  from u(2) have "(\<exists>us. p @ us = u) \<or> (\<exists>us. p = u @ CHR ''@'' # us)"
    by (auto simp: append_eq_append_conv2 append_eq_Cons_conv Cons_eq_append_conv)
  moreover have "p \<noteq> u @ CHR ''@'' # us" for us using assms by auto
  ultimately have "\<exists>us. u = p @ us" by metis
  then show ?thesis unfolding u(1) .
qed blast

lemma parseCommand_prefix:
  assumes "startsWith (toLowerCase txt) (CHR ''/'' # p)" "list_all (\<lambda>c. \<not> is_ws c) p" "CHR ''@'' \<notin> set p" "p \<noteq> []"
  shows "\<exists>z args. parseCommand txt = (p @ z, args)"
proof -
  define q where "q = take (Suc (length p)) txt"
  have low: "map lower_char q = CHR ''/'' # p"
    using assms(1) by (simp add: startsWith_def toLowerCase_def q_def take_map)
  have "list_all (\<lambda>c. \<not> is_ws c) (map lower_char q)" unfolding low using assms(2) by (simp add: is_ws_def)
  then have nows: "list_all (\<lambda>c. \<not> is_ws c) q" by (simp add: list_all_iff)
  obtain c q' where q': "q = c # q'" "lower_char c = CHR ''/''" "map lower_char q' = p" using low by (cases q) auto
  have c: "c = CHR ''/''"
  proof (rule ccontr)
    assume "c \<noteq> CHR ''/''"
    with q'(2) have r: "65 \<le> (of_char c :: nat)" "(of_char c :: nat) \<le> 90" "char_of (of_char c + 32 :: nat) = CHR ''/''"
      by (auto simp: lower_char_def split: if_splits)
    have "(of_char (char_of (of_char c + 32 :: nat) :: char) :: nat) = 47" unfolding r(3) by simp
    with r(1,2) show False by simp
  qed
  have "txt = q @ drop (Suc (length p)) txt" unfolding q_def by simp
  then obtain r' where trim: "js_trim txt = q @ r'"
    using trim_keeps_prefix [OF nows, of "drop (Suc (length p)) txt"] q'(1) by (metis list.distinct(1))
  have name: "takeWhile (\<lambda>c. \<not> is_ws c) (q' @ r') = q' @ takeWhile (\<lambda>c. \<not> is_ws c) r'"
    using nows q'(1) by (intro takeWhile_append2) (simp add: list_all_iff)
  have "toLowerCase (q' @ takeWhile (\<lambda>c. \<not> is_ws c) r') = p @ toLowerCase (takeWhile (\<lambda>c. \<not> is_ws c) r')"
    using q'(3) by (simp add: toLowerCase_def)
  moreover obtain z where "strip_botname (p @ toLowerCase (takeWhile (\<lambda>c. \<not> is_ws c) r')) = p @ z"
    using strip_keeps_prefix [OF assms(3)] by blast
  moreover have "q' \<noteq> []" using q'(3) assms(4) by auto
  ultimately show ?thesis by (simp add: parseCommand_def trim q'(1) c name startsWith_def)
qed

text \<open>
  A chat without a linked account reaches no command but \<open>link\<close> and \<open>help\<close>: everything else is
  answered with the invitation to link it. A linked chat runs every other command as its own user.
\<close>

theorem commands_need_link:
  "case snd (handleCommand txt linkedUser now lims) of
     Ca_Dispatch u d \<Rightarrow> linkedUser = Some u \<or> (u = [] \<and> (case d of D_Handler n args \<Rightarrow> n = ''link'' \<or> n = ''help'' | D_Unknown c \<Rightarrow> True))
   | Ca_Link_Prompt \<Rightarrow> linkedUser = None
   | Ca_Too_Fast \<Rightarrow> linkedUser \<noteq> None"
proof -
  have early: "case bot_dispatch txt of D_Handler n args \<Rightarrow> n = ''link'' \<or> n = ''help'' | D_Unknown c \<Rightarrow> True"
    if "startsWith (toLowerCase txt) (CHR ''/'' # p)" "p \<in> {''link'', ''start'', ''help''}" for p
  proof -
    have "list_all (\<lambda>c. \<not> is_ws c) p" "CHR ''@'' \<notin> set p" "p \<noteq> []" using that(2) by (auto simp: is_ws_def)
    from parseCommand_prefix [OF that(1) this] obtain z args where "parseCommand txt = (p @ z, args)" by blast
    then show ?thesis using that(2) by (auto simp: bot_dispatch_def dispatcher_get split: option.splits)
  qed
  show ?thesis using early [of "''link''"] early [of "''start''"] early [of "''help''"]
    by (auto simp: handleCommand_def Let_def split: option.splits prod.splits)
qed

datatype chat_action = Ch_Link_Prompt | Ch_Too_Many | Ch_Agent string

text \<open>\<open>handleFreeFormMessage\<close> up to the call of the agent.\<close>

definition handleFreeFormMessage :: "string option \<Rightarrow> ms \<Rightarrow> (string, tg_limit_entry) js_map
    \<Rightarrow> (string, tg_limit_entry) js_map \<times> chat_action" where
  "handleFreeFormMessage linkedUser now lims =
     (case linkedUser of None \<Rightarrow> (lims, Ch_Link_Prompt)
      | Some u \<Rightarrow> (case checkRateLimit u ''bot_chat'' 10 now lims of (lims', r) \<Rightarrow>
          (lims', if tr_allowed r then Ch_Agent u else Ch_Too_Many)))"

section \<open>linking.ts\<close>

definition LINK_CODE_TTL_MS :: ms where "LINK_CODE_TTL_MS = 10 * 60 * 1000"

definition LINK_CODE_CHARS :: string where "LINK_CODE_CHARS = ''ABCDEFGHJKLMNPQRSTUVWXYZ23456789''"

definition generateLinkCode :: "nat list \<Rightarrow> string" where
  "generateLinkCode bs = map (\<lambda>b. LINK_CODE_CHARS ! (b mod length LINK_CODE_CHARS)) (take 6 bs)"

record pending_link =
  pl_userId :: string
  pl_expiresAt :: ms

record link_state =
  ls_pending :: "(string, pending_link) js_map"
  ls_links :: "(string \<times> string, string) js_map"   \<comment> \<open>platform and chat to user\<close>

definition createLinkCode :: "nat list \<Rightarrow> ms \<Rightarrow> string \<Rightarrow> link_state \<Rightarrow> link_state \<times> string" where
  "createLinkCode random now userId s =
     (let code = generateLinkCode random in
      (s\<lparr>ls_pending := js_set code \<lparr>pl_userId = userId, pl_expiresAt = now + LINK_CODE_TTL_MS\<rparr>
           (js_prune (\<lambda>k l. pl_userId l = userId) (ls_pending s))\<rparr>, code))"

definition resolveLinkCode :: "ms \<Rightarrow> string \<Rightarrow> string \<Rightarrow> string \<Rightarrow> link_state \<Rightarrow> link_state \<times> string option" where
  "resolveLinkCode now code chatId platform s =
     (let upperCode = js_trim (toUpperCase code) in
      case js_get (ls_pending s) upperCode of
        None \<Rightarrow> (s, None)
      | Some p \<Rightarrow>
          if now > pl_expiresAt p then (s\<lparr>ls_pending := js_delete upperCode (ls_pending s)\<rparr>, None)
          else (s\<lparr>ls_links := js_set (platform, chatId) (pl_userId p) (ls_links s),
                  ls_pending := js_delete upperCode (ls_pending s)\<rparr>, Some (pl_userId p)))"

definition resolveBotUser :: "string \<Rightarrow> string \<Rightarrow> link_state \<Rightarrow> string option" where
  "resolveBotUser chatId platform s = js_get (ls_links s) (platform, chatId)"

definition unlinkBot :: "string \<Rightarrow> string \<Rightarrow> link_state \<Rightarrow> link_state" where
  "unlinkBot userId platform s = s\<lparr>ls_links := js_prune (\<lambda>k u. u = userId \<and> fst k = platform) (ls_links s)\<rparr>"

datatype link_event = Le_Create "nat list" ms string | Le_Resolve ms string string string | Le_Unlink string string

fun link_step :: "link_state \<Rightarrow> link_event \<Rightarrow> link_state" where
  "link_step s (Le_Create bs now u) = fst (createLinkCode bs now u s)"
| "link_step s (Le_Resolve now code chat p) = fst (resolveLinkCode now code chat p s)"
| "link_step s (Le_Unlink u p) = unlinkBot u p s"

text \<open>How often a user created a code, and how often one of its codes linked a chat.\<close>

fun creates :: "string \<Rightarrow> link_event list \<Rightarrow> nat" where
  "creates u [] = 0"
| "creates u (Le_Create bs now u' # es) = (if u' = u then 1 else 0) + creates u es"
| "creates u (e # es) = creates u es"

fun linked_by :: "string \<Rightarrow> link_state \<Rightarrow> link_event list \<Rightarrow> nat" where
  "linked_by u s [] = 0"
| "linked_by u s (e # es) = (case e of Le_Resolve now code chat p \<Rightarrow>
       (if snd (resolveLinkCode now code chat p s) = Some u then 1 else 0) | _ \<Rightarrow> 0) + linked_by u (link_step s e) es"

definition pending_of :: "string \<Rightarrow> link_state \<Rightarrow> nat" where
  "pending_of u s = length (filter (\<lambda>(k, l). pl_userId l = u) (ls_pending s))"

lemma count_js_set_le:
  "length (filter P (js_set k v m)) \<le> length (filter P m) + (if P (k, v) then 1 else 0)"
  by (induction k v m rule: js_set.induct) auto

lemma count_js_delete:
  "js_get m k = Some v \<Longrightarrow> P (k, v) \<Longrightarrow> length (filter P (js_delete k m)) < length (filter P m)"
proof (induction m)
  case (Cons a m)
  obtain k' v' where a: "a = (k', v')" by (cases a)
  have le: "length (filter P (js_delete k m)) \<le> length (filter P m)" for m
    by (induction m) (auto simp: js_delete_def)
  show ?case
  proof (cases "k' = k")
    case True
    then have "js_delete k (a # m) = js_delete k m" "v' = v" using Cons.prems a by (auto simp: js_delete_def)
    then show ?thesis using a True Cons.prems(2) le [of m] by simp
  next
    case False
    then have "js_delete k (a # m) = a # js_delete k m" using a by (simp add: js_delete_def)
    then show ?thesis using Cons a False by auto
  qed
qed simp

lemma count_js_delete_le: "length (filter P (js_delete k m)) \<le> length (filter P m)"
  by (induction m) (auto simp: js_delete_def)

lemma pending_create: "pending_of u (fst (createLinkCode bs now u' s)) \<le> (if u' = u then 1 else pending_of u s)"
proof -
  let ?P = "\<lambda>(k :: string, l). pl_userId l = u"
  let ?m = "js_prune (\<lambda>k l. pl_userId l = u') (ls_pending s)"
  have m: "length (filter ?P ?m) = (if u' = u then 0 else pending_of u s)"
    by (auto simp: js_prune_def pending_of_def filter_empty_conv split_def intro!: arg_cong [of _ _ length] filter_cong)
  show ?thesis using count_js_set_le [of ?P "generateLinkCode bs" "\<lparr>pl_userId = u', pl_expiresAt = now + LINK_CODE_TTL_MS\<rparr>" ?m] m
    by (auto simp: pending_of_def createLinkCode_def Let_def)
qed

lemma pending_resolve:
  "pending_of u (fst (resolveLinkCode now code chat p s))
     + (if snd (resolveLinkCode now code chat p s) = Some u then 1 else 0) \<le> pending_of u s"
  using count_js_delete_le [of "\<lambda>(k, l). pl_userId l = u" "js_trim (toUpperCase code)" "ls_pending s"]
    count_js_delete [of "ls_pending s" "js_trim (toUpperCase code)" _ "\<lambda>(k, l). pl_userId l = u"]
  by (auto simp: resolveLinkCode_def pending_of_def Let_def Suc_le_eq split: option.splits)

text \<open>
  A code links at most one chat: over any sequence of requests, a user's codes link no more chats than
  the user asked for codes, and never more than one for the codes not yet used.
\<close>

theorem link_codes_single_use:
  "linked_by u s es \<le> creates u es + pending_of u s"
proof (induction es arbitrary: s)
  case Nil
  then show ?case by simp
next
  case (Cons e es)
  show ?case
  proof (cases e)
    case (Le_Create bs now u')
    then show ?thesis using Cons [of "fst (createLinkCode bs now u' s)"] pending_create [of u bs now u' s] by (auto split: if_splits)
  next
    case (Le_Resolve now code chat p)
    then show ?thesis using Cons [of "fst (resolveLinkCode now code chat p s)"] pending_resolve [of u now code chat p s] by (auto split: if_splits)
  next
    case (Le_Unlink u' p)
    then show ?thesis using Cons [of "unlinkBot u' p s"] by (simp add: pending_of_def unlinkBot_def)
  qed
qed

lemma set_js_set_subset: "set (js_set k v m) \<subseteq> insert (k, v) (set m)"
  by (induction k v m rule: js_set.induct) auto

text \<open>A pending code comes from a request of its user and expires ten minutes after it.\<close>

lemma pending_from_create:
  "(k, l) \<in> set (ls_pending (foldl link_step \<lparr>ls_pending = [], ls_links = []\<rparr> es)) \<Longrightarrow>
     \<exists>bs t0. Le_Create bs t0 (pl_userId l) \<in> set es \<and> k = generateLinkCode bs \<and> pl_expiresAt l = t0 + LINK_CODE_TTL_MS"
proof (induction es rule: rev_induct)
  case Nil
  then show ?case by simp
next
  case (snoc e es)
  let ?s = "foldl link_step \<lparr>ls_pending = [], ls_links = []\<rparr> es"
  show ?case
  proof (cases e)
    case (Le_Create bs now u)
    have "(k, l) = (generateLinkCode bs, \<lparr>pl_userId = u, pl_expiresAt = now + LINK_CODE_TTL_MS\<rparr>) \<or> (k, l) \<in> set (ls_pending ?s)"
      using snoc.prems Le_Create set_js_set_subset [of "generateLinkCode bs" _ "js_prune (\<lambda>k l. pl_userId l = u) (ls_pending ?s)"]
      by (fastforce simp: createLinkCode_def Let_def js_prune_def)
    then show ?thesis using snoc.IH Le_Create by auto
  next
    case (Le_Resolve now code chat p)
    then show ?thesis using snoc by (auto simp: resolveLinkCode_def Let_def js_delete_def split: option.splits if_splits)
  next
    case (Le_Unlink u p)
    then show ?thesis using snoc by (auto simp: unlinkBot_def)
  qed
qed

lemma link_within_ten_minutes:
  assumes "snd (resolveLinkCode now code chat p (foldl link_step \<lparr>ls_pending = [], ls_links = []\<rparr> es)) = Some u"
  shows "\<exists>bs t0. Le_Create bs t0 u \<in> set es \<and> js_trim (toUpperCase code) = generateLinkCode bs \<and> now \<le> t0 + LINK_CODE_TTL_MS"
proof -
  let ?s = "foldl link_step \<lparr>ls_pending = [], ls_links = []\<rparr> es"
  obtain l where "js_get (ls_pending ?s) (js_trim (toUpperCase code)) = Some l" "pl_userId l = u" "now \<le> pl_expiresAt l"
    using assms by (auto simp: resolveLinkCode_def Let_def split: option.splits if_splits)
  moreover from this(1) have "(js_trim (toUpperCase code), l) \<in> set (ls_pending ?s)" by (auto simp: js_get_def dest: map_of_SomeD)
  ultimately show ?thesis using pending_from_create by fastforce
qed

end
