(* ===== verification/Portfolio.thy ===== *)
theory Portfolio
  imports Journal
begin

text \<open>
  Positions and their risk, \<open>packages/ai/src/portfolio\<close> with \<open>packages/shared/src/schemas/portfolio.ts\<close>:
  the table of positions and the settings (\<open>position-service.ts\<close>), profit and loss of a position and
  the risk report (\<open>risk-service.ts\<close>). Prices come from the market data component as an argument;
  amounts are real numbers; messages are reduced to their figures.
\<close>

section \<open>Positions\<close>

datatype position_status = Pos_Open | Pos_Closed

record position =
  po_userId :: string
  po_symbol :: string
  po_direction :: trade_side
  po_lotSize :: real
  po_entryPrice :: real
  po_stopLoss :: "real option"
  po_takeProfit :: "real option"
  po_openedAt :: ms
  po_closedAt :: "ms option"
  po_closePrice :: "real option"
  po_status :: position_status
  po_notes :: "string option"

type_synonym position_db = "(string, position) js_map"

record create_position_input =
  cp_symbol :: string
  cp_direction :: trade_side
  cp_lotSize :: real
  cp_entryPrice :: real
  cp_stopLoss :: "real option"
  cp_takeProfit :: "real option"
  cp_openedAt :: "ms option"
  cp_notes :: "string option"

definition date_or_now :: "ms option \<Rightarrow> ms \<Rightarrow> ms" where   \<comment> \<open>\<open>t ? new Date(t) : new Date()\<close>\<close>
  "date_or_now t now = (case t of None \<Rightarrow> now | Some t \<Rightarrow> if t = 0 then now else t)"

definition createPosition :: "string \<Rightarrow> string \<Rightarrow> create_position_input \<Rightarrow> ms \<Rightarrow> position_db \<Rightarrow> position_db \<times> position" where
  "createPosition newId userId inp now db =
     (let p = \<lparr>po_userId = userId, po_symbol = cp_symbol inp, po_direction = cp_direction inp, po_lotSize = cp_lotSize inp,
        po_entryPrice = cp_entryPrice inp, po_stopLoss = cp_stopLoss inp, po_takeProfit = cp_takeProfit inp,
        po_openedAt = date_or_now (cp_openedAt inp) now, po_closedAt = None, po_closePrice = None, po_status = Pos_Open,
        po_notes = cp_notes inp\<rparr>
      in (js_set newId p db, p))"

definition newest_first :: "position list \<Rightarrow> position list" where
  "newest_first ps = sort_key (\<lambda>p. - po_openedAt p) ps"

definition listOpenPositions :: "string \<Rightarrow> position_db \<Rightarrow> position list" where
  "listOpenPositions userId db =
     newest_first (filter (\<lambda>p. po_userId p = userId \<and> po_status p = Pos_Open) (map snd db))"

definition listAllPositions :: "string \<Rightarrow> nat \<Rightarrow> position_db \<Rightarrow> position list" where
  "listAllPositions userId limit db = take limit (newest_first (filter (\<lambda>p. po_userId p = userId) (map snd db)))"

definition getPosition :: "string \<Rightarrow> string \<Rightarrow> position_db \<Rightarrow> position option" where
  "getPosition userId i db = (case js_get db i of None \<Rightarrow> None | Some p \<Rightarrow> if po_userId p = userId then Some p else None)"

definition closePosition :: "string \<Rightarrow> string \<Rightarrow> real \<Rightarrow> ms option \<Rightarrow> ms \<Rightarrow> position_db \<Rightarrow> position_db \<times> position option" where
  "closePosition userId i closePrice closedAt now db =
     (case js_get db i of
        None \<Rightarrow> (db, None)
      | Some p \<Rightarrow>
          if po_userId p = userId \<and> po_status p = Pos_Open
          then let p' = p\<lparr>po_status := Pos_Closed, po_closePrice := Some closePrice, po_closedAt := Some (date_or_now closedAt now)\<rparr>
               in (js_set i p' db, Some p')
          else (db, None))"

definition deletePosition :: "string \<Rightarrow> string \<Rightarrow> position_db \<Rightarrow> position_db" where
  "deletePosition userId i db = (case js_get db i of None \<Rightarrow> db | Some p \<Rightarrow> if po_userId p = userId then js_delete i db else db)"

record portfolio_settings =
  ps_accountBalance :: "real option"
  ps_baseCurrency :: string
  ps_maxRiskPerTradePct :: real
  ps_maxTotalExposurePct :: real

definition getPortfolioSettings :: "string \<Rightarrow> (string, portfolio_settings) js_map \<Rightarrow> portfolio_settings" where
  "getPortfolioSettings userId db = (case js_get db userId of Some s \<Rightarrow> s
     | None \<Rightarrow> \<lparr>ps_accountBalance = None, ps_baseCurrency = ''USD'', ps_maxRiskPerTradePct = 2, ps_maxTotalExposurePct = 10\<rparr>)"

text \<open>The four updates are absent or present; \<open>accountBalance\<close> may be set to \<open>null\<close>.\<close>

definition savePortfolioSettings ::
  "string \<Rightarrow> real option option \<Rightarrow> string option \<Rightarrow> real option \<Rightarrow> real option \<Rightarrow> (string, portfolio_settings) js_map
     \<Rightarrow> (string, portfolio_settings) js_map \<times> portfolio_settings" where
  "savePortfolioSettings userId balance currency maxRisk maxExposure db =
     (let c = getPortfolioSettings userId db;
          m = \<lparr>ps_accountBalance = patched balance (ps_accountBalance c), ps_baseCurrency = patched currency (ps_baseCurrency c),
               ps_maxRiskPerTradePct = patched maxRisk (ps_maxRiskPerTradePct c),
               ps_maxTotalExposurePct = patched maxExposure (ps_maxTotalExposurePct c)\<rparr>
      in (js_set userId m db, m))"

section \<open>Profit and loss\<close>

definition CONTRACT_SIZES :: "(string, int) js_map" where
  "CONTRACT_SIZES = [(''XAUUSD'', 100), (''EURUSD'', 100000), (''GBPUSD'', 100000)]"

definition getContractSize :: "string \<Rightarrow> int" where
  "getContractSize symbol = (case js_get CONTRACT_SIZES (toUpperCase symbol) of Some n \<Rightarrow> n | None \<Rightarrow> 100000)"

definition getPipValue :: "string \<Rightarrow> real \<Rightarrow> real" where
  "getPipValue symbol lotSize =
     (let s = toUpperCase symbol;
          pip = (if s = ''XAUUSD'' then 0.1 else if endsWith s ''JPY'' then 0.01 else 0.0001)
      in pip * real_of_int (getContractSize s) * lotSize)"

text \<open>The side's gain from one price to another.\<close>

definition directed :: "trade_side \<Rightarrow> real \<Rightarrow> real \<Rightarrow> real" where
  "directed d from to = (case d of Long \<Rightarrow> to - from | Short \<Rightarrow> from - to)"

record position_pnl =
  pn_position :: position
  pn_currentPrice :: "real option"
  pn_unrealizedPnlUsd :: "real option"
  pn_unrealizedPnlPct :: "real option"
  pn_riskUsd :: "real option"
  pn_rewardUsd :: "real option"
  pn_riskRewardRatio :: "real option"
  pn_distanceToStopPct :: "real option"
  pn_stale :: bool

definition units :: "position \<Rightarrow> real" where
  "units p = real_of_int (getContractSize (po_symbol p)) * po_lotSize p"

definition computePnL :: "position \<Rightarrow> real \<Rightarrow> position_pnl" where
  "computePnL p price =
     (let priceDiff = directed (po_direction p) (po_entryPrice p) price;
          riskUsd = map_option (\<lambda>s. \<bar>directed (po_direction p) s (po_entryPrice p)\<bar> * units p) (po_stopLoss p);
          rewardUsd = map_option (\<lambda>t. \<bar>directed (po_direction p) (po_entryPrice p) t\<bar> * units p) (po_takeProfit p)
      in \<lparr>pn_position = p, pn_currentPrice = Some price, pn_unrealizedPnlUsd = Some (priceDiff * units p),
          pn_unrealizedPnlPct = Some (if po_entryPrice p > 0 then priceDiff / po_entryPrice p * 100 else 0),
          pn_riskUsd = riskUsd, pn_rewardUsd = rewardUsd,
          pn_riskRewardRatio = (case (riskUsd, rewardUsd) of (Some k, Some w) \<Rightarrow> if k > 0 then Some (w / k) else None | _ \<Rightarrow> None),
          pn_distanceToStopPct = map_option (\<lambda>s. directed (po_direction p) s price / po_entryPrice p * 100) (po_stopLoss p),
          pn_stale = False\<rparr>)"

definition stale_pnl :: "position \<Rightarrow> position_pnl" where
  "stale_pnl p = \<lparr>pn_position = p, pn_currentPrice = None, pn_unrealizedPnlUsd = None, pn_unrealizedPnlPct = None,
     pn_riskUsd = None, pn_rewardUsd = None, pn_riskRewardRatio = None, pn_distanceToStopPct = None, pn_stale = True\<rparr>"

text \<open>\<open>getPrice\<close> is \<open>None\<close> where the fetch fails.\<close>

definition getOpenPositionsWithPnL :: "(string \<Rightarrow> real option) \<Rightarrow> string \<Rightarrow> position_db \<Rightarrow> position_pnl list" where
  "getOpenPositionsWithPnL getPrice userId db =
     map (\<lambda>p. case getPrice (po_symbol p) of None \<Rightarrow> stale_pnl p | Some price \<Rightarrow> computePnL p price) (listOpenPositions userId db)"

section \<open>The risk report\<close>

record concentration_item =
  co_symbol :: string
  co_pct :: real
  co_alert :: bool

record correlation_item =
  cr_a :: string
  cr_b :: string
  cr_correlation :: real
  cr_alert :: bool

record near_stop_item =
  ns_symbol :: string
  ns_direction :: trade_side
  ns_distancePct :: real

datatype risk_alert =
    Al_Exposure real real | Al_Concentration string real | Al_Correlation string string real | Al_Near_Stop string trade_side real

record risk_report =
  rk_totalExposureUsd :: real
  rk_totalExposurePct :: real
  rk_totalRiskUsd :: real
  rk_totalRiskPct :: real
  rk_concentration :: "concentration_item list"
  rk_correlationRisk :: "correlation_item list"
  rk_positionsNearStop :: "near_stop_item list"
  rk_alerts :: "risk_alert list"
  rk_openPositionCount :: nat

definition exposure :: "position \<Rightarrow> real" where
  "exposure p = po_entryPrice p * units p"

definition add_exposure :: "(string, real) js_map \<Rightarrow> position \<Rightarrow> (string, real) js_map" where
  "add_exposure m p = js_set (po_symbol p) ((case js_get m (po_symbol p) of None \<Rightarrow> 0 | Some x \<Rightarrow> x) + exposure p) m"

definition concentration_of :: "position list \<Rightarrow> concentration_item list" where
  "concentration_of ps =
     (let total = sum_list (map exposure ps) in
      sort_key (\<lambda>c. - co_pct c) (map (\<lambda>(s, x). let pct = (if total > 0 then x / total * 100 else 0) in
        \<lparr>co_symbol = s, co_pct = pct, co_alert = (pct > 35)\<rparr>) (foldl add_exposure [] ps)))"

fun js_less :: "string \<Rightarrow> string \<Rightarrow> bool" where
  "js_less [] b = (b \<noteq> [])"
| "js_less (x # a) [] = False"
| "js_less (x # a) (y # b) = ((of_char x :: nat) < of_char y \<or> (x = y \<and> js_less a b))"

definition knownCorrelations :: "(string, real) js_map" where
  "knownCorrelations = [(''EURUSD-GBPUSD'', 0.85), (''EURUSD-XAUUSD'', 0.3), (''GBPUSD-XAUUSD'', 0.25)]"

definition correlation_pair :: "position \<Rightarrow> position \<Rightarrow> correlation_item list" where
  "correlation_pair a b =
     (if po_symbol a = po_symbol b then []
      else let key = (if js_less (po_symbol b) (po_symbol a) then po_symbol b @ ''-'' @ po_symbol a else po_symbol a @ ''-'' @ po_symbol b) in
        case js_get knownCorrelations key of None \<Rightarrow> []
        | Some r \<Rightarrow>
            let same = (po_direction a = po_direction b) in
            [\<lparr>cr_a = po_symbol a, cr_b = po_symbol b, cr_correlation = (if same then r else - r), cr_alert = (same \<and> \<bar>r\<bar> > 0.7)\<rparr>])"

fun correlations_of :: "position list \<Rightarrow> correlation_item list" where
  "correlations_of [] = []"
| "correlations_of (a # ps) = concat (map (correlation_pair a) ps) @ correlations_of ps"

definition near_stop :: "position_pnl \<Rightarrow> near_stop_item list" where
  "near_stop q =
     (let p = pn_position q in
      case (pn_distanceToStopPct q, po_stopLoss p) of
        (Some d, Some s) \<Rightarrow>
          let full = directed (po_direction p) s (po_entryPrice p) / po_entryPrice p * 100 in
          if full > 0 then
            let pct = d / full * 100 in
            if pct < 20 then [\<lparr>ns_symbol = po_symbol p, ns_direction = po_direction p, ns_distancePct = pct\<rparr>] else []
          else []
      | _ \<Rightarrow> [])"

definition getPortfolioRiskReport :: "position_pnl list \<Rightarrow> portfolio_settings \<Rightarrow> risk_report" where
  "getPortfolioRiskReport qs settings =
     (let ps = map pn_position qs;
          accountBalance = (case ps_accountBalance settings of None \<Rightarrow> 0 | Some b \<Rightarrow> b);
          totalExposureUsd = sum_list (map exposure ps);
          totalExposurePct = (if accountBalance > 0 then totalExposureUsd / accountBalance * 100 else 0);
          totalRiskUsd = sum_list (map (\<lambda>q. case pn_riskUsd q of None \<Rightarrow> 0 | Some r \<Rightarrow> r) qs);
          totalRiskPct = (if accountBalance > 0 then totalRiskUsd / accountBalance * 100 else 0);
          concentration = concentration_of ps; correlationRisk = correlations_of ps;
          positionsNearStop = concat (map near_stop qs);
          alerts = (if accountBalance > 0 \<and> totalExposurePct > ps_maxTotalExposurePct settings
                    then [Al_Exposure totalExposurePct (ps_maxTotalExposurePct settings)] else [])
            @ map (\<lambda>c. Al_Concentration (co_symbol c) (co_pct c)) (filter co_alert concentration)
            @ map (\<lambda>c. Al_Correlation (cr_a c) (cr_b c) (cr_correlation c)) (filter cr_alert correlationRisk)
            @ map (\<lambda>n. Al_Near_Stop (ns_symbol n) (ns_direction n) (ns_distancePct n)) positionsNearStop
      in \<lparr>rk_totalExposureUsd = totalExposureUsd, rk_totalExposurePct = totalExposurePct, rk_totalRiskUsd = totalRiskUsd,
          rk_totalRiskPct = totalRiskPct, rk_concentration = concentration, rk_correlationRisk = correlationRisk,
          rk_positionsNearStop = positionsNearStop, rk_alerts = alerts, rk_openPositionCount = length qs\<rparr>)"

section \<open>Properties\<close>

text \<open>
  The contract sizes of the risk engine are those of the instrument catalog for gold and currency
  pairs; for every crypto symbol they are \<open>100000\<close> times too large, so the profit, the risk and the
  exposure of such a position are.
\<close>

theorem contract_sizes_against_catalog:
  "list_all (\<lambda>d. getContractSize (sd_internal d)
     = (if sd_category d = Crypto then 100000 else 1) * contractSize (sd_capabilities d)) BUILTIN_SYMBOLS"
  by code_simp

lemma btc_profit_inflated:
  "pn_unrealizedPnlUsd (computePnL \<lparr>po_userId = ''u'', po_symbol = ''BTCUSDT'', po_direction = Long, po_lotSize = 1,
     po_entryPrice = 60000, po_stopLoss = None, po_takeProfit = None, po_openedAt = 0, po_closedAt = None, po_closePrice = None,
     po_status = Pos_Open, po_notes = None\<rparr> 60001) = Some 100000"
  by (simp add: computePnL_def Let_def directed_def units_def getContractSize_def CONTRACT_SIZES_def toUpperCase_def upper_char_def)

text \<open>
  A closed position is final: once closed it keeps its closing price and time whatever closings,
  creations under other ids and settings follow, until it is deleted, and no later closing succeeds.
\<close>

datatype position_op = P_Create string string create_position_input ms | P_Close string string real "ms option" ms

fun position_step :: "position_db \<Rightarrow> position_op \<Rightarrow> position_db" where
  "position_step db (P_Create i u inp now) = fst (createPosition i u inp now db)"
| "position_step db (P_Close i u price cat now) = fst (closePosition u i price cat now db)"

fun creates_id :: "string \<Rightarrow> position_op \<Rightarrow> bool" where
  "creates_id i (P_Create j u inp now) = (j = i)"
| "creates_id i (P_Close j u price cat now) = False"

theorem closed_position_final:
  assumes "closePosition u i price cat now db = (db1, Some p)" "list_all (\<lambda>opn. \<not> creates_id i opn) ops"
  shows "let db2 = foldl position_step db1 ops in
    js_get db2 i = Some p \<and> po_closePrice p = Some price \<and> closePosition v i price2 cat2 now2 db2 = (db2, None)"
proof -
  have p: "js_get db1 i = Some p" "po_status p = Pos_Closed" "po_closePrice p = Some price"
    using assms(1) by (auto simp: closePosition_def Let_def js_get_set split: option.splits if_splits)
  have "js_get (foldl position_step db1 ops) i = Some p" using assms(2)
  proof (induction ops rule: rev_induct)
    case Nil
    then show ?case using p by simp
  next
    case (snoc opn ops)
    then have IH: "js_get (foldl position_step db1 ops) i = Some p" by simp
    show ?case
    proof (cases opn)
      case (P_Create j u inp now)
      then show ?thesis using IH snoc.prems by (auto simp: createPosition_def Let_def js_get_set)
    next
      case (P_Close j u price cat now)
      then show ?thesis using IH p(2) by (auto simp: closePosition_def Let_def js_get_set split: option.splits)
    qed
  qed
  then show ?thesis using p by (simp add: closePosition_def)
qed

definition sample_position :: position where
  "sample_position = \<lparr>po_userId = ''u'', po_symbol = ''XAUUSD'', po_direction = Long, po_lotSize = 1, po_entryPrice = 2000,
     po_stopLoss = Some 1900, po_takeProfit = None, po_openedAt = 0, po_closedAt = None, po_closePrice = None,
     po_status = Pos_Open, po_notes = None\<rparr>"

theorem closed_position_final_witness:
  "let db2 = foldl position_step [(''p'', sample_position\<lparr>po_status := Pos_Closed, po_closePrice := Some 2100, po_closedAt := Some 5\<rparr>)]
       [P_Close ''p'' ''u'' 2200 None 9]
   in js_get db2 ''p'' = Some (sample_position\<lparr>po_status := Pos_Closed, po_closePrice := Some 2100, po_closedAt := Some 5\<rparr>)
     \<and> po_closePrice (sample_position\<lparr>po_status := Pos_Closed, po_closePrice := Some 2100, po_closedAt := Some 5\<rparr>) = Some 2100
     \<and> closePosition ''u'' ''p'' 1 None 10 db2 = (db2, None)"
  by (rule closed_position_final [of "''u''" "''p''" 2100 None 5 "[(''p'', sample_position)]"])
    (simp_all add: closePosition_def sample_position_def date_or_now_def Let_def)

text \<open>
  With a stop on the losing side, the risk of a position is what it loses at the stop, and it is
  reported near its stop exactly when the price has come within a fifth of the distance from entry to
  stop, or gone beyond the stop. A stop that locks in a profit is never reported.
\<close>

theorem stop_risk_exact:
  assumes "0 < po_entryPrice p" "po_stopLoss p = Some s"
  shows "(if directed (po_direction p) s (po_entryPrice p) > 0
     then pn_unrealizedPnlUsd (computePnL p s) = map_option uminus (pn_riskUsd (computePnL p price))
       \<and> (near_stop (computePnL p price) \<noteq> []) = (directed (po_direction p) s price < directed (po_direction p) s (po_entryPrice p) / 5)
     else near_stop (computePnL p price) = [])"
proof -
  let ?D = "directed (po_direction p) s (po_entryPrice p)" and ?d = "directed (po_direction p) s price" and ?e = "po_entryPrice p"
  have sym: "directed (po_direction p) ?e s = - ?D" by (cases "po_direction p") (auto simp: directed_def)
  have near: "near_stop (computePnL p price) \<noteq> [] \<longleftrightarrow> ?D / ?e * 100 > 0 \<and> (?d / ?e * 100) / (?D / ?e * 100) * 100 < 20"
    using assms(2) by (auto simp: near_stop_def computePnL_def Let_def)
  have pos: "?D / ?e * 100 > 0 \<longleftrightarrow> ?D > 0" using assms(1) by (simp add: zero_less_divide_iff)
  show ?thesis
  proof (cases "?D > 0")
    case True
    have "(?d / ?e * 100) / (?D / ?e * 100) * 100 = ?d / ?D * 100" using assms(1) True by simp
    moreover have "?d / ?D * 100 < 20 \<longleftrightarrow> ?d < ?D / 5" using True by (simp add: field_simps)
    ultimately have "near_stop (computePnL p price) \<noteq> [] \<longleftrightarrow> ?d < ?D / 5" using near pos True by simp
    then show ?thesis using True assms(2) by (simp add: computePnL_def Let_def sym)
  next
    case False
    then show ?thesis using near pos by auto
  qed
qed

theorem stop_risk_exact_witness:
  "pn_unrealizedPnlUsd (computePnL sample_position 1900) = map_option uminus (pn_riskUsd (computePnL sample_position 1910))
     \<and> (near_stop (computePnL sample_position 1910) \<noteq> []) = ((1910 :: real) - 1900 < (2000 - 1900) / 5)"
  using stop_risk_exact [of sample_position 1900 1910] by (simp add: sample_position_def directed_def)

definition amount_sum :: "('k \<times> real) list \<Rightarrow> real" where
  "amount_sum m = sum_list (map snd m)"

lemma exposures_by_symbol:
  "js_wf m \<Longrightarrow> js_wf (foldl add_exposure m ps) \<and> amount_sum (foldl add_exposure m ps) = amount_sum m + sum_list (map exposure ps)
     \<and> (\<forall>s. (case js_get (foldl add_exposure m ps) s of None \<Rightarrow> 0 | Some x \<Rightarrow> x)
          = (case js_get m s of None \<Rightarrow> 0 | Some x \<Rightarrow> x) + sum_list (map exposure (filter (\<lambda>p. po_symbol p = s) ps)))"
proof (induction ps arbitrary: m)
  case Nil
  then show ?case by simp
next
  case (Cons p ps)
  have wf: "js_wf (add_exposure m p)" using Cons.prems by (simp add: add_exposure_def js_wf_set)
  have "amount_sum (add_exposure m p) = amount_sum m + exposure p"
    using sum_js_set [OF Cons.prems, of "id" "po_symbol p"] unfolding add_exposure_def amount_sum_def
    by (auto split: option.splits)
  moreover have "(case js_get (add_exposure m p) s of None \<Rightarrow> 0 | Some x \<Rightarrow> x)
      = (case js_get m s of None \<Rightarrow> 0 | Some x \<Rightarrow> x) + (if po_symbol p = s then exposure p else 0)" for s
    by (auto simp: add_exposure_def js_get_set split: option.splits)
  ultimately show ?case using Cons.IH [OF wf] by (auto simp: algebra_simps)
qed

lemma map_of_Some_js: "js_wf m \<Longrightarrow> (k, v) \<in> set m \<Longrightarrow> js_get m k = Some v"
  by (simp add: js_get_def js_wf_def js_keys_def map_of_eq_Some_iff)

text \<open>
  With a positive total exposure the concentration list names each symbol once, with the share of the
  exposure its positions have; the shares add up to 100 percent, come largest first, and exactly those
  above 35 percent raise an alert.
\<close>

theorem concentration_exact:
  assumes "0 < sum_list (map exposure ps)"
  shows "let cs = concentration_of ps in
     sum_list (map co_pct cs) = 100 \<and> distinct (map co_symbol cs) \<and> sorted (map (\<lambda>c. - co_pct c) cs)
     \<and> list_all (\<lambda>c. co_pct c = sum_list (map exposure (filter (\<lambda>p. po_symbol p = co_symbol c) ps)) / sum_list (map exposure ps) * 100
          \<and> co_alert c = (co_pct c > 35)) cs"
proof -
  let ?T = "sum_list (map exposure ps)"
  define m where "m = foldl add_exposure [] ps"
  define item where "item = (\<lambda>(s, x). \<lparr>co_symbol = s, co_pct = x / ?T * 100, co_alert = (x / ?T * 100 > 35)\<rparr>)"
  have cs: "concentration_of ps = sort_key (\<lambda>c. - co_pct c) (map item m)"
    using assms by (simp add: concentration_of_def Let_def m_def item_def)
  have e: "js_wf m" "amount_sum m = ?T"
    "\<And>s. (case js_get m s of None \<Rightarrow> 0 | Some x \<Rightarrow> x) = sum_list (map exposure (filter (\<lambda>p. po_symbol p = s) ps))"
    using exposures_by_symbol [of "[]" ps] by (simp_all add: m_def amount_sum_def)
  have mm: "mset (map co_pct (concentration_of ps)) = mset (map (co_pct \<circ> item) m)"
    by (simp add: cs multiset.map_comp)
  have "sum_list (map co_pct (concentration_of ps)) = sum_list (map (co_pct \<circ> item) m)"
    using arg_cong [OF mm, of sum_mset] by (simp only: sum_mset_sum_list)
  also have "map (co_pct \<circ> item) m = map (\<lambda>p. snd p / ?T * 100) m" by (auto simp: item_def)
  also have "sum_list \<dots> = amount_sum m / ?T * 100"
    unfolding amount_sum_def by (induction m) (auto simp: field_simps add_divide_distrib)
  also have "\<dots> = 100" using e(2) assms by simp
  finally have "sum_list (map co_pct (concentration_of ps)) = 100" .
  moreover have "distinct (map co_symbol (concentration_of ps))"
  proof -
    have "mset (map co_symbol (concentration_of ps)) = mset (map (co_symbol \<circ> item) m)"
      by (simp add: cs multiset.map_comp)
    moreover have "map (co_symbol \<circ> item) m = js_keys m" by (auto simp: item_def js_keys_def)
    ultimately show ?thesis using e(1) by (metis js_wf_def mset_eq_imp_distinct_iff)
  qed
  moreover have "sorted (map (\<lambda>c. - co_pct c) (concentration_of ps))" unfolding cs by (rule sorted_sort_key)
  moreover have "list_all (\<lambda>c. co_pct c = sum_list (map exposure (filter (\<lambda>p. po_symbol p = co_symbol c) ps)) / ?T * 100
      \<and> co_alert c = (co_pct c > 35)) (concentration_of ps)"
  proof -
    have "x = sum_list (map exposure (filter (\<lambda>p. po_symbol p = s) ps))" if "(s, x) \<in> set m" for s x
      using e(3) [of s] map_of_Some_js [OF e(1) that] by simp
    then show ?thesis unfolding cs by (auto simp: list_all_iff item_def)
  qed
  ultimately show ?thesis by (simp add: Let_def)
qed

theorem concentration_exact_witness:
  "let cs = concentration_of [sample_position, sample_position\<lparr>po_symbol := ''EURUSD'', po_entryPrice := 1\<rparr>] in
     sum_list (map co_pct cs) = 100 \<and> distinct (map co_symbol cs)"
  using concentration_exact [of "[sample_position, sample_position\<lparr>po_symbol := ''EURUSD'', po_entryPrice := 1\<rparr>]"]
  by (simp add: Let_def sample_position_def exposure_def units_def getContractSize_def CONTRACT_SIZES_def toUpperCase_def upper_char_def)

end
