(* ===== verification/Risk_Sizing.thy ===== *)
theory Risk_Sizing
  imports Portfolio
begin

text \<open>
  The position sizing tool, \<open>packages/ai/src/tools/compute-risk.ts\<close>, with its input schema
  (\<open>packages/shared/src/schemas/tool-outputs/compute-risk.ts\<close>). The raw input carries the fields with
  their JSON types; a rejected input is \<open>None\<close>, a thrown error \<open>Inl\<close>. The one-sentence summary, a
  rendering of the other fields, is left out.
\<close>

section \<open>The input schema\<close>

record risk_raw =
  rw_symbol :: string
  rw_side :: trade_side
  rw_entry :: real
  rw_stop :: real
  rw_target :: "real option"      \<comment> \<open>\<open>null\<close> and an absent field are the same\<close>
  rw_accountUsd :: real
  rw_riskPct :: "real option"

record risk_input =
  ri_symbol :: string
  ri_side :: trade_side
  ri_entry :: real
  ri_stop :: real
  ri_target :: "real option"
  ri_accountUsd :: real
  ri_riskPct :: real

definition usd_quoted :: "symbol_definition \<Rightarrow> bool" where
  "usd_quoted d \<longleftrightarrow> sd_quoteCurrency d = ''USD'' \<or> sd_quoteCurrency d = ''USDT''"

text \<open>\<open>None\<close> is an input that is not let through: refused with its issues or, where the last
  refinement looks up a symbol the catalogue does not know, by the error that look-up throws.\<close>

definition ComputeRiskInputSchema :: "risk_raw \<Rightarrow> risk_input option" where
  "ComputeRiskInputSchema w =
     (let riskPct = (case rw_riskPct w of None \<Rightarrow> 1 | Some p \<Rightarrow> p) in
      case SymbolSchema (rw_symbol w) of
        Inl _ \<Rightarrow> None
      | Inr symbol \<Rightarrow>
          if rw_entry w > 0 \<and> rw_stop w > 0 \<and> (case rw_target w of None \<Rightarrow> True | Some t \<Rightarrow> t > 0)
             \<and> rw_accountUsd w > 0 \<and> riskPct > 0 \<and> riskPct \<le> 10
             \<and> rw_entry w \<noteq> rw_stop w
             \<and> (case getSymbolDefinition symbol of Inl _ \<Rightarrow> False | Inr d \<Rightarrow> usd_quoted d)
          then Some \<lparr>ri_symbol = symbol, ri_side = rw_side w, ri_entry = rw_entry w, ri_stop = rw_stop w,
                     ri_target = rw_target w, ri_accountUsd = rw_accountUsd w, ri_riskPct = riskPct\<rparr>
          else None)"

section \<open>The tool\<close>

record risk_output =
  ro_symbol :: string
  ro_side :: trade_side
  ro_entry :: real
  ro_stop :: real
  ro_target :: "real option"
  ro_riskUsd :: real
  ro_rewardUsd :: "real option"
  ro_rrRatio :: "real option"
  ro_pipsToStop :: real
  ro_pipsToTarget :: "real option"
  ro_pipValueUsdPerLot :: real
  ro_distanceUnit :: symbolPriceDistanceUnit
  ro_quantityUnit :: symbolQuantityUnit
  ro_positionSizeLots :: real
  ro_positionSizeUnits :: real
  ro_invalidDirection :: bool

definition valuePerDistanceUnitFor :: "symbol_definition \<Rightarrow> real" where
  "valuePerDistanceUnitFor d =
     (if priceDistanceUnit (sd_capabilities d) = Price then real_of_int (contractSize (sd_capabilities d))
      else real_of_int (contractSize (sd_capabilities d)) * sd_pipSize d)"

definition isInvalidDirection :: "trade_side \<Rightarrow> real \<Rightarrow> real \<Rightarrow> real option \<Rightarrow> bool" where
  "isInvalidDirection side entry stop target =
     (case side of
        Long \<Rightarrow> if stop \<ge> entry then True else (case target of None \<Rightarrow> False | Some t \<Rightarrow> t \<le> entry)
      | Short \<Rightarrow> if stop \<le> entry then True else (case target of None \<Rightarrow> False | Some t \<Rightarrow> t \<ge> entry))"

definition compute_risk :: "risk_input \<Rightarrow> string + risk_output" where
  "compute_risk i =
     (case getSymbolDefinition (ri_symbol i) of
        Inl e \<Rightarrow> Inl e
      | Inr d \<Rightarrow>
          if \<not> usd_quoted d then Inl ''Risk sizing currently requires a USD- or USDT-quoted symbol''
          else
            (let entry = ri_entry i; stop = ri_stop i; target = ri_target i;
                 distanceUnit = priceDistanceUnit (sd_capabilities d);
                 distanceStep = (if distanceUnit = Price then 1 else pipSize (ri_symbol i));
                 distanceToStop = \<bar>entry - stop\<bar> / distanceStep;
                 distanceToTarget = map_option (\<lambda>t. \<bar>entry - t\<bar> / distanceStep) target;
                 valuePerDistanceUnit = valuePerDistanceUnitFor d;
                 riskUsd = ri_accountUsd i * (ri_riskPct i / 100);
                 positionSizeLots = (if distanceToStop > 0 \<and> valuePerDistanceUnit > 0
                   then riskUsd / (distanceToStop * valuePerDistanceUnit) else 0);
                 positionSizeUnits = positionSizeLots * real_of_int (contractSize (sd_capabilities d));
                 rewardUsd = map_option (\<lambda>n. n * valuePerDistanceUnit * positionSizeLots) distanceToTarget;
                 rrRatio = (case distanceToTarget of None \<Rightarrow> None
                   | Some n \<Rightarrow> if distanceToStop > 0 then Some (n / distanceToStop) else None)
             in Inr \<lparr>ro_symbol = ri_symbol i, ro_side = ri_side i, ro_entry = entry, ro_stop = stop, ro_target = target,
                  ro_riskUsd = riskUsd, ro_rewardUsd = rewardUsd, ro_rrRatio = rrRatio, ro_pipsToStop = distanceToStop,
                  ro_pipsToTarget = distanceToTarget, ro_pipValueUsdPerLot = valuePerDistanceUnit,
                  ro_distanceUnit = distanceUnit, ro_quantityUnit = quantityUnit (sd_capabilities d),
                  ro_positionSizeLots = positionSizeLots, ro_positionSizeUnits = positionSizeUnits,
                  ro_invalidDirection = isInvalidDirection (ri_side i) entry stop target\<rparr>))"

section \<open>Lemmas\<close>

text \<open>The symbols that can be sized, with the factor by which the risk engine's contract size is off.\<close>

definition contract_factor :: "symbol_definition \<Rightarrow> real" where
  "contract_factor d = (if sd_category d = Crypto then 100000 else 1)"

lemma catalog_sizes:
  assumes "d \<in> set BUILTIN_SYMBOLS"
  shows "0 < contractSize (sd_capabilities d)" "0 < sd_pipSize d"
    "real_of_int (getContractSize (sd_internal d)) = contract_factor d * real_of_int (contractSize (sd_capabilities d))"
proof -
  have "list_all (\<lambda>d. 0 < contractSize (sd_capabilities d) \<and> 0 < sd_pipSize d
      \<and> getContractSize (sd_internal d) = (if sd_category d = Crypto then 100000 else 1) * contractSize (sd_capabilities d))
      BUILTIN_SYMBOLS"
    by code_simp
  then show "0 < contractSize (sd_capabilities d)" "0 < sd_pipSize d"
    "real_of_int (getContractSize (sd_internal d)) = contract_factor d * real_of_int (contractSize (sd_capabilities d))"
    using assms by (auto simp: list_all_iff contract_factor_def)
qed

lemma schema_accepts:
  assumes "ComputeRiskInputSchema w = Some i"
  shows "SymbolSchema (rw_symbol w) = Inr (ri_symbol i)" "0 < ri_entry i" "0 < ri_stop i" "ri_entry i \<noteq> ri_stop i"
    "0 < ri_accountUsd i" "0 < ri_riskPct i" "ri_riskPct i \<le> 10" "ri_target i = rw_target w"
    "case getSymbolDefinition (ri_symbol i) of Inl _ \<Rightarrow> False | Inr d \<Rightarrow> usd_quoted d"
  using assms by (auto simp: ComputeRiskInputSchema_def Let_def split: sum.splits if_splits)

lemma schema_symbol:
  assumes "ComputeRiskInputSchema w = Some i"
  obtains d where "getSymbolDefinition (ri_symbol i) = Inr d" "d \<in> set BUILTIN_SYMBOLS" "sd_internal d = ri_symbol i"
    "js_get SYMBOL_MAP (normalizeSymbol (ri_symbol i)) = Some d" "usd_quoted d"
    "ri_entry i > 0" "ri_stop i > 0" "ri_entry i \<noteq> ri_stop i" "ri_accountUsd i > 0" "0 < ri_riskPct i" "ri_riskPct i \<le> 10"
    "ri_target i = rw_target w"
proof -
  have "normalizeSymbol (rw_symbol w) = ri_symbol i"
    using schema_accepts(1)[OF assms] by (simp add: SymbolSchema_def split: if_splits)
  then have n: "normalizeSymbol (ri_symbol i) = ri_symbol i"
    by (metis normalizeSymbol_idem)
  obtain d where d: "getSymbolDefinition (ri_symbol i) = Inr d" "usd_quoted d"
    using schema_accepts(9)[OF assms] by (auto split: sum.splits)
  then have get: "js_get SYMBOL_MAP (ri_symbol i) = Some d"
    by (simp add: getSymbolDefinition_def n Let_def split: option.splits)
  show ?thesis
    by (rule that[of d]) (use d get n schema_accepts[OF assms] in \<open>simp_all add: symbol_map_lookup\<close>)
qed

lemma isInvalidDirection_directed:
  "isInvalidDirection side e s t \<longleftrightarrow> \<not> (directed side e s < 0 \<and> (case t of None \<Rightarrow> True | Some t \<Rightarrow> 0 < directed side e t))"
  by (auto simp: isInvalidDirection_def directed_def split: trade_side.splits option.splits)

text \<open>The size in units, whatever the distance unit: the money at risk over the price distance.\<close>

lemma lots_of:
  fixes dist risk cs pip :: real
  assumes "0 < dist" "0 < cs" "0 < pip"
  shows "risk / (dist / pip * (cs * pip)) = risk / (dist * cs)" "risk / (dist * cs) * cs * dist = risk"
  using assms by (simp_all add: field_simps)

lemma compute_risk_parsed:
  assumes "ComputeRiskInputSchema w = Some i"
  obtains d r where "compute_risk i = Inr r" "getSymbolDefinition (ri_symbol i) = Inr d" "d \<in> set BUILTIN_SYMBOLS"
    "sd_internal d = ri_symbol i"
    "ro_riskUsd r = ri_accountUsd i * (ri_riskPct i / 100)"
    "ro_positionSizeLots r = ro_riskUsd r / (\<bar>ri_entry i - ri_stop i\<bar> * real_of_int (contractSize (sd_capabilities d)))"
    "ro_positionSizeUnits r = ro_riskUsd r / \<bar>ri_entry i - ri_stop i\<bar>"
    "ro_rewardUsd r = map_option (\<lambda>t. ro_positionSizeUnits r * \<bar>ri_entry i - t\<bar>) (ri_target i)"
    "ro_rrRatio r = map_option (\<lambda>t. \<bar>ri_entry i - t\<bar> / \<bar>ri_entry i - ri_stop i\<bar>) (ri_target i)"
    "0 < ro_pipsToStop r"
    "ro_invalidDirection r = isInvalidDirection (ri_side i) (ri_entry i) (ri_stop i) (ri_target i)"
    "ro_target r = ri_target i" "ro_symbol r = ri_symbol i" "ro_side r = ri_side i" "ro_entry r = ri_entry i" "ro_stop r = ri_stop i"
proof -
  obtain d where d: "getSymbolDefinition (ri_symbol i) = Inr d" "d \<in> set BUILTIN_SYMBOLS" "sd_internal d = ri_symbol i"
    "js_get SYMBOL_MAP (normalizeSymbol (ri_symbol i)) = Some d" "usd_quoted d" "ri_entry i \<noteq> ri_stop i"
    using schema_symbol[OF assms] by metis
  have pos: "0 < contractSize (sd_capabilities d)" "0 < sd_pipSize d" "0 < \<bar>ri_entry i - ri_stop i\<bar>"
    using catalog_sizes[OF d(2)] d(6) by auto
  define cs where "cs = real_of_int (contractSize (sd_capabilities d))"
  have cs: "0 < cs" using pos(1) by (simp add: cs_def)
  have pip: "pipSize (ri_symbol i) = sd_pipSize d"
    using d(4) by (simp add: pipSize_def)
  obtain r where r: "compute_risk i = Inr r"
    using d(1,5) by (simp add: compute_risk_def Let_def)
  show ?thesis
    by (rule that[of r d, OF r d(1-3)];
        use r d(1,5) pos pip cs in \<open>cases "ri_target i";
          force simp: compute_risk_def Let_def valuePerDistanceUnitFor_def cs_def[symmetric] field_simps\<close>)
qed

section \<open>Properties\<close>

definition risk_output_ok :: "risk_input \<Rightarrow> risk_output \<Rightarrow> bool" where
  "risk_output_ok i r \<longleftrightarrow>
     ro_symbol r = ri_symbol i \<and> ro_side r = ri_side i \<and> ro_entry r = ri_entry i \<and> ro_stop r = ri_stop i
     \<and> ro_target r = ri_target i \<and> 0 < ro_riskUsd r \<and> ro_riskUsd r \<le> ri_accountUsd i / 10
     \<and> 0 < ro_pipsToStop r \<and> 0 < ro_positionSizeLots r \<and> 0 < ro_positionSizeUnits r
     \<and> (ro_rewardUsd r = None \<longleftrightarrow> ri_target i = None) \<and> (ro_rrRatio r = None \<longleftrightarrow> ri_target i = None)"

text \<open>
  C38: The tool never throws on an input its schema accepts, and its answer is well formed: it echoes the
  input, the risk is positive and at most a tenth of the account, the size in lots and in units and the
  distance to the stop are positive, and reward, ratio and distance to the target are given exactly when a
  target is.
\<close>

theorem compute_risk_typed:
  assumes "ComputeRiskInputSchema w = Some i"
  shows "\<exists>r. compute_risk i = Inr r \<and> risk_output_ok i r"
proof -
  obtain d r where r: "compute_risk i = Inr r" "d \<in> set BUILTIN_SYMBOLS"
    "ro_riskUsd r = ri_accountUsd i * (ri_riskPct i / 100)"
    "ro_positionSizeLots r = ro_riskUsd r / (\<bar>ri_entry i - ri_stop i\<bar> * real_of_int (contractSize (sd_capabilities d)))"
    "ro_positionSizeUnits r = ro_riskUsd r / \<bar>ri_entry i - ri_stop i\<bar>"
    "ro_rewardUsd r = map_option (\<lambda>t. ro_positionSizeUnits r * \<bar>ri_entry i - t\<bar>) (ri_target i)"
    "ro_rrRatio r = map_option (\<lambda>t. \<bar>ri_entry i - t\<bar> / \<bar>ri_entry i - ri_stop i\<bar>) (ri_target i)"
    "0 < ro_pipsToStop r" "ro_target r = ri_target i" "ro_symbol r = ri_symbol i" "ro_side r = ri_side i"
    "ro_entry r = ri_entry i" "ro_stop r = ri_stop i"
    by (rule compute_risk_parsed[OF assms]) blast
  have i: "ri_entry i \<noteq> ri_stop i" "0 < ri_accountUsd i" "0 < ri_riskPct i" "ri_riskPct i \<le> 10"
    using schema_symbol[OF assms] by metis+
  have "ri_accountUsd i * ri_riskPct i \<le> ri_accountUsd i * 10"
    using i by (intro mult_left_mono) simp_all
  then have risk: "0 < ro_riskUsd r" "ro_riskUsd r \<le> ri_accountUsd i / 10"
    using i unfolding r(3) by simp_all
  then have "0 < ro_positionSizeLots r" "0 < ro_positionSizeUnits r"
    using i(1) catalog_sizes(1)[OF r(2)] unfolding r(4,5) by (auto intro!: divide_pos_pos)
  then show ?thesis
    using r(1,6-) risk by (simp add: risk_output_ok_def)
qed

text \<open>A raw input for the examples: one percent of ten thousand on gold, five dollars of stop.\<close>

definition sample_risk :: "string \<Rightarrow> real \<Rightarrow> real \<Rightarrow> real \<Rightarrow> risk_raw" where
  "sample_risk symbol entry stop target = \<lparr>rw_symbol = symbol, rw_side = Long, rw_entry = entry, rw_stop = stop,
     rw_target = Some target, rw_accountUsd = 10000, rw_riskPct = None\<rparr>"

lemma sample_parses:
  "ComputeRiskInputSchema (sample_risk '' xauusd'' 2000 1995 2010) = Some \<lparr>ri_symbol = ''XAUUSD'', ri_side = Long,
     ri_entry = 2000, ri_stop = 1995, ri_target = Some 2010, ri_accountUsd = 10000, ri_riskPct = 1\<rparr>"
  "ComputeRiskInputSchema (sample_risk ''btcusdt'' 2000 1995 2010) = Some \<lparr>ri_symbol = ''BTCUSDT'', ri_side = Long,
     ri_entry = 2000, ri_stop = 1995, ri_target = Some 2010, ri_accountUsd = 10000, ri_riskPct = 1\<rparr>"
proof -
  have s: "SymbolSchema '' xauusd'' = Inr ''XAUUSD''" "SymbolSchema ''btcusdt'' = Inr ''BTCUSDT''"
    "map_option usd_quoted (tryGetSymbolDefinition ''XAUUSD'') = Some True"
    "map_option usd_quoted (tryGetSymbolDefinition ''BTCUSDT'') = Some True"
    by code_simp+
  have g: "(case getSymbolDefinition s of Inl _ \<Rightarrow> False | Inr d \<Rightarrow> usd_quoted d)
      \<longleftrightarrow> map_option usd_quoted (tryGetSymbolDefinition s) = Some True" for s
    by (simp add: getSymbolDefinition_def tryGetSymbolDefinition_def Let_def split: option.splits)
  show "ComputeRiskInputSchema (sample_risk '' xauusd'' 2000 1995 2010) = Some \<lparr>ri_symbol = ''XAUUSD'', ri_side = Long,
     ri_entry = 2000, ri_stop = 1995, ri_target = Some 2010, ri_accountUsd = 10000, ri_riskPct = 1\<rparr>"
    "ComputeRiskInputSchema (sample_risk ''btcusdt'' 2000 1995 2010) = Some \<lparr>ri_symbol = ''BTCUSDT'', ri_side = Long,
     ri_entry = 2000, ri_stop = 1995, ri_target = Some 2010, ri_accountUsd = 10000, ri_riskPct = 1\<rparr>"
    by (simp_all add: ComputeRiskInputSchema_def sample_risk_def s g del: Option.map_option_eq_Some)
qed

theorem compute_risk_typed_witness:
  "\<exists>i r. ComputeRiskInputSchema (sample_risk '' xauusd'' 2000 1995 2010) = Some i \<and> compute_risk i = Inr r
    \<and> risk_output_ok i r"
  using compute_risk_typed[OF sample_parses(1)] sample_parses(1) by blast

text \<open>
  The size is exact: in units it is the risk over the price distance, so a fill at the stop moves the
  account by exactly the risk and one at the target by exactly the reward, in dollars and in the direction
  the side says precisely when \<open>invalidDirection\<close> is not raised; reward over risk is the ratio.
\<close>

theorem sized_fill_exact:
  assumes "ComputeRiskInputSchema w = Some i" "compute_risk i = Inr r" "ri_target i = Some t"
  shows "ro_positionSizeUnits r * \<bar>ri_entry i - ri_stop i\<bar> = ro_riskUsd r
    \<and> ro_rewardUsd r = Some (ro_positionSizeUnits r * \<bar>ri_entry i - t\<bar>)
    \<and> map_option (\<lambda>rr. rr * ro_riskUsd r) (ro_rrRatio r) = ro_rewardUsd r
    \<and> (\<not> ro_invalidDirection r \<longleftrightarrow>
        ro_positionSizeUnits r * directed (ri_side i) (ri_entry i) (ri_stop i) = - ro_riskUsd r
        \<and> Some (ro_positionSizeUnits r * directed (ri_side i) (ri_entry i) t) = ro_rewardUsd r \<and> t \<noteq> ri_entry i)"
proof -
  obtain d r' where r': "compute_risk i = Inr r'"
    "ro_riskUsd r' = ri_accountUsd i * (ri_riskPct i / 100)"
    "ro_positionSizeUnits r' = ro_riskUsd r' / \<bar>ri_entry i - ri_stop i\<bar>"
    "ro_rewardUsd r' = map_option (\<lambda>t. ro_positionSizeUnits r' * \<bar>ri_entry i - t\<bar>) (ri_target i)"
    "ro_rrRatio r' = map_option (\<lambda>t. \<bar>ri_entry i - t\<bar> / \<bar>ri_entry i - ri_stop i\<bar>) (ri_target i)"
    "ro_invalidDirection r' = isInvalidDirection (ri_side i) (ri_entry i) (ri_stop i) (ri_target i)"
    by (rule compute_risk_parsed[OF assms(1)]) blast
  then have r: "r' = r"
    using assms(2) by simp
  have i: "ri_entry i \<noteq> ri_stop i" "0 < ri_accountUsd i" "0 < ri_riskPct i"
    using schema_symbol[OF assms(1)] by metis+
  define u where "u = ro_positionSizeUnits r"
  have pos: "0 < ro_riskUsd r"
    using i by (simp add: r'(2)[unfolded r])
  then have u: "0 < u" "u * \<bar>ri_entry i - ri_stop i\<bar> = ro_riskUsd r"
    using i(1) r'(3) unfolding r u_def by (auto intro!: divide_pos_pos)
  have risk: "u * directed (ri_side i) (ri_entry i) (ri_stop i) = - ro_riskUsd r
      \<longleftrightarrow> directed (ri_side i) (ri_entry i) (ri_stop i) < 0"
    using u i(1) unfolding u(2)[symmetric]
    by (cases "ri_side i") (auto simp: directed_def abs_if mult_less_0_iff algebra_simps)
  have rew: "u * directed (ri_side i) (ri_entry i) t = u * \<bar>ri_entry i - t\<bar> \<and> t \<noteq> ri_entry i
      \<longleftrightarrow> 0 < directed (ri_side i) (ri_entry i) t"
    using u(1) by (cases "ri_side i") (auto simp: directed_def abs_if)
  show ?thesis
    using u risk rew r'(3-6) assms(3) unfolding r u_def isInvalidDirection_directed by auto
qed

theorem sized_fill_exact_witness:
  "\<exists>i r. compute_risk i = Inr r \<and> ri_target i = Some 2010 \<and> ro_positionSizeUnits r * 5 = ro_riskUsd r"
proof -
  obtain r where r: "compute_risk \<lparr>ri_symbol = ''XAUUSD'', ri_side = Long,
     ri_entry = 2000, ri_stop = 1995, ri_target = Some 2010, ri_accountUsd = 10000, ri_riskPct = 1\<rparr> = Inr r"
    using compute_risk_parsed[OF sample_parses(1)] by metis
  show ?thesis
    using sized_fill_exact[OF sample_parses(1) r, of 2010] r by force
qed

definition sized_position :: "risk_input \<Rightarrow> risk_output \<Rightarrow> position" where
  "sized_position i r = \<lparr>po_userId = ''u'', po_symbol = ri_symbol i, po_direction = ri_side i, po_lotSize = ro_positionSizeLots r,
     po_entryPrice = ri_entry i, po_stopLoss = Some (ri_stop i), po_takeProfit = ri_target i, po_openedAt = 0,
     po_closedAt = None, po_closePrice = None, po_status = Pos_Open, po_notes = None\<rparr>"

text \<open>
  The tool against the risk engine of the portfolio: a position opened with the lots the tool proposes is
  reported with exactly the tool's risk for gold and the dollar pairs, and with a risk 100000 times larger
  for every crypto symbol, whose contract size the engine does not know.
\<close>

theorem sized_position_risk:
  assumes "ComputeRiskInputSchema w = Some i" "compute_risk i = Inr r"
  shows "pn_riskUsd (computePnL (sized_position i r) price)
    = Some ((if symbolCategory (ri_symbol i) = Some Crypto then 100000 else 1) * ro_riskUsd r)"
proof -
  obtain d r' where r': "compute_risk i = Inr r'" "getSymbolDefinition (ri_symbol i) = Inr d" "d \<in> set BUILTIN_SYMBOLS"
    "sd_internal d = ri_symbol i"
    "ro_positionSizeLots r' = ro_riskUsd r' / (\<bar>ri_entry i - ri_stop i\<bar> * real_of_int (contractSize (sd_capabilities d)))"
    by (rule compute_risk_parsed[OF assms(1)]) blast
  have r: "r' = r"
    using assms(2) r'(1) by simp
  have ne: "\<bar>ri_entry i - ri_stop i\<bar> \<noteq> 0" "real_of_int (contractSize (sd_capabilities d)) \<noteq> 0"
    using schema_symbol[OF assms(1)] catalog_sizes(1)[OF r'(3)] by auto
  have cat: "symbolCategory (ri_symbol i) = Some (sd_category d)"
    using r'(2) by (auto simp: symbolCategory_def tryGetSymbolDefinition_def getSymbolDefinition_def Let_def split: option.splits)
  have dist: "\<bar>directed (ri_side i) (ri_stop i) (ri_entry i)\<bar> = \<bar>ri_entry i - ri_stop i\<bar>"
    by (cases "ri_side i") (simp_all add: directed_def)
  have "pn_riskUsd (computePnL (sized_position i r) price)
      = Some (\<bar>ri_entry i - ri_stop i\<bar> * (real_of_int (getContractSize (ri_symbol i)) * ro_positionSizeLots r))"
    by (simp add: computePnL_def Let_def sized_position_def units_def dist)
  also have "\<dots> = Some (contract_factor d * ro_riskUsd r)"
    using ne r'(5) catalog_sizes(3)[OF r'(3)] unfolding r r'(4) by (simp add: field_simps)
  finally show ?thesis
    by (simp add: cat contract_factor_def)
qed

theorem sized_position_risk_witness:
  "\<exists>i r. ri_symbol i = ''BTCUSDT'' \<and> compute_risk i = Inr r
    \<and> pn_riskUsd (computePnL (sized_position i r) 2001) = Some (100000 * ro_riskUsd r)"
proof -
  obtain r where r: "compute_risk \<lparr>ri_symbol = ''BTCUSDT'', ri_side = Long,
     ri_entry = 2000, ri_stop = 1995, ri_target = Some 2010, ri_accountUsd = 10000, ri_riskPct = 1\<rparr> = Inr r"
    using compute_risk_parsed[OF sample_parses(2)] by metis
  have "symbolCategory ''BTCUSDT'' = Some Crypto"
    by code_simp
  then show ?thesis
    using sized_position_risk[OF sample_parses(2) r, of 2001] r by force
qed

end
