(* ===== verification/Market_Statistics.thy ===== *)
theory Market_Statistics
  imports Indicators Calendar Js_Map
begin

text \<open>
  The statistics tools of the assistant, \<open>packages/ai/src/tools\<close>: \<open>get-correlation.ts\<close>,
  \<open>get-session-levels.ts\<close>, \<open>get-seasonality.ts\<close> and \<open>forecast-volatility.ts\<close>. The data the tools fetch
  (candles, the live price, the rows of the event calendar) are arguments, \<open>None\<close> where the fetch throws.
  Prices are positive reals, so logarithms and powers of them are defined; labels are left out where they
  render numbers.
\<close>

section \<open>get-correlation.ts\<close>

definition SYMBOLS :: "string list" where
  "SYMBOLS = [''XAUUSD'', ''EURUSD'', ''GBPUSD'']"

record symbol_returns =
  sr_closes :: "real list"
  sr_returns :: "real list"
  sr_times :: "ms list"

fun log_returns :: "real list \<Rightarrow> real list" where
  "log_returns (prev # cur # cs) =
     (if prev > 0 then ln (cur / prev) # log_returns (cur # cs) else log_returns (cur # cs))"
| "log_returns cs = []"

definition bareReturns :: "candle list \<Rightarrow> symbol_returns" where
  "bareReturns bars = \<lparr>sr_closes = map cd_c bars, sr_returns = log_returns (map cd_c bars), sr_times = map cd_t bars\<rparr>"

text \<open>The five running sums of the loop, then the quotient.\<close>

definition pearson_step :: "real \<times> real \<times> real \<times> real \<times> real \<Rightarrow> real \<times> real \<Rightarrow> real \<times> real \<times> real \<times> real \<times> real" where
  "pearson_step s p = (case s of (sx, sy, sxy, sxx, syy) \<Rightarrow> case p of (x, y) \<Rightarrow>
     (sx + x, sy + y, sxy + x * y, sxx + x * x, syy + y * y))"

definition pearson :: "real list \<Rightarrow> real list \<Rightarrow> real" where
  "pearson xs ys =
     (let n = min (length xs) (length ys) in
      if n < 2 then 0
      else case foldl pearson_step (0, 0, 0, 0, 0) (zip xs ys) of (sx, sy, sxy, sxx, syy) \<Rightarrow>
        let num = real n * sxy - sx * sy;
            denomX = real n * sxx - sx * sx;
            denomY = real n * syy - sy * sy;
            den = sqrt (denomX * denomY)
        in if den = 0 then 0 else num / den)"

definition clampUnit :: "real \<Rightarrow> real" where
  "clampUnit x = max (- 1) (min 1 x)"

definition dxy_value :: "real \<Rightarrow> real \<Rightarrow> real" where
  "dxy_value eur gbp = 100 / (eur powr 0.5 * gbp powr 0.5)"

text \<open>The scan for the closest bar keeps the first of the smallest distances.\<close>

fun closest_idx :: "ms \<Rightarrow> ms list \<Rightarrow> nat \<Rightarrow> nat \<Rightarrow> ms \<Rightarrow> nat" where
  "closest_idx target [] i bestIdx bestDiff = bestIdx"
| "closest_idx target (t # ts) i bestIdx bestDiff =
     (let d = \<bar>t - target\<bar> in
      if d < bestDiff then closest_idx target ts (Suc i) i d else closest_idx target ts (Suc i) bestIdx bestDiff)"

definition closestPrice :: "symbol_returns \<Rightarrow> ms \<Rightarrow> real option" where
  "closestPrice s target =
     (case sr_times s of
        [] \<Rightarrow> None
      | t # ts \<Rightarrow>
          let i = closest_idx target ts 1 0 \<bar>t - target\<bar>
          in if i < length (sr_closes s) then Some (sr_closes s ! i) else None)"

record dxy_proxy =
  dx_value :: real
  dx_change24h :: real
  dx_samples :: nat

definition computeDxyProxy :: "(string, symbol_returns) js_map \<Rightarrow> dxy_proxy" where
  "computeDxyProxy data =
     (case (js_get data ''EURUSD'', js_get data ''GBPUSD'') of
        (Some eur, Some gbp) \<Rightarrow>
          if sr_closes eur = [] \<or> sr_closes gbp = [] then \<lparr>dx_value = 0, dx_change24h = 0, dx_samples = 0\<rparr>
          else
            (let value = dxy_value (last (sr_closes eur)) (last (sr_closes gbp));
                 targetTime = last (sr_times eur) - 24 * 60 * 60 * 1000;
                 change24h = (case (closestPrice eur targetTime, closestPrice gbp targetTime) of
                     (Some e, Some g) \<Rightarrow> let past = dxy_value e g in if past > 0 then (value - past) / past * 100 else 0
                   | _ \<Rightarrow> 0)
             in \<lparr>dx_value = value, dx_change24h = change24h,
                 dx_samples = min (length (sr_closes eur)) (length (sr_closes gbp))\<rparr>)
      | _ \<Rightarrow> \<lparr>dx_value = 0, dx_change24h = 0, dx_samples = 0\<rparr>)"

record correlation_cell =
  cc_a :: string
  cc_b :: string
  cc_r :: real

definition correlation_cell_of :: "(string, symbol_returns) js_map \<Rightarrow> nat \<Rightarrow> string \<times> string \<Rightarrow> correlation_cell list" where
  "correlation_cell_of data windowBars p = (case p of (a, b) \<Rightarrow>
     (case (js_get data a, js_get data b) of
        (Some ra, Some rb) \<Rightarrow>
          if length (sr_returns ra) < windowBars \<or> length (sr_returns rb) < windowBars then []
          else [\<lparr>cc_a = a, cc_b = b,
                 cc_r = clampUnit (pearson (slice_last windowBars (sr_returns ra)) (slice_last windowBars (sr_returns rb)))\<rparr>]
      | _ \<Rightarrow> []))"

fun pairs_of :: "'a list \<Rightarrow> ('a \<times> 'a) list" where
  "pairs_of [] = []"
| "pairs_of (x # xs) = map (Pair x) xs @ pairs_of xs"

definition returns_by_symbol :: "(string \<Rightarrow> timeframe \<Rightarrow> nat \<Rightarrow> candle list option) \<Rightarrow> timeframe \<Rightarrow> nat
    \<Rightarrow> (string, symbol_returns) js_map" where
  "returns_by_symbol getCandles tf windowBars =
     foldl (\<lambda>m s. case getCandles s tf (windowBars + 1) of None \<Rightarrow> m | Some bars \<Rightarrow> js_set s (bareReturns bars) m) [] SYMBOLS"

definition get_correlation :: "(string \<Rightarrow> timeframe \<Rightarrow> nat \<Rightarrow> candle list option) \<Rightarrow> timeframe \<Rightarrow> nat
    \<Rightarrow> correlation_cell list \<times> dxy_proxy" where
  "get_correlation getCandles tf windowBars =
     (let data = returns_by_symbol getCandles tf windowBars
      in (concat (map (correlation_cell_of data windowBars) (pairs_of SYMBOLS)), computeDxyProxy data))"

section \<open>get-session-levels.ts\<close>

datatype session_tag = Asia | London | Ny

record session_window =
  sw_session :: session_tag
  sw_startHour :: int
  sw_endHour :: int

definition SESSIONS :: "session_window list" where
  "SESSIONS = [\<lparr>sw_session = Asia, sw_startHour = 0, sw_endHour = 7\<rparr>, \<lparr>sw_session = London, sw_startHour = 7, sw_endHour = 12\<rparr>,
     \<lparr>sw_session = Ny, sw_startHour = 12, sw_endHour = 21\<rparr>]"

record session_range =
  sg_session :: session_tag
  sg_fromMs :: ms
  sg_toMs :: ms
  sg_open :: "real option"
  sg_high :: "real option"
  sg_low :: "real option"
  sg_close :: "real option"
  sg_forming :: bool

text \<open>The extremes start at the infinities, here \<open>None\<close>.\<close>

definition raise_to :: "real option \<Rightarrow> real \<Rightarrow> real option" where
  "raise_to h x = (case h of None \<Rightarrow> Some x | Some y \<Rightarrow> if x > y then Some x else Some y)"

definition lower_to :: "real option \<Rightarrow> real \<Rightarrow> real option" where
  "lower_to l x = (case l of None \<Rightarrow> Some x | Some y \<Rightarrow> if x < y then Some x else Some y)"

definition HOUR_MS :: ms where
  "HOUR_MS = 60 * 60 * 1000"

definition DAY_MS :: ms where
  "DAY_MS = 24 * HOUR_MS"

definition sliceSession :: "candle list \<Rightarrow> ms \<Rightarrow> ms \<Rightarrow> session_window \<Rightarrow> session_range" where
  "sliceSession candles dayStart now win =
     (let fromMs = dayStart + sw_startHour win * HOUR_MS;
          toMs = dayStart + sw_endHour win * HOUR_MS;
          inWindow = filter (\<lambda>c. cd_t c \<ge> fromMs \<and> cd_t c < toMs) candles
      in if inWindow = []
         then \<lparr>sg_session = sw_session win, sg_fromMs = fromMs, sg_toMs = toMs, sg_open = None, sg_high = None,
               sg_low = None, sg_close = None, sg_forming = (now < toMs)\<rparr>
         else
           (let high = foldl (\<lambda>h c. raise_to h (cd_h c)) None inWindow;
                low = foldl (\<lambda>l c. lower_to l (cd_l c)) None inWindow;
                sessionEnded = now \<ge> toMs
            in \<lparr>sg_session = sw_session win, sg_fromMs = fromMs, sg_toMs = toMs, sg_open = Some (cd_o (hd inWindow)),
                sg_high = high, sg_low = low, sg_close = (if sessionEnded then Some (cd_c (last inWindow)) else None),
                sg_forming = (\<not> sessionEnded)\<rparr>))"

definition startOfUtcDay :: "ms \<Rightarrow> ms" where
  "startOfUtcDay t = utcDay t * DAY_MS"

record session_levels =
  sl_asOf :: ms
  sl_today :: "session_range list"
  sl_prior :: "session_range list option"
  sl_pipelinePending :: bool

definition computeSessionLevels :: "bool \<Rightarrow> candle list \<Rightarrow> ms \<Rightarrow> session_levels" where
  "computeSessionLevels includePrior candles now =
     (let startOfToday = startOfUtcDay now in
      if candles = []
      then \<lparr>sl_asOf = now, sl_today = [], sl_prior = (if includePrior then Some [] else None), sl_pipelinePending = True\<rparr>
      else \<lparr>sl_asOf = now, sl_today = map (sliceSession candles startOfToday now) SESSIONS,
            sl_prior = (if includePrior then Some (map (sliceSession candles (startOfToday - DAY_MS) now) SESSIONS) else None),
            sl_pipelinePending = False\<rparr>)"

section \<open>get-seasonality.ts\<close>

datatype granularity = Month | Weekday | Hour

record sample =
  sa_bucket :: int
  sa_pct :: real

definition bucketKey :: "ms \<Rightarrow> granularity \<Rightarrow> int" where
  "bucketKey t g =
     (case g of Month \<Rightarrow> (case civil_of_day (utcDay t) of (y, m, d) \<Rightarrow> m)
      | Weekday \<Rightarrow> getUTCDay t | Hour \<Rightarrow> getUTCHours t)"

definition keysFor :: "granularity \<Rightarrow> int list" where
  "keysFor g = (case g of Month \<Rightarrow> map (\<lambda>i. i + 1) [0..11] | Weekday \<Rightarrow> [0..6] | Hour \<Rightarrow> [0..23])"

fun closeToCloseSamples :: "granularity \<Rightarrow> candle list \<Rightarrow> sample list" where
  "closeToCloseSamples g (prev # cur # cs) =
     (if cd_c prev \<le> 0 then closeToCloseSamples g (cur # cs)
      else \<lparr>sa_bucket = bucketKey (cd_t cur) g, sa_pct = (cd_c cur - cd_c prev) / cd_c prev * 100\<rparr>
        # closeToCloseSamples g (cur # cs))"
| "closeToCloseSamples g cs = []"

text \<open>\<open>sorted[lo]\<close> and \<open>sorted[hi]\<close> are in range for \<open>0 <= q <= 1\<close>.\<close>

definition quantile :: "real list \<Rightarrow> real \<Rightarrow> real option" where
  "quantile xs q =
     (if xs = [] then None
      else
        (let idx = real (length xs - 1) * q;
             lo = nat \<lfloor>idx\<rfloor>;
             hi = nat \<lceil>idx\<rceil>
         in if lo = hi then Some (xs ! lo)
            else Some (xs ! lo + (xs ! hi - xs ! lo) * (idx - real lo))))"

record seasonality_bucket =
  sb_key :: int
  sb_count :: nat
  sb_medianReturnPct :: real
  sb_q1Pct :: real
  sb_q3Pct :: real
  sb_winRate :: real

definition nullish_zero :: "real option \<Rightarrow> real" where   \<comment> \<open>\<open>x ?? 0\<close>\<close>
  "nullish_zero x = (case x of None \<Rightarrow> 0 | Some v \<Rightarrow> v)"

definition group_add :: "(int, real list) js_map \<Rightarrow> sample \<Rightarrow> (int, real list) js_map" where
  "group_add groups s =
     (case js_get groups (sa_bucket s) of None \<Rightarrow> groups | Some arr \<Rightarrow> js_set (sa_bucket s) (arr @ [sa_pct s]) groups)"

definition bucket_stats :: "int \<times> real list \<Rightarrow> seasonality_bucket" where
  "bucket_stats e = (case e of (k, xs) \<Rightarrow>
     let ordered = sort xs;
         wins = length (filter (\<lambda>x. x > 0) xs)
     in \<lparr>sb_key = k, sb_count = length xs, sb_medianReturnPct = nullish_zero (quantile ordered 0.5),
         sb_q1Pct = nullish_zero (quantile ordered 0.25), sb_q3Pct = nullish_zero (quantile ordered 0.75),
         sb_winRate = (if xs = [] then 0 else real wins / real (length xs))\<rparr>)"

definition bucketize :: "sample list \<Rightarrow> granularity \<Rightarrow> seasonality_bucket list" where
  "bucketize samples g =
     (let groups = foldl (\<lambda>m k. js_set k [] m) [] (keysFor g)
      in map bucket_stats (foldl group_add groups samples))"

record seasonality =
  se_buckets :: "seasonality_bucket list"
  se_sampleSize :: nat
  se_thin :: bool

text \<open>\<open>None\<close> stands for the infinity the minimum starts with.\<close>

definition min_count :: "seasonality_bucket list \<Rightarrow> nat option" where
  "min_count bs = foldl (\<lambda>m b. case m of None \<Rightarrow> Some (sb_count b) | Some n \<Rightarrow> Some (min n (sb_count b))) None bs"

definition get_seasonality :: "(timeframe \<Rightarrow> nat \<Rightarrow> candle list option) \<Rightarrow> granularity \<Rightarrow> seasonality" where
  "get_seasonality getCandles g =
     (case getCandles (if g = Hour then H1 else D1) (if g = Hour then 2160 else 1100) of
        None \<Rightarrow> \<lparr>se_buckets = [], se_sampleSize = 0, se_thin = True\<rparr>
      | Some candles \<Rightarrow>
          (let samples = closeToCloseSamples g candles;
               buckets = bucketize samples g
           in \<lparr>se_buckets = buckets, se_sampleSize = length samples,
               se_thin = (case min_count buckets of None \<Rightarrow> True | Some n \<Rightarrow> n < 30)\<rparr>))"

section \<open>forecast-volatility.ts\<close>

record event_row =
  ev_title :: string
  ev_currency :: "string option"
  ev_date :: ms
  ev_importance :: string

definition currencies_of :: "string \<Rightarrow> string list" where
  "currencies_of symbol =
     (if symbol = ''XAUUSD'' then [''USD'']
      else if symbol = ''EURUSD'' then [''EUR'', ''USD'']
      else if symbol = ''GBPUSD'' then [''GBP'', ''USD'']
      else [''USD''])"

definition listHighImpactEventsInWindow :: "string list \<Rightarrow> ms \<Rightarrow> ms \<Rightarrow> event_row list \<Rightarrow> event_row list" where
  "listHighImpactEventsInWindow currencies fromMs toMs rows =
     take 10 (sort_key ev_date (filter (\<lambda>r. (case ev_currency r of None \<Rightarrow> False | Some c \<Rightarrow> c \<in> set currencies)
       \<and> fromMs \<le> ev_date r \<and> ev_date r \<le> toMs \<and> ev_importance r = ''high'') rows))"

definition lastFiniteNumber :: "real option list \<Rightarrow> real option" where
  "lastFiniteNumber vs = (case find_last (\<lambda>v. v \<noteq> None) vs of None \<Rightarrow> None | Some v \<Rightarrow> v)"

record volatility_forecast =
  vf_atrPips :: real
  vf_atrPipsBaseline30d :: "real option"
  vf_expectedMovePips :: real
  vf_expectedRange :: "(real \<times> real \<times> real) option"   \<comment> \<open>low, high, mid\<close>
  vf_eventAdjusted :: bool
  vf_eventMultiplier :: real
  vf_nextHighImpact :: "(string \<times> ms \<times> string option) option"

definition event_multiplier :: "nat \<Rightarrow> real" where
  "event_multiplier eventCount = (if eventCount \<ge> 2 then 2 else if eventCount = 1 then 1.5 else 1)"

definition forecast_volatility :: "candle list option \<Rightarrow> candle list option \<Rightarrow> event_row list \<Rightarrow> real option \<Rightarrow> ms
    \<Rightarrow> string \<Rightarrow> timeframe \<Rightarrow> int \<Rightarrow> string + volatility_forecast" where
  "forecast_volatility candles baseline rows mid now symbol tf horizonHours =
     (case candles of
        None \<Rightarrow> Inl ''getCandles''
      | Some cs \<Rightarrow>
        (let base = (case baseline of None \<Rightarrow> [] | Some b \<Rightarrow> b); pip = pipSize symbol in
         case atr cs 14 of Inl e \<Rightarrow> Inl e | Inr atrSeries \<Rightarrow>
         case (if length base \<ge> 30 then atr base 14 else Inr []) of Inl e \<Rightarrow> Inl e | Inr baselineSeries \<Rightarrow>
         let atrPips = (case lastFiniteNumber atrSeries of None \<Rightarrow> 0 | Some a \<Rightarrow> a / pip);
             events = listHighImpactEventsInWindow (currencies_of symbol) now (now + horizonHours * 60 * 60 * 1000) rows;
             eventCount = length events;
             eventMultiplier = event_multiplier eventCount;
             barsInHorizon = real_of_int (horizonHours * 60 * 60 * 1000) / real_of_int (msPerTimeframe tf);
             expectedMovePips = atrPips * sqrt (max barsInHorizon 0) * eventMultiplier
         in Inr \<lparr>vf_atrPips = atrPips, vf_atrPipsBaseline30d = map_option (\<lambda>b. b / pip) (lastFiniteNumber baselineSeries),
              vf_expectedMovePips = expectedMovePips,
              vf_expectedRange = map_option (\<lambda>m. (m - expectedMovePips * pip, m + expectedMovePips * pip, m)) mid,
              vf_eventAdjusted = (eventCount > 0), vf_eventMultiplier = eventMultiplier,
              vf_nextHighImpact = (case events of [] \<Rightarrow> None | e # _ \<Rightarrow> Some (ev_title e, ev_date e, ev_currency e))\<rparr>))"

section \<open>Correlation\<close>

text \<open>The statistical definition the running sums are compared with.\<close>

definition avg :: "real list \<Rightarrow> real" where
  "avg xs = sum_list xs / real (length xs)"

definition covar :: "(real \<times> real) list \<Rightarrow> real" where
  "covar ps = sum_list (map (\<lambda>(x, y). (x - avg (map fst ps)) * (y - avg (map snd ps))) ps)"

definition variation :: "real list \<Rightarrow> real" where
  "variation xs = sum_list (map (\<lambda>x. (x - avg xs)\<^sup>2) xs)"

lemma pearson_sums:
  "foldl pearson_step (a, b, c, d, e) ps
     = (a + sum_list (map fst ps), b + sum_list (map snd ps), c + sum_list (map (\<lambda>(x, y). x * y) ps),
        d + sum_list (map (\<lambda>(x, y). x * x) ps), e + sum_list (map (\<lambda>(x, y). y * y) ps))"
  by (induction ps arbitrary: a b c d e) (auto simp: pearson_step_def)

lemma centred_sum:
  fixes f g :: "'a \<Rightarrow> real"
  shows "sum_list (map (\<lambda>p. (f p - m) * (g p - k)) ps)
    = sum_list (map (\<lambda>p. f p * g p) ps) - k * sum_list (map f ps) - m * sum_list (map g ps) + real (length ps) * m * k"
  by (induction ps) (simp_all add: algebra_simps)

lemma product_moment:
  fixes f g :: "'a \<Rightarrow> real"
  assumes "ps \<noteq> []"
  shows "real (length ps) * sum_list (map (\<lambda>p. f p * g p) ps) - sum_list (map f ps) * sum_list (map g ps)
    = real (length ps) * sum_list (map (\<lambda>p. (f p - avg (map f ps)) * (g p - avg (map g ps))) ps)"
  using assms unfolding centred_sum avg_def by (simp add: field_simps)

lemma sum_squares_nonneg: "0 \<le> sum_list (map (\<lambda>p. (h p)\<^sup>2) ps)" for h :: "'a \<Rightarrow> real"
  by (induction ps) auto

text \<open>Cauchy and Schwarz for sums over a list: the square of the combination that isolates \<open>f\<close> is not negative.\<close>

lemma cauchy_schwarz_list:
  fixes f g :: "'a \<Rightarrow> real"
  shows "(sum_list (map (\<lambda>p. f p * g p) ps))\<^sup>2
    \<le> sum_list (map (\<lambda>p. (f p)\<^sup>2) ps) * sum_list (map (\<lambda>p. (g p)\<^sup>2) ps)"
proof -
  define A B C where "A = sum_list (map (\<lambda>p. (f p)\<^sup>2) ps)" "B = sum_list (map (\<lambda>p. (g p)\<^sup>2) ps)"
    "C = sum_list (map (\<lambda>p. f p * g p) ps)"
  have comb: "sum_list (map (\<lambda>p. (f p * b - g p * c)\<^sup>2) ps) = A * b\<^sup>2 - 2 * b * c * C + B * c\<^sup>2" for b c
    unfolding A_B_C_def by (induction ps) (simp_all add: algebra_simps power2_eq_square)
  have "0 \<le> sum_list (map (\<lambda>p. (f p * B - g p * C)\<^sup>2) ps)"
    by (rule sum_squares_nonneg)
  then have key: "0 \<le> B * (A * B - C\<^sup>2)"
    unfolding comb by (simp add: algebra_simps power2_eq_square)
  show ?thesis
  proof (cases "B = 0")
    case True
    then have "list_all (\<lambda>p. g p = 0) ps"
      unfolding A_B_C_def(2) by (induction ps) (auto simp: add_nonneg_eq_0_iff sum_squares_nonneg)
    then have "C = 0"
      unfolding A_B_C_def(3) by (induction ps) auto
    then show ?thesis
      using True by (simp add: A_B_C_def)
  next
    case False
    moreover have "0 \<le> B"
      unfolding A_B_C_def by (rule sum_squares_nonneg)
    ultimately show ?thesis
      using key by (simp add: A_B_C_def zero_le_mult_iff)
  qed
qed

lemma zip_sums:
  assumes "length xs = length ys"
  shows "sum_list (map (\<lambda>p. h (fst p)) (zip xs ys)) = sum_list (map h xs)"
    "sum_list (map (\<lambda>p. h (snd p)) (zip xs ys)) = sum_list (map h ys)"
  using assms by (induction xs ys rule: list_induct2) simp_all

lemma pearson_alt:
  assumes "length xs = length ys" "2 \<le> length xs"
  shows "pearson xs ys = (if variation xs * variation ys = 0 then 0
    else covar (zip xs ys) / sqrt (variation xs * variation ys))"
proof -
  let ?ps = "zip xs ys" and ?n = "real (length xs)"
  have ps: "?ps \<noteq> []" "map fst ?ps = xs" "map snd ?ps = ys" "length ?ps = length xs"
    using assms by (cases xs; cases ys; auto)+
  have ne: "xs \<noteq> []" "ys \<noteq> []"
    using assms by (cases xs; cases ys; simp)+
  have n: "0 < ?n"
    using ne by simp
  have xy: "?n * sum_list (map (\<lambda>(x, y). x * y) ?ps) - sum_list xs * sum_list ys = ?n * covar ?ps"
    using product_moment[OF ps(1), of fst snd] ps by (simp add: covar_def case_prod_unfold)
  have xx: "?n * sum_list (map (\<lambda>(x, y). x * x) ?ps) - sum_list xs * sum_list xs = ?n * variation xs"
    using product_moment[OF ne(1), of "\<lambda>x. x" "\<lambda>x. x"] zip_sums(1)[OF assms(1), of "\<lambda>x. x * x"]
    by (simp add: variation_def case_prod_unfold power2_eq_square)
  have yy: "?n * sum_list (map (\<lambda>(x, y). y * y) ?ps) - sum_list ys * sum_list ys = ?n * variation ys"
    using product_moment[OF ne(2), of "\<lambda>x. x" "\<lambda>x. x"] zip_sums(2)[OF assms(1), of "\<lambda>x. x * x"] assms(1)
    by (simp add: variation_def case_prod_unfold power2_eq_square)
  have den: "sqrt (?n * variation xs * (?n * variation ys)) = ?n * sqrt (variation xs * variation ys)"
    using n by (simp add: real_sqrt_mult)
  have "pearson xs ys = (let den = sqrt ((?n * sum_list (map (\<lambda>(x, y). x * x) ?ps) - sum_list xs * sum_list xs)
        * (?n * sum_list (map (\<lambda>(x, y). y * y) ?ps) - sum_list ys * sum_list ys))
      in if den = 0 then 0 else (?n * sum_list (map (\<lambda>(x, y). x * y) ?ps) - sum_list xs * sum_list ys) / den)"
    using assms ps(2,3) by (simp add: pearson_def pearson_sums Let_def)
  then show ?thesis
    unfolding xy xx yy den Let_def using n by simp
qed

lemma covar_bound:
  assumes "length xs = length ys"
  shows "(covar (zip xs ys))\<^sup>2 \<le> variation xs * variation ys"
proof -
  have m: "map fst (zip xs ys) = xs" "map snd (zip xs ys) = ys"
    using assms by simp_all
  show ?thesis
    using cauchy_schwarz_list[of "\<lambda>p. fst p - avg xs" "\<lambda>p. snd p - avg ys" "zip xs ys"]
    by (simp add: covar_def variation_def case_prod_unfold m zip_sums[OF assms, of "\<lambda>x. (x - k)\<^sup>2" for k])
qed

lemma pearson_unit:
  assumes "length xs = length ys" "2 \<le> length xs"
  shows "- 1 \<le> pearson xs ys \<and> pearson xs ys \<le> 1"
proof (cases "variation xs * variation ys = 0")
  case False
  have "0 \<le> variation xs" "0 \<le> variation ys"
    by (simp_all add: variation_def sum_squares_nonneg)
  then have pos: "0 < variation xs * variation ys"
    using False by (metis less_eq_real_def mult_nonneg_nonneg)
  have "\<bar>covar (zip xs ys)\<bar> \<le> sqrt (variation xs * variation ys)"
    by (rule real_le_rsqrt) (use covar_bound[OF assms(1)] in simp)
  moreover have root: "0 < sqrt (variation xs * variation ys)"
    using pos by simp
  ultimately have "\<bar>covar (zip xs ys) / sqrt (variation xs * variation ys)\<bar> \<le> 1"
    unfolding abs_divide abs_of_pos[OF root] by (simp add: divide_le_eq)
  then show ?thesis
    using False unfolding pearson_alt[OF assms] abs_le_iff by simp
qed (simp add: pearson_alt[OF assms])

lemma covar_sym: "covar (zip xs ys) = covar (zip ys xs)"
proof -
  have swap: "map f (zip xs ys) = map (\<lambda>p. f (snd p, fst p)) (zip ys xs)" for f :: "real \<times> real \<Rightarrow> real"
    by (induction xs ys rule: list_induct2') auto
  show ?thesis
    unfolding covar_def swap by (simp add: case_prod_unfold mult.commute comp_def)
qed

lemma pearson_sym: "pearson xs ys = pearson ys xs" if "length xs = length ys"
proof (cases "2 \<le> length xs")
  case True
  then show ?thesis
    using that pearson_alt[of xs ys] pearson_alt[of ys xs] by (simp add: covar_sym[of xs ys] mult.commute)
next
  case False
  then show ?thesis
    using that by (simp add: pearson_def Let_def)
qed

lemma js_get_returns:
  "js_get (returns_by_symbol getCandles tf w) s
     = (if s \<in> set SYMBOLS then map_option bareReturns (getCandles s tf (w + 1)) else None)"
  by (simp add: returns_by_symbol_def SYMBOLS_def map_laws split: option.splits)

text \<open>
  Every cell of the correlation matrix pairs two different instruments of the trio and carries the
  correlation coefficient of their last returns in the statistical sense (covariance over the root of the
  product of the variations, 0 for a constant series); it lies between -1 and 1 without the clamp, and
  exchanging the two instruments does not change it.
\<close>

theorem correlation_matrix_exact:
  "let data = returns_by_symbol getCandles tf w in
   list_all (\<lambda>c. case (js_get data (cc_a c), js_get data (cc_b c)) of
       (Some ra, Some rb) \<Rightarrow>
         let xs = slice_last w (sr_returns ra); ys = slice_last w (sr_returns rb) in
         cc_a c \<noteq> cc_b c \<and> length xs = w \<and> length ys = w \<and> - 1 \<le> cc_r c \<and> cc_r c \<le> 1
         \<and> cc_r c = (if w < 2 \<or> variation xs * variation ys = 0 then 0
                      else covar (zip xs ys) / sqrt (variation xs * variation ys))
         \<and> cc_r c = pearson ys xs
     | _ \<Rightarrow> False) (fst (get_correlation getCandles tf w))"
proof -
  have cell: "cc_a c \<noteq> cc_b c \<and> (case (js_get data (cc_a c), js_get data (cc_b c)) of
       (Some ra, Some rb) \<Rightarrow>
         let xs = slice_last w (sr_returns ra); ys = slice_last w (sr_returns rb) in
         length xs = w \<and> length ys = w \<and> cc_r c = clampUnit (pearson xs ys)
     | _ \<Rightarrow> False)" if "p \<in> set (pairs_of SYMBOLS)" "c \<in> set (correlation_cell_of data w p)" for data p c
  proof -
    have "fst p \<noteq> snd p"
      using that(1) by (auto simp: SYMBOLS_def)
    then obtain a b where p: "p = (a, b)" "a \<noteq> b"
      by (cases p) simp
    show ?thesis
      using that(2) p by (cases "js_get data a"; cases "js_get data b")
        (auto simp: correlation_cell_of_def Let_def min_def split: if_splits)
  qed
  have clamp: "pearson xs ys = clampUnit (pearson xs ys) \<and> - 1 \<le> pearson xs ys \<and> pearson xs ys \<le> 1
      \<and> pearson xs ys = (if w < 2 \<or> variation xs * variation ys = 0 then 0
          else covar (zip xs ys) / sqrt (variation xs * variation ys))"
    if "length xs = w" "length ys = w" for xs ys
  proof (cases "2 \<le> w")
    case True
    then show ?thesis
      using pearson_unit[of xs ys] pearson_alt[of xs ys] that by (auto simp: clampUnit_def)
  next
    case False
    then show ?thesis
      using that by (simp add: pearson_def clampUnit_def Let_def)
  qed
  have "case (js_get data (cc_a c), js_get data (cc_b c)) of
       (Some ra, Some rb) \<Rightarrow>
         let xs = slice_last w (sr_returns ra); ys = slice_last w (sr_returns rb) in
         cc_a c \<noteq> cc_b c \<and> length xs = w \<and> length ys = w \<and> - 1 \<le> cc_r c \<and> cc_r c \<le> 1
         \<and> cc_r c = (if w < 2 \<or> variation xs * variation ys = 0 then 0
                      else covar (zip xs ys) / sqrt (variation xs * variation ys))
         \<and> cc_r c = pearson ys xs
     | _ \<Rightarrow> False" if "p \<in> set (pairs_of SYMBOLS)" "c \<in> set (correlation_cell_of data w p)" for data p c
  proof -
    note here = cell[OF that]
    obtain ra rb where r: "js_get data (cc_a c) = Some ra" "js_get data (cc_b c) = Some rb"
      using here by (cases "js_get data (cc_a c)"; cases "js_get data (cc_b c)") auto
    let ?xs = "slice_last w (sr_returns ra)" and ?ys = "slice_last w (sr_returns rb)"
    have l: "length ?xs = w" "length ?ys = w" "cc_r c = clampUnit (pearson ?xs ?ys)" "cc_a c \<noteq> cc_b c"
      using here r by (simp_all add: Let_def)
    note cl = clamp[OF l(1,2)]
    have rc: "cc_r c = pearson ?xs ?ys"
      unfolding l(3) by (rule cl[THEN conjunct1, symmetric])
    have sy: "cc_r c = pearson ?ys ?xs"
      unfolding rc by (rule pearson_sym) (simp only: l)
    show ?thesis
      unfolding r Let_def option.case prod.case
      using l(1,2,4) sy cl[folded rc] by blast
  qed
  then show ?thesis
    unfolding get_correlation_def Let_def list_all_iff by auto
qed

lemma closest_idx_scan:
  assumes "ts = pre @ rest" "best < length pre" "diff = \<bar>ts ! best - target\<bar>"
    "\<forall>j<length pre. diff \<le> \<bar>ts ! j - target\<bar>" "\<forall>j<best. diff < \<bar>ts ! j - target\<bar>"
  shows "let k = closest_idx target rest (length pre) best diff in
    k < length ts \<and> (\<forall>j<length ts. \<bar>ts ! k - target\<bar> \<le> \<bar>ts ! j - target\<bar>)
    \<and> (\<forall>j<k. \<bar>ts ! k - target\<bar> < \<bar>ts ! j - target\<bar>)"
  using assms
proof (induction rest arbitrary: pre best diff)
  case Nil
  then show ?case by (simp add: Let_def)
next
  case (Cons t rest)
  have ts: "ts = (pre @ [t]) @ rest" "ts ! length pre = t"
    using Cons.prems(1) by simp_all
  have le: "j < length (pre @ [t]) \<longleftrightarrow> j < length pre \<or> j = length pre" for j
    by auto
  show ?case
  proof (cases "\<bar>t - target\<bar> < diff")
    case True
    have "let k = closest_idx target rest (length (pre @ [t])) (length pre) \<bar>t - target\<bar> in
      k < length ts \<and> (\<forall>j<length ts. \<bar>ts ! k - target\<bar> \<le> \<bar>ts ! j - target\<bar>)
      \<and> (\<forall>j<k. \<bar>ts ! k - target\<bar> < \<bar>ts ! j - target\<bar>)"
      by (rule Cons.IH[OF ts(1)]) (use True Cons.prems ts(2) le in \<open>force+\<close>)
    then show ?thesis
      using True by simp
  next
    case False
    have "let k = closest_idx target rest (length (pre @ [t])) best diff in
      k < length ts \<and> (\<forall>j<length ts. \<bar>ts ! k - target\<bar> \<le> \<bar>ts ! j - target\<bar>)
      \<and> (\<forall>j<k. \<bar>ts ! k - target\<bar> < \<bar>ts ! j - target\<bar>)"
      by (rule Cons.IH[OF ts(1)]) (use False Cons.prems ts(2) le in \<open>force+\<close>)
    then show ?thesis
      using False by simp
  qed
qed

text \<open>
  The reference bar of the day's change is a closest one: no other bar of the series is nearer to the
  target time, and every earlier bar is strictly farther away.
\<close>

theorem closest_price_exact:
  "case sr_times (bareReturns bars) of [] \<Rightarrow> closestPrice (bareReturns bars) target = None
   | _ \<Rightarrow> (\<exists>k<length bars. closestPrice (bareReturns bars) target = Some (cd_c (bars ! k))
        \<and> list_all (\<lambda>b. \<bar>cd_t (bars ! k) - target\<bar> \<le> \<bar>cd_t b - target\<bar>) bars
        \<and> list_all (\<lambda>b. \<bar>cd_t (bars ! k) - target\<bar> < \<bar>cd_t b - target\<bar>) (take k bars))"
proof (cases bars)
  case Nil
  then show ?thesis by (simp add: bareReturns_def closestPrice_def)
next
  case (Cons b bs)
  let ?ts = "map cd_t bars"
  define k where "k = closest_idx target (map cd_t bs) (length [cd_t b]) 0 \<bar>cd_t b - target\<bar>"
  have "let k = closest_idx target (map cd_t bs) (length [cd_t b]) 0 \<bar>cd_t b - target\<bar> in
    k < length ?ts \<and> (\<forall>j<length ?ts. \<bar>?ts ! k - target\<bar> \<le> \<bar>?ts ! j - target\<bar>)
    \<and> (\<forall>j<k. \<bar>?ts ! k - target\<bar> < \<bar>?ts ! j - target\<bar>)"
    by (rule closest_idx_scan) (use Cons in simp_all)
  then have scan: "k < length ?ts \<and> (\<forall>j<length ?ts. \<bar>?ts ! k - target\<bar> \<le> \<bar>?ts ! j - target\<bar>)
    \<and> (\<forall>j<k. \<bar>?ts ! k - target\<bar> < \<bar>?ts ! j - target\<bar>)"
    unfolding Let_def k_def .
  then have k: "k < length bars"
    by simp
  have near: "\<bar>cd_t (bars ! k) - target\<bar> \<le> \<bar>cd_t (bars ! j) - target\<bar>" if "j < length bars" for j
    using scan k that by auto
  have first: "\<bar>cd_t (bars ! k) - target\<bar> < \<bar>cd_t (bars ! j) - target\<bar>" if "j < k" for j
    using scan k that by auto
  have "closestPrice (bareReturns bars) target = Some (cd_c (bars ! k))"
    using k Cons by (auto simp: bareReturns_def closestPrice_def k_def Let_def nth_Cons' split: if_splits)
  moreover have "list_all (\<lambda>b. \<bar>cd_t (bars ! k) - target\<bar> \<le> \<bar>cd_t b - target\<bar>) bars"
    using near by (auto simp: list_all_length)
  moreover have "list_all (\<lambda>b. \<bar>cd_t (bars ! k) - target\<bar> < \<bar>cd_t b - target\<bar>) (take k bars)"
    using first k by (auto simp: list_all_length)
  ultimately show ?thesis
    using k Cons by (auto simp: bareReturns_def)
qed

section \<open>Session levels\<close>

lemma foldl_raise: "foldl (\<lambda>h c. raise_to h (f c)) (Some y) cs = Some (Max (insert y (f ` set cs)))"
proof (induction cs arbitrary: y)
  case (Cons c cs)
  have "raise_to (Some y) (f c) = Some (max y (f c))"
    by (simp add: raise_to_def max_def)
  then show ?case
    using Cons[of "max y (f c)"] by (simp add: Max_insert2 insert_commute max.assoc max.commute max.left_commute flip: Max.insert_not_elem)
       (cases "cs = []"; simp add: Max.insert max.assoc max.commute max.left_commute)
qed simp

lemma foldl_lower: "foldl (\<lambda>l c. lower_to l (f c)) (Some y) cs = Some (Min (insert y (f ` set cs)))"
proof (induction cs arbitrary: y)
  case (Cons c cs)
  have "lower_to (Some y) (f c) = Some (min y (f c))"
    by (simp add: lower_to_def min_def)
  then show ?case
    using Cons[of "min y (f c)"]
    by (cases "cs = []") (simp_all add: Min.insert min.assoc min.commute min.left_commute)
qed simp

lemma session_extremes:
  assumes "cs \<noteq> []"
  shows "foldl (\<lambda>h c. raise_to h (cd_h c)) None cs = Some (Max (cd_h ` set cs))"
    "foldl (\<lambda>l c. lower_to l (cd_l c)) None cs = Some (Min (cd_l ` set cs))"
proof -
  obtain c cs' where "cs = c # cs'"
    using assms by (cases cs) auto
  then show "foldl (\<lambda>h c. raise_to h (cd_h c)) None cs = Some (Max (cd_h ` set cs))"
    "foldl (\<lambda>l c. lower_to l (cd_l c)) None cs = Some (Min (cd_l ` set cs))"
    using foldl_raise[of cd_h "cd_h c" cs'] foldl_lower[of cd_l "cd_l c" cs']
    by (simp_all add: raise_to_def lower_to_def)
qed

lemma hour_of_day: "startOfUtcDay t + k * HOUR_MS \<le> t \<longleftrightarrow> k \<le> getUTCHours t"
proof -
  have h: "getUTCHours t = (t mod 86400000) div 3600000"
    unfolding getUTCHours_def using zmod_zmult2_eq[of 24 t 3600000] by simp
  have s: "startOfUtcDay t = t - t mod 86400000"
    by (simp add: startOfUtcDay_def utcDay_def DAY_MS_def HOUR_MS_def minus_mod_eq_div_mult)
  have "k * 3600000 \<le> m \<longleftrightarrow> k \<le> m div 3600000" for m :: int
    using div_mult_mod_eq[of m 3600000] pos_mod_bound[of 3600000 m] pos_mod_sign[of 3600000 m] by linarith
  then show ?thesis
    unfolding h s by (simp add: HOUR_MS_def)
qed

text \<open>
  The levels of a session are exact: the range runs between the two hours, the bars counted are those
  that open inside it, open and close are the first and last of them, high and low the extremes; the close
  stays blank while the session forms, and a session without bars is blank. A bar of the day opening before
  21:00 counts for exactly one session, a later one for none.
\<close>

theorem session_levels_exact:
  "let r = sliceSession cs day now w;
       bars = filter (\<lambda>c. sg_fromMs r \<le> cd_t c \<and> cd_t c < sg_toMs r) cs
   in sg_fromMs r = day + sw_startHour w * HOUR_MS \<and> sg_toMs r = day + sw_endHour w * HOUR_MS
      \<and> sg_forming r = (now < sg_toMs r)
      \<and> (if bars = [] then sg_open r = None \<and> sg_high r = None \<and> sg_low r = None \<and> sg_close r = None
         else sg_open r = Some (cd_o (hd bars)) \<and> sg_high r = Some (Max (cd_h ` set bars))
            \<and> sg_low r = Some (Min (cd_l ` set bars))
            \<and> sg_close r = (if sg_forming r then None else Some (cd_c (last bars))))
      \<and> length (filter (\<lambda>w. let r = sliceSession cs (startOfUtcDay t) now w in sg_fromMs r \<le> t \<and> t < sg_toMs r) SESSIONS)
          = (if getUTCHours t < 21 then 1 else 0)"
proof -
  have range: "sg_fromMs (sliceSession cs d now w) = d + sw_startHour w * HOUR_MS"
    "sg_toMs (sliceSession cs d now w) = d + sw_endHour w * HOUR_MS" for d w
    by (simp_all add: sliceSession_def Let_def)
  have lt: "t < startOfUtcDay t + k * HOUR_MS \<longleftrightarrow> getUTCHours t < k" for k
    using hour_of_day[of t k] by linarith
  have "0 \<le> getUTCHours t"
    by (simp add: getUTCHours_def)
  then have "length (filter (\<lambda>w. let r = sliceSession cs (startOfUtcDay t) now w in sg_fromMs r \<le> t \<and> t < sg_toMs r) SESSIONS)
      = (if getUTCHours t < 21 then 1 else 0)"
    unfolding Let_def range hour_of_day lt by (simp add: SESSIONS_def)
  moreover have "let bars = filter (\<lambda>c. day + sw_startHour w * HOUR_MS \<le> cd_t c \<and> cd_t c < day + sw_endHour w * HOUR_MS) cs;
      r = sliceSession cs day now w in
      sg_forming r = (now < day + sw_endHour w * HOUR_MS)
      \<and> (if bars = [] then sg_open r = None \<and> sg_high r = None \<and> sg_low r = None \<and> sg_close r = None
         else sg_open r = Some (cd_o (hd bars)) \<and> sg_high r = Some (Max (cd_h ` set bars))
            \<and> sg_low r = Some (Min (cd_l ` set bars))
            \<and> sg_close r = (if sg_forming r then None else Some (cd_c (last bars))))"
    unfolding sliceSession_def Let_def by (simp add: not_less session_extremes del: set_filter)
  ultimately show ?thesis
    unfolding Let_def range by blast
qed

section \<open>Seasonality\<close>

lemma quantile_value:
  assumes "xs \<noteq> []" "0 \<le> q" "q \<le> 1"
  defines "x \<equiv> real (length xs - 1) * q"
  shows "quantile xs q = Some (xs ! nat \<lfloor>x\<rfloor> + (xs ! nat \<lceil>x\<rceil> - xs ! nat \<lfloor>x\<rfloor>) * (x - real (nat \<lfloor>x\<rfloor>)))"
    "nat \<lfloor>x\<rfloor> \<le> nat \<lceil>x\<rceil>" "nat \<lceil>x\<rceil> \<le> Suc (nat \<lfloor>x\<rfloor>)" "nat \<lceil>x\<rceil> < length xs"
    "0 \<le> x - real (nat \<lfloor>x\<rfloor>)" "x - real (nat \<lfloor>x\<rfloor>) \<le> 1"
proof -
  have x: "0 \<le> x" "x \<le> real (length xs - 1)"
    using assms(2,3) by (simp_all add: x_def mult_left_le)
  show "quantile xs q = Some (xs ! nat \<lfloor>x\<rfloor> + (xs ! nat \<lceil>x\<rceil> - xs ! nat \<lfloor>x\<rfloor>) * (x - real (nat \<lfloor>x\<rfloor>)))"
    using assms(1) by (simp add: quantile_def Let_def x_def)
  show "nat \<lfloor>x\<rfloor> \<le> nat \<lceil>x\<rceil>" "nat \<lceil>x\<rceil> \<le> Suc (nat \<lfloor>x\<rfloor>)"
    by linarith+
  have "nat \<lceil>x\<rceil> \<le> length xs - 1"
    using x(2) by linarith
  moreover have "0 < length xs"
    using assms(1) by simp
  ultimately show "nat \<lceil>x\<rceil> < length xs"
    by linarith
  show "0 \<le> x - real (nat \<lfloor>x\<rfloor>)" "x - real (nat \<lfloor>x\<rfloor>) \<le> 1"
    using x(1) by linarith+
qed

lemma interpolate_between:
  fixes a b f :: real
  assumes "a \<le> b" "0 \<le> f" "f \<le> 1"
  shows "a \<le> a + (b - a) * f \<and> a + (b - a) * f \<le> b"
  using assms mult_left_mono[of f 1 "b - a"] by simp

text \<open>A quantile lies between the neighbours of its position, and quantiles grow with the fraction.\<close>

lemma quantile_mono:
  assumes xs: "sorted xs" "xs \<noteq> []" and q: "0 \<le> q" "q \<le> r" "r \<le> 1"
  shows "\<exists>v w. quantile xs q = Some v \<and> quantile xs r = Some w \<and> hd xs \<le> v \<and> v \<le> w \<and> w \<le> last xs"
proof -
  define x y where "x = real (length xs - 1) * q" "y = real (length xs - 1) * r"
  define f where "f z = xs ! nat \<lfloor>z\<rfloor> + (xs ! nat \<lceil>z\<rceil> - xs ! nat \<lfloor>z\<rfloor>) * (z - real (nat \<lfloor>z\<rfloor>))" for z
  note vx = quantile_value[OF xs(2) q(1) order_trans[OF q(2,3)], folded x_y_def]
  note vy = quantile_value[OF xs(2) order_trans[OF q(1,2)] q(3), folded x_y_def]
  have xy: "x \<le> y"
    using q by (simp add: x_y_def mult_left_mono)
  have fx: "xs ! nat \<lfloor>x\<rfloor> \<le> f x \<and> f x \<le> xs ! nat \<lceil>x\<rceil>"
    unfolding f_def by (rule interpolate_between) (use vx xs(1) in \<open>auto intro: sorted_nth_mono\<close>)
  have fy: "xs ! nat \<lfloor>y\<rfloor> \<le> f y \<and> f y \<le> xs ! nat \<lceil>y\<rceil>"
    unfolding f_def by (rule interpolate_between) (use vy xs(1) in \<open>auto intro: sorted_nth_mono\<close>)
  have "f x \<le> f y"
  proof (cases "nat \<lfloor>x\<rfloor> = nat \<lfloor>y\<rfloor>")
    case True
    show ?thesis
    proof (cases "nat \<lceil>x\<rceil> = nat \<lceil>y\<rceil>")
      case same: True
      have "xs ! nat \<lfloor>y\<rfloor> \<le> xs ! nat \<lceil>y\<rceil>"
        using vy xs(1) by (auto intro: sorted_nth_mono)
      then show ?thesis
        unfolding f_def True same using xy by (simp add: mult_left_mono)
    next
      case False
      then have "nat \<lceil>x\<rceil> = nat \<lfloor>x\<rfloor>"
        using True vx(2,3) vy(2,3) xy by linarith
      then show ?thesis
        using fx fy True by simp
    qed
  next
    case False
    then have "nat \<lceil>x\<rceil> \<le> nat \<lfloor>y\<rfloor>"
      using vx(3) xy by linarith
    then have "xs ! nat \<lceil>x\<rceil> \<le> xs ! nat \<lfloor>y\<rfloor>"
      using vy xs(1) by (auto intro: sorted_nth_mono)
    then show ?thesis
      using fx fy by linarith
  qed
  moreover have "hd xs \<le> f x"
    using fx sorted_nth_mono[OF xs(1), of 0 "nat \<lfloor>x\<rfloor>"] vx(2,4) xs(2) by (simp add: hd_conv_nth)
  moreover have "f y \<le> last xs"
  proof -
    have "nat \<lceil>y\<rceil> \<le> length xs - 1" "length xs - 1 < length xs"
      using vy(4) by linarith+
    then have "xs ! nat \<lceil>y\<rceil> \<le> xs ! (length xs - 1)"
      by (rule sorted_nth_mono[OF xs(1)])
    then show ?thesis
      unfolding last_conv_nth[OF xs(2)] using fy by linarith
  qed
  ultimately show ?thesis
    using vx(1) vy(1) unfolding f_def by auto
qed

lemma bucketKey_in_keys: "bucketKey t g \<in> set (keysFor g)"
proof (cases g)
  case Month
  obtain y m d where c: "civil_of_day (utcDay t) = (y, m, d)"
    by (cases "civil_of_day (utcDay t)") auto
  then have "m - 1 \<in> set [0..11]"
    using civil_month_range[OF c] by simp
  then have "m \<in> set (map (\<lambda>i. i + 1) [0..11])"
    by (auto simp: image_iff intro!: bexI[of _ "m - 1"])
  then show ?thesis
    using c Month by (simp add: bucketKey_def keysFor_def)
qed (auto simp: bucketKey_def keysFor_def getUTCDay_def getUTCHours_def simp del: upto_rec_numeral)

lemma distinct_keysFor: "distinct (keysFor g)"
  by (cases g) (simp_all add: keysFor_def distinct_map inj_on_def del: upto_rec_numeral)

lemma js_set_map_keys:
  "k \<in> set ks \<Longrightarrow> distinct ks \<Longrightarrow> js_set k v (map (\<lambda>x. (x, f x)) ks) = map (\<lambda>x. (x, (f(k := v)) x)) ks"
  by (induction ks) auto

lemma js_set_new_keys:
  "distinct (ks @ ks') \<Longrightarrow> foldl (\<lambda>m k. js_set k ([] :: real list) m) (map (\<lambda>x. (x, [])) ks) ks' = map (\<lambda>x. (x, [])) (ks @ ks')"
proof (induction ks' arbitrary: ks)
  case (Cons k ks')
  have "js_set k ([] :: real list) (map (\<lambda>x. (x, [])) ks) = map (\<lambda>x. (x, [])) (ks @ [k])"
    using Cons.prems by (induction ks) auto
  then show ?case
    using Cons.IH[of "ks @ [k]"] Cons.prems by simp
qed simp

lemma js_get_map_keys: "js_get (map (\<lambda>x. (x, f x)) ks) k = (if k \<in> set ks then Some (f k) else None)"
  by (induction ks) auto

definition pcts_in :: "sample list \<Rightarrow> int \<Rightarrow> real list" where
  "pcts_in samples k = map sa_pct (filter (\<lambda>s. sa_bucket s = k) samples)"

lemma groups_are:
  "distinct ks \<Longrightarrow> foldl group_add (map (\<lambda>x. (x, [])) ks) samples = map (\<lambda>x. (x, pcts_in samples x)) ks"
proof (induction samples rule: rev_induct)
  case Nil
  then show ?case by (simp add: pcts_in_def)
next
  case (snoc s samples)
  show ?case
  proof (cases "sa_bucket s \<in> set ks")
    case True
    then show ?thesis
      using snoc by (auto simp: group_add_def js_get_map_keys js_set_map_keys pcts_in_def)
  next
    case False
    then show ?thesis
      using snoc by (auto simp: group_add_def js_get_map_keys pcts_in_def)
  qed
qed

lemma bucketize_are: "bucketize samples g = map (\<lambda>k. bucket_stats (k, pcts_in samples k)) (keysFor g)"
  using js_set_new_keys[of "[]" "keysFor g"] groups_are[OF distinct_keysFor, of g samples] distinct_keysFor[of g]
  by (simp add: bucketize_def)

lemma sum_indicator: "distinct ks \<Longrightarrow> sum_list (map (\<lambda>k. if k = a then 1 else 0) ks) = (if a \<in> set ks then 1 else (0 :: nat))"
  by (induction ks) auto

lemma sum_of_buckets:
  "distinct ks \<Longrightarrow> \<forall>s\<in>set samples. sa_bucket s \<in> set ks
    \<Longrightarrow> sum_list (map (\<lambda>k. length (pcts_in samples k)) ks) = length samples"
proof (induction samples)
  case Nil
  then show ?case by (simp add: pcts_in_def)
next
  case (Cons s samples)
  have "sum_list (map (\<lambda>k. length (pcts_in (s # samples) k)) ks)
      = sum_list (map (\<lambda>k. (if k = sa_bucket s then 1 else 0) + length (pcts_in samples k)) ks)"
    by (rule arg_cong[where f = sum_list]) (simp add: pcts_in_def)
  also have "\<dots> = sum_list (map (\<lambda>k. if k = sa_bucket s then 1 else 0) ks) + length samples"
    using Cons by (simp add: sum_list_addf)
  also have "sum_list (map (\<lambda>k. if k = sa_bucket s then 1 else 0) ks) = (1 :: nat)"
    using Cons.prems by (simp add: sum_indicator)
  finally show ?case by simp
qed

lemma samples_in_keys: "s \<in> set (closeToCloseSamples g cs) \<Longrightarrow> sa_bucket s \<in> set (keysFor g)"
  by (induction g cs rule: closeToCloseSamples.induct) (auto simp: bucketKey_in_keys split: if_splits)

text \<open>
  The buckets are a full partition: one for each month, weekday or hour in order, their counts adding up to
  the number of samples; in each, quartiles and median are ordered and lie between the smallest and the
  largest return of the bucket, and the win rate is a fraction.
\<close>

theorem seasonality_partition:
  "let samples = closeToCloseSamples g cs; bs = bucketize samples g in
    map sb_key bs = keysFor g \<and> sum_list (map sb_count bs) = length samples
    \<and> list_all (\<lambda>b. 0 \<le> sb_winRate b \<and> sb_winRate b \<le> 1 \<and> sb_q1Pct b \<le> sb_medianReturnPct b
        \<and> sb_medianReturnPct b \<le> sb_q3Pct b
        \<and> (let xs = pcts_in samples (sb_key b) in
           sb_count b = length xs \<and> (if xs = [] then sb_q1Pct b = 0 \<and> sb_q3Pct b = 0
             else Min (set xs) \<le> sb_q1Pct b \<and> sb_q3Pct b \<le> Max (set xs)))) bs"
proof -
  define samples where "samples = closeToCloseSamples g cs"
  have sel: "sb_key (bucket_stats (k, xs)) = k" "sb_count (bucket_stats (k, xs)) = length xs" for k xs
    by (simp_all add: bucket_stats_def Let_def)
  have stats: "0 \<le> sb_winRate (bucket_stats (k, xs)) \<and> sb_winRate (bucket_stats (k, xs)) \<le> 1
      \<and> sb_q1Pct (bucket_stats (k, xs)) \<le> sb_medianReturnPct (bucket_stats (k, xs))
      \<and> sb_medianReturnPct (bucket_stats (k, xs)) \<le> sb_q3Pct (bucket_stats (k, xs))
      \<and> (if xs = [] then sb_q1Pct (bucket_stats (k, xs)) = 0 \<and> sb_q3Pct (bucket_stats (k, xs)) = 0
         else Min (set xs) \<le> sb_q1Pct (bucket_stats (k, xs)) \<and> sb_q3Pct (bucket_stats (k, xs)) \<le> Max (set xs))" for k xs
  proof (cases "xs = []")
    case True
    then show ?thesis by (simp add: bucket_stats_def Let_def nullish_zero_def quantile_def)
  next
    case False
    have ne: "sort xs \<noteq> []" "sorted (sort xs)"
      using False by (metis length_0_conv length_sort, simp)
    have ends: "hd (sort xs) \<in> set xs" "last (sort xs) \<in> set xs"
      using ne(1) hd_in_set[of "sort xs"] last_in_set[of "sort xs"] by simp_all
    have "Min (set xs) \<le> hd (sort xs)" "last (sort xs) \<le> Max (set xs)"
      using ends by simp_all
    moreover obtain a b where "quantile (sort xs) 0.25 = Some a" "quantile (sort xs) 0.5 = Some b" "hd (sort xs) \<le> a" "a \<le> b"
      using quantile_mono[OF ne(2,1), of "0.25" "0.5"] by auto
    moreover obtain b' c where "quantile (sort xs) 0.5 = Some b'" "quantile (sort xs) 0.75 = Some c" "b' \<le> c" "c \<le> last (sort xs)"
      using quantile_mono[OF ne(2,1), of "0.5" "0.75"] by auto
    ultimately show ?thesis
      using False length_filter_le[of "\<lambda>x. x > 0" xs] by (auto simp: bucket_stats_def Let_def nullish_zero_def)
  qed
  have "sum_list (map (\<lambda>k. length (pcts_in samples k)) (keysFor g)) = length samples"
    by (rule sum_of_buckets[OF distinct_keysFor]) (auto simp: samples_def samples_in_keys)
  moreover have "list_all (\<lambda>b. 0 \<le> sb_winRate b \<and> sb_winRate b \<le> 1 \<and> sb_q1Pct b \<le> sb_medianReturnPct b
        \<and> sb_medianReturnPct b \<le> sb_q3Pct b
        \<and> (let xs = pcts_in samples (sb_key b) in
           sb_count b = length xs \<and> (if xs = [] then sb_q1Pct b = 0 \<and> sb_q3Pct b = 0
             else Min (set xs) \<le> sb_q1Pct b \<and> sb_q3Pct b \<le> Max (set xs))))
      (map (\<lambda>k. bucket_stats (k, pcts_in samples k)) (keysFor g))"
    unfolding list.pred_map comp_def Let_def sel unfolding list_all_iff using stats by blast
  moreover have "map sb_key (map (\<lambda>k. bucket_stats (k, pcts_in samples k)) (keysFor g)) = keysFor g"
    "map sb_count (map (\<lambda>k. bucket_stats (k, pcts_in samples k)) (keysFor g)) = map (\<lambda>k. length (pcts_in samples k)) (keysFor g)"
    by (simp_all add: sel comp_def)
  ultimately show ?thesis
    unfolding Let_def samples_def[symmetric] bucketize_are by (simp del: map_map)
qed

lemma min_count_Some: "bs \<noteq> [] \<Longrightarrow> min_count bs = Some (Min (sb_count ` set bs))"
proof (induction bs rule: rev_induct)
  case (snoc b bs)
  then show ?case
    by (cases "bs = []") (simp_all add: min_count_def Min.insert min.commute)
qed simp

lemma thin_iff:
  "se_thin (get_seasonality getCandles g) \<longleftrightarrow> (case getCandles (if g = Hour then H1 else D1) (if g = Hour then 2160 else 1100) of
      None \<Rightarrow> True
    | Some cs \<Rightarrow> list_ex (\<lambda>k. length (pcts_in (closeToCloseSamples g cs) k) < 30) (keysFor g))"
proof -
  have ne: "keysFor g \<noteq> []"
    by (cases g) (simp_all add: keysFor_def)
  have count: "sb_count (bucket_stats (k, xs)) = length xs" for k xs
    by (simp add: bucket_stats_def Let_def)
  have "(case min_count (bucketize samples g) of None \<Rightarrow> True | Some n \<Rightarrow> n < 30)
      \<longleftrightarrow> list_ex (\<lambda>k. length (pcts_in samples k) < 30) (keysFor g)" for samples
    using ne min_count_Some[of "bucketize samples g"] Min_less_iff[of "sb_count ` set (bucketize samples g)" 30]
    by (simp add: bucketize_are count list_ex_iff image_image)
  then show ?thesis
    by (cases "getCandles (if g = Hour then H1 else D1) (if g = Hour then 2160 else 1100)")
      (simp_all add: get_seasonality_def Let_def del: if_split)
qed

lemma no_saturday_samples:
  "list_all (\<lambda>c. getUTCDay (cd_t c) \<noteq> 6) cs \<Longrightarrow> pcts_in (closeToCloseSamples Weekday cs) 6 = []"
proof (induction Weekday cs rule: closeToCloseSamples.induct)
  case (1 prev cur cs)
  then show ?case by (simp add: pcts_in_def bucketKey_def)
qed (simp_all add: pcts_in_def)

text \<open>
  The warning flag is raised exactly when some bucket holds fewer than thirty returns. Since Saturday is
  one of the weekdays, it is always raised for the weekday view of a market without Saturday bars, however
  long its history.
\<close>

theorem weekday_seasonality_always_thin:
  assumes "list_all (\<lambda>c. getUTCDay (cd_t c) \<noteq> 6) cs"
  shows "se_thin (get_seasonality (\<lambda>_ _. Some cs) Weekday)"
proof -
  have "6 \<in> set (keysFor Weekday)"
    by (simp add: keysFor_def del: upto_rec_numeral)
  then show ?thesis
    using no_saturday_samples[OF assms] by (force simp: thin_iff list_ex_iff)
qed

theorem weekday_seasonality_always_thin_witness:
  "se_thin (get_seasonality (\<lambda>_ _. Some (map (\<lambda>i. mk_candle (i * 604800000) 1 2 1 1.5) [0..200])) Weekday)"
  by (rule weekday_seasonality_always_thin)
    (simp add: list_all_iff getUTCDay_def utcDay_def del: upto_rec_numeral)

section \<open>Volatility\<close>

text \<open>
  The forecast never fails once the candles are there; the expected move grows with the square root of the
  horizon (its square is proportional to it), the price range is symmetric around the mid price, and the
  multiplier is raised exactly when a high-impact event falls in the window, of which the earliest is named.
\<close>

theorem forecast_exact:
  "case forecast_volatility (Some cs) baseline rows mid now symbol tf h of
     Inl _ \<Rightarrow> False
   | Inr f \<Rightarrow>
      let inWindow = filter (\<lambda>r. (case ev_currency r of None \<Rightarrow> False | Some c \<Rightarrow> c \<in> set (currencies_of symbol))
            \<and> now \<le> ev_date r \<and> ev_date r \<le> now + h * 3600000 \<and> ev_importance r = ''high'') rows in
      (vf_expectedMovePips f)\<^sup>2
        = (vf_atrPips f)\<^sup>2 * (vf_eventMultiplier f)\<^sup>2 * max 0 (real_of_int (h * 3600000) / real_of_int (msPerTimeframe tf))
      \<and> vf_expectedRange f = map_option (\<lambda>m. (m - vf_expectedMovePips f * pipSize symbol, m + vf_expectedMovePips f * pipSize symbol, m)) mid
      \<and> vf_eventMultiplier f = (if length inWindow \<ge> 2 then 2 else if length inWindow = 1 then 1.5 else 1)
      \<and> vf_eventAdjusted f = (inWindow \<noteq> [])
      \<and> (case vf_nextHighImpact f of None \<Rightarrow> inWindow = []
         | Some (title, date, currency) \<Rightarrow> list_all (\<lambda>r. date \<le> ev_date r) inWindow
             \<and> list_ex (\<lambda>r. ev_title r = title \<and> ev_date r = date \<and> ev_currency r = currency) inWindow)"
proof -
  define inWindow where "inWindow = filter (\<lambda>r. (case ev_currency r of None \<Rightarrow> False | Some c \<Rightarrow> c \<in> set (currencies_of symbol))
            \<and> now \<le> ev_date r \<and> ev_date r \<le> now + h * 3600000 \<and> ev_importance r = ''high'') rows"
  define evs where "evs = listHighImpactEventsInWindow (currencies_of symbol) now (now + h * 60 * 60 * 1000) rows"
  have evs: "evs = take 10 (sort_key ev_date inWindow)"
    unfolding evs_def listHighImpactEventsInWindow_def inWindow_def by (simp add: mult.commute)
  have len: "length evs = min 10 (length inWindow)"
    by (simp add: evs)
  have mult: "event_multiplier (length evs) = (if length inWindow \<ge> 2 then 2 else if length inWindow = 1 then 1.5 else 1)"
    by (auto simp: event_multiplier_def len min_def)
  have nonempty: "(evs = []) = (inWindow = [])" "(0 < length evs) = (inWindow \<noteq> [])"
    using len by (cases inWindow; cases evs; simp)+
  have earliest: "case (case evs of [] \<Rightarrow> None | e # _ \<Rightarrow> Some (ev_title e, ev_date e, ev_currency e)) of None \<Rightarrow> inWindow = []
      | Some (title, date, currency) \<Rightarrow> list_all (\<lambda>r. date \<le> ev_date r) inWindow
          \<and> list_ex (\<lambda>r. ev_title r = title \<and> ev_date r = date \<and> ev_currency r = currency) inWindow"
  proof (cases evs)
    case Nil
    then show ?thesis using nonempty by simp
  next
    case (Cons e es)
    then obtain es' where e: "sort_key ev_date inWindow = e # es'"
      unfolding evs by (cases "sort_key ev_date inWindow") auto
    then have "e \<in> set inWindow" "\<forall>r\<in>set inWindow. ev_date e \<le> ev_date r"
      using sorted_sort_key[of ev_date inWindow] set_sort[of ev_date inWindow] by auto
    then show ?thesis
      using Cons by (auto simp: list_all_iff list_ex_iff)
  qed
  have atr14: "\<exists>s. atr cs 14 = Inr s" for cs
    by (cases "length cs \<le> 14") (simp_all add: atr_def Let_def)
  then obtain s where s: "atr cs 14 = Inr s"
    by blast
  obtain b where b: "(if length (case baseline of None \<Rightarrow> [] | Some b \<Rightarrow> b) \<ge> 30
      then atr (case baseline of None \<Rightarrow> [] | Some b \<Rightarrow> b) 14 else Inr []) = Inr b"
    using atr14 by (cases "length (case baseline of None \<Rightarrow> [] | Some b \<Rightarrow> b) \<ge> 30") auto
  show ?thesis
    unfolding inWindow_def[symmetric] Let_def
    unfolding forecast_volatility_def Let_def option.case s sum.case b evs_def[symmetric]
    using mult nonempty earliest by (simp add: power_mult_distrib power_divide max.commute mult.commute)
qed

end
