(* ===== verification/Setup_Replay.thy ===== *)
theory Setup_Replay
  imports Indicators Journal
begin

text \<open>
  The rule replay of the assistant, \<open>packages/ai/src/tools/replay-setup.ts\<close>: signals of a moving average
  cross or an RSI threshold, each followed by a simulated trade with a stop, a target and a limit of bars.
  The fetched candles are an argument; the rendered label and notes are left out.
\<close>

section \<open>Rules and exits\<close>

datatype replay_rule =
    Ema_Cross nat nat trade_side          \<comment> \<open>\<open>fast\<close>, \<open>slow\<close>, \<open>side\<close>\<close>
  | Rsi_Threshold nat real trade_side     \<comment> \<open>\<open>period\<close>, \<open>threshold\<close>, \<open>side\<close>\<close>

datatype exit_unit = Unit_Atr | Unit_Pips

record replay_exit =
  re_unit :: exit_unit
  re_stopMult :: real
  re_targetMult :: real
  re_stopPips :: "real option"
  re_targetPips :: "real option"
  re_maxBars :: nat

datatype exit_reason = Tp | Sl | Time

record replay_trade =
  rt_entryAt :: ms
  rt_exitAt :: ms
  rt_side :: trade_side
  rt_entry :: real
  rt_exit :: real
  rt_stop :: real
  rt_target :: real
  rt_reason :: exit_reason
  rt_rMultiple :: real
  rt_barsInTrade :: nat

section \<open>Signals\<close>

definition series_at :: "real option list \<Rightarrow> nat \<Rightarrow> real option" where
  "series_at s i = (if i < length s then s ! i else None)"

definition crossed :: "trade_side \<Rightarrow> real \<Rightarrow> real \<Rightarrow> real \<Rightarrow> real \<Rightarrow> bool" where
  "crossed side prev lvlPrev now lvlNow =
     (case side of Long \<Rightarrow> prev \<le> lvlPrev \<and> now > lvlNow | Short \<Rightarrow> prev \<ge> lvlPrev \<and> now < lvlNow)"

definition ema_signal :: "trade_side \<Rightarrow> real option list \<Rightarrow> real option list \<Rightarrow> nat \<Rightarrow> bool" where
  "ema_signal side fast slow i =
     (case (series_at fast i, series_at slow i, series_at fast (i - 1), series_at slow (i - 1)) of
        (Some fNow, Some sNow, Some fPrev, Some sPrev) \<Rightarrow> crossed side fPrev sPrev fNow sNow
      | _ \<Rightarrow> False)"

definition rsi_signal :: "trade_side \<Rightarrow> real \<Rightarrow> real option list \<Rightarrow> nat \<Rightarrow> bool" where
  "rsi_signal side threshold series i =
     (case (series_at series i, series_at series (i - 1)) of
        (Some now, Some prev) \<Rightarrow> crossed side prev threshold now threshold
      | _ \<Rightarrow> False)"

text \<open>A signal is its index and the side of the rule; an indicator that throws ends the run.\<close>

definition computeSignals :: "replay_rule \<Rightarrow> candle list \<Rightarrow> string + nat list" where
  "computeSignals rule candles =
     (case rule of
        Ema_Cross fast slow side \<Rightarrow>
          (case ema candles fast of Inl e \<Rightarrow> Inl e | Inr fastSeries \<Rightarrow>
           case ema candles slow of Inl e \<Rightarrow> Inl e | Inr slowSeries \<Rightarrow>
             Inr (filter (ema_signal side fastSeries slowSeries) [max slow fast + 1..<length candles - 1]))
      | Rsi_Threshold period threshold side \<Rightarrow>
          (case rsi candles period of Inl e \<Rightarrow> Inl e | Inr series \<Rightarrow>
             Inr (filter (rsi_signal side threshold series) [period + 1..<length candles - 1])))"

fun rule_side :: "replay_rule \<Rightarrow> trade_side" where
  "rule_side (Ema_Cross fast slow side) = side"
| "rule_side (Rsi_Threshold period threshold side) = side"

section \<open>Trades\<close>

definition makeTrade :: "ms \<Rightarrow> ms \<Rightarrow> trade_side \<Rightarrow> real \<Rightarrow> real \<Rightarrow> real \<Rightarrow> real \<Rightarrow> exit_reason \<Rightarrow> nat \<Rightarrow> replay_trade" where
  "makeTrade entryAt exitAt side entry exit stop target reason bars =
     (let risk = \<bar>entry - stop\<bar>;
          pnl = (case side of Long \<Rightarrow> exit - entry | Short \<Rightarrow> entry - exit);
          rMultiple = (if risk > 0 then pnl / risk else 0)
      in \<lparr>rt_entryAt = entryAt, rt_exitAt = exitAt, rt_side = side, rt_entry = entry, rt_exit = exit, rt_stop = stop,
          rt_target = target, rt_reason = reason, rt_rMultiple = rMultiple, rt_barsInTrade = bars\<rparr>)"

definition hits_stop :: "trade_side \<Rightarrow> real \<Rightarrow> candle \<Rightarrow> bool" where
  "hits_stop side stop bar = (case side of Long \<Rightarrow> cd_l bar \<le> stop | Short \<Rightarrow> cd_h bar \<ge> stop)"

definition hits_target :: "trade_side \<Rightarrow> real \<Rightarrow> candle \<Rightarrow> bool" where
  "hits_target side target bar = (case side of Long \<Rightarrow> cd_h bar \<ge> target | Short \<Rightarrow> cd_l bar \<le> target)"

text \<open>The walk over the bars after the entry: the first bar that touches a level, the stop first.\<close>

function walk :: "candle list \<Rightarrow> trade_side \<Rightarrow> real \<Rightarrow> real \<Rightarrow> nat \<Rightarrow> nat \<Rightarrow> (nat \<times> exit_reason) option" where
  "walk candles side stop target j lastIdx =
     (if j \<le> lastIdx
      then if hits_stop side stop (candles ! j) then Some (j, Sl)
           else if hits_target side target (candles ! j) then Some (j, Tp)
           else walk candles side stop target (Suc j) lastIdx
      else None)"
  by pat_completeness auto
termination by (relation "measure (\<lambda>(cs, sd, s, t, j, l). Suc l - j)") auto

definition exit_offsets :: "replay_exit \<Rightarrow> real option list \<Rightarrow> string \<Rightarrow> nat \<Rightarrow> (real \<times> real) option" where
  "exit_offsets x atrSeries symbol index =
     (case re_unit x of
        Unit_Atr \<Rightarrow> map_option (\<lambda>a. (a * re_stopMult x, a * re_targetMult x)) (series_at atrSeries index)
      | Unit_Pips \<Rightarrow>
          (case (re_stopPips x, re_targetPips x) of
             (Some s, Some t) \<Rightarrow> Some (s * pipSize symbol, t * pipSize symbol)
           | _ \<Rightarrow> None))"

definition simulateTrade :: "candle list \<Rightarrow> real option list \<Rightarrow> nat \<Rightarrow> trade_side \<Rightarrow> real \<Rightarrow> string \<Rightarrow> replay_exit
    \<Rightarrow> replay_trade option" where
  "simulateTrade candles atrSeries index side entryPrice symbol x =
     (case exit_offsets x atrSeries symbol index of
        None \<Rightarrow> None
      | Some (stopOffset, targetOffset) \<Rightarrow>
          (let stop = (if side = Long then entryPrice - stopOffset else entryPrice + stopOffset);
               target = (if side = Long then entryPrice + targetOffset else entryPrice - targetOffset);
               lastBarIdx = min (index + re_maxBars x) (length candles - 1);
               entryAt = cd_t (candles ! index)
           in case walk candles side stop target (index + 1) lastBarIdx of
                Some (j, Sl) \<Rightarrow> Some (makeTrade entryAt (cd_t (candles ! j)) side entryPrice stop stop target Sl (j - index))
              | Some (j, r) \<Rightarrow> Some (makeTrade entryAt (cd_t (candles ! j)) side entryPrice target stop target r (j - index))
              | None \<Rightarrow> Some (makeTrade entryAt (cd_t (candles ! lastBarIdx)) side entryPrice (cd_c (candles ! lastBarIdx))
                  stop target Time (lastBarIdx - index))))"

section \<open>The tool\<close>

record replay_result =
  rp_trades :: "replay_trade list"
  rp_count :: nat
  rp_wins :: nat
  rp_losses :: nat
  rp_hitRate :: real
  rp_avgR :: real
  rp_totalR :: real
  rp_thin :: bool

definition emptyResult :: replay_result where
  "emptyResult = \<lparr>rp_trades = [], rp_count = 0, rp_wins = 0, rp_losses = 0, rp_hitRate = 0, rp_avgR = 0,
     rp_totalR = 0, rp_thin = True\<rparr>"

definition trade_at :: "replay_rule \<Rightarrow> replay_exit \<Rightarrow> string \<Rightarrow> candle list \<Rightarrow> real option list \<Rightarrow> nat \<Rightarrow> replay_trade option" where
  "trade_at rule x symbol candles atrSeries i =
     simulateTrade candles atrSeries i (rule_side rule) (cd_c (candles ! i)) symbol x"

definition summarize_trades :: "replay_trade list \<Rightarrow> replay_result" where
  "summarize_trades trades =
     (let wins = length (filter (\<lambda>t. rt_rMultiple t > 0.05) trades);
          losses = length (filter (\<lambda>t. rt_rMultiple t < - 0.05) trades);
          totalR = foldl (\<lambda>s t. s + rt_rMultiple t) 0 trades
      in \<lparr>rp_trades = trades, rp_count = length trades, rp_wins = wins, rp_losses = losses,
          rp_hitRate = (if trades = [] then 0 else real wins / real (length trades)),
          rp_avgR = (if trades = [] then 0 else totalR / real (length trades)), rp_totalR = totalR,
          rp_thin = (length trades < 5)\<rparr>)"

definition replay_setup :: "replay_rule \<Rightarrow> replay_exit \<Rightarrow> string \<Rightarrow> candle list \<Rightarrow> string + replay_result" where
  "replay_setup rule x symbol candles =
     (if length candles < 30 then Inr emptyResult
      else case atr candles 14 of Inl e \<Rightarrow> Inl e | Inr atrSeries \<Rightarrow>
           case computeSignals rule candles of Inl e \<Rightarrow> Inl e | Inr signals \<Rightarrow>
             Inr (summarize_trades (List.map_filter (trade_at rule x symbol candles atrSeries) signals)))"

section \<open>Averages that do not look ahead\<close>

text \<open>The exponential average of the textbook: the mean of the first \<open>p\<close> values, then a step by \<open>2 / (p + 1)\<close>.\<close>

primrec ema_ref :: "real list \<Rightarrow> nat \<Rightarrow> nat \<Rightarrow> real" where
  "ema_ref xs p 0 = sum_list (take p xs) / real p"
| "ema_ref xs p (Suc i) = (if Suc i < p then sum_list (take p xs) / real p
     else (xs ! Suc i - ema_ref xs p i) * (2 / (real p + 1)) + ema_ref xs p i)"

lemma ema_ref_start: "i < p \<Longrightarrow> ema_ref xs p i = sum_list (take p xs) / real p"
  by (cases i) simp_all

lemma ema_loop_ref:
  assumes "0 < i" "p \<le> i" "prev = ema_ref xs p (i - 1)"
  shows "ema_loop (2 / (real p + 1)) xs i prev = map (ema_ref xs p) [i..<length xs]"
  using assms
proof (induction "length xs - i" arbitrary: i prev)
  case 0
  then show ?case by (subst ema_loop.simps) simp
next
  case (Suc n)
  have "ema_ref xs p i = (xs ! i - prev) * (2 / (real p + 1)) + prev"
    using Suc.prems by (cases i) auto
  moreover have "i < length xs"
    using Suc.hyps(2) by simp
  ultimately show ?case
    using Suc.hyps(2) Suc.prems(2) Suc.hyps(1)[of "Suc i" "ema_ref xs p i"]
    by (subst ema_loop.simps) (simp add: Let_def upt_conv_Cons)
qed

lemma ema_spec:
  assumes "0 < p"
  shows "ema cs p = Inr (aligned (length cs) (p - 1) (ema_ref (closes cs) p))"
proof (cases "length cs < p")
  case True
  then show ?thesis
    using assms by (simp add: ema_def aligned_short[symmetric])
next
  case False
  let ?xs = "closes cs" and ?seed = "foldl (+) 0 (take p (closes cs)) / real p"
  have seed: "?seed = ema_ref ?xs p (p - 1)"
    using assms by (simp add: ema_ref_start foldl_plus)
  then have "?seed # ema_loop (2 / (real p + 1)) ?xs p ?seed = map (ema_ref ?xs p) [p - 1..<length cs]"
    using assms False ema_loop_ref[of p p ?seed ?xs] upt_conv_Cons[of "p - 1" "length cs"] by simp
  then show ?thesis
    using assms False padFront_aligned[of "?seed # ema_loop (2 / (real p + 1)) ?xs p ?seed" "ema_ref ?xs p" "p - 1" "length cs"]
    by (simp add: ema_def Let_def del: list.map)
qed

lemma ema_ref_prefix:
  assumes "p \<le> length xs" "i < length xs"
  shows "ema_ref (xs @ ys) p i = ema_ref xs p i"
  using assms by (induction i) (simp_all add: nth_append)

lemma wilder_prefix:
  assumes "\<forall>j<n. f j = g j" "b + p \<le> n" "i < n"
  shows "wilder f p b i = wilder g p b i"
proof -
  have "wilder_seed f p b = wilder_seed g p b"
    unfolding wilder_seed_def using assms(1,2) by (intro arg_cong2[where f = "(/)"] sum.cong) auto
  then show ?thesis
    using assms(3) by (induction i) (use assms(1) in auto)
qed

lemma closes_append: "closes (cs @ ds) = closes cs @ closes ds"
  by (simp add: closes_def)

lemma ema_prefix:
  assumes "ema cs p = Inr s" "ema (cs @ ds) p = Inr s'" "i < length cs"
  shows "series_at s i = series_at s' i"
proof -
  have p: "0 < p"
    using assms(1) by (auto simp: ema_def split: if_splits)
  then have "s = aligned (length cs) (p - 1) (ema_ref (closes cs) p)"
    "s' = aligned (length (cs @ ds)) (p - 1) (ema_ref (closes cs @ closes ds) p)"
    using ema_spec[OF p, of cs] ema_spec[OF p, of "cs @ ds"] assms(1,2) by (simp_all add: closes_append)
  moreover have "ema_ref (closes cs @ closes ds) p i = ema_ref (closes cs) p i" if "\<not> i < p - 1"
    by (rule ema_ref_prefix) (use that assms(3) in auto)
  ultimately show ?thesis
    using assms(3) by (simp add: series_at_def)
qed

lemma rsi_prefix:
  assumes "rsi cs p = Inr s" "rsi (cs @ ds) p = Inr s'" "i < length cs"
  shows "series_at s i = series_at s' i"
proof -
  have p: "0 < p"
    using assms(1) by (auto simp: rsi_def split: if_splits)
  have step: "gain_at (closes cs @ closes ds) j = gain_at (closes cs) j \<and> loss_at (closes cs @ closes ds) j = loss_at (closes cs) j"
    if "j < length cs" for j
    using that by (simp add: gain_at_def loss_at_def delta_at_def nth_append)
  have "wilder (gain_at (closes cs @ closes ds)) p 1 i = wilder (gain_at (closes cs)) p 1 i"
    "wilder (loss_at (closes cs @ closes ds)) p 1 i = wilder (loss_at (closes cs)) p 1 i" if "\<not> i < p"
    by (rule wilder_prefix[where n = "length cs"]; use that assms(3) step in auto)+
  then show ?thesis
    using rsi_spec[OF p, of cs] rsi_spec[OF p, of "cs @ ds"] assms by (auto simp: closes_append series_at_def)
qed

lemma atr_prefix:
  assumes "atr cs p = Inr s" "atr (cs @ ds) p = Inr s'" "i < length cs" "p < length cs"
  shows "series_at s i = series_at s' i"
proof -
  have p: "0 < p"
    using assms(1) by (auto simp: atr_def split: if_splits)
  have step: "true_range (cs @ ds) j = true_range cs j" if "j < length cs" for j
    using that by (simp add: true_range_def nth_append Let_def)
  have "wilder (true_range (cs @ ds)) p 0 i = wilder (true_range cs) p 0 i"
    by (rule wilder_prefix[where n = "length cs"]) (use assms(3,4) step in auto)
  then show ?thesis
    using atr_spec[OF p, of cs] atr_spec[OF p, of "cs @ ds"] assms by (auto simp: series_at_def)
qed

section \<open>The walk\<close>

declare walk.simps [simp del]

lemma walk_spec:
  "walk cs sd st tg j l = (case List.find (\<lambda>k. hits_stop sd st (cs ! k) \<or> hits_target sd tg (cs ! k)) [j..<Suc l] of
     None \<Rightarrow> None | Some k \<Rightarrow> Some (k, if hits_stop sd st (cs ! k) then Sl else Tp))"
proof (induction cs sd st tg j l rule: walk.induct)
  case (1 cs sd st tg j l)
  show ?case
  proof (cases "j \<le> l")
    case True
    then have "[j..<Suc l] = j # [Suc j..<Suc l]"
      by (simp add: upt_conv_Cons del: upt_Suc)
    then show ?thesis
      using True 1 by (subst walk.simps) (simp del: upt_Suc)
  next
    case False
    then show ?thesis
      by (subst walk.simps) simp
  qed
qed

lemma find_cong_list: "(\<And>x. x \<in> set xs \<Longrightarrow> P x = Q x) \<Longrightarrow> List.find P xs = List.find Q xs"
  by (induction xs) auto

lemma find_append: "List.find P (xs @ ys) = (case List.find P xs of None \<Rightarrow> List.find P ys | Some x \<Rightarrow> Some x)"
  by (induction xs) auto

lemma find_None_all: "List.find P xs = None \<longleftrightarrow> list_all (\<lambda>x. \<not> P x) xs"
  by (induction xs) auto

lemma walk_bounds: "walk cs sd st tg j l = Some (k, r) \<Longrightarrow> j \<le> k \<and> k \<le> l \<and> r \<noteq> Time"
  by (auto simp: walk_spec dest!: find_Some_prop split: option.splits if_splits simp del: upt_Suc)

lemma walk_prefix:
  assumes "l < length cs"
  shows "walk (cs @ ds) sd st tg j l = walk cs sd st tg j l"
proof -
  have "List.find (\<lambda>k. hits_stop sd st ((cs @ ds) ! k) \<or> hits_target sd tg ((cs @ ds) ! k)) [j..<Suc l]
      = List.find (\<lambda>k. hits_stop sd st (cs ! k) \<or> hits_target sd tg (cs ! k)) [j..<Suc l]"
    by (rule find_cong_list) (use assms in \<open>auto simp: nth_append simp del: upt_Suc\<close>)
  then show ?thesis
    using assms by (auto simp: walk_spec nth_append dest!: find_Some_prop split: option.splits simp del: upt_Suc)
qed

text \<open>A walk that found an exit finds the same one with a later last bar.\<close>

lemma walk_longer:
  assumes "walk cs sd st tg j l = Some e" "l \<le> l'"
  shows "walk cs sd st tg j l' = Some e"
proof -
  have "j \<le> Suc l"
    using assms(1) by (cases "j \<le> l") (auto simp: walk_spec)
  then have "[j..<Suc l'] = [j..<Suc l] @ [Suc l..<Suc l']"
    using assms(2) upt_add_eq_append[of j "Suc l" "l' - l"] by (simp del: upt_Suc)
  then show ?thesis
    using assms(1) by (auto simp: walk_spec find_append split: option.splits simp del: upt_Suc)
qed

lemma find_upt:
  assumes "List.find P [a..<b] = Some k"
  shows "P k \<and> a \<le> k \<and> k < b \<and> list_all (\<lambda>i. \<not> P i) [a..<k]"
proof -
  obtain n where n: "n < length [a..<b]" "P ([a..<b] ! n)" "k = [a..<b] ! n" "\<forall>j<n. \<not> P ([a..<b] ! j)"
    using assms unfolding find_Some_iff by blast
  have "\<not> P i" if "a \<le> i" "i < k" for i
    using n(4)[rule_format, of "i - a"] that n(1,3) by auto
  then show ?thesis
    using n by (auto simp: list_all_iff)
qed

lemma simulate_eq:
  assumes "exit_offsets x a symbol i = Some (so, tg)"
  shows "simulateTrade cs a i sd price symbol x = Some
     (let stop = (if sd = Long then price - so else price + so);
          target = (if sd = Long then price + tg else price - tg);
          lastIdx = min (i + re_maxBars x) (length cs - 1)
      in case List.find (\<lambda>k. hits_stop sd stop (cs ! k) \<or> hits_target sd target (cs ! k)) [Suc i..<Suc lastIdx] of
           None \<Rightarrow> makeTrade (cd_t (cs ! i)) (cd_t (cs ! lastIdx)) sd price (cd_c (cs ! lastIdx)) stop target Time (lastIdx - i)
         | Some k \<Rightarrow>
             if hits_stop sd stop (cs ! k) then makeTrade (cd_t (cs ! i)) (cd_t (cs ! k)) sd price stop stop target Sl (k - i)
             else makeTrade (cd_t (cs ! i)) (cd_t (cs ! k)) sd price target stop target Tp (k - i))"
  unfolding simulateTrade_def assms option.case prod.case Let_def walk_spec Suc_eq_plus1[symmetric]
  by (simp split: option.split del: upt_Suc)

section \<open>Properties\<close>

text \<open>
  A simulated trade exits where its rule says: after the entry and within the limit of bars, at the first bar
  that touches the stop or the target, at the stop's price when that bar touches the stop (also when it touches
  both) and else at the target's; only when no bar of the span touches either is it closed at the close of the
  last one.
\<close>

theorem trade_exit_exact:
  assumes "simulateTrade cs a i sd price symbol x = Some t" "Suc i < length cs" "0 < re_maxBars x"
  shows "let k = i + rt_barsInTrade t; lastIdx = min (i + re_maxBars x) (length cs - 1);
      touched = (\<lambda>j. hits_stop sd (rt_stop t) (cs ! j) \<or> hits_target sd (rt_target t) (cs ! j))
    in i < k \<and> k \<le> lastIdx \<and> rt_entryAt t = cd_t (cs ! i) \<and> rt_exitAt t = cd_t (cs ! k)
      \<and> list_all (\<lambda>j. \<not> touched j) [Suc i..<k]
      \<and> (case rt_reason t of
           Sl \<Rightarrow> hits_stop sd (rt_stop t) (cs ! k) \<and> rt_exit t = rt_stop t
         | Tp \<Rightarrow> \<not> hits_stop sd (rt_stop t) (cs ! k) \<and> hits_target sd (rt_target t) (cs ! k) \<and> rt_exit t = rt_target t
         | Time \<Rightarrow> k = lastIdx \<and> \<not> touched k \<and> rt_exit t = cd_c (cs ! k))"
proof -
  obtain so tg where off: "exit_offsets x a symbol i = Some (so, tg)"
    using assms(1) by (auto simp: simulateTrade_def split: option.splits)
  define stop target lastIdx where "stop = (if sd = Long then price - so else price + so)"
    "target = (if sd = Long then price + tg else price - tg)" "lastIdx = min (i + re_maxBars x) (length cs - 1)"
  have last: "i < lastIdx"
    using assms(2,3) by (simp add: stop_target_lastIdx_def)
  have lastI: "min (i + re_maxBars x) (length cs - Suc 0) = lastIdx"
    by (simp add: stop_target_lastIdx_def)
  let ?P = "\<lambda>k. hits_stop sd stop (cs ! k) \<or> hits_target sd target (cs ! k)"
  show ?thesis
  proof (cases "List.find ?P [Suc i..<Suc lastIdx]")
    case None
    then have "list_all (\<lambda>j. \<not> ?P j) [Suc i..<Suc lastIdx]"
      by (simp add: find_None_all del: upt_Suc)
    moreover have "t = makeTrade (cd_t (cs ! i)) (cd_t (cs ! lastIdx)) sd price (cd_c (cs ! lastIdx)) stop target Time (lastIdx - i)"
      using assms(1) None unfolding simulate_eq[OF off] Let_def stop_target_lastIdx_def[symmetric] by simp
    ultimately show ?thesis
      using last by (simp add: makeTrade_def Let_def lastI)
  next
    case (Some k)
    then have k: "?P k" "Suc i \<le> k" "k \<le> lastIdx" "list_all (\<lambda>j. \<not> ?P j) [Suc i..<k]"
      using find_upt[OF Some] by auto
    have "t = (if hits_stop sd stop (cs ! k)
        then makeTrade (cd_t (cs ! i)) (cd_t (cs ! k)) sd price stop stop target Sl (k - i)
        else makeTrade (cd_t (cs ! i)) (cd_t (cs ! k)) sd price target stop target Tp (k - i))"
      using assms(1) Some unfolding simulate_eq[OF off] Let_def stop_target_lastIdx_def[symmetric] by simp
    then show ?thesis
      using k last by (auto simp: makeTrade_def Let_def lastI)
  qed
qed

text \<open>An exit in fixed pips of gold for the examples: a dollar of stop, two of target.\<close>

definition pips_exit :: "nat \<Rightarrow> replay_exit" where
  "pips_exit n = \<lparr>re_unit = Unit_Pips, re_stopMult = 1.5, re_targetMult = 2, re_stopPips = Some 10,
     re_targetPips = Some 20, re_maxBars = n\<rparr>"

lemma pips_offsets: "exit_offsets (pips_exit n) a ''XAUUSD'' i = Some (1, 2)"
proof -
  have "tryGetSymbolDefinition ''XAUUSD'' = Some (hd gold_symbols)"
    by code_simp
  then show ?thesis
    by (simp add: exit_offsets_def pips_exit_def pipSize_def tryGetSymbolDefinition_def gold_symbols_def)
qed

lemma pips_exit_max [simp]: "re_maxBars (pips_exit n) = n"
  by (simp add: pips_exit_def)

lemma sample_trade:
  "simulateTrade [mk_candle 0 100 100 100 100, mk_candle 1 100 101 98 100] [] 0 Long 100 ''XAUUSD'' (pips_exit 5)
     = Some (makeTrade 0 1 Long 100 99 99 102 Sl 1)"
  by (simp add: simulate_eq[OF pips_offsets] hits_stop_def Let_def)

theorem trade_exit_exact_witness:
  "\<exists>t. simulateTrade [mk_candle 0 100 100 100 100, mk_candle 1 100 101 98 100] [] 0 Long 100 ''XAUUSD'' (pips_exit 5) = Some t
    \<and> rt_reason t = Sl \<and> rt_exitAt t = 1 \<and> rt_exit t = rt_stop t"
proof -
  have "0 < re_maxBars (pips_exit 5)"
    by simp
  from trade_exit_exact[OF sample_trade _ this] sample_trade show ?thesis
    by (auto simp: makeTrade_def Let_def)
qed

text \<open>The result in multiples of the risk: a stop costs one, a target earns the ratio of the offsets.\<close>

lemma trade_r_multiple:
  assumes "simulateTrade cs a i sd price symbol x = Some t" "exit_offsets x a symbol i = Some (so, tg)" "0 < so"
  shows "rt_rMultiple t = (case rt_reason t of Sl \<Rightarrow> - 1 | Tp \<Rightarrow> tg / so
    | Time \<Rightarrow> (if sd = Long then rt_exit t - price else price - rt_exit t) / so)"
  using assms(1,3) unfolding simulate_eq[OF assms(2)]
  by (cases sd) (auto simp: makeTrade_def Let_def split: option.splits if_splits simp del: upt_Suc)

lemma filter_upt_prefix:
  assumes "n \<le> n'" "\<forall>i<n. P i = P' i"
  shows "filter (\<lambda>i. i < n) (filter P' [lo..<n']) = filter P [lo..<n]"
proof (cases "lo \<le> n")
  case True
  then have "[lo..<n'] = [lo..<n] @ [n..<n']"
    using assms(1) upt_add_eq_append[of lo n "n' - n"] by simp
  moreover have "filter (\<lambda>i. i < n) (filter P' [n..<n']) = []"
    by (auto simp: filter_empty_conv)
  moreover have "filter (\<lambda>i. i < n) (filter P' [lo..<n]) = filter P [lo..<n]"
    using assms(2) by (auto intro!: filter_cong)
  ultimately show ?thesis by simp
next
  case False
  then show ?thesis by (auto simp: filter_empty_conv)
qed

lemma signals_prefix:
  assumes "computeSignals rule cs = Inr sigs" "cs \<noteq> []"
  shows "\<exists>sigs'. computeSignals rule (cs @ ds) = Inr sigs' \<and> sigs = filter (\<lambda>i. Suc i < length cs) sigs'"
proof -
  have n: "length cs - 1 \<le> length (cs @ ds) - 1" "Suc i < length cs \<longleftrightarrow> i < length cs - 1" for i
    using assms(2) by (auto simp: less_diff_conv)
  show ?thesis
  proof (cases rule)
    case (Ema_Cross f sl sd)
    have pos: "0 < f" "0 < sl"
      using assms(1) Ema_Cross by (auto simp: computeSignals_def ema_def split: if_splits sum.splits)
    obtain s1 s2 s3 s4 where s: "ema cs f = Inr s1" "ema cs sl = Inr s2" "ema (cs @ ds) f = Inr s3" "ema (cs @ ds) sl = Inr s4"
      using ema_spec[OF pos(1)] ema_spec[OF pos(2)] by blast
    have "\<forall>i<length cs - 1. ema_signal sd s1 s2 i = ema_signal sd s3 s4 i"
      using ema_prefix[OF s(1,3)] ema_prefix[OF s(2,4)] by (simp add: ema_signal_def)
    then show ?thesis
      using filter_upt_prefix[OF n(1)] assms(1) s Ema_Cross by (simp add: computeSignals_def n(2))
  next
    case (Rsi_Threshold p th sd)
    have pos: "0 < p"
      using assms(1) Rsi_Threshold by (auto simp: computeSignals_def rsi_def split: if_splits sum.splits)
    obtain s1 s2 where s: "rsi cs p = Inr s1" "rsi (cs @ ds) p = Inr s2"
      using rsi_spec[OF pos] by blast
    have "\<forall>i<length cs - 1. rsi_signal sd th s1 i = rsi_signal sd th s2 i"
      using rsi_prefix[OF s] by (simp add: rsi_signal_def)
    then show ?thesis
      using filter_upt_prefix[OF n(1)] assms(1) s Rsi_Threshold by (simp add: computeSignals_def n(2))
  qed
qed

lemma simulate_prefix:
  assumes "Suc i < length cs" "series_at a i = series_at a' i"
  shows "case simulateTrade cs a i sd price symbol x of
      None \<Rightarrow> simulateTrade (cs @ ds) a' i sd price symbol x = None
    | Some t \<Rightarrow> if rt_reason t \<noteq> Time \<or> i + re_maxBars x < length cs
        then simulateTrade (cs @ ds) a' i sd price symbol x = Some t else True"
proof -
  have off: "exit_offsets x a' symbol i = exit_offsets x a symbol i"
    using assms(2) by (simp add: exit_offsets_def split: exit_unit.splits)
  show ?thesis
  proof (cases "exit_offsets x a symbol i")
    case None
    then show ?thesis using off by (simp add: simulateTrade_def)
  next
    case (Some st)
    obtain so tg where st: "exit_offsets x a symbol i = Some (so, tg)"
      using Some by (cases st) auto
    define l l' where "l = min (i + re_maxBars x) (length cs - 1)" "l' = min (i + re_maxBars x) (length (cs @ ds) - 1)"
    have l: "l < length cs" "l \<le> l'" "i < length cs"
      using assms(1) by (auto simp: l_l'_def)
    have pre: "walk (cs @ ds) sd s t (i + 1) l = walk cs sd s t (i + 1) l" for s t
      by (rule walk_prefix[OF l(1)])
    have found: "simulateTrade (cs @ ds) a' i sd price symbol x = simulateTrade cs a i sd price symbol x"
      if "walk cs sd (if sd = Long then price - so else price + so) (if sd = Long then price + tg else price - tg) (i + 1) l = Some e" for e
    proof -
      have "walk (cs @ ds) sd (if sd = Long then price - so else price + so)
          (if sd = Long then price + tg else price - tg) (i + 1) l' = Some e"
        using that pre by (intro walk_longer[OF _ l(2)]) simp
      moreover have "fst e < length cs"
        using walk_bounds[of cs sd _ _ "i + 1" l "fst e" "snd e"] that l(1) by fastforce
      ultimately show ?thesis
        using that l(3) unfolding simulateTrade_def off st option.case prod.case Let_def l_l'_def[symmetric]
        by (cases e) (auto simp: nth_append split: exit_reason.splits)
    qed
    show ?thesis
    proof (cases "walk cs sd (if sd = Long then price - so else price + so) (if sd = Long then price + tg else price - tg) (i + 1) l")
      case None
      then have "simulateTrade (cs @ ds) a' i sd price symbol x = simulateTrade cs a i sd price symbol x"
        if "i + re_maxBars x < length cs"
      proof -
        have "l' = l"
          using that by (auto simp: l_l'_def)
        then show ?thesis
          using None pre l unfolding simulateTrade_def off st option.case prod.case Let_def l_l'_def[symmetric]
          by (simp add: nth_append)
      qed
      moreover have "\<exists>t. simulateTrade cs a i sd price symbol x = Some t \<and> rt_reason t = Time"
        using None unfolding simulateTrade_def st option.case prod.case Let_def l_l'_def[symmetric]
        by (simp add: makeTrade_def Let_def)
      ultimately show ?thesis by auto
    next
      case (Some e)
      then show ?thesis
        using found[OF Some] by (auto split: option.splits)
    qed
  qed
qed

text \<open>
  The replay does not look ahead: when more candles follow, the signals of the shorter history are exactly those
  of the longer one that lie before its last bar, and every trade that met its stop or its target, or had its full
  number of bars, is the same trade.
\<close>

theorem replay_no_lookahead:
  assumes "atr cs 14 = Inr a" "atr (cs @ ds) 14 = Inr a'" "14 < length cs" "computeSignals rule cs = Inr sigs"
  shows "\<exists>sigs'. computeSignals rule (cs @ ds) = Inr sigs' \<and> sigs = filter (\<lambda>i. Suc i < length cs) sigs'
    \<and> list_all (\<lambda>i. case trade_at rule x symbol cs a i of
         None \<Rightarrow> trade_at rule x symbol (cs @ ds) a' i = None
       | Some t \<Rightarrow> if rt_reason t \<noteq> Time \<or> i + re_maxBars x < length cs
           then trade_at rule x symbol (cs @ ds) a' i = Some t else True) sigs"
proof -
  have "cs \<noteq> []"
    using assms(3) by auto
  then obtain sigs' where s: "computeSignals rule (cs @ ds) = Inr sigs'" "sigs = filter (\<lambda>i. Suc i < length cs) sigs'"
    using signals_prefix[OF assms(4), of ds] by blast
  have "case trade_at rule x symbol cs a i of
         None \<Rightarrow> trade_at rule x symbol (cs @ ds) a' i = None
       | Some t \<Rightarrow> if rt_reason t \<noteq> Time \<or> i + re_maxBars x < length cs
           then trade_at rule x symbol (cs @ ds) a' i = Some t else True" if "i \<in> set sigs" for i
  proof -
    have i: "Suc i < length cs"
      using that s(2) by simp
    then have same: "series_at a i = series_at a' i" "(cs @ ds) ! i = cs ! i"
      using atr_prefix[OF assms(1,2), of i] assms(3) by (simp_all add: nth_append)
    show ?thesis
      unfolding trade_at_def same(2) by (rule simulate_prefix[OF i same(1)])
  qed
  then show ?thesis
    using s by (auto simp: list_all_iff)
qed

theorem replay_no_lookahead_witness:
  "\<exists>a sigs sigs'. atr (replicate 20 (mk_candle 0 1 2 1 1)) 14 = Inr a
    \<and> computeSignals (Ema_Cross 3 5 Long) (replicate 20 (mk_candle 0 1 2 1 1)) = Inr sigs
    \<and> computeSignals (Ema_Cross 3 5 Long) (replicate 20 (mk_candle 0 1 2 1 1) @ replicate 20 (mk_candle 0 2 3 2 3)) = Inr sigs'
    \<and> sigs = filter (\<lambda>i. Suc i < 20) sigs'"
proof -
  let ?cs = "replicate 20 (mk_candle 0 1 2 1 1)" and ?ds = "replicate 20 (mk_candle 0 2 3 2 3)"
  obtain a a' where a: "atr ?cs 14 = Inr a" "atr (?cs @ ?ds) 14 = Inr a'"
    using atr_spec[of 14 ?cs] atr_spec[of 14 "?cs @ ?ds"] by auto
  obtain sigs where s: "computeSignals (Ema_Cross 3 5 Long) ?cs = Inr sigs"
    using ema_spec[of 3 ?cs] ema_spec[of 5 ?cs] by (simp add: computeSignals_def)
  show ?thesis
    using replay_no_lookahead[OF a _ s, of "pips_exit 5" "''XAUUSD''"] a(1) s by auto
qed

text \<open>
  The last bars of the window are the exception: a trade still open there is closed at the last close and
  counted with the reason \<open>time\<close> long before its limit. One more bar turns the break-even result into a loss.
\<close>

lemma open_trade_counted_as_time:
  "simulateTrade [mk_candle 0 100 100 100 100, mk_candle 1 100 101 99.5 100] [] 0 Long 100 ''XAUUSD'' (pips_exit 100)
     = Some (makeTrade 0 1 Long 100 100 99 102 Time 1)"
  "simulateTrade [mk_candle 0 100 100 100 100, mk_candle 1 100 101 99.5 100, mk_candle 2 100 100 98 98] [] 0 Long 100 ''XAUUSD'' (pips_exit 100)
     = Some (makeTrade 0 2 Long 100 99 99 102 Sl 2)"
  by (simp_all add: simulate_eq[OF pips_offsets] hits_stop_def hits_target_def Let_def numeral_2_eq_2)

end
