(* ===== verification/Accounts.thy ===== *)
theory Accounts
  imports Key_Vault Resilience
begin

text \<open>
  The account tables and their queries: \<open>packages/db/src/schema/auth.ts\<close>,
  \<open>packages/db/src/queries/auth.ts\<close>, \<open>queries/user-sessions.ts\<close>, \<open>queries/users.ts\<close>, with the password
  rules of \<open>apps/web/src/lib/validation.ts\<close>. A table is the list of its rows in insertion order, one
  statement is one step, and an insertion that violates a unique key is \<open>None\<close>. Columns that are only
  displayed (images, tenants of a single-tenant installation) are left out. \<open>externals\<close> collects what
  the libraries compute (password hashes, one-time codes, digests, the email format) for one request.
\<close>

section \<open>Rows\<close>

record user_row =
  ac_id :: string
  ac_email :: string
  ac_name :: "string option"
  ac_emailVerified :: "ms option"
  ac_hashedPassword :: "string option"
  ac_role :: string
  ac_deletedAt :: "ms option"
  ac_tokenVersion :: int
  ac_twoFactorSecret :: "string option"
  ac_twoFactorEnabled :: bool
  ac_failedLoginAttempts :: int
  ac_lockedUntil :: "ms option"
  ac_twoFactorBackupCodes :: "string list option"
  ac_failed2faAttempts :: int
  ac_twoFactorLockedUntil :: "ms option"
  ac_createdAt :: ms

datatype token_purpose = Email_Verify | Password_Reset

record verification_token =
  vt_identifier :: string
  vt_token :: string
  vt_purpose :: token_purpose
  vt_expires :: ms

record session_row =
  sn_id :: string
  sn_userId :: string
  sn_deviceName :: "string option"
  sn_ip :: "string option"
  sn_createdAt :: ms
  sn_lastActiveAt :: ms

record account_link =
  al_userId :: string
  al_provider :: string
  al_providerAccountId :: string

datatype auth_event = Login_Success | Login_Failure | Account_Locked | TwoFa_Failure | Unauthorized_401

text \<open>The tables, and the events recorded by the process (\<open>recordAuthEvent\<close>), newest last.\<close>

record auth_db =
  ad_users :: "user_row list"
  ad_settings :: "string list"
  ad_tokens :: "verification_token list"
  ad_sessions :: "session_row list"
  ad_accounts :: "account_link list"
  ad_audit :: "(string \<times> string) list"
  ad_rates :: rate_table
  ad_events :: "(auth_event \<times> ms) list"

text \<open>\<open>bcrypt.compare\<close> and \<open>verifySync\<close> are \<open>None\<close> when they throw.\<close>

record externals =
  ex_compare :: "string \<Rightarrow> string \<Rightarrow> bool option"
  ex_hash :: "string \<Rightarrow> string"
  ex_totp :: "string \<Rightarrow> string \<Rightarrow> ms \<Rightarrow> bool option"
  ex_sha256 :: "string \<Rightarrow> string"
  ex_hmac :: "string \<Rightarrow> string \<Rightarrow> string"
  ex_isEmail :: "string \<Rightarrow> bool"
  ex_cipher :: cipher
  ex_encryptionKey :: "string option"

definition SYSTEM_USER_ID :: string where "SYSTEM_USER_ID = ''__system__''"

section \<open>Users\<close>

definition getUserById :: "string \<Rightarrow> auth_db \<Rightarrow> user_row option" where
  "getUserById i s = List.find (\<lambda>u. ac_id u = i) (ad_users s)"

definition getUserByEmail :: "string \<Rightarrow> auth_db \<Rightarrow> user_row option" where
  "getUserByEmail email s = List.find (\<lambda>u. ac_email u = email \<and> ac_deletedAt u = None) (ad_users s)"

definition userExistsByEmail :: "string \<Rightarrow> auth_db \<Rightarrow> bool" where
  "userExistsByEmail email s = list_ex (\<lambda>u. ac_email u = email) (ad_users s)"

text \<open>\<open>UPDATE user SET f WHERE P\<close>, with whether a row matched.\<close>

definition update_users :: "(user_row \<Rightarrow> bool) \<Rightarrow> (user_row \<Rightarrow> user_row) \<Rightarrow> auth_db \<Rightarrow> auth_db \<times> bool" where
  "update_users P f s =
     (s\<lparr>ad_users := map (\<lambda>u. if P u then f u else u) (ad_users s)\<rparr>, list_ex P (ad_users s))"

definition update_user :: "string \<Rightarrow> (user_row \<Rightarrow> user_row) \<Rightarrow> auth_db \<Rightarrow> auth_db \<times> bool" where
  "update_user i = update_users (\<lambda>u. ac_id u = i)"

definition LOCKOUT_MS :: ms where "LOCKOUT_MS = 15 * 60 * 1000"

definition count_failed_login :: "ms \<Rightarrow> user_row \<Rightarrow> user_row" where
  "count_failed_login now u = u\<lparr>ac_failedLoginAttempts := ac_failedLoginAttempts u + 1,
     ac_lockedUntil := (if ac_failedLoginAttempts u + 1 \<ge> 5 then Some (now + LOCKOUT_MS) else None)\<rparr>"

definition incrementFailedLogins :: "ms \<Rightarrow> string \<Rightarrow> auth_db \<Rightarrow> auth_db \<times> bool" where
  "incrementFailedLogins now i = update_user i (count_failed_login now)"

definition resetLoginLockout :: "string \<Rightarrow> auth_db \<Rightarrow> auth_db \<times> bool" where
  "resetLoginLockout i = update_user i (\<lambda>u. u\<lparr>ac_failedLoginAttempts := 0, ac_lockedUntil := None\<rparr>)"

definition new_user :: "ms \<Rightarrow> string \<Rightarrow> string \<Rightarrow> string \<Rightarrow> ms option \<Rightarrow> string option \<Rightarrow> user_row" where
  "new_user now i email name verified pw =
     \<lparr>ac_id = i, ac_email = email, ac_name = Some name, ac_emailVerified = verified, ac_hashedPassword = pw, ac_role = ''user'',
      ac_deletedAt = None, ac_tokenVersion = 0, ac_twoFactorSecret = None, ac_twoFactorEnabled = False,
      ac_failedLoginAttempts = 0, ac_lockedUntil = None, ac_twoFactorBackupCodes = None, ac_failed2faAttempts = 0,
      ac_twoFactorLockedUntil = None, ac_createdAt = now\<rparr>"

definition insert_user :: "user_row \<Rightarrow> auth_db \<Rightarrow> auth_db option" where
  "insert_user u s =
     (if list_ex (\<lambda>v. ac_id v = ac_id u \<or> ac_email v = ac_email u) (ad_users s) \<or> ac_id u \<in> set (ad_settings s) then None
      else Some (s\<lparr>ad_users := ad_users s @ [u], ad_settings := ad_settings s @ [ac_id u]\<rparr>))"

datatype create_error = INITIAL_USER_ALREADY_EXISTS | Constraint_Violated

definition real_user :: "user_row \<Rightarrow> bool" where
  "real_user u \<longleftrightarrow> ac_deletedAt u = None \<and> ac_id u \<noteq> SYSTEM_USER_ID"

text \<open>The user and the settings row are inserted in one transaction, under a lock that serialises first
  registrations.\<close>

definition create_user_row :: "bool \<Rightarrow> user_row \<Rightarrow> auth_db \<Rightarrow> create_error + auth_db" where
  "create_user_row initialUserOnly u s =
     (if initialUserOnly \<and> list_ex real_user (ad_users s) then Inl INITIAL_USER_ALREADY_EXISTS
      else case insert_user u s of None \<Rightarrow> Inl Constraint_Violated | Some s' \<Rightarrow> Inr s')"

definition createUserWithSettings ::
  "ms \<Rightarrow> string \<Rightarrow> string \<Rightarrow> string \<Rightarrow> string \<Rightarrow> bool \<Rightarrow> auth_db \<Rightarrow> create_error + auth_db" where
  "createUserWithSettings now i email name pw initialUserOnly =
     create_user_row initialUserOnly (new_user now i email name None (Some pw))"

definition set_password :: "string \<Rightarrow> user_row \<Rightarrow> user_row" where
  "set_password pw u = u\<lparr>ac_hashedPassword := Some pw, ac_tokenVersion := ac_tokenVersion u + 1\<rparr>"

definition updateUserPassword :: "string \<Rightarrow> string \<Rightarrow> auth_db \<Rightarrow> auth_db" where
  "updateUserPassword i pw s = fst (update_user i (set_password pw) s)"

definition updatePasswordByEmail :: "string \<Rightarrow> string \<Rightarrow> auth_db \<Rightarrow> auth_db \<times> string option" where
  "updatePasswordByEmail email pw s =
     (fst (update_users (\<lambda>u. ac_email u = email) (set_password pw) s),
      map_option ac_id (List.find (\<lambda>u. ac_email u = email) (ad_users s)))"

definition verifyUserEmail :: "ms \<Rightarrow> string \<Rightarrow> auth_db \<Rightarrow> auth_db" where
  "verifyUserEmail now email s = fst (update_users (\<lambda>u. ac_email u = email) (\<lambda>u. u\<lparr>ac_emailVerified := Some now\<rparr>) s)"

definition getTokenVersion :: "string \<Rightarrow> auth_db \<Rightarrow> int option" where
  "getTokenVersion i s = map_option ac_tokenVersion (getUserById i s)"

definition incrementTokenVersion :: "string \<Rightarrow> auth_db \<Rightarrow> auth_db" where
  "incrementTokenVersion i s = fst (update_user i (\<lambda>u. u\<lparr>ac_tokenVersion := ac_tokenVersion u + 1\<rparr>) s)"

definition getUserPasswordHash :: "string \<Rightarrow> auth_db \<Rightarrow> string option" where
  "getUserPasswordHash i s = Option.bind (getUserById i s) ac_hashedPassword"

definition updateUserDisplayName :: "string \<Rightarrow> string \<Rightarrow> auth_db \<Rightarrow> auth_db" where
  "updateUserDisplayName i name s = fst (update_user i (\<lambda>u. u\<lparr>ac_name := Some name\<rparr>) s)"

definition updateTwoFactorSecret :: "string \<Rightarrow> string option \<Rightarrow> auth_db \<Rightarrow> auth_db" where
  "updateTwoFactorSecret i sec s = fst (update_user i (\<lambda>u. u\<lparr>ac_twoFactorSecret := sec\<rparr>) s)"

definition getTwoFactorSecret :: "string \<Rightarrow> auth_db \<Rightarrow> string option" where
  "getTwoFactorSecret i s = Option.bind (getUserById i s) ac_twoFactorSecret"

definition setTwoFactorEnabled :: "string \<Rightarrow> bool \<Rightarrow> auth_db \<Rightarrow> auth_db" where
  "setTwoFactorEnabled i on s = fst (update_user i (\<lambda>u. u\<lparr>ac_twoFactorEnabled := on\<rparr>) s)"

definition createAuditLog :: "bool \<Rightarrow> string \<Rightarrow> string \<Rightarrow> auth_db \<Rightarrow> auth_db" where
  "createAuditLog up i action s = (if up then s\<lparr>ad_audit := ad_audit s @ [(i, action)]\<rparr> else s)"

definition countAdmins :: "auth_db \<Rightarrow> nat" where
  "countAdmins s = length (filter (\<lambda>u. ac_role u = ''admin'') (ad_users s))"

definition updateUserRole :: "string \<Rightarrow> string \<Rightarrow> auth_db \<Rightarrow> auth_db \<times> (string \<times> string) option" where
  "updateUserRole i role s =
     (case update_user i (\<lambda>u. u\<lparr>ac_role := role\<rparr>) s of (s', ok) \<Rightarrow> (s', if ok then Some (i, role) else None))"

section \<open>Tokens sent by mail\<close>

definition createVerificationToken :: "string \<Rightarrow> string \<Rightarrow> token_purpose \<Rightarrow> ms \<Rightarrow> auth_db \<Rightarrow> auth_db option" where
  "createVerificationToken identifier hashed purpose expires s =
     (if list_ex (\<lambda>v. vt_token v = hashed) (ad_tokens s) then None
      else Some (s\<lparr>ad_tokens := ad_tokens s @ [\<lparr>vt_identifier = identifier, vt_token = hashed, vt_purpose = purpose,
        vt_expires = expires\<rparr>]\<rparr>))"

definition findVerificationToken :: "ms \<Rightarrow> string \<Rightarrow> token_purpose \<Rightarrow> auth_db \<Rightarrow> verification_token option" where
  "findVerificationToken now hashed purpose s =
     List.find (\<lambda>v. vt_token v = hashed \<and> vt_purpose v = purpose \<and> now < vt_expires v) (ad_tokens s)"

definition deleteVerificationToken :: "string \<Rightarrow> token_purpose \<Rightarrow> auth_db \<Rightarrow> auth_db" where
  "deleteVerificationToken hashed purpose s =
     s\<lparr>ad_tokens := filter (\<lambda>v. \<not> (vt_token v = hashed \<and> vt_purpose v = purpose)) (ad_tokens s)\<rparr>"

section \<open>Sessions\<close>

definition createUserSession :: "ms \<Rightarrow> string \<Rightarrow> string \<Rightarrow> string option \<Rightarrow> string option \<Rightarrow> auth_db \<Rightarrow> auth_db option" where
  "createUserSession now sid uid device ip s =
     (if list_ex (\<lambda>r. sn_id r = sid) (ad_sessions s) \<or> getUserById uid s = None then None
      else Some (s\<lparr>ad_sessions := ad_sessions s @ [\<lparr>sn_id = sid, sn_userId = uid, sn_deviceName = device, sn_ip = ip,
        sn_createdAt = now, sn_lastActiveAt = now\<rparr>]\<rparr>))"

definition findSession :: "string \<Rightarrow> auth_db \<Rightarrow> bool" where
  "findSession sid s = list_ex (\<lambda>r. sn_id r = sid) (ad_sessions s)"

definition updateSessionLastActive :: "ms \<Rightarrow> string \<Rightarrow> auth_db \<Rightarrow> auth_db" where
  "updateSessionLastActive now sid s =
     s\<lparr>ad_sessions := map (\<lambda>r. if sn_id r = sid then r\<lparr>sn_lastActiveAt := now\<rparr> else r) (ad_sessions s)\<rparr>"

definition listUserSessions :: "string \<Rightarrow> auth_db \<Rightarrow> session_row list" where
  "listUserSessions uid s = sort_key sn_createdAt (filter (\<lambda>r. sn_userId r = uid) (ad_sessions s))"

definition revokeUserSession :: "string \<Rightarrow> string \<Rightarrow> auth_db \<Rightarrow> auth_db" where
  "revokeUserSession sid uid s =
     s\<lparr>ad_sessions := filter (\<lambda>r. \<not> (sn_id r = sid \<and> sn_userId r = uid)) (ad_sessions s)\<rparr>"

definition deleteUserSessions :: "string \<Rightarrow> auth_db \<Rightarrow> auth_db" where
  "deleteUserSessions uid s = s\<lparr>ad_sessions := filter (\<lambda>r. sn_userId r \<noteq> uid) (ad_sessions s)\<rparr>"

section \<open>Passwords\<close>

definition PASSWORD_MIN :: nat where "PASSWORD_MIN = 10"
definition PASSWORD_MAX :: nat where "PASSWORD_MAX = 128"

text \<open>The first message of \<open>passwordSchema\<close>, or \<open>None\<close> for an accepted password.\<close>

definition passwordSchema :: "string \<Rightarrow> string option" where
  "passwordSchema pw =
     (if length pw < PASSWORD_MIN then Some ''Password must be at least 10 characters''
      else if PASSWORD_MAX < length pw then Some ''Password must be at most 128 characters''
      else if \<not> list_ex (\<lambda>c. 65 \<le> (of_char c :: nat) \<and> (of_char c :: nat) \<le> 90) pw
        then Some ''Password must contain at least one uppercase letter''
      else if \<not> list_ex (\<lambda>c. 97 \<le> (of_char c :: nat) \<and> (of_char c :: nat) \<le> 122) pw
        then Some ''Password must contain at least one lowercase letter''
      else if \<not> list_ex (\<lambda>c. 48 \<le> (of_char c :: nat) \<and> (of_char c :: nat) \<le> 57) pw
        then Some ''Password must contain at least one number''
      else None)"

definition verifyAccountPassword :: "externals \<Rightarrow> string \<Rightarrow> string \<Rightarrow> auth_db \<Rightarrow> bool option" where
  "verifyAccountPassword ex i password s =
     (case getUserPasswordHash i s of None \<Rightarrow> Some False
      | Some h \<Rightarrow> if h = [] then Some False else ex_compare ex password h)"

definition hashToken :: "externals \<Rightarrow> string \<Rightarrow> string" where
  "hashToken ex raw = ex_sha256 ex raw"

text \<open>\<open>generateToken\<close> from 32 random bytes.\<close>

definition generateToken :: "externals \<Rightarrow> nat list \<Rightarrow> string \<times> string" where
  "generateToken ex random = (let raw = to_hex random in (raw, hashToken ex raw))"

definition recordAuthEvent :: "auth_event \<Rightarrow> ms \<Rightarrow> auth_db \<Rightarrow> auth_db" where
  "recordAuthEvent e now s = s\<lparr>ad_events := ad_events s @ [(e, now)]\<rparr>"

section \<open>What every statement keeps\<close>

text \<open>The unique keys of the tables.\<close>

definition auth_ok :: "auth_db \<Rightarrow> bool" where
  "auth_ok s \<longleftrightarrow> distinct (map ac_id (ad_users s)) \<and> distinct (map ac_email (ad_users s))
     \<and> distinct (map vt_token (ad_tokens s)) \<and> distinct (map sn_id (ad_sessions s))"

lemma auth_okD:
  assumes "auth_ok s"
  shows "distinct (map ac_id (ad_users s))" "distinct (map ac_email (ad_users s))"
    "distinct (map vt_token (ad_tokens s))" "distinct (map sn_id (ad_sessions s))"
  using assms by (simp_all add: auth_ok_def)

text \<open>Rows of other tables do not matter to a statement on users.\<close>

lemma update_users_simps [simp]:
  "ad_users (fst (update_users P f s)) = map (\<lambda>u. if P u then f u else u) (ad_users s)"
  "ad_sessions (fst (update_users P f s)) = ad_sessions s" "ad_tokens (fst (update_users P f s)) = ad_tokens s"
  "ad_rates (fst (update_users P f s)) = ad_rates s" "ad_events (fst (update_users P f s)) = ad_events s"
  "ad_settings (fst (update_users P f s)) = ad_settings s" "ad_accounts (fst (update_users P f s)) = ad_accounts s"
  "snd (update_users P f s) = list_ex P (ad_users s)"
  by (simp_all add: update_users_def)

lemma update_user_simps [simp]:
  "ad_users (fst (update_user i f s)) = map (\<lambda>u. if ac_id u = i then f u else u) (ad_users s)"
  "ad_sessions (fst (update_user i f s)) = ad_sessions s" "ad_tokens (fst (update_user i f s)) = ad_tokens s"
  "ad_rates (fst (update_user i f s)) = ad_rates s" "ad_events (fst (update_user i f s)) = ad_events s"
  "ad_settings (fst (update_user i f s)) = ad_settings s" "ad_accounts (fst (update_user i f s)) = ad_accounts s"
  "snd (update_user i f s) \<longleftrightarrow> getUserById i s \<noteq> None"
  by (simp_all add: update_user_def getUserById_def find_None_iff list_ex_iff) blast?

lemma find_map_if:
  "(\<And>u. Q (f u) = Q u) \<Longrightarrow> List.find Q (map (\<lambda>u. if P u then f u else u) us) = map_option (\<lambda>u. if P u then f u else u) (List.find Q us)"
  by (induction us) auto

lemma getUserById_update:
  "(\<And>u. ac_id (f u) = ac_id u) \<Longrightarrow>
   getUserById j (fst (update_user i f s)) = (if j = i then map_option f (getUserById j s) else getUserById j s)"
  unfolding getUserById_def update_user_simps
  by (subst find_map_if) (auto simp: find_Some_iff intro!: option.map_cong map_option_idI)

lemma getUserById_mem:
  assumes "auth_ok s"
  shows "getUserById i s = Some u \<longleftrightarrow> u \<in> set (ad_users s) \<and> ac_id u = i"
proof
  assume "getUserById i s = Some u"
  then show "u \<in> set (ad_users s) \<and> ac_id u = i"
    by (auto simp: getUserById_def find_Some_iff)
next
  assume u: "u \<in> set (ad_users s) \<and> ac_id u = i"
  then obtain v where v: "getUserById i s = Some v"
    by (cases "getUserById i s") (auto simp: getUserById_def find_None_iff)
  then have "v \<in> set (ad_users s) \<and> ac_id v = i"
    by (auto simp: getUserById_def find_Some_iff)
  then show "getUserById i s = Some u"
    using u v auth_okD(1)[OF assms] by (auto simp: distinct_map inj_on_def)
qed

lemma getUserByEmail_SomeD:
  "getUserByEmail e s = Some u \<Longrightarrow> u \<in> set (ad_users s) \<and> ac_email u = e \<and> ac_deletedAt u = None"
  by (auto simp: getUserByEmail_def find_Some_iff)

lemma getUserByEmail_mem:
  assumes "auth_ok s" "u \<in> set (ad_users s)" "ac_email u = e" "ac_deletedAt u = None"
  shows "getUserByEmail e s = Some u"
proof -
  obtain v where v: "getUserByEmail e s = Some v"
    using assms(2-4) by (cases "getUserByEmail e s") (auto simp: getUserByEmail_def find_None_iff)
  then show ?thesis
    using getUserByEmail_SomeD[OF v] assms auth_okD(2)[OF assms(1)] by (auto simp: distinct_map inj_on_def)
qed

text \<open>A statement that leaves ids and addresses alone keeps the keys.\<close>

lemma auth_ok_update_users [inv_intros]:
  assumes "auth_ok s" "\<And>u. ac_id (f u) = ac_id u" "\<And>u. ac_email (f u) = ac_email u"
  shows "auth_ok (fst (update_users P f s))"
proof -
  have "map ac_id (map (\<lambda>u. if P u then f u else u) us) = map ac_id us"
    "map ac_email (map (\<lambda>u. if P u then f u else u) us) = map ac_email us" for us
    by (induction us) (simp_all add: assms(2,3))
  then show ?thesis
    using assms(1) unfolding auth_ok_def update_users_simps by metis
qed

lemma auth_ok_update_user [inv_intros]:
  "auth_ok s \<Longrightarrow> (\<And>u. ac_id (f u) = ac_id u) \<Longrightarrow> (\<And>u. ac_email (f u) = ac_email u) \<Longrightarrow> auth_ok (fst (update_user i f s))"
  unfolding update_user_def by (rule auth_ok_update_users)

lemma auth_ok_frame [inv_intros]:
  "auth_ok s \<Longrightarrow> auth_ok (s\<lparr>ad_rates := r\<rparr>)" "auth_ok s \<Longrightarrow> auth_ok (recordAuthEvent e now s)"
  "auth_ok s \<Longrightarrow> auth_ok (createAuditLog up i a s)" "auth_ok s \<Longrightarrow> auth_ok (s\<lparr>ad_accounts := l\<rparr>)"
  by (simp_all add: auth_ok_def recordAuthEvent_def createAuditLog_def)

lemma auth_ok_tokens [inv_intros]:
  "auth_ok s \<Longrightarrow> createVerificationToken e h p x s = Some s' \<Longrightarrow> auth_ok s'"
  "auth_ok s \<Longrightarrow> auth_ok (deleteVerificationToken h p s)"
  by (auto simp: auth_ok_def createVerificationToken_def deleteVerificationToken_def list_ex_iff distinct_map_filter
      split: if_splits)

lemma map_sn_id_touch: "map sn_id (map (\<lambda>r. if sn_id r = i then r\<lparr>sn_lastActiveAt := now\<rparr> else r) rs) = map sn_id rs"
  by (induction rs) auto

lemma auth_ok_sessions [inv_intros]:
  "auth_ok s \<Longrightarrow> createUserSession now sid uid d ip s = Some s' \<Longrightarrow> auth_ok s'"
  "auth_ok s \<Longrightarrow> auth_ok (updateSessionLastActive now sid s)"
  "auth_ok s \<Longrightarrow> auth_ok (revokeUserSession sid uid s)" "auth_ok s \<Longrightarrow> auth_ok (deleteUserSessions uid s)"
  by (auto simp: auth_ok_def createUserSession_def updateSessionLastActive_def revokeUserSession_def deleteUserSessions_def
      list_ex_iff distinct_map_filter map_sn_id_touch simp del: map_map split: if_splits)

lemma auth_ok_insert [inv_intros]:
  "auth_ok s \<Longrightarrow> create_user_row b u s = Inr s' \<Longrightarrow> auth_ok s'"
  by (auto simp: auth_ok_def create_user_row_def insert_user_def list_ex_iff image_iff split: if_splits option.splits) blast+

text \<open>An account created while first registrations are serialised is the only real one.\<close>

lemma create_first_user:
  "create_user_row True u s = Inr s' \<Longrightarrow> filter real_user (ad_users s') = filter real_user [u]"
  by (auto simp: create_user_row_def insert_user_def list_ex_iff filter_empty_conv split: if_splits option.splits)

end
