(* ===== verification/Sign_In.thy ===== *)
theory Sign_In
  imports Accounts
begin

text \<open>
  Signing in with a password: the credentials provider and the callbacks of \<open>apps/web/src/auth.ts\<close>, the
  validation of a session (\<open>apps/web/src/lib/auth/session-validators.ts\<close>) and the provisioning of Google
  sign-ins (\<open>provision-user.ts\<close>). \<open>up\<close> says which database call succeeds. A request runs at one time
  \<open>now\<close>. The row read by the first statement is an argument of \<open>authorize_user\<close>, so concurrent requests
  that read it before each other's writes are expressible. The impersonation provider of development
  builds is left out.
\<close>

section \<open>Deployment\<close>

datatype registration_mode = Owner_First | Open_Registration | Disabled

record web_env =
  we_production :: bool
  we_AUTH_SECRET :: "string option"
  we_NEXTAUTH_SECRET :: "string option"
  we_AUTH_MODE :: "string option"
  we_REGISTRATION_MODE :: registration_mode

definition missing :: "string option \<Rightarrow> bool" where
  "missing v \<longleftrightarrow> (case v of None \<Rightarrow> True | Some s \<Rightarrow> s = [])"

text \<open>\<open>assertProductionSecurity\<close> does not throw.\<close>

definition production_secure :: "web_env \<Rightarrow> bool" where
  "production_secure env \<longleftrightarrow>
     \<not> (we_production env \<and> missing (we_AUTH_SECRET env) \<and> missing (we_NEXTAUTH_SECRET env))
     \<and> \<not> (we_AUTH_MODE env = Some ''legacy'' \<and> we_production env)"

section \<open>The credentials provider\<close>

datatype auth_call = Fetch_User | Count_Failure | Clear_Lockout | Limit_2fa | Use_Backup_Code | Count_2fa_Failure
  | Clear_2fa_Lockout | Insert_Session | Validate_Session | Touch_Session
  | Limit_Request

text \<open>The errors that leave the provider or the callbacks; \<open>Insecure\<close> and \<open>Library_Threw\<close> are not
  authentication errors of the framework.\<close>

datatype auth_error = ACCOUNT_LOCKED | AUTH_SYSTEM_ERROR | TwoFa_Required | TwoFa_Locked | TwoFa_System_Error
  | TwoFa_Rate_Limited | Invalid_2fa_Code | SESSION_SYSTEM_ERROR | Insecure | Library_Threw

record credentials =
  cr_email :: "string option"
  cr_password :: "string option"
  cr_totpCode :: "string option"
  cr_rememberMe :: "string option"
  cr_deviceName :: "string option"
  cr_ip :: "string option"

record auth_user =
  au_id :: string
  au_email :: string
  au_name :: "string option"
  au_tokenVersion :: int
  au_emailVerified :: "ms option"
  au_sessionId :: string
  au_deviceName :: "string option"
  au_ip :: "string option"
  au_rememberMe :: bool

text \<open>How the second factor was given.\<close>

datatype factor = By_Totp | By_Backup_Code string

definition or_empty :: "string option \<Rightarrow> string" where
  "or_empty v = (case v of None \<Rightarrow> [] | Some s \<Rightarrow> s)"

definition or_null :: "string \<Rightarrow> string option" where
  "or_null s = (if s = [] then None else Some s)"

definition in_future :: "ms option \<Rightarrow> ms \<Rightarrow> bool" where
  "in_future t now \<longleftrightarrow> (case t of None \<Rightarrow> False | Some u \<Rightarrow> now < u)"

text \<open>The conditional statement that takes one backup code out of the row as it is now.\<close>

definition consume_backup_code :: "string \<Rightarrow> string \<Rightarrow> auth_db \<Rightarrow> auth_db \<times> bool" where
  "consume_backup_code i h =
     update_users (\<lambda>u. ac_id u = i \<and> (case ac_twoFactorBackupCodes u of None \<Rightarrow> False | Some hs \<Rightarrow> h \<in> set hs))
       (\<lambda>u. u\<lparr>ac_twoFactorBackupCodes := map_option (removeAll h) (ac_twoFactorBackupCodes u)\<rparr>)"

fun try_backup_codes :: "externals \<Rightarrow> (auth_call \<Rightarrow> bool) \<Rightarrow> string \<Rightarrow> string \<Rightarrow> string list \<Rightarrow> auth_db
    \<Rightarrow> auth_db \<times> (auth_error + factor option)" where
  "try_backup_codes ex up i code [] s = (s, Inr None)"
| "try_backup_codes ex up i code (h # hs) s =
     (case ex_compare ex code h of
        None \<Rightarrow> (s, Inl Library_Threw)
      | Some False \<Rightarrow> try_backup_codes ex up i code hs s
      | Some True \<Rightarrow>
          if \<not> up Use_Backup_Code then (s, Inl TwoFa_System_Error)
          else (case consume_backup_code i h s of (s', updated) \<Rightarrow>
            (s', if updated then Inr (Some (By_Backup_Code h)) else Inl TwoFa_System_Error)))"

definition verify_code :: "externals \<Rightarrow> (auth_call \<Rightarrow> bool) \<Rightarrow> ms \<Rightarrow> user_row \<Rightarrow> string \<Rightarrow> auth_db
    \<Rightarrow> auth_db \<times> (auth_error + factor option)" where
  "verify_code ex up now u code s =
     (let backup = (case ac_twoFactorBackupCodes u of None \<Rightarrow> (s, Inr None)
                    | Some hs \<Rightarrow> try_backup_codes ex up (ac_id u) code hs s) in
      case decryptSecret (ex_cipher ex) (ex_encryptionKey ex) (ac_twoFactorSecret u) of
        None \<Rightarrow> backup
      | Some secret \<Rightarrow>
          if secret = [] then backup
          else (case ex_totp ex secret code now of
              None \<Rightarrow> (s, Inl Library_Threw)
            | Some ok \<Rightarrow> if ok then (s, Inr (Some By_Totp)) else backup))"

definition count_failed_2fa :: "ms \<Rightarrow> user_row \<Rightarrow> user_row" where
  "count_failed_2fa now u = u\<lparr>ac_failed2faAttempts := ac_failed2faAttempts u + 1,
     ac_twoFactorLockedUntil := (if ac_failed2faAttempts u + 1 \<ge> 5 then Some (now + LOCKOUT_MS) else None)\<rparr>"

definition clear_2fa_lockout :: "user_row \<Rightarrow> user_row" where
  "clear_2fa_lockout u = u\<lparr>ac_failed2faAttempts := 0, ac_twoFactorLockedUntil := None\<rparr>"

text \<open>The branch of \<open>authorize\<close> for accounts with a second factor; \<open>u\<close> is the row read at its start.\<close>

definition second_factor :: "externals \<Rightarrow> (auth_call \<Rightarrow> bool) \<Rightarrow> ms \<Rightarrow> user_row \<Rightarrow> string \<Rightarrow> auth_db
    \<Rightarrow> auth_db \<times> (auth_error + factor)" where
  "second_factor ex up now u code s =
     (if code = [] then (s, Inl TwoFa_Required)
      else if in_future (ac_twoFactorLockedUntil u) now then (s, Inl TwoFa_Locked)
      else if \<not> up Limit_2fa then (s, Inl TwoFa_System_Error)
      else case withRateLimit (ac_id u) ''2fa_verify'' 10 now (ad_rates s) of (rates, rl) \<Rightarrow>
        let s1 = s\<lparr>ad_rates := rates\<rparr> in
        if \<not> rr_allowed rl then (s1, Inl TwoFa_Rate_Limited)
        else (case verify_code ex up now u code s1 of
            (s2, Inl e) \<Rightarrow> (s2, Inl e)
          | (s2, Inr None) \<Rightarrow>
              let s3 = recordAuthEvent TwoFa_Failure now s2 in
              if \<not> up Count_2fa_Failure then (s3, Inl TwoFa_System_Error)
              else (case update_user (ac_id u) (count_failed_2fa now) s3 of (s4, updated) \<Rightarrow>
                (s4, Inl (if updated then Invalid_2fa_Code else TwoFa_System_Error)))
          | (s2, Inr (Some f)) \<Rightarrow>
              if \<not> up Clear_2fa_Lockout then (s2, Inl TwoFa_System_Error)
              else (case update_user (ac_id u) clear_2fa_lockout s2 of (s3, updated) \<Rightarrow>
                (s3, if updated then Inr f else Inl TwoFa_System_Error))))"

definition signed_in_user :: "string \<Rightarrow> user_row \<Rightarrow> credentials \<Rightarrow> auth_user" where
  "signed_in_user sessionId u c =
     \<lparr>au_id = ac_id u, au_email = ac_email u, au_name = ac_name u, au_tokenVersion = ac_tokenVersion u,
      au_emailVerified = ac_emailVerified u, au_sessionId = sessionId,
      au_deviceName = Option.bind (cr_deviceName c) (\<lambda>d. or_null (take 255 d)), au_ip = Option.bind (cr_ip c) or_null,
      au_rememberMe = (cr_rememberMe c = Some ''true'')\<rparr>"

text \<open>\<open>authorize\<close> after the row \<open>u\<close> has been read, with a password hash \<open>h\<close>.\<close>

definition authorize_user :: "externals \<Rightarrow> (auth_call \<Rightarrow> bool) \<Rightarrow> ms \<Rightarrow> string \<Rightarrow> user_row \<Rightarrow> string \<Rightarrow> string \<Rightarrow> credentials
    \<Rightarrow> auth_db \<Rightarrow> auth_db \<times> (auth_error + auth_user option)" where
  "authorize_user ex up now sessionId u h password c s =
     (if in_future (ac_lockedUntil u) now then (recordAuthEvent Account_Locked now s, Inl ACCOUNT_LOCKED)
      else case ex_compare ex password h of
        None \<Rightarrow> (s, Inr None)
      | Some False \<Rightarrow>
          if \<not> up Count_Failure then (s, Inl AUTH_SYSTEM_ERROR)
          else (case incrementFailedLogins now (ac_id u) s of (s1, updated) \<Rightarrow>
            (s1, if updated then Inr None else Inl AUTH_SYSTEM_ERROR))
      | Some True \<Rightarrow>
          if \<not> up Clear_Lockout then (s, Inl AUTH_SYSTEM_ERROR)
          else (case resetLoginLockout (ac_id u) s of (s1, updated) \<Rightarrow>
            if \<not> updated then (s1, Inl AUTH_SYSTEM_ERROR)
            else if ac_twoFactorEnabled u
            then (case second_factor ex up now u (js_trim (or_empty (cr_totpCode c))) s1 of
                (s2, Inl e) \<Rightarrow> (s2, Inl e)
              | (s2, Inr _) \<Rightarrow> (s2, Inr (Some (signed_in_user sessionId u c))))
            else (s1, Inr (Some (signed_in_user sessionId u c)))))"

definition DUMMY_HASH :: string where
  "DUMMY_HASH = ''$2b$12$LyYuAYJhLrPU7mAIQPzVNu5HBJ/neEmE2uZZDD5ayPPROn5ruSaJ2''"

definition authorize :: "web_env \<Rightarrow> externals \<Rightarrow> (auth_call \<Rightarrow> bool) \<Rightarrow> ms \<Rightarrow> string \<Rightarrow> credentials \<Rightarrow> auth_db
    \<Rightarrow> auth_db \<times> (auth_error + auth_user option)" where
  "authorize env ex up now sessionId c s =
     (let email = js_trim (toLowerCase (or_empty (cr_email c))); password = or_empty (cr_password c) in
      if \<not> production_secure env then (s, Inl Insecure)
      else if email = [] \<or> password = [] then (s, Inr None)
      else if \<not> up Fetch_User then (s, Inr None)
      else case getUserByEmail email s of
          None \<Rightarrow> (s, if ex_compare ex password DUMMY_HASH = None then Inl Library_Threw else Inr None)
        | Some u \<Rightarrow> if missing (ac_hashedPassword u)
            then (s, if ex_compare ex password DUMMY_HASH = None then Inl Library_Threw else Inr None)
            else authorize_user ex up now sessionId u (or_empty (ac_hashedPassword u)) password c s)"

section \<open>The callbacks\<close>

record jwt_token =
  tk_id :: "string option"
  tk_tokenVersion :: "int option"
  tk_emailVerified :: "ms option"
  tk_rememberMe :: bool
  tk_sessionId :: "string option"
  tk_iat :: "int option"
  tk_tvCheckedAt :: "int option"
  tk_lastActiveUpdate :: "int option"

text \<open>\<open>jwt\<close>: with a user at sign-in, without one afterwards.\<close>

definition jwt :: "web_env \<Rightarrow> (auth_call \<Rightarrow> bool) \<Rightarrow> ms \<Rightarrow> string \<Rightarrow> auth_user option \<Rightarrow> jwt_token \<Rightarrow> auth_db
    \<Rightarrow> auth_db \<times> (auth_error + jwt_token)" where
  "jwt env up now uuid user token s =
     (let default_version = (\<lambda>t. t\<lparr>tk_tokenVersion := Some (case tk_tokenVersion t of None \<Rightarrow> 0 | Some v \<Rightarrow> v)\<rparr>) in
      if \<not> production_secure env then (s, Inl Insecure)
      else case user of None \<Rightarrow> (s, Inr (default_version token))
        | Some u \<Rightarrow>
            let sid = (if au_sessionId u = [] then uuid else au_sessionId u);
                t = token\<lparr>tk_id := Some (au_id u), tk_tokenVersion := Some (au_tokenVersion u),
                  tk_emailVerified := au_emailVerified u, tk_rememberMe := au_rememberMe u, tk_sessionId := Some sid\<rparr> in
            case (if up Insert_Session then createUserSession now sid (au_id u) (au_deviceName u) (au_ip u) s else None) of
                None \<Rightarrow> (s, Inl SESSION_SYSTEM_ERROR)
              | Some s' \<Rightarrow> (s', Inr (default_version t)))"

definition TV_CHECK_INTERVAL_SECONDS :: int where "TV_CHECK_INTERVAL_SECONDS = 60"
definition LAST_ACTIVE_INTERVAL_SECONDS :: int where "LAST_ACTIVE_INTERVAL_SECONDS = 900"
definition SESSION_AGE_LIMIT_SECONDS :: int where "SESSION_AGE_LIMIT_SECONDS = 86400"

text \<open>\<open>!last || now - last > interval\<close>; a time of zero counts as missing.\<close>

definition due :: "int option \<Rightarrow> int \<Rightarrow> int \<Rightarrow> bool" where
  "due since interval now \<longleftrightarrow> (case since of None \<Rightarrow> True | Some t \<Rightarrow> t = 0 \<or> now - t > interval)"

text \<open>The joined row of the user and the session, as the check reads it.\<close>

definition session_current :: "jwt_token \<Rightarrow> auth_db \<Rightarrow> bool" where
  "session_current token s \<longleftrightarrow>
     (case tk_id token of None \<Rightarrow> False | Some uid \<Rightarrow>
        uid \<noteq> [] \<and> (case getUserById uid s of None \<Rightarrow> False | Some u \<Rightarrow>
          tk_tokenVersion token = Some (ac_tokenVersion u)
          \<and> or_empty (tk_sessionId token) \<noteq> [] \<and> findSession (or_empty (tk_sessionId token)) s))"

text \<open>\<open>validateSession\<close>: the token with its time stamps, and whether the session stays valid.\<close>

definition validateSession :: "bool \<Rightarrow> (auth_call \<Rightarrow> bool) \<Rightarrow> ms \<Rightarrow> int \<Rightarrow> jwt_token \<Rightarrow> auth_db
    \<Rightarrow> auth_db \<times> jwt_token \<times> bool" where
  "validateSession failClosed up now nowSeconds token s =
     (let touch = (\<lambda>t.
        if or_empty (tk_sessionId t) \<noteq> [] \<and> due (tk_lastActiveUpdate t) LAST_ACTIVE_INTERVAL_SECONDS nowSeconds
        then if up Touch_Session
             then (updateSessionLastActive now (or_empty (tk_sessionId t)) s, t\<lparr>tk_lastActiveUpdate := Some nowSeconds\<rparr>, True)
             else (s, t, \<not> failClosed)
        else (s, t, True)) in
      if (case tk_iat token of None \<Rightarrow> False | Some iat \<Rightarrow>
           iat \<noteq> 0 \<and> \<not> tk_rememberMe token \<and> nowSeconds - iat > SESSION_AGE_LIMIT_SECONDS) then (s, token, False)
      else if due (tk_tvCheckedAt token) TV_CHECK_INTERVAL_SECONDS nowSeconds
      then if missing (tk_id token) then (s, token, False)
           else if \<not> up Validate_Session then if failClosed then (s, token, False) else touch token
           else if \<not> session_current token s then (s, token, False)
           else touch (token\<lparr>tk_tvCheckedAt := Some nowSeconds\<rparr>)
      else touch token)"

text \<open>The \<open>session\<close> callback: the user is in the session when the validation keeps it; \<open>hasDb\<close> says
  whether \<open>getDb\<close> succeeds.\<close>

definition session_callback :: "web_env \<Rightarrow> bool \<Rightarrow> (auth_call \<Rightarrow> bool) \<Rightarrow> ms \<Rightarrow> jwt_token \<Rightarrow> auth_db
    \<Rightarrow> auth_db \<times> (auth_error + jwt_token \<times> string option)" where
  "session_callback env hasDb up now token s =
     (if \<not> production_secure env then (s, Inl Insecure)
      else if \<not> hasDb then (s, Inr (token, None))
      else case validateSession True up now (now div 1000) token s of (s', token', valid) \<Rightarrow>
        (s', Inr (token', if valid then tk_id token else None)))"

section \<open>Google\<close>

record google_profile =
  gp_email :: "string option"
  gp_email_verified :: "bool option"
  gp_name :: "string option"

record identity =
  if_id :: string
  if_tokenVersion :: int
  if_emailVerified :: ms
  if_rememberMe :: bool
  if_sessionId :: string

datatype sign_in_decision = Allow "identity option" | Deny

definition link_account :: "account_link \<Rightarrow> auth_db \<Rightarrow> auth_db" where
  "link_account a s =
     (if list_ex (\<lambda>b. al_provider b = al_provider a \<and> al_providerAccountId b = al_providerAccountId a) (ad_accounts s) then s
      else s\<lparr>ad_accounts := ad_accounts s @ [a]\<rparr>)"

text \<open>\<open>account\<close> is the provider and its account id; a constraint violation is thrown on.\<close>

definition provisionUserOnSignIn :: "registration_mode \<Rightarrow> ms \<Rightarrow> string \<Rightarrow> string \<Rightarrow> (string \<times> string) option \<Rightarrow> google_profile \<Rightarrow> auth_db
    \<Rightarrow> auth_db \<times> (create_error + sign_in_decision)" where
  "provisionUserOnSignIn mode now uuid sessionId account profile s =
     (case account of None \<Rightarrow> (s, Inr (Allow None))
      | Some (provider, accountId) \<Rightarrow>
          if provider \<noteq> ''google'' then (s, Inr (Allow None))
          else if missing (gp_email profile) \<or> gp_email_verified profile = Some False then (s, Inr Deny)
          else
            let email = js_trim (toLowerCase (or_empty (gp_email profile)));
                existing = getUserByEmail email s;
                finish = (\<lambda>uid s1.
                  (link_account \<lparr>al_userId = uid, al_provider = ''google'', al_providerAccountId = accountId\<rparr> s1,
                   Inr (Allow (Some \<lparr>if_id = uid, if_tokenVersion = (case existing of None \<Rightarrow> 0 | Some u \<Rightarrow> ac_tokenVersion u),
                     if_emailVerified = now, if_rememberMe = True, if_sessionId = sessionId\<rparr>)))) in
            case existing of
              Some u \<Rightarrow> finish (ac_id u) (fst (update_user (ac_id u) (\<lambda>v. v\<lparr>ac_emailVerified := Some now\<rparr>) s))
            | None \<Rightarrow>
                if mode = Disabled then (s, Inr Deny)
                else (case create_user_row (mode = Owner_First)
                    (new_user now uuid email (case gp_name profile of None \<Rightarrow> email | Some n \<Rightarrow> n) (Some now) None) s of
                  Inl INITIAL_USER_ALREADY_EXISTS \<Rightarrow> (s, Inr Deny)
                | Inl e \<Rightarrow> (s, Inl e)
                | Inr s1 \<Rightarrow> finish uuid s1))"

section \<open>Both factors\<close>

lemma getUserByEmail_update:
  assumes "getUserByEmail e s = Some u" "\<And>v. ac_email (f v) = ac_email v" "\<And>v. ac_deletedAt (f v) = ac_deletedAt v"
  shows "getUserByEmail e (fst (update_user (ac_id u) f s)) = Some (f u)"
  using assms(1) unfolding getUserByEmail_def update_user_simps by (subst find_map_if) (simp_all add: assms(2,3))

lemma getUserByEmail_ids: "auth_ok s \<Longrightarrow> getUserByEmail e s = Some u \<Longrightarrow> getUserById (ac_id u) s = Some u"
  using getUserByEmail_SomeD getUserById_mem by blast

lemma getUserByEmail_frame [simp]:
  "getUserByEmail e (s\<lparr>ad_rates := r\<rparr>) = getUserByEmail e s" "getUserByEmail e (recordAuthEvent ev now s) = getUserByEmail e s"
  by (simp_all add: getUserByEmail_def recordAuthEvent_def)

lemma getUserById_frame [simp]:
  "getUserById i (s\<lparr>ad_rates := r\<rparr>) = getUserById i s" "getUserById i (recordAuthEvent ev now s) = getUserById i s"
  by (simp_all add: getUserById_def recordAuthEvent_def)

text \<open>The backup codes stored for an account, over all its rows.\<close>

definition codes_of :: "user_row \<Rightarrow> string list" where
  "codes_of u = (case ac_twoFactorBackupCodes u of None \<Rightarrow> [] | Some hs \<Rightarrow> hs)"

definition stored_codes :: "string \<Rightarrow> auth_db \<Rightarrow> string list" where
  "stored_codes i s = concat (map codes_of (filter (\<lambda>u. ac_id u = i) (ad_users s)))"

lemma stored_codes_frame [simp]:
  "stored_codes i (s\<lparr>ad_rates := r\<rparr>) = stored_codes i s" "stored_codes i (recordAuthEvent ev now s) = stored_codes i s"
  by (simp_all add: stored_codes_def recordAuthEvent_def)

lemma in_stored_codes:
  assumes "\<And>v. ac_id (f v) = ac_id v"
  shows "h \<in> set (stored_codes i (fst (update_users P f s)))
     \<longleftrightarrow> (\<exists>u\<in>set (ad_users s). ac_id u = i \<and> h \<in> set (codes_of (if P u then f u else u)))"
  using assms by (auto simp: stored_codes_def)

lemma in_stored_codes_now: "h \<in> set (stored_codes i s) \<longleftrightarrow> (\<exists>u\<in>set (ad_users s). ac_id u = i \<and> h \<in> set (codes_of u))"
  by (auto simp: stored_codes_def)

lemma stored_codes_update:
  assumes "\<And>v. ac_id (f v) = ac_id v" "\<And>v. ac_twoFactorBackupCodes (f v) = ac_twoFactorBackupCodes v"
  shows "set (stored_codes i (fst (update_user j f s))) = set (stored_codes i s)"
proof -
  have "codes_of (if ac_id v = j then f v else v) = codes_of v" for v
    by (simp add: codes_of_def assms(2))
  then have "h \<in> set (stored_codes i (fst (update_user j f s))) \<longleftrightarrow> h \<in> set (stored_codes i s)" for h
    unfolding update_user_def in_stored_codes[OF assms(1)] in_stored_codes_now[of h i s] by simp
  then show ?thesis by blast
qed

lemma codes_without:
  "set (codes_of (if P then u\<lparr>ac_twoFactorBackupCodes := map_option (removeAll h) (ac_twoFactorBackupCodes u)\<rparr> else u))
     = set (codes_of u) - (if P then {h} else {})"
  by (cases "ac_twoFactorBackupCodes u") (auto simp: codes_of_def)

lemma has_code: "(case ac_twoFactorBackupCodes u of None \<Rightarrow> False | Some hs \<Rightarrow> h \<in> set hs) \<longleftrightarrow> h \<in> set (codes_of u)"
  by (auto simp: codes_of_def split: option.splits)

lemma consume_backup_code_eq:
  "snd (consume_backup_code i h s) \<longleftrightarrow> h \<in> set (stored_codes i s)"
  "set (stored_codes j (fst (consume_backup_code i h s))) = set (stored_codes j s) - (if j = i then {h} else {})"
proof -
  show "snd (consume_backup_code i h s) \<longleftrightarrow> h \<in> set (stored_codes i s)"
    by (auto simp: consume_backup_code_def has_code in_stored_codes_now list_ex_iff)
  have "g \<in> set (stored_codes j (fst (consume_backup_code i h s))) \<longleftrightarrow> (\<exists>u\<in>set (ad_users s). ac_id u = j
      \<and> g \<in> set (codes_of u) - (if ac_id u = i \<and> h \<in> set (codes_of u) then {h} else {}))" for g
    unfolding consume_backup_code_def has_code
    by (subst in_stored_codes) (simp_all add: codes_without)
  then have "g \<in> set (stored_codes j (fst (consume_backup_code i h s))) \<longleftrightarrow> (\<exists>u\<in>set (ad_users s). ac_id u = j
      \<and> g \<in> set (codes_of u)) \<and> (j = i \<longrightarrow> g \<noteq> h)" for g
    by (cases "j = i") (auto split: if_splits)
  then show "set (stored_codes j (fst (consume_backup_code i h s))) = set (stored_codes j s) - (if j = i then {h} else {})"
    unfolding in_stored_codes_now[symmetric] by auto
qed

lemma getUserById_update_users:
  "(\<And>u. ac_id (f u) = ac_id u) \<Longrightarrow>
   getUserById j (fst (update_users P f s)) = map_option (\<lambda>u. if P u then f u else u) (getUserById j s)"
  unfolding getUserById_def update_users_simps by (rule find_map_if) simp

lemma getUserById_SomeD: "getUserById i s = Some u \<Longrightarrow> ac_id u = i"
  by (auto simp: getUserById_def find_Some_iff)

lemma consume_frame:
  "getUserById j (fst (consume_backup_code i h s))
     = map_option (\<lambda>u. if j = i \<and> h \<in> set (codes_of u)
         then u\<lparr>ac_twoFactorBackupCodes := map_option (removeAll h) (ac_twoFactorBackupCodes u)\<rparr> else u) (getUserById j s)"
proof -
  have "getUserById j (fst (consume_backup_code i h s))
      = map_option (\<lambda>u. if ac_id u = i \<and> h \<in> set (codes_of u)
         then u\<lparr>ac_twoFactorBackupCodes := map_option (removeAll h) (ac_twoFactorBackupCodes u)\<rparr> else u) (getUserById j s)"
    unfolding consume_backup_code_def has_code by (rule getUserById_update_users) simp
  then show ?thesis
    by (cases "getUserById j s") (auto dest: getUserById_SomeD)
qed

lemma consume_Pair: "consume_backup_code i h s = (s', b) \<longleftrightarrow> s' = fst (consume_backup_code i h s) \<and> b = (h \<in> set (stored_codes i s))"
  using consume_backup_code_eq(1)[of i h s] by (cases "consume_backup_code i h s") auto

lemma update_user_Pair: "update_user i f s = (s', b) \<longleftrightarrow> s' = fst (update_user i f s) \<and> b = (getUserById i s \<noteq> None)"
  using update_user_simps(8)[of i f s] by (cases "update_user i f s") auto

text \<open>A successful check used a stored code through the conditional statement, any other leaves the
  table or only runs that statement.\<close>

lemma try_backup_codes_Some:
  "try_backup_codes ex up i code hs s = (s', Inr (Some f)) \<Longrightarrow>
   \<exists>h. f = By_Backup_Code h \<and> h \<in> set hs \<and> ex_compare ex code h = Some True \<and> consume_backup_code i h s = (s', True)"
  by (induction ex up i code hs s rule: try_backup_codes.induct)
    (auto split: option.splits bool.splits if_splits prod.splits)

lemma try_backup_codes_frame:
  "try_backup_codes ex up i code hs s = (s', r) \<Longrightarrow> s' = s \<or> (\<exists>h. s' = fst (consume_backup_code i h s))"
  by (induction ex up i code hs s rule: try_backup_codes.induct)
    (auto simp: consume_Pair split: option.splits bool.splits if_splits prod.splits)

lemma verify_code_Some:
  assumes "verify_code ex up now u code s = (s', Inr (Some f))"
  shows "(f = By_Totp \<and> s' = s \<and> (\<exists>sec. decryptSecret (ex_cipher ex) (ex_encryptionKey ex) (ac_twoFactorSecret u) = Some sec
        \<and> sec \<noteq> [] \<and> ex_totp ex sec code now = Some True))
    \<or> (\<exists>h. f = By_Backup_Code h \<and> h \<in> set (codes_of u) \<and> ex_compare ex code h = Some True
        \<and> consume_backup_code (ac_id u) h s = (s', True))"
  using assms
  by (auto simp: verify_code_def codes_of_def Let_def dest!: try_backup_codes_Some split: option.splits if_splits)

lemma verify_code_frame:
  assumes "verify_code ex up now u code s = (s', r)"
  shows "s' = s \<or> (\<exists>h. s' = fst (consume_backup_code (ac_id u) h s))"
  using assms by (auto simp: verify_code_def Let_def dest: try_backup_codes_frame split: option.splits if_splits)

lemma second_factor_Inr:
  assumes "second_factor ex up now u code s = (s', Inr f)"
  obtains s1 s2 where "code \<noteq> []" "\<not> in_future (ac_twoFactorLockedUntil u) now" "up Limit_2fa" "up Clear_2fa_Lockout"
    "s1 = s\<lparr>ad_rates := fst (withRateLimit (ac_id u) ''2fa_verify'' 10 now (ad_rates s))\<rparr>"
    "rr_allowed (snd (withRateLimit (ac_id u) ''2fa_verify'' 10 now (ad_rates s)))"
    "verify_code ex up now u code s1 = (s2, Inr (Some f))"
    "s' = fst (update_user (ac_id u) clear_2fa_lockout s2)" "getUserById (ac_id u) s2 \<noteq> None"
  using assms that
  by (auto simp: second_factor_def Let_def update_user_Pair split: if_splits prod.splits sum.splits option.splits)

text \<open>The second factor that was shown, against the row read at the start and the stored codes.\<close>

definition factor_shown :: "externals \<Rightarrow> ms \<Rightarrow> user_row \<Rightarrow> string \<Rightarrow> auth_db \<Rightarrow> auth_db \<Rightarrow> factor \<Rightarrow> bool" where
  "factor_shown ex now u code s s' f \<longleftrightarrow>
     (case f of
        By_Totp \<Rightarrow> (case decryptSecret (ex_cipher ex) (ex_encryptionKey ex) (ac_twoFactorSecret u) of None \<Rightarrow> False
          | Some sec \<Rightarrow> sec \<noteq> [] \<and> ex_totp ex sec code now = Some True)
      | By_Backup_Code h \<Rightarrow> h \<in> set (codes_of u) \<and> ex_compare ex code h = Some True
          \<and> h \<in> set (stored_codes (ac_id u) s) \<and> h \<notin> set (stored_codes (ac_id u) s'))"

lemma second_factor_shown:
  assumes "second_factor ex up now u code s = (s', Inr f)"
  shows "factor_shown ex now u code s s' f"
proof -
  obtain s1 s2 where s: "s1 = s\<lparr>ad_rates := fst (withRateLimit (ac_id u) ''2fa_verify'' 10 now (ad_rates s))\<rparr>"
    "verify_code ex up now u code s1 = (s2, Inr (Some f))" "s' = fst (update_user (ac_id u) clear_2fa_lockout s2)"
    using second_factor_Inr[OF assms] by metis
  have codes: "set (stored_codes (ac_id u) s') = set (stored_codes (ac_id u) s2)"
    "set (stored_codes (ac_id u) s1) = set (stored_codes (ac_id u) s)"
    unfolding s(1,3) by (simp_all add: stored_codes_update clear_2fa_lockout_def)
  show ?thesis
    using verify_code_Some[OF s(2)] codes
    by (auto simp: factor_shown_def consume_Pair consume_backup_code_eq(2))
qed

definition email_of :: "credentials \<Rightarrow> string" where
  "email_of c = js_trim (toLowerCase (or_empty (cr_email c)))"

lemma second_factor_frame:
  assumes "second_factor ex up now u code s = (s', Inr f)"
  shows "j \<noteq> ac_id u \<Longrightarrow> getUserById j s' = getUserById j s"
    and "\<exists>v. getUserById (ac_id u) s' = Some v \<and> ac_failed2faAttempts v = 0 \<and> ac_twoFactorLockedUntil v = None
      \<and> map_option (\<lambda>w. (ac_failedLoginAttempts w, ac_lockedUntil w)) (getUserById (ac_id u) s)
        = Some (ac_failedLoginAttempts v, ac_lockedUntil v)"
proof -
  obtain s1 s2 where s: "s1 = s\<lparr>ad_rates := fst (withRateLimit (ac_id u) ''2fa_verify'' 10 now (ad_rates s))\<rparr>"
    "verify_code ex up now u code s1 = (s2, Inr (Some f))" "s' = fst (update_user (ac_id u) clear_2fa_lockout s2)"
    "getUserById (ac_id u) s2 \<noteq> None"
    using second_factor_Inr[OF assms] by metis
  have upd: "getUserById j s' = (if j = ac_id u then map_option clear_2fa_lockout (getUserById j s2) else getUserById j s2)" for j
    unfolding s(3) by (rule getUserById_update) (simp add: clear_2fa_lockout_def)
  have s2: "s2 = s1 \<or> (\<exists>h. s2 = fst (consume_backup_code (ac_id u) h s1))"
    by (rule verify_code_frame[OF s(2)])
  show "getUserById j s' = getUserById j s" if "j \<noteq> ac_id u"
    using s2 that by (auto simp: upd s(1) consume_frame option.map_ident)
  show "\<exists>v. getUserById (ac_id u) s' = Some v \<and> ac_failed2faAttempts v = 0 \<and> ac_twoFactorLockedUntil v = None
      \<and> map_option (\<lambda>w. (ac_failedLoginAttempts w, ac_lockedUntil w)) (getUserById (ac_id u) s)
        = Some (ac_failedLoginAttempts v, ac_lockedUntil v)"
    using s2 s(4) by (auto simp: upd s(1) consume_frame clear_2fa_lockout_def simp del: map_option_eq_Some)
qed

lemma authorize_account:
  assumes "authorize env ex up now sid c s = (s', Inr (Some a))"
  shows "\<exists>u. getUserByEmail (email_of c) s = Some u \<and> au_id a = ac_id u"
proof -
  have id: "au_id a = ac_id u" if "authorize_user ex up now sid u h pw c s = (s', Inr (Some a))" for u h pw
    using that by (auto simp: authorize_user_def signed_in_user_def split: if_splits option.splits bool.splits sum.splits prod.splits)
  show ?thesis
    using assms by (auto simp: authorize_def email_of_def Let_def dest: id split: if_splits option.splits)
qed

text \<open>
  C11: A sign-in succeeds only for a live account whose lock is over, with the stored password and, where the
  account asks for it, a second factor that is the current one-time code or a backup code that was stored
  and no longer is; every statement it relies on has succeeded. It clears the account's failure counters
  and changes no other account.
\<close>

theorem authorize_sound:
  assumes "auth_ok s" "authorize env ex up now sid c s = (s', Inr (Some a))"
  shows "\<exists>u h v. getUserByEmail (email_of c) s = Some u \<and> ac_hashedPassword u = Some h
    \<and> \<not> in_future (ac_lockedUntil u) now \<and> ex_compare ex (or_empty (cr_password c)) h = Some True
    \<and> a = signed_in_user sid u c \<and> production_secure env \<and> up Fetch_User \<and> up Clear_Lockout
    \<and> (ac_twoFactorEnabled u \<longrightarrow> \<not> in_future (ac_twoFactorLockedUntil u) now \<and> up Limit_2fa \<and> up Clear_2fa_Lockout
        \<and> (\<exists>f. factor_shown ex now u (js_trim (or_empty (cr_totpCode c))) s s' f))
    \<and> getUserById (ac_id u) s' = Some v \<and> ac_failedLoginAttempts v = 0 \<and> ac_lockedUntil v = None
    \<and> (\<forall>j. j \<noteq> ac_id u \<longrightarrow> getUserById j s' = getUserById j s)"
proof -
  let ?pw = "or_empty (cr_password c)" and ?code = "js_trim (or_empty (cr_totpCode c))"
  obtain u where u: "getUserByEmail (email_of c) s = Some u" "\<not> missing (ac_hashedPassword u)" "production_secure env" "up Fetch_User"
    and auth: "authorize_user ex up now sid u (or_empty (ac_hashedPassword u)) ?pw c s = (s', Inr (Some a))"
    using assms(2) by (auto simp: authorize_def email_of_def Let_def split: if_splits option.splits)
  obtain h where h: "ac_hashedPassword u = Some h"
    using u(2) by (auto simp: missing_def split: option.splits)
  define s1 where "s1 = fst (resetLoginLockout (ac_id u) s)"
  have step: "\<not> in_future (ac_lockedUntil u) now" "ex_compare ex ?pw h = Some True" "up Clear_Lockout"
    "if ac_twoFactorEnabled u then \<exists>f. second_factor ex up now u ?code s1 = (s', Inr f) else s' = s1"
    "a = signed_in_user sid u c"
    using auth unfolding s1_def
    by (auto simp: authorize_user_def h or_empty_def resetLoginLockout_def update_user_Pair
        split: if_splits option.splits bool.splits sum.splits prod.splits)
  have id: "getUserById (ac_id u) s = Some u"
    by (rule getUserByEmail_ids[OF assms(1) u(1)])
  have s1: "getUserById j s1 = (if j = ac_id u
      then map_option (\<lambda>u. u\<lparr>ac_failedLoginAttempts := 0, ac_lockedUntil := None\<rparr>) (getUserById j s) else getUserById j s)"
    "set (stored_codes j s1) = set (stored_codes j s)" for j
    unfolding s1_def resetLoginLockout_def by (rule getUserById_update, simp) (rule stored_codes_update, simp_all)
  show ?thesis
  proof (cases "ac_twoFactorEnabled u")
    case False
    then show ?thesis
      using u h step s1 id by auto
  next
    case True
    then obtain f where f: "second_factor ex up now u ?code s1 = (s', Inr f)"
      using step(4) by auto
    then have "\<not> in_future (ac_twoFactorLockedUntil u) now \<and> up Limit_2fa \<and> up Clear_2fa_Lockout"
      by (rule second_factor_Inr) auto
    moreover have "factor_shown ex now u ?code s s' f"
      using second_factor_shown[OF f] s1(2) by (simp add: factor_shown_def split: factor.splits)
    moreover obtain v where "getUserById (ac_id u) s' = Some v" "ac_failedLoginAttempts v = 0" "ac_lockedUntil v = None"
      using second_factor_frame(2)[OF f] s1(1) id by auto
    ultimately show ?thesis
      using u h step s1(1) second_factor_frame(1)[OF f] by auto
  qed
qed

definition sample_externals :: externals where
  "sample_externals = \<lparr>ex_compare = (\<lambda>p h. Some (p = h)), ex_hash = id, ex_totp = (\<lambda>sec code now. Some (sec = code)),
     ex_sha256 = id, ex_hmac = (\<lambda>k v. v), ex_isEmail = (\<lambda>e. CHR ''@'' \<in> set e), ex_cipher = plain_cipher,
     ex_encryptionKey = Some sample_secret\<rparr>"

definition sample_web_env :: web_env where
  "sample_web_env = \<lparr>we_production = True, we_AUTH_SECRET = Some ''s3cret'', we_NEXTAUTH_SECRET = None, we_AUTH_MODE = None,
     we_REGISTRATION_MODE = Owner_First\<rparr>"

definition sample_user :: user_row where
  "sample_user = (new_user 0 ''u1'' ''ann@x.org'' ''Ann'' None (Some ''Secret-word-1''))
     \<lparr>ac_twoFactorEnabled := True, ac_twoFactorBackupCodes := Some [''CODE2'', ''CODE3'']\<rparr>"

definition empty_auth_db :: auth_db where
  "empty_auth_db = \<lparr>ad_users = [], ad_settings = [], ad_tokens = [], ad_sessions = [], ad_accounts = [], ad_audit = [],
     ad_rates = [], ad_events = []\<rparr>"

definition sample_auth_db :: auth_db where
  "sample_auth_db = empty_auth_db\<lparr>ad_users := [sample_user], ad_settings := [''u1'']\<rparr>"

definition sample_credentials :: credentials where
  "sample_credentials = \<lparr>cr_email = Some '' Ann@x.org'', cr_password = Some ''Secret-word-1'', cr_totpCode = Some ''CODE3 '',
     cr_rememberMe = None, cr_deviceName = None, cr_ip = None\<rparr>"

lemma sample_auth_ok: "auth_ok sample_auth_db"
  by code_simp

lemma sample_signs_in:
  "\<exists>s' a. authorize sample_web_env sample_externals (\<lambda>_. True) 1000 ''sid'' sample_credentials sample_auth_db = (s', Inr (Some a))"
proof -
  have "(case snd (authorize sample_web_env sample_externals (\<lambda>_. True) 1000 ''sid'' sample_credentials sample_auth_db) of
      Inr (Some a) \<Rightarrow> True | _ \<Rightarrow> False)"
    by code_simp
  then show ?thesis
    by (cases "authorize sample_web_env sample_externals (\<lambda>_. True) 1000 ''sid'' sample_credentials sample_auth_db")
      (auto split: sum.splits option.splits)
qed

theorem authorize_sound_witness:
  "\<exists>s' a u h. authorize sample_web_env sample_externals (\<lambda>_. True) 1000 ''sid'' sample_credentials sample_auth_db = (s', Inr (Some a))
    \<and> getUserByEmail (email_of sample_credentials) sample_auth_db = Some u \<and> ac_hashedPassword u = Some h
    \<and> ex_compare sample_externals ''Secret-word-1'' h = Some True"
proof -
  obtain s' a where r: "authorize sample_web_env sample_externals (\<lambda>_. True) 1000 ''sid'' sample_credentials sample_auth_db = (s', Inr (Some a))"
    using sample_signs_in by blast
  have "or_empty (cr_password sample_credentials) = ''Secret-word-1''"
    by (simp add: or_empty_def sample_credentials_def)
  then show ?thesis
    using authorize_sound[OF sample_auth_ok r] r by metis
qed

section \<open>Backup codes\<close>

lemma second_factor_codes:
  assumes "second_factor ex up now u code s = (s', r)"
  shows "set (stored_codes j s') \<subseteq> set (stored_codes j s)"
proof -
  define s1 where "s1 = s\<lparr>ad_rates := fst (withRateLimit (ac_id u) ''2fa_verify'' 10 now (ad_rates s))\<rparr>"
  have verified: "set (stored_codes j s2) \<subseteq> set (stored_codes j s)" if "verify_code ex up now u code s1 = (s2, q)" for s2 q
    using verify_code_frame[OF that] by (auto simp: s1_def consume_backup_code_eq(2))
  have later: "set (stored_codes j (fst (update_user i f (recordAuthEvent ev now s2)))) = set (stored_codes j s2)"
    "set (stored_codes j (fst (update_user i f s2))) = set (stored_codes j s2)"
    if "f = count_failed_2fa now \<or> f = clear_2fa_lockout" for i f ev s2
    using that by (auto simp: stored_codes_update count_failed_2fa_def clear_2fa_lockout_def)
  have cases: "s' = s \<or> s' = s1 \<or> (\<exists>s2 q. verify_code ex up now u code s1 = (s2, q) \<and> (s' = s2 \<or> s' = recordAuthEvent TwoFa_Failure now s2
      \<or> s' = fst (update_user (ac_id u) (count_failed_2fa now) (recordAuthEvent TwoFa_Failure now s2))
      \<or> s' = fst (update_user (ac_id u) clear_2fa_lockout s2)))"
    using assms unfolding s1_def second_factor_def Let_def
    by (auto simp: update_user_Pair split: if_splits prod.splits sum.splits option.splits)
  then show ?thesis
    using verified later by (auto simp: s1_def)
qed

text \<open>Requests that reached the second factor, each with the row it has read, however long before.\<close>

type_synonym factor_attempt = "(auth_call \<Rightarrow> bool) \<times> ms \<times> user_row \<times> string"

fun used_codes :: "externals \<Rightarrow> factor_attempt list \<Rightarrow> auth_db \<Rightarrow> (string \<times> string) list" where
  "used_codes ex [] s = []"
| "used_codes ex ((up, now, u, code) # rs) s =
     (case second_factor ex up now u code s of (s', r) \<Rightarrow>
        (case r of Inr (By_Backup_Code h) \<Rightarrow> [(ac_id u, h)] | _ \<Rightarrow> []) @ used_codes ex rs s')"

text \<open>
  C14: Each stored backup code lets at most one request through, also when many requests with rows read
  earlier compete for it.
\<close>

theorem backup_codes_single_use:
  "distinct (used_codes ex rs s) \<and> list_all (\<lambda>(i, h). h \<in> set (stored_codes i s)) (used_codes ex rs s)"
proof (induction rs arbitrary: s)
  case (Cons r rs)
  obtain up now u code where r: "r = (up, now, u, code)"
    by (cases r) auto
  obtain s' q where q: "second_factor ex up now u code s = (s', q)"
    by fastforce
  have rest: "distinct (used_codes ex rs s')" "\<And>i h. (i, h) \<in> set (used_codes ex rs s') \<Longrightarrow> h \<in> set (stored_codes i s')"
    using Cons[of s'] by (auto simp: list_all_iff)
  have sub: "set (stored_codes i s') \<subseteq> set (stored_codes i s)" for i
    by (rule second_factor_codes[OF q])
  show ?case
  proof (cases "\<exists>h. q = Inr (By_Backup_Code h)")
    case True
    then obtain h where h: "q = Inr (By_Backup_Code h)" by blast
    have "h \<in> set (stored_codes (ac_id u) s)" "h \<notin> set (stored_codes (ac_id u) s')"
      using second_factor_shown[OF q[unfolded h]] by (simp_all add: factor_shown_def)
    then show ?thesis
      using rest sub by (auto simp: r q h list_all_iff)
  next
    case False
    then have "used_codes ex (r # rs) s = used_codes ex rs s'"
      by (auto simp: r q split: sum.splits factor.splits)
    then show ?thesis
      using rest sub by (auto simp: list_all_iff)
  qed
qed simp

section \<open>Lockout\<close>

text \<open>Requests one after another.\<close>

fun sign_ins :: "web_env \<Rightarrow> externals \<Rightarrow> (ms \<times> string \<times> credentials) list \<Rightarrow> auth_db \<Rightarrow> (auth_error + auth_user option) list" where
  "sign_ins env ex [] s = []"
| "sign_ins env ex ((now, sid, c) # rs) s =
     (case authorize env ex (\<lambda>_. True) now sid c s of (s', r) \<Rightarrow> r # sign_ins env ex rs s')"

definition wrong_guess :: "externals \<Rightarrow> string \<Rightarrow> string \<Rightarrow> credentials \<Rightarrow> bool" where
  "wrong_guess ex e h c \<longleftrightarrow> email_of c = e \<and> or_empty (cr_password c) \<noteq> [] \<and> ex_compare ex (or_empty (cr_password c)) h = Some False"

lemma authorize_wrong:
  assumes "production_secure env" "auth_ok s" "getUserByEmail e s = Some u" "ac_hashedPassword u = Some h" "h \<noteq> []" "e \<noteq> []"
    "wrong_guess ex e h c"
  shows "authorize env ex (\<lambda>_. True) now sid c s
    = (if in_future (ac_lockedUntil u) now then (recordAuthEvent Account_Locked now s, Inl ACCOUNT_LOCKED)
       else (fst (incrementFailedLogins now (ac_id u) s), Inr None))"
proof -
  have g: "email_of c = e" "or_empty (cr_password c) \<noteq> []" "ex_compare ex (or_empty (cr_password c)) h = Some False"
    using assms(7) by (simp_all add: wrong_guess_def)
  obtain s1 where s1: "incrementFailedLogins now (ac_id u) s = (s1, True)"
    using getUserByEmail_ids[OF assms(2,3)] by (auto simp: incrementFailedLogins_def update_user_Pair)
  have "missing (ac_hashedPassword u) = False" "or_empty (ac_hashedPassword u) = h"
    by (simp_all add: assms(4,5) missing_def or_empty_def)
  then show ?thesis
    using g(2,3) assms(1,3,6) unfolding authorize_def Let_def g(1)[unfolded email_of_def] authorize_user_def
    by (simp add: s1)
qed

text \<open>How many guesses an account with \<open>k\<close> failures answers between \<open>t\<close> and \<open>e\<close>.\<close>

definition guesses_left :: "int \<Rightarrow> ms \<Rightarrow> ms \<Rightarrow> int" where
  "guesses_left k t e = (if e < t then 0 else max (5 - k) 1 + (e - t) div LOCKOUT_MS)"

definition may_try_at :: "ms option \<Rightarrow> ms \<Rightarrow> ms" where
  "may_try_at locked t = (case locked of None \<Rightarrow> t | Some l \<Rightarrow> max t l)"

lemma guesses_left_step:
  assumes "t \<le> t1" "t1 \<le> e" "0 \<le> k"
  shows "1 + (if k + 1 \<ge> 5 then guesses_left (k + 1) (t1 + LOCKOUT_MS) e else guesses_left (k + 1) t1 e) \<le> guesses_left k t e"
proof -
  have mono: "(e - t1) div LOCKOUT_MS \<le> (e - t) div LOCKOUT_MS"
    using assms(1) by (intro zdiv_mono1) (simp_all add: LOCKOUT_MS_def)
  have "e - (t1 + LOCKOUT_MS) = (e - t1) + (-1) * LOCKOUT_MS"
    by simp
  then have shift: "(e - (t1 + LOCKOUT_MS)) div LOCKOUT_MS = (e - t1) div LOCKOUT_MS - 1"
    using div_mult_self1[of LOCKOUT_MS "e - t1" "-1"] by (simp add: LOCKOUT_MS_def)
  have "0 \<le> (e - t1) div LOCKOUT_MS"
    using assms(2) by (simp add: LOCKOUT_MS_def pos_imp_zdiv_nonneg_iff)
  then show ?thesis
    using assms mono shift by (auto simp: guesses_left_def)
qed

lemma guesses_counted:
  assumes "production_secure env" "e \<noteq> []" "h \<noteq> []"
  shows "auth_ok s \<Longrightarrow> getUserByEmail e s = Some u \<Longrightarrow> ac_hashedPassword u = Some h \<Longrightarrow> 0 \<le> ac_failedLoginAttempts u
    \<Longrightarrow> list_all (\<lambda>(t, sid, c). wrong_guess ex e h c \<and> t \<le> end) rs \<Longrightarrow> sorted (map fst rs) \<Longrightarrow> list_all (\<lambda>r. start \<le> fst r) rs
    \<Longrightarrow> int (length (filter (\<lambda>r. r \<noteq> Inl ACCOUNT_LOCKED) (sign_ins env ex rs s)))
      \<le> guesses_left (ac_failedLoginAttempts u) (may_try_at (ac_lockedUntil u) start) end"
proof (induction rs arbitrary: s u start)
  case Nil
  then show ?case
    by (simp add: guesses_left_def LOCKOUT_MS_def pos_imp_zdiv_nonneg_iff add_nonneg_nonneg)
next
  case (Cons r rs)
  obtain t sid c where r: "r = (t, sid, c)"
    by (cases r) auto
  have t: "start \<le> t" "t \<le> end" "wrong_guess ex e h c"
    and tail: "sorted (map fst rs)" "list_all (\<lambda>r. t \<le> fst r) rs" "list_all (\<lambda>(t, sid, c). wrong_guess ex e h c \<and> t \<le> end) rs"
    using Cons.prems(5-7) by (auto simp: r list_all_iff)
  note a = authorize_wrong[OF assms(1) Cons.prems(1-3) assms(3,2) t(3), of t sid]
  show ?case
  proof (cases "in_future (ac_lockedUntil u) t")
    case True
    have "auth_ok (recordAuthEvent Account_Locked t s)" "getUserByEmail e (recordAuthEvent Account_Locked t s) = Some u"
      using Cons.prems(1,2) by (auto intro: auth_ok_frame)
    then have "int (length (filter (\<lambda>r. r \<noteq> Inl ACCOUNT_LOCKED) (sign_ins env ex rs (recordAuthEvent Account_Locked t s))))
        \<le> guesses_left (ac_failedLoginAttempts u) (may_try_at (ac_lockedUntil u) t) end"
      using Cons.IH Cons.prems(3,4) tail by blast
    moreover have "may_try_at (ac_lockedUntil u) t = may_try_at (ac_lockedUntil u) start"
      using True t(1) by (auto simp: in_future_def may_try_at_def split: option.splits)
    ultimately show ?thesis
      using True by (simp add: r a)
  next
    case False
    define s' where "s' = fst (incrementFailedLogins t (ac_id u) s)"
    define k where "k = ac_failedLoginAttempts u"
    have "auth_ok s'"
      unfolding s'_def incrementFailedLogins_def by (rule auth_ok_update_user[OF Cons.prems(1)]) (simp_all add: count_failed_login_def)
    moreover have "getUserByEmail e s' = Some (count_failed_login t u)"
      unfolding s'_def incrementFailedLogins_def
      by (rule getUserByEmail_update[OF Cons.prems(2)]) (simp_all add: count_failed_login_def)
    ultimately have "int (length (filter (\<lambda>r. r \<noteq> Inl ACCOUNT_LOCKED) (sign_ins env ex rs s')))
        \<le> guesses_left (k + 1) (may_try_at (if k + 1 \<ge> 5 then Some (t + LOCKOUT_MS) else None) t) end"
      using Cons.IH[of s' "count_failed_login t u" t] Cons.prems(3,4) tail by (simp add: count_failed_login_def k_def)
    also have "\<dots> = (if k + 1 \<ge> 5 then guesses_left (k + 1) (t + LOCKOUT_MS) end else guesses_left (k + 1) t end)"
      by (simp add: may_try_at_def LOCKOUT_MS_def max_def)
    finally have "1 + int (length (filter (\<lambda>r. r \<noteq> Inl ACCOUNT_LOCKED) (sign_ins env ex rs s')))
        \<le> guesses_left k (may_try_at (ac_lockedUntil u) start) end"
      using guesses_left_step[of "may_try_at (ac_lockedUntil u) start" t "end" k] t False Cons.prems(4)
      by (auto simp: k_def in_future_def may_try_at_def split: option.splits)
    then show ?thesis
      using False by (simp add: r a s'_def k_def)
  qed
qed

text \<open>
  C13: Wrong passwords tried one after another: within a time \<open>T\<close> the account answers at most five of them and
  one more for every quarter of an hour, whatever their number; the others meet the lock.
\<close>

theorem lockout_bounds_guesses:
  assumes "production_secure env" "auth_ok s" "getUserByEmail e s = Some u" "ac_hashedPassword u = Some h" "h \<noteq> []" "e \<noteq> []"
    "0 \<le> ac_failedLoginAttempts u" "sorted (map fst rs)"
    "list_all (\<lambda>(t, sid, c). wrong_guess ex e h c \<and> t0 \<le> t \<and> t \<le> t0 + T) rs" "0 \<le> T"
  shows "int (length (filter (\<lambda>r. r \<noteq> Inl ACCOUNT_LOCKED) (sign_ins env ex rs s))) \<le> 5 + T div (15 * 60 * 1000)"
proof -
  let ?start = "may_try_at (ac_lockedUntil u) t0"
  have "int (length (filter (\<lambda>r. r \<noteq> Inl ACCOUNT_LOCKED) (sign_ins env ex rs s)))
      \<le> guesses_left (ac_failedLoginAttempts u) ?start (t0 + T)"
    using assms(9) by (intro guesses_counted[OF assms(1,6,5,2-4,7)] assms(8)) (auto simp: list_all_iff)
  moreover have "t0 \<le> ?start"
    by (simp add: may_try_at_def split: option.splits)
  then have "(t0 + T - ?start) div LOCKOUT_MS \<le> T div LOCKOUT_MS"
    by (intro zdiv_mono1) (simp_all add: LOCKOUT_MS_def)
  moreover have "0 \<le> T div LOCKOUT_MS"
    using assms(10) by (simp add: LOCKOUT_MS_def pos_imp_zdiv_nonneg_iff)
  ultimately show ?thesis
    using assms(7) by (auto simp: guesses_left_def LOCKOUT_MS_def split: if_splits)
qed

definition guess :: "string \<Rightarrow> credentials" where
  "guess pw = sample_credentials\<lparr>cr_password := Some pw\<rparr>"

theorem lockout_bounds_guesses_witness:
  "int (length (filter (\<lambda>r. r \<noteq> Inl ACCOUNT_LOCKED)
      (sign_ins sample_web_env sample_externals (map (\<lambda>i. (1000 * i, ''sid'', guess ''guess'')) [0..899]) sample_auth_db))) \<le> 5"
proof -
  let ?rs = "map (\<lambda>i. (1000 * i, ''sid'', guess ''guess'')) [0..899]"
  have "getUserByEmail ''ann@x.org'' sample_auth_db = Some sample_user" "ac_hashedPassword sample_user = Some ''Secret-word-1''"
    "ac_failedLoginAttempts sample_user = 0"
    by (simp_all add: getUserByEmail_def sample_auth_db_def sample_user_def new_user_def)
  moreover have "wrong_guess sample_externals ''ann@x.org'' ''Secret-word-1'' (guess ''guess'')"
    by code_simp
  then have "list_all (\<lambda>(t, sid, c). wrong_guess sample_externals ''ann@x.org'' ''Secret-word-1'' c \<and> 0 \<le> t \<and> t \<le> 0 + 899000) ?rs"
    by (simp add: list_all_iff del: upto_rec_numeral)
  moreover have "production_secure sample_web_env"
    by code_simp
  moreover have "sorted (map fst ?rs)"
    by (simp add: sorted_map comp_def sorted_wrt_upto[THEN sorted_wrt_mono_rel[rotated]] del: upto_rec_numeral)
  ultimately show ?thesis
    using lockout_bounds_guesses[OF _ sample_auth_ok, of sample_web_env "''ann@x.org''" sample_user "''Secret-word-1''" ?rs sample_externals 0 899000]
    by simp
qed

text \<open>Requests that have all read the row before the first of them wrote.\<close>

fun parallel_sign_ins :: "externals \<Rightarrow> ms \<Rightarrow> user_row \<Rightarrow> string \<Rightarrow> credentials list \<Rightarrow> auth_db \<Rightarrow> (auth_error + auth_user option) list" where
  "parallel_sign_ins ex now u h [] s = []"
| "parallel_sign_ins ex now u h (c # cs) s =
     (case authorize_user ex (\<lambda>_. True) now [] u h (or_empty (cr_password c)) c s of
        (s', r) \<Rightarrow> r # parallel_sign_ins ex now u h cs s')"

lemma authorize_user_wrong:
  assumes "\<not> in_future (ac_lockedUntil u) now" "ex_compare ex pw h = Some False" "getUserById (ac_id u) s \<noteq> None"
  shows "authorize_user ex (\<lambda>_. True) now sid u h pw c s = (fst (incrementFailedLogins now (ac_id u) s), Inr None)"
proof -
  obtain s1 where "incrementFailedLogins now (ac_id u) s = (s1, True)"
    using assms(3) by (auto simp: incrementFailedLogins_def update_user_Pair)
  then show ?thesis
    using assms(1,2) by (simp add: authorize_user_def)
qed

text \<open>
  The lock is read before the password is compared and the failure is written after it: of any number of
  concurrent requests that read the row of an unlocked account none meets the lock.
\<close>

theorem parallel_guesses_not_locked:
  assumes "\<not> in_future (ac_lockedUntil u) now" "getUserById (ac_id u) s \<noteq> None"
    "list_all (\<lambda>c. ex_compare ex (or_empty (cr_password c)) h = Some False) cs"
  shows "parallel_sign_ins ex now u h cs s = map (\<lambda>_. Inr None) cs"
  using assms(2,3)
proof (induction cs arbitrary: s)
  case (Cons c cs)
  have "getUserById (ac_id u) (fst (incrementFailedLogins now (ac_id u) s)) \<noteq> None"
    using Cons.prems(1) by (simp add: incrementFailedLogins_def getUserById_update count_failed_login_def)
  then show ?case
    using Cons authorize_user_wrong[OF assms(1), of ex "or_empty (cr_password c)" h s "[]" c] by simp
qed simp

theorem parallel_guesses_not_locked_witness:
  "parallel_sign_ins sample_externals 0 sample_user ''Secret-word-1'' (replicate 100 (guess ''guess'')) sample_auth_db
     = replicate 100 (Inr None)"
proof -
  have "ex_compare sample_externals (or_empty (cr_password (guess ''guess''))) ''Secret-word-1'' = Some False"
    "getUserById (ac_id sample_user) sample_auth_db \<noteq> None" "\<not> in_future (ac_lockedUntil sample_user) 0"
    by code_simp+
  then show ?thesis
    using parallel_guesses_not_locked[of sample_user 0 sample_auth_db sample_externals "''Secret-word-1''" "replicate 100 (guess ''guess'')"]
    by (simp add: list_all_iff map_replicate_const)
qed

section \<open>Sessions\<close>

text \<open>The requests of one browser: its token goes from request to request, each with the database at its time.\<close>

fun browse :: "((auth_call \<Rightarrow> bool) \<times> ms \<times> auth_db) list \<Rightarrow> jwt_token \<Rightarrow> bool list" where
  "browse [] token = []"
| "browse ((up, now, s) # rs) token =
     (case validateSession True up now (now div 1000) token s of (_, token', valid) \<Rightarrow> valid # browse rs token')"

text \<open>A request at which the check against the database ran and passed.\<close>

definition checked_at :: "jwt_token \<Rightarrow> ((auth_call \<Rightarrow> bool) \<times> ms \<times> auth_db) \<Rightarrow> bool" where
  "checked_at token r \<longleftrightarrow> (case r of (up, now, s) \<Rightarrow> up Validate_Session \<and> session_current token s)"

definition seconds_of :: "((auth_call \<Rightarrow> bool) \<times> ms \<times> auth_db) \<Rightarrow> int" where
  "seconds_of r = fst (snd r) div 1000"

definition same_subject :: "jwt_token \<Rightarrow> jwt_token \<Rightarrow> bool" where
  "same_subject t t' \<longleftrightarrow> tk_id t' = tk_id t \<and> tk_tokenVersion t' = tk_tokenVersion t \<and> tk_sessionId t' = tk_sessionId t"

lemma checked_at_subject: "same_subject t t' \<Longrightarrow> checked_at t' r = checked_at t r"
  by (cases r) (simp add: checked_at_def same_subject_def session_current_def cong: option.case_cong)

lemma validateSession_step:
  assumes "validateSession True up now n token s = (s', token', valid)"
  shows "same_subject token token'"
    and "tk_tvCheckedAt token' = tk_tvCheckedAt token \<or> (tk_tvCheckedAt token' = Some n \<and> up Validate_Session \<and> session_current token s)"
    and "valid \<Longrightarrow> (up Validate_Session \<and> session_current token s) \<or> (\<exists>c. tk_tvCheckedAt token = Some c \<and> c \<noteq> 0 \<and> n - c \<le> 60)"
  using assms
  by (auto simp: validateSession_def Let_def same_subject_def due_def TV_CHECK_INTERVAL_SECONDS_def
      split: if_splits option.splits)

lemma browse_checked:
  assumes "i < length rs" "browse rs token ! i"
  shows "(\<exists>j \<le> i. checked_at token (rs ! j) \<and> seconds_of (rs ! i) - seconds_of (rs ! j) \<le> 60)
    \<or> (\<exists>c. tk_tvCheckedAt token = Some c \<and> c \<noteq> 0 \<and> seconds_of (rs ! i) - c \<le> 60)"
  using assms
proof (induction rs arbitrary: i token)
  case (Cons r rs)
  obtain up now s where r: "r = (up, now, s)"
    by (cases r) auto
  obtain s' token' valid where v: "validateSession True up now (now div 1000) token s = (s', token', valid)"
    by (cases "validateSession True up now (now div 1000) token s") auto
  note step = validateSession_step[OF v]
  show ?case
  proof (cases i)
    case 0
    then show ?thesis
      using Cons.prems(2) step(3) by (auto simp: r v checked_at_def seconds_of_def)
  next
    case (Suc k)
    have "k < length rs" "browse rs token' ! k"
      using Cons.prems Suc by (simp_all add: r v)
    from Cons.IH[OF this] show ?thesis
    proof
      assume "\<exists>j \<le> k. checked_at token' (rs ! j) \<and> seconds_of (rs ! k) - seconds_of (rs ! j) \<le> 60"
      then obtain j where "j \<le> k" "checked_at token (rs ! j)" "seconds_of (rs ! k) - seconds_of (rs ! j) \<le> 60"
        using checked_at_subject[OF step(1)] by blast
      then show ?thesis
        unfolding Suc by (intro disjI1 exI[of _ "Suc j"]) simp
    next
      assume "\<exists>c. tk_tvCheckedAt token' = Some c \<and> c \<noteq> 0 \<and> seconds_of (rs ! k) - c \<le> 60"
      then show ?thesis
        using step(2) unfolding Suc by (auto simp: r checked_at_def seconds_of_def intro!: exI[of _ "0::nat"])
    qed
  qed
qed simp

text \<open>
  C12: Revocation takes effect within a minute, whatever database calls fail: for every request that a session
  survives there is a request of this browser, at most sixty seconds before, at which the account existed
  with the token's version and the session's row was there.
\<close>

theorem sessions_checked_within_a_minute:
  assumes "tk_tvCheckedAt token = None" "i < length rs" "browse rs token ! i"
  shows "\<exists>j \<le> i. checked_at token (rs ! j) \<and> seconds_of (rs ! i) - seconds_of (rs ! j) \<le> 60"
  using browse_checked[OF assms(2,3)] assms(1) by simp

definition sample_token :: jwt_token where
  "sample_token = \<lparr>tk_id = Some ''u1'', tk_tokenVersion = Some 0, tk_emailVerified = None, tk_rememberMe = False,
     tk_sessionId = Some ''sid'', tk_iat = Some 1, tk_tvCheckedAt = None, tk_lastActiveUpdate = None\<rparr>"

definition signed_in_db :: auth_db where
  "signed_in_db = sample_auth_db\<lparr>ad_sessions := [\<lparr>sn_id = ''sid'', sn_userId = ''u1'', sn_deviceName = None, sn_ip = None,
     sn_createdAt = 0, sn_lastActiveAt = 0\<rparr>]\<rparr>"

theorem sessions_checked_within_a_minute_witness:
  "\<exists>j \<le> 1. checked_at sample_token ([(\<lambda>_. True, 5000, signed_in_db), (\<lambda>_. True, 65000, sample_auth_db)] ! j)"
proof -
  have "browse [(\<lambda>_. True, 5000, signed_in_db), (\<lambda>_. True, 65000, sample_auth_db)] sample_token ! 1"
    by code_simp
  then show ?thesis
    using sessions_checked_within_a_minute[of sample_token 1 "[(\<lambda>_. True, 5000, signed_in_db), (\<lambda>_. True, 65000, sample_auth_db)]"]
    by (auto simp: sample_token_def)
qed

section \<open>Linking by address\<close>

text \<open>
  A Google sign-in for the address of an existing account marks its address as verified and keeps its
  password: whoever registered the address before, without verifying it, still signs in.
\<close>

theorem google_link_keeps_password:
  assumes "auth_ok s" "getUserByEmail e s = Some u" "gp_email p = Some e" "js_trim (toLowerCase e) = e" "e \<noteq> []"
    "gp_email_verified p \<noteq> Some False"
  shows "case provisionUserOnSignIn mode now uuid sid (Some (''google'', aid)) p s of
      (s', r) \<Rightarrow> getUserByEmail e s' = Some (u\<lparr>ac_emailVerified := Some now\<rparr>) \<and> auth_ok s' \<and> r \<noteq> Inr Deny"
proof -
  let ?s1 = "fst (update_user (ac_id u) (\<lambda>v. v\<lparr>ac_emailVerified := Some now\<rparr>) s)"
  have "getUserByEmail e ?s1 = Some (u\<lparr>ac_emailVerified := Some now\<rparr>)" "auth_ok ?s1"
    using getUserByEmail_update[OF assms(2)] auth_ok_update_user[OF assms(1)] by simp_all
  moreover have "getUserByEmail e (link_account a s1) = getUserByEmail e s1" "auth_ok s1 \<Longrightarrow> auth_ok (link_account a s1)" for a s1
    by (simp_all add: link_account_def getUserByEmail_def auth_ok_frame)
  ultimately show ?thesis
    using assms(2-6) by (simp add: provisionUserOnSignIn_def missing_def or_empty_def Let_def)
qed

theorem google_link_keeps_password_witness:
  "case provisionUserOnSignIn Open_Registration 9 ''n'' ''s2'' (Some (''google'', ''g1''))
      \<lparr>gp_email = Some ''ann@x.org'', gp_email_verified = Some True, gp_name = None\<rparr> sample_auth_db of
     (s', r) \<Rightarrow> getUserByEmail ''ann@x.org'' s' = Some (sample_user\<lparr>ac_emailVerified := Some 9\<rparr>)"
proof -
  have "getUserByEmail ''ann@x.org'' sample_auth_db = Some sample_user" "js_trim (toLowerCase ''ann@x.org'') = ''ann@x.org''"
    by code_simp+
  from google_link_keeps_password[OF sample_auth_ok this(1) _ this(2), where p = "\<lparr>gp_email = Some ''ann@x.org'', gp_email_verified = Some True,
      gp_name = None\<rparr>" and mode = Open_Registration and now = 9 and uuid = "''n''" and sid = "''s2''" and aid = "''g1''"]
  show ?thesis by (simp split: prod.splits)
qed

end
