(* ===== verification/Account_Actions.thy ===== *)
theory Account_Actions
  imports Sign_In Js_Regex
begin

text \<open>
  The forms around an account: login, registration, forgotten passwords and mail verification
  (\<open>apps/web/src/app/(auth)/actions.ts\<close>, \<open>app/api/auth/verify-email/route.ts\<close>) and the security settings
  (\<open>app/(app)/settings/_actions-security.ts\<close>). The framework's \<open>signIn\<close>, random bytes, ids and the answers
  of the mail service are arguments; a mail is the pair of its address and the token in its link. Log
  entries are left out.
\<close>

section \<open>Requests\<close>

text \<open>\<open>.\<close> of a regular expression.\<close>

definition dot :: rx where
  "dot = One (CSet (filter (\<lambda>c. c \<noteq> CHR 0x0A \<and> c \<noteq> CHR 0x0D) (map char_of [0..<256::nat])))"

definition sanitizeNext :: "string option \<Rightarrow> string" where
  "sanitizeNext n =
     (case n of None \<Rightarrow> ''/chat''
      | Some s \<Rightarrow>
          if s = [] then ''/chat''
          else if length s > 500 then ''/chat''
          else if \<not> startsWith s ''/'' then ''/chat''
          else if startsWith s ''//'' then ''/chat''
          else if CHR 0x5C \<in> set s then ''/chat''
          else if rx_test_i (lit ''%2f'') s \<and> rx_test_i (seq [lit ''%2f'', Many dot, lit ''%2f'']) s then ''/chat''
          else s)"

record req_headers =
  rh_forwardedFor :: "string option"
  rh_realIp :: "string option"
  rh_userAgent :: "string option"

definition clientIp :: "req_headers \<Rightarrow> string" where
  "clientIp h =
     (let f = (case rh_forwardedFor h of None \<Rightarrow> [] | Some v \<Rightarrow> js_trim (hd (js_split (CHR '','') v))) in
      if f \<noteq> [] then f else if \<not> missing (rh_realIp h) then or_empty (rh_realIp h) else ''unknown'')"

definition unauthenticatedRateLimitKey :: "web_env \<Rightarrow> externals \<Rightarrow> string \<Rightarrow> string \<Rightarrow> string" where
  "unauthenticatedRateLimitKey env ex kind value =
     kind @ CHR '':'' # ex_hmac ex (case we_AUTH_SECRET env of Some k \<Rightarrow> k
       | None \<Rightarrow> (case we_NEXTAUTH_SECRET env of Some k \<Rightarrow> k | None \<Rightarrow> ''dev-only-rate-limit-key'')) value"

text \<open>One question to the limiter for somebody not signed in; \<open>None\<close> when its database call throws.\<close>

definition ask_limit :: "web_env \<Rightarrow> externals \<Rightarrow> (auth_call \<Rightarrow> bool) \<Rightarrow> ms \<Rightarrow> string \<Rightarrow> string \<Rightarrow> int \<Rightarrow> auth_db \<Rightarrow> (auth_db \<times> bool) option" where
  "ask_limit env ex up now kind value limit s =
     (if \<not> up Limit_Request then None
      else case withRateLimit SYSTEM_USER_ID (unauthenticatedRateLimitKey env ex kind value) limit now (ad_rates s) of
        (rates, rl) \<Rightarrow> Some (s\<lparr>ad_rates := rates\<rparr>, rr_allowed rl))"

section \<open>Login\<close>

text \<open>What \<open>signIn\<close> of the framework throws: the signal of a redirect, an authentication error (with its
  message when it is one of the provider's), anything else.\<close>

datatype sign_in_failure = Redirect_Signal | Auth_Failure "auth_error option" | Other_Failure

type_synonym sign_in = "credentials \<Rightarrow> string \<Rightarrow> auth_db \<Rightarrow> auth_db \<times> (sign_in_failure + bool)"

datatype form_answer =
    Form_Error string
  | Requires_2FA "string option"
  | Redirect_To string
  | Form_Success string
  | Form_Throws

record login_form =
  lf_email :: "string option"
  lf_password :: "string option"
  lf_next :: "string option"
  lf_totpCode :: "string option"
  lf_rememberMe :: "string option"

definition check_email :: "externals \<Rightarrow> string option \<Rightarrow> string option" where
  "check_email ex email =
     (case email of None \<Rightarrow> Some ''Required'' | Some e \<Rightarrow> if ex_isEmail ex e then None else Some ''Invalid email address'')"

definition loginSchema :: "externals \<Rightarrow> login_form \<Rightarrow> string option" where
  "loginSchema ex f =
     (case check_email ex (lf_email f) of Some e \<Rightarrow> Some e
      | None \<Rightarrow> (case lf_password f of None \<Rightarrow> Some ''Required''
          | Some p \<Rightarrow> if p = [] then Some ''Password is required'' else None))"

text \<open>The answer for a message of the provider.\<close>

fun login_failure_answer :: "auth_error option \<Rightarrow> form_answer" where
  "login_failure_answer (Some ACCOUNT_LOCKED) =
     Form_Error ''Account temporarily locked due to too many failed attempts. Try again later.''"
| "login_failure_answer (Some TwoFa_Required) = Requires_2FA None"
| "login_failure_answer (Some Invalid_2fa_Code) = Requires_2FA (Some ''Invalid 2FA code'')"
| "login_failure_answer (Some TwoFa_Locked) = Requires_2FA (Some ''Too many failed 2FA attempts. Try again in 15 minutes.'')"
| "login_failure_answer (Some TwoFa_Rate_Limited) = Requires_2FA (Some ''Too many 2FA attempts. Please try again shortly.'')"
| "login_failure_answer (Some TwoFa_System_Error) = Requires_2FA (Some ''Unable to verify 2FA right now. Please try again.'')"
| "login_failure_answer (Some AUTH_SYSTEM_ERROR) = Form_Error ''Unable to sign in right now. Please try again.''"
| "login_failure_answer (Some SESSION_SYSTEM_ERROR) = Form_Error ''Unable to sign in right now. Please try again.''"
| "login_failure_answer _ = Form_Error ''Invalid email or password''"

definition TOO_MANY_LOGINS :: string where
  "TOO_MANY_LOGINS = ''Too many login attempts. Please try again later.''"
definition TOO_MANY_LOGINS_EMAIL :: string where
  "TOO_MANY_LOGINS_EMAIL = ''Too many login attempts for this email. Please try again later.''"

definition login_credentials :: "login_form \<Rightarrow> req_headers \<Rightarrow> credentials" where
  "login_credentials f h =
     \<lparr>cr_email = Some (toLowerCase (js_trim (or_empty (lf_email f)))), cr_password = lf_password f,
      cr_totpCode = Option.bind (lf_totpCode f) or_null, cr_rememberMe = Option.bind (lf_rememberMe f) or_null,
      cr_deviceName = Option.bind (rh_userAgent h) (\<lambda>u. or_null (take 255 u)),
      cr_ip = (if clientIp h \<noteq> ''unknown'' then Some (clientIp h) else None)\<rparr>"

definition loginAction :: "web_env \<Rightarrow> externals \<Rightarrow> (auth_call \<Rightarrow> bool) \<Rightarrow> sign_in \<Rightarrow> ms \<Rightarrow> login_form \<Rightarrow> req_headers \<Rightarrow> auth_db
    \<Rightarrow> auth_db \<times> form_answer" where
  "loginAction env ex up signIn now f h s =
     (case loginSchema ex f of
        Some e \<Rightarrow> (s, Form_Error e)
      | None \<Rightarrow>
          let email = toLowerCase (js_trim (or_empty (lf_email f))) in
          case ask_limit env ex up now ''login-ip'' (clientIp h) 10 s of
            None \<Rightarrow> (s, Form_Throws)
          | Some (s1, ok1) \<Rightarrow>
              if \<not> ok1 then (s1, Form_Error TOO_MANY_LOGINS)
              else case ask_limit env ex up now ''login-email'' email 5 s1 of
                None \<Rightarrow> (s1, Form_Throws)
              | Some (s2, ok2) \<Rightarrow>
                  if \<not> ok2 then (s2, Form_Error TOO_MANY_LOGINS_EMAIL)
                  else let safeNext = sanitizeNext (lf_next f) in
                    case signIn (login_credentials f h) safeNext s2 of
                      (s3, Inr ok) \<Rightarrow>
                        if ok then (recordAuthEvent Login_Success now s3, Redirect_To safeNext)
                        else (recordAuthEvent Login_Failure now s3, Form_Error ''Invalid email or password'')
                    | (s3, Inl Redirect_Signal) \<Rightarrow> (recordAuthEvent Login_Success now s3, Form_Throws)
                    | (s3, Inl (Auth_Failure m)) \<Rightarrow>
                        (if login_failure_answer m = Form_Error ''Invalid email or password''
                         then recordAuthEvent Login_Failure now s3 else s3, login_failure_answer m)
                    | (s3, Inl Other_Failure) \<Rightarrow> (s3, Form_Error ''Unable to sign in right now. Please try again.''))"

section \<open>Registration\<close>

record register_form =
  rf_name :: "string option"
  rf_email :: "string option"
  rf_password :: "string option"

definition registerSchema :: "externals \<Rightarrow> register_form \<Rightarrow> string option" where
  "registerSchema ex f =
     (case rf_name f of None \<Rightarrow> Some ''Required''
      | Some n \<Rightarrow> if length n < 2 then Some ''Name must be at least 2 characters''
          else case check_email ex (rf_email f) of Some e \<Rightarrow> Some e
            | None \<Rightarrow> (case rf_password f of None \<Rightarrow> Some ''Required'' | Some p \<Rightarrow> passwordSchema p))"

definition HOUR :: ms where "HOUR = 60 * 60 * 1000"

text \<open>A token is stored and its link sent; nothing is sent when the link's base is not configured or the
  token cannot be stored.\<close>

definition mail_token :: "externals \<Rightarrow> ms \<Rightarrow> bool \<Rightarrow> nat list \<Rightarrow> string \<Rightarrow> token_purpose \<Rightarrow> ms \<Rightarrow> auth_db
    \<Rightarrow> auth_db \<times> (string \<times> string) option" where
  "mail_token ex now baseUrl random email purpose lifetime s =
     (if \<not> baseUrl then (s, None)
      else case generateToken ex random of (raw, hashed) \<Rightarrow>
        (case createVerificationToken email hashed purpose (now + lifetime) s of
           None \<Rightarrow> (s, None) | Some s' \<Rightarrow> (s', Some (email, raw))))"

definition registerAction :: "web_env \<Rightarrow> externals \<Rightarrow> (auth_call \<Rightarrow> bool) \<Rightarrow> sign_in \<Rightarrow> bool \<Rightarrow> string \<Rightarrow> nat list \<Rightarrow> ms
    \<Rightarrow> register_form \<Rightarrow> req_headers \<Rightarrow> auth_db \<Rightarrow> auth_db \<times> (string \<times> string) option \<times> form_answer" where
  "registerAction env ex up signIn baseUrl uuid random now f h s =
     (case registerSchema ex f of
        Some e \<Rightarrow> (s, None, Form_Error e)
      | None \<Rightarrow>
          let email = toLowerCase (js_trim (or_empty (rf_email f))); password = or_empty (rf_password f) in
          if we_REGISTRATION_MODE env = Disabled then (s, None, Form_Error ''Registration is disabled by the instance owner.'')
          else case ask_limit env ex up now ''register-ip'' (clientIp h) 5 s of
            None \<Rightarrow> (s, None, Form_Throws)
          | Some (s1, ok) \<Rightarrow>
              if \<not> ok then (s1, None, Form_Error ''Too many registration attempts. Please try again later.'')
              else if userExistsByEmail email s1 then (s1, None, Form_Error ''An account with this email already exists'')
              else case createUserWithSettings now uuid email (or_empty (rf_name f)) (ex_hash ex password)
                  (we_REGISTRATION_MODE env = Owner_First) s1 of
                Inl INITIAL_USER_ALREADY_EXISTS \<Rightarrow>
                  (s1, None, Form_Error ''Registration is closed. Ask the instance owner to invite you.'')
              | Inl Constraint_Violated \<Rightarrow> (s1, None, Form_Throws)
              | Inr s2 \<Rightarrow>
                  (case mail_token ex now baseUrl random email Email_Verify (24 * HOUR) s2 of (s3, mail) \<Rightarrow>
                   (case signIn \<lparr>cr_email = Some email, cr_password = Some password, cr_totpCode = None,
                        cr_rememberMe = Some ''true'', cr_deviceName = None, cr_ip = None\<rparr> ''/onboarding'' s3 of
                      (s4, r) \<Rightarrow> (s4, mail, (case r of
                          Inr True \<Rightarrow> Redirect_To ''/onboarding''
                        | Inr False \<Rightarrow> Form_Error ''Account created, but failed to automatically sign in''
                        | Inl Redirect_Signal \<Rightarrow> Form_Throws
                        | Inl (Auth_Failure m) \<Rightarrow> Form_Error ''Account created, but failed to automatically sign in''
                        | Inl Other_Failure \<Rightarrow> Form_Error ''Unable to finish registration right now. Please try again.'')))))"

section \<open>Forgotten passwords\<close>

definition forgotPasswordAction :: "web_env \<Rightarrow> externals \<Rightarrow> (auth_call \<Rightarrow> bool) \<Rightarrow> bool \<Rightarrow> nat list \<Rightarrow> ms \<Rightarrow> string option \<Rightarrow> auth_db
    \<Rightarrow> auth_db \<times> (string \<times> string) option \<times> form_answer" where
  "forgotPasswordAction env ex up baseUrl random now email s =
     (let e = toLowerCase (js_trim (or_empty email)) in
      if e = [] then (s, None, Form_Error ''Email is required'')
      else case ask_limit env ex up now ''forgot-email'' e 3 s of
        None \<Rightarrow> (s, None, Form_Throws)
      | Some (s1, ok) \<Rightarrow>
          if \<not> ok then (s1, None, Form_Error ''Too many requests. Try again later.'')
          else let r = (if \<not> userExistsByEmail e s1 then (s1, None)
              else case generateToken ex random of (raw, hashed) \<Rightarrow>
                (case createVerificationToken e hashed Password_Reset (now + HOUR) s1 of
                   None \<Rightarrow> (s1, None)
                 | Some s2 \<Rightarrow> (s2, if baseUrl then Some (e, raw) else None))) in
            (fst r, snd r, Form_Success ''If an account exists, a reset link has been sent.''))"

text \<open>The transaction of a reset, for the token row that was found before it.\<close>

definition reset_commit :: "externals \<Rightarrow> bool \<Rightarrow> verification_token \<Rightarrow> string \<Rightarrow> auth_db \<Rightarrow> auth_db" where
  "reset_commit ex auditUp vt password s =
     (case updatePasswordByEmail (vt_identifier vt) (ex_hash ex password) s of (s1, uid) \<Rightarrow>
        let s2 = deleteVerificationToken (vt_token vt) Password_Reset s1 in
        case uid of None \<Rightarrow> s2 | Some i \<Rightarrow> createAuditLog auditUp i ''password_reset'' s2)"

definition resetPasswordAction :: "web_env \<Rightarrow> externals \<Rightarrow> (auth_call \<Rightarrow> bool) \<Rightarrow> bool \<Rightarrow> ms \<Rightarrow> string \<Rightarrow> string \<Rightarrow> req_headers \<Rightarrow> auth_db
    \<Rightarrow> auth_db \<times> form_answer" where
  "resetPasswordAction env ex up auditUp now token password h s =
     (if token = [] then (s, Form_Error ''Missing reset token'')
      else case ask_limit env ex up now ''reset-ip'' (clientIp h) 5 s of
        None \<Rightarrow> (s, Form_Throws)
      | Some (s1, ok) \<Rightarrow>
          if \<not> ok then (s1, Form_Error ''Too many reset attempts. Please try again later.'')
          else case passwordSchema password of
            Some e \<Rightarrow> (s1, Form_Error e)
          | None \<Rightarrow> (case findVerificationToken now (hashToken ex token) Password_Reset s1 of
                None \<Rightarrow> (s1, Form_Error ''Invalid or expired reset link'')
              | Some vt \<Rightarrow> (reset_commit ex auditUp vt password s1,
                  Form_Success ''Password has been reset. You can now sign in.'')))"

definition resendVerificationAction :: "web_env \<Rightarrow> externals \<Rightarrow> (auth_call \<Rightarrow> bool) \<Rightarrow> bool \<Rightarrow> nat list \<Rightarrow> ms \<Rightarrow> string \<Rightarrow> auth_db
    \<Rightarrow> auth_db \<times> (string \<times> string) option \<times> form_answer" where
  "resendVerificationAction env ex up baseUrl random now email s =
     (let e = toLowerCase (js_trim email); sent = Form_Success ''If the email is unverified, a new verification link has been sent.'' in
      if e = [] \<or> CHR ''@'' \<notin> set e then (s, None, Form_Error ''Invalid email address'')
      else case ask_limit env ex up now ''resend-verify-email'' e 3 s of
        None \<Rightarrow> (s, None, Form_Throws)
      | Some (s1, ok) \<Rightarrow>
          if \<not> ok then (s1, None, Form_Error ''Too many requests. Please try again later.'')
          else case List.find (\<lambda>u. ac_email u = e) (ad_users s1) of
            None \<Rightarrow> (s1, None, sent)
          | Some u \<Rightarrow> if ac_emailVerified u \<noteq> None then (s1, None, sent)
              else (case mail_token ex now baseUrl random e Email_Verify (24 * HOUR) s1 of (s2, mail) \<Rightarrow> (s2, mail, sent)))"

text \<open>The route behind the link of a verification mail; \<open>Inl\<close> is the status of a refusal.\<close>

definition verify_email_GET :: "externals \<Rightarrow> ms \<Rightarrow> string option \<Rightarrow> auth_db \<Rightarrow> auth_db \<times> (nat + string)" where
  "verify_email_GET ex now token s =
     (if missing token then (s, Inl 400)
      else let hashed = hashToken ex (or_empty token) in
        case findVerificationToken now hashed Email_Verify s of
          None \<Rightarrow> (s, Inl 400)
        | Some vt \<Rightarrow> (deleteVerificationToken hashed Email_Verify (verifyUserEmail now (vt_identifier vt) s),
                     Inr ''/login?verified=true''))"

section \<open>The framework\<close>

text \<open>The accounts that count for the first registration.\<close>

definition real_accounts :: "auth_db \<Rightarrow> string list" where
  "real_accounts s = map ac_id (filter real_user (ad_users s))"

text \<open>What the forms rely on of the framework's \<open>signIn\<close>: it creates and deletes no account and asks the limiter
  for nobody who is not signed in.\<close>

definition quiet_sign_in :: "sign_in \<Rightarrow> bool" where
  "quiet_sign_in signIn \<longleftrightarrow> (\<forall>c r s. real_accounts (fst (signIn c r s)) = real_accounts s
     \<and> (\<forall>g b. minute_count (ad_rates (fst (signIn c r s))) SYSTEM_USER_ID g b = minute_count (ad_rates s) SYSTEM_USER_ID g b))"

text \<open>A \<open>signIn\<close> that lets nobody in.\<close>

definition refusing_sign_in :: sign_in where
  "refusing_sign_in c r s = (s, Inl (Auth_Failure None))"

lemma refusing_quiet: "quiet_sign_in refusing_sign_in"
  by (simp add: quiet_sign_in_def refusing_sign_in_def)

lemma real_accounts_frame [simp]:
  "real_accounts (s\<lparr>ad_rates := r\<rparr>) = real_accounts s" "real_accounts (recordAuthEvent e now s) = real_accounts s"
  by (simp_all add: real_accounts_def recordAuthEvent_def)

lemma real_accounts_update:
  assumes "\<And>u. ac_id (f u) = ac_id u" "\<And>u. ac_deletedAt (f u) = ac_deletedAt u"
  shows "real_accounts (fst (update_users P f s)) = real_accounts s"
proof -
  have "map ac_id (filter real_user (map (\<lambda>u. if P u then f u else u) us)) = map ac_id (filter real_user us)" for us
    by (induction us) (simp_all add: real_user_def assms)
  then show ?thesis
    by (simp add: real_accounts_def)
qed

section \<open>Attempts per address\<close>

text \<open>Login forms one after another, each with its time, headers and failing calls.\<close>

type_synonym login_request = "(auth_call \<Rightarrow> bool) \<times> ms \<times> login_form \<times> req_headers"

fun logins :: "web_env \<Rightarrow> externals \<Rightarrow> sign_in \<Rightarrow> login_request list \<Rightarrow> auth_db \<Rightarrow> form_answer list" where
  "logins env ex signIn [] s = []"
| "logins env ex signIn ((up, now, f, h) # rs) s =
     (case loginAction env ex up signIn now f h s of (s', a) \<Rightarrow> a # logins env ex signIn rs s')"

text \<open>Requests of minute \<open>b\<close> that name the address, in any spelling, and are complete.\<close>

definition login_for :: "externals \<Rightarrow> string \<Rightarrow> int \<Rightarrow> login_request \<Rightarrow> bool" where
  "login_for ex e b r \<longleftrightarrow> (case r of (up, now, f, h) \<Rightarrow>
     loginSchema ex f = None \<and> toLowerCase (js_trim (or_empty (lf_email f))) = e \<and> now div 60000 = b)"

text \<open>The answer says that the credentials have been tried.\<close>

definition tried :: "form_answer \<Rightarrow> bool" where
  "tried a \<longleftrightarrow> a \<noteq> Form_Error TOO_MANY_LOGINS \<and> a \<noteq> Form_Error TOO_MANY_LOGINS_EMAIL \<and> a \<noteq> Form_Throws"

lemma withRateLimit_count:
  "minute_count (fst (withRateLimit u g n now t)) u' g' b
     = minute_count t u' g' b + (if u' = u \<and> g' = g \<and> now div 60000 = b then 1 else 0)"
  "rr_allowed (snd (withRateLimit u g n now t)) \<longleftrightarrow> minute_count t u g (now div 60000) + 1 \<le> n"
  by (auto simp: withRateLimit_def Let_def minute_count_def js_get_set split: option.splits)

lemma ask_limit_count:
  assumes "ask_limit env ex up now kind value n s = Some (s', ok)"
  shows "minute_count (ad_rates s') SYSTEM_USER_ID g b = minute_count (ad_rates s) SYSTEM_USER_ID g b
      + (if g = unauthenticatedRateLimitKey env ex kind value \<and> now div 60000 = b then 1 else 0)"
    and "ok \<longleftrightarrow> minute_count (ad_rates s) SYSTEM_USER_ID (unauthenticatedRateLimitKey env ex kind value) (now div 60000) + 1 \<le> n"
    and "real_accounts s' = real_accounts s"
    and "ad_users s' = ad_users s" "ad_tokens s' = ad_tokens s" "ad_sessions s' = ad_sessions s"
  using assms withRateLimit_count[of SYSTEM_USER_ID "unauthenticatedRateLimitKey env ex kind value" n now "ad_rates s"]
  by (auto simp: ask_limit_def split: if_splits prod.splits)

lemma login_failure_tried: "tried (login_failure_answer m)"
  by (cases m rule: login_failure_answer.cases) (auto simp: tried_def TOO_MANY_LOGINS_def TOO_MANY_LOGINS_EMAIL_def)

text \<open>One login: the counter of its address grows when the credentials are tried, and only below the limit.\<close>

lemma loginAction_count:
  assumes "quiet_sign_in signIn" "loginAction env ex up signIn now f h s = (s', a)"
  defines "key \<equiv> unauthenticatedRateLimitKey env ex ''login-email''"
  shows "minute_count (ad_rates s) SYSTEM_USER_ID (key e) b \<le> minute_count (ad_rates s') SYSTEM_USER_ID (key e) b"
    and "login_for ex e b (up, now, f, h) \<Longrightarrow> tried a \<Longrightarrow>
      minute_count (ad_rates s) SYSTEM_USER_ID (key e) b + 1 \<le> 5
      \<and> minute_count (ad_rates s) SYSTEM_USER_ID (key e) b + 1 \<le> minute_count (ad_rates s') SYSTEM_USER_ID (key e) b"
proof -
  let ?mail = "toLowerCase (js_trim (or_empty (lf_email f)))" and ?ip = "clientIp h"
  let ?n = "\<lambda>s. minute_count (ad_rates s) SYSTEM_USER_ID (key e) b"
  have quiet: "?n (fst (signIn c r t)) = ?n t" for c r t
    using assms(1) by (simp add: quiet_sign_in_def)
  have frame: "?n (recordAuthEvent ev now t) = ?n t" for ev t
    by (simp add: recordAuthEvent_def)
  consider (form) "s' = s" "loginSchema ex f \<noteq> None"
    | (throws1) "s' = s" "\<not> tried a"
    | (first) s1 where "ask_limit env ex up now ''login-ip'' ?ip 10 s = Some (s1, False)" "s' = s1" "\<not> tried a"
    | (throws2) s1 where "ask_limit env ex up now ''login-ip'' ?ip 10 s = Some (s1, True)" "s' = s1" "\<not> tried a"
    | (second) s1 s2 where "ask_limit env ex up now ''login-ip'' ?ip 10 s = Some (s1, True)"
        "ask_limit env ex up now ''login-email'' ?mail 5 s1 = Some (s2, False)" "s' = s2" "\<not> tried a"
    | (both) s1 s2 where "ask_limit env ex up now ''login-ip'' ?ip 10 s = Some (s1, True)"
        "ask_limit env ex up now ''login-email'' ?mail 5 s1 = Some (s2, True)"
        "?n s' = ?n (fst (signIn (login_credentials f h) (sanitizeNext (lf_next f)) s2))"
    using assms(2) frame
    by (fastforce simp: loginAction_def Let_def tried_def frame split: option.splits if_splits prod.splits sum.splits sign_in_failure.splits)
  note cases = this
  show "?n s \<le> ?n s'"
    using cases by cases (auto simp: ask_limit_count(1) quiet)
  assume lf: "login_for ex e b (up, now, f, h)" and a: "tried a"
  show "?n s + 1 \<le> 5 \<and> ?n s + 1 \<le> ?n s'"
    using cases
  proof cases
    case (both s1 s2)
    have "e = ?mail" "b = now div 60000"
      using lf by (simp_all add: login_for_def)
    then have "?n s1 + 1 \<le> 5" "?n s2 = ?n s1 + 1"
      using ask_limit_count(2)[OF both(2)] ask_limit_count(1)[OF both(2), of "key e" b] by (simp_all add: key_def)
    moreover have "?n s \<le> ?n s1"
      using ask_limit_count(1)[OF both(1), of "key e" b] by simp
    ultimately show ?thesis
      using both(3) quiet by simp
  qed (use lf a in \<open>auto simp: login_for_def\<close>)
qed

text \<open>
  In each minute the login form tries at most five passwords for an address, whatever addresses the requests
  come from, however it is spelled and whatever calls fail.
\<close>

theorem five_logins_per_address:
  assumes "quiet_sign_in signIn"
    "0 \<le> minute_count (ad_rates s) SYSTEM_USER_ID (unauthenticatedRateLimitKey env ex ''login-email'' e) b"
  shows "length (filter (\<lambda>(r, a). login_for ex e b r \<and> tried a) (zip rs (logins env ex signIn rs s))) \<le> 5"
proof -
  let ?n = "\<lambda>s. minute_count (ad_rates s) SYSTEM_USER_ID (unauthenticatedRateLimitKey env ex ''login-email'' e) b"
  have "int (length (filter (\<lambda>(r, a). login_for ex e b r \<and> tried a) (zip rs (logins env ex signIn rs s)))) \<le> max 0 (5 - ?n s)"
    using assms(2)
  proof (induction rs arbitrary: s)
    case (Cons r rs)
    obtain up now f h where r: "r = (up, now, f, h)"
      by (cases r) auto
    obtain s' a where l: "loginAction env ex up signIn now f h s = (s', a)"
      by fastforce
    note step = loginAction_count[OF assms(1) l, of e b]
    have "int (length (filter (\<lambda>(r, a). login_for ex e b r \<and> tried a) (zip rs (logins env ex signIn rs s')))) \<le> max 0 (5 - ?n s')"
      using Cons.IH[of s'] Cons.prems step(1) by linarith
    then show ?case
      using step Cons.prems by (cases "login_for ex e b r \<and> tried a") (auto simp: r l)
  qed simp
  then show ?thesis
    using assms(2) by linarith
qed

definition login_with :: "string \<Rightarrow> login_request" where
  "login_with pw = (\<lambda>_. True, 1000, \<lparr>lf_email = Some ''ann@x.org'', lf_password = Some pw, lf_next = None, lf_totpCode = None,
     lf_rememberMe = None\<rparr>, \<lparr>rh_forwardedFor = None, rh_realIp = Some pw, rh_userAgent = None\<rparr>)"

theorem five_logins_per_address_witness:
  "length (filter (\<lambda>(r, a). login_for sample_externals ''ann@x.org'' 0 r \<and> tried a)
     (zip (map login_with [''a'', ''b'', ''c'', ''d'', ''e'', ''f'', ''g''])
       (logins sample_web_env sample_externals refusing_sign_in (map login_with [''a'', ''b'', ''c'', ''d'', ''e'', ''f'', ''g'']) sample_auth_db))) \<le> 5"
  by (rule five_logins_per_address[OF refusing_quiet]) code_simp

section \<open>Resets\<close>

text \<open>
  The answer to a request for a reset link, and to one for another verification link, is the same whether
  the address has an account or not.
\<close>

theorem forms_hide_accounts:
  assumes "ad_rates s1 = ad_rates s2"
  shows "snd (snd (forgotPasswordAction env ex up baseUrl random now email s1)) = snd (snd (forgotPasswordAction env ex up baseUrl random now email s2))
    \<and> snd (snd (resendVerificationAction env ex up baseUrl random now e s1)) = snd (snd (resendVerificationAction env ex up baseUrl random now e s2))"
proof -
  have ask: "ask_limit env ex up now kind v n s2 = map_option (\<lambda>(s, ok). (s2\<lparr>ad_rates := ad_rates s\<rparr>, ok)) (ask_limit env ex up now kind v n s1)"
    for kind v n
    using assms by (simp add: ask_limit_def split: prod.splits)
  have "snd (snd (forgotPasswordAction env ex up baseUrl random now email s1)) = snd (snd (forgotPasswordAction env ex up baseUrl random now email s2))"
    by (cases "ask_limit env ex up now ''forgot-email'' (toLowerCase (js_trim (or_empty email))) 3 s1")
      (auto simp: forgotPasswordAction_def Let_def ask)
  moreover have "snd (snd (resendVerificationAction env ex up baseUrl random now e s1)) = snd (snd (resendVerificationAction env ex up baseUrl random now e s2))"
    by (cases "ask_limit env ex up now ''resend-verify-email'' (toLowerCase (js_trim e)) 3 s1")
      (auto simp: resendVerificationAction_def Let_def ask split: option.splits prod.splits)
  ultimately show ?thesis ..
qed

theorem forms_hide_accounts_witness:
  "snd (snd (forgotPasswordAction sample_web_env sample_externals (\<lambda>_. True) True [1, 2] 0 (Some ''ann@x.org'') sample_auth_db))
     = snd (snd (forgotPasswordAction sample_web_env sample_externals (\<lambda>_. True) True [1, 2] 0 (Some ''ann@x.org'') empty_auth_db))"
  using forms_hide_accounts[of sample_auth_db empty_auth_db] by (simp add: sample_auth_db_def empty_auth_db_def)

lemma reset_commit_simps:
  "ad_users (reset_commit ex b vt pw s) = map (\<lambda>u. if ac_email u = vt_identifier vt then set_password (ex_hash ex pw) u else u) (ad_users s)"
  "ad_tokens (reset_commit ex b vt pw s) = filter (\<lambda>v. \<not> (vt_token v = vt_token vt \<and> vt_purpose v = Password_Reset)) (ad_tokens s)"
  "ad_sessions (reset_commit ex b vt pw s) = ad_sessions s"
  by (simp_all add: reset_commit_def updatePasswordByEmail_def deleteVerificationToken_def createAuditLog_def Let_def split: option.splits)

lemma getUserById_reset_commit:
  "getUserById i (reset_commit ex b vt pw s)
     = map_option (\<lambda>u. if ac_email u = vt_identifier vt then set_password (ex_hash ex pw) u else u) (getUserById i s)"
  unfolding getUserById_def reset_commit_simps by (rule find_map_if) (simp add: set_password_def)

lemma resetPasswordAction_Success:
  assumes "resetPasswordAction env ex up b now token pw h s = (s', Form_Success m)"
  obtains s1 vt where "ad_users s1 = ad_users s" "ad_tokens s1 = ad_tokens s" "ad_sessions s1 = ad_sessions s"
    "passwordSchema pw = None" "findVerificationToken now (hashToken ex token) Password_Reset s = Some vt" "s' = reset_commit ex b vt pw s1"
proof -
  obtain s1 vt where s1: "ask_limit env ex up now ''reset-ip'' (clientIp h) 5 s = Some (s1, True)" "passwordSchema pw = None"
    "findVerificationToken now (hashToken ex token) Password_Reset s1 = Some vt" "s' = reset_commit ex b vt pw s1"
    using assms by (auto simp: resetPasswordAction_def split: if_splits option.splits prod.splits)
  then show thesis
    using that ask_limit_count(4-6)[OF s1(1)] by (simp add: findVerificationToken_def)
qed

text \<open>
  C15: A reset needs a stored, unexpired token that was made for a reset and the text that hashes to it; it sets the
  password of the token's account and of no other, ends all sessions of that account and uses the token up,
  so that the same link is refused from then on.
\<close>

theorem reset_password_exact:
  assumes "resetPasswordAction env ex up b now token pw h s = (s', Form_Success m)"
  shows "\<exists>vt\<in>set (ad_tokens s). vt_token vt = hashToken ex token \<and> vt_purpose vt = Password_Reset \<and> now < vt_expires vt
    \<and> passwordSchema pw = None
    \<and> ad_users s' = map (\<lambda>u. if ac_email u = vt_identifier vt then set_password (ex_hash ex pw) u else u) (ad_users s)
    \<and> (\<forall>t i u. tk_id t = Some i \<and> getUserById i s = Some u \<and> ac_email u = vt_identifier vt \<and> session_current t s \<longrightarrow> \<not> session_current t s')
    \<and> (\<forall>env up b now pw h m. snd (resetPasswordAction env ex up b now token pw h s') \<noteq> Form_Success m)"
proof -
  obtain s1 vt where s1: "ad_users s1 = ad_users s" "ad_tokens s1 = ad_tokens s" "ad_sessions s1 = ad_sessions s"
    "passwordSchema pw = None" "findVerificationToken now (hashToken ex token) Password_Reset s = Some vt" "s' = reset_commit ex b vt pw s1"
    by (rule resetPasswordAction_Success[OF assms])
  have vt: "vt \<in> set (ad_tokens s)" "vt_token vt = hashToken ex token" "vt_purpose vt = Password_Reset" "now < vt_expires vt"
    using s1(5) by (auto simp: findVerificationToken_def find_Some_iff)
  have gone: "findVerificationToken t (hashToken ex token) Password_Reset s' = None" for t
    using vt(2) by (auto simp: findVerificationToken_def s1(6) reset_commit_simps find_None_iff)
  have again: "snd (resetPasswordAction env ex up b t token pw h s') \<noteq> Form_Success m" for env up b t pw h m
  proof
    assume "snd (resetPasswordAction env ex up b t token pw h s') = Form_Success m"
    then obtain s2 where "resetPasswordAction env ex up b t token pw h s' = (s2, Form_Success m)"
      by (metis prod.collapse)
    then show False
      by (rule resetPasswordAction_Success) (simp add: gone)
  qed
  have ended: "\<not> session_current t s'"
    if "tk_id t = Some i" "getUserById i s = Some u" "ac_email u = vt_identifier vt" "session_current t s" for t i u
  proof -
    have "getUserById i s1 = Some u"
      using that(2) s1(1) by (simp add: getUserById_def)
    then have "getUserById i s' = Some (set_password (ex_hash ex pw) u)"
      using that(3) by (simp add: s1(6) getUserById_reset_commit)
    then show ?thesis
      using that(1,2,4) by (auto simp: session_current_def set_password_def)
  qed
  show ?thesis
    using vt s1(1,4) again ended by (intro bexI[of _ vt] conjI) (auto simp: s1(6) reset_commit_simps)
qed

definition reset_db :: auth_db where
  "reset_db = sample_auth_db\<lparr>ad_tokens := [\<lparr>vt_identifier = ''ann@x.org'', vt_token = ''t1'', vt_purpose = Password_Reset, vt_expires = 9000\<rparr>,
     \<lparr>vt_identifier = ''ann@x.org'', vt_token = ''t2'', vt_purpose = Password_Reset, vt_expires = 9000\<rparr>]\<rparr>"

definition no_headers :: req_headers where
  "no_headers = \<lparr>rh_forwardedFor = None, rh_realIp = None, rh_userAgent = None\<rparr>"

lemma reset_db_resets:
  "resetPasswordAction sample_web_env sample_externals (\<lambda>_. True) True 1000 ''t1'' ''New-secret-22'' no_headers reset_db
     = (fst (resetPasswordAction sample_web_env sample_externals (\<lambda>_. True) True 1000 ''t1'' ''New-secret-22'' no_headers reset_db),
        Form_Success ''Password has been reset. You can now sign in.'')"
proof -
  have "snd (resetPasswordAction sample_web_env sample_externals (\<lambda>_. True) True 1000 ''t1'' ''New-secret-22'' no_headers reset_db)
      = Form_Success ''Password has been reset. You can now sign in.''"
    by code_simp
  then show ?thesis by (metis prod.collapse)
qed

theorem reset_password_exact_witness:
  "snd (resetPasswordAction sample_web_env sample_externals (\<lambda>_. True) True 2000 ''t1'' ''Other-secret-3'' no_headers
      (fst (resetPasswordAction sample_web_env sample_externals (\<lambda>_. True) True 1000 ''t1'' ''New-secret-22'' no_headers reset_db)))
    \<noteq> Form_Success ''Password has been reset. You can now sign in.''"
  by (rule bexE[OF reset_password_exact[OF reset_db_resets]]) (elim conjE, fast)

text \<open>
  Two requests with one link that both look the token up before either of them writes both succeed, and the
  account ends with the password of the later one: the deletion is not conditional.
\<close>

theorem reset_link_used_twice:
  assumes "auth_ok s" "getUserByEmail (vt_identifier vt) s = Some u"
  shows "map_option (\<lambda>v. (ac_hashedPassword v, ac_tokenVersion v))
      (getUserById (ac_id u) (reset_commit ex b2 vt pw2 (reset_commit ex b1 vt pw1 s)))
    = Some (Some (ex_hash ex pw2), ac_tokenVersion u + 2)"
proof -
  have "getUserById (ac_id u) s = Some u" "ac_email u = vt_identifier vt"
    using getUserByEmail_ids[OF assms] getUserByEmail_SomeD[OF assms(2)] by auto
  then show ?thesis
    by (simp add: getUserById_reset_commit set_password_def)
qed

theorem reset_link_used_twice_witness:
  "map_option (\<lambda>v. (ac_hashedPassword v, ac_tokenVersion v))
      (getUserById ''u1'' (reset_commit sample_externals True (hd (ad_tokens reset_db)) ''pw-two''
        (reset_commit sample_externals True (hd (ad_tokens reset_db)) ''pw-one'' reset_db)))
    = Some (Some (ex_hash sample_externals ''pw-two''), 2)"
proof -
  have "auth_ok reset_db" "getUserByEmail (vt_identifier (hd (ad_tokens reset_db))) reset_db = Some sample_user"
    "ac_id sample_user = ''u1''" "ac_tokenVersion sample_user = 0"
    by code_simp+
  then show ?thesis
    using reset_link_used_twice[of reset_db "hd (ad_tokens reset_db)" sample_user sample_externals True "''pw-two''" True "''pw-one''"]
    by simp
qed

text \<open>A reset uses up its own token only: any other link of the account, sent before, still resets the new password.\<close>

theorem other_reset_links_survive:
  assumes "resetPasswordAction env ex up b now token pw h s = (s', Form_Success m)" "hashToken ex other \<noteq> hashToken ex token"
  shows "findVerificationToken t (hashToken ex other) Password_Reset s' = findVerificationToken t (hashToken ex other) Password_Reset s"
proof -
  obtain s1 vt where s1: "ad_tokens s1 = ad_tokens s" "findVerificationToken now (hashToken ex token) Password_Reset s = Some vt"
    "s' = reset_commit ex b vt pw s1"
    by (rule resetPasswordAction_Success[OF assms(1)]) blast
  have vt: "vt_token vt = hashToken ex token"
    using s1(2) by (auto simp: findVerificationToken_def find_Some_iff)
  have "List.find P (filter Q xs) = List.find P xs" if "\<And>x. P x \<Longrightarrow> Q x" for P Q and xs :: "verification_token list"
    using that by (induction xs) auto
  then show ?thesis
    unfolding findVerificationToken_def s1(3) reset_commit_simps s1(1) by this (use assms(2) vt in auto)
qed

theorem other_reset_links_survive_witness:
  "findVerificationToken 1500 ''t2'' Password_Reset
     (fst (resetPasswordAction sample_web_env sample_externals (\<lambda>_. True) True 1000 ''t1'' ''New-secret-22'' no_headers reset_db))
   = findVerificationToken 1500 ''t2'' Password_Reset reset_db"
  using other_reset_links_survive[OF reset_db_resets, of "''t2''" 1500] by (simp add: hashToken_def sample_externals_def)

section \<open>The first account\<close>

datatype account_event =
    Registers "auth_call \<Rightarrow> bool" bool string "nat list" ms register_form req_headers
  | Google_Signs_In ms string string "(string \<times> string) option" google_profile

fun account_step :: "web_env \<Rightarrow> externals \<Rightarrow> sign_in \<Rightarrow> account_event \<Rightarrow> auth_db \<Rightarrow> auth_db" where
  "account_step env ex signIn (Registers up baseUrl uuid random now f h) s =
     fst (registerAction env ex up signIn baseUrl uuid random now f h s)"
| "account_step env ex signIn (Google_Signs_In now uuid sid account p) s =
     fst (provisionUserOnSignIn (we_REGISTRATION_MODE env) now uuid sid account p s)"

lemma mail_token_users: "mail_token ex now baseUrl random e p l s = (s', mail) \<Longrightarrow> ad_users s' = ad_users s"
  by (auto simp: mail_token_def createVerificationToken_def split: if_splits prod.splits)

lemma create_user_row_accounts:
  assumes "create_user_row first u s = Inr s'"
  shows "first \<Longrightarrow> real_accounts s = [] \<and> length (real_accounts s') \<le> 1"
    and "real_accounts s' = real_accounts s @ map ac_id (filter real_user [u])"
  using assms
  by (auto simp: create_user_row_def insert_user_def real_accounts_def list_ex_iff filter_empty_conv split: if_splits option.splits)

text \<open>The database after a registration.\<close>

lemma registerAction_state:
  obtains (form) "fst (registerAction env ex up signIn baseUrl uuid random now f h s) = s"
    | (refused) s1 ok where "ask_limit env ex up now ''register-ip'' (clientIp h) 5 s = Some (s1, ok)"
        "fst (registerAction env ex up signIn baseUrl uuid random now f h s) = s1"
    | (created) s1 s2 u s3 mail c where "ask_limit env ex up now ''register-ip'' (clientIp h) 5 s = Some (s1, True)"
        "create_user_row (we_REGISTRATION_MODE env = Owner_First) u s1 = Inr s2"
        "mail_token ex now baseUrl random (ac_email u) Email_Verify (24 * HOUR) s2 = (s3, mail)"
        "fst (registerAction env ex up signIn baseUrl uuid random now f h s) = fst (signIn c ''/onboarding'' s3)"
proof (cases "registerSchema ex f = None \<and> we_REGISTRATION_MODE env \<noteq> Disabled")
  case False
  then show thesis
    using form by (auto simp: registerAction_def split: option.splits)
next
  case True
  let ?e = "toLowerCase (js_trim (or_empty (rf_email f)))"
  let ?u = "new_user now uuid ?e (or_empty (rf_name f)) None (Some (ex_hash ex (or_empty (rf_password f))))"
  show thesis
  proof (cases "ask_limit env ex up now ''register-ip'' (clientIp h) 5 s")
    case None
    then show thesis
      using True form by (simp add: registerAction_def Let_def)
  next
    case (Some p)
    then obtain s1 ok where s1: "ask_limit env ex up now ''register-ip'' (clientIp h) 5 s = Some (s1, ok)"
      by (cases p) auto
    show thesis
    proof (cases "ok \<and> \<not> userExistsByEmail ?e s1")
      case False
      then show thesis
        using True refused[OF s1] by (auto simp: registerAction_def Let_def s1)
    next
      case ok: True
      show thesis
      proof (cases "createUserWithSettings now uuid ?e (or_empty (rf_name f)) (ex_hash ex (or_empty (rf_password f)))
          (we_REGISTRATION_MODE env = Owner_First) s1")
        case (Inl e)
        then show thesis
          using True ok refused[OF s1] by (cases e) (auto simp: registerAction_def Let_def s1)
      next
        case (Inr s2)
        obtain s3 mail where m: "mail_token ex now baseUrl random ?e Email_Verify (24 * HOUR) s2 = (s3, mail)"
          by fastforce
        show thesis
          using True ok Inr s1 m created[of s1 ?u s2 s3 mail "\<lparr>cr_email = Some ?e, cr_password = Some (or_empty (rf_password f)),
            cr_totpCode = None, cr_rememberMe = Some ''true'', cr_deviceName = None, cr_ip = None\<rparr>"]
          by (simp add: registerAction_def Let_def createUserWithSettings_def new_user_def split: prod.split)
      qed
    qed
  qed
qed

lemma account_step_accounts:
  assumes "quiet_sign_in signIn" "we_REGISTRATION_MODE env = Owner_First"
  shows "real_accounts (account_step env ex signIn e s) = real_accounts s
    \<or> (real_accounts s = [] \<and> length (real_accounts (account_step env ex signIn e s)) \<le> 1)"
proof (cases e)
  case (Registers up baseUrl uuid random now f h)
  have quiet: "real_accounts (fst (signIn c r t)) = real_accounts t" for c r t
    using assms(1) by (simp add: quiet_sign_in_def)
  have same: "real_accounts t = real_accounts s" if "ad_users t = ad_users s" for s t
    using that by (simp add: real_accounts_def)
  let ?s' = "account_step env ex signIn e s"
  have "real_accounts ?s' = real_accounts s \<or> (\<exists>s1 s2 u. real_accounts s1 = real_accounts s \<and> create_user_row True u s1 = Inr s2
      \<and> real_accounts ?s' = real_accounts s2)"
    unfolding Registers account_step.simps
  proof (cases rule: registerAction_state[of env ex up signIn baseUrl uuid random now f h s])
    case (created s1 s2 u s3 mail c)
    have "real_accounts s1 = real_accounts s" "real_accounts s3 = real_accounts s2"
      using ask_limit_count(3)[OF created(1)] same[OF mail_token_users[OF created(3)]] by simp_all
    then show "real_accounts (fst (registerAction env ex up signIn baseUrl uuid random now f h s)) = real_accounts s
        \<or> (\<exists>s1 s2 u. real_accounts s1 = real_accounts s \<and> create_user_row True u s1 = Inr s2
          \<and> real_accounts (fst (registerAction env ex up signIn baseUrl uuid random now f h s)) = real_accounts s2)"
      using created(2,4) assms(2) quiet
      by (intro disjI2 exI[of _ s1] exI[of _ s2] exI[of _ u]) simp
  qed (auto dest: ask_limit_count(3))
  then show ?thesis
    using create_user_row_accounts(1) by metis
next
  case (Google_Signs_In now uuid sid account p)
  have link: "real_accounts (link_account a t) = real_accounts t" for a t
    by (simp add: link_account_def real_accounts_def)
  have upd: "real_accounts (fst (update_user i (\<lambda>v. v\<lparr>ac_emailVerified := x\<rparr>) t)) = real_accounts t" for i x t
    unfolding update_user_def by (rule real_accounts_update) simp_all
  let ?s' = "account_step env ex signIn e s"
  have "real_accounts ?s' = real_accounts s \<or> (\<exists>s2 u. create_user_row True u s = Inr s2 \<and> real_accounts ?s' = real_accounts s2)"
    unfolding Google_Signs_In account_step.simps provisionUserOnSignIn_def Let_def
    by (auto simp: assms(2) link upd split: option.splits if_splits prod.splits sum.splits create_error.splits)
  then show ?thesis
    using create_user_row_accounts(1) by metis
qed

text \<open>
  C28: While only the owner may register, any sequence of registrations and Google sign-ins leaves the accounts as
  they are once there is one, and from none at most one comes to exist.
\<close>

theorem owner_first_single_account:
  assumes "quiet_sign_in signIn" "we_REGISTRATION_MODE env = Owner_First"
  shows "(if real_accounts s = [] then length (real_accounts (fold (account_step env ex signIn) es s)) \<le> 1
    else real_accounts (fold (account_step env ex signIn) es s) = real_accounts s)"
proof (induction es arbitrary: s)
  case (Cons e es)
  show ?case
    using account_step_accounts[OF assms, of ex e s] Cons[of "account_step env ex signIn e s"] by (auto split: if_splits)
qed simp

theorem owner_first_single_account_witness:
  "real_accounts (fold (account_step sample_web_env sample_externals refusing_sign_in)
      [Registers (\<lambda>_. True) True ''u2'' [1] 5 \<lparr>rf_name = Some ''Bob'', rf_email = Some ''bob@x.org'', rf_password = Some ''Secret-word-2''\<rparr> no_headers,
       Google_Signs_In 6 ''u3'' ''s3'' (Some (''google'', ''g3'')) \<lparr>gp_email = Some ''eve@x.org'', gp_email_verified = Some True, gp_name = None\<rparr>]
      sample_auth_db) = [''u1'']"
proof -
  have "real_accounts sample_auth_db = [''u1'']" "we_REGISTRATION_MODE sample_web_env = Owner_First"
    by code_simp+
  then show ?thesis
    using owner_first_single_account[OF refusing_quiet, of sample_web_env sample_auth_db sample_externals]
    by (metis list.distinct(1))
qed

end
