(* ===== verification/Security_Settings.thy ===== *)
theory Security_Settings
  imports Account_Actions "HOL-Library.Word"
begin

text \<open>
  The security settings of an account, \<open>apps/web/src/app/(app)/settings/_actions-security.ts\<close> with
  \<open>_actions-shared.ts\<close>: the second factor, sessions, the password and the deletion of the account.
  \<open>session\<close> is the id of the signed-in user. \<open>up n\<close> says whether the \<open>n\<close>-th database call after the
  limiter succeeds; what earlier statements wrote stays. Random bytes and initialisation vectors are
  arguments. The picture of a code and the reload of the page are left out.
\<close>

section \<open>Results\<close>

datatype 'a action_result = Action_Ok 'a | Action_Failed string | Action_Throws

definition settings_limit :: "string \<Rightarrow> string \<Rightarrow> int \<Rightarrow> ms \<Rightarrow> auth_db \<Rightarrow> auth_db \<times> bool" where
  "settings_limit i bucket n now s =
     (case withRateLimit i bucket n now (ad_rates s) of (rates, rl) \<Rightarrow> (s\<lparr>ad_rates := rates\<rparr>, rr_allowed rl))"

text \<open>What every limited action starts with.\<close>

definition limited_action :: "string option \<Rightarrow> string \<Rightarrow> int \<Rightarrow> ms \<Rightarrow> auth_db
    \<Rightarrow> (string \<Rightarrow> auth_db \<Rightarrow> auth_db \<times> 'a action_result) \<Rightarrow> auth_db \<times> 'a action_result" where
  "limited_action session bucket n now s act =
     (case session of None \<Rightarrow> (s, Action_Failed ''Unauthorized'')
      | Some i \<Rightarrow> if i = [] then (s, Action_Failed ''Unauthorized'')
          else case settings_limit i bucket n now s of (s1, ok) \<Rightarrow>
            if ok then act i s1 else (s1, Action_Failed ''Too many requests. Try again later.''))"

section \<open>The second factor\<close>

definition BACKUP_CODE_ALPHABET :: string where
  "BACKUP_CODE_ALPHABET = ''23456789ABCDEFGHJKLMNPQRSTUVWXYZ''"

definition backup_code :: "8 word list \<Rightarrow> string" where
  "backup_code bs = map (\<lambda>b. BACKUP_CODE_ALPHABET ! (unat b mod length BACKUP_CODE_ALPHABET)) bs"

text \<open>From ten times ten random bytes; the codes with their hashes.\<close>

definition generateBackupCodes :: "externals \<Rightarrow> 8 word list list \<Rightarrow> (string \<times> string) list" where
  "generateBackupCodes ex random = map (\<lambda>bs. (backup_code bs, ex_hash ex (backup_code bs))) random"

definition store_codes :: "string \<Rightarrow> string list option \<Rightarrow> auth_db \<Rightarrow> auth_db" where
  "store_codes i codes s = fst (update_user i (\<lambda>u. clear_2fa_lockout (u\<lparr>ac_twoFactorBackupCodes := codes\<rparr>)) s)"

text \<open>\<open>secret\<close> is the generated one.\<close>

definition setupTwoFactorAction :: "externals \<Rightarrow> (nat \<Rightarrow> bool) \<Rightarrow> string \<Rightarrow> nat list \<Rightarrow> 8 word list list \<Rightarrow> ms \<Rightarrow> string option \<Rightarrow> auth_db
    \<Rightarrow> auth_db \<times> (string \<times> string list) action_result" where
  "setupTwoFactorAction ex up secret iv random now session s =
     limited_action session ''settings_2fa_setup'' 5 now s (\<lambda>i s1.
       let codes = generateBackupCodes ex random; failed = Action_Failed ''Failed to generate 2FA setup'' in
       case encryptSecret (ex_cipher ex) (ex_encryptionKey ex) iv secret of
         Inl _ \<Rightarrow> (s1, failed)
       | Inr sealed \<Rightarrow>
           if \<not> up 0 then (s1, failed)
           else let s2 = updateTwoFactorSecret i (Some sealed) s1 in
             if \<not> up 1 then (s2, failed)
             else (store_codes i (Some (map snd codes)) s2, Action_Ok (secret, map fst codes)))"

definition regenerateBackupCodesAction :: "externals \<Rightarrow> (nat \<Rightarrow> bool) \<Rightarrow> 8 word list list \<Rightarrow> ms \<Rightarrow> string option \<Rightarrow> auth_db
    \<Rightarrow> auth_db \<times> string list action_result" where
  "regenerateBackupCodesAction ex up random now session s =
     limited_action session ''settings_2fa_regenerate'' 5 now s (\<lambda>i s1.
       let codes = generateBackupCodes ex random in
       if \<not> up 0 then (s1, Action_Failed ''Failed to regenerate backup codes'')
       else (store_codes i (Some (map snd codes)) s1, Action_Ok (map fst codes)))"

text \<open>The code of the stored secret: \<open>None\<close> when the check throws, else an error or that the code is right.\<close>

definition check_stored_code :: "externals \<Rightarrow> (nat \<Rightarrow> bool) \<Rightarrow> ms \<Rightarrow> string \<Rightarrow> string \<Rightarrow> string \<Rightarrow> auth_db \<Rightarrow> (string + unit) option" where
  "check_stored_code ex up now none_set i token s =
     (if \<not> up 0 then None
      else if missing (getTwoFactorSecret i s) then Some (Inl none_set)
      else case decryptSecret (ex_cipher ex) (ex_encryptionKey ex) (getTwoFactorSecret i s) of
          None \<Rightarrow> Some (Inl ''2FA secret is corrupted. Please disable and re-enable 2FA.'')
        | Some secret \<Rightarrow>
            if secret = [] then Some (Inl ''2FA secret is corrupted. Please disable and re-enable 2FA.'')
            else (case ex_totp ex secret token now of
                None \<Rightarrow> None
              | Some ok \<Rightarrow> Some (if ok then Inr () else Inl ''Invalid code. Try again.'')))"

definition verifyTwoFactorAction :: "externals \<Rightarrow> (nat \<Rightarrow> bool) \<Rightarrow> ms \<Rightarrow> string option \<Rightarrow> string \<Rightarrow> auth_db
    \<Rightarrow> auth_db \<times> unit action_result" where
  "verifyTwoFactorAction ex up now session token s =
     limited_action session ''settings_2fa_verify'' 10 now s (\<lambda>i s1.
       case check_stored_code ex up now ''No 2FA secret found. Start setup first.'' i token s1 of
         None \<Rightarrow> (s1, Action_Failed ''Failed to verify 2FA code'')
       | Some (Inl e) \<Rightarrow> (s1, Action_Failed e)
       | Some (Inr _) \<Rightarrow>
           if \<not> up 1 then (s1, Action_Failed ''Failed to verify 2FA code'')
           else (setTwoFactorEnabled i True s1, Action_Ok ()))"

definition disableTwoFactorAction :: "externals \<Rightarrow> (nat \<Rightarrow> bool) \<Rightarrow> ms \<Rightarrow> string option \<Rightarrow> string \<Rightarrow> auth_db
    \<Rightarrow> auth_db \<times> unit action_result" where
  "disableTwoFactorAction ex up now session token s =
     limited_action session ''settings_2fa_disable'' 5 now s (\<lambda>i s1.
       let failed = Action_Failed ''Failed to disable 2FA'' in
       case check_stored_code ex up now ''2FA is not configured'' i token s1 of
         None \<Rightarrow> (s1, failed)
       | Some (Inl e) \<Rightarrow> (s1, Action_Failed e)
       | Some (Inr _) \<Rightarrow>
           if \<not> up 1 then (s1, failed)
           else let s2 = updateTwoFactorSecret i None s1 in
             if \<not> up 2 then (s2, failed)
             else let s3 = store_codes i None s2 in
               if \<not> up 3 then (s3, failed)
               else (createAuditLog (up 4) i ''2fa_disabled'' (setTwoFactorEnabled i False s3), Action_Ok ()))"

section \<open>Sessions\<close>

definition listSessionsAction :: "(nat \<Rightarrow> bool) \<Rightarrow> string option \<Rightarrow> auth_db \<Rightarrow> session_row list action_result" where
  "listSessionsAction up session s =
     (case session of None \<Rightarrow> Action_Failed ''Unauthorized''
      | Some i \<Rightarrow> if i = [] then Action_Failed ''Unauthorized''
          else if up 0 then Action_Ok (listUserSessions i s) else Action_Failed ''Failed to load sessions'')"

definition revokeSessionAction :: "(nat \<Rightarrow> bool) \<Rightarrow> ms \<Rightarrow> string option \<Rightarrow> string \<Rightarrow> auth_db \<Rightarrow> auth_db \<times> unit action_result" where
  "revokeSessionAction up now session sid s =
     limited_action session ''settings_revoke_session'' 10 now s (\<lambda>i s1.
       if up 0 then (revokeUserSession sid i s1, Action_Ok ()) else (s1, Action_Failed ''Failed to revoke session''))"

definition signOutEverywhereAction :: "(nat \<Rightarrow> bool) \<Rightarrow> ms \<Rightarrow> string option \<Rightarrow> auth_db \<Rightarrow> auth_db \<times> unit action_result" where
  "signOutEverywhereAction up now session s =
     limited_action session ''settings_signout_everywhere'' 2 now s (\<lambda>i s1.
       if \<not> up 0 then (s1, Action_Failed ''Failed to sign out everywhere'')
       else let s2 = deleteUserSessions i s1 in
         if \<not> up 1 then (s2, Action_Failed ''Failed to sign out everywhere'')
         else (incrementTokenVersion i s2, Action_Ok ()))"

section \<open>The password and the account\<close>

text \<open>The code of an account that has a second factor: \<open>None\<close> when it throws.\<close>

definition check_own_code :: "externals \<Rightarrow> ms \<Rightarrow> string \<Rightarrow> string option \<Rightarrow> auth_db \<Rightarrow> string option option" where
  "check_own_code ex now i totpCode s =
     (case getUserById i s of None \<Rightarrow> Some None
      | Some u \<Rightarrow>
          if \<not> ac_twoFactorEnabled u then Some None
          else if missing totpCode then Some (Some ''2FA code is required'')
          else case decryptSecret (ex_cipher ex) (ex_encryptionKey ex) (ac_twoFactorSecret u) of
              None \<Rightarrow> Some (Some ''Invalid 2FA code'')
            | Some secret \<Rightarrow>
                if secret = [] then Some (Some ''Invalid 2FA code'')
                else (case ex_totp ex secret (or_empty totpCode) now of
                    None \<Rightarrow> None
                  | Some ok \<Rightarrow> Some (if ok then None else Some ''Invalid 2FA code'')))"

definition changePasswordAction :: "externals \<Rightarrow> (nat \<Rightarrow> bool) \<Rightarrow> ms \<Rightarrow> string option \<Rightarrow> string \<Rightarrow> string \<Rightarrow> string option \<Rightarrow> auth_db
    \<Rightarrow> auth_db \<times> unit action_result" where
  "changePasswordAction ex up now session currentPassword newPassword totpCode s =
     (case session of None \<Rightarrow> (s, Action_Failed ''Unauthorized'')
      | Some i \<Rightarrow>
          if i = [] then (s, Action_Failed ''Unauthorized'')
          else case (if up 0 then verifyAccountPassword ex i currentPassword s else None) of
            None \<Rightarrow> (s, Action_Throws)
          | Some False \<Rightarrow> (s, Action_Failed ''Current password is incorrect'')
          | Some True \<Rightarrow>
              (case (if up 1 then check_own_code ex now i totpCode s else None) of
                 None \<Rightarrow> (s, Action_Throws)
               | Some (Some e) \<Rightarrow> (s, Action_Failed e)
               | Some None \<Rightarrow>
                   (case passwordSchema newPassword of
                      Some e \<Rightarrow> (s, Action_Failed e)
                    | None \<Rightarrow> if \<not> up 2 then (s, Action_Throws)
                        else (createAuditLog (up 3) i ''password_changed'' (updateUserPassword i (ex_hash ex newPassword) s), Action_Ok ()))))"

definition erased :: "ms \<Rightarrow> user_row \<Rightarrow> user_row" where
  "erased now u = u\<lparr>ac_deletedAt := Some now, ac_tokenVersion := ac_tokenVersion u + 1, ac_name := None,
     ac_email := ''deleted-'' @ ac_id u @ ''@deleted.invalid'', ac_hashedPassword := None, ac_twoFactorSecret := None,
     ac_twoFactorEnabled := False\<rparr>"

definition address_taken :: "string \<Rightarrow> string \<Rightarrow> auth_db \<Rightarrow> bool" where
  "address_taken email i s \<longleftrightarrow> list_ex (\<lambda>v. ac_email v = email \<and> ac_id v \<noteq> i) (ad_users s)"

text \<open>\<open>signOut\<close> is the message of what the framework's sign-out throws, or \<open>None\<close> when it returns;
  \<open>dbError\<close> the message of a failing database call, which the update also is when its address is taken.\<close>

definition deleteAccountAction :: "externals \<Rightarrow> (nat \<Rightarrow> bool) \<Rightarrow> string \<Rightarrow> string option \<Rightarrow> ms \<Rightarrow> string option \<Rightarrow> string \<Rightarrow> string option \<Rightarrow> auth_db
    \<Rightarrow> auth_db \<times> unit action_result" where
  "deleteAccountAction ex up dbError signOut now session password totpCode s =
     (case session of None \<Rightarrow> (s, Action_Failed ''Unauthorized'')
      | Some i \<Rightarrow>
          if i = [] then (s, Action_Failed ''Unauthorized'')
          else if password = [] then (s, Action_Failed ''Password is required'')
          else case (if up 0 then check_own_code ex now i totpCode s else None) of
            None \<Rightarrow> (s, Action_Throws)
          | Some (Some e) \<Rightarrow> (s, Action_Failed e)
          | Some None \<Rightarrow>
              (case (if up 1 then verifyAccountPassword ex i password s else None) of
                 None \<Rightarrow> (s, Action_Throws)
               | Some False \<Rightarrow> (s, Action_Failed ''Incorrect password'')
               | Some True \<Rightarrow>
                   (case settings_limit i ''settings_delete_account'' 2 now s of (s1, ok) \<Rightarrow>
                      if \<not> ok then (s1, Action_Failed ''Too many requests. Try again later.'')
                      else if \<not> up 2 \<or> address_taken (''deleted-'' @ i @ ''@deleted.invalid'') i s1 then (s1, Action_Failed dbError)
                      else let s2 = fst (update_user i (erased now) s1) in
                        if \<not> up 3 then (s2, Action_Failed dbError)
                        else (deleteUserSessions i s2,
                              case signOut of None \<Rightarrow> Action_Ok () | Some m \<Rightarrow> Action_Failed m))))"

section \<open>Backup codes\<close>

text \<open>
  A code has a character for each byte, and each of the 32 characters stands for the byte values of one
  remainder, so all for equally many.
\<close>

theorem backup_codes_uniform:
  assumes "n < 256" "k < 32"
  shows "backup_code [word_of_nat n] = [BACKUP_CODE_ALPHABET ! k] \<longleftrightarrow> n mod 32 = k"
proof -
  have len: "length BACKUP_CODE_ALPHABET = 32" and "distinct BACKUP_CODE_ALPHABET"
    by (simp_all add: BACKUP_CODE_ALPHABET_def)
  then have "BACKUP_CODE_ALPHABET ! (n mod 32) = BACKUP_CODE_ALPHABET ! k \<longleftrightarrow> n mod 32 = k"
    using assms(2) nth_eq_iff_index_eq by (metis mod_less_divisor zero_less_numeral)
  moreover have "unat (word_of_nat n :: 8 word) = n"
    using assms(1) by (simp add: unat_of_nat)
  ultimately show ?thesis
    by (simp add: backup_code_def len)
qed

theorem backup_codes_uniform_witness:
  "backup_code [word_of_nat 200] = [BACKUP_CODE_ALPHABET ! 8]"
  using backup_codes_uniform[of 200 8] by simp

section \<open>The settings' effect on one account\<close>

lemma settings_limit_simps [simp]:
  "ad_users (fst (settings_limit i g n now s)) = ad_users s" "ad_sessions (fst (settings_limit i g n now s)) = ad_sessions s"
  "ad_tokens (fst (settings_limit i g n now s)) = ad_tokens s" "getUserById j (fst (settings_limit i g n now s)) = getUserById j s"
  "auth_ok (fst (settings_limit i g n now s)) = auth_ok s"
  by (simp_all add: settings_limit_def getUserById_def auth_ok_def split: prod.splits)

lemma settings_limit_ok: "snd (settings_limit i g n now s) \<longleftrightarrow> minute_count (ad_rates s) i g (now div 60000) + 1 \<le> n"
  using withRateLimit_count(2)[of i g n now "ad_rates s"]
  by (cases "withRateLimit i g n now (ad_rates s)") (simp add: settings_limit_def)

lemma limited_action_run:
  assumes "minute_count (ad_rates s) i g (now div 60000) + 1 \<le> n" "i \<noteq> []"
  shows "limited_action (Some i) g n now s act = act i (fst (settings_limit i g n now s))"
  using assms settings_limit_ok[of i g n now s] by (cases "settings_limit i g n now s") (simp add: limited_action_def)

lemma getUserById_settings:
  "getUserById j (updateTwoFactorSecret i sec s) = (if j = i then map_option (\<lambda>u. u\<lparr>ac_twoFactorSecret := sec\<rparr>) (getUserById j s) else getUserById j s)"
  "getUserById j (setTwoFactorEnabled i on s) = (if j = i then map_option (\<lambda>u. u\<lparr>ac_twoFactorEnabled := on\<rparr>) (getUserById j s) else getUserById j s)"
  "getUserById j (store_codes i codes s)
     = (if j = i then map_option (\<lambda>u. clear_2fa_lockout (u\<lparr>ac_twoFactorBackupCodes := codes\<rparr>)) (getUserById j s) else getUserById j s)"
  "getUserById j (incrementTokenVersion i s)
     = (if j = i then map_option (\<lambda>u. u\<lparr>ac_tokenVersion := ac_tokenVersion u + 1\<rparr>) (getUserById j s) else getUserById j s)"
  "getUserById j (updateUserPassword i pw s) = (if j = i then map_option (set_password pw) (getUserById j s) else getUserById j s)"
  "getUserById j (fst (update_user i (erased now) s)) = (if j = i then map_option (erased now) (getUserById j s) else getUserById j s)"
  unfolding updateTwoFactorSecret_def setTwoFactorEnabled_def store_codes_def incrementTokenVersion_def updateUserPassword_def
  by (rule getUserById_update, simp add: clear_2fa_lockout_def set_password_def erased_def)+

lemma getUserById_other [simp]:
  "getUserById j (createAuditLog b i a s) = getUserById j s" "getUserById j (deleteUserSessions i s) = getUserById j s"
  by (simp_all add: getUserById_def createAuditLog_def deleteUserSessions_def)

lemma settings_rates [simp]:
  "ad_rates (updateTwoFactorSecret i sec s) = ad_rates s" "ad_rates (setTwoFactorEnabled i on s) = ad_rates s"
  "ad_rates (store_codes i codes s) = ad_rates s"
  by (simp_all add: updateTwoFactorSecret_def setTwoFactorEnabled_def store_codes_def)

text \<open>
  C26: A session alone, without any code of the authenticator in use, turns the second factor off: setting it up
  again replaces the secret, and the code of the new secret is what the action asks for.
\<close>

theorem session_turns_second_factor_off:
  assumes "cipher_correct (ex_cipher ex)" "bytes iv" "length iv = IV_LENGTH" "getEncryptionKey (ex_encryptionKey ex) = Inr key"
    "getUserById i s = Some u" "i \<noteq> []" "secret \<noteq> []" "ex_totp ex secret code now = Some True"
    "minute_count (ad_rates s) i ''settings_2fa_setup'' (now div 60000) < 5"
    "minute_count (ad_rates s) i ''settings_2fa_disable'' (now div 60000) < 5"
  shows "let (s1, r1) = setupTwoFactorAction ex (\<lambda>_. True) secret iv random now (Some i) s;
             (s2, r2) = disableTwoFactorAction ex (\<lambda>_. True) now (Some i) code s1
         in r2 = Action_Ok () \<and> map_option ac_twoFactorEnabled (getUserById i s2) = Some False"
proof -
  obtain sealed where sealed: "encryptSecret (ex_cipher ex) (ex_encryptionKey ex) iv secret = Inr sealed"
    "decryptSecret (ex_cipher ex) (ex_encryptionKey ex) (Some sealed) = Some secret"
    using secrets_round_trip_single[OF assms(1-4)] by blast
  have ne: "sealed \<noteq> []"
    using sealed(2) by (auto simp: decryptSecret_def)
  define s0 where "s0 = fst (settings_limit i ''settings_2fa_setup'' 5 now s)"
  define s1 where "s1 = store_codes i (Some (map snd (generateBackupCodes ex random))) (updateTwoFactorSecret i (Some sealed) s0)"
  have set_up: "fst (setupTwoFactorAction ex (\<lambda>_. True) secret iv random now (Some i) s) = s1"
    using assms(6,9) by (simp add: setupTwoFactorAction_def limited_action_run Let_def sealed(1) s0_def s1_def)
  have u1: "\<exists>v. getUserById i s1 = Some v \<and> ac_twoFactorSecret v = Some sealed"
    using assms(5) by (simp add: s1_def s0_def getUserById_settings clear_2fa_lockout_def)
  have "minute_count (ad_rates s1) i ''settings_2fa_disable'' (now div 60000) < 5"
    using assms(10) withRateLimit_count(1)[of i "''settings_2fa_setup''" 5 now "ad_rates s" i "''settings_2fa_disable''" "now div 60000"]
    by (cases "withRateLimit i ''settings_2fa_setup'' 5 now (ad_rates s)") (simp add: s1_def s0_def settings_limit_def)
  then have run: "limited_action (Some i) ''settings_2fa_disable'' 5 now s1 act
      = act i (fst (settings_limit i ''settings_2fa_disable'' 5 now s1))" for act :: "string \<Rightarrow> auth_db \<Rightarrow> auth_db \<times> unit action_result"
    using assms(6) by (intro limited_action_run) simp_all
  have "check_stored_code ex (\<lambda>_. True) now ''2FA is not configured'' i code (fst (settings_limit i ''settings_2fa_disable'' 5 now s1)) = Some (Inr ())"
    using u1 assms(7,8) by (auto simp: check_stored_code_def getTwoFactorSecret_def missing_def ne sealed(2))
  then show ?thesis
    using set_up u1 by (auto simp: disableTwoFactorAction_def run Let_def getUserById_settings split: prod.splits)
qed

theorem session_turns_second_factor_off_witness:
  "let (s1, r1) = setupTwoFactorAction sample_externals (\<lambda>_. True) ''NEWSECRET'' (replicate 12 1) [] 0 (Some ''u1'') sample_auth_db;
       (s2, r2) = disableTwoFactorAction sample_externals (\<lambda>_. True) 0 (Some ''u1'') ''NEWSECRET'' s1
     in r2 = Action_Ok () \<and> map_option ac_twoFactorEnabled (getUserById ''u1'' s2) = Some False"
proof (rule session_turns_second_factor_off)
  show "cipher_correct (ex_cipher sample_externals)"
    using plain_cipher_ok(1) by (simp add: sample_externals_def)
  show "getEncryptionKey (ex_encryptionKey sample_externals) = Inr (replicate 32 7)"
    using sample_key by (simp add: sample_externals_def)
  show "getUserById ''u1'' sample_auth_db = Some sample_user"
    by (simp add: getUserById_def sample_auth_db_def sample_user_def new_user_def)
qed (simp_all add: bytes_def IV_LENGTH_def sample_externals_def sample_auth_db_def empty_auth_db_def minute_count_def)

section \<open>Signing out, changing the password, leaving\<close>

text \<open>
  Signing out everywhere removes every session of the account and nothing else, and no token of the account
  that was valid stays valid.
\<close>

theorem sign_out_everywhere_exact:
  assumes "signOutEverywhereAction up now (Some i) s = (s', Action_Ok ())" "auth_ok s" "session_current t s"
  shows "ad_sessions s' = filter (\<lambda>r. sn_userId r \<noteq> i) (ad_sessions s)
    \<and> (tk_id t = Some i \<longrightarrow> \<not> session_current t s')"
proof -
  have s': "s' = incrementTokenVersion i (deleteUserSessions i (fst (settings_limit i ''settings_signout_everywhere'' 2 now s)))"
    using assms(1) by (auto simp: signOutEverywhereAction_def limited_action_def Let_def split: if_splits prod.splits)
  have "ad_sessions s' = filter (\<lambda>r. sn_userId r \<noteq> i) (ad_sessions s)"
    by (simp add: s' incrementTokenVersion_def deleteUserSessions_def)
  moreover have "\<not> session_current t s'" if "tk_id t = Some i"
    using assms(3) that by (auto simp: s' session_current_def getUserById_settings split: option.splits)
  ultimately show ?thesis
    by simp
qed

theorem sign_out_everywhere_exact_witness:
  "\<not> session_current sample_token (fst (signOutEverywhereAction (\<lambda>_. True) 0 (Some ''u1'') signed_in_db))"
proof -
  have r: "snd (signOutEverywhereAction (\<lambda>_. True) 0 (Some ''u1'') signed_in_db) = Action_Ok ()"
    and t: "auth_ok signed_in_db" "session_current sample_token signed_in_db" "tk_id sample_token = Some ''u1''"
    by code_simp+
  have "signOutEverywhereAction (\<lambda>_. True) 0 (Some ''u1'') signed_in_db
      = (fst (signOutEverywhereAction (\<lambda>_. True) 0 (Some ''u1'') signed_in_db), Action_Ok ())"
    using r by (metis prod.collapse)
  then show ?thesis
    using sign_out_everywhere_exact t by blast
qed

text \<open>
  The password changes only for somebody who knows it, and the current code where there is a second factor,
  and only to one the rules accept; it changes for this account alone and ends the account's sessions.
\<close>

theorem change_password_exact:
  assumes "changePasswordAction ex up now (Some i) old new code s = (s', Action_Ok ())" "i \<noteq> []"
  shows "verifyAccountPassword ex i old s = Some True \<and> passwordSchema new = None
    \<and> (case getUserById i s of None \<Rightarrow> False | Some u \<Rightarrow>
        getUserById i s' = Some (set_password (ex_hash ex new) u)
        \<and> (if ac_twoFactorEnabled u
           then (case decryptSecret (ex_cipher ex) (ex_encryptionKey ex) (ac_twoFactorSecret u) of None \<Rightarrow> False
             | Some secret \<Rightarrow> ex_totp ex secret (or_empty code) now = Some True) else True)
        \<and> (\<forall>t. session_current t s \<and> tk_id t = Some i \<longrightarrow> \<not> session_current t s'))
    \<and> (\<forall>j. j \<noteq> i \<longrightarrow> getUserById j s' = getUserById j s)"
proof -
  have c: "verifyAccountPassword ex i old s = Some True" "passwordSchema new = None" "check_own_code ex now i code s = Some None"
    "s' = createAuditLog (up 3) i ''password_changed'' (updateUserPassword i (ex_hash ex new) s)"
    using assms by (auto simp: changePasswordAction_def split: if_splits option.splits bool.splits)
  obtain u where u: "getUserById i s = Some u"
    using c(1) by (auto simp: verifyAccountPassword_def getUserPasswordHash_def split: option.splits Option.bind_splits)
  have s': "getUserById j s' = (if j = i then map_option (set_password (ex_hash ex new)) (getUserById j s) else getUserById j s)" for j
    by (simp add: c(4) getUserById_settings)
  have "if ac_twoFactorEnabled u
      then (case decryptSecret (ex_cipher ex) (ex_encryptionKey ex) (ac_twoFactorSecret u) of None \<Rightarrow> False
        | Some secret \<Rightarrow> ex_totp ex secret (or_empty code) now = Some True) else True"
    using c(3) u by (auto simp: check_own_code_def split: if_splits option.splits bool.splits)
  moreover have "\<not> session_current t s'" if "session_current t s" "tk_id t = Some i" for t
    using that u by (auto simp: session_current_def s' set_password_def)
  ultimately show ?thesis
    using c(1,2) u by (simp add: s')
qed

theorem change_password_exact_witness:
  "passwordSchema ''Third-secret-3'' = None
    \<and> (\<exists>s'. changePasswordAction sample_externals (\<lambda>_. True) 0 (Some ''u1'') ''Secret-word-1'' ''Third-secret-3'' None
        (setTwoFactorEnabled ''u1'' False sample_auth_db) = (s', Action_Ok ())
      \<and> verifyAccountPassword sample_externals ''u1'' ''Secret-word-1'' (setTwoFactorEnabled ''u1'' False sample_auth_db) = Some True)"
proof -
  have "snd (changePasswordAction sample_externals (\<lambda>_. True) 0 (Some ''u1'') ''Secret-word-1'' ''Third-secret-3'' None
      (setTwoFactorEnabled ''u1'' False sample_auth_db)) = Action_Ok ()"
    by code_simp
  then obtain s' where r: "changePasswordAction sample_externals (\<lambda>_. True) 0 (Some ''u1'') ''Secret-word-1'' ''Third-secret-3'' None
      (setTwoFactorEnabled ''u1'' False sample_auth_db) = (s', Action_Ok ())"
    by (metis prod.collapse)
  from change_password_exact[OF r] r show ?thesis by auto
qed

lemma erased_fields [simp]:
  "ac_id (erased now u) = ac_id u" "ac_deletedAt (erased now u) = Some now"
  "ac_email (erased now u) = ''deleted-'' @ ac_id u @ ''@deleted.invalid''"
  by (simp_all add: erased_def)

lemma deleteAccountAction_Ok:
  assumes "deleteAccountAction ex up dbError None now session password code s = (s', Action_Ok ())"
  obtains i where "session = Some i" "i \<noteq> []" "verifyAccountPassword ex i password s = Some True" "check_own_code ex now i code s = Some None"
    "s' = deleteUserSessions i (fst (update_user i (erased now) (fst (settings_limit i ''settings_delete_account'' 2 now s))))"
    "deleteAccountAction ex up dbError (Some m) now session password code s = (s', Action_Failed m)"
proof -
  obtain i where i: "session = Some i" "i \<noteq> []"
    using assms by (auto simp: deleteAccountAction_def split: option.splits if_splits)
  obtain s1 ok where l: "settings_limit i ''settings_delete_account'' 2 now s = (s1, ok)"
    by fastforce
  have c: "password \<noteq> []" "up 0" "check_own_code ex now i code s = Some None" "up 1" "verifyAccountPassword ex i password s = Some True"
    "ok" "up 2" "\<not> address_taken (''deleted-'' @ i @ ''@deleted.invalid'') i s1" "up 3"
    "s' = deleteUserSessions i (fst (update_user i (erased now) s1))"
    using assms i by (auto simp: deleteAccountAction_def l Let_def split: option.splits if_splits bool.splits)
  show thesis
    by (rule that[OF i c(5,3)]) (use i c l in \<open>simp_all add: deleteAccountAction_def Let_def\<close>)
qed

text \<open>
  A deletion needs the password and, where there is one, the second factor; afterwards the account has no
  session, nobody signs in to it with any password, and no other account has changed.
\<close>

theorem deleted_account_closed:
  assumes "deleteAccountAction ex up dbError None now (Some i) password code s = (s', Action_Ok ())" "auth_ok s"
  shows "verifyAccountPassword ex i password s = Some True \<and> check_own_code ex now i code s = Some None
    \<and> (\<forall>r\<in>set (ad_sessions s'). sn_userId r \<noteq> i) \<and> (\<forall>j. j \<noteq> i \<longrightarrow> getUserById j s' = getUserById j s)
    \<and> (case snd (authorize env ex2 up2 later sid c s') of Inr (Some a) \<Rightarrow> au_id a \<noteq> i | _ \<Rightarrow> True)"
proof -
  obtain d: "verifyAccountPassword ex i password s = Some True" "check_own_code ex now i code s = Some None"
    "s' = deleteUserSessions i (fst (update_user i (erased now) (fst (settings_limit i ''settings_delete_account'' 2 now s))))"
    by (rule deleteAccountAction_Ok[OF assms(1)]) auto
  have users: "ad_users s' = map (\<lambda>u. if ac_id u = i then erased now u else u) (ad_users s)"
    by (simp add: d(3) deleteUserSessions_def)
  have "ac_id u \<noteq> i" if "getUserByEmail e s' = Some u" for e u
  proof
    assume i: "ac_id u = i"
    have u: "u \<in> set (ad_users s')" "ac_deletedAt u = None"
      using getUserByEmail_SomeD[OF that] by simp_all
    then obtain x where "u = (if ac_id x = i then erased now x else x)"
      unfolding users set_map by blast
    then show False
      using i u(2) by (cases "ac_id x = i") simp_all
  qed
  note live = this
  have "case snd (authorize env ex2 up2 later sid c s') of Inr (Some a) \<Rightarrow> au_id a \<noteq> i | _ \<Rightarrow> True"
  proof -
    obtain s2 r where r: "authorize env ex2 up2 later sid c s' = (s2, r)"
      by fastforce
    have "au_id a \<noteq> i" if "r = Inr (Some a)" for a
      using authorize_account[OF r[unfolded that]] live by metis
    then show ?thesis
      unfolding r by (simp split: sum.split option.split)
  qed
  moreover have "\<forall>r\<in>set (ad_sessions s'). sn_userId r \<noteq> i"
    by (simp add: d(3) deleteUserSessions_def)
  moreover have "getUserById j s' = getUserById j s" if "j \<noteq> i" for j
    using that by (simp add: d(3) getUserById_settings)
  ultimately show ?thesis
    using d(1,2) by blast
qed

definition plain_auth_db :: auth_db where
  "plain_auth_db = setTwoFactorEnabled ''u1'' False signed_in_db"

lemma sample_deletes:
  "deleteAccountAction sample_externals (\<lambda>_. True) ''db'' None 7 (Some ''u1'') ''Secret-word-1'' None plain_auth_db
    = (fst (deleteAccountAction sample_externals (\<lambda>_. True) ''db'' None 7 (Some ''u1'') ''Secret-word-1'' None plain_auth_db), Action_Ok ())"
proof -
  have "snd (deleteAccountAction sample_externals (\<lambda>_. True) ''db'' None 7 (Some ''u1'') ''Secret-word-1'' None plain_auth_db) = Action_Ok ()"
    by code_simp
  then show ?thesis by (metis prod.collapse)
qed

theorem deleted_account_closed_witness:
  "verifyAccountPassword sample_externals ''u1'' ''Secret-word-1'' plain_auth_db = Some True
    \<and> (case snd (authorize sample_web_env sample_externals (\<lambda>_. True) 9 ''s'' sample_credentials
        (fst (deleteAccountAction sample_externals (\<lambda>_. True) ''db'' None 7 (Some ''u1'') ''Secret-word-1'' None plain_auth_db)))
      of Inr (Some a) \<Rightarrow> au_id a \<noteq> ''u1'' | _ \<Rightarrow> True)"
proof -
  have "auth_ok plain_auth_db"
    by code_simp
  then show ?thesis
    using deleted_account_closed[OF sample_deletes] by blast
qed

text \<open>
  The framework's sign-out ends with a redirect, which is thrown: the action has deleted the account then and
  answers that it failed.
\<close>

theorem deletion_reported_as_failure:
  assumes "deleteAccountAction ex up dbError None now session password code s = (s', Action_Ok ())"
  shows "deleteAccountAction ex up dbError (Some m) now session password code s = (s', Action_Failed m)"
  by (rule deleteAccountAction_Ok[OF assms])

theorem deletion_reported_as_failure_witness:
  "snd (deleteAccountAction sample_externals (\<lambda>_. True) ''db'' (Some ''NEXT_REDIRECT'') 7 (Some ''u1'') ''Secret-word-1'' None plain_auth_db)
     = Action_Failed ''NEXT_REDIRECT''"
  using deletion_reported_as_failure[OF sample_deletes, of "''NEXT_REDIRECT''"] by simp

text \<open>The three writes of turning the second factor off are not one transaction: when the second fails, the account asks
  for a second factor whose secret is gone.\<close>

lemma disable_half_done:
  assumes "check_stored_code ex up now ''2FA is not configured'' i token (fst (settings_limit i ''settings_2fa_disable'' 5 now s)) = Some (Inr ())"
    "up 1" "\<not> up 2" "getUserById i s = Some u" "ac_twoFactorEnabled u" "i \<noteq> []"
    "minute_count (ad_rates s) i ''settings_2fa_disable'' (now div 60000) + 1 \<le> 5"
  shows "map_option (\<lambda>v. (ac_twoFactorEnabled v, ac_twoFactorSecret v)) (getUserById i (fst (disableTwoFactorAction ex up now (Some i) token s)))
    = Some (True, None)"
  using assms by (simp add: disableTwoFactorAction_def limited_action_run Let_def getUserById_settings)

section \<open>The unique keys\<close>

lemma auth_ok_settings [inv_intros]:
  "auth_ok s \<Longrightarrow> auth_ok (updateTwoFactorSecret i sec s)" "auth_ok s \<Longrightarrow> auth_ok (setTwoFactorEnabled i on s)"
  "auth_ok s \<Longrightarrow> auth_ok (store_codes i codes s)" "auth_ok s \<Longrightarrow> auth_ok (incrementTokenVersion i s)"
  "auth_ok s \<Longrightarrow> auth_ok (updateUserPassword i pw s)"
  unfolding updateTwoFactorSecret_def setTwoFactorEnabled_def store_codes_def incrementTokenVersion_def updateUserPassword_def
  by (rule auth_ok_update_user; simp add: clear_2fa_lockout_def set_password_def)+

lemma auth_ok_erase:
  assumes "auth_ok s" "\<not> address_taken (''deleted-'' @ i @ ''@deleted.invalid'') i s"
  shows "auth_ok (fst (update_user i (erased now) s))"
proof -
  have ids: "map ac_id (map (\<lambda>u. if ac_id u = i then erased now u else u) us) = map ac_id us" for us
    by (induction us) simp_all
  have emails: "distinct (map ac_email (map (\<lambda>u. if ac_id u = i then erased now u else u) us))"
    if "distinct (map ac_id us)" "distinct (map ac_email us)"
      "\<And>v. v \<in> set us \<Longrightarrow> ac_id v \<noteq> i \<Longrightarrow> ac_email v \<noteq> ''deleted-'' @ i @ ''@deleted.invalid''" for us
    using that
  proof (induction us)
    case (Cons u us)
    have "ac_email (if ac_id u = i then erased now u else u) \<noteq> ac_email (if ac_id v = i then erased now v else v)" if "v \<in> set us" for v
      using Cons.prems that by (auto simp: image_iff) metis+
    then show ?case
      using Cons by (auto simp: image_iff)
  qed simp
  show ?thesis
    using assms ids emails[of "ad_users s"] auth_okD[OF assms(1)]
    unfolding auth_ok_def update_user_simps ids by (auto simp: address_taken_def list_ex_iff simp del: map_map)
qed

lemma auth_ok_consume [inv_intros]: "auth_ok s \<Longrightarrow> auth_ok (fst (consume_backup_code i h s))"
  unfolding consume_backup_code_def by (rule auth_ok_update_users) simp_all

lemma auth_ok_user_changes [inv_intros]:
  "auth_ok s \<Longrightarrow> auth_ok (fst (update_user i (count_failed_2fa now) s))" "auth_ok s \<Longrightarrow> auth_ok (fst (update_user i clear_2fa_lockout s))"
  "auth_ok s \<Longrightarrow> auth_ok (fst (incrementFailedLogins now i s))" "auth_ok s \<Longrightarrow> auth_ok (fst (resetLoginLockout i s))"
  "auth_ok s \<Longrightarrow> auth_ok (verifyUserEmail now e s)" "auth_ok s \<Longrightarrow> auth_ok (fst (updatePasswordByEmail e pw s))"
  "auth_ok s \<Longrightarrow> auth_ok (fst (update_user i (\<lambda>v. v\<lparr>ac_emailVerified := x\<rparr>) s))"
  unfolding incrementFailedLogins_def resetLoginLockout_def verifyUserEmail_def updatePasswordByEmail_def fst_conv
  by (rule auth_ok_update_user auth_ok_update_users; simp add: count_failed_2fa_def clear_2fa_lockout_def count_failed_login_def set_password_def)+

lemma auth_ok_second_factor:
  assumes "auth_ok s" "second_factor ex up now u code s = (s', r)"
  shows "auth_ok s'"
proof -
  define s1 where "s1 = s\<lparr>ad_rates := fst (withRateLimit (ac_id u) ''2fa_verify'' 10 now (ad_rates s))\<rparr>"
  have v: "auth_ok s2" if "verify_code ex up now u code s1 = (s2, q)" for s2 q
    using verify_code_frame[OF that] assms(1) by (auto simp: s1_def intro: auth_ok_consume auth_ok_frame)
  have "s' = s \<or> s' = s1 \<or> (\<exists>s2 q. verify_code ex up now u code s1 = (s2, q) \<and> (s' = s2 \<or> s' = recordAuthEvent TwoFa_Failure now s2
      \<or> s' = fst (update_user (ac_id u) (count_failed_2fa now) (recordAuthEvent TwoFa_Failure now s2))
      \<or> s' = fst (update_user (ac_id u) clear_2fa_lockout s2)))"
    using assms(2) unfolding s1_def second_factor_def Let_def
    by (auto simp: update_user_Pair split: if_splits prod.splits sum.splits option.splits)
  then show ?thesis
    using assms(1) v by (auto simp: s1_def intro: auth_ok_frame auth_ok_user_changes)
qed

lemma auth_ok_authorize:
  assumes "auth_ok s"
  shows "auth_ok (fst (authorize env ex up now sid c s))"
proof -
  have "auth_ok (fst (authorize_user ex up now sid u h pw c s))" for u h pw
  proof -
    obtain s1 ok where r: "resetLoginLockout (ac_id u) s = (s1, ok)" "auth_ok s1"
      using auth_ok_user_changes(4)[OF assms] by (metis prod.collapse)
    obtain s2 ok2 where i: "incrementFailedLogins now (ac_id u) s = (s2, ok2)" "auth_ok s2"
      using auth_ok_user_changes(3)[OF assms] by (metis prod.collapse)
    obtain s3 q where f: "second_factor ex up now u (js_trim (or_empty (cr_totpCode c))) s1 = (s3, q)" "auth_ok s3"
      using auth_ok_second_factor[OF r(2)] by (metis prod.collapse)
    consider "ex_compare ex pw h = None" | "ex_compare ex pw h = Some True" | "ex_compare ex pw h = Some False"
      by (metis (full_types) not_None_eq)
    then show ?thesis
      by cases (use assms r i f auth_ok_frame(2)[OF assms] in \<open>simp_all add: authorize_user_def split: sum.split\<close>)
  qed
  then show ?thesis
    using assms by (auto simp: authorize_def Let_def split: option.split)
qed

lemma auth_ok_jwt:
  assumes "auth_ok s"
  shows "auth_ok (fst (jwt env up now uuid user token s))"
  using assms by (auto simp: jwt_def Let_def dest: auth_ok_sessions(1) split: option.split)

lemma auth_ok_validate:
  assumes "auth_ok s"
  shows "auth_ok (fst (validateSession fc up now n token s))"
  using assms auth_ok_sessions(2)[OF assms] by (auto simp: validateSession_def Let_def split: option.split)

lemma auth_ok_ask: "auth_ok s \<Longrightarrow> ask_limit env ex up now kind v n s = Some (s', ok) \<Longrightarrow> auth_ok s'"
  by (auto simp: ask_limit_def intro: auth_ok_frame split: if_splits prod.splits)

lemma auth_ok_mail: "auth_ok s \<Longrightarrow> mail_token ex now b random e p l s = (s', mail) \<Longrightarrow> auth_ok s'"
  by (auto simp: mail_token_def dest: auth_ok_tokens(1) split: if_splits prod.splits option.splits)

lemma auth_ok_register:
  assumes "auth_ok s" "\<And>c r s. auth_ok s \<Longrightarrow> auth_ok (fst (signIn c r s))"
  shows "auth_ok (fst (registerAction env ex up signIn baseUrl uuid random now f h s))"
proof (cases rule: registerAction_state[of env ex up signIn baseUrl uuid random now f h s])
  case (created s1 s2 u s3 mail c)
  then show ?thesis
    using auth_ok_mail[OF auth_ok_insert[OF auth_ok_ask[OF assms(1) created(1)] created(2)] created(3)] assms(2) by simp
qed (use assms(1) auth_ok_ask in auto)

lemma auth_ok_google:
  assumes "auth_ok s"
  shows "auth_ok (fst (provisionUserOnSignIn mode now uuid sid account p s))"
proof -
  have "auth_ok (link_account a t)" if "auth_ok t" for a t
    using that by (simp add: link_account_def auth_ok_frame)
  then show ?thesis
    using assms auth_ok_user_changes(7)[OF assms]
    by (auto simp: provisionUserOnSignIn_def Let_def dest: auth_ok_insert[OF assms] split: option.split sum.split create_error.split)
qed

lemma auth_ok_login:
  assumes "auth_ok s" "\<And>c r s. auth_ok s \<Longrightarrow> auth_ok (fst (signIn c r s))"
  shows "auth_ok (fst (loginAction env ex up signIn now f h s))"
proof -
  let ?e = "toLowerCase (js_trim (or_empty (lf_email f)))"
  have signed: "auth_ok t'" if "auth_ok t" "signIn c r t = (t', q)" for c r t t' q
    using assms(2)[OF that(1), of c r] that(2) by simp
  show ?thesis
  proof (cases "loginSchema ex f")
    case None
    show ?thesis
    proof (cases "ask_limit env ex up now ''login-ip'' (clientIp h) 10 s")
      case none1: None
      then show ?thesis
        using assms(1) by (simp add: loginAction_def Let_def None)
    next
      case (Some p)
      then obtain s1 ok1 where s1: "ask_limit env ex up now ''login-ip'' (clientIp h) 10 s = Some (s1, ok1)" "auth_ok s1"
        using auth_ok_ask[OF assms(1)] by (cases p) auto
      show ?thesis
      proof (cases "ask_limit env ex up now ''login-email'' ?e 5 s1")
        case none2: None
        then show ?thesis
          using s1 by (simp add: loginAction_def Let_def None)
      next
        case (Some p)
        then obtain s2 ok2 where s2: "ask_limit env ex up now ''login-email'' ?e 5 s1 = Some (s2, ok2)" "auth_ok s2"
          using auth_ok_ask[OF s1(2)] by (cases p) auto
        obtain s3 q where q: "signIn (login_credentials f h) (sanitizeNext (lf_next f)) s2 = (s3, q)"
          by fastforce
        have "auth_ok s3" "auth_ok (recordAuthEvent ev now s3)" for ev
          using signed[OF s2(2) q] auth_ok_frame(2) by simp_all
        then show ?thesis
          using s1 s2 by (simp add: loginAction_def Let_def None q split: sum.split sign_in_failure.split)
      qed
    qed
  qed (use assms(1) in \<open>simp add: loginAction_def\<close>)
qed

lemma auth_ok_limited:
  assumes "auth_ok s" "\<And>i s. auth_ok s \<Longrightarrow> auth_ok (fst (act i s))"
  shows "auth_ok (fst (limited_action session bucket n now s act))"
proof -
  obtain s1 ok where "settings_limit (or_empty session) bucket n now s = (s1, ok)" "auth_ok s1"
    using settings_limit_simps(5)[of "or_empty session" bucket n now s] assms(1) by (metis prod.collapse)
  then show ?thesis
    using assms by (auto simp: limited_action_def or_empty_def split: option.splits)
qed

lemma auth_ok_forms:
  assumes "auth_ok s"
  shows "auth_ok (fst (forgotPasswordAction env ex up b random now email s))"
    "auth_ok (fst (resetPasswordAction env ex up a now token pw h s))"
    "auth_ok (fst (resendVerificationAction env ex up b random now e s))"
    "auth_ok (fst (verify_email_GET ex now tok s))"
proof -
  show "auth_ok (fst (forgotPasswordAction env ex up b random now email s))"
    using assms by (auto simp: forgotPasswordAction_def Let_def dest: auth_ok_ask auth_ok_tokens(1) split: option.split prod.split)
  have "auth_ok (reset_commit ex a vt pw s1)" if ok: "auth_ok s1" for vt s1
  proof -
    obtain s2 uid where u: "updatePasswordByEmail (vt_identifier vt) (ex_hash ex pw) s1 = (s2, uid)" "auth_ok s2"
      using auth_ok_user_changes(6)[OF ok] by (metis prod.collapse)
    then show ?thesis
      by (auto simp: reset_commit_def Let_def intro: auth_ok_tokens(2) auth_ok_frame(3) split: option.split)
  qed
  then show "auth_ok (fst (resetPasswordAction env ex up a now token pw h s))"
    using assms by (auto simp: resetPasswordAction_def dest: auth_ok_ask split: option.split prod.split)
  show "auth_ok (fst (resendVerificationAction env ex up b random now e s))"
    using assms by (auto simp: resendVerificationAction_def Let_def dest: auth_ok_ask auth_ok_mail split: option.split prod.split)
  show "auth_ok (fst (verify_email_GET ex now tok s))"
    using assms by (auto simp: verify_email_GET_def Let_def intro: auth_ok_tokens(2) auth_ok_user_changes(5) split: option.split)
qed

lemma auth_ok_settings_actions:
  assumes "auth_ok s"
  shows "auth_ok (fst (setupTwoFactorAction ex ups secret iv bytess now session s))"
    "auth_ok (fst (regenerateBackupCodesAction ex ups bytess now session s))"
    "auth_ok (fst (verifyTwoFactorAction ex ups now session token s))"
    "auth_ok (fst (disableTwoFactorAction ex ups now session token s))"
    "auth_ok (fst (revokeSessionAction ups now session sid s))"
    "auth_ok (fst (signOutEverywhereAction ups now session s))"
    "auth_ok (fst (changePasswordAction ex ups now session old new code s))"
    "auth_ok (fst (deleteAccountAction ex ups dbError signOut now session pw code s))"
proof -
  show "auth_ok (fst (setupTwoFactorAction ex ups secret iv bytess now session s))"
    unfolding setupTwoFactorAction_def by (rule auth_ok_limited[OF assms]) (simp add: Let_def auth_ok_settings split: sum.split)
  show "auth_ok (fst (regenerateBackupCodesAction ex ups bytess now session s))"
    unfolding regenerateBackupCodesAction_def by (rule auth_ok_limited[OF assms]) (simp add: Let_def auth_ok_settings)
  show "auth_ok (fst (verifyTwoFactorAction ex ups now session token s))"
    unfolding verifyTwoFactorAction_def
    by (rule auth_ok_limited[OF assms]) (simp add: auth_ok_settings split: option.split sum.split)
  show "auth_ok (fst (disableTwoFactorAction ex ups now session token s))"
    unfolding disableTwoFactorAction_def
    by (rule auth_ok_limited[OF assms]) (simp add: Let_def auth_ok_settings auth_ok_frame split: option.split sum.split)
  show "auth_ok (fst (revokeSessionAction ups now session sid s))"
    unfolding revokeSessionAction_def by (rule auth_ok_limited[OF assms]) (simp add: auth_ok_sessions)
  show "auth_ok (fst (signOutEverywhereAction ups now session s))"
    unfolding signOutEverywhereAction_def by (rule auth_ok_limited[OF assms]) (simp add: Let_def auth_ok_sessions auth_ok_settings)
  have "auth_ok (createAuditLog b i a (updateUserPassword i pw s))" for b i a pw
    using assms by (intro auth_ok_frame auth_ok_settings)
  then show "auth_ok (fst (changePasswordAction ex ups now session old new code s))"
    using assms by (auto simp: changePasswordAction_def split: option.split bool.split)
  have del: "auth_ok (fst (deleteAccountAction ex ups dbError signOut now (Some i) pw code s))" for i
  proof -
    obtain s1 ok where l: "settings_limit i ''settings_delete_account'' 2 now s = (s1, ok)" "auth_ok s1"
      using settings_limit_simps(5)[of i "''settings_delete_account''" 2 now s] assms by (metis prod.collapse)
    then show ?thesis
      using assms auth_ok_erase[OF l(2), of i now] auth_ok_sessions(4)[of "fst (update_user i (erased now) s1)" i]
      by (auto simp: deleteAccountAction_def Let_def split: option.split bool.split)
  qed
  show "auth_ok (fst (deleteAccountAction ex ups dbError signOut now session pw code s))"
    using del assms by (cases session) (simp_all add: deleteAccountAction_def)
qed

text \<open>Everything that happens to the account tables, in any order and with any arguments.\<close>

inductive accounts_reachable :: "auth_db \<Rightarrow> bool" where
  start: "accounts_reachable empty_auth_db"
| sign_in: "accounts_reachable s \<Longrightarrow> accounts_reachable (fst (authorize env ex up now sid c s))"
| token: "accounts_reachable s \<Longrightarrow> accounts_reachable (fst (jwt env up now uuid user tok s))"
| session: "accounts_reachable s \<Longrightarrow> accounts_reachable (fst (validateSession True up now n tok s))"
| google: "accounts_reachable s \<Longrightarrow> accounts_reachable (fst (provisionUserOnSignIn mode now uuid sid account p s))"
| login: "accounts_reachable s \<Longrightarrow> accounts_reachable (fst (loginAction env ex up refusing_sign_in now f h s))"
| registers: "accounts_reachable s \<Longrightarrow> accounts_reachable (fst (registerAction env ex up refusing_sign_in b uuid random now rf h s))"
| forgot: "accounts_reachable s \<Longrightarrow> accounts_reachable (fst (forgotPasswordAction env ex up b random now email s))"
| resets: "accounts_reachable s \<Longrightarrow> accounts_reachable (fst (resetPasswordAction env ex up a now raw pw h s))"
| resends: "accounts_reachable s \<Longrightarrow> accounts_reachable (fst (resendVerificationAction env ex up b random now e s))"
| verifies: "accounts_reachable s \<Longrightarrow> accounts_reachable (fst (verify_email_GET ex now rawo s))"
| setup_2fa: "accounts_reachable s \<Longrightarrow> accounts_reachable (fst (setupTwoFactorAction ex ups secret iv bytess now ses s))"
| regenerate: "accounts_reachable s \<Longrightarrow> accounts_reachable (fst (regenerateBackupCodesAction ex ups bytess now ses s))"
| enable_2fa: "accounts_reachable s \<Longrightarrow> accounts_reachable (fst (verifyTwoFactorAction ex ups now ses raw s))"
| disable_2fa: "accounts_reachable s \<Longrightarrow> accounts_reachable (fst (disableTwoFactorAction ex ups now ses raw s))"
| revoke: "accounts_reachable s \<Longrightarrow> accounts_reachable (fst (revokeSessionAction ups now ses sid s))"
| sign_out: "accounts_reachable s \<Longrightarrow> accounts_reachable (fst (signOutEverywhereAction ups now ses s))"
| change: "accounts_reachable s \<Longrightarrow> accounts_reachable (fst (changePasswordAction ex ups now ses old new code s))"
| leave: "accounts_reachable s \<Longrightarrow> accounts_reachable (fst (deleteAccountAction ex ups dbError signOut now ses pw code s))"

text \<open>
  However accounts are created, used, changed and deleted: ids, addresses, stored tokens and session ids stay
  unique.
\<close>

theorem account_keys_unique:
  assumes "accounts_reachable s"
  shows "auth_ok s"
proof -
  have refuse: "auth_ok (fst (refusing_sign_in c r t))" if "auth_ok t" for c r t
    using that by (simp add: refusing_sign_in_def)
  show ?thesis
    using assms
    by induction
      (simp_all add: auth_ok_authorize auth_ok_jwt auth_ok_validate auth_ok_google auth_ok_login[OF _ refuse] auth_ok_register[OF _ refuse]
        auth_ok_forms auth_ok_settings_actions, simp add: auth_ok_def empty_auth_db_def)
qed

theorem account_keys_unique_witness:
  "auth_ok (fst (registerAction sample_web_env sample_externals (\<lambda>_. True) refusing_sign_in True ''u2'' [1] 5
     \<lparr>rf_name = Some ''Bob'', rf_email = Some ''bob@x.org'', rf_password = Some ''Secret-word-2''\<rparr> no_headers empty_auth_db))"
  by (rule account_keys_unique[OF accounts_reachable.registers[OF accounts_reachable.start]])

end
