(* ===== verification/Web_Guards.thy ===== *)
theory Web_Guards
  imports Sign_In Js_Regex
begin

text \<open>
  What stands before the handlers of the web server: the request proxy with the CSRF check and the signed
  user header (\<open>apps/web/src/proxy.ts\<close>, \<open>lib/signed-user-header.ts\<close>, \<open>lib/request-id.ts\<close>), the page gate
  (\<open>auth.config.ts\<close>), the identification of the user and the reading of bodies (\<open>lib/api.ts\<close>), the
  credential of scheduled calls (\<open>lib/cron.ts\<close>), administrators (\<open>lib/admin-auth.ts\<close>,
  \<open>services/admin.ts\<close>, \<open>lib/admin-rate-limit.ts\<close>) and the detector of unusual sign-in traffic
  (\<open>lib/auth-anomaly.ts\<close>). Header names are in lower case; the policy for scripts is left out. The
  framework's session is an argument: the id of the signed-in user.
\<close>

section \<open>request-id.ts and signed-user-header.ts\<close>

type_synonym headers = "(string, string) js_map"

definition REQUEST_ID_HEADER :: string where "REQUEST_ID_HEADER = ''x-request-id''"
definition USER_ID_HEADER :: string where "USER_ID_HEADER = ''x-user-id''"
definition USER_ID_SIG_HEADER :: string where "USER_ID_SIG_HEADER = ''x-user-id-sig''"

definition valid_request_id :: "string \<Rightarrow> bool" where
  "valid_request_id s \<longleftrightarrow> 6 \<le> length s \<and> length s \<le> 128
     \<and> list_all (\<lambda>c. c = CHR ''-'' \<or> (is_word_char c \<and> c \<noteq> CHR ''_'')) s"

definition readOrCreateRequestId :: "string \<Rightarrow> headers \<Rightarrow> string" where
  "readOrCreateRequestId uuid hs =
     (case js_get hs REQUEST_ID_HEADER of None \<Rightarrow> uuid
      | Some i \<Rightarrow> if i \<noteq> [] \<and> valid_request_id i then i else uuid)"

definition signUserId :: "externals \<Rightarrow> string \<Rightarrow> string \<Rightarrow> string \<Rightarrow> string" where
  "signUserId ex userId requestId secret = ex_hmac ex (take 128 secret) (userId @ CHR ''.'' # requestId)"

definition getSigningSecret :: "web_env \<Rightarrow> string option" where
  "getSigningSecret env =
     (let secret = (if missing (we_AUTH_SECRET env) then we_NEXTAUTH_SECRET env else we_AUTH_SECRET env) in
      if missing secret \<or> length (or_empty secret) < 32 then None else secret)"

section \<open>auth.config.ts\<close>

datatype gate = Pass | To_Login "string option"

definition PUBLIC_PAGES :: "string list" where
  "PUBLIC_PAGES = [''/login'', ''/register'', ''/forgot-password'', ''/reset-password'', ''/offline'']"

text \<open>The \<open>authorized\<close> callback; it throws in an insecure production set-up.\<close>

definition authorized :: "web_env \<Rightarrow> string option \<Rightarrow> string \<Rightarrow> string \<Rightarrow> gate option" where
  "authorized env user path query =
     (if \<not> production_secure env then None
      else if we_AUTH_MODE env = Some ''legacy'' \<and> \<not> we_production env then Some Pass
      else if path \<in> set PUBLIC_PAGES then Some Pass
      else if user \<noteq> None then Some Pass
      else let n = path @ query in
        Some (To_Login (if startsWith n ''/'' \<and> \<not> startsWith n ''//'' then Some n else None)))"

section \<open>proxy.ts\<close>

record web_request =
  wr_method :: string
  wr_path :: string
  wr_headers :: headers
  wr_cookies :: "(string, string) js_map"

text \<open>What the proxy hands to the handler, and what it puts on the response.\<close>

record forwarded =
  fw_request :: headers
  fw_response :: headers
  fw_csrf_cookie :: "(string \<times> string) option"

datatype proxy_answer = Csrf_Refused | Forwarded forwarded

definition EXCLUDED_PREFIXES :: "string list" where
  "EXCLUDED_PREFIXES = [''auth'', ''share'', ''offline'', ''api/auth'', ''api/dev/login'', ''api/cron'', ''api/telegram'',
     ''api/billing/webhook'', ''api/health/public'', ''api/health/alerts'', ''debug'', ''sw.js'', ''sw-precache.json'',
     ''_next/static'', ''_next/image'', ''favicon.ico'', ''manifest.webmanifest'', ''icons'', ''robots.txt'', ''sitemap.xml'']"

text \<open>The matcher: which requests run through the proxy.\<close>

definition proxied :: "string \<Rightarrow> bool" where
  "proxied path \<longleftrightarrow> startsWith path ''/'' \<and> \<not> list_ex (startsWith (drop 1 path)) EXCLUDED_PREFIXES"

definition with_signature :: "web_env \<Rightarrow> externals \<Rightarrow> string \<Rightarrow> string \<Rightarrow> headers \<Rightarrow> headers" where
  "with_signature env ex userId requestId hs =
     (case getSigningSecret env of None \<Rightarrow> hs
      | Some secret \<Rightarrow> js_set USER_ID_SIG_HEADER (signUserId ex userId requestId secret) hs)"

definition legacy_answer :: "web_env \<Rightarrow> externals \<Rightarrow> string \<Rightarrow> string \<Rightarrow> web_request \<Rightarrow> proxy_answer" where
  "legacy_answer env ex requestId nonce r =
     (let stamp = (\<lambda>hs. js_set ''x-csp-nonce'' nonce (js_set USER_ID_HEADER SYSTEM_USER_ID (js_set REQUEST_ID_HEADER requestId hs))) in
      Forwarded \<lparr>fw_request = stamp (wr_headers r),
        fw_response = with_signature env ex SYSTEM_USER_ID requestId (stamp []), fw_csrf_cookie = None\<rparr>)"

definition csrf_cookie_name :: "bool \<Rightarrow> string" where
  "csrf_cookie_name secure = (if secure then ''__Host-hfx_csrf'' else ''hfx_csrf'')"

text \<open>\<open>uuid1\<close>, \<open>nonce\<close> and \<open>uuid2\<close> are the ids drawn for the request, the scripts and the CSRF token;
  \<open>secureMode\<close> is the flag for secure cookies outside production.\<close>

definition proxy :: "web_env \<Rightarrow> bool \<Rightarrow> externals \<Rightarrow> string \<Rightarrow> string \<Rightarrow> string \<Rightarrow> string option \<Rightarrow> web_request \<Rightarrow> proxy_answer" where
  "proxy env secureMode ex uuid1 nonce uuid2 user r =
     (let requestId = readOrCreateRequestId uuid1 (wr_headers r) in
      if we_AUTH_MODE env = Some ''legacy'' \<and> \<not> we_production env then legacy_answer env ex requestId nonce r
      else
        let name = csrf_cookie_name (we_production env \<or> secureMode);
            token = (if missing (js_get (wr_cookies r) name) then uuid2 else or_empty (js_get (wr_cookies r) name));
            sent = js_get (wr_headers r) ''x-csrf-token'' in
        if wr_method r \<in> {''POST'', ''PUT'', ''DELETE'', ''PATCH''} \<and> startsWith (wr_path r) ''/api/''
           \<and> \<not> startsWith (wr_path r) ''/api/auth/'' \<and> (token = [] \<or> missing sent \<or> sent \<noteq> Some token)
        then Csrf_Refused
        else
          let base = js_set ''x-csp-nonce'' nonce (js_delete USER_ID_SIG_HEADER (js_set REQUEST_ID_HEADER requestId (wr_headers r)));
              signed_in = \<not> missing user;
              answer = js_set ''x-csp-nonce'' nonce (js_set REQUEST_ID_HEADER requestId []) in
          Forwarded \<lparr>fw_request = (if signed_in then js_set USER_ID_HEADER (or_empty user) base else js_delete USER_ID_HEADER base),
            fw_response = (if signed_in
              then with_signature env ex (or_empty user) requestId (js_set USER_ID_HEADER (or_empty user) answer) else answer),
            fw_csrf_cookie = Some (name, token)\<rparr>)"

section \<open>api.ts\<close>

text \<open>\<open>session\<close> is what the framework's \<open>auth()\<close> yields: \<open>None\<close> when it throws, else the user's id if any.\<close>

definition getUserFromRequest :: "web_env \<Rightarrow> externals \<Rightarrow> string option option \<Rightarrow> headers \<Rightarrow> string option" where
  "getUserFromRequest env ex session hs =
     (let uid = js_get hs USER_ID_HEADER; sig = js_get hs USER_ID_SIG_HEADER; rid = js_get hs REQUEST_ID_HEADER;
          fast = (case getSigningSecret env of None \<Rightarrow> False
            | Some secret \<Rightarrow> \<not> missing uid \<and> \<not> missing sig \<and> \<not> missing rid
                \<and> or_empty sig = signUserId ex (or_empty uid) (or_empty rid) secret) in
      if fast then uid
      else case session of None \<Rightarrow> None | Some v \<Rightarrow> if missing v then None else v)"

datatype 'a guarded = Refused_401 "string option" | Handled 'a

text \<open>\<open>withAuth\<close>; a refusal echoes the request id and is recorded.\<close>

definition withAuth :: "web_env \<Rightarrow> externals \<Rightarrow> string option option \<Rightarrow> headers \<Rightarrow> ms \<Rightarrow> (string \<Rightarrow> auth_db \<Rightarrow> auth_db \<times> 'a) \<Rightarrow> auth_db
    \<Rightarrow> auth_db \<times> 'a guarded" where
  "withAuth env ex session hs now handler s =
     (case getUserFromRequest env ex session hs of
        None \<Rightarrow> (recordAuthEvent Unauthorized_401 now s, Refused_401 (js_get hs REQUEST_ID_HEADER))
      | Some u \<Rightarrow> (case handler u s of (s', a) \<Rightarrow> (s', Handled a)))"

definition DEFAULT_MAX_BODY_BYTES :: int where "DEFAULT_MAX_BODY_BYTES = 6 * 1024 * 1024"

text \<open>\<open>maxJsonBodyBytes\<close>, for the number the variable holds, if it is set and a number.\<close>

definition maxJsonBodyBytes :: "real option \<Rightarrow> int" where
  "maxJsonBodyBytes raw = (case raw of None \<Rightarrow> DEFAULT_MAX_BODY_BYTES
     | Some n \<Rightarrow> if n \<le> 0 then DEFAULT_MAX_BODY_BYTES else \<lfloor>n\<rfloor>)"

definition BODY_READ_TIMEOUT_MS :: int where "BODY_READ_TIMEOUT_MS = 5000"

datatype body = Too_Large | Timed_Out | Body_Read int

text \<open>Each chunk with the time it took to arrive and its size; the end of the body takes \<open>fin\<close> to arrive, and
  \<open>got\<close> bytes have been read.\<close>

fun read_body :: "int \<Rightarrow> int \<Rightarrow> int \<Rightarrow> (int \<times> nat) list \<Rightarrow> body" where
  "read_body mx fin got [] = (if fin > BODY_READ_TIMEOUT_MS then Timed_Out else Body_Read got)"
| "read_body mx fin got ((delay, n) # cs) =
     (if delay > BODY_READ_TIMEOUT_MS then Timed_Out
      else if got + int n > mx then Too_Large
      else read_body mx fin (got + int n) cs)"

definition parseJsonBody_read :: "int \<Rightarrow> int option \<Rightarrow> int \<Rightarrow> (int \<times> nat) list \<Rightarrow> body" where
  "parseJsonBody_read mx declared fin chunks =
     (if (case declared of None \<Rightarrow> False | Some n \<Rightarrow> n > mx) then Too_Large else read_body mx fin 0 chunks)"

section \<open>cron.ts\<close>

fun readCookie_parts :: "string list \<Rightarrow> string \<Rightarrow> string option" where
  "readCookie_parts [] name = None"
| "readCookie_parts (part # ps) name =
     (if CHR ''='' \<notin> set part then readCookie_parts ps name
      else let (k, v) = (takeWhile (\<lambda>c. c \<noteq> CHR ''='') part, tl (dropWhile (\<lambda>c. c \<noteq> CHR ''='') part)) in
        if js_trim k = name then Some (js_trim v) else readCookie_parts ps name)"

definition readCookie :: "string \<Rightarrow> string \<Rightarrow> string option" where
  "readCookie header name = (if header = [] then None else readCookie_parts (js_split (CHR '';'') header) name)"

text \<open>\<open>withCronAuth\<close> lets the request through; \<open>legacy\<close> says of a signed cookie whether it verifies.\<close>

definition withCronAuth :: "web_env \<Rightarrow> externals \<Rightarrow> string option \<Rightarrow> string option \<Rightarrow> (string \<Rightarrow> bool) \<Rightarrow> string option option \<Rightarrow> headers \<Rightarrow> bool" where
  "withCronAuth env ex cronSecret cookieSecret legacy session hs =
     (let header = or_empty (js_get hs ''authorization'');
          expected = ''Bearer '' @ (case cronSecret of None \<Rightarrow> ''undefined'' | Some s \<Rightarrow> s);
          cookie = readCookie (or_empty (js_get hs ''cookie'')) ''hfx_auth'' in
      (header \<noteq> [] \<and> header = expected)
      \<or> getUserFromRequest env ex session hs \<noteq> None
      \<or> (\<not> missing cookie \<and> \<not> missing cookieSecret \<and> legacy (or_empty cookie)))"

section \<open>Administrators\<close>

datatype admin_answer = Admin string | Unauthenticated | Forbidden

text \<open>The first row by creation time, when no row has the role.\<close>

definition earliest :: "user_row list \<Rightarrow> user_row option" where
  "earliest us = (case us of [] \<Rightarrow> None | u # vs \<Rightarrow> Some (fold (\<lambda>v m. if ac_createdAt v < ac_createdAt m then v else m) vs u))"

definition getAdminUser :: "string option \<Rightarrow> auth_db \<Rightarrow> admin_answer" where
  "getAdminUser session s =
     (if missing session then Unauthenticated
      else case getUserById (or_empty session) s of
        None \<Rightarrow> Forbidden
      | Some u \<Rightarrow>
          if ac_role u = ''admin'' then Admin (ac_id u)
          else if countAdmins s = 0 \<and> map_option ac_id (earliest (ad_users s)) = Some (ac_id u) then Admin (ac_id u)
          else Forbidden)"

datatype role_error = Self_Demote | User_Not_Found | Last_Admin

text \<open>\<open>updateUserRoleService\<close> in its two halves: what it reads, and what it then writes.\<close>

definition role_change_allowed :: "string \<Rightarrow> string \<Rightarrow> string \<Rightarrow> auth_db \<Rightarrow> role_error + string" where
  "role_change_allowed actor target role s =
     (if actor = target then Inl Self_Demote
      else case getUserById target s of
        None \<Rightarrow> Inl User_Not_Found
      | Some u \<Rightarrow>
          if role = ''user'' \<and> ac_role u = ''admin'' \<and> countAdmins s \<le> 1 then Inl Last_Admin
          else if role = ''user'' \<and> countAdmins s = 0 \<and> map_option ac_id (earliest (ad_users s)) = Some target then Inl Last_Admin
          else Inr (ac_role u))"

definition role_change_write :: "string \<Rightarrow> string \<Rightarrow> string \<Rightarrow> string \<Rightarrow> auth_db \<Rightarrow> auth_db" where
  "role_change_write actor target role previous s =
     (if previous = role then s
      else createAuditLog True actor ''user.role.update'' (fst (updateUserRole target role s)))"

definition updateUserRoleService :: "string \<Rightarrow> string \<Rightarrow> string \<Rightarrow> auth_db \<Rightarrow> auth_db \<times> (role_error + string)" where
  "updateUserRoleService actor target role s =
     (case role_change_allowed actor target role s of
        Inl e \<Rightarrow> (s, Inl e)
      | Inr previous \<Rightarrow> (role_change_write actor target role previous s, Inr previous))"

record admin_bucket =
  ab_count :: nat
  ab_windowStart :: ms

definition checkAdminRateLimit :: "nat \<Rightarrow> ms \<Rightarrow> ms \<Rightarrow> string \<Rightarrow> (string, admin_bucket) js_map \<Rightarrow> (string, admin_bucket) js_map \<times> (int + unit)" where
  "checkAdminRateLimit maxRequests windowMs now uid m =
     (let b = (case js_get m uid of None \<Rightarrow> \<lparr>ab_count = 0, ab_windowStart = now\<rparr> | Some b \<Rightarrow> b);
          b1 = (if now - ab_windowStart b > windowMs then \<lparr>ab_count = 0, ab_windowStart = now\<rparr> else b);
          b2 = b1\<lparr>ab_count := ab_count b1 + 1\<rparr> in
      (js_set uid b2 m,
       if ab_count b2 > maxRequests
       then Inl (max 1 (- ((- (ab_windowStart b2 + windowMs - now)) div 1000))) else Inr ()))"

section \<open>auth-anomaly.ts\<close>

definition ANOMALY_WINDOW_MS :: ms where "ANOMALY_WINDOW_MS = 5 * 60 * 1000"
definition ALERT_COOLDOWN_MS :: ms where "ALERT_COOLDOWN_MS = 5 * 60 * 1000"

record anomaly_state =
  as_events :: "(auth_event \<times> ms) list"
  as_lastAlertAt :: "auth_event \<Rightarrow> ms option"

definition pruneOldEvents :: "ms \<Rightarrow> anomaly_state \<Rightarrow> anomaly_state" where
  "pruneOldEvents now a = a\<lparr>as_events := dropWhile (\<lambda>(_, t). t < now - ANOMALY_WINDOW_MS) (as_events a)\<rparr>"

definition event_count :: "ms \<Rightarrow> auth_event \<Rightarrow> (auth_event \<times> ms) list \<Rightarrow> nat" where
  "event_count now e es = length (filter (\<lambda>(e', t). e' = e \<and> now - t < ANOMALY_WINDOW_MS) es)"

definition maybeAlert :: "ms \<Rightarrow> bool \<Rightarrow> auth_event \<Rightarrow> anomaly_state \<times> auth_event list \<Rightarrow> anomaly_state \<times> auth_event list" where
  "maybeAlert now cond e p =
     (case p of (a, sent) \<Rightarrow>
        if cond \<and> \<not> now - (case as_lastAlertAt a e of None \<Rightarrow> 0 | Some t \<Rightarrow> t) < ALERT_COOLDOWN_MS
        then (a\<lparr>as_lastAlertAt := (as_lastAlertAt a)(e := Some now)\<rparr>, sent @ [e]) else (a, sent))"

definition low_success :: "nat \<Rightarrow> nat \<Rightarrow> bool" where
  "low_success ok failed \<longleftrightarrow> ok + failed \<ge> 20 \<and> real ok / real (ok + failed) < 0.30"

definition checkThresholds :: "ms \<Rightarrow> anomaly_state \<Rightarrow> anomaly_state \<times> auth_event list" where
  "checkThresholds now a =
     (let n = (\<lambda>e. event_count now e (as_events a)) in
      maybeAlert now (low_success (n Login_Success) (n Login_Failure)) Login_Failure
        (maybeAlert now (n TwoFa_Failure > 15) TwoFa_Failure
          (maybeAlert now (n Account_Locked > 10) Account_Locked
            (maybeAlert now (n Unauthorized_401 > 50) Unauthorized_401 (a, [])))))"

text \<open>\<open>recordAuthEvent\<close>, with the alerts it raises.\<close>

definition record_event :: "ms \<Rightarrow> auth_event \<Rightarrow> anomaly_state \<Rightarrow> anomaly_state \<times> auth_event list" where
  "record_event now e a = checkThresholds now (pruneOldEvents now (a\<lparr>as_events := as_events a @ [(e, now)]\<rparr>))"

definition getAuthEventCounts :: "ms \<Rightarrow> anomaly_state \<Rightarrow> anomaly_state \<times> (auth_event \<Rightarrow> nat)" where
  "getAuthEventCounts now a = (let a' = pruneOldEvents now a in (a', \<lambda>e. event_count now e (as_events a')))"

section \<open>Who a handler sees\<close>

lemma header_names_differ:
  "USER_ID_HEADER \<noteq> USER_ID_SIG_HEADER" "REQUEST_ID_HEADER \<noteq> USER_ID_SIG_HEADER" "USER_ID_HEADER \<noteq> REQUEST_ID_HEADER"
  "''x-csp-nonce'' \<noteq> USER_ID_SIG_HEADER" "''x-csp-nonce'' \<noteq> USER_ID_HEADER" "''x-csp-nonce'' \<noteq> REQUEST_ID_HEADER"
  by (simp_all add: USER_ID_HEADER_def USER_ID_SIG_HEADER_def REQUEST_ID_HEADER_def)

lemmas header_laws = js_get_set js_get_delete header_names_differ header_names_differ[symmetric]

lemma Forwarded_fields:
  assumes "proxy env secureMode ex uuid1 nonce uuid2 user r = Forwarded f" "we_AUTH_MODE env \<noteq> Some ''legacy''"
  shows "js_get (fw_request f) USER_ID_SIG_HEADER = None"
    and "js_get (fw_request f) USER_ID_HEADER = (if missing user then None else user)"
    and "\<not> missing user \<Longrightarrow> js_get (fw_response f) USER_ID_HEADER = user
      \<and> js_get (fw_response f) REQUEST_ID_HEADER = Some (readOrCreateRequestId uuid1 (wr_headers r))
      \<and> js_get (fw_response f) USER_ID_SIG_HEADER
        = map_option (signUserId ex (or_empty user) (readOrCreateRequestId uuid1 (wr_headers r))) (getSigningSecret env)"
  using assms
  by (auto simp: proxy_def Let_def header_laws with_signature_def missing_def or_empty_def split: if_splits option.splits)

text \<open>
  C17: Whatever identity headers a client sends, a handler behind the proxy sees the user of the session and
  nobody else: a header with a user id only counts with a signature, and no signature passes the proxy.
\<close>

theorem proxied_identity:
  assumes "proxy env secureMode ex uuid1 nonce uuid2 user r = Forwarded f" "we_AUTH_MODE env \<noteq> Some ''legacy''"
  shows "getUserFromRequest env ex session (fw_request f)
    = (case session of Some (Some u) \<Rightarrow> if u = [] then None else Some u | _ \<Rightarrow> None)"
  using Forwarded_fields(1)[OF assms]
  by (auto simp: getUserFromRequest_def missing_def Let_def split: option.splits)

definition sample_request :: web_request where
  "sample_request = \<lparr>wr_method = ''POST'', wr_path = ''/api/alerts'',
     wr_headers = [(''x-user-id'', ''victim''), (''x-user-id-sig'', ''forged''), (''x-csrf-token'', ''t0k''), (''x-request-id'', ''req-123'')],
     wr_cookies = [(''__Host-hfx_csrf'', ''t0k'')]\<rparr>"

definition signing_env :: web_env where
  "signing_env = sample_web_env\<lparr>we_AUTH_SECRET := Some (replicate 40 (CHR ''k''))\<rparr>"

lemma sample_forwarded:
  "proxy signing_env False sample_externals ''id-0001'' ''n'' ''c'' (Some ''u1'') sample_request
     = Forwarded (case proxy signing_env False sample_externals ''id-0001'' ''n'' ''c'' (Some ''u1'') sample_request of Forwarded f \<Rightarrow> f)"
  "we_AUTH_MODE signing_env \<noteq> Some ''legacy''"
proof -
  have "(case proxy signing_env False sample_externals ''id-0001'' ''n'' ''c'' (Some ''u1'') sample_request of Forwarded f \<Rightarrow> True | _ \<Rightarrow> False)"
    by code_simp
  then show "proxy signing_env False sample_externals ''id-0001'' ''n'' ''c'' (Some ''u1'') sample_request
     = Forwarded (case proxy signing_env False sample_externals ''id-0001'' ''n'' ''c'' (Some ''u1'') sample_request of Forwarded f \<Rightarrow> f)"
    by (simp split: proxy_answer.splits)
  show "we_AUTH_MODE signing_env \<noteq> Some ''legacy''"
    by code_simp
qed

theorem proxied_identity_witness:
  "getUserFromRequest signing_env sample_externals (Some (Some ''u1''))
     (fw_request (case proxy signing_env False sample_externals ''id-0001'' ''n'' ''c'' (Some ''u1'') sample_request of Forwarded f \<Rightarrow> f))
   = Some ''u1''"
  using proxied_identity[OF sample_forwarded, of "Some (Some ''u1'')"] by simp

text \<open>
  C16: The signature does not reach the handler but the client: the response of any request of a signed-in user carries a
  triple of headers that identifies the user, without a session and at any later time, wherever
  requests do not run through the proxy, scheduled calls among them.
\<close>

theorem signed_response_replays:
  assumes "proxy env secureMode ex uuid1 nonce uuid2 (Some u) r = Forwarded f" "we_AUTH_MODE env \<noteq> Some ''legacy''"
    "getSigningSecret env = Some secret" "u \<noteq> []" "uuid1 \<noteq> []" "ex_hmac ex (take 128 secret) (u @ CHR ''.'' # readOrCreateRequestId uuid1 (wr_headers r)) \<noteq> []"
  shows "getUserFromRequest env ex None (fw_response f) = Some u
    \<and> withCronAuth env ex cronSecret cookieSecret legacy None (fw_response f)
    \<and> \<not> proxied ''/api/cron/alerts'' \<and> \<not> proxied ''/api/health/alerts''"
proof -
  have rid: "readOrCreateRequestId uuid1 (wr_headers r) \<noteq> []"
    using assms(5) by (auto simp: readOrCreateRequestId_def split: option.splits)
  have "getUserFromRequest env ex None (fw_response f) = Some u"
    using Forwarded_fields(3)[OF assms(1,2)] assms(3,4,6) rid
    by (simp add: getUserFromRequest_def missing_def or_empty_def Let_def signUserId_def)
  moreover have "\<not> proxied ''/api/cron/alerts''" "\<not> proxied ''/api/health/alerts''"
    by code_simp+
  ultimately show ?thesis
    by (simp add: withCronAuth_def Let_def)
qed

theorem signed_response_replays_witness:
  "getUserFromRequest signing_env sample_externals None
     (fw_response (case proxy signing_env False sample_externals ''id-0001'' ''n'' ''c'' (Some ''u1'') sample_request of Forwarded f \<Rightarrow> f))
   = Some ''u1''"
proof -
  have "getSigningSecret signing_env = Some (replicate 40 (CHR ''k''))"
    by code_simp
  from signed_response_replays[OF sample_forwarded this] show ?thesis
    by (simp add: sample_externals_def)
qed

text \<open>
  A state-changing call of the interface, outside the sign-in routes, passes only with a header that repeats the token
  of the cookie; without the cookie only with the token that was drawn for this very request.
\<close>

theorem csrf_token_required:
  assumes "proxy env secureMode ex uuid1 nonce uuid2 user r = Forwarded f" "we_AUTH_MODE env \<noteq> Some ''legacy''"
    "wr_method r \<in> {''POST'', ''PUT'', ''DELETE'', ''PATCH''}" "startsWith (wr_path r) ''/api/''" "\<not> startsWith (wr_path r) ''/api/auth/''"
  shows "js_get (wr_headers r) ''x-csrf-token'' \<noteq> None
    \<and> (case js_get (wr_cookies r) (csrf_cookie_name (we_production env \<or> secureMode)) of
        Some t \<Rightarrow> if t = [] then js_get (wr_headers r) ''x-csrf-token'' = Some uuid2 else js_get (wr_headers r) ''x-csrf-token'' = Some t
      | None \<Rightarrow> js_get (wr_headers r) ''x-csrf-token'' = Some uuid2)"
  using assms by (auto simp: proxy_def Let_def missing_def or_empty_def split: if_splits option.splits)

theorem csrf_token_required_witness:
  "js_get (wr_headers sample_request) ''x-csrf-token'' \<noteq> None"
proof -
  have "wr_method sample_request \<in> {''POST'', ''PUT'', ''DELETE'', ''PATCH''}" "startsWith (wr_path sample_request) ''/api/''"
    "\<not> startsWith (wr_path sample_request) ''/api/auth/''"
    by (simp_all add: sample_request_def startsWith_def)
  from csrf_token_required[OF sample_forwarded this] show ?thesis by blast
qed

text \<open>
  Without a session only the public pages are served; the way back that the login page gets is a path of this
  site.
\<close>

theorem pages_need_a_session:
  assumes "production_secure env" "we_AUTH_MODE env \<noteq> Some ''legacy''"
  shows "(authorized env user path query = Some Pass \<longleftrightarrow> path \<in> set PUBLIC_PAGES \<or> user \<noteq> None)
    \<and> (case authorized env user path query of Some (To_Login (Some n)) \<Rightarrow> startsWith n ''/'' \<and> \<not> startsWith n ''//'' | _ \<Rightarrow> True)"
  using assms by (auto simp: authorized_def Let_def)

theorem pages_need_a_session_witness:
  "authorized signing_env None ''/settings'' ''?tab=keys'' \<noteq> Some Pass"
proof -
  have "production_secure signing_env" "''/settings'' \<notin> set PUBLIC_PAGES"
    by code_simp+
  then show ?thesis
    using pages_need_a_session[of signing_env None "''/settings''" "''?tab=keys''"] sample_forwarded(2) by blast
qed

section \<open>Administrators\<close>

lemma earliest_minimal:
  assumes "earliest us = Some m"
  shows "m \<in> set us \<and> (\<forall>u\<in>set us. ac_createdAt m \<le> ac_createdAt u)"
proof -
  have folds: "let f = fold (\<lambda>v m. if ac_createdAt v < ac_createdAt m then v else m) vs u in
      f \<in> insert u (set vs) \<and> (\<forall>w\<in>insert u (set vs). ac_createdAt f \<le> ac_createdAt w)" for u vs
  proof (induction vs arbitrary: u)
    case (Cons v vs)
    show ?case
      using Cons[of "if ac_createdAt v < ac_createdAt u then v else u"]
      by (auto simp: Let_def split: if_splits)
  qed simp
  obtain u vs where us: "us = u # vs"
    using assms by (cases us) (simp_all add: earliest_def)
  then show ?thesis
    using folds[of vs u] assms by (simp add: earliest_def Let_def)
qed

text \<open>
  The first migration creates the row of the system user, before anybody can register: while nobody has
  the role, no signed-in user is an administrator, the sole owner included.
\<close>

theorem system_row_blocks_owner:
  assumes "auth_ok s" "u0 \<in> set (ad_users s)" "ac_id u0 = SYSTEM_USER_ID" "countAdmins s = 0"
    "list_all (\<lambda>u. ac_id u = SYSTEM_USER_ID \<or> ac_createdAt u0 < ac_createdAt u) (ad_users s)" "i \<noteq> SYSTEM_USER_ID"
  shows "case getAdminUser (Some i) s of Admin _ \<Rightarrow> False | _ \<Rightarrow> True"
proof -
  have "ac_id m = SYSTEM_USER_ID" if "earliest (ad_users s) = Some m" for m
    using earliest_minimal[OF that] assms(2,5) by (force simp: list_all_iff)
  then have "map_option ac_id (earliest (ad_users s)) \<noteq> Some i"
    using assms(6) by (cases "earliest (ad_users s)") auto
  moreover have "ac_role u \<noteq> ''admin''" if "getUserById i s = Some u" for u
    using that assms(1,4) getUserById_mem by (auto simp: countAdmins_def filter_empty_conv)
  ultimately show ?thesis
    by (auto simp: getAdminUser_def or_empty_def dest: getUserById_SomeD split: option.splits)
qed

definition migrated_db :: auth_db where
  "migrated_db = empty_auth_db\<lparr>ad_users := [new_user 1 SYSTEM_USER_ID ''system@localhost'' ''System'' None None,
     new_user 2 ''u1'' ''ann@x.org'' ''Ann'' None None]\<rparr>"

theorem system_row_blocks_owner_witness:
  "case getAdminUser (Some ''u1'') migrated_db of Admin _ \<Rightarrow> False | _ \<Rightarrow> True"
proof (rule system_row_blocks_owner)
  show "new_user 1 SYSTEM_USER_ID ''system@localhost'' ''System'' None None \<in> set (ad_users migrated_db)"
    by (simp add: migrated_db_def)
  show "auth_ok migrated_db" "countAdmins migrated_db = 0"
    by code_simp+
qed (simp_all add: migrated_db_def new_user_def SYSTEM_USER_ID_def)

text \<open>A change of a role moves the number of administrators by what it changes.\<close>

lemma getUserById_countAdmins:
  "auth_ok s \<Longrightarrow> getUserById i s = Some u \<Longrightarrow> countAdmins (fst (updateUserRole i role s)) + (if ac_role u = ''admin'' then 1 else 0)
    = countAdmins s + (if role = ''admin'' then 1 else 0)"
proof -
  have gen: "length (filter (\<lambda>u. ac_role u = ''admin'') (map (\<lambda>v. if ac_id v = i then v\<lparr>ac_role := role\<rparr> else v) us)) + (if ac_role u = ''admin'' then 1 else 0)
      = length (filter (\<lambda>u. ac_role u = ''admin'') us) + (if role = ''admin'' then 1 else 0)"
    if "distinct (map ac_id us)" "List.find (\<lambda>u. ac_id u = i) us = Some u" for us
    using that
  proof (induction us)
    case (Cons v us)
    show ?case
    proof (cases "ac_id v = i")
      case True
      then have "map (\<lambda>v. if ac_id v = i then v\<lparr>ac_role := role\<rparr> else v) us = us"
        using Cons.prems(1) by (intro map_idI) (auto simp: image_iff split: if_splits)
      then show ?thesis
        using Cons.prems True by (auto simp: filter_empty_conv)
    next
      case False
      then show ?thesis using Cons by simp
    qed
  qed simp
  assume "auth_ok s" "getUserById i s = Some u"
  then show ?thesis
    using gen[of "ad_users s"]
    by (simp add: countAdmins_def updateUserRole_def getUserById_def case_prod_beta auth_okD(1))
qed

text \<open>C29: Role changes one after the other never take the last administrator away.\<close>

theorem an_admin_stays:
  assumes "auth_ok s" "countAdmins s > 0" "role \<in> {''user'', ''admin''}"
  shows "countAdmins (fst (updateUserRoleService actor target role s)) > 0"
proof (cases "role_change_allowed actor target role s")
  case (Inl e)
  then show ?thesis using assms by (simp add: updateUserRoleService_def)
next
  case (Inr previous)
  then obtain u where u: "getUserById target s = Some u" "previous = ac_role u"
    "\<not> (role = ''user'' \<and> ac_role u = ''admin'' \<and> countAdmins s \<le> 1)"
    by (auto simp: role_change_allowed_def split: if_splits option.splits)
  have "countAdmins (role_change_write actor target role previous s) > 0"
    using getUserById_countAdmins[OF assms(1) u(1), of role] assms(2,3) u
    by (auto simp: role_change_write_def createAuditLog_def countAdmins_def split: if_splits)
  then show ?thesis
    using Inr by (simp add: updateUserRoleService_def)
qed

lemma auth_ok_role_write [inv_intros]: "auth_ok s \<Longrightarrow> auth_ok (role_change_write actor target role previous s)"
proof -
  assume "auth_ok s"
  then have "auth_ok (fst (updateUserRole target role s))"
    by (simp add: updateUserRole_def case_prod_beta auth_ok_update_user)
  with \<open>auth_ok s\<close> show ?thesis
    by (auto simp: role_change_write_def createAuditLog_def auth_ok_def)
qed

text \<open>
  Two role changes that read the table before either writes take the last administrators away, when
  they demote each other.
\<close>

theorem roles_raced:
  assumes "auth_ok s" "countAdmins s = 2" "a \<noteq> b" "getUserById a s = Some u" "getUserById b s = Some v"
    "ac_role u = ''admin''" "ac_role v = ''admin''"
  shows "role_change_allowed a b ''user'' s = Inr ''admin'' \<and> role_change_allowed b a ''user'' s = Inr ''admin''
    \<and> countAdmins (role_change_write b a ''user'' ''admin'' (role_change_write a b ''user'' ''admin'' s)) = 0"
proof -
  let ?s1 = "role_change_write a b ''user'' ''admin'' s"
  have after: "countAdmins (role_change_write x y ''user'' ''admin'' t) = countAdmins (fst (updateUserRole y ''user'' t))" for x y t
    by (simp add: role_change_write_def createAuditLog_def countAdmins_def)
  have "countAdmins ?s1 = 1"
    using getUserById_countAdmins[OF assms(1,5), of "''user''"] assms(2,7) by (simp add: after)
  moreover have u: "getUserById a ?s1 = Some u"
    using assms(3,4) getUserById_update[of "\<lambda>u. u\<lparr>ac_role := ''user''\<rparr>" a b s]
    by (simp add: role_change_write_def createAuditLog_def updateUserRole_def case_prod_beta getUserById_def)
  ultimately have "countAdmins (role_change_write b a ''user'' ''admin'' ?s1) = 0"
    using getUserById_countAdmins[OF auth_ok_role_write[OF assms(1)] u, of "''user''"] assms(6)
    by (simp add: after)
  then show ?thesis
    using assms by (simp add: role_change_allowed_def)
qed

text \<open>
  A body is read exactly when every piece comes within five seconds and all of them fit; the limit is on
  the time between pieces, so the whole may take any time.
\<close>

lemma read_body_exact:
  "read_body mx fin got cs = Body_Read n \<longleftrightarrow>
     n = got + int (sum_list (map snd cs)) \<and> list_all (\<lambda>c. fst c \<le> BODY_READ_TIMEOUT_MS) cs \<and> fin \<le> BODY_READ_TIMEOUT_MS
     \<and> (cs = [] \<or> n \<le> mx)"
proof (induction cs arbitrary: got)
  case (Cons c cs)
  obtain d k where c: "c = (d, k)" by (cases c)
  have "int (sum_list (map snd cs)) \<ge> 0" by simp
  then show ?case
    using Cons[of "got + int k"] c by (cases "cs = []") (auto simp: algebra_simps)
qed auto

text \<open>A body within the size limit is accepted however slowly it arrives.\<close>

theorem slow_body_accepted:
  assumes "int n \<le> DEFAULT_MAX_BODY_BYTES"
  shows "\<exists>cs. parseJsonBody_read DEFAULT_MAX_BODY_BYTES None 0 cs = Body_Read (int n) \<and> sum_list (map fst cs) = BODY_READ_TIMEOUT_MS * int n"
proof (intro exI conjI)
  show "parseJsonBody_read DEFAULT_MAX_BODY_BYTES None 0 (replicate n (BODY_READ_TIMEOUT_MS, 1)) = Body_Read (int n)"
    using assms by (auto simp: parseJsonBody_read_def read_body_exact sum_list_replicate list_all_iff BODY_READ_TIMEOUT_MS_def)
qed (simp add: sum_list_replicate)

definition two_admins :: auth_db where
  "two_admins = empty_auth_db\<lparr>ad_users := [(new_user 1 ''u1'' ''ann@x.org'' ''Ann'' None None)\<lparr>ac_role := ''admin''\<rparr>,
     (new_user 2 ''u2'' ''bob@x.org'' ''Bob'' None None)\<lparr>ac_role := ''admin''\<rparr>]\<rparr>"

lemma two_admins_facts: "auth_ok two_admins" "countAdmins two_admins = 2"
  by code_simp+

theorem an_admin_stays_witness: "countAdmins (fst (updateUserRoleService ''u1'' ''u2'' ''user'' two_admins)) > 0"
  by (rule an_admin_stays) (simp_all add: two_admins_facts)

theorem roles_raced_witness:
  "countAdmins (role_change_write ''u2'' ''u1'' ''user'' ''admin'' (role_change_write ''u1'' ''u2'' ''user'' ''admin'' two_admins)) = 0"
  using roles_raced[OF two_admins_facts, of "''u1''" "''u2''"]
  by (simp add: two_admins_def getUserById_def new_user_def)

theorem slow_body_accepted_witness:
  "\<exists>cs. parseJsonBody_read DEFAULT_MAX_BODY_BYTES None 0 cs = Body_Read 1000000 \<and> sum_list (map fst cs) = 5000000000"
  using slow_body_accepted[of 1000000] by (simp add: DEFAULT_MAX_BODY_BYTES_def BODY_READ_TIMEOUT_MS_def)

end
