(* ===== verification/Noise_Control.thy ===== *)
theory Noise_Control
  imports Js_Map Js_String Js_Hex "HOL-Library.Word"
begin

text \<open>
  The noise control of notifications (\<open>packages/ai/src/notifications\<close>,
  \<open>packages/shared/src/schemas/noise-control.ts\<close>): suppression of duplicates, cooldowns, quiet hours and
  severities over a store of past messages, the store in memory and the one in the database, and the
  settings of a user. The interface of the store is the locale \<open>noise_store\<close>, which both stores
  interpret; the database store does not meet the extension \<open>cooling_store\<close>. The wall clock of a time zone is an
  argument, and so is the row that a query without order returns first.
\<close>

unbundle bit_operations_syntax

section \<open>schemas/noise-control.ts\<close>

datatype severity = Sev_Info | Sev_Warning | Sev_Error | Sev_Critical
datatype route_type = Rt_Report | Rt_Alert | Rt_System_Error | Rt_Signal_Outcome | Rt_Briefing | Rt_Usage_Warning
datatype noise_channel = Ch_Email | Ch_Push | Ch_Telegram
datatype noise_reason = Allowed | Duplicate | Cooldown | Quiet_Hours | Below_Min_Severity

fun route_name :: "route_type \<Rightarrow> string" where
  "route_name Rt_Report = ''report''"
| "route_name Rt_Alert = ''alert''"
| "route_name Rt_System_Error = ''system_error''"
| "route_name Rt_Signal_Outcome = ''signal_outcome''"
| "route_name Rt_Briefing = ''briefing''"
| "route_name Rt_Usage_Warning = ''usage_warning''"

fun severityRank :: "severity \<Rightarrow> nat" where
  "severityRank Sev_Info = 0"
| "severityRank Sev_Warning = 1"
| "severityRank Sev_Error = 2"
| "severityRank Sev_Critical = 3"

record noise_decision =
  nd_shouldSend :: bool
  nd_reasonCode :: noise_reason
  nd_dedupKey :: string
  nd_cooldownKey :: "string option"

record noise_config =
  nc_dedupTtlSeconds :: nat
  nc_cooldownSeconds :: nat
  nc_quietHours :: "(string \<times> string) option"
  nc_timezone :: string
  nc_minSeverity :: severity
  nc_minSeverityDuringQuietHours :: severity
  nc_dailyDigestMode :: bool

definition is_digit :: "char \<Rightarrow> bool" where
  "is_digit c \<longleftrightarrow> 48 \<le> (of_char c :: nat) \<and> of_char c \<le> (57 :: nat)"

text \<open>The schema's pattern for a time of day.\<close>

definition hhmm :: "string \<Rightarrow> bool" where
  "hhmm s \<longleftrightarrow> length s = 5 \<and> s ! 2 = CHR '':'' \<and> list_all is_digit (take 2 s) \<and> list_all is_digit (drop 3 s)"

definition noise_config_ok :: "noise_config \<Rightarrow> bool" where
  "noise_config_ok c \<longleftrightarrow> nc_dedupTtlSeconds c \<le> 86400 \<and> nc_cooldownSeconds c \<le> 86400
     \<and> (case nc_quietHours c of None \<Rightarrow> True | Some (a, b) \<Rightarrow> hhmm a \<and> hhmm b)"

definition DEFAULT_NOISE_CONFIG :: noise_config where
  "DEFAULT_NOISE_CONFIG = \<lparr>nc_dedupTtlSeconds = 300, nc_cooldownSeconds = 60, nc_quietHours = None, nc_timezone = ''UTC'',
     nc_minSeverity = Sev_Info, nc_minSeverityDuringQuietHours = Sev_Critical, nc_dailyDigestMode = False\<rparr>"

fun DEFAULT_ROUTE_CONFIG :: "route_type \<Rightarrow> noise_channel list" where
  "DEFAULT_ROUTE_CONFIG Rt_Report = [Ch_Email]"
| "DEFAULT_ROUTE_CONFIG Rt_Alert = [Ch_Push, Ch_Telegram]"
| "DEFAULT_ROUTE_CONFIG Rt_Signal_Outcome = [Ch_Push]"
| "DEFAULT_ROUTE_CONFIG Rt_System_Error = [Ch_Email]"
| "DEFAULT_ROUTE_CONFIG Rt_Briefing = [Ch_Push]"
| "DEFAULT_ROUTE_CONFIG Rt_Usage_Warning = [Ch_Email, Ch_Push]"

section \<open>noise-control.ts\<close>

definition fnv_step :: "32 word \<Rightarrow> char \<Rightarrow> 32 word" where
  "fnv_step h c = (h XOR word_of_nat (of_char c)) * 16777619"

definition fnv1a :: "string \<Rightarrow> 32 word" where
  "fnv1a s = foldl fnv_step 2166136261 s"

fun base16 :: "nat \<Rightarrow> string" where
  "base16 n = (if n < 16 then [hex_char n] else base16 (n div 16) @ [hex_char (n mod 16)])"

declare base16.simps [simp del]

definition hashContent :: "string \<Rightarrow> route_type \<Rightarrow> string" where
  "hashContent content rt = base16 (unat (fnv1a (route_name rt @ CHR '':'' # content)))"

definition dec :: "string \<Rightarrow> nat" where
  "dec s = foldl (\<lambda>a c. 10 * a + (of_char c - 48)) 0 s"

definition minutes_of :: "string \<Rightarrow> nat" where
  "minutes_of s = (case js_split (CHR '':'') s of h # m # _ \<Rightarrow> dec h * 60 + dec m | [h] \<Rightarrow> dec h * 60 | [] \<Rightarrow> 0)"

text \<open>\<open>clock\<close> is the hour and the minute that the formatter writes for the time zone.\<close>

definition isQuietHours :: "(string \<times> string) option \<Rightarrow> nat \<times> nat \<Rightarrow> bool" where
  "isQuietHours qh clock =
     (case qh of None \<Rightarrow> False
      | Some (start, fin) \<Rightarrow>
          let current = fst clock * 60 + snd clock; a = minutes_of start; b = minutes_of fin in
          if a \<le> b then a \<le> current \<and> current < b else a \<le> current \<or> current < b)"

text \<open>The interface \<open>NoiseState\<close>; a lookup may drop what it finds expired.\<close>

record 's noise_ops =
  no_hasSeen :: "ms \<Rightarrow> string \<Rightarrow> nat \<Rightarrow> 's \<Rightarrow> 's \<times> bool"
  no_inCooldown :: "ms \<Rightarrow> string \<Rightarrow> nat \<Rightarrow> 's \<Rightarrow> 's \<times> bool"
  no_record :: "ms \<Rightarrow> string \<Rightarrow> string \<Rightarrow> 's \<Rightarrow> 's"

definition suppressed :: "noise_reason \<Rightarrow> string \<Rightarrow> string option \<Rightarrow> noise_decision" where
  "suppressed r key ck = \<lparr>nd_shouldSend = False, nd_reasonCode = r, nd_dedupKey = key, nd_cooldownKey = ck\<rparr>"

definition evaluateNoise :: "'s noise_ops \<Rightarrow> (ms \<Rightarrow> string \<Rightarrow> nat \<times> nat) \<Rightarrow> ms \<Rightarrow> string \<Rightarrow> route_type \<Rightarrow> severity \<Rightarrow> noise_config \<Rightarrow> 's
    \<Rightarrow> 's \<times> noise_decision" where
  "evaluateNoise ops clock now content rt sev cfg s =
     (let key = hashContent content rt; (s1, seen) = no_hasSeen ops now key (nc_dedupTtlSeconds cfg) s in
      if seen then (s1, suppressed Duplicate key None)
      else if isQuietHours (nc_quietHours cfg) (clock now (nc_timezone cfg))
        \<and> severityRank sev < severityRank (nc_minSeverityDuringQuietHours cfg) then (s1, suppressed Quiet_Hours key None)
      else if severityRank sev < severityRank (nc_minSeverity cfg) then (s1, suppressed Below_Min_Severity key None)
      else
        let ck = route_name rt;
            (s2, cool) = (if nc_cooldownSeconds cfg > 0 then no_inCooldown ops now ck (nc_cooldownSeconds cfg) s1 else (s1, False)) in
        if cool then (s2, suppressed Cooldown key (Some ck))
        else (no_record ops now key ck s2,
          \<lparr>nd_shouldSend = True, nd_reasonCode = Allowed, nd_dedupKey = key, nd_cooldownKey = Some ck\<rparr>))"

subsection \<open>The store in memory\<close>

record memory_noise =
  mn_seen :: "(string, ms) js_map"
  mn_cooldowns :: "(string, ms) js_map"

definition memory_hasSeen :: "ms \<Rightarrow> string \<Rightarrow> nat \<Rightarrow> memory_noise \<Rightarrow> memory_noise \<times> bool" where
  "memory_hasSeen now k ttl s =
     (case js_get (mn_seen s) k of
        None \<Rightarrow> (s, False)
      | Some t \<Rightarrow> if now - t > int ttl * 1000 then (s\<lparr>mn_seen := js_delete k (mn_seen s)\<rparr>, False) else (s, True))"

definition memory_inCooldown :: "ms \<Rightarrow> string \<Rightarrow> nat \<Rightarrow> memory_noise \<Rightarrow> memory_noise \<times> bool" where
  "memory_inCooldown now k cd s =
     (case js_get (mn_cooldowns s) k of
        None \<Rightarrow> (s, False)
      | Some t \<Rightarrow> if now - t > int cd * 1000 then (s\<lparr>mn_cooldowns := js_delete k (mn_cooldowns s)\<rparr>, False) else (s, True))"

definition memory_record :: "ms \<Rightarrow> string \<Rightarrow> string \<Rightarrow> memory_noise \<Rightarrow> memory_noise" where
  "memory_record now k ck s = s\<lparr>mn_seen := js_set k now (mn_seen s), mn_cooldowns := js_set ck now (mn_cooldowns s)\<rparr>"

definition InMemoryNoiseState :: "memory_noise noise_ops" where
  "InMemoryNoiseState = \<lparr>no_hasSeen = memory_hasSeen, no_inCooldown = memory_inCooldown, no_record = memory_record\<rparr>"

section \<open>noise-state.ts\<close>

record noise_row =
  nr_userId :: string
  nr_dedupKey :: string
  nr_routeType :: string
  nr_lastSentAt :: ms
  nr_expiresAt :: ms

definition EXPIRY_MS :: ms where "EXPIRY_MS = 24 * 60 * 60 * 1000"

definition own_key :: "string \<Rightarrow> string \<Rightarrow> noise_row \<Rightarrow> bool" where
  "own_key uid k r \<longleftrightarrow> nr_userId r = uid \<and> nr_dedupKey r = k"

text \<open>The index on user and key makes the first query's row unique.\<close>

definition db_hasSeen :: "string \<Rightarrow> ms \<Rightarrow> string \<Rightarrow> nat \<Rightarrow> noise_row list \<Rightarrow> noise_row list \<times> bool" where
  "db_hasSeen uid now k ttl rows =
     (rows, case List.find (own_key uid k) rows of None \<Rightarrow> False | Some r \<Rightarrow> nr_expiresAt r > now)"

text \<open>Many rows may match the second query, which has no order: \<open>pick\<close> is the one that comes first.\<close>

definition db_inCooldown :: "(noise_row list \<Rightarrow> noise_row) \<Rightarrow> string \<Rightarrow> ms \<Rightarrow> string \<Rightarrow> nat \<Rightarrow> noise_row list \<Rightarrow> noise_row list \<times> bool" where
  "db_inCooldown pick uid now ck cd rows =
     (let hits = filter (\<lambda>r. nr_userId r = uid \<and> nr_routeType r = ck) rows in
      (rows, hits \<noteq> [] \<and> nr_lastSentAt (pick hits) > now - int cd * 1000))"

definition db_record :: "string \<Rightarrow> ms \<Rightarrow> string \<Rightarrow> string \<Rightarrow> noise_row list \<Rightarrow> noise_row list" where
  "db_record uid now k ck rows =
     (if list_ex (own_key uid k) rows
      then map (\<lambda>r. if own_key uid k r then r\<lparr>nr_routeType := ck, nr_lastSentAt := now, nr_expiresAt := now + EXPIRY_MS\<rparr> else r) rows
      else rows @ [\<lparr>nr_userId = uid, nr_dedupKey = k, nr_routeType = ck, nr_lastSentAt = now, nr_expiresAt = now + EXPIRY_MS\<rparr>])"

definition DbNoiseState :: "(noise_row list \<Rightarrow> noise_row) \<Rightarrow> string \<Rightarrow> noise_row list noise_ops" where
  "DbNoiseState pick uid = \<lparr>no_hasSeen = db_hasSeen uid, no_inCooldown = db_inCooldown pick uid, no_record = db_record uid\<rparr>"

definition purgeExpired :: "ms \<Rightarrow> noise_row list \<Rightarrow> noise_row list \<times> nat" where
  "purgeExpired now rows =
     (filter (\<lambda>r. \<not> nr_expiresAt r < now) rows, length (filter (\<lambda>r. nr_expiresAt r < now) rows))"

subsection \<open>Settings\<close>

text \<open>What the settings hold of a configuration: fields that are absent take the default.\<close>

record noise_patch =
  np_dedupTtlSeconds :: "nat option"
  np_cooldownSeconds :: "nat option"
  np_quietHours :: "(string \<times> string) option option"
  np_timezone :: "string option"
  np_minSeverity :: "severity option"
  np_minSeverityDuringQuietHours :: "severity option"
  np_dailyDigestMode :: "bool option"

definition override :: "'a \<Rightarrow> 'a option \<Rightarrow> 'a" where
  "override a v = (case v of None \<Rightarrow> a | Some b \<Rightarrow> b)"

definition merge_noise :: "noise_config \<Rightarrow> noise_patch \<Rightarrow> noise_config" where
  "merge_noise c p = \<lparr>nc_dedupTtlSeconds = override (nc_dedupTtlSeconds c) (np_dedupTtlSeconds p),
     nc_cooldownSeconds = override (nc_cooldownSeconds c) (np_cooldownSeconds p),
     nc_quietHours = override (nc_quietHours c) (np_quietHours p), nc_timezone = override (nc_timezone c) (np_timezone p),
     nc_minSeverity = override (nc_minSeverity c) (np_minSeverity p),
     nc_minSeverityDuringQuietHours = override (nc_minSeverityDuringQuietHours c) (np_minSeverityDuringQuietHours p),
     nc_dailyDigestMode = override (nc_dailyDigestMode c) (np_dailyDigestMode p)\<rparr>"

definition stored_noise :: "noise_config \<Rightarrow> noise_patch" where
  "stored_noise c = \<lparr>np_dedupTtlSeconds = Some (nc_dedupTtlSeconds c), np_cooldownSeconds = Some (nc_cooldownSeconds c),
     np_quietHours = Some (nc_quietHours c), np_timezone = Some (nc_timezone c), np_minSeverity = Some (nc_minSeverity c),
     np_minSeverityDuringQuietHours = Some (nc_minSeverityDuringQuietHours c), np_dailyDigestMode = Some (nc_dailyDigestMode c)\<rparr>"

type_synonym route_config = "route_type \<Rightarrow> noise_channel list"
type_synonym route_patch = "route_type \<Rightarrow> noise_channel list option"

definition merge_routes :: "route_config \<Rightarrow> route_patch \<Rightarrow> route_config" where
  "merge_routes c p = (\<lambda>r. override (c r) (p r))"

text \<open>The column \<open>notificationPreferences\<close>; \<open>pf_other\<close> stands for its other fields.\<close>

record 'x noise_prefs =
  pf_noise :: "noise_patch option"
  pf_routes :: "route_patch option"
  pf_other :: "'x option"

type_synonym 'x pref_table = "string \<Rightarrow> 'x noise_prefs option"

definition no_prefs :: "'x noise_prefs" where
  "no_prefs = \<lparr>pf_noise = None, pf_routes = None, pf_other = None\<rparr>"

definition prefs_of :: "string \<Rightarrow> 'x pref_table \<Rightarrow> 'x noise_prefs" where
  "prefs_of uid s = override no_prefs (s uid)"

definition getNoiseConfig :: "string \<Rightarrow> 'x pref_table \<Rightarrow> noise_config" where
  "getNoiseConfig uid s = (case pf_noise (prefs_of uid s) of None \<Rightarrow> DEFAULT_NOISE_CONFIG | Some p \<Rightarrow> merge_noise DEFAULT_NOISE_CONFIG p)"

definition getRouteConfig :: "string \<Rightarrow> 'x pref_table \<Rightarrow> route_config" where
  "getRouteConfig uid s = (case pf_routes (prefs_of uid s) of None \<Rightarrow> DEFAULT_ROUTE_CONFIG | Some p \<Rightarrow> merge_routes DEFAULT_ROUTE_CONFIG p)"

text \<open>Saving reads the settings twice and then writes the whole column.\<close>

definition write_noise :: "string \<Rightarrow> noise_config \<Rightarrow> 'x noise_prefs \<Rightarrow> 'x pref_table \<Rightarrow> 'x pref_table" where
  "write_noise uid merged existing s = s(uid \<mapsto> existing\<lparr>pf_noise := Some (stored_noise merged)\<rparr>)"

definition write_routes :: "string \<Rightarrow> route_config \<Rightarrow> 'x noise_prefs \<Rightarrow> 'x pref_table \<Rightarrow> 'x pref_table" where
  "write_routes uid merged existing s = s(uid \<mapsto> existing\<lparr>pf_routes := Some (\<lambda>r. Some (merged r))\<rparr>)"

definition saveNoiseConfig :: "string \<Rightarrow> noise_patch \<Rightarrow> 'x pref_table \<Rightarrow> 'x pref_table \<times> noise_config" where
  "saveNoiseConfig uid p s =
     (let merged = merge_noise (getNoiseConfig uid s) p in (write_noise uid merged (prefs_of uid s) s, merged))"

definition saveRouteConfig :: "string \<Rightarrow> route_patch \<Rightarrow> 'x pref_table \<Rightarrow> 'x pref_table \<times> route_config" where
  "saveRouteConfig uid p s =
     (let merged = merge_routes (getRouteConfig uid s) p in (write_routes uid merged (prefs_of uid s) s, merged))"

section \<open>The hash of a message\<close>

lemma fnv_prime_inverse: "(16777619 * 899433627 :: 32 word) = 1"
  by simp

lemma times_prime_inj: "(a :: 32 word) * 16777619 = b * 16777619 \<longleftrightarrow> a = b"
proof
  assume "a * 16777619 = b * 16777619"
  then have "a * 16777619 * 899433627 = b * 16777619 * 899433627" by simp
  then show "a = b" unfolding mult.assoc fnv_prime_inverse by simp
qed simp

lemma xor_inj: "(a :: 32 word) XOR c = b XOR c \<longleftrightarrow> a = b" "(c :: 32 word) XOR a = c XOR b \<longleftrightarrow> a = b"
  by (metis xor.assoc xor.commute xor_self_eq xor.right_neutral)+

lemma char_word_inj: "(word_of_nat (of_char c) :: 32 word) = word_of_nat (of_char d) \<longleftrightarrow> c = d"
proof -
  have "(of_char x :: nat) < 256" for x
    by (rule nat_of_char_less_256)
  then have "unat (word_of_nat (of_char x) :: 32 word) = of_char x" for x
    by (simp add: unat_of_nat take_bit_eq_mod) (rule mod_less, rule order.strict_trans[OF nat_of_char_less_256], simp)
  then show ?thesis
    by (metis of_char_eq_iff)
qed

lemma fnv_step_inj: "fnv_step h c = fnv_step h' c \<longleftrightarrow> h = h'" "fnv_step h c = fnv_step h d \<longleftrightarrow> c = d"
  by (simp_all add: fnv_step_def times_prime_inj xor_inj char_word_inj)

lemma fold_fnv_inj: "foldl fnv_step h s = foldl fnv_step h' s \<longleftrightarrow> h = h'"
  by (induction s arbitrary: h h') (simp_all add: fnv_step_inj)

definition unbase16 :: "string \<Rightarrow> nat" where
  "unbase16 s = foldl (\<lambda>a c. 16 * a + (case hex_digit c of None \<Rightarrow> 0 | Some d \<Rightarrow> d)) 0 s"

lemma unbase16_base16: "unbase16 (base16 n) = n"
proof (induction n rule: base16.induct)
  case (1 n)
  show ?case
    using 1 by (subst base16.simps) (auto simp: unbase16_def)
qed

lemma hashContent_not_Nil: "hashContent x r \<noteq> []"
  unfolding hashContent_def by (subst base16.simps) simp

lemma hashContent_eq:
  "hashContent x r = hashContent y r' \<longleftrightarrow> fnv1a (route_name r @ CHR '':'' # x) = fnv1a (route_name r' @ CHR '':'' # y)"
  unfolding hashContent_def by (metis unbase16_base16 word_unat_eq_iff)

section \<open>The interface of the store\<close>

text \<open>
  \<open>mark s k\<close> is when the key was last recorded, and a mark of time \<open>t\<close> is \<open>live\<close> at \<open>now\<close> while it suppresses
  repeats. A lookup changes nothing but marks that it finds dead.
\<close>

definition kept :: "(ms \<Rightarrow> ms \<Rightarrow> bool) \<Rightarrow> ms \<Rightarrow> ms option \<Rightarrow> ms option \<Rightarrow> bool" where
  "kept live now old cur \<longleftrightarrow> cur = old \<or> (\<exists>t. old = Some t \<and> \<not> live now t)"

definition guarded_by :: "(ms \<Rightarrow> ms \<Rightarrow> bool) \<Rightarrow> ms \<Rightarrow> ms \<Rightarrow> ms option \<Rightarrow> bool" where
  "guarded_by live now t m \<longleftrightarrow> (\<forall>n \<ge> now. live n t \<longrightarrow> (\<exists>t'. m = Some t' \<and> t \<le> t'))"

lemma guarded_kept:
  assumes "guarded_by live now t old" "kept live n old cur" "now \<le> n"
    and mono: "\<And>a b x y. live b x \<Longrightarrow> a \<le> b \<Longrightarrow> x \<le> y \<Longrightarrow> live a y"
  shows "guarded_by live n t cur"
  unfolding guarded_by_def
proof (intro allI impI)
  fix m assume m: "n \<le> m" "live m t"
  moreover have "now \<le> m" using m(1) assms(3) by simp
  ultimately obtain t' where t': "old = Some t'" "t \<le> t'"
    using assms(1) unfolding guarded_by_def by blast
  then have "live n t'" using mono m by blast
  then show "\<exists>t'. cur = Some t' \<and> t \<le> t'"
    using assms(2) t' by (auto simp: kept_def)
qed

lemma guarded_refl: "kept live now m m" "guarded_by live now t (Some t)" "t \<le> n \<Longrightarrow> guarded_by live now t (Some n)"
  by (simp_all add: kept_def guarded_by_def)

locale noise_store =
  fixes ops :: "'s noise_ops" and mark :: "'s \<Rightarrow> string \<Rightarrow> ms option" and live :: "nat \<Rightarrow> ms \<Rightarrow> ms \<Rightarrow> bool"
  assumes seen_iff: "snd (no_hasSeen ops now k ttl s) \<longleftrightarrow> (\<exists>t. mark s k = Some t \<and> live ttl now t)"
    and seen_keeps: "kept (live ttl) now (mark s j) (mark (fst (no_hasSeen ops now k ttl s)) j)"
    and cooldown_keeps: "mark (fst (no_inCooldown ops now ck cd s)) = mark s"
    and recorded: "mark (no_record ops now k ck s) = (mark s)(k \<mapsto> now)"
    and live_mono: "live ttl b x \<Longrightarrow> a \<le> b \<Longrightarrow> x \<le> y \<Longrightarrow> live ttl a y"

text \<open>A run of the same user's messages, each with its time, under one configuration.\<close>

type_synonym message = "ms \<times> string \<times> route_type \<times> severity"

fun noise_run :: "'s noise_ops \<Rightarrow> (ms \<Rightarrow> string \<Rightarrow> nat \<times> nat) \<Rightarrow> noise_config \<Rightarrow> message list \<Rightarrow> 's \<Rightarrow> 's \<times> noise_decision list" where
  "noise_run ops clock cfg [] s = (s, [])"
| "noise_run ops clock cfg ((now, content, rt, sev) # ms) s =
     (case evaluateNoise ops clock now content rt sev cfg s of
        (s1, d) \<Rightarrow> (case noise_run ops clock cfg ms s1 of (s2, ds) \<Rightarrow> (s2, d # ds)))"

text \<open>Times do not decrease along a run.\<close>

fun from_time :: "ms \<Rightarrow> message list \<Rightarrow> bool" where
  "from_time t [] \<longleftrightarrow> True"
| "from_time t (m # ms) \<longleftrightarrow> t \<le> fst m \<and> from_time (fst m) ms"

text \<open>The times of the messages whose decision is selected by \<open>Q\<close>.\<close>

fun times_when :: "(message \<Rightarrow> noise_decision \<Rightarrow> bool) \<Rightarrow> message list \<Rightarrow> noise_decision list \<Rightarrow> ms list" where
  "times_when Q (m # ms) (d # ds) = (if Q m d then fst m # times_when Q ms ds else times_when Q ms ds)"
| "times_when Q _ _ = []"

definition sent_key :: "string \<Rightarrow> message \<Rightarrow> noise_decision \<Rightarrow> bool" where
  "sent_key k m d \<longleftrightarrow> nd_shouldSend d \<and> nd_dedupKey d = k"

definition sent_route :: "route_type \<Rightarrow> message \<Rightarrow> noise_decision \<Rightarrow> bool" where
  "sent_route rt m d \<longleftrightarrow> nd_shouldSend d \<and> fst (snd (snd m)) = rt"

text \<open>
  Whatever mark a selected message sets and needs dead beforehand, the selected messages of a run are
  apart: the mark of each guards its time until it is dead.
\<close>

lemma guarded_step:
  assumes "guarded_by L t0 t (mk s)" "t0 \<le> now" "t \<le> now"
    and "kept L now (mk s) (mk s') \<or> mk s' = Some (now :: ms)"
    and mono: "\<And>a b x y. L b x \<Longrightarrow> a \<le> b \<Longrightarrow> x \<le> y \<Longrightarrow> L a y"
  shows "guarded_by L now t (mk s')" and "\<not> (\<exists>t. mk s = Some t \<and> L now t) \<Longrightarrow> \<not> L now t"
proof -
  show "guarded_by L now t (mk s')"
    using assms(4) guarded_kept[OF assms(1) _ assms(2) mono] guarded_refl(3)[OF assms(3)] by auto
  assume free: "\<not> (\<exists>t. mk s = Some t \<and> L now t)"
  show "\<not> L now t"
  proof
    assume l: "L now t"
    then obtain t' where t': "mk s = Some t'" "t \<le> t'"
      using assms(1,2) unfolding guarded_by_def by blast
    then show False
      using mono[OF l order_refl] free by blast
  qed
qed

lemma run_apart:
  assumes sel: "\<And>now content rt sev s s' d. evaluateNoise ops clock now content rt sev cfg s = (s', d) \<Longrightarrow> Q (now, content, rt, sev) d
      \<Longrightarrow> mk s' = Some now \<and> \<not> (\<exists>t. mk s = Some t \<and> L now t)"
    and keep: "\<And>now content rt sev s s' d. evaluateNoise ops clock now content rt sev cfg s = (s', d)
      \<Longrightarrow> kept L now (mk s) (mk s') \<or> mk s' = Some now"
    and mono: "\<And>a b x y. L b x \<Longrightarrow> a \<le> b \<Longrightarrow> x \<le> y \<Longrightarrow> L a y"
    and run: "noise_run ops clock cfg ms s = (s', ds)" "from_time t0 ms"
  shows "sorted_wrt (\<lambda>t t'. \<not> L t' t) (times_when Q ms ds)"
proof -
  have guard: "\<not> L t' t" if "noise_run ops clock cfg ms s = (s', ds)" "from_time t0 ms" "t \<le> t0"
    "guarded_by L t0 t (mk s)" "t' \<in> set (times_when Q ms ds)" for ms s s' ds t0 t t'
    using that
  proof (induction ms arbitrary: s t0 s' ds)
    case (Cons m ms)
    obtain now content rt sev where m: "m = (now, content, rt, sev)" by (cases m) auto
    obtain s1 d where e: "evaluateNoise ops clock now content rt sev cfg s = (s1, d)" by fastforce
    obtain s2 ds' where r: "noise_run ops clock cfg ms s1 = (s2, ds')" by fastforce
    have ds: "ds = d # ds'" using Cons.prems(1) m e r by simp
    have now: "t0 \<le> now" "t \<le> now" "from_time now ms" using Cons.prems(2,3) m by simp_all
    note g = guarded_step[where L = L and mk = mk, OF Cons.prems(4) now(1,2) keep[OF e] mono]
    show ?case
      using Cons.IH[OF r now(3,2) g(1)] Cons.prems(5) g(2) sel[OF e] ds m by (auto split: if_splits)
  qed simp
  show ?thesis
    using run
  proof (induction ms arbitrary: s t0 s' ds)
    case (Cons m ms)
    obtain now content rt sev where m: "m = (now, content, rt, sev)" by (cases m) auto
    obtain s1 d where e: "evaluateNoise ops clock now content rt sev cfg s = (s1, d)" by fastforce
    obtain s2 ds' where r: "noise_run ops clock cfg ms s1 = (s2, ds')" by fastforce
    have ds: "ds = d # ds'" using Cons.prems(1) m e r by simp
    have now: "from_time now ms" using Cons.prems(2) m by simp
    have "\<not> L t' now" if "Q m d" "t' \<in> set (times_when Q ms ds')" for t'
      using guard[OF r now order_refl _ that(2)] sel[OF e] that(1) m guarded_refl(2) by simp
    then show ?case
      using Cons.IH[OF r now] ds m by simp
  qed simp
qed

context noise_store
begin

text \<open>What is sent had no live mark and has one now; nothing else changes but dead marks.\<close>

lemma evaluate_marks:
  assumes "evaluateNoise ops clock now content rt sev cfg s = (s', d)"
  shows "nd_dedupKey d = hashContent content rt"
    and "nd_shouldSend d \<Longrightarrow> mark s' (nd_dedupKey d) = Some now
      \<and> \<not> (\<exists>t. mark s (nd_dedupKey d) = Some t \<and> live (nc_dedupTtlSeconds cfg) now t)"
    and "kept (live (nc_dedupTtlSeconds cfg)) now (mark s j) (mark s' j) \<or> mark s' j = Some now"
    and "nd_reasonCode d = Duplicate
      \<longleftrightarrow> (\<exists>t. mark s (hashContent content rt) = Some t \<and> live (nc_dedupTtlSeconds cfg) now t)"
proof -
  let ?ttl = "nc_dedupTtlSeconds cfg" and ?k = "hashContent content rt"
  obtain s1 seen where h: "no_hasSeen ops now ?k ?ttl s = (s1, seen)" by fastforce
  obtain s2 cool where c: "no_inCooldown ops now (route_name rt) (nc_cooldownSeconds cfg) s1 = (s2, cool)" by fastforce
  have k1: "kept (live ?ttl) now (mark s j) (mark s1 j)" and s1: "seen \<longleftrightarrow> (\<exists>t. mark s ?k = Some t \<and> live ?ttl now t)"
    using seen_keeps[of ?ttl now s j ?k] seen_iff[of now ?k ?ttl s] h by simp_all
  have m2: "mark s2 = mark s1"
    using cooldown_keeps[of now "route_name rt" "nc_cooldownSeconds cfg" s1] c by simp
  note split = evaluateNoise_def Let_def h c suppressed_def recorded
  show "nd_dedupKey d = ?k"
    using assms by (auto simp: split split: if_splits)
  show "nd_shouldSend d \<Longrightarrow> mark s' (nd_dedupKey d) = Some now
      \<and> \<not> (\<exists>t. mark s (nd_dedupKey d) = Some t \<and> live ?ttl now t)"
    using assms s1 m2 by (auto simp: split split: if_splits)
  show "kept (live ?ttl) now (mark s j) (mark s' j) \<or> mark s' j = Some now"
    using assms k1 m2 by (auto simp: split split: if_splits)
  show "nd_reasonCode d = Duplicate \<longleftrightarrow> (\<exists>t. mark s ?k = Some t \<and> live ?ttl now t)"
    using assms s1 by (auto simp: split split: if_splits)
qed

lemma keys_apart:
  assumes "noise_run ops clock cfg ms s = (s', ds)" "from_time t0 ms"
  shows "sorted_wrt (\<lambda>t t'. \<not> live (nc_dedupTtlSeconds cfg) t' t) (times_when (sent_key k) ms ds)"
  by (rule run_apart[where mk = "\<lambda>s. mark s k" and L = "live (nc_dedupTtlSeconds cfg)", OF _ evaluate_marks(3) live_mono assms])
    (auto simp: sent_key_def dest: evaluate_marks(2))

end

text \<open>A store whose cooldowns are exact as well.\<close>

locale cooling_store = noise_store +
  fixes cmark :: "'a \<Rightarrow> string \<Rightarrow> ms option" and clive :: "nat \<Rightarrow> ms \<Rightarrow> ms \<Rightarrow> bool"
  assumes cool_iff: "snd (no_inCooldown ops now ck cd s) \<longleftrightarrow> (\<exists>t. cmark s ck = Some t \<and> clive cd now t)"
    and cool_keeps: "kept (clive cd) now (cmark s j) (cmark (fst (no_inCooldown ops now ck cd s)) j)"
    and seen_keeps_cool: "cmark (fst (no_hasSeen ops now k ttl s)) = cmark s"
    and cool_recorded: "cmark (no_record ops now k ck s) = (cmark s)(ck \<mapsto> now)"
    and clive_mono: "clive cd b x \<Longrightarrow> a \<le> b \<Longrightarrow> x \<le> y \<Longrightarrow> clive cd a y"

context cooling_store
begin

lemma evaluate_cools:
  assumes "evaluateNoise ops clock now content rt sev cfg s = (s', d)" "nc_cooldownSeconds cfg > 0"
  shows "nd_shouldSend d \<Longrightarrow> cmark s' (route_name rt) = Some now
      \<and> \<not> (\<exists>t. cmark s (route_name rt) = Some t \<and> clive (nc_cooldownSeconds cfg) now t)"
    and "kept (clive (nc_cooldownSeconds cfg)) now (cmark s j) (cmark s' j) \<or> cmark s' j = Some now"
proof -
  let ?cd = "nc_cooldownSeconds cfg" and ?k = "hashContent content rt"
  obtain s1 seen where h: "no_hasSeen ops now ?k (nc_dedupTtlSeconds cfg) s = (s1, seen)" by fastforce
  obtain s2 cool where c: "no_inCooldown ops now (route_name rt) ?cd s1 = (s2, cool)" by fastforce
  have m1: "cmark s1 = cmark s"
    using seen_keeps_cool[of now ?k "nc_dedupTtlSeconds cfg" s] h by simp
  then have k2: "kept (clive ?cd) now (cmark s j) (cmark s2 j)"
    and s2: "cool \<longleftrightarrow> (\<exists>t. cmark s (route_name rt) = Some t \<and> clive ?cd now t)"
    using cool_keeps[of ?cd now s1 j "route_name rt"] cool_iff[of now "route_name rt" ?cd s1] c by simp_all
  note split = evaluateNoise_def Let_def h c suppressed_def cool_recorded
  show "nd_shouldSend d \<Longrightarrow> cmark s' (route_name rt) = Some now
      \<and> \<not> (\<exists>t. cmark s (route_name rt) = Some t \<and> clive ?cd now t)"
    using assms s2 by (auto simp: split split: if_splits)
  show "kept (clive ?cd) now (cmark s j) (cmark s' j) \<or> cmark s' j = Some now"
    using assms k2 m1 by (auto simp: split guarded_refl(1) split: if_splits)
qed

lemma routes_apart:
  assumes "noise_run ops clock cfg ms s = (s', ds)" "from_time t0 ms" "nc_cooldownSeconds cfg > 0"
  shows "sorted_wrt (\<lambda>t t'. \<not> clive (nc_cooldownSeconds cfg) t' t) (times_when (sent_route rt) ms ds)"
  by (rule run_apart[where mk = "\<lambda>s. cmark s (route_name rt)" and L = "clive (nc_cooldownSeconds cfg)",
        OF _ evaluate_cools(2)[OF _ assms(3)] clive_mono assms(1,2)])
    (auto simp: sent_route_def dest: evaluate_cools(1)[OF _ assms(3)])

end

subsection \<open>The two stores\<close>

interpretation memory_store: cooling_store InMemoryNoiseState "\<lambda>s. js_get (mn_seen s)" "\<lambda>ttl now t. now - t \<le> int ttl * 1000"
  "\<lambda>s. js_get (mn_cooldowns s)" "\<lambda>cd now t. now - t \<le> int cd * 1000"
  by unfold_locales
    (auto simp: InMemoryNoiseState_def memory_hasSeen_def memory_inCooldown_def memory_record_def kept_def map_laws
      split: option.splits)

definition db_mark :: "string \<Rightarrow> noise_row list \<Rightarrow> string \<Rightarrow> ms option" where
  "db_mark uid rows k = map_option (\<lambda>r. nr_expiresAt r - EXPIRY_MS) (List.find (own_key uid k) rows)"

lemma find_upsert:
  "List.find (own_key uid j) (db_record uid now k ck rows)
     = (if j = k then Some (case List.find (own_key uid k) rows of
            None \<Rightarrow> \<lparr>nr_userId = uid, nr_dedupKey = k, nr_routeType = ck, nr_lastSentAt = now, nr_expiresAt = now + EXPIRY_MS\<rparr>
          | Some r \<Rightarrow> r\<lparr>nr_routeType := ck, nr_lastSentAt := now, nr_expiresAt := now + EXPIRY_MS\<rparr>)
        else List.find (own_key uid j) rows)"
proof -
  have upd: "List.find (own_key uid j) (map (\<lambda>r. if own_key uid k r then f r else r) rows)
      = (if j = k then map_option f (List.find (own_key uid k) rows) else List.find (own_key uid j) rows)"
    if "\<And>r i. own_key uid i (f r) = own_key uid i r" for f
    using that by (induction rows) (auto simp: own_key_def)
  have app: "List.find (own_key uid j) (rows @ [r])
      = (case List.find (own_key uid j) rows of None \<Rightarrow> if own_key uid j r then Some r else None | Some x \<Rightarrow> Some x)" for r
    by (induction rows) auto
  show ?thesis
  proof (cases "list_ex (own_key uid k) rows")
    case True
    let ?f = "\<lambda>r. r\<lparr>nr_routeType := ck, nr_lastSentAt := now, nr_expiresAt := now + EXPIRY_MS\<rparr>"
    have "List.find (own_key uid k) rows \<noteq> None"
      using True by (auto simp: find_None_iff list_ex_iff)
    moreover have "db_record uid now k ck rows = map (\<lambda>r. if own_key uid k r then ?f r else r) rows"
      using True by (simp add: db_record_def)
    moreover have "own_key uid i (?f r) = own_key uid i r" for r i
      by (simp add: own_key_def)
    ultimately show ?thesis
      using upd[of ?f] by auto
  next
    case False
    then have "List.find (own_key uid k) rows = None"
      by (auto simp: find_None_iff list_ex_iff)
    then show ?thesis
      using False by (auto simp: db_record_def app own_key_def split: option.splits)
  qed
qed

interpretation db_store: noise_store "DbNoiseState pick uid" "db_mark uid" "\<lambda>ttl now t. now < t + EXPIRY_MS" for pick uid
  by unfold_locales
    (auto simp: DbNoiseState_def db_hasSeen_def db_inCooldown_def Let_def db_mark_def find_upsert kept_def fun_eq_iff
      split: option.splits)

section \<open>What a user gets to see\<close>

text \<open>
  With the store in memory a text is not sent twice for a route within the configured time, nor two
  messages of a route within the cooldown, whatever else is sent in between.
\<close>

theorem memory_repeats_apart:
  assumes "noise_run InMemoryNoiseState clock cfg ms s = (s', ds)" "from_time t0 ms"
  shows "sorted_wrt (\<lambda>t t'. t' - t > int (nc_dedupTtlSeconds cfg) * 1000) (times_when (sent_key k) ms ds)
    \<and> (nc_cooldownSeconds cfg = 0
      \<or> sorted_wrt (\<lambda>t t'. t' - t > int (nc_cooldownSeconds cfg) * 1000) (times_when (sent_route rt) ms ds))"
  using memory_store.keys_apart[OF assms, of k] memory_store.routes_apart[OF assms, of rt] by (auto simp: not_le)

text \<open>
  With the store in the database the configured time does not matter: a text is not sent twice for a
  route within a day, and a repeat within a day of a message that was sent is a duplicate under any configuration.
\<close>

theorem db_repeats_a_day_apart:
  assumes "noise_run (DbNoiseState pick uid) clock cfg ms s = (s', ds)" "from_time t0 ms"
    and "evaluateNoise (DbNoiseState pick uid) clock now content rt sev cfg r = (r', d)" "nd_shouldSend d"
    and "t < now + EXPIRY_MS"
  shows "sorted_wrt (\<lambda>t t'. t' - t \<ge> EXPIRY_MS) (times_when (sent_key k) ms ds)
    \<and> nd_reasonCode (snd (evaluateNoise (DbNoiseState pick uid) clock t content rt sev' cfg' r')) = Duplicate"
proof -
  obtain r2 d2 where e: "evaluateNoise (DbNoiseState pick uid) clock t content rt sev' cfg' r' = (r2, d2)" by fastforce
  have "db_mark uid r' (hashContent content rt) = Some now"
    using db_store.evaluate_marks(1,2)[OF assms(3)] assms(4) by simp
  then have "nd_reasonCode d2 = Duplicate"
    using db_store.evaluate_marks(4)[OF e] assms(5) by simp
  then show ?thesis
    using db_store.keys_apart[OF assms(1,2), of k] e by (simp add: not_less algebra_simps)
qed

text \<open>
  The database store judges the cooldown by any row of the route: when an older one is found first,
  a message goes out although another was sent a moment before.
\<close>

theorem cooldown_missed:
  assumes "old \<in> set rows" "nr_userId old = uid" "nr_routeType old = route_name rt" "nr_lastSentAt old \<le> now - int (nc_cooldownSeconds cfg) * 1000"
    and "\<And>hits. old \<in> set hits \<Longrightarrow> pick hits = old" "nr_dedupKey old \<noteq> hashContent a rt"
    and "db_mark uid rows (hashContent a rt) = None" "db_mark uid rows (hashContent b rt) = None" "hashContent a rt \<noteq> hashContent b rt"
    and "nc_quietHours cfg = None" "severityRank (nc_minSeverity cfg) \<le> severityRank sev"
  shows "map nd_shouldSend (snd (noise_run (DbNoiseState pick uid) clock cfg [(now, a, rt, sev), (now, b, rt, sev)] rows)) = [True, True]"
proof -
  let ?ops = "DbNoiseState pick uid" and ?rows' = "db_record uid now (hashContent a rt) (route_name rt) rows"
  have sent: "evaluateNoise ?ops clock now c rt sev cfg rs = (db_record uid now (hashContent c rt) (route_name rt) rs,
      \<lparr>nd_shouldSend = True, nd_reasonCode = Allowed, nd_dedupKey = hashContent c rt, nd_cooldownKey = Some (route_name rt)\<rparr>)"
    if "old \<in> set rs" "db_mark uid rs (hashContent c rt) = None" for c rs
  proof -
    have "pick (filter (\<lambda>r. nr_userId r = uid \<and> nr_routeType r = route_name rt) rs) = old"
      using that(1) assms(2,3) by (intro assms(5)) simp
    then show ?thesis
      using that(2) assms(4,10,11)
      by (auto simp: evaluateNoise_def DbNoiseState_def db_hasSeen_def db_inCooldown_def Let_def db_mark_def isQuietHours_def)
  qed
  have "old \<in> set ?rows'"
    using assms(1,6) by (auto simp: db_record_def own_key_def image_iff intro!: bexI[of _ old])
  moreover have "db_mark uid ?rows' (hashContent b rt) = None"
    using assms(8,9) by (simp add: db_mark_def find_upsert)
  ultimately show ?thesis
    using sent[OF assms(1,7)] sent by simp
qed

text \<open>
  Quiet hours are the half-open interval of the clock from start to end, over midnight if need be; where
  the formatter writes midnight as hour 24, a range within one day is not quiet in the hour after midnight.
\<close>

theorem quiet_hours_cyclic:
  assumes "minutes_of a < 1440" "minutes_of b < 1440" "h < 24" "m < 60"
  shows "(isQuietHours (Some (a, b)) (h, m)
      \<longleftrightarrow> (int (h * 60 + m) - int (minutes_of a)) mod 1440 < (int (minutes_of b) - int (minutes_of a)) mod 1440)
    \<and> (isQuietHours (Some (a, b)) (24, m) \<longleftrightarrow> minutes_of b < minutes_of a)"
proof (rule conjI)
  have "h * 60 + m < 1440" using assms(3,4) by linarith
  then have cur: "int (h * 60 + m) < 1440" by linarith
  have wrap: "(x - y) mod 1440 = (if y \<le> x then x - y else x - y + 1440)" if "0 \<le> x" "x < 1440" "0 \<le> y" "y < (1440 :: int)" for x y
    using that mod_pos_pos_trivial[of "x - y" 1440] mod_pos_pos_trivial[of "x - y + 1440" 1440] mod_add_self2[of "x - y" 1440]
    by (auto simp del: mod_add_self2)
  show "isQuietHours (Some (a, b)) (h, m)
      \<longleftrightarrow> (int (h * 60 + m) - int (minutes_of a)) mod 1440 < (int (minutes_of b) - int (minutes_of a)) mod 1440"
    using wrap[of "int (h * 60 + m)" "int (minutes_of a)"] wrap[of "int (minutes_of b)" "int (minutes_of a)"] cur assms(1,2)
    by (auto simp: isQuietHours_def Let_def)
  show "isQuietHours (Some (a, b)) (24, m) \<longleftrightarrow> minutes_of b < minutes_of a"
    using assms(1,2) by (auto simp: isQuietHours_def Let_def)
qed

text \<open>A critical message is withheld only as a duplicate or in a cooldown.\<close>

theorem critical_passes:
  "nd_reasonCode (snd (evaluateNoise ops clock now content rt Sev_Critical cfg s)) \<notin> {Quiet_Hours, Below_Min_Severity}"
proof -
  have "severityRank x \<le> severityRank Sev_Critical" for x by (cases x) simp_all
  then have "\<not> severityRank Sev_Critical < severityRank x" for x by (simp add: not_less)
  then show ?thesis
    by (auto simp: evaluateNoise_def Let_def suppressed_def split: prod.splits)
qed

text \<open>Texts that differ in a single character never count as the same.\<close>

theorem one_character_apart: "hashContent (xs @ c # ys) rt = hashContent (xs @ d # ys) rt \<longleftrightarrow> c = d"
  unfolding hashContent_eq by (simp add: fnv1a_def fold_fnv_inj fnv_step_inj)

lemma merge_stored: "merge_noise c (stored_noise d) = d"
  by (simp add: merge_noise_def stored_noise_def override_def)

text \<open>
  A saved configuration is what was configured before with the given fields replaced, is what is read
  afterwards, and leaves the routes and everybody else alone. Two saves that read before either
  writes keep only the later one's part.
\<close>

theorem saved_settings_read_back:
  "(case saveNoiseConfig uid p s of (s', c) \<Rightarrow> c = merge_noise (getNoiseConfig uid s) p \<and> getNoiseConfig uid s' = c
     \<and> getRouteConfig uid s' = getRouteConfig uid s \<and> pf_other (prefs_of uid s') = pf_other (prefs_of uid s))
   \<and> (u = uid \<or> fst (saveNoiseConfig uid p s) u = s u)
   \<and> getNoiseConfig uid (write_routes uid rs (prefs_of uid s) (fst (saveNoiseConfig uid p s))) = getNoiseConfig uid s"
  by (simp add: saveNoiseConfig_def Let_def write_noise_def write_routes_def getNoiseConfig_def getRouteConfig_def prefs_of_def
      override_def merge_stored[unfolded override_def])

section \<open>Concrete runs\<close>

definition sample_messages :: "message list" where
  "sample_messages = [(0, ''gold up'', Rt_Alert, Sev_Info), (1000, ''gold up'', Rt_Alert, Sev_Info), (70000, ''gold up'', Rt_Alert, Sev_Info),
     (400000, ''gold up'', Rt_Alert, Sev_Info)]"

theorem memory_repeats_apart_witness:
  "times_when (sent_key (hashContent ''gold up'' Rt_Alert)) sample_messages
     (snd (noise_run InMemoryNoiseState (\<lambda>_ _. (0, 0)) DEFAULT_NOISE_CONFIG sample_messages \<lparr>mn_seen = [], mn_cooldowns = []\<rparr>)) = [0, 400000]
   \<and> sorted_wrt (\<lambda>t t'. t' - t > 300000) (times_when (sent_key (hashContent ''gold up'' Rt_Alert)) sample_messages
     (snd (noise_run InMemoryNoiseState (\<lambda>_ _. (0, 0)) DEFAULT_NOISE_CONFIG sample_messages \<lparr>mn_seen = [], mn_cooldowns = []\<rparr>)))"
proof -
  obtain s' ds where r: "noise_run InMemoryNoiseState (\<lambda>_ _. (0, 0)) DEFAULT_NOISE_CONFIG sample_messages \<lparr>mn_seen = [], mn_cooldowns = []\<rparr> = (s', ds)"
    by fastforce
  have "from_time 0 sample_messages" by (simp add: sample_messages_def)
  moreover have "times_when (sent_key (hashContent ''gold up'' Rt_Alert)) sample_messages
     (snd (noise_run InMemoryNoiseState (\<lambda>_ _. (0, 0)) DEFAULT_NOISE_CONFIG sample_messages \<lparr>mn_seen = [], mn_cooldowns = []\<rparr>)) = [0, 400000]"
    by (simp add: sample_messages_def evaluateNoise_def InMemoryNoiseState_def memory_hasSeen_def memory_inCooldown_def
        memory_record_def Let_def DEFAULT_NOISE_CONFIG_def isQuietHours_def sent_key_def suppressed_def map_laws)
  ultimately show ?thesis
    using memory_repeats_apart[OF r, of 0] r by (simp add: DEFAULT_NOISE_CONFIG_def)
qed

theorem db_repeats_a_day_apart_witness:
  "nd_reasonCode (snd (evaluateNoise (DbNoiseState hd ''u1'') (\<lambda>_ _. (0, 0)) 80000000 ''gold up'' Rt_Alert Sev_Critical
     (DEFAULT_NOISE_CONFIG\<lparr>nc_dedupTtlSeconds := 0\<rparr>)
     (fst (evaluateNoise (DbNoiseState hd ''u1'') (\<lambda>_ _. (0, 0)) 0 ''gold up'' Rt_Alert Sev_Info DEFAULT_NOISE_CONFIG [])))) = Duplicate"
proof -
  let ?clock = "\<lambda>_ _. (0, 0)"
  obtain r' d where e: "evaluateNoise (DbNoiseState hd ''u1'') ?clock 0 ''gold up'' Rt_Alert Sev_Info DEFAULT_NOISE_CONFIG [] = (r', d)"
    by fastforce
  have "nd_shouldSend d"
    using e by (auto simp: evaluateNoise_def DbNoiseState_def db_hasSeen_def db_inCooldown_def DEFAULT_NOISE_CONFIG_def
        isQuietHours_def Let_def)
  then show ?thesis
    using db_repeats_a_day_apart[where ms = "[]" and s = "[]", OF _ _ e, of "[]" "[]" 0 80000000] e
    by (simp add: EXPIRY_MS_def)
qed

definition old_alert :: noise_row where
  "old_alert = \<lparr>nr_userId = ''u1'', nr_dedupKey = '''', nr_routeType = ''alert'', nr_lastSentAt = 0, nr_expiresAt = EXPIRY_MS\<rparr>"

theorem cooldown_missed_witness:
  "map nd_shouldSend (snd (noise_run (DbNoiseState (\<lambda>rs. if old_alert \<in> set rs then old_alert else hd rs) ''u1'') (\<lambda>_ _. (0, 0)) DEFAULT_NOISE_CONFIG
     [(3600000, ''gold up'', Rt_Alert, Sev_Info), (3600000, ''gold uq'', Rt_Alert, Sev_Info)] [old_alert])) = [True, True]"
proof (rule cooldown_missed[where old = old_alert])
  show "nr_dedupKey old_alert \<noteq> hashContent ''gold up'' Rt_Alert" "hashContent ''gold up'' Rt_Alert \<noteq> hashContent ''gold uq'' Rt_Alert"
    "db_mark ''u1'' [old_alert] (hashContent ''gold up'' Rt_Alert) = None" "db_mark ''u1'' [old_alert] (hashContent ''gold uq'' Rt_Alert) = None"
    by (simp_all add: old_alert_def db_mark_def own_key_def hashContent_not_Nil hashContent_not_Nil[symmetric]
        hashContent_eq fnv1a_def fnv_step_inj)
qed (simp_all add: old_alert_def DEFAULT_NOISE_CONFIG_def)

theorem quiet_hours_cyclic_witness:
  "isQuietHours (Some (''22:00'', ''07:00'')) (23, 30) \<and> \<not> isQuietHours (Some (''00:00'', ''06:00'')) (24, 30)"
proof -
  have "minutes_of ''22:00'' = 1320" "minutes_of ''07:00'' = 420" "minutes_of ''00:00'' = 0" "minutes_of ''06:00'' = 360"
    by code_simp+
  then show ?thesis
    using quiet_hours_cyclic[of "''22:00''" "''07:00''" 23 30] quiet_hours_cyclic[of "''00:00''" "''06:00''" 23 30] by simp
qed

end
