(* ===== verification/Model_Catalog.thy ===== *)
theory Model_Catalog
  imports Budget_Alerts
begin

text \<open>
  The catalogue of language models (\<open>packages/ai/src/_providers\<close>): every provider with its models,
  their prices and the defaults per domain, the check that a provider passes when the module is loaded, and
  the two ways to a price (\<open>lookupModelRate\<close>, \<open>buildCatalogRateTable\<close>). Labels, links and the factories of
  the clients are left out.
\<close>

section \<open>types.ts\<close>

datatype model_tier = T_Flagship | T_Pro | T_Fast | T_Lite | T_Embedding
datatype model_domain = D_Fundamental | D_Technical | D_Summary | D_Vision | D_Embedding

text \<open>\<open>mo_vision\<close> is the flag of the model's capabilities, if it is given.\<close>

record model_spec =
  mo_modelId :: string
  mo_tier :: model_tier
  mo_input :: "real option"
  mo_output :: "real option"
  mo_context :: "nat option"
  mo_vision :: "bool option"

record provider_spec =
  ps_id :: string
  ps_default :: "model_domain \<Rightarrow> string option"
  ps_vision :: bool
  ps_embedding :: bool
  ps_models :: "model_spec list"

definition model :: "string \<Rightarrow> model_tier \<Rightarrow> real option \<Rightarrow> real option \<Rightarrow> nat option \<Rightarrow> bool option \<Rightarrow> model_spec" where
  "model i t inp outp ctxt v = \<lparr>mo_modelId = i, mo_tier = t, mo_input = inp, mo_output = outp, mo_context = ctxt, mo_vision = v\<rparr>"

definition provider :: "string \<Rightarrow> string \<times> string \<times> string \<Rightarrow> string option \<Rightarrow> string option \<Rightarrow> bool \<Rightarrow> bool \<Rightarrow> model_spec list \<Rightarrow> provider_spec" where
  "provider i texts v e sv se ms = (case texts of (f, t, s) \<Rightarrow>
     \<lparr>ps_id = i, ps_default = (\<lambda>d. case d of D_Fundamental \<Rightarrow> Some f | D_Technical \<Rightarrow> Some t | D_Summary \<Rightarrow> Some s
        | D_Vision \<Rightarrow> v | D_Embedding \<Rightarrow> e), ps_vision = sv, ps_embedding = se, ps_models = ms\<rparr>)"

section \<open>The providers\<close>

definition GOOGLE :: provider_spec where
  "GOOGLE = provider ''google'' (''gemini-3.5-flash'', ''gemini-3.5-flash-lite'', ''gemini-3.5-flash-lite'') (Some ''gemini-3.5-flash'') (Some ''gemini-embedding-001'') True True
    [model ''gemini-3.6-flash'' T_Flagship (Some 0.75) (Some 3.75) (Some 1000000) (Some True),
     model ''gemini-3.5-flash'' T_Flagship (Some 1.50) (Some 9.00) (Some 1000000) (Some True),
     model ''gemini-3.5-flash-lite'' T_Lite (Some 0.30) (Some 2.50) (Some 1000000) (Some True),
     model ''gemini-3.1-flash-lite'' T_Lite (Some 0.10) (Some 0.40) (Some 1000000) (Some True),
     model ''gemini-2.5-pro'' T_Flagship (Some 1.25) (Some 10) (Some 1000000) (Some True),
     model ''gemini-2.5-flash'' T_Pro (Some 0.30) (Some 2.50) (Some 1000000) (Some True),
     model ''gemini-2.5-flash-lite'' T_Lite (Some 0.10) (Some 0.40) (Some 1000000) (Some True),
     model ''gemini-embedding-2'' T_Embedding (Some 0.025) None (Some 8192) None,
     model ''gemini-embedding-001'' T_Embedding (Some 0.025) None (Some 2048) None,
     model ''text-embedding-004'' T_Embedding (Some 0.025) None (Some 2048) None]"

definition VERTEX :: provider_spec where
  "VERTEX = provider ''vertex'' (''gemini-2.5-pro'', ''gemini-2.5-flash'', ''gemini-2.5-flash-lite'') (Some ''gemini-2.5-pro'') (Some ''text-embedding-005'') True True
    [model ''gemini-3.5-flash'' T_Flagship (Some 0.30) (Some 2.50) (Some 1000000) (Some True),
     model ''gemini-2.5-pro'' T_Flagship (Some 1.25) (Some 10) (Some 1000000) (Some True),
     model ''gemini-2.5-flash'' T_Pro (Some 0.30) (Some 2.50) (Some 1000000) (Some True),
     model ''gemini-2.5-flash-lite'' T_Lite (Some 0.10) (Some 0.40) (Some 1000000) (Some True),
     model ''text-embedding-005'' T_Embedding (Some 0.025) None (Some 2048) None]"

definition ANTHROPIC :: provider_spec where
  "ANTHROPIC = provider ''anthropic'' (''claude-opus-4-8'', ''claude-sonnet-5'', ''claude-haiku-4-5'') (Some ''claude-sonnet-5'') None True False
    [model ''claude-fable-5'' T_Flagship (Some 5) (Some 25) (Some 1000000) (Some True),
     model ''claude-opus-4-8'' T_Flagship (Some 5) (Some 25) (Some 1000000) (Some True),
     model ''claude-sonnet-5'' T_Pro (Some 3) (Some 15) (Some 1000000) (Some True),
     model ''claude-haiku-4-5'' T_Fast (Some 1) (Some 5) (Some 200000) (Some True),
     model ''claude-sonnet-4-5'' T_Pro (Some 3) (Some 15) (Some 200000) (Some True),
     model ''claude-opus-4-6'' T_Flagship (Some 5) (Some 25) (Some 1000000) (Some True)]"

definition OPENAI :: provider_spec where
  "OPENAI = provider ''openai'' (''gpt-5.6-sol'', ''gpt-5.6-terra'', ''gpt-5.6-luna'') (Some ''gpt-5.6-terra'') (Some ''text-embedding-3-small'') True True
    [model ''gpt-5.6-sol'' T_Flagship (Some 5) (Some 30) (Some 1050000) (Some True),
     model ''gpt-5.6-terra'' T_Pro (Some 2.5) (Some 15) (Some 1050000) (Some True),
     model ''gpt-5.6-luna'' T_Lite (Some 1) (Some 6) (Some 1050000) (Some True),
     model ''gpt-5.6'' T_Flagship (Some 5) (Some 30) (Some 1050000) (Some True),
     model ''gpt-4o'' T_Pro (Some 2.5) (Some 10) (Some 128000) (Some True),
     model ''gpt-4o-mini'' T_Lite (Some 0.15) (Some 0.6) (Some 128000) (Some True),
     model ''gpt-4.1'' T_Pro (Some 2) (Some 8) (Some 1047576) (Some True),
     model ''text-embedding-3-small'' T_Embedding (Some 0.02) None (Some 8191) None,
     model ''text-embedding-3-large'' T_Embedding (Some 0.13) None (Some 8191) None]"

definition GROQ :: provider_spec where
  "GROQ = provider ''groq'' (''llama-3.3-70b-versatile'', ''llama-3.3-70b-versatile'', ''llama-3.1-8b-instant'') (Some ''meta-llama/llama-4-scout-17b-16e-instruct'') None True False
    [model ''openai/gpt-oss-120b'' T_Flagship (Some 0.15) (Some 0.6) (Some 131072) None,
     model ''openai/gpt-oss-20b'' T_Fast (Some 0.075) (Some 0.3) (Some 131072) None,
     model ''llama-3.3-70b-versatile'' T_Pro (Some 0.59) (Some 0.79) (Some 128000) None,
     model ''llama-3.1-8b-instant'' T_Lite (Some 0.05) (Some 0.08) (Some 128000) None,
     model ''meta-llama/llama-4-scout-17b-16e-instruct'' T_Pro (Some 0.11) (Some 0.34) (Some 128000) (Some True),
     model ''qwen/qwen3.6-27b'' T_Pro (Some 0.2) (Some 0.6) (Some 128000) None]"

definition MISTRAL :: provider_spec where
  "MISTRAL = provider ''mistral'' (''mistral-medium-latest'', ''mistral-small-latest'', ''ministral-8b-latest'') (Some ''pixtral-large-latest'') (Some ''mistral-embed'') True True
    [model ''mistral-medium-latest'' T_Flagship (Some 0.4) (Some 2) (Some 128000) (Some True),
     model ''mistral-large-latest'' T_Flagship (Some 2) (Some 6) (Some 128000) None,
     model ''mistral-small-latest'' T_Fast (Some 0.1) (Some 0.3) (Some 128000) None,
     model ''pixtral-large-latest'' T_Pro (Some 2) (Some 6) (Some 128000) (Some True),
     model ''codestral-latest'' T_Pro (Some 0.3) (Some 0.9) (Some 256000) None,
     model ''ministral-8b-latest'' T_Lite (Some 0.1) (Some 0.1) (Some 128000) None,
     model ''mistral-embed'' T_Embedding (Some 0.1) None (Some 8192) None]"

definition OPENROUTER :: provider_spec where
  "OPENROUTER = provider ''openrouter'' (''anthropic/claude-opus-4-8'', ''openai/gpt-5.6-terra'', ''google/gemini-2.5-flash-lite'') (Some ''anthropic/claude-sonnet-5'') (Some ''openai/text-embedding-3-small'') True True
    [model ''anthropic/claude-opus-4-8'' T_Flagship (Some 5) (Some 25) (Some 1000000) (Some True),
     model ''anthropic/claude-sonnet-5'' T_Pro (Some 3) (Some 15) (Some 1000000) (Some True),
     model ''openai/gpt-5.6-terra'' T_Flagship (Some 2.5) (Some 15) (Some 1050000) (Some True),
     model ''google/gemini-2.5-pro'' T_Flagship (Some 1.25) (Some 10) (Some 1000000) (Some True),
     model ''google/gemini-2.5-flash-lite'' T_Lite (Some 0.1) (Some 0.4) (Some 1000000) (Some True),
     model ''openai/gpt-4o-mini'' T_Lite (Some 0.15) (Some 0.6) (Some 128000) (Some True),
     model ''meta-llama/llama-3.3-70b-instruct'' T_Fast (Some 0.1) (Some 0.1) (Some 128000) None,
     model ''openai/text-embedding-3-small'' T_Embedding (Some 0.02) None (Some 8191) None]"

definition XAI :: provider_spec where
  "XAI = provider ''xai'' (''grok-4.5'', ''grok-4.3'', ''grok-4.3'') (Some ''grok-4.5'') None True False
    [model ''grok-4.5'' T_Flagship (Some 2) (Some 6) (Some 500000) (Some True),
     model ''grok-4.3'' T_Pro (Some 1.25) (Some 2.5) (Some 1000000) (Some True),
     model ''grok-4.20-0309-reasoning'' T_Pro (Some 1.25) (Some 2.5) (Some 1000000) (Some True),
     model ''grok-4.20-0309-non-reasoning'' T_Fast (Some 1.25) (Some 2.5) (Some 1000000) (Some True)]"

definition DEEPSEEK :: provider_spec where
  "DEEPSEEK = provider ''deepseek'' (''deepseek-v4-pro'', ''deepseek-v4-flash'', ''deepseek-v4-flash'') None None False False
    [model ''deepseek-v4-pro'' T_Flagship (Some 0.435) (Some 0.87) (Some 1000000) None,
     model ''deepseek-v4-flash'' T_Pro (Some 0.14) (Some 0.28) (Some 1000000) None,
     model ''deepseek-chat'' T_Fast (Some 0.14) (Some 0.28) (Some 1000000) None,
     model ''deepseek-reasoner'' T_Flagship (Some 0.14) (Some 0.28) (Some 1000000) None]"

definition IAMHC :: provider_spec where
  "IAMHC = provider ''iamhc'' (''DeepSeek-V4-Pro'', ''DeepSeek-V4-Flash'', ''Qwen3.6-35B-A3B'') (Some ''Qwen3.5-397B-A17B'') None True False
    [model ''auto'' T_Flagship None None None None,
     model ''DeepSeek-V4-Pro'' T_Flagship None None None None,
     model ''DeepSeek-V4-Flash'' T_Pro None None None None,
     model ''Qwen3.5-397B-A17B'' T_Flagship None None None (Some True),
     model ''Qwen3.6-35B-A3B'' T_Lite None None None None,
     model ''Kimi-K2.6'' T_Pro None None None None,
     model ''MiniMax-M3'' T_Pro None None None None,
     model ''glm-4.7'' T_Pro None None None None]"

definition HCNSEC :: provider_spec where
  "HCNSEC = provider ''hcnsec'' (''DeepSeek-V4-Flash'', ''DeepSeek-V4-Flash'', ''Qwen3.6-27B'') None None False False
    [model ''auto'' T_Flagship None None None None,
     model ''DeepSeek-V4-Flash'' T_Pro None None None None,
     model ''DeepSeek-V4-Pro'' T_Flagship None None None None,
     model ''glm-5.2'' T_Pro None None None None,
     model ''kat-coder-pro-v2.5'' T_Pro None None None None,
     model ''Kimi-K2.6'' T_Pro None None None None,
     model ''MiniMax-M3'' T_Pro None None None None,
     model ''Qwen3.6-27B'' T_Pro None None None None,
     model ''sensenova-6.7-flash-lite'' T_Fast None None None None,
     model ''sensenova-u1-fast'' T_Fast None None None None,
     model ''step-3.5-flash'' T_Fast None None None None,
     model ''step-3.5-flash-2603'' T_Fast None None None None,
     model ''step-3.7-flash'' T_Pro None None None None,
     model ''step-explore'' T_Pro None None None None]"


section \<open>registry.ts and helpers.ts\<close>

definition BYOK_PROVIDERS_LIST :: "provider_spec list" where
  "BYOK_PROVIDERS_LIST = [GOOGLE, VERTEX, ANTHROPIC, OPENAI, GROQ, MISTRAL, OPENROUTER, XAI, DEEPSEEK, IAMHC, HCNSEC]"

definition BYOK_PROVIDERS :: "string \<Rightarrow> provider_spec option" where
  "BYOK_PROVIDERS i = List.find (\<lambda>s. ps_id s = i) BYOK_PROVIDERS_LIST"

definition getProvider :: "string \<Rightarrow> provider_spec option" where
  "getProvider i = BYOK_PROVIDERS i"

definition defaultModelFor :: "string \<Rightarrow> model_domain \<Rightarrow> string option" where
  "defaultModelFor i d = (case BYOK_PROVIDERS i of None \<Rightarrow> None | Some s \<Rightarrow> ps_default s d)"

definition in_catalog :: "provider_spec \<Rightarrow> string \<Rightarrow> bool" where
  "in_catalog s m \<longleftrightarrow> list_ex (\<lambda>x. mo_modelId x = m) (ps_models s)"

definition ALL_DOMAINS :: "model_domain list" where
  "ALL_DOMAINS = [D_Fundamental, D_Technical, D_Summary, D_Vision, D_Embedding]"

text \<open>\<open>defineProvider\<close>; \<open>None\<close> is the error that stops the start of the program.\<close>

definition defineProvider :: "provider_spec \<Rightarrow> provider_spec option" where
  "defineProvider s =
     (if list_ex (\<lambda>d. case ps_default s d of None \<Rightarrow> False | Some m \<Rightarrow> \<not> in_catalog s m) ALL_DOMAINS then None
      else if ps_vision s \<and> ps_default s D_Vision = None then None
      else if ps_embedding s \<and> ps_default s D_Embedding = None then None
      else if (case ps_default s D_Vision of None \<Rightarrow> False | Some v \<Rightarrow>
          (case List.find (\<lambda>m. mo_modelId m = v) (ps_models s) of None \<Rightarrow> False | Some m \<Rightarrow> mo_vision m = Some False)) then None
      else Some s)"

definition price :: "model_spec \<Rightarrow> model_rate option" where
  "price m = map_option (\<lambda>i. rate i (case mo_output m of None \<Rightarrow> 0 | Some x \<Rightarrow> x)) (mo_input m)"

definition split_model_id :: "string \<Rightarrow> (string \<times> string) option" where
  "split_model_id m =
     (if startsWith m ''google-vertex/'' then Some (''vertex'', drop 14 m)
      else if CHR 0x2F \<in> set m then Some (takeWhile (\<lambda>c. c \<noteq> CHR 0x2F) m, tl (dropWhile (\<lambda>c. c \<noteq> CHR 0x2F) m))
      else if startsWith m ''gemini-'' \<or> startsWith m ''text-embedding-'' then Some (''google'', m)
      else None)"

definition lookupModelRate :: "string \<Rightarrow> model_rate option" where
  "lookupModelRate m =
     (case split_model_id m of None \<Rightarrow> None
      | Some (p, bare) \<Rightarrow> (case BYOK_PROVIDERS p of None \<Rightarrow> None
          | Some s \<Rightarrow> (case List.find (\<lambda>x. mo_modelId x = bare) (ps_models s) of None \<Rightarrow> None | Some x \<Rightarrow> price x)))"

definition qualified_id :: "string \<Rightarrow> string \<Rightarrow> string" where
  "qualified_id p m = p @ CHR 0x2F # m"

definition buildCatalogRateTable :: "(string, model_rate) js_map" where
  "buildCatalogRateTable =
     foldl (\<lambda>tab s. foldl (\<lambda>tab m. case price m of None \<Rightarrow> tab | Some r \<Rightarrow> js_set (qualified_id (ps_id s) (mo_modelId m)) r tab)
       tab (ps_models s)) [] BYOK_PROVIDERS_LIST"

section \<open>What the catalogue guarantees\<close>

lemmas provider_defs = GOOGLE_def VERTEX_def ANTHROPIC_def OPENAI_def GROQ_def MISTRAL_def OPENROUTER_def XAI_def DEEPSEEK_def
  IAMHC_def HCNSEC_def

lemma provider_simps [simp]:
  "ps_id (provider i (f, t, s) v e sv se ms) = i" "ps_models (provider i (f, t, s) v e sv se ms) = ms"
  "ps_vision (provider i (f, t, s) v e sv se ms) = sv" "ps_embedding (provider i (f, t, s) v e sv se ms) = se"
  "ps_default (provider i (f, t, s) v e sv se ms) D_Fundamental = Some f"
  "ps_default (provider i (f, t, s) v e sv se ms) D_Technical = Some t"
  "ps_default (provider i (f, t, s) v e sv se ms) D_Summary = Some s"
  "ps_default (provider i (f, t, s) v e sv se ms) D_Vision = v" "ps_default (provider i (f, t, s) v e sv se ms) D_Embedding = e"
  by (simp_all add: provider_def)

lemma model_simps [simp]:
  "mo_modelId (model i t inp outp ctxt v) = i" "mo_vision (model i t inp outp ctxt v) = v"
  "mo_input (model i t inp outp ctxt v) = inp" "mo_output (model i t inp outp ctxt v) = outp"
  by (simp_all add: model_def)

lemma provider_ids: "map ps_id BYOK_PROVIDERS_LIST = PROVIDER_IDS"
  by (simp add: BYOK_PROVIDERS_LIST_def provider_defs PROVIDER_IDS_def)

lemma catalog_checked: "list_all (\<lambda>s. defineProvider s \<noteq> None) BYOK_PROVIDERS_LIST"
  by (simp add: BYOK_PROVIDERS_LIST_def provider_defs defineProvider_def ALL_DOMAINS_def in_catalog_def)

lemma default_in_catalog:
  assumes "s \<in> set BYOK_PROVIDERS_LIST" "ps_default s d = Some m"
  shows "in_catalog s m"
proof -
  have "defineProvider s \<noteq> None"
    using catalog_checked assms(1) by (simp add: list_all_iff)
  then show ?thesis
    using assms(2) by (cases d) (auto simp: defineProvider_def ALL_DOMAINS_def split: if_splits)
qed

lemma providers_distinct: "distinct (map ps_id BYOK_PROVIDERS_LIST)"
  by (simp add: provider_ids PROVIDER_IDS_def)

lemma BYOK_PROVIDERS_listed: "BYOK_PROVIDERS i = Some s \<longleftrightarrow> s \<in> set BYOK_PROVIDERS_LIST \<and> ps_id s = i"
proof
  show "s \<in> set BYOK_PROVIDERS_LIST \<and> ps_id s = i" if "BYOK_PROVIDERS i = Some s"
    using that by (auto simp: BYOK_PROVIDERS_def find_Some_iff)
  assume s: "s \<in> set BYOK_PROVIDERS_LIST \<and> ps_id s = i"
  then obtain u where u: "BYOK_PROVIDERS i = Some u"
    by (cases "BYOK_PROVIDERS i") (auto simp: BYOK_PROVIDERS_def find_None_iff)
  then have "u \<in> set BYOK_PROVIDERS_LIST \<and> ps_id u = i"
    by (auto simp: BYOK_PROVIDERS_def find_Some_iff)
  then show "BYOK_PROVIDERS i = Some s"
    using s u providers_distinct by (auto simp: distinct_map inj_on_def)
qed

lemma BYOK_PROVIDERS_known: "i \<in> set PROVIDER_IDS \<longleftrightarrow> (\<exists>s. BYOK_PROVIDERS i = Some s)"
  by (auto simp: BYOK_PROVIDERS_listed image_iff simp flip: provider_ids)

text \<open>
  Every provider of the catalogue passes its check, so the program starts: each default is a listed
  model, and what claims to see or to embed has a default for it.
\<close>

theorem catalog_accepted: "map (map_option ps_id \<circ> defineProvider) BYOK_PROVIDERS_LIST = map Some PROVIDER_IDS"
proof -
  have "defineProvider s = Some s" if "s \<in> set BYOK_PROVIDERS_LIST" for s
  proof -
    have "defineProvider s \<noteq> None" using catalog_checked that by (simp add: list_all_iff)
    then show ?thesis by (auto simp: defineProvider_def split: if_splits)
  qed
  then show ?thesis
    unfolding provider_ids[symmetric] by simp
qed

lemma models_distinct: "list_all (\<lambda>s. distinct (map mo_modelId (ps_models s))) BYOK_PROVIDERS_LIST"
  by (simp add: BYOK_PROVIDERS_LIST_def provider_defs)

lemma split_qualified:
  assumes "s \<in> set BYOK_PROVIDERS_LIST"
  shows "split_model_id (qualified_id (ps_id s) m) = Some (ps_id s, m)"
proof -
  have "list_all (\<lambda>i. split_model_id (qualified_id i m) = Some (i, m)) PROVIDER_IDS"
    by (simp add: PROVIDER_IDS_def split_model_id_def qualified_id_def startsWith_def)
  then show ?thesis
    using assms by (auto simp: list_all_iff simp flip: provider_ids)
qed

lemma qualified_inj:
  "s \<in> set BYOK_PROVIDERS_LIST \<Longrightarrow> t \<in> set BYOK_PROVIDERS_LIST \<Longrightarrow> qualified_id (ps_id s) m = qualified_id (ps_id t) n \<longleftrightarrow> s = t \<and> m = n"
  using split_qualified[of s m] split_qualified[of t n] BYOK_PROVIDERS_listed by (metis option.inject prod.inject)

lemma rate_table_models:
  assumes "s \<in> set BYOK_PROVIDERS_LIST" "distinct (map mo_modelId ms)"
  shows "js_get (foldl (\<lambda>tab m. case price m of None \<Rightarrow> tab | Some r \<Rightarrow> js_set (qualified_id (ps_id s) (mo_modelId m)) r tab) tab ms) k
    = (case List.find (\<lambda>m. k = qualified_id (ps_id s) (mo_modelId m) \<and> price m \<noteq> None) ms of None \<Rightarrow> js_get tab k | Some m \<Rightarrow> price m)"
  using assms(2)
proof (induction ms arbitrary: tab)
  case (Cons m ms)
  have "List.find (\<lambda>m. k = qualified_id (ps_id s) (mo_modelId m) \<and> price m \<noteq> None) ms = None"
    if "k = qualified_id (ps_id s) (mo_modelId m)"
    using Cons.prems that qualified_inj[OF assms(1,1)] by (auto simp: find_None_iff)
  then show ?case
    using Cons by (cases "price m") (auto simp: map_laws cong: option.case_cong split: option.splits)
qed simp

text \<open>For every model of the catalogue both ways to a price lead to the price that the catalogue lists.\<close>

theorem rate_lookups_agree:
  assumes "s \<in> set BYOK_PROVIDERS_LIST" "m \<in> set (ps_models s)"
  shows "lookupModelRate (qualified_id (ps_id s) (mo_modelId m)) = price m
    \<and> js_get buildCatalogRateTable (qualified_id (ps_id s) (mo_modelId m)) = price m"
proof
  let ?k = "qualified_id (ps_id s) (mo_modelId m)"
  have dist: "distinct (map mo_modelId (ps_models t))" if "t \<in> set BYOK_PROVIDERS_LIST" for t
    using models_distinct that by (simp add: list_all_iff)
  have found: "List.find P (ps_models s) = Some m" if "\<And>x. P x \<longleftrightarrow> mo_modelId x = mo_modelId m \<and> Q x" "Q m" for P Q
  proof -
    have "List.find P (ps_models s) \<noteq> None" using that assms(2) by (auto simp: find_None_iff)
    then obtain x where x: "List.find P (ps_models s) = Some x" by auto
    then have "x \<in> set (ps_models s)" "mo_modelId x = mo_modelId m" using that(1) by (auto simp: find_Some_iff)
    then show ?thesis using x dist[OF assms(1)] assms(2) by (auto simp: distinct_map inj_on_def)
  qed
  show "lookupModelRate ?k = price m"
    using split_qualified[OF assms(1)] assms(1) found[of "\<lambda>x. mo_modelId x = mo_modelId m" "\<lambda>_. True"]
    by (simp add: lookupModelRate_def BYOK_PROVIDERS_listed[THEN iffD2])
  have table: "js_get (foldl (\<lambda>tab s. foldl (\<lambda>tab m. case price m of None \<Rightarrow> tab
        | Some r \<Rightarrow> js_set (qualified_id (ps_id s) (mo_modelId m)) r tab) tab (ps_models s)) tab ss) ?k
      = (if s \<in> set ss \<and> price m \<noteq> None then price m else js_get tab ?k)"
    if "set ss \<subseteq> set BYOK_PROVIDERS_LIST" for ss tab
    using that
  proof (induction ss arbitrary: tab)
    case (Cons t ss)
    have t: "t \<in> set BYOK_PROVIDERS_LIST" using Cons.prems by simp
    have none: "List.find (\<lambda>x. ?k = qualified_id (ps_id t) (mo_modelId x) \<and> price x \<noteq> None) (ps_models t) = None"
      if "t \<noteq> s \<or> price m = None"
      using that t assms qualified_inj[OF assms(1) t] dist[OF t] by (auto simp: find_None_iff distinct_map inj_on_def)
    have "js_get (foldl (\<lambda>tab m. case price m of None \<Rightarrow> tab
        | Some r \<Rightarrow> js_set (qualified_id (ps_id t) (mo_modelId m)) r tab) tab (ps_models t)) ?k
      = (if t = s \<and> price m \<noteq> None then price m else js_get tab ?k)"
      unfolding rate_table_models[OF t dist[OF t]]
    proof (cases "t = s \<and> price m \<noteq> None")
      case True
      have "List.find (\<lambda>x. ?k = qualified_id (ps_id s) (mo_modelId x) \<and> price x \<noteq> None) (ps_models s) = Some m"
        by (rule found[where Q = "\<lambda>x. price x \<noteq> None"]) (use True qualified_inj[OF assms(1,1)] in auto)
      then show "(case List.find (\<lambda>x. ?k = qualified_id (ps_id t) (mo_modelId x) \<and> price x \<noteq> None) (ps_models t) of
          None \<Rightarrow> js_get tab ?k | Some x \<Rightarrow> price x) = (if t = s \<and> price m \<noteq> None then price m else js_get tab ?k)"
        using True by simp
    next
      case False
      then have "List.find (\<lambda>x. ?k = qualified_id (ps_id t) (mo_modelId x) \<and> price x \<noteq> None) (ps_models t) = None"
        by (intro none) blast
      then show "(case List.find (\<lambda>x. ?k = qualified_id (ps_id t) (mo_modelId x) \<and> price x \<noteq> None) (ps_models t) of
          None \<Rightarrow> js_get tab ?k | Some x \<Rightarrow> price x) = (if t = s \<and> price m \<noteq> None then price m else js_get tab ?k)"
        using False by auto
    qed
    then show ?case
      using Cons by auto
  qed simp
  show "js_get buildCatalogRateTable ?k = price m"
    unfolding buildCatalogRateTable_def using table[of BYOK_PROVIDERS_LIST "[]"] assms(1) by auto
qed

text \<open>
  The fixed rates win over the catalogue. For three models they differ from it: the default model of a
  Google key is charged at a fifth of its input price, so budgets and reservations underestimate it.
\<close>

theorem fixed_rates_hide_catalog:
  "map (\<lambda>m. (js_get STATIC_RATES m, lookupModelRate m)) [''google/gemini-3.5-flash'', ''openai/gpt-4o'', ''openai/gpt-4.1'']
     = [(Some (rate 0.3 2.5), Some (rate 1.5 9)), (Some (rate 5 15), Some (rate 2.5 10)), (Some (rate 5 15), Some (rate 2 8))]
   \<and> defaultModelFor ''google'' D_Fundamental = Some ''gemini-3.5-flash''
   \<and> estimateCostUsd buildCatalogRateTable ''google/gemini-3.5-flash'' i 0 = real i / 1000000 * 0.3"
proof -
  have "rateKeyForModel ''google/gemini-3.5-flash'' = ''google/gemini-3.5-flash''"
    by (simp add: rateKeyForModel_def startsWith_def)
  then show ?thesis
    by (simp add: STATIC_RATES_def lookupModelRate_def split_model_id_def startsWith_def BYOK_PROVIDERS_def BYOK_PROVIDERS_LIST_def
        provider_defs price_def defaultModelFor_def estimateCostUsd_def rate_def)
qed

theorem rate_lookups_agree_witness:
  "lookupModelRate (qualified_id (ps_id OPENAI) (mo_modelId (hd (ps_models OPENAI)))) = Some (rate 5 30)
   \<and> js_get buildCatalogRateTable (qualified_id (ps_id OPENAI) (mo_modelId (hd (ps_models OPENAI)))) = Some (rate 5 30)"
  using rate_lookups_agree[of OPENAI "hd (ps_models OPENAI)"]
  by (simp add: BYOK_PROVIDERS_LIST_def OPENAI_def price_def)

end
