(* ===== verification/Model_Selection.thy ===== *)
theory Model_Selection
  imports Model_Catalog Key_Vault Resilience Prompt_Guards
begin

text \<open>
  The choice of a language model from the user's keys, the operator's environment and the open circuits
  (\<open>packages/ai/src/model-helpers.ts\<close>, \<open>model-chat.ts\<close>, \<open>model-vision.ts\<close>, \<open>model-embedding.ts\<close>,
  \<open>model-override.ts\<close>, \<open>model-resolution.ts\<close>, \<open>model-strategy.ts\<close>, \<open>vertex-factory.ts\<close>) and the classifier of
  questions with its cache (\<open>semantic-routing.ts\<close>). The decrypted keys of the user are an argument, as is the
  parser of service accounts; a resolved model is its ids, the client built for it is left out.
\<close>

section \<open>model-helpers.ts\<close>

definition PROVIDER_PRIORITY :: "string list" where
  "PROVIDER_PRIORITY = [''google'', ''vertex'', ''anthropic'', ''openai'', ''openrouter'', ''xai'', ''mistral'', ''groq'', ''deepseek'',
     ''iamhc'', ''hcnsec'']"

type_synonym byok = "(string, string) js_map"

record model_env =
  me_gateway :: "string option"
  me_google :: "string option"
  me_vertexProject :: "string option"
  me_vertexLocation :: "string option"
  me_credentialsJson :: "string option"
  me_embeddingModel :: "string option"
  me_process :: "string \<Rightarrow> string option"

definition present :: "string option \<Rightarrow> bool" where
  "present v \<longleftrightarrow> (case v of None \<Rightarrow> False | Some s \<Rightarrow> s \<noteq> [])"

text \<open>\<open>parse\<close> gives the e-mail and the key of a service account, each if it is a text, or fails.\<close>

definition isUsableVertexCredentials :: "(string \<Rightarrow> (string option \<times> string option) option) \<Rightarrow> string \<Rightarrow> bool" where
  "isUsableVertexCredentials parse json =
     (case parse json of None \<Rightarrow> False | Some (email, key) \<Rightarrow> email \<noteq> None \<and> present key)"

definition ENV_KEYS :: "(string \<times> string) list" where
  "ENV_KEYS = [(''anthropic'', ''ANTHROPIC_API_KEY''), (''openai'', ''OPENAI_API_KEY''), (''groq'', ''GROQ_API_KEY''),
     (''mistral'', ''MISTRAL_API_KEY''), (''openrouter'', ''OPENROUTER_API_KEY''), (''xai'', ''XAI_API_KEY''),
     (''deepseek'', ''DEEPSEEK_API_KEY''), (''iamhc'', ''IAMHC_API_KEY''), (''hcnsec'', ''HCNSEC_API_KEY'')]"

definition set_present :: "string \<Rightarrow> string option \<Rightarrow> byok \<Rightarrow> byok" where
  "set_present i v m = (if present v then js_set i (the v) m else m)"

definition envFallbackKeys :: "(string \<Rightarrow> (string option \<times> string option) option) \<Rightarrow> model_env \<Rightarrow> byok" where
  "envFallbackKeys parse env =
     (let a = set_present ''google'' (me_google env) [];
          b = (if present (me_credentialsJson env) \<and> isUsableVertexCredentials parse (the (me_credentialsJson env))
               then js_set ''vertex'' (the (me_credentialsJson env)) a else a) in
      foldl (\<lambda>m (i, name). set_present i (me_process env name) m) b ENV_KEYS)"

definition supportsPromptCaching :: "string \<Rightarrow> bool" where
  "supportsPromptCaching m \<longleftrightarrow> list_ex (\<lambda>i. startsWith (drop i m) ''anthropic'') [0..<Suc (length m)]"

definition spread :: "byok \<Rightarrow> byok \<Rightarrow> byok" where
  "spread a b = foldl (\<lambda>m (k, v). js_set k v m) a b"

text \<open>The operator's keys with the user's on top.\<close>

definition merged_keys :: "(string \<Rightarrow> (string option \<times> string option) option) \<Rightarrow> model_env \<Rightarrow> byok option \<Rightarrow> byok" where
  "merged_keys parse env stored = spread (envFallbackKeys parse env) (case stored of None \<Rightarrow> [] | Some m \<Rightarrow> m)"

definition picked_parts :: "string \<Rightarrow> (string \<times> string) option" where
  "picked_parts v = (if CHR '':'' \<in> set v then Some (takeWhile (\<lambda>c. c \<noteq> CHR '':'') v, tl (dropWhile (\<lambda>c. c \<noteq> CHR '':'') v)) else None)"

definition parsePickedModelId :: "string \<Rightarrow> byok \<Rightarrow> (string \<times> string \<times> provider_spec) option" where
  "parsePickedModelId v keys =
     (case picked_parts v of None \<Rightarrow> None
      | Some (p, m) \<Rightarrow>
          if p \<notin> set PROVIDER_IDS \<or> \<not> present (js_get keys p) then None
          else case BYOK_PROVIDERS p of None \<Rightarrow> None
            | Some spec \<Rightarrow> if in_catalog spec m then Some (p, m, spec) else None)"

section \<open>model-chat.ts\<close>

record resolution =
  re_modelId :: string
  re_providerId :: string
  re_bareModelId :: string

definition resolved :: "string \<Rightarrow> string \<Rightarrow> resolution" where
  "resolved p m = \<lparr>re_modelId = qualified_id p m, re_providerId = p, re_bareModelId = m\<rparr>"

datatype model_error = No_Keys | All_Circuits_Open | No_Default_Model | Circuit_Is_Open | No_Key_For_Provider
  | Unknown_Provider | Unknown_Model | Not_Supported | No_Vision_Model | Unresolvable

text \<open>Sorted by the place in the list of priorities, in which every provider stands once.\<close>

definition by_priority :: "string list \<Rightarrow> string list" where
  "by_priority ps = filter (\<lambda>p. p \<in> set ps) PROVIDER_PRIORITY"

fun first_closed :: "ms \<Rightarrow> string list \<Rightarrow> circuits \<Rightarrow> circuits \<times> string option" where
  "first_closed now [] cs = (cs, None)"
| "first_closed now (p # ps) cs =
     (case isCircuitOpen p now cs of (cs', is_open) \<Rightarrow> if is_open then first_closed now ps cs' else (cs', Some p))"

definition chat_keys :: "(string \<Rightarrow> (string option \<times> string option) option) \<Rightarrow> model_env \<Rightarrow> byok option \<Rightarrow> byok" where
  "chat_keys parse env stored =
     (case stored of Some m \<Rightarrow> if m \<noteq> [] then m else merged_keys parse env stored | None \<Rightarrow> merged_keys parse env stored)"

text \<open>The user's pick, unless its circuit is open.\<close>

definition explicit_pick :: "ms \<Rightarrow> byok \<Rightarrow> string option \<Rightarrow> circuits \<Rightarrow> circuits \<times> resolution option" where
  "explicit_pick now keys chatModel cs =
     (case Option.bind chatModel (\<lambda>v. if v = [] then None else parsePickedModelId v keys) of
        None \<Rightarrow> (cs, None)
      | Some (p, m, spec) \<Rightarrow>
          (case isCircuitOpen p now cs of (cs', is_open) \<Rightarrow> (cs', if is_open then None else Some (resolved (ps_id spec) m))))"

definition default_pick :: "ms \<Rightarrow> byok \<Rightarrow> model_domain \<Rightarrow> circuits \<Rightarrow> circuits \<times> (model_error + resolution)" where
  "default_pick now keys d cs =
     (case first_closed now (by_priority (configuredProviders (Some keys))) cs of
        (cs', None) \<Rightarrow> (cs', Inl All_Circuits_Open)
      | (cs', Some p) \<Rightarrow> (cs',
          case Option.bind (BYOK_PROVIDERS p) (\<lambda>s. ps_default s d) of
            None \<Rightarrow> Inl No_Default_Model
          | Some m \<Rightarrow> if m = [] then Inl No_Default_Model else Inr (resolved p m)))"

text \<open>The choice of \<open>resolveChatModel\<close>. The client is built from it and the key at the very end, and a
  factory that cannot use the key throws then; that call is left out.\<close>

definition resolveChatModel :: "(string \<Rightarrow> (string option \<times> string option) option) \<Rightarrow> ms \<Rightarrow> byok option \<Rightarrow> string option \<Rightarrow> model_env
    \<Rightarrow> model_domain option \<Rightarrow> circuits \<Rightarrow> circuits \<times> (model_error + resolution)" where
  "resolveChatModel parse now stored chatModel env d cs =
     (let keys = chat_keys parse env stored in
      if configuredProviders (Some keys) = [] then (cs, Inl No_Keys)
      else case explicit_pick now keys chatModel cs of
          (cs', Some r) \<Rightarrow> (cs', Inr r)
        | (cs', None) \<Rightarrow> default_pick now keys (case d of None \<Rightarrow> D_Technical | Some d \<Rightarrow> d) cs')"

definition resolveModelForProvider :: "(string \<Rightarrow> (string option \<times> string option) option) \<Rightarrow> ms \<Rightarrow> string \<Rightarrow> byok option \<Rightarrow> model_env
    \<Rightarrow> string option \<Rightarrow> model_domain \<Rightarrow> circuits \<Rightarrow> circuits \<times> (model_error + resolution)" where
  "resolveModelForProvider parse now p stored env requested d cs =
     (case isCircuitOpen p now cs of (cs', is_open) \<Rightarrow> (cs',
        if is_open then Inl Circuit_Is_Open
        else if \<not> present (js_get (merged_keys parse env stored) p) then Inl No_Key_For_Provider
        else case BYOK_PROVIDERS p of None \<Rightarrow> Inl Unknown_Provider
          | Some spec \<Rightarrow>
              let m = (case requested of None \<Rightarrow> ps_default spec d | Some r \<Rightarrow> Some r) in
              if \<not> present m then Inl No_Default_Model
              else if present requested \<and> \<not> in_catalog spec (the requested) then Inl Unknown_Model
              else Inr (resolved p (the m))))"

definition derivePlannerModel :: "(string \<Rightarrow> (string option \<times> string option) option) \<Rightarrow> ms \<Rightarrow> byok option \<Rightarrow> string option \<Rightarrow> model_env
    \<Rightarrow> circuits \<Rightarrow> circuits \<times> string option" where
  "derivePlannerModel parse now stored chatModel env cs =
     (case resolveChatModel parse now stored chatModel env None cs of
        (cs', Inl e) \<Rightarrow> (cs', None)
      | (cs', Inr r) \<Rightarrow> (cs', Some (case Option.bind (BYOK_PROVIDERS (re_providerId r)) (\<lambda>s. ps_default s D_Summary) of
            Some m \<Rightarrow> if m = [] then re_modelId r else qualified_id (re_providerId r) m
          | None \<Rightarrow> re_modelId r)))"

section \<open>The other resolvers\<close>

definition vision_of :: "provider_spec \<Rightarrow> string option" where
  "vision_of s = (if ps_vision s \<and> present (ps_default s D_Vision) then ps_default s D_Vision else None)"

definition embedding_of :: "provider_spec \<Rightarrow> string option" where
  "embedding_of s = (if ps_embedding s \<and> present (ps_default s D_Embedding) then ps_default s D_Embedding else None)"

text \<open>The first provider of a list that offers a model of a kind.\<close>

fun first_offer :: "(provider_spec \<Rightarrow> string option) \<Rightarrow> string list \<Rightarrow> resolution option" where
  "first_offer off [] = None"
| "first_offer off (p # ps) =
     (case Option.bind (BYOK_PROVIDERS p) off of Some m \<Rightarrow> Some (resolved p m) | None \<Rightarrow> first_offer off ps)"

definition pick_supporting :: "(provider_spec \<Rightarrow> bool) \<Rightarrow> byok \<Rightarrow> string option \<Rightarrow> resolution option" where
  "pick_supporting ok keys v =
     (case Option.bind v (\<lambda>v. if v = [] then None else parsePickedModelId v keys) of
        None \<Rightarrow> None
      | Some (p, m, spec) \<Rightarrow> if ok spec then Some (resolved p m) else None)"

definition resolveVisionModel :: "(string \<Rightarrow> (string option \<times> string option) option) \<Rightarrow> byok option \<Rightarrow> string option \<Rightarrow> model_env \<Rightarrow> model_error + resolution" where
  "resolveVisionModel parse stored visionModel env =
     (let keys = merged_keys parse env stored in
      case pick_supporting ps_vision keys visionModel of
        Some r \<Rightarrow> Inr r
      | None \<Rightarrow> (case first_offer vision_of (by_priority (configuredProviders (Some keys))) of
            Some r \<Rightarrow> Inr r | None \<Rightarrow> Inl No_Vision_Model))"

definition DEFAULT_EMBEDDING :: string where "DEFAULT_EMBEDDING = ''openai/text-embedding-3-small''"

definition resolveEmbeddingModel :: "(string \<Rightarrow> (string option \<times> string option) option) \<Rightarrow> byok option \<Rightarrow> string option \<Rightarrow> model_env \<Rightarrow> string" where
  "resolveEmbeddingModel parse stored embeddingModel env =
     (let keys = merged_keys parse env stored in
      case pick_supporting ps_embedding keys embeddingModel of
        Some r \<Rightarrow> re_modelId r
      | None \<Rightarrow>
          if present (me_embeddingModel env) then the (me_embeddingModel env)
          else case first_offer embedding_of (by_priority (configuredProviders (Some keys))) of
              Some r \<Rightarrow> re_modelId r | None \<Rightarrow> DEFAULT_EMBEDDING)"

definition resolveOverrideModel :: "(string \<Rightarrow> (string option \<times> string option) option) \<Rightarrow> string \<Rightarrow> byok option \<Rightarrow> model_env \<Rightarrow> (string \<times> string) option" where
  "resolveOverrideModel parse v stored env =
     (if v = [] \<or> CHR 0x2F \<in> set v then None
      else let (p, m) = (case picked_parts v of None \<Rightarrow> (v, []) | Some pm \<Rightarrow> pm) in
        if p \<notin> set PROVIDER_IDS \<or> \<not> present (js_get (merged_keys parse env stored) p) then None
        else case BYOK_PROVIDERS p of None \<Rightarrow> None
          | Some spec \<Rightarrow> let model = (if m \<noteq> [] then Some m else ps_default spec D_Technical) in
              if present model then Some (qualified_id (ps_id spec) (the model), p) else None)"

fun toModelDomain :: "routing_domain \<Rightarrow> model_domain" where
  "toModelDomain Generic = D_Technical"
| "toModelDomain Fundamental = D_Fundamental"
| "toModelDomain Technical = D_Technical"
| "toModelDomain Summary = D_Summary"
| "toModelDomain Vision = D_Vision"

definition fallback_key :: "byok option \<Rightarrow> string option \<Rightarrow> string \<Rightarrow> string option" where
  "fallback_key keys envGoogle p =
     (let own = Option.bind keys (\<lambda>m. js_get m p) in
      if present own then own else if p = ''google'' then envGoogle else None)"

fun fallback_from :: "byok option \<Rightarrow> string option \<Rightarrow> routing_domain \<Rightarrow> string list \<Rightarrow> (string \<times> string option) option" where
  "fallback_from keys envGoogle d [] = None"
| "fallback_from keys envGoogle d (p # ps) =
     (if (case fallback_key keys envGoogle p of None \<Rightarrow> False | Some k \<Rightarrow> js_trim k \<noteq> [])
      then Some (p, Option.bind (BYOK_PROVIDERS p) (\<lambda>s. case ps_default s (toModelDomain d) of
          Some m \<Rightarrow> Some m | None \<Rightarrow> ps_default s D_Technical))
      else fallback_from keys envGoogle d ps)"

definition pickNextFallbackProvider :: "string list \<Rightarrow> string option \<Rightarrow> byok option \<Rightarrow> string option \<Rightarrow> routing_domain \<Rightarrow> (string \<times> string option) option" where
  "pickNextFallbackProvider chain current keys envGoogle d =
     (let cur = (if present current then the current else ''google'') in
      fallback_from keys envGoogle d
        (if cur \<in> set chain then tl (dropWhile (\<lambda>p. p \<noteq> cur) chain) else chain))"

definition routeModelByDomain :: "(string \<Rightarrow> (string option \<times> string option) option) \<Rightarrow> ms \<Rightarrow> byok option \<Rightarrow> string option \<Rightarrow> model_env
    \<Rightarrow> model_domain \<Rightarrow> circuits \<Rightarrow> circuits \<times> (model_error + resolution)" where
  "routeModelByDomain parse now stored chatModel env d cs =
     (if d = D_Embedding then (cs, Inl Not_Supported) else resolveChatModel parse now stored chatModel env (Some d) cs)"

section \<open>vertex-factory.ts\<close>

datatype transport = Vertex_Model string | Gateway_Id string | Google_Model string

definition resolveModel :: "string \<Rightarrow> model_env \<Rightarrow> transport option" where
  "resolveModel m env =
     (if startsWith m ''google-vertex/'' then
        (if present (me_vertexProject env) \<and> present (me_vertexLocation env) then Some (Vertex_Model (drop 14 m)) else None)
      else if present (me_gateway env) then Some (Gateway_Id m)
      else if startsWith m ''google/'' then (if present (me_google env) then Some (Google_Model (drop 7 m)) else None)
      else None)"

section \<open>semantic-routing.ts\<close>

record classification =
  cl_domain :: routing_domain
  cl_confidence :: real

record cached_class =
  cc_result :: classification
  cc_at :: ms

definition CLASS_TTL_MS :: ms where "CLASS_TTL_MS = 60000"
definition CLASS_MAX_ENTRIES :: nat where "CLASS_MAX_ENTRIES = 200"

type_synonym class_cache = "(string, cached_class) js_map"

definition cacheGet :: "ms \<Rightarrow> string \<Rightarrow> class_cache \<Rightarrow> class_cache \<times> classification option" where
  "cacheGet now k m =
     (case js_get m k of None \<Rightarrow> (m, None)
      | Some e \<Rightarrow> if now - cc_at e > CLASS_TTL_MS then (js_delete k m, None) else (m, Some (cc_result e)))"

definition cacheSet :: "ms \<Rightarrow> string \<Rightarrow> classification \<Rightarrow> class_cache \<Rightarrow> class_cache" where
  "cacheSet now k r m =
     (let m' = (if length m \<ge> CLASS_MAX_ENTRIES then (case m of [] \<Rightarrow> m | (f, _) # _ \<Rightarrow> js_delete f m) else m) in
      js_set k \<lparr>cc_result = r, cc_at = now\<rparr> m')"

definition class_key :: "string \<Rightarrow> string \<Rightarrow> string" where
  "class_key modelId text = modelId @ CHR '':'' # take 200 text"

text \<open>\<open>ask\<close> is the structured answer of the model, if there is one within the time; \<open>later\<close> is when it comes.\<close>

definition classifyTurnLLM :: "ms \<Rightarrow> ms \<Rightarrow> (transport \<Rightarrow> string \<Rightarrow> classification option) \<Rightarrow> string \<Rightarrow> string \<Rightarrow> model_env \<Rightarrow> class_cache
    \<Rightarrow> class_cache \<times> classification option" where
  "classifyTurnLLM now later ask text modelId env m =
     (case cacheGet now (class_key modelId text) m of
        (m', Some r) \<Rightarrow> (m', Some r)
      | (m', None) \<Rightarrow>
          (case resolveModel modelId env of
             None \<Rightarrow> (m', None)
           | Some (Gateway_Id _) \<Rightarrow> (m', None)
           | Some t \<Rightarrow> (case ask t text of
                 None \<Rightarrow> (m', None)
               | Some r \<Rightarrow> if cl_confidence r \<ge> 0.7 then (cacheSet later (class_key modelId text) r m', Some r) else (m', None))))"

section \<open>What gets chosen\<close>

lemma circuit_frame:
  "snd (isCircuitOpen p now (fst (isCircuitOpen q now cs))) = snd (isCircuitOpen p now cs)"
  by (auto simp: isCircuitOpen_def js_get_delete split: option.splits)

lemma filter_splitD:
  assumes "filter P xs = pre @ p # post"
  shows "\<exists>us vs. xs = us @ p # vs \<and> filter P us = pre"
  using assms
proof (induction xs arbitrary: pre)
  case (Cons x xs)
  show ?case
  proof (cases "P x")
    case True
    show ?thesis
    proof (cases pre)
      case Nil
      then show ?thesis using Cons.prems True by (intro exI[of _ "[]"] exI[of _ xs]) auto
    next
      case (Cons y pre')
      then have "filter P xs = pre' @ p # post" "y = x" using Cons.prems True by auto
      then obtain us vs where "xs = us @ p # vs \<and> filter P us = pre'" using Cons.IH by blast
      then have "x # xs = (x # us) @ p # vs \<and> filter P (x # us) = pre" using Cons True \<open>y = x\<close> by simp
      then show ?thesis by blast
    qed
  next
    case False
    then obtain us vs where "xs = us @ p # vs \<and> filter P us = pre" using Cons by auto
    then have "x # xs = (x # us) @ p # vs \<and> filter P (x # us) = pre" using False by simp
    then show ?thesis by blast
  qed
qed simp

lemma first_closed_Some:
  "first_closed now ps cs = (cs', Some p) \<Longrightarrow> \<exists>pre post. ps = pre @ p # post \<and> \<not> snd (isCircuitOpen p now cs) \<and> (\<forall>q\<in>set pre. snd (isCircuitOpen q now cs))"
proof (induction ps arbitrary: cs)
  case (Cons q ps)
  obtain cs1 is_open where step: "isCircuitOpen q now cs = (cs1, is_open)" by fastforce
  have fr: "snd (isCircuitOpen x now cs1) = snd (isCircuitOpen x now cs)" for x
    using circuit_frame[of x now q cs] step by simp
  show ?case
  proof (cases is_open)
    case True
    then have "first_closed now ps cs1 = (cs', Some p)" using Cons.prems by (simp add: step)
    from Cons.IH[OF this] obtain pre post where "ps = pre @ p # post" "\<not> snd (isCircuitOpen p now cs)"
      "\<forall>x\<in>set pre. snd (isCircuitOpen x now cs)"
      using fr by auto
    then have "q # ps = (q # pre) @ p # post \<and> \<not> snd (isCircuitOpen p now cs) \<and> (\<forall>x\<in>set (q # pre). snd (isCircuitOpen x now cs))"
      using step True by simp
    then show ?thesis by blast
  next
    case False
    then have "q # ps = [] @ p # ps \<and> \<not> snd (isCircuitOpen p now cs) \<and> (\<forall>x\<in>set []. snd (isCircuitOpen x now cs))"
      using Cons.prems step by auto
    then show ?thesis by blast
  qed
qed simp

lemma first_closed_None:
  "first_closed now ps cs = (cs', None) \<Longrightarrow> \<forall>q\<in>set ps. snd (isCircuitOpen q now cs)"
proof (induction ps arbitrary: cs)
  case (Cons q ps)
  obtain cs1 is_open where step: "isCircuitOpen q now cs = (cs1, is_open)" by fastforce
  have fr: "snd (isCircuitOpen x now cs1) = snd (isCircuitOpen x now cs)" for x
    using circuit_frame[of x now q cs] step by simp
  show ?case
    using Cons.IH[of cs1] Cons.prems step fr by (auto split: if_splits)
qed simp

lemma configured_iff: "p \<in> set (configuredProviders (Some keys)) \<longleftrightarrow> p \<in> set PROVIDER_IDS \<and> present (js_get keys p)"
  by (auto simp: configuredProviders_def present_def split: option.splits)

lemma priority_complete: "set PROVIDER_PRIORITY = set PROVIDER_IDS" "distinct PROVIDER_PRIORITY"
  by (auto simp: PROVIDER_PRIORITY_def PROVIDER_IDS_def)

lemma by_priority_set: "set (by_priority (configuredProviders (Some keys))) = set (configuredProviders (Some keys))"
  using priority_complete(1) by (auto simp: by_priority_def configured_iff)

lemma parsePicked_SomeD:
  assumes "parsePickedModelId v keys = Some (p, m, spec)"
  shows "BYOK_PROVIDERS p = Some spec" "in_catalog spec m" "present (js_get keys p)" "p \<in> set PROVIDER_IDS" "ps_id spec = p"
  using assms by (auto simp: parsePickedModelId_def BYOK_PROVIDERS_listed split: option.splits if_splits)

lemma resolved_simps [simp]: "re_modelId (resolved p m) = qualified_id p m" "re_providerId (resolved p m) = p" "re_bareModelId (resolved p m) = m"
  by (simp_all add: resolved_def)

lemma explicit_pick_cases:
  assumes "explicit_pick now keys chatModel cs = (cs', r)"
  shows "snd (isCircuitOpen x now cs') = snd (isCircuitOpen x now cs)"
    and "r = Some q \<Longrightarrow> \<exists>v spec. chatModel = Some v \<and> parsePickedModelId v keys = Some (re_providerId q, re_bareModelId q, spec)
      \<and> q = resolved (ps_id spec) (re_bareModelId q) \<and> \<not> snd (isCircuitOpen (re_providerId q) now cs)"
proof -
  show "snd (isCircuitOpen x now cs') = snd (isCircuitOpen x now cs)"
  proof (cases "Option.bind chatModel (\<lambda>v. if v = [] then None else parsePickedModelId v keys)")
    case (Some pms)
    then show ?thesis
      using assms circuit_frame[of x now "fst pms" cs] by (auto simp: explicit_pick_def split: prod.splits)
  qed (use assms in \<open>simp add: explicit_pick_def\<close>)
  assume "r = Some q"
  then show "\<exists>v spec. chatModel = Some v \<and> parsePickedModelId v keys = Some (re_providerId q, re_bareModelId q, spec)
      \<and> q = resolved (ps_id spec) (re_bareModelId q) \<and> \<not> snd (isCircuitOpen (re_providerId q) now cs)"
    using assms by (auto simp: explicit_pick_def bind_eq_Some_conv dest: parsePicked_SomeD(5) split: option.splits prod.splits if_splits)
qed

text \<open>The pick of the user that must be honoured: a known model of a provider with a key and no open circuit.\<close>

definition usable_pick :: "ms \<Rightarrow> byok \<Rightarrow> string option \<Rightarrow> circuits \<Rightarrow> (string \<times> string) option" where
  "usable_pick now keys chatModel cs =
     (case Option.bind chatModel (\<lambda>v. parsePickedModelId v keys) of
        None \<Rightarrow> None
      | Some (p, m, spec) \<Rightarrow> if snd (isCircuitOpen p now cs) then None else Some (p, m))"

lemma explicit_pick_usable:
  "map_option (\<lambda>q. (re_providerId q, re_bareModelId q)) (snd (explicit_pick now keys chatModel cs)) = usable_pick now keys chatModel cs"
proof -
  have "(if v = [] then None else parsePickedModelId v keys) = parsePickedModelId v keys" for v
    by (simp add: parsePickedModelId_def picked_parts_def)
  moreover have "ps_id spec = p" if "Option.bind chatModel (\<lambda>v. parsePickedModelId v keys) = Some (p, m, spec)" for p m spec
    using that by (auto simp: bind_eq_Some_conv dest: parsePicked_SomeD(5))
  ultimately show ?thesis
    by (auto simp: explicit_pick_def usable_pick_def split: option.splits prod.splits)
qed

lemma chat_model_facts:
  assumes "resolveChatModel parse now stored chatModel env d cs = (cs', Inr r)"
  shows "(\<exists>spec. BYOK_PROVIDERS (re_providerId r) = Some spec \<and> in_catalog spec (re_bareModelId r))
    \<and> re_modelId r = qualified_id (re_providerId r) (re_bareModelId r)
    \<and> present (js_get (case stored of Some m \<Rightarrow> if m = [] then envFallbackKeys parse env else m | None \<Rightarrow> envFallbackKeys parse env) (re_providerId r))
    \<and> \<not> snd (isCircuitOpen (re_providerId r) now cs)
    \<and> (case usable_pick now (chat_keys parse env stored) chatModel cs of
         Some pick \<Rightarrow> (re_providerId r, re_bareModelId r) = pick
       | None \<Rightarrow> (\<exists>pre post. PROVIDER_PRIORITY = pre @ re_providerId r # post
             \<and> (\<forall>q\<in>set pre. \<not> present (js_get (chat_keys parse env stored) q) \<or> snd (isCircuitOpen q now cs)))
           \<and> Option.bind (BYOK_PROVIDERS (re_providerId r)) (\<lambda>s. ps_default s (case d of None \<Rightarrow> D_Technical | Some d \<Rightarrow> d))
             = Some (re_bareModelId r))"
proof -
  let ?keys = "chat_keys parse env stored"
  have keys: "?keys = (case stored of Some m \<Rightarrow> if m = [] then envFallbackKeys parse env else m | None \<Rightarrow> envFallbackKeys parse env)"
    by (auto simp: chat_keys_def merged_keys_def spread_def split: option.splits)
  obtain cs1 pick where e: "explicit_pick now ?keys chatModel cs = (cs1, pick)" by fastforce
  show ?thesis
  proof (cases pick)
    case (Some q)
    then have r: "r = q" using assms e by (auto simp: resolveChatModel_def Let_def split: if_splits)
    obtain v spec where v: "chatModel = Some v" "parsePickedModelId v ?keys = Some (re_providerId r, re_bareModelId r, spec)"
      "r = resolved (ps_id spec) (re_bareModelId r)" "\<not> snd (isCircuitOpen (re_providerId r) now cs)"
      using explicit_pick_cases(2)[OF e Some] r by auto
    have "re_modelId r = qualified_id (re_providerId r) (re_bareModelId r)"
      using v(3) by (metis resolved_simps(1,2))
    moreover have "usable_pick now ?keys chatModel cs = Some (re_providerId r, re_bareModelId r)"
      using explicit_pick_usable[of now ?keys chatModel cs] e Some r by simp
    ultimately show ?thesis
      using v(1,2,4) parsePicked_SomeD[OF v(2)] keys by auto
  next
    case None
    define dom where "dom = (case d of None \<Rightarrow> D_Technical | Some d \<Rightarrow> d)"
    have dp: "default_pick now ?keys dom cs1 = (cs', Inr r)"
      using assms e None by (auto simp: resolveChatModel_def Let_def dom_def split: if_splits)
    then obtain p where p: "first_closed now (by_priority (configuredProviders (Some ?keys))) cs1 = (cs', Some p)" "re_providerId r = p"
      "Option.bind (BYOK_PROVIDERS p) (\<lambda>s. ps_default s dom) = Some (re_bareModelId r)" "re_modelId r = qualified_id p (re_bareModelId r)"
      by (auto simp: default_pick_def split: prod.splits option.splits if_splits)
    obtain pre post where pp: "by_priority (configuredProviders (Some ?keys)) = pre @ p # post" "\<not> snd (isCircuitOpen p now cs)"
      "\<forall>q\<in>set pre. snd (isCircuitOpen q now cs)"
      using first_closed_Some[OF p(1)] explicit_pick_cases(1)[OF e] by auto
    then have "p \<in> set (configuredProviders (Some ?keys))"
      using by_priority_set by (metis in_set_conv_decomp)
    then have key: "present (js_get ?keys p)" by (simp add: configured_iff)
    obtain spec where spec: "BYOK_PROVIDERS p = Some spec" "ps_default spec dom = Some (re_bareModelId r)"
      using p(3) by (auto simp: bind_eq_Some_conv)
    then have cat: "in_catalog spec (re_bareModelId r)"
      using default_in_catalog by (auto simp: BYOK_PROVIDERS_listed)
    have "\<exists>pre post. PROVIDER_PRIORITY = pre @ p # post \<and> (\<forall>q\<in>set pre. \<not> present (js_get ?keys q) \<or> snd (isCircuitOpen q now cs))"
    proof -
      obtain us vs where uv: "PROVIDER_PRIORITY = us @ p # vs" "filter (\<lambda>p. p \<in> set (configuredProviders (Some ?keys))) us = pre"
        using filter_splitD[OF pp(1)[unfolded by_priority_def]] by auto
      have "\<not> present (js_get ?keys q) \<or> snd (isCircuitOpen q now cs)" if "q \<in> set us" for q
      proof -
        have "q \<in> set PROVIDER_IDS" using that uv(1) priority_complete(1) by (metis Un_iff set_append)
        then show ?thesis using that uv(2) pp(3) configured_iff[of q ?keys] by auto
      qed
      then show ?thesis using uv(1) by blast
    qed
    moreover have "usable_pick now ?keys chatModel cs = None"
      using explicit_pick_usable[of now ?keys chatModel cs] e None by simp
    ultimately show ?thesis
      using p(2,3,4) pp(2) key cat spec(1) keys by (auto simp: dom_def)
  qed
qed

text \<open>
  C40: A chat model is one of the catalogue, of a provider with a key and no open circuit; when the user
  has stored keys, it is a key of the user. The user's pick is honoured: when it names a known
  model of a provider with a key and no open circuit it is the model, whatever the domain. Without
  such a pick the provider is the first of the list of priorities that has a key and no open circuit,
  and the model its default for the domain; so the lower index wins, against the comment on the
  list, and a pick with a typo falls through silently, against the comment on the check. The client
  of the model is built afterwards, from the key, and may still reject it.
\<close>

theorem chat_model_sound:
  assumes "resolveChatModel parse now stored chatModel env d cs = (cs', Inr r)"
  shows "(\<exists>spec. BYOK_PROVIDERS (re_providerId r) = Some spec \<and> in_catalog spec (re_bareModelId r))
    \<and> re_modelId r = qualified_id (re_providerId r) (re_bareModelId r)
    \<and> present (js_get (case stored of Some m \<Rightarrow> if m = [] then envFallbackKeys parse env else m | None \<Rightarrow> envFallbackKeys parse env) (re_providerId r))
    \<and> \<not> snd (isCircuitOpen (re_providerId r) now cs)
    \<and> (case usable_pick now (chat_keys parse env stored) chatModel cs of
         Some pick \<Rightarrow> (re_providerId r, re_bareModelId r) = pick
       | None \<Rightarrow> (\<exists>pre post. PROVIDER_PRIORITY = pre @ re_providerId r # post
             \<and> (\<forall>q\<in>set pre. \<not> present (js_get (chat_keys parse env stored) q) \<or> snd (isCircuitOpen q now cs)))
           \<and> Option.bind (BYOK_PROVIDERS (re_providerId r)) (\<lambda>s. ps_default s (case d of None \<Rightarrow> D_Technical | Some d \<Rightarrow> d))
             = Some (re_bareModelId r))"
  by (rule chat_model_facts[OF assms])

text \<open>For a text domain the choice fails only when there is no key or every provider with one has an open circuit.\<close>

theorem chat_model_found:
  assumes "d \<notin> {Some D_Vision, Some D_Embedding}"
  shows "(case snd (resolveChatModel parse now stored chatModel env d cs) of
      Inr r \<Rightarrow> True
    | Inl e \<Rightarrow> (e = No_Keys \<and> configuredProviders (Some (chat_keys parse env stored)) = [])
        \<or> (e = All_Circuits_Open \<and> list_all (\<lambda>p. snd (isCircuitOpen p now cs)) (configuredProviders (Some (chat_keys parse env stored)))))"
proof -
  let ?keys = "chat_keys parse env stored"
  define dom where "dom = (case d of None \<Rightarrow> D_Technical | Some d \<Rightarrow> d)"
  have dom: "dom \<in> {D_Fundamental, D_Technical, D_Summary}"
    using assms by (cases d; cases "the d") (auto simp: dom_def)
  have some: "\<exists>m. ps_default s dom = Some m \<and> m \<noteq> []" if "s \<in> set BYOK_PROVIDERS_LIST" for s
    using that dom by (auto simp: BYOK_PROVIDERS_LIST_def provider_defs)
  obtain cs1 pick where e: "explicit_pick now ?keys chatModel cs = (cs1, pick)" by fastforce
  obtain cs2 fp where f: "first_closed now (by_priority (configuredProviders (Some ?keys))) cs1 = (cs2, fp)" by fastforce
  show ?thesis
  proof (cases "pick = None \<and> configuredProviders (Some ?keys) \<noteq> []")
    case False
    then show ?thesis using e by (auto simp: resolveChatModel_def Let_def)
  next
    case True
    then have r: "snd (resolveChatModel parse now stored chatModel env d cs) = snd (default_pick now ?keys dom cs1)"
      using e by (simp add: resolveChatModel_def Let_def dom_def)
    show ?thesis
    proof (cases fp)
      case None
      have "\<forall>p\<in>set (configuredProviders (Some ?keys)). snd (isCircuitOpen p now cs)"
        using first_closed_None[of now _ cs1] f None explicit_pick_cases(1)[OF e] by_priority_set by metis
      then show ?thesis
        using r f None by (simp add: default_pick_def list_all_iff)
    next
      case (Some p)
      then have "p \<in> set (configuredProviders (Some ?keys))"
        using first_closed_Some[of now _ cs1 cs2 p] f by_priority_set by (metis in_set_conv_decomp)
      then obtain s where "BYOK_PROVIDERS p = Some s" "s \<in> set BYOK_PROVIDERS_LIST"
        using BYOK_PROVIDERS_known BYOK_PROVIDERS_listed by (auto simp: configured_iff)
      then show ?thesis
        using r f Some some[of s] by (auto simp: default_pick_def)
    qed
  qed
qed

text \<open>
  Of the failures that would open a circuit nobody tells the breaker: what the program does with it is
  asking, which never closes a provider out. So every choice is made as if there were no breaker.
\<close>

theorem circuits_stay_empty:
  "fst (resolveChatModel parse now stored chatModel env d []) = [] \<and> fst (resolveModelForProvider parse now p stored env requested dd []) = []
   \<and> (case snd (resolveChatModel parse now stored chatModel env d []) of Inl e \<Rightarrow> e \<noteq> All_Circuits_Open | Inr r \<Rightarrow> True)"
proof -
  have ask: "isCircuitOpen p now [] = ([], False)" for p
    by (simp add: isCircuitOpen_def)
  have first: "first_closed now ps [] = ([], if ps = [] then None else Some (hd ps))" for ps
    by (cases ps) (simp_all add: ask)
  have explicit: "fst (explicit_pick now keys cm []) = []" for keys cm
    by (auto simp: explicit_pick_def ask split: option.splits)
  obtain pick where e: "explicit_pick now (chat_keys parse env stored) chatModel [] = ([], pick)"
    using explicit[of "chat_keys parse env stored" chatModel] by (metis surjective_pairing)
  have "fst (default_pick now keys dd []) = []" for keys dd
    by (auto simp: default_pick_def first split: option.splits)
  moreover have "(case snd (default_pick now keys dd []) of Inl e \<Rightarrow> e \<noteq> All_Circuits_Open | Inr r \<Rightarrow> True)"
    if "configuredProviders (Some keys) \<noteq> []" for keys dd
  proof -
    have "by_priority (configuredProviders (Some keys)) \<noteq> []"
      using that by_priority_set[of keys] by auto
    then show ?thesis by (auto simp: default_pick_def first split: option.splits)
  qed
  ultimately show ?thesis
    by (auto simp: resolveChatModel_def resolveModelForProvider_def Let_def e ask split: option.splits)
qed

text \<open>
  Who stores only a key for market data, as the settings page allows, is left without a model although the operator
  provides one; without any stored key the same user gets it.
\<close>

theorem market_key_hides_fallback:
  assumes "present (me_google env)"
  shows "snd (resolveChatModel parse now (Some [(''finnhub'', k)]) chatModel env d cs) = Inl No_Keys
    \<and> (case snd (resolveChatModel parse now None None env None []) of Inr r \<Rightarrow> re_modelId r = ''google/gemini-3.5-flash-lite'' | Inl e \<Rightarrow> False)"
proof
  show "snd (resolveChatModel parse now (Some [(''finnhub'', k)]) chatModel env d cs) = Inl No_Keys"
    by (simp add: resolveChatModel_def Let_def chat_keys_def configuredProviders_def PROVIDER_IDS_def)
  have keep: "js_get (foldl (\<lambda>m (i, name). set_present i (me_process env name) m) b es) ''google'' = js_get b ''google''"
    if "''google'' \<notin> fst ` set es" for b es
    using that by (induction es arbitrary: b) (auto simp: set_present_def map_laws)
  have "js_get (envFallbackKeys parse env) ''google'' = me_google env"
  proof -
    have "''google'' \<notin> fst ` set ENV_KEYS" by (simp add: ENV_KEYS_def)
    then show ?thesis
      using assms unfolding envFallbackKeys_def Let_def by (subst keep) (auto simp: set_present_def present_def map_laws split: option.splits)
  qed
  then have key: "present (js_get (chat_keys parse env None) ''google'')"
    using assms by (simp add: chat_keys_def merged_keys_def spread_def)
  let ?ps = "by_priority (configuredProviders (Some (chat_keys parse env None)))"
  have "''google'' \<in> set (configuredProviders (Some (chat_keys parse env None)))"
    using key by (simp add: configured_iff PROVIDER_IDS_def)
  then have "?ps \<noteq> []" "hd ?ps = ''google''" "configuredProviders (Some (chat_keys parse env None)) \<noteq> []"
    by (auto simp: by_priority_def PROVIDER_PRIORITY_def)
  then have "resolveChatModel parse now None None env None [] = ([], Inr (resolved ''google'' ''gemini-3.5-flash-lite''))"
    by (cases ?ps) (simp_all add: resolveChatModel_def Let_def explicit_pick_def default_pick_def isCircuitOpen_def BYOK_PROVIDERS_def
        BYOK_PROVIDERS_LIST_def GOOGLE_def)
  then show "case snd (resolveChatModel parse now None None env None []) of Inr r \<Rightarrow> re_modelId r = ''google/gemini-3.5-flash-lite'' | Inl e \<Rightarrow> False"
    by (simp add: qualified_id_def)
qed

text \<open>
  The classifier of questions works only on the operator's Google key: for the planner model of any
  other provider, Vertex among them, and behind the gateway, it never gives an answer.
\<close>

theorem classifier_needs_google_key:
  assumes "derivePlannerModel parse now stored chatModel env cs = (cs', Some m)"
    and "classifyTurnLLM t t' ask question m env [] = (cache', Some c)"
  shows "present (me_google env) \<and> \<not> present (me_gateway env) \<and> startsWith m ''google/''"
proof -
  obtain r where r: "resolveChatModel parse now stored chatModel env None cs = (cs', Inr r)"
    using assms(1) by (auto simp: derivePlannerModel_def split: prod.splits sum.splits)
  obtain x where m: "m = qualified_id (re_providerId r) x"
    using assms(1) r chat_model_facts[OF r] by (auto simp: derivePlannerModel_def split: option.splits if_splits)
  have ids: "list_all (\<lambda>p. \<not> startsWith (qualified_id p x) ''google-vertex/'') PROVIDER_IDS"
    by (simp add: PROVIDER_IDS_def qualified_id_def startsWith_def)
  have "re_providerId r \<in> set PROVIDER_IDS"
    using chat_model_facts[OF r] BYOK_PROVIDERS_known by blast
  then have "\<not> startsWith m ''google-vertex/''"
    using ids m by (simp add: list_all_iff)
  moreover have "\<exists>t. resolveModel m env = Some t \<and> (case t of Gateway_Id _ \<Rightarrow> False | _ \<Rightarrow> True)"
    using assms(2) by (auto simp: classifyTurnLLM_def cacheGet_def split: option.splits transport.splits if_splits)
  ultimately show ?thesis
    by (auto simp: resolveModel_def split: if_splits)
qed

text \<open>
  A picked model for images is accepted when its provider sees, whether or not the model does; and a
  chat turn on an image fails for a provider without eyes though another configured one would do.
\<close>

theorem blind_models_accepted:
  assumes "present (js_get (merged_keys parse env stored) ''mistral'')" "stored = Some [(''deepseek'', a), (''mistral'', b)]" "a \<noteq> []" "b \<noteq> []"
    and "envFallbackKeys parse env = []"
  shows "resolveVisionModel parse stored (Some ''mistral:codestral-latest'') env = Inr (resolved ''mistral'' ''codestral-latest'')
    \<and> (case List.find (\<lambda>m. mo_modelId m = ''codestral-latest'') (ps_models MISTRAL) of None \<Rightarrow> False | Some m \<Rightarrow> mo_vision m = None)
    \<and> snd (routeModelByDomain parse now (Some [(''iamhc'', a), (''deepseek'', b)]) None env D_Vision []) = Inl No_Default_Model
    \<and> (case resolveVisionModel parse (Some [(''iamhc'', a), (''deepseek'', b)]) None env of Inr r \<Rightarrow> re_providerId r = ''iamhc'' | Inl e \<Rightarrow> False)"
proof (intro conjI)
  have spec: "BYOK_PROVIDERS ''mistral'' = Some MISTRAL"
    by (simp add: BYOK_PROVIDERS_def BYOK_PROVIDERS_LIST_def provider_defs)
  show "resolveVisionModel parse stored (Some ''mistral:codestral-latest'') env = Inr (resolved ''mistral'' ''codestral-latest'')"
    using assms(1) by (simp add: resolveVisionModel_def Let_def pick_supporting_def parsePickedModelId_def picked_parts_def PROVIDER_IDS_def
        spec in_catalog_def MISTRAL_def)
  show "case List.find (\<lambda>m. mo_modelId m = ''codestral-latest'') (ps_models MISTRAL) of None \<Rightarrow> False | Some m \<Rightarrow> mo_vision m = None"
    by (simp add: MISTRAL_def)
  have keys: "configuredProviders (Some [(''iamhc'', a), (''deepseek'', b)]) = [''deepseek'', ''iamhc'']"
    using assms(3,4) by (simp add: configuredProviders_def PROVIDER_IDS_def)
  have pri: "by_priority [''deepseek'', ''iamhc''] = [''deepseek'', ''iamhc'']"
    by (simp add: by_priority_def PROVIDER_PRIORITY_def)
  show "snd (routeModelByDomain parse now (Some [(''iamhc'', a), (''deepseek'', b)]) None env D_Vision []) = Inl No_Default_Model"
    by (simp add: routeModelByDomain_def resolveChatModel_def chat_keys_def keys explicit_pick_def default_pick_def pri isCircuitOpen_def
        BYOK_PROVIDERS_def BYOK_PROVIDERS_LIST_def provider_defs)
  have merged: "merged_keys parse env (Some [(''iamhc'', a), (''deepseek'', b)]) = [(''iamhc'', a), (''deepseek'', b)]"
    by (simp add: merged_keys_def spread_def assms(5))
  show "case resolveVisionModel parse (Some [(''iamhc'', a), (''deepseek'', b)]) None env of Inr r \<Rightarrow> re_providerId r = ''iamhc'' | Inl e \<Rightarrow> False"
    by (simp add: resolveVisionModel_def merged keys pri pick_supporting_def vision_of_def BYOK_PROVIDERS_def BYOK_PROVIDERS_LIST_def
        provider_defs present_def)
qed

text \<open>The next fallback is the first provider behind the current one in the chain that has a key; none in between has.\<close>

theorem fallback_in_order:
  assumes "pickNextFallbackProvider chain current keys envGoogle d = Some (p, m)" "distinct chain"
  shows "\<exists>pre mid post. chain = pre @ mid @ p # post
    \<and> (if (if present current then the current else ''google'') \<in> set chain then pre \<noteq> [] \<and> last pre = (if present current then the current else ''google'') else pre = [])
    \<and> (case fallback_key keys envGoogle p of None \<Rightarrow> False | Some k \<Rightarrow> js_trim k \<noteq> [])
    \<and> (\<forall>q\<in>set mid. case fallback_key keys envGoogle q of None \<Rightarrow> True | Some k \<Rightarrow> js_trim k = [])"
proof -
  let ?cur = "if present current then the current else ''google''"
  have walk: "\<exists>mid post. ps = mid @ p # post \<and> (case fallback_key keys envGoogle p of None \<Rightarrow> False | Some k \<Rightarrow> js_trim k \<noteq> [])
      \<and> (\<forall>q\<in>set mid. case fallback_key keys envGoogle q of None \<Rightarrow> True | Some k \<Rightarrow> js_trim k = [])"
    if "fallback_from keys envGoogle d ps = Some (p, m)" for ps
    using that
  proof (induction ps)
    case (Cons q ps)
    show ?case
    proof (cases "case fallback_key keys envGoogle q of None \<Rightarrow> False | Some k \<Rightarrow> js_trim k \<noteq> []")
      case True
      then have "q # ps = [] @ p # ps" using Cons.prems by simp
      then show ?thesis using True Cons.prems by (intro exI[of _ "[]"] exI[of _ ps]) auto
    next
      case False
      then obtain mid post where "ps = mid @ p # post" "case fallback_key keys envGoogle p of None \<Rightarrow> False | Some k \<Rightarrow> js_trim k \<noteq> []"
        "\<forall>q\<in>set mid. case fallback_key keys envGoogle q of None \<Rightarrow> True | Some k \<Rightarrow> js_trim k = []"
        using Cons by auto
      then have "q # ps = (q # mid) @ p # post \<and> (case fallback_key keys envGoogle p of None \<Rightarrow> False | Some k \<Rightarrow> js_trim k \<noteq> [])
        \<and> (\<forall>x\<in>set (q # mid). case fallback_key keys envGoogle x of None \<Rightarrow> True | Some k \<Rightarrow> js_trim k = [])"
        using False by (auto split: option.splits)
      then show ?thesis by blast
    qed
  qed simp
  show ?thesis
  proof (cases "?cur \<in> set chain")
    case True
    then obtain us vs where c: "chain = us @ ?cur # vs" "?cur \<notin> set us"
      using split_list_first[OF True] by blast
    then have "tl (dropWhile (\<lambda>q. q \<noteq> ?cur) chain) = vs"
      by (subst c(1), subst dropWhile_append2) auto
    then have "fallback_from keys envGoogle d vs = Some (p, m)"
      using assms(1) True by (simp add: pickNextFallbackProvider_def Let_def)
    from walk[OF this] obtain mid post where w: "vs = mid @ p # post" "case fallback_key keys envGoogle p of None \<Rightarrow> False | Some k \<Rightarrow> js_trim k \<noteq> []"
      "\<forall>q\<in>set mid. case fallback_key keys envGoogle q of None \<Rightarrow> True | Some k \<Rightarrow> js_trim k = []" by blast
    show ?thesis
      using c(1) w True by (intro exI[of _ "us @ [?cur]"] exI[of _ mid] exI[of _ post]) simp
  next
    case False
    then have "fallback_from keys envGoogle d chain = Some (p, m)"
      using assms(1) by (simp add: pickNextFallbackProvider_def Let_def)
    from walk[OF this] obtain mid post where "chain = mid @ p # post" "case fallback_key keys envGoogle p of None \<Rightarrow> False | Some k \<Rightarrow> js_trim k \<noteq> []"
      "\<forall>q\<in>set mid. case fallback_key keys envGoogle q of None \<Rightarrow> True | Some k \<Rightarrow> js_trim k = []" by blast
    then show ?thesis
      using False by (intro exI[of _ "[]"] exI[of _ mid] exI[of _ post]) simp
  qed
qed

text \<open>
  The cache of classes holds at most 200 entries and serves none older than a minute; questions that agree in
  their first 200 characters share one.
\<close>

theorem class_cache_bounded:
  assumes "classifyTurnLLM t t' ask question m env cache = (cache', r)" "length cache \<le> CLASS_MAX_ENTRIES" "js_wf cache"
  shows "length cache' \<le> CLASS_MAX_ENTRIES \<and> js_wf cache'
    \<and> (case js_get cache (class_key m question) of Some e \<Rightarrow> if t - cc_at e \<le> CLASS_TTL_MS then r = Some (cc_result e) else True | None \<Rightarrow> True)
    \<and> (take 200 question \<noteq> take 200 other \<or> class_key m question = class_key m other)"
proof -
  let ?k = "class_key m question"
  have get: "length (fst (cacheGet t ?k cache)) \<le> length cache" "js_wf (fst (cacheGet t ?k cache))"
    using assms(3) by (auto simp: cacheGet_def js_wf_delete split: option.splits) (simp add: js_delete_def)
  have put: "length (cacheSet t' k c h) \<le> CLASS_MAX_ENTRIES \<and> js_wf (cacheSet t' k c h)" if "length h \<le> CLASS_MAX_ENTRIES" "js_wf h" for k c h
  proof -
    define h' where "h' = (if length h \<ge> CLASS_MAX_ENTRIES then (case h of [] \<Rightarrow> h | (f, _) # _ \<Rightarrow> js_delete f h) else h)"
    have "Suc (length (js_delete (fst x) h)) = length h" if "h = x # xs" for x xs
      using length_js_delete[OF \<open>js_wf h\<close>, of "fst x"] that by (simp add: js_keys_def)
    then have "length h' < CLASS_MAX_ENTRIES \<and> js_wf h'"
      using that unfolding h'_def CLASS_MAX_ENTRIES_def by (cases h) (auto simp: js_wf_delete not_le)
    then show ?thesis
      unfolding cacheSet_def h'_def[symmetric] Let_def by (simp add: length_js_set js_wf_set)
  qed
  have "length cache' \<le> CLASS_MAX_ENTRIES \<and> js_wf cache'"
    using assms(1,2) get put[of "fst (cacheGet t ?k cache)"]
    by (auto simp: classifyTurnLLM_def split: prod.splits option.splits transport.splits if_splits)
  moreover have "case js_get cache ?k of Some e \<Rightarrow> if t - cc_at e \<le> CLASS_TTL_MS then r = Some (cc_result e) else True | None \<Rightarrow> True"
    using assms(1) by (auto simp: classifyTurnLLM_def cacheGet_def split: option.splits)
  ultimately show ?thesis by (auto simp: class_key_def)
qed

section \<open>Concrete choices\<close>

definition sample_model_env :: model_env where
  "sample_model_env = \<lparr>me_gateway = None, me_google = Some ''AIza'', me_vertexProject = None, me_vertexLocation = None,
     me_credentialsJson = None, me_embeddingModel = None, me_process = (\<lambda>_. None)\<rparr>"

definition no_model_env :: model_env where
  "no_model_env = sample_model_env\<lparr>me_google := None\<rparr>"

lemma sample_env_keys: "envFallbackKeys parse sample_model_env = [(''google'', ''AIza'')]" "envFallbackKeys parse no_model_env = []"
  by (simp_all add: envFallbackKeys_def no_model_env_def sample_model_env_def set_present_def present_def ENV_KEYS_def Let_def)

lemma sample_choice:
  "resolveChatModel parse 0 (Some [(''openai'', ''sk''), (''groq'', ''gsk'')]) (Some ''groq:qwen/qwen3.6-27b'') sample_model_env None []
     = ([], Inr (resolved ''groq'' ''qwen/qwen3.6-27b''))"
  by (simp add: resolveChatModel_def chat_keys_def configuredProviders_def PROVIDER_IDS_def explicit_pick_def parsePickedModelId_def
      picked_parts_def present_def BYOK_PROVIDERS_def BYOK_PROVIDERS_LIST_def provider_defs in_catalog_def isCircuitOpen_def)

theorem chat_model_sound_witness:
  "(\<exists>spec. BYOK_PROVIDERS ''groq'' = Some spec \<and> in_catalog spec ''qwen/qwen3.6-27b'')
   \<and> usable_pick 0 [(''openai'', ''sk''), (''groq'', ''gsk'')] (Some ''groq:qwen/qwen3.6-27b'') [] = Some (''groq'', ''qwen/qwen3.6-27b'')"
proof -
  have "usable_pick 0 [(''openai'', ''sk''), (''groq'', ''gsk'')] (Some ''groq:qwen/qwen3.6-27b'') [] = Some (''groq'', ''qwen/qwen3.6-27b'')"
    by (simp add: usable_pick_def parsePickedModelId_def picked_parts_def present_def BYOK_PROVIDERS_def BYOK_PROVIDERS_LIST_def
        provider_defs in_catalog_def isCircuitOpen_def PROVIDER_IDS_def)
  then show ?thesis using chat_model_sound[OF sample_choice] by simp
qed

theorem chat_model_found_witness:
  "case snd (resolveChatModel (\<lambda>_. None) 0 None None sample_model_env (Some D_Summary) []) of Inr r \<Rightarrow> True | Inl e \<Rightarrow> False"
proof -
  have "configuredProviders (Some (chat_keys (\<lambda>_. None) sample_model_env None)) = [''google'']"
    by (simp add: chat_keys_def merged_keys_def spread_def sample_env_keys configuredProviders_def PROVIDER_IDS_def)
  then show ?thesis
    using chat_model_found[where d = "Some D_Summary" and parse = "\<lambda>_. None" and now = 0 and stored = None and chatModel = None and env = sample_model_env and cs = "[]"]
    by (auto simp: isCircuitOpen_def split: sum.splits)
qed

theorem market_key_hides_fallback_witness:
  "snd (resolveChatModel (\<lambda>_. None) 0 (Some [(''finnhub'', ''fh'')]) None sample_model_env None []) = Inl No_Keys"
  using market_key_hides_fallback[of sample_model_env] by (simp add: sample_model_env_def present_def)

definition sure_answer :: "transport \<Rightarrow> string \<Rightarrow> classification option" where
  "sure_answer t question = Some \<lparr>cl_domain = Technical, cl_confidence = 0.9\<rparr>"

theorem classifier_needs_google_key_witness:
  "present (me_google sample_model_env)"
proof -
  let ?plan = "derivePlannerModel (\<lambda>_. None) 0 None None sample_model_env []"
  have plan: "?plan = ([], Some ''google/gemini-3.5-flash-lite'')"
    by (simp add: derivePlannerModel_def resolveChatModel_def chat_keys_def merged_keys_def spread_def sample_env_keys configuredProviders_def
        PROVIDER_IDS_def explicit_pick_def default_pick_def by_priority_def PROVIDER_PRIORITY_def isCircuitOpen_def
        BYOK_PROVIDERS_def BYOK_PROVIDERS_LIST_def GOOGLE_def qualified_id_def)
  have "snd (classifyTurnLLM 0 1 sure_answer ''rsi on gold?'' ''google/gemini-3.5-flash-lite'' sample_model_env [])
      = Some \<lparr>cl_domain = Technical, cl_confidence = 0.9\<rparr>"
    by (simp add: classifyTurnLLM_def cacheGet_def resolveModel_def startsWith_def sample_model_env_def present_def sure_answer_def)
  then obtain cache' where "classifyTurnLLM 0 1 sure_answer ''rsi on gold?'' ''google/gemini-3.5-flash-lite'' sample_model_env []
      = (cache', Some \<lparr>cl_domain = Technical, cl_confidence = 0.9\<rparr>)"
    by (metis surjective_pairing)
  from classifier_needs_google_key[OF plan this] show ?thesis by simp
qed

theorem blind_models_accepted_witness:
  "snd (routeModelByDomain (\<lambda>_. None) 0 (Some [(''iamhc'', ''a''), (''deepseek'', ''b'')]) None no_model_env D_Vision []) = Inl No_Default_Model"
  using blind_models_accepted[where parse = "\<lambda>_. None" and env = no_model_env and a = "''a''" and b = "''b''" and now = 0]
  by (simp add: sample_env_keys merged_keys_def spread_def present_def)

lemma sample_fallback:
  "pickNextFallbackProvider [''openai'', ''google'', ''groq'', ''xai''] (Some ''google'') (Some [(''groq'', '' ''), (''xai'', ''k'')]) None Summary
     = Some (''xai'', Some ''grok-4.3'')"
  by (simp add: pickNextFallbackProvider_def fallback_key_def present_def js_trim_def is_ws_def BYOK_PROVIDERS_def BYOK_PROVIDERS_LIST_def
      provider_defs)

theorem fallback_in_order_witness:
  "\<exists>pre mid post. [''openai'', ''google'', ''groq'', ''xai''] = pre @ mid @ ''xai'' # post \<and> last pre = ''google''"
proof -
  have "distinct [''openai'', ''google'', ''groq'', ''xai'']" by simp
  from fallback_in_order[OF sample_fallback this]
  obtain pre mid post where "[''openai'', ''google'', ''groq'', ''xai''] = pre @ mid @ ''xai'' # post" "last pre = ''google''"
    by (auto simp: present_def)
  then show ?thesis by blast
qed

theorem class_cache_bounded_witness:
  "length (fst (classifyTurnLLM 0 1 sure_answer ''rsi on gold?'' ''google/gemini-3.5-flash-lite'' sample_model_env [])) \<le> 200"
proof -
  obtain c r where e: "classifyTurnLLM 0 1 sure_answer ''rsi on gold?'' ''google/gemini-3.5-flash-lite'' sample_model_env [] = (c, r)" by fastforce
  show ?thesis
    using class_cache_bounded[OF e] e by (simp add: CLASS_MAX_ENTRIES_def)
qed

end
