(* ===== verification/Shared_Cache.thy ===== *)
theory Shared_Cache
  imports Memory_Cache Symbols
begin

text \<open>
  The rest of the cache module of the data layer (\<open>packages/data/src/cache\<close>): the keys and tags
  (\<open>keys.ts\<close>), the lifetimes (\<open>ttl.ts\<close>), the registry of one cache per tenant with its eviction
  (\<open>index.ts\<close>) and the cache on a Redis server (\<open>redis.ts\<close>). The server is not part of the
  repository: what its commands answer, and whether the client calls itself open, are arguments, and
  the commands the code issues are part of a result. What a value becomes when it is written as JSON
  and read back is left out: an entry read is an entry written.
\<close>

section \<open>Keys and tags\<close>

datatype cache_resource =
    Price_resource | Candles_resource | Indicator_resource | News_list | News_article
  | Calendar_day | Calendar_week | Fred_series

fun resource_name :: "cache_resource \<Rightarrow> string" where
  "resource_name Price_resource = ''price''"
| "resource_name Candles_resource = ''candles''"
| "resource_name Indicator_resource = ''indicator''"
| "resource_name News_list = ''news-list''"
| "resource_name News_article = ''news-article''"
| "resource_name Calendar_day = ''calendar-day''"
| "resource_name Calendar_week = ''calendar-week''"
| "resource_name Fred_series = ''fred-series''"

record key_parts =
  kp_resource :: cache_resource
  kp_symbol :: "string option"
  kp_tf :: "timeframe option"
  kp_extra :: "string option"
  kp_tenantId :: "string option"

definition NULL_PART :: string where "NULL_PART = ''_''"

definition part_or_null :: "string option \<Rightarrow> string" where
  "part_or_null x = (case x of None \<Rightarrow> NULL_PART | Some s \<Rightarrow> s)"

definition cacheKey :: "key_parts \<Rightarrow> string" where
  "cacheKey p =
     (let base = js_join (CHR '':'') [''hfx'', resource_name (kp_resource p), part_or_null (kp_symbol p),
        part_or_null (map_option timeframe_name (kp_tf p)), part_or_null (kp_extra p)]
      in case kp_tenantId p of
           None \<Rightarrow> base
         | Some t \<Rightarrow> if t = [] then base else ''t:'' @ t @ '':'' @ base)"

definition cacheTag :: "cache_resource \<Rightarrow> string option \<Rightarrow> string" where
  "cacheTag r symbol =
     (case symbol of
        None \<Rightarrow> ''hfx:'' @ resource_name r
      | Some s \<Rightarrow> if s = [] then ''hfx:'' @ resource_name r else ''hfx:'' @ resource_name r @ '':'' @ s)"

section \<open>Lifetimes\<close>

record ttl_policy =
  tp_ttlSeconds :: int
  tp_maxStaleSeconds :: int

definition SECOND :: int where "SECOND = 1"
definition MINUTE_SECONDS :: int where "MINUTE_SECONDS = 60"
definition HOUR_SECONDS :: int where "HOUR_SECONDS = 60 * MINUTE_SECONDS"
definition DAY_SECONDS :: int where "DAY_SECONDS = 24 * HOUR_SECONDS"

definition PRICE_TTL :: ttl_policy where
  "PRICE_TTL = \<lparr>tp_ttlSeconds = 3 * SECOND, tp_maxStaleSeconds = 10 * SECOND\<rparr>"

definition candleTtl :: "timeframe \<Rightarrow> bool \<Rightarrow> ttl_policy" where
  "candleTtl tf lastBar =
     (if \<not> lastBar then \<lparr>tp_ttlSeconds = 10 * MINUTE_SECONDS, tp_maxStaleSeconds = 1 * DAY_SECONDS\<rparr>
      else if tf = M1 then \<lparr>tp_ttlSeconds = 5 * SECOND, tp_maxStaleSeconds = 1 * MINUTE_SECONDS\<rparr>
      else \<lparr>tp_ttlSeconds = 30 * SECOND, tp_maxStaleSeconds = 5 * MINUTE_SECONDS\<rparr>)"

definition NEWS_LIST_TTL :: ttl_policy where
  "NEWS_LIST_TTL = \<lparr>tp_ttlSeconds = 60 * SECOND, tp_maxStaleSeconds = 10 * MINUTE_SECONDS\<rparr>"

definition NEWS_ARTICLE_TTL :: ttl_policy where
  "NEWS_ARTICLE_TTL = \<lparr>tp_ttlSeconds = 24 * HOUR_SECONDS, tp_maxStaleSeconds = 7 * DAY_SECONDS\<rparr>"

definition CALENDAR_DAY_TTL :: ttl_policy where
  "CALENDAR_DAY_TTL = \<lparr>tp_ttlSeconds = 5 * MINUTE_SECONDS, tp_maxStaleSeconds = 1 * HOUR_SECONDS\<rparr>"

definition CALENDAR_WEEK_TTL :: ttl_policy where
  "CALENDAR_WEEK_TTL = \<lparr>tp_ttlSeconds = 15 * MINUTE_SECONDS, tp_maxStaleSeconds = 6 * HOUR_SECONDS\<rparr>"

definition FRED_SERIES_TTL :: ttl_policy where
  "FRED_SERIES_TTL = \<lparr>tp_ttlSeconds = 6 * HOUR_SECONDS, tp_maxStaleSeconds = 7 * DAY_SECONDS\<rparr>"

section \<open>One cache per tenant\<close>

text \<open>A cache object is known by its number; the kind is fixed when it is made.\<close>

datatype cache_kind = Memory_kind | Redis_kind string

record tenant_cache =
  tc_id :: nat
  tc_kind :: cache_kind

record tenant_registry =
  tr_caches :: "(string, tenant_cache) js_map"
  tr_access :: "(string, ms) js_map"
  tr_next :: nat

definition empty_registry :: tenant_registry where
  "empty_registry = \<lparr>tr_caches = [], tr_access = [], tr_next = 0\<rparr>"

definition GLOBAL_TENANT :: string where "GLOBAL_TENANT = ''__global__''"

definition MAX_TENANT_CACHES :: nat where "MAX_TENANT_CACHES = 500"

text \<open>The first entry of the least time, the global one aside.\<close>

fun lru_scan :: "(string \<times> ms) list \<Rightarrow> (string \<times> ms) option \<Rightarrow> (string \<times> ms) option" where
  "lru_scan [] best = best"
| "lru_scan ((ns, time) # m) best =
     lru_scan m (if ns = GLOBAL_TENANT then best
       else case best of None \<Rightarrow> Some (ns, time)
         | Some (b, lruTime) \<Rightarrow> if time < lruTime then Some (ns, time) else best)"

lemma lru_scan_member: "lru_scan m best = Some (ns, t) \<Longrightarrow> (ns, t) \<in> set m \<or> best = Some (ns, t)"
  by (induction m best rule: lru_scan.induct) (auto split: if_splits option.splits)

lemma js_delete_shorter: "k \<in> set (js_keys m) \<Longrightarrow> length (js_delete k m) < length m"
  by (auto simp: js_delete_def js_keys_def intro: length_filter_less)

text \<open>The loop of the eviction; the caches it cleared are returned.\<close>

function evict_tenants :: "tenant_registry \<Rightarrow> tenant_cache list \<Rightarrow> tenant_registry \<times> tenant_cache list" where
  "evict_tenants r cleared =
     (if length (tr_caches r) > MAX_TENANT_CACHES then
        (case lru_scan (tr_access r) None of
           None \<Rightarrow> (r, cleared)
         | Some (ns, _) \<Rightarrow>
             if ns = [] then (r, cleared)
             else evict_tenants (r\<lparr>tr_caches := js_delete ns (tr_caches r), tr_access := js_delete ns (tr_access r)\<rparr>)
               (cleared @ (case js_get (tr_caches r) ns of None \<Rightarrow> [] | Some c \<Rightarrow> [c])))
      else (r, cleared))"
  by pat_completeness auto

termination
  by (relation "measure (\<lambda>(r, _). length (tr_access r))")
    (auto dest!: lru_scan_member intro!: js_delete_shorter simp: js_keys_def rev_image_eqI)

declare evict_tenants.simps [simp del]

definition evictLruTenantsIfNeeded :: "tenant_registry \<Rightarrow> tenant_registry \<times> tenant_cache list" where
  "evictLruTenantsIfNeeded r = evict_tenants r []"

definition namespace_of :: "string option \<Rightarrow> string" where
  "namespace_of tenantId = (case tenantId of None \<Rightarrow> GLOBAL_TENANT | Some t \<Rightarrow> t)"

definition enrol :: "tenant_registry \<Rightarrow> string \<Rightarrow> tenant_cache \<Rightarrow> ms \<Rightarrow> tenant_registry \<times> tenant_cache list" where
  "enrol r ns cache now =
     (let r1 = r\<lparr>tr_caches := js_set ns cache (tr_caches r), tr_access := js_set ns now (tr_access r)\<rparr>
      in if ns \<noteq> GLOBAL_TENANT then evictLruTenantsIfNeeded r1 else (r1, []))"

text \<open>\<open>getDefaultCache\<close> and its synchronous twin: the registry, the cache and the caches cleared.\<close>

definition getDefaultCache ::
  "tenant_registry \<Rightarrow> string option \<Rightarrow> string option \<Rightarrow> ms \<Rightarrow> tenant_registry \<times> tenant_cache \<times> tenant_cache list" where
  "getDefaultCache r redisUrl tenantId now =
     (let ns = namespace_of tenantId in
      case js_get (tr_caches r) ns of
        Some existing \<Rightarrow> (r\<lparr>tr_access := js_set ns now (tr_access r)\<rparr>, existing, [])
      | None \<Rightarrow>
          let cache = \<lparr>tc_id = tr_next r,
                tc_kind = (case redisUrl of
                   None \<Rightarrow> Memory_kind
                 | Some url \<Rightarrow> if url = [] then Memory_kind else Redis_kind (''cache:'' @ ns @ '':''))\<rparr>;
              (r', cleared) = enrol (r\<lparr>tr_next := tr_next r + 1\<rparr>) ns cache now
          in (r', cache, cleared))"

definition setDefaultCache :: "tenant_registry \<Rightarrow> tenant_cache \<Rightarrow> string option \<Rightarrow> ms \<Rightarrow> tenant_registry \<times> tenant_cache list" where
  "setDefaultCache r c tenantId now = enrol r (namespace_of tenantId) c now"

definition clearAllTenantCaches :: "tenant_registry \<Rightarrow> tenant_registry \<times> tenant_cache list" where
  "clearAllTenantCaches r = (r\<lparr>tr_caches := [], tr_access := []\<rparr>, map snd (tr_caches r))"

section \<open>The cache on a server\<close>

text \<open>What is stored under a key, and what reading it gives: the reply of \<open>GET\<close>, parsed.\<close>

record 'v redis_value =
  rv_v :: 'v
  rv_p :: ms
  rv_h :: ms
  rv_t :: "string list"

datatype 'v redis_reply = Nothing_stored | Stored "'v redis_value" | Read_failed

datatype 'v redis_command =
    REDIS_GET string
  | REDIS_SET string "'v redis_value"
  | REDIS_DEL "string list"
  | REDIS_SADD string string
  | REDIS_SMEMBERS string

text \<open>
  The connection: whether a client is kept, and the promise of the first connect, which is running
  or has resolved. A rejected connect forgets the promise. \<open>rc_connects\<close> counts the calls of
  \<open>connect\<close>.
\<close>

datatype connect_promise = Connecting | Resolved

record redis_conn =
  rc_client :: bool
  rc_promise :: "connect_promise option"
  rc_connects :: nat

definition new_conn :: redis_conn where
  "new_conn = \<lparr>rc_client = False, rc_promise = None, rc_connects = 0\<rparr>"

text \<open>The call up to its first wait; \<open>isOpen\<close> is what the client answers when there is one.\<close>

definition ensureConnected :: "bool \<Rightarrow> redis_conn \<Rightarrow> redis_conn" where
  "ensureConnected isOpen c =
     (if rc_client c \<and> isOpen then c
      else case rc_promise c of
          Some _ \<Rightarrow> c
        | None \<Rightarrow> c\<lparr>rc_promise := Some Connecting, rc_connects := rc_connects c + 1\<rparr>)"

text \<open>The end of the running connect.\<close>

definition connect_settles :: "bool \<Rightarrow> redis_conn \<Rightarrow> redis_conn" where
  "connect_settles ok c =
     (if rc_promise c \<noteq> Some Connecting then c
      else if ok then c\<lparr>rc_client := True, rc_promise := Some Resolved\<rparr>
      else c\<lparr>rc_promise := None\<rparr>)"

definition ledgerKey :: "string \<Rightarrow> string \<Rightarrow> string" where
  "ledgerKey keyPrefix key = keyPrefix @ key"

definition tagKey :: "string \<Rightarrow> string \<Rightarrow> string" where
  "tagKey keyPrefix tag = keyPrefix @ ''tag:'' @ tag"

record fetch_options =
  fo_ttlSeconds :: int
  fo_maxStaleSeconds :: "int option"
  fo_tags :: "string list option"

record 'v fetched =
  fd_value :: 'v
  fd_producedAt :: ms
  fd_stale :: bool

definition swr_ms :: "fetch_options \<Rightarrow> ms" where
  "swr_ms o' = (case fo_maxStaleSeconds o' of None \<Rightarrow> 0 | Some s \<Rightarrow> s) * 1000"

definition tags_of :: "fetch_options \<Rightarrow> string list" where
  "tags_of o' = (case fo_tags o' of None \<Rightarrow> [] | Some ts \<Rightarrow> ts)"

definition cache_envelope :: "'v \<Rightarrow> ms \<Rightarrow> fetch_options \<Rightarrow> 'v redis_value" where
  "cache_envelope v producedAt o' = \<lparr>rv_v = v, rv_p = producedAt,
     rv_h = producedAt + fo_ttlSeconds o' * 1000 + swr_ms o', rv_t = tags_of o'\<rparr>"

text \<open>
  \<open>fetchWithMeta\<close>: whether the connection is there, the clock, the two replies the code may read and
  the outcome of the producer are arguments. The results: the answer, whether the producer was
  called, the commands issued.
\<close>

definition redis_fetchWithMeta ::
  "string \<Rightarrow> bool \<Rightarrow> string \<Rightarrow> fetch_options \<Rightarrow> ms \<Rightarrow> 'v redis_reply \<Rightarrow> 'e + 'v \<Rightarrow> ms \<Rightarrow> 'v redis_reply
     \<Rightarrow> ('e + 'v fetched) \<times> bool \<times> 'v redis_command list" where
  "redis_fetchWithMeta keyPrefix online key o' now reply outcome producedAt reply2 =
     (if \<not> online then
        (case outcome of Inl e \<Rightarrow> Inl e | Inr v \<Rightarrow> Inr \<lparr>fd_value = v, fd_producedAt = producedAt, fd_stale = False\<rparr>, True, [])
      else
        let lKey = ledgerKey keyPrefix key;
            ttlMs = fo_ttlSeconds o' * 1000;
            swrMs = swr_ms o';
            ask = (\<lambda>cmds. case outcome of
                Inr v \<Rightarrow>
                  (Inr \<lparr>fd_value = v, fd_producedAt = producedAt, fd_stale = False\<rparr>, True,
                   cmds @ [REDIS_SET lKey (cache_envelope v producedAt o')]
                     @ map (\<lambda>t. REDIS_SADD (tagKey keyPrefix t) lKey) (tags_of o'))
              | Inl err \<Rightarrow>
                  (case reply2 of
                     Stored e \<Rightarrow>
                       if swrMs > 0 \<and> rv_h e > now
                       then Inr \<lparr>fd_value = rv_v e, fd_producedAt = rv_p e, fd_stale = True\<rparr> else Inl err
                   | _ \<Rightarrow> Inl err, True, cmds @ [REDIS_GET lKey]))
        in case reply of
             Stored e \<Rightarrow>
               if rv_p e + ttlMs > now then
                 (Inr \<lparr>fd_value = rv_v e, fd_producedAt = rv_p e, fd_stale = False\<rparr>, False, [REDIS_GET lKey])
               else if swrMs > 0 \<and> rv_h e > now then
                 (Inr \<lparr>fd_value = rv_v e, fd_producedAt = rv_p e, fd_stale = True\<rparr>, False, [REDIS_GET lKey])
               else ask [REDIS_GET lKey, REDIS_DEL [lKey]]
           | _ \<Rightarrow> ask [REDIS_GET lKey])"

definition redis_fetch ::
  "string \<Rightarrow> bool \<Rightarrow> string \<Rightarrow> int \<Rightarrow> string list \<Rightarrow> ms \<Rightarrow> 'v redis_reply \<Rightarrow> 'e + 'v \<Rightarrow> ms \<Rightarrow> 'v redis_reply
     \<Rightarrow> ('e + 'v) \<times> bool \<times> 'v redis_command list" where
  "redis_fetch keyPrefix online key ttlSeconds tags now reply outcome producedAt reply2 =
     (let (r, asked, cmds) = redis_fetchWithMeta keyPrefix online key
        \<lparr>fo_ttlSeconds = ttlSeconds, fo_maxStaleSeconds = None, fo_tags = Some tags\<rparr> now reply outcome producedAt reply2
      in (map_sum id fd_value r, asked, cmds))"

definition redis_invalidateTag :: "string \<Rightarrow> bool \<Rightarrow> string \<Rightarrow> string list option \<Rightarrow> 'v redis_command list" where
  "redis_invalidateTag keyPrefix online tag members =
     (if \<not> online then []
      else REDIS_SMEMBERS (tagKey keyPrefix tag) #
        (case members of
           None \<Rightarrow> []
         | Some ms \<Rightarrow> if ms = [] then [] else [REDIS_DEL (ms @ [tagKey keyPrefix tag])]))"

text \<open>
  The pages of the scan, each with its cursor: a page with cursor 0 is the last one. A scan that
  fails ends the loop, as does the end of the list.
\<close>

fun redis_clear :: "(nat \<times> string list) list \<Rightarrow> 'v redis_command list" where
  "redis_clear [] = []"
| "redis_clear ((cursor, keys) # pages) =
     (if keys = [] then [] else [REDIS_DEL keys]) @ (if cursor = 0 then [] else redis_clear pages)"

section \<open>Keys tell requests apart\<close>

definition no_colon :: "string \<Rightarrow> bool" where
  "no_colon s \<longleftrightarrow> CHR '':'' \<notin> set s"

lemma cut_at_colon: "no_colon a \<Longrightarrow> no_colon b \<Longrightarrow> a @ CHR '':'' # s = b @ CHR '':'' # t \<longleftrightarrow> a = b \<and> s = t"
  unfolding no_colon_def
proof (induction a arbitrary: b)
  case Nil
  then show ?case by (cases b) auto
next
  case (Cons x a)
  then show ?case by (cases b) auto
qed

lemma resource_name_inj: "resource_name r = resource_name r' \<longleftrightarrow> r = r'"
  by (cases r; cases r') simp_all

lemma resource_no_colon: "no_colon (resource_name r)"
  by (cases r) (simp_all add: no_colon_def)

lemma timeframe_part: "part_or_null (map_option timeframe_name a) = part_or_null (map_option timeframe_name b) \<longleftrightarrow> a = b"
  "no_colon (part_or_null (map_option timeframe_name a))"
proof -
  have n: "timeframe_name t \<noteq> NULL_PART" "no_colon (timeframe_name t)" for t
    by (cases t; simp add: NULL_PART_def no_colon_def)+
  have i: "timeframe_name t = timeframe_name t' \<longleftrightarrow> t = t'" for t t'
    by (cases t; cases t') simp_all
  show "part_or_null (map_option timeframe_name a) = part_or_null (map_option timeframe_name b) \<longleftrightarrow> a = b"
    "no_colon (part_or_null (map_option timeframe_name a))"
    using n n(1)[symmetric] i by (auto simp: part_or_null_def no_colon_def NULL_PART_def split: option.splits)
qed

text \<open>The parts a key is made of when they are well chosen: only the last part may contain a colon.\<close>

definition parts_ok :: "key_parts \<Rightarrow> bool" where
  "parts_ok p \<longleftrightarrow> kp_symbol p \<noteq> Some NULL_PART \<and> kp_extra p \<noteq> Some NULL_PART \<and> kp_tenantId p \<noteq> Some []
     \<and> no_colon (part_or_null (kp_symbol p)) \<and> (case kp_tenantId p of None \<Rightarrow> True | Some t \<Rightarrow> no_colon t)"

lemma part_or_null_inj: "a \<noteq> Some NULL_PART \<Longrightarrow> b \<noteq> Some NULL_PART \<Longrightarrow> part_or_null a = part_or_null b \<longleftrightarrow> a = b"
  by (auto simp: part_or_null_def split: option.splits)

definition base_key :: "key_parts \<Rightarrow> string" where
  "base_key p = ''hfx'' @ CHR '':'' # resource_name (kp_resource p) @ CHR '':'' # part_or_null (kp_symbol p)
     @ CHR '':'' # part_or_null (map_option timeframe_name (kp_tf p)) @ CHR '':'' # part_or_null (kp_extra p)"

lemma base_key_inj:
  assumes "parts_ok p" "parts_ok q" "base_key p = base_key q"
  shows "kp_resource p = kp_resource q \<and> kp_symbol p = kp_symbol q \<and> kp_tf p = kp_tf q \<and> kp_extra p = kp_extra q"
proof -
  have nc: "no_colon (part_or_null (kp_symbol p))" "no_colon (part_or_null (kp_symbol q))"
    using assms by (auto simp: parts_ok_def)
  have "resource_name (kp_resource p) = resource_name (kp_resource q) \<and> part_or_null (kp_symbol p) = part_or_null (kp_symbol q)
      \<and> part_or_null (map_option timeframe_name (kp_tf p)) = part_or_null (map_option timeframe_name (kp_tf q))
      \<and> part_or_null (kp_extra p) = part_or_null (kp_extra q)"
    using assms(3) unfolding base_key_def
    by (simp add: cut_at_colon[OF resource_no_colon resource_no_colon] cut_at_colon[OF nc]
        cut_at_colon[OF timeframe_part(2) timeframe_part(2)])
  then show ?thesis
    using assms(1,2) by (simp add: resource_name_inj timeframe_part(1) parts_ok_def part_or_null_inj)
qed

lemma cacheKey_base: "cacheKey p = (case kp_tenantId p of None \<Rightarrow> [] | Some t \<Rightarrow> if t = [] then [] else ''t:'' @ t @ '':'') @ base_key p"
  by (simp add: cacheKey_def base_key_def Let_def split: option.splits)

text \<open>
  distinct requests have distinct cache keys, and the keys of two tenants never meet, whatever
  the discriminator of the request contains (colons included).
\<close>

theorem cache_keys_distinct:
  assumes "parts_ok p" "parts_ok q"
  shows "cacheKey p = cacheKey q \<longleftrightarrow> p = q"
proof
  assume eq: "cacheKey p = cacheKey q"
  have t: "kp_tenantId p = kp_tenantId q \<and> base_key p = base_key q"
  proof (cases "kp_tenantId p"; cases "kp_tenantId q")
    fix t t' assume s: "kp_tenantId p = Some t" "kp_tenantId q = Some t'"
    then have "t \<noteq> []" "t' \<noteq> []" "no_colon t" "no_colon t'"
      using assms by (auto simp: parts_ok_def)
    then show ?thesis
      using eq s by (simp add: cacheKey_base cut_at_colon)
  qed (use eq assms in \<open>simp_all add: cacheKey_base base_key_def parts_ok_def split: if_splits\<close>)
  then show "p = q"
    using base_key_inj[OF assms] by simp
qed simp

section \<open>The registry of tenants\<close>

text \<open>Caches and access times have the same keys, in the same order.\<close>

definition registry_inv :: "tenant_registry \<Rightarrow> bool" where
  "registry_inv r \<longleftrightarrow> js_wf (tr_caches r) \<and> js_keys (tr_caches r) = js_keys (tr_access r)
     \<and> list_all (\<lambda>(ns, c). tc_id c < tr_next r) (tr_caches r)"

definition over_cap :: "tenant_registry \<Rightarrow> nat" where
  "over_cap r = MAX_TENANT_CACHES + (if GLOBAL_TENANT \<in> set (js_keys (tr_caches r)) then 1 else 0)"

lemma js_keys_delete: "js_keys (js_delete k m) = filter (\<lambda>x. x \<noteq> k) (js_keys m)"
  by (induction m) (auto simp: js_keys_def js_delete_def)

lemma list_all_js_delete: "list_all P m \<Longrightarrow> list_all P (js_delete k m)"
  by (auto simp: js_delete_def list_all_iff)

lemma list_all_js_set: "list_all P m \<Longrightarrow> P (k, v) \<Longrightarrow> list_all P (js_set k v m)"
  using set_js_set[of k v m] by (auto simp: list_all_iff)

lemma evict_inv:
  "registry_inv r \<Longrightarrow> registry_inv (fst (evict_tenants r cleared)) \<and> tr_next (fst (evict_tenants r cleared)) = tr_next r"
proof (induction r cleared rule: evict_tenants.induct)
  case (1 r cleared)
  show ?case
  proof (cases "length (tr_caches r) > MAX_TENANT_CACHES \<and> (\<exists>ns t. lru_scan (tr_access r) None = Some (ns, t) \<and> ns \<noteq> [])")
    case True
    then obtain ns t where l: "lru_scan (tr_access r) None = Some (ns, t)" "ns \<noteq> []" "length (tr_caches r) > MAX_TENANT_CACHES"
      by blast
    have "registry_inv (r\<lparr>tr_caches := js_delete ns (tr_caches r), tr_access := js_delete ns (tr_access r)\<rparr>)"
      using 1(2) by (simp add: registry_inv_def js_keys_delete js_wf_delete list_all_js_delete)
    then show ?thesis
      using 1(1)[OF l(3,1) refl l(2)] l by (simp add: evict_tenants.simps[of r])
  next
    case False
    then show ?thesis
      using 1(2) by (subst (1 2) evict_tenants.simps) (auto split: option.splits)
  qed
qed

lemma lru_scan_None: "lru_scan m None = None \<longleftrightarrow> (\<forall>p\<in>set m. fst p = GLOBAL_TENANT)"
proof -
  have S: "lru_scan m (Some b) \<noteq> None" for m b
    by (induction m "Some b" arbitrary: b rule: lru_scan.induct) (auto split: option.splits)
  show ?thesis
    by (induction m) (auto simp: S split: if_splits)
qed

lemma all_equal_short: "distinct xs \<Longrightarrow> \<forall>x\<in>set xs. x = a \<Longrightarrow> length xs \<le> 1"
  by (cases xs; cases "tl xs") auto

text \<open>The loop reaches the cap unless the least recent name is empty.\<close>

lemma evict_tenants_length:
  "registry_inv r \<Longrightarrow> [] \<notin> set (js_keys (tr_access r)) \<Longrightarrow> length (tr_caches (fst (evict_tenants r cleared))) \<le> MAX_TENANT_CACHES"
proof (induction r cleared rule: evict_tenants.induct)
  case (1 r cleared)
  show ?case
  proof (cases "length (tr_caches r) > MAX_TENANT_CACHES")
    case True
    show ?thesis
    proof (cases "lru_scan (tr_access r) None")
      case None
      then have "\<forall>x\<in>set (js_keys (tr_caches r)). x = GLOBAL_TENANT"
        using 1(2) by (auto simp: lru_scan_None registry_inv_def js_keys_def)
      moreover have "distinct (js_keys (tr_caches r))"
        using 1(2) unfolding registry_inv_def js_wf_def by blast
      ultimately have "length (tr_caches r) \<le> 1"
        using all_equal_short by (fastforce simp: js_keys_def)
      then show ?thesis
        using True by (simp add: MAX_TENANT_CACHES_def)
    next
      case (Some p)
      obtain ns t where p: "p = (ns, t)"
        by fastforce
      have "(ns, t) \<in> set (tr_access r)"
        using lru_scan_member[of "tr_access r" None ns t] Some p by simp
      then have "ns \<noteq> []"
        using 1(3) by (force simp: js_keys_def)
      moreover have "registry_inv (r\<lparr>tr_caches := js_delete ns (tr_caches r), tr_access := js_delete ns (tr_access r)\<rparr>)"
        using 1(2) by (simp add: registry_inv_def js_keys_delete js_wf_delete list_all_js_delete)
      ultimately show ?thesis
        using 1(1)[OF True Some p[symmetric]] 1(3) True Some p by (subst evict_tenants.simps) simp
    qed
  next
    case False
    then show ?thesis
      by (subst evict_tenants.simps) simp
  qed
qed

lemma evict_shrinks: "set (tr_caches (fst (evict_tenants r cleared))) \<subseteq> set (tr_caches r)"
proof (induction r cleared rule: evict_tenants.induct)
  case (1 r cleared)
  show ?case
  proof (cases "length (tr_caches r) > MAX_TENANT_CACHES \<and> (\<exists>ns t. lru_scan (tr_access r) None = Some (ns, t) \<and> ns \<noteq> [])")
    case True
    then obtain ns t where l: "lru_scan (tr_access r) None = Some (ns, t)" "ns \<noteq> []" "length (tr_caches r) > MAX_TENANT_CACHES"
      by blast
    then show ?thesis
      using 1[OF l(3,1) refl l(2)] by (subst evict_tenants.simps) (auto simp: js_delete_def)
  next
    case False
    then show ?thesis
      by (subst evict_tenants.simps) (auto split: option.splits)
  qed
qed

lemma enrol_facts:
  assumes "registry_inv r" "tc_id c < tr_next r"
  shows "registry_inv (fst (enrol r ns c now)) \<and> tr_next (fst (enrol r ns c now)) = tr_next r
    \<and> set (tr_caches (fst (enrol r ns c now))) \<subseteq> insert (ns, c) (set (tr_caches r))"
proof -
  let ?r = "r\<lparr>tr_caches := js_set ns c (tr_caches r), tr_access := js_set ns now (tr_access r)\<rparr>"
  have "registry_inv ?r"
    using assms by (simp add: registry_inv_def js_keys_set js_wf_set list_all_js_set)
  then show ?thesis
    using evict_inv[of ?r "[]"] evict_shrinks[of ?r "[]"] set_js_set[of ns c "tr_caches r"]
    by (auto simp: enrol_def Let_def evictLruTenantsIfNeeded_def)
qed

lemma enrol_length:
  assumes "registry_inv r" "tc_id c < tr_next r" "[] \<notin> insert ns (set (js_keys (tr_caches r)))"
    and "length (tr_caches r) \<le> over_cap r"
  shows "length (tr_caches (fst (enrol r ns c now))) \<le> over_cap (fst (enrol r ns c now))"
proof -
  let ?r = "r\<lparr>tr_caches := js_set ns c (tr_caches r), tr_access := js_set ns now (tr_access r)\<rparr>"
  show ?thesis
  proof (cases "ns = GLOBAL_TENANT")
    case True
    then show ?thesis
      using assms(4) by (simp add: enrol_def Let_def over_cap_def length_js_set split: if_splits)
  next
    case False
    have "registry_inv ?r"
      using assms by (simp add: registry_inv_def js_keys_set js_wf_set list_all_js_set)
    moreover have "[] \<notin> set (js_keys (tr_access ?r))"
      using assms by (simp add: registry_inv_def)
    ultimately have "length (tr_caches (fst (evict_tenants ?r []))) \<le> MAX_TENANT_CACHES"
      by (rule evict_tenants_length)
    then show ?thesis
      using False by (simp add: enrol_def Let_def evictLruTenantsIfNeeded_def over_cap_def)
  qed
qed

lemma lru_scan_append: "lru_scan (m @ m') best = lru_scan m' (lru_scan m best)"
  by (induction m best rule: lru_scan.induct) simp_all

lemma evict_keeps_newest:
  "registry_inv r \<Longrightarrow> tr_access r = A @ [(ns, now)] \<Longrightarrow> list_all (\<lambda>p. snd p \<le> now) A
    \<Longrightarrow> js_get (tr_caches r) ns = Some c \<Longrightarrow> js_get (tr_caches (fst (evict_tenants r cleared))) ns = Some c"
proof (induction r cleared arbitrary: A rule: evict_tenants.induct)
  case (1 r cleared)
  show ?case
  proof (cases "length (tr_caches r) > MAX_TENANT_CACHES \<and> (\<exists>b t. lru_scan (tr_access r) None = Some (b, t) \<and> b \<noteq> [])")
    case True
    then obtain b t where l: "lru_scan (tr_access r) None = Some (b, t)" "b \<noteq> []" "length (tr_caches r) > MAX_TENANT_CACHES"
      by blast
    have d: "distinct (js_keys (tr_caches r))"
      using 1(2) unfolding registry_inv_def js_wf_def by blast
    have keys: "js_keys (tr_caches r) = js_keys A @ [ns]"
      using 1(2,3) by (simp add: registry_inv_def js_keys_def)
    have "lru_scan A None \<noteq> None"
    proof
      assume "lru_scan A None = None"
      then have "length A \<le> 1"
        using all_equal_short[of "js_keys A" GLOBAL_TENANT] keys d by (simp add: lru_scan_None js_keys_def)
      moreover have "length (tr_caches r) = Suc (length A)"
        using arg_cong[OF keys, of length] by (simp add: js_keys_def)
      ultimately show False
        using l(3) by (simp add: MAX_TENANT_CACHES_def)
    qed
    then obtain b' t' where s: "lru_scan A None = Some (b', t')"
      by force
    then have m: "(b', t') \<in> set A"
      using lru_scan_member by force
    then have "t' \<le> now"
      using 1(4) by (auto simp: list_all_iff)
    then have b: "b = b'"
      using l(1) 1(3) s by (auto simp: lru_scan_append split: if_splits)
    have "b' \<in> set (js_keys A)"
      using m by (force simp: js_keys_def)
    then have ne: "b \<noteq> ns"
      using keys d b by auto
    let ?r = "r\<lparr>tr_caches := js_delete b (tr_caches r), tr_access := js_delete b (tr_access r)\<rparr>"
    have "js_get (tr_caches (fst (evict_tenants ?r (cleared @ (case js_get (tr_caches r) b of None \<Rightarrow> [] | Some c \<Rightarrow> [c]))))) ns = Some c"
    proof (rule 1(1)[OF l(3,1) refl l(2)])
      show "registry_inv ?r"
        using 1(2) by (simp add: registry_inv_def js_keys_delete js_wf_delete list_all_js_delete)
      show "tr_access ?r = js_delete b A @ [(ns, now)]"
        using 1(3) ne by (simp add: js_delete_def)
    qed (use 1(4,5) ne in \<open>simp_all add: list_all_js_delete map_laws\<close>)
    then show ?thesis
      using l by (subst evict_tenants.simps) simp
  next
    case False
    then show ?thesis
      using 1(5) by (subst evict_tenants.simps) (auto split: option.splits)
  qed
qed

lemma ids_grow: "list_all (\<lambda>(ns, c). tc_id c < n) m \<Longrightarrow> list_all (\<lambda>(ns, c). tc_id c < Suc n) m"
  by (auto simp: list_all_iff)

lemma js_set_absent: "k \<notin> set (js_keys m) \<Longrightarrow> js_set k v m = m @ [(k, v)]"
  by (induction k v m rule: js_set.induct) (auto simp: js_keys_def)

text \<open>
  while the clock does not run backwards, the cache a caller is handed is the registered one of
  its tenant: the eviction never removes the tenant that is being served.
\<close>

theorem served_tenant_is_kept:
  assumes "registry_inv r" "list_all (\<lambda>p. snd p \<le> now) (tr_access r)"
    and "getDefaultCache r url tenant now = (r', c, cleared)"
  shows "js_get (tr_caches r') (namespace_of tenant) = Some c"
proof (cases "js_get (tr_caches r) (namespace_of tenant)")
  case (Some e)
  then show ?thesis
    using assms(3) by (auto simp: getDefaultCache_def Let_def)
next
  case None
  let ?ns = "namespace_of tenant"
  let ?r = "r\<lparr>tr_next := tr_next r + 1, tr_caches := js_set ?ns c (tr_caches r), tr_access := js_set ?ns now (tr_access r)\<rparr>"
  have c: "fst (enrol (r\<lparr>tr_next := tr_next r + 1\<rparr>) ?ns c now) = r'" "tc_id c = tr_next r"
    using assms(3) None by (auto simp: getDefaultCache_def Let_def split: prod.splits)
  have a: "?ns \<notin> set (js_keys (tr_access r))"
    using None assms(1) by (simp add: js_get_None_iff registry_inv_def)
  have "registry_inv ?r"
    using assms(1) c(2) by (simp add: registry_inv_def js_keys_set js_wf_set list_all_js_set ids_grow)
  moreover have "tr_access ?r = tr_access r @ [(?ns, now)]"
    using js_set_absent[OF a] by simp
  ultimately have "js_get (tr_caches (fst (evict_tenants ?r []))) ?ns = Some c"
    by (rule evict_keeps_newest) (use assms(2) in \<open>simp_all add: map_laws\<close>)
  then show ?thesis
    using c(1) by (auto simp: enrol_def Let_def evictLruTenantsIfNeeded_def map_laws split: if_splits)
qed

text \<open>A process serving requests of tenants: what each was handed.\<close>

fun serve_tenants ::
  "string option \<Rightarrow> (string option \<times> ms) list \<Rightarrow> tenant_registry \<Rightarrow> tenant_registry \<times> (string \<times> tenant_cache) list" where
  "serve_tenants url [] r = (r, [])"
| "serve_tenants url ((tenant, now) # reqs) r =
     (let (r1, c, cleared) = getDefaultCache r url tenant now;
          (r2, cs) = serve_tenants url reqs r1
      in (r2, (namespace_of tenant, c) # cs))"

definition owners :: "(string \<times> tenant_cache) set \<Rightarrow> bool" where
  "owners S \<longleftrightarrow> (\<forall>(ns, c)\<in>S. \<forall>(ns', c')\<in>S. tc_id c = tc_id c' \<longrightarrow> ns = ns')"

lemma owners_mono: "owners S \<Longrightarrow> T \<subseteq> S \<Longrightarrow> owners T"
  unfolding owners_def by blast

lemma owners_new:
  "owners S \<Longrightarrow> \<forall>(ns, c)\<in>S. tc_id c < tc_id d \<Longrightarrow> owners (insert (ns, d) S)"
  unfolding owners_def by fastforce

lemma get_facts:
  assumes "registry_inv r" "getDefaultCache r url tenant now = (r', c, cleared)"
  shows "registry_inv r' \<and> set (tr_caches r') \<subseteq> insert (namespace_of tenant, c) (set (tr_caches r))"
    and "(namespace_of tenant, c) \<in> set (tr_caches r) \<and> tr_next r' = tr_next r \<or> tc_id c = tr_next r \<and> tr_next r' = tr_next r + 1"
proof -
  let ?ns = "namespace_of tenant"
  show "registry_inv r' \<and> set (tr_caches r') \<subseteq> insert (?ns, c) (set (tr_caches r))"
    and "(?ns, c) \<in> set (tr_caches r) \<and> tr_next r' = tr_next r \<or> tc_id c = tr_next r \<and> tr_next r' = tr_next r + 1"
  proof (atomize (full), cases "js_get (tr_caches r) ?ns")
    case (Some e)
    then have "?ns \<in> set (js_keys (tr_access r))"
      using assms(1) js_get_in_keys by (fastforce simp: registry_inv_def)
    then show "(registry_inv r' \<and> set (tr_caches r') \<subseteq> insert (?ns, c) (set (tr_caches r)))
      \<and> ((?ns, c) \<in> set (tr_caches r) \<and> tr_next r' = tr_next r \<or> tc_id c = tr_next r \<and> tr_next r' = tr_next r + 1)"
      using assms Some by (auto simp: getDefaultCache_def Let_def registry_inv_def js_keys_set js_get_in_set)
  next
    case None
    have i: "registry_inv (r\<lparr>tr_next := tr_next r + 1\<rparr>)"
      using assms(1) by (simp add: registry_inv_def ids_grow)
    have "tc_id c = tr_next r" "r' = fst (enrol (r\<lparr>tr_next := tr_next r + 1\<rparr>) ?ns c now)"
      using assms(2) None by (auto simp: getDefaultCache_def Let_def split: prod.splits)
    then show "(registry_inv r' \<and> set (tr_caches r') \<subseteq> insert (?ns, c) (set (tr_caches r)))
      \<and> ((?ns, c) \<in> set (tr_caches r) \<and> tr_next r' = tr_next r \<or> tc_id c = tr_next r \<and> tr_next r' = tr_next r + 1)"
      using enrol_facts[OF i, of c ?ns now] by simp
  qed
qed

lemma get_length:
  assumes "registry_inv r" "getDefaultCache r url tenant now = (r', c, cleared)"
    and "[] \<notin> insert (namespace_of tenant) (set (js_keys (tr_caches r)))" "length (tr_caches r) \<le> over_cap r"
  shows "length (tr_caches r') \<le> over_cap r' \<and> [] \<notin> set (js_keys (tr_caches r'))"
proof
  show "[] \<notin> set (js_keys (tr_caches r'))"
    using get_facts(1)[OF assms(1,2)] assms(3) by (force simp: js_keys_def)
  show "length (tr_caches r') \<le> over_cap r'"
  proof (cases "js_get (tr_caches r) (namespace_of tenant)")
    case (Some e)
    then show ?thesis
      using assms(2,4) by (auto simp: getDefaultCache_def Let_def over_cap_def)
  next
    case None
    have i: "registry_inv (r\<lparr>tr_next := tr_next r + 1\<rparr>)"
      using assms(1) by (simp add: registry_inv_def ids_grow)
    have "tc_id c = tr_next r" "r' = fst (enrol (r\<lparr>tr_next := tr_next r + 1\<rparr>) (namespace_of tenant) c now)"
      using assms(2) None by (auto simp: getDefaultCache_def Let_def split: prod.splits)
    then show ?thesis
      using enrol_length[OF i, of c "namespace_of tenant" now] assms(3,4) by (simp add: over_cap_def)
  qed
qed

lemma serve_tenants_owners:
  assumes "registry_inv r" "owners (H \<union> set (tr_caches r))" "\<forall>(ns, c)\<in>H. tc_id c < tr_next r"
    and "serve_tenants url reqs r = (r', cs)"
  shows "owners (H \<union> set cs)"
  using assms
proof (induction url reqs r arbitrary: H r' cs rule: serve_tenants.induct)
  case (1 url r)
  then show ?case by (auto intro: owners_mono)
next
  case (2 url tenant now reqs r)
  obtain r1 c cleared where g: "getDefaultCache r url tenant now = (r1, c, cleared)"
    by (metis prod_cases3)
  obtain r2 cs' where s: "serve_tenants url reqs r1 = (r2, cs')"
    by fastforce
  let ?p = "(namespace_of tenant, c)"
  have cs: "cs = ?p # cs'"
    using 2(5) g s by simp
  have below: "\<forall>(ns, d)\<in>H \<union> set (tr_caches r). tc_id d < tr_next r"
    using 2(2,4) by (auto simp: registry_inv_def list_all_iff)
  have o: "owners (insert ?p (H \<union> set (tr_caches r)))"
    using get_facts(2)[OF 2(2) g]
  proof
    assume "?p \<in> set (tr_caches r) \<and> tr_next r1 = tr_next r"
    then show ?thesis using 2(3) by (simp add: insert_absorb)
  next
    assume "tc_id c = tr_next r \<and> tr_next r1 = tr_next r + 1"
    then show ?thesis using owners_new[OF 2(3), of c] below by simp
  qed
  have "owners (insert ?p H \<union> set cs')"
  proof (rule 2(1)[OF g[symmetric] refl refl _ _ _ s])
    show "registry_inv r1"
      using get_facts(1)[OF 2(2) g] by blast
    show "owners (insert ?p H \<union> set (tr_caches r1))"
      using get_facts(1)[OF 2(2) g] by (intro owners_mono[OF o]) auto
    have "tc_id c < tr_next r1 \<and> tr_next r \<le> tr_next r1"
      using get_facts(2)[OF 2(2) g] below by fastforce
    then show "\<forall>(ns, d)\<in>insert ?p H. tc_id d < tr_next r1"
      using 2(4) by fastforce
  qed
  then show ?case
    by (simp add: cs)
qed

lemma serve_tenants_length:
  assumes "registry_inv r" "[] \<notin> set (js_keys (tr_caches r))" "length (tr_caches r) \<le> over_cap r"
    and "list_all (\<lambda>(t, now). t \<noteq> Some []) reqs" "serve_tenants url reqs r = (r', cs)"
  shows "length (tr_caches r') \<le> MAX_TENANT_CACHES + 1"
  using assms
proof (induction url reqs r arbitrary: r' cs rule: serve_tenants.induct)
  case (1 url r)
  then show ?case by (auto simp: over_cap_def split: if_splits)
next
  case (2 url tenant now reqs r)
  obtain r1 c cleared where g: "getDefaultCache r url tenant now = (r1, c, cleared)"
    by (metis prod_cases3)
  obtain r2 cs' where s: "serve_tenants url reqs r1 = (r2, cs')"
    by fastforce
  have "namespace_of tenant \<noteq> []"
    using 2(5) by (auto simp: namespace_of_def GLOBAL_TENANT_def split: option.splits)
  then have l: "length (tr_caches r1) \<le> over_cap r1 \<and> [] \<notin> set (js_keys (tr_caches r1))"
    using get_length[OF 2(2) g] 2(3,4) by simp
  have "length (tr_caches r2) \<le> MAX_TENANT_CACHES + 1"
    by (rule 2(1)[OF g[symmetric] refl refl _ _ _ _ s]) (use l 2(5) get_facts(1)[OF 2(2) g] in simp_all)
  then show ?case
    using 2(6) g s by simp
qed

text \<open>
  C27: no two tenants are ever handed the same cache object, through any number of evictions and
  reconstructions, and the registry never holds more than 501 caches: the cap of 500 and the global
  one, which is created without an eviction.
\<close>

theorem tenants_isolated_and_bounded:
  assumes "serve_tenants url reqs empty_registry = (r, cs)" "list_all (\<lambda>(t, now). t \<noteq> Some []) reqs"
    and "(ns, c) \<in> set cs" "(ns', c') \<in> set cs" "tc_id c = tc_id c'"
  shows "ns = ns' \<and> length (tr_caches r) \<le> 501"
proof -
  have e: "registry_inv empty_registry" "tr_caches empty_registry = []"
    by (simp_all add: registry_inv_def empty_registry_def js_keys_def)
  have "owners ({} \<union> set cs)"
    by (rule serve_tenants_owners[OF e(1) _ _ assms(1)]) (simp_all add: e owners_def)
  then have "ns = ns'"
    using assms(3-5) unfolding owners_def by fastforce
  moreover have "length (tr_caches r) \<le> MAX_TENANT_CACHES + 1"
    by (rule serve_tenants_length[OF e(1) _ _ assms(2,1)]) (simp_all add: e js_keys_def)
  ultimately show ?thesis
    by (simp add: MAX_TENANT_CACHES_def)
qed

section \<open>A value is fresh until its lifetime is over\<close>

lemma lazySweep_keeps:
  "js_get m k = Some e \<Longrightarrow> now \<le> ce_hardExpiresAt e \<Longrightarrow> js_get (lazySweep n now m) k = Some e"
  by (induction n now m rule: lazySweep.induct) (auto split: if_splits)

text \<open>A value that was just produced is fresh until its time to live is over.\<close>

lemma resolved_is_fresh:
  assumes "now < p + ttl" "0 \<le> swr"
  shows "\<exists>c'. fetch_begin (fetch_resolve c key v p ttl swr tags) key worker now
    = (c', Fresh \<lparr>ce_value = v, ce_producedAt = p, ce_expiresAt = p + ttl, ce_hardExpiresAt = p + ttl + swr, ce_tags = tags\<rparr>)"
proof -
  let ?e = "\<lparr>ce_value = v, ce_producedAt = p, ce_expiresAt = p + ttl, ce_hardExpiresAt = p + ttl + swr, ce_tags = tags\<rparr>"
  let ?c = "fetch_resolve c key v p ttl swr tags"
  have "js_get (mc_store ?c) key = Some ?e"
    by (simp add: fetch_resolve_def map_laws)
  then have "js_get (lazySweep (maxSweep worker) now (mc_store ?c)) key = Some ?e"
    using assms by (intro lazySweep_keeps) simp_all
  then show ?thesis
    using assms by (simp add: fetch_begin_def Let_def)
qed

section \<open>How often the upstream is asked\<close>

text \<open>What the server holds under a key after a command.\<close>

fun reply_after :: "string \<Rightarrow> 'v redis_reply \<Rightarrow> 'v redis_command \<Rightarrow> 'v redis_reply" where
  "reply_after k st (REDIS_SET k' v) = (if k' = k then Stored v else st)"
| "reply_after k st (REDIS_DEL ks) = (if k \<in> set ks then Nothing_stored else st)"
| "reply_after k st cmd = st"

text \<open>Requests for one key, one after another: the times pt which the producer gave a value.\<close>

fun redis_serve ::
  "string \<Rightarrow> string \<Rightarrow> fetch_options \<Rightarrow> 'v redis_reply \<Rightarrow> (ms \<times> ('e + 'v) \<times> ms) list \<Rightarrow> ms list" where
  "redis_serve pre key o' st [] = []"
| "redis_serve pre key o' st ((now, outcome, pt) # reqs) =
     (let (r, asked, cmds) = redis_fetchWithMeta pre True key o' now st outcome pt st;
          rest = redis_serve pre key o' (foldl (reply_after (ledgerKey pre key)) st cmds) reqs
      in if asked \<and> (case outcome of Inl _ \<Rightarrow> False | Inr _ \<Rightarrow> True) then pt # rest else rest)"

lemma after_sadd: "foldl (reply_after k) st (map (\<lambda>t. REDIS_SADD (f t) g) ts) = st"
  by (induction ts) simp_all

text \<open>A reply that was written with these options.\<close>

definition written_with :: "fetch_options \<Rightarrow> 'v redis_reply \<Rightarrow> bool" where
  "written_with o' st \<longleftrightarrow> (case st of Stored v \<Rightarrow> rv_h v = rv_p v + fo_ttlSeconds o' * 1000 + swr_ms o' | _ \<Rightarrow> True)"

definition in_turn :: "(ms \<times> ('e + 'v) \<times> ms) list \<Rightarrow> bool" where
  "in_turn reqs \<longleftrightarrow> list_all (\<lambda>(now, _, pt). now \<le> pt) reqs
     \<and> sorted_wrt (\<lambda>r r'. snd (snd r) \<le> fst r') reqs"

lemma redis_serve_later:
  "list_all (\<lambda>(now, _, pt). L \<le> now \<and> now \<le> pt) reqs \<Longrightarrow> list_all (\<lambda>t. L \<le> t) (redis_serve pre key o' st reqs)"
  by (induction pre key o' st reqs rule: redis_serve.induct) (auto simp: Let_def split: prod.splits)

lemma fetch_effect:
  assumes "redis_fetchWithMeta pre True key o' now st outcome pt st = (r, asked, cmds)" "written_with o' st" "0 \<le> swr_ms o'"
  defines "st' \<equiv> foldl (reply_after (ledgerKey pre key)) st cmds"
  shows "written_with o' st'"
    and "asked \<Longrightarrow> outcome = Inr v \<Longrightarrow> st' = Stored (cache_envelope v pt o')"
    and "\<not> asked \<Longrightarrow> st' = st"
    and "asked \<Longrightarrow> st = Stored w \<Longrightarrow> rv_h w \<le> now"
  using assms(1-3) unfolding st'_def
  by (cases st; cases outcome; force simp: redis_fetchWithMeta_def Let_def after_sadd written_with_def cache_envelope_def split: if_splits)+

lemma redis_serve_gaps:
  "written_with o' st \<Longrightarrow> 0 \<le> swr_ms o' \<Longrightarrow> in_turn reqs
   \<Longrightarrow> (case st of Stored v \<Rightarrow> list_all (\<lambda>t. rv_h v \<le> t) (redis_serve pre key o' st reqs) | _ \<Rightarrow> True)
     \<and> sorted_wrt (\<lambda>t t'. t + fo_ttlSeconds o' * 1000 + swr_ms o' \<le> t') (redis_serve pre key o' st reqs)"
proof (induction pre key o' st reqs rule: redis_serve.induct)
  case (1 pre key o' st)
  then show ?case by (simp split: redis_reply.splits)
next
  case (2 pre key o' st now outcome pt reqs)
  obtain r asked cmds where f: "redis_fetchWithMeta pre True key o' now st outcome pt st = (r, asked, cmds)"
    by (metis prod_cases3)
  let ?st = "foldl (reply_after (ledgerKey pre key)) st cmds"
  let ?rest = "redis_serve pre key o' ?st reqs"
  note e = fetch_effect[OF f 2(2,3)]
  have step: "redis_serve pre key o' st ((now, outcome, pt) # reqs)
      = (if asked \<and> (case outcome of Inl _ \<Rightarrow> False | Inr _ \<Rightarrow> True) then pt # ?rest else ?rest)"
    using f by (simp add: Let_def)
  have IH: "(case ?st of Stored v \<Rightarrow> list_all (\<lambda>t. rv_h v \<le> t) ?rest | _ \<Rightarrow> True)
      \<and> sorted_wrt (\<lambda>t t'. t + fo_ttlSeconds o' * 1000 + swr_ms o' \<le> t') ?rest"
    using 2(1)[OF f[symmetric] refl refl e(1) 2(3)] 2(4) by (simp add: in_turn_def)
  have later: "list_all (\<lambda>t. now \<le> t) ?rest" "now \<le> pt"
    using 2(4) by (auto simp: in_turn_def list_all_iff split: prod.splits intro!: redis_serve_later[unfolded list_all_iff])
  show ?case
  proof (cases asked)
    case False
    then show ?thesis
      using IH e(3) by (simp only: step) simp
  next
    case True
    then have "case st of Stored v \<Rightarrow> rv_h v \<le> now | _ \<Rightarrow> True"
      using e(4) by (cases st) auto
    then have low: "case st of Stored v \<Rightarrow> list_all (\<lambda>t. rv_h v \<le> t) (pt # ?rest) | _ \<Rightarrow> True"
      using later by (auto simp: list_all_iff split: redis_reply.splits)
    show ?thesis
    proof (cases outcome)
      case (Inl err)
      then show ?thesis
        using IH low True unfolding step by (auto split: redis_reply.splits)
    next
      case (Inr v)
      then have "?st = Stored (cache_envelope v pt o')"
        using e(2) True by blast
      then show ?thesis
        using IH low True Inr unfolding step by (auto simp: cache_envelope_def list_all_iff split: redis_reply.splits)
    qed
  qed
qed

text \<open>
  with the cache on the server two values of an upstream for a key lie at least the lifetime and
  the fallback time apart, however often the key is asked for: for a price, with a lifetime of 3
  seconds, 13 seconds.
\<close>

theorem upstream_asked_after_both_limits:
  assumes "in_turn reqs" "0 \<le> swr_ms o'"
  shows "sorted_wrt (\<lambda>t t'. t + fo_ttlSeconds o' * 1000 + swr_ms o' \<le> t') (redis_serve pre key o' Nothing_stored reqs)"
  using redis_serve_gaps[of o' Nothing_stored reqs pre key] assms by (simp add: written_with_def)

section \<open>A connection that was lost\<close>

datatype conn_event = Ensure bool | Settles bool

fun conn_apply :: "redis_conn \<Rightarrow> conn_event \<Rightarrow> redis_conn" where
  "conn_apply c (Ensure isOpen) = ensureConnected isOpen c"
| "conn_apply c (Settles ok) = connect_settles ok c"

lemma resolved_stays:
  "rc_promise c = Some Resolved \<Longrightarrow> foldl conn_apply c evs = c"
proof (induction evs)
  case (Cons e evs)
  then show ?case
    by (cases e) (simp_all add: ensureConnected_def connect_settles_def)
qed simp

text \<open>
  a connect that fails is tried again by the next operation, but after one that succeeded
  \<open>connect\<close> is never called again, whether or not the client says it is open: the client is made
  without a strategy to reconnect, so a connection that is lost stays lost, and with commands that
  fail every fetch calls the producer and answers what it answers.
\<close>

theorem lost_connection_stays_lost:
  "foldl conn_apply new_conn [Ensure a, Settles False, Ensure b] = new_conn\<lparr>rc_promise := Some Connecting, rc_connects := 2\<rparr>
   \<and> foldl conn_apply new_conn (Ensure a # Settles True # evs) = \<lparr>rc_client = True, rc_promise = Some Resolved, rc_connects = 1\<rparr>
   \<and> fst (redis_fetchWithMeta pre online key o' now Read_failed outcome pt Read_failed)
       = (case outcome of Inl e \<Rightarrow> Inl e | Inr v \<Rightarrow> Inr \<lparr>fd_value = v, fd_producedAt = pt, fd_stale = False\<rparr>)
   \<and> fst (snd (redis_fetchWithMeta pre online key o' now Read_failed outcome pt Read_failed))"
proof (intro conjI)
  let ?c = "\<lparr>rc_client = True, rc_promise = Some Resolved, rc_connects = 1\<rparr>"
  have "foldl conn_apply new_conn (Ensure a # Settles True # evs) = foldl conn_apply ?c evs"
    by (simp add: new_conn_def ensureConnected_def connect_settles_def)
  then show "foldl conn_apply new_conn (Ensure a # Settles True # evs) = ?c"
    by (simp add: resolved_stays)
qed (cases outcome; simp add: redis_fetchWithMeta_def Let_def new_conn_def ensureConnected_def connect_settles_def)+

section \<open>Witnesses\<close>

definition gold_price :: key_parts where
  "gold_price = \<lparr>kp_resource = Price_resource, kp_symbol = Some ''XAUUSD'', kp_tf = None, kp_extra = None, kp_tenantId = None\<rparr>"

theorem cache_keys_distinct_witness:
  "cacheKey gold_price = ''hfx:price:XAUUSD:_:_''
   \<and> cacheKey (gold_price\<lparr>kp_extra := Some ''a:b'', kp_tenantId := Some ''u1''\<rparr>) \<noteq> cacheKey gold_price"
proof -
  have "parts_ok gold_price" "parts_ok (gold_price\<lparr>kp_extra := Some ''a:b'', kp_tenantId := Some ''u1''\<rparr>)"
    by (simp_all add: parts_ok_def gold_price_def NULL_PART_def no_colon_def part_or_null_def)
  then have "cacheKey (gold_price\<lparr>kp_extra := Some ''a:b'', kp_tenantId := Some ''u1''\<rparr>) \<noteq> cacheKey gold_price"
    using cache_keys_distinct by (simp add: gold_price_def)
  moreover have "cacheKey gold_price = ''hfx:price:XAUUSD:_:_''"
    by (simp add: cacheKey_def gold_price_def Let_def part_or_null_def NULL_PART_def)
  ultimately show ?thesis by blast
qed

theorem served_tenant_is_kept_witness:
  "js_get (tr_caches (fst (getDefaultCache (fst (getDefaultCache empty_registry None (Some ''u1'') 5)) None (Some ''u2'') 5))) ''u2''
     = Some \<lparr>tc_id = 1, tc_kind = Memory_kind\<rparr>"
proof -
  let ?r = "fst (getDefaultCache empty_registry None (Some ''u1'') 5)"
  have r: "?r = \<lparr>tr_caches = [(''u1'', \<lparr>tc_id = 0, tc_kind = Memory_kind\<rparr>)], tr_access = [(''u1'', 5)], tr_next = 1\<rparr>"
    by (simp add: getDefaultCache_def empty_registry_def Let_def enrol_def evictLruTenantsIfNeeded_def
        namespace_of_def evict_tenants.simps MAX_TENANT_CACHES_def GLOBAL_TENANT_def)
  obtain r' c cl where g: "getDefaultCache ?r None (Some ''u2'') 5 = (r', c, cl)"
    by (metis prod_cases3)
  have c: "c = \<lparr>tc_id = 1, tc_kind = Memory_kind\<rparr>"
    using g unfolding r by (auto simp: getDefaultCache_def Let_def namespace_of_def split: prod.splits)
  have "js_get (tr_caches r') (namespace_of (Some ''u2'')) = Some c"
    by (rule served_tenant_is_kept[OF _ _ g]) (simp_all add: r registry_inv_def js_wf_def js_keys_def)
  then show ?thesis
    by (simp add: g c namespace_of_def)
qed

theorem tenants_isolated_and_bounded_witness:
  "length (tr_caches (fst (serve_tenants None [(Some ''u1'', 0), (None, 1), (Some ''u1'', 2)] empty_registry))) \<le> 501"
proof -
  obtain r cs where s: "serve_tenants None [(Some ''u1'', 0), (None, 1), (Some ''u1'', 2)] empty_registry = (r, cs)"
    by fastforce
  then have "\<exists>c. (''u1'', c) \<in> set cs"
    by (auto simp: Let_def namespace_of_def split: prod.splits)
  then obtain c where "(''u1'', c) \<in> set cs" ..
  then show ?thesis
    using tenants_isolated_and_bounded[OF s, of "''u1''" c "''u1''" c] s by simp
qed

definition price_options :: fetch_options where
  "price_options = \<lparr>fo_ttlSeconds = tp_ttlSeconds PRICE_TTL, fo_maxStaleSeconds = Some (tp_maxStaleSeconds PRICE_TTL), fo_tags = None\<rparr>"

theorem upstream_asked_after_both_limits_witness:
  "redis_serve ''cache:__global__:'' ''hfx:price:XAUUSD:_:_'' price_options Nothing_stored
     [(0, Inr 1 :: string + nat, 10), (4000, Inr 2, 4010), (12000, Inr 3, 12010), (13010, Inr 4, 13020)] = [10, 13020]
   \<and> sorted_wrt (\<lambda>t t'. t + 13000 \<le> t') [10, 13020 :: int]"
proof -
  let ?reqs = "[(0, Inr 1 :: string + nat, 10), (4000, Inr 2, 4010), (12000, Inr 3, 12010), (13010, Inr 4, 13020)] :: (ms \<times> (string + nat) \<times> ms) list"
  have s: "redis_serve ''cache:__global__:'' ''hfx:price:XAUUSD:_:_'' price_options Nothing_stored ?reqs = [10, 13020]"
    by (simp add: redis_fetchWithMeta_def Let_def price_options_def PRICE_TTL_def SECOND_def swr_ms_def cache_envelope_def tags_of_def ledgerKey_def)
  have "in_turn ?reqs"
    by (simp add: in_turn_def)
  moreover have "0 \<le> swr_ms price_options"
    by (simp add: swr_ms_def price_options_def PRICE_TTL_def SECOND_def)
  ultimately have "sorted_wrt (\<lambda>t t'. t + fo_ttlSeconds price_options * 1000 + swr_ms price_options \<le> t')
      (redis_serve ''cache:__global__:'' ''hfx:price:XAUUSD:_:_'' price_options Nothing_stored ?reqs)"
    by (rule upstream_asked_after_both_limits)
  then show ?thesis
    unfolding s by (simp add: price_options_def PRICE_TTL_def SECOND_def swr_ms_def)
qed

end
