(* ===== verification/Data_Adapters.thy ===== *)
theory Data_Adapters
  imports Shared_Cache Failover Tick_Store Candles Market_Phase
begin

text \<open>
  The price and candle adapters (\<open>packages/data/src/adapters/price.ts\<close>, \<open>candles.ts\<close>), the registry of
  the providers they go through (\<open>providers/provider-registry.ts\<close>, \<open>provider-adapters.ts\<close>,
  \<open>to-candle.ts\<close>) and the providers: the two tables of the worker (\<open>live-ticks\<close>, \<open>candles-1m\<close>) and
  the clients of BiQuote, Binance and Finnhub. What the database and the services answer is an
  argument (\<open>world\<close>); the answer of a service is a body that has passed its schema, or one of the ways
  in which it fails.
\<close>

section \<open>Replies of a service\<close>

text \<open>
  A number of a body that is not checked by a schema: \<open>Not_number\<close> stands for \<open>NaN\<close> and for an
  element that is missing.
\<close>

datatype js_number = Number real | Not_number

datatype 'b service_reply =
    No_response bool
  | Bad_status nat string "string option"
  | Not_json
  | Wrong_shape "string list"
  | Body 'b

fun dec_nat :: "nat \<Rightarrow> string" where
  "dec_nat n = (if n < 10 then [char_of (48 + n)] else dec_nat (n div 10) @ [char_of (48 + n mod 10)])"

declare dec_nat.simps [simp del]

text \<open>\<open>HTTP 404 Not Found\<close>.\<close>

definition status_line :: "nat \<Rightarrow> string \<Rightarrow> string" where
  "status_line status statusText = ''HTTP '' @ dec_nat status @ '' '' @ statusText"

definition perr :: "data_error_code \<Rightarrow> string \<Rightarrow> string \<Rightarrow> provider_error" where
  "perr code provider msg = \<lparr>pe_code = code, pe_provider = provider, pe_message = msg\<rparr>"

text \<open>The request itself: what the three clients do alike.\<close>

definition fetch_error :: "string \<Rightarrow> bool \<Rightarrow> provider_error" where
  "fetch_error provider isAbort =
     (if isAbort then perr PROVIDER_TIMEOUT provider ''request timed out''
      else perr PROVIDER_HTTP_ERROR provider ''fetch failed'')"

definition status_error :: "string \<Rightarrow> nat \<Rightarrow> string \<Rightarrow> provider_error" where
  "status_error provider status msg =
     perr (if status = 429 then PROVIDER_QUOTA_EXCEEDED else PROVIDER_HTTP_ERROR) provider msg"

text \<open>The calls; the flag says that a back-off was noted with the throttle.\<close>

definition biquote_call :: "bool \<Rightarrow> 'b service_reply \<Rightarrow> (provider_error + 'b) \<times> bool" where
  "biquote_call granted reply =
     (if \<not> granted then
        (Inl (perr PROVIDER_QUOTA_EXCEEDED ''biquote'' ''Self-throttle: capped at 50 req / 60000ms''), False)
      else case reply of
          No_response isAbort \<Rightarrow> (Inl (fetch_error ''biquote'' isAbort), False)
        | Bad_status status statusText message \<Rightarrow>
            (Inl (status_error ''biquote'' status
               (case message of Some m \<Rightarrow> m | None \<Rightarrow> status_line status statusText)), status = 429)
        | Not_json \<Rightarrow> (Inl (perr PROVIDER_PARSE_ERROR ''biquote'' ''invalid JSON''), False)
        | Wrong_shape paths \<Rightarrow>
            (Inl (perr PROVIDER_PARSE_ERROR ''biquote''
               (''unexpected response shape: '' @ concat (map (\<lambda>(i, p). if i = 0 then p else '', '' @ p)
                  (enumerate 0 (take 3 paths))))), False)
        | Body b \<Rightarrow> (Inr b, False))"

definition finnhub_call :: "bool \<Rightarrow> 'b service_reply \<Rightarrow> (provider_error + 'b) \<times> bool" where
  "finnhub_call granted reply =
     (if \<not> granted then
        (Inl (perr PROVIDER_QUOTA_EXCEEDED ''finnhub'' ''Self-throttle: capped at 30 req / 60000ms''), False)
      else case reply of
          No_response isAbort \<Rightarrow> (Inl (fetch_error ''finnhub'' isAbort), False)
        | Bad_status status statusText message \<Rightarrow>
            (Inl (status_error ''finnhub'' status (status_line status statusText)), status = 429)
        | Body b \<Rightarrow> (Inr b, False)
        | _ \<Rightarrow> (Inl (perr PROVIDER_PARSE_ERROR ''finnhub'' ''unexpected response shape''), False))"

section \<open>Raw bars and the candle they become\<close>

record standard_bar =
  sb_t :: ms
  sb_o :: js_number
  sb_h :: js_number
  sb_l :: js_number
  sb_c :: js_number
  sb_v :: "js_number option"

text \<open>\<open>CandleSchema.parse\<close> throws an error that is no provider error.\<close>

definition candle_parse ::
  "string \<Rightarrow> timeframe \<Rightarrow> ms \<Rightarrow> js_number \<Rightarrow> js_number \<Rightarrow> js_number \<Rightarrow> js_number \<Rightarrow> js_number option
     \<Rightarrow> string \<Rightarrow> ms \<Rightarrow> candle option" where
  "candle_parse symbol tf t opn hi lo cls v source fetchedAt =
     (case (SymbolSchema symbol, opn, hi, lo, cls) of
        (Inr s, Number o', Number h, Number l, Number c) \<Rightarrow>
          (case v of
             None \<Rightarrow> Some \<lparr>cd_symbol = s, cd_tf = tf, cd_t = t, cd_o = o', cd_h = h, cd_l = l, cd_c = c,
               cd_v = None, cd_source = source, cd_fetchedAt = fetchedAt\<rparr>
           | Some (Number x) \<Rightarrow> Some \<lparr>cd_symbol = s, cd_tf = tf, cd_t = t, cd_o = o', cd_h = h, cd_l = l, cd_c = c,
               cd_v = Some x, cd_source = source, cd_fetchedAt = fetchedAt\<rparr>
           | Some Not_number \<Rightarrow> None)
      | _ \<Rightarrow> None)"

definition toCandle :: "string \<Rightarrow> timeframe \<Rightarrow> string \<Rightarrow> ms \<Rightarrow> standard_bar \<Rightarrow> candle option" where
  "toCandle symbol tf source fetchedAt bar =
     candle_parse symbol tf (sb_t bar) (sb_o bar) (sb_h bar) (sb_l bar) (sb_c bar) (sb_v bar) source fetchedAt"

text \<open>The opening time of a bar of BiQuote is a text; what \<open>Date.parse\<close> makes of it is part of the bar.\<close>

record biquote_bar =
  bb_openTime :: "ms option"
  bb_open :: real
  bb_high :: real
  bb_low :: real
  bb_close :: real
  bb_volume :: nat
  bb_isOpen :: bool

definition toCandleFromBiquote :: "string \<Rightarrow> timeframe \<Rightarrow> ms \<Rightarrow> biquote_bar \<Rightarrow> candle option" where
  "toCandleFromBiquote symbol tf fetchedAt bar =
     (case bb_openTime bar of
        None \<Rightarrow> None
      | Some t \<Rightarrow> candle_parse symbol tf t (Number (bb_open bar)) (Number (bb_high bar)) (Number (bb_low bar))
          (Number (bb_close bar)) (if bb_volume bar > 0 then Some (Number (real (bb_volume bar))) else None)
          ''biquote'' fetchedAt)"

text \<open>\<open>bars.map(parse)\<close>: the first bar that does not parse throws.\<close>

fun parse_candles :: "('b \<Rightarrow> candle option) \<Rightarrow> 'b list \<Rightarrow> candle list option" where
  "parse_candles f [] = Some []"
| "parse_candles f (b # bs) =
     (case f b of None \<Rightarrow> None | Some c \<Rightarrow> map_option ((#) c) (parse_candles f bs))"

definition zod_error :: string where "zod_error = ''ZodError''"

definition parsed :: "candle list option \<Rightarrow> candle list attempt_outcome" where
  "parsed cs = (case cs of None \<Rightarrow> Crashes zod_error | Some xs \<Rightarrow> Succeeds xs)"

section \<open>The tables of the worker\<close>

fun source_label :: "tick_source \<Rightarrow> string" where
  "source_label Biquote_SignalR = ''biquote-signalr''"
| "source_label Binance_WS = ''binance-ws''"

definition DEFAULT_MAX_AGE_MS :: ms where "DEFAULT_MAX_AGE_MS = 5000"

text \<open>The setting, when it is a finite number above zero.\<close>

definition resolveMaxAgeMs :: "ms option \<Rightarrow> ms option \<Rightarrow> ms" where
  "resolveMaxAgeMs override env =
     (case override of Some x \<Rightarrow> x
      | None \<Rightarrow> case env of Some e \<Rightarrow> if e > 0 then e else DEFAULT_MAX_AGE_MS | None \<Rightarrow> DEFAULT_MAX_AGE_MS)"

record live_price =
  lp_price :: real
  lp_provider :: string
  lp_ts :: ms
  lp_ageMs :: ms

text \<open>A read of the table that throws is no provider error.\<close>

definition fetchLiveTick ::
  "string + (string, live_tick_row) js_map \<Rightarrow> ms option \<Rightarrow> ms option \<Rightarrow> ms \<Rightarrow> string \<Rightarrow> live_price attempt_outcome" where
  "fetchLiveTick db override env now symbol =
     (case db of
        Inl e \<Rightarrow> Crashes e
      | Inr table \<Rightarrow>
          (case js_get table symbol of
             Some row \<Rightarrow>
               if live_tick_row.lt_ts row \<ge> now - resolveMaxAgeMs override env
               then Succeeds \<lparr>lp_price = live_tick_row.lt_mid row, lp_provider = source_label (live_tick_row.lt_source row), lp_ts = live_tick_row.lt_ts row,
                 lp_ageMs = max 0 (now - live_tick_row.lt_ts row)\<rparr>
               else Empty ''no fresh live_ticks row''
           | None \<Rightarrow> Empty ''no fresh live_ticks row''))"

definition FRESHNESS_WINDOW_MS :: ms where "FRESHNESS_WINDOW_MS = 90000"

definition bar_of :: "closed_candle \<Rightarrow> standard_bar" where
  "bar_of r = \<lparr>sb_t = cc_t r, sb_o = Number (cc_o r), sb_h = Number (cc_h r), sb_l = Number (cc_l r),
     sb_c = Number (cc_c r), sb_v = map_option Number (cc_v r)\<rparr>"

text \<open>The rows of a symbol, by opening time.\<close>

definition minute_rows :: "(string \<times> ms, closed_candle) js_map \<Rightarrow> string \<Rightarrow> closed_candle list" where
  "minute_rows table symbol = sort_key cc_t (filter (\<lambda>r. cc_symbol r = symbol) (map snd table))"

definition fetchCandles1m ::
  "string + (string \<times> ms, closed_candle) js_map \<Rightarrow> ms option \<Rightarrow> ms \<Rightarrow> string \<Rightarrow> nat \<Rightarrow> (standard_bar list \<times> string) attempt_outcome" where
  "fetchCandles1m db window now symbol count' =
     (case db of
        Inl e \<Rightarrow> Crashes e
      | Inr table \<Rightarrow>
          let limit = max 1 (min count' 5000);
              rows = minute_rows table symbol
          in if rows = [] then Empty ''no candles_1m rows''
             else let newest = last rows;
                      win = (case window of Some w \<Rightarrow> w | None \<Rightarrow> FRESHNESS_WINDOW_MS)
                  in if now - cc_t newest > win then Empty ''candles_1m stale''
                     else Succeeds (map bar_of (slice_last limit rows), source_label (cc_source newest)))"

section \<open>BiQuote\<close>

record biquote_tick =
  bq_bid :: real
  bq_ask :: real
  bq_mid :: "real option"

definition assertSupportedSymbol :: "string \<Rightarrow> provider_error + string" where
  "assertSupportedSymbol symbol =
     (let canonical = toUpperCase (js_trim symbol) in
      case getSymbolDefinition canonical of
        Inr d \<Rightarrow> if sd_biquote d = None
          then Inl (perr PROVIDER_HTTP_ERROR ''biquote'' (''unsupported symbol '' @ symbol)) else Inr canonical
      | Inl _ \<Rightarrow> Inl (perr PROVIDER_HTTP_ERROR ''biquote'' (''unsupported symbol '' @ symbol)))"

text \<open>No mapping is an error that is no provider error.\<close>

definition toBiquoteSymbol :: "string \<Rightarrow> string option" where
  "toBiquoteSymbol symbol =
     (case tryGetSymbolDefinition (toUpperCase (js_trim symbol)) of
        None \<Rightarrow> None
      | Some d \<Rightarrow> (case sd_biquote d of None \<Rightarrow> None | Some s \<Rightarrow> if s = [] then None else Some s))"

definition toBiquoteTimeframe :: "timeframe \<Rightarrow> timeframe option" where
  "toBiquoteTimeframe tf = (if tf = W1 then None else Some tf)"

definition lift_call :: "(provider_error + 'b) \<times> bool \<Rightarrow> 'b attempt_outcome" where
  "lift_call r = (case fst r of Inl e \<Rightarrow> Fails e | Inr b \<Rightarrow> Succeeds b)"

text \<open>The services: what each answers to a request, and whether the throttle lets it pass.\<close>

record fh_quote =
  fq_c :: real

record fh_candles =
  fc_s :: string
  fc_t :: "ms list option"
  fc_o :: "real list option"
  fc_h :: "real list option"
  fc_l :: "real list option"
  fc_c :: "real list option"
  fc_v :: "real list option"

record binance_kline =
  kl_fields :: nat
  kl_openTime :: ms
  kl_open :: js_number
  kl_high :: js_number
  kl_low :: js_number
  kl_close :: js_number
  kl_volume :: js_number

record world =
  wd_granted :: "string \<Rightarrow> bool"
  wd_live_ticks :: "string + (string, live_tick_row) js_map"
  wd_max_age :: "ms option"
  wd_candles_1m :: "string + (string \<times> ms, closed_candle) js_map"
  wd_biquote_tick :: "string \<Rightarrow> biquote_tick service_reply"
  wd_biquote_ohlc :: "string \<Rightarrow> timeframe \<Rightarrow> nat \<Rightarrow> biquote_bar list service_reply"
  wd_binance_ticker :: "string \<Rightarrow> js_number option service_reply"
  wd_binance_klines :: "string \<Rightarrow> timeframe \<Rightarrow> nat \<Rightarrow> binance_kline list service_reply"
  wd_finnhub_quote :: "string \<Rightarrow> fh_quote service_reply"
  wd_finnhub_candles :: "string \<Rightarrow> string \<Rightarrow> int \<Rightarrow> int \<Rightarrow> fh_candles service_reply"

fun bind_outcome :: "'a attempt_outcome \<Rightarrow> ('a \<Rightarrow> 'b attempt_outcome) \<Rightarrow> 'b attempt_outcome" where
  "bind_outcome (Succeeds v) f = f v"
| "bind_outcome (Fails e) f = Fails e"
| "bind_outcome (Empty m) f = Empty m"
| "bind_outcome (Crashes m) f = Crashes m"

definition fetchTick :: "world \<Rightarrow> string \<Rightarrow> biquote_tick attempt_outcome" where
  "fetchTick w symbol =
     (case assertSupportedSymbol symbol of
        Inl e \<Rightarrow> Fails e
      | Inr validated \<Rightarrow>
          (case toBiquoteSymbol validated of
             None \<Rightarrow> Crashes ''biquote: no catalog mapping''
           | Some s \<Rightarrow> lift_call (biquote_call (wd_granted w ''biquote'') (wd_biquote_tick w s))))"

text \<open>The guard over the bars, oldest first; a time that is not a number compares as false.\<close>

fun ascending_times :: "biquote_bar list \<Rightarrow> bool" where
  "ascending_times (a # b # bars) \<longleftrightarrow>
     (case (bb_openTime b, bb_openTime a) of (Some y, Some x) \<Rightarrow> \<not> y < x | _ \<Rightarrow> True) \<and> ascending_times (b # bars)"
| "ascending_times _ \<longleftrightarrow> True"

definition fetchOhlc :: "world \<Rightarrow> string \<Rightarrow> timeframe \<Rightarrow> nat \<Rightarrow> bool \<Rightarrow> biquote_bar list attempt_outcome" where
  "fetchOhlc w symbol tf count' includeOpenBar =
     (case assertSupportedSymbol symbol of
        Inl e \<Rightarrow> Fails e
      | Inr validated \<Rightarrow>
          (case toBiquoteTimeframe tf of
             None \<Rightarrow> Fails (perr PROVIDER_HTTP_ERROR ''biquote'' ''unsupported timeframe'')
           | Some btf \<Rightarrow>
               (case toBiquoteSymbol validated of
                  None \<Rightarrow> Crashes ''biquote: no catalog mapping''
                | Some s \<Rightarrow>
                    bind_outcome (lift_call (biquote_call (wd_granted w ''biquote'')
                        (wd_biquote_ohlc w s btf (max 1 (min count' 1000)))))
                      (\<lambda>raw. let ascending = rev raw;
                                 filtered = (if includeOpenBar then ascending else filter (\<lambda>b. \<not> bb_isOpen b) ascending)
                             in if filtered = [] then Fails (perr PROVIDER_HTTP_ERROR ''biquote'' ''empty candle response'')
                                else if \<not> ascending_times filtered
                                then Fails (perr PROVIDER_PARSE_ERROR ''biquote'' ''OHLC bars are not in ascending-time order'')
                                else Succeeds filtered))))"

section \<open>Binance\<close>

definition isCryptoSymbol :: "string \<Rightarrow> bool" where
  "isCryptoSymbol symbol =
     (case tryGetSymbolDefinition (toUpperCase (js_trim symbol)) of
        None \<Rightarrow> False | Some d \<Rightarrow> sd_category d = Crypto \<and> sd_binance d \<noteq> None)"

definition bar_of_binance_kline :: "binance_kline \<Rightarrow> standard_bar" where
  "bar_of_binance_kline k = \<lparr>sb_t = kl_openTime k, sb_o = kl_open k, sb_h = kl_high k, sb_l = kl_low k, sb_c = kl_close k,
     sb_v = Some (kl_volume k)\<rparr>"

definition klinesCall :: "bool \<Rightarrow> binance_kline list service_reply \<Rightarrow> standard_bar list attempt_outcome \<times> bool" where
  "klinesCall granted reply =
     (if \<not> granted then
        (Fails (perr PROVIDER_QUOTA_EXCEEDED ''binance'' ''Self-throttle: capped at 20 req / 60000ms''), False)
      else case reply of
          No_response isAbort \<Rightarrow> (Fails (fetch_error ''binance'' isAbort), False)
        | Bad_status status statusText message \<Rightarrow>
            (Fails (status_error ''binance'' status (status_line status statusText)), status = 429)
        | Body ks \<Rightarrow>
            (if \<exists>k\<in>set ks. kl_fields k < 11 then Fails (perr PROVIDER_PARSE_ERROR ''binance'' ''invalid kline array'')
             else if ks = [] then Fails (perr PROVIDER_HTTP_ERROR ''binance'' ''empty kline response'')
             else Succeeds (sort_key sb_t (map bar_of_binance_kline ks)), False)
        | _ \<Rightarrow> (Fails (perr PROVIDER_PARSE_ERROR ''binance'' ''expected array response''), False))"

definition binance_of :: "string \<Rightarrow> string option" where
  "binance_of symbol = (case tryGetSymbolDefinition symbol of None \<Rightarrow> None | Some d \<Rightarrow> sd_binance d)"

definition binance_fetchCandles :: "world \<Rightarrow> string \<Rightarrow> timeframe \<Rightarrow> nat \<Rightarrow> standard_bar list attempt_outcome" where
  "binance_fetchCandles w symbol tf count' =
     (let canonical = toUpperCase (js_trim symbol) in
      if \<not> isCryptoSymbol canonical then Fails (perr PROVIDER_HTTP_ERROR ''binance'' (''unsupported symbol '' @ symbol))
      else case binance_of canonical of
          None \<Rightarrow> Crashes ''unreachable''
        | Some s \<Rightarrow> fst (klinesCall (wd_granted w ''binance'') (wd_binance_klines w s tf (min count' 1000))))"

text \<open>The ticker is asked without a reservation. A body without a price is \<open>Body None\<close>.\<close>

definition fetchTickerPrice :: "world \<Rightarrow> string \<Rightarrow> real attempt_outcome" where
  "fetchTickerPrice w symbol =
     (let canonical = toUpperCase (js_trim symbol) in
      if \<not> isCryptoSymbol canonical then Fails (perr PROVIDER_HTTP_ERROR ''binance'' (''unsupported symbol '' @ symbol))
      else case binance_of canonical of
          None \<Rightarrow> Crashes ''unreachable''
        | Some s \<Rightarrow>
            (case wd_binance_ticker w s of
               No_response isAbort \<Rightarrow> Fails (fetch_error ''binance'' isAbort)
             | Bad_status status statusText message \<Rightarrow>
                 Fails (perr PROVIDER_HTTP_ERROR ''binance'' (status_line status statusText))
             | Body (Some (Number p)) \<Rightarrow> Succeeds p
             | Body (Some Not_number) \<Rightarrow> Fails (perr PROVIDER_PARSE_ERROR ''binance'' ''invalid ticker price'')
             | _ \<Rightarrow> Fails (perr PROVIDER_PARSE_ERROR ''binance'' ''expected { price: string } response'')))"

section \<open>Finnhub\<close>

definition TO_FINNHUB_SYMBOL :: "(string \<times> string) list" where
  "TO_FINNHUB_SYMBOL = [(''XAUUSD'', ''OANDA:XAU_USD''), (''EURUSD'', ''OANDA:EUR_USD''), (''GBPUSD'', ''OANDA:GBP_USD'')]"

fun TO_FINNHUB_RESOLUTION :: "timeframe \<Rightarrow> string" where
  "TO_FINNHUB_RESOLUTION M1 = ''1''"
| "TO_FINNHUB_RESOLUTION M5 = ''5''"
| "TO_FINNHUB_RESOLUTION M15 = ''15''"
| "TO_FINNHUB_RESOLUTION M30 = ''30''"
| "TO_FINNHUB_RESOLUTION H1 = ''60''"
| "TO_FINNHUB_RESOLUTION H4 = ''60''"
| "TO_FINNHUB_RESOLUTION D1 = ''D''"
| "TO_FINNHUB_RESOLUTION W1 = ''W''"

definition toFinnhubSymbol :: "string \<Rightarrow> string" where
  "toFinnhubSymbol symbol =
     (let canonical = toUpperCase (js_trim symbol) in
      case map_of TO_FINNHUB_SYMBOL canonical of
        Some s \<Rightarrow> s
      | None \<Rightarrow>
          (case tryGetSymbolDefinition canonical of
             Some d \<Rightarrow> sd_finnhub d
           | None \<Rightarrow>
               if length canonical = 6 \<and> CHR '':'' \<notin> set canonical
               then ''OANDA:'' @ take 3 canonical @ ''_'' @ drop 3 canonical else symbol))"

definition finnhub_fetchPrice :: "world \<Rightarrow> string \<Rightarrow> real attempt_outcome" where
  "finnhub_fetchPrice w symbol =
     bind_outcome (lift_call (finnhub_call (wd_granted w ''finnhub'') (wd_finnhub_quote w (toFinnhubSymbol symbol))))
       (\<lambda>raw. if fq_c raw = 0 then Fails (perr PROVIDER_HTTP_ERROR ''finnhub'' ''empty quote (market closed?)'')
              else Succeeds (fq_c raw))"

fun TF_SEC :: "timeframe \<Rightarrow> int" where
  "TF_SEC M1 = 60"
| "TF_SEC M5 = 5 * 60"
| "TF_SEC M15 = 15 * 60"
| "TF_SEC M30 = 30 * 60"
| "TF_SEC H1 = 60 * 60"
| "TF_SEC H4 = 4 * 60 * 60"
| "TF_SEC D1 = 24 * 60 * 60"
| "TF_SEC W1 = 7 * 24 * 60 * 60"

text \<open>\<open>Math.ceil(TF_SEC[tf] * count * 1.25)\<close>.\<close>

definition secondsForCount :: "timeframe \<Rightarrow> nat \<Rightarrow> int" where
  "secondsForCount tf count' = \<lceil>real_of_int (TF_SEC tf * int count') * 1.25\<rceil>"

definition nth_number :: "real list \<Rightarrow> nat \<Rightarrow> js_number" where
  "nth_number xs i = (if i < length xs then Number (xs ! i) else Not_number)"

definition fetchNative :: "world \<Rightarrow> ms \<Rightarrow> string \<Rightarrow> timeframe \<Rightarrow> nat \<Rightarrow> standard_bar list attempt_outcome" where
  "fetchNative w now symbol tf count' =
     (let nowSec = now div 1000; fromSec = nowSec - secondsForCount tf count' in
      bind_outcome (lift_call (finnhub_call (wd_granted w ''finnhub'')
          (wd_finnhub_candles w (toFinnhubSymbol symbol) (TO_FINNHUB_RESOLUTION tf) fromSec nowSec)))
        (\<lambda>raw. case fc_t raw of
            None \<Rightarrow> Fails (perr PROVIDER_HTTP_ERROR ''finnhub'' ''empty candles'')
          | Some ts \<Rightarrow>
              if fc_s raw \<noteq> ''ok'' \<or> ts = [] then Fails (perr PROVIDER_HTTP_ERROR ''finnhub'' ''empty candles'')
              else (case (fc_o raw, fc_h raw, fc_l raw, fc_c raw) of
                 (Some os, Some hs, Some ls, Some cs) \<Rightarrow>
                   Succeeds (slice_last count' (map (\<lambda>i. \<lparr>sb_t = ts ! i * 1000, sb_o = nth_number os i, sb_h = nth_number hs i,
                     sb_l = nth_number ls i, sb_c = nth_number cs i,
                     sb_v = (case fc_v raw of None \<Rightarrow> None
                       | Some vs \<Rightarrow> if i < length vs then Some (Number (vs ! i)) else None)\<rparr>) [0..<length ts]))
               | _ \<Rightarrow> Crashes ''TypeError'')))"

section \<open>Four-hour bars from hours\<close>

definition bucketStartMs :: "ms \<Rightarrow> ms \<Rightarrow> ms" where
  "bucketStartMs t sizeMs = t - t mod sizeMs"

text \<open>
  The buckets by the time they start, each with its bars in the order they came. The bars here have
  numbers for prices.
\<close>

record hour_bar =
  hb_t :: ms
  hb_o :: real
  hb_h :: real
  hb_l :: real
  hb_c :: real
  hb_v :: "real option"

definition FOUR_HOURS :: ms where "FOUR_HOURS = 4 * 60 * 60 * 1000"

definition bucket_bars :: "hour_bar list \<Rightarrow> (ms, hour_bar list) js_map" where
  "bucket_bars bars =
     foldl (\<lambda>m b. let bucket = bucketStartMs (hb_t b) FOUR_HOURS in
       js_set bucket ((case js_get m bucket of None \<Rightarrow> [] | Some bs \<Rightarrow> bs) @ [b]) m) [] bars"

text \<open>The loop over a bucket; \<open>None\<close> is the infinity a bound starts from.\<close>

definition merge_step :: "real option \<times> real option \<times> real \<times> bool \<Rightarrow> hour_bar \<Rightarrow> real option \<times> real option \<times> real \<times> bool" where
  "merge_step s g =
     (case s of (high, low, v, hasV) \<Rightarrow>
        (case high of None \<Rightarrow> Some (hb_h g) | Some x \<Rightarrow> if hb_h g > x then Some (hb_h g) else high,
         case low of None \<Rightarrow> Some (hb_l g) | Some x \<Rightarrow> if hb_l g < x then Some (hb_l g) else low,
         case hb_v g of None \<Rightarrow> v | Some x \<Rightarrow> v + x,
         hasV \<or> hb_v g \<noteq> None))"

definition merge_bucket :: "ms \<times> hour_bar list \<Rightarrow> hour_bar" where
  "merge_bucket p =
     (case foldl merge_step (None, None, 0, False) (snd p) of (high, low, v, hasV) \<Rightarrow>
        \<lparr>hb_t = fst p, hb_o = hb_o (hd (snd p)), hb_h = the high, hb_l = the low, hb_c = hb_c (last (snd p)),
         hb_v = (if hasV then Some v else None)\<rparr>)"

definition synth4HFrom1H :: "hour_bar list \<Rightarrow> hour_bar list" where
  "synth4HFrom1H bars = map merge_bucket (sort_key fst (bucket_bars bars))"


text \<open>
  The hours fetched, when every price is there: a body whose arrays differ in length is not followed
  through the merge, and stands for the error of the schema.
\<close>

fun to_hour_bar :: "standard_bar \<Rightarrow> hour_bar option" where
  "to_hour_bar b =
     (case (sb_o b, sb_h b, sb_l b, sb_c b) of
        (Number o', Number h, Number l, Number c) \<Rightarrow>
          Some \<lparr>hb_t = sb_t b, hb_o = o', hb_h = h, hb_l = l, hb_c = c,
            hb_v = (case sb_v b of Some (Number v) \<Rightarrow> Some v | _ \<Rightarrow> None)\<rparr>
      | _ \<Rightarrow> None)"

definition of_hour_bar :: "hour_bar \<Rightarrow> standard_bar" where
  "of_hour_bar b = \<lparr>sb_t = hb_t b, sb_o = Number (hb_o b), sb_h = Number (hb_h b), sb_l = Number (hb_l b),
     sb_c = Number (hb_c b), sb_v = map_option Number (hb_v b)\<rparr>"

definition fetch4hSynthesised :: "world \<Rightarrow> ms \<Rightarrow> string \<Rightarrow> nat \<Rightarrow> standard_bar list attempt_outcome" where
  "fetch4hSynthesised w now symbol count' =
     bind_outcome (fetchNative w now symbol H1 (count' * 4 + 4))
       (\<lambda>oneH. case those (map to_hour_bar oneH) of
           None \<Rightarrow> Crashes zod_error
         | Some bars \<Rightarrow> Succeeds (map of_hour_bar (slice_last count' (synth4HFrom1H bars))))"

definition finnhub_fetchCandles :: "world \<Rightarrow> ms \<Rightarrow> string \<Rightarrow> timeframe \<Rightarrow> nat \<Rightarrow> standard_bar list attempt_outcome" where
  "finnhub_fetchCandles w now symbol tf count' =
     (if tf = H4 then fetch4hSynthesised w now symbol count' else fetchNative w now symbol tf count')"

section \<open>The registry of providers\<close>

record price_reply =
  pr_price :: real
  pr_provider :: string
  pr_ageMs :: "ms option"

text \<open>
  A provider: its price, its candles (\<open>Succeeds None\<close> is the answer \<open>null\<close>) and whether it serves a
  symbol, with a timeframe for candles and without for a price.
\<close>

record market_data_provider =
  mp_name :: string
  mp_pinned :: bool
  mp_fetchPrice :: "string \<Rightarrow> price_reply attempt_outcome"
  mp_fetchCandles :: "string \<Rightarrow> timeframe \<Rightarrow> nat \<Rightarrow> candle list option attempt_outcome"
  mp_supports :: "string \<Rightarrow> timeframe option \<Rightarrow> bool"

type_synonym provider_registry = "(string, market_data_provider) js_map"

definition register :: "market_data_provider \<Rightarrow> provider_registry \<Rightarrow> provider_registry" where
  "register p r = js_set (mp_name p) p r"

text \<open>The stable sort: pinned providers first.\<close>

definition list_providers :: "provider_registry \<Rightarrow> market_data_provider list" where
  "list_providers r = sort_key (\<lambda>p. if mp_pinned p then 0 else 1 :: nat) (map snd r)"

definition get_provider :: "provider_registry \<Rightarrow> string \<Rightarrow> string list + market_data_provider" where
  "get_provider r name = (case js_get r name of Some p \<Rightarrow> Inr p | None \<Rightarrow> Inl (map mp_name (list_providers r)))"

section \<open>The registered providers\<close>

definition liveTicksProvider :: "world \<Rightarrow> ms \<Rightarrow> market_data_provider" where
  "liveTicksProvider w now =
     \<lparr>mp_name = ''live-ticks'', mp_pinned = True,
      mp_fetchPrice = (\<lambda>symbol. bind_outcome (fetchLiveTick (wd_live_ticks w) None (wd_max_age w) now symbol)
        (\<lambda>r. Succeeds \<lparr>pr_price = lp_price r, pr_provider = lp_provider r, pr_ageMs = Some (lp_ageMs r)\<rparr>)),
      mp_fetchCandles = (\<lambda>symbol tf count'.
        if tf \<noteq> M1 then Succeeds None
        else bind_outcome (fetchCandles1m (wd_candles_1m w) None now symbol count')
          (\<lambda>(bars, source). bind_outcome (parsed (parse_candles (toCandle symbol tf source now) bars)) (\<lambda>cs. Succeeds (Some cs)))),
      mp_supports = (\<lambda>symbol tf. tf = None \<or> tf = Some M1)\<rparr>"

definition biquoteProvider :: "world \<Rightarrow> ms \<Rightarrow> market_data_provider" where
  "biquoteProvider w now =
     \<lparr>mp_name = ''biquote'', mp_pinned = False,
      mp_fetchPrice = (\<lambda>symbol. bind_outcome (fetchTick w symbol)
        (\<lambda>t. Succeeds \<lparr>pr_price = (case bq_mid t of Some m \<Rightarrow> m | None \<Rightarrow> (bq_bid t + bq_ask t) / 2),
           pr_provider = ''biquote'', pr_ageMs = None\<rparr>)),
      mp_fetchCandles = (\<lambda>symbol tf count'.
        if tf = W1 then Succeeds None
        else bind_outcome (fetchOhlc w symbol tf (min count' 1000) False)
          (\<lambda>bars. bind_outcome (parsed (parse_candles (toCandleFromBiquote symbol tf now) bars)) (\<lambda>cs. Succeeds (Some cs)))),
      mp_supports = (\<lambda>symbol tf. case tryGetSymbolDefinition symbol of
          None \<Rightarrow> False | Some d \<Rightarrow> sd_category d \<noteq> Crypto \<and> tf \<noteq> Some W1)\<rparr>"

definition binanceProvider :: "world \<Rightarrow> ms \<Rightarrow> market_data_provider" where
  "binanceProvider w now =
     \<lparr>mp_name = ''binance'', mp_pinned = False,
      mp_fetchPrice = (\<lambda>symbol. case binance_of symbol of
          None \<Rightarrow> Fails (perr PROVIDER_UNSUPPORTED_SYMBOL ''binance'' (''Symbol '' @ symbol @ '' is not available on Binance.''))
        | Some s \<Rightarrow> bind_outcome (fetchTickerPrice w s)
            (\<lambda>p. Succeeds \<lparr>pr_price = p, pr_provider = ''binance'', pr_ageMs = None\<rparr>)),
      mp_fetchCandles = (\<lambda>symbol tf count'. case binance_of symbol of
          None \<Rightarrow> Succeeds None
        | Some s \<Rightarrow> bind_outcome (binance_fetchCandles w s tf count')
            (\<lambda>bars. bind_outcome (parsed (parse_candles (toCandle symbol tf ''binance'' now) bars)) (\<lambda>cs. Succeeds (Some cs)))),
      mp_supports = (\<lambda>symbol tf. binance_of symbol \<noteq> None)\<rparr>"

text \<open>\<open>apiKey\<close> is the key the adapter resolved, empty when there is none.\<close>

definition finnhubProvider :: "world \<Rightarrow> ms \<Rightarrow> string \<Rightarrow> market_data_provider" where
  "finnhubProvider w now apiKey =
     \<lparr>mp_name = ''finnhub'', mp_pinned = False,
      mp_fetchPrice = (\<lambda>symbol.
        if apiKey = [] then Fails (perr PROVIDER_NO_API_KEY ''finnhub'' ''Finnhub API key not configured'')
        else bind_outcome (finnhub_fetchPrice w symbol)
          (\<lambda>p. Succeeds \<lparr>pr_price = p, pr_provider = ''finnhub'', pr_ageMs = None\<rparr>)),
      mp_fetchCandles = (\<lambda>symbol tf count'.
        if apiKey = [] then Succeeds None
        else bind_outcome (finnhub_fetchCandles w now symbol tf count')
          (\<lambda>bars. bind_outcome (parsed (parse_candles (toCandle symbol tf ''finnhub'' now) bars)) (\<lambda>cs. Succeeds (Some cs)))),
      mp_supports = (\<lambda>symbol tf. True)\<rparr>"

definition buildProviderList :: "world \<Rightarrow> ms \<Rightarrow> string \<Rightarrow> market_data_provider list" where
  "buildProviderList w now apiKey = [liveTicksProvider w now, biquoteProvider w now, binanceProvider w now, finnhubProvider w now apiKey]"

definition bootstrapMarketDataProviders :: "world \<Rightarrow> ms \<Rightarrow> string \<Rightarrow> provider_registry" where
  "bootstrapMarketDataProviders w now apiKey = foldl (\<lambda>r p. register p r) [] (buildProviderList w now apiKey)"

section \<open>The price adapter\<close>

text \<open>The key of Finnhub: the caller's, then the setting, then none.\<close>

definition resolve_finnhub_key :: "string option \<Rightarrow> string option \<Rightarrow> string" where
  "resolve_finnhub_key caller env = (case caller of Some k \<Rightarrow> k | None \<Rightarrow> (case env of Some k \<Rightarrow> k | None \<Rightarrow> []))"

definition price_attempts :: "provider_registry \<Rightarrow> string \<Rightarrow> price_reply provider_attempt list" where
  "price_attempts reg symbol =
     map (\<lambda>p. \<lparr>at_name = mp_name p, at_pinned = mp_pinned p, at_outcome = mp_fetchPrice p symbol\<rparr>)
       (filter (\<lambda>p. mp_supports p symbol None) (list_providers reg))"

text \<open>The provider a caller asks for is pinned and put first, the others lose their pins.\<close>

definition put_first :: "string option \<Rightarrow> 'v provider_attempt list \<Rightarrow> 'v provider_attempt list" where
  "put_first pref attempts =
     (case pref of
        None \<Rightarrow> attempts
      | Some n \<Rightarrow>
          if n = [] then attempts
          else sort_key (\<lambda>a. if at_pinned a then 0 else 1 :: nat) (map (\<lambda>a. a\<lparr>at_pinned := at_name a = n\<rparr>) attempts))"

definition price_producer ::
  "provider_registry \<Rightarrow> health \<Rightarrow> ms \<Rightarrow> string option \<Rightarrow> string \<Rightarrow> health \<times> (failover_error + live_tick \<times> ms option)" where
  "price_producer reg h now pref symbol =
     (case runWithFailover h now (put_first pref (price_attempts reg symbol)) of
        (h', Inl e) \<Rightarrow> (h', Inl e)
      | (h', Inr (v, _)) \<Rightarrow>
          (h', Inr (\<lparr>live_tick.lt_symbol = symbol, lt_bid = pr_price v, lt_ask = pr_price v, lt_mid = pr_price v, lt_ts = now,
             lt_source = pr_provider v\<rparr>, pr_ageMs v)))"

record price_result =
  ps_tick :: live_tick
  ps_stale :: bool
  ps_producedAt :: ms
  ps_ageMs :: "ms option"

datatype 'r adapter_answer =
    Rejected schema_error
  | Failed failover_error
  | Answer 'r
  | Waits nat

text \<open>
  A call of the adapter on the process-local cache; a caller who finds the producer of another
  running waits for it.
\<close>

type_synonym price_cache = "(live_tick \<times> ms option) memory_cache"

definition getPriceWithMeta ::
  "price_cache \<Rightarrow> provider_registry \<Rightarrow> health \<Rightarrow> bool \<Rightarrow> ms \<Rightarrow> int option \<Rightarrow> int option \<Rightarrow> string option \<Rightarrow> string
     \<Rightarrow> price_cache \<times> health \<times> price_result adapter_answer" where
  "getPriceWithMeta mc reg h worker now ttlSeconds maxStaleSeconds pref symbolInput =
     (case SymbolSchema symbolInput of
        Inl e \<Rightarrow> (mc, h, Rejected e)
      | Inr symbol \<Rightarrow>
          let ttlMs = (case ttlSeconds of Some s \<Rightarrow> s | None \<Rightarrow> tp_ttlSeconds PRICE_TTL) * 1000;
              swrMs = (case maxStaleSeconds of Some s \<Rightarrow> s | None \<Rightarrow> tp_maxStaleSeconds PRICE_TTL) * 1000;
              key = cacheKey \<lparr>kp_resource = Price_resource, kp_symbol = Some symbol, kp_tf = None, kp_extra = None, kp_tenantId = None\<rparr>;
              tags = [cacheTag Price_resource None, cacheTag Price_resource (Some symbol)]
          in case fetch_begin mc key worker now of
               (mc1, Fresh e) \<Rightarrow>
                 (mc1, h, Answer \<lparr>ps_tick = fst (ce_value e), ps_stale = False, ps_producedAt = ce_producedAt e, ps_ageMs = snd (ce_value e)\<rparr>)
             | (mc1, Joined i hit) \<Rightarrow> (mc1, h, Waits i)
             | (mc1, Started i hit) \<Rightarrow>
                 (case price_producer reg h now pref symbol of
                    (h', Inr v) \<Rightarrow>
                      (fetch_resolve mc1 key v now ttlMs swrMs tags, h',
                       Answer \<lparr>ps_tick = fst v, ps_stale = False, ps_producedAt = now, ps_ageMs = snd v\<rparr>)
                  | (h', Inl err) \<Rightarrow>
                      (fetch_reject mc1 key, h',
                       case stale_fallback hit swrMs now err of
                         Inl e \<Rightarrow> Failed e
                       | Inr (v, p) \<Rightarrow> Answer \<lparr>ps_tick = fst v, ps_stale = True, ps_producedAt = p, ps_ageMs = snd v\<rparr>)))"

section \<open>The candle adapter\<close>

definition DEFAULT_COUNT :: nat where "DEFAULT_COUNT = 300"
definition MAX_COUNT :: nat where "MAX_COUNT = 5000"

definition candle_attempts :: "provider_registry \<Rightarrow> string \<Rightarrow> timeframe \<Rightarrow> nat \<Rightarrow> candle list provider_attempt list" where
  "candle_attempts reg symbol tf count' =
     map (\<lambda>p. \<lparr>at_name = mp_name p, at_pinned = mp_pinned p,
         at_outcome = bind_outcome (mp_fetchCandles p symbol tf count')
           (\<lambda>c. case c of Some cs \<Rightarrow> Succeeds cs
             | None \<Rightarrow> Fails (perr PROVIDER_HTTP_ERROR (mp_name p) ''provider returned null for symbol/tf''))\<rparr>)
       (filter (\<lambda>p. mp_supports p symbol (Some tf)) (list_providers reg))"

definition candle_producer ::
  "provider_registry \<Rightarrow> health \<Rightarrow> ms \<Rightarrow> string option \<Rightarrow> string \<Rightarrow> timeframe \<Rightarrow> nat \<Rightarrow> health \<times> (failover_error + candle list)" where
  "candle_producer reg h now pref symbol tf count' =
     (let attempts = candle_attempts reg symbol tf count' in
      if attempts = [] then (h, Inl (Provider_error (perr NO_PROVIDER_AVAILABLE ''none'' ''no candle provider configured'')))
      else case runWithFailover h now (put_first pref attempts) of
          (h', Inl e) \<Rightarrow> (h', Inl e)
        | (h', Inr (v, _)) \<Rightarrow> (h', Inr v))"

record candles_result =
  cs_candles :: "candle list"
  cs_stale :: bool
  cs_producedAt :: ms

type_synonym candle_cache = "candle list memory_cache"

definition getCandlesWithMeta ::
  "candle_cache \<Rightarrow> provider_registry \<Rightarrow> health \<Rightarrow> bool \<Rightarrow> ms \<Rightarrow> nat option \<Rightarrow> string option \<Rightarrow> string \<Rightarrow> timeframe
     \<Rightarrow> candle_cache \<times> health \<times> candles_result adapter_answer" where
  "getCandlesWithMeta mc reg h worker now count' pref symbolInput tf =
     (case SymbolSchema symbolInput of
        Inl e \<Rightarrow> (mc, h, Rejected e)
      | Inr symbol \<Rightarrow>
          let n = max 1 (min (case count' of Some c \<Rightarrow> c | None \<Rightarrow> DEFAULT_COUNT) MAX_COUNT);
              policy = candleTtl tf True;
              ttlMs = tp_ttlSeconds policy * 1000;
              swrMs = tp_maxStaleSeconds policy * 1000;
              key = cacheKey \<lparr>kp_resource = Candles_resource, kp_symbol = Some symbol, kp_tf = Some tf,
                kp_extra = Some (''n'' @ dec_nat n), kp_tenantId = None\<rparr>;
              tags = [cacheTag Candles_resource None, cacheTag Candles_resource (Some symbol)]
          in case fetch_begin mc key worker now of
               (mc1, Fresh e) \<Rightarrow>
                 (mc1, h, Answer \<lparr>cs_candles = ce_value e, cs_stale = False, cs_producedAt = ce_producedAt e\<rparr>)
             | (mc1, Joined i hit) \<Rightarrow> (mc1, h, Waits i)
             | (mc1, Started i hit) \<Rightarrow>
                 (case candle_producer reg h now pref symbol tf n of
                    (h', Inr v) \<Rightarrow>
                      (fetch_resolve mc1 key v now ttlMs swrMs tags, h',
                       Answer \<lparr>cs_candles = v, cs_stale = False, cs_producedAt = now\<rparr>)
                  | (h', Inl err) \<Rightarrow>
                      (fetch_reject mc1 key, h',
                       case stale_fallback hit swrMs now err of
                         Inl e \<Rightarrow> Failed e
                       | Inr (v, p) \<Rightarrow> Answer \<lparr>cs_candles = v, cs_stale = True, cs_producedAt = p\<rparr>)))"

section \<open>Which providers are tried\<close>

lemma bootstrap_list:
  "list_providers (bootstrapMarketDataProviders w now k)
     = [liveTicksProvider w now, biquoteProvider w now, binanceProvider w now, finnhubProvider w now k]"
  by (simp add: list_providers_def bootstrapMarketDataProviders_def buildProviderList_def register_def
      liveTicksProvider_def biquoteProvider_def binanceProvider_def finnhubProvider_def)

lemma known_symbol:
  "tryGetSymbolDefinition s = Some d \<Longrightarrow> symbol_ok d"
  by (auto simp: tryGetSymbolDefinition_def symbol_map_lookup builtin_ok)

lemma binance_of_known: "tryGetSymbolDefinition s = Some d \<Longrightarrow> binance_of s \<noteq> None \<longleftrightarrow> sd_category d = Crypto"
  using known_symbol[of s d] by (simp add: binance_of_def symbol_ok_def split: if_splits)

definition regional :: "symbol_definition \<Rightarrow> string" where
  "regional d = (if sd_category d = Crypto then ''binance'' else ''biquote'')"

text \<open>
  which services are asked for a symbol of the catalog, and in which order before health is
  looked at. A price: the table of the worker first, pinned, then Binance for a crypto pair and BiQuote
  for all others, then Finnhub; BiQuote never serves crypto. Candles: the table only for minutes,
  weekly bars outside crypto from Finnhub alone. A provider the caller asks for comes first when it is
  among them; when it is not, the only effect of asking is that the table is no longer pinned.
\<close>

theorem providers_tried:
  assumes "tryGetSymbolDefinition s = Some d"
  shows "map (\<lambda>a. (at_name a, at_pinned a)) (price_attempts (bootstrapMarketDataProviders w now k) s)
      = [(''live-ticks'', True), (regional d, False), (''finnhub'', False)]
    \<and> map (\<lambda>a. (at_name a, at_pinned a)) (candle_attempts (bootstrapMarketDataProviders w now k) s tf n)
      = (if tf = M1 then [(''live-ticks'', True)] else [])
        @ (if tf = W1 \<and> sd_category d \<noteq> Crypto then [] else [(regional d, False)]) @ [(''finnhub'', False)]
    \<and> map (\<lambda>a. (at_name a, at_pinned a)) (put_first (Some (regional d)) (price_attempts (bootstrapMarketDataProviders w now k) s))
      = [(regional d, True), (''live-ticks'', False), (''finnhub'', False)]
    \<and> map (\<lambda>a. (at_name a, at_pinned a))
        (put_first (Some (if regional d = ''biquote'' then ''binance'' else ''biquote'')) (price_attempts (bootstrapMarketDataProviders w now k) s))
      = [(''live-ticks'', False), (regional d, False), (''finnhub'', False)]"
proof -
  have b: "binance_of s \<noteq> None \<longleftrightarrow> sd_category d = Crypto"
    using binance_of_known[OF assms] .
  have sup: "mp_supports (liveTicksProvider w now) s tf' \<longleftrightarrow> tf' = None \<or> tf' = Some M1"
    "mp_supports (biquoteProvider w now) s tf' \<longleftrightarrow> sd_category d \<noteq> Crypto \<and> tf' \<noteq> Some W1"
    "mp_supports (binanceProvider w now) s tf' \<longleftrightarrow> sd_category d = Crypto"
    "mp_supports (finnhubProvider w now k) s tf'" for tf'
    using b assms by (auto simp: liveTicksProvider_def biquoteProvider_def binanceProvider_def finnhubProvider_def)
  have names: "mp_name (liveTicksProvider w now) = ''live-ticks''" "mp_pinned (liveTicksProvider w now)"
    "mp_name (biquoteProvider w now) = ''biquote''" "\<not> mp_pinned (biquoteProvider w now)"
    "mp_name (binanceProvider w now) = ''binance''" "\<not> mp_pinned (binanceProvider w now)"
    "mp_name (finnhubProvider w now k) = ''finnhub''" "\<not> mp_pinned (finnhubProvider w now k)"
    by (simp_all add: liveTicksProvider_def biquoteProvider_def binanceProvider_def finnhubProvider_def)
  show ?thesis
    by (cases "sd_category d = Crypto"; cases tf)
      (simp_all add: price_attempts_def candle_attempts_def bootstrap_list sup names regional_def put_first_def)
qed

section \<open>A price\<close>

lemma price_attempts_first:
  "tryGetSymbolDefinition s = Some d \<Longrightarrow>
    \<exists>rest. price_attempts (bootstrapMarketDataProviders w now k) s
      = \<lparr>at_name = ''live-ticks'', at_pinned = True, at_outcome = mp_fetchPrice (liveTicksProvider w now) s\<rparr> # rest
    \<and> list_all (\<lambda>a. \<not> at_pinned a) rest"
  by (simp add: price_attempts_def bootstrap_list liveTicksProvider_def biquoteProvider_def binanceProvider_def finnhubProvider_def)

lemma failover_pinned_first:
  assumes "at_pinned a" "list_all (\<lambda>b. \<not> at_pinned b) rest"
  shows "runWithFailover h now (a # rest) = failover_loop now (a # failover_order h now rest) None None h"
proof -
  have "filter at_pinned rest = []"
    using assms(2) by (auto simp: list_all_iff filter_empty_conv)
  then show ?thesis
    using assms(1) by (simp add: runWithFailover_def failover_order_def)
qed

text \<open>The key of a price in the cache, and what the cache and the live table answer.\<close>

abbreviation price_key :: "string \<Rightarrow> string" where
  "price_key symbol \<equiv> cacheKey \<lparr>kp_resource = Price_resource, kp_symbol = Some symbol, kp_tf = None, kp_extra = None, kp_tenantId = None\<rparr>"

definition cached_price :: "(live_tick \<times> ms option) cache_entry \<Rightarrow> price_result" where
  "cached_price e = \<lparr>ps_tick = fst (ce_value e), ps_stale = False, ps_producedAt = ce_producedAt e, ps_ageMs = snd (ce_value e)\<rparr>"

definition tick_price :: "normalized_tick \<Rightarrow> ms \<Rightarrow> price_result" where
  "tick_price t now = \<lparr>ps_tick = \<lparr>live_tick.lt_symbol = tk_symbol t, lt_bid = tk_mid t, lt_ask = tk_mid t, lt_mid = tk_mid t,
     lt_ts = now, lt_source = source_label (tk_source t)\<rparr>, ps_stale = False, ps_producedAt = now, ps_ageMs = Some (now - tk_ts t)\<rparr>"

lemma latest_lifetime:
  assumes "\<forall>v p ttl swr tags. Resolve k v p ttl swr tags \<in> set ops \<longrightarrow> ttl = L" "latest k ops = Some e"
  shows "ce_expiresAt e = ce_producedAt e + L"
  using assms
proof (induction ops arbitrary: e rule: rev_induct)
  case (snoc op ops)
  then show ?case
    by (cases op) (auto simp: latest_def split: option.splits if_splits)
qed (simp add: latest_def)

text \<open>The producer: a tick of the table that is at most five seconds old.\<close>

lemma producer_serves_tick:
  assumes "js_wf slots" "\<forall>(k, sl)\<in>set slots. tk_symbol (sl_tick sl) = k" "tryGetSymbolDefinition (tk_symbol t) = Some d"
    and "wd_live_ticks w = Inr (fst (flushLiveTicks (buf_peek (buf_push t slots)) table))" "wd_max_age w = None"
    and "tk_ts t \<le> now" "now \<le> tk_ts t + 5000"
  shows "price_producer (bootstrapMarketDataProviders w now k) h now None (tk_symbol t)
    = (recordSuccess h ''live-ticks'' now, Inr (ps_tick (tick_price t now), Some (now - tk_ts t)))"
proof -
  have "\<forall>(k, sl)\<in>set (buf_push t slots). tk_symbol (sl_tick sl) = k"
    using assms(1,2) set_js_set[of "tk_symbol t" _ slots]
    by (fastforce simp: buf_push_def split: option.splits)
  then have row: "js_get (fst (flushLiveTicks (buf_peek (buf_push t slots)) table)) (tk_symbol t) = Some (toRow t)"
    using flushLiveTicks_get[OF buf_push_wf[OF assms(1)], of t table "tk_symbol t"] by (simp add: buf_push_get)
  have f: "mp_fetchPrice (liveTicksProvider w now) (tk_symbol t)
      = Succeeds \<lparr>pr_price = tk_mid t, pr_provider = source_label (tk_source t), pr_ageMs = Some (now - tk_ts t)\<rparr>"
    using assms(4-7) row
    by (simp add: liveTicksProvider_def fetchLiveTick_def resolveMaxAgeMs_def DEFAULT_MAX_AGE_MS_def toRow_def)
  obtain rest where r: "price_attempts (bootstrapMarketDataProviders w now k) (tk_symbol t)
      = \<lparr>at_name = ''live-ticks'', at_pinned = True, at_outcome = mp_fetchPrice (liveTicksProvider w now) (tk_symbol t)\<rparr> # rest"
    "list_all (\<lambda>a. \<not> at_pinned a) rest"
    using price_attempts_first[OF assms(3)] by blast
  show ?thesis
    by (simp add: price_producer_def put_first_def r failover_pinned_first f tick_price_def)
qed


text \<open>
  a read of the table that throws ends the request: no service is asked, although each could
  answer, and the request fails with the database's error (unless the cache has a stale price).
\<close>

theorem database_error_stops_prices:
  assumes "tryGetSymbolDefinition s = Some d" "wd_live_ticks w = Inl e"
  shows "price_producer (bootstrapMarketDataProviders w now k) h now None s
    = (recordFailure h ''live-ticks'' now, Inl (Other_error e))"
proof -
  obtain rest where r: "price_attempts (bootstrapMarketDataProviders w now k) s
      = \<lparr>at_name = ''live-ticks'', at_pinned = True, at_outcome = mp_fetchPrice (liveTicksProvider w now) s\<rparr> # rest"
    "list_all (\<lambda>a. \<not> at_pinned a) rest"
    using price_attempts_first[OF assms(1)] by blast
  have "mp_fetchPrice (liveTicksProvider w now) s = Crashes e"
    by (simp add: liveTicksProvider_def fetchLiveTick_def assms(2))
  then show ?thesis
    by (simp add: price_producer_def put_first_def r failover_pinned_first)
qed

text \<open>
  while a price is fresh in the cache the provider a caller asks for is ignored, as is the time
  to live it asks for: after a request that was answered by the producer, a request for the same
  symbol within the first one's time to live gets the same tick from the same source.
\<close>

theorem fresh_price_ignores_provider:
  assumes "getPriceWithMeta mc reg h worker now ttl swr pref symbol = (mc1, h1, Answer r)" "ps_producedAt r = now" "\<not> ps_stale r"
    and "SymbolSchema symbol = Inr s" "SymbolSchema symbol' = Inr s"
    and "now \<le> now'" "now' < now + (case ttl of None \<Rightarrow> 3 | Some x \<Rightarrow> x) * 1000" "0 \<le> (case swr of None \<Rightarrow> 10 | Some x \<Rightarrow> x)"
    and "snd (fetch_begin mc (cacheKey \<lparr>kp_resource = Price_resource, kp_symbol = Some s, kp_tf = None, kp_extra = None, kp_tenantId = None\<rparr>) worker now) = Started i hit"
  shows "snd (snd (getPriceWithMeta mc1 reg' h' worker now' ttl' swr' pref' symbol')) = Answer r"
proof -
  let ?key = "cacheKey \<lparr>kp_resource = Price_resource, kp_symbol = Some s, kp_tf = None, kp_extra = None, kp_tenantId = None\<rparr>"
  let ?ttl = "(case ttl of None \<Rightarrow> 3 | Some x \<Rightarrow> x) * 1000"
  let ?swr = "(case swr of None \<Rightarrow> 10 | Some x \<Rightarrow> x) * 1000"
  obtain mc2 where b: "fetch_begin mc ?key worker now = (mc2, Started i hit)"
    using assms(9) by (metis prod.collapse)
  have T: "(case ttl of None \<Rightarrow> tp_ttlSeconds PRICE_TTL | Some s \<Rightarrow> s) * 1000 = ?ttl"
    "(case swr of None \<Rightarrow> tp_maxStaleSeconds PRICE_TTL | Some s \<Rightarrow> s) * 1000 = ?swr"
    by (simp_all add: PRICE_TTL_def SECOND_def split: option.splits)
  obtain h2 v where p: "price_producer reg h now pref s = (h2, Inr v)"
  proof (cases "price_producer reg h now pref s")
    case (Pair h2 x)
    show thesis
    proof (cases x)
      case (Inl e)
      then show thesis
        using assms(1,3,4) b Pair by (auto simp: getPriceWithMeta_def Let_def stale_fallback_def split: option.splits if_splits)
    qed (use Pair that in blast)
  qed
  have r: "r = \<lparr>ps_tick = fst v, ps_stale = False, ps_producedAt = now, ps_ageMs = snd v\<rparr>"
    and m: "mc1 = fetch_resolve mc2 ?key v now ?ttl ?swr [cacheTag Price_resource None, cacheTag Price_resource (Some s)]"
    using assms(1,4) b p T by (simp_all add: getPriceWithMeta_def Let_def)
  have "now' < now + ?ttl" "0 \<le> ?swr"
    using assms(7,8) by simp_all
  then show ?thesis
    using assms(5) resolved_is_fresh[of now' now ?ttl ?swr mc2 ?key v "[cacheTag Price_resource None, cacheTag Price_resource (Some s)]" worker]
    by (auto simp: getPriceWithMeta_def Let_def r m)
qed

section \<open>Candles come in order of time\<close>

lemma parse_candles_Some:
  "parse_candles f bs = Some cs \<Longrightarrow> list_all2 (\<lambda>b c. f b = Some c) bs cs"
  by (induction f bs arbitrary: cs rule: parse_candles.induct) (auto split: option.splits)

lemma candle_parse_fields:
  "candle_parse symbol tf t opn hi lo cls v source fetchedAt = Some c
    \<Longrightarrow> cd_t c = t \<and> cd_tf c = tf \<and> cd_source c = source \<and> cd_fetchedAt c = fetchedAt"
  by (auto simp: candle_parse_def split: sum.splits js_number.splits option.splits)

lemma list_all2_map_eq: "list_all2 (\<lambda>b c. f b = Some c) bs cs \<Longrightarrow> (\<And>b c. f b = Some c \<Longrightarrow> g c = h b) \<Longrightarrow> map g cs = map h bs"
  by (induction rule: list_all2_induct) auto

lemma list_all2_all: "list_all2 (\<lambda>b c. f b = Some c) bs cs \<Longrightarrow> (\<And>b c. f b = Some c \<Longrightarrow> P c) \<Longrightarrow> list_all P cs"
  by (induction rule: list_all2_induct) auto

text \<open>All candles of an answer: their timeframe, and their order.\<close>

definition in_order :: "timeframe \<Rightarrow> candle list \<Rightarrow> bool" where
  "in_order tf cs \<longleftrightarrow> sorted (map cd_t cs) \<and> list_all (\<lambda>c. cd_tf c = tf) cs"

lemma toCandle_in_order:
  assumes "parse_candles (toCandle symbol tf source now) bars = Some cs" "sorted (map sb_t bars)"
  shows "in_order tf cs"
proof -
  note l = parse_candles_Some[OF assms(1)]
  have "map cd_t cs = map sb_t bars"
    by (rule list_all2_map_eq[OF l]) (simp add: toCandle_def candle_parse_fields)
  moreover have "list_all (\<lambda>c. cd_tf c = tf) cs"
    by (rule list_all2_all[OF l]) (simp add: toCandle_def candle_parse_fields)
  ultimately show ?thesis
    using assms(2) by (simp add: in_order_def)
qed

lemma ascending_times_sorted:
  "ascending_times bars \<Longrightarrow> list_all (\<lambda>b. bb_openTime b \<noteq> None) bars \<Longrightarrow> sorted (map (the \<circ> bb_openTime) bars)"
  by (induction bars rule: ascending_times.induct) (auto simp: sorted2)

lemma bind_Succeeds: "bind_outcome r f = Succeeds v \<longleftrightarrow> (\<exists>u. r = Succeeds u \<and> f u = Succeeds v)"
  by (cases r) auto

lemma parsed_Succeeds: "parsed x = Succeeds cs \<longleftrightarrow> x = Some cs"
  by (auto simp: parsed_def split: option.splits)

lemma fetchOhlc_ascending:
  "fetchOhlc w symbol tf n inc = Succeeds bars \<Longrightarrow> bars \<noteq> [] \<and> ascending_times bars \<and> (inc \<or> list_all (\<lambda>b. \<not> bb_isOpen b) bars)"
  by (auto simp: fetchOhlc_def bind_Succeeds Let_def list_all_iff split: sum.splits option.splits if_splits)

lemma biquote_in_order:
  assumes "parse_candles (toCandleFromBiquote symbol tf now) bars = Some cs" "ascending_times bars"
  shows "in_order tf cs"
proof -
  note l = parse_candles_Some[OF assms(1)]
  have "list_all (\<lambda>b. bb_openTime b \<noteq> None) bars"
    using l by (induction rule: list_all2_induct) (auto simp: toCandleFromBiquote_def split: option.splits)
  moreover have "map cd_t cs = map (the \<circ> bb_openTime) bars"
    by (rule list_all2_map_eq[OF l]) (auto simp: toCandleFromBiquote_def candle_parse_fields split: option.splits)
  moreover have "list_all (\<lambda>c. cd_tf c = tf) cs"
    by (rule list_all2_all[OF l]) (auto simp: toCandleFromBiquote_def candle_parse_fields split: option.splits)
  ultimately show ?thesis
    using assms(2) ascending_times_sorted[of bars] by (simp add: in_order_def)
qed

lemma sorted_slice_last: "sorted (map f xs) \<Longrightarrow> sorted (map f (slice_last n xs))"
  by (simp add: slice_last_def drop_map[symmetric] sorted_wrt_drop)

lemma fetchCandles1m_sorted:
  "fetchCandles1m db win now symbol n = Succeeds (bars, src) \<Longrightarrow> sorted (map sb_t bars)"
proof -
  assume "fetchCandles1m db win now symbol n = Succeeds (bars, src)"
  then obtain table where "bars = map bar_of (slice_last (max 1 (min n 5000)) (minute_rows table symbol))"
    by (auto simp: fetchCandles1m_def Let_def split: sum.splits if_splits)
  moreover have "sorted (map cc_t (minute_rows table symbol))"
    by (simp add: minute_rows_def)
  ultimately show ?thesis
    using sorted_slice_last[of cc_t "minute_rows table symbol"] by (simp add: bar_of_def comp_def)
qed

lemma klines_sorted: "fst (klinesCall granted reply) = Succeeds bars \<Longrightarrow> sorted (map sb_t bars)"
  by (auto simp: klinesCall_def split: service_reply.splits if_splits)

lemma binance_sorted: "binance_fetchCandles w symbol tf n = Succeeds bars \<Longrightarrow> sorted (map sb_t bars)"
  by (auto simp: binance_fetchCandles_def Let_def intro: klines_sorted split: if_splits option.splits)

text \<open>
  candles from the table of the worker, from BiQuote and from Binance are in order of time and of
  the timeframe that was asked for, whatever the services answer: an answer of BiQuote out of order is
  refused, one of Binance is sorted, and a bar without a readable time is an error.
\<close>

theorem candles_in_order:
  assumes "p \<in> {liveTicksProvider w now, biquoteProvider w now, binanceProvider w now}"
    and "mp_fetchCandles p symbol tf n = Succeeds (Some cs)"
  shows "in_order tf cs"
proof -
  consider "p = liveTicksProvider w now" | "p = biquoteProvider w now" | "p = binanceProvider w now"
    using assms(1) by blast
  then show ?thesis
  proof cases
    case 1
    then show ?thesis
      using assms(2) by (auto simp: liveTicksProvider_def bind_Succeeds parsed_Succeeds split: if_splits
          intro: toCandle_in_order dest: fetchCandles1m_sorted)
  next
    case 2
    then show ?thesis
      using assms(2) by (auto simp: biquoteProvider_def bind_Succeeds parsed_Succeeds split: if_splits
          intro: biquote_in_order dest: fetchOhlc_ascending)
  next
    case 3
    then show ?thesis
      using assms(2) by (auto simp: binanceProvider_def bind_Succeeds parsed_Succeeds split: option.splits
          intro: toCandle_in_order dest: binance_sorted)
  qed
qed

section \<open>The minutes the worker stored\<close>

lemma feed_closed:
  "b \<in> set (snd (feed_all ts ([], []))) \<Longrightarrow> \<exists>t\<in>set ts. cc_t b mod MINUTE_MS = 0 \<and> cc_t b + MINUTE_MS \<le> tk_ts t"
proof (induction ts rule: rev_induct)
  case Nil
  then show ?case by simp
next
  case (snoc t ts)
  show ?case
  proof (cases "b \<in> set (snd (feed_all ts ([], [])))")
    case True
    then show ?thesis
      using snoc.IH by auto
  next
    case False
    then obtain e where "b = emitClosed (tk_symbol t) e" "ob_bucket e < bucket_of t"
      using snoc.prems by (auto simp: feed_all_snoc feed_def split: option.splits if_splits)
    then have "cc_t b = ob_bucket e * 60000" "ob_bucket e + 1 \<le> tk_ts t div 60000"
      by (simp_all add: emitClosed_def bucket_of_def MINUTE_MS_def)
    then have "cc_t b mod 60000 = 0 \<and> cc_t b + 60000 \<le> tk_ts t"
      by simp
    then show ?thesis
      by (auto simp: MINUTE_MS_def)
  qed
qed

lemma persisted_rows: "snd ` set (persist_bars bars table) \<subseteq> snd ` set table \<union> set bars"
proof (induction bars arbitrary: table)
  case Nil
  then show ?case by (simp add: persist_bars_def)
next
  case (Cons b bars)
  have f: "snd ` set (flushClosedCandle b table) \<subseteq> insert b (snd ` set table)"
    using set_js_set[of "(cc_symbol b, cc_t b)" b table] by (auto simp: flushClosedCandle_def)
  have "persist_bars (b # bars) table = persist_bars bars (flushClosedCandle b table)"
    by (simp add: persist_bars_def)
  then have "snd ` set (persist_bars (b # bars) table) \<subseteq> snd ` set (flushClosedCandle b table) \<union> set bars"
    using Cons[of "flushClosedCandle b table"] by simp
  also have "\<dots> \<subseteq> insert b (snd ` set table) \<union> set bars"
    using f by (rule Un_mono) simp
  also have "\<dots> = snd ` set table \<union> set (b # bars)"
    by simp
  finally show ?case .
qed

text \<open>
  the table of minute bars is not used in the second half of any minute. Only closed minutes are
  written, so the newest row began at least a minute and the seconds of the running minute ago, and
  from second 30 on that is more than the window of 90 seconds: the read answers empty however
  regularly the ticks arrive.
\<close>

theorem minute_table_dark_half:
  assumes "list_all (\<lambda>t. tk_ts t \<le> now) ts" "30000 < now mod 60000"
  shows "\<exists>m. fetchCandles1m (Inr (persist_bars (snd (feed_all ts ([], []))) [])) None now symbol n = Empty m"
proof -
  let ?rows = "minute_rows (persist_bars (snd (feed_all ts ([], []))) []) symbol"
  have "now - cc_t (last ?rows) > FRESHNESS_WINDOW_MS" if "?rows \<noteq> []"
  proof -
    have "last ?rows \<in> snd ` set (persist_bars (snd (feed_all ts ([], []))) [])"
      using last_in_set[OF that] by (auto simp: minute_rows_def)
    then have "last ?rows \<in> set (snd (feed_all ts ([], [])))"
      using persisted_rows[of "snd (feed_all ts ([], []))" "[]"] by auto
    then obtain t where "t \<in> set ts" "cc_t (last ?rows) mod 60000 = 0" "cc_t (last ?rows) + 60000 \<le> tk_ts t"
      using feed_closed by (force simp: MINUTE_MS_def)
    then have c: "cc_t (last ?rows) mod 60000 = 0" "cc_t (last ?rows) + 60000 \<le> now"
      using assms(1) by (force simp: list_all_iff)+
    have "(cc_t (last ?rows) + 60000) div 60000 \<le> now div 60000"
      using c(2) by (rule zdiv_mono1) simp
    then have "cc_t (last ?rows) div 60000 + 1 \<le> now div 60000"
      by simp
    then show ?thesis
      using assms(2) c(1) div_mult_mod_eq[of now 60000] div_mult_mod_eq[of "cc_t (last ?rows)" 60000]
      unfolding FRESHNESS_WINDOW_MS_def by linarith
  qed
  then show ?thesis
    by (auto simp: fetchCandles1m_def Let_def)
qed

section \<open>Four-hour bars\<close>

definition hours_of :: "ms \<Rightarrow> hour_bar list \<Rightarrow> hour_bar list" where
  "hours_of t bars = filter (\<lambda>b. bucketStartMs (hb_t b) FOUR_HOURS = t) bars"

text \<open>The bar a block of four hours should have: first, highest, lowest, last, and the volume known.\<close>

definition four_hour_bar :: "ms \<Rightarrow> hour_bar list \<Rightarrow> hour_bar" where
  "four_hour_bar t bs =
     \<lparr>hb_t = t, hb_o = hb_o (hd bs), hb_h = Max (set (map hb_h bs)), hb_l = Min (set (map hb_l bs)), hb_c = hb_c (last bs),
      hb_v = (let vs = List.map_filter hb_v bs in if vs = [] then None else Some (sum_list vs))\<rparr>"

lemma bucket_bars_snoc:
  "bucket_bars (bars @ [b]) = (let m = bucket_bars bars; t = bucketStartMs (hb_t b) FOUR_HOURS in
     js_set t ((case js_get m t of None \<Rightarrow> [] | Some bs \<Rightarrow> bs) @ [b]) m)"
  by (simp add: bucket_bars_def Let_def)

lemma bucket_bars_facts:
  "js_wf (bucket_bars bars)
   \<and> (\<forall>t. js_get (bucket_bars bars) t = (if hours_of t bars = [] then None else Some (hours_of t bars)))"
proof (induction bars rule: rev_induct)
  case Nil
  then show ?case by (simp add: bucket_bars_def hours_of_def)
next
  case (snoc b bars)
  then show ?case
    by (simp add: bucket_bars_snoc Let_def js_wf_set map_laws hours_of_def)
qed

lemma map_filter_snoc: "List.map_filter f (xs @ [x]) = List.map_filter f xs @ (case f x of None \<Rightarrow> [] | Some y \<Rightarrow> [y])"
  by (simp add: map_filter_def split: option.splits)

lemma merge_foldl:
  "foldl merge_step (None, None, 0, False) bs =
     (if bs = [] then None else Some (Max (set (map hb_h bs))),
      if bs = [] then None else Some (Min (set (map hb_l bs))),
      sum_list (List.map_filter hb_v bs), List.map_filter hb_v bs \<noteq> [])"
proof -
  define hi lo where "hi = (\<lambda>bs :: hour_bar list. Max (set (map hb_h bs)))" and "lo = (\<lambda>bs :: hour_bar list. Min (set (map hb_l bs)))"
  have one: "hi [b] = hb_h b" "lo [b] = hb_l b" for b :: hour_bar
    by (simp_all add: hi_def lo_def)
  have more: "hi (bs @ [b]) = max (hi bs) (hb_h b)" "lo (bs @ [b]) = min (lo bs) (hb_l b)" if "bs \<noteq> []" for bs and b :: hour_bar
    using Max_snoc[of "map hb_h bs" "hb_h b"] Min_snoc[of "map hb_l bs" "hb_l b"] that by (simp_all add: hi_def lo_def)
  have "foldl merge_step (None, None, 0, False) bs =
     (if bs = [] then None else Some (hi bs), if bs = [] then None else Some (lo bs),
      sum_list (List.map_filter hb_v bs), List.map_filter hb_v bs \<noteq> [])"
  proof (induction bs rule: rev_induct)
    case Nil
    then show ?case by (simp add: map_filter_def)
  next
    case (snoc b bs)
    then show ?case
      by (cases "bs = []"; cases "hb_v b") (simp_all add: merge_step_def map_filter_snoc one more max_def min_def)
  qed
  then show ?thesis
    by (simp add: hi_def lo_def)
qed

lemma merge_bucket_bar: "bs \<noteq> [] \<Longrightarrow> merge_bucket (t, bs) = four_hour_bar t bs"
  by (simp add: merge_bucket_def merge_foldl four_hour_bar_def Let_def)

lemma sort_key_fst_keys:
  assumes "js_wf (m :: (ms, 'v) js_map)"
  shows "map fst (sort_key fst m) = sorted_list_of_set (set (js_keys m))"
proof (rule sorted_distinct_set_unique)
  have "mset (map fst (sort_key fst m)) = mset (js_keys m)"
    by (simp add: js_keys_def)
  then show "distinct (map fst (sort_key fst m))"
    using assms unfolding js_wf_def by (metis mset_eq_imp_distinct_iff)
qed (simp_all add: js_keys_def)

text \<open>
  C37: the bars of four hours are the summaries of the hours by blocks of UTC: one bar per block that
  has an hour, in order of time and each once, whatever the order and number of the hours.
\<close>

theorem four_hour_bars_exact:
  "synth4HFrom1H bars = map (\<lambda>t. four_hour_bar t (hours_of t bars))
     (sorted_list_of_set ((\<lambda>b. bucketStartMs (hb_t b) FOUR_HOURS) ` set bars))"
proof -
  let ?m = "bucket_bars bars"
  have wf: "js_wf ?m" and get: "js_get ?m t = (if hours_of t bars = [] then None else Some (hours_of t bars))" for t
    using bucket_bars_facts by auto
  have keys: "set (js_keys ?m) = (\<lambda>b. bucketStartMs (hb_t b) FOUR_HOURS) ` set bars"
  proof -
    have "t \<in> set (js_keys ?m) \<longleftrightarrow> hours_of t bars \<noteq> []" for t
      using js_get_None_iff[of ?m t] get[of t] by (auto split: if_splits)
    then show ?thesis
      by (auto simp: hours_of_def filter_empty_conv)
  qed
  have "synth4HFrom1H bars = map (\<lambda>p. four_hour_bar (fst p) (hours_of (fst p) bars)) (sort_key fst ?m)"
    unfolding synth4HFrom1H_def
  proof (rule map_cong[OF refl])
    fix p assume "p \<in> set (sort_key fst ?m)"
    then have "js_get ?m (fst p) = Some (snd p)"
      using wf by (simp add: js_get_in_set)
    then show "merge_bucket p = four_hour_bar (fst p) (hours_of (fst p) bars)"
      using get[of "fst p"] merge_bucket_bar[of "snd p" "fst p"] by (simp split: if_splits)
  qed
  also have "\<dots> = map (\<lambda>t. four_hour_bar t (hours_of t bars)) (map fst (sort_key fst ?m))"
    by simp
  finally show ?thesis
    unfolding sort_key_fst_keys[OF wf] keys .
qed

section \<open>A request that runs into a weekend\<close>

definition hour_of_week :: "int \<Rightarrow> int" where
  "hour_of_week k = (k + 96) mod 168"

lemma open_hour:
  assumes "\<not> isForexWeekend (k * 3600000)"
  shows "22 \<le> hour_of_week k \<and> hour_of_week k < 142"
proof -
  define d r where "d = (k div 24 + 4) mod 7" and "r = k mod 24"
  have "(k * 3600000) div 86400000 = k div 24" "(k * 3600000) div 3600000 = k"
    using zdiv_zmult2_eq[of 24 "k * 3600000" 3600000] by simp_all
  then have f: "getUTCDay (k * 3600000) = d" "getUTCHours (k * 3600000) = r"
    by (simp_all add: getUTCDay_def utcDay_def getUTCHours_def d_def r_def)
  have "(k + 96) mod (24 * 7) = 24 * ((k + 96) div 24 mod 7) + (k + 96) mod 24"
    by (rule zmod_zmult2_eq) simp
  moreover have "(k + 96) div 24 = k div 24 + 4" "(k + 96) mod 24 = k mod 24"
    using div_mult_self1[of 24 k 4] mod_mult_self1[of k 4 24] by simp_all
  ultimately have h: "hour_of_week k = 24 * d + r"
    by (simp add: hour_of_week_def d_def r_def)
  have "0 \<le> d" "d < 7" "0 \<le> r" "r < 24"
    by (simp_all add: d_def r_def)
  moreover have "d \<noteq> 6" "d = 0 \<Longrightarrow> 22 \<le> r" "d = 5 \<Longrightarrow> r < 22"
    using assms by (auto simp: isForexWeekend_def f Let_def split: if_splits)
  ultimately show ?thesis
    unfolding h by presburger
qed

lemma hour_of_week_inj: "inj_on hour_of_week {K - 167..K}"
proof (rule inj_onI)
  fix x y assume xy: "x \<in> {K - 167..K}" "y \<in> {K - 167..K}" "hour_of_week x = hour_of_week y"
  then have "168 dvd (x - y)"
    unfolding hour_of_week_def by (metis add_diff_cancel_right mod_eq_dvd_iff)
  then obtain z where "x - y = 168 * z"
    by (elim dvdE)
  moreover have "- 168 < x - y" "x - y < 168"
    using xy by auto
  ultimately have "z = 0"
    by linarith
  then show "x = y"
    using \<open>x - y = 168 * z\<close> by simp
qed

text \<open>
  the margin of a quarter does not cover the weekend. For 134 hourly bars Finnhub is asked for a
  range of 167 and a half hours, and no such range has more than 120 hours in which the market is
  open, whenever the request is made: at least 14 of the bars asked for cannot exist.
\<close>

theorem weekend_starves_request:
  "card {k. (now div 1000 - secondsForCount H1 134) * 1000 \<le> k * 3600000 \<and> k * 3600000 \<le> now
     \<and> \<not> isForexWeekend (k * 3600000)} \<le> 120"
proof -
  define K where "K = now div 3600000"
  let ?S = "{k. (now div 1000 - secondsForCount H1 134) * 1000 \<le> k * 3600000 \<and> k * 3600000 \<le> now
     \<and> \<not> isForexWeekend (k * 3600000)}"
  have sec: "secondsForCount H1 134 = 603000"
    by (simp add: secondsForCount_def)
  have range: "?S \<subseteq> {K - 167..K}"
  proof
    fix k assume k: "k \<in> ?S"
    have "k * 3600000 \<le> now"
      using k by simp
    then have "k \<le> K"
      unfolding K_def using zdiv_mono1[of "k * 3600000" now 3600000] by simp
    moreover have "now - 999 \<le> now div 1000 * 1000"
      using div_mult_mod_eq[of now 1000] pos_mod_bound[of 1000 now] by linarith
    then have "now - 999 - 603000000 \<le> k * 3600000"
      using k sec by simp
    moreover have "K * 3600000 \<le> now"
      unfolding K_def using div_mult_mod_eq[of now 3600000] pos_mod_sign[of 3600000 now] by linarith
    ultimately show "k \<in> {K - 167..K}"
      by simp
  qed
  have "card ?S \<le> card {22..<142 :: int}"
  proof (rule card_inj_on_le)
    show "inj_on hour_of_week ?S"
      using inj_on_subset[OF hour_of_week_inj range] .
    show "hour_of_week ` ?S \<subseteq> {22..<142}"
      using open_hour by auto
  qed simp
  then show ?thesis
    by simp
qed

section \<open>Witnesses\<close>

text \<open>A world in which no service answers and the tables are empty.\<close>

definition silent_world :: world where
  "silent_world = \<lparr>wd_granted = (\<lambda>_. True), wd_live_ticks = Inr [], wd_max_age = None, wd_candles_1m = Inr [],
     wd_biquote_tick = (\<lambda>_. No_response True), wd_biquote_ohlc = (\<lambda>_ _ _. No_response True),
     wd_binance_ticker = (\<lambda>_. No_response True), wd_binance_klines = (\<lambda>_ _ _. No_response True),
     wd_finnhub_quote = (\<lambda>_. No_response True), wd_finnhub_candles = (\<lambda>_ _ _ _. No_response True)\<rparr>"

definition gold :: symbol_definition where "gold = hd gold_symbols"

lemma gold_known: "tryGetSymbolDefinition ''XAUUSD'' = Some gold"
proof -
  have "normalizeSymbol ''XAUUSD'' = ''XAUUSD''"
    by (simp add: normalizeSymbol_def js_trim_def is_ws_def toUpperCase_def upper_char_def)
  then show ?thesis
    by (simp add: tryGetSymbolDefinition_def symbol_map_lookup gold_def BUILTIN_SYMBOLS_def gold_symbols_def)
qed

theorem providers_tried_witness:
  "map at_name (price_attempts (bootstrapMarketDataProviders silent_world 0 []) ''XAUUSD'') = [''live-ticks'', ''biquote'', ''finnhub'']"
proof -
  have "regional gold = ''biquote''"
    by (simp add: regional_def gold_def gold_symbols_def)
  then have "map (\<lambda>a. (at_name a, at_pinned a)) (price_attempts (bootstrapMarketDataProviders silent_world 0 []) ''XAUUSD'')
      = [(''live-ticks'', True), (''biquote'', False), (''finnhub'', False)]"
    using providers_tried[OF gold_known] by simp
  then have "map fst (map (\<lambda>a. (at_name a, at_pinned a)) (price_attempts (bootstrapMarketDataProviders silent_world 0 []) ''XAUUSD''))
      = [''live-ticks'', ''biquote'', ''finnhub'']"
    by simp
  then show ?thesis
    by (simp add: comp_def)
qed

definition gold_tick :: normalized_tick where
  "gold_tick = \<lparr>tk_symbol = ''XAUUSD'', tk_bid = 1999, tk_ask = 2001, tk_mid = 2000, tk_ts = 10000, tk_source = Biquote_SignalR\<rparr>"

definition no_health :: health where "no_health = \<lparr>he_state = [], he_dbCache = []\<rparr>"


theorem database_error_stops_prices_witness:
  "snd (price_producer (bootstrapMarketDataProviders
      (silent_world\<lparr>wd_live_ticks := Inl ''connection refused'', wd_finnhub_quote := (\<lambda>_. Body \<lparr>fq_c = 2000\<rparr>)\<rparr>) 0 ''key'') no_health 0 None ''XAUUSD'')
   = Inl (Other_error ''connection refused'')"
  using database_error_stops_prices[OF gold_known,
      of "silent_world\<lparr>wd_live_ticks := Inl ''connection refused'', wd_finnhub_quote := (\<lambda>_. Body \<lparr>fq_c = 2000\<rparr>)\<rparr>" "''connection refused''" 0 "''key''" no_health]
  by simp

theorem candles_in_order_witness:
  "case mp_fetchCandles (liveTicksProvider
      (silent_world\<lparr>wd_candles_1m := Inr [((''XAUUSD'', 60000), \<lparr>cc_symbol = ''XAUUSD'', cc_t = 60000, cc_o = 1, cc_h = 2, cc_l = 1, cc_c = 2,
          cc_v = None, cc_tickVolume = 3, cc_source = Biquote_SignalR\<rparr>)]\<rparr>) 130000) ''XAUUSD'' M1 10 of
     Succeeds (Some cs) \<Rightarrow> cs \<noteq> [] \<and> in_order M1 cs | _ \<Rightarrow> False"
proof -
  let ?w = "silent_world\<lparr>wd_candles_1m := Inr [((''XAUUSD'', 60000), \<lparr>cc_symbol = ''XAUUSD'', cc_t = 60000, cc_o = 1, cc_h = 2, cc_l = 1, cc_c = 2,
          cc_v = None, cc_tickVolume = 3, cc_source = Biquote_SignalR\<rparr>)]\<rparr>"
  have s: "SymbolSchema ''XAUUSD'' = Inr ''XAUUSD''"
    using gold_known by (simp add: SymbolSchema_def isKnownSymbol_def js_has_def tryGetSymbolDefinition_def
        normalizeSymbol_def js_trim_def is_ws_def toUpperCase_def upper_char_def)
  have f: "mp_fetchCandles (liveTicksProvider ?w 130000) ''XAUUSD'' M1 10
      = Succeeds (Some [\<lparr>cd_symbol = ''XAUUSD'', cd_tf = M1, cd_t = 60000, cd_o = 1, cd_h = 2, cd_l = 1, cd_c = 2, cd_v = None,
          cd_source = ''biquote-signalr'', cd_fetchedAt = 130000\<rparr>])"
    by (simp add: liveTicksProvider_def silent_world_def fetchCandles1m_def minute_rows_def FRESHNESS_WINDOW_MS_def slice_last_def
        bar_of_def parsed_def toCandle_def candle_parse_def s Let_def)
  show ?thesis
    using candles_in_order[where w = ?w and now = 130000, OF _ f] by (simp add: f)
qed

theorem minute_table_dark_half_witness:
  "(case fetchCandles1m (Inr (persist_bars (snd (feed_all [gold_tick, gold_tick\<lparr>tk_ts := 70000\<rparr>] ([], []))) [])) None 95000 ''XAUUSD'' 10 of
      Empty m \<Rightarrow> True | _ \<Rightarrow> False)
   \<and> (case fetchCandles1m (Inr (persist_bars (snd (feed_all [gold_tick, gold_tick\<lparr>tk_ts := 70000\<rparr>] ([], []))) [])) None 85000 ''XAUUSD'' 10 of
      Succeeds (bars, src) \<Rightarrow> map sb_t bars = [0] | _ \<Rightarrow> False)"
proof
  obtain m where "fetchCandles1m (Inr (persist_bars (snd (feed_all [gold_tick, gold_tick\<lparr>tk_ts := 70000\<rparr>] ([], []))) [])) None 95000 ''XAUUSD'' 10 = Empty m"
    using minute_table_dark_half[of 95000 "[gold_tick, gold_tick\<lparr>tk_ts := 70000\<rparr>]" "''XAUUSD''" 10] by (auto simp: gold_tick_def)
  then show "case fetchCandles1m (Inr (persist_bars (snd (feed_all [gold_tick, gold_tick\<lparr>tk_ts := 70000\<rparr>] ([], []))) [])) None 95000 ''XAUUSD'' 10 of
      Empty m \<Rightarrow> True | _ \<Rightarrow> False"
    by simp
  show "case fetchCandles1m (Inr (persist_bars (snd (feed_all [gold_tick, gold_tick\<lparr>tk_ts := 70000\<rparr>] ([], []))) [])) None 85000 ''XAUUSD'' 10 of
      Succeeds (bars, src) \<Rightarrow> map sb_t bars = [0] | _ \<Rightarrow> False"
    by (simp add: gold_tick_def feed_def bucket_of_def MINUTE_MS_def openBar_def emitClosed_def persist_bars_def flushClosedCandle_def
        js_has_def fetchCandles1m_def minute_rows_def FRESHNESS_WINDOW_MS_def slice_last_def bar_of_def Let_def)
qed

definition fixed_provider :: market_data_provider where
  "fixed_provider = \<lparr>mp_name = ''a'', mp_pinned = False,
     mp_fetchPrice = (\<lambda>_. Succeeds \<lparr>pr_price = 5, pr_provider = ''a'', pr_ageMs = None\<rparr>),
     mp_fetchCandles = (\<lambda>_ _ _. Succeeds None), mp_supports = (\<lambda>_ _. True)\<rparr>"

theorem fresh_price_ignores_provider_witness:
  "case snd (snd (getPriceWithMeta (fst (getPriceWithMeta (new_cache None) [(''a'', fixed_provider)] no_health False 0 None None None ''XAUUSD''))
      [] no_health False 2999 None None (Some ''binance'') ''XAUUSD'')) of
     Answer r \<Rightarrow> live_tick.lt_source (ps_tick r) = ''a'' | _ \<Rightarrow> False"
proof -
  have s: "SymbolSchema ''XAUUSD'' = Inr ''XAUUSD''"
    using gold_known by (simp add: SymbolSchema_def isKnownSymbol_def js_has_def tryGetSymbolDefinition_def
        normalizeSymbol_def js_trim_def is_ws_def toUpperCase_def upper_char_def)
  let ?r = "\<lparr>ps_tick = \<lparr>live_tick.lt_symbol = ''XAUUSD'', lt_bid = 5, lt_ask = 5, lt_mid = 5, lt_ts = 0, lt_source = ''a''\<rparr>,
      ps_stale = False, ps_producedAt = 0, ps_ageMs = None\<rparr>"
  obtain mc1 h1 where g: "getPriceWithMeta (new_cache None) [(''a'', fixed_provider)] no_health False 0 None None None ''XAUUSD'' = (mc1, h1, Answer ?r)"
    by (simp add: getPriceWithMeta_def s Let_def fetch_begin_def new_cache_def price_producer_def price_attempts_def list_providers_def
        fixed_provider_def put_first_def runWithFailover_def failover_order_def)
  have "snd (snd (getPriceWithMeta mc1 [] no_health False 2999 None None (Some ''binance'') ''XAUUSD'')) = Answer ?r"
    by (rule fresh_price_ignores_provider[where i = 0 and hit = None, OF g])
      (simp_all add: s new_cache_def fetch_begin_def Let_def)
  then show ?thesis
    by (simp add: g)
qed

end
