(* ===== verification/Market_Service.thy ===== *)
theory Market_Service
  imports Data_Adapters Alerts Indicator_Registry Noise_Control
begin

text \<open>
  The market routes of the web server (\<open>apps/web/src/lib/services/market.ts\<close>): the preferences of a
  user, prices, candles, indicators and the symbol search; and the previews of an alert rule and of the
  daily digest (\<open>services/alerts.ts\<close>, with the query of \<open>packages/db/src/queries/candles.ts\<close>).
\<close>

section \<open>The preferences of a user\<close>

text \<open>
  The row of the settings: the key of Finnhub in the decrypted vault and the preferred provider. The
  result is the key and the provider.
\<close>

record market_settings =
  ms_finnhub :: "string option"
  ms_marketDataProvider :: "string option"

definition loadUserMarketPrefs :: "market_settings option \<Rightarrow> string \<times> string" where
  "loadUserMarketPrefs settings =
     (case settings of
        None \<Rightarrow> ([], ''biquote'')
      | Some s \<Rightarrow>
          (case ms_finnhub s of None \<Rightarrow> [] | Some k \<Rightarrow> k,
           case ms_marketDataProvider s of None \<Rightarrow> ''biquote'' | Some p \<Rightarrow> p))"

definition MARKET_READ_RATE_LIMIT :: "nat option \<Rightarrow> nat" where
  "MARKET_READ_RATE_LIMIT env = (case env of None \<Rightarrow> 120 | Some n \<Rightarrow> if n = 0 then 120 else n)"

text \<open>The attempts for one symbol of a request for prices, and the state of the process.\<close>

definition service_registry :: "market_settings option \<Rightarrow> string option \<Rightarrow> world \<Rightarrow> ms \<Rightarrow> provider_registry" where
  "service_registry settings env w now =
     bootstrapMarketDataProviders w now (resolve_finnhub_key (Some (fst (loadUserMarketPrefs settings))) env)"

definition service_attempts ::
  "market_settings option \<Rightarrow> string option \<Rightarrow> world \<Rightarrow> ms \<Rightarrow> string \<Rightarrow> price_reply provider_attempt list" where
  "service_attempts settings env w now symbol =
     put_first (Some (snd (loadUserMarketPrefs settings))) (price_attempts (service_registry settings env w now) symbol)"

record price_service_result =
  pv_ticks :: "price_result list"
  pv_anyStale :: bool

text \<open>
  The symbols of a request, each answered by the adapter; one that fails fails the request. The code
  starts them together and waits for all; here one follows the other.
\<close>

fun price_answers ::
  "market_settings option \<Rightarrow> string option \<Rightarrow> world \<Rightarrow> bool \<Rightarrow> ms \<Rightarrow> price_cache \<Rightarrow> health \<Rightarrow> string list
     \<Rightarrow> price_cache \<times> health \<times> price_result adapter_answer list" where
  "price_answers settings env w worker now mc h [] = (mc, h, [])"
| "price_answers settings env w worker now mc h (s # ss) =
     (case getPriceWithMeta mc (service_registry settings env w now) h worker now None None
         (Some (snd (loadUserMarketPrefs settings))) s of
        (mc1, h1, a) \<Rightarrow>
          (case price_answers settings env w worker now mc1 h1 ss of (mc2, h2, as) \<Rightarrow> (mc2, h2, a # as)))"

definition answered :: "'r adapter_answer \<Rightarrow> 'r option" where
  "answered a = (case a of Answer r \<Rightarrow> Some r | _ \<Rightarrow> None)"

definition getPriceService ::
  "market_settings option \<Rightarrow> string option \<Rightarrow> world \<Rightarrow> bool \<Rightarrow> ms \<Rightarrow> price_cache \<Rightarrow> health \<Rightarrow> string list
     \<Rightarrow> price_cache \<times> health \<times> price_service_result option" where
  "getPriceService settings env w worker now mc h symbols =
     (case price_answers settings env w worker now mc h symbols of
        (mc', h', as) \<Rightarrow>
          (mc', h', map_option (\<lambda>ts. \<lparr>pv_ticks = ts, pv_anyStale = list_ex ps_stale ts\<rparr>) (those (map answered as))))"

definition getCandlesService ::
  "market_settings option \<Rightarrow> string option \<Rightarrow> world \<Rightarrow> bool \<Rightarrow> ms \<Rightarrow> candle_cache \<Rightarrow> health \<Rightarrow> string \<Rightarrow> timeframe \<Rightarrow> nat
     \<Rightarrow> candle_cache \<times> health \<times> candles_result adapter_answer" where
  "getCandlesService settings env w worker now mc h symbol tf count' =
     getCandlesWithMeta mc (service_registry settings env w now) h worker now (Some count')
       (Some (snd (loadUserMarketPrefs settings))) symbol tf"

section \<open>Search\<close>

definition includes_text :: "string \<Rightarrow> string \<Rightarrow> bool" where
  "includes_text s q \<longleftrightarrow> sublist q s"

definition searchSymbolsService :: "string \<Rightarrow> nat \<Rightarrow> (string \<times> string \<times> symbolCategory_t) list" where
  "searchSymbolsService query limit =
     (let q = toUpperCase query in
      map (\<lambda>s. (sd_internal s, sd_display s, sd_category s))
        (take limit (filter (\<lambda>s. includes_text (sd_internal s) q \<or> includes_text (toUpperCase (sd_display s)) q) BUILTIN_SYMBOLS)))"

section \<open>Indicators\<close>

fun kind_name :: "indicatorKind \<Rightarrow> string" where
  "kind_name K_sma = ''sma''"
| "kind_name K_ema = ''ema''"
| "kind_name K_rsi = ''rsi''"
| "kind_name K_macd = ''macd''"
| "kind_name K_atr = ''atr''"
| "kind_name K_bollinger = ''bollinger''"
| "kind_name K_pivots = ''pivots''"

type_synonym indicator_request = "indicatorKind \<times> raw_params"

definition INDICATOR_CACHE_TTL :: int where "INDICATOR_CACHE_TTL = 30"

definition indicator_key :: "string \<Rightarrow> timeframe \<Rightarrow> nat \<Rightarrow> indicator_request list \<Rightarrow> string" where
  "indicator_key symbol tf count' indicatorList =
     js_join (CHR '':'') ([''indicator'', symbol, timeframe_name tf, dec_nat count'] @ map (kind_name \<circ> fst) indicatorList)"

text \<open>The results in the order of the list; the first error is the error of the request.\<close>

fun compute_all ::
  "ms \<Rightarrow> string \<Rightarrow> timeframe \<Rightarrow> candle list \<Rightarrow> indicator_request list \<Rightarrow> registry_error + indicatorResult list" where
  "compute_all now symbol tf candles [] = Inr []"
| "compute_all now symbol tf candles ((kind, params) # reqs) =
     (case computeIndicator indicatorRegistry now symbol tf kind (Some params) candles of
        Inl e \<Rightarrow> Inl e
      | Inr r \<Rightarrow> (case compute_all now symbol tf candles reqs of Inl e \<Rightarrow> Inl e | Inr rs \<Rightarrow> Inr (r # rs)))"

type_synonym indicator_cache = "(candle list \<times> indicatorResult list) memory_cache"

datatype indicator_answer =
    Indicators nat "candle list" "indicatorResult list"
  | No_candles
  | Indicator_error registry_error
  | In_flight nat

text \<open>\<open>candles\<close> is what \<open>getCandles\<close> answers, when it answers.\<close>

definition getIndicatorsService ::
  "indicator_cache \<Rightarrow> bool \<Rightarrow> ms \<Rightarrow> candle list option \<Rightarrow> string \<Rightarrow> timeframe \<Rightarrow> nat \<Rightarrow> indicator_request list
     \<Rightarrow> indicator_cache \<times> indicator_answer" where
  "getIndicatorsService mc worker now candles symbol tf count' indicatorList =
     (let key = indicator_key symbol tf count' indicatorList in
      case fetch_begin mc key worker now of
        (mc1, Fresh e) \<Rightarrow> (mc1, Indicators (length (fst (ce_value e))) (fst (ce_value e)) (snd (ce_value e)))
      | (mc1, Joined i hit) \<Rightarrow> (mc1, In_flight i)
      | (mc1, Started i hit) \<Rightarrow>
          (case candles of
             None \<Rightarrow> (fetch_reject mc1 key, No_candles)
           | Some cs \<Rightarrow>
               (case compute_all now symbol tf cs indicatorList of
                  Inl e \<Rightarrow> (fetch_reject mc1 key, Indicator_error e)
                | Inr rs \<Rightarrow>
                    (fetch_resolve mc1 key (cs, rs) now (INDICATOR_CACHE_TTL * 1000) 0 [], Indicators (length cs) cs rs))))"

section \<open>Preview of a rule\<close>

text \<open>\<open>getRecentCandles\<close>: the newest rows of a symbol, newest first.\<close>

definition getRecentCandles :: "(string \<times> ms, closed_candle) js_map \<Rightarrow> string \<Rightarrow> nat \<Rightarrow> closed_candle list" where
  "getRecentCandles table symbol limit = take limit (rev (minute_rows table symbol))"

definition sim_candle :: "closed_candle \<Rightarrow> candle" where
  "sim_candle r = \<lparr>cd_symbol = cc_symbol r, cd_tf = M1, cd_t = cc_t r, cd_o = cc_o r, cd_h = cc_h r, cd_l = cc_l r,
     cd_c = cc_c r, cd_v = None, cd_source = [], cd_fetchedAt = 0\<rparr>"

definition preview_candles :: "(string \<times> ms, closed_candle) js_map \<Rightarrow> alert_rule \<Rightarrow> nat \<Rightarrow> candle list" where
  "preview_candles table rule lookbackDays = map sim_candle (getRecentCandles table (ar_symbol rule) 1500)"

record preview_result =
  pr_count :: nat
  pr_avgHoldMs :: real
  pr_recentFires :: "ms list"
  pr_unsupported :: bool

definition unsupported_preview :: preview_result where
  "unsupported_preview = \<lparr>pr_count = 0, pr_avgHoldMs = 0, pr_recentFires = [], pr_unsupported = True\<rparr>"

text \<open>A request over the limit of the minute is refused with the status 429.\<close>

definition previewAlertRuleService ::
  "bool \<Rightarrow> (string \<times> ms, closed_candle) js_map \<Rightarrow> alert_rule \<Rightarrow> nat \<Rightarrow> nat + preview_result" where
  "previewAlertRuleService allowed table rule lookbackDays =
     (if \<not> allowed then Inl 429
      else if rule_type_of rule = T_indicatorCross then Inr unsupported_preview
      else case simulateAlert rule (preview_candles table rule lookbackDays) (Some 50) of
          None \<Rightarrow> Inr unsupported_preview
        | Some sim \<Rightarrow>
            Inr \<lparr>pr_count = length (sim_fires sim), pr_avgHoldMs = sim_avgHoldMs sim,
              pr_recentFires = take 10 (map sf_at (rev (sim_fires sim))), pr_unsupported = False\<rparr>)"

section \<open>Preview of the digest\<close>

definition SEVERITY_LABELS :: "severity list" where
  "SEVERITY_LABELS = [Sev_Info, Sev_Warning, Sev_Error, Sev_Critical]"

fun BASE_VOLUMES :: "severity \<Rightarrow> nat" where
  "BASE_VOLUMES Sev_Info = 80"
| "BASE_VOLUMES Sev_Warning = 40"
| "BASE_VOLUMES Sev_Error = 15"
| "BASE_VOLUMES Sev_Critical = 5"

definition hour_part :: "string \<Rightarrow> nat" where
  "hour_part s = (case js_split (CHR '':'') s of [] \<Rightarrow> 0 | h # _ \<Rightarrow> dec h)"

definition preview_quiet :: "noise_config \<Rightarrow> int \<Rightarrow> bool" where
  "preview_quiet config hour =
     (case nc_quietHours config of None \<Rightarrow> False
      | Some (start, fin) \<Rightarrow> hour \<ge> int (hour_part start) \<and> hour < int (hour_part fin))"

record severity_row =
  sr_severity :: severity
  sr_total :: nat
  sr_allowed :: nat
  sr_blocked :: nat

record digest_breakdown =
  db_total :: nat
  db_allowed :: nat
  db_blocked :: nat
  db_bySeverity :: "severity_row list"
  db_digestMode :: bool

definition simulateBreakdown :: "noise_config \<Rightarrow> ms \<Rightarrow> digest_breakdown" where
  "simulateBreakdown config time =
     (let effective = (if preview_quiet config (getUTCHours time) then nc_minSeverityDuringQuietHours config else nc_minSeverity config);
          minRank = severityRank effective;
          rows = map (\<lambda>sev. let raw = BASE_VOLUMES sev; isBlocked = severityRank sev < minRank in
            \<lparr>sr_severity = sev, sr_total = raw, sr_allowed = (if isBlocked then 0 else raw), sr_blocked = (if isBlocked then raw else 0)\<rparr>)
            SEVERITY_LABELS
      in \<lparr>db_total = sum_list (map sr_total rows), db_allowed = sum_list (map sr_allowed rows),
          db_blocked = sum_list (map sr_blocked rows), db_bySeverity = rows, db_digestMode = nc_dailyDigestMode config\<rparr>)"

record digest_preview =
  dp_breakdown :: digest_breakdown
  dp_allowedPct :: int
  dp_blockedPct :: int
  dp_dailyEstimate :: nat

text \<open>\<open>Math.round\<close>.\<close>

definition previewDigestService :: "noise_config \<Rightarrow> ms \<Rightarrow> digest_preview" where
  "previewDigestService config now =
     (let b = simulateBreakdown config now;
          pct = (if db_total b > 0 then \<lfloor>real (db_allowed b) / real (db_total b) * 100 + 1 / 2\<rfloor> else 100)
      in \<lparr>dp_breakdown = b, dp_allowedPct = pct, dp_blockedPct = 100 - pct, dp_dailyEstimate = db_allowed b * 3\<rparr>)"

section \<open>What a user of the web gets\<close>

definition tries :: "price_reply provider_attempt list \<Rightarrow> (string \<times> bool) list" where
  "tries as = map (\<lambda>a. (at_name a, at_pinned a)) as"

lemma put_first_attempts:
  assumes "tryGetSymbolDefinition s = Some d"
  shows "tries (put_first (Some p) (price_attempts (bootstrapMarketDataProviders w now k) s))
    = (if p = [] then [(''live-ticks'', True), (regional d, False), (''finnhub'', False)]
       else if p = regional d then [(regional d, True), (''live-ticks'', False), (''finnhub'', False)]
       else if p = ''finnhub'' then [(''finnhub'', True), (''live-ticks'', False), (regional d, False)]
       else [(''live-ticks'', p = ''live-ticks''), (regional d, False), (''finnhub'', False)])"
proof -
  obtain o1 o2 o3 where a: "price_attempts (bootstrapMarketDataProviders w now k) s
      = [\<lparr>at_name = ''live-ticks'', at_pinned = True, at_outcome = o1\<rparr>, \<lparr>at_name = regional d, at_pinned = False, at_outcome = o2\<rparr>,
         \<lparr>at_name = ''finnhub'', at_pinned = False, at_outcome = o3\<rparr>]"
    using binance_of_known[OF assms] assms
    by (cases "sd_category d = Crypto")
      (auto simp: price_attempts_def bootstrap_list liveTicksProvider_def biquoteProvider_def binanceProvider_def finnhubProvider_def regional_def)
  have "regional d \<noteq> ''finnhub''" "regional d \<noteq> ''live-ticks''" "regional d \<noteq> []"
    by (simp_all add: regional_def)
  then show ?thesis
    by (auto simp: a tries_def put_first_def)
qed

text \<open>
  the table of the worker is no first choice of the web. Every request carries the provider of the
  user's settings, \<open>biquote\<close> when there are none: for gold and currencies BiQuote is pinned before
  the table, so that a price it answers is served however fresh the table is, and for crypto, which
  BiQuote does not serve, nothing is pinned and health decides.
\<close>

theorem web_asks_biquote_before_table:
  assumes "tryGetSymbolDefinition s = Some d" "sd_category d \<noteq> Crypto"
    and "settings = None \<or> ms_marketDataProvider (the settings) \<in> {None, Some ''biquote''}"
    and "mp_fetchPrice (biquoteProvider w now) s = Succeeds v"
  shows "tries (service_attempts settings env w now s) = [(''biquote'', True), (''live-ticks'', False), (''finnhub'', False)]
    \<and> snd (runWithFailover h now (service_attempts settings env w now s)) = Inr (v, ''biquote'')"
proof -
  have p: "snd (loadUserMarketPrefs settings) = ''biquote''"
    using assms(3) by (auto simp: loadUserMarketPrefs_def split: option.splits)
  have r: "regional d = ''biquote''"
    using assms(2) by (simp add: regional_def)
  have t: "tries (service_attempts settings env w now s) = [(''biquote'', True), (''live-ticks'', False), (''finnhub'', False)]"
    using put_first_attempts[OF assms(1), of "''biquote''"] by (simp add: service_attempts_def service_registry_def p r)
  have "\<exists>rest. service_attempts settings env w now s = \<lparr>at_name = ''biquote'', at_pinned = True, at_outcome = Succeeds v\<rparr> # rest
      \<and> list_all (\<lambda>a. \<not> at_pinned a) rest"
    using binance_of_known[OF assms(1)] assms(1,2,4)
    by (simp add: service_attempts_def service_registry_def p put_first_def price_attempts_def bootstrap_list
        liveTicksProvider_def biquoteProvider_def binanceProvider_def finnhubProvider_def)
  then obtain rest where a: "service_attempts settings env w now s = \<lparr>at_name = ''biquote'', at_pinned = True, at_outcome = Succeeds v\<rparr> # rest"
      "list_all (\<lambda>a. \<not> at_pinned a) rest" by blast
  have "snd (runWithFailover h now (service_attempts settings env w now s)) = Inr (v, ''biquote'')"
    unfolding a(1) by (subst failover_pinned_first) (use a(2) in simp_all)
  with t show ?thesis ..
qed

text \<open>
  the server's key of Finnhub is never used for a user who has none: the service passes the empty
  text as the caller's key, which the adapter prefers to the setting, so that Finnhub always fails for
  want of a key, whatever the setting is.
\<close>

theorem server_key_never_used:
  assumes "settings = None \<or> ms_finnhub (the settings) \<in> {None, Some []}"
  shows "resolve_finnhub_key (Some (fst (loadUserMarketPrefs settings))) env = []
    \<and> list_all (\<lambda>a. if at_name a = ''finnhub'' then at_outcome a
          = Fails (perr PROVIDER_NO_API_KEY ''finnhub'' ''Finnhub API key not configured'') else True)
        (service_attempts settings env w now s)"
proof -
  have k: "fst (loadUserMarketPrefs settings) = []"
    using assms by (auto simp: loadUserMarketPrefs_def split: option.splits)
  then have "resolve_finnhub_key (Some (fst (loadUserMarketPrefs settings))) env = []"
    by (simp add: resolve_finnhub_key_def)
  moreover have "list_all (\<lambda>a. if at_name a = ''finnhub'' then at_outcome a
          = Fails (perr PROVIDER_NO_API_KEY ''finnhub'' ''Finnhub API key not configured'') else True)
        (price_attempts (bootstrapMarketDataProviders w now []) s)"
    by (simp add: price_attempts_def bootstrap_list liveTicksProvider_def biquoteProvider_def binanceProvider_def finnhubProvider_def)
  moreover have "list_all P (put_first pref as)" if "list_all P as" "\<And>a b. P a \<Longrightarrow> P (a\<lparr>at_pinned := b\<rparr>)" for P pref and as :: "price_reply provider_attempt list"
    using that by (auto simp: put_first_def list_all_iff split: option.splits)
  ultimately show ?thesis
    by (simp add: service_attempts_def service_registry_def resolve_finnhub_key_def k)
qed

text \<open>
  the key under which indicators are cached has their kinds and not their parameters. While an
  answer is fresh, a request for the same symbol, timeframe, count and kinds gets it whatever its
  parameters are: a moving average over 200 bars is answered with the one over 14.
\<close>

theorem indicator_params_ignored:
  assumes "snd (fetch_begin mc (indicator_key symbol tf n inds) worker now) = Started i hit"
    and "getIndicatorsService mc worker now (Some cs) symbol tf n inds = (mc1, Indicators m cs rs)"
    and "map fst inds' = map fst inds" "now' < now + 30000"
  shows "snd (getIndicatorsService mc1 worker now' candles' symbol tf n inds') = Indicators m cs rs"
proof -
  let ?key = "indicator_key symbol tf n inds"
  have k: "indicator_key symbol tf n inds' = ?key"
    using assms(3) by (simp add: indicator_key_def map_map[symmetric] del: map_map)
  obtain mc0 where b: "fetch_begin mc ?key worker now = (mc0, Started i hit)"
    using assms(1) by (metis prod.collapse)
  have c: "compute_all now symbol tf cs inds = Inr rs" "m = length cs" "mc1 = fetch_resolve mc0 ?key (cs, rs) now 30000 0 []"
    using assms(2) b by (auto simp: getIndicatorsService_def Let_def INDICATOR_CACHE_TTL_def split: sum.splits)
  show ?thesis
    using resolved_is_fresh[of now' now 30000 0 mc0 ?key "(cs, rs)" "[]" worker] assms(4)
    by (auto simp: getIndicatorsService_def k c Let_def)
qed

section \<open>The previews\<close>

lemma minute_rows_strict:
  assumes "js_wf table" "\<forall>(k, r)\<in>set table. k = (cc_symbol r, cc_t r)"
  shows "sorted_wrt (<) (map cc_t (minute_rows table symbol))"
proof -
  let ?f = "filter (\<lambda>p. cc_symbol (snd p) = symbol) table"
  have k: "fst p = (symbol, cc_t (snd p))" if "p \<in> set ?f" for p
  proof -
    have "p \<in> set table" "cc_symbol (snd p) = symbol"
      using that by simp_all
    then show ?thesis
      using assms(2) by (cases p) auto
  qed
  have "distinct (map fst ?f)"
    using js_wf_filter[OF assms(1)] by (simp add: js_wf_def js_keys_def)
  then have d: "distinct ?f" "inj_on fst (set ?f)"
    by (simp_all add: distinct_map)
  have "inj_on (cc_t \<circ> snd) (set ?f)"
  proof (rule inj_onI)
    fix p q assume pq: "p \<in> set ?f" "q \<in> set ?f" "(cc_t \<circ> snd) p = (cc_t \<circ> snd) q"
    then have "fst p = fst q"
      using k[of p] k[of q] by simp
    then show "p = q"
      using inj_onD[OF d(2)] pq by blast
  qed
  then have "distinct (map (cc_t \<circ> snd) ?f)"
    using d(1) by (simp add: distinct_map)
  moreover have "mset (map cc_t (minute_rows table symbol)) = mset (map (cc_t \<circ> snd) ?f)"
    by (simp add: minute_rows_def filter_map comp_def multiset.map_comp)
  ultimately have "distinct (map cc_t (minute_rows table symbol))"
    by (metis mset_eq_imp_distinct_iff)
  moreover have "sorted (map cc_t (minute_rows table symbol))"
    by (simp add: minute_rows_def)
  ultimately show ?thesis
    by (simp add: strict_sorted_iff)
qed

lemma preview_candles_falling:
  assumes "js_wf table" "\<forall>(k, r)\<in>set table. k = (cc_symbol r, cc_t r)"
  shows "sorted_wrt (>) (map cd_t (preview_candles table rule days))"
proof -
  have "sorted_wrt (>) (rev (map cc_t (minute_rows table (ar_symbol rule))))"
    using minute_rows_strict[OF assms] by (simp add: sorted_wrt_rev)
  then have "sorted_wrt (>) (take 1500 (rev (map cc_t (minute_rows table (ar_symbol rule)))))"
    by (rule sorted_wrt_take)
  then show ?thesis
    by (simp add: preview_candles_def getRecentCandles_def sim_candle_def comp_def take_map rev_map)
qed

lemma falling_ends: "sorted_wrt (>) (xs :: int list) \<Longrightarrow> 2 \<le> length xs \<Longrightarrow> last xs < hd xs"
  by (cases xs; cases "tl xs") (auto simp: last_in_set)

lemma falling_rev: "sorted_wrt (>) (xs :: int list) \<Longrightarrow> sorted (take n (rev xs))"
  by (metis less_imp_le sorted_wrt_mono_rel sorted_wrt_rev sorted_wrt_take)

text \<open>
  the preview reads the minutes newest first while the simulator expects them oldest first. The
  average time between two firings that it reports is never positive, and negative as soon as there
  are two; the firings it calls recent are the oldest ones, in order; and neither the period the
  user chose to look back nor the timeframe of a rule on closes has any effect.
\<close>

theorem preview_runs_backwards:
  assumes "js_wf table" "\<forall>(k, r)\<in>set table. k = (cc_symbol r, cc_t r)"
    and "previewAlertRuleService True table rule days = Inr r"
  shows "(if pr_count r < 2 then pr_avgHoldMs r = 0 else pr_avgHoldMs r < 0)
    \<and> sorted (pr_recentFires r)
    \<and> previewAlertRuleService True table rule days' = Inr r
    \<and> (case rule of CandleClose s tf l d \<Rightarrow> previewAlertRuleService True table (CandleClose s tf' l d) days = Inr r | _ \<Rightarrow> True)"
proof (intro conjI)
  let ?cs = "preview_candles table rule days"
  show "previewAlertRuleService True table rule days' = Inr r"
    using assms(3) unfolding previewAlertRuleService_def preview_candles_def .
  show "case rule of CandleClose s tf l d \<Rightarrow> previewAlertRuleService True table (CandleClose s tf' l d) days = Inr r | _ \<Rightarrow> True"
    using assms(3) by (cases rule) (simp_all add: previewAlertRuleService_def preview_candles_def)
  have "(if pr_count r < 2 then pr_avgHoldMs r = 0 else pr_avgHoldMs r < 0) \<and> sorted (pr_recentFires r)"
  proof (cases "simulateAlert rule ?cs (Some 50)")
    case None
    then show ?thesis
      using assms(3) by (auto simp: previewAlertRuleService_def unsupported_preview_def split: if_splits)
  next
    case (Some sim)
    let ?ts = "map sf_at (sim_fires sim)"
    have facts: "rule_type_of rule \<noteq> T_indicatorCross"
      "?ts = map cd_t (take 50 (filter (\<lambda>c. isSatisfiedBy (the (specFromRule rule)) (sim_price rule c) None) ?cs))"
      "sim_avgHoldMs sim = (if length (sim_fires sim) < 2 then 0
           else real_of_int (sf_at (last (sim_fires sim)) - sf_at (hd (sim_fires sim))) / real (length (sim_fires sim) - 1))"
      using simulate_facts[where rule = rule and cs = ?cs and maxFires = "Some 50"] Some by simp_all
    have r: "pr_count r = length ?ts" "pr_avgHoldMs r = sim_avgHoldMs sim" "pr_recentFires r = take 10 (rev ?ts)"
      using assms(3) Some facts(1) by (auto simp: previewAlertRuleService_def rev_map)
    have "sorted_wrt (\<lambda>a b. cd_t a > cd_t b) ?cs"
      using preview_candles_falling[OF assms(1,2)] by (simp add: sorted_wrt_map)
    then have f: "sorted_wrt (>) ?ts"
      unfolding facts(2) sorted_wrt_map by (intro sorted_wrt_take sorted_wrt_filter)
    have "pr_avgHoldMs r < 0" if "2 \<le> length ?ts"
    proof -
      have "last ?ts < hd ?ts"
        using falling_ends[OF f that] .
      then have "sf_at (last (sim_fires sim)) < sf_at (hd (sim_fires sim))"
        using that by (cases "sim_fires sim") (auto simp: last_map)
      then show ?thesis
        using that r(2) facts(3) by (auto simp: divide_neg_pos)
    qed
    then show ?thesis
      using r facts(3) falling_rev[OF f] by auto
  qed
  then show "if pr_count r < 2 then pr_avgHoldMs r = 0 else pr_avgHoldMs r < 0" "sorted (pr_recentFires r)"
    by simp_all
qed

text \<open>
  the preview of the digest accounts for every message of the sample, and knows quiet hours only
  within one day of UTC: hours that run over midnight change nothing in it, although the filter of the
  notifications is quiet then.
\<close>

theorem digest_preview_misses_nights:
  assumes "nc_quietHours c = Some (a, b)" "hour_part b \<le> hour_part a" "minutes_of b < minutes_of a"
  shows "dp_breakdown (previewDigestService c t) = dp_breakdown (previewDigestService (c\<lparr>nc_quietHours := None\<rparr>) t)
    \<and> db_total (dp_breakdown (previewDigestService c t)) = 140
    \<and> db_allowed (dp_breakdown (previewDigestService c t)) + db_blocked (dp_breakdown (previewDigestService c t)) = 140
    \<and> isQuietHours (nc_quietHours c) (minutes_of a div 60, minutes_of a mod 60)"
proof -
  have "\<not> preview_quiet c h" for h
    using assms(1,2) by (auto simp: preview_quiet_def)
  moreover have "\<not> preview_quiet (c\<lparr>nc_quietHours := None\<rparr>) h" for h
    by (simp add: preview_quiet_def)
  ultimately have "simulateBreakdown c t = simulateBreakdown (c\<lparr>nc_quietHours := None\<rparr>) t"
    by (simp add: simulateBreakdown_def)
  moreover have "db_total (simulateBreakdown c t) = 140 \<and> db_allowed (simulateBreakdown c t) + db_blocked (simulateBreakdown c t) = 140"
    by (simp add: simulateBreakdown_def SEVERITY_LABELS_def Let_def)
  moreover have "isQuietHours (nc_quietHours c) (minutes_of a div 60, minutes_of a mod 60)"
    using assms(1,3) by (simp add: isQuietHours_def Let_def)
  ultimately show ?thesis
    by (simp add: previewDigestService_def Let_def)
qed

section \<open>Witnesses\<close>

definition quoting_world :: world where
  "quoting_world = silent_world\<lparr>wd_biquote_tick := (\<lambda>_. Body \<lparr>bq_bid = 1999, bq_ask = 2001, bq_mid = None\<rparr>),
     wd_live_ticks := Inr [(''XAUUSD'', \<lparr>live_tick_row.lt_symbol = ''XAUUSD'', lt_bid = 1, lt_ask = 1, lt_mid = 1, lt_ts = 0, lt_source = Biquote_SignalR\<rparr>)]\<rparr>"

lemma gold_from_biquote:
  "mp_fetchPrice (biquoteProvider quoting_world 0) ''XAUUSD'' = Succeeds \<lparr>pr_price = 2000, pr_provider = ''biquote'', pr_ageMs = None\<rparr>"
proof -
  have n: "toUpperCase (js_trim ''XAUUSD'') = ''XAUUSD''" "normalizeSymbol ''XAUUSD'' = ''XAUUSD''"
    by (simp_all add: normalizeSymbol_def js_trim_def is_ws_def toUpperCase_def upper_char_def)
  have "getSymbolDefinition ''XAUUSD'' = Inr gold"
    using gold_known by (simp add: getSymbolDefinition_def tryGetSymbolDefinition_def n Let_def)
  moreover have "sd_biquote gold = Some ''XAUUSD''"
    by (simp add: gold_def gold_symbols_def)
  ultimately show ?thesis
    by (simp add: biquoteProvider_def fetchTick_def assertSupportedSymbol_def toBiquoteSymbol_def n gold_known lift_call_def
        biquote_call_def quoting_world_def silent_world_def)
qed

theorem web_asks_biquote_before_table_witness:
  "snd (runWithFailover no_health 0 (service_attempts None None quoting_world 0 ''XAUUSD''))
     = Inr (\<lparr>pr_price = 2000, pr_provider = ''biquote'', pr_ageMs = None\<rparr>, ''biquote'')"
proof -
  have "sd_category gold \<noteq> Crypto"
    by (simp add: gold_def gold_symbols_def)
  then show ?thesis
    using web_asks_biquote_before_table[OF gold_known _ _ gold_from_biquote, where settings = None and env = None and h = no_health] by simp
qed

theorem server_key_never_used_witness:
  "resolve_finnhub_key (Some (fst (loadUserMarketPrefs None))) (Some ''server-key'') = []"
  using server_key_never_used[of None "Some ''server-key''"] by simp

theorem indicator_params_ignored_witness:
  "case snd (getIndicatorsService (fst (getIndicatorsService (new_cache None) False 0 (Some []) ''XAUUSD'' H1 300 [(K_ema, [(''period'', Js_num 14)])]))
      False 1000 None ''XAUUSD'' H1 300 [(K_ema, [(''period'', Js_num 200)])]) of
     Indicators m cs [r] \<Rightarrow> ir_params r = [(''period'', 14)] | _ \<Rightarrow> False"
proof -
  let ?i = "[(K_ema, [(''period'', Js_num 14)])]"
  have e: "compute_all 0 ''XAUUSD'' H1 [] ?i
      = Inr [\<lparr>ir_symbol = ''XAUUSD'', ir_tf = H1, ir_kind = K_ema, ir_params = [(''period'', 14)], ir_values = [], ir_fetchedAt = 0\<rparr>]"
    by (simp add: computeIndicator_unfold ema_plugin_def periodOnly_def int_field_def nat_param_def param_def ema_def)
  obtain mc1 where g: "getIndicatorsService (new_cache None) False 0 (Some []) ''XAUUSD'' H1 300 ?i
      = (mc1, Indicators 0 [] [\<lparr>ir_symbol = ''XAUUSD'', ir_tf = H1, ir_kind = K_ema, ir_params = [(''period'', 14)], ir_values = [], ir_fetchedAt = 0\<rparr>])"
    by (simp add: getIndicatorsService_def Let_def fetch_begin_def new_cache_def e del: compute_all.simps)
  have "snd (getIndicatorsService mc1 False 1000 None ''XAUUSD'' H1 300 [(K_ema, [(''period'', Js_num 200)])])
      = Indicators 0 [] [\<lparr>ir_symbol = ''XAUUSD'', ir_tf = H1, ir_kind = K_ema, ir_params = [(''period'', 14)], ir_values = [], ir_fetchedAt = 0\<rparr>]"
    by (rule indicator_params_ignored[OF _ g, where i = 0 and hit = None]) (simp_all add: fetch_begin_def new_cache_def Let_def)
  then show ?thesis
    by (simp add: g)
qed

definition minute_row :: "ms \<Rightarrow> closed_candle" where
  "minute_row t = \<lparr>cc_symbol = ''XAUUSD'', cc_t = t, cc_o = 1, cc_h = 3, cc_l = 1, cc_c = 2, cc_v = None, cc_tickVolume = 1, cc_source = Biquote_SignalR\<rparr>"

theorem preview_runs_backwards_witness:
  "case previewAlertRuleService True [((''XAUUSD'', 0), minute_row 0), ((''XAUUSD'', 60000), minute_row 60000)] (PriceCross ''XAUUSD'' 2 Above) 90 of
     Inl _ \<Rightarrow> False | Inr r \<Rightarrow> pr_count r = 2 \<and> pr_avgHoldMs r < 0 \<and> pr_recentFires r = [0, 60000]"
proof -
  let ?t = "[((''XAUUSD'', 0 :: ms), minute_row 0), ((''XAUUSD'', 60000), minute_row 60000)]"
  obtain r where r: "previewAlertRuleService True ?t (PriceCross ''XAUUSD'' 2 Above) 90 = Inr r" "pr_count r = 2" "pr_recentFires r = [0, 60000]"
    by (simp add: previewAlertRuleService_def preview_candles_def getRecentCandles_def minute_rows_def minute_row_def sim_candle_def sim_summary_def)
  have w: "js_wf ?t" "\<forall>(k, r)\<in>set ?t. k = (cc_symbol r, cc_t r)"
    by (simp_all add: js_wf_def js_keys_def minute_row_def)
  show ?thesis
    using preview_runs_backwards[OF w r(1)] r by simp
qed

theorem digest_preview_misses_nights_witness:
  "(let c = DEFAULT_NOISE_CONFIG\<lparr>nc_quietHours := Some (''22:00'', ''07:00''), nc_minSeverity := Sev_Info\<rparr> in
     db_allowed (dp_breakdown (previewDigestService c 82800000)) + db_blocked (dp_breakdown (previewDigestService c 82800000)) = 140
     \<and> isQuietHours (nc_quietHours c) (22, 0))"
proof -
  have m: "minutes_of ''22:00'' = 1320" "minutes_of ''07:00'' = 420" "hour_part ''22:00'' = 22" "hour_part ''07:00'' = 7"
    by code_simp+
  show ?thesis
    using digest_preview_misses_nights[of "DEFAULT_NOISE_CONFIG\<lparr>nc_quietHours := Some (''22:00'', ''07:00''), nc_minSeverity := Sev_Info\<rparr>" "''22:00''" "''07:00''" 82800000, THEN conjunct2]
    by (simp add: m Let_def)
qed

end
