(* ===== verification/Chat_Threads.thy ===== *)
theory Chat_Threads
  imports Outbox "HOL-Library.Char_ord" "HOL-Library.List_Lexorder" "HOL-Library.Product_Lexorder" "HOL-Library.Multiset"
begin

text \<open>
  The conversations of the assistant: their rows, pages, forks, titles and what is read back of them
  (\<open>persistence/thread-persistence.ts\<close>, \<open>persistence/message-persistence.ts\<close>, \<open>mastra/title.ts\<close>,
  \<open>mastra/title-service.ts\<close>, \<open>briefings/persistence.ts\<close>, \<open>thread-state.ts\<close> of \<open>packages/ai/src\<close>, and of
  \<open>apps/web/src\<close> the thread routes, the chat page and the services that compose the history of a turn).
  A time of a row is in microseconds, as the database keeps it; a statement is one step. Texts of
  titles are lists of UTF-16 units, all others strings. The order in which the database returns messages
  of equal time, the reading of a number from a text, the answers of a model and whether the driver
  accepts dates in raw SQL are parameters.
\<close>

section \<open>Titles\<close>

type_synonym js_text = "nat list"

definition text_units :: "string \<Rightarrow> js_text" where "text_units s = map of_char s"

definition space_unit :: "nat \<Rightarrow> bool" where
  "space_unit u \<longleftrightarrow> 9 \<le> u \<and> u \<le> 13 \<or> 8192 \<le> u \<and> u \<le> 8202
     \<or> u \<in> {32, 160, 5760, 8232, 8233, 8239, 8287, 12288, 65279}"

definition text_trim_end :: "js_text \<Rightarrow> js_text" where "text_trim_end t = rev (dropWhile space_unit (rev t))"

definition trim_text :: "js_text \<Rightarrow> js_text" where "trim_text t = text_trim_end (dropWhile space_unit t)"

definition ELLIPSIS :: nat where "ELLIPSIS = 8230"

definition deriveForkedTitle :: "js_text \<Rightarrow> js_text" where
  "deriveForkedTitle newText =
     (let trimmed = trim_text newText in
      if length trimmed = 0 then text_units ''New chat''
      else if length trimmed \<le> 80 then trimmed
      else text_trim_end (take 79 trimmed) @ [ELLIPSIS])"

text \<open>\<open>Array.from\<close>: a high surrogate and a low one after it make one element.\<close>

definition high_unit :: "nat \<Rightarrow> bool" where "high_unit u \<longleftrightarrow> 0xD800 \<le> u \<and> u < 0xDC00"
definition low_unit :: "nat \<Rightarrow> bool" where "low_unit u \<longleftrightarrow> 0xDC00 \<le> u \<and> u < 0xE000"

fun codepoints :: "js_text \<Rightarrow> js_text list" where
  "codepoints [] = []"
| "codepoints [u] = [[u]]"
| "codepoints (h # l # t) = (if high_unit h \<and> low_unit l then [h, l] # codepoints t else [h] # codepoints (l # t))"

definition MAX_CODEPOINTS :: nat where "MAX_CODEPOINTS = 60"

definition deterministicFallbackTitle :: "js_text \<Rightarrow> js_text" where
  "deterministicFallbackTitle firstUser =
     (let cps = codepoints (trim_text firstUser) in
      if length cps \<le> MAX_CODEPOINTS then concat cps else concat (take MAX_CODEPOINTS cps) @ [ELLIPSIS])"

definition quote_texts :: "js_text list" where "quote_texts = [[34], [39], [96]]"

definition cleanTitleForPersistence :: "js_text \<Rightarrow> js_text" where
  "cleanTitleForPersistence raw =
     (let trimmed = trim_text raw; cps = codepoints trimmed in
      if 2 \<le> length cps \<and> hd cps \<in> set quote_texts \<and> hd cps = List.last cps
      then deterministicFallbackTitle (concat (butlast (tl cps)))
      else deterministicFallbackTitle trimmed)"

datatype title_source = Src_Llm | Src_Fallback

datatype title_answer = Unresolved_Model | Model_Fails | Model_Says js_text

definition generateThreadTitle :: "title_answer \<Rightarrow> js_text \<Rightarrow> js_text \<times> title_source" where
  "generateThreadTitle answer firstUser = (case answer of
     Model_Says raw \<Rightarrow>
       let cleaned = cleanTitleForPersistence raw in
       if length cleaned = 0 then (deterministicFallbackTitle firstUser, Src_Fallback) else (cleaned, Src_Llm)
   | _ \<Rightarrow> (deterministicFallbackTitle firstUser, Src_Fallback))"

section \<open>The rows\<close>

record thread_row =
  th_id :: string
  th_userId :: string
  th_title :: "js_text option"
  th_titleSource :: "title_source option"
  th_pinnedSymbol :: "string option"
  th_modelOverride :: "string option"
  th_isBriefings :: bool
  th_analysisMode :: "string option"
  th_createdAt :: nat
  th_updatedAt :: nat

record message_row =
  mr_id :: string
  mr_threadId :: string
  mr_role :: string
  mr_content :: string
  mr_parts :: json
  mr_key :: "string option"
  mr_createdAt :: nat

record threads_db =
  tb_threads :: "thread_row list"
  tb_messages :: "message_row list"

text \<open>What is handed out of a thread: times in milliseconds.\<close>

record db_thread =
  dt_id :: string
  dt_title :: "js_text option"
  dt_titleSource :: "title_source option"
  dt_pinnedSymbol :: "string option"
  dt_modelOverride :: "string option"
  dt_analysisMode :: "string option"
  dt_createdAt :: nat
  dt_updatedAt :: nat

definition getTime :: "nat \<Rightarrow> nat" where "getTime t = t div 1000"

text \<open>\<open>new Date()\<close> loses the microseconds.\<close>

definition js_date :: "nat \<Rightarrow> nat" where "js_date now = now div 1000 * 1000"

definition rowToThread :: "thread_row \<Rightarrow> db_thread" where
  "rowToThread r = \<lparr>dt_id = th_id r, dt_title = th_title r, dt_titleSource = th_titleSource r,
     dt_pinnedSymbol = th_pinnedSymbol r, dt_modelOverride = th_modelOverride r, dt_analysisMode = th_analysisMode r,
     dt_createdAt = getTime (th_createdAt r), dt_updatedAt = getTime (th_updatedAt r)\<rparr>"

section \<open>Pages of threads\<close>

fun decimal_text :: "nat \<Rightarrow> string" where
  "decimal_text n = (if n < 10 then [char_of (48 + n)] else decimal_text (n div 10) @ [char_of (48 + n mod 10)])"

declare decimal_text.simps [simp del]

datatype thread_error = Invalid_Cursor | Date_Out_Of_Range | Date_Rejected

text \<open>The pattern of an identifier, letters of both cases.\<close>

definition hex_letter :: "char \<Rightarrow> bool" where
  "hex_letter c \<longleftrightarrow> c \<in> set ''0123456789abcdefABCDEF''"

definition is_uuid :: "string \<Rightarrow> bool" where
  "is_uuid s \<longleftrightarrow> length s = 36
     \<and> list_all (\<lambda>i. if i \<in> set [8, 13, 18, 23] then s ! i = CHR ''-''
         else if i = 14 then s ! i \<in> set ''12345''
         else if i = 19 then s ! i \<in> set ''89abAB''
         else hex_letter (s ! i)) [0..<36]"

type_synonym thread_cursor = "nat \<times> string option"

definition encodeThreadCursor :: "nat \<Rightarrow> string \<Rightarrow> string" where
  "encodeThreadCursor updatedAt i = decimal_text updatedAt @ CHR ''|'' # i"

definition MAX_SAFE_INTEGER :: real where "MAX_SAFE_INTEGER = 9007199254740991"

text \<open>\<open>num\<close> reads a number from a text, \<open>None\<close> when it is not finite.\<close>

definition decodeThreadCursor :: "(string \<Rightarrow> real option) \<Rightarrow> string option \<Rightarrow> thread_error + thread_cursor option" where
  "decodeThreadCursor num v = (case v of
     None \<Rightarrow> Inr None
   | Some raw \<Rightarrow>
       if raw = [] then Inr None
       else let timestampText = takeWhile (\<lambda>c. c \<noteq> CHR ''|'') raw; rest = dropWhile (\<lambda>c. c \<noteq> CHR ''|'') raw in
         case num timestampText of
           None \<Rightarrow> Inl Invalid_Cursor
         | Some updatedAt \<Rightarrow>
             if of_int \<lfloor>updatedAt\<rfloor> \<noteq> updatedAt \<or> MAX_SAFE_INTEGER < \<bar>updatedAt\<bar> \<or> updatedAt < 0 then Inl Invalid_Cursor
             else if rest = [] then Inr (Some (nat \<lfloor>updatedAt\<rfloor>, None))
             else if \<not> is_uuid (tl rest) then Inl Invalid_Cursor
             else Inr (Some (nat \<lfloor>updatedAt\<rfloor>, Some (tl rest))))"

definition bounded_threads :: "int \<Rightarrow> nat" where
  "bounded_threads limit = nat (max 1 (min (if limit = 0 then 50 else limit) 100))"

definition thread_key :: "thread_row \<Rightarrow> nat \<times> string" where
  "thread_key r = (getTime (th_updatedAt r), th_id r)"

definition before_cursor :: "thread_cursor \<Rightarrow> thread_row \<Rightarrow> bool" where
  "before_cursor c r = (case snd c of
     None \<Rightarrow> getTime (th_updatedAt r) < fst c
   | Some i \<Rightarrow> getTime (th_updatedAt r) < fst c \<or> getTime (th_updatedAt r) = fst c \<and> th_id r < toLowerCase i)"

definition thread_order :: "thread_row list \<Rightarrow> thread_row list" where
  "thread_order rows = rev (sort_key thread_key rows)"

text \<open>
  The last moment a \<open>Date\<close> can stand for; the driver cannot write a later one. The cursor is
  compared with an expression of raw SQL, so its date reaches the driver as it is: \<open>takes_dates\<close> says
  whether the driver accepts that. The in-process database of development does; the production
  adapter rejects it, as the comment and the test of the budget's statements say (\<open>cost.ts\<close>).
\<close>

definition MAX_DATE :: nat where "MAX_DATE = 8640000000000000"

definition listThreads :: "bool \<Rightarrow> (string \<Rightarrow> real option) \<Rightarrow> threads_db \<Rightarrow> string \<Rightarrow> int \<Rightarrow> string option
    \<Rightarrow> thread_error + db_thread list \<times> string option" where
  "listThreads takes_dates num db userId limit beforeCursor =
     (let boundedLimit = bounded_threads limit in
      case decodeThreadCursor num beforeCursor of
        Inl e \<Rightarrow> Inl e
      | Inr cursor \<Rightarrow>
          if cursor \<noteq> None \<and> \<not> takes_dates then Inl Date_Rejected
          else if (case cursor of None \<Rightarrow> False | Some c \<Rightarrow> MAX_DATE < fst c) then Inl Date_Out_Of_Range
          else let rows = take (boundedLimit + 1) (thread_order (filter (\<lambda>r. th_userId r = userId
                   \<and> (case cursor of None \<Rightarrow> True | Some c \<Rightarrow> before_cursor c r)) (tb_threads db)));
                 hasMore = boundedLimit < length rows;
                 threads = map rowToThread (if hasMore then take boundedLimit rows else rows);
                 nextCursor = (if hasMore \<and> threads \<noteq> []
                   then Some (encodeThreadCursor (dt_updatedAt (List.last threads)) (dt_id (List.last threads))) else None)
               in Inr (threads, nextCursor))"

section \<open>Statements on threads\<close>

definition owned :: "string \<Rightarrow> string \<Rightarrow> thread_row \<Rightarrow> bool" where
  "owned userId i r \<longleftrightarrow> th_id r = i \<and> th_userId r = userId"

definition getThread :: "threads_db \<Rightarrow> string \<Rightarrow> string \<Rightarrow> db_thread option" where
  "getThread db userId i = map_option rowToThread (List.find (owned userId i) (tb_threads db))"

definition new_thread :: "nat \<Rightarrow> string \<Rightarrow> string \<Rightarrow> thread_row" where
  "new_thread now newId userId = \<lparr>th_id = newId, th_userId = userId, th_title = None, th_titleSource = None,
     th_pinnedSymbol = None, th_modelOverride = None, th_isBriefings = False, th_analysisMode = None,
     th_createdAt = now, th_updatedAt = now\<rparr>"

text \<open>An insert fails on an identifier that is taken.\<close>

definition insert_thread :: "thread_row \<Rightarrow> threads_db \<Rightarrow> threads_db option" where
  "insert_thread r db =
     (if th_id r \<in> set (map th_id (tb_threads db)) then None else Some (db\<lparr>tb_threads := tb_threads db @ [r]\<rparr>))"

definition createThread :: "nat \<Rightarrow> string \<Rightarrow> string \<Rightarrow> string option \<Rightarrow> threads_db \<Rightarrow> threads_db \<times> db_thread option" where
  "createThread now newId userId pinnedSymbol db =
     (let r = (new_thread now newId userId)\<lparr>th_pinnedSymbol := pinnedSymbol\<rparr> in
      case insert_thread r db of None \<Rightarrow> (db, None) | Some db' \<Rightarrow> (db', Some (rowToThread r)))"

definition update_threads :: "(thread_row \<Rightarrow> thread_row) \<Rightarrow> string \<Rightarrow> string \<Rightarrow> threads_db \<Rightarrow> threads_db \<times> bool" where
  "update_threads f userId i db =
     (db\<lparr>tb_threads := map (\<lambda>r. if owned userId i r then f r else r) (tb_threads db)\<rparr>,
      list_ex (owned userId i) (tb_threads db))"

definition updateThreadTitle :: "nat \<Rightarrow> string \<Rightarrow> string \<Rightarrow> js_text \<Rightarrow> title_source \<Rightarrow> threads_db \<Rightarrow> threads_db \<times> bool" where
  "updateThreadTitle now userId i title source =
     update_threads (\<lambda>r. r\<lparr>th_title := Some title, th_titleSource := Some source, th_updatedAt := js_date now\<rparr>) userId i"

definition updateThreadPinnedSymbol :: "nat \<Rightarrow> string \<Rightarrow> string \<Rightarrow> string option \<Rightarrow> threads_db \<Rightarrow> threads_db \<times> bool" where
  "updateThreadPinnedSymbol now userId i pinnedSymbol =
     update_threads (\<lambda>r. r\<lparr>th_pinnedSymbol := pinnedSymbol, th_updatedAt := js_date now\<rparr>) userId i"

definition updateThreadAnalysisMode :: "nat \<Rightarrow> string \<Rightarrow> string \<Rightarrow> string option \<Rightarrow> threads_db \<Rightarrow> threads_db \<times> bool" where
  "updateThreadAnalysisMode now userId i analysisMode =
     update_threads (\<lambda>r. r\<lparr>th_analysisMode := analysisMode, th_updatedAt := js_date now\<rparr>) userId i"

text \<open>A deleted thread takes its messages with it.\<close>

definition delete_threads :: "(thread_row \<Rightarrow> bool) \<Rightarrow> threads_db \<Rightarrow> threads_db" where
  "delete_threads P db = \<lparr>tb_threads = filter (\<lambda>r. \<not> P r) (tb_threads db),
     tb_messages = filter (\<lambda>m. \<not> list_ex (\<lambda>r. P r \<and> th_id r = mr_threadId m) (tb_threads db)) (tb_messages db)\<rparr>"

definition deleteThread :: "string \<Rightarrow> string \<Rightarrow> threads_db \<Rightarrow> threads_db" where
  "deleteThread userId i = delete_threads (owned userId i)"

definition deleteAllThreads :: "string \<Rightarrow> threads_db \<Rightarrow> threads_db" where
  "deleteAllThreads userId = delete_threads (\<lambda>r. th_userId r = userId)"

definition batchDeleteThreads :: "string \<Rightarrow> string list \<Rightarrow> threads_db \<Rightarrow> threads_db \<times> string list" where
  "batchDeleteThreads userId ids db =
     (let P = (\<lambda>r. th_userId r = userId \<and> th_id r \<in> set ids) in
      (delete_threads P db, map th_id (filter P (tb_threads db))))"

section \<open>Messages\<close>

type_synonym arrangement = "message_row list \<Rightarrow> message_row list"

text \<open>\<open>ORDER BY created_at\<close> says nothing of rows of equal time.\<close>

definition oldest_first :: "arrangement \<Rightarrow> bool" where
  "oldest_first arrange \<longleftrightarrow> (\<forall>ms. mset (arrange ms) = mset ms \<and> sorted (map mr_createdAt (arrange ms)))"

definition listMessages :: "arrangement \<Rightarrow> threads_db \<Rightarrow> string \<Rightarrow> string \<Rightarrow> nat \<Rightarrow> message_row list" where
  "listMessages arrange db userId threadId limit =
     (case getThread db userId threadId of
        None \<Rightarrow> []
      | Some _ \<Rightarrow> take limit (arrange (filter (\<lambda>m. mr_threadId m = threadId) (tb_messages db))))"

text \<open>The transactions of \<open>appendUserMessage\<close> and \<open>appendAssistantMessage\<close>: the message under its key unless
  the key is taken, and the time of the thread. The first bumps the time in any case. Without a thread, or on an identifier
  that is taken, the transaction fails.\<close>

definition new_message :: "nat \<Rightarrow> string \<Rightarrow> string \<Rightarrow> string \<Rightarrow> json \<Rightarrow> string \<Rightarrow> message_row" where
  "new_message now newId role threadId msg key = \<lparr>mr_id = newId, mr_threadId = threadId, mr_role = role,
     mr_content = getMessageText msg, mr_parts = stripPartsForStorage (jfield_or JNull ''parts'' msg), mr_key = Some key,
     mr_createdAt = now\<rparr>"

definition touch_thread :: "nat \<Rightarrow> string \<Rightarrow> string \<Rightarrow> threads_db \<Rightarrow> threads_db" where
  "touch_thread now userId i db = fst (update_threads (\<lambda>r. r\<lparr>th_updatedAt := js_date now\<rparr>) userId i db)"

definition keyed_message :: "string \<Rightarrow> threads_db \<Rightarrow> message_row option" where
  "keyed_message key db = List.find (\<lambda>m. mr_key m = Some key) (tb_messages db)"

definition store_user_message :: "nat \<Rightarrow> string \<Rightarrow> string \<Rightarrow> string \<Rightarrow> json \<Rightarrow> string \<Rightarrow> threads_db \<Rightarrow> threads_db option" where
  "store_user_message now newId userId threadId msg key db =
     (if getThread db userId threadId = None then None
      else case keyed_message key db of
        Some _ \<Rightarrow> Some (touch_thread now userId threadId db)
      | None \<Rightarrow> if newId \<in> set (map mr_id (tb_messages db)) then None
          else Some (touch_thread now userId threadId
            (db\<lparr>tb_messages := tb_messages db @ [new_message now newId ''user'' threadId msg key]\<rparr>)))"

definition store_assistant_message :: "nat \<Rightarrow> string \<Rightarrow> string \<Rightarrow> string \<Rightarrow> json \<Rightarrow> string \<Rightarrow> threads_db \<Rightarrow> (threads_db \<times> string) option" where
  "store_assistant_message now newId userId threadId msg key db =
     (if getThread db userId threadId = None then None
      else case keyed_message key db of
        Some existing \<Rightarrow> Some (db, mr_id existing)
      | None \<Rightarrow> if newId \<in> set (map mr_id (tb_messages db)) then None
          else Some (touch_thread now userId threadId
            (db\<lparr>tb_messages := tb_messages db @ [new_message now newId ''assistant'' threadId msg key]\<rparr>), newId))"

section \<open>Forks\<close>

datatype fork_error = Thread_Not_Found | Thread_Too_Long | Message_Not_Found | Not_A_User_Message string | Insert_Failed

definition MAX_FORK_MESSAGES :: nat where "MAX_FORK_MESSAGES = 1000"

fun find_index :: "('a \<Rightarrow> bool) \<Rightarrow> 'a list \<Rightarrow> nat option" where
  "find_index P [] = None"
| "find_index P (x # xs) = (if P x then Some 0 else map_option Suc (find_index P xs))"

definition fork_rows :: "string \<Rightarrow> (nat \<Rightarrow> string) \<Rightarrow> string \<Rightarrow> nat \<Rightarrow> message_row list \<Rightarrow> message_row list" where
  "fork_rows newThreadId newIds newText editIdx sourceMessages =
     map (\<lambda>i. let m = sourceMessages ! i in
        \<lparr>mr_id = newIds i, mr_threadId = newThreadId, mr_role = mr_role m,
         mr_content = (if i = editIdx then newText else mr_content m), mr_parts = mr_parts m, mr_key = None,
         mr_createdAt = js_date (mr_createdAt m)\<rparr>) [0..<Suc editIdx]"

text \<open>The messages that a fork reads, one more than it takes.\<close>

definition fork_source :: "threads_db \<Rightarrow> string \<Rightarrow> message_row list" where
  "fork_source db threadId = take (MAX_FORK_MESSAGES + 1) (sort_key (\<lambda>m. (mr_createdAt m, mr_id m))
     (filter (\<lambda>m. mr_threadId m = threadId) (tb_messages db)))"

definition fork_created :: "nat \<Rightarrow> string \<Rightarrow> string \<Rightarrow> string \<Rightarrow> thread_row \<Rightarrow> thread_row" where
  "fork_created now newThreadId userId newText source =
     (new_thread now newThreadId userId)\<lparr>th_title := Some (deriveForkedTitle (text_units newText)),
       th_pinnedSymbol := th_pinnedSymbol source\<rparr>"

text \<open>The transaction of a fork: the thread, the copies, the time of the thread.\<close>

definition fork_insert :: "nat \<Rightarrow> thread_row \<Rightarrow> message_row list \<Rightarrow> threads_db \<Rightarrow> threads_db option" where
  "fork_insert now created rows db = (case insert_thread created db of
     None \<Rightarrow> None
   | Some db1 \<Rightarrow>
       if \<not> distinct (map mr_id (tb_messages db @ rows)) then None
       else Some (touch_thread now (th_userId created) (th_id created) (db1\<lparr>tb_messages := tb_messages db1 @ rows\<rparr>)))"

text \<open>\<open>forkThread\<close>; \<open>newIds\<close> are the identifiers the database draws for the copies.\<close>

definition forkThread :: "nat \<Rightarrow> string \<Rightarrow> (nat \<Rightarrow> string) \<Rightarrow> string \<Rightarrow> string \<Rightarrow> string \<Rightarrow> string
    \<Rightarrow> threads_db \<Rightarrow> fork_error + threads_db \<times> string" where
  "forkThread now newThreadId newIds userId sourceThreadId atMessageId newText db =
     (case List.find (owned userId sourceThreadId) (tb_threads db) of
        None \<Rightarrow> Inl Thread_Not_Found
      | Some source \<Rightarrow>
          if MAX_FORK_MESSAGES < length (fork_source db sourceThreadId) then Inl Thread_Too_Long
          else case find_index (\<lambda>m. mr_id m = atMessageId \<or> mr_key m = Some (''ui:'' @ atMessageId)) (fork_source db sourceThreadId) of
            None \<Rightarrow> Inl Message_Not_Found
          | Some editIdx \<Rightarrow>
              if mr_role (fork_source db sourceThreadId ! editIdx) \<noteq> ''user''
              then Inl (Not_A_User_Message (mr_role (fork_source db sourceThreadId ! editIdx)))
              else case fork_insert now (fork_created now newThreadId userId newText source)
                  (fork_rows newThreadId newIds newText editIdx (fork_source db sourceThreadId)) db of
                None \<Rightarrow> Inl Insert_Failed
              | Some db' \<Rightarrow> Inr (db', newIds editIdx))"

section \<open>Titles of untitled threads\<close>

text \<open>\<open>maybeGenerateThreadTitle\<close> reads the thread, asks the model and writes: other statements may come
  between the reading and the writing.\<close>

definition title_wanted :: "threads_db \<Rightarrow> string \<Rightarrow> string \<Rightarrow> bool" where
  "title_wanted db userId threadId = (case getThread db userId threadId of
     None \<Rightarrow> False | Some thread \<Rightarrow> dt_titleSource thread = None)"

datatype title_run = No_Title_Model | Asked title_answer

definition title_write :: "nat \<Rightarrow> string \<Rightarrow> string \<Rightarrow> js_text \<Rightarrow> title_run \<Rightarrow> threads_db \<Rightarrow> threads_db" where
  "title_write now userId threadId firstUser run db = (case run of
     No_Title_Model \<Rightarrow> fst (updateThreadTitle now userId threadId (take 60 (trim_text firstUser)) Src_Fallback db)
   | Asked answer \<Rightarrow> (case generateThreadTitle answer firstUser of
       (title, source) \<Rightarrow> fst (updateThreadTitle now userId threadId title source db)))"

definition maybeGenerateThreadTitle :: "nat \<Rightarrow> string \<Rightarrow> string \<Rightarrow> js_text \<Rightarrow> title_run \<Rightarrow> threads_db \<Rightarrow> threads_db" where
  "maybeGenerateThreadTitle now userId threadId firstUser run db =
     (if title_wanted db userId threadId then title_write now userId threadId firstUser run db else db)"

section \<open>The thread of briefings\<close>

definition briefings_of :: "threads_db \<Rightarrow> string \<Rightarrow> thread_row option" where
  "briefings_of db userId = List.find (\<lambda>r. th_isBriefings r \<and> th_userId r = userId) (tb_threads db)"

text \<open>\<open>onConflictDoNothing\<close>: the unique index on the briefings of a user, or the identifier.\<close>

definition insert_briefings :: "nat \<Rightarrow> string \<Rightarrow> string \<Rightarrow> threads_db \<Rightarrow> threads_db \<times> thread_row option" where
  "insert_briefings now newId userId db =
     (let r = (new_thread now newId userId)\<lparr>th_title := Some (text_units ''Briefings''), th_titleSource := Some Src_Llm,
        th_isBriefings := True\<rparr> in
      if briefings_of db userId \<noteq> None then (db, None)
      else case insert_thread r db of None \<Rightarrow> (db, None) | Some db' \<Rightarrow> (db', Some r))"

text \<open>\<open>getOrCreateBriefingsThread\<close> from the state it finds; \<open>before_insert\<close> and \<open>before_select\<close> are what
  others do between its statements.\<close>

definition getOrCreateBriefingsThread :: "(threads_db \<Rightarrow> threads_db) \<Rightarrow> (threads_db \<Rightarrow> threads_db) \<Rightarrow> nat \<Rightarrow> string \<Rightarrow> string
    \<Rightarrow> threads_db \<Rightarrow> threads_db \<times> db_thread option" where
  "getOrCreateBriefingsThread before_insert before_select now newId userId db =
     (case briefings_of db userId of
        Some found \<Rightarrow> (db, Some (rowToThread found))
      | None \<Rightarrow> (case insert_briefings now newId userId (before_insert db) of
          (db1, Some created) \<Rightarrow> (db1, Some (rowToThread created))
        | (db1, None) \<Rightarrow> let db2 = before_select db1 in (db2, map_option rowToThread (briefings_of db2 userId))))"

section \<open>What is read back\<close>

definition parts_list :: "json \<Rightarrow> json list" where
  "parts_list v = (case v of JArr ps \<Rightarrow> ps | _ \<Rightarrow> [])"

text \<open>The history of a turn (\<open>mastra-canonical-chat.ts\<close> and its streaming twin): identifier, role and parts.\<close>

definition history_parts :: "message_row \<Rightarrow> json list" where
  "history_parts m = (if parts_list (mr_parts m) \<noteq> [] then parts_list (mr_parts m)
     else [JObj [(''type'', JStr ''text''), (''text'', JStr (mr_content m))]])"

definition history_role :: "string \<Rightarrow> string" where
  "history_role role = (if role = ''assistant'' \<or> role = ''system'' then role else ''user'')"

definition HISTORY_LIMIT :: nat where "HISTORY_LIMIT = 60"

definition turn_history :: "arrangement \<Rightarrow> threads_db \<Rightarrow> string \<Rightarrow> string \<Rightarrow> string \<Rightarrow> (string \<times> string \<times> json list) list" where
  "turn_history arrange db userId threadId messageId =
     map (\<lambda>m. (mr_id m, history_role (mr_role m), history_parts m))
       (filter (\<lambda>m. mr_key m \<noteq> Some (''ui:'' @ messageId)) (listMessages arrange db userId threadId HISTORY_LIMIT))"

text \<open>
  What the model is handed (\<open>messageHistory\<close> and \<open>setupCanonicalChat\<close> of \<open>mastra/canonical-chat.ts\<close>): when
  the memory of the agent is ready only the new message, the memory adding its own recall; when
  it could not be prepared the last sixty of the history and the new message.
\<close>

definition messageHistory :: "(string \<times> string \<times> json list) list \<Rightarrow> string \<times> string \<times> json list \<Rightarrow> (string \<times> string \<times> json list) list" where
  "messageHistory history latest =
     (let source = (if list_ex (\<lambda>m. fst m = fst latest) history then history else history @ [latest])
      in drop (length source - 60) source)"

definition agent_messages :: "bool \<Rightarrow> (string \<times> string \<times> json list) list \<Rightarrow> string \<times> string \<times> json list \<Rightarrow> (string \<times> string \<times> json list) list" where
  "agent_messages memory_ready history latest = (if memory_ready then [latest] else messageHistory history latest)"

text \<open>The chat page: messages in a role it knows, by their parts.\<close>

definition page_messages :: "arrangement \<Rightarrow> threads_db \<Rightarrow> string \<Rightarrow> string \<Rightarrow> (string \<times> string \<times> json list \<times> string) list" where
  "page_messages arrange db userId threadId =
     map (\<lambda>m. (mr_id m, mr_role m, parts_list (mr_parts m), mr_content m))
       (filter (\<lambda>m. mr_role m \<in> set [''user'', ''assistant'', ''system'', ''data'']) (listMessages arrange db userId threadId 200))"

fun find_map :: "('a \<Rightarrow> 'b option) \<Rightarrow> 'a list \<Rightarrow> 'b option" where
  "find_map f [] = None"
| "find_map f (x # xs) = (case f x of None \<Rightarrow> find_map f xs | Some y \<Rightarrow> Some y)"

text \<open>The newest report of the messages at hand; \<open>report_of\<close> parses the report of a part.\<close>

definition extractLatestMastraReport :: "(json \<Rightarrow> 'r option) \<Rightarrow> message_row list \<Rightarrow> 'r option" where
  "extractLatestMastraReport parse messages =
     (let report_of = (\<lambda>part. case jfield ''data'' part of
            Some (JObj d) \<Rightarrow> if jfield ''type'' part = Some (JStr ''data-multi-agent-meta'')
              then (case js_get d ''report'' of None \<Rightarrow> None | Some r \<Rightarrow> parse r) else None
          | _ \<Rightarrow> None);
          of_message = (\<lambda>m. if mr_role m = ''assistant''
            then find_map report_of (rev (parts_list (mr_parts m))) else None)
      in find_map of_message (rev messages))"

definition prior_report :: "arrangement \<Rightarrow> (json \<Rightarrow> 'r option) \<Rightarrow> threads_db \<Rightarrow> string \<Rightarrow> string \<Rightarrow> 'r option" where
  "prior_report arrange parse db userId threadId =
     extractLatestMastraReport parse (listMessages arrange db userId threadId 100)"

definition BACKFILL_LIMIT :: nat where "BACKFILL_LIMIT = 40"

definition toMastraMessage :: "message_row \<Rightarrow> string \<times> string \<times> json list" where
  "toMastraMessage m = (mr_id m,
     if mr_role m \<in> set [''user'', ''assistant'', ''system''] then mr_role m else ''system'',
     [JObj [(''type'', JStr ''text''), (''text'', JStr (mr_content m))]])"

text \<open>The backfill of the memory of a thread: \<open>stored\<close> is what the memory holds of it.\<close>

definition backfillThreadHistoryIfNeeded :: "arrangement \<Rightarrow> threads_db \<Rightarrow> string \<Rightarrow> string \<Rightarrow> (string \<times> string \<times> json list) list
    \<Rightarrow> (string \<times> string \<times> json list) list \<times> nat" where
  "backfillThreadHistoryIfNeeded arrange db userId threadId stored =
     (if stored \<noteq> [] then (stored, 0)
      else let rows = listMessages arrange db userId threadId BACKFILL_LIMIT in (map toMastraMessage rows, length rows))"

section \<open>The routes\<close>

record patch_body =
  pa_pinnedSymbol :: "string option option"
  pa_analysisMode :: "string option option"

definition ANALYSIS_MODES :: "string list" where
  "ANALYSIS_MODES = [''single'', ''quick'', ''standard'', ''full'', ''auto'']"

definition PatchBodySchema :: "patch_body \<Rightarrow> bool" where
  "PatchBodySchema b \<longleftrightarrow> (pa_pinnedSymbol b \<noteq> None \<or> pa_analysisMode b \<noteq> None)
     \<and> (case pa_analysisMode b of Some (Some m) \<Rightarrow> m \<in> set ANALYSIS_MODES | _ \<Rightarrow> True)"

datatype 'r route_answer = Route_Ok 'r | Bad_Body | Not_Found

definition patch_thread :: "nat \<Rightarrow> string \<Rightarrow> string \<Rightarrow> patch_body \<Rightarrow> threads_db \<Rightarrow> threads_db \<times> db_thread option route_answer" where
  "patch_thread now userId i b db =
     (if \<not> PatchBodySchema b then (db, Bad_Body)
      else let (db', ok) = (case pa_analysisMode b of
             Some mode \<Rightarrow> updateThreadAnalysisMode now userId i mode db
           | None \<Rightarrow> updateThreadPinnedSymbol now userId i
               (case pa_pinnedSymbol b of None \<Rightarrow> None | Some s \<Rightarrow> s) db)
        in if ok then (db', Route_Ok (getThread db' userId i)) else (db', Not_Found))"

definition thread_with_messages :: "arrangement \<Rightarrow> threads_db \<Rightarrow> string \<Rightarrow> string \<Rightarrow> (db_thread \<times> message_row list) route_answer" where
  "thread_with_messages arrange db userId i = (case getThread db userId i of
     None \<Rightarrow> Not_Found
   | Some t \<Rightarrow> Route_Ok (t, listMessages arrange db userId i 200))"

text \<open>The limit of the listing route, from a number that may not be finite.\<close>

definition route_limit :: "real option \<Rightarrow> int" where
  "route_limit raw = (case raw of None \<Rightarrow> 50 | Some x \<Rightarrow> min (max (if x < 0 then \<lceil>x\<rceil> else \<lfloor>x\<rfloor>) 1) 100)"

section \<open>States of a thread\<close>

datatype thread_state = St_Created | St_Active | St_Archived | St_Deleted

fun allowedTransitions :: "thread_state \<Rightarrow> thread_state list" where
  "allowedTransitions St_Created = [St_Active, St_Deleted]"
| "allowedTransitions St_Active = [St_Archived, St_Deleted]"
| "allowedTransitions St_Archived = [St_Active, St_Deleted]"
| "allowedTransitions St_Deleted = []"

definition canTransitionThread :: "thread_state \<Rightarrow> thread_state \<Rightarrow> bool" where
  "canTransitionThread a b \<longleftrightarrow> b \<in> set (allowedTransitions a)"

definition canAppendMessage :: "thread_state \<Rightarrow> bool" where
  "canAppendMessage st \<longleftrightarrow> st \<in> set [St_Created, St_Active]"

definition canEdit :: "thread_state \<Rightarrow> bool" where
  "canEdit st \<longleftrightarrow> st \<in> set [St_Created, St_Active]"

definition canDelete :: "thread_state \<Rightarrow> bool" where
  "canDelete st \<longleftrightarrow> st \<noteq> St_Deleted"

definition canArchive :: "thread_state \<Rightarrow> bool" where
  "canArchive st \<longleftrightarrow> st = St_Active"

section \<open>Walking the pages\<close>

fun walk_threads :: "bool \<Rightarrow> (string \<Rightarrow> real option) \<Rightarrow> threads_db \<Rightarrow> string \<Rightarrow> int \<Rightarrow> nat \<Rightarrow> string option
    \<Rightarrow> thread_error + db_thread list" where
  "walk_threads takes_dates num db userId limit 0 cursor = Inr []"
| "walk_threads takes_dates num db userId limit (Suc n) cursor = (case listThreads takes_dates num db userId limit cursor of
     Inr (threads, Some c) \<Rightarrow> (case walk_threads takes_dates num db userId limit n (Some c) of
         Inr others \<Rightarrow> Inr (threads @ others) | Inl e \<Rightarrow> Inl e)
   | Inr (threads, None) \<Rightarrow> Inr threads
   | Inl e \<Rightarrow> Inl e)"

definition threads_well_formed :: "threads_db \<Rightarrow> bool" where
  "threads_well_formed db \<longleftrightarrow> distinct (map th_id (tb_threads db))
     \<and> list_all (\<lambda>r. is_uuid (th_id r) \<and> toLowerCase (th_id r) = th_id r \<and> getTime (th_updatedAt r) \<le> MAX_DATE) (tb_threads db)"

definition reads_decimals :: "(string \<Rightarrow> real option) \<Rightarrow> bool" where
  "reads_decimals num \<longleftrightarrow> (\<forall>n\<le>MAX_DATE. num (decimal_text n) = Some (real n))"

lemma decimal_text_digits: "c \<in> set (decimal_text n) \<Longrightarrow> c \<noteq> CHR ''|''"
proof (induction n rule: decimal_text.induct)
  case (1 n)
  have digit: "char_of (48 + k) \<noteq> CHR ''|''" if "k < 10" for k :: nat
  proof
    assume "char_of (48 + k) = CHR ''|''"
    then have "of_char (char_of (48 + k)) = (of_char CHR ''|'' :: nat)"
      by simp
    then show False
      using that by simp
  qed
  show ?case
    using 1 digit[of n] digit[of "n mod 10"]
    by (subst (asm) decimal_text.simps) (auto split: if_splits simp: decimal_text.simps[of n])
qed

lemma decimal_text_nonempty: "decimal_text n \<noteq> []"
  by (subst decimal_text.simps) auto

lemma decode_encode:
  assumes "reads_decimals num" "n \<le> MAX_DATE" "is_uuid i"
  shows "decodeThreadCursor num (Some (encodeThreadCursor n i)) = Inr (Some (n, Some i))"
proof -
  have cut: "takeWhile (\<lambda>c. c \<noteq> CHR ''|'') (decimal_text n @ CHR ''|'' # i) = decimal_text n"
    "dropWhile (\<lambda>c. c \<noteq> CHR ''|'') (decimal_text n @ CHR ''|'' # i) = CHR ''|'' # i"
    using decimal_text_digits by (auto simp: takeWhile_append dropWhile_append)
  have "real n \<le> MAX_SAFE_INTEGER"
    using assms(2) of_nat_mono[of n MAX_DATE, where 'a = real] by (simp add: MAX_DATE_def MAX_SAFE_INTEGER_def)
  then show ?thesis
    using assms by (simp add: decodeThreadCursor_def encodeThreadCursor_def cut reads_decimals_def decimal_text_nonempty)
qed

lemma thread_key_inj: "distinct (map th_id rs) \<Longrightarrow> distinct (map thread_key rs)"
  by (induction rs) (auto simp: thread_key_def)

text \<open>The threads of a user in falling order of their keys.\<close>

lemma thread_order_falling:
  assumes "distinct (map th_id rs)"
  shows "sorted_wrt (\<lambda>a b. thread_key b < thread_key a) (thread_order rs)"
proof -
  have "sorted (map thread_key (sort_key thread_key rs))" "distinct (map thread_key (sort_key thread_key rs))"
    using thread_key_inj[OF assms] by (simp_all add: distinct_map)
  then have "sorted_wrt (<) (map thread_key (sort_key thread_key rs))"
    by (simp add: strict_sorted_iff)
  then show ?thesis
    by (simp add: thread_order_def sorted_wrt_rev sorted_wrt_map)
qed

lemma set_thread_order [simp]: "set (thread_order rs) = set rs"
  by (simp add: thread_order_def)

lemma thread_order_filter: "thread_order (filter P rs) = filter P (thread_order rs)"
  by (simp add: thread_order_def filter_sort[symmetric] rev_filter)

text \<open>A cursor leaves what follows its row.\<close>

lemma after_cursor:
  assumes "sorted_wrt (\<lambda>a b. thread_key b < thread_key a) (A @ x # B)"
  shows "filter (\<lambda>r. thread_key r < thread_key x) (A @ x # B) = B"
proof -
  have "filter (\<lambda>r. thread_key r < thread_key x) A = []" "filter (\<lambda>r. thread_key r < thread_key x) B = B"
    using assms by (auto simp: sorted_wrt_append filter_empty_conv filter_id_conv dest: less_asym)
  then show ?thesis
    by simp
qed

lemma before_cursor_key: "toLowerCase (th_id x) = th_id x \<Longrightarrow>
    before_cursor (getTime (th_updatedAt x), Some (th_id x)) = (\<lambda>r. thread_key r < thread_key x)"
  by (rule ext) (auto simp: before_cursor_def thread_key_def)

lemma bounded_threads_pos [simp]: "0 < bounded_threads limit" "bounded_threads limit \<noteq> 0" "bounded_threads limit \<le> 100"
  by (auto simp: bounded_threads_def)

definition cursor_after :: "thread_row list \<Rightarrow> string option" where
  "cursor_after A = (if A = [] then None
     else Some (encodeThreadCursor (getTime (th_updatedAt (List.last A))) (th_id (List.last A))))"

lemma one_page:
  assumes db: "threads_well_formed db" and num: "reads_decimals num"
    and cut: "thread_order (filter (\<lambda>r. th_userId r = userId) (tb_threads db)) = A @ B" and dates: "takes_dates \<or> A = []"
  shows "listThreads takes_dates num db userId limit (cursor_after A) =
    Inr (map rowToThread (take (bounded_threads limit) B),
      if bounded_threads limit < length B then cursor_after (A @ take (bounded_threads limit) B) else None)"
proof -
  let ?n = "bounded_threads limit" and ?u = "\<lambda>r. th_userId r = userId"
  have mem: "r \<in> set (tb_threads db)" if "r \<in> set (A @ B)" for r
    using that set_thread_order[of "filter ?u (tb_threads db)"] cut by auto
  have ok: "is_uuid (th_id r) \<and> toLowerCase (th_id r) = th_id r \<and> getTime (th_updatedAt r) \<le> MAX_DATE" if "r \<in> set A" for r
    using db mem that by (auto simp: threads_well_formed_def list_all_iff)
  have rows: "thread_order (filter (\<lambda>r. ?u r \<and> P r) (tb_threads db)) = filter P (A @ B)" for P
    using thread_order_filter[of P "filter ?u (tb_threads db)"] by (simp add: cut filter_filter conj_commute)
  have falling: "sorted_wrt (\<lambda>a b. thread_key b < thread_key a) (A @ B)"
    using thread_order_falling[of "filter ?u (tb_threads db)"] db cut
    by (simp add: threads_well_formed_def distinct_map_filter)
  have more: "?n < length (take (Suc ?n) B) \<longleftrightarrow> ?n < length B"
    and shown: "(if ?n < length B then take ?n (take (Suc ?n) B) else take (Suc ?n) B) = take ?n B"
    by (auto simp: min_def)
  have cursor: "(if ?n < length B \<and> map rowToThread (take ?n B) \<noteq> []
      then Some (encodeThreadCursor (dt_updatedAt (List.last (map rowToThread (take ?n B)))) (dt_id (List.last (map rowToThread (take ?n B)))))
      else None) = (if ?n < length B then cursor_after (A @ take ?n B) else None)"
  proof (cases "?n < length B")
    case True
    then have "take ?n B \<noteq> []"
      by auto
    then show ?thesis
      by (simp add: cursor_after_def last_map rowToThread_def)
  qed simp
  show ?thesis
  proof (cases "A = []")
    case True
    then show ?thesis
      using cursor[unfolded True] rows[of "\<lambda>r. True"]
      by (cases "?n < length B") (auto simp: listThreads_def cursor_after_def[of "[]"] decodeThreadCursor_def Let_def more shown)
  next
    case False
    then obtain C x where A: "A = C @ [x]"
      by (cases A rule: rev_exhaust) auto
    then have takes_dates using dates by simp
    have x: "is_uuid (th_id x)" "toLowerCase (th_id x) = th_id x" "getTime (th_updatedAt x) \<le> MAX_DATE"
      using ok[of x] A by auto
    have "filter (before_cursor (getTime (th_updatedAt x), Some (th_id x))) (A @ B) = B"
      using after_cursor[of C x B] falling by (simp add: A before_cursor_key[OF x(2)])
    then show ?thesis
      using cursor rows[of "before_cursor (getTime (th_updatedAt x), Some (th_id x))"] x \<open>takes_dates\<close>
      by (cases "?n < length B")
        (auto simp: listThreads_def cursor_after_def[of "C @ [x]"] A decode_encode[OF num x(3,1)] Let_def more shown)
  qed
qed

lemma rejected_page:
  assumes "threads_well_formed db" "reads_decimals num" "r \<in> set (tb_threads db)"
  shows "listThreads False num db userId limit (Some (encodeThreadCursor (getTime (th_updatedAt r)) (th_id r))) = Inl Date_Rejected"
proof -
  have "is_uuid (th_id r)" "getTime (th_updatedAt r) \<le> MAX_DATE"
    using assms(1,3) by (auto simp: threads_well_formed_def list_all_iff)
  then show ?thesis by (simp add: listThreads_def decode_encode[OF assms(2)] Let_def)
qed

lemma walk_all_pages:
  assumes "threads_well_formed db" "reads_decimals num"
    and "thread_order (filter (\<lambda>r. th_userId r = userId) (tb_threads db)) = A @ B" "length B \<le> k"
  shows "walk_threads True num db userId limit (Suc k) (cursor_after A) = Inr (map rowToThread B)"
  using assms(3,4)
proof (induction k arbitrary: A B)
  case 0
  then show ?case
    using one_page[OF assms(1,2) 0(1), of True limit] by simp
next
  case (Suc k)
  let ?n = "bounded_threads limit"
  have "walk_threads True num db userId limit (Suc k) (cursor_after (A @ take ?n B)) = Inr (map rowToThread (drop ?n B))"
  proof (rule Suc.IH)
    show "thread_order (filter (\<lambda>r. th_userId r = userId) (tb_threads db)) = (A @ take ?n B) @ drop ?n B"
      using Suc.prems(1) by simp
    show "length (drop ?n B) \<le> k"
      using Suc.prems(2) bounded_threads_pos(1)[of limit] unfolding length_drop by linarith
  qed
  moreover have "cursor_after (A @ take ?n B) \<noteq> None" if "?n < length B"
    using that bounded_threads_pos(1)[of limit] by (auto simp: cursor_after_def)
  moreover have "map rowToThread (take ?n B) @ map rowToThread (drop ?n B) = map rowToThread B"
    by (metis append_take_drop_id map_append)
  ultimately show ?case
    using one_page[OF assms(1,2) Suc.prems(1), of True limit]
    by (subst walk_threads.simps) (auto split: option.splits)
qed

text \<open>C39: Following the cursors from the first page, with a driver that takes dates in raw SQL, lists
  every thread of the user, each once, latest first, for every page size. With one that rejects
  them this holds only while all threads fit on one page: otherwise the second page is an error.\<close>

theorem pages_list_every_thread:
  assumes "threads_well_formed db" "reads_decimals num" "length (tb_threads db) \<le> n"
  shows "walk_threads takes_dates num db userId limit (Suc n) None =
    (let threads = thread_order (filter (\<lambda>r. th_userId r = userId) (tb_threads db)) in
     if takes_dates \<or> length threads \<le> bounded_threads limit then Inr (map rowToThread threads) else Inl Date_Rejected)"
proof -
  let ?S = "thread_order (filter (\<lambda>r. th_userId r = userId) (tb_threads db))"
  let ?n = "bounded_threads limit"
  have start: "cursor_after [] = None" by (simp add: cursor_after_def)
  have small: "length ?S \<le> n"
    unfolding thread_order_def length_rev length_sort using assms(3) length_filter_le order_trans by blast
  show ?thesis
  proof (cases takes_dates)
    case True
    from walk_all_pages[OF assms(1,2), of userId "[]" ?S n limit] small True show ?thesis
      by (simp add: start del: walk_threads.simps)
  next
    case False
    note page = one_page[OF assms(1,2), of userId "[]" ?S False limit, unfolded start]
    show ?thesis
    proof (cases "length ?S \<le> ?n")
      case True
      then show ?thesis using page False by simp
    next
      case long: False
      then have ne: "take ?n ?S \<noteq> []" using bounded_threads_pos(1)[of limit] by auto
      obtain k where k: "n = Suc k" using small long by (cases n) auto
      have "List.last (take ?n ?S) \<in> set (tb_threads db)"
        using last_in_set[OF ne] set_thread_order[of "filter (\<lambda>r. th_userId r = userId) (tb_threads db)"]
        by (auto dest!: in_set_takeD)
      from rejected_page[OF assms(1,2) this, of userId limit] show ?thesis
        using page False long ne by (simp add: k cursor_after_def Let_def)
    qed
  qed
qed

section \<open>Users apart\<close>

datatype thread_op =
    Op_Create nat string "string option"
  | Op_Retitle nat string js_text title_source
  | Op_Pin nat string "string option"
  | Op_Mode nat string "string option"
  | Op_Patch nat string patch_body
  | Op_Delete string
  | Op_Delete_All
  | Op_Delete_Batch "string list"
  | Op_Say nat string string json string
  | Op_Answer nat string string json string
  | Op_Fork nat string "nat \<Rightarrow> string" string string string
  | Op_Briefings nat string
  | Op_Title nat string js_text title_run

fun thread_step :: "string \<times> thread_op \<Rightarrow> threads_db \<Rightarrow> threads_db" where
  "thread_step (u, Op_Create now i pinned) db = fst (createThread now i u pinned db)"
| "thread_step (u, Op_Retitle now i title source) db = fst (updateThreadTitle now u i title source db)"
| "thread_step (u, Op_Pin now i pinned) db = fst (updateThreadPinnedSymbol now u i pinned db)"
| "thread_step (u, Op_Mode now i mode) db = fst (updateThreadAnalysisMode now u i mode db)"
| "thread_step (u, Op_Patch now i b) db = fst (patch_thread now u i b db)"
| "thread_step (u, Op_Delete i) db = deleteThread u i db"
| "thread_step (u, Op_Delete_All) db = deleteAllThreads u db"
| "thread_step (u, Op_Delete_Batch ids) db = fst (batchDeleteThreads u ids db)"
| "thread_step (u, Op_Say now i t msg key) db = (case store_user_message now i u t msg key db of None \<Rightarrow> db | Some db' \<Rightarrow> db')"
| "thread_step (u, Op_Answer now i t msg key) db =
     (case store_assistant_message now i u t msg key db of None \<Rightarrow> db | Some (db', _) \<Rightarrow> db')"
| "thread_step (u, Op_Fork now i ids source message text) db =
     (case forkThread now i ids u source message text db of Inl _ \<Rightarrow> db | Inr (db', _) \<Rightarrow> db')"
| "thread_step (u, Op_Briefings now i) db = fst (insert_briefings now i u db)"
| "thread_step (u, Op_Title now i firstUser run) db = maybeGenerateThreadTitle now u i firstUser run db"

definition thread_steps :: "(string \<times> thread_op) list \<Rightarrow> threads_db \<Rightarrow> threads_db" where
  "thread_steps evs db = foldl (\<lambda>d e. thread_step e d) db evs"

text \<open>The table keeps its keys, every message has its thread, and a user has one thread of briefings.\<close>

definition threads_ok :: "threads_db \<Rightarrow> bool" where
  "threads_ok db \<longleftrightarrow> distinct (map th_id (tb_threads db)) \<and> distinct (map mr_id (tb_messages db))
     \<and> set (map mr_threadId (tb_messages db)) \<subseteq> set (map th_id (tb_threads db))
     \<and> distinct (map th_userId (filter th_isBriefings (tb_threads db)))"

text \<open>What belongs to a user.\<close>

definition threads_of :: "string \<Rightarrow> threads_db \<Rightarrow> thread_row list" where
  "threads_of u db = filter (\<lambda>r. th_userId r = u) (tb_threads db)"

definition messages_of :: "string \<Rightarrow> threads_db \<Rightarrow> message_row list" where
  "messages_of u db = filter (\<lambda>m. mr_threadId m \<in> set (map th_id (threads_of u db))) (tb_messages db)"

text \<open>A change of rows of one user that keeps identifier, owner and kind.\<close>

definition tame :: "(thread_row \<Rightarrow> thread_row) \<Rightarrow> bool" where
  "tame f \<longleftrightarrow> (\<forall>r. th_id (f r) = th_id r \<and> th_userId (f r) = th_userId r \<and> th_isBriefings (f r) = th_isBriefings r)"

lemma update_threads_kept:
  assumes "tame f" "threads_ok db"
  shows "threads_ok (fst (update_threads f u i db))"
    and "v \<noteq> u \<Longrightarrow> threads_of v (fst (update_threads f u i db)) = threads_of v db"
    and "v \<noteq> u \<Longrightarrow> messages_of v (fst (update_threads f u i db)) = messages_of v db"
proof -
  let ?g = "\<lambda>r. if owned u i r then f r else r"
  have g: "th_id (?g r) = th_id r" "th_userId (?g r) = th_userId r" "th_isBriefings (?g r) = th_isBriefings r" for r
    using assms(1) by (auto simp: tame_def)
  have ids: "map (th_id \<circ> ?g) rs = map th_id rs" for rs
    by (simp add: g)
  have brief: "map th_userId (filter th_isBriefings (map ?g rs)) = map th_userId (filter th_isBriefings rs)" for rs
    by (induction rs) (use g in auto)
  show "threads_ok (fst (update_threads f u i db))"
    using assms(2) brief by (simp add: threads_ok_def update_threads_def ids image_image g)
  have others: "filter (\<lambda>r. th_userId r = v) (map ?g rs) = filter (\<lambda>r. th_userId r = v) rs" if "v \<noteq> u" for v rs
    using that by (induction rs) (use g in \<open>auto simp: owned_def\<close>)
  show "v \<noteq> u \<Longrightarrow> threads_of v (fst (update_threads f u i db)) = threads_of v db"
    using others by (simp add: threads_of_def update_threads_def)
  then show "v \<noteq> u \<Longrightarrow> messages_of v (fst (update_threads f u i db)) = messages_of v db"
    by (simp add: messages_of_def update_threads_def)
qed

lemma same_row: "threads_ok db \<Longrightarrow> r \<in> set (tb_threads db) \<Longrightarrow> r' \<in> set (tb_threads db) \<Longrightarrow> th_id r = th_id r' \<Longrightarrow> r = r'"
  by (auto simp: threads_ok_def distinct_map dest: inj_onD)

lemma delete_threads_kept:
  assumes "\<And>r. P r \<Longrightarrow> th_userId r = u" "threads_ok db"
  shows "threads_ok (delete_threads P db)"
    and "v \<noteq> u \<Longrightarrow> threads_of v (delete_threads P db) = threads_of v db"
    and "v \<noteq> u \<Longrightarrow> messages_of v (delete_threads P db) = messages_of v db"
proof -
  have home: "\<exists>r \<in> set (tb_threads db). th_id r = mr_threadId m" if "m \<in> set (tb_messages db)" for m
    using assms(2) that by (fastforce simp: threads_ok_def)
  have "filter th_isBriefings (filter (\<lambda>r. \<not> P r) rs) = filter (\<lambda>r. \<not> P r) (filter th_isBriefings rs)" for rs
    by (simp add: conj_commute)
  then have brief: "distinct (map th_userId (filter th_isBriefings (tb_threads (delete_threads P db))))"
    using assms(2) by (simp only: threads_ok_def delete_threads_def threads_db.simps distinct_map_filter)
  have homes: "\<exists>r \<in> set (tb_threads (delete_threads P db)). th_id r = mr_threadId m"
    if "m \<in> set (tb_messages (delete_threads P db))" for m
    using home that by (auto simp: delete_threads_def list_ex_iff)
  show "threads_ok (delete_threads P db)"
    unfolding threads_ok_def
  proof (intro conjI)
    show "set (map mr_threadId (tb_messages (delete_threads P db))) \<subseteq> set (map th_id (tb_threads (delete_threads P db)))"
      using homes by force
  qed (use assms(2) brief in \<open>simp_all add: threads_ok_def delete_threads_def distinct_map_filter\<close>)
  show threads: "threads_of v (delete_threads P db) = threads_of v db" if "v \<noteq> u"
    using assms(1) that by (auto simp: threads_of_def delete_threads_def intro: filter_cong)
  show "messages_of v (delete_threads P db) = messages_of v db" if "v \<noteq> u"
  proof -
    have keep: "\<not> list_ex (\<lambda>r. P r \<and> th_id r = mr_threadId m) (tb_threads db)"
      if here: "mr_threadId m \<in> set (map th_id (threads_of v db))" for m
    proof
      assume "list_ex (\<lambda>r. P r \<and> th_id r = mr_threadId m) (tb_threads db)"
      then obtain r where r: "r \<in> set (tb_threads db)" "P r" "th_id r = mr_threadId m"
        by (auto simp: list_ex_iff)
      obtain r' where r': "r' \<in> set (tb_threads db)" "th_userId r' = v" "th_id r' = mr_threadId m"
        using here by (auto simp: threads_of_def)
      have "r = r'"
        using same_row[OF assms(2) r(1) r'(1)] r(3) r'(3) by simp
      then show False
        using assms(1)[OF r(2)] r'(2) \<open>v \<noteq> u\<close> by simp
    qed
    have survive: "filter (\<lambda>m. mr_threadId m \<in> set (map th_id (threads_of v db)))
        (filter (\<lambda>m. \<not> list_ex (\<lambda>r. P r \<and> th_id r = mr_threadId m) (tb_threads db)) ms)
        = filter (\<lambda>m. mr_threadId m \<in> set (map th_id (threads_of v db))) ms" for ms
      unfolding filter_filter by (rule filter_cong) (use keep in auto)
    show ?thesis
      unfolding messages_of_def threads[OF that] by (subst delete_threads_def) (simp only: threads_db.simps survive)
  qed
qed

lemma insert_thread_kept:
  assumes "insert_thread r db = Some db'" "threads_ok db" "th_isBriefings r \<Longrightarrow> briefings_of db (th_userId r) = None"
  shows "threads_ok db'" and "v \<noteq> th_userId r \<Longrightarrow> threads_of v db' = threads_of v db"
    and "v \<noteq> th_userId r \<Longrightarrow> messages_of v db' = messages_of v db"
proof -
  have db': "db' = db\<lparr>tb_threads := tb_threads db @ [r]\<rparr>" and fresh: "th_id r \<notin> th_id ` set (tb_threads db)"
    using assms(1) by (auto simp: insert_thread_def split: if_splits)
  have "th_userId r \<notin> th_userId ` set (filter th_isBriefings (tb_threads db))" if "th_isBriefings r"
    using assms(3)[OF that] by (auto simp: briefings_of_def find_None_iff)
  then show "threads_ok db'"
    using assms(2) fresh by (auto simp: threads_ok_def db')
  show threads: "v \<noteq> th_userId r \<Longrightarrow> threads_of v db' = threads_of v db"
    by (auto simp: threads_of_def db')
  show "v \<noteq> th_userId r \<Longrightarrow> messages_of v db' = messages_of v db"
    using threads by (simp add: messages_of_def) (simp add: db')
qed

text \<open>Messages come into threads of the writer only.\<close>

lemma add_messages_kept:
  assumes "threads_ok db" "r \<in> set (tb_threads db)" "th_userId r = u" "list_all (\<lambda>m. mr_threadId m = th_id r) ms"
    "distinct (map mr_id (tb_messages db @ ms))"
  shows "threads_ok (db\<lparr>tb_messages := tb_messages db @ ms\<rparr>)"
    and "threads_of v (db\<lparr>tb_messages := tb_messages db @ ms\<rparr>) = threads_of v db"
    and "v \<noteq> u \<Longrightarrow> messages_of v (db\<lparr>tb_messages := tb_messages db @ ms\<rparr>) = messages_of v db"
proof -
  show "threads_ok (db\<lparr>tb_messages := tb_messages db @ ms\<rparr>)"
    using assms by (auto simp: threads_ok_def list_all_iff)
  show threads: "threads_of v (db\<lparr>tb_messages := tb_messages db @ ms\<rparr>) = threads_of v db" for v
    by (simp add: threads_of_def)
  show "v \<noteq> u \<Longrightarrow> messages_of v (db\<lparr>tb_messages := tb_messages db @ ms\<rparr>) = messages_of v db"
  proof -
    assume "v \<noteq> u"
    then have "th_id r \<notin> set (map th_id (threads_of v db))"
      using assms(3) same_row[OF assms(1,2)] by (fastforce simp: threads_of_def)
    then have "filter (\<lambda>m. mr_threadId m \<in> set (map th_id (threads_of v db))) ms = []"
      using assms(4) by (auto simp: filter_empty_conv list_all_iff)
    then show "messages_of v (db\<lparr>tb_messages := tb_messages db @ ms\<rparr>) = messages_of v db"
      by (simp add: messages_of_def threads)
  qed
qed

lemma tame_updates [simp]:
  "tame (\<lambda>r. r\<lparr>th_title := t, th_titleSource := s, th_updatedAt := n\<rparr>)" "tame (\<lambda>r. r\<lparr>th_pinnedSymbol := p, th_updatedAt := n\<rparr>)"
  "tame (\<lambda>r. r\<lparr>th_analysisMode := m, th_updatedAt := n\<rparr>)" "tame (\<lambda>r. r\<lparr>th_updatedAt := n\<rparr>)"
  by (simp_all add: tame_def)

definition kept_apart :: "string \<Rightarrow> threads_db \<Rightarrow> threads_db \<Rightarrow> bool" where
  "kept_apart u db db' \<longleftrightarrow> threads_ok db' \<and> (\<forall>v. v \<noteq> u \<longrightarrow> threads_of v db' = threads_of v db \<and> messages_of v db' = messages_of v db)"

lemma kept_apart_refl: "threads_ok db \<Longrightarrow> kept_apart u db db"
  by (simp add: kept_apart_def)

lemma kept_apart_trans: "kept_apart u a b \<Longrightarrow> kept_apart u b c \<Longrightarrow> kept_apart u a c"
  by (simp add: kept_apart_def)

lemma kept_apart_ok: "kept_apart u a b \<Longrightarrow> threads_ok b"
  by (simp add: kept_apart_def)

lemma kept_apart_update: "tame f \<Longrightarrow> threads_ok db \<Longrightarrow> kept_apart u db (fst (update_threads f u i db))"
  using update_threads_kept[where f = f and db = db and u = u and i = i] by (auto simp: kept_apart_def)

lemma kept_apart_delete: "(\<And>r. P r \<Longrightarrow> th_userId r = u) \<Longrightarrow> threads_ok db \<Longrightarrow> kept_apart u db (delete_threads P db)"
  using delete_threads_kept[where P = P and db = db and u = u] by (auto simp: kept_apart_def)

lemma kept_apart_insert:
  "insert_thread r db = Some db' \<Longrightarrow> threads_ok db \<Longrightarrow> (th_isBriefings r \<Longrightarrow> briefings_of db (th_userId r) = None)
    \<Longrightarrow> th_userId r = u \<Longrightarrow> kept_apart u db db'"
  using insert_thread_kept[where r = r and db = db and db' = db'] by (auto simp: kept_apart_def)

lemma kept_apart_messages:
  "threads_ok db \<Longrightarrow> r \<in> set (tb_threads db) \<Longrightarrow> th_userId r = u \<Longrightarrow> list_all (\<lambda>m. mr_threadId m = th_id r) ms
    \<Longrightarrow> distinct (map mr_id (tb_messages db @ ms)) \<Longrightarrow> kept_apart u db (db\<lparr>tb_messages := tb_messages db @ ms\<rparr>)"
  using add_messages_kept[where db = db and r = r and u = u and ms = ms] by (auto simp: kept_apart_def)

lemma getThread_row:
  assumes "getThread db u i \<noteq> None"
  obtains r where "r \<in> set (tb_threads db)" "th_id r = i" "th_userId r = u"
proof -
  obtain r where "List.find (owned u i) (tb_threads db) = Some r"
    using assms by (auto simp: getThread_def)
  then show thesis
    using that[of r] by (auto simp: find_Some_iff owned_def)
qed

lemma new_thread_simps [simp]: "th_userId (new_thread now i u) = u" "th_id (new_thread now i u) = i"
  "th_isBriefings (new_thread now i u) = False"
  by (simp_all add: new_thread_def)

lemma kept_apart_touch: "threads_ok db \<Longrightarrow> kept_apart u db (touch_thread now u i db)"
  unfolding touch_thread_def by (rule kept_apart_update) simp_all

lemma kept_apart_message:
  assumes "threads_ok db" "getThread db u t \<noteq> None" "mr_threadId m = t" "mr_id m \<notin> set (map mr_id (tb_messages db))"
  shows "kept_apart u db (touch_thread now u t (db\<lparr>tb_messages := tb_messages db @ [m]\<rparr>))"
proof -
  obtain r where "r \<in> set (tb_threads db)" "th_id r = t" "th_userId r = u"
    using getThread_row[OF assms(2)] .
  then have "kept_apart u db (db\<lparr>tb_messages := tb_messages db @ [m]\<rparr>)"
    using assms by (intro kept_apart_messages[where r = r]) (auto simp: threads_ok_def)
  then show ?thesis
    using kept_apart_touch[OF kept_apart_ok] kept_apart_trans by blast
qed

lemma kept_apart_fork_insert:
  assumes "threads_ok db" "fork_insert now created rows db = Some db'" "th_userId created = u" "\<not> th_isBriefings created"
    "list_all (\<lambda>m. mr_threadId m = th_id created) rows"
  shows "kept_apart u db db'"
proof -
  obtain db1 where db1: "insert_thread created db = Some db1" and rows: "distinct (map mr_id (tb_messages db @ rows))"
    and db': "db' = touch_thread now u (th_id created) (db1\<lparr>tb_messages := tb_messages db1 @ rows\<rparr>)"
    using assms(2,3) by (auto simp: fork_insert_def split: option.splits if_splits)
  have kept: "kept_apart u db db1" "created \<in> set (tb_threads db1)" "tb_messages db1 = tb_messages db"
    using kept_apart_insert[OF db1 assms(1) _ assms(3)] db1 assms(4) by (auto simp: insert_thread_def split: if_splits)
  have "kept_apart u db1 (db1\<lparr>tb_messages := tb_messages db1 @ rows\<rparr>)"
    using kept_apart_messages[OF kept_apart_ok[OF kept(1)] kept(2) assms(3,5)] rows kept(3) by simp
  then show ?thesis
    using kept_apart_trans[OF kept(1)] kept_apart_trans kept_apart_touch[OF kept_apart_ok] unfolding db' by blast
qed

lemma forkThread_Inr:
  assumes "forkThread now i ids u source message text db = Inr (db', x)"
  obtains r k where "List.find (owned u source) (tb_threads db) = Some r"
    "length (fork_source db source) \<le> MAX_FORK_MESSAGES"
    "find_index (\<lambda>m. mr_id m = message \<or> mr_key m = Some (''ui:'' @ message)) (fork_source db source) = Some k"
    "mr_role (fork_source db source ! k) = ''user''" "x = ids k"
    "fork_insert now (fork_created now i u text r) (fork_rows i ids text k (fork_source db source)) db = Some db'"
  using assms by (auto simp: forkThread_def split: option.splits if_splits)

lemma fork_created_simps [simp]: "th_userId (fork_created now i u text r) = u" "th_id (fork_created now i u text r) = i"
  "th_isBriefings (fork_created now i u text r) = False"
  by (simp_all add: fork_created_def)

lemma fork_rows_thread: "list_all (\<lambda>m. mr_threadId m = i) (fork_rows i ids text k ms)"
  by (simp add: fork_rows_def list_all_iff Let_def)

lemma kept_apart_fork:
  assumes "threads_ok db" "forkThread now i ids u source message text db = Inr (db', x)"
  shows "kept_apart u db db'"
  using assms(2) by (rule forkThread_Inr) (erule kept_apart_fork_insert[OF assms(1)], simp_all add: fork_rows_thread)

lemma kept_apart_create: "threads_ok db \<Longrightarrow> kept_apart u db (fst (createThread now i u p db))"
  by (auto simp: createThread_def Let_def kept_apart_refl split: option.splits intro: kept_apart_insert)

lemma kept_apart_briefings: "threads_ok db \<Longrightarrow> kept_apart u db (fst (insert_briefings now i u db))"
  by (auto simp: insert_briefings_def Let_def kept_apart_refl split: option.splits intro: kept_apart_insert)

lemmas kept_apart_sets = kept_apart_update[OF tame_updates(1)] kept_apart_update[OF tame_updates(2)]
  kept_apart_update[OF tame_updates(3)]

lemma kept_apart_patch: "threads_ok db \<Longrightarrow> kept_apart u db (fst (patch_thread now u i b db))"
  using kept_apart_sets(2)[where db = db and u = u and i = i] kept_apart_sets(3)[where db = db and u = u and i = i]
  by (auto simp: patch_thread_def kept_apart_refl updateThreadAnalysisMode_def updateThreadPinnedSymbol_def
      split: prod.splits option.splits if_splits) (metis fst_conv)+

lemma kept_apart_title: "threads_ok db \<Longrightarrow> kept_apart u db (maybeGenerateThreadTitle now u i t run db)"
  by (auto simp: maybeGenerateThreadTitle_def title_write_def updateThreadTitle_def kept_apart_refl
      split: title_run.splits prod.splits intro: kept_apart_sets)

lemma thread_step_kept: "threads_ok db \<Longrightarrow> kept_apart (fst e) db (thread_step e db)"
proof (cases e)
  case (Pair u e')
  assume ok: "threads_ok db"
  show ?thesis
  proof (cases e')
    case (Op_Say now i t msg key)
    then show ?thesis
      using Pair ok by (auto simp: store_user_message_def new_message_def split: option.splits
          intro: kept_apart_refl kept_apart_touch kept_apart_message)
  next
    case (Op_Answer now i t msg key)
    then show ?thesis
      using Pair ok by (auto simp: store_assistant_message_def new_message_def split: option.splits
          intro: kept_apart_refl kept_apart_message)
  next
    case (Op_Fork now i ids source message newText)
    then show ?thesis
      using Pair ok by (auto split: sum.splits intro: kept_apart_refl kept_apart_fork)
  qed (use Pair ok in \<open>auto simp: updateThreadTitle_def updateThreadPinnedSymbol_def updateThreadAnalysisMode_def deleteThread_def
      deleteAllThreads_def batchDeleteThreads_def owned_def Let_def intro: kept_apart_sets kept_apart_delete kept_apart_create
      kept_apart_briefings kept_apart_patch kept_apart_title\<close>)
qed

lemma thread_steps_kept:
  "threads_ok db \<Longrightarrow> u \<notin> fst ` set evs \<Longrightarrow> threads_ok (thread_steps evs db)
    \<and> threads_of u (thread_steps evs db) = threads_of u db \<and> messages_of u (thread_steps evs db) = messages_of u db"
proof (induction evs arbitrary: db)
  case Nil
  then show ?case
    by (simp add: thread_steps_def)
next
  case (Cons e evs)
  have step: "kept_apart (fst e) db (thread_step e db)"
    using thread_step_kept Cons.prems(1) .
  then show ?case
    using Cons.IH[of "thread_step e db"] Cons.prems by (auto simp: thread_steps_def kept_apart_def)
qed

text \<open>C25: What others do never touches the threads and messages of a user.\<close>

theorem threads_apart:
  assumes "threads_ok db" "u \<notin> fst ` set evs"
  shows "threads_of u (thread_steps evs db) = threads_of u db \<and> messages_of u (thread_steps evs db) = messages_of u db
    \<and> threads_ok (thread_steps evs db)"
  using thread_steps_kept[OF assms] by blast

section \<open>What a turn sees of a long conversation\<close>

lemma sorted_take_older:
  assumes "sorted (map f xs)" "x \<in> set (take n xs)"
  shows "length (filter (\<lambda>y. f y < f x) xs) < n"
proof -
  obtain i where i: "i < n" "i < length xs" "xs ! i = x"
    using assms(2) by (auto simp: in_set_conv_nth)
  have "filter (\<lambda>y. f y < f x) (drop i xs) = []"
    using assms(1) i by (auto simp: filter_empty_conv in_set_conv_nth sorted_iff_nth_mono not_less)
  then have "filter (\<lambda>y. f y < f x) xs = filter (\<lambda>y. f y < f x) (take i xs)"
    by (metis append_Nil2 append_take_drop_id filter_append)
  then show ?thesis
    using i(1) length_filter_le[of "\<lambda>y. f y < f x" "take i xs"] by simp
qed

lemma listed_is_old:
  assumes "oldest_first arrange" "m \<in> set (listMessages arrange db u t n)"
  shows "length (filter (\<lambda>x. mr_threadId x = t \<and> mr_createdAt x < mr_createdAt m) (tb_messages db)) < n"
proof -
  let ?ms = "filter (\<lambda>x. mr_threadId x = t) (tb_messages db)"
  have arranged: "mset (arrange ?ms) = mset ?ms" "sorted (map mr_createdAt (arrange ?ms))"
    using assms(1) by (auto simp: oldest_first_def)
  have "m \<in> set (take n (arrange ?ms))"
    using assms(2) by (auto simp: listMessages_def split: option.splits)
  from sorted_take_older[OF arranged(2) this]
  have "size (filter_mset (\<lambda>y. mr_createdAt y < mr_createdAt m) (mset (arrange ?ms))) < n"
    by (metis mset_filter size_mset)
  then have "length (filter (\<lambda>y. mr_createdAt y < mr_createdAt m) ?ms) < n"
    unfolding arranged(1) by (metis mset_filter size_mset)
  then show ?thesis
    by (simp add: conj_commute)
qed

lemma oldest_first_set: "oldest_first arrange \<Longrightarrow> set (arrange ms) = set ms"
  unfolding oldest_first_def by (metis mset_eq_setD)

lemma listed_message_is_old:
  assumes "oldest_first arrange" "distinct (map mr_id (tb_messages db))" "m \<in> set (tb_messages db)"
    and "n \<le> length (filter (\<lambda>x. mr_threadId x = mr_threadId m \<and> mr_createdAt x < mr_createdAt m) (tb_messages db))"
  shows "mr_id m \<notin> mr_id ` set (listMessages arrange db userId (mr_threadId m) n)"
proof
  assume "mr_id m \<in> mr_id ` set (listMessages arrange db userId (mr_threadId m) n)"
  then obtain m' where m': "m' \<in> set (listMessages arrange db userId (mr_threadId m) n)" "mr_id m' = mr_id m"
    by auto
  have "m' \<in> set (tb_messages db)"
    using m'(1) oldest_first_set[OF assms(1)] by (auto simp: listMessages_def split: option.splits dest!: in_set_takeD)
  then have "m' = m"
    using assms(2,3) m'(2) by (auto simp: distinct_map dest: inj_onD)
  then show False
    using listed_is_old[OF assms(1) m'(1)] assms(4) by simp
qed

text \<open>C32: What is read back of a thread are its oldest messages. A message with forty older ones is not
  copied by the backfill of the agent's memory; with sixty older ones it is not in what the model is
  handed in a turn whose memory could not be prepared, although that is the fallback for it; with
  two hundred older ones it is not on the page. With the memory ready the model is handed the new
  message alone and the rest is the memory's own recall, which the theorem says nothing of.\<close>

theorem long_threads_lose_new_messages:
  assumes "oldest_first arrange" "distinct (map mr_id (tb_messages db))" "m \<in> set (tb_messages db)"
    and "older = length (filter (\<lambda>x. mr_threadId x = mr_threadId m \<and> mr_createdAt x < mr_createdAt m) (tb_messages db))"
    and "fst latest \<noteq> mr_id m"
  shows "(40 \<le> older \<longrightarrow> mr_id m \<notin> fst ` set (fst (backfillThreadHistoryIfNeeded arrange db userId (mr_threadId m) [])))
    \<and> (60 \<le> older \<longrightarrow> mr_id m \<notin> fst ` set (agent_messages False
          (turn_history arrange db userId (mr_threadId m) messageId) latest))
    \<and> (200 \<le> older \<longrightarrow> mr_id m \<notin> fst ` set (page_messages arrange db userId (mr_threadId m)))"
proof (intro conjI impI)
  note old = listed_message_is_old[OF assms(1-3), unfolded assms(4)[symmetric]]
  show "mr_id m \<notin> fst ` set (fst (backfillThreadHistoryIfNeeded arrange db userId (mr_threadId m) []))" if "40 \<le> older"
    using old[OF that, of userId] by (auto simp: backfillThreadHistoryIfNeeded_def toMastraMessage_def BACKFILL_LIMIT_def Let_def)
  show "mr_id m \<notin> fst ` set (agent_messages False (turn_history arrange db userId (mr_threadId m) messageId) latest)"
    if "60 \<le> older"
    using old[OF that, of userId] assms(5)
    by (auto simp: agent_messages_def messageHistory_def turn_history_def HISTORY_LIMIT_def Let_def image_iff dest!: in_set_dropD split: if_splits)
  show "mr_id m \<notin> fst ` set (page_messages arrange db userId (mr_threadId m))" if "200 \<le> older"
    using old[OF that, of userId] by (auto simp: page_messages_def image_iff)
qed

section \<open>Forks keep what was shown\<close>

lemma find_index_less: "find_index P xs = Some k \<Longrightarrow> k < length xs \<and> P (xs ! k)"
  by (induction xs arbitrary: k) (auto split: if_splits)

lemma take_as_map: "n \<le> length xs \<Longrightarrow> take n xs = map ((!) xs) [0..<n]"
  by (simp add: list_eq_iff_nth_eq)

definition message_shown :: "message_row \<Rightarrow> string \<times> json list" where
  "message_shown m = (mr_role m, parts_list (mr_parts m))"

text \<open>The messages of a fork: those up to the edited one, shown as before; only the unseen content of the last is new.\<close>

theorem fork_shows_the_old_text:
  assumes "forkThread now i ids u source message newText db = Inr (db', x)" "threads_ok db"
  shows "\<exists>k<length (fork_source db source).
    (mr_id (fork_source db source ! k) = message \<or> mr_key (fork_source db source ! k) = Some (''ui:'' @ message))
    \<and> map message_shown (filter (\<lambda>m. mr_threadId m = i) (tb_messages db')) = map message_shown (take (Suc k) (fork_source db source))
    \<and> map mr_content (filter (\<lambda>m. mr_threadId m = i) (tb_messages db')) = map mr_content (take k (fork_source db source)) @ [newText]
    \<and> filter (\<lambda>m. mr_threadId m \<noteq> i) (tb_messages db') = tb_messages db"
  using assms(1)
proof (rule forkThread_Inr)
  fix r k
  let ?S = "fork_source db source"
  assume k: "find_index (\<lambda>m. mr_id m = message \<or> mr_key m = Some (''ui:'' @ message)) ?S = Some k"
    and ins: "fork_insert now (fork_created now i u newText r) (fork_rows i ids newText k ?S) db = Some db'"
  have less: "k < length ?S" "mr_id (?S ! k) = message \<or> mr_key (?S ! k) = Some (''ui:'' @ message)"
    using find_index_less[OF k] by auto
  have msgs: "tb_messages db' = tb_messages db @ fork_rows i ids newText k ?S"
    and fresh: "i \<notin> th_id ` set (tb_threads db)"
    using ins by (auto simp: fork_insert_def insert_thread_def touch_thread_def update_threads_def split: option.splits if_splits)
  have none: "filter (\<lambda>m. mr_threadId m = i) (tb_messages db) = []" "filter (\<lambda>m. mr_threadId m \<noteq> i) (tb_messages db) = tb_messages db"
    using assms(2) fresh by (auto simp: threads_ok_def filter_empty_conv filter_id_conv)
  have rows: "filter (\<lambda>m. mr_threadId m = i) (fork_rows i ids newText k ?S) = fork_rows i ids newText k ?S"
    "filter (\<lambda>m. mr_threadId m \<noteq> i) (fork_rows i ids newText k ?S) = []"
    using fork_rows_thread[of i ids newText k ?S] by (auto simp: list_all_iff filter_id_conv filter_empty_conv)
  have cut: "take (Suc k) ?S = map ((!) ?S) [0..<Suc k]" "take k ?S = map ((!) ?S) [0..<k]"
    using less(1) by (simp_all only: take_as_map Suc_leI less_imp_le)
  have "map message_shown (fork_rows i ids newText k ?S) = map message_shown (take (Suc k) ?S)"
    "map mr_content (fork_rows i ids newText k ?S) = map mr_content (take k ?S) @ [newText]"
    unfolding cut by (auto simp: fork_rows_def Let_def message_shown_def)
  then show ?thesis
    using less by (intro exI[of _ k]) (simp add: msgs none rows)
qed

section \<open>Answers are kept once\<close>

lemma keyed_message_append: "keyed_message key db = None \<Longrightarrow> mr_key m = Some key \<Longrightarrow>
    keyed_message key (db\<lparr>tb_messages := tb_messages db @ [m]\<rparr>) = Some m"
proof -
  have "List.find P (xs @ [m]) = Some m" if "List.find P xs = None" "P m" for P and xs :: "message_row list"
    using that by (induction xs) (auto split: if_splits)
  then show "keyed_message key db = None \<Longrightarrow> mr_key m = Some key \<Longrightarrow>
      keyed_message key (db\<lparr>tb_messages := tb_messages db @ [m]\<rparr>) = Some m"
    by (simp add: keyed_message_def)
qed

lemma keyed_message_touch [simp]: "keyed_message key (touch_thread now u i db) = keyed_message key db"
  by (simp add: keyed_message_def touch_thread_def update_threads_def)

text \<open>The key of the note of an interrupted stream is that of the answer: the later answer is dropped and
  reported as stored under the identifier of the note.\<close>

theorem interrupted_answer_stays:
  assumes "keyed_message key db = None" "store_assistant_message now i u t note key db = Some (db1, x)"
    and "getThread db2 u t \<noteq> None" "keyed_message key db2 = keyed_message key db1"
  shows "store_assistant_message later i' u t answer key db2 = Some (db2, i)
    \<and> map_option mr_content (keyed_message key db2) = Some (getMessageText note)"
proof -
  let ?m = "new_message now i ''assistant'' t note key"
  have "db1 = touch_thread now u t (db\<lparr>tb_messages := tb_messages db @ [?m]\<rparr>)"
    using assms(1,2) by (auto simp: store_assistant_message_def split: if_splits)
  then have "keyed_message key db2 = Some ?m"
    using keyed_message_append[OF assms(1), of ?m] assms(4) by (simp add: new_message_def)
  then show ?thesis
    using assms(3) by (auto simp: store_assistant_message_def new_message_def)
qed

section \<open>Lengths and surrogates of titles\<close>

definition proper :: "js_text \<Rightarrow> bool" where
  "proper c \<longleftrightarrow> (case c of [u] \<Rightarrow> \<not> high_unit u \<and> \<not> low_unit u | [h, l] \<Rightarrow> high_unit h \<and> low_unit l | _ \<Rightarrow> False)"

text \<open>No surrogate stands alone.\<close>

definition well_paired :: "js_text \<Rightarrow> bool" where
  "well_paired t \<longleftrightarrow> list_all proper (codepoints t)"

lemma codepoints_proper: "proper c \<Longrightarrow> codepoints (c @ t) = c # codepoints t"
proof -
  assume c: "proper c"
  then consider u where "c = [u]" "\<not> high_unit u" | h l where "c = [h, l]" "high_unit h" "low_unit l"
    by (auto simp: proper_def split: list.splits)
  then show "codepoints (c @ t) = c # codepoints t"
    by cases (cases t; simp)+
qed

lemma codepoints_concat [simp]: "list_all proper cs \<Longrightarrow> codepoints (concat cs) = cs"
  by (induction cs) (simp_all add: codepoints_proper)

lemma concat_codepoints [simp]: "concat (codepoints t) = t"
  by (induction t rule: codepoints.induct) auto

lemma well_paired_concat: "list_all proper cs \<Longrightarrow> well_paired (concat cs)"
  by (simp add: well_paired_def)

lemma well_paired_split: "well_paired t \<longleftrightarrow> (\<exists>cs. list_all proper cs \<and> t = concat cs)"
  using well_paired_concat concat_codepoints[of t, symmetric] by (auto simp: well_paired_def)

lemma proper_ELLIPSIS [simp]: "proper [ELLIPSIS]"
  by (simp add: proper_def ELLIPSIS_def high_unit_def low_unit_def)

lemma space_proper: "space_unit u \<Longrightarrow> \<not> high_unit u \<and> \<not> low_unit u"
  by (auto simp: space_unit_def high_unit_def low_unit_def)

lemma proper_cases:
  assumes "proper c"
  obtains (one) u where "c = [u]" | (two) h l where "c = [h, l]" "\<not> space_unit h" "\<not> space_unit l"
  using assms space_proper by (auto simp: proper_def split: list.splits)

lemma well_paired_trim_start: "well_paired t \<Longrightarrow> well_paired (dropWhile space_unit t)"
proof -
  have "\<exists>ds. list_all proper ds \<and> dropWhile space_unit (concat cs) = concat ds" if "list_all proper cs" for cs
    using that
  proof (induction cs)
    case (Cons c cs)
    then obtain ds where ds: "list_all proper ds" "dropWhile space_unit (concat cs) = concat ds"
      by auto
    have c: "proper c"
      using Cons.prems by simp
    then show ?case
    proof (cases rule: proper_cases)
      case (one u)
      then show ?thesis
        using ds Cons.prems by (cases "space_unit u") (auto intro: exI[of _ ds] exI[of _ "c # cs"])
    next
      case (two h l)
      then show ?thesis
        using Cons.prems by (intro exI[of _ "c # cs"]) auto
    qed
  qed (auto intro: exI[of _ "[]"])
  then show "well_paired t \<Longrightarrow> well_paired (dropWhile space_unit t)"
    by (auto simp: well_paired_split)
qed

lemma well_paired_trim_end: "well_paired t \<Longrightarrow> well_paired (text_trim_end t)"
proof -
  have "\<exists>ds. list_all proper ds \<and> text_trim_end (concat cs) = concat ds" if "list_all proper cs" for cs
    using that
  proof (induction cs rule: rev_induct)
    case (snoc c cs)
    then obtain ds where ds: "list_all proper ds" "text_trim_end (concat cs) = concat ds"
      by auto
    have "proper c"
      using snoc.prems by simp
    then show ?case
    proof (cases rule: proper_cases)
      case (one u)
      then show ?thesis
        using ds snoc.prems
        by (cases "space_unit u") (auto simp: text_trim_end_def intro: exI[of _ ds] exI[of _ "cs @ [c]"])
    next
      case (two h l)
      then show ?thesis
        using snoc.prems by (intro exI[of _ "cs @ [c]"]) (auto simp: text_trim_end_def)
    qed
  qed (auto simp: text_trim_end_def intro: exI[of _ "[]"])
  then show "well_paired t \<Longrightarrow> well_paired (text_trim_end t)"
    by (auto simp: well_paired_split)
qed

lemma well_paired_trim: "well_paired t \<Longrightarrow> well_paired (trim_text t)"
  by (simp add: trim_text_def well_paired_trim_start well_paired_trim_end)

lemma fallback_title: 
  assumes "well_paired t"
  shows "well_paired (deterministicFallbackTitle t)" and "length (codepoints (deterministicFallbackTitle t)) \<le> 61"
proof -
  let ?cps = "codepoints (trim_text t)"
  have cps: "list_all proper ?cps"
    using well_paired_trim[OF assms] by (simp add: well_paired_def)
  then have cut: "list_all proper (take 60 ?cps @ [[ELLIPSIS]])"
    by (auto simp: list_all_iff dest: in_set_takeD)
  have eq: "concat (take 60 ?cps) @ [ELLIPSIS] = concat (take 60 ?cps @ [[ELLIPSIS]])"
    by simp
  show "well_paired (deterministicFallbackTitle t)" "length (codepoints (deterministicFallbackTitle t)) \<le> 61"
    using cps well_paired_trim[OF assms] unfolding deterministicFallbackTitle_def Let_def MAX_CODEPOINTS_def eq
    by (auto simp: well_paired_concat[OF cut] codepoints_concat[OF cut] simp del: concat_append concat.simps)
qed

lemma in_set_tlD: "x \<in> set (tl xs) \<Longrightarrow> x \<in> set xs"
  by (cases xs) auto

lemma clean_title:
  assumes "well_paired raw"
  shows "well_paired (cleanTitleForPersistence raw) \<and> length (codepoints (cleanTitleForPersistence raw)) \<le> 61"
proof -
  let ?cps = "codepoints (trim_text raw)"
  have whole: "well_paired (trim_text raw)"
    using assms by (rule well_paired_trim)
  then have inner: "well_paired (concat (butlast (tl ?cps)))"
    by (intro well_paired_concat) (auto simp: well_paired_def list_all_iff dest!: in_set_butlastD in_set_tlD)
  show ?thesis
    using fallback_title[OF whole] fallback_title[OF inner] by (simp add: cleanTitleForPersistence_def Let_def)
qed

text \<open>A title that a model gave, or that stands in for it, has at most 61 characters and cuts none in two.\<close>

theorem generated_titles_well_formed:
  assumes "well_paired firstUser" "case answer of Model_Says raw \<Rightarrow> well_paired raw | _ \<Rightarrow> True"
  shows "well_paired (fst (generateThreadTitle answer firstUser))
    \<and> length (codepoints (fst (generateThreadTitle answer firstUser))) \<le> 61"
  using assms fallback_title clean_title
  by (cases answer) (simp_all add: generateThreadTitle_def Let_def)

text \<open>The bound is reached: sixty characters and the dots.\<close>

lemma trim_end_plain: "t \<noteq> [] \<Longrightarrow> \<not> space_unit (List.last t) \<Longrightarrow> text_trim_end t = t"
  by (cases t rule: rev_cases) (simp_all add: text_trim_end_def)

lemma trim_text_plain: "t \<noteq> [] \<Longrightarrow> \<not> space_unit (hd t) \<Longrightarrow> \<not> space_unit (List.last t) \<Longrightarrow> trim_text t = t"
  by (cases t) (simp_all add: trim_text_def trim_end_plain)

definition long_prompt :: js_text where "long_prompt = replicate 61 120"

definition split_prompt :: js_text where "split_prompt = replicate 78 120 @ [0xD83C, 0xDF89, 120]"

lemma codepoints_plain: "list_all (\<lambda>u. \<not> high_unit u) t \<Longrightarrow> codepoints t = map (\<lambda>u. [u]) t"
  by (induction t rule: codepoints.induct) auto

lemma generated_titles_well_formed_witness:
  "length (codepoints (fst (generateThreadTitle Model_Fails long_prompt))) = 61
   \<and> length (codepoints (fst (generateThreadTitle Model_Fails long_prompt))) \<le> 61"
proof -
  have cps: "codepoints long_prompt = map (\<lambda>u. [u]) long_prompt"
    by (rule codepoints_plain) (simp add: long_prompt_def high_unit_def list_all_iff)
  have "well_paired long_prompt"
    unfolding well_paired_def cps by (simp add: long_prompt_def list_all_iff proper_def high_unit_def low_unit_def)
  moreover have "trim_text long_prompt = long_prompt"
    by (rule trim_text_plain) (simp_all add: long_prompt_def space_unit_def)
  then have "fst (generateThreadTitle Model_Fails long_prompt) = take 60 long_prompt @ [ELLIPSIS]"
    by (simp add: generateThreadTitle_def deterministicFallbackTitle_def MAX_CODEPOINTS_def cps take_map o_def concat_map_singleton)
      (simp add: long_prompt_def MAX_CODEPOINTS_def)
  then have "codepoints (fst (generateThreadTitle Model_Fails long_prompt)) = map (\<lambda>u. [u]) (take 60 long_prompt @ [ELLIPSIS])"
    by (simp only:) (rule codepoints_plain, simp add: long_prompt_def high_unit_def list_all_iff ELLIPSIS_def)
  ultimately show ?thesis
    using generated_titles_well_formed[of long_prompt Model_Fails] by (simp add: long_prompt_def)
qed

text \<open>The title of a fork counts units: a character of two of them at the cut loses its second half.\<close>

theorem fork_title_cuts_a_character: "well_paired split_prompt \<and> \<not> well_paired (deriveForkedTitle split_prompt)"
proof -
  have plain: "codepoints (replicate n 120 @ t) = replicate n [120] @ codepoints t" for n t
  proof (induction n)
    case (Suc n)
    have "codepoints ([120] @ (replicate n 120 @ t)) = [120] # codepoints (replicate n 120 @ t)"
      by (rule codepoints_proper) (simp add: proper_def high_unit_def low_unit_def)
    then show ?case
      using Suc by simp
  qed simp
  have "trim_text split_prompt = split_prompt"
    by (rule trim_text_plain) (simp_all add: split_prompt_def space_unit_def)
  then have "deriveForkedTitle split_prompt = text_trim_end (take 79 split_prompt) @ [ELLIPSIS]"
    by (simp add: deriveForkedTitle_def split_prompt_def)
  also have "take 79 split_prompt = replicate 78 120 @ [0xD83C]"
    by (simp add: split_prompt_def)
  also have "text_trim_end (replicate 78 120 @ [0xD83C]) = replicate 78 120 @ [0xD83C]"
    by (rule trim_end_plain) (simp_all add: space_unit_def)
  finally show ?thesis
    unfolding well_paired_def by (simp add: split_prompt_def plain proper_def high_unit_def low_unit_def ELLIPSIS_def list_all_iff)
qed

section \<open>Who writes the title\<close>

lemma find_map_owned: "\<forall>r. owned u i (f r) \<longleftrightarrow> owned u i r \<Longrightarrow>
    List.find (owned u i) (map (\<lambda>r. if owned u i r then f r else r) rs) = map_option f (List.find (owned u i) rs)"
  by (induction rs) auto

lemma getThread_updateTitle:
  "map_option dt_title (getThread (fst (updateThreadTitle now u i title source db)) u i) = map_option (\<lambda>_. Some title) (getThread db u i)"
proof -
  have "\<forall>r. owned u i (r\<lparr>th_title := Some title, th_titleSource := Some source, th_updatedAt := js_date now\<rparr>) \<longleftrightarrow> owned u i r"
    by (simp add: owned_def)
  from find_map_owned[OF this, of "tb_threads db"] show ?thesis
    by (simp add: getThread_def updateThreadTitle_def update_threads_def option.map_comp o_def rowToThread_def)
qed

text \<open>Two turns that both found the thread untitled both write: the later answer replaces the earlier title.\<close>

theorem later_title_wins:
  assumes "getThread db userId i \<noteq> None"
  shows "map_option dt_title (getThread (title_write t2 userId i p2 (Asked answer2) (title_write t1 userId i p1 run1 db)) userId i)
    = Some (Some (fst (generateThreadTitle answer2 p2)))"
proof -
  obtain title source where first: "title_write t1 userId i p1 run1 db = fst (updateThreadTitle t1 userId i title source db)"
    unfolding title_write_def by (cases run1; cases "case run1 of Asked a \<Rightarrow> generateThreadTitle a p1 | No_Title_Model \<Rightarrow> ([], Src_Llm)")
      auto
  have "map_option dt_title (getThread (title_write t1 userId i p1 run1 db) userId i) = Some (Some title)"
    using assms by (auto simp: first getThread_updateTitle)
  then have found: "getThread (title_write t1 userId i p1 run1 db) userId i \<noteq> None"
    by auto
  show ?thesis
    unfolding title_write_def[of t2] by (cases "generateThreadTitle answer2 p2") (use found in \<open>auto simp: getThread_updateTitle\<close>)
qed

lemma find_append_new: "\<forall>x\<in>set xs. \<not> P x \<Longrightarrow> P y \<Longrightarrow> List.find P (xs @ [y]) = Some y"
  by (induction xs) auto

text \<open>A fork has a title but no source for it: the first answer in it replaces the title.\<close>

theorem fork_title_is_replaced:
  assumes "forkThread now i ids u source message newText db = Inr (db', x)"
  shows "title_wanted db' u i"
  using assms
proof (rule forkThread_Inr)
  fix r k
  assume "fork_insert now (fork_created now i u newText r) (fork_rows i ids newText k (fork_source db source)) db = Some db'"
  then have fresh: "i \<notin> th_id ` set (tb_threads db)" and rows: "tb_threads db' =
      map (\<lambda>r. if owned u i r then r\<lparr>th_updatedAt := js_date now\<rparr> else r) (tb_threads db @ [fork_created now i u newText r])"
    by (auto simp: fork_insert_def insert_thread_def touch_thread_def update_threads_def split: option.splits if_splits)
  have "List.find (owned u i) (tb_threads db @ [fork_created now i u newText r]) = Some (fork_created now i u newText r)"
    using fresh by (intro find_append_new) (auto simp: owned_def)
  then show "title_wanted db' u i"
    using find_map_owned[of u i "\<lambda>r. r\<lparr>th_updatedAt := js_date now\<rparr>" "tb_threads db @ [fork_created now i u newText r]"]
    by (simp add: title_wanted_def getThread_def rows owned_def rowToThread_def fork_created_def new_thread_def)
qed

section \<open>One thread of briefings\<close>

lemma briefings_unique:
  assumes "threads_ok db" "r \<in> set (tb_threads db)" "th_isBriefings r" "briefings_of db (th_userId r) = Some r'"
  shows "r' = r"
proof -
  have r': "r' \<in> set (tb_threads db)" "th_isBriefings r'" "th_userId r' = th_userId r"
    using assms(4) by (auto simp: briefings_of_def dest: find_Some_prop)
  have "inj_on th_userId (set (filter th_isBriefings (tb_threads db)))"
    using assms(1) by (simp add: threads_ok_def distinct_map)
  then show ?thesis
    using r' assms(2,3) by (auto dest: inj_onD)
qed

text \<open>Runners that meet agree: if another one's insert comes first, its row is the answer.\<close>

theorem briefings_converge:
  assumes "threads_ok db" "briefings_of db u = None"
    and "insert_briefings t1 i1 u db = (db1, Some r)"
  shows "getOrCreateBriefingsThread (\<lambda>_. db1) id t2 i2 u db = (db1, Some (rowToThread r)) \<and> threads_ok db1"
proof -
  have "kept_apart u db db1"
    using kept_apart_briefings[OF assms(1), where now = t1 and i = i1 and u = u] assms(3) by simp
  then have ok: "threads_ok db1"
    by (rule kept_apart_ok)
  have r: "r \<in> set (tb_threads db1)" "th_isBriefings r" "th_userId r = u"
    using assms(3) by (auto simp: insert_briefings_def Let_def insert_thread_def split: option.splits if_splits)
  then obtain r' where r': "briefings_of db1 u = Some r'"
    by (cases "briefings_of db1 u") (auto simp: briefings_of_def find_None_iff)
  have "r' = r"
    using briefings_unique[OF ok r(1,2)] r(3) r' by simp
  then show ?thesis
    using assms(2) r' ok by (simp add: getOrCreateBriefingsThread_def insert_briefings_def Let_def)
qed

section \<open>A patch of both settings\<close>

text \<open>A body with a symbol and a mode passes the schema, but only the mode is stored.\<close>

theorem patch_drops_the_symbol:
  "fst (patch_thread now u i \<lparr>pa_pinnedSymbol = Some s, pa_analysisMode = Some (Some ''full'')\<rparr> db)
    = fst (updateThreadAnalysisMode now u i (Some ''full'') db)
   \<and> map th_pinnedSymbol (tb_threads (fst (patch_thread now u i \<lparr>pa_pinnedSymbol = Some s, pa_analysisMode = Some (Some ''full'')\<rparr> db)))
    = map th_pinnedSymbol (tb_threads db)"
  by (auto simp: patch_thread_def PatchBodySchema_def ANALYSIS_MODES_def updateThreadAnalysisMode_def update_threads_def
      split: prod.splits)

section \<open>The life of a thread\<close>

inductive thread_life :: "thread_state \<Rightarrow> thread_state \<Rightarrow> bool" where
  life_start: "thread_life St_Created St_Created"
| life_step: "thread_life a b \<Longrightarrow> canTransitionThread b c \<Longrightarrow> thread_life a c"

inductive_cases thread_lifeE: "thread_life a b"

text \<open>Nothing follows a deletion, a thread is archived only when active, and messages go where edits go.\<close>

theorem thread_life_sound:
  "\<not> canTransitionThread St_Deleted s \<and> (canArchive s \<longleftrightarrow> canTransitionThread s St_Archived)
    \<and> (canDelete s \<longleftrightarrow> canTransitionThread s St_Deleted) \<and> (canAppendMessage s \<longleftrightarrow> canEdit s)"
  by (cases s) (simp_all add: canTransitionThread_def canArchive_def canDelete_def canAppendMessage_def canEdit_def)

lemma every_state_reached: "thread_life St_Created s"
proof -
  have active: "thread_life St_Created St_Active"
    by (rule life_step[OF life_start]) (simp add: canTransitionThread_def)
  then have "thread_life St_Created St_Archived" "thread_life St_Created St_Deleted"
    by (auto intro: life_step simp: canTransitionThread_def)
  then show ?thesis
    using active life_start by (cases s) simp_all
qed

section \<open>A small table\<close>

definition first_id :: string where "first_id = ''00000000-0000-4000-8000-000000000001''"
definition second_id :: string where "second_id = ''00000000-0000-4000-8000-000000000002''"
definition third_id :: string where "third_id = ''00000000-0000-4000-8000-000000000003''"

definition sample_row :: "string \<Rightarrow> string \<Rightarrow> nat \<Rightarrow> thread_row" where
  "sample_row i u t = (new_thread t i u)\<lparr>th_updatedAt := t\<rparr>"

definition sample_message :: message_row where
  "sample_message = \<lparr>mr_id = ''m1'', mr_threadId = first_id, mr_role = ''user'', mr_content = ''Is gold up?'',
     mr_parts = JArr [JObj [(''type'', JStr ''text''), (''text'', JStr ''Is gold up?'')]], mr_key = Some ''ui:msg_1'',
     mr_createdAt = 5000\<rparr>"

definition sample_threads :: threads_db where
  "sample_threads = \<lparr>tb_threads = [sample_row first_id ''ann'' 5000, sample_row second_id ''ann'' 5400,
      sample_row third_id ''bob'' 9000], tb_messages = [sample_message]\<rparr>"

lemmas sample_table = sample_threads_def sample_row_def new_thread_def sample_message_def first_id_def second_id_def third_id_def

lemma sample_threads_ok: "threads_ok sample_threads"
  by (simp add: threads_ok_def sample_table)

lemma sample_well_formed: "threads_well_formed sample_threads"
  by (simp add: threads_well_formed_def sample_table is_uuid_def hex_letter_def upt_rec toLowerCase_def lower_char_def
      getTime_def MAX_DATE_def)

theorem threads_apart_witness:
  "threads_of ''ann'' (thread_steps [(''bob'', Op_Delete_Batch [first_id, third_id]), (''bob'', Op_Say 9 ''x'' first_id JNull ''k'')] sample_threads)
    = threads_of ''ann'' sample_threads
   \<and> tb_threads (thread_steps [(''bob'', Op_Delete_Batch [first_id, third_id]), (''bob'', Op_Say 9 ''x'' first_id JNull ''k'')] sample_threads)
    \<noteq> tb_threads sample_threads"
proof
  show "threads_of ''ann'' (thread_steps [(''bob'', Op_Delete_Batch [first_id, third_id]), (''bob'', Op_Say 9 ''x'' first_id JNull ''k'')] sample_threads)
    = threads_of ''ann'' sample_threads"
    using threads_apart[OF sample_threads_ok, of "''ann''"
        "[(''bob'', Op_Delete_Batch [first_id, third_id]), (''bob'', Op_Say 9 ''x'' first_id JNull ''k'')]"] by simp
  show "tb_threads (thread_steps [(''bob'', Op_Delete_Batch [first_id, third_id]), (''bob'', Op_Say 9 ''x'' first_id JNull ''k'')] sample_threads)
    \<noteq> tb_threads sample_threads"
    by (simp add: thread_steps_def batchDeleteThreads_def Let_def delete_threads_def sample_table store_user_message_def
        getThread_def owned_def)
qed

text \<open>A reader of decimals: the number whose digits they are.\<close>

definition read_decimal :: "string \<Rightarrow> real option" where
  "read_decimal s = Some (real (foldl (\<lambda>n c. 10 * n + (of_char c - 48)) 0 s))"

lemma read_decimal_text: "foldl (\<lambda>n c. 10 * n + (of_char c - 48)) 0 (decimal_text n) = (n :: nat)"
proof (induction n rule: decimal_text.induct)
  case (1 n)
  then show ?case
    by (subst decimal_text.simps) auto
qed

lemma read_decimal_reads: "reads_decimals read_decimal"
  by (simp add: reads_decimals_def read_decimal_def read_decimal_text)

theorem pages_list_every_thread_witness:
  "map_sum id (map dt_id) (walk_threads True read_decimal sample_threads ''ann'' 1 4 None) = Inr [second_id, first_id]
   \<and> walk_threads False read_decimal sample_threads ''ann'' 1 4 None = Inl Date_Rejected"
proof -
  have "walk_threads b read_decimal sample_threads ''ann'' 1 (Suc 3) None
      = (let threads = thread_order (filter (\<lambda>r. th_userId r = ''ann'') (tb_threads sample_threads)) in
         if b \<or> length threads \<le> bounded_threads 1 then Inr (map rowToThread threads) else Inl Date_Rejected)" for b
    by (rule pages_list_every_thread[OF sample_well_formed read_decimal_reads]) (simp add: sample_threads_def)
  then show ?thesis
    by (simp add: sample_table thread_order_def thread_key_def getTime_def rowToThread_def less_char_def less_eq_char_def
        bounded_threads_def Let_def)
qed

text \<open>A thread of sixty-one messages.\<close>

definition nth_message :: "nat \<Rightarrow> message_row" where
  "nth_message n = sample_message\<lparr>mr_id := replicate n (CHR ''x''), mr_key := None, mr_createdAt := n\<rparr>"

definition long_thread :: threads_db where
  "long_thread = sample_threads\<lparr>tb_messages := map nth_message [0..<61]\<rparr>"

lemma sort_oldest_first: "oldest_first (sort_key mr_createdAt)"
  by (simp add: oldest_first_def)

theorem long_threads_lose_new_messages_witness:
  "nth_message 60 \<in> set (tb_messages long_thread)
   \<and> replicate 60 (CHR ''x'') \<notin> fst ` set (agent_messages False
       (turn_history (sort_key mr_createdAt) long_thread ''ann'' first_id ''msg_2'') (''msg_2'', ''user'', []))"
proof
  show here: "nth_message 60 \<in> set (tb_messages long_thread)"
    by (simp add: long_thread_def del: upt_rec_numeral)
  have same: "mr_threadId (nth_message n) = first_id" "mr_createdAt (nth_message n) = n" "mr_id (nth_message n) = replicate n (CHR ''x'')" for n
    by (simp_all add: nth_message_def sample_message_def)
  have "inj_on (\<lambda>n. replicate n (CHR ''x'')) A" for A :: "nat set"
    by (rule inj_onI) (metis length_replicate)
  then have ids: "distinct (map mr_id (tb_messages long_thread))"
    by (simp add: long_thread_def o_def same distinct_map del: upt_rec_numeral)
  have "filter (\<lambda>n. n < 60) [0..<61] = filter (\<lambda>n. n < 60) ([0..<60] @ [60 :: nat])"
    by (metis le0 numeral_plus_one semiring_norm(5) upt_Suc_append Suc_eq_plus1)
  also have "\<dots> = [0..<60]"
    by (simp add: filter_id_conv del: upt_rec_numeral)
  finally have older: "60 = length (filter (\<lambda>x. mr_threadId x = mr_threadId (nth_message 60) \<and> mr_createdAt x < mr_createdAt (nth_message 60))
      (tb_messages long_thread))"
    by (simp add: long_thread_def filter_map o_def same del: upt_rec_numeral)
  have new: "fst (''msg_2'', ''user'', [] :: json list) \<noteq> mr_id (nth_message 60)"
  proof
    assume "fst (''msg_2'', ''user'', [] :: json list) = mr_id (nth_message 60)"
    then have "length ''msg_2'' = length (mr_id (nth_message 60))" by simp
    then show False by (simp add: same)
  qed
  from long_threads_lose_new_messages[OF sort_oldest_first ids here older new, where userId = "''ann''" and messageId = "''msg_2''"]
  have "60 \<le> (60 :: nat) \<longrightarrow> replicate 60 (CHR ''x'') \<notin> fst ` set (agent_messages False
       (turn_history (sort_key mr_createdAt) long_thread ''ann'' first_id ''msg_2'') (''msg_2'', ''user'', []))"
    unfolding same by (elim conjE)
  then show "replicate 60 (CHR ''x'') \<notin> fst ` set (agent_messages False
       (turn_history (sort_key mr_createdAt) long_thread ''ann'' first_id ''msg_2'') (''msg_2'', ''user'', []))"
    by (rule mp) simp
qed

definition sample_fork :: "fork_error + threads_db \<times> string" where
  "sample_fork = forkThread 7000 ''fork'' (\<lambda>n. ''copy'') ''ann'' first_id ''msg_1'' ''Is silver up?'' sample_threads"

lemma sample_source: "fork_source sample_threads first_id = [sample_message]"
  by (simp add: fork_source_def MAX_FORK_MESSAGES_def sample_table)

lemma sample_owned: "List.find (owned ''ann'' first_id) (tb_threads sample_threads) = Some (sample_row first_id ''ann'' 5000)"
  by (simp add: owned_def sample_table)

lemma sample_found: "find_index (\<lambda>m. mr_id m = ''msg_1'' \<or> mr_key m = Some (''ui:'' @ ''msg_1'')) [sample_message] = Some 0"
  "mr_role sample_message = ''user''"
  by (simp_all add: sample_message_def)

lemma sample_fork_works: "\<exists>db. sample_fork = Inr (db, ''copy'')"
proof -
  have "fork_insert 7000 (fork_created 7000 ''fork'' ''ann'' ''Is silver up?'' (sample_row first_id ''ann'' 5000))
      (fork_rows ''fork'' (\<lambda>n. ''copy'') ''Is silver up?'' 0 [sample_message]) sample_threads \<noteq> None"
    by (simp add: fork_insert_def insert_thread_def fork_rows_def) (simp add: sample_table)
  then show ?thesis
    by (auto simp del: find_index.simps append.simps
        simp: sample_fork_def forkThread_def sample_owned sample_source sample_found MAX_FORK_MESSAGES_def)
qed

theorem fork_shows_the_old_text_witness:
  "\<exists>db. sample_fork = Inr (db, ''copy'')
    \<and> map message_shown (filter (\<lambda>m. mr_threadId m = ''fork'') (tb_messages db)) = [message_shown sample_message]
    \<and> map mr_content (filter (\<lambda>m. mr_threadId m = ''fork'') (tb_messages db)) = [''Is silver up?'']"
proof -
  obtain db where db: "sample_fork = Inr (db, ''copy'')"
    using sample_fork_works by auto
  show ?thesis
    using fork_shows_the_old_text[OF db[unfolded sample_fork_def] sample_threads_ok] db by (auto simp: sample_source)
qed

lemma getThread_touch: "getThread (touch_thread now u i (db\<lparr>tb_messages := ms\<rparr>)) u i = None \<longleftrightarrow> getThread db u i = None"
  using find_map_owned[of u i "\<lambda>r. r\<lparr>th_updatedAt := js_date now\<rparr>" "tb_threads db"]
  by (simp add: getThread_def touch_thread_def update_threads_def owned_def)

theorem interrupted_answer_stays_witness:
  "\<exists>db. store_assistant_message 8000 ''a1'' ''ann'' first_id sample_msg ''turn'' sample_threads = Some (db, ''a1'')
    \<and> store_assistant_message 9000 ''a2'' ''ann'' first_id (JObj [(''content'', JStr ''Yes.'')]) ''turn'' db = Some (db, ''a1'')"
proof -
  let ?db = "touch_thread 8000 ''ann'' first_id (sample_threads\<lparr>tb_messages := tb_messages sample_threads
      @ [new_message 8000 ''a1'' ''assistant'' first_id sample_msg ''turn'']\<rparr>)"
  have free: "keyed_message ''turn'' sample_threads = None" "''a1'' \<notin> mr_id ` set (tb_messages sample_threads)"
    by (simp_all add: keyed_message_def sample_threads_def sample_message_def)
  have thread: "getThread sample_threads ''ann'' first_id \<noteq> None"
    by (simp add: getThread_def sample_owned)
  have db: "store_assistant_message 8000 ''a1'' ''ann'' first_id sample_msg ''turn'' sample_threads = Some (?db, ''a1'')"
    using thread free by (simp add: store_assistant_message_def)
  have "getThread ?db ''ann'' first_id \<noteq> None"
    using thread by (simp add: getThread_touch)
  from interrupted_answer_stays[OF free(1) db this refl, where later = 9000 and i' = "''a2''"] show ?thesis
    using db by blast
qed

end
