(* ===== verification/Spec2Isabelle.thy ===== *)
theory Spec2Isabelle
  imports Prelude Js_Map Js_String Js_Regex Js_Hex Calendar Contracts
    Market_Phase Symbols Candles Indicators Indicator_Registry Smc
    Budget Budget_Alerts Alerts Billing Ipn Throttle Memory_Cache Failover
    Tick_Store Worker_Pipeline Hub_Consumer Symbol_Manager Cron_Jobs Analysis_Queue
    Prompt_Guards Resilience Mutation_Flow Outbox Key_Vault Telegram Journal Portfolio
    Risk_Sizing Market_Statistics Setup_Replay
    Accounts Sign_In Account_Actions Security_Settings Web_Guards
    Noise_Control Model_Catalog Model_Selection
    Shared_Cache Data_Adapters Market_Service Chat_Threads
begin

text \<open>
  A verification library for HamaFX-Ai (Kestrel), a trading assistant: market data with indicators
  and smart-money structure, price alerts, and language-model turns under a daily budget, sold as
  plans that are paid in crypto currency. The program is a TypeScript monorepo:

  \<^item> \<open>packages/shared\<close> holds the vocabulary (symbols, timeframes, sessions, schemas, plan features);
  \<^item> \<open>packages/indicators\<close> computes indicators and structure on candle windows;
  \<^item> \<open>packages/data\<close> fetches candles and prices from providers behind a cache, a throttle and a
    failover runner;
  \<^item> \<open>packages/ai\<close> runs the model turns, keeps the budget, and evaluates and delivers alerts;
  \<^item> \<open>packages/db\<close> holds the tables and their queries, \<open>apps/web\<close> the pages and handlers,
    \<open>apps/worker\<close> the tick pipeline and the scheduled jobs.

  \<^bold>\<open>How the parts meet.\<close> A scheduled run lists the alerts that may fire, reads prices, candles and
  indicators, claims each matching alert and delivers it. A model turn reserves its estimate on the
  day's counter, and settles the reservation when it ends; a job releases what a crashed turn left.
  A checkout creates one provider invoice for an idempotency key; the provider's notifications move
  the payment and the subscription, and what fails waits for an operator's replay. Every provider call
  goes through the throttle, the failover runner and the cache. The worker streams ticks from two
  hubs for the symbols of the watchlists, writes the newest tick and the closed minutes, and runs the
  jobs under a daily lock; full analyses wait in a durable queue that it claims from. A write asked
  for in the chat is drafted, confirmed with a token and then executed once; a chat write that fails
  goes to an outbox which the worker replays.

  \<^bold>\<open>The library.\<close>

  \<^item> \<open>Prelude\<close>: time stamps, list walks, the collections \<open>map_laws\<close>, \<open>inv_intros\<close>, \<open>date_simps\<close>.
  \<^item> \<open>Js_Map\<close>: the insertion-ordered map, as an association list; the locale \<open>keyed_store\<close> with its
    interpretation \<open>jm\<close>. \<open>Js_String\<close>: trimming, case, splitting of ASCII strings. \<open>Js_Regex\<close>: regular
    expressions as the program tests them, computed and as a relation. \<open>Js_Hex\<close>: bytes as hexadecimal
    text. \<open>Calendar\<close>: the civil calendar and the shift by months.
  \<^item> \<open>Contracts\<close>: the interfaces \<open>guarded_counter\<close> (an amount is added only within a cap; interpreted as
    \<open>day_counter\<close> in \<open>Budget\<close>) and \<open>lease\<close> (one owner until the lease runs out; interpreted as
    \<open>alert_lease\<close> in \<open>Alerts\<close>, \<open>ipn_lease\<close> and \<open>replay_lease\<close> in \<open>Ipn\<close>, \<open>cron_lease\<close> in \<open>Cron_Jobs\<close>) and
    \<open>quota_window\<close> (the first requests of a window are granted; interpreted as \<open>per_minute\<close> in
    \<open>Resilience\<close> and \<open>tg_window\<close> in \<open>Telegram\<close>). The clients' facts are proved once in the locale and
    reach the properties through these interpretations.

  \<^bold>\<open>The components.\<close>

  \<^item> \<open>Budget\<close> (\<open>packages/ai/src/cost.ts\<close>, \<open>budget-reservation.ts\<close>, \<open>budget-guard.ts\<close>): the tables
    \<open>daily_ai_spend\<close> and \<open>ai_budget_reservations\<close> are the record \<open>budget_db\<close>; reserving, reconciling,
    releasing and recovering are transactions on it, as are the corrections without a row and the purge of
    \<open>retention.ts\<close>. The lemmas show the balance of counter and ledger over runs of these events, up to
    what purges and corrections take out of it, the cap, the exact effect of recovery, and that a turn handle settles once whatever calls
    fail. \<open>Budget_Alerts\<close> is the rest of \<open>cost.ts\<close>: estimates, monthly spend, thresholds and their mails.
  \<^item> \<open>Billing\<close> (\<open>packages/db/src/queries/billing.ts\<close>, \<open>billing-extras.ts\<close>, \<open>apps/web/src/lib/billing-gate.ts\<close>,
    the checkout handler): tables as lists of rows in \<open>billing_db\<close>; the handler \<open>checkout\<close> is composed of the
    claim, the provider call, the bookkeeping and the completion or failure as in the code, each of whose
    statements may fail. \<open>checkout_ok\<close> is the invariant behind the invoices of a key: one, and one more
    for each provider answer that was lost before it was saved.
  \<^item> \<open>Ipn\<close> (\<open>ipn-events.ts\<close>, the webhook and replay handlers, \<open>nowpayments.ts\<close>): the event log, the
    dead-letter queue and the effects on payments and subscriptions. Failing database calls are the
    argument \<open>up\<close>: call \<open>n\<close> of a delivery succeeds when \<open>up n\<close>; earlier writes stay.
  \<^item> \<open>Alerts\<close> (\<open>packages/ai/src/alerts\<close>): rules and specifications, the simulator, the alerts table with
    every conditional update, delivery over the channels, and the evaluation run.
  \<^item> \<open>Throttle\<close>, \<open>Memory_Cache\<close>, \<open>Failover\<close> (\<open>packages/data/src\<close>): the two throttle backends over the
    same bucket; the cache as a map with steps \<open>fetch_begin\<close>, \<open>fetch_resolve\<close>, \<open>fetch_reject\<close>, which
    may interleave in any order; health samples, scores and the run over a list of attempts.
  \<^item> \<open>Smc\<close> (\<open>packages/indicators/src/smc\<close>): swings, breaks of structure, fair value gaps, order blocks,
    sweeps and the previous day's levels, with what each reported item certifies about the candles.
  \<^item> \<open>Indicators\<close>, \<open>Indicator_Registry\<close> (\<open>packages/indicators/src\<close>): the loops of the indicators
    and their relation to the textbook definitions; the registry with parameter parsing and dispatch.
  \<^item> \<open>Symbols\<close>, \<open>Market_Phase\<close>, \<open>Candles\<close> (\<open>packages/shared/src\<close>): the instrument catalog and its
    lookups, the forex sessions with their countdowns, the market data records.

  \<^item> \<open>Tick_Store\<close>, \<open>Worker_Pipeline\<close> (\<open>apps/worker/src/index.ts\<close>, \<open>aggregator\<close>, \<open>signalr/tick-buffer.ts\<close>,
    \<open>persistence\<close>): the candle aggregator with its refinement of the minutes of a tick stream, the
    buffer and the writers; the event loop as a step function over ticks, fired timers and settled
    writes, with the invariant behind what is in the table and that a pending tick gets written.
  \<^item> \<open>Hub_Consumer\<close>, \<open>Symbol_Manager\<close> (\<open>signalr/consumer.ts\<close>, \<open>base-ws-consumer.ts\<close>, \<open>symbol-manager.ts\<close>):
    the reconnect loops and subscriptions of both consumers, and in which runs of polls, outages and
    rebuilds the hub follows the manager (\<open>lossless\<close>).
  \<^item> \<open>Cron_Jobs\<close> (\<open>scheduler.ts\<close>, \<open>cron-lock.ts\<close>, \<open>tenant-router.ts\<close>) and \<open>Analysis_Queue\<close>
    (\<open>mastra-v2/workflows/full-analysis.ts\<close>, \<open>jobs/multi-agent-analysis.ts\<close>): locks, guards and partitions of
    the jobs; the queue with claims, retries, recovery of stale runs, the writes of the engine to the
    record of a claimed run, and the bound on claims that survives them.
  \<^item> \<open>Prompt_Guards\<close> (\<open>routing.ts\<close>, \<open>mastra/capabilities.ts\<close>, \<open>mastra/symbol-research.ts\<close>), \<open>Resilience\<close>
    (\<open>retry.ts\<close>, \<open>fallback.ts\<close>, \<open>model-circuit-breaker.ts\<close>, \<open>llm-throttle.ts\<close>) and \<open>Mutation_Flow\<close>
    (\<open>mutation-policy.ts\<close>, \<open>workflows/mutation.ts\<close> and two web handlers): what is decided about a prompt,
    what surrounds a model call, and the draft, confirmation and execution of a write; which resumes of a
    suspended run the workflow library lets through is an argument.
  \<^item> \<open>Outbox\<close> (\<open>persistence-outbox.ts\<close>, \<open>persistence-recovery.ts\<close>, the writers of messages and telemetry,
    \<open>diagnostics/redact.ts\<close>): the record \<open>chat_db\<close> of outbox, messages and telemetry; the lemmas give the
    bound on attempts, the lease, and what redaction and replay do to the queued data.
  \<^item> \<open>Key_Vault\<close> (\<open>packages/shared/src/encryption.ts\<close>, \<open>vault.ts\<close>), \<open>Telegram\<close> (\<open>packages/ai/src/telegram\<close>,
    \<open>bot\<close>), \<open>Journal\<close> and \<open>Portfolio\<close> (\<open>packages/ai/src/journal\<close>, \<open>portfolio\<close>): envelopes of secrets; message
    splitting, limits, repeated updates and account links of the bot; the journal with its summary
    against list definitions; positions with their risk report.
  \<^item> \<open>Risk_Sizing\<close>, \<open>Market_Statistics\<close>, \<open>Setup_Replay\<close> (\<open>packages/ai/src/tools\<close>): the tools of the assistant
    that compute: position sizing and its input schema, correlation, session levels, seasonality and
    the volatility forecast, and the replay of an entry rule on past candles. The lemmas show that the
    answers are well formed, what the figures are, and that the replay does not look ahead.
  \<^item> \<open>Accounts\<close>, \<open>Sign_In\<close> (\<open>packages/db/src/queries/auth.ts\<close>, \<open>users.ts\<close>, \<open>user-sessions.ts\<close>,
    \<open>apps/web/src/auth.ts\<close>, \<open>lib/auth\<close>): the tables of users, sessions, mailed tokens and account links are
    the record \<open>auth_db\<close>; \<open>authorize\<close>, the session callbacks and the Google sign-in are functions on it, with
    the argument \<open>up\<close> for statements that fail. \<open>Account_Actions\<close> and \<open>Security_Settings\<close> are the forms over
    it (registration, reset, verification; second factor, sessions, password, deletion). The lemmas show
    what a sign-in needs, how far guesses get, when a revoked session ends, and what each form changes.
  \<^item> \<open>Web_Guards\<close> (\<open>apps/web/src/proxy.ts\<close>, \<open>auth.config.ts\<close>, \<open>lib/api.ts\<close>, \<open>lib/cron.ts\<close>, \<open>lib/admin-auth.ts\<close>):
    the request proxy, the identity a handler sees, administrators and role changes.
  \<^item> \<open>Noise_Control\<close> (\<open>packages/ai/src/notifications\<close>): the evaluation of messages over the interface of a
    store, the locale \<open>noise_store\<close> with its extension \<open>cooling_store\<close>; the store in memory interprets both
    (\<open>memory_store\<close>), the store in the database only the first (\<open>db_store\<close>).
  \<^item> \<open>Model_Catalog\<close>, \<open>Model_Selection\<close> (\<open>packages/ai/src/_providers\<close>, \<open>model-*.ts\<close>, \<open>vertex-factory.ts\<close>,
    \<open>semantic-routing.ts\<close>): the catalogue of models, as data, with its check and the ways to a price; the choice
    of a model from keys, environment and circuits, fallbacks, and the classifier with its cache.
  \<^item> \<open>Shared_Cache\<close> (\<open>packages/data/src/cache\<close>): keys, lifetimes, the registry of one cache per tenant, and
    the cache on a server, whose replies are arguments and whose commands are results. \<open>Data_Adapters\<close> (\<open>adapters\<close>, \<open>providers\<close>): prices and candles over cache, failover
    and the providers, among them the tables that \<open>Tick_Store\<close> fills; the services are the record \<open>world\<close>.
    \<open>Market_Service\<close> (\<open>apps/web/src/lib/services/market.ts\<close>, \<open>alerts.ts\<close>): what the routes make of them.
  \<^item> \<open>Chat_Threads\<close> (\<open>packages/ai/src/persistence\<close>, \<open>mastra/title*.ts\<close>, the chat page and the thread
    routes): the tables of threads and messages, pages, forks, titles, and what the page, the memory's backfill and a turn read back. \<open>kept_apart\<close>
    says that a statement keeps the keys and the rows of other users; every operation has a lemma of that form.

  \<^bold>\<open>Conventions.\<close> Numbers of the code that are prices or ratios are reals, so rounding of doubles,
  \<open>NaN\<close> and infinities are outside the model (where a function can return \<open>NaN\<close> or \<open>null\<close> by its own
  logic, the model has an option); counters, cents and time stamps are integers. A thrown exception
  is a left injection or \<open>None\<close>. Clocks, random ids and tokens, environment flags, the answers of
  external services and of the database driver are arguments. A single SQL statement is one step,
  and so is a transaction; a function of several statements is modelled statement by statement where
  a failure or a race between them matters (\<open>Ipn\<close>, the turn handle of \<open>Budget\<close>, the checkout handler),
  and claims with a deciding conditional update are one step. Strings are sequences of single-byte
  characters, except the titles of threads, which are UTF-16 units.

  \<^bold>\<open>Loops and bounds.\<close> Nearly every loop is structural recursion or has a termination proof. The
  splitting of messages can run for ever and is a \<open>partial_function\<close> (\<open>chunk_loop\<close>; it returns for
  every limit of at least 500, the only caller uses 4000). The retry loop counts its remaining
  attempts down, and the replay of the outbox its remaining items, at most a hundred; both numbers are
  the code's own bounds, so they suffice by definition.

  \<^bold>\<open>What the lemmas do not claim.\<close> The model has no network, no scheduler of the runtime and no
  serialisation of rows. Concurrency is covered as sequences of the atomic steps above, in any order
  (claims, completions, cache steps, reservations).

  \<^bold>\<open>Not modelled yet\<close>, in the order in which an extension would take them: news and the economic calendar,
  the Markdown export of threads, the composition of briefings.
  \<^bold>\<open>Left out\<close> for good: pages and components, clients of external services, prompts and agents, logging
  and telemetry, schema declarations and migrations (the tables are the state of the components above).
\<close>

end
